(* ===== verification/Reader.thy ===== *)
theory Reader
  imports Prelude
begin

text \<open>
  The byte reader of the protocol codec (class \<open>Reader\<close> of
  include/mc/protocol/codec.hpp and src/protocol/codec.cpp): a span of bytes and
  an offset into it. A read either throws or returns a value and a reader with a
  larger offset. Readers compose with \<open>bindD\<close>; \<open>reader_at pre rest\<close> is a
  reader whose \<open>pre\<close> is consumed and whose \<open>rest\<close> is unread, the normal form in
  which the round-trip laws rewrite. The locale \<open>codec\<close> is the contract
  between a writer and its reader, \<open>fixed_codec\<close> its extension to images of
  one width, and the predicate \<open>safe\<close> states that a read stays inside the span.
\<close>

section \<open>The reader\<close>

record reader =
  data :: bytes
  offset :: nat

type_synonym 'a decoder = "reader \<Rightarrow> ('a \<times> reader) result"

definition mk_reader :: "bytes \<Rightarrow> reader" where
  "mk_reader bs = \<lparr>data = bs, offset = 0\<rparr>"

definition reader_empty :: "reader \<Rightarrow> bool" where
  "reader_empty r = (offset r = length (data r))"

definition remaining :: "reader \<Rightarrow> nat" where
  "remaining r = length (data r) - offset r"

definition advance :: "nat \<Rightarrow> reader \<Rightarrow> reader" where
  "advance n r = r\<lparr>offset := offset r + n\<rparr>"

definition read_bytes :: "nat \<Rightarrow> bytes decoder" where
  "read_bytes count r =
     (if count > remaining r then Inl (Decode_Error ''packet payload is truncated'')
      else Inr (take count (drop (offset r) (data r)), advance count r))"

section \<open>Sequencing reads\<close>

definition returnD :: "'a \<Rightarrow> 'a decoder" where
  "returnD x r = Inr (x, r)"

definition throwD :: "exn \<Rightarrow> 'a decoder" where
  "throwD e r = Inl e"

definition bindD :: "'a decoder \<Rightarrow> ('a \<Rightarrow> 'b decoder) \<Rightarrow> 'b decoder" where
  "bindD d f r = (case d r of Inl e \<Rightarrow> Inl e | Inr (x, r') \<Rightarrow> f x r')"

definition guardD :: "bool \<Rightarrow> exn \<Rightarrow> 'a decoder \<Rightarrow> 'a decoder" where
  "guardD bad e k = (if bad then throwD e else k)"

text \<open>Run a decoder a fixed number of times.\<close>

fun read_n :: "nat \<Rightarrow> 'a decoder \<Rightarrow> 'a list decoder" where
  "read_n 0 d = returnD []"
| "read_n (Suc n) d = bindD d (\<lambda>x. bindD (read_n n d) (\<lambda>xs. returnD (x # xs)))"

text \<open>Thread a state through reads, one for each element of a list.\<close>

fun foldD :: "('a \<Rightarrow> 's \<Rightarrow> 's decoder) \<Rightarrow> 'a list \<Rightarrow> 's \<Rightarrow> 's decoder" where
  "foldD f [] s = returnD s"
| "foldD f (x # xs) s = bindD (f x s) (foldD f xs)"

section \<open>The unread suffix\<close>

definition wf_reader :: "reader \<Rightarrow> bool" where
  "wf_reader r = (offset r \<le> length (data r))"

definition unread :: "reader \<Rightarrow> bytes" where
  "unread r = drop (offset r) (data r)"

definition reader_at :: "bytes \<Rightarrow> bytes \<Rightarrow> reader" where
  "reader_at pre rest = \<lparr>data = pre @ rest, offset = length pre\<rparr>"

named_theorems dec_simps

lemma mk_reader_at: "mk_reader bs = reader_at [] bs"
  by (simp add: mk_reader_def reader_at_def)

lemma reader_at_exhaust:
  assumes "wf_reader r"
  obtains pre rest where "r = reader_at pre rest"
proof
  show "r = reader_at (take (offset r) (data r)) (drop (offset r) (data r))"
    using assms by (cases r) (simp add: reader_at_def wf_reader_def)
qed

lemma reader_at_facts [simp]:
  "wf_reader (reader_at pre rest)"
  "unread (reader_at pre rest) = rest"
  "remaining (reader_at pre rest) = length rest"
  "data (reader_at pre rest) = pre @ rest"
  "offset (reader_at pre rest) = length pre"
  by (simp_all add: reader_at_def wf_reader_def unread_def remaining_def)

lemma reader_empty_at [simp]: "reader_empty (reader_at pre rest) \<longleftrightarrow> rest = []"
  by (simp add: reader_empty_def)

lemma remaining_unread: "remaining r = length (unread r)"
  by (simp add: remaining_def unread_def)

lemma advance_at [simp]:
  "n = length bs \<Longrightarrow> advance n (reader_at pre (bs @ rest)) = reader_at (pre @ bs) rest"
  by (simp add: advance_def reader_at_def)

lemma reader_at_inject:
  "reader_at p r = reader_at p' r' \<longleftrightarrow> p = p' \<and> r = r'"
  by (auto simp: reader_at_def)

lemma read_bytes_at [dec_simps]:
  "n = length bs \<Longrightarrow>
     read_bytes n (reader_at pre (bs @ rest)) = Inr (bs, reader_at (pre @ bs) rest)"
  by (simp add: read_bytes_def)

lemma read_bytes_all [dec_simps]:
  "read_bytes (length rest) (reader_at pre rest) = Inr (rest, reader_at (pre @ rest) [])"
  using read_bytes_at [of "length rest" rest pre "[]"] by simp

lemma read_bytes_short:
  "length rest < n \<Longrightarrow>
     read_bytes n (reader_at pre rest) = Inl (Decode_Error ''packet payload is truncated'')"
  by (simp add: read_bytes_def)

lemma returnD_run [dec_simps]: "returnD x r = Inr (x, r)"
  by (simp add: returnD_def)

lemma throwD_run [dec_simps]: "throwD e r = Inl e"
  by (simp add: throwD_def)

lemma bindD_Inr [dec_simps]: "d r = Inr (x, r') \<Longrightarrow> bindD d f r = f x r'"
  by (simp add: bindD_def)

lemma bindD_False [dec_simps]: "d r = Inr (False, r') \<Longrightarrow> bindD d f r = f False r'"
  by (simp add: bindD_def)

lemma bindD_Inl [dec_simps]: "d r = Inl e \<Longrightarrow> bindD d f r = Inl e"
  by (simp add: bindD_def)

lemma guardD_False [dec_simps]: "\<not> bad \<Longrightarrow> guardD bad e k = k"
  by (simp add: guardD_def)

lemma guardD_True [dec_simps]: "bad \<Longrightarrow> guardD bad e k = throwD e"
  by (simp add: guardD_def)

lemma bindD_Inr_iff:
  "bindD d f r = Inr p \<longleftrightarrow> (\<exists>x r'. d r = Inr (x, r') \<and> f x r' = Inr p)"
  by (cases "d r") (auto simp: bindD_def split_beta)

lemma bindD_Inl_iff:
  "bindD d f r = Inl e \<longleftrightarrow> d r = Inl e \<or> (\<exists>x r'. d r = Inr (x, r') \<and> f x r' = Inl e)"
  by (cases "d r") (auto simp: bindD_def split_beta)

lemma guardD_Inr_iff: "guardD bad e k r = Inr p \<longleftrightarrow> \<not> bad \<and> k r = Inr p"
  by (simp add: guardD_def throwD_def)

lemma returnD_Inr_iff: "returnD x r = Inr p \<longleftrightarrow> p = (x, r)"
  by (auto simp: returnD_def)

lemma throwD_Inr [simp]: "throwD e r \<noteq> Inr p"
  by (simp add: throwD_def)

lemmas decoder_iff = bindD_Inr_iff guardD_Inr_iff returnD_Inr_iff

lemma read_n_length: "read_n n d r = Inr (xs, r') \<Longrightarrow> length xs = n"
  by (induction n arbitrary: r xs r') (auto simp: decoder_iff)

section \<open>The safety contract\<close>

text \<open>
  A safe decoder leaves the span alone and moves the offset forward, never past
  the end.
\<close>

definition safe :: "'a decoder \<Rightarrow> bool" where
  "safe d = (\<forall>r x r'. wf_reader r \<longrightarrow> d r = Inr (x, r') \<longrightarrow>
     wf_reader r' \<and> data r' = data r \<and> offset r \<le> offset r')"

named_theorems safe_intros

lemma safeI:
  assumes "\<And>r x r'. wf_reader r \<Longrightarrow> d r = Inr (x, r') \<Longrightarrow>
      wf_reader r' \<and> data r' = data r \<and> offset r \<le> offset r'"
  shows "safe d"
  unfolding safe_def using assms by blast

lemma safeD:
  assumes "safe d" and "wf_reader r" and "d r = Inr (x, r')"
  shows "wf_reader r'" and "data r' = data r" and "offset r \<le> offset r'"
  using assms unfolding safe_def by blast+

lemma safe_returnD [safe_intros]: "safe (returnD x)"
  by (simp add: safe_def returnD_def)

lemma safe_throwD [safe_intros]: "safe (throwD e)"
  by (simp add: safe_def throwD_def)

lemma safe_bindD [safe_intros]: "safe d \<Longrightarrow> (\<And>x. safe (f x)) \<Longrightarrow> safe (bindD d f)"
  unfolding safe_def bindD_Inr_iff by (metis order_trans)

lemma safe_guardD [safe_intros]: "safe k \<Longrightarrow> safe (guardD c e k)"
  by (auto simp: guardD_def intro: safe_throwD)

lemma safe_if [safe_intros]: "(c \<Longrightarrow> safe a) \<Longrightarrow> (\<not> c \<Longrightarrow> safe b) \<Longrightarrow> safe (if c then a else b)"
  by simp

lemma safe_read_bytes [safe_intros]: "safe (read_bytes n)"
  by (auto simp: safe_def read_bytes_def advance_def wf_reader_def remaining_def
      split: if_splits)

lemma safe_foldD: "(\<And>x s. safe (f x s)) \<Longrightarrow> safe (foldD f xs s)"
  by (induction xs arbitrary: s) (auto intro: safe_intros)

lemma safe_read_n [safe_intros]: "safe d \<Longrightarrow> safe (read_n n d)"
  by (induction n) (auto intro: safe_intros)

section \<open>Reading an exact image\<close>

text \<open>\<open>reads d bs x\<close>: wherever \<open>bs\<close> stands, the decoder \<open>d\<close> consumes exactly \<open>bs\<close> and returns \<open>x\<close>.\<close>

definition reads :: "'a decoder \<Rightarrow> bytes \<Rightarrow> 'a \<Rightarrow> bool" where
  "reads d bs x = (\<forall>pre rest. d (reader_at pre (bs @ rest)) = Inr (x, reader_at (pre @ bs) rest))"

lemma readsI: "(\<And>pre rest. d (reader_at pre (bs @ rest)) = Inr (x, reader_at (pre @ bs) rest)) \<Longrightarrow> reads d bs x"
  by (simp add: reads_def)

lemma readsD: "reads d bs x \<Longrightarrow> d (reader_at pre (bs @ rest)) = Inr (x, reader_at (pre @ bs) rest)"
  by (simp add: reads_def)

lemma readsD_all: "reads d bs x \<Longrightarrow> d (reader_at pre bs) = Inr (x, reader_at (pre @ bs) [])"
  using readsD [of d bs x pre "[]"] by simp

lemma reads_returnD: "reads (returnD x) [] x"
  by (simp add: reads_def returnD_def)

lemma reads_bindD: "reads d bs x \<Longrightarrow> reads (f x) cs y \<Longrightarrow> reads (bindD d f) (bs @ cs) y"
  by (simp add: reads_def bindD_def)

lemma reads_bind_return: "reads d bs x \<Longrightarrow> reads (bindD d (\<lambda>x. returnD (f x))) bs (f x)"
  using reads_bindD [of d bs x "\<lambda>x. returnD (f x)" "[]" "f x"] by (simp add: reads_returnD)

lemma reads_guardD: "\<not> bad \<Longrightarrow> reads d bs x \<Longrightarrow> reads (guardD bad e d) bs x"
  by (simp add: guardD_def)

lemma reads_read_bytes: "n = length bs \<Longrightarrow> reads (read_bytes n) bs bs"
  by (simp add: reads_def read_bytes_at)

lemma reads_read_n:
  "list_all2 (reads d) bss xs \<Longrightarrow> reads (read_n (length xs) d) (concat bss) xs"
  by (induction bss xs rule: list_all2_induct)
    (auto intro!: reads_returnD reads_bindD reads_bind_return simp: reads_def bindD_def returnD_def)

lemma reads_foldD:
  assumes "\<And>x s. x \<in> set xs \<Longrightarrow> P s \<Longrightarrow> reads (f x s) (img x) (g x s) \<and> P (g x s)" and "P s"
  shows "reads (foldD f xs s) (concat (map img xs)) (fold g xs s) \<and> P (fold g xs s)"
  using assms
proof (induction xs arbitrary: s)
  case Nil
  then show ?case by (simp add: reads_returnD)
next
  case (Cons x xs)
  then have 1: "reads (f x s) (img x) (g x s)" "P (g x s)" by simp_all
  have "reads (foldD f xs (g x s)) (concat (map img xs)) (fold g xs (g x s)) \<and> P (fold g xs (g x s))"
    using Cons.IH [OF _ 1(2)] Cons.prems(1) by simp
  with reads_bindD [OF 1(1), of "foldD f xs"] show ?case by simp
qed

lemma reads_offset:
  "reads d bs x \<Longrightarrow> d \<lparr>data = out @ bs @ rest, offset = length out\<rparr> =
     Inr (x, \<lparr>data = out @ bs @ rest, offset = length (out @ bs)\<rparr>)"
  using readsD [of d bs x out rest] by (simp add: reader_at_def)

section \<open>The round-trip contract\<close>

text \<open>
  A writer appends the image of a value to its output; the reader run on that
  image returns the value and stops right behind it. \<open>ok\<close> is the set of values
  the writer accepts and the reader admits.
\<close>

locale codec =
  fixes put :: "bytes \<Rightarrow> 'a \<Rightarrow> bytes result"
    and get :: "'a decoder"
    and ok :: "'a \<Rightarrow> bool"
    and img :: "'a \<Rightarrow> bytes"
  assumes put_img: "ok v \<Longrightarrow> put out v = Inr (out @ img v)"
    and get_img: "ok v \<Longrightarrow>
      get (reader_at pre (img v @ rest)) = Inr (v, reader_at (pre @ img v) rest)"
begin

text \<open>Reading back what was just written, whatever was in the output before.\<close>

lemma put_get:
  assumes "ok v" and "put out v = Inr out'"
  shows "get \<lparr>data = out', offset = length out\<rparr> = Inr (v, \<lparr>data = out', offset = length out'\<rparr>)"
  using get_img [OF assms(1), of out "[]"] put_img [OF assms(1), of out] assms(2)
  by (simp add: reader_at_def)

lemma reads_img: "ok v \<Longrightarrow> reads get (img v) v"
  by (simp add: reads_def get_img)

lemma img_prefix_free:
  assumes "ok v" and "ok w" and "img v @ xs = img w @ ys"
  shows "v = w \<and> xs = ys"
proof -
  have "(Inr (v, reader_at (img v) xs) :: ('a \<times> reader) result) = Inr (w, reader_at (img w) ys)"
    using get_img [OF assms(1), of "[]" xs] get_img [OF assms(2), of "[]" ys]
    by (simp add: assms(3))
  then show ?thesis by (simp add: reader_at_inject)
qed

lemma img_inject: "ok v \<Longrightarrow> ok w \<Longrightarrow> img v = img w \<longleftrightarrow> v = w"
  using img_prefix_free [of v w "[]" "[]"] by auto

lemma get_many:
  assumes "\<forall>v \<in> set vs. ok v"
  shows "read_n (length vs) get (reader_at pre (concat (map img vs) @ rest)) =
    Inr (vs, reader_at (pre @ concat (map img vs)) rest)"
  using assms
  by (induction vs arbitrary: pre) (simp_all add: dec_simps get_img)

lemma put_many:
  assumes "\<forall>v \<in> set vs. ok v"
  shows "foldR (\<lambda>v out. put out v) vs out = Inr (out @ concat (map img vs))"
  using assms by (induction vs arbitrary: out) (simp_all add: put_img)

end

text \<open>A codec whose images all have the same width.\<close>

locale fixed_codec = codec put get ok img
  for put :: "bytes \<Rightarrow> 'a \<Rightarrow> bytes result" and get ok img +
  fixes width :: nat
  assumes img_width: "ok v \<Longrightarrow> length (img v) = width"
begin

lemma put_length: "ok v \<Longrightarrow> put out v = Inr out' \<Longrightarrow> length out' = length out + width"
  by (auto simp: put_img img_width)

lemma many_width: "\<forall>v \<in> set vs. ok v \<Longrightarrow> length (concat (map img vs)) = width * length vs"
  by (induction vs) (simp_all add: img_width)

end

end
