(* ===== verification/Words.thy ===== *)
theory Words
  imports Prelude "HOL-Library.Signed_Division"
begin

text \<open>
  Facts on machine words that the byte-level components share: splitting a word
  into seven-bit groups and into big-endian bytes, sign extension of packed
  fields, and decreasing shifts.
\<close>

section \<open>Masks and shifts\<close>

lemma and_127: "x AND 127 = take_bit 7 (x :: 'a::len word)"
  by (simp add: take_bit_eq_mask mask_numeral)
lemma and_128_zero: "(b :: u8) AND 128 = 0 \<longleftrightarrow> \<not> bit b 7"
  using and_exp_eq_0_iff_not_bit [of b 7] by simp
lemma bit_128: "bit (128 :: u8) n \<longleftrightarrow> n = 7"
  using bit_exp_iff [where 'a = u8, of 7 n] by auto
lemma unat_drop_bit: "unat (drop_bit n w) = unat (w :: 'a::len word) div 2 ^ n"
  by (subst unat_drop_bit_eq) (rule drop_bit_eq_div)

lemma unat_drop_bit_less:
  assumes "drop_bit n w \<noteq> 0" and "0 < n"
  shows "unat (drop_bit n w) < unat (w :: 'a::len word)"
proof -
  have "w \<noteq> 0" using assms(1) by auto
  then have "0 < unat w" by (simp add: unat_gt_0)
  moreover have "1 < (2::nat) ^ n" using assms(2) by (rule one_less_power [rotated]) simp
  ultimately show ?thesis by (simp only: unat_drop_bit div_less_dividend)
qed

section \<open>Seven-bit groups\<close>

lemma low7: "ucast (ucast (take_bit 7 (w::'w::len word)) AND 127 :: u8) = take_bit 7 w" if "8 \<le> LENGTH('w)"
  using that by (intro bit_eqI) (auto simp: and_127 bit_simps)
lemma low7': "ucast ((ucast (take_bit 7 (w::'w::len word)) OR 128) AND 127 :: u8) = take_bit 7 w" if "8 \<le> LENGTH('w)"
  using that by (intro bit_eqI) (auto simp: and_127 bit_simps bit_128)
lemma cont: "((ucast (take_bit 7 (w::'w::len word)) OR 128) AND 128 :: u8) \<noteq> 0"
  by (simp add: and_128_zero bit_simps bit_128)
lemma stop: "((ucast (take_bit 7 (w::'w::len word))) AND 128 :: u8) = 0" 
  by (simp add: and_128_zero bit_simps)
lemma join: "push_bit k (take_bit 7 w) OR push_bit (k + 7) (drop_bit 7 w) = push_bit k (w::'w::len word)"
proof -
  have "bit (push_bit k (take_bit 7 w) OR push_bit (k + 7) (drop_bit 7 w)) n = bit (push_bit k w) n" for n
  proof (cases "n - k < 7")
    case False
    then have "7 + (n - (k + 7)) = n - k" by simp
    with False show ?thesis by (auto simp: bit_simps)
  qed (auto simp: bit_simps)
  then show ?thesis by (intro bit_eqI) blast
qed


section \<open>Big-endian bytes\<close>

text \<open>\<open>be_bytes k w\<close> are the low \<open>k\<close> bytes of \<open>w\<close>, most significant first.\<close>

fun be_bytes :: "nat \<Rightarrow> 'w::len word \<Rightarrow> bytes" where
  "be_bytes 0 w = []"
| "be_bytes (Suc k) w = be_bytes k (drop_bit 8 w) @ [ucast w]"

definition be_value :: "bytes \<Rightarrow> 'w::len word" where
  "be_value bs = foldl (\<lambda>value b. push_bit 8 value OR ucast b) 0 bs"

lemma be_value_snoc: "be_value (bs @ [b]) = push_bit 8 (be_value bs) OR ucast b"
  by (simp add: be_value_def)

lemma be_join:
  assumes "8 \<le> LENGTH('w)"
  shows "push_bit 8 (take_bit k (drop_bit 8 w)) OR ucast (ucast w :: u8) =
    take_bit (k + 8) (w :: 'w::len word)"
  using assms by (intro bit_eqI) (auto simp: bit_simps)

lemma be_value_bytes:
  "8 \<le> LENGTH('w) \<Longrightarrow> be_value (be_bytes k w) = take_bit (8 * k) (w :: 'w::len word)"
  by (induction k arbitrary: w) (simp_all add: be_value_snoc be_join add.commute,
      simp add: be_value_def)

lemma length_be_bytes [simp]: "length (be_bytes k w) = k"
  by (induction k arbitrary: w) auto

lemma take_bit_word_self [simp]: "LENGTH('w) \<le> n \<Longrightarrow> take_bit n w = (w :: 'w::len word)"
  by (intro bit_word_eqI) (simp add: bit_take_bit_iff)

lemma be_value_u16 [simp]: "be_value (be_bytes 2 w) = (w :: u16)"
  by (simp add: be_value_bytes)

lemma be_value_u32 [simp]: "be_value (be_bytes 4 w) = (w :: u32)"
  by (simp add: be_value_bytes)

lemma be_value_u64 [simp]: "be_value (be_bytes 8 w) = (w :: u64)"
  by (simp add: be_value_bytes)

lemma be_bytes_shifts:
  "map (\<lambda>shift. ucast (drop_bit shift w)) [8, 0] = be_bytes 2 w"
  "map (\<lambda>shift. ucast (drop_bit shift w)) [24, 16, 8, 0] = be_bytes 4 w"
  "map (\<lambda>shift. ucast (drop_bit shift w)) [56, 48, 40, 32, 24, 16, 8, 0] = be_bytes 8 w"
  by (simp_all add: numeral_eq_Suc)

section \<open>Sign extension\<close>

lemma sign_extend_shift:
  assumes "0 < k" and "k \<le> 64"
  shows "signed_drop_bit (64 - k) (push_bit (64 - k) v) = signed_take_bit (k - 1) (v :: u64)"
proof (rule bit_word_eqI)
  fix n assume n: "n < LENGTH(64)"
  show "bit (signed_drop_bit (64 - k) (push_bit (64 - k) v)) n =
      bit (signed_take_bit (k - 1) v) n"
  proof (cases "n = k - 1")
    case True
    then have "bit (signed_drop_bit (64 - k) (push_bit (64 - k) v)) n = bit v (k - 1)"
      using assms by (auto simp: bit_simps)
    with True n show ?thesis by (simp add: bit_signed_take_bit_iff)
  next
    case False
    with n assms show ?thesis by (auto simp: bit_simps min_def)
  qed
qed

lemma signed_take_bit_word_self:
  assumes "- (2 ^ k) \<le> sint x" and "sint x < 2 ^ k"
  shows "signed_take_bit k x = (x :: 'w::len word)"
proof (rule bit_word_eqI)
  fix n assume n: "n < LENGTH('w)"
  have "bit x n = bit (sint x) n"
    using n by (simp add: bit_sint_iff)
  also have "\<dots> = bit (signed_take_bit k (sint x)) n"
    using assms by (simp add: signed_take_bit_int_eq_self)
  also have "\<dots> = bit x (min k n)"
    using n by (auto simp: bit_signed_take_bit_iff bit_sint_iff min_def)
  finally show "bit (signed_take_bit k x) n = bit x n"
    using n by (simp add: bit_signed_take_bit_iff)
qed

section \<open>Signed and unsigned readings\<close>

lemma sint_word_of_nat:
  assumes "n < 2 ^ (LENGTH('w) - 1)"
  shows "sint (word_of_nat n :: 'w::len word) = int n"
proof -
  have "- (2 ^ (LENGTH('w) - 1)) \<le> int n"
    by (rule order_trans [of _ 0]) simp_all
  moreover have "int n < 2 ^ (LENGTH('w) - 1)"
    using assms by (simp add: of_nat_less_numeral_power_cancel_iff)
  ultimately show ?thesis
    by (simp add: signed_of_nat signed_take_bit_int_eq_self)
qed

lemma unat_word_of_nat:
  "n < 2 ^ LENGTH('w) \<Longrightarrow> unat (word_of_nat n :: 'w::len word) = n"
  by (simp add: unat_of_nat)

text \<open>A size that fits a VarInt: not negative, and read back exactly.\<close>

lemma size_i32:
  assumes "n \<le> 2147483647"
  shows "\<not> sint (word_of_nat n :: i32) < 0" and "unat (word_of_nat n :: i32) = n"
  using assms by (simp_all add: sint_word_of_nat unat_word_of_nat)

section \<open>Bit tests on bytes as arithmetic\<close>

lemma unat_push_bit:
  "unat w * 2 ^ k < 2 ^ LENGTH('w) \<Longrightarrow> unat (push_bit k w) = unat (w :: 'w::len word) * 2 ^ k"
  by (subst unsigned_push_bit_eq) (simp add: push_bit_eq_mult take_bit_nat_eq_self)

lemma unat_eq_iff: "a = b \<longleftrightarrow> unat a = unat (b :: 'w::len word)"
  by (rule word_eq_iff_unsigned)

lemma u8_high: assumes "m = NOT (mask k)" "c = push_bit k d" "k < 8" "unat d < 2 ^ (8 - k)"
  shows "(b :: u8) AND m = c \<longleftrightarrow> unat b div 2 ^ k = unat d"
proof -
  have "b AND m = push_bit k (drop_bit k b)"
    by (rule bit_word_eqI) (auto simp: assms(1) bit_simps)
  moreover have "push_bit k (drop_bit k b) = push_bit k d \<longleftrightarrow> drop_bit k b = d"
  proof 
    assume "push_bit k (drop_bit k b) = push_bit k d"
    then have "drop_bit k (push_bit k (drop_bit k b)) = drop_bit k (push_bit k d)" by simp
    moreover have "drop_bit k (push_bit k x) = x" if "unat x < 2 ^ (8 - k)" for x :: u8
    proof (rule unsigned_word_eqI)
      have "(2::nat) ^ 8 = 2 ^ k * 2 ^ (8 - k)" using assms(3) by (simp flip: power_add)
      have "unat x * 2 ^ k < 2 ^ (8 - k) * 2 ^ k" using that by simp
      also have "\<dots> = 256" using \<open>2 ^ 8 = _\<close> by (simp add: mult.commute)
      finally have "unat x * 2 ^ k < 256" .
      then show "unat (drop_bit k (push_bit k x)) = unat x"
        by (simp add: unat_drop_bit unat_push_bit)
    qed
    moreover have "unat (drop_bit k b) < 2 ^ (8 - k)" 
    proof -
      have "(2::nat) ^ 8 = 2 ^ (8 - k) * 2 ^ k" using assms(3) by (simp flip: power_add)
      then show ?thesis using unat_u8_less [of b] by (simp add: unat_drop_bit less_mult_imp_div_less)
    qed
    ultimately show "drop_bit k b = d" using assms(4) by simp
  qed simp
  ultimately show ?thesis using assms(2) by (simp add: unat_eq_iff [of "drop_bit k b"] unat_drop_bit)
qed

lemma u8_tests: 
  "(b :: u8) AND 0xC0 = 0x80 \<longleftrightarrow> unat b div 64 = 2"
  "b AND 0xE0 = 0xC0 \<longleftrightarrow> unat b div 32 = 6"
  "b AND 0xF0 = 0xE0 \<longleftrightarrow> unat b div 16 = 14"
  "b AND 0xF8 = 0xF0 \<longleftrightarrow> unat b div 8 = 30"
  "b AND 0x80 = 0 \<longleftrightarrow> unat b div 128 = 0"
  using u8_high [of "0xC0" 6 "0x80" 2 b] u8_high [of "0xE0" 5 "0xC0" 6 b] u8_high [of "0xF0" 4 "0xE0" 14 b]
    u8_high [of "0xF8" 3 "0xF0" 30 b] u8_high [of "0x80" 7 0 0 b]
  by (simp_all add: mask_numeral)
lemma u8_low: 
  "unat ((b :: u8) AND 0x3F) = unat b mod 64" "unat (b AND 0x1F) = unat b mod 32"
  "unat (b AND 0x0F) = unat b mod 16" "unat (b AND 0x07) = unat b mod 8"
proof -
  have *: "unat (b AND mask k) = unat b mod 2 ^ k" for k
    by (simp add: unsigned_take_bit_eq flip: take_bit_eq_mask take_bit_eq_mod)
  show "unat (b AND 0x3F) = unat b mod 64" "unat (b AND 0x1F) = unat b mod 32"
    "unat (b AND 0x0F) = unat b mod 16" "unat (b AND 0x07) = unat b mod 8"
    using * [of 6] * [of 5] * [of 4] * [of 3] by (simp_all add: mask_numeral)
qed

lemma shift_or: 
  assumes "unat c < 2 ^ 26" "unat d < 64"
  shows "unat (push_bit 6 (c::u32) OR d) = unat c * 64 + unat d"
proof -
  have bits: "\<not> bit d n" if "6 \<le> n" for n
  proof -
    have "take_bit 6 d = d"
    proof (rule unsigned_word_eqI)
      show "unat (take_bit 6 d) = unat d"
        using assms(2) by (simp add: unsigned_take_bit_eq take_bit_nat_eq_self)
    qed
    then have "bit d n = bit (take_bit 6 d) n" by simp
    then show ?thesis using that by (simp add: bit_take_bit_iff)
  qed
  have "push_bit 6 c OR d = push_bit 6 c + d"
    by (rule disjunctive_add_eq_or [symmetric], rule bit_word_eqI) (auto simp: bit_simps bits)
  moreover have "unat (push_bit 6 c) = unat c * 64"
    using assms(1) unat_push_bit [of c 6] by simp
  ultimately show ?thesis
    using assms by (simp add: unat_word_ariths)
qed

lemma no_high_bit:
  fixes w :: "'w::len word"
  assumes "unat w < 2 ^ k" and "k \<le> n"
  shows "\<not> bit w n"
proof -
  have "take_bit k w = w"
  proof (rule unsigned_word_eqI)
    show "unat (take_bit k w) = unat w" using assms(1) by (simp add: unsigned_take_bit_eq take_bit_nat_eq_self)
  qed
  then show ?thesis using assms(2) bit_take_bit_iff [of k w n] by simp
qed

section \<open>Division rounding down\<close>

text \<open>C++ division rounds towards zero; the sources define these on top of it.\<close>

definition floor_div :: "int \<Rightarrow> int \<Rightarrow> int" where
  "floor_div v d = (let quotient = v sdiv d; remainder = v smod d in
     if remainder < 0 then quotient - 1 else quotient)"

definition floor_mod :: "int \<Rightarrow> int \<Rightarrow> u8" where
  "floor_mod v d = (let r = v smod d in word_of_int (if r < 0 then r + d else r))"

lemma signed_division:
  assumes "0 < (d :: int)"
  shows "v sdiv d = (if v < 0 \<and> v mod d \<noteq> 0 then v div d + 1 else v div d)"
    and "v smod d = (if v < 0 \<and> v mod d \<noteq> 0 then v mod d - d else v mod d)"
  using assms
  by (auto simp: signed_divide_int_def signed_modulo_int_def sgn_if zdiv_zminus1_eq_if zmod_zminus1_eq_if)

lemma floor_division:
  assumes "0 < d"
  shows floor_div_div: "floor_div v d = v div d" and floor_mod_mod: "floor_mod v d = word_of_int (v mod d)"
proof -
  have "0 \<le> v mod d" "v mod d < d" using assms by simp_all
  then have "v smod d < 0 \<longleftrightarrow> v < 0 \<and> v mod d \<noteq> 0" unfolding signed_division(2) [OF assms] by auto
  then show "floor_div v d = v div d" "floor_mod v d = word_of_int (v mod d)"
    using signed_division [OF assms, of v] by (simp_all add: floor_div_def floor_mod_def Let_def)
qed

end
