(* ===== verification/Codec.thy ===== *)
theory Codec
  imports Reader Words Strings
begin

text \<open>
  The protocol codec (src/protocol/codec.cpp): the primitive readers of class
  \<open>Reader\<close>, the matching \<open>write_...\<close> functions, the UTF-8 check that counts
  UTF-16 units, and the two packet framings. A writer takes the output buffer
  and returns it with the encoding appended; a writer that can throw returns a
  \<open>result\<close>. \<open>float\<close> and \<open>double\<close> are their IEEE bit patterns
  (\<open>std::bit_cast\<close>), so reading and writing one is exact. zlib is not part of
  the sources: the two calls the framing makes are parameters.
\<close>

section \<open>Variable-length integers\<close>

text \<open>
  The loop of \<open>Reader::read_varint\<close> and \<open>Reader::read_varlong\<close>, from byte \<open>i\<close>
  with the bits gathered so far. The two differ in the number of bytes, in the
  bits of the last byte that would overflow, and in their messages.
\<close>

function read_leb :: "nat \<Rightarrow> u8 \<Rightarrow> string \<Rightarrow> string \<Rightarrow> string \<Rightarrow> nat \<Rightarrow> 'w::len word \<Rightarrow> 'w word decoder" where
  "read_leb limit overflow truncated exceeds too_long i acc r =
     (if i < limit then
        if reader_empty r then Inl (Decode_Error truncated)
        else
          let byte = data r ! offset r; r' = r\<lparr>offset := offset r + 1\<rparr>
          in if i = limit - 1 \<and> byte AND overflow \<noteq> 0 then Inl (Decode_Error exceeds)
             else
               let acc' = acc OR push_bit (7 * i) (ucast (byte AND 0x7F))
               in if byte AND 0x80 = 0 then Inr (acc', r')
                  else read_leb limit overflow truncated exceeds too_long (i + 1) acc' r'
      else Inl (Decode_Error too_long))"
  by pat_completeness auto
termination
  by (relation "measure (\<lambda>(limit, _, _, _, _, i, _, _). limit - i)") auto
declare read_leb.simps [simp del]

definition read_varint :: "i32 decoder" where
  "read_varint = read_leb 5 0xF0 ''truncated VarInt'' ''VarInt exceeds 32 bits''
     ''VarInt is too long'' 0 0"

definition read_varlong :: "i64 decoder" where
  "read_varlong = read_leb 10 0xFE ''truncated VarLong'' ''VarLong exceeds 64 bits''
     ''VarLong is too long'' 0 0"

text \<open>The \<open>do ... while\<close> loop of \<open>write_varint\<close> and \<open>write_varlong\<close>.\<close>

function write_leb :: "bytes \<Rightarrow> 'w::len word \<Rightarrow> bytes" where
  "write_leb out rem =
     (let byte = ucast (rem AND 0x7F) :: u8; rem' = drop_bit 7 rem
      in if rem' \<noteq> 0 then write_leb (out @ [byte OR 0x80]) rem' else out @ [byte])"
  by pat_completeness auto
termination
  by (relation "measure (\<lambda>(out, rem). unat rem)") (auto intro: unat_drop_bit_less)
declare write_leb.simps [simp del]

definition write_varint :: "bytes \<Rightarrow> i32 \<Rightarrow> bytes" where
  "write_varint output value = write_leb output value"

definition write_varlong :: "bytes \<Rightarrow> i64 \<Rightarrow> bytes" where
  "write_varlong output value = write_leb output value"

lemma write_leb_append: "write_leb out rem = out @ write_leb [] rem"
proof (induction "unat rem" arbitrary: out rem rule: less_induct)
  case less
  show ?case
  proof (cases "drop_bit 7 rem = 0")
    case True
    then show ?thesis by (simp add: write_leb.simps [of _ rem] Let_def)
  next
    case False
    let ?b = "(ucast (rem AND 0x7F) :: u8) OR 0x80"
    from False have "write_leb (o' @ [?b]) (drop_bit 7 rem) = (o' @ [?b]) @ write_leb [] (drop_bit 7 rem)" for o'
      by (intro less.hyps unat_drop_bit_less) auto
    from this [of out] this [of "[]"] False show ?thesis
      by (simp add: write_leb.simps [of _ rem] Let_def)
  qed
qed

lemma reader_at_byte: 
  "data (reader_at pre (b # rest)) ! offset (reader_at pre (b # rest)) = b"
  "(reader_at pre (b # rest))\<lparr>offset := Suc (length pre)\<rparr> = reader_at (pre @ [b]) rest"
  by (simp_all add: reader_at_def)

lemma read_leb_step: "i < limit \<Longrightarrow> (i = limit - 1 \<Longrightarrow> b AND overflow = 0) \<Longrightarrow>
  read_leb limit overflow t e l i acc (reader_at pre (b # rest)) =
    (let acc' = acc OR push_bit (7 * i) (ucast (b AND 0x7F))
     in if b AND 0x80 = 0 then Inr (acc', reader_at (pre @ [b]) rest)
        else read_leb limit overflow t e l (i + 1) acc' (reader_at (pre @ [b]) rest))"
  by (auto simp add: read_leb.simps [of limit _ _ _ _ i] reader_at_byte Let_def)

lemma read_write_leb:
  fixes rem :: "'w::len word"
  assumes w: "8 \<le> LENGTH('w)" "LENGTH('w) \<le> 7 * limit" "7 * (limit - 1) < LENGTH('w)"
    and ov: "\<And>b::u8. unat b < 2 ^ (LENGTH('w) - 7 * (limit - 1)) \<Longrightarrow> b AND overflow = 0"
    and i: "i < limit" and rem: "unat rem < 2 ^ (LENGTH('w) - 7 * i)"
  shows "read_leb limit overflow t e l i acc (reader_at pre (write_leb [] rem @ rest)) =
    Inr (acc OR push_bit (7 * i) rem, reader_at (pre @ write_leb [] rem) rest)"
  using i rem
proof (induction "unat rem" arbitrary: i rem acc pre rule: less_induct)
  case less
  let ?low = "ucast (rem AND 0x7F) :: u8"
  let ?rem' = "drop_bit 7 rem"
  show ?case
  proof (cases "?rem' = 0")
    case True
    from True have bytes: "write_leb [] rem = [?low]"
       by (simp add: write_leb.simps [of _ rem] Let_def)
    from True have self: "take_bit 7 rem = rem"
      by (simp only: take_bit_eq_self_iff_drop_bit_eq_0)
    have "ucast (?low AND 0x7F) = take_bit 7 rem" "?low AND 0x80 = 0"
      by (simp_all only: and_127 [of rem] low7 [OF w(1)] stop)
    then have low: "ucast (?low AND 0x7F) = rem" "?low AND 0x80 = 0"
      by (simp_all only: self)
    have "unat ?low \<le> unat (rem AND 0x7F)"
      by (simp only: unsigned_ucast_eq take_bit_nat_less_eq_self)
    also have "\<dots> \<le> unat rem"
      by (simp add: word_and_le1 word_and_le2 flip: word_le_nat_alt)
    finally have "i = limit - 1 \<Longrightarrow> ?low AND overflow = 0"
      using less.prems(2) by (intro ov) simp
    with less.prems(1) show ?thesis
      by (simp only: bytes append.simps read_leb_step low Let_def if_True HOL.simp_thms)
  next
    case False
    let ?b = "?low OR 0x80"
    have bytes: "write_leb [] rem = ?b # write_leb [] ?rem'"
      using False write_leb_append [of "[?b]" ?rem'] by (simp add: write_leb.simps [of _ rem] Let_def)
    have "i < limit - 1"
    proof (rule ccontr)
      assume "\<not> i < limit - 1"
      then have "LENGTH('w) - 7 * i \<le> 7" using w(2) less.prems(1) by linarith
      then have "(2::nat) ^ (LENGTH('w) - 7 * i) \<le> 2 ^ 7" by (intro power_increasing) auto
      then have "unat ?rem' = 0" using less.prems(2) by (simp add: unat_drop_bit)
      then show False using False by (simp add: unat_eq_0)
    qed
    have "LENGTH('w) - 7 * i = 7 + (LENGTH('w) - 7 * (i + 1))"
    proof -
      have "7 * (i + 1) < LENGTH('w)"
        using \<open>i < limit - 1\<close> by (intro le_less_trans [OF _ w(3)]) simp
      then show ?thesis by simp
    qed
    then have "unat ?rem' < 2 ^ (LENGTH('w) - 7 * (i + 1))"
      using less.prems(2) by (simp only: unat_drop_bit power_add less_mult_imp_div_less mult.commute)
    then have IH: "read_leb limit overflow t e l (i + 1) v (reader_at p (write_leb [] ?rem' @ rest)) =
      Inr (v OR push_bit (7 * (i + 1)) ?rem', reader_at (p @ write_leb [] ?rem') rest)" for v p
      using False \<open>i < limit - 1\<close> by (intro less.hyps unat_drop_bit_less) auto
    have join': "push_bit (7 * i) (take_bit 7 rem) OR push_bit (7 * (i + 1)) ?rem' = push_bit (7 * i) rem"
      using join [of "7 * i" rem] by (simp add: algebra_simps)
    have low: "ucast (?b AND 0x7F) = take_bit 7 rem" "?b AND 0x80 \<noteq> 0"
      by (simp_all only: and_127 [of rem] low7' [OF w(1)] cont not_False_eq_True)
    from less.prems(1) \<open>i < limit - 1\<close> have "read_leb limit overflow t e l i acc (reader_at pre (write_leb [] rem @ rest)) =
        read_leb limit overflow t e l (i + 1) (acc OR push_bit (7 * i) (take_bit 7 rem))
          (reader_at (pre @ [?b]) (write_leb [] ?rem' @ rest))"
      by (subst bytes, subst append.simps, subst read_leb_step) (simp_all add: Let_def low)
    then show ?thesis
      by (simp only: IH bytes or.assoc join' append_assoc append.simps)
  qed
qed


section \<open>Fixed-width values\<close>

definition read_u8 :: "u8 decoder" where
  "read_u8 = bindD (read_bytes 1) (\<lambda>bytes. returnD (hd bytes))"

definition read_bool :: "bool decoder" where
  "read_bool = bindD (read_bytes 1) (\<lambda>bytes.
     guardD (hd bytes > 1) (Decode_Error ''boolean value is not zero or one'')
       (returnD (hd bytes \<noteq> 0)))"

definition read_i8 :: "i8 decoder" where
  "read_i8 = read_u8"

definition read_i16_be :: "i16 decoder" where
  "read_i16_be = bindD (read_bytes 2) (\<lambda>bytes.
     returnD (push_bit 8 (ucast (bytes ! 0)) OR ucast (bytes ! 1)))"

definition read_u16_be :: "u16 decoder" where
  "read_u16_be = bindD (read_bytes 2) (\<lambda>bytes.
     returnD (push_bit 8 (ucast (bytes ! 0)) OR ucast (bytes ! 1)))"

definition read_i32_be :: "i32 decoder" where
  "read_i32_be = bindD (read_bytes 4) (\<lambda>bytes.
     returnD (foldl (\<lambda>value byte. push_bit 8 value OR ucast byte) 0 bytes))"

definition read_i64_be :: "i64 decoder" where
  "read_i64_be = bindD (read_bytes 8) (\<lambda>bytes.
     returnD (foldl (\<lambda>value byte. push_bit 8 value OR ucast byte) 0 bytes))"

definition read_f32_be :: "u32 decoder" where
  "read_f32_be = read_i32_be"

definition read_f64_be :: "u64 decoder" where
  "read_f64_be = read_i64_be"

text \<open>\<open>Uuid\<close> is an array of sixteen bytes.\<close>

type_synonym uuid = bytes

definition read_uuid :: "uuid decoder" where
  "read_uuid = read_bytes 16"

definition read_angle :: "u8 decoder" where
  "read_angle = read_u8"

record block_position =
  pos_x :: i32
  pos_y :: i32
  pos_z :: i32

definition sign_extend :: "u64 \<Rightarrow> nat \<Rightarrow> i64" where
  "sign_extend value bits = (let shift = 64 - bits in signed_drop_bit shift (push_bit shift value))"

definition read_position :: "block_position decoder" where
  "read_position = bindD read_i64_be (\<lambda>packed. returnD
     \<lparr>pos_x = ucast (sign_extend (drop_bit 38 packed) 26),
      pos_y = ucast (sign_extend (packed AND 0xFFF) 12),
      pos_z = ucast (sign_extend (drop_bit 12 packed AND 0x3FFFFFF) 26)\<rparr>)"

definition write_bool :: "bytes \<Rightarrow> bool \<Rightarrow> bytes" where
  "write_bool output value = output @ [if value then 1 else 0]"

definition write_u8 :: "bytes \<Rightarrow> u8 \<Rightarrow> bytes" where
  "write_u8 output value = output @ [value]"

definition write_i8 :: "bytes \<Rightarrow> i8 \<Rightarrow> bytes" where
  "write_i8 output value = output @ [value]"

definition write_i16_be :: "bytes \<Rightarrow> i16 \<Rightarrow> bytes" where
  "write_i16_be output value = output @ [ucast (drop_bit 8 value), ucast value]"

definition write_u16_be :: "bytes \<Rightarrow> u16 \<Rightarrow> bytes" where
  "write_u16_be output value = output @ [ucast (drop_bit 8 value), ucast (value AND 0xFF)]"

definition write_i32_be :: "bytes \<Rightarrow> i32 \<Rightarrow> bytes" where
  "write_i32_be output value =
     foldl (\<lambda>out shift. out @ [ucast (drop_bit shift value)]) output [24, 16, 8, 0]"

definition write_i64_be :: "bytes \<Rightarrow> i64 \<Rightarrow> bytes" where
  "write_i64_be output value =
     foldl (\<lambda>out shift. out @ [ucast (drop_bit shift value)]) output [56, 48, 40, 32, 24, 16, 8, 0]"

definition write_f32_be :: "bytes \<Rightarrow> u32 \<Rightarrow> bytes" where
  "write_f32_be output value = write_i32_be output value"

definition write_f64_be :: "bytes \<Rightarrow> u64 \<Rightarrow> bytes" where
  "write_f64_be output value = write_i64_be output value"

definition write_uuid :: "bytes \<Rightarrow> uuid \<Rightarrow> bytes" where
  "write_uuid output value = output @ value"

definition write_angle :: "bytes \<Rightarrow> u8 \<Rightarrow> bytes" where
  "write_angle output value = write_u8 output value"

definition write_position :: "bytes \<Rightarrow> block_position \<Rightarrow> bytes result" where
  "write_position output value =
     (if sint (pos_x value) < -33554432 \<or> sint (pos_x value) > 33554431 \<or>
         sint (pos_z value) < -33554432 \<or> sint (pos_z value) > 33554431 \<or>
         sint (pos_y value) < -2048 \<or> sint (pos_y value) > 2047
      then Inl (Out_Of_Range ''block position exceeds packed protocol range'')
      else
        let packed = push_bit 38 (scast (pos_x value) AND 0x3FFFFFF) OR
              push_bit 12 (scast (pos_z value) AND 0x3FFFFFF) OR
              (scast (pos_y value) AND 0xFFF)
        in Inr (write_i64_be output packed))"

section \<open>Text\<close>

text \<open>
  \<open>utf16_length\<close> of the anonymous namespace: the loop over the bytes from the
  current offset, here over the unread bytes, with the units counted so far.
\<close>

definition utf8_width :: "u8 \<Rightarrow> (nat \<times> u32) option" where
  "utf8_width first =
     (if first \<le> 0x7F then Some (1, ucast first)
      else if first \<ge> 0xC2 \<and> first \<le> 0xDF then Some (2, ucast (first AND 0x1F))
      else if first \<ge> 0xE0 \<and> first \<le> 0xEF then Some (3, ucast (first AND 0x0F))
      else if first \<ge> 0xF0 \<and> first \<le> 0xF4 then Some (4, ucast (first AND 0x07))
      else None)"

fun utf8_continue :: "bytes \<Rightarrow> u32 \<Rightarrow> u32 result" where
  "utf8_continue [] codepoint = Inr codepoint"
| "utf8_continue (continuation # bs) codepoint =
     (if continuation AND 0xC0 \<noteq> 0x80
      then Inl (Decode_Error ''string contains invalid UTF-8'')
      else utf8_continue bs (push_bit 6 codepoint OR ucast (continuation AND 0x3F)))"

definition utf8_overlong :: "nat \<Rightarrow> u32 \<Rightarrow> bool" where
  "utf8_overlong width codepoint =
     (width = 2 \<and> codepoint < 0x80 \<or> width = 3 \<and> codepoint < 0x800 \<or>
      width = 4 \<and> codepoint < 0x10000)"

function utf16_length_from :: "bytes \<Rightarrow> nat \<Rightarrow> nat result" where
  "utf16_length_from [] units = Inr units"
| "utf16_length_from (first # rest) units =
     (case utf8_width first of
        None \<Rightarrow> Inl (Decode_Error ''string contains invalid UTF-8'')
      | Some (width, codepoint) \<Rightarrow>
          if width > Suc (length rest)
          then Inl (Decode_Error ''string contains truncated UTF-8'')
          else bindR (utf8_continue (take (width - 1) rest) codepoint) (\<lambda>codepoint.
            if utf8_overlong width codepoint \<or>
               codepoint \<ge> 0xD800 \<and> codepoint \<le> 0xDFFF \<or> codepoint > 0x10FFFF
            then Inl (Decode_Error ''string contains invalid UTF-8'')
            else utf16_length_from (drop (width - 1) rest)
                   (units + (if codepoint > 0xFFFF then 2 else 1))))"
  by pat_completeness auto
termination
  by (relation "measure (\<lambda>(bs, units). length bs)") auto

definition utf16_length :: "bytes \<Rightarrow> nat result" where
  "utf16_length bs = utf16_length_from bs 0"

definition liftD :: "'a result \<Rightarrow> 'a decoder" where
  "liftD m = (case m of Inl e \<Rightarrow> throwD e | Inr x \<Rightarrow> returnD x)"

definition read_string :: "nat \<Rightarrow> string decoder" where
  "read_string max_utf16_units = bindD read_varint (\<lambda>encoded_size.
     let max_encoded_bytes = max_utf16_units * 3
     in guardD (sint encoded_size < 0 \<or> unat encoded_size > max_encoded_bytes)
          (Decode_Error ''string length is out of bounds'')
          (bindD (read_bytes (unat encoded_size)) (\<lambda>bytes.
             bindD (liftD (utf16_length bytes)) (\<lambda>units.
               guardD (units > max_utf16_units) (Decode_Error ''decoded string is too long'')
                 (returnD (string_of bytes))))))"

definition write_string :: "bytes \<Rightarrow> string \<Rightarrow> bytes result" where
  "write_string output value =
     (if length value > 2147483647
      then Inl (Length_Error ''string is too large for a protocol VarInt'')
      else Inr (write_varint output (word_of_nat (length value)) @ bytes_of value))"

definition valid_namespace :: "char \<Rightarrow> bool" where
  "valid_namespace c = (char_between CHR ''a'' CHR ''z'' c \<or> char_between CHR ''0'' CHR ''9'' c \<or>
     c = CHR ''_'' \<or> c = CHR ''-'' \<or> c = CHR ''.'')"

definition valid_path :: "char \<Rightarrow> bool" where
  "valid_path c = (valid_namespace c \<or> c = CHR ''/'')"

definition read_identifier :: "string decoder" where
  "read_identifier = bindD (read_string 32767) (\<lambda>value.
     let separator = find_char CHR '':'' value;
         name_space = (case separator of None \<Rightarrow> ''minecraft'' | Some i \<Rightarrow> take i value);
         path = (case separator of None \<Rightarrow> value | Some i \<Rightarrow> drop (i + 1) value)
     in guardD (name_space = [] \<or> path = [] \<or> \<not> list_all valid_namespace name_space \<or>
               \<not> list_all valid_path path \<or>
               (case separator of None \<Rightarrow> False
                | Some i \<Rightarrow> find_char CHR '':'' (drop (i + 1) value) \<noteq> None))
          (Decode_Error ''invalid resource identifier'')
          (returnD (if separator = None then ''minecraft:'' @ value else value)))"

definition write_identifier :: "bytes \<Rightarrow> string \<Rightarrow> bytes result" where
  "write_identifier output value =
     bindR (write_string [] value) (\<lambda>encoded.
       bindR (read_identifier (mk_reader encoded)) (\<lambda>_.
         write_string output
           (if find_char CHR '':'' value = None then ''minecraft:'' @ value else value)))"

section \<open>Arrays, optionals and collections\<close>

definition read_byte_array :: "nat \<Rightarrow> bytes decoder" where
  "read_byte_array max_size = bindD read_varint (\<lambda>encoded_size.
     guardD (sint encoded_size < 0 \<or> unat encoded_size > max_size)
       (Decode_Error ''byte array length is out of bounds'')
       (read_bytes (unat encoded_size)))"

definition write_byte_array :: "bytes \<Rightarrow> bytes \<Rightarrow> bytes result" where
  "write_byte_array output value =
     (if length value > 2147483647
      then Inl (Length_Error ''byte array is too large for a protocol VarInt'')
      else Inr (write_varint output (word_of_nat (length value)) @ value))"

definition read_bitset :: "nat \<Rightarrow> u64 list decoder" where
  "read_bitset max_words = bindD read_varint (\<lambda>count.
     guardD (sint count < 0 \<or> unat count > max_words)
       (Decode_Error ''bitset word count is out of bounds'')
       (read_n (unat count) read_i64_be))"

definition write_bitset :: "bytes \<Rightarrow> u64 list \<Rightarrow> bytes result" where
  "write_bitset output ws =
     (if length ws > 2147483647
      then Inl (Length_Error ''bitset is too large for a protocol VarInt'')
      else Inr (foldl write_i64_be (write_varint output (word_of_nat (length ws))) ws))"

definition read_optional :: "'a decoder \<Rightarrow> 'a option decoder" where
  "read_optional d = bindD read_bool (\<lambda>present.
     if \<not> present then returnD None else bindD d (\<lambda>x. returnD (Some x)))"

definition write_optional :: "(bytes \<Rightarrow> 'a \<Rightarrow> bytes result) \<Rightarrow> bytes \<Rightarrow> 'a option \<Rightarrow> bytes result" where
  "write_optional e output value =
     (let output = write_bool output (value \<noteq> None)
      in case value of None \<Rightarrow> Inr output | Some x \<Rightarrow> e output x)"

definition read_collection :: "nat \<Rightarrow> 'a decoder \<Rightarrow> 'a list decoder" where
  "read_collection max_count d = bindD read_varint (\<lambda>count.
     guardD (sint count < 0 \<or> unat count > max_count)
       (Decode_Error ''collection count is out of bounds'')
       (read_n (unat count) d))"

definition write_collection :: "(bytes \<Rightarrow> 'a \<Rightarrow> bytes result) \<Rightarrow> bytes \<Rightarrow> 'a list \<Rightarrow> bytes result" where
  "write_collection e output vs =
     (if length vs > 2147483647
      then Inl (Length_Error ''collection is too large for a protocol VarInt'')
      else foldR (\<lambda>v out. e out v) vs (write_varint output (word_of_nat (length vs))))"

section \<open>Packet framing\<close>

definition frame_packet :: "i32 \<Rightarrow> bytes \<Rightarrow> bytes result" where
  "frame_packet packet_id payload =
     (let body = write_varint [] packet_id @ payload
      in if length body > 2147483647
         then Inl (Length_Error ''packet is too large for a protocol VarInt'')
         else Inr (write_varint [] (word_of_nat (length body)) @ body))"

text \<open>
  zlib: \<open>compress body\<close> is what \<open>compress2\<close> writes (\<open>None\<close> when it does not return
  \<open>Z_OK\<close>); \<open>inflate bs n\<close> is the outcome of \<open>inflate\<close> with \<open>Z_FINISH\<close> on the input
  \<open>bs\<close> and an output buffer of \<open>n\<close> bytes (\<open>None\<close> when \<open>inflateInit\<close> fails).
\<close>

record inflate_state =
  stream_end :: bool
  total_out :: nat
  avail_in :: nat
  out_buffer :: bytes

definition frame_compressed_packet ::
    "(bytes \<Rightarrow> bytes option) \<Rightarrow> i32 \<Rightarrow> bytes \<Rightarrow> nat \<Rightarrow> bytes result" where
  "frame_compressed_packet compress packet_id payload threshold =
     (let body = write_varint [] packet_id @ payload
      in if length body > 2147483647
         then Inl (Length_Error ''packet is too large for a protocol VarInt'')
         else bindR
           (if length body \<ge> threshold
            then (case compress body of
                    None \<Rightarrow> Inl (Runtime_Error ''zlib failed to compress packet'')
                  | Some c \<Rightarrow> Inr c)
            else Inr []) (\<lambda>compressed_body.
             let framed_payload =
                   write_varint [] (if compressed_body = [] then 0 else word_of_nat (length body)) @
                   (if compressed_body = [] then body else compressed_body)
             in if length framed_payload > 2147483647
                then Inl (Length_Error ''compressed packet is too large for a protocol VarInt'')
                else Inr (write_varint [] (word_of_nat (length framed_payload)) @ framed_payload)))"

definition decode_frame_payload ::
    "(bytes \<Rightarrow> nat \<Rightarrow> inflate_state option) \<Rightarrow> bytes \<Rightarrow> nat \<Rightarrow> nat \<Rightarrow> bytes result" where
  "decode_frame_payload inflate frame_payload threshold max_decompressed_size =
     bindR (read_varint (mk_reader frame_payload)) (\<lambda>(encoded_size, reader).
       if sint encoded_size < 0 \<or> unat encoded_size > max_decompressed_size
       then Inl (Decode_Error ''decompressed packet length is out of bounds'')
       else bindR (read_bytes (remaining reader) reader) (\<lambda>(compressed_data, reader).
         if encoded_size = 0
         then (if length compressed_data \<ge> threshold
               then Inl (Decode_Error ''uncompressed packet exceeds compression threshold'')
               else Inr compressed_data)
         else if unat encoded_size < threshold
         then Inl (Decode_Error ''compressed packet is below compression threshold'')
         else case inflate compressed_data (unat encoded_size) of
             None \<Rightarrow> Inl (Runtime_Error ''zlib failed to initialize decompression'')
           | Some st \<Rightarrow>
               if \<not> stream_end st \<or> total_out st \<noteq> unat encoded_size \<or> avail_in st \<noteq> 0
               then Inl (Decode_Error ''invalid compressed packet payload'')
               else Inr (out_buffer st)))"

section \<open>The primitive codecs\<close>

lemma write_varint_append: "write_varint out v = out @ write_varint [] v"
  unfolding write_varint_def by (rule write_leb_append)

lemma write_varlong_append: "write_varlong out v = out @ write_varlong [] v"
  unfolding write_varlong_def by (rule write_leb_append)

lemma and_high_mask_zero:
  "unat (b::u8) < 2 ^ 4 \<Longrightarrow> b AND 0xF0 = 0"
  "unat (b::u8) < 2 ^ 1 \<Longrightarrow> b AND 0xFE = 0"
proof -
  have *: "b AND m = b AND (mask n AND m)" if "unat b < 2 ^ n" "n < 8" for n and m :: u8
  proof -
    have "take_bit n b = b"
    proof (rule unsigned_word_eqI)
      show "unat (take_bit n b) = unat b"
        using that by (simp add: unsigned_take_bit_eq take_bit_nat_eq_self)
    qed
    then show ?thesis by (metis take_bit_eq_mask and.assoc)
  qed
  show "unat b < 2 ^ 4 \<Longrightarrow> b AND 0xF0 = 0"
    by (subst * [of 4]) (simp_all add: mask_numeral)
  show "unat b < 2 ^ 1 \<Longrightarrow> b AND 0xFE = 0"
    by (subst * [of 1]) (simp_all add: mask_numeral)
qed

lemma read_varint_write [dec_simps]:
  "read_varint (reader_at pre (write_varint [] v @ rest)) =
     Inr (v, reader_at (pre @ write_varint [] v) rest)"
  unfolding read_varint_def write_varint_def
  using read_write_leb [of 5 "0xF0" 0 v _ _ _ 0 pre rest] and_high_mask_zero unsigned_less [of v]
  by simp

lemma read_varlong_write [dec_simps]:
  "read_varlong (reader_at pre (write_varlong [] v @ rest)) =
     Inr (v, reader_at (pre @ write_varlong [] v) rest)"
  unfolding read_varlong_def write_varlong_def
  using read_write_leb [of 10 "0xFE" 0 v _ _ _ 0 pre rest] and_high_mask_zero unsigned_less [of v]
  by simp

interpretation varint: codec "\<lambda>out v. Inr (write_varint out v)" read_varint "\<lambda>_. True" "write_varint []"
  by unfold_locales (auto simp: dec_simps intro: write_varint_append)

interpretation varlong: codec "\<lambda>out v. Inr (write_varlong out v)" read_varlong "\<lambda>_. True" "write_varlong []"
  by unfold_locales (auto simp: dec_simps intro: write_varlong_append)

text \<open>Every encoding has between one and five (ten) bytes.\<close>

lemma write_leb_length:
  "unat rem < 2 ^ (7 * n) \<Longrightarrow> 0 < n \<Longrightarrow>
     0 < length (write_leb [] rem) \<and> length (write_leb [] rem) \<le> n"
proof (induction n arbitrary: rem)
  case (Suc n)
  show ?case
  proof (cases "drop_bit 7 rem = 0")
    case True
    then show ?thesis by (simp add: write_leb.simps [of _ rem] Let_def)
  next
    case False
    have small: "unat (drop_bit 7 rem) < 2 ^ (7 * n)"
      using Suc.prems(1) by (simp add: unat_drop_bit less_mult_imp_div_less power_add mult.commute)
    have "0 < n"
      using small False by (cases n) (auto simp: unat_eq_0)
    then have "length (write_leb [] (drop_bit 7 rem)) \<le> n"
      using Suc.IH small by blast
    then show ?thesis
      using False write_leb_append [of "[_]" "drop_bit 7 rem"]
      by (simp add: write_leb.simps [of _ rem] Let_def)
  qed
qed simp

lemma write_varint_length: "0 < length (write_varint [] v)" "length (write_varint [] v) \<le> 5"
proof -
  have "unat v < 2 ^ (7 * 5)"
    using unsigned_less [where 'a = nat, of v] by simp
  from write_leb_length [OF this] show "0 < length (write_varint [] v)" "length (write_varint [] v) \<le> 5"
    by (simp_all add: write_varint_def)
qed

lemma write_varlong_length: "0 < length (write_varlong [] v)" "length (write_varlong [] v) \<le> 10"
proof -
  have "unat v < 2 ^ (7 * 10)"
    using unsigned_less [where 'a = nat, of v] by simp
  from write_leb_length [OF this] show "0 < length (write_varlong [] v)" "length (write_varlong [] v) \<le> 10"
    by (simp_all add: write_varlong_def)
qed

lemma write_varint_nonempty [simp]: "write_varint [] v \<noteq> []"
  using write_varint_length(1) [of v] by auto

text \<open>Big-endian writers append the bytes of the value.\<close>

lemma write_i16_be_img: "write_i16_be out v = out @ be_bytes 2 v"
  by (simp add: write_i16_be_def numeral_eq_Suc)

lemma write_u16_be_img: "write_u16_be out v = out @ be_bytes 2 v"
proof -
  have "ucast (v AND 0xFF) = (ucast v :: u8)"
  proof (rule bit_word_eqI)
    have "v AND 0xFF = take_bit 8 v"
      by (simp add: take_bit_eq_mask mask_numeral)
    then show "bit (ucast (v AND 0xFF) :: u8) n = bit (ucast v :: u8) n" if "n < LENGTH(8)" for n
      using that by (simp add: bit_simps)
  qed
  then show ?thesis
    by (simp add: write_u16_be_def numeral_eq_Suc)
qed

lemma write_i32_be_img: "write_i32_be out v = out @ be_bytes 4 v"
  by (simp add: write_i32_be_def numeral_eq_Suc)

lemma write_i64_be_img: "write_i64_be out v = out @ be_bytes 8 v"
  by (simp add: write_i64_be_def numeral_eq_Suc)

named_theorems write_img

lemmas [write_img] = write_i16_be_img write_u16_be_img write_i32_be_img write_i64_be_img
  write_bool_def write_u8_def write_i8_def write_f32_be_def write_f64_be_def
  write_uuid_def write_angle_def

lemma be_value_foldl: "foldl (\<lambda>value byte. push_bit 8 value OR ucast byte) 0 bs = be_value bs"
  by (simp add: be_value_def)

lemma two_bytes:
  "length bs = 2 \<Longrightarrow> push_bit 8 (ucast (bs ! 0)) OR ucast (bs ! Suc 0) = be_value bs"
  by (cases bs; cases "tl bs") (auto simp: be_value_def)

lemma read_u8_cons [dec_simps]: "read_u8 (reader_at pre (b # rest)) = Inr (b, reader_at (pre @ [b]) rest)"
  using read_bytes_at [of 1 "[b]" pre rest] by (simp add: read_u8_def dec_simps)

lemma read_i8_cons [dec_simps]: "read_i8 (reader_at pre (b # rest)) = Inr (b, reader_at (pre @ [b]) rest)"
  by (simp add: read_i8_def dec_simps)

lemma read_angle_cons [dec_simps]:
  "read_angle (reader_at pre (b # rest)) = Inr (b, reader_at (pre @ [b]) rest)"
  by (simp add: read_angle_def dec_simps)

lemma read_bool_cons [dec_simps]:
  "read_bool (reader_at pre ((if v then 1 else 0) # rest)) =
     Inr (v, reader_at (pre @ [if v then 1 else 0]) rest)"
  using read_bytes_at [of 1 "[if v then 1 else 0]" pre rest]
  by (cases v) (simp_all add: read_bool_def dec_simps)

lemma read_bool_bits [dec_simps]:
  "read_bool (reader_at pre (1 # rest)) = Inr (True, reader_at (pre @ [1]) rest)"
  "read_bool (reader_at pre (0 # rest)) = Inr (False, reader_at (pre @ [0]) rest)"
  using read_bool_cons [of pre True rest] read_bool_cons [of pre False rest] by simp_all

lemma read_u16_be_at [dec_simps]:
  "read_u16_be (reader_at pre (be_bytes 2 v @ rest)) = Inr (v, reader_at (pre @ be_bytes 2 v) rest)"
  by (simp add: read_u16_be_def dec_simps two_bytes)

lemma read_i16_be_at [dec_simps]:
  "read_i16_be (reader_at pre (be_bytes 2 v @ rest)) = Inr (v, reader_at (pre @ be_bytes 2 v) rest)"
  by (simp add: read_i16_be_def dec_simps two_bytes)

lemma read_i32_be_at [dec_simps]:
  "read_i32_be (reader_at pre (be_bytes 4 v @ rest)) = Inr (v, reader_at (pre @ be_bytes 4 v) rest)"
  by (simp add: read_i32_be_def dec_simps be_value_foldl)

lemma read_i64_be_at [dec_simps]:
  "read_i64_be (reader_at pre (be_bytes 8 v @ rest)) = Inr (v, reader_at (pre @ be_bytes 8 v) rest)"
  by (simp add: read_i64_be_def dec_simps be_value_foldl)

lemma read_f32_be_at [dec_simps]:
  "read_f32_be (reader_at pre (be_bytes 4 v @ rest)) = Inr (v, reader_at (pre @ be_bytes 4 v) rest)"
  by (simp add: read_f32_be_def dec_simps)

lemma read_f64_be_at [dec_simps]:
  "read_f64_be (reader_at pre (be_bytes 8 v @ rest)) = Inr (v, reader_at (pre @ be_bytes 8 v) rest)"
  by (simp add: read_f64_be_def dec_simps)

lemma read_uuid_at [dec_simps]:
  "length u = 16 \<Longrightarrow> read_uuid (reader_at pre (u @ rest)) = Inr (u, reader_at (pre @ u) rest)"
  by (simp add: read_uuid_def dec_simps)

interpretation bool: fixed_codec "\<lambda>out v. Inr (write_bool out v)" read_bool "\<lambda>_. True" "write_bool []" 1
  by unfold_locales (auto simp: dec_simps write_img)

interpretation u8: fixed_codec "\<lambda>out v. Inr (write_u8 out v)" read_u8 "\<lambda>_. True" "write_u8 []" 1
  by unfold_locales (auto simp: dec_simps write_img)

interpretation i8: fixed_codec "\<lambda>out v. Inr (write_i8 out v)" read_i8 "\<lambda>_. True" "write_i8 []" 1
  by unfold_locales (auto simp: dec_simps write_img)

interpretation angle: fixed_codec "\<lambda>out v. Inr (write_angle out v)" read_angle "\<lambda>_. True" "write_angle []" 1
  by unfold_locales (auto simp: dec_simps write_img)

interpretation i16: fixed_codec "\<lambda>out v. Inr (write_i16_be out v)" read_i16_be "\<lambda>_. True" "write_i16_be []" 2
  by unfold_locales (auto simp: dec_simps write_img)

interpretation u16: fixed_codec "\<lambda>out v. Inr (write_u16_be out v)" read_u16_be "\<lambda>_. True" "write_u16_be []" 2
  by unfold_locales (auto simp: dec_simps write_img)

interpretation i32: fixed_codec "\<lambda>out v. Inr (write_i32_be out v)" read_i32_be "\<lambda>_. True" "write_i32_be []" 4
  by unfold_locales (auto simp: dec_simps write_img)

interpretation i64: fixed_codec "\<lambda>out v. Inr (write_i64_be out v)" read_i64_be "\<lambda>_. True" "write_i64_be []" 8
  by unfold_locales (auto simp: dec_simps write_img)

interpretation f32: fixed_codec "\<lambda>out v. Inr (write_f32_be out v)" read_f32_be "\<lambda>_. True" "write_f32_be []" 4
  by unfold_locales (auto simp: dec_simps write_img)

interpretation f64: fixed_codec "\<lambda>out v. Inr (write_f64_be out v)" read_f64_be "\<lambda>_. True" "write_f64_be []" 8
  by unfold_locales (auto simp: dec_simps write_img)

interpretation uuid: fixed_codec "\<lambda>out v. Inr (write_uuid out v)" read_uuid "\<lambda>u. length u = 16" "write_uuid []" 16
  by unfold_locales (auto simp: dec_simps write_img)

section \<open>Packed block positions\<close>

definition position_in_range :: "block_position \<Rightarrow> bool" where
  "position_in_range p =
     (-33554432 \<le> sint (pos_x p) \<and> sint (pos_x p) \<le> 33554431 \<and>
      -33554432 \<le> sint (pos_z p) \<and> sint (pos_z p) \<le> 33554431 \<and>
      -2048 \<le> sint (pos_y p) \<and> sint (pos_y p) \<le> 2047)"

definition pack_position :: "block_position \<Rightarrow> u64" where
  "pack_position p = push_bit 38 (scast (pos_x p) AND 0x3FFFFFF) OR
     push_bit 12 (scast (pos_z p) AND 0x3FFFFFF) OR (scast (pos_y p) AND 0xFFF)"

lemma mask_26_12: "x AND 0x3FFFFFF = take_bit 26 (x :: u64)" "x AND 0xFFF = take_bit 12 x"
  by (simp_all add: take_bit_eq_mask mask_numeral)

lemma unpack_fields:
  assumes "p = push_bit 38 (take_bit 26 (a :: u64)) OR push_bit 12 (take_bit 26 b) OR take_bit 12 c"
  shows "drop_bit 38 p = take_bit 26 a"
    and "take_bit 12 p = take_bit 12 c"
    and "take_bit 26 (drop_bit 12 p) = take_bit 26 b"
  unfolding assms by (rule bit_word_eqI; auto simp: bit_simps min_def)+

lemma narrow_field:
  "ucast (signed_take_bit 25 (take_bit 26 (scast (x :: i32) :: u64))) = signed_take_bit 25 x"
  "ucast (signed_take_bit 11 (take_bit 12 (scast (x :: i32) :: u64))) = signed_take_bit 11 x"
  by (rule bit_word_eqI; auto simp: bit_simps min_def)+

lemma read_position_at:
  assumes "position_in_range p"
  shows "read_position (reader_at pre (be_bytes 8 (pack_position p) @ rest)) =
    Inr (p, reader_at (pre @ be_bytes 8 (pack_position p)) rest)"
proof -
  note fields = unpack_fields [OF pack_position_def [of p, unfolded mask_26_12]]
  have self: "signed_take_bit 25 (pos_x p) = pos_x p" "signed_take_bit 25 (pos_z p) = pos_z p"
      "signed_take_bit 11 (pos_y p) = pos_y p"
    using assms by (auto simp: position_in_range_def intro!: signed_take_bit_word_self)
  show ?thesis
    using sign_extend_shift [of 26] sign_extend_shift [of 12]
    by (simp add: read_position_def dec_simps sign_extend_def mask_26_12 fields narrow_field self)
qed

lemma write_position_in_range:
  "position_in_range p \<Longrightarrow> write_position out p = Inr (out @ be_bytes 8 (pack_position p))"
  by (auto simp: write_position_def position_in_range_def pack_position_def write_img Let_def)

lemma write_position_out_of_range:
  "\<not> position_in_range p \<Longrightarrow> write_position out p =
     Inl (Out_Of_Range ''block position exceeds packed protocol range'')"
  by (auto simp: write_position_def position_in_range_def)

interpretation position: fixed_codec write_position read_position position_in_range
    "\<lambda>p. be_bytes 8 (pack_position p)" 8
  by unfold_locales (simp_all add: write_position_in_range read_position_at)


section \<open>UTF-8 as a specification\<close>

text \<open>
  The encoding of a Unicode scalar value in UTF-8 and its length in UTF-16 units,
  by arithmetic on code points; \<open>utf16_length\<close> accepts exactly the encodings of
  lists of scalar values.
\<close>

definition scalar_value :: "nat \<Rightarrow> bool" where
  "scalar_value c = (c \<le> 0x10FFFF \<and> \<not> (0xD800 \<le> c \<and> c \<le> 0xDFFF))"

definition utf8_encode :: "nat \<Rightarrow> bytes" where
  "utf8_encode c =
     map word_of_nat
       (if c < 0x80 then [c]
        else if c < 0x800 then [192 + c div 64, 128 + c mod 64]
        else if c < 0x10000 then [224 + c div 4096, 128 + c div 64 mod 64, 128 + c mod 64]
        else [240 + c div 262144, 128 + c div 4096 mod 64, 128 + c div 64 mod 64, 128 + c mod 64])"

definition utf16_units :: "nat \<Rightarrow> nat" where
  "utf16_units c = (if c > 0xFFFF then 2 else 1)"

lemma utf8_width_nat:
  "utf8_width b = (if unat b < 128 then Some (1, ucast b)
     else if 194 \<le> unat b \<and> unat b < 224 then Some (2, ucast (b AND 0x1F))
     else if 224 \<le> unat b \<and> unat b < 240 then Some (3, ucast (b AND 0x0F))
     else if 240 \<le> unat b \<and> unat b < 245 then Some (4, ucast (b AND 0x07)) else None)"
  by (simp add: utf8_width_def word_le_nat_alt)

lemma u32_of_u8: "unat (ucast (b :: u8) :: u32) = unat b"
  by (simp add: unsigned_ucast_eq take_bit_nat_eq_self less_trans [OF unat_u8_less])

lemma utf8_continue_step:
  assumes "unat c < 2 ^ 26"
  shows "unat (push_bit 6 (c :: u32) OR ucast (b AND 0x3F :: u8)) = unat c * 64 + unat b mod 64"
  using assms by (subst shift_or) (simp_all add: u32_of_u8 u8_low)

lemma utf8_continue_cons:
  "unat c < 2 ^ 26 \<Longrightarrow> utf8_continue (b # bs) c = Inr d \<longleftrightarrow>
     unat b div 64 = 2 \<and> utf8_continue bs (word_of_nat (unat c * 64 + unat b mod 64)) = Inr d"
  using utf8_continue_step [of c b] by (simp add: u8_tests flip: utf8_continue_step)

declare utf8_continue.simps(2) [simp del]

lemma utf8_continue_1:
  assumes "unat c < 8388608"
  shows "utf8_continue [x] c = Inr d \<longleftrightarrow>
    unat x div 64 = 2 \<and> unat d = unat c * 64 + unat x mod 64"
proof -
  have "unat c * 64 + unat x mod 64 < 4294967296"
    using assms mod_less_divisor [of 64 "unat x"] by simp
  then have "word_of_nat (unat c * 64 + unat x mod 64) = d \<longleftrightarrow> unat d = unat c * 64 + unat x mod 64"
    by (auto simp: unat_eq_iff unat_word_of_nat simp del: of_nat_add of_nat_mult)
  with assms show ?thesis
    by (simp add: utf8_continue_cons del: of_nat_add of_nat_mult)
qed

lemma utf8_continue_more:
  assumes "unat c < 67108864"
  shows "utf8_continue (x # bs) c = Inr d \<longleftrightarrow> unat x div 64 = 2 \<and>
    (\<exists>c'. unat c' = unat c * 64 + unat x mod 64 \<and> utf8_continue bs c' = Inr d)"
proof -
  have "unat c * 64 + unat x mod 64 < 4294967296"
    using assms mod_less_divisor [of 64 "unat x"] by simp
  then have "unat c' = unat c * 64 + unat x mod 64 \<longleftrightarrow> c' = word_of_nat (unat c * 64 + unat x mod 64)" for c' :: u32
    by (auto simp: unat_eq_iff unat_word_of_nat simp del: of_nat_add of_nat_mult)
  with assms show ?thesis
    by (simp add: utf8_continue_cons del: of_nat_add of_nat_mult)
qed

lemma unat_u32_of_nat: "n < 4294967296 \<Longrightarrow> unat (word_of_nat n :: u32) = n"
  by (simp add: unat_word_of_nat)

lemma word_of_nat_unat: "word_of_nat (unat w) = (w :: 'w::len word)"
  by simp

lemma base64_digit: "m < 64 \<Longrightarrow> (a * 64 + m) div 64 = a" "m < 64 \<Longrightarrow> (a * 64 + m) mod 64 = (m :: nat)"
  by simp_all

lemma base64_div: "n div 4096 = n div 64 div 64" "n div 262144 = n div 64 div 64 div (64 :: nat)"
  by (simp_all flip: div_mult2_eq)

lemma continuation_byte: "unat (b :: u8) div 64 = 2 \<Longrightarrow> unat b = 128 + unat b mod 64"
  using div_mult_mod_eq [of "unat b" 64] by simp

lemma lead_bytes:
  "194 \<le> n \<Longrightarrow> n < 224 \<Longrightarrow> 192 + n mod 32 = (n :: nat)"
  "224 \<le> n \<Longrightarrow> n < 240 \<Longrightarrow> 224 + n mod 16 = n"
  "240 \<le> n \<Longrightarrow> n < 245 \<Longrightarrow> 240 + n mod 8 = n"
  using div_mult_mod_eq [of n 32] div_mult_mod_eq [of n 16] div_mult_mod_eq [of n 8]
    div_nat_eqI [of 32 6 n] div_nat_eqI [of 16 14 n] div_nat_eqI [of 8 30 n]
  by simp_all

lemma utf8_encode_2:
  assumes "194 \<le> unat b" "unat b < 224" "unat x div 64 = 2"
  shows "utf8_encode (unat b mod 32 * 64 + unat x mod 64) = [b, x]"
proof -
  let ?q = "unat b mod 32" and ?m = "unat x mod 64"
  have q: "192 + ?q = unat b" and m: "128 + ?m = unat x"
    using lead_bytes(1) [OF assms(1,2)] continuation_byte [OF assms(3)] by simp_all
  then have "2 \<le> ?q" "?q < 32" "?m < 64" using assms by simp_all
  then have "\<not> ?q * 64 + ?m < 0x80" "?q * 64 + ?m < 0x800" by linarith+
  moreover have "(?q * 64 + ?m) div 64 = ?q" "(?q * 64 + ?m) mod 64 = ?m"
    using \<open>?m < 64\<close> by (rule base64_digit)+
  ultimately show ?thesis
    by (simp only: utf8_encode_def if_True if_False list.map q m word_of_nat_unat)
qed

lemma base64_bounds:
  "q < 16 \<Longrightarrow> m < 64 \<Longrightarrow> l < 64 \<Longrightarrow> (q * 64 + m) * 64 + l < (65536 :: nat)"
  by (simp add: algebra_simps)

lemma utf8_encode_3:
  assumes "224 \<le> unat b" "unat b < 240" "unat x div 64 = 2" "unat y div 64 = 2"
    and c: "c = (unat b mod 16 * 64 + unat x mod 64) * 64 + unat y mod 64" and "0x800 \<le> c"
  shows "utf8_encode c = [b, x, y]"
proof -
  let ?q = "unat b mod 16" and ?m = "unat x mod 64" and ?l = "unat y mod 64"
  have q: "224 + ?q = unat b" and m: "128 + ?m = unat x" and l: "128 + ?l = unat y"
    using lead_bytes(2) [OF assms(1,2)] continuation_byte assms(3,4) by simp_all
  then have "?q < 16" "?m < 64" "?l < 64" by simp_all
  then have "c < 0x10000" unfolding c by (intro base64_bounds)
  moreover have "\<not> c < 0x80" "\<not> c < 0x800" using assms(6) by linarith+
  moreover have "c div 64 div 64 = ?q" "c div 64 mod 64 = ?m" "c mod 64 = ?l"
    using \<open>?m < 64\<close> \<open>?l < 64\<close> unfolding c by (simp_all only: base64_digit)
  ultimately show ?thesis
    by (simp only: utf8_encode_def if_True if_False list.map base64_div q m l word_of_nat_unat)
qed

lemma utf8_encode_4:
  assumes "240 \<le> unat b" "unat b < 245" "unat x div 64 = 2" "unat y div 64 = 2" "unat z div 64 = 2"
    and c: "c = ((unat b mod 8 * 64 + unat x mod 64) * 64 + unat y mod 64) * 64 + unat z mod 64"
    and "0x10000 \<le> c"
  shows "utf8_encode c = [b, x, y, z]"
proof -
  let ?q = "unat b mod 8" and ?m = "unat x mod 64" and ?l = "unat y mod 64" and ?k = "unat z mod 64"
  have q: "240 + ?q = unat b" and m: "128 + ?m = unat x" and l: "128 + ?l = unat y" and k: "128 + ?k = unat z"
    using lead_bytes(3) [OF assms(1,2)] continuation_byte assms(3,4,5) by simp_all
  have "?m < 64" "?l < 64" "?k < 64" by simp_all
  moreover have "\<not> c < 0x80" "\<not> c < 0x800" "\<not> c < 0x10000" using assms(7) by linarith+
  moreover have "c div 64 div 64 div 64 = ?q" "c div 64 div 64 mod 64 = ?m" "c div 64 mod 64 = ?l" "c mod 64 = ?k"
    using calculation(1-3) unfolding c by (simp_all only: base64_digit)
  ultimately show ?thesis
    by (simp only: utf8_encode_def if_True if_False list.map base64_div q m l k word_of_nat_unat)
qed

lemma u32_numeral_less: "n < 4294967296 \<Longrightarrow> unat (word_of_nat n :: u32) = n"
  by (simp add: unat_word_of_nat)

lemma utf8_lead_cases:
  assumes "utf8_width b = Some (w, c0)"
  obtains "w = 1" "unat b < 128" "unat c0 = unat b"
  | "w = 2" "194 \<le> unat b" "unat b < 224" "unat c0 = unat b mod 32"
  | "w = 3" "224 \<le> unat b" "unat b < 240" "unat c0 = unat b mod 16"
  | "w = 4" "240 \<le> unat b" "unat b < 245" "unat c0 = unat b mod 8"
  using assms by (auto simp: utf8_width_nat u32_of_u8 u8_low split: if_splits)

lemma utf8_scalar_bytes:
  assumes w: "utf8_width b = Some (w, c0)" and len: "w \<le> Suc (length bs)"
    and cont: "utf8_continue (take (w - 1) bs) c0 = Inr cp"
    and ok: "\<not> utf8_overlong w cp"
  shows "b # bs = utf8_encode (unat cp) @ drop (w - 1) bs"
  using w
proof (cases rule: utf8_lead_cases)
  case 1
  then show ?thesis using cont by (auto simp: utf8_encode_def)
next
  case 2
  with len obtain x r where bs: "bs = x # r" by (cases bs) auto
  from 2(4) have "unat c0 < 32" by simp
  with cont 2 bs have "unat x div 64 = 2" "unat cp = unat b mod 32 * 64 + unat x mod 64"
    by (simp_all add: utf8_continue_1)
  then show ?thesis
    using utf8_encode_2 [of b x] 2 bs by simp
next
  case 3
  with len have "2 \<le> length bs" by simp
  then obtain x y r where bs: "bs = x # y # r"
    by (cases bs; cases "tl bs") auto
  from 3(4) have "unat c0 < 16" by simp
  with cont 3 bs obtain c1 where x: "unat x div 64 = 2" and c1: "unat c1 = unat c0 * 64 + unat x mod 64"
    and c2: "utf8_continue [y] c1 = Inr cp"
    by (auto simp: utf8_continue_more)
  have "unat c1 < 1024" using \<open>unat c0 < 16\<close> mod_less_divisor [of 64 "unat x"] unfolding c1 by linarith
  with c2 have y: "unat y div 64 = 2" and cp: "unat cp = unat c1 * 64 + unat y mod 64"
    by (simp_all add: utf8_continue_1)
  have "0x800 \<le> unat cp" using ok 3 by (simp add: utf8_overlong_def word_less_nat_alt)
  with utf8_encode_3 [OF 3(2,3) x y] show ?thesis
    using 3 bs by (simp add: cp c1)
next
  case 4
  with len have "3 \<le> length bs" by simp
  then obtain x y z r where bs: "bs = x # y # z # r"
    by (cases bs; cases "tl bs"; cases "tl (tl bs)") auto
  from 4(4) have "unat c0 < 8" by simp
  with cont 4 bs obtain c1 where x: "unat x div 64 = 2" and c1: "unat c1 = unat c0 * 64 + unat x mod 64"
    and c2: "utf8_continue [y, z] c1 = Inr cp"
    by (auto simp: utf8_continue_more)
  have "unat c1 < 512" using \<open>unat c0 < 8\<close> mod_less_divisor [of 64 "unat x"] unfolding c1 by linarith
  with c2 obtain c3 where y: "unat y div 64 = 2" and c3: "unat c3 = unat c1 * 64 + unat y mod 64"
    and c4: "utf8_continue [z] c3 = Inr cp"
    by (auto simp: utf8_continue_more)
  have "unat c3 < 32768" using \<open>unat c1 < 512\<close> mod_less_divisor [of 64 "unat y"] unfolding c3 by linarith
  with c4 have z: "unat z div 64 = 2" and cp: "unat cp = unat c3 * 64 + unat z mod 64"
    by (simp_all add: utf8_continue_1)
  have "0x10000 \<le> unat cp" using ok 4 by (simp add: utf8_overlong_def word_less_nat_alt)
  with utf8_encode_4 [OF 4(2,3) x y z] show ?thesis
    using 4 bs by (simp add: cp c3 c1)
qed

lemma utf8_decode_step:
  assumes "utf16_length_from (b # bs) u = Inr n"
  obtains c rest where "scalar_value c" and "b # bs = utf8_encode c @ rest"
    and "utf16_length_from rest (u + utf16_units c) = Inr n" and "length rest \<le> length bs"
proof -
  from assms obtain w c0 cp where w: "utf8_width b = Some (w, c0)" and len: "w \<le> Suc (length bs)"
    and cont: "utf8_continue (take (w - 1) bs) c0 = Inr cp"
    and ok: "\<not> utf8_overlong w cp" "\<not> (cp \<ge> 0xD800 \<and> cp \<le> 0xDFFF)" "\<not> cp > 0x10FFFF"
    and rest: "utf16_length_from (drop (w - 1) bs) (u + (if cp > 0xFFFF then 2 else 1)) = Inr n"
    by (auto simp: bindR_Inr_iff split: option.splits if_splits prod.splits)
  have sc: "scalar_value (unat cp)"
    using ok by (auto simp: scalar_value_def word_le_nat_alt word_less_nat_alt)
  have u: "utf16_units (unat cp) = (if cp > 0xFFFF then 2 else 1)"
    by (simp add: utf16_units_def word_less_nat_alt)
  from that [OF sc utf8_scalar_bytes [OF w len cont ok(1)]] rest u show thesis by simp
qed

lemma utf16_length_from_scalar:
  assumes "utf8_width b = Some (w, c0)" and "length cs = w - 1"
    and "utf8_continue cs c0 = Inr cp" and "\<not> utf8_overlong w cp" and "scalar_value (unat cp)" and "0 < w"
  shows "utf16_length_from (b # cs @ rest) u = utf16_length_from rest (u + utf16_units (unat cp))"
  using assms
  by (auto simp: scalar_value_def utf16_units_def word_le_nat_alt word_less_nat_alt)

lemma unat_byte: "n < 256 \<Longrightarrow> unat (word_of_nat n :: u8) = n"
  by (simp add: unat_word_of_nat)

lemma unat_lead:
  "q < 32 \<Longrightarrow> unat (word_of_nat (192 + q) :: u8) = 192 + q"
  "q < 16 \<Longrightarrow> unat (word_of_nat (224 + q) :: u8) = 224 + q"
  "q < 8 \<Longrightarrow> unat (word_of_nat (240 + q) :: u8) = 240 + q"
  "q < 64 \<Longrightarrow> unat (word_of_nat (128 + q) :: u8) = 128 + q"
  by (subst unat_byte; simp)+

lemma lead_mods:
  "q < 32 \<Longrightarrow> (192 + q) mod 32 = (q :: nat)"
  "q < 16 \<Longrightarrow> (224 + q) mod 16 = q"
  "q < 8 \<Longrightarrow> (240 + q) mod 8 = q"
  "q < 64 \<Longrightarrow> (128 + q) mod 64 = q"
  "q < 64 \<Longrightarrow> (128 + q) div 64 = 2"
proof -
  have "(j * k + q) mod k = q \<and> (j * k + q) div k = j" if "q < k" for j k :: nat
    using that by simp
  from this [of 32 6] this [of 16 14] this [of 8 30] this [of 64 2]
  show "q < 32 \<Longrightarrow> (192 + q) mod 32 = q" "q < 16 \<Longrightarrow> (224 + q) mod 16 = q"
    "q < 8 \<Longrightarrow> (240 + q) mod 8 = q" "q < 64 \<Longrightarrow> (128 + q) mod 64 = q"
    "q < 64 \<Longrightarrow> (128 + q) div 64 = 2"
    by simp_all
qed

lemma utf8_continueI:
  assumes "unat x div 64 = 2" and "unat c < 67108864" and "unat c' = unat c * 64 + unat x mod 64"
    and "utf8_continue bs c' = Inr d"
  shows "utf8_continue (x # bs) c = Inr d"
  using assms utf8_continue_more [OF assms(2)] by blast

text \<open>An encoding is a lead byte announcing its continuation bytes, which gather the scalar value.\<close>

lemma utf8_encode_parts:
  assumes "scalar_value c"
  shows "\<exists>b cs c0. utf8_encode c = b # cs \<and> utf8_width b = Some (Suc (length cs), c0) \<and>
    utf8_continue cs c0 = Inr (word_of_nat c) \<and> \<not> utf8_overlong (Suc (length cs)) (word_of_nat c)"
proof -
  have c: "c < 0x110000" using assms by (simp add: scalar_value_def)
  have "c div 64 \<le> c" "c div 64 div 64 \<le> c" "c div 64 div 64 div 64 \<le> c"
    by (simp_all add: div_le_dividend flip: div_mult2_eq)
  then have small: "c div 64 < 67108864" "c div 64 div 64 < 67108864" "c div 64 div 64 div 64 < 67108864"
    using c by linarith+
  have split: "c div 64 div 64 div 64 * 64 + c div 64 div 64 mod 64 = c div 64 div 64"
    "c div 64 div 64 * 64 + c div 64 mod 64 = c div 64" "c div 64 * 64 + c mod 64 = c"
    by (simp_all only: div_mult_mod_eq)
  have m: "c mod 64 < 64" "c div 64 mod 64 < 64" "c div 4096 mod 64 < 64" by simp_all
  note byte = unat_lead(4) lead_mods(4,5)
  consider "c < 0x80" | "0x80 \<le> c" "c < 0x800" | "0x800 \<le> c" "c < 0x10000" | "0x10000 \<le> c"
    by linarith
  then show ?thesis
  proof cases
    case 1
    then show ?thesis
      by (intro exI [of _ "word_of_nat c"] exI [of _ "[]"])
        (simp add: utf8_encode_def utf8_width_nat unat_byte utf8_overlong_def unat_eq_iff u32_of_u8
          unat_u32_of_nat)
  next
    case 2
    let ?b = "word_of_nat (192 + c div 64) :: u8" and ?x = "word_of_nat (128 + c mod 64) :: u8"
    have q: "c div 64 < 32" "2 \<le> c div 64" using 2 by simp_all
    have "utf8_width ?b = Some (2, ucast (?b AND 0x1F))"
      using q by (simp only: utf8_width_nat unat_lead) simp
    moreover have "utf8_continue [?x] (ucast (?b AND 0x1F)) = Inr (word_of_nat c)"
    proof -
      have "unat (ucast (?b AND 0x1F) :: u32) = c div 64"
        using q by (simp only: u32_of_u8 u8_low unat_lead lead_mods)
      moreover have "unat ?x div 64 = 2" "unat ?x mod 64 = c mod 64"
        by (simp_all only: byte m)
      ultimately show ?thesis
        using q c by - (rule utf8_continueI [where c' = "word_of_nat c"], simp_all add: unat_u32_of_nat)
    qed
    ultimately show ?thesis
      using 2 c by (intro exI [of _ ?b] exI [of _ "[?x]"])
        (simp add: utf8_encode_def utf8_overlong_def unat_u32_of_nat word_less_nat_alt)
  next
    case 3
    let ?b = "word_of_nat (224 + c div 4096) :: u8" and ?x = "word_of_nat (128 + c div 64 mod 64) :: u8"
      and ?y = "word_of_nat (128 + c mod 64) :: u8"
    have q: "c div 4096 < 16" using 3 by simp
    have "utf8_width ?b = Some (3, ucast (?b AND 0x0F))"
      using q by (simp only: utf8_width_nat unat_lead) simp
    moreover have "utf8_continue [?x, ?y] (ucast (?b AND 0x0F)) = Inr (word_of_nat c)"
    proof -
      have "unat (ucast (?b AND 0x0F) :: u32) = c div 64 div 64"
        using q by (simp only: u32_of_u8 u8_low unat_lead lead_mods base64_div)
      moreover have "unat ?x div 64 = 2" "unat ?x mod 64 = c div 64 mod 64"
        "unat ?y div 64 = 2" "unat ?y mod 64 = c mod 64"
        by (simp_all only: byte m)
      moreover have "unat (word_of_nat (c div 64) :: u32) = c div 64" "unat (word_of_nat c :: u32) = c"
        using c by (simp_all add: unat_u32_of_nat)
      ultimately show ?thesis
        using small split by - (rule utf8_continueI [where c' = "word_of_nat (c div 64)"], (simp only: small split)+,
            rule utf8_continueI [where c' = "word_of_nat c"], (simp only: small split utf8_continue.simps)+)
    qed
    ultimately show ?thesis
      using 3 c by (intro exI [of _ ?b] exI [of _ "[?x, ?y]"])
        (simp add: utf8_encode_def utf8_overlong_def unat_u32_of_nat word_less_nat_alt)
  next
    case 4
    let ?b = "word_of_nat (240 + c div 262144) :: u8" and ?x = "word_of_nat (128 + c div 4096 mod 64) :: u8"
      and ?y = "word_of_nat (128 + c div 64 mod 64) :: u8" and ?z = "word_of_nat (128 + c mod 64) :: u8"
    have q: "c div 262144 < 5" using c by simp
    then have q8: "c div 262144 < 8" by simp
    have "utf8_width ?b = Some (4, ucast (?b AND 0x07))"
      using q by (simp only: utf8_width_nat unat_lead(3) [OF q8]) simp
    moreover have "utf8_continue [?x, ?y, ?z] (ucast (?b AND 0x07)) = Inr (word_of_nat c)"
    proof -
      have "unat (ucast (?b AND 0x07) :: u32) = c div 64 div 64 div 64"
        using q8 by (simp only: u32_of_u8 u8_low unat_lead lead_mods base64_div)
      moreover have "unat ?x div 64 = 2" "unat ?x mod 64 = c div 64 div 64 mod 64"
        "unat ?y div 64 = 2" "unat ?y mod 64 = c div 64 mod 64"
        "unat ?z div 64 = 2" "unat ?z mod 64 = c mod 64"
        by (simp_all only: byte m) (simp_all only: base64_div)
      moreover have "unat (word_of_nat (c div 64 div 64) :: u32) = c div 64 div 64"
          "unat (word_of_nat (c div 64) :: u32) = c div 64" "unat (word_of_nat c :: u32) = c"
        using c by (simp_all add: unat_u32_of_nat)
      ultimately show ?thesis
        using small split by - (rule utf8_continueI [where c' = "word_of_nat (c div 64 div 64)"], (simp only: small split)+,
            rule utf8_continueI [where c' = "word_of_nat (c div 64)"], (simp only: small split)+,
            rule utf8_continueI [where c' = "word_of_nat c"], (simp only: small split utf8_continue.simps)+)
    qed
    ultimately show ?thesis
      using 4 c by (intro exI [of _ ?b] exI [of _ "[?x, ?y, ?z]"])
        (simp add: utf8_encode_def utf8_overlong_def unat_u32_of_nat word_less_nat_alt)
  qed
qed

lemma utf8_encode_length_from:
  assumes "scalar_value c"
  shows "utf16_length_from (utf8_encode c @ rest) u = utf16_length_from rest (u + utf16_units c)"
proof -
  obtain b cs c0 where "utf8_encode c = b # cs" "utf8_width b = Some (Suc (length cs), c0)"
      "utf8_continue cs c0 = Inr (word_of_nat c)" "\<not> utf8_overlong (Suc (length cs)) (word_of_nat c)"
    using utf8_encode_parts [OF assms] by blast
  moreover have "unat (word_of_nat c :: u32) = c"
    using assms by (simp add: scalar_value_def unat_u32_of_nat)
  ultimately show ?thesis
    using assms utf16_length_from_scalar [of b "Suc (length cs)" c0 cs "word_of_nat c" rest u]
    by (simp del: utf16_length_from.simps)
qed

lemma utf16_length_from_spec:
  "utf16_length_from bs u = Inr n \<longleftrightarrow>
    (\<exists>cs. list_all scalar_value cs \<and> bs = concat (map utf8_encode cs) \<and> n = u + sum_list (map utf16_units cs))"
    (is "?l \<longleftrightarrow> ?r bs u")
proof
  assume ?l
  then show "?r bs u"
  proof (induction "length bs" arbitrary: bs u rule: less_induct)
    case less
    show ?case
    proof (cases bs)
      case Nil
      with less.prems show ?thesis by (intro exI [of _ "[]"]) simp
    next
      case (Cons b bs')
      with less.prems obtain c rest where c: "scalar_value c" "b # bs' = utf8_encode c @ rest"
        and r: "utf16_length_from rest (u + utf16_units c) = Inr n" "length rest \<le> length bs'"
        by (blast elim: utf8_decode_step)
      from less.hyps [OF _ r(1)] r(2) Cons obtain cs where
        "list_all scalar_value cs \<and> rest = concat (map utf8_encode cs) \<and>
         n = u + utf16_units c + sum_list (map utf16_units cs)"
        by auto
      with c Cons show ?thesis by (intro exI [of _ "c # cs"]) simp
    qed
  qed
next
  assume "?r bs u"
  then obtain cs where "list_all scalar_value cs" "bs = concat (map utf8_encode cs)"
      "n = u + sum_list (map utf16_units cs)"
    by blast
  then show ?l
    by (induction cs arbitrary: bs u) (simp_all add: utf8_encode_length_from add.assoc)
qed

lemma utf16_length_iff:
  "utf16_length bs = Inr n \<longleftrightarrow>
    (\<exists>cs. list_all scalar_value cs \<and> bs = concat (map utf8_encode cs) \<and> n = sum_list (map utf16_units cs))"
  by (simp add: utf16_length_def utf16_length_from_spec)

section \<open>Strings and identifiers\<close>

lemma utf8_encode_length: "scalar_value c \<Longrightarrow> length (utf8_encode c) \<le> 3 * utf16_units c"
  by (simp add: utf8_encode_def utf16_units_def)

lemma utf16_length_bound: "utf16_length bs = Inr n \<Longrightarrow> length bs \<le> 3 * n"
proof -
  assume "utf16_length bs = Inr n"
  then obtain cs where "list_all scalar_value cs" "bs = concat (map utf8_encode cs)"
      "n = sum_list (map utf16_units cs)"
    by (auto simp: utf16_length_iff)
  then show ?thesis
  proof (induction cs arbitrary: bs n)
    case (Cons c cs)
    then show ?case using utf8_encode_length [of c] by fastforce
  qed simp
qed

definition ok_string :: "nat \<Rightarrow> string \<Rightarrow> bool" where
  "ok_string m s = (case utf16_length (bytes_of s) of Inl _ \<Rightarrow> False
     | Inr n \<Rightarrow> n \<le> m \<and> length s \<le> 2147483647)"

definition string_img :: "string \<Rightarrow> bytes" where
  "string_img s = write_varint [] (word_of_nat (length s)) @ bytes_of s"

lemma write_string_img [write_img]:
  "length s \<le> 2147483647 \<Longrightarrow> write_string out s = Inr (out @ string_img s)"
  using write_varint_append [of out "word_of_nat (length s)"]
  by (simp add: write_string_def string_img_def)

lemma liftD_run [dec_simps]: "liftD (Inr x) r = Inr (x, r)" "liftD (Inl e) r = Inl e"
  by (simp_all add: liftD_def returnD_def throwD_def)

lemma liftD_Inr_iff: "liftD m r = Inr (x, r') \<longleftrightarrow> m = Inr x \<and> r' = r"
  by (cases m) (auto simp: liftD_def returnD_def throwD_def)

lemma read_string_at [dec_simps]:
  assumes "ok_string m s"
  shows "read_string m (reader_at pre (string_img s @ rest)) = Inr (s, reader_at (pre @ string_img s) rest)"
proof -
  from assms obtain n where n: "utf16_length (bytes_of s) = Inr n" "n \<le> m" and len: "length s \<le> 2147483647"
    by (auto simp: ok_string_def split: sum.splits)
  have "length s \<le> 3 * m"
    using utf16_length_bound [OF n(1)] n(2) by simp
  then show ?thesis
    using n size_i32 [OF len]
    by (simp add: read_string_def string_img_def dec_simps Let_def mult.commute)
qed

interpretation string: codec write_string "read_string m" "ok_string m" string_img for m :: nat
  by unfold_locales (auto simp: dec_simps ok_string_def intro: write_string_img split: sum.splits)

definition normal_identifier :: "string \<Rightarrow> bool" where
  "normal_identifier s = (case find_char CHR '':'' s of None \<Rightarrow> False
     | Some i \<Rightarrow> 0 < i \<and> i + 1 < length s \<and> list_all valid_namespace (take i s) \<and>
         list_all valid_path (drop (i + 1) s))"

definition ok_identifier :: "string \<Rightarrow> bool" where
  "ok_identifier s = (normal_identifier s \<and> length s \<le> 32767)"

lemma valid_path_not_colon: "valid_path c \<Longrightarrow> c \<noteq> CHR '':''"
  by (auto simp: valid_path_def valid_namespace_def char_between_def byte_of_char_def)

lemma valid_path_ascii: "valid_path c \<Longrightarrow> unat (byte_of_char c) < 128"
  by (auto simp: valid_path_def valid_namespace_def char_between_def byte_of_char_def word_le_nat_alt)

lemma valid_namespace_path: "valid_namespace c \<Longrightarrow> valid_path c"
  by (simp add: valid_path_def)

lemma list_all_path_no_colon: "list_all valid_path s \<Longrightarrow> find_char CHR '':'' s = None"
  by (auto simp: find_char_None list_all_iff dest: valid_path_not_colon)

lemma normal_identifier_iff:
  "normal_identifier s \<longleftrightarrow> (\<exists>ns path. s = ns @ CHR '':'' # path \<and> ns \<noteq> [] \<and> path \<noteq> [] \<and>
     list_all valid_namespace ns \<and> list_all valid_path path)"
proof
  assume "normal_identifier s"
  then obtain i where i: "find_char CHR '':'' s = Some i" "0 < i" "i + 1 < length s"
      "list_all valid_namespace (take i s)" "list_all valid_path (drop (i + 1) s)"
    by (auto simp: normal_identifier_def split: option.splits)
  then have "s = take i s @ CHR '':'' # drop (i + 1) s"
    using id_take_nth_drop [of i s] by (simp add: find_char_Some)
  with i show "\<exists>ns path. s = ns @ CHR '':'' # path \<and> ns \<noteq> [] \<and> path \<noteq> [] \<and>
     list_all valid_namespace ns \<and> list_all valid_path path"
    by (intro exI [of _ "take i s"] exI [of _ "drop (i + 1) s"]) auto
next
  assume "\<exists>ns path. s = ns @ CHR '':'' # path \<and> ns \<noteq> [] \<and> path \<noteq> [] \<and>
     list_all valid_namespace ns \<and> list_all valid_path path"
  then obtain ns path where s: "s = ns @ CHR '':'' # path" "ns \<noteq> []" "path \<noteq> []"
     "list_all valid_namespace ns" "list_all valid_path path"
    by blast
  then have "find_char CHR '':'' s = Some (length ns)"
    by (auto simp: find_char_Some list_all_iff dest: valid_namespace_path valid_path_not_colon)
  with s show "normal_identifier s"
    by (simp add: normal_identifier_def)
qed

lemma ascii_string_length:
  assumes "\<forall>c \<in> set s. unat (byte_of_char c) < 128"
  shows "utf16_length (bytes_of s) = Inr (length s)"
proof -
  have "utf16_length_from (bytes_of s) u = Inr (u + length s)" for u
    using assms
  proof (induction s arbitrary: u)
    case (Cons c s)
    then show ?case
      using utf8_encode_length_from [of "unat (byte_of_char c)" "bytes_of s" u]
      by (simp add: utf8_encode_def scalar_value_def utf16_units_def del: utf16_length_from.simps(2))
  qed simp
  then show ?thesis by (simp add: utf16_length_def)
qed

lemma normal_identifier_ascii: "normal_identifier s \<Longrightarrow> \<forall>c \<in> set s. unat (byte_of_char c) < 128"
  by (auto simp: normal_identifier_iff list_all_iff byte_of_char_def
      dest!: bspec intro: valid_path_ascii [unfolded byte_of_char_def] valid_path_ascii [OF valid_namespace_path, unfolded byte_of_char_def])

lemma ok_identifier_string: "ok_identifier s \<Longrightarrow> ok_string 32767 s"
  using ascii_string_length [OF normal_identifier_ascii, of s]
  by (simp add: ok_identifier_def ok_string_def)

lemma read_identifier_at [dec_simps]:
  assumes "ok_identifier s"
  shows "read_identifier (reader_at pre (string_img s @ rest)) =
    Inr (s, reader_at (pre @ string_img s) rest)"
proof -
  from assms obtain ns path where s: "s = ns @ CHR '':'' # path" "ns \<noteq> []" "path \<noteq> []"
     "list_all valid_namespace ns" "list_all valid_path path"
    by (auto simp: ok_identifier_def normal_identifier_iff)
  then have "find_char CHR '':'' s = Some (length ns)"
    by (auto simp: find_char_Some list_all_iff dest: valid_namespace_path valid_path_not_colon)
  with s show ?thesis
    using ok_identifier_string [OF assms]
    by (simp add: read_identifier_def dec_simps Let_def list_all_path_no_colon)
qed

lemma write_identifier_ok [write_img]:
  assumes "ok_identifier s"
  shows "write_identifier out s = Inr (out @ string_img s)"
proof -
  have "length s \<le> 2147483647" using assms by (simp add: ok_identifier_def)
  moreover obtain i where "find_char CHR '':'' s = Some i"
    using assms by (auto simp: ok_identifier_def normal_identifier_def split: option.splits)
  ultimately show ?thesis
    using read_identifier_at [OF assms, of "[]" "[]"]
    by (simp add: write_identifier_def write_string_img mk_reader_at)
qed

interpretation ident: codec write_identifier read_identifier ok_identifier string_img
  by unfold_locales (simp_all add: dec_simps write_img)

lemma read_identifier_normal:
  assumes "read_identifier r = Inr (s, r')"
  shows "normal_identifier s"
  using assms unfolding read_identifier_def bindD_Inr_iff
proof (elim exE conjE, goal_cases)
  case (1 v r1)
  show ?case
  proof (cases "find_char CHR '':'' v")
    case None
    have "list_all valid_namespace ''minecraft''"
      by (simp add: valid_namespace_def char_between_def byte_of_char_def)
    moreover have "v \<noteq> []" "list_all valid_path v" "s = ''minecraft'' @ CHR '':'' # v"
      using 1(2) None by (simp_all add: Let_def decoder_iff)
    ultimately show ?thesis
      unfolding normal_identifier_iff by blast
  next
    case (Some i)
    then have "v = take i v @ CHR '':'' # drop (i + 1) v"
      using id_take_nth_drop [of i v] by (simp add: find_char_Some)
    moreover have "take i v \<noteq> []" "drop (i + 1) v \<noteq> []" "list_all valid_namespace (take i v)"
        "list_all valid_path (drop (i + 1) v)" "s = v"
      using 1(2) Some by (auto simp: Let_def decoder_iff)
    ultimately show ?thesis
      unfolding normal_identifier_iff by blast
  qed
qed

section \<open>Arrays, optionals and collections of codecs\<close>

definition array_img :: "bytes \<Rightarrow> bytes" where
  "array_img bs = write_varint [] (word_of_nat (length bs)) @ bs"

definition optional_img :: "('a \<Rightarrow> bytes) \<Rightarrow> 'a option \<Rightarrow> bytes" where
  "optional_img img x = (case x of None \<Rightarrow> [0] | Some y \<Rightarrow> 1 # img y)"

definition collection_img :: "('a \<Rightarrow> bytes) \<Rightarrow> 'a list \<Rightarrow> bytes" where
  "collection_img img xs = write_varint [] (word_of_nat (length xs)) @ concat (map img xs)"

lemma array_length_ok: "length bs \<le> m \<Longrightarrow> length bs \<le> 2147483647 \<Longrightarrow>
  read_byte_array m (reader_at pre (array_img bs @ rest)) = Inr (bs, reader_at (pre @ array_img bs) rest)"
  using size_i32 [of "length bs"]
  by (simp add: read_byte_array_def array_img_def dec_simps)

lemma write_array_img: "length bs \<le> 2147483647 \<Longrightarrow> write_byte_array out bs = Inr (out @ array_img bs)"
  using write_varint_append [of out "word_of_nat (length bs)"]
  by (simp add: write_byte_array_def array_img_def)

interpretation byte_array: codec write_byte_array "read_byte_array m"
  "\<lambda>bs. length bs \<le> m \<and> length bs \<le> 2147483647" array_img for m :: nat
  by unfold_locales (simp_all add: array_length_ok write_array_img)

lemma write_bool_img: "write_bool out b = out @ write_bool [] b"
  by (simp add: write_bool_def)

lemma read_bool_byte [dec_simps]:
  "read_bool (reader_at pre (0 # rest)) = Inr (False, reader_at (pre @ [0]) rest)"
  "read_bool (reader_at pre (1 # rest)) = Inr (True, reader_at (pre @ [1]) rest)"
  using bool.get_img [OF TrueI, of pre False rest] bool.get_img [OF TrueI, of pre True rest]
  by (simp_all add: write_bool_def)

context codec begin

lemma codec_optional:
  "codec (write_optional put) (read_optional get) (pred_option ok) (optional_img img)"
proof (unfold_locales, goal_cases)
  case (1 v out)
  then show ?case
    by (cases v) (simp_all add: write_optional_def optional_img_def write_bool_def put_img Let_def)
next
  case (2 v pre rest)
  show ?case
  proof (cases v)
    case None
    then show ?thesis
      by (simp add: read_optional_def optional_img_def dec_simps)
  next
    case (Some x)
    then show ?thesis
      using 2 by (simp add: read_optional_def optional_img_def dec_simps get_img)
  qed
qed

lemma codec_collection:
  "codec (write_collection put) (read_collection m get)
     (\<lambda>vs. list_all ok vs \<and> length vs \<le> m \<and> length vs \<le> 2147483647) (collection_img img)"
proof (unfold_locales, goal_cases)
  case (1 vs out)
  then show ?case
    using write_varint_append [of out "word_of_nat (length vs)"]
    by (simp add: write_collection_def collection_img_def put_many list_all_iff)
next
  case (2 vs pre rest)
  then have "length vs \<le> 2147483647" by simp
  with 2 show ?case
    using size_i32 [of "length vs"]
    by (simp add: read_collection_def collection_img_def dec_simps get_many list_all_iff)
qed

end

lemma write_i64_be_append: "write_i64_be out v = out @ write_i64_be [] v"
  by (simp add: write_i64_be_def)

lemma write_i64s_append: "foldl write_i64_be out ws = out @ concat (map (write_i64_be []) ws)"
proof (induction ws arbitrary: out)
  case (Cons w ws)
  then show ?case using write_i64_be_append [of out w] by simp
qed simp

interpretation bitset: codec write_bitset "read_bitset m"
  "\<lambda>ws. length ws \<le> m \<and> length ws \<le> 2147483647" "collection_img (write_i64_be [])" for m :: nat
proof (unfold_locales, goal_cases)
  case (1 ws out)
  then show ?case
    using write_varint_append [of out "word_of_nat (length ws)"]
    by (simp add: write_bitset_def collection_img_def write_i64s_append)
next
  case (2 ws pre rest)
  then have "length ws \<le> 2147483647" by simp
  with 2 show ?case
    using size_i32 [of "length ws"]
    by (simp add: read_bitset_def collection_img_def dec_simps i64.get_many)
qed

section \<open>Every reader stays inside its span\<close>

lemma safe_read_leb: "safe (read_leb limit overflow t e l i (acc :: 'w::len word))"
proof (induction "limit - i" arbitrary: i acc)
  case 0
  then show ?case by (simp add: safe_def read_leb.simps [of limit _ _ _ _ i])
next
  case (Suc n)
  show ?case
  proof (rule safeI)
    fix r :: reader and x r'
    assume wf: "wf_reader r" and run: "read_leb limit overflow t e l i acc r = Inr (x, r')"
    let ?r = "r\<lparr>offset := offset r + 1\<rparr>"
    have ne: "\<not> reader_empty r" and
      "(x = acc OR push_bit (7 * i) (ucast (data r ! offset r AND 0x7F)) \<and> r' = ?r) \<or>
        read_leb limit overflow t e l (i + 1)
          (acc OR push_bit (7 * i) (ucast (data r ! offset r AND 0x7F))) ?r = Inr (x, r')"
      using run by (auto simp: read_leb.simps [of limit _ _ _ _ i] Let_def split: if_splits)
    moreover have "wf_reader ?r"
      using wf ne by (simp add: wf_reader_def reader_empty_def)
    moreover have "safe (read_leb limit overflow t e l (i + 1) a)" for a :: "'w word"
      using Suc.hyps(2) by (intro Suc.hyps(1)) arith
    ultimately show "wf_reader r' \<and> data r' = data r \<and> offset r \<le> offset r'"
      using safeD [of "read_leb limit overflow t e l (i + 1)
          (acc OR push_bit (7 * i) (ucast (data r ! offset r AND 0x7F)))" ?r x r']
      by fastforce
  qed
qed

lemma safe_liftD [safe_intros]: "safe (liftD m)"
  by (cases m) (auto simp: liftD_def safe_intros)

lemma safe_read_varint [safe_intros]: "safe read_varint"
  and safe_read_varlong [safe_intros]: "safe read_varlong"
  by (simp_all add: read_varint_def read_varlong_def safe_read_leb)

lemma safe_read_u8 [safe_intros]: "safe read_u8"
  and safe_read_bool [safe_intros]: "safe read_bool"
  and safe_read_i16 [safe_intros]: "safe read_i16_be"
  and safe_read_u16 [safe_intros]: "safe read_u16_be"
  and safe_read_i32 [safe_intros]: "safe read_i32_be"
  and safe_read_i64 [safe_intros]: "safe read_i64_be"
  by (auto simp: read_u8_def read_bool_def read_i16_be_def read_u16_be_def read_i32_be_def
      read_i64_be_def intro!: safe_intros)

lemma safe_read_i8 [safe_intros]: "safe read_i8"
  and safe_read_angle [safe_intros]: "safe read_angle"
  and safe_read_f32 [safe_intros]: "safe read_f32_be"
  and safe_read_f64 [safe_intros]: "safe read_f64_be"
  and safe_read_uuid [safe_intros]: "safe read_uuid"
  and safe_read_position [safe_intros]: "safe read_position"
  by (auto simp: read_i8_def read_angle_def read_f32_be_def read_f64_be_def read_uuid_def
      read_position_def intro!: safe_intros)

lemma safe_read_string [safe_intros]: "safe (read_string m)"
  and safe_read_byte_array [safe_intros]: "safe (read_byte_array m)"
  and safe_read_bitset [safe_intros]: "safe (read_bitset m)"
  by (auto simp: read_string_def Let_def read_byte_array_def read_bitset_def intro!: safe_intros)

lemma safe_read_identifier [safe_intros]: "safe read_identifier"
  by (auto simp: read_identifier_def Let_def intro!: safe_intros)

lemma safe_read_optional [safe_intros]: "safe d \<Longrightarrow> safe (read_optional d)"
  and safe_read_collection [safe_intros]: "safe d \<Longrightarrow> safe (read_collection m d)"
  by (auto simp: read_optional_def read_collection_def intro!: safe_intros)

section \<open>Frames\<close>

text \<open>The receiving side of \<open>frame_packet\<close>: the length prefix, then that many bytes.\<close>

definition read_frame :: "bytes decoder" where
  "read_frame = bindD read_varint (\<lambda>n. read_bytes (unat n))"

lemma read_frame_packet:
  assumes "frame_packet packet_id payload = Inr frame"
  shows "\<exists>n. read_frame (reader_at pre (frame @ rest)) =
      Inr (write_varint [] packet_id @ payload, reader_at (pre @ frame) rest) \<and>
    frame = write_varint [] n @ write_varint [] packet_id @ payload \<and>
    unat n = length (write_varint [] packet_id @ payload)"
proof -
  let ?body = "write_varint [] packet_id @ payload"
  from assms have len: "length ?body \<le> 2147483647"
      and f: "frame = write_varint [] (word_of_nat (length ?body)) @ ?body"
    by (auto simp: frame_packet_def Let_def split: if_splits)
  show ?thesis
    using size_i32 [OF len] read_bytes_at [OF refl, of ?body]
    by (intro exI [of _ "word_of_nat (length ?body)"]) (simp add: f read_frame_def dec_simps)
qed

text \<open>
  What the framing relies on of zlib: \<open>compress2\<close> fails or returns a non-empty
  stream, and \<open>inflate\<close> with room for exactly the original size undoes it.
\<close>

definition zlib_roundtrip ::
    "(bytes \<Rightarrow> bytes option) \<Rightarrow> (bytes \<Rightarrow> nat \<Rightarrow> inflate_state option) \<Rightarrow> bool" where
  "zlib_roundtrip compress inflate = (\<forall>body c. compress body = Some c \<longrightarrow> c \<noteq> [] \<and>
     inflate c (length body) =
       Some \<lparr>stream_end = True, total_out = length body, avail_in = 0, out_buffer = body\<rparr>)"

lemma decode_frame_payload_run:
  "decode_frame_payload inflate (write_varint [] n @ c) threshold m =
     (if sint n < 0 \<or> unat n > m
      then Inl (Decode_Error ''decompressed packet length is out of bounds'')
      else if n = 0
      then (if length c \<ge> threshold
            then Inl (Decode_Error ''uncompressed packet exceeds compression threshold'')
            else Inr c)
      else if unat n < threshold
      then Inl (Decode_Error ''compressed packet is below compression threshold'')
      else case inflate c (unat n) of
          None \<Rightarrow> Inl (Runtime_Error ''zlib failed to initialize decompression'')
        | Some st \<Rightarrow>
            if \<not> stream_end st \<or> total_out st \<noteq> unat n \<or> avail_in st \<noteq> 0
            then Inl (Decode_Error ''invalid compressed packet payload'')
            else Inr (out_buffer st))"
  by (simp add: decode_frame_payload_def mk_reader_at dec_simps)

lemma compressed_frame_roundtrip:
  assumes z: "zlib_roundtrip compress inflate"
    and f: "frame_compressed_packet compress packet_id payload threshold = Inr frame"
    and m: "length (write_varint [] packet_id @ payload) \<le> m"
  shows "\<exists>n body. frame = write_varint [] n @ body \<and> unat n = length body \<and>
    decode_frame_payload inflate body threshold m = Inr (write_varint [] packet_id @ payload)"
proof -
  let ?body = "write_varint [] packet_id @ payload"
  have pos: "0 < length ?body"
    by simp
  from f have len: "length ?body \<le> 2147483647"
    by (auto simp: frame_compressed_packet_def Let_def split: if_splits)
  show ?thesis
  proof (cases "threshold \<le> length ?body")
    case True
    with f len obtain c where c: "compress ?body = Some c"
      by (auto simp: frame_compressed_packet_def Let_def split: option.splits)
    with z have nz: "c \<noteq> []" and inf: "inflate c (length ?body) =
       Some \<lparr>stream_end = True, total_out = length ?body, avail_in = 0, out_buffer = ?body\<rparr>"
      unfolding zlib_roundtrip_def by blast+
    let ?p = "write_varint [] (word_of_nat (length ?body)) @ c"
    from f True len c nz have fr: "length ?p \<le> 2147483647"
        "frame = write_varint [] (word_of_nat (length ?p)) @ ?p"
      by (auto simp: frame_compressed_packet_def Let_def split: if_splits)
    have "(word_of_nat (length ?body) :: i32) \<noteq> 0"
      using pos size_i32(2) [OF len] by (metis unat_0 less_irrefl)
    then have "decode_frame_payload inflate ?p threshold m = Inr ?body"
      using size_i32 [OF len] True m inf
      by (simp add: decode_frame_payload_run del: length_append)
    then show ?thesis
      using fr size_i32(2) [OF fr(1)] by blast
  next
    case False
    let ?p = "write_varint [] 0 @ ?body"
    from f False len have fr: "length ?p \<le> 2147483647"
        "frame = write_varint [] (word_of_nat (length ?p)) @ ?p"
      by (auto simp: frame_compressed_packet_def Let_def split: if_splits)
    have "decode_frame_payload inflate ?p threshold m = Inr ?body"
      using False by (simp add: decode_frame_payload_run del: length_append)
    then show ?thesis
      using fr size_i32(2) [OF fr(1)] by blast
  qed
qed

section \<open>Properties\<close>

text \<open>C17. A VarInt appended to any output is read back from where it starts, the reader stops
  right behind it whatever follows, and it takes one to five bytes; likewise a VarLong, in one to
  ten bytes.\<close>

theorem varint_roundtrip:
  shows "read_varint \<lparr>data = write_varint out v @ rest, offset = length out\<rparr> =
      Inr (v, \<lparr>data = write_varint out v @ rest, offset = length (write_varint out v)\<rparr>) \<and>
    length (write_varint out v) \<in> {length out + 1 .. length out + 5} \<and>
    read_varlong \<lparr>data = write_varlong out w @ rest, offset = length out\<rparr> =
      Inr (w, \<lparr>data = write_varlong out w @ rest, offset = length (write_varlong out w)\<rparr>) \<and>
    length (write_varlong out w) \<in> {length out + 1 .. length out + 10}"
proof -
  have "write_varint out v = out @ write_varint [] v" "write_varlong out w = out @ write_varlong [] w"
    by (rule write_varint_append write_varlong_append)+
  then show ?thesis
    using read_varint_write [of out v rest] read_varlong_write [of out w rest]
      write_varint_length [of v] write_varlong_length [of w]
    by (simp add: reader_at_def Suc_le_eq)
qed

text \<open>\<open>utf16_length\<close> accepts a byte string exactly when it is the UTF-8 encoding of a sequence of
  Unicode scalar values (no overlong form, no surrogate, nothing above U+10FFFF, nothing truncated),
  and then returns the number of UTF-16 units of that sequence.\<close>

theorem utf16_length_correct:
  "utf16_length bs = Inr n \<longleftrightarrow> (\<exists>cs. list_all scalar_value cs \<and> bs = concat (map utf8_encode cs) \<and>
     n = sum_list (map utf16_units cs))"
  by (rule utf16_length_iff)

text \<open>\<open>write_position\<close> throws exactly when a coordinate does not fit its packed field (26 bits for x
  and z, 12 for y); otherwise it appends eight bytes, from which \<open>read_position\<close> returns the same
  block position.\<close>

theorem position_codec:
  "if -33554432 \<le> sint (pos_x p) \<and> sint (pos_x p) < 33554432 \<and>
      -33554432 \<le> sint (pos_z p) \<and> sint (pos_z p) < 33554432 \<and>
      -2048 \<le> sint (pos_y p) \<and> sint (pos_y p) < 2048
   then \<exists>bs. length bs = 8 \<and> write_position out p = Inr (out @ bs) \<and>
      read_position \<lparr>data = out @ bs @ rest, offset = length out\<rparr> =
        Inr (p, \<lparr>data = out @ bs @ rest, offset = length out + 8\<rparr>)
   else write_position out p = Inl (Out_Of_Range ''block position exceeds packed protocol range'')"
  using read_position_at [of p out rest] write_position_in_range [of p out]
    write_position_out_of_range [of p out] position.img_width [of p]
  by (auto simp: position_in_range_def reader_at_def)

lemma read_string_rejects:
  assumes "length s \<le> 2147483647" and "\<not> ok_string m s"
  shows "\<not> is_ok (read_string m (reader_at pre (string_img s @ rest)))"
  using assms size_i32 [OF assms(1)]
  by (auto simp: read_string_def string_img_def dec_simps Let_def mult.commute ok_string_def
      guardD_def liftD_def bindD_def split: sum.splits)

lemma write_string_cases:
  "write_string out s = (if length s > 2147483647
     then Inl (Length_Error ''string is too large for a protocol VarInt'')
     else Inr (out @ string_img s))"
  using write_string_img [of s out] by (simp add: write_string_def)

text \<open>\<open>write_string\<close> throws only on more than 2147483647 bytes. What it wrote is read back with a limit
  of \<open>m\<close> UTF-16 units exactly when the string is valid UTF-8 of at most \<open>m\<close> units, and refused otherwise.\<close>

theorem string_roundtrip:
  "case write_string out s of
     Inl e \<Rightarrow> length s > 2147483647
   | Inr out' \<Rightarrow>
       if case utf16_length (bytes_of s) of Inl _ \<Rightarrow> False | Inr n \<Rightarrow> n \<le> m
       then read_string m \<lparr>data = out' @ rest, offset = length out\<rparr> =
         Inr (s, \<lparr>data = out' @ rest, offset = length out'\<rparr>)
       else \<not> is_ok (read_string m \<lparr>data = out' @ rest, offset = length out\<rparr>)"
proof (cases "length s > 2147483647")
  case False
  then have "ok_string m s = (case utf16_length (bytes_of s) of Inl _ \<Rightarrow> False | Inr n \<Rightarrow> n \<le> m)"
    by (simp add: ok_string_def split: sum.splits)
  with False show ?thesis
    using read_string_at [of m s out rest] read_string_rejects [of s m out rest]
    by (simp add: write_string_cases reader_at_def)
qed (simp add: write_string_cases)

lemma write_identifier_cases:
  assumes "write_identifier out s = Inr out'"
  shows "normal_identifier s \<and> length s \<le> 32767 \<and> out' = out @ string_img s \<or>
    normal_identifier (''minecraft:'' @ s) \<and> out' = out @ string_img (''minecraft:'' @ s) \<and>
      length (''minecraft:'' @ s) \<le> 2147483647"
proof -
  from assms obtain enc t r' where enc: "write_string [] s = Inr enc"
      and rd: "read_identifier (mk_reader enc) = Inr (t, r')"
      and out: "write_string out (if find_char CHR '':'' s = None then ''minecraft:'' @ s else s) = Inr out'"
    by (auto simp: write_identifier_def bindR_Inr_iff)
  from enc have len: "length s \<le> 2147483647" and e: "enc = string_img s"
    by (auto simp: write_string_cases split: if_splits)
  from rd obtain r1 v where rs: "read_string 32767 (mk_reader enc) = Inr (v, r1)"
      and t: "t = (if find_char CHR '':'' v = None then ''minecraft:'' @ v else v)"
    unfolding read_identifier_def decoder_iff Let_def by auto
  have "ok_string 32767 s"
    using read_string_rejects [OF len, of 32767 "[]" "[]"] rs by (auto simp: e mk_reader_at)
  then have v: "v = s"
    using read_string_at [of 32767 s "[]" "[]"] rs by (simp add: e mk_reader_at)
  have n: "normal_identifier t"
    using rd by (rule read_identifier_normal)
  show ?thesis
  proof (cases "find_char CHR '':'' s = None")
    case True
    with n out t v show ?thesis by (auto simp: write_string_cases split: if_splits)
  next
    case False
    with n out t v \<open>ok_string 32767 s\<close> show ?thesis
      using ascii_string_length [OF normal_identifier_ascii, of s]
      by (auto simp: write_string_cases ok_string_def split: if_splits)
  qed
qed

lemma read_identifier_rejects:
  "\<not> is_ok (read_string 32767 r) \<Longrightarrow> \<not> is_ok (read_identifier r)"
  by (auto simp: is_ok_iff read_identifier_def bindD_Inr_iff)

text \<open>What \<open>write_identifier\<close> wrote is a normalised identifier (a non-empty namespace, one colon, a
  non-empty path): the value itself, or the value behind the default namespace. It is read back as that
  identifier when this has at most 32767 characters. A longer one, which \<open>write_identifier\<close> does not
  refuse, is never read back.\<close>

theorem identifier_normalised:
  assumes "write_identifier out s = Inr out'"
  shows "\<exists>t ns path. (t = s \<or> t = ''minecraft:'' @ s) \<and> t = ns @ CHR '':'' # path \<and>
    ns \<noteq> [] \<and> path \<noteq> [] \<and> list_all valid_namespace ns \<and> list_all valid_path path \<and>
    (if length t \<le> 32767
     then read_identifier \<lparr>data = out' @ rest, offset = length out\<rparr> =
       Inr (t, \<lparr>data = out' @ rest, offset = length out'\<rparr>)
     else \<not> is_ok (read_identifier \<lparr>data = out' @ rest, offset = length out\<rparr>))"
proof -
  have "\<exists>t. (t = s \<or> t = ''minecraft:'' @ s) \<and> normal_identifier t \<and> out' = out @ string_img t \<and>
      length t \<le> 2147483647"
    using write_identifier_cases [OF assms]
  proof (elim disjE conjE)
    assume "length s \<le> 32767"
    then have "length s \<le> 2147483647" by simp
    then show "normal_identifier s \<Longrightarrow> out' = out @ string_img s \<Longrightarrow> ?thesis" by blast
  qed blast
  then obtain t where t: "t = s \<or> t = ''minecraft:'' @ s" "normal_identifier t"
      and o: "out' = out @ string_img t" and l: "length t \<le> 2147483647"
    by blast
  from t(2) obtain ns path where s: "t = ns @ CHR '':'' # path" "ns \<noteq> []" "path \<noteq> []"
     "list_all valid_namespace ns" "list_all valid_path path"
    by (auto simp: normal_identifier_iff)
  have "ok_identifier t" if "length t \<le> 32767"
    using t(2) that by (simp add: ok_identifier_def)
  moreover have "\<not> is_ok (read_identifier (reader_at out (string_img t @ rest)))" if "\<not> length t \<le> 32767"
    using that ascii_string_length [OF normal_identifier_ascii [OF t(2)]]
    by (intro read_identifier_rejects read_string_rejects l) (simp add: ok_string_def)
  ultimately have "if length t \<le> 32767
     then read_identifier \<lparr>data = out' @ rest, offset = length out\<rparr> =
       Inr (t, \<lparr>data = out' @ rest, offset = length out'\<rparr>)
     else \<not> is_ok (read_identifier \<lparr>data = out' @ rest, offset = length out\<rparr>)"
    using read_identifier_at [of t out rest] by (auto simp: o reader_at_def)
  with t(1) s show ?thesis by blast
qed

theorem identifier_normalised_witness:
  "write_identifier [] ''a:b'' = Inr (string_img ''a:b'') \<and>
   is_ok (read_identifier (mk_reader (string_img ''a:b'')))"
proof -
  have "ok_identifier ''a:b''"
    by (simp add: ok_identifier_def normal_identifier_def valid_path_def valid_namespace_def
        char_between_def byte_of_char_def)
  then have w: "write_identifier [] ''a:b'' = Inr (string_img ''a:b'')"
    using write_identifier_ok [of "''a:b''" "[]"] by simp
  from identifier_normalised [OF this, of "[]"] show ?thesis
    using w by (auto simp: mk_reader_def)
qed

text \<open>C18. A framed packet is its length as a VarInt followed by the packet id and the payload; a receiver that
  reads the length and then that many bytes gets exactly those, whatever follows. \<open>frame_packet\<close> throws
  only when the body is longer than a VarInt can say.\<close>

theorem frame_packet_roundtrip:
  "case frame_packet packet_id payload of
     Inl e \<Rightarrow> length (write_varint [] packet_id) + length payload > 2147483647
   | Inr frame \<Rightarrow> \<exists>n. frame = write_varint [] n @ write_varint [] packet_id @ payload \<and>
       sint n = int (length (write_varint [] packet_id @ payload)) \<and>
       bindD read_varint (\<lambda>n. read_bytes (unat n)) (mk_reader (frame @ rest)) =
         Inr (write_varint [] packet_id @ payload, \<lparr>data = frame @ rest, offset = length frame\<rparr>)"
proof (cases "frame_packet packet_id payload")
  case (Inl e)
  then show ?thesis by (simp add: frame_packet_def Let_def split: if_splits)
next
  case (Inr frame)
  let ?body = "write_varint [] packet_id @ payload"
  from read_frame_packet [OF Inr, of "[]" rest] obtain n where
    n: "frame = write_varint [] n @ ?body" "unat n = length ?body"
    "read_frame (mk_reader (frame @ rest)) =
      Inr (?body, \<lparr>data = frame @ rest, offset = length frame\<rparr>)"
    by (auto simp: mk_reader_at reader_at_def)
  from Inr have "length ?body \<le> 2147483647"
    by (simp add: frame_packet_def Let_def split: if_splits)
  moreover have "sint k = int (unat k)" if "unat k \<le> 2147483647" for k :: i32
    using that sint_word_of_nat [where 'w = 32, of "unat k"] by simp
  ultimately have "sint n = int (length ?body)"
    by (simp only: n(2))
  with n(1,3) show ?thesis
    by (auto simp: Inr read_frame_def)
qed

text \<open>C15. With a zlib that undoes its own compression, what \<open>frame_compressed_packet\<close> produced is, behind its
  length prefix, decoded by \<open>decode_frame_payload\<close> with the same threshold to the packet id and payload,
  both above and below the threshold, as long as the receiver's limit admits the size.\<close>

theorem compressed_frame_decodes:
  assumes "zlib_roundtrip compress inflate"
    and "frame_compressed_packet compress packet_id payload threshold = Inr frame"
    and "length (write_varint [] packet_id @ payload) \<le> max_size"
  shows "\<exists>n body. frame = write_varint [] n @ body \<and> unat n = length body \<and>
    decode_frame_payload inflate body threshold max_size = Inr (write_varint [] packet_id @ payload)"
  using assms by (rule compressed_frame_roundtrip)

text \<open>A concrete zlib for the witness: a stored block, the input behind a marker byte.\<close>

definition stored_compress :: "bytes \<Rightarrow> bytes option" where
  "stored_compress bs = Some (0x78 # bs)"

definition stored_inflate :: "bytes \<Rightarrow> nat \<Rightarrow> inflate_state option" where
  "stored_inflate bs n = Some \<lparr>stream_end = length bs \<le> Suc n, total_out = min (length bs - 1) n,
     avail_in = length bs - Suc n, out_buffer = take n (tl bs)\<rparr>"

lemma stored_zlib: "zlib_roundtrip stored_compress stored_inflate"
  by (simp add: zlib_roundtrip_def stored_compress_def stored_inflate_def)

theorem compressed_frame_decodes_witness:
  "\<exists>frame n body. frame_compressed_packet stored_compress 3 [1, 2] 2 = Inr frame \<and>
     frame = write_varint [] n @ body \<and>
     decode_frame_payload stored_inflate body 2 100 = Inr (write_varint [] 3 @ [1, 2])"
proof -
  have v: "write_varint [] n = [ucast n]" if "drop_bit 7 n = 0" "n AND 0x7F = n" for n
    using that by (simp add: write_varint_def write_leb.simps Let_def)
  have f: "frame_compressed_packet stored_compress 3 [1, 2] 2 = Inr [5, 3, 0x78, 3, 1, 2]"
    by (simp add: frame_compressed_packet_def stored_compress_def v)
  have "length (write_varint [] 3 @ [1, 2]) \<le> 100"
    using write_varint_length [of 3] by simp
  from compressed_frame_decodes [OF stored_zlib f this] f show ?thesis by blast
qed

text \<open>No primitive reader leaves the span it was given: started inside it, a reader that returns leaves
  the bytes alone and its offset between the old one and the end.\<close>

theorem readers_safe:
  "safe read_varint \<and> safe read_varlong \<and> safe read_u8 \<and> safe read_bool \<and> safe read_i8 \<and>
   safe read_i16_be \<and> safe read_u16_be \<and> safe read_i32_be \<and> safe read_i64_be \<and> safe read_f32_be \<and>
   safe read_f64_be \<and> safe read_uuid \<and> safe read_position \<and> safe read_angle \<and> safe (read_string m) \<and>
   safe read_identifier \<and> safe (read_byte_array m) \<and> safe (read_bitset m)"
  by (intro conjI safe_intros)

end
