(* ===== verification/Nbt.thy ===== *)
theory Nbt
  imports Codec
begin

text \<open>
  Named binary tags (include/mc/protocol/nbt.hpp, src/protocol/nbt.cpp): the tag
  tree, the modified UTF-8 of its strings, the bounded recursive reader and
  writer, and the facts that the reader undoes the writer and only returns
  trees within the limits.

  \<open>Tag::value\<close> is a variant that the type field does not constrain, so a tag is a
  pair of both. Floats are bit patterns. A writer that throws leaves no output
  in the model (the code leaves a prefix, which no caller uses).
\<close>

section \<open>Tags and limits\<close>

datatype nbt_type =
    End_T | Byte_T | Short_T | Integer_T | Long_T | Float_T | Double_T
  | Byte_Array_T | String_T | List_T | Compound_T | Integer_Array_T | Long_Array_T

datatype tag = Tag (tag_type: nbt_type) (tag_value: nbt_value)
and nbt_value =
    No_Value
  | Byte_Value i8
  | Short_Value i16
  | Integer_Value i32
  | Long_Value i64
  | Float_Value u32
  | Double_Value u64
  | Byte_Array_Value "i8 list"
  | String_Value string
  | List_Value nbt_type "tag list"
  | Compound_Value "(string \<times> tag) list"
  | Integer_Array_Value "i32 list"
  | Long_Array_Value "i64 list"

record limits =
  max_bytes :: nat
  max_depth :: nat
  max_collection_entries :: nat
  max_string_bytes :: nat

definition default_limits :: limits where
  "default_limits = \<lparr>max_bytes = 2 * 1024 * 1024, max_depth = 64,
     max_collection_entries = 65536, max_string_bytes = 65535\<rparr>"

text \<open>The enumerators in order: the value of an enumerator is its index.\<close>

definition nbt_types :: "nbt_type list" where
  "nbt_types = [End_T, Byte_T, Short_T, Integer_T, Long_T, Float_T, Double_T,
     Byte_Array_T, String_T, List_T, Compound_T, Integer_Array_T, Long_Array_T]"

fun type_id :: "nbt_type \<Rightarrow> u8" where
  "type_id End_T = 0"
| "type_id Byte_T = 1"
| "type_id Short_T = 2"
| "type_id Integer_T = 3"
| "type_id Long_T = 4"
| "type_id Float_T = 5"
| "type_id Double_T = 6"
| "type_id Byte_Array_T = 7"
| "type_id String_T = 8"
| "type_id List_T = 9"
| "type_id Compound_T = 10"
| "type_id Integer_Array_T = 11"
| "type_id Long_Array_T = 12"

definition read_type :: "nbt_type decoder" where
  "read_type = bindD read_u8 (\<lambda>id.
     guardD (id > type_id Long_Array_T) (Decode_Error ''NBT tag type is out of bounds'')
       (returnD (nbt_types ! unat id)))"

section \<open>Modified UTF-8\<close>

text \<open>
  The loop body of \<open>read_modified_utf\<close> in three steps: one unit, the low
  surrogate that must follow a high one, and the UTF-8 of the code point. \<open>rest\<close>
  is what the index has not passed.
\<close>

definition modified_unit :: "u8 \<Rightarrow> bytes \<Rightarrow> (u32 \<times> bytes) result" where
  "modified_unit first rest =
     (if first AND 0x80 = 0
      then (if first = 0 then Inl (Decode_Error ''NBT modified UTF contains raw NUL'')
            else Inr (ucast first, rest))
      else if first AND 0xE0 = 0xC0
      then (if length rest < 1 \<or> rest ! 0 AND 0xC0 \<noteq> 0x80
            then Inl (Decode_Error ''NBT modified UTF is malformed'')
            else
              let unit = push_bit 6 (ucast (first AND 0x1F)) OR ucast (rest ! 0 AND 0x3F)
              in if unit \<noteq> 0 \<and> unit < 0x80
                 then Inl (Decode_Error ''NBT modified UTF is overlong'')
                 else Inr (unit, drop 1 rest))
      else if first AND 0xF0 = 0xE0
      then (if length rest < 2 \<or> rest ! 0 AND 0xC0 \<noteq> 0x80 \<or> rest ! 1 AND 0xC0 \<noteq> 0x80
            then Inl (Decode_Error ''NBT modified UTF is malformed'')
            else
              let unit = push_bit 12 (ucast (first AND 0x0F)) OR
                    push_bit 6 (ucast (rest ! 0 AND 0x3F)) OR ucast (rest ! 1 AND 0x3F)
              in if unit < 0x800
                 then Inl (Decode_Error ''NBT modified UTF is overlong'')
                 else Inr (unit, drop 2 rest))
      else Inl (Decode_Error ''NBT modified UTF lead byte is invalid''))"

definition modified_code_point :: "u32 \<Rightarrow> bytes \<Rightarrow> (u32 \<times> bytes) result" where
  "modified_code_point unit rest =
     (if unit \<ge> 0xD800 \<and> unit \<le> 0xDBFF
      then (if length rest < 3 \<or> rest ! 0 AND 0xF0 \<noteq> 0xE0
            then Inl (Decode_Error ''NBT modified UTF surrogate is incomplete'')
            else
              let low = push_bit 12 (ucast (rest ! 0 AND 0x0F)) OR
                    push_bit 6 (ucast (rest ! 1 AND 0x3F)) OR ucast (rest ! 2 AND 0x3F)
              in if low < 0xDC00 \<or> low > 0xDFFF
                 then Inl (Decode_Error ''NBT modified UTF surrogate pair is invalid'')
                 else Inr (0x10000 + push_bit 10 (unit - 0xD800) + (low - 0xDC00), drop 3 rest))
      else if unit \<ge> 0xDC00 \<and> unit \<le> 0xDFFF
      then Inl (Decode_Error ''NBT modified UTF contains an unpaired surrogate'')
      else Inr (unit, rest))"

definition append_utf8 :: "bytes \<Rightarrow> u32 \<Rightarrow> bytes" where
  "append_utf8 output code_point = output @
     (if code_point \<le> 0x7F then [ucast code_point]
      else if code_point \<le> 0x7FF
      then [ucast (0xC0 OR drop_bit 6 code_point), ucast (0x80 OR (code_point AND 0x3F))]
      else if code_point \<le> 0xFFFF
      then [ucast (0xE0 OR drop_bit 12 code_point),
            ucast (0x80 OR (drop_bit 6 code_point AND 0x3F)), ucast (0x80 OR (code_point AND 0x3F))]
      else [ucast (0xF0 OR drop_bit 18 code_point),
            ucast (0x80 OR (drop_bit 12 code_point AND 0x3F)),
            ucast (0x80 OR (drop_bit 6 code_point AND 0x3F)), ucast (0x80 OR (code_point AND 0x3F))])"

lemma modified_unit_rest: "modified_unit b bs = Inr (u, bs') \<Longrightarrow> length bs' \<le> length bs"
  by (auto simp: modified_unit_def Let_def split: if_splits)

lemma modified_code_point_rest: "modified_code_point u bs = Inr (c, bs') \<Longrightarrow> length bs' \<le> length bs"
  by (auto simp: modified_code_point_def Let_def split: if_splits)

function decode_modified_utf :: "bytes \<Rightarrow> bytes \<Rightarrow> bytes result" where
  "decode_modified_utf [] output = Inr output"
| "decode_modified_utf (first # rest) output =
     bindR (modified_unit first rest) (\<lambda>(unit, rest1).
       bindR (modified_code_point unit rest1) (\<lambda>(code_point, rest2).
         decode_modified_utf rest2 (append_utf8 output code_point)))"
  by pat_completeness auto
termination
  by (relation "measure (\<lambda>(bs, out). length bs)")
    (auto dest!: modified_unit_rest modified_code_point_rest)

definition read_modified_utf :: "limits \<Rightarrow> string decoder" where
  "read_modified_utf limits = bindD read_u16_be (\<lambda>size.
     guardD (unat size > max_string_bytes limits) (Decode_Error ''NBT string exceeds limit'')
       (bindD (read_bytes (unat size)) (\<lambda>bytes.
         bindD (liftD (decode_modified_utf bytes [])) (\<lambda>output.
           returnD (string_of output)))))"

definition append_modified_unit :: "bytes \<Rightarrow> u16 \<Rightarrow> bytes" where
  "append_modified_unit output unit = output @
     (if unit \<ge> 1 \<and> unit \<le> 0x7F then [ucast unit]
      else if unit \<le> 0x7FF
      then [ucast (0xC0 OR drop_bit 6 unit), ucast (0x80 OR (unit AND 0x3F))]
      else [ucast (0xE0 OR drop_bit 12 unit), ucast (0x80 OR (drop_bit 6 unit AND 0x3F)),
            ucast (0x80 OR (unit AND 0x3F))])"

text \<open>The loop of \<open>encode_modified_utf\<close>: the lead byte, its continuations, the units.\<close>

definition encode_lead :: "u8 \<Rightarrow> (nat \<times> u32) option" where
  "encode_lead first =
     (if first AND 0x80 = 0 then Some (0, ucast first)
      else if first AND 0xE0 = 0xC0 then Some (1, ucast first AND 0x1F)
      else if first AND 0xF0 = 0xE0 then Some (2, ucast first AND 0x0F)
      else if first AND 0xF8 = 0xF0 then Some (3, ucast first AND 0x07)
      else None)"

fun encode_continue :: "bytes \<Rightarrow> u32 \<Rightarrow> u32 result" where
  "encode_continue [] code_point = Inr code_point"
| "encode_continue (continuation # bs) code_point =
     (if continuation AND 0xC0 \<noteq> 0x80
      then Inl (Invalid_Argument ''NBT string contains malformed UTF-8'')
      else encode_continue bs (push_bit 6 code_point OR ucast (continuation AND 0x3F)))"

definition append_code_point :: "bytes \<Rightarrow> u32 \<Rightarrow> bytes" where
  "append_code_point output code_point =
     (if code_point \<le> 0xFFFF then append_modified_unit output (ucast code_point)
      else
        let code_point = code_point - 0x10000;
            output = append_modified_unit output (ucast (0xD800 + drop_bit 10 code_point))
        in append_modified_unit output (ucast (0xDC00 + (code_point AND 0x3FF))))"

function encode_modified_from :: "bytes \<Rightarrow> bytes \<Rightarrow> bytes result" where
  "encode_modified_from [] output = Inr output"
| "encode_modified_from (first # rest) output =
     (case encode_lead first of
        None \<Rightarrow> Inl (Invalid_Argument ''NBT string contains malformed UTF-8'')
      | Some (continuation_count, code_point) \<Rightarrow>
          if continuation_count > length rest
          then Inl (Invalid_Argument ''NBT string contains truncated UTF-8'')
          else bindR (encode_continue (take continuation_count rest) code_point) (\<lambda>code_point.
            if code_point > 0x10FFFF \<or> code_point \<ge> 0xD800 \<and> code_point \<le> 0xDFFF
            then Inl (Invalid_Argument ''NBT string code point is invalid'')
            else encode_modified_from (drop continuation_count rest)
                   (append_code_point output code_point)))"
  by pat_completeness auto
termination
  by (relation "measure (\<lambda>(bs, out). length bs)") auto

definition encode_modified_utf :: "string \<Rightarrow> bytes result" where
  "encode_modified_utf str = encode_modified_from (bytes_of str) []"

definition write_modified_utf :: "limits \<Rightarrow> bytes \<Rightarrow> string \<Rightarrow> bytes result" where
  "write_modified_utf limits output str =
     bindR (encode_modified_utf str) (\<lambda>encoded.
       if length encoded > max_string_bytes limits \<or> length encoded > 65535
       then Inl (Length_Error ''NBT string exceeds limit'')
       else Inr (write_u16_be output (word_of_nat (length encoded)) @ encoded))"

section \<open>Reading a tag\<close>

definition checked_count :: "limits \<Rightarrow> nat decoder" where
  "checked_count limits = bindD read_i32_be (\<lambda>count.
     guardD (sint count < 0 \<or> unat count > max_collection_entries limits)
       (Decode_Error ''NBT collection length is out of bounds'')
       (returnD (unat count)))"

text \<open>
  The \<open>while (true)\<close> loop over the entries of a compound, with \<open>n\<close> entries read so
  far and the reader of a child; it ends because \<open>n\<close> is bounded.
\<close>

function read_entries :: "limits \<Rightarrow> (nbt_type \<Rightarrow> tag decoder) \<Rightarrow> nat \<Rightarrow> (string \<times> tag) list decoder" where
  "read_entries limits read_child n = bindD read_type (\<lambda>child_type.
     if child_type = End_T then returnD []
     else if n \<ge> max_collection_entries limits
     then throwD (Decode_Error ''NBT compound entry count exceeds limit'')
     else bindD (read_modified_utf limits) (\<lambda>name.
       bindD (read_child child_type) (\<lambda>child.
         bindD (read_entries limits read_child (n + 1)) (\<lambda>entries.
           returnD ((name, child) # entries)))))"
  by pat_completeness auto
termination
  by (relation "measure (\<lambda>(limits, _, n). max_collection_entries limits - n)") auto
declare read_entries.simps [simp del]

function read_payload :: "limits \<Rightarrow> nat \<Rightarrow> nbt_type \<Rightarrow> tag decoder" where
  "read_payload limits depth type =
     (if depth > max_depth limits then throwD (Decode_Error ''NBT depth exceeds limit'')
      else (case type of
        End_T \<Rightarrow> returnD (Tag End_T No_Value)
      | Byte_T \<Rightarrow> bindD read_i8 (\<lambda>v. returnD (Tag Byte_T (Byte_Value v)))
      | Short_T \<Rightarrow> bindD read_i16_be (\<lambda>v. returnD (Tag Short_T (Short_Value v)))
      | Integer_T \<Rightarrow> bindD read_i32_be (\<lambda>v. returnD (Tag Integer_T (Integer_Value v)))
      | Long_T \<Rightarrow> bindD read_i64_be (\<lambda>v. returnD (Tag Long_T (Long_Value v)))
      | Float_T \<Rightarrow> bindD read_f32_be (\<lambda>v. returnD (Tag Float_T (Float_Value v)))
      | Double_T \<Rightarrow> bindD read_f64_be (\<lambda>v. returnD (Tag Double_T (Double_Value v)))
      | Byte_Array_T \<Rightarrow> bindD (checked_count limits) (\<lambda>count.
          bindD (read_n count read_i8) (\<lambda>vs. returnD (Tag Byte_Array_T (Byte_Array_Value vs))))
      | String_T \<Rightarrow> bindD (read_modified_utf limits) (\<lambda>v. returnD (Tag String_T (String_Value v)))
      | List_T \<Rightarrow> bindD read_type (\<lambda>element_type.
          bindD (checked_count limits) (\<lambda>count.
            guardD (element_type = End_T \<and> count \<noteq> 0)
              (Decode_Error ''NBT non-empty list has END element type'')
              (bindD (read_n count (read_payload limits (depth + 1) element_type)) (\<lambda>vs.
                returnD (Tag List_T (List_Value element_type vs))))))
      | Compound_T \<Rightarrow>
          bindD (read_entries limits (\<lambda>child_type. read_payload limits (depth + 1) child_type) 0)
            (\<lambda>entries. returnD (Tag Compound_T (Compound_Value entries)))
      | Integer_Array_T \<Rightarrow> bindD (checked_count limits) (\<lambda>count.
          bindD (read_n count read_i32_be) (\<lambda>vs. returnD (Tag Integer_Array_T (Integer_Array_Value vs))))
      | Long_Array_T \<Rightarrow> bindD (checked_count limits) (\<lambda>count.
          bindD (read_n count read_i64_be) (\<lambda>vs. returnD (Tag Long_Array_T (Long_Array_Value vs))))))"
  by pat_completeness auto
termination
  by (relation "measure (\<lambda>(limits, depth, _). Suc (max_depth limits) - depth)") auto
declare read_payload.simps [simp del]

definition read_any_tag :: "limits \<Rightarrow> tag decoder" where
  "read_any_tag limits input =
     bindD read_type (\<lambda>type. bindD (read_payload limits 0 type) (\<lambda>tag rest.
       guardD (remaining input - remaining rest > max_bytes limits)
         (Decode_Error ''NBT payload exceeds byte limit'') (returnD tag) rest)) input"

section \<open>Writing a tag\<close>

definition mismatch :: exn where
  "mismatch = Invalid_Argument ''NBT tag value does not match type''"

definition write_array :: "limits \<Rightarrow> (bytes \<Rightarrow> 'a \<Rightarrow> bytes) \<Rightarrow> bytes \<Rightarrow> 'a list \<Rightarrow> bytes result" where
  "write_array limits put output vs =
     (if length vs > max_collection_entries limits
      then Inl (Length_Error ''NBT array exceeds limit'')
      else Inr (foldl put (write_i32_be output (word_of_nat (length vs))) vs))"

text \<open>The check behind the \<open>switch\<close>: it counts the whole output, not only the tag.\<close>

definition check_bytes :: "limits \<Rightarrow> bytes \<Rightarrow> bytes result" where
  "check_bytes limits output =
     (if length output > max_bytes limits
      then Inl (Length_Error ''NBT payload exceeds byte limit'') else Inr output)"

fun write_payload :: "limits \<Rightarrow> nat \<Rightarrow> bytes \<Rightarrow> tag \<Rightarrow> bytes result"
and write_switch :: "limits \<Rightarrow> nat \<Rightarrow> bytes \<Rightarrow> nbt_type \<Rightarrow> nbt_value \<Rightarrow> bytes result"
and write_values :: "limits \<Rightarrow> nat \<Rightarrow> nbt_type \<Rightarrow> bytes \<Rightarrow> tag list \<Rightarrow> bytes result"
and write_entries :: "limits \<Rightarrow> nat \<Rightarrow> bytes \<Rightarrow> (string \<times> tag) list \<Rightarrow> bytes result" where
  "write_payload limits depth output (Tag type v) =
     (if depth > max_depth limits then Inl (Length_Error ''NBT depth exceeds limit'')
      else bindR (write_switch limits depth output type v) (check_bytes limits))"
| "write_switch limits depth output End_T v = Inr output"
| "write_switch limits depth output Byte_T v =
     (case v of Byte_Value x \<Rightarrow> Inr (write_i8 output x) | _ \<Rightarrow> Inl mismatch)"
| "write_switch limits depth output Short_T v =
     (case v of Short_Value x \<Rightarrow> Inr (write_i16_be output x) | _ \<Rightarrow> Inl mismatch)"
| "write_switch limits depth output Integer_T v =
     (case v of Integer_Value x \<Rightarrow> Inr (write_i32_be output x) | _ \<Rightarrow> Inl mismatch)"
| "write_switch limits depth output Long_T v =
     (case v of Long_Value x \<Rightarrow> Inr (write_i64_be output x) | _ \<Rightarrow> Inl mismatch)"
| "write_switch limits depth output Float_T v =
     (case v of Float_Value x \<Rightarrow> Inr (write_f32_be output x) | _ \<Rightarrow> Inl mismatch)"
| "write_switch limits depth output Double_T v =
     (case v of Double_Value x \<Rightarrow> Inr (write_f64_be output x) | _ \<Rightarrow> Inl mismatch)"
| "write_switch limits depth output Byte_Array_T v =
     (case v of Byte_Array_Value xs \<Rightarrow> write_array limits write_i8 output xs | _ \<Rightarrow> Inl mismatch)"
| "write_switch limits depth output String_T v =
     (case v of String_Value s \<Rightarrow> write_modified_utf limits output s | _ \<Rightarrow> Inl mismatch)"
| "write_switch limits depth output List_T v =
     (case v of
        List_Value element_type xs \<Rightarrow>
          if length xs > max_collection_entries limits \<or> element_type = End_T \<and> xs \<noteq> []
          then Inl (Length_Error ''NBT list exceeds limit or has invalid type'')
          else write_values limits depth element_type
                 (write_i32_be (output @ [type_id element_type]) (word_of_nat (length xs))) xs
      | _ \<Rightarrow> Inl mismatch)"
| "write_switch limits depth output Compound_T v =
     (case v of
        Compound_Value entries \<Rightarrow>
          if length entries > max_collection_entries limits
          then Inl (Length_Error ''NBT compound exceeds limit'')
          else bindR (write_entries limits depth output entries) (\<lambda>output. Inr (output @ [0]))
      | _ \<Rightarrow> Inl mismatch)"
| "write_switch limits depth output Integer_Array_T v =
     (case v of Integer_Array_Value xs \<Rightarrow> write_array limits write_i32_be output xs | _ \<Rightarrow> Inl mismatch)"
| "write_switch limits depth output Long_Array_T v =
     (case v of Long_Array_Value xs \<Rightarrow> write_array limits write_i64_be output xs | _ \<Rightarrow> Inl mismatch)"
| "write_values limits depth element_type output [] = Inr output"
| "write_values limits depth element_type output (x # xs) =
     (if tag_type x \<noteq> element_type then Inl (Invalid_Argument ''NBT list type mismatch'')
      else bindR (write_payload limits (depth + 1) output x) (\<lambda>output.
        write_values limits depth element_type output xs))"
| "write_entries limits depth output [] = Inr output"
| "write_entries limits depth output ((name, child) # entries) =
     (if tag_type child = End_T
      then Inl (Invalid_Argument ''NBT compound contains named END tag'')
      else bindR (write_modified_utf limits (output @ [type_id (tag_type child)]) name) (\<lambda>output.
        bindR (write_payload limits (depth + 1) output child) (\<lambda>output.
          write_entries limits depth output entries)))"

definition write_any_tag :: "limits \<Rightarrow> bytes \<Rightarrow> tag \<Rightarrow> bytes result" where
  "write_any_tag limits output tag =
     bindR (write_payload limits 0 (output @ [type_id (tag_type tag)]) tag) (\<lambda>out'.
       if length out' - length output > max_bytes limits
       then Inl (Length_Error ''NBT payload exceeds byte limit'') else Inr out')"

definition string_tag :: "string \<Rightarrow> tag" where
  "string_tag s = Tag String_T (String_Value s)"

section \<open>Modified UTF-8 as a specification\<close>

text \<open>A UTF-16 unit in one to three bytes (NUL in two), and a scalar value as its one or two units.\<close>

definition unit_bytes :: "nat \<Rightarrow> bytes" where
  "unit_bytes u = map word_of_nat
     (if 1 \<le> u \<and> u < 0x80 then [u]
      else if u < 0x800 then [192 + u div 64, 128 + u mod 64]
      else [224 + u div 64 div 64, 128 + u div 64 mod 64, 128 + u mod 64])"

definition modified_encode :: "nat \<Rightarrow> bytes" where
  "modified_encode c =
     (if c < 0x10000 then unit_bytes c
      else unit_bytes (0xD800 + (c - 0x10000) div 1024) @ unit_bytes (0xDC00 + (c - 0x10000) mod 1024))"

lemma or_tag:
  assumes "take_bit k c = 0" and "unat x < 2 ^ k"
  shows "c OR x = c + (x :: 'w::len word)"
proof (rule disjunctive_add_eq_or [symmetric], rule bit_word_eqI)
  fix n assume "n < LENGTH('w)"
  have "take_bit k x = x"
  proof (rule unsigned_word_eqI)
    show "unat (take_bit k x) = unat x"
      using assms(2) by (simp add: unsigned_take_bit_eq take_bit_nat_eq_self)
  qed
  then have "bit x n \<longleftrightarrow> n < k \<and> bit x n"
    by (metis bit_take_bit_iff)
  moreover have "n < k \<Longrightarrow> \<not> bit c n"
    using assms(1) by (metis bit_take_bit_iff bit_0_eq bot_apply bot_bool_def)
  ultimately show "bit (c AND x) n = bit 0 n"
    by (auto simp: bit_simps)
qed

lemma ucast_u8_nat: "(ucast (w :: 'w::len word) :: u8) = word_of_nat (unat w)"
  by (simp add: unsigned_of_nat flip: unsigned_ucast_eq) 

lemma tagged_byte:
  assumes "take_bit k c = 0" and "unat x < 2 ^ k" and "unat c + unat x < 2 ^ LENGTH('w)"
  shows "(ucast (c OR (x :: 'w::len word)) :: u8) = word_of_nat (unat c + unat x)"
proof -
  have "unat (c OR x) = unat c + unat x"
    using assms(3) by (simp only: or_tag [OF assms(1,2)] unat_add_lem)
  then show ?thesis by (simp only: ucast_u8_nat)
qed

lemma unat_and_63: "unat ((w :: 'w::len word) AND 0x3F) = unat w mod 64"
proof -
  have "unat (w AND mask 6) = unat w mod 2 ^ 6"
    by (simp add: unsigned_take_bit_eq take_bit_nat_def flip: take_bit_eq_mask)
  then show ?thesis by (simp add: mask_numeral)
qed

lemma continuation_bytes:
  "(ucast (0x80 OR ((w :: u16) AND 0x3F)) :: u8) = word_of_nat (128 + unat w mod 64)"
  "(ucast (0x80 OR ((v :: u32) AND 0x3F)) :: u8) = word_of_nat (128 + unat v mod 64)"
proof -
  have "unat w mod 64 < 64" "unat v mod 64 < 64" by simp_all
  then have "128 + unat w mod 64 < 65536" "128 + unat v mod 64 < 4294967296" by linarith+
  then show "(ucast (0x80 OR (w AND 0x3F)) :: u8) = word_of_nat (128 + unat w mod 64)"
    "(ucast (0x80 OR (v AND 0x3F)) :: u8) = word_of_nat (128 + unat v mod 64)"
    using tagged_byte [of 6 "0x80" "w AND 0x3F"] tagged_byte [of 6 "0x80" "v AND 0x3F"]
    by (simp_all add: unat_and_63)
qed

lemma lead_byte_u16:
  "unat (w :: u16) < 32 \<Longrightarrow> (ucast (0xC0 OR w) :: u8) = word_of_nat (192 + unat w)"
  "unat w < 16 \<Longrightarrow> (ucast (0xE0 OR w) :: u8) = word_of_nat (224 + unat w)"
  using tagged_byte [of 5 "0xC0" w] tagged_byte [of 4 "0xE0" w] by simp_all

lemma lead_byte_u32:
  "unat (w :: u32) < 32 \<Longrightarrow> (ucast (0xC0 OR w) :: u8) = word_of_nat (192 + unat w)"
  "unat w < 16 \<Longrightarrow> (ucast (0xE0 OR w) :: u8) = word_of_nat (224 + unat w)"
  "unat w < 8 \<Longrightarrow> (ucast (0xF0 OR w) :: u8) = word_of_nat (240 + unat w)"
  using tagged_byte [of 5 "0xC0" w] tagged_byte [of 4 "0xE0" w] tagged_byte [of 3 "0xF0" w] by simp_all

lemma u16_div: "unat (u :: u16) div 64 div 64 < 16"
proof -
  have "unat u < 2 ^ 16" using unsigned_less [where 'a = nat, of u] by simp
  then show ?thesis by simp
qed

lemma append_modified_unit_bytes:
  "append_modified_unit out u = out @ unit_bytes (unat u)"
proof -
  consider "u \<ge> 1 \<and> u \<le> 0x7F" | "\<not> (u \<ge> 1 \<and> u \<le> 0x7F)" "u \<le> 0x7FF" | "\<not> u \<le> 0x7FF" by blast
  then show ?thesis
  proof cases
    case 1
    then show ?thesis
      by (simp add: append_modified_unit_def unit_bytes_def word_le_nat_alt ucast_u8_nat del: of_nat_unat)
  next
    case 2
    then have "unat u div 64 < 32" by (simp add: word_le_nat_alt less_mult_imp_div_less)
    moreover have "\<not> (1 \<le> unat u \<and> unat u < 0x80)" "unat u < 0x800"
      using 2 by (auto simp: word_le_nat_alt)
    moreover have "unat (drop_bit 6 u) = unat u div 64"
      by (simp add: unat_drop_bit)
    ultimately show ?thesis
      using 2 by (simp only: append_modified_unit_def unit_bytes_def if_False if_True
        continuation_bytes lead_byte_u16 list.map)
  next
    case 3
    then have "unat u div 64 div 64 < 16" by (simp only: u16_div)
    moreover have "\<not> (1 \<le> unat u \<and> unat u < 0x80)" "\<not> unat u < 0x800" "\<not> (u \<ge> 1 \<and> u \<le> 0x7F)"
      using 3 by (auto simp: word_le_nat_alt)
    moreover have "unat (drop_bit 12 u) = unat u div 64 div 64" "unat (drop_bit 6 u) = unat u div 64"
      by (simp_all add: unat_drop_bit flip: div_mult2_eq)
    ultimately show ?thesis
      using 3 by (simp only: append_modified_unit_def unit_bytes_def if_False if_True
        continuation_bytes lead_byte_u16 list.map)
  qed
qed

lemma append_utf8_bytes:
  assumes "unat c < 0x110000"
  shows "append_utf8 out c = out @ utf8_encode (unat c)"
proof -
  have d: "unat (drop_bit 6 c) = unat c div 64" "unat (drop_bit 12 c) = unat c div 4096"
    "unat (drop_bit 18 c) = unat c div 262144"
    by (simp_all add: unat_drop_bit)
  consider "unat c < 0x80" | "\<not> unat c < 0x80" "unat c < 0x800"
    | "\<not> unat c < 0x80" "\<not> unat c < 0x800" "unat c < 0x10000"
    | "\<not> unat c < 0x80" "\<not> unat c < 0x800" "\<not> unat c < 0x10000" by blast
  then show ?thesis
  proof cases
    case 1
    then show ?thesis by (simp add: append_utf8_def utf8_encode_def word_le_nat_alt ucast_u8_nat del: of_nat_unat)
  next
    case 2
    then have "unat c div 64 < 32" by (simp add: less_mult_imp_div_less)
    moreover have "\<not> c \<le> 0x7F" "c \<le> 0x7FF" using 2 by (auto simp: word_le_nat_alt)
    ultimately show ?thesis
      using 2 by (simp only: append_utf8_def utf8_encode_def if_False if_True
        continuation_bytes lead_byte_u32 d list.map)
  next
    case 3
    then have "unat c div 4096 < 16" by (simp add: less_mult_imp_div_less)
    moreover have "\<not> c \<le> 0x7F" "\<not> c \<le> 0x7FF" "c \<le> 0xFFFF" using 3 by (auto simp: word_le_nat_alt)
    ultimately show ?thesis
      using 3 by (simp only: append_utf8_def utf8_encode_def if_False if_True
        continuation_bytes lead_byte_u32 d list.map)
  next
    case 4
    then have "unat c div 262144 < 8" using assms by simp
    moreover have "\<not> c \<le> 0x7F" "\<not> c \<le> 0x7FF" "\<not> c \<le> 0xFFFF" using 4 by (auto simp: word_le_nat_alt)
    ultimately show ?thesis
      using 4 by (simp only: append_utf8_def utf8_encode_def if_False if_True
        continuation_bytes lead_byte_u32 d list.map)
  qed
qed


section \<open>Decoding what was encoded\<close>

lemma shift_or_12:
  "push_bit 12 (a :: u32) OR (push_bit 6 b OR c) = push_bit 6 (push_bit 6 a OR b) OR c"
  "(push_bit 12 (a :: u32) OR push_bit 6 b) OR c = push_bit 6 (push_bit 6 a OR b) OR c"
  by (rule bit_word_eqI; auto simp: bit_simps)+

lemma gather_2:
  "unat (push_bit 6 (ucast (b AND 0x1F :: u8)) OR (ucast (x AND 0x3F :: u8) :: u32)) =
     unat b mod 32 * 64 + unat x mod 64"
  by (subst shift_or) (simp_all add: u32_of_u8 u8_low less_trans [OF mod_less_divisor])

lemma gather_3:
  "unat (push_bit 12 (ucast (b AND 0x0F :: u8)) OR push_bit 6 (ucast (x AND 0x3F :: u8)) OR
      (ucast (y AND 0x3F :: u8) :: u32)) = (unat b mod 16 * 64 + unat x mod 64) * 64 + unat y mod 64"
proof -
  have q: "unat (ucast (b AND 0x0F :: u8) :: u32) = unat b mod 16" "unat (ucast (x AND 0x3F) :: u32) = unat x mod 64"
    "unat (ucast (y AND 0x3F) :: u32) = unat y mod 64"
    by (simp_all only: u32_of_u8 u8_low)
  have "unat b mod 16 < 16" "unat x mod 64 < 64" "unat y mod 64 < 64" by simp_all
  then have "unat b mod 16 < 2 ^ 26" "unat b mod 16 * 64 + unat x mod 64 < 2 ^ 26"
    by (simp_all (no_asm_simp) add: less_trans [of _ 16])
  moreover from this have "unat (push_bit 6 (ucast (b AND 0x0F :: u8)) OR (ucast (x AND 0x3F) :: u32)) =
      unat b mod 16 * 64 + unat x mod 64"
    by (subst shift_or) (simp_all only: q \<open>unat x mod 64 < 64\<close>)
  ultimately show ?thesis
    by (simp only: shift_or_12, subst shift_or) (simp_all only: q \<open>unat y mod 64 < 64\<close>)
qed

lemma modified_unit_1:
  "0 < unat b \<Longrightarrow> unat b < 128 \<Longrightarrow> modified_unit b rest = Inr (word_of_nat (unat b), rest)"
  by (auto simp: modified_unit_def u8_tests)

lemma modified_unit_2:
  assumes "unat b div 32 = 6" and "unat x div 64 = 2"
    and "u = unat b mod 32 * 64 + unat x mod 64" and "u = 0 \<or> 0x80 \<le> u"
  shows "modified_unit b (x # rest) = Inr (word_of_nat u, rest)"
proof -
  let ?u = "push_bit 6 (ucast (b AND 0x1F :: u8)) OR (ucast (x AND 0x3F :: u8) :: u32)"
  have u: "unat ?u = u" using gather_2 [of b x] assms(3) by simp
  then have "?u = word_of_nat u" by (metis of_nat_unat ucast_id)
  moreover have "\<not> (?u \<noteq> 0 \<and> ?u < 0x80)"
    using assms(4) u by (auto simp: word_less_nat_alt unat_eq_0)
  moreover have "unat b div 128 = 1" using assms(1) by simp
  ultimately show ?thesis
    using assms(1,2) by (simp add: modified_unit_def u8_tests Let_def)
qed

lemma modified_unit_3:
  assumes "unat b div 16 = 14" and "unat x div 64 = 2" and "unat y div 64 = 2"
    and "u = (unat b mod 16 * 64 + unat x mod 64) * 64 + unat y mod 64" and "0x800 \<le> u"
  shows "modified_unit b (x # y # rest) = Inr (word_of_nat u, rest)"
proof -
  let ?u = "push_bit 12 (ucast (b AND 0x0F :: u8)) OR push_bit 6 (ucast (x AND 0x3F :: u8)) OR
      (ucast (y AND 0x3F :: u8) :: u32)"
  have u: "unat ?u = u" using gather_3 [of b x y] assms(4) by simp
  then have "?u = word_of_nat u" by (metis of_nat_unat ucast_id)
  moreover have "\<not> ?u < 0x800"
    using assms(5) u by (simp add: word_less_nat_alt)
  moreover have "unat b div 128 = 1" "unat b div 32 = 7" using assms(1) by simp_all
  ultimately show ?thesis
    using assms(1-3) by (simp add: modified_unit_def u8_tests Let_def numeral_2_eq_2)
qed

lemma unit_bytes_parts:
  assumes "u < 0x10000"
  obtains b cs where "unit_bytes u = b # cs"
    and "\<And>rest. modified_unit b (cs @ rest) = Inr (word_of_nat u, rest)"
proof -
  consider "1 \<le> u" "u < 0x80" | "\<not> (1 \<le> u \<and> u < 0x80)" "u < 0x800" | "\<not> u < 0x800" by blast
  then show thesis
  proof cases
    case 1
    then show thesis
      using that [of "word_of_nat u" "[]"] modified_unit_1 [of "word_of_nat u"]
      by (simp add: unit_bytes_def unat_byte)
  next
    case 2
    then have "u div 64 < 32" by (simp add: less_mult_imp_div_less)
    then have b: "unat (word_of_nat (192 + u div 64) :: u8) = 192 + u div 64"
      "(192 + u div 64) mod 32 = u div 64" "(192 + u div 64) div 32 = 6"
      by (simp_all only: unat_lead lead_mods)
    have x: "unat (word_of_nat (128 + u mod 64) :: u8) = 128 + u mod 64"
      "(128 + u mod 64) mod 64 = u mod 64" "(128 + u mod 64) div 64 = 2"
      by (simp_all only: unat_lead lead_mods mod_less_divisor zero_less_numeral)
    have "modified_unit (word_of_nat (192 + u div 64)) (word_of_nat (128 + u mod 64) # rest) =
        Inr (word_of_nat u, rest)" for rest
      using 2 by (intro modified_unit_2) (simp_all only: b x div_mult_mod_eq, linarith)
    moreover have "unit_bytes u = [word_of_nat (192 + u div 64), word_of_nat (128 + u mod 64)]"
      unfolding unit_bytes_def using 2 by (simp only: if_True if_False list.map)
    ultimately show thesis by (intro that) (assumption, simp only: append_Cons append_Nil)
  next
    case 3
    then have "u div 64 div 64 < 16" using assms by simp
    then have b: "unat (word_of_nat (224 + u div 64 div 64) :: u8) = 224 + u div 64 div 64"
      "(224 + u div 64 div 64) mod 16 = u div 64 div 64" "(224 + u div 64 div 64) div 16 = 14"
      by (simp_all only: unat_lead lead_mods)
    have x: "unat (word_of_nat (128 + n mod 64) :: u8) = 128 + n mod 64"
      "(128 + n mod 64) mod 64 = n mod 64" "(128 + n mod 64) div 64 = 2" for n
      by (simp_all only: unat_lead lead_mods mod_less_divisor zero_less_numeral)
    have "modified_unit (word_of_nat (224 + u div 64 div 64))
        (word_of_nat (128 + u div 64 mod 64) # word_of_nat (128 + u mod 64) # rest) =
        Inr (word_of_nat u, rest)" for rest
      using 3 by (intro modified_unit_3) (simp_all only: b x div_mult_mod_eq)
    moreover have "unit_bytes u =
        [word_of_nat (224 + u div 64 div 64), word_of_nat (128 + u div 64 mod 64), word_of_nat (128 + u mod 64)]"
      unfolding unit_bytes_def using 3 by simp
    ultimately show thesis by (intro that) (assumption, simp only: append_Cons append_Nil)
  qed
qed


lemma code_point_bmp:
  assumes "u < 0x10000" and "scalar_value u"
  shows "modified_code_point (word_of_nat u) rest = Inr (word_of_nat u, rest)"
  using assms
  by (auto simp: modified_code_point_def scalar_value_def word_le_nat_alt unat_u32_of_nat)

lemma surrogate_bytes:
  assumes "l < 1024"
  obtains b x y where "unit_bytes (0xDC00 + l) = [b, x, y]" and "unat b div 16 = 14"
    and "(unat b mod 16 * 64 + unat x mod 64) * 64 + unat y mod 64 = 0xDC00 + l"
proof -
  let ?u = "0xDC00 + l"
  have e: "unit_bytes ?u = [word_of_nat (224 + ?u div 64 div 64), word_of_nat (128 + ?u div 64 mod 64),
      word_of_nat (128 + ?u mod 64)]"
    unfolding unit_bytes_def using assms by simp
  have "?u div 64 div 64 < 16" using assms by simp
  then have b: "unat (word_of_nat (224 + ?u div 64 div 64) :: u8) = 224 + ?u div 64 div 64"
    "(224 + ?u div 64 div 64) mod 16 = ?u div 64 div 64" "(224 + ?u div 64 div 64) div 16 = 14"
    by (simp_all only: unat_lead lead_mods)
  have x: "unat (word_of_nat (128 + n mod 64) :: u8) = 128 + n mod 64"
    "(128 + n mod 64) mod 64 = n mod 64" for n
    by (simp_all only: unat_lead lead_mods mod_less_divisor zero_less_numeral)
  show thesis
    by (rule that [OF e]) (simp_all only: b x div_mult_mod_eq)
qed

lemma code_point_surrogates:
  assumes "h < 1024" and "l < 1024"
  shows "modified_code_point (word_of_nat (0xD800 + h)) (unit_bytes (0xDC00 + l) @ rest) =
    Inr (word_of_nat (0x10000 + h * 1024 + l), rest)"
proof -
  obtain b x y where e: "unit_bytes (0xDC00 + l) = [b, x, y]" and b: "unat b div 16 = 14"
    and g: "(unat b mod 16 * 64 + unat x mod 64) * 64 + unat y mod 64 = 0xDC00 + l"
    using surrogate_bytes [OF assms(2)] .
  let ?low = "push_bit 12 (ucast (b AND 0x0F :: u8)) OR push_bit 6 (ucast (x AND 0x3F :: u8)) OR
      (ucast (y AND 0x3F :: u8) :: u32)"
  have low: "unat ?low = 0xDC00 + l" using gather_3 [of b x y] g by simp
  then have low': "?low = word_of_nat (0xDC00 + l)" by (metis of_nat_unat ucast_id)
  have hi: "unat (word_of_nat (0xD800 + h) :: u32) = 0xD800 + h"
    using assms(1) by (subst unat_u32_of_nat) simp_all
  have hiok: "(word_of_nat (0xD800 + h) :: u32) \<ge> 0xD800 \<and> (word_of_nat (0xD800 + h) :: u32) \<le> 0xDBFF"
    unfolding word_le_nat_alt hi using assms(1) by simp
  have lowok: "\<not> (?low < 0xDC00 \<or> ?low > 0xDFFF)"
    unfolding word_less_nat_alt low using assms(2) by simp
  have "(0x10000 :: u32) + push_bit 10 (word_of_nat (0xD800 + h) - 0xD800) + (?low - 0xDC00) =
      word_of_nat (0x10000 + h * 1024 + l)"
    unfolding low' by (simp add: push_bit_eq_mult)
  moreover have "\<not> (length (b # x # y # rest) < 3 \<or> (b # x # y # rest) ! 0 AND 0xF0 \<noteq> 0xE0)"
    using b by (simp add: u8_tests)
  ultimately show ?thesis
    using hiok lowok
    by (simp add: e modified_code_point_def Let_def numeral_2_eq_2 numeral_3_eq_3 del: of_nat_add)
qed

lemma unat_scalar: "scalar_value c \<Longrightarrow> unat (word_of_nat c :: u32) = c"
  by (simp add: scalar_value_def unat_u32_of_nat)

lemma decode_modified_step:
  assumes "scalar_value c"
  shows "decode_modified_utf (modified_encode c @ rest) out =
    decode_modified_utf rest (out @ utf8_encode c)"
proof -
  have out: "append_utf8 out (word_of_nat c) = out @ utf8_encode c"
    using append_utf8_bytes [of "word_of_nat c" out] assms
    by (simp add: unat_scalar) (simp add: scalar_value_def)
  show ?thesis
  proof (cases "c < 0x10000")
    case True
    obtain b cs where "unit_bytes c = b # cs" "\<And>rest. modified_unit b (cs @ rest) = Inr (word_of_nat c, rest)"
      using unit_bytes_parts [OF True] by blast
    then show ?thesis
      using True by (simp add: modified_encode_def code_point_bmp assms out)
  next
    case False
    let ?h = "(c - 0x10000) div 1024" and ?l = "(c - 0x10000) mod 1024"
    have hl: "?h < 1024" "?l < 1024" using assms by (auto simp: scalar_value_def)
    then have "0xD800 + ?h < 0x10000" by linarith
    then obtain b cs where u: "unit_bytes (0xD800 + ?h) = b # cs"
        "\<And>rest. modified_unit b (cs @ rest) = Inr (word_of_nat (0xD800 + ?h), rest)"
      using unit_bytes_parts by blast
    have "0x10000 + ?h * 1024 + ?l = c"
      using False by (metis add.assoc div_mult_mod_eq le_add_diff_inverse linorder_not_less)
    then have "modified_code_point (word_of_nat (0xD800 + ?h)) (unit_bytes (0xDC00 + ?l) @ rest) =
        Inr (word_of_nat c, rest)"
      using code_point_surrogates [OF hl, of rest] by simp
    with False u show ?thesis
      by (simp add: modified_encode_def out del: of_nat_add)
  qed
qed

lemma encode_continue_iff: "encode_continue bs c = Inr d \<longleftrightarrow> utf8_continue bs c = Inr d"
  by (induction bs arbitrary: c) (simp_all add: utf8_continue.simps(2))

lemma encode_lead_width:
  assumes "utf8_width b = Some (w, c0)"
  shows "encode_lead b = Some (w - 1, c0)"
proof -
  have and_ucast: "(ucast (b AND m) :: u32) = ucast b AND ucast m" for m :: u8
    by (rule bit_word_eqI) (auto simp: bit_simps)
  from assms show ?thesis
  proof (cases rule: utf8_lead_cases)
    case 1
    then show ?thesis using assms by (simp add: encode_lead_def u8_tests utf8_width_nat)
  next
    case 2
    then have "unat b div 128 = 1" "unat b div 32 = 6" by (simp_all add: div_nat_eqI)
    then show ?thesis using assms 2 by (simp add: encode_lead_def u8_tests utf8_width_nat and_ucast)
  next
    case 3
    then have "unat b div 128 = 1" "unat b div 32 = 7" "unat b div 16 = 14" by (simp_all add: div_nat_eqI)
    then show ?thesis using assms 3 by (simp add: encode_lead_def u8_tests utf8_width_nat and_ucast)
  next
    case 4
    then have "unat b div 128 = 1" "unat b div 32 = 7" "unat b div 16 = 15" "unat b div 8 = 30"
      by (simp_all add: div_nat_eqI)
    then show ?thesis using assms 4 by (simp add: encode_lead_def u8_tests utf8_width_nat and_ucast)
  qed
qed

lemma append_code_point_bytes:
  assumes "scalar_value c"
  shows "append_code_point out (word_of_nat c) = out @ modified_encode c"
proof -
  have uc: "unat (ucast w :: u16) = unat w" if "unat w < 0x10000" for w :: u32
    using that by (simp add: unsigned_ucast_eq take_bit_nat_eq_self)
  show ?thesis
  proof (cases "c < 0x10000")
    case True
    then show ?thesis
      using assms by (simp add: append_code_point_def append_modified_unit_bytes modified_encode_def
          word_le_nat_alt unat_scalar uc)
  next
    case False
    let ?d = "c - 0x10000" and ?w = "word_of_nat c - 0x10000 :: u32"
    have small: "?d < 0x100000" using assms by (auto simp: scalar_value_def)
    have "?w = word_of_nat ?d" using False by (simp add: of_nat_diff)
    then have w: "unat ?w = ?d" using small by (simp add: unat_u32_of_nat)
    have "?w AND 0x3FF = take_bit 10 ?w" by (simp add: take_bit_eq_mask mask_numeral)
    then have d: "unat (drop_bit 10 ?w) = ?d div 1024" "unat (?w AND 0x3FF) = ?d mod 1024"
      by (simp_all add: unat_drop_bit w unsigned_take_bit_eq take_bit_nat_def)
    have hl: "?d div 1024 < 1024" "?d mod 1024 < 1024" using small by auto
    have hi: "unat (0xD800 + drop_bit 10 ?w) = 0xD800 + ?d div 1024"
      and lo: "unat (0xDC00 + (?w AND 0x3FF)) = 0xDC00 + ?d mod 1024"
      using hl by (subst unat_add_lem [THEN iffD1]; simp add: d)+
    have "unat (0xD800 + drop_bit 10 ?w) < 0x10000" "unat (0xDC00 + (?w AND 0x3FF)) < 0x10000"
      unfolding hi lo using hl by linarith+
    then show ?thesis
      using False assms
      by (simp only: append_code_point_def append_modified_unit_bytes modified_encode_def Let_def
          word_le_nat_alt unat_scalar uc hi lo if_False) (simp add: unat_scalar)
  qed
qed

lemma encode_modified_step:
  assumes "scalar_value c"
  shows "encode_modified_from (utf8_encode c @ rest) out =
    encode_modified_from rest (out @ modified_encode c)"
proof -
  obtain b cs c0 where p: "utf8_encode c = b # cs" "utf8_width b = Some (Suc (length cs), c0)"
      "utf8_continue cs c0 = Inr (word_of_nat c)"
    using utf8_encode_parts [OF assms] by blast
  then have "encode_continue cs c0 = Inr (word_of_nat c)" "encode_lead b = Some (length cs, c0)"
    using encode_lead_width [OF p(2)] by (simp_all add: encode_continue_iff)
  moreover have "((word_of_nat c :: u32) > 0x10FFFF \<or>
      (word_of_nat c :: u32) \<ge> 0xD800 \<and> (word_of_nat c :: u32) \<le> 0xDFFF) = False"
    using assms by (auto simp: word_less_nat_alt word_le_nat_alt unat_scalar scalar_value_def)
  ultimately show ?thesis
    using assms p(1) by (auto simp: append_code_point_bytes)
qed

lemma encode_modified_text:
  "list_all scalar_value cs \<Longrightarrow>
     encode_modified_from (concat (map utf8_encode cs)) out = Inr (out @ concat (map modified_encode cs))"
  by (induction cs arbitrary: out) (simp_all add: encode_modified_step)

lemma decode_modified_text:
  "list_all scalar_value cs \<Longrightarrow>
     decode_modified_utf (concat (map modified_encode cs)) out = Inr (out @ concat (map utf8_encode cs))"
  by (induction cs arbitrary: out) (simp_all add: decode_modified_step)


section \<open>What the decoder returns is text\<close>

lemma modified_unit_bound:
  assumes "modified_unit b bs = Inr (u, bs')"
  shows "unat u < 0x10000"
proof -
  have "unat b mod 32 < 32" "unat (bs ! 0) mod 64 < 64" by simp_all
  then have g2: "unat b mod 32 * 64 + unat (bs ! 0) mod 64 < 0x10000" by linarith
  have g3: "(unat b mod 16 * 64 + unat (bs ! 0) mod 64) * 64 + unat (bs ! 1) mod 64 < 0x10000"
    by (intro base64_bounds) simp_all
  have "unat b < 0x10000" using unat_u8_less [of b] by linarith
  then show ?thesis
    using assms g2 g3 by (auto simp: modified_unit_def Let_def gather_2 gather_3 u32_of_u8 split: if_splits)
qed

lemma modified_code_point_scalar:
  assumes "modified_code_point u bs = Inr (c, bs')" and "unat u < 0x10000"
  shows "scalar_value (unat c)"
proof (cases "u \<ge> 0xD800 \<and> u \<le> 0xDBFF")
  case True
  define low where "low = push_bit 12 (ucast (bs ! 0 AND 0x0F :: u8)) OR
      push_bit 6 (ucast (bs ! 1 AND 0x3F :: u8)) OR (ucast (bs ! 2 AND 0x3F :: u8) :: u32)"
  have l: "0xDC00 \<le> unat low" "unat low \<le> 0xDFFF"
    and c: "c = 0x10000 + push_bit 10 (u - 0xD800) + (low - 0xDC00)"
    using assms(1) True
    by (auto simp: modified_code_point_def Let_def low_def word_less_nat_alt not_less split: if_splits)
  have h: "unat (u - 0xD800) = unat u - 0xD800" "unat (low - 0xDC00) = unat low - 0xDC00"
    using True l by (simp_all add: unat_sub word_le_nat_alt)
  have "unat u \<le> 0xDBFF" "0xD800 \<le> unat u" using True by (simp_all add: word_le_nat_alt)
  then have p: "unat (push_bit 10 (u - 0xD800)) = (unat u - 0xD800) * 1024"
    by (subst unat_push_bit) (simp_all add: h)
  have "unat c = 0x10000 + (unat u - 0xD800) * 1024 + (unat low - 0xDC00)"
  proof -
    have "unat (0x10000 + push_bit 10 (u - 0xD800)) = 0x10000 + (unat u - 0xD800) * 1024"
      using \<open>unat u \<le> 0xDBFF\<close> by (subst unat_add_lem [THEN iffD1]) (simp_all add: p)
    then show ?thesis
      using l \<open>unat u \<le> 0xDBFF\<close> unfolding c by (subst unat_add_lem [THEN iffD1]) (simp_all add: h)
  qed
  then show ?thesis
    using l \<open>unat u \<le> 0xDBFF\<close> by (simp add: scalar_value_def)
next
  case False
  then show ?thesis
    using assms by (auto simp: modified_code_point_def scalar_value_def word_le_nat_alt split: if_splits)
qed

lemma decode_modified_valid:
  assumes "decode_modified_utf bs out = Inr out'"
  shows "\<exists>cs. list_all scalar_value cs \<and> out' = out @ concat (map utf8_encode cs)"
  using assms
proof (induction bs out rule: decode_modified_utf.induct)
  case (1 out)
  then show ?case by (intro exI [of _ "[]"]) simp
next
  case (2 b bs out)
  then obtain u bs1 c bs2 where u: "modified_unit b bs = Inr (u, bs1)"
    and c: "modified_code_point u bs1 = Inr (c, bs2)"
    and r: "decode_modified_utf bs2 (append_utf8 out c) = Inr out'"
    by (auto simp: bindR_Inr_iff)
  have sc: "scalar_value (unat c)"
    using modified_code_point_scalar [OF c modified_unit_bound [OF u]] .
  then have "append_utf8 out c = out @ utf8_encode (unat c)"
    by (intro append_utf8_bytes) (simp add: scalar_value_def)
  moreover obtain cs where "list_all scalar_value cs" "out' = append_utf8 out c @ concat (map utf8_encode cs)"
    using 2(1) [OF u refl c refl r] by blast
  ultimately show ?case
    using sc by (intro exI [of _ "unat c # cs"]) simp
qed

section \<open>Round trip of strings\<close>

definition valid_text :: "string \<Rightarrow> bool" where
  "valid_text s = (case utf16_length (bytes_of s) of Inl _ \<Rightarrow> False | Inr _ \<Rightarrow> True)"

lemma valid_text_iff:
  "valid_text s \<longleftrightarrow> (\<exists>cs. list_all scalar_value cs \<and> bytes_of s = concat (map utf8_encode cs))"
  using utf16_length_iff [of "bytes_of s"]
  by (cases "utf16_length (bytes_of s)") (auto simp: valid_text_def)

lemma text_roundtrip:
  assumes "valid_text s"
  obtains bs where "encode_modified_utf s = Inr bs" and "decode_modified_utf bs [] = Inr (bytes_of s)"
proof -
  from assms obtain cs where "list_all scalar_value cs" "bytes_of s = concat (map utf8_encode cs)"
    by (auto simp: valid_text_iff)
  with encode_modified_text [of cs "[]"] decode_modified_text [of cs "[]"] that show thesis
    by (simp add: encode_modified_utf_def)
qed

lemma write_u16_be_append: "write_u16_be out v = out @ write_u16_be [] v"
  by (simp add: write_u16_be_def)

lemma reads_text:
  assumes "write_modified_utf limits out s = Inr out'" and "valid_text s"
  shows "\<exists>img. out' = out @ img \<and> reads (read_modified_utf limits) img s"
proof -
  obtain bs where e: "encode_modified_utf s = Inr bs" and d: "decode_modified_utf bs [] = Inr (bytes_of s)"
    using text_roundtrip [OF assms(2)] .
  from assms(1) e have len: "length bs \<le> max_string_bytes limits" "length bs \<le> 65535"
    and out: "out' = out @ write_u16_be [] (word_of_nat (length bs)) @ bs"
    using write_u16_be_append [of out]
    by (auto simp: write_modified_utf_def split: if_splits)
  have n: "unat (word_of_nat (length bs) :: u16) = length bs"
    using len(2) by (simp add: unat_word_of_nat)
  have "reads (read_modified_utf limits) (write_u16_be [] (word_of_nat (length bs)) @ bs) s"
    unfolding read_modified_utf_def
  proof (rule reads_bindD, rule u16.reads_img [OF TrueI], rule reads_guardD)
    show "reads (bindD (read_bytes (unat (word_of_nat (length bs) :: u16)))
        (\<lambda>bytes. bindD (liftD (decode_modified_utf bytes [])) (\<lambda>output. returnD (string_of output)))) bs s"
      using d n by (simp add: reads_def bindD_def returnD_def liftD_def read_bytes_at)
  qed (use len in \<open>simp add: n\<close>)
  with out show ?thesis by blast
qed

section \<open>Round trip of tags\<close>

text \<open>
  A tag the encoding determines: an END tag carries no value, and every string
  is well-formed UTF-8 (the writer also accepts overlong forms, which it
  shortens).
\<close>

fun canonical :: "tag \<Rightarrow> bool" and canonical_value :: "nbt_value \<Rightarrow> bool" where
  "canonical (Tag type v) = ((type = End_T \<longrightarrow> v = No_Value) \<and> canonical_value v)"
| "canonical_value (String_Value s) = valid_text s"
| "canonical_value (List_Value type xs) = (\<forall>x \<in> set xs. canonical x)"
| "canonical_value (Compound_Value es) = (\<forall>e \<in> set es. valid_text (fst e) \<and> canonical (snd e))"
| "canonical_value _ = True"

lemma reads_type: "reads read_type [type_id t] t"
  by (cases t) (simp_all add: reads_def read_type_def read_u8_def dec_simps bindD_def
      guardD_def returnD_def read_bytes_def advance_def reader_at_def nbt_types_def remaining_def)

lemma reads_count:
  assumes "n \<le> max_collection_entries limits" and "n \<le> 2147483647"
  shows "reads (checked_count limits) (write_i32_be [] (word_of_nat n)) n"
proof -
  have "reads (bindD read_i32_be (\<lambda>count.
     guardD (sint count < 0 \<or> unat count > max_collection_entries limits)
       (Decode_Error ''NBT collection length is out of bounds'') (returnD (unat count))))
    (write_i32_be [] (word_of_nat n) @ []) n"
    using assms(1) size_i32 [OF assms(2)] reads_returnD [of n]
    by (intro reads_bindD [OF i32.reads_img [OF TrueI]] reads_guardD) simp_all
  then show ?thesis by (simp add: checked_count_def)
qed

lemma reads_array:
  assumes "write_array limits put out xs = Inr out'" and "max_collection_entries limits \<le> 2147483647"
    and put: "\<And>out x. put out x = out @ put [] x" and get: "\<And>x. reads get (put [] x) x"
  shows "\<exists>img. out' = out @ img \<and>
    reads (bindD (checked_count limits) (\<lambda>count. bindD (read_n count get) (\<lambda>vs. returnD (f vs)))) img (f xs)"
proof -
  from assms(1) have len: "length xs \<le> max_collection_entries limits"
    and out: "out' = foldl put (write_i32_be out (word_of_nat (length xs))) xs"
    by (auto simp: write_array_def split: if_splits)
  have "foldl put o' xs = o' @ concat (map (put []) xs)" for o'
  proof (induction xs arbitrary: o')
    case (Cons x xs)
    then show ?case using put [of o' x] by simp
  qed simp
  then have "out' = out @ write_i32_be [] (word_of_nat (length xs)) @ concat (map (put []) xs)"
    using out by (simp add: write_i32_be_def)
  moreover have "reads (read_n (length xs) get) (concat (map (put []) xs)) xs"
    by (rule reads_read_n) (simp add: list_all2_conv_all_nth get)
  then have "reads (bindD (checked_count limits) (\<lambda>count. bindD (read_n count get) (\<lambda>vs. returnD (f vs))))
      (write_i32_be [] (word_of_nat (length xs)) @ concat (map (put []) xs)) (f xs)"
    using len assms(2) by (intro reads_bindD [OF reads_count] reads_bind_return) simp_all
  ultimately show ?thesis by blast
qed


lemma write_append:
  "write_i8 out x = out @ write_i8 [] x" "write_i16_be out y = out @ write_i16_be [] y"
  "write_i32_be out z = out @ write_i32_be [] z"
  by (simp_all add: write_i8_def write_i16_be_def write_i32_be_def)

lemma write_float_append:
  "write_f32_be out z = out @ write_f32_be [] z" "write_f64_be out w = out @ write_f64_be [] w"
  by (simp_all add: write_f32_be_def write_f64_be_def write_i32_be_def write_i64_be_def)

lemma reads_payloadI:
  assumes "depth \<le> max_depth limits"
    and "reads (case type of
        End_T \<Rightarrow> returnD (Tag End_T No_Value)
      | Byte_T \<Rightarrow> bindD read_i8 (\<lambda>v. returnD (Tag Byte_T (Byte_Value v)))
      | Short_T \<Rightarrow> bindD read_i16_be (\<lambda>v. returnD (Tag Short_T (Short_Value v)))
      | Integer_T \<Rightarrow> bindD read_i32_be (\<lambda>v. returnD (Tag Integer_T (Integer_Value v)))
      | Long_T \<Rightarrow> bindD read_i64_be (\<lambda>v. returnD (Tag Long_T (Long_Value v)))
      | Float_T \<Rightarrow> bindD read_f32_be (\<lambda>v. returnD (Tag Float_T (Float_Value v)))
      | Double_T \<Rightarrow> bindD read_f64_be (\<lambda>v. returnD (Tag Double_T (Double_Value v)))
      | Byte_Array_T \<Rightarrow> bindD (checked_count limits) (\<lambda>count.
          bindD (read_n count read_i8) (\<lambda>vs. returnD (Tag Byte_Array_T (Byte_Array_Value vs))))
      | String_T \<Rightarrow> bindD (read_modified_utf limits) (\<lambda>v. returnD (Tag String_T (String_Value v)))
      | List_T \<Rightarrow> bindD read_type (\<lambda>element_type.
          bindD (checked_count limits) (\<lambda>count.
            guardD (element_type = End_T \<and> count \<noteq> 0)
              (Decode_Error ''NBT non-empty list has END element type'')
              (bindD (read_n count (read_payload limits (depth + 1) element_type)) (\<lambda>vs.
                returnD (Tag List_T (List_Value element_type vs))))))
      | Compound_T \<Rightarrow>
          bindD (read_entries limits (read_payload limits (depth + 1)) 0)
            (\<lambda>entries. returnD (Tag Compound_T (Compound_Value entries)))
      | Integer_Array_T \<Rightarrow> bindD (checked_count limits) (\<lambda>count.
          bindD (read_n count read_i32_be) (\<lambda>vs. returnD (Tag Integer_Array_T (Integer_Array_Value vs))))
      | Long_Array_T \<Rightarrow> bindD (checked_count limits) (\<lambda>count.
          bindD (read_n count read_i64_be) (\<lambda>vs. returnD (Tag Long_Array_T (Long_Array_Value vs))))) bs x"
  shows "reads (read_payload limits depth type) bs x"
  using assms by (simp add: read_payload.simps)

lemma read_entries_step:
  assumes "reads read_type tb t" and "t \<noteq> End_T" and "n < max_collection_entries limits"
    and "reads (read_modified_utf limits) nb name" and "reads (rc t) cb child"
    and "reads (read_entries limits rc (n + 1)) eb entries"
  shows "reads (read_entries limits rc n) (tb @ nb @ cb @ eb) ((name, child) # entries)"
proof -
  have "reads (bindD read_type (\<lambda>child_type.
     if child_type = End_T then returnD []
     else if n \<ge> max_collection_entries limits
     then throwD (Decode_Error ''NBT compound entry count exceeds limit'')
     else bindD (read_modified_utf limits) (\<lambda>name.
       bindD (rc child_type) (\<lambda>child.
         bindD (read_entries limits rc (n + 1)) (\<lambda>entries.
           returnD ((name, child) # entries)))))) (tb @ nb @ cb @ eb) ((name, child) # entries)"
    using assms(2,3)
    by (intro reads_bindD [OF assms(1)]) (simp, intro reads_bindD [OF assms(4)] reads_bindD [OF assms(5)]
        reads_bind_return assms(6) [simplified])
  then show ?thesis by (simp add: read_entries.simps [of _ _ n])
qed

lemma read_entries_end: "reads (read_entries limits rc n) [0] []"
proof -
  have "reads (bindD read_type (\<lambda>child_type.
     if child_type = End_T then returnD []
     else if n \<ge> max_collection_entries limits
     then throwD (Decode_Error ''NBT compound entry count exceeds limit'')
     else bindD (read_modified_utf limits) (\<lambda>name.
       bindD (rc child_type) (\<lambda>child.
         bindD (read_entries limits rc (n + 1)) (\<lambda>entries.
           returnD ((name, child) # entries)))))) ([type_id End_T] @ []) []"
    by (intro reads_bindD [OF reads_type]) (simp add: reads_returnD)
  then show ?thesis by (simp add: read_entries.simps [of _ _ n])
qed

lemma reads_scalars:
  assumes "depth \<le> max_depth limits"
  shows "reads (read_payload limits depth End_T) [] (Tag End_T No_Value)"
    and "reads (read_payload limits depth Byte_T) (write_i8 [] b) (Tag Byte_T (Byte_Value b))"
    and "reads (read_payload limits depth Short_T) (write_i16_be [] s) (Tag Short_T (Short_Value s))"
    and "reads (read_payload limits depth Integer_T) (write_i32_be [] i) (Tag Integer_T (Integer_Value i))"
    and "reads (read_payload limits depth Long_T) (write_i64_be [] l) (Tag Long_T (Long_Value l))"
    and "reads (read_payload limits depth Float_T) (write_f32_be [] f) (Tag Float_T (Float_Value f))"
    and "reads (read_payload limits depth Double_T) (write_f64_be [] d) (Tag Double_T (Double_Value d))"
  using reads_bind_return [OF i8.reads_img [OF TrueI]] reads_bind_return [OF i16.reads_img [OF TrueI]]
    reads_bind_return [OF i32.reads_img [OF TrueI]] reads_bind_return [OF i64.reads_img [OF TrueI]]
    reads_bind_return [OF f32.reads_img [OF TrueI]] reads_bind_return [OF f64.reads_img [OF TrueI]]
  by (auto intro!: reads_payloadI [OF assms] reads_returnD)

lemma reads_arrays:
  assumes "depth \<le> max_depth limits" and "max_collection_entries limits \<le> 2147483647"
  shows "write_array limits write_i8 out bs = Inr out' \<Longrightarrow> \<exists>img. out' = out @ img \<and>
      reads (read_payload limits depth Byte_Array_T) img (Tag Byte_Array_T (Byte_Array_Value bs))"
    and "write_array limits write_i32_be out is = Inr out' \<Longrightarrow> \<exists>img. out' = out @ img \<and>
      reads (read_payload limits depth Integer_Array_T) img (Tag Integer_Array_T (Integer_Array_Value is))"
    and "write_array limits write_i64_be out ls = Inr out' \<Longrightarrow> \<exists>img. out' = out @ img \<and>
      reads (read_payload limits depth Long_Array_T) img (Tag Long_Array_T (Long_Array_Value ls))"
  using reads_array [OF _ assms(2) write_append(1) i8.reads_img [OF TrueI], of out bs out' "\<lambda>v. Tag Byte_Array_T (Byte_Array_Value v)"]
    reads_array [OF _ assms(2) write_append(3) i32.reads_img [OF TrueI], of out "is" out' "\<lambda>v. Tag Integer_Array_T (Integer_Array_Value v)"]
    reads_array [OF _ assms(2) write_i64_be_append i64.reads_img [OF TrueI], of out ls out' "\<lambda>v. Tag Long_Array_T (Long_Array_Value v)"]
  by (auto intro!: reads_payloadI [OF assms(1)])

lemma check_bytes_Inr: "check_bytes limits bs = Inr out \<longleftrightarrow> out = bs \<and> length bs \<le> max_bytes limits"
  by (auto simp: check_bytes_def)

lemma written_tag_reads:
  shows "write_payload limits depth out tag = Inr out' \<Longrightarrow> max_collection_entries limits \<le> 2147483647 \<Longrightarrow>
      canonical tag \<Longrightarrow> \<exists>img. out' = out @ img \<and> reads (read_payload limits depth (tag_type tag)) img tag"
    and "write_switch limits depth out type v = Inr out' \<Longrightarrow> max_collection_entries limits \<le> 2147483647 \<Longrightarrow>
      depth \<le> max_depth limits \<Longrightarrow> canonical (Tag type v) \<Longrightarrow>
      \<exists>img. out' = out @ img \<and> reads (read_payload limits depth type) img (Tag type v)"
    and "write_values limits depth element_type out xs = Inr out' \<Longrightarrow>
      max_collection_entries limits \<le> 2147483647 \<Longrightarrow> \<forall>x \<in> set xs. canonical x \<Longrightarrow>
      \<exists>img. out' = out @ img \<and>
        reads (read_n (length xs) (read_payload limits (depth + 1) element_type)) img xs"
    and "write_entries limits depth out es = Inr out' \<Longrightarrow> max_collection_entries limits \<le> 2147483647 \<Longrightarrow>
      \<forall>e \<in> set es. valid_text (fst e) \<and> canonical (snd e) \<Longrightarrow>
      \<exists>img. out' = out @ img \<and> (\<forall>n. n + length es \<le> max_collection_entries limits \<longrightarrow>
        reads (read_entries limits (read_payload limits (depth + 1)) n) (img @ [0]) es)"
proof (induction limits depth out tag and limits depth out type v and
    limits depth element_type out xs and limits depth out es
    arbitrary: out' and out' and out' and out'
    rule: write_payload_write_switch_write_values_write_entries.induct)
  case (1 limits depth ou ty v)
  then show ?case by (auto simp: bindR_Inr_iff check_bytes_Inr split: if_splits)
next
  case (2 limits depth ou v)
  then show ?case by (auto intro: exI [of _ "[]"] reads_scalars)
next
  case (3 limits depth ou v)
  then show ?case using write_append [of ou] reads_scalars by (auto split: nbt_value.splits)
next
  case (4 limits depth ou v)
  then show ?case using write_append [of ou] reads_scalars by (auto split: nbt_value.splits)
next
  case (5 limits depth ou v)
  then show ?case using write_append [of ou] reads_scalars by (auto split: nbt_value.splits)
next
  case (6 limits depth ou v)
  then show ?case using write_i64_be_append [of ou] reads_scalars by (auto split: nbt_value.splits)
next
  case (7 limits depth ou v)
  then show ?case using write_float_append [of ou] reads_scalars by (auto split: nbt_value.splits)
next
  case (8 limits depth ou v)
  then show ?case using write_float_append [of ou] reads_scalars by (auto split: nbt_value.splits)
next
  case (9 limits depth ou v)
  then show ?case by (auto split: nbt_value.splits intro: reads_arrays)
next
  case (10 limits depth ou v)
  then obtain s where "v = String_Value s" "write_modified_utf limits ou s = Inr out'" "valid_text s"
    by (auto split: nbt_value.splits)
  with reads_text obtain img where "out' = ou @ img" "reads (read_modified_utf limits) img s"
    by blast
  moreover from this(2) have "reads (read_payload limits depth String_T) img (Tag String_T (String_Value s))"
    using 10(3) reads_bind_return [of "read_modified_utf limits" img s "\<lambda>v. Tag String_T (String_Value v)"]
    by (intro reads_payloadI) simp_all
  ultimately show ?case using \<open>v = String_Value s\<close> by blast
next
  case (11 limits depth ou v)
  then obtain et xs where v: "v = List_Value et xs" and len: "length xs \<le> max_collection_entries limits"
      and et: "\<not> (et = End_T \<and> length xs \<noteq> 0)"
      and w: "write_values limits depth et
        (write_i32_be (ou @ [type_id et]) (word_of_nat (length xs))) xs = Inr out'"
    by (auto split: nbt_value.splits if_splits)
  have nl: "\<not> (length xs > max_collection_entries limits \<or> et = End_T \<and> xs \<noteq> [])"
    using len et by auto
  from 11(1) [OF v nl w] 11(3,5) v obtain img where
    img: "out' = write_i32_be (ou @ [type_id et]) (word_of_nat (length xs)) @ img"
      "reads (read_n (length xs) (read_payload limits (depth + 1) et)) img xs"
    by auto
  have "length xs \<le> 2147483647" using len 11(3) by simp
  then have "reads (read_payload limits depth List_T)
      ([type_id et] @ write_i32_be [] (word_of_nat (length xs)) @ img) (Tag List_T (List_Value et xs))"
    using 11(4) len et
    by (intro reads_payloadI)
      (simp_all only: nbt_type.case, intro reads_bindD [OF reads_type] reads_bindD [OF reads_count]
        reads_guardD reads_bind_return img(2))
  with img(1) v show ?case
    by (auto simp: write_append(3) [of "ou @ [type_id et]"])
next
  case (12 limits depth ou v)
  then obtain es o' where v: "v = Compound_Value es" and len: "length es \<le> max_collection_entries limits"
      and w: "write_entries limits depth ou es = Inr o'" and out: "out' = o' @ [0]"
    by (auto simp: bindR_Inr_iff split: nbt_value.splits if_splits)
  from len have nl: "\<not> length es > max_collection_entries limits" by simp
  from 12(1) [OF v nl w] 12(3,5) v obtain img where img: "o' = ou @ img"
      "\<forall>n. n + length es \<le> max_collection_entries limits \<longrightarrow>
        reads (read_entries limits (read_payload limits (depth + 1)) n) (img @ [0]) es"
    by auto
  then have "reads (read_payload limits depth Compound_T) (img @ [0]) (Tag Compound_T (Compound_Value es))"
    using 12(4) len reads_bind_return [of "read_entries limits (read_payload limits (Suc depth)) 0"
        "img @ [0]" es "\<lambda>es. Tag Compound_T (Compound_Value es)"]
    by (intro reads_payloadI) simp_all
  with img(1) v out show ?case by auto
next
  case (13 limits depth ou v)
  then show ?case by (auto split: nbt_value.splits intro: reads_arrays)
next
  case (14 limits depth ou v)
  then show ?case by (auto split: nbt_value.splits intro: reads_arrays)
next
  case (15 limits depth element_type ou)
  then show ?case by (auto intro!: exI [of _ "[]"] reads_returnD)
next
  case (16 limits depth element_type ou x xs)
  then obtain o' where t: "\<not> tag_type x \<noteq> element_type" and w: "write_payload limits (depth + 1) ou x = Inr o'"
      and ws: "write_values limits depth element_type o' xs = Inr out'"
    by (auto simp: bindR_Inr_iff split: if_splits)
  from 16(1) [OF t w 16(4)] 16(5) obtain i1 where
    i1: "o' = ou @ i1" "reads (read_payload limits (depth + 1) (tag_type x)) i1 x" by auto
  from 16(2) [OF t w ws 16(4)] 16(5) obtain i2 where i2: "out' = o' @ i2"
      "reads (read_n (length xs) (read_payload limits (depth + 1) element_type)) i2 xs" by auto
  have "reads (read_n (length (x # xs)) (read_payload limits (depth + 1) element_type)) (i1 @ i2) (x # xs)"
    using i1(2) i2(2) t by (auto intro!: reads_bindD reads_bind_return)
  with i1(1) i2(1) show ?case by auto
next
  case (17 limits depth ou)
  then show ?case by (auto intro!: exI [of _ "[]"] read_entries_end)
next
  case (18 limits depth ou name child entries)
  then obtain o1 o2 where t: "\<not> tag_type child = End_T"
      and wn: "write_modified_utf limits (ou @ [type_id (tag_type child)]) name = Inr o1"
      and w: "write_payload limits (depth + 1) o1 child = Inr o2"
      and ws: "write_entries limits depth o2 entries = Inr out'"
    by (auto simp: bindR_Inr_iff split: if_splits)
  from reads_text [OF wn] 18(5) obtain i0 where
    i0: "o1 = ou @ [type_id (tag_type child)] @ i0" "reads (read_modified_utf limits) i0 name" by auto
  from 18(1) [OF t wn w 18(4)] 18(5) obtain i1 where
    i1: "o2 = o1 @ i1" "reads (read_payload limits (depth + 1) (tag_type child)) i1 child" by auto
  from 18(2) [OF t wn w ws 18(4)] 18(5) obtain i2 where i2: "out' = o2 @ i2"
      "\<forall>n. n + length entries \<le> max_collection_entries limits \<longrightarrow>
        reads (read_entries limits (read_payload limits (depth + 1)) n) (i2 @ [0]) entries" by auto
  have "reads (read_entries limits (read_payload limits (depth + 1)) n)
      ([type_id (tag_type child)] @ i0 @ i1 @ i2 @ [0]) ((name, child) # entries)"
    if "n + length ((name, child) # entries) \<le> max_collection_entries limits" for n
    using that t i0(2) i1(2) i2(2) by (intro read_entries_step [OF reads_type]) simp_all
  with i0(1) i1(1) i2(1) show ?case
    by (intro exI [of _ "[type_id (tag_type child)] @ i0 @ i1 @ i2"]) simp
qed


section \<open>What the reader returns\<close>

text \<open>
  A tree within the limits at nesting \<open>depth\<close>: values match their types, strings
  are UTF-8, lists are homogeneous, collections and nesting are bounded.
\<close>

primrec matches_type :: "nbt_value \<Rightarrow> nbt_type \<Rightarrow> bool" where
  "matches_type No_Value t = (t = End_T)"
| "matches_type (Byte_Value _) t = (t = Byte_T)"
| "matches_type (Short_Value _) t = (t = Short_T)"
| "matches_type (Integer_Value _) t = (t = Integer_T)"
| "matches_type (Long_Value _) t = (t = Long_T)"
| "matches_type (Float_Value _) t = (t = Float_T)"
| "matches_type (Double_Value _) t = (t = Double_T)"
| "matches_type (Byte_Array_Value _) t = (t = Byte_Array_T)"
| "matches_type (String_Value _) t = (t = String_T)"
| "matches_type (List_Value _ _) t = (t = List_T)"
| "matches_type (Compound_Value _) t = (t = Compound_T)"
| "matches_type (Integer_Array_Value _) t = (t = Integer_Array_T)"
| "matches_type (Long_Array_Value _) t = (t = Long_Array_T)"

fun within_limits :: "limits \<Rightarrow> nat \<Rightarrow> tag \<Rightarrow> bool"
and value_within :: "limits \<Rightarrow> nat \<Rightarrow> nbt_value \<Rightarrow> bool" where
  "within_limits limits depth (Tag type v) =
     (depth \<le> max_depth limits \<and> matches_type v type \<and> value_within limits depth v)"
| "value_within limits depth (String_Value s) = valid_text s"
| "value_within limits depth (Byte_Array_Value bs) = (length bs \<le> max_collection_entries limits)"
| "value_within limits depth (Integer_Array_Value is) = (length is \<le> max_collection_entries limits)"
| "value_within limits depth (Long_Array_Value ls) = (length ls \<le> max_collection_entries limits)"
| "value_within limits depth (List_Value type xs) =
     (length xs \<le> max_collection_entries limits \<and> (type = End_T \<longrightarrow> xs = []) \<and>
      (\<forall>x \<in> set xs. tag_type x = type \<and> within_limits limits (Suc depth) x))"
| "value_within limits depth (Compound_Value es) =
     (length es \<le> max_collection_entries limits \<and>
      (\<forall>e \<in> set es. valid_text (fst e) \<and> tag_type (snd e) \<noteq> End_T \<and> within_limits limits (Suc depth) (snd e)))"
| "value_within limits depth _ = True"

lemma read_n_all:
  assumes "read_n n d r = Inr (xs, r')" and "\<And>r x r'. d r = Inr (x, r') \<Longrightarrow> P x"
  shows "\<forall>x \<in> set xs. P x"
  using assms(1) by (induction n arbitrary: r xs r') (auto simp: decoder_iff dest: assms(2))

lemma read_modified_utf_valid:
  assumes "read_modified_utf limits r = Inr (s, r')"
  shows "valid_text s"
proof -
  from assms obtain bs out where d: "decode_modified_utf bs [] = Inr out" and s: "s = string_of out"
    by (auto simp: read_modified_utf_def decoder_iff liftD_Inr_iff)
  from decode_modified_valid [OF d] s show ?thesis
    by (auto simp: valid_text_iff)
qed

lemma checked_count_bound: "checked_count limits r = Inr (n, r') \<Longrightarrow> n \<le> max_collection_entries limits"
  by (auto simp: checked_count_def decoder_iff)

lemma read_entries_within:
  assumes "read_entries limits rc n r = Inr (es, r')"
    and "\<And>t r x r'. rc t r = Inr (x, r') \<Longrightarrow> tag_type x = t \<and> P x"
    and "n \<le> max_collection_entries limits"
  shows "n + length es \<le> max_collection_entries limits \<and>
    (\<forall>e \<in> set es. valid_text (fst e) \<and> tag_type (snd e) \<noteq> End_T \<and> P (snd e))"
  using assms
proof (induction limits rc n arbitrary: r es r' rule: read_entries.induct)
  case (1 limits rc n)
  from 1(2) consider "es = []"
    | t r1 name r2 child r3 rest r4 where "t \<noteq> End_T" "\<not> max_collection_entries limits \<le> n"
      "read_modified_utf limits r1 = Inr (name, r2)" "rc t r2 = Inr (child, r3)"
      "read_entries limits rc (n + 1) r3 = Inr (rest, r4)" "es = (name, child) # rest"
    by (subst (asm) read_entries.simps) (auto simp: decoder_iff split: if_splits)
  then show ?case
  proof cases
    case 1
    with \<open>n \<le> _\<close> show ?thesis by simp
  next
    case 2
    have "n + 1 + length rest \<le> max_collection_entries limits \<and>
      (\<forall>e \<in> set rest. valid_text (fst e) \<and> tag_type (snd e) \<noteq> End_T \<and> P (snd e))"
      using 2 by (intro 1(1) [OF 2(1,2) 2(5) 1(3)]) auto
    with 2 1(3) [OF 2(4)] read_modified_utf_valid [OF 2(3)] show ?thesis by auto
  qed
qed

lemma read_payload_within:
  "read_payload limits depth type r = Inr (tag, r') \<Longrightarrow>
     tag_type tag = type \<and> within_limits limits depth tag"
proof (induction limits depth type arbitrary: r tag r' rule: read_payload.induct)
  case (1 limits depth type)
  from 1(3) have d: "\<not> depth > max_depth limits"
    by (subst (asm) read_payload.simps) (auto split: if_splits)
  note run = 1(3) [unfolded read_payload.simps [of limits depth type] if_not_P [OF d]]
  show ?case
  proof (cases type)
    case List_T
    from run have "\<exists>et n xs r1 r2. checked_count limits r1 = Inr (n, r2) \<and> \<not> (et = End_T \<and> n \<noteq> 0) \<and>
        tag = Tag List_T (List_Value et xs) \<and> read_n n (read_payload limits (depth + 1) et) r2 = Inr (xs, r')"
      by (simp add: List_T decoder_iff) blast
    then obtain et n xs r1 r2 where n: "checked_count limits r1 = Inr (n, r2)"
      and e: "\<not> (et = End_T \<and> n \<noteq> 0)" and t: "tag = Tag List_T (List_Value et xs)"
      and xs: "read_n n (read_payload limits (depth + 1) et) r2 = Inr (xs, r')"
      by blast
    have "\<forall>x \<in> set xs. tag_type x = et \<and> within_limits limits (depth + 1) x"
      using xs by (rule read_n_all) (rule 1(1) [OF d List_T])
    with read_n_length [OF xs] checked_count_bound [OF n] e t d List_T show ?thesis by auto
  next
    case Compound_T
    from run obtain es r1 where es: "read_entries limits (read_payload limits (depth + 1)) 0 r = Inr (es, r1)"
      and t: "tag = Tag Compound_T (Compound_Value es)"
      by (auto simp: Compound_T decoder_iff)
    from read_entries_within [OF es, of "within_limits limits (depth + 1)"] 1(2) [OF d Compound_T]
    show ?thesis using t d Compound_T by auto
  qed (use run d in \<open>auto simp: decoder_iff dest!: read_n_length checked_count_bound
        intro: read_modified_utf_valid\<close>)
qed

lemma within_canonical:
  "within_limits limits depth tag \<Longrightarrow> canonical tag"
  "value_within limits depth v \<Longrightarrow> canonical_value v"
proof (induction limits depth tag and limits depth v rule: within_limits_value_within.induct)
  case (1 limits depth type v)
  then show ?case by (cases v; cases type) auto
qed auto

section \<open>Safety\<close>

lemma safe_read_type [safe_intros]: "safe read_type"
  and safe_checked_count [safe_intros]: "safe (checked_count limits)"
  and safe_read_modified_utf [safe_intros]: "safe (read_modified_utf limits)"
  by (auto simp: read_type_def checked_count_def read_modified_utf_def intro!: safe_intros)

lemma safe_read_entries [safe_intros]:
  assumes "\<And>t. safe (rc t)"
  shows "safe (read_entries limits rc n)"
  using assms
proof (induction limits rc n rule: read_entries.induct)
  case (1 limits rc n)
  then show ?case
    by (subst read_entries.simps) (auto intro!: safe_intros)
qed

lemma safe_read_payload [safe_intros]: "safe (read_payload limits depth type)"
proof (induction limits depth type rule: read_payload.induct)
  case (1 limits depth type)
  then show ?case
    by (subst read_payload.simps) (auto intro!: safe_intros split: nbt_type.split)
qed

lemma safe_read_any_tag [safe_intros]: "safe (read_any_tag limits)"
proof (rule safeI)
  fix r x r' assume wf: "wf_reader r" and run: "read_any_tag limits r = Inr (x, r')"
  then have "bindD read_type (read_payload limits 0) r = Inr (x, r')"
    by (auto simp: read_any_tag_def decoder_iff)
  from safeD [OF safe_bindD [OF safe_read_type safe_read_payload] wf this]
  show "wf_reader r' \<and> data r' = data r \<and> offset r \<le> offset r'" by blast
qed

section \<open>Properties\<close>

text \<open>C11. A canonical tag that \<open>write_any_tag\<close> accepted, appended to any output, is read back by \<open>read_any_tag\<close>
  under the same limits: the same tree, with the reader right behind it, whatever follows.\<close>

theorem nbt_roundtrip:
  assumes "write_any_tag limits out tag = Inr out'" and "canonical tag"
    and "max_collection_entries limits \<le> 2147483647"
  shows "read_any_tag limits \<lparr>data = out' @ rest, offset = length out\<rparr> =
    Inr (tag, \<lparr>data = out' @ rest, offset = length out'\<rparr>)"
proof -
  from assms(1) have w: "write_payload limits 0 (out @ [type_id (tag_type tag)]) tag = Inr out'"
    and size: "length out' - length out \<le> max_bytes limits"
    by (auto simp: write_any_tag_def bindR_Inr_iff split: if_splits)
  from written_tag_reads(1) [OF w assms(3,2)] obtain img where
    img: "out' = out @ [type_id (tag_type tag)] @ img"
      "reads (read_payload limits 0 (tag_type tag)) img tag" by auto
  have "read_type (reader_at out (out'' @ rest)) = Inr (tag_type tag, reader_at (out @ [type_id (tag_type tag)]) (img @ rest))"
    if "out'' = [type_id (tag_type tag)] @ img" for out''
    using readsD [OF reads_type] that by simp
  then show ?thesis
    using readsD [OF img(2), of "out @ [type_id (tag_type tag)]" rest] img(1) size
      readsD [OF reads_type, of out "tag_type tag" "img @ rest"]
    by (simp add: read_any_tag_def bindD_def guardD_def returnD_def flip: reader_at_def)
qed

definition sample_tag :: tag where
  "sample_tag = Tag Compound_T (Compound_Value
     [(''n'', Tag List_T (List_Value Integer_T [Tag Integer_T (Integer_Value 5)])), (''s'', string_tag ''a'')])"

theorem nbt_roundtrip_witness:
  "\<exists>bs. write_any_tag default_limits [] sample_tag = Inr bs \<and>
     read_any_tag default_limits (mk_reader bs) = Inr (sample_tag, \<lparr>data = bs, offset = length bs\<rparr>)"
proof -
  have w: "write_any_tag default_limits [] sample_tag =
      Inr [10, 9, 0, 1, 110, 3, 0, 0, 0, 1, 0, 0, 0, 5, 8, 0, 1, 115, 0, 1, 97, 0]"
    by (simp add: write_any_tag_def sample_tag_def string_tag_def default_limits_def bindR_Inr_iff
        write_modified_utf_def encode_modified_utf_def encode_lead_def append_code_point_def
        append_modified_unit_def write_u16_be_def write_i32_be_def check_bytes_def char_eval)
  have "valid_text [c]" if "unat (byte_of_char c) < 128" for c
    using ascii_string_length [of "[c]"] that by (simp add: valid_text_def)
  then have c: "canonical sample_tag"
    by (simp add: sample_tag_def string_tag_def char_eval)
  have "max_collection_entries default_limits \<le> 2147483647"
    by (simp add: default_limits_def)
  from nbt_roundtrip [OF w c this, of "[]"] w show ?thesis
    by (auto simp: mk_reader_def)
qed

text \<open>C19. Whatever bytes it is given, \<open>read_any_tag\<close> returns only a tree within its limits: nesting at most
  the depth limit, every collection at most the entry limit, lists homogeneous, every value of its
  type, every string well-formed UTF-8. It consumes at most \<open>max_bytes\<close> and stays in its span.\<close>

theorem nbt_reader_bounded:
  "case read_any_tag limits \<lparr>data = pre @ rest, offset = length pre\<rparr> of
     Inl e \<Rightarrow> True
   | Inr (tag, r) \<Rightarrow> within_limits limits 0 tag \<and> canonical tag \<and> data r = pre @ rest \<and>
       length pre \<le> offset r \<and> offset r \<le> length pre + length rest \<and>
       offset r - length pre \<le> max_bytes limits"
proof (cases "read_any_tag limits (reader_at pre rest)")
  case (Inr p)
  obtain tag r where p: "p = (tag, r)" by (cases p)
  note run = Inr [unfolded p]
  have w: "within_limits limits 0 tag" and m: "length rest - remaining r \<le> max_bytes limits"
    using run by (auto simp: read_any_tag_def decoder_iff dest: read_payload_within)
  have "wf_reader r" "data r = pre @ rest" "length pre \<le> offset r"
    using safeD [OF safe_read_any_tag _ run] by simp_all
  with w m run p show ?thesis
    using within_canonical(1) [OF w]
    by (auto simp: reader_at_def remaining_def wf_reader_def)
qed (simp add: reader_at_def)

text \<open>The strings of tags: \<open>write_modified_utf\<close> turns well-formed UTF-8 into the modified form, in which
  NUL has two bytes and a supplementary character is a pair of three-byte surrogates, and
  \<open>read_modified_utf\<close> gives the string back. It refuses only what exceeds the limits.\<close>

theorem modified_utf_roundtrip:
  assumes "list_all scalar_value cs" and "bytes_of s = concat (map utf8_encode cs)"
  shows "let enc = concat (map modified_encode cs) in
    if length enc \<le> max_string_bytes limits \<and> length enc \<le> 65535
    then write_modified_utf limits out s = Inr (write_u16_be out (word_of_nat (length enc)) @ enc) \<and>
      read_modified_utf limits \<lparr>data = write_u16_be out (word_of_nat (length enc)) @ enc @ rest, offset = length out\<rparr> =
        Inr (s, \<lparr>data = write_u16_be out (word_of_nat (length enc)) @ enc @ rest,
                 offset = length out + 2 + length enc\<rparr>)
    else write_modified_utf limits out s = Inl (Length_Error ''NBT string exceeds limit'')"
proof -
  let ?enc = "concat (map modified_encode cs)"
  have e: "encode_modified_utf s = Inr ?enc"
    using encode_modified_text [OF assms(1), of "[]"] by (simp add: encode_modified_utf_def assms(2))
  have v: "valid_text s" using assms by (auto simp: valid_text_iff)
  show ?thesis
  proof (cases "length ?enc \<le> max_string_bytes limits \<and> length ?enc \<le> 65535")
    case True
    then have w: "write_modified_utf limits out s = Inr (write_u16_be out (word_of_nat (length ?enc)) @ ?enc)"
      using e by (simp add: write_modified_utf_def)
    from reads_text [OF w v] obtain img where
      i: "write_u16_be out (word_of_nat (length ?enc)) @ ?enc = out @ img" "reads (read_modified_utf limits) img s"
      by auto
    then have "img = write_u16_be [] (word_of_nat (length ?enc)) @ ?enc"
      by (simp add: write_u16_be_append [of out])
    with reads_offset [OF i(2), of out rest] w True show ?thesis
      by (simp add: Let_def write_u16_be_def)
  qed (use e in \<open>auto simp: write_modified_utf_def Let_def\<close>)
qed

theorem modified_utf_roundtrip_witness:
  "write_modified_utf default_limits [] ''a'' = Inr (write_u16_be [] 1 @ [97])"
proof -
  have s: "list_all scalar_value [97]" "bytes_of ''a'' = concat (map utf8_encode [97])"
    by (simp_all add: scalar_value_def utf8_encode_def char_eval)
  from modified_utf_roundtrip [OF this, of default_limits "[]" "[]"] show ?thesis
    by (auto simp: Let_def modified_encode_def unit_bytes_def default_limits_def)
qed

text \<open>
  The reader does not check that the second and third byte of a low surrogate
  are continuation bytes: it takes the malformed \<open>ED A0 80 ED 70 00\<close> for the
  well-formed \<open>ED A0 80 ED B0 80\<close>, which alone the writer produces.
\<close>

lemma surrogate_continuation_unchecked:
  "decode_modified_utf [0xED, 0xA0, 0x80, 0xED, 0x70, 0x00] [] = Inr [0xF0, 0x90, 0x80, 0x80]"
  "decode_modified_utf [0xED, 0xA0, 0x80, 0xED, 0xB0, 0x80] [] = Inr [0xF0, 0x90, 0x80, 0x80]"
  "encode_modified_from [0xF0, 0x90, 0x80, 0x80] [] = Inr [0xED, 0xA0, 0x80, 0xED, 0xB0, 0x80]"
  by code_simp+

text \<open>
  The writer's byte limit counts what stood in the output before the tag: behind
  enough other bytes even a two-byte tag is refused.
\<close>

lemma limit_counts_whole_output:
  assumes "max_bytes limits < length out + 2"
  shows "write_any_tag limits out (Tag Byte_T (Byte_Value b)) =
    Inl (Length_Error ''NBT payload exceeds byte limit'')"
  using assms by (simp add: write_any_tag_def check_bytes_def write_i8_def)

text \<open>An overlong form is written, but shortened: such a string is not read back as it was.\<close>

lemma overlong_shortened:
  "encode_modified_from [0xC1, 0x81] [] = Inr [0x41]" "decode_modified_utf [0x41] [] = Inr [0x41]"
  by code_simp+

end
