(* ===== verification/Core_Types.thy ===== *)
theory Core_Types
  imports Strings
begin

text \<open>
  Resource locations (include/mc/core/types.hpp, src/core/types.cpp): a namespace
  and a path over restricted alphabets, parsed from and printed to text.
\<close>

record resource_location =
  name_space :: string
  loc_path :: string

definition valid_name_space_character :: "char \<Rightarrow> bool" where
  "valid_name_space_character c =
     (char_between CHR ''a'' CHR ''z'' c \<or> char_between CHR ''0'' CHR ''9'' c \<or>
      c = CHR ''_'' \<or> c = CHR ''-'' \<or> c = CHR ''.'')"

definition valid_path_character :: "char \<Rightarrow> bool" where
  "valid_path_character c = (valid_name_space_character c \<or> c = CHR ''/'')"

definition validate_location :: "string \<Rightarrow> (char \<Rightarrow> bool) \<Rightarrow> string \<Rightarrow> unit result" where
  "validate_location str p description =
     (if str = [] \<or> \<not> list_all p str then Inl (Invalid_Argument description) else Inr ())"

definition new_location :: "string \<Rightarrow> string \<Rightarrow> resource_location result" where
  "new_location ns p =
     bindR (validate_location ns valid_name_space_character ''invalid resource namespace'') (\<lambda>_.
       bindR (validate_location p valid_path_character ''invalid resource path'') (\<lambda>_.
         Inr \<lparr>name_space = ns, loc_path = p\<rparr>))"

definition parse_location :: "string \<Rightarrow> resource_location result" where
  "parse_location str =
     (case find_char CHR '':'' str of
        None \<Rightarrow> new_location ''minecraft'' str
      | Some separator \<Rightarrow>
          if find_char CHR '':'' (drop (separator + 1) str) \<noteq> None
          then Inl (Invalid_Argument ''resource location contains multiple separators'')
          else new_location (take separator str) (drop (separator + 1) str))"

definition location_string :: "resource_location \<Rightarrow> string" where
  "location_string l = name_space l @ CHR '':'' # loc_path l"

section \<open>Facts\<close>

text \<open>What the class guarantees of every value it constructs.\<close>

definition location_ok :: "resource_location \<Rightarrow> bool" where
  "location_ok l = (name_space l \<noteq> [] \<and> loc_path l \<noteq> [] \<and>
     list_all valid_name_space_character (name_space l) \<and> list_all valid_path_character (loc_path l))"

lemma new_location_Inr:
  "new_location ns p = Inr l \<longleftrightarrow> l = \<lparr>name_space = ns, loc_path = p\<rparr> \<and> location_ok l"
  by (auto simp: new_location_def validate_location_def bindR_Inr_iff location_ok_def)

lemma valid_path_character_not_colon: "valid_path_character c \<Longrightarrow> c \<noteq> CHR '':''"
  by (auto simp: valid_path_character_def valid_name_space_character_def char_between_def byte_of_char_def)

lemma valid_name_space_character_path: "valid_name_space_character c \<Longrightarrow> valid_path_character c"
  by (simp add: valid_path_character_def)

lemma parse_location_ok: "parse_location str = Inr l \<Longrightarrow> location_ok l"
  by (auto simp: parse_location_def new_location_Inr split: option.splits if_splits)

lemma parse_location_string:
  assumes "location_ok l"
  shows "parse_location (location_string l) = Inr l"
proof -
  have ns: "CHR '':'' \<notin> set (name_space l)" and p: "CHR '':'' \<notin> set (loc_path l)"
    using assms by (auto simp: location_ok_def list_all_iff
        dest: valid_name_space_character_path valid_path_character_not_colon)
  then have "find_char CHR '':'' (location_string l) = Some (length (name_space l))"
    by (auto simp: find_char_Some location_string_def)
  moreover have "find_char CHR '':'' (loc_path l) = None"
    using p by (simp add: find_char_None)
  ultimately show ?thesis
    using assms by (simp add: parse_location_def new_location_Inr) (simp add: location_string_def)
qed

lemma parse_location_plain:
  "CHR '':'' \<notin> set str \<Longrightarrow> parse_location str = new_location ''minecraft'' str"
  by (simp add: parse_location_def find_char_None [THEN iffD2])

section \<open>Properties\<close>

text \<open>C24. \<open>ResourceLocation::parse\<close> accepts a text exactly when it is the printed form of a valid location, or
  the path alone of one in the default namespace, and returns that location: printing and parsing are
  inverse on valid locations, and nothing else is ever accepted.\<close>

theorem resource_location_parse:
  "parse_location str = Inr l \<longleftrightarrow> location_ok l \<and>
     (str = location_string l \<or> name_space l = ''minecraft'' \<and> str = loc_path l)"
proof
  assume p: "parse_location str = Inr l"
  have "str = location_string l \<or> name_space l = ''minecraft'' \<and> str = loc_path l"
  proof (cases "find_char CHR '':'' str")
    case (Some i)
    then have "str = take i str @ CHR '':'' # drop (i + 1) str"
      using id_take_nth_drop [of i str] by (simp add: find_char_Some)
    then show ?thesis
      using p Some by (auto simp: parse_location_def new_location_Inr location_string_def split: if_splits)
  qed (use p in \<open>auto simp: parse_location_def new_location_Inr\<close>)
  with parse_location_ok [OF p] show "location_ok l \<and>
     (str = location_string l \<or> name_space l = ''minecraft'' \<and> str = loc_path l)" by simp
next
  assume a: "location_ok l \<and> (str = location_string l \<or> name_space l = ''minecraft'' \<and> str = loc_path l)"
  then have "CHR '':'' \<notin> set (loc_path l)"
    by (auto simp: location_ok_def list_all_iff dest: valid_path_character_not_colon)
  with a show "parse_location str = Inr l"
    using parse_location_string [of l] parse_location_plain [of "loc_path l"]
    by (auto simp: new_location_Inr)
qed

end
