(* ===== verification/Item.thy ===== *)
theory Item
  imports Core_Types
begin

text \<open>
  Items (include/mc/item/item.hpp, src/item/item.cpp): the registry of item
  types, with the loader of its normalized text form, and item stacks with
  their merging, splitting and wear.

  The registry is the list of its items; an item's id is its index. The map of
  data components is the list of its entries in key order. The float
  \<open>saturation_modifier\<close> is its bit pattern.
\<close>

section \<open>Items\<close>

record item_properties =
  max_stack_size :: u16
  max_damage :: u16
  block_id :: "u32 option"
  nutrition :: u8
  saturation_modifier :: u32

definition default_properties :: item_properties where
  "default_properties = \<lparr>max_stack_size = 64, max_damage = 0, block_id = None, nutrition = 0,
     saturation_modifier = 0\<rparr>"

record item =
  item_index :: u32
  item_name :: resource_location
  properties :: item_properties
  protocol_id :: "u32 option"

text \<open>\<open>std::isfinite\<close> and the comparison with 0.0 of a finite float, on bit patterns.\<close>

definition finite_f32 :: "u32 \<Rightarrow> bool" where
  "finite_f32 w = (w AND 0x7F800000 \<noteq> 0x7F800000)"

definition below_zero_f32 :: "u32 \<Rightarrow> bool" where
  "below_zero_f32 w = (w > 0x80000000)"

definition new_item :: "u32 \<Rightarrow> resource_location \<Rightarrow> item_properties \<Rightarrow> item result" where
  "new_item i name p =
     (if max_stack_size p = 0 \<or> max_stack_size p > 99
      then Inl (Invalid_Argument ''item stack limit must be from 1 to 99'')
      else if max_damage p \<noteq> 0 \<and> max_stack_size p \<noteq> 1
      then Inl (Invalid_Argument ''damageable items must have stack size one'')
      else if nutrition p > 20 \<or> \<not> finite_f32 (saturation_modifier p) \<or>
        below_zero_f32 (saturation_modifier p)
      then Inl (Invalid_Argument ''food properties are invalid'')
      else Inr \<lparr>item_index = i, item_name = name, properties = p, protocol_id = None\<rparr>)"

section \<open>The registry\<close>

type_synonym item_registry = "item list"

definition by_id :: "item_registry \<Rightarrow> u32 \<Rightarrow> item result" where
  "by_id reg i =
     (if unat i \<ge> length reg then Inl (Out_Of_Range ''item ID is not registered'')
      else Inr (reg ! unat i))"

definition by_location :: "item_registry \<Rightarrow> resource_location \<Rightarrow> item result" where
  "by_location reg name =
     (case find (\<lambda>candidate. item_name candidate = name) reg of
        None \<Rightarrow> Inl (Out_Of_Range ''item name is not registered'')
      | Some it \<Rightarrow> Inr it)"

definition by_name :: "item_registry \<Rightarrow> string \<Rightarrow> item result" where
  "by_name reg name = bindR (parse_location name) (by_location reg)"

definition by_protocol_id :: "item_registry \<Rightarrow> u32 \<Rightarrow> item result" where
  "by_protocol_id reg i =
     (case find (\<lambda>candidate. protocol_id candidate = Some i) reg of
        None \<Rightarrow> Inl (Out_Of_Range ''item protocol ID is not registered'')
      | Some it \<Rightarrow> Inr it)"

definition register_item :: "item_registry \<Rightarrow> resource_location \<Rightarrow> item_properties \<Rightarrow> item_registry result" where
  "register_item reg name p =
     (if \<exists>it \<in> set reg. item_name it = name
      then Inl (Invalid_Argument ''item name is already registered'')
      else bindR (new_item (word_of_nat (length reg)) name p) (\<lambda>it. Inr (reg @ [it])))"

text \<open>The items the constructor registers, in its order.\<close>

definition block_item :: "u32 \<Rightarrow> item_properties" where
  "block_item b = default_properties\<lparr>block_id := Some b\<rparr>"

definition tool_item :: "u16 \<Rightarrow> item_properties" where
  "tool_item d = default_properties\<lparr>max_stack_size := 1, max_damage := d\<rparr>"

definition builtin_items :: "(string \<times> item_properties) list" where
  "builtin_items =
     [(''minecraft:air'', default_properties),
      (''minecraft:stone'', block_item 2),
      (''minecraft:cobblestone'', default_properties),
      (''minecraft:dirt'', block_item 3),
      (''minecraft:grass_block'', block_item 4),
      (''minecraft:sand'', block_item 6),
      (''minecraft:gravel'', block_item 7),
      (''minecraft:coal'', default_properties),
      (''minecraft:raw_iron'', default_properties),
      (''minecraft:iron_ingot'', default_properties),
      (''minecraft:oak_log'', block_item 10),
      (''minecraft:oak_planks'', default_properties),
      (''minecraft:stick'', default_properties),
      (''minecraft:crafting_table'', default_properties),
      (''minecraft:torch'', default_properties),
      (''minecraft:wooden_pickaxe'', tool_item 59),
      (''minecraft:bread'', default_properties\<lparr>nutrition := 5, saturation_modifier := 0x3F19999A\<rparr>),
      (''minecraft:bow'', tool_item 384),
      (''minecraft:arrow'', default_properties),
      (''minecraft:shield'', tool_item 336)]"

definition default_registry :: "item_registry result" where
  "default_registry = foldR (\<lambda>(name, p) reg.
     bindR (parse_location name) (\<lambda>l. register_item reg l p)) builtin_items []"

record item_load_report =
  encountered :: nat
  loaded :: nat
  existing :: nat

text \<open>One line of \<open>load_normalized\<close>, and the loop over the lines behind the header.\<close>

definition set_protocol_id :: "item_registry \<Rightarrow> nat \<Rightarrow> u32 \<Rightarrow> item_registry" where
  "set_protocol_id reg i p = reg[i := (reg ! i)\<lparr>protocol_id := Some p\<rparr>]"

fun find_index :: "('a \<Rightarrow> bool) \<Rightarrow> 'a list \<Rightarrow> nat option" where
  "find_index p [] = None"
| "find_index p (x # xs) = (if p x then Some 0 else map_option Suc (find_index p xs))"

definition load_item_line ::
    "string \<Rightarrow> item_registry \<times> item_load_report \<Rightarrow> (item_registry \<times> item_load_report) result" where
  "load_item_line line = (\<lambda>(reg, report).
     if \<not> starts_with line (CHR ''I'' # [CHR 0x09]) then Inr (reg, report)
     else (case find_char CHR 0x09 (drop 2 line) of
        None \<Rightarrow> Inl (Runtime_Error ''normalized item registry record is invalid'')
      | Some n \<Rightarrow>
          (case from_chars_all 32 (take n (drop 2 line)) of
             None \<Rightarrow> Inl (Runtime_Error ''normalized item protocol ID is invalid'')
           | Some p \<Rightarrow>
               if p \<noteq> encountered report
               then Inl (Runtime_Error ''normalized item protocol ID is invalid'')
               else
                 let report = report\<lparr>encountered := encountered report + 1\<rparr>
                 in bindR (parse_location (drop (n + 3) line)) (\<lambda>name.
                   case find_index (\<lambda>it. item_name it = name) reg of
                     Some i \<Rightarrow> Inr (set_protocol_id reg i (word_of_nat p),
                       report\<lparr>existing := existing report + 1\<rparr>)
                   | None \<Rightarrow> bindR (register_item reg name default_properties) (\<lambda>reg.
                       Inr (set_protocol_id reg (length reg - 1) (word_of_nat p),
                         report\<lparr>loaded := loaded report + 1\<rparr>))))))"

definition load_normalized_items :: "item_registry \<Rightarrow> string \<Rightarrow> (item_registry \<times> item_load_report) result" where
  "load_normalized_items reg input =
     (case stream_lines input of
        [] \<Rightarrow> Inl (Runtime_Error ''normalized registry stream has an invalid header'')
      | header # ls \<Rightarrow>
          if \<not> starts_with header (''MCREGISTRIES1'' @ [CHR 0x09])
          then Inl (Runtime_Error ''normalized registry stream has an invalid header'')
          else foldR load_item_line ls (reg, \<lparr>encountered = 0, loaded = 0, existing = 0\<rparr>))"

section \<open>Item stacks\<close>

type_synonym data_components = "(resource_location \<times> string) list"

record item_stack =
  stack_item :: u32
  stack_count :: u16
  stack_damage :: u16
  components :: data_components

definition empty_stack :: item_stack where
  "empty_stack = \<lparr>stack_item = 0, stack_count = 0, stack_damage = 0, components = []\<rparr>"

definition normalize_stack :: "item_stack \<Rightarrow> item_stack" where
  "normalize_stack s =
     (if stack_count s = 0 then s\<lparr>stack_item := 0, stack_damage := 0, components := []\<rparr> else s)"

definition new_stack :: "u32 \<Rightarrow> u16 \<Rightarrow> u16 \<Rightarrow> data_components \<Rightarrow> item_stack" where
  "new_stack i n d c = normalize_stack \<lparr>stack_item = i, stack_count = n, stack_damage = d, components = c\<rparr>"

definition is_empty :: "item_stack \<Rightarrow> bool" where
  "is_empty s = (stack_count s = 0)"

definition can_merge :: "item_stack \<Rightarrow> item_stack \<Rightarrow> bool" where
  "can_merge s t = (\<not> is_empty s \<and> \<not> is_empty t \<and> stack_item s = stack_item t \<and>
     stack_damage s = stack_damage t \<and> components s = components t)"

definition validate_stack :: "item_registry \<Rightarrow> item_stack \<Rightarrow> unit result" where
  "validate_stack reg s =
     (if is_empty s
      then (if stack_item s \<noteq> 0 \<or> stack_damage s \<noteq> 0 \<or> components s \<noteq> []
            then Inl (Invalid_Argument ''empty stack is not normalized'') else Inr ())
      else if stack_item s = 0
      then Inl (Invalid_Argument ''air cannot form a non-empty item stack'')
      else bindR (by_id reg (stack_item s)) (\<lambda>it.
        if stack_count s > max_stack_size (properties it)
        then Inl (Invalid_Argument ''stack exceeds item limit'')
        else if stack_damage s > max_damage (properties it)
        then Inl (Invalid_Argument ''stack damage exceeds item durability'')
        else Inr ()))"

text \<open>\<open>insert_from\<close>: the count returned, the receiving stack, and the source.\<close>

definition insert_from ::
    "item_registry \<Rightarrow> item_stack \<Rightarrow> item_stack \<Rightarrow> (u16 \<times> item_stack \<times> item_stack) result" where
  "insert_from reg this source =
     bindR (validate_stack reg source) (\<lambda>_.
       if is_empty source then Inr (0, this, source)
       else bindR (by_id reg (stack_item source)) (\<lambda>it.
         if \<not> is_empty this \<and> \<not> can_merge this source then Inr (stack_count source, this, source)
         else
           let this = (if is_empty this
                 then this\<lparr>stack_item := stack_item source, stack_damage := stack_damage source,
                        components := components source\<rparr>
                 else this);
               capacity = max_stack_size (properties it) - stack_count this;
               moved = min capacity (stack_count source);
               this = this\<lparr>stack_count := stack_count this + moved\<rparr>;
               source = normalize_stack (source\<lparr>stack_count := stack_count source - moved\<rparr>)
           in Inr (stack_count source, this, source)))"

text \<open>\<open>take\<close>: the stack taken and what is left.\<close>

definition take_stack :: "item_stack \<Rightarrow> u16 \<Rightarrow> item_stack \<times> item_stack" where
  "take_stack this requested =
     (let removed = min requested (stack_count this);
          res = new_stack (stack_item this) removed (stack_damage this) (components this)
      in (res, normalize_stack (this\<lparr>stack_count := stack_count this - removed\<rparr>)))"

text \<open>\<open>apply_damage\<close>: whether the item broke, and the stack after it.\<close>

definition apply_damage :: "item_registry \<Rightarrow> item_stack \<Rightarrow> u16 \<Rightarrow> (bool \<times> item_stack) result" where
  "apply_damage reg this amount =
     bindR (validate_stack reg this) (\<lambda>_.
       if is_empty this \<or> amount = 0 then Inr (False, this)
       else bindR (by_id reg (stack_item this)) (\<lambda>it.
         let maximum = max_damage (properties it)
         in if maximum = 0 then Inr (False, this)
            else
              let nxt = ucast (stack_damage this) + ucast amount :: u32
              in if nxt \<ge> ucast maximum
                 then Inr (True, normalize_stack (this\<lparr>stack_count := 0\<rparr>))
                 else Inr (False, this\<lparr>stack_damage := ucast nxt\<rparr>)))"

section \<open>Stacks: invariants and conservation\<close>

definition stack_ok :: "item_registry \<Rightarrow> item_stack \<Rightarrow> bool" where
  "stack_ok reg s = (validate_stack reg s = Inr ())"

text \<open>
  The kind of a stack is what must agree for two stacks to merge; \<open>amount k s\<close> is
  how many items of the kind \<open>k\<close> the stack holds.
\<close>

datatype item_kind = Kind u32 u16 data_components

definition kind_of :: "item_stack \<Rightarrow> item_kind" where
  "kind_of s = Kind (stack_item s) (stack_damage s) (components s)"

definition amount :: "item_kind \<Rightarrow> item_stack \<Rightarrow> nat" where
  "amount k s = (if kind_of s = k then unat (stack_count s) else 0)"

definition stack_limit :: "item_registry \<Rightarrow> item_stack \<Rightarrow> u16" where
  "stack_limit reg s = max_stack_size (properties (reg ! unat (stack_item s)))"

lemma can_merge_iff:
  "can_merge s t \<longleftrightarrow> \<not> is_empty s \<and> \<not> is_empty t \<and> kind_of s = kind_of t"
  by (auto simp: can_merge_def kind_of_def)

lemma stack_ok_empty [simp]: "stack_ok reg empty_stack"
  by (simp add: stack_ok_def validate_stack_def empty_stack_def is_empty_def)

lemma stack_ok_iff:
  "stack_ok reg s \<longleftrightarrow> s = empty_stack \<or>
     \<not> is_empty s \<and> stack_item s \<noteq> 0 \<and> unat (stack_item s) < length reg \<and>
     stack_count s \<le> stack_limit reg s \<and>
     stack_damage s \<le> max_damage (properties (reg ! unat (stack_item s)))"
  by (cases s) (auto simp: stack_ok_def validate_stack_def is_empty_def empty_stack_def by_id_def
      bindR_Inr_iff stack_limit_def)

lemma is_empty_ok: "stack_ok reg s \<Longrightarrow> is_empty s \<longleftrightarrow> s = empty_stack"
  by (auto simp: stack_ok_iff is_empty_def empty_stack_def)

lemma is_empty_empty [simp]: "is_empty empty_stack"
  by (simp add: is_empty_def empty_stack_def)

lemma amount_empty [simp]: "amount k empty_stack = 0"
  by (simp add: amount_def empty_stack_def)

lemma amount_is_empty: "is_empty s \<Longrightarrow> amount k s = 0"
  by (simp add: amount_def is_empty_def)

lemma normalize_cases: "normalize_stack s = (if is_empty s then empty_stack else s)"
  by (cases s) (simp add: normalize_stack_def is_empty_def empty_stack_def)

text \<open>What a merge moves: all of the source, or as much as fits.\<close>

lemma unat_min: "unat (min a b) = min (unat a) (unat (b :: 'w::len word))"
  by (simp add: min_def word_le_nat_alt)

lemma unat_minus_le: "b \<le> a \<Longrightarrow> unat (a - b) = unat a - unat (b :: 'w::len word)"
  by (simp add: unat_sub)

lemma unat_plus_le:
  assumes "unat a + unat b \<le> unat (c :: 'w::len word)"
  shows "unat (a + b) = unat a + unat (b :: 'w word)"
proof -
  have "unat a + unat b < 2 ^ LENGTH('w)"
    using assms unsigned_less [where 'a = nat, of c] by linarith
  then show ?thesis by (simp only: unat_add_lem)
qed

lemma stack_eqI:
  "stack_item s = stack_item t \<Longrightarrow> stack_damage s = stack_damage t \<Longrightarrow> components s = components t \<Longrightarrow>
     s\<lparr>stack_count := n\<rparr> = (t :: item_stack)\<lparr>stack_count := n\<rparr>"
  by (cases s; cases t) simp

text \<open>What a merge moves: all of the source, or as much as fits.\<close>

lemma insert_from_merge:
  assumes s: "stack_ok reg s" and t: "stack_ok reg t" and "\<not> is_empty t" and "is_empty s \<or> can_merge s t"
  defines "m \<equiv> min (stack_limit reg t - stack_count s) (stack_count t)"
  shows "insert_from reg s t = Inr (stack_count t - m, t\<lparr>stack_count := stack_count s + m\<rparr>,
      normalize_stack (t\<lparr>stack_count := stack_count t - m\<rparr>))"
    and "unat m = min (unat (stack_limit reg t) - unat (stack_count s)) (unat (stack_count t))"
    and "unat (stack_count s) \<le> unat (stack_limit reg t)"
    and "unat (stack_count t - m) = unat (stack_count t) - unat m"
    and "unat (stack_count s + m) = unat (stack_count s) + unat m"
proof -
  have le: "stack_count s \<le> stack_limit reg t"
    using s assms(4) by (auto simp: stack_ok_iff is_empty_def can_merge_def stack_limit_def empty_stack_def)
  have "m \<le> stack_count t" by (simp add: m_def)
  then show "unat (stack_count t - m) = unat (stack_count t) - unat m"
    by (rule unat_minus_le)
  show c: "unat (stack_count s) \<le> unat (stack_limit reg t)"
    using le by (simp add: word_le_nat_alt)
  show m: "unat m = min (unat (stack_limit reg t) - unat (stack_count s)) (unat (stack_count t))"
    using le by (simp add: m_def unat_min unat_minus_le)
  have "unat (stack_count s) + unat m \<le> unat (stack_limit reg t)"
    using c unfolding m by linarith
  then show "unat (stack_count s + m) = unat (stack_count s) + unat m"
    by (rule unat_plus_le)
  have b: "by_id reg (stack_item t) = Inr (reg ! unat (stack_item t))"
    using t assms(3) by (auto simp: stack_ok_iff by_id_def)
  have v: "validate_stack reg t = Inr ()" using t by (simp add: stack_ok_def)
  have n: "stack_count (normalize_stack x) = stack_count x" for x
    by (simp add: normalize_stack_def)
  show "insert_from reg s t = Inr (stack_count t - m, t\<lparr>stack_count := stack_count s + m\<rparr>,
      normalize_stack (t\<lparr>stack_count := stack_count t - m\<rparr>))"
  proof (cases "is_empty s")
    case True
    have "s\<lparr>stack_item := stack_item t, stack_damage := stack_damage t, components := components t\<rparr>\<lparr>stack_count := k\<rparr> =
        t\<lparr>stack_count := k\<rparr>" for k
      by (intro stack_eqI) simp_all
    with True show ?thesis
      using assms(3) by (simp add: insert_from_def v b n m_def Let_def stack_limit_def)
  next
    case False
    then have "can_merge s t" using assms(4) by simp
    then have "s\<lparr>stack_count := stack_count s + m\<rparr> = t\<lparr>stack_count := stack_count s + m\<rparr>"
      by (intro stack_eqI) (auto simp: can_merge_def)
    with False \<open>can_merge s t\<close> show ?thesis
      using assms(3) by (simp add: insert_from_def v b n m_def Let_def stack_limit_def)
  qed
qed

lemma insert_from_other:
  assumes "stack_ok reg t" and "is_empty t \<or> \<not> is_empty s \<and> \<not> can_merge s t"
  shows "insert_from reg s t = Inr (stack_count t, s, t)"
  using assms
  by (auto simp: insert_from_def stack_ok_def by_id_def validate_stack_def is_empty_def bindR_Inr_iff split: if_splits)

lemma amount_count: "amount k (t\<lparr>stack_count := n\<rparr>) = (if kind_of t = k then unat n else 0)"
  by (simp add: amount_def kind_of_def)

lemma amount_normalize [simp]: "amount k (normalize_stack s) = amount k s"
  by (simp add: normalize_cases amount_is_empty)

lemma stack_ok_count:
  assumes "stack_ok reg t" and "\<not> is_empty t" and "n \<noteq> 0" and "n \<le> stack_limit reg t"
  shows "stack_ok reg (t\<lparr>stack_count := n\<rparr>)"
  using assms by (auto simp: stack_ok_iff is_empty_def stack_limit_def empty_stack_def)

lemma stack_ok_normalize_count:
  assumes "stack_ok reg t" and "\<not> is_empty t" and "n \<le> stack_count t"
  shows "stack_ok reg (normalize_stack (t\<lparr>stack_count := n\<rparr>))"
proof (cases "n = 0")
  case True
  then show ?thesis by (simp add: normalize_cases is_empty_def)
next
  case False
  have "n \<le> stack_limit reg t" using assms by (auto simp: stack_ok_iff)
  then show ?thesis
    using assms False stack_ok_count [of reg t n] by (simp add: normalize_cases is_empty_def)
qed

lemma insert_from_spec:
  assumes s: "stack_ok reg s" and t: "stack_ok reg t"
  shows "\<exists>n s' t'. insert_from reg s t = Inr (n, s', t') \<and> n = stack_count t' \<and>
    stack_ok reg s' \<and> stack_ok reg t' \<and>
    (\<forall>k. amount k s' + amount k t' = amount k s + amount k t) \<and>
    (is_empty t' \<or> kind_of t' = kind_of t) \<and>
    (is_empty t' \<or> \<not> can_merge s' t' \<or> stack_count s' = stack_limit reg s') \<and>
    (is_empty s' \<longrightarrow> is_empty t') \<and> unat (stack_count t') \<le> unat (stack_count t)"
proof (cases "is_empty t \<or> \<not> is_empty s \<and> \<not> can_merge s t")
  case True
  then show ?thesis
    using insert_from_other [OF t True] s t by auto
next
  case False
  then have ne: "\<not> is_empty t" and c: "is_empty s \<or> can_merge s t" by auto
  define m where "m = min (stack_limit reg t - stack_count s) (stack_count t)"
  note M = insert_from_merge [OF s t ne c, folded m_def]
  let ?s = "t\<lparr>stack_count := stack_count s + m\<rparr>" and ?t = "normalize_stack (t\<lparr>stack_count := stack_count t - m\<rparr>)"
  have um: "stack_count s + m \<le> stack_limit reg t" and le: "stack_count t - m \<le> stack_count t"
    using M(2-5) by (simp_all add: word_le_nat_alt)
  have "stack_count t \<noteq> 0" using ne by (simp add: is_empty_def)
  have full: "unat m = unat (stack_count t) \<or> stack_count s + m = stack_limit reg t"
    using M(2,3,5) by (auto simp: word_eq_iff_unsigned [where 'a = nat] min_def)
  have k: "kind_of s = kind_of t \<or> is_empty s"
    using c by (auto simp: can_merge_iff)
  have total: "amount k ?s + amount k ?t = amount k s + amount k t" for k
  proof -
    have "unat (stack_count s + m) + unat (stack_count t - m) = unat (stack_count s) + unat (stack_count t)"
      using M(2,4,5) by simp
    moreover have "unat (stack_count s) = 0" if "kind_of s \<noteq> kind_of t"
      using k that by (auto simp: is_empty_def)
    ultimately show ?thesis
      by (auto simp: amount_count) (auto simp: amount_def)
  qed
  have ok_t: "stack_ok reg ?t"
    using t ne le by (rule stack_ok_normalize_count)
  have lim: "stack_limit reg (t\<lparr>stack_count := n\<rparr>) = stack_limit reg t" for n
    by (simp add: stack_limit_def)
  have cnt: "stack_count (normalize_stack x) = stack_count x" for x
    by (simp add: normalize_stack_def)
  have lt: "unat (stack_count t - m) \<le> unat (stack_count t)"
    using le by (simp add: word_le_nat_alt)
  show ?thesis
  proof (cases "stack_count s + m = 0")
    case True
    then have "unat (stack_count s) + unat m = 0" using M(5) by simp
    then have "unat (stack_limit reg t) = 0 \<or> unat (stack_count t) = 0" using M(2) by (auto simp: min_def split: if_splits)
    moreover have "unat (stack_count t) \<le> unat (stack_limit reg t)" "unat (stack_count t) \<noteq> 0"
      using t ne \<open>stack_count t \<noteq> 0\<close> by (auto simp: stack_ok_iff word_le_nat_alt unat_eq_0)
    ultimately show ?thesis by simp
  next
    case False
    have "stack_ok reg ?s"
      using t ne False um by (rule stack_ok_count)
    moreover have "\<not> is_empty ?s" using False by (simp add: is_empty_def)
    moreover have "is_empty ?t \<or> kind_of ?t = kind_of t"
      by (simp add: normalize_cases kind_of_def)
    moreover have "is_empty ?t \<or> stack_count ?s = stack_limit reg ?s"
      using full M(4) by (auto simp: is_empty_def cnt lim unat_eq_0)
    ultimately show ?thesis
      using M(1) ok_t total cnt lt by (intro exI [of _ "stack_count t - m"] exI [of _ ?s] exI [of _ ?t]) auto
  qed
qed

lemma take_stack_spec:
  assumes "stack_ok reg s" and "take_stack s n = (r, s')"
  shows "stack_ok reg r" and "stack_ok reg s'" and "unat (stack_count r) = min (unat n) (unat (stack_count s))"
    and "amount k r + amount k s' = amount k s" and "is_empty r \<or> kind_of r = kind_of s"
proof -
  let ?m = "min n (stack_count s)"
  have r: "r = normalize_stack (s\<lparr>stack_count := ?m\<rparr>)"
    and s': "s' = normalize_stack (s\<lparr>stack_count := stack_count s - ?m\<rparr>)"
    using assms(2) by (cases s; auto simp: take_stack_def Let_def new_stack_def)+
  have n: "normalize_stack (s\<lparr>stack_count := c\<rparr>) = empty_stack" if "is_empty s" "c = 0" for c
    using that by (simp add: normalize_cases is_empty_def)
  have m: "?m \<le> stack_count s" by simp
  then have "stack_count s - ?m \<le> stack_count s"
    unfolding word_le_nat_alt unat_minus_le [OF m] by simp
  with m show "stack_ok reg r" "stack_ok reg s'"
    unfolding r s' using stack_ok_normalize_count [OF assms(1)] n
    by (cases "is_empty s"; simp add: is_empty_def)+
  show c: "unat (stack_count r) = min (unat n) (unat (stack_count s))"
    unfolding r by (simp add: normalize_stack_def flip: unat_min)
  show "amount k r + amount k s' = amount k s"
    unfolding r s' by (simp add: amount_count unat_minus_le unat_min) (simp add: amount_def)
  show "is_empty r \<or> kind_of r = kind_of s"
    unfolding r by (simp add: normalize_cases kind_of_def)
qed

lemma unat_ucast_u32: "unat (ucast (w :: u16) :: u32) = unat w"
proof -
  have "unat w < 2 ^ 16" using unsigned_less [where 'a = nat, of w] by simp
  then show ?thesis by (simp add: unsigned_ucast_eq take_bit_nat_eq_self)
qed

lemma apply_damage_spec:
  assumes "stack_ok reg s" and "\<not> is_empty s"
  defines "mx \<equiv> unat (max_damage (properties (reg ! unat (stack_item s))))"
  shows "apply_damage reg s amt =
    (if amt = 0 \<or> mx = 0 then Inr (False, s)
     else if mx \<le> unat (stack_damage s) + unat amt then Inr (True, empty_stack)
     else Inr (False, s\<lparr>stack_damage := stack_damage s + amt\<rparr>))"
proof -
  have b: "by_id reg (stack_item s) = Inr (reg ! unat (stack_item s))"
    using assms(1,2) by (auto simp: stack_ok_iff by_id_def)
  have small: "unat (w :: u16) < 65536" for w using unsigned_less [where 'a = nat, of w] by simp
  then have sum: "unat (ucast (stack_damage s) + ucast amt :: u32) = unat (stack_damage s) + unat amt"
    using add_strict_mono [OF small [of "stack_damage s"] small [of amt]]
    by (subst unat_add_lem [THEN iffD1]) (simp_all add: unat_ucast_u32)
  have trunc: "(ucast (ucast (stack_damage s) + ucast amt :: u32) :: u16) = stack_damage s + amt"
  proof (rule unsigned_word_eqI)
    show "unat (ucast (ucast (stack_damage s) + ucast amt :: u32) :: u16) = unat (stack_damage s + amt)"
      unfolding unsigned_ucast_eq [of "ucast (stack_damage s) + ucast amt :: u32"] sum
      by (simp add: take_bit_nat_def unat_word_ariths)
  qed
  have z: "normalize_stack (s\<lparr>stack_count := 0\<rparr>) = empty_stack"
    by (simp add: normalize_cases is_empty_def)
  show ?thesis
    using assms(1,2) b
    by (auto simp: apply_damage_def stack_ok_def Let_def mx_def z trunc word_le_nat_alt sum unat_ucast_u32
        unat_eq_0)
qed

section \<open>The registry invariant\<close>

definition item_ok :: "item \<Rightarrow> bool" where
  "item_ok it = (let p = properties it in location_ok (item_name it) \<and>
     1 \<le> max_stack_size p \<and> max_stack_size p \<le> 99 \<and> (max_damage p = 0 \<or> max_stack_size p = 1) \<and>
     nutrition p \<le> 20 \<and> finite_f32 (saturation_modifier p) \<and> \<not> below_zero_f32 (saturation_modifier p))"

definition registry_ok :: "item_registry \<Rightarrow> bool" where
  "registry_ok reg = ((\<forall>i < length reg. item_index (reg ! i) = word_of_nat i) \<and>
     distinct (map item_name reg) \<and> list_all item_ok reg)"

text \<open>What loading keeps of an item: everything but its protocol id.\<close>

definition same_item :: "item \<Rightarrow> item \<Rightarrow> bool" where
  "same_item a b = (item_index a = item_index b \<and> item_name a = item_name b \<and> properties a = properties b)"

lemma new_item_ok:
  "new_item i name p = Inr it \<Longrightarrow> location_ok name \<Longrightarrow>
     item_ok it \<and> item_index it = i \<and> item_name it = name"
  by (auto simp: new_item_def item_ok_def Let_def not_less word_le_nat_alt word_less_nat_alt
      unat_eq_0 unat_gt_0 Suc_le_eq split: if_splits)

lemma register_item_ok:
  assumes "register_item reg name p = Inr reg'" and "registry_ok reg" and "location_ok name"
  shows "registry_ok reg'" and "\<exists>it. reg' = reg @ [it] \<and> item_name it = name"
proof -
  from assms(1) obtain it where it: "new_item (word_of_nat (length reg)) name p = Inr it"
    and r: "reg' = reg @ [it]" and n: "\<forall>x \<in> set reg. item_name x \<noteq> name"
    by (auto simp: register_item_def bindR_Inr_iff split: if_splits)
  have i: "item_ok it" "item_index it = word_of_nat (length reg)" "item_name it = name"
    using new_item_ok [OF it assms(3)] by simp_all
  show "registry_ok reg'"
    using assms(2) i n unfolding registry_ok_def r
    by (auto simp: nth_append less_Suc_eq)
  show "\<exists>it. reg' = reg @ [it] \<and> item_name it = name" using r i by auto
qed

lemma set_protocol_id_ok:
  assumes "registry_ok reg" and "i < length reg"
  shows "registry_ok (set_protocol_id reg i p)" and "length (set_protocol_id reg i p) = length reg"
    and "list_all2 same_item reg (set_protocol_id reg i p)"
proof -
  let ?it = "(reg ! i)\<lparr>protocol_id := Some p\<rparr>"
  have names: "map item_name (set_protocol_id reg i p) = map item_name reg"
    using assms(2) by (simp add: set_protocol_id_def map_update list_update_same_conv)
  have "item_ok ?it"
    using assms by (simp add: registry_ok_def list_all_length item_ok_def)
  then have "list_all item_ok (set_protocol_id reg i p)"
    using assms by (auto simp: registry_ok_def set_protocol_id_def list_all_length nth_list_update)
  moreover have "\<forall>j < length reg. item_index (set_protocol_id reg i p ! j) = word_of_nat j"
    using assms by (auto simp: registry_ok_def set_protocol_id_def nth_list_update)
  ultimately show "registry_ok (set_protocol_id reg i p)"
    using assms(1) names by (simp add: registry_ok_def) (simp add: set_protocol_id_def)
  show "length (set_protocol_id reg i p) = length reg"
    by (simp add: set_protocol_id_def)
  show "list_all2 same_item reg (set_protocol_id reg i p)"
    using assms(2) by (auto simp: list_all2_conv_all_nth set_protocol_id_def same_item_def nth_list_update split: if_splits)
qed

lemma find_index_Some: "find_index p xs = Some i \<Longrightarrow> i < length xs \<and> p (xs ! i)"
  by (induction xs arbitrary: i) (auto split: if_splits)

text \<open>What a line, and so a whole load, keeps true.\<close>

definition load_inv :: "item_registry \<Rightarrow> item_registry \<times> item_load_report \<Rightarrow> bool" where
  "load_inv reg0 = (\<lambda>(reg, report). registry_ok reg \<and>
     encountered report = loaded report + existing report \<and>
     length reg = length reg0 + loaded report \<and> list_all2 same_item reg0 (take (length reg0) reg))"

lemma same_item_trans:
  "list_all2 same_item a b \<Longrightarrow> list_all2 same_item b c \<Longrightarrow> list_all2 same_item a c"
  by (rule list_all2_trans [of same_item same_item]) (auto simp: same_item_def)

lemma load_item_line_inv:
  assumes "load_inv reg0 st" and "load_item_line line st = Inr st'"
  shows "load_inv reg0 st'"
proof -
  obtain reg report where st: "st = (reg, report)" by (cases st)
  from assms(2) consider "st' = st"
    | n p name where "encountered report = p" "parse_location (drop (n + 3) line) = Inr name"
      "(case find_index (\<lambda>it. item_name it = name) reg of
         Some i \<Rightarrow> Inr (set_protocol_id reg i (word_of_nat p),
           report\<lparr>encountered := p + 1, existing := existing report + 1\<rparr>)
       | None \<Rightarrow> bindR (register_item reg name default_properties) (\<lambda>reg.
           Inr (set_protocol_id reg (length reg - 1) (word_of_nat p),
             report\<lparr>encountered := p + 1, loaded := loaded report + 1\<rparr>))) = Inr st'"
    by (auto simp: load_item_line_def st Let_def bindR_Inr_iff split: if_splits option.splits)
  then show ?thesis
  proof cases
    case 1
    with assms(1) show ?thesis by simp
  next
    case 2
    have inv: "registry_ok reg" "p = loaded report + existing report"
      "length reg = length reg0 + loaded report" "list_all2 same_item reg0 (take (length reg0) reg)"
      using assms(1) 2(1) by (simp_all add: load_inv_def st)
    have l: "location_ok name" using 2(2) by (rule parse_location_ok)
    show ?thesis
    proof (cases "find_index (\<lambda>it. item_name it = name) reg")
      case (Some i)
      then have i: "i < length reg" by (auto dest: find_index_Some)
      note P = set_protocol_id_ok [OF inv(1) i, of "word_of_nat p"]
      have "list_all2 same_item (take (length reg0) reg) (take (length reg0) (set_protocol_id reg i (word_of_nat p)))"
        using P(3) by (rule list_all2_takeI)
      with same_item_trans [OF inv(4) this] P inv 2(3) Some show ?thesis
        by (auto simp: load_inv_def)
    next
      case None
      with 2(3) obtain reg1 where r: "register_item reg name default_properties = Inr reg1"
        and st': "st' = (set_protocol_id reg1 (length reg1 - 1) (word_of_nat p),
             report\<lparr>encountered := p + 1, loaded := loaded report + 1\<rparr>)"
        by (auto simp: bindR_Inr_iff)
      obtain it where it: "reg1 = reg @ [it]" and ok1: "registry_ok reg1"
        using register_item_ok [OF r inv(1) l] by auto
      then have "length reg1 - 1 < length reg1" by simp
      note P = set_protocol_id_ok [OF ok1 this, of "word_of_nat p"]
      have "list_all2 same_item (take (length reg0) reg1)
          (take (length reg0) (set_protocol_id reg1 (length reg1 - 1) (word_of_nat p)))"
        using P(3) by (rule list_all2_takeI)
      moreover have "take (length reg0) reg1 = take (length reg0) reg"
        using inv(3) it by simp
      ultimately show ?thesis
        using same_item_trans [OF inv(4)] P inv it st' by (auto simp: load_inv_def)
    qed
  qed
qed

text \<open>The built-in items: twenty registrations that all succeed.\<close>

definition builtin_registry :: item_registry where
  "builtin_registry = (case default_registry of Inl _ \<Rightarrow> [] | Inr reg \<Rightarrow> reg)"

lemma default_registry_steps:
  assumes "registry_ok reg" and "foldR (\<lambda>(name, p) reg.
     bindR (parse_location name) (\<lambda>l. register_item reg l p)) entries reg = Inr reg'"
  shows "registry_ok reg' \<and> length reg' = length reg + length entries"
  using assms
proof (induction entries arbitrary: reg)
  case (Cons e es)
  obtain name p where e: "e = (name, p)" by (cases e)
  with Cons.prems obtain l reg1 where l: "parse_location name = Inr l"
    and r: "register_item reg l p = Inr reg1"
    and f: "foldR (\<lambda>(name, p) reg. bindR (parse_location name) (\<lambda>l. register_item reg l p)) es reg1 = Inr reg'"
    by (auto simp: bindR_Inr_iff)
  from register_item_ok [OF r Cons.prems(1) parse_location_ok [OF l]] Cons.IH [OF _ f]
  show ?case by auto
qed simp

lemma default_registry_builds: "is_ok default_registry"
  by code_simp


lemma builtin_registry_ok:
  "default_registry = Inr builtin_registry" "registry_ok builtin_registry" "length builtin_registry = 20"
proof -
  from default_registry_builds obtain reg where d: "default_registry = Inr reg"
    by (auto simp: is_ok_iff)
  have b: "builtin_registry = reg"
    unfolding builtin_registry_def d by (simp only: sum.case)
  show "default_registry = Inr builtin_registry" unfolding b by (rule d)
  have "registry_ok []" by (simp add: registry_ok_def)
  from default_registry_steps [OF this d [unfolded default_registry_def]]
  show "registry_ok builtin_registry" "length builtin_registry = 20"
    by (simp_all add: b builtin_items_def)
qed

lemma builtin_stone: "builtin_registry ! 1 =
    \<lparr>item_index = 1, item_name = \<lparr>name_space = ''minecraft'', loc_path = ''stone''\<rparr>,
     properties = block_item 2, protocol_id = None\<rparr>"
  by code_simp

lemma stone_stack_ok:
  "1 \<le> unat n \<Longrightarrow> unat n \<le> 64 \<Longrightarrow> stack_ok builtin_registry \<lparr>stack_item = 1, stack_count = n, stack_damage = 0, components = []\<rparr>"
  by (auto simp: stack_ok_iff is_empty_def stack_limit_def builtin_stone [simplified] builtin_registry_ok(3) block_item_def
      default_properties_def word_le_nat_alt)

section \<open>Properties\<close>

text \<open>C25. Merging two valid stacks never fails, leaves two valid stacks (counts within the item's limit, durability
  respected, no unnormalised empty stack) and neither creates nor loses an item of any kind. When the source
  is not empty and the receiver is empty or of the same kind, the receiver becomes a stack of the source's kind
  with as many items as fit: the sum of the two counts, capped at the item's limit; the rest stays in the
  source. In every other case both stacks stay as they were. The number returned is what is left of the source.\<close>

theorem item_merge_conserves:
  assumes "stack_ok reg s" and "stack_ok reg t"
  shows "\<exists>left s' t'. insert_from reg s t = Inr (left, s', t') \<and> left = stack_count t' \<and>
    stack_ok reg s' \<and> stack_ok reg t' \<and>
    (\<forall>k. amount k s' + amount k t' = amount k s + amount k t) \<and>
    (is_empty t' \<or> \<not> can_merge s' t' \<or> stack_count s' = stack_limit reg s') \<and>
    (if \<not> is_empty t \<and> (is_empty s \<or> can_merge s t)
     then kind_of s' = kind_of t \<and>
       unat (stack_count s') = min (unat (stack_limit reg t)) (unat (stack_count s) + unat (stack_count t))
     else s' = s \<and> t' = t)"
proof -
  from insert_from_spec [OF assms] obtain n s' t' where I: "insert_from reg s t = Inr (n, s', t')" "n = stack_count t'"
    "stack_ok reg s'" "stack_ok reg t'" "\<forall>k. amount k s' + amount k t' = amount k s + amount k t"
    "is_empty t' \<or> \<not> can_merge s' t' \<or> stack_count s' = stack_limit reg s'" by blast
  have "if \<not> is_empty t \<and> (is_empty s \<or> can_merge s t)
     then kind_of s' = kind_of t \<and>
       unat (stack_count s') = min (unat (stack_limit reg t)) (unat (stack_count s) + unat (stack_count t))
     else s' = s \<and> t' = t"
  proof (cases "\<not> is_empty t \<and> (is_empty s \<or> can_merge s t)")
    case True
    then have ne: "\<not> is_empty t" and c: "is_empty s \<or> can_merge s t" by simp_all
    define m where "m = min (stack_limit reg t - stack_count s) (stack_count t)"
    note M = insert_from_merge [OF assms ne c, folded m_def]
    have s': "s' = t\<lparr>stack_count := stack_count s + m\<rparr>" using M(1) I(1) by simp
    then have "kind_of s' = kind_of t" by (simp add: kind_of_def)
    moreover have "unat (stack_count s') = min (unat (stack_limit reg t)) (unat (stack_count s) + unat (stack_count t))"
      using M(2,3,5) by (simp add: s')
    ultimately show ?thesis using True by simp
  next
    case False
    then show ?thesis using insert_from_other [OF assms(2), of s] I(1) by auto
  qed
  with I show ?thesis by blast
qed

theorem item_merge_conserves_witness:
  "\<exists>left s' t'. insert_from builtin_registry
       \<lparr>stack_item = 1, stack_count = 60, stack_damage = 0, components = []\<rparr>
       \<lparr>stack_item = 1, stack_count = 10, stack_damage = 0, components = []\<rparr> = Inr (left, s', t')"
proof -
  have "stack_ok builtin_registry \<lparr>stack_item = 1, stack_count = 60, stack_damage = 0, components = []\<rparr>"
    "stack_ok builtin_registry \<lparr>stack_item = 1, stack_count = 10, stack_damage = 0, components = []\<rparr>"
    by (rule stone_stack_ok; simp)+
  from item_merge_conserves [OF this] show ?thesis by blast
qed

text \<open>Wear: a valid non-empty stack of a damageable item breaks, leaving the empty stack, exactly when its damage
  and the new wear reach the item's durability, computed without wrap-around; otherwise the wear is added
  and the stack stays valid. Items without durability, and no wear, change nothing.\<close>

theorem item_wear:
  assumes "stack_ok reg s" and "\<not> is_empty s"
  shows "let durability = unat (max_damage (properties (reg ! unat (stack_item s)))) in
    \<exists>broke s'. apply_damage reg s wear = Inr (broke, s') \<and> stack_ok reg s' \<and>
      (broke \<longleftrightarrow> wear \<noteq> 0 \<and> durability \<noteq> 0 \<and> unat (stack_damage s) + unat wear \<ge> durability) \<and>
      (if broke then s' = empty_stack
       else if durability = 0 then s' = s
       else s' = s\<lparr>stack_damage := stack_damage s + wear\<rparr> \<and>
         unat (stack_damage s') = unat (stack_damage s) + unat wear)"
proof -
  define mx where "mx = unat (max_damage (properties (reg ! unat (stack_item s))))"
  note A = apply_damage_spec [OF assms, folded mx_def]
  have sum: "unat (stack_damage s + wear) = unat (stack_damage s) + unat wear"
    if "unat (stack_damage s) + unat wear < mx"
    using that unat_plus_le [of "stack_damage s" wear "max_damage (properties (reg ! unat (stack_item s)))"]
    by (simp add: mx_def)
  have ok: "stack_ok reg (s\<lparr>stack_damage := stack_damage s + wear\<rparr>)"
    if "unat (stack_damage s) + unat wear < mx"
  proof -
    have "stack_damage s + wear \<le> max_damage (properties (reg ! unat (stack_item s)))"
      using sum [OF that] that by (simp add: word_le_nat_alt mx_def)
    then show ?thesis
      using assms by (cases s) (auto simp: stack_ok_iff is_empty_def stack_limit_def empty_stack_def)
  qed
  have z: "s\<lparr>stack_damage := stack_damage s\<rparr> = s" by simp
  consider "wear = 0" | "mx = 0" | "wear \<noteq> 0" "mx \<noteq> 0" "mx \<le> unat (stack_damage s) + unat wear"
    | "wear \<noteq> 0" "mx \<noteq> 0" "unat (stack_damage s) + unat wear < mx" by linarith
  then show ?thesis
    unfolding mx_def [symmetric] Let_def
    by cases (use A assms sum ok z in \<open>auto simp: not_le\<close>)
qed

theorem item_wear_witness:
  "\<exists>broke s'. apply_damage builtin_registry
     \<lparr>stack_item = 1, stack_count = 3, stack_damage = 0, components = []\<rparr> 5 = Inr (broke, s')"
proof -
  have ok: "stack_ok builtin_registry \<lparr>stack_item = 1, stack_count = 3, stack_damage = 0, components = []\<rparr>"
    by (rule stone_stack_ok; simp)
  have "\<not> is_empty \<lparr>stack_item = 1, stack_count = 3, stack_damage = 0, components = []\<rparr>"
    by (simp add: is_empty_def)
  from item_wear [OF ok this, of 5] show ?thesis by (simp only: Let_def) blast
qed

text \<open>Loading a normalized registry keeps the registry well-formed (the id of an item is its index, names are
  unique, every item has valid properties), keeps every item it had but for its protocol id, and its
  report adds up: one entry encountered is one item loaded, appended at the end, or one existing item.\<close>

theorem item_registry_load:
  assumes "registry_ok reg" and "load_normalized_items reg input = Inr (reg', report)"
  shows "registry_ok reg' \<and> encountered report = loaded report + existing report \<and>
    length reg' = length reg + loaded report \<and> list_all2 same_item reg (take (length reg) reg')"
proof -
  from assms(2) obtain ls where
    "foldR load_item_line ls (reg, \<lparr>encountered = 0, loaded = 0, existing = 0\<rparr>) = Inr (reg', report)"
    by (auto simp: load_normalized_items_def split: list.splits if_splits)
  moreover have "load_inv reg (reg, \<lparr>encountered = 0, loaded = 0, existing = 0\<rparr>)"
    using assms(1) by (auto simp: load_inv_def list_all2_conv_all_nth same_item_def)
  ultimately have "load_inv reg (reg', report)"
    by (rule foldR_invariant) (rule load_item_line_inv)
  then show ?thesis by (simp add: load_inv_def)
qed

text \<open>The registry text of the witness: a header, one item that exists and one that is new.\<close>

definition sample_registry_text :: string where
  "sample_registry_text =
     ''MCREGISTRIES1'' @ [CHR 0x09, CHR 0x0A] @ ''I'' @ [CHR 0x09] @ ''0'' @ [CHR 0x09] @ ''stone'' @ [CHR 0x0A] @
     ''I'' @ [CHR 0x09] @ ''1'' @ [CHR 0x09] @ ''tnt'' @ [CHR 0x0A]"

definition stone_registry :: item_registry where
  "stone_registry = [\<lparr>item_index = 0, item_name = \<lparr>name_space = ''minecraft'', loc_path = ''stone''\<rparr>,
     properties = default_properties, protocol_id = None\<rparr>]"

theorem item_registry_load_witness:
  "\<exists>reg' report. load_normalized_items stone_registry sample_registry_text = Inr (reg', report) \<and>
     registry_ok reg' \<and> length reg' = 2"
proof -
  have ok: "registry_ok stone_registry"
    by (simp add: registry_ok_def stone_registry_def item_ok_def Let_def location_ok_def default_properties_def
        finite_f32_def below_zero_f32_def valid_path_character_def valid_name_space_character_def
        char_between_def byte_of_char_def)
  have r: "(case load_normalized_items stone_registry sample_registry_text of
      Inl _ \<Rightarrow> False | Inr (reg', report) \<Rightarrow> loaded report = 1)"
    by code_simp
  then obtain reg' report where l: "load_normalized_items stone_registry sample_registry_text = Inr (reg', report)"
    and "loaded report = 1" by (auto split: sum.splits)
  with item_registry_load [OF ok l] show ?thesis by (simp add: stone_registry_def)
qed

end
