(* ===== verification/Inventory.thy ===== *)
theory Inventory
  imports Item
begin

text \<open>
  Containers and the player's inventory (include/mc/inventory/inventory.hpp,
  src/inventory/inventory.cpp): slots with validation and a state counter,
  insertion in two passes, taking, and transactions.

  The registry a container points to is an argument of its operations. A slot
  validator may throw, so it has a result; in the sources it only ever sees
  stacks that were validated before.
\<close>

section \<open>Helpers\<close>

definition armor_slot_accepts :: "nat \<Rightarrow> item_stack \<Rightarrow> item_registry \<Rightarrow> bool result" where
  "armor_slot_accepts slot stack reg =
     (if is_empty stack then Inr True
      else bindR (by_id reg (stack_item stack)) (\<lambda>it.
        let path = loc_path (item_name it)
        in Inr (if slot = 0 then ends_with path ''_boots''
                else if slot = 1 then ends_with path ''_leggings''
                else if slot = 2 then ends_with path ''_chestplate'' \<or> path = ''elytra''
                else if slot = 3 then ends_with path ''_helmet'' \<or> path = ''carved_pumpkin''
                else False)))"

section \<open>Containers\<close>

type_synonym validator = "nat \<Rightarrow> item_stack \<Rightarrow> item_registry \<Rightarrow> bool result"

record container =
  slots :: "item_stack list"
  slot_validator :: "validator option"
  state_id :: u32

record slot_change =
  change_index :: nat
  change_stack :: item_stack

definition new_container :: "nat \<Rightarrow> validator option \<Rightarrow> container result" where
  "new_container slot_count v =
     (if slot_count = 0 then Inl (Invalid_Argument ''container must contain at least one slot'')
      else Inr \<lparr>slots = replicate slot_count empty_stack, slot_validator = v, state_id = 0\<rparr>)"

definition slot_count :: "container \<Rightarrow> nat" where
  "slot_count c = length (slots c)"

definition slot :: "container \<Rightarrow> nat \<Rightarrow> item_stack result" where
  "slot c i = (if i \<ge> length (slots c) then Inl (Out_Of_Range ''container slot is out of range'')
     else Inr (slots c ! i))"

text \<open>\<open>!slot_validator_ || slot_validator_(index, stack, registry)\<close>\<close>

definition accepts :: "item_registry \<Rightarrow> validator option \<Rightarrow> nat \<Rightarrow> item_stack \<Rightarrow> bool result" where
  "accepts reg v i stack = (case v of None \<Rightarrow> Inr True | Some f \<Rightarrow> f i stack reg)"

definition bump :: "container \<Rightarrow> container" where
  "bump c = c\<lparr>state_id := state_id c + 1\<rparr>"

definition set_slot :: "item_registry \<Rightarrow> container \<Rightarrow> nat \<Rightarrow> item_stack \<Rightarrow> container result" where
  "set_slot reg c i stack =
     (if i \<ge> length (slots c) then Inl (Out_Of_Range ''container slot is out of range'')
      else bindR (validate_stack reg stack) (\<lambda>_.
        bindR (accepts reg (slot_validator c) i stack) (\<lambda>ok.
          if \<not> ok then Inl (Invalid_Argument ''item is not valid for container slot'')
          else Inr (bump (c\<lparr>slots := (slots c)[i := stack]\<rparr>)))))"

text \<open>
  The two loops of \<open>insert\<close>, over the slots from index \<open>i\<close>: the first merges into
  slots of the same kind, the second fills empty slots. Each stops when the
  stack is used up and returns the slots and what is left.
\<close>

fun merge_pass :: "item_registry \<Rightarrow> validator option \<Rightarrow> nat \<Rightarrow> item_stack list \<Rightarrow> item_stack \<Rightarrow>
    (item_stack list \<times> item_stack) result" where
  "merge_pass reg v i [] stack = Inr ([], stack)"
| "merge_pass reg v i (s # ss) stack =
     bindR (accepts reg v i stack) (\<lambda>ok.
       if ok \<and> can_merge s stack
       then bindR (insert_from reg s stack) (\<lambda>(_, s, stack).
         if is_empty stack then Inr (s # ss, stack)
         else bindR (merge_pass reg v (i + 1) ss stack) (\<lambda>(ss, stack). Inr (s # ss, stack)))
       else bindR (merge_pass reg v (i + 1) ss stack) (\<lambda>(ss, stack). Inr (s # ss, stack)))"

fun fill_pass :: "item_registry \<Rightarrow> validator option \<Rightarrow> nat \<Rightarrow> item_stack list \<Rightarrow> item_stack \<Rightarrow>
    (item_stack list \<times> item_stack) result" where
  "fill_pass reg v i [] stack = Inr ([], stack)"
| "fill_pass reg v i (s # ss) stack =
     bindR (if is_empty s then accepts reg v i stack else Inr False) (\<lambda>ok.
       if ok
       then bindR (insert_from reg s stack) (\<lambda>(_, s, stack).
         if is_empty stack then Inr (s # ss, stack)
         else bindR (fill_pass reg v (i + 1) ss stack) (\<lambda>(ss, stack). Inr (s # ss, stack)))
       else bindR (fill_pass reg v (i + 1) ss stack) (\<lambda>(ss, stack). Inr (s # ss, stack)))"

definition insert_stack :: "item_registry \<Rightarrow> container \<Rightarrow> item_stack \<Rightarrow> (item_stack \<times> container) result" where
  "insert_stack reg c stack =
     bindR (validate_stack reg stack) (\<lambda>_.
       if is_empty stack then Inr (stack, c)
       else
         let initial_count = stack_count stack;
             finish = (\<lambda>stack c. Inr (stack, if stack_count stack \<noteq> initial_count then bump c else c))
         in bindR (merge_pass reg (slot_validator c) 0 (slots c) stack) (\<lambda>(ss, stack).
              if is_empty stack then finish stack (c\<lparr>slots := ss\<rparr>)
              else bindR (fill_pass reg (slot_validator c) 0 ss stack) (\<lambda>(ss, stack).
                finish stack (c\<lparr>slots := ss\<rparr>))))"

definition take_from :: "container \<Rightarrow> nat \<Rightarrow> u16 \<Rightarrow> (item_stack \<times> container) result" where
  "take_from c i n =
     (if i \<ge> length (slots c) then Inl (Out_Of_Range ''container slot is out of range'')
      else
        let (res, left) = take_stack (slots c ! i) n;
            c = c\<lparr>slots := (slots c)[i := left]\<rparr>
        in Inr (res, if is_empty res then c else bump c))"

text \<open>
  The loop of \<open>apply_transaction\<close>: \<open>None\<close> is the early \<open>return false\<close>. Only
  \<open>validate\<close> is inside the \<open>try\<close>.
\<close>

fun apply_changes :: "item_registry \<Rightarrow> validator option \<Rightarrow> slot_change list \<Rightarrow> item_stack list \<Rightarrow>
    item_stack list option result" where
  "apply_changes reg v [] updated = Inr (Some updated)"
| "apply_changes reg v (ch # chs) updated =
     (if change_index ch \<ge> length updated then Inr None
      else if \<not> is_ok (validate_stack reg (change_stack ch)) then Inr None
      else bindR (accepts reg v (change_index ch) (change_stack ch)) (\<lambda>ok.
        if \<not> ok then Inr None
        else apply_changes reg v chs (updated[change_index ch := change_stack ch])))"

definition apply_transaction :: "item_registry \<Rightarrow> container \<Rightarrow> u32 \<Rightarrow> slot_change list \<Rightarrow> (bool \<times> container) result" where
  "apply_transaction reg c expected_state_id changes =
     (if expected_state_id \<noteq> state_id c then Inr (False, c)
      else bindR (apply_changes reg (slot_validator c) changes (slots c)) (\<lambda>r. case r of
          None \<Rightarrow> Inr (False, c)
        | Some updated \<Rightarrow>
            if updated = slots c then Inr (True, c)
            else Inr (True, bump (c\<lparr>slots := updated\<rparr>))))"

record inventory =
  main_slots :: container
  armor :: container
  offhand :: container
  ender_chest :: container
  cursor :: item_stack

definition new_inventory :: "inventory result" where
  "new_inventory =
     bindR (new_container 36 None) (\<lambda>main.
       bindR (new_container 4 (Some armor_slot_accepts)) (\<lambda>arm.
         bindR (new_container 1 None) (\<lambda>off.
           bindR (new_container 27 None) (\<lambda>ender.
             Inr \<lparr>main_slots = main, armor = arm, offhand = off, ender_chest = ender,
                  cursor = empty_stack\<rparr>))))"

definition set_cursor :: "item_registry \<Rightarrow> inventory \<Rightarrow> item_stack \<Rightarrow> inventory result" where
  "set_cursor reg own stack = bindR (validate_stack reg stack) (\<lambda>_. Inr (own\<lparr>cursor := stack\<rparr>))"

section \<open>Containers: validity and conservation\<close>

definition all_ok :: "item_registry \<Rightarrow> item_stack list \<Rightarrow> bool" where
  "all_ok reg ss = (\<forall>s \<in> set ss. stack_ok reg s)"

definition container_ok :: "item_registry \<Rightarrow> container \<Rightarrow> bool" where
  "container_ok reg c = (slots c \<noteq> [] \<and> all_ok reg (slots c))"

definition total :: "item_kind \<Rightarrow> item_stack list \<Rightarrow> nat" where
  "total k ss = sum_list (map (amount k) ss)"

definition held :: "item_kind \<Rightarrow> container \<Rightarrow> nat" where
  "held k c = total k (slots c)"

definition total_validator :: "item_registry \<Rightarrow> validator option \<Rightarrow> bool" where
  "total_validator reg v = (\<forall>i s. stack_ok reg s \<longrightarrow> is_ok (accepts reg v i s))"

lemma total_simps [simp]: "total k [] = 0" "total k (s # ss) = amount k s + total k ss"
  by (simp_all add: total_def)

lemma total_update:
  "i < length ss \<Longrightarrow> total k (ss[i := s]) + amount k (ss ! i) = total k ss + amount k s"
  by (induction ss arbitrary: i) (auto split: nat.splits)

lemma all_ok_simps [simp]: "all_ok reg []" "all_ok reg (s # ss) \<longleftrightarrow> stack_ok reg s \<and> all_ok reg ss"
  by (auto simp: all_ok_def)

lemma all_ok_update: "all_ok reg ss \<Longrightarrow> stack_ok reg s \<Longrightarrow> all_ok reg (ss[i := s])"
  by (auto simp: all_ok_def dest!: set_update_subset_insert [THEN subsetD])

lemma all_ok_nth: "all_ok reg ss \<Longrightarrow> i < length ss \<Longrightarrow> stack_ok reg (ss ! i)"
  by (simp add: all_ok_def)

lemma total_validator_None [simp]: "total_validator reg None"
  by (simp add: total_validator_def accepts_def)

lemma total_validator_armor: "total_validator reg (Some armor_slot_accepts)"
  by (auto simp: total_validator_def accepts_def armor_slot_accepts_def stack_ok_iff by_id_def Let_def)

text \<open>What a pass of \<open>insert\<close> over the slots guarantees.\<close>

definition pass_ok :: "item_registry \<Rightarrow> item_stack list \<Rightarrow> item_stack \<Rightarrow> item_stack list \<Rightarrow> item_stack \<Rightarrow> bool" where
  "pass_ok reg ss st ss' st' = (length ss' = length ss \<and> all_ok reg ss' \<and> stack_ok reg st' \<and>
     (\<forall>k. total k ss' + amount k st' = total k ss + amount k st) \<and>
     (is_empty st' \<or> kind_of st' = kind_of st) \<and> unat (stack_count st') \<le> unat (stack_count st))"

lemma pass_stay: "all_ok reg ss \<Longrightarrow> stack_ok reg st \<Longrightarrow> pass_ok reg ss st ss st"
  by (simp add: pass_ok_def)

lemma pass_skip: "stack_ok reg s \<Longrightarrow> pass_ok reg ss st ss' st' \<Longrightarrow> pass_ok reg (s # ss) st (s # ss') st'"
  by (auto simp: pass_ok_def add.assoc)

lemma pass_trans: "pass_ok reg ss st ss1 st1 \<Longrightarrow> pass_ok reg ss1 st1 ss2 st2 \<Longrightarrow> pass_ok reg ss st ss2 st2"
  by (auto simp: pass_ok_def is_empty_def unat_eq_0)

lemma pass_insert:
  assumes "insert_from reg s st = Inr (n, s', st1)" and "stack_ok reg s" and "stack_ok reg st" and "all_ok reg ss"
  shows "pass_ok reg (s # ss) st (s' # ss) st1" and "stack_ok reg s'" and "stack_ok reg st1"
    and "is_empty st1 \<or> \<not> can_merge s' st1 \<or> stack_count s' = stack_limit reg s'"
    and "is_empty s' \<Longrightarrow> is_empty st1"
proof -
  note S = insert_from_spec [OF assms(2,3)]
  from S assms(1) show "stack_ok reg s'" "stack_ok reg st1" by auto
  from S assms(1) have t: "amount k s' + amount k st1 = amount k s + amount k st" for k by auto
  have "amount k s' + total k ss + amount k st1 = amount k s + total k ss + amount k st" for k
    using t [of k] by simp
  with S assms(1,4) show "pass_ok reg (s # ss) st (s' # ss) st1"
    unfolding pass_ok_def by auto
  from S assms(1) show "is_empty st1 \<or> \<not> can_merge s' st1 \<or> stack_count s' = stack_limit reg s'" by auto
  from S assms(1) show "is_empty s' \<Longrightarrow> is_empty st1" by auto
qed

lemma insert_from_total:
  "stack_ok reg s \<Longrightarrow> stack_ok reg t \<Longrightarrow> \<exists>n s' t'. insert_from reg s t = Inr (n, s', t')"
  using insert_from_spec [of reg s t] by blast

lemma merge_pass_ok:
  assumes "all_ok reg ss" and "stack_ok reg st" and "merge_pass reg v i ss st = Inr (ss', st')"
  shows "pass_ok reg ss st ss' st'"
  using assms
proof (induction reg v i ss st arbitrary: ss' st' rule: merge_pass.induct)
  case (1 reg v i st)
  then show ?case by (simp add: pass_stay)
next
  case (2 reg v i s ss st)
  from 2(5) obtain ok where a: "accepts reg v i st = Inr ok" by (auto simp: bindR_Inr_iff)
  show ?case
  proof (cases "ok \<and> can_merge s st")
    case True
    obtain n s1 st1 where f: "insert_from reg s st = Inr (n, s1, st1)"
      using insert_from_total [of reg s st] 2(3,4) by auto
    have "all_ok reg ss" using 2(3) by simp
    note P = pass_insert [OF f _ 2(4) this]
    show ?thesis
    proof (cases "is_empty st1")
      case True
      with 2(5) a f \<open>ok \<and> can_merge s st\<close> P 2(3) show ?thesis by auto
    next
      case False
      with 2(5) a f True obtain ss1 where r: "merge_pass reg v (i + 1) ss st1 = Inr (ss1, st')"
        and "ss' = s1 # ss1" by (auto simp: bindR_Inr_iff)
      have "pass_ok reg ss st1 ss1 st'"
        using P 2(3) by (intro 2(1) [OF a True f refl refl False _ _ r]) auto
      then have "pass_ok reg (s1 # ss) st1 (s1 # ss1) st'" using P 2(3) by (intro pass_skip) auto
      with P 2(3) \<open>ss' = s1 # ss1\<close> show ?thesis by (auto intro: pass_trans)
    qed
  next
    case False
    with 2(5) a obtain ss1 where r: "merge_pass reg v (i + 1) ss st = Inr (ss1, st')" and "ss' = s # ss1"
      by (auto simp: bindR_Inr_iff split: if_splits)
    with 2(2) [OF a False _ 2(4) r] 2(3) show ?thesis by (auto intro: pass_skip)
  qed
qed

lemma fill_pass_ok:
  assumes "all_ok reg ss" and "stack_ok reg st" and "fill_pass reg v i ss st = Inr (ss', st')"
  shows "pass_ok reg ss st ss' st'"
  using assms
proof (induction reg v i ss st arbitrary: ss' st' rule: fill_pass.induct)
  case (1 reg v i st)
  then show ?case by (simp add: pass_stay)
next
  case (2 reg v i s ss st)
  from 2(5) obtain ok where a: "(if is_empty s then accepts reg v i st else Inr False) = Inr ok"
    by (auto simp: bindR_Inr_iff)
  show ?case
  proof (cases ok)
    case True
    obtain n s1 st1 where f: "insert_from reg s st = Inr (n, s1, st1)"
      using insert_from_total [of reg s st] 2(3,4) by auto
    have "all_ok reg ss" using 2(3) by simp
    note P = pass_insert [OF f _ 2(4) this]
    show ?thesis
    proof (cases "is_empty st1")
      case True
      with 2(5) a f \<open>ok\<close> P 2(3) show ?thesis by auto
    next
      case False
      with 2(5) a f True obtain ss1 where r: "fill_pass reg v (i + 1) ss st1 = Inr (ss1, st')"
        and "ss' = s1 # ss1" by (auto simp: bindR_Inr_iff)
      have "pass_ok reg ss st1 ss1 st'"
        using P 2(3) by (intro 2(1) [OF a True f refl refl False _ _ r]) auto
      then have "pass_ok reg (s1 # ss) st1 (s1 # ss1) st'" using P 2(3) by (intro pass_skip) auto
      with P 2(3) \<open>ss' = s1 # ss1\<close> show ?thesis by (auto intro: pass_trans)
    qed
  next
    case False
    with 2(5) a obtain ss1 where r: "fill_pass reg v (i + 1) ss st = Inr (ss1, st')" and "ss' = s # ss1"
      by (auto simp: bindR_Inr_iff split: if_splits)
    with 2(2) [OF a False _ 2(4) r] 2(3) show ?thesis by (auto intro: pass_skip)
  qed
qed

lemma passes_total:
  assumes "total_validator reg v" and "all_ok reg ss" and "stack_ok reg st"
  shows "is_ok (merge_pass reg v i ss st)" and "is_ok (fill_pass reg v i ss st)"
proof -
  have step: "\<exists>n s' t'. insert_from reg s t = Inr (n, s', t') \<and> stack_ok reg t'" if "stack_ok reg s" "stack_ok reg t" for s t
    using insert_from_spec [OF that] by blast
  have acc: "\<exists>b. accepts reg v i s = Inr b" if "stack_ok reg s" for i s
    using assms(1) that by (auto simp: total_validator_def is_ok_iff)
  show "is_ok (merge_pass reg v i ss st)"
    using assms(2,3)
  proof (induction ss arbitrary: i st)
    case (Cons s ss)
    with acc [of st i] step [of s st] show ?case
      by (auto simp: is_ok_iff bindR_Inr_iff split_beta split: if_splits) (metis surj_pair)+
  qed simp
  show "is_ok (fill_pass reg v i ss st)"
    using assms(2,3)
  proof (induction ss arbitrary: i st)
    case (Cons s ss)
    with acc [of st i] step [of s st] show ?case
      by (auto simp: is_ok_iff bindR_Inr_iff split_beta split: if_splits) (metis surj_pair)+
  qed simp
qed

section \<open>Container operations\<close>

lemma bump_facts [simp]:
  "slots (bump c) = slots c" "slot_validator (bump c) = slot_validator c" "state_id (bump c) = state_id c + 1"
  "slots (if b then bump c else c) = slots c" "slot_validator (if b then bump c else c) = slot_validator c"
  by (simp_all add: bump_def)

definition full_for :: "item_registry \<Rightarrow> item_kind \<Rightarrow> item_stack \<Rightarrow> bool" where
  "full_for reg k s = (is_empty s \<or> kind_of s \<noteq> k \<or> stack_count s = stack_limit reg s)"

lemma can_merge_full: "\<not> is_empty st \<Longrightarrow> \<not> can_merge s st \<Longrightarrow> full_for reg (kind_of st) s"
  by (auto simp: can_merge_iff full_for_def)

lemma pass_insert_full:
  assumes "insert_from reg s st = Inr (n, s', st1)" and "stack_ok reg s" and "stack_ok reg st" and "\<not> is_empty st1"
  shows "full_for reg (kind_of st1) s'" and "\<not> is_empty s'" and "kind_of st1 = kind_of st"
proof -
  note S = insert_from_spec [OF assms(2,3)]
  with assms(1,4) show "\<not> is_empty s'" "kind_of st1 = kind_of st" by auto
  from S assms(1,4) have "\<not> can_merge s' st1 \<or> stack_count s' = stack_limit reg s'" by auto
  then show "full_for reg (kind_of st1) s'"
    using assms(4) by (auto simp: can_merge_iff full_for_def)
qed

text \<open>
  A validator that looks only at the kind of a stack. With such a validator what
  is left after the first pass finds no room in a slot of its kind that accepts
  it (\<open>kind_full\<close>), and after the second pass no empty one either (\<open>slot_used\<close>).
\<close>

definition kind_validator :: "item_registry \<Rightarrow> validator option \<Rightarrow> bool" where
  "kind_validator reg v = (\<forall>i s t. \<not> is_empty s \<and> \<not> is_empty t \<and> kind_of s = kind_of t \<longrightarrow>
     accepts reg v i s = accepts reg v i t)"

definition indexed :: "(nat \<Rightarrow> 'a \<Rightarrow> bool) \<Rightarrow> nat \<Rightarrow> 'a list \<Rightarrow> bool" where
  "indexed Q i xs = (\<forall>j < length xs. Q (i + j) (xs ! j))"

lemma indexed_simps [simp]:
  "indexed Q i []"
  "indexed Q i (x # xs) \<longleftrightarrow> Q i x \<and> indexed Q (Suc i) xs"
  by (auto simp: indexed_def nth_Cons split: nat.splits)

definition kind_full :: "item_registry \<Rightarrow> validator option \<Rightarrow> item_stack \<Rightarrow> nat \<Rightarrow> item_stack \<Rightarrow> bool" where
  "kind_full reg v r i s = (accepts reg v i r = Inr True \<longrightarrow> full_for reg (kind_of r) s)"

definition slot_used :: "item_registry \<Rightarrow> validator option \<Rightarrow> item_stack \<Rightarrow> nat \<Rightarrow> item_stack \<Rightarrow> bool" where
  "slot_used reg v r i s = (accepts reg v i r = Inr True \<longrightarrow> \<not> is_empty s \<and> full_for reg (kind_of r) s)"

lemma merge_pass_kind_full:
  assumes "kind_validator reg v" and "\<not> is_empty r" and "all_ok reg ss" and "stack_ok reg st"
    and "merge_pass reg v i ss st = Inr (ss', st')" and "\<not> is_empty st'" and "kind_of st = kind_of r"
  shows "kind_of st' = kind_of r \<and> \<not> is_empty st \<and> indexed (kind_full reg v r) i ss'"
  using assms(3-)
proof (induction ss arbitrary: i st ss')
  case (Cons s ss)
  have ne: "\<not> is_empty st"
    using merge_pass_ok [OF Cons.prems(1-3)] Cons.prems(4) by (auto simp: pass_ok_def is_empty_def unat_eq_0)
  have same: "accepts reg v i r = accepts reg v i st"
    using assms(1,2) ne Cons.prems(5) unfolding kind_validator_def by metis
  from Cons.prems(3) obtain ok where a: "accepts reg v i st = Inr ok" by (auto simp: bindR_Inr_iff)
  have ok: "stack_ok reg s" "all_ok reg ss" using Cons.prems(1) by simp_all
  show ?case
  proof (cases "ok \<and> can_merge s st")
    case True
    obtain n s1 st1 where f: "insert_from reg s st = Inr (n, s1, st1)"
      using insert_from_total [OF ok(1) Cons.prems(2)] by auto
    with Cons.prems(3,4) True a have ne1: "\<not> is_empty st1" by (auto split: if_splits)
    with Cons.prems(3) True f a obtain ss1 where r: "merge_pass reg v (Suc i) ss st1 = Inr (ss1, st')"
      and "ss' = s1 # ss1" by (auto simp: bindR_Inr_iff)
    note P = pass_insert_full [OF f ok(1) Cons.prems(2) ne1]
    from Cons.IH [OF ok(2) pass_insert(3) [OF f ok(1) Cons.prems(2) ok(2)] r Cons.prems(4)] P ne Cons.prems(5)
      \<open>ss' = s1 # ss1\<close>
    show ?thesis by (auto simp: kind_full_def)
  next
    case False
    with Cons.prems(3) a obtain ss1 where r: "merge_pass reg v (Suc i) ss st = Inr (ss1, st')" and "ss' = s # ss1"
      by (auto simp: bindR_Inr_iff split: if_splits)
    moreover have "kind_full reg v r i s"
      using can_merge_full [OF ne, of s reg] False a Cons.prems(5) by (auto simp: kind_full_def same)
    ultimately show ?thesis
      using Cons.IH [OF ok(2) Cons.prems(2) r Cons.prems(4,5)] by simp
  qed
qed simp

lemma fill_pass_slot_used:
  assumes "kind_validator reg v" and "\<not> is_empty r" and "all_ok reg ss" and "stack_ok reg st"
    and "fill_pass reg v i ss st = Inr (ss', st')" and "\<not> is_empty st'" and "kind_of st = kind_of r"
    and "indexed (kind_full reg v r) i ss"
  shows "kind_of st' = kind_of r \<and> indexed (slot_used reg v r) i ss'"
  using assms(3-)
proof (induction ss arbitrary: i st ss')
  case (Cons s ss)
  have ne: "\<not> is_empty st"
    using fill_pass_ok [OF Cons.prems(1-3)] Cons.prems(4) by (auto simp: pass_ok_def is_empty_def unat_eq_0)
  have same: "accepts reg v i r = accepts reg v i st"
    using assms(1,2) ne Cons.prems(5) unfolding kind_validator_def by metis
  from Cons.prems(3) obtain ok where a: "(if is_empty s then accepts reg v i st else Inr False) = Inr ok"
    by (auto simp: bindR_Inr_iff)
  have ok: "stack_ok reg s" "all_ok reg ss" using Cons.prems(1) by simp_all
  show ?case
  proof (cases ok)
    case True
    obtain n s1 st1 where f: "insert_from reg s st = Inr (n, s1, st1)"
      using insert_from_total [OF ok(1) Cons.prems(2)] by auto
    with Cons.prems(3,4) True a have ne1: "\<not> is_empty st1" by (auto split: if_splits)
    with Cons.prems(3) True f a obtain ss1 where r: "fill_pass reg v (Suc i) ss st1 = Inr (ss1, st')"
      and "ss' = s1 # ss1" by (auto simp: bindR_Inr_iff)
    note P = pass_insert_full [OF f ok(1) Cons.prems(2) ne1]
    from Cons.IH [OF ok(2) pass_insert(3) [OF f ok(1) Cons.prems(2) ok(2)] r Cons.prems(4)] P Cons.prems(5,6)
      \<open>ss' = s1 # ss1\<close>
    show ?thesis by (auto simp: slot_used_def)
  next
    case False
    with Cons.prems(3) a obtain ss1 where r: "fill_pass reg v (Suc i) ss st = Inr (ss1, st')" and "ss' = s # ss1"
      by (auto simp: bindR_Inr_iff)
    moreover have "slot_used reg v r i s"
      using Cons.prems(6) False a by (auto simp: kind_full_def slot_used_def same split: if_splits)
    ultimately show ?thesis
      using Cons.IH [OF ok(2) Cons.prems(2) r Cons.prems(4,5)] Cons.prems(6) by simp
  qed
qed simp

lemma insert_stack_spec:
  assumes c: "container_ok reg c" and s: "stack_ok reg s" and v: "total_validator reg (slot_validator c)"
  shows "\<exists>left c'. insert_stack reg c s = Inr (left, c') \<and> stack_ok reg left \<and> container_ok reg c' \<and>
    length (slots c') = length (slots c) \<and> slot_validator c' = slot_validator c \<and>
    (\<forall>k. held k c' + amount k left = held k c + amount k s) \<and>
    (is_empty left \<or> kind_of left = kind_of s) \<and>
    (kind_validator reg (slot_validator c) \<and> \<not> is_empty left \<longrightarrow>
      indexed (slot_used reg (slot_validator c) left) 0 (slots c')) \<and>
    state_id c' = (if stack_count left \<noteq> stack_count s then state_id c + 1 else state_id c)"
proof (cases "is_empty s")
  case True
  with s c show ?thesis by (auto simp: insert_stack_def stack_ok_def)
next
  case False
  have ok: "all_ok reg (slots c)" "slots c \<noteq> []" using c by (simp_all add: container_ok_def)
  from passes_total(1) [OF v ok(1) s, of 0] obtain ss1 st1 where
    m: "merge_pass reg (slot_validator c) 0 (slots c) s = Inr (ss1, st1)" by (auto simp: is_ok_iff)
  note M = merge_pass_ok [OF ok(1) s m, unfolded pass_ok_def]
  have V: "validate_stack reg s = Inr ()" using s by (simp add: stack_ok_def)
  show ?thesis
  proof (cases "is_empty st1")
    case True
    with M m V False ok show ?thesis
      by (auto simp: insert_stack_def Let_def container_ok_def held_def)
  next
    case ne: False
    from M have ok1: "all_ok reg ss1" "stack_ok reg st1" by simp_all
    from passes_total(2) [OF v ok1, of 0] obtain ss2 st2 where
      f: "fill_pass reg (slot_validator c) 0 ss1 st1 = Inr (ss2, st2)" by (auto simp: is_ok_iff)
    note F = fill_pass_ok [OF ok1 f]
    have P: "pass_ok reg (slots c) s ss2 st2"
      using pass_trans [OF merge_pass_ok [OF ok(1) s m] F] .
    have full: "indexed (slot_used reg (slot_validator c) st2) 0 ss2"
      if k: "kind_validator reg (slot_validator c)" and left: "\<not> is_empty st2"
    proof -
      have "kind_of s = kind_of st2" using P left by (auto simp: pass_ok_def)
      note T = merge_pass_kind_full [OF k left ok(1) s m ne this]
      then show ?thesis
        using fill_pass_slot_used [OF k left ok1 f left] by simp
    qed
    from P f m V False ne ok full show ?thesis
      by (auto simp: insert_stack_def Let_def container_ok_def held_def pass_ok_def)
  qed
qed

lemma insert_stack_partial:
  assumes c: "container_ok reg c" and i: "insert_stack reg c s = Inr (left, c')"
  shows "container_ok reg c' \<and> stack_ok reg left \<and> (\<forall>k. held k c' + amount k left = held k c + amount k s)"
proof -
  have s: "stack_ok reg s" using i by (auto simp: insert_stack_def stack_ok_def bindR_Inr_iff)
  have ok: "all_ok reg (slots c)" "slots c \<noteq> []" using c by (simp_all add: container_ok_def)
  show ?thesis
  proof (cases "is_empty s")
    case True
    with i s c show ?thesis by (auto simp: insert_stack_def stack_ok_def)
  next
    case False
    with i s obtain ss1 st1 where m: "merge_pass reg (slot_validator c) 0 (slots c) s = Inr (ss1, st1)"
      by (auto simp: insert_stack_def stack_ok_def Let_def bindR_Inr_iff)
    note M = merge_pass_ok [OF ok(1) s m]
    show ?thesis
    proof (cases "is_empty st1")
      case True
      with i s m False M ok show ?thesis
        by (auto simp: insert_stack_def stack_ok_def Let_def container_ok_def held_def pass_ok_def)
    next
      case ne: False
      with i s m False obtain ss2 st2 where f: "fill_pass reg (slot_validator c) 0 ss1 st1 = Inr (ss2, st2)"
        by (auto simp: insert_stack_def stack_ok_def Let_def bindR_Inr_iff)
      from M have ok1: "all_ok reg ss1" "stack_ok reg st1" by (simp_all add: pass_ok_def)
      from pass_trans [OF M fill_pass_ok [OF ok1 f]] i s m f False ne ok show ?thesis
        by (auto simp: insert_stack_def stack_ok_def Let_def container_ok_def held_def pass_ok_def)
    qed
  qed
qed

lemma take_from_spec:
  assumes "container_ok reg c" and "take_from c i n = Inr (s, c')"
  shows "container_ok reg c'" and "stack_ok reg s" and "held k c' + amount k s = held k c"
    and "i < length (slots c)" and "unat (stack_count s) = min (unat n) (unat (stack_count (slots c ! i)))"
    and "slots c' = (slots c)[i := snd (take_stack (slots c ! i) n)]" and "slot_validator c' = slot_validator c"
proof -
  obtain r l where t: "take_stack (slots c ! i) n = (r, l)" by (cases "take_stack (slots c ! i) n")
  from assms(2) t show i: "i < length (slots c)"
    by (auto simp: take_from_def split: if_splits)
  have s: "s = r" and sl: "slots c' = (slots c)[i := l]" and "slot_validator c' = slot_validator c"
    using assms(2) i t by (auto simp: take_from_def Let_def bump_def split: if_splits)
  then show "slot_validator c' = slot_validator c" "slots c' = (slots c)[i := snd (take_stack (slots c ! i) n)]"
    by (simp_all add: t)
  have ok: "stack_ok reg (slots c ! i)" using assms(1) i by (auto simp: container_ok_def all_ok_nth)
  note T = take_stack_spec [OF ok t]
  show "stack_ok reg s" "unat (stack_count s) = min (unat n) (unat (stack_count (slots c ! i)))"
    using T s by simp_all
  show "container_ok reg c'"
    using assms(1) T by (auto simp: container_ok_def sl all_ok_update)
  show "held k c' + amount k s = held k c"
    using total_update [OF i, of k l] T(4) [of k] by (simp add: held_def sl s)
qed

section \<open>What the validator guarantees\<close>

text \<open>With a validator that looks only at the kind of a stack every non-empty slot always holds a stack it accepts there.\<close>

definition accepted :: "item_registry \<Rightarrow> validator option \<Rightarrow> nat \<Rightarrow> item_stack list \<Rightarrow> bool" where
  "accepted reg v i ss = (\<forall>j < length ss. is_empty (ss ! j) \<or> accepts reg v (i + j) (ss ! j) = Inr True)"

lemma accepted_Nil [simp]: "accepted reg v i []"
  by (simp add: accepted_def)

lemma accepted_Cons [simp]:
  "accepted reg v i (s # ss) \<longleftrightarrow> (is_empty s \<or> accepts reg v i s = Inr True) \<and> accepted reg v (Suc i) ss"
proof
  assume a: "accepted reg v i (s # ss)"
  then have "is_empty (ss ! j) \<or> accepts reg v (Suc i + j) (ss ! j) = Inr True" if "j < length ss" for j
    using that unfolding accepted_def by (auto dest!: spec [of _ "Suc j"])
  with a show "(is_empty s \<or> accepts reg v i s = Inr True) \<and> accepted reg v (Suc i) ss"
    unfolding accepted_def by (auto dest: spec [of _ 0])
next
  assume "(is_empty s \<or> accepts reg v i s = Inr True) \<and> accepted reg v (Suc i) ss"
  then show "accepted reg v i (s # ss)"
    unfolding accepted_def by (auto simp: nth_Cons split: nat.splits)
qed

lemma kind_validator_armor: "kind_validator reg (Some armor_slot_accepts)"
  by (auto simp: kind_validator_def accepts_def armor_slot_accepts_def kind_of_def)

lemma kind_validator_None: "kind_validator reg None"
  by (simp add: kind_validator_def accepts_def)

lemma insert_from_kind:
  assumes "insert_from reg s t = Inr (n, s', t')" and "stack_ok reg s" and "stack_ok reg t" and "\<not> is_empty t"
  shows "s' = s \<or> kind_of s' = kind_of t"
proof (cases "is_empty s \<or> can_merge s t")
  case True
  from insert_from_merge(1) [OF assms(2-4) this] assms(1) show ?thesis
    by (auto simp: kind_of_def)
next
  case False
  with insert_from_other [OF assms(3), of s] assms(1,4) show ?thesis by simp
qed

lemma accepted_kind:
  assumes "kind_validator reg v" and "accepts reg v i st = Inr True" and "\<not> is_empty st"
    and "s' = s \<or> kind_of s' = kind_of st" and "is_empty s \<or> accepts reg v i s = Inr True"
  shows "is_empty s' \<or> accepts reg v i s' = Inr True"
  using assms unfolding kind_validator_def by metis

lemma merge_pass_accepted:
  assumes "kind_validator reg v" and "all_ok reg ss" and "stack_ok reg st" and "\<not> is_empty st"
    and "merge_pass reg v i ss st = Inr (ss', st')" and "accepted reg v i ss"
  shows "accepted reg v i ss'"
  using assms(2-)
proof (induction ss arbitrary: i st ss')
  case (Cons s ss)
  from Cons.prems(4) obtain ok where a: "accepts reg v i st = Inr ok" by (auto simp: bindR_Inr_iff)
  have oks: "stack_ok reg s" "all_ok reg ss" and acc: "accepted reg v (i + 1) ss"
    and head: "is_empty s \<or> accepts reg v i s = Inr True"
    using Cons.prems(1,5) by simp_all
  show ?case
  proof (cases "ok \<and> can_merge s st")
    case True
    obtain n s1 st1 where f: "insert_from reg s st = Inr (n, s1, st1)"
      using insert_from_total [OF oks(1) Cons.prems(2)] by auto
    note P = pass_insert [OF f oks(1) Cons.prems(2) oks(2)]
    have h: "is_empty s1 \<or> accepts reg v i s1 = Inr True"
      using accepted_kind [OF assms(1) _ Cons.prems(3) insert_from_kind [OF f oks(1) Cons.prems(2,3)] head] a True
      by simp
    show ?thesis
    proof (cases "is_empty st1")
      case True
      with Cons.prems(4) a f \<open>ok \<and> can_merge s st\<close> h acc show ?thesis by auto
    next
      case False
      with Cons.prems(4) a f True obtain ss1 where r: "merge_pass reg v (i + 1) ss st1 = Inr (ss1, st')"
        and "ss' = s1 # ss1" by (auto simp: bindR_Inr_iff)
      with Cons.IH [OF oks(2) P(3) False r acc] h show ?thesis by simp
    qed
  next
    case False
    with Cons.prems(4) a obtain ss1 where r: "merge_pass reg v (i + 1) ss st = Inr (ss1, st')" and "ss' = s # ss1"
      by (auto simp: bindR_Inr_iff split: if_splits)
    with Cons.IH [OF oks(2) Cons.prems(2,3) r acc] head show ?thesis by simp
  qed
qed simp

lemma fill_pass_accepted:
  assumes "kind_validator reg v" and "all_ok reg ss" and "stack_ok reg st" and "\<not> is_empty st"
    and "fill_pass reg v i ss st = Inr (ss', st')" and "accepted reg v i ss"
  shows "accepted reg v i ss'"
  using assms(2-)
proof (induction ss arbitrary: i st ss')
  case (Cons s ss)
  from Cons.prems(4) obtain ok where a: "(if is_empty s then accepts reg v i st else Inr False) = Inr ok"
    by (auto simp: bindR_Inr_iff)
  have oks: "stack_ok reg s" "all_ok reg ss" and acc: "accepted reg v (i + 1) ss"
    and head: "is_empty s \<or> accepts reg v i s = Inr True"
    using Cons.prems(1,5) by simp_all
  show ?case
  proof (cases ok)
    case True
    obtain n s1 st1 where f: "insert_from reg s st = Inr (n, s1, st1)"
      using insert_from_total [OF oks(1) Cons.prems(2)] by auto
    note P = pass_insert [OF f oks(1) Cons.prems(2) oks(2)]
    have h: "is_empty s1 \<or> accepts reg v i s1 = Inr True"
      using accepted_kind [OF assms(1) _ Cons.prems(3) insert_from_kind [OF f oks(1) Cons.prems(2,3)] head] a True
      by (simp split: if_splits)
    show ?thesis
    proof (cases "is_empty st1")
      case True
      with Cons.prems(4) a f \<open>ok\<close> h acc show ?thesis by auto
    next
      case False
      with Cons.prems(4) a f True obtain ss1 where r: "fill_pass reg v (i + 1) ss st1 = Inr (ss1, st')"
        and "ss' = s1 # ss1" by (auto simp: bindR_Inr_iff)
      with Cons.IH [OF oks(2) P(3) False r acc] h show ?thesis by simp
    qed
  next
    case False
    with Cons.prems(4) a obtain ss1 where r: "fill_pass reg v (i + 1) ss st = Inr (ss1, st')" and "ss' = s # ss1"
      by (auto simp: bindR_Inr_iff split: if_splits)
    with Cons.IH [OF oks(2) Cons.prems(2,3) r acc] head show ?thesis by simp
  qed
qed simp

section \<open>The container as a state machine\<close>

inductive container_step :: "item_registry \<Rightarrow> container \<Rightarrow> container \<Rightarrow> bool" for reg where
  step_set: "set_slot reg c i s = Inr c' \<Longrightarrow> container_step reg c c'"
| step_insert: "insert_stack reg c s = Inr (left, c') \<Longrightarrow> container_step reg c c'"
| step_take: "take_from c i n = Inr (s, c') \<Longrightarrow> container_step reg c c'"
| step_transaction: "apply_transaction reg c e chs = Inr (b, c') \<Longrightarrow> container_step reg c c'"

inductive reachable_container :: "item_registry \<Rightarrow> nat \<Rightarrow> validator option \<Rightarrow> container \<Rightarrow> bool" for reg n v where
  reach_new: "new_container n v = Inr c \<Longrightarrow> reachable_container reg n v c"
| reach_step: "reachable_container reg n v c \<Longrightarrow> container_step reg c c' \<Longrightarrow> reachable_container reg n v c'"

inductive_cases container_stepE: "container_step reg c c'"

definition container_inv :: "item_registry \<Rightarrow> nat \<Rightarrow> validator option \<Rightarrow> container \<Rightarrow> bool" where
  "container_inv reg n v c = (container_ok reg c \<and> length (slots c) = n \<and> slot_validator c = v \<and>
     accepted reg v 0 (slots c))"

lemma accepted_update:
  "accepted reg v 0 ss \<Longrightarrow> is_empty s \<or> accepts reg v i s = Inr True \<Longrightarrow> accepted reg v 0 (ss[i := s])"
  unfolding accepted_def
proof (intro allI impI, goal_cases)
  case (1 j)
  then show ?case by (cases "j = i") auto
qed

lemma container_ok_update: "container_ok reg c \<Longrightarrow> stack_ok reg s \<Longrightarrow> container_ok reg (c\<lparr>slots := (slots c)[i := s]\<rparr>)"
  by (auto simp: container_ok_def all_ok_update)

lemma container_ok_bump [simp]: "container_ok reg (bump c) = container_ok reg c"
  by (simp add: container_ok_def)

lemma inv_set_slot:
  assumes "container_inv reg n v c" and "set_slot reg c i s = Inr c'"
  shows "container_inv reg n v c'"
  using assms
  by (auto simp: container_inv_def set_slot_def bindR_Inr_iff stack_ok_def accepted_update
      container_ok_update split: if_splits)

lemma inv_insert:
  assumes "container_inv reg n v c" and "kind_validator reg v" and i: "insert_stack reg c s = Inr (left, c')"
  shows "container_inv reg n v c'"
proof -
  have s: "stack_ok reg s" using i by (auto simp: insert_stack_def stack_ok_def bindR_Inr_iff)
  have c: "container_ok reg c" "all_ok reg (slots c)" "slot_validator c = v" "accepted reg v 0 (slots c)"
      "length (slots c) = n"
    using assms(1) by (simp_all add: container_inv_def container_ok_def)
  note ok' = insert_stack_partial [OF c(1) i]
  show ?thesis
  proof (cases "is_empty s")
    case True
    with i s assms(1) show ?thesis by (auto simp: insert_stack_def stack_ok_def)
  next
    case False
    with i s c obtain ss1 st1 where m: "merge_pass reg v 0 (slots c) s = Inr (ss1, st1)"
      by (auto simp: insert_stack_def stack_ok_def Let_def bindR_Inr_iff)
    note M = merge_pass_ok [OF c(2) s m, unfolded pass_ok_def]
    note A = merge_pass_accepted [OF assms(2) c(2) s False m c(4)]
    show ?thesis
    proof (cases "is_empty st1")
      case True
      with i s m False M A c ok' show ?thesis
        by (auto simp: insert_stack_def stack_ok_def Let_def container_inv_def)
    next
      case ne: False
      with i s m False c obtain ss2 st2 where f: "fill_pass reg v 0 ss1 st1 = Inr (ss2, st2)"
        by (auto simp: insert_stack_def stack_ok_def Let_def bindR_Inr_iff)
      from M have ok1: "all_ok reg ss1" "stack_ok reg st1" by simp_all
      from fill_pass_ok [OF ok1 f] M have l: "length ss2 = n" by (simp add: pass_ok_def c)
      from fill_pass_accepted [OF assms(2) ok1 ne f A] i s m f False ne c ok' l show ?thesis
        by (auto simp: insert_stack_def stack_ok_def Let_def container_inv_def)
    qed
  qed
qed

lemma inv_take:
  assumes "container_inv reg n v c" and "kind_validator reg v" and t: "take_from c i m = Inr (s, c')"
  shows "container_inv reg n v c'"
proof -
  have c: "container_ok reg c" using assms(1) by (simp add: container_inv_def)
  note T = take_from_spec [OF c t]
  obtain r l where tt: "take_stack (slots c ! i) m = (r, l)" by (cases "take_stack (slots c ! i) m")
  have "is_empty l \<or> kind_of l = kind_of (slots c ! i) \<and> \<not> is_empty (slots c ! i)"
  proof (cases "is_empty l")
    case False
    then have "l = (slots c ! i)\<lparr>stack_count := stack_count l\<rparr>"
      using tt by (auto simp: take_stack_def Let_def normalize_cases split: if_splits)
    then have "kind_of l = kind_of (slots c ! i)" by (metis kind_of_def item_stack.ext_inject item_stack.surjective item_stack.update_convs(2))
    moreover have "stack_count (slots c ! i) \<noteq> 0"
      using tt False by (auto simp: take_stack_def Let_def normalize_cases is_empty_def empty_stack_def split: if_splits)
    ultimately show ?thesis by (simp add: is_empty_def)
  qed simp
  moreover have "is_empty (slots c ! i) \<or> accepts reg v i (slots c ! i) = Inr True"
    using assms(1) T(4) by (auto simp: container_inv_def accepted_def)
  ultimately have "is_empty l \<or> accepts reg v i l = Inr True"
    using assms(2) unfolding kind_validator_def by metis
  with assms(1) T tt show ?thesis
    by (auto simp: container_inv_def intro: accepted_update)
qed

text \<open>A transaction applies all of its changes or none.\<close>

definition change_ok :: "item_registry \<Rightarrow> validator option \<Rightarrow> nat \<Rightarrow> slot_change \<Rightarrow> bool" where
  "change_ok reg v n ch = (change_index ch < n \<and> stack_ok reg (change_stack ch) \<and>
     accepts reg v (change_index ch) (change_stack ch) = Inr True)"

definition updated_slots :: "slot_change list \<Rightarrow> item_stack list \<Rightarrow> item_stack list" where
  "updated_slots chs ss = foldl (\<lambda>ss ch. ss[change_index ch := change_stack ch]) ss chs"

lemma updated_slots_simps [simp]: "updated_slots [] ss = ss"
  "updated_slots (ch # chs) ss = updated_slots chs (ss[change_index ch := change_stack ch])"
  by (simp_all add: updated_slots_def)

lemma updated_slots_length [simp]: "length (updated_slots chs ss) = length ss"
  by (induction chs arbitrary: ss) simp_all

lemma apply_changes_spec:
  assumes "apply_changes reg v chs ss = Inr r"
  shows "r = (if \<forall>ch \<in> set chs. change_ok reg v (length ss) ch then Some (updated_slots chs ss) else None)"
  using assms
proof (induction chs arbitrary: ss)
  case (Cons ch chs)
  show ?case
  proof (cases "change_index ch < length ss \<and> stack_ok reg (change_stack ch)")
    case True
    then have run: "bindR (accepts reg v (change_index ch) (change_stack ch)) (\<lambda>ok.
        if \<not> ok then Inr None
        else apply_changes reg v chs (ss[change_index ch := change_stack ch])) = Inr r"
      using Cons.prems by (simp add: stack_ok_def)
    then obtain ok where a: "accepts reg v (change_index ch) (change_stack ch) = Inr ok"
      by (auto simp: bindR_Inr_iff)
    with run Cons.IH [of "ss[change_index ch := change_stack ch]"] True show ?thesis
      by (cases ok) (simp_all add: change_ok_def)
  next
    case False
    with Cons.prems show ?thesis
      by (auto simp: change_ok_def stack_ok_def is_ok_iff split: if_splits)
  qed
qed simp

lemma apply_changes_total:
  "total_validator reg v \<Longrightarrow> is_ok (apply_changes reg v chs ss)"
proof (induction chs arbitrary: ss)
  case (Cons ch chs)
  show ?case
  proof (cases "is_ok (validate_stack reg (change_stack ch))")
    case True
    then obtain b where "accepts reg v (change_index ch) (change_stack ch) = Inr b"
      using Cons.prems by (auto simp: total_validator_def stack_ok_def is_ok_iff)
    with Cons.IH [OF Cons.prems] show ?thesis by simp
  qed simp
qed simp

lemma updated_slots_ok:
  assumes "\<forall>ch \<in> set chs. change_ok reg v (length ss) ch" and "all_ok reg ss" and "accepted reg v 0 ss"
  shows "all_ok reg (updated_slots chs ss)" and "accepted reg v 0 (updated_slots chs ss)"
  using assms
  by (induction chs arbitrary: ss) (auto simp: change_ok_def all_ok_update accepted_update)

lemma apply_transaction_spec:
  assumes "apply_transaction reg c e chs = Inr (b, c')"
  shows "b \<longleftrightarrow> e = state_id c \<and> (\<forall>ch \<in> set chs. change_ok reg (slot_validator c) (length (slots c)) ch)"
    and "slots c' = (if b then updated_slots chs (slots c) else slots c)"
    and "slot_validator c' = slot_validator c"
    and "state_id c' = (if slots c' = slots c then state_id c else state_id c + 1)"
proof -
  have "(b \<longleftrightarrow> e = state_id c \<and> (\<forall>ch \<in> set chs. change_ok reg (slot_validator c) (length (slots c)) ch)) \<and>
    slots c' = (if b then updated_slots chs (slots c) else slots c) \<and> slot_validator c' = slot_validator c \<and>
    state_id c' = (if slots c' = slots c then state_id c else state_id c + 1)"
  proof (cases "e = state_id c")
    case True
    with assms obtain r where r: "apply_changes reg (slot_validator c) chs (slots c) = Inr r"
      by (auto simp: apply_transaction_def bindR_Inr_iff)
    from assms True r show ?thesis
      by (cases r) (auto simp: apply_transaction_def dest!: apply_changes_spec split: if_splits)
  qed (use assms in \<open>auto simp: apply_transaction_def\<close>)
  then show "b \<longleftrightarrow> e = state_id c \<and> (\<forall>ch \<in> set chs. change_ok reg (slot_validator c) (length (slots c)) ch)"
    "slots c' = (if b then updated_slots chs (slots c) else slots c)"
    "slot_validator c' = slot_validator c"
    "state_id c' = (if slots c' = slots c then state_id c else state_id c + 1)" by blast+
qed

lemma inv_transaction:
  assumes "container_inv reg n v c" and "apply_transaction reg c e chs = Inr (b, c')"
  shows "container_inv reg n v c'"
proof -
  note T = apply_transaction_spec [OF assms(2)]
  have c: "all_ok reg (slots c)" "slots c \<noteq> []" "slot_validator c = v" "accepted reg v 0 (slots c)" "length (slots c) = n"
    using assms(1) by (simp_all add: container_inv_def container_ok_def)
  show ?thesis
  proof (cases b)
    case True
    then have "\<forall>ch \<in> set chs. change_ok reg v (length (slots c)) ch" using T(1) c by simp
    from updated_slots_ok [OF this c(1,4)] True T c show ?thesis
      by (auto simp: container_inv_def container_ok_def simp flip: length_0_conv)
  qed (use T assms(1) in \<open>auto simp: container_inv_def container_ok_def\<close>)
qed

lemma inv_new:
  assumes "new_container n v = Inr c"
  shows "container_inv reg n v c"
  using assms by (auto simp: new_container_def container_inv_def container_ok_def all_ok_def accepted_def split: if_splits)

lemma inv_step:
  assumes "container_step reg c c'" and "container_inv reg n v c" and "kind_validator reg v"
  shows "container_inv reg n v c'"
  using assms(1)
  by (cases rule: container_step.cases)
    (use assms(2,3) in \<open>auto intro: inv_set_slot inv_insert inv_take inv_transaction\<close>)

section \<open>Properties\<close>

text \<open>C26. Inserting a valid stack into a valid container never fails (for a validator that does not throw on valid
  stacks) and loses nothing: for every kind, what the container gains is what the stack lost. Slots stay
  valid. With no validator, or one that looks only at the kind of a stack (as \<open>armor_slot_accepts\<close> does),
  something is left only when every slot that accepts it is occupied, and every such slot of its kind is
  full. The state counter grows by one exactly when something was moved.\<close>

theorem container_insert:
  assumes "container_ok reg c" and "stack_ok reg s" and "total_validator reg (slot_validator c)"
  shows "\<exists>left c'. insert_stack reg c s = Inr (left, c') \<and> stack_ok reg left \<and> container_ok reg c' \<and>
    slot_count c' = slot_count c \<and>
    (\<forall>k. held k c' + amount k left = held k c + amount k s) \<and>
    (if kind_validator reg (slot_validator c) \<and> \<not> is_empty left
     then \<forall>i < slot_count c'. if accepts reg (slot_validator c) i left = Inr True
       then \<not> is_empty (slots c' ! i) \<and>
         (if kind_of (slots c' ! i) = kind_of left then stack_count (slots c' ! i) = stack_limit reg (slots c' ! i) else True)
       else True
     else True) \<and>
    state_id c' = (if stack_count left \<noteq> stack_count s then state_id c + 1 else state_id c)"
proof -
  from insert_stack_spec [OF assms] obtain left c' where
    I: "insert_stack reg c s = Inr (left, c')" "stack_ok reg left" "container_ok reg c'"
      "length (slots c') = length (slots c)"
      "\<forall>k. held k c' + amount k left = held k c + amount k s"
      "state_id c' = (if stack_count left \<noteq> stack_count s then state_id c + 1 else state_id c)"
    and full: "kind_validator reg (slot_validator c) \<and> \<not> is_empty left \<longrightarrow>
      indexed (slot_used reg (slot_validator c) left) 0 (slots c')" by blast
  then show ?thesis
    by (intro exI [of _ left] exI [of _ c']) (auto simp: full_for_def slot_count_def indexed_def slot_used_def)
qed

definition sample_stack :: "u16 \<Rightarrow> item_stack" where
  "sample_stack n = \<lparr>stack_item = 1, stack_count = n, stack_damage = 0, components = []\<rparr>"

lemma sample_stack_ok: "1 \<le> unat n \<Longrightarrow> unat n \<le> 64 \<Longrightarrow> stack_ok builtin_registry (sample_stack n)"
  by (simp add: sample_stack_def stone_stack_ok)

definition sample_container :: container where
  "sample_container = \<lparr>slots = [sample_stack 60, empty_stack], slot_validator = None, state_id = 7\<rparr>"

lemma sample_container_ok: "container_ok builtin_registry sample_container"
  using sample_stack_ok [of 60] by (simp add: container_ok_def sample_container_def)

theorem container_insert_witness:
  "\<exists>left c'. insert_stack builtin_registry sample_container (sample_stack 10) = Inr (left, c')"
proof -
  have "total_validator builtin_registry (slot_validator sample_container)"
    by (simp add: sample_container_def)
  moreover have "stack_ok builtin_registry (sample_stack 10)" by (rule sample_stack_ok; simp)
  ultimately show ?thesis using container_insert [OF sample_container_ok] by blast
qed

text \<open>C27. A transaction is atomic: it succeeds exactly when the client's state id is current and every change has a
  slot in range, a valid stack, and the validator's consent; then all changes are applied in order.
  Otherwise the container is unchanged. The state counter grows by one exactly when the slots changed.\<close>

theorem container_transaction_atomic:
  assumes "apply_transaction reg c expected changes = Inr (done, c')"
  shows "done = (expected = state_id c \<and>
      (\<forall>ch \<in> set changes. change_index ch < slot_count c \<and> stack_ok reg (change_stack ch) \<and>
         accepts reg (slot_validator c) (change_index ch) (change_stack ch) = Inr True)) \<and>
    slots c' = (if done then foldl (\<lambda>ss ch. ss[change_index ch := change_stack ch]) (slots c) changes else slots c) \<and>
    state_id c' = (if slots c' = slots c then state_id c else state_id c + 1)"
  using apply_transaction_spec [OF assms]
  by (simp add: change_ok_def slot_count_def updated_slots_def)

theorem container_transaction_atomic_witness:
  "\<exists>c'. apply_transaction builtin_registry sample_container 7
       [\<lparr>change_index = 1, change_stack = sample_stack 3\<rparr>, \<lparr>change_index = 0, change_stack = empty_stack\<rparr>] =
     Inr (True, c') \<and> slots c' = [empty_stack, sample_stack 3]"
proof -
  have "stack_ok builtin_registry (sample_stack 3)" by (rule sample_stack_ok; simp)
  then have "\<exists>d c'. apply_transaction builtin_registry sample_container 7
       [\<lparr>change_index = 1, change_stack = sample_stack 3\<rparr>, \<lparr>change_index = 0, change_stack = empty_stack\<rparr>] = Inr (d, c')"
    using stack_ok_empty [of builtin_registry]
    by (auto simp: apply_transaction_def sample_container_def stack_ok_def accepts_def bindR_Inr_iff)
  then obtain d c' where t: "apply_transaction builtin_registry sample_container 7
       [\<lparr>change_index = 1, change_stack = sample_stack 3\<rparr>, \<lparr>change_index = 0, change_stack = empty_stack\<rparr>] = Inr (d, c')"
    by blast
  from container_transaction_atomic [OF t] \<open>stack_ok builtin_registry (sample_stack 3)\<close> t show ?thesis
    by (auto simp: sample_container_def slot_count_def accepts_def)
qed

text \<open>C13. Whatever sequence of \<open>set_slot\<close>, \<open>insert\<close>, \<open>take\<close> and \<open>apply_transaction\<close> a new container went through, it
  keeps its number of slots and its validator, every slot holds a valid stack, and every non-empty slot a
  stack the validator accepts at that index: armour slots only ever hold armour.\<close>

theorem container_reachable_invariant:
  assumes "reachable_container reg n v c" and "kind_validator reg v"
  shows "slot_count c = n \<and> slot_validator c = v \<and>
    (\<forall>i < n. stack_ok reg (slots c ! i) \<and>
      (is_empty (slots c ! i) \<or> accepts reg v i (slots c ! i) = Inr True))"
proof -
  from assms(1) have "container_inv reg n v c"
    by induction (auto intro: inv_new inv_step assms(2))
  then show ?thesis
    by (auto simp: container_inv_def slot_count_def container_ok_def all_ok_nth accepted_def)
qed

theorem container_reachable_invariant_witness:
  "\<exists>c. reachable_container builtin_registry 4 (Some armor_slot_accepts) c \<and> slot_count c = 4"
proof -
  obtain c where "new_container 4 (Some armor_slot_accepts) = Inr c" by (simp add: new_container_def)
  then have r: "reachable_container builtin_registry 4 (Some armor_slot_accepts) c" by (rule reach_new)
  with container_reachable_invariant [OF r kind_validator_armor] show ?thesis by blast
qed

end
