(* ===== verification/Crafting.thy ===== *)
theory Crafting
  imports Inventory
begin

text \<open>
  Crafting (the recipe classes of include/mc/inventory/inventory.hpp and
  src/inventory/inventory.cpp): shaped recipes searched at every offset and
  mirrored, shapeless recipes matched by backtracking, the loader of their
  normalized text, and one crafting step on copies of its containers.

  Grid dimensions and slot counts are small, so their products are taken
  without wrap-around, except where they are read from a file.
\<close>

definition parse_size :: "string \<Rightarrow> nat result" where
  "parse_size str = (case from_chars_all 64 str of
     None \<Rightarrow> Inl (Runtime_Error ''normalized recipe contains an invalid integer'')
   | Some n \<Rightarrow> Inr n)"

section \<open>Recipes\<close>

text \<open>An ingredient is the list of the item ids it admits; the empty one stands for no item.\<close>

type_synonym ingredient = "u32 list"

definition ingredient_matches :: "ingredient \<Rightarrow> item_stack \<Rightarrow> bool" where
  "ingredient_matches ids stack =
     (if ids = [] then is_empty stack else \<not> is_empty stack \<and> stack_item stack \<in> set ids)"

datatype recipe_type = Shaped | Shapeless

record recipe =
  recipe_id :: resource_location
  recipe_type :: recipe_type
  recipe_width :: nat
  recipe_height :: nat
  ingredients :: "ingredient list"
  recipe_result :: item_stack

definition new_recipe :: "resource_location \<Rightarrow> recipe_type \<Rightarrow> nat \<Rightarrow> nat \<Rightarrow> ingredient list \<Rightarrow>
    item_stack \<Rightarrow> recipe result" where
  "new_recipe i t w h ings res =
     (if is_empty res then Inl (Invalid_Argument ''recipe result must not be empty'')
      else Inr \<lparr>recipe_id = i, recipe_type = t, recipe_width = w, recipe_height = h,
        ingredients = ings, recipe_result = res\<rparr>)"

definition shaped_recipe :: "resource_location \<Rightarrow> nat \<Rightarrow> nat \<Rightarrow> ingredient list \<Rightarrow> item_stack \<Rightarrow> recipe result" where
  "shaped_recipe i w h ings res =
     (if w = 0 \<or> h = 0 \<or> w > 3 \<or> h > 3 \<or> length ings \<noteq> w * h
      then Inl (Invalid_Argument ''shaped recipe dimensions are invalid'')
      else new_recipe i Shaped w h ings res)"

definition shapeless_recipe :: "resource_location \<Rightarrow> ingredient list \<Rightarrow> item_stack \<Rightarrow> recipe result" where
  "shapeless_recipe i ings res =
     (if ings = [] \<or> length ings > 9 \<or> [] \<in> set ings
      then Inl (Invalid_Argument ''shapeless recipe ingredients are invalid'')
      else new_recipe i Shapeless 0 0 ings res)"

text \<open>
  The ingredient the pattern has at the cell \<open>(x, y)\<close> of the grid when its corner
  is at \<open>(ox, oy)\<close>, and the scan of the cells in row order, which ends at the
  first cell that does not match.
\<close>

definition pattern_at :: "recipe \<Rightarrow> nat \<Rightarrow> nat \<Rightarrow> bool \<Rightarrow> nat \<Rightarrow> nat \<Rightarrow> ingredient" where
  "pattern_at r oy ox mirrored y x =
     (if x \<ge> ox \<and> x < ox + recipe_width r \<and> y \<ge> oy \<and> y < oy + recipe_height r
      then
        let pattern_x = (if mirrored then recipe_width r - 1 - (x - ox) else x - ox)
        in ingredients r ! ((y - oy) * recipe_width r + pattern_x)
      else [])"

fun scan_cells :: "(nat \<Rightarrow> nat \<Rightarrow> ingredient) \<Rightarrow> container \<Rightarrow> nat \<Rightarrow> (nat \<times> nat) list \<Rightarrow> u16 list \<Rightarrow>
    u16 list option result" where
  "scan_cells pattern grid grid_width [] consumption = Inr (Some consumption)"
| "scan_cells pattern grid grid_width ((y, x) # cells) consumption =
     bindR (slot grid (y * grid_width + x)) (\<lambda>stack.
       if \<not> ingredient_matches (pattern y x) stack then Inr None
       else scan_cells pattern grid grid_width cells
         (if pattern y x \<noteq> [] then consumption[y * grid_width + x := 1] else consumption))"

text \<open>The first placement, in the order of the three nested loops, that scans.\<close>

fun first_placement :: "('a \<Rightarrow> 'b option result) \<Rightarrow> 'a list \<Rightarrow> 'b option result" where
  "first_placement f [] = Inr None"
| "first_placement f (p # ps) =
     bindR (f p) (\<lambda>r. case r of Some x \<Rightarrow> Inr (Some x) | None \<Rightarrow> first_placement f ps)"

definition grid_cells :: "nat \<Rightarrow> nat \<Rightarrow> (nat \<times> nat) list" where
  "grid_cells w h = [(y, x). y \<leftarrow> [0..<h], x \<leftarrow> [0..<w]]"

definition placements :: "recipe \<Rightarrow> nat \<Rightarrow> nat \<Rightarrow> (nat \<times> nat \<times> bool) list" where
  "placements r w h =
     [(oy, ox, m). oy \<leftarrow> [0..<h - recipe_height r + 1], ox \<leftarrow> [0..<w - recipe_width r + 1], m \<leftarrow> [False, True]]"

text \<open>
  \<open>assign\<close> of the shapeless match: the recursion over the occupied slots and the
  loop over the ingredients, with the shared \<open>used\<close> and \<open>consumption\<close> undone on
  the way back.
\<close>

function assign_slots :: "ingredient list \<Rightarrow> item_stack list \<Rightarrow> nat list \<Rightarrow> bool list \<Rightarrow> u16 list \<Rightarrow>
      bool \<times> bool list \<times> u16 list"
  and try_ingredients :: "ingredient list \<Rightarrow> item_stack list \<Rightarrow> nat \<Rightarrow> nat list \<Rightarrow> nat list \<Rightarrow> bool list \<Rightarrow> u16 list \<Rightarrow>
      bool \<times> bool list \<times> u16 list" where
  "assign_slots ings grid [] used consumption = (True, used, consumption)"
| "assign_slots ings grid (slot_index # occupied) used consumption =
     try_ingredients ings grid slot_index occupied [0..<length ings] used consumption"
| "try_ingredients ings grid slot_index occupied [] used consumption = (False, used, consumption)"
| "try_ingredients ings grid slot_index occupied (j # js) used consumption =
     (if \<not> used ! j \<and> ingredient_matches (ings ! j) (grid ! slot_index)
      then (case assign_slots ings grid occupied (used[j := True]) (consumption[slot_index := 1]) of
          (True, used, consumption) \<Rightarrow> (True, used, consumption)
        | (False, used, consumption) \<Rightarrow>
            try_ingredients ings grid slot_index occupied js
              (used[j := False]) (consumption[slot_index := 0]))
      else try_ingredients ings grid slot_index occupied js used consumption)"
  by pat_completeness auto
termination
  by (relation "measures [case_sum (\<lambda>(_, _, occ, _, _). 2 * length occ) (\<lambda>(_, _, _, occ, _, _, _). Suc (2 * length occ)),
        case_sum (\<lambda>_. 0) (\<lambda>(_, _, _, _, js, _, _). length js)]") auto

definition occupied_slots :: "container \<Rightarrow> nat list" where
  "occupied_slots grid = filter (\<lambda>i. \<not> is_empty (slots grid ! i)) [0..<length (slots grid)]"

definition match_recipe :: "recipe \<Rightarrow> container \<Rightarrow> nat \<Rightarrow> nat \<Rightarrow> u16 list option result" where
  "match_recipe r grid grid_width grid_height =
     (if grid_width = 0 \<or> grid_height = 0 \<or> grid_width * grid_height \<noteq> slot_count grid
      then Inl (Invalid_Argument ''crafting grid dimensions do not match container'')
      else
        let consumption = replicate (slot_count grid) 0
        in case recipe_type r of
          Shaped \<Rightarrow>
            if recipe_width r > grid_width \<or> recipe_height r > grid_height then Inr None
            else first_placement (\<lambda>(oy, ox, mirrored).
                scan_cells (pattern_at r oy ox mirrored) grid grid_width
                  (grid_cells grid_width grid_height) consumption)
              (placements r grid_width grid_height)
        | Shapeless \<Rightarrow>
            let occupied = occupied_slots grid
            in if length occupied \<noteq> length (ingredients r) then Inr None
               else (case assign_slots (ingredients r) (slots grid) occupied
                        (replicate (length (ingredients r)) False) consumption of
                   (found, _, consumption) \<Rightarrow> Inr (if found then Some consumption else None)))"

section \<open>The crafting manager\<close>

record crafting_match =
  match_id :: resource_location
  match_result :: item_stack
  match_consumption :: "u16 list"

record recipe_load_report =
  recipes_encountered :: nat
  recipes_loaded :: nat
  recipes_skipped :: nat

definition register_recipe :: "item_registry \<Rightarrow> recipe list \<Rightarrow> recipe \<Rightarrow> recipe list result" where
  "register_recipe reg recipes r =
     bindR (validate_stack reg (recipe_result r)) (\<lambda>_.
       if \<exists>e \<in> set recipes. recipe_id e = recipe_id r
       then Inl (Invalid_Argument ''recipe ID is already registered'')
       else Inr (recipes @ [r]))"

definition builtin_recipe :: "item_registry \<Rightarrow> string \<Rightarrow> (resource_location \<Rightarrow> recipe result) \<Rightarrow> recipe list \<Rightarrow>
    recipe list result" where
  "builtin_recipe reg name mk recipes =
     bindR (parse_location name) (\<lambda>l. bindR (mk l) (\<lambda>r. register_recipe reg recipes r))"

definition new_crafting_manager :: "item_registry \<Rightarrow> recipe list result" where
  "new_crafting_manager reg =
     bindR (by_name reg ''oak_log'') (\<lambda>log.
     bindR (by_name reg ''oak_planks'') (\<lambda>planks.
     bindR (by_name reg ''stick'') (\<lambda>stick.
     bindR (by_name reg ''crafting_table'') (\<lambda>table.
     bindR (by_name reg ''wooden_pickaxe'') (\<lambda>pickaxe.
       let log = [item_index log]; planks = [item_index planks]; sticks = [item_index stick] in
       bindR (builtin_recipe reg ''minecraft:oak_planks''
         (\<lambda>l. shapeless_recipe l [log] (new_stack (hd planks) 4 0 [])) []) (\<lambda>recipes.
       bindR (builtin_recipe reg ''minecraft:stick''
         (\<lambda>l. shaped_recipe l 1 2 [planks, planks] (new_stack (item_index stick) 4 0 [])) recipes) (\<lambda>recipes.
       bindR (builtin_recipe reg ''minecraft:crafting_table''
         (\<lambda>l. shaped_recipe l 2 2 [planks, planks, planks, planks] (new_stack (item_index table) 1 0 []))
         recipes) (\<lambda>recipes.
       builtin_recipe reg ''minecraft:wooden_pickaxe''
         (\<lambda>l. shaped_recipe l 3 3 [planks, planks, planks, [], sticks, [], [], sticks, []]
           (new_stack (item_index pickaxe) 1 0 [])) recipes))))))))"

text \<open>
  \<open>parse_ingredients\<close>: unknown names are left out, other errors of a name
  propagate; \<open>None\<close> is the \<open>nullopt\<close> of a cell without a known item.
\<close>

fun known_ids :: "item_registry \<Rightarrow> string list \<Rightarrow> u32 list result" where
  "known_ids reg [] = Inr []"
| "known_ids reg (name # names) =
     (case by_name reg name of
        Inr it \<Rightarrow> bindR (known_ids reg names) (\<lambda>ids. Inr (item_index it # ids))
      | Inl (Out_Of_Range _) \<Rightarrow> known_ids reg names
      | Inl e \<Rightarrow> Inl e)"

fun parse_cells :: "item_registry \<Rightarrow> bool \<Rightarrow> string list \<Rightarrow> ingredient list option result" where
  "parse_cells reg allow_empty [] = Inr (Some [])"
| "parse_cells reg allow_empty (cell # cells) =
     (if cell = []
      then (if allow_empty
            then bindR (parse_cells reg allow_empty cells) (\<lambda>r. Inr (map_option (Cons []) r))
            else Inr None)
      else bindR (known_ids reg (split_on CHR '','' cell)) (\<lambda>ids.
        if ids = [] then Inr None
        else bindR (parse_cells reg allow_empty cells)
          (\<lambda>r. Inr (map_option (Cons (remdups_adj (sort ids))) r))))"

definition parse_ingredients :: "item_registry \<Rightarrow> string \<Rightarrow> bool \<Rightarrow> ingredient list option result" where
  "parse_ingredients reg encoded allow_empty = parse_cells reg allow_empty (split_on CHR ''|'' encoded)"

text \<open>The recipe a record describes, once its id is new and its result is known.\<close>

definition record_recipe :: "item_registry \<Rightarrow> string list \<Rightarrow> resource_location \<Rightarrow> item_stack \<Rightarrow> recipe option result" where
  "record_recipe reg parts rid res =
     (if parts ! 0 = ''S''
      then bindR (parse_size (parts ! 4)) (\<lambda>width.
        bindR (parse_size (parts ! 5)) (\<lambda>height.
          bindR (parse_ingredients reg (parts ! 6) True) (\<lambda>ings. case ings of
              Some ings \<Rightarrow>
                if length ings = width * height mod 2 ^ 64
                then bindR (shaped_recipe rid width height ings res) (\<lambda>r. Inr (Some r))
                else Inr None
            | None \<Rightarrow> Inr None)))
      else bindR (parse_ingredients reg (parts ! 4) False) (\<lambda>ings. case ings of
          Some ings \<Rightarrow> bindR (shapeless_recipe rid ings res) (\<lambda>r. Inr (Some r))
        | None \<Rightarrow> Inr None))"

definition skip_record :: "recipe list \<times> recipe_load_report \<Rightarrow> recipe list \<times> recipe_load_report" where
  "skip_record = (\<lambda>(recipes, report). (recipes, report\<lparr>recipes_skipped := recipes_skipped report + 1\<rparr>))"

definition load_recipe_line :: "item_registry \<Rightarrow> string \<Rightarrow> recipe list \<times> recipe_load_report \<Rightarrow>
    (recipe list \<times> recipe_load_report) result" where
  "load_recipe_line reg line = (\<lambda>(recipes, report).
     if line = [] then Inr (recipes, report)
     else
       let report = report\<lparr>recipes_encountered := recipes_encountered report + 1\<rparr>;
           parts = split_on CHR 0x09 line
       in if parts ! 0 = ''S'' \<and> length parts \<noteq> 7 \<or> parts ! 0 = ''L'' \<and> length parts \<noteq> 5 \<or>
            parts ! 0 \<noteq> ''S'' \<and> parts ! 0 \<noteq> ''L''
          then Inl (Runtime_Error ''normalized recipe record has an invalid shape'')
          else bindR (parse_location (parts ! 1)) (\<lambda>rid.
            if \<exists>r \<in> set recipes. recipe_id r = rid then Inr (skip_record (recipes, report))
            else (case by_name reg (parts ! 2) of
                Inl (Out_Of_Range _) \<Rightarrow> Inr (skip_record (recipes, report))
              | Inl e \<Rightarrow> Inl e
              | Inr it \<Rightarrow>
                  bindR (parse_size (parts ! 3)) (\<lambda>result_count.
                    if result_count = 0 \<or> result_count > unat (max_stack_size (properties it))
                    then Inr (skip_record (recipes, report))
                    else bindR (record_recipe reg parts rid
                        (new_stack (item_index it) (word_of_nat result_count) 0 [])) (\<lambda>r. case r of
                          None \<Rightarrow> Inr (skip_record (recipes, report))
                        | Some r \<Rightarrow> bindR (register_recipe reg recipes r) (\<lambda>recipes.
                            Inr (recipes, report\<lparr>recipes_loaded := recipes_loaded report + 1\<rparr>)))))))"

definition load_normalized_recipes :: "item_registry \<Rightarrow> recipe list \<Rightarrow> string \<Rightarrow>
    (recipe list \<times> recipe_load_report) result" where
  "load_normalized_recipes reg recipes input =
     (case stream_lines input of
        [] \<Rightarrow> Inl (Runtime_Error ''normalized recipe stream has an invalid header'')
      | header # ls \<Rightarrow>
          if \<not> starts_with header (''MCRECIPES1'' @ [CHR 0x09])
          then Inl (Runtime_Error ''normalized recipe stream has an invalid header'')
          else foldR (load_recipe_line reg) ls
            (recipes, \<lparr>recipes_encountered = 0, recipes_loaded = 0, recipes_skipped = 0\<rparr>))"

fun match_recipes :: "recipe list \<Rightarrow> container \<Rightarrow> nat \<Rightarrow> nat \<Rightarrow> crafting_match option result" where
  "match_recipes [] grid w h = Inr None"
| "match_recipes (r # rs) grid w h =
     bindR (match_recipe r grid w h) (\<lambda>m. case m of
         Some consumption \<Rightarrow> Inr (Some \<lparr>match_id = recipe_id r, match_result = recipe_result r,
           match_consumption = consumption\<rparr>)
       | None \<Rightarrow> match_recipes rs grid w h)"

text \<open>The loop that takes the ingredients from the copy of the grid; \<open>None\<close> is \<open>return false\<close>.\<close>

fun consume_grid :: "nat \<Rightarrow> u16 list \<Rightarrow> container \<Rightarrow> container option result" where
  "consume_grid i [] grid = Inr (Some grid)"
| "consume_grid i (n # ns) grid =
     (if n = 0 then consume_grid (i + 1) ns grid
      else bindR (take_from grid i n) (\<lambda>(removed, grid).
        if stack_count removed \<noteq> n then Inr None else consume_grid (i + 1) ns grid))"

definition craft_once :: "item_registry \<Rightarrow> recipe list \<Rightarrow> container \<Rightarrow> nat \<Rightarrow> nat \<Rightarrow> container \<Rightarrow>
    (bool \<times> container \<times> container) result" where
  "craft_once reg recipes grid w h output =
     bindR (match_recipes recipes grid w h) (\<lambda>m. case m of
         None \<Rightarrow> Inr (False, grid, output)
       | Some matched \<Rightarrow>
           bindR (consume_grid 0 (match_consumption matched) grid) (\<lambda>g. case g of
               None \<Rightarrow> Inr (False, grid, output)
             | Some grid' \<Rightarrow>
                 bindR (insert_stack reg output (match_result matched)) (\<lambda>(left, output').
                   if \<not> is_empty left then Inr (False, grid, output)
                   else Inr (True, grid', output'))))"

section \<open>The shaped match\<close>

text \<open>The pattern of a recipe placed in the grid matches every cell.\<close>

definition fits :: "(nat \<Rightarrow> nat \<Rightarrow> ingredient) \<Rightarrow> container \<Rightarrow> nat \<Rightarrow> nat \<Rightarrow> bool" where
  "fits pattern grid w h =
     (\<forall>y < h. \<forall>x < w. ingredient_matches (pattern y x) (slots grid ! (y * w + x)))"

definition used_cells :: "(nat \<Rightarrow> nat \<Rightarrow> ingredient) \<Rightarrow> nat \<Rightarrow> nat \<Rightarrow> u16 list" where
  "used_cells pattern w h = map (\<lambda>i. if pattern (i div w) (i mod w) \<noteq> [] then 1 else 0) [0..<w * h]"

lemma scan_cells_run:
  assumes "\<forall>(y, x) \<in> set cells. y * w + x < length (slots grid)"
  shows "scan_cells pattern grid w cells cons =
    Inr (if \<forall>(y, x) \<in> set cells. ingredient_matches (pattern y x) (slots grid ! (y * w + x))
         then Some (foldl (\<lambda>cons (y, x). if pattern y x \<noteq> [] then cons[y * w + x := 1] else cons) cons cells)
         else None)"
  using assms
proof (induction cells arbitrary: cons)
  case (Cons p cells)
  obtain y x where p: "p = (y, x)" by (cases p)
  with Cons.prems have s: "slot grid (y * w + x) = Inr (slots grid ! (y * w + x))"
    by (auto simp: slot_def)
  have "\<forall>(y, x) \<in> set cells. y * w + x < length (slots grid)" using Cons.prems by simp
  note IH = Cons.IH [OF this]
  show ?case by (simp add: p s IH)
qed simp

lemma set_grid_cells: "set (grid_cells w h) = {(y, x). y < h \<and> x < w}"
  by (auto simp: grid_cells_def)

lemma cell_bound: "y < h \<Longrightarrow> x < w \<Longrightarrow> y * w + x < w * (h :: nat)"
proof -
  assume "y < h" "x < w"
  then have "y * w + x < y * w + w" by simp
  also have "\<dots> = Suc y * w" by simp
  also have "\<dots> \<le> h * w" using \<open>y < h\<close> by (intro mult_right_mono) auto
  finally show ?thesis by (simp add: mult.commute)
qed

text \<open>Marking the cells of a list: a position is marked when one of the cells has it.\<close>

lemma foldl_mark:
  assumes "i < length cons"
  shows "foldl (\<lambda>cons (y, x). if pattern y x \<noteq> [] then cons[y * w + x := (1 :: u16)] else cons) cons cells ! i =
    (if \<exists>(y, x) \<in> set cells. pattern y x \<noteq> [] \<and> y * w + x = i then 1 else cons ! i)"
  using assms
proof (induction cells arbitrary: cons)
  case (Cons p cells)
  obtain y x where p: "p = (y, x)" by (cases p)
  show ?case
    using Cons by (auto simp: p nth_list_update)
qed simp

lemma foldl_mark_length [simp]:
  "length (foldl (\<lambda>cons (y, x). if pattern y x \<noteq> [] then cons[y * w + x := (1 :: u16)] else cons) cons cells) = length cons"
  by (induction cells arbitrary: cons) (auto split: prod.splits)

lemma mark_grid:
  assumes "0 < w"
  shows "foldl (\<lambda>cons (y, x). if pattern y x \<noteq> [] then cons[y * w + x := (1 :: u16)] else cons)
      (replicate (w * h) 0) (grid_cells w h) = used_cells pattern w h"
proof (rule nth_equalityI)
  fix i assume "i < length (foldl (\<lambda>cons (y, x). if pattern y x \<noteq> [] then cons[y * w + x := (1 :: u16)] else cons)
      (replicate (w * h) 0) (grid_cells w h))"
  then have i: "i < w * h" by simp
  have "(\<exists>(y, x) \<in> set (grid_cells w h). pattern y x \<noteq> [] \<and> y * w + x = i) \<longleftrightarrow> pattern (i div w) (i mod w) \<noteq> []"
  proof
    assume "\<exists>(y, x) \<in> set (grid_cells w h). pattern y x \<noteq> [] \<and> y * w + x = i"
    then obtain y x where "x < w" "pattern y x \<noteq> []" "i = y * w + x" by (auto simp: set_grid_cells)
    then show "pattern (i div w) (i mod w) \<noteq> []" by simp
  next
    assume "pattern (i div w) (i mod w) \<noteq> []"
    moreover have "i div w < h" using i by (simp add: less_mult_imp_div_less mult.commute)
    moreover have "i mod w < w" using assms by simp
    moreover have "i div w * w + i mod w = i" by simp
    ultimately show "\<exists>(y, x) \<in> set (grid_cells w h). pattern y x \<noteq> [] \<and> y * w + x = i"
      by (intro bexI [of _ "(i div w, i mod w)"]) (simp_all add: set_grid_cells)
  qed
  with i show "foldl (\<lambda>cons (y, x). if pattern y x \<noteq> [] then cons[y * w + x := (1 :: u16)] else cons)
      (replicate (w * h) 0) (grid_cells w h) ! i = used_cells pattern w h ! i"
    by (subst foldl_mark) (simp_all add: used_cells_def)
qed (simp add: used_cells_def)

lemma scan_grid:
  assumes "0 < w" and "w * h = slot_count grid"
  shows "scan_cells pattern grid w (grid_cells w h) (replicate (slot_count grid) 0) =
    Inr (if fits pattern grid w h then Some (used_cells pattern w h) else None)"
proof -
  have "\<forall>(y, x) \<in> set (grid_cells w h). y * w + x < length (slots grid)"
  proof clarify
    fix y x assume "(y, x) \<in> set (grid_cells w h)"
    then have "y < h" "x < w" by (simp_all add: set_grid_cells)
    from cell_bound [OF this] show "y * w + x < length (slots grid)"
      using assms(2) by (simp add: slot_count_def)
  qed
  note S = scan_cells_run [OF this]
  have e: "(\<forall>(y, x) \<in> set (grid_cells w h). ingredient_matches (pattern y x) (slots grid ! (y * w + x))) =
      fits pattern grid w h"
    by (auto simp: fits_def set_grid_cells)
  show ?thesis
    unfolding S e assms(2) [symmetric] mark_grid [OF assms(1)] ..
qed

lemma first_placement_run:
  assumes "\<forall>p \<in> set ps. f p = Inr (g p)"
  shows "first_placement f ps = Inr (case find (\<lambda>p. g p \<noteq> None) ps of None \<Rightarrow> None | Some p \<Rightarrow> g p)"
  using assms by (induction ps) (auto split: option.splits)

lemma shaped_match:
  assumes "recipe_type r = Shaped" and "0 < w" and "0 < h" and "w * h = slot_count grid"
    and "recipe_width r \<le> w" and "recipe_height r \<le> h"
  shows "match_recipe r grid w h =
    Inr (map_option (\<lambda>(oy, ox, m). used_cells (pattern_at r oy ox m) w h)
      (find (\<lambda>(oy, ox, m). fits (pattern_at r oy ox m) grid w h) (placements r w h)))"
proof -
  let ?g = "\<lambda>(oy, ox, m). if fits (pattern_at r oy ox m) grid w h
     then Some (used_cells (pattern_at r oy ox m) w h) else None"
  have "match_recipe r grid w h = first_placement (\<lambda>(oy, ox, mirrored).
      scan_cells (pattern_at r oy ox mirrored) grid w (grid_cells w h) (replicate (slot_count grid) 0))
      (placements r w h)"
    using assms by (simp add: match_recipe_def Let_def)
  also have "\<dots> = Inr (case find (\<lambda>p. ?g p \<noteq> None) (placements r w h) of None \<Rightarrow> None | Some p \<Rightarrow> ?g p)"
    by (rule first_placement_run) (auto simp: scan_grid [OF assms(2,4)])
  also have "(\<lambda>p. ?g p \<noteq> None) = (\<lambda>(oy, ox, m). fits (pattern_at r oy ox m) grid w h)"
    by (auto simp: fun_eq_iff)
  finally show ?thesis
    by (auto split: option.splits dest!: find_Some_iff [THEN iffD1])
qed

section \<open>The shapeless match\<close>

text \<open>
  An assignment of distinct unused ingredients to the occupied slots; the
  backtracking search finds one exactly when there is one.
\<close>

definition assignable :: "ingredient list \<Rightarrow> item_stack list \<Rightarrow> nat list \<Rightarrow> bool list \<Rightarrow> bool" where
  "assignable ings grid occupied used = (\<exists>js. distinct js \<and> (\<forall>j \<in> set js. j < length ings \<and> \<not> used ! j) \<and>
     list_all2 (\<lambda>i j. ingredient_matches (ings ! j) (grid ! i)) occupied js)"

lemma assignable_Nil [simp]: "assignable ings grid [] used"
  by (auto simp: assignable_def intro: exI [of _ "[]"])

lemma assignable_Cons:
  assumes "length used = length ings"
  shows "assignable ings grid (i # occ) used \<longleftrightarrow>
    (\<exists>j < length ings. \<not> used ! j \<and> ingredient_matches (ings ! j) (grid ! i) \<and>
      assignable ings grid occ (used[j := True]))"
proof
  assume "assignable ings grid (i # occ) used"
  then obtain j js where js: "distinct (j # js)" "\<forall>k \<in> set (j # js). k < length ings \<and> \<not> used ! k"
      "ingredient_matches (ings ! j) (grid ! i)" "list_all2 (\<lambda>i j. ingredient_matches (ings ! j) (grid ! i)) occ js"
    unfolding assignable_def by (auto simp: list_all2_Cons1)
  then have "\<forall>k \<in> set js. \<not> used[j := True] ! k"
    by (metis distinct.simps(2) list.set_intros(2) nth_list_update_neq)
  with js have "assignable ings grid occ (used[j := True])"
    unfolding assignable_def by (intro exI [of _ js]) auto
  with js show "\<exists>j < length ings. \<not> used ! j \<and> ingredient_matches (ings ! j) (grid ! i) \<and>
      assignable ings grid occ (used[j := True])" by auto
next
  assume "\<exists>j < length ings. \<not> used ! j \<and> ingredient_matches (ings ! j) (grid ! i) \<and>
      assignable ings grid occ (used[j := True])"
  then obtain j js where j: "j < length ings" "\<not> used ! j" "ingredient_matches (ings ! j) (grid ! i)"
    and js: "distinct js" "\<forall>k \<in> set js. k < length ings \<and> \<not> used[j := True] ! k"
      "list_all2 (\<lambda>i j. ingredient_matches (ings ! j) (grid ! i)) occ js"
    unfolding assignable_def by auto
  have "j \<notin> set js" using js(2) j(1) assms by auto
  moreover have "\<forall>k \<in> set js. k < length ings \<and> \<not> used ! k"
    using js(2) \<open>j \<notin> set js\<close> by (metis nth_list_update_neq)
  ultimately show "assignable ings grid (i # occ) used"
    unfolding assignable_def using j js by (intro exI [of _ "j # js"]) auto
qed

definition mark_slots :: "nat list \<Rightarrow> u16 list \<Rightarrow> u16 list" where
  "mark_slots occ cons = foldl (\<lambda>c i. c[i := 1]) cons occ"

lemma mark_slots_Cons: "mark_slots (i # occ) cons = mark_slots occ (cons[i := 1])"
  by (simp add: mark_slots_def)

lemma assign_spec:
  shows "length used = length ings \<Longrightarrow> distinct occ \<Longrightarrow>
      (\<forall>i \<in> set occ. i < length cons \<and> cons ! i = 0) \<Longrightarrow>
      (case assign_slots ings grid occ used cons of (b, used', cons') \<Rightarrow>
        b = assignable ings grid occ used \<and> (if b then cons' = mark_slots occ cons else used' = used \<and> cons' = cons))"
    and "length used = length ings \<Longrightarrow> distinct (i # occ) \<Longrightarrow>
      (\<forall>i \<in> set (i # occ). i < length cons \<and> cons ! i = 0) \<Longrightarrow> (\<forall>j \<in> set js. j < length ings) \<Longrightarrow>
      (case try_ingredients ings grid i occ js used cons of (b, used', cons') \<Rightarrow>
        b = (\<exists>j \<in> set js. \<not> used ! j \<and> ingredient_matches (ings ! j) (grid ! i) \<and>
          assignable ings grid occ (used[j := True])) \<and>
        (if b then cons' = mark_slots (i # occ) cons else used' = used \<and> cons' = cons))"
proof (induction ings grid occ used cons and ings grid i occ js used cons
    rule: assign_slots_try_ingredients.induct)
  case (1 ings grid used cons)
  then show ?case by (simp add: mark_slots_def)
next
  case (2 ings grid i occ used cons)
  have "\<forall>j \<in> set [0..<length ings]. j < length ings" by simp
  from 2(1) [OF 2(2,3,4) this] show ?case
    unfolding assignable_Cons [OF 2(2)] by (auto split: prod.splits)
next
  case (3 ings grid i occ used cons)
  then show ?case by simp
next
  case (4 ings grid i occ j js used cons)
  show ?case
  proof (cases "\<not> used ! j \<and> ingredient_matches (ings ! j) (grid ! i)")
    case False
    from 4(3) [OF False 4(4,5,6)] 4(7) False show ?thesis by (auto split: prod.splits)
  next
    case True
    obtain b u c where a: "assign_slots ings grid occ (used[j := True]) (cons[i := 1]) = (b, u, c)"
      by (cases "assign_slots ings grid occ (used[j := True]) (cons[i := 1])")
    have "length (used[j := True]) = length ings" "distinct occ"
      "\<forall>k \<in> set occ. k < length (cons[i := 1]) \<and> cons[i := 1] ! k = 0"
      using 4(4,5,6) by (auto simp: nth_list_update)
    note A = 4(1) [OF True this, unfolded a prod.case]
    show ?thesis
    proof (cases b)
      case True
      with A a \<open>\<not> used ! j \<and> _\<close> show ?thesis by (auto simp: mark_slots_Cons)
    next
      case False
      then have u: "u[j := False] = used" "c[i := 0] = cons"
        using A 4(4,6,7) \<open>\<not> used ! j \<and> _\<close> by (auto simp: list_update_same_conv)
      have "length used = length ings" "\<forall>k \<in> set js. k < length ings" using 4(4,7) by auto
      moreover have "b = False" using False by simp
      ultimately show ?thesis
        using 4(2) [OF True a [symmetric] \<open>b = False\<close> refl] 4(5,6) u A a True by (auto split: prod.splits)
    qed
  qed
qed

lemma mark_slots_nth:
  assumes "i < length cons" and "\<forall>j \<in> set occ. j < length cons"
  shows "mark_slots occ cons ! i = (if i \<in> set occ then 1 else cons ! i)"
  using assms
proof (induction occ arbitrary: cons)
  case (Cons j occ)
  then show ?case by (auto simp: mark_slots_Cons nth_list_update)
qed (simp add: mark_slots_def)

lemma mark_slots_length [simp]: "length (mark_slots occ cons) = length cons"
  by (induction occ arbitrary: cons) (simp_all add: mark_slots_def)

definition occupancy :: "container \<Rightarrow> u16 list" where
  "occupancy grid = map (\<lambda>s. if is_empty s then 0 else 1) (slots grid)"

lemma shapeless_match:
  assumes "recipe_type r = Shapeless" and "0 < w" and "0 < h" and "w * h = slot_count grid"
  shows "match_recipe r grid w h =
    Inr (if length (occupied_slots grid) = length (ingredients r) \<and>
        assignable (ingredients r) (slots grid) (occupied_slots grid) (replicate (length (ingredients r)) False)
      then Some (occupancy grid) else None)"
proof (cases "length (occupied_slots grid) = length (ingredients r)")
  case False
  then show ?thesis using assms by (simp add: match_recipe_def Let_def)
next
  case True
  let ?used = "replicate (length (ingredients r)) False" and ?cons = "replicate (slot_count grid) (0 :: u16)"
  have "length ?used = length (ingredients r)" "distinct (occupied_slots grid)"
    "\<forall>i \<in> set (occupied_slots grid). i < length ?cons \<and> ?cons ! i = 0"
    by (simp_all add: occupied_slots_def slot_count_def)
  note A = assign_spec(1) [OF this, of "slots grid"]
  have "mark_slots (occupied_slots grid) ?cons = occupancy grid"
    by (rule nth_equalityI)
      (auto simp: occupancy_def slot_count_def mark_slots_nth occupied_slots_def)
  with A True show ?thesis
    using assms by (auto simp: match_recipe_def Let_def split: prod.splits)
qed

lemma used_cells_occupancy:
  assumes "fits pattern grid w h" and "w * h = slot_count grid" and "0 < w"
  shows "used_cells pattern w h = occupancy grid"
proof (rule nth_equalityI)
  fix i assume "i < length (used_cells pattern w h)"
  then have i: "i < w * h" by (simp add: used_cells_def)
  have "i div w < h" "i mod w < w" using i assms(3) by (simp_all add: less_mult_imp_div_less mult.commute)
  then have "ingredient_matches (pattern (i div w) (i mod w)) (slots grid ! (i div w * w + i mod w))"
    using assms(1) unfolding fits_def by blast
  then have "ingredient_matches (pattern (i div w) (i mod w)) (slots grid ! i)"
    by (simp only: div_mult_mod_eq)
  then show "used_cells pattern w h ! i = occupancy grid ! i"
    using i assms(2) by (auto simp: used_cells_def occupancy_def slot_count_def ingredient_matches_def split: if_splits)
qed (use assms(2) in \<open>simp add: used_cells_def occupancy_def slot_count_def\<close>)

text \<open>A match always consumes one item from every occupied slot.\<close>

lemma match_consumes:
  assumes "match_recipe r grid w h = Inr (Some cons)"
  shows "cons = occupancy grid"
proof -
  from assms have g: "0 < w" "0 < h" "w * h = slot_count grid"
    by (auto simp: match_recipe_def split: if_splits)
  show ?thesis
  proof (cases "recipe_type r")
    case Shaped
    with assms have "recipe_width r \<le> w" "recipe_height r \<le> h"
      by (auto simp: match_recipe_def Let_def split: if_splits)
    from assms [unfolded shaped_match [OF Shaped g this]] g(1,3) show ?thesis
      by (auto simp: find_Some_iff used_cells_occupancy)
  next
    case Shapeless
    from assms [unfolded shapeless_match [OF Shapeless g]] show ?thesis by (auto split: if_splits)
  qed
qed

section \<open>Crafting conserves\<close>

text \<open>
  The contract between crafting and the containers it works on: taking and
  inserting account for every item of every kind.
\<close>

locale item_holder =
  fixes valid :: "'c \<Rightarrow> bool" and content :: "item_kind \<Rightarrow> 'c \<Rightarrow> nat"
    and take_op :: "'c \<Rightarrow> nat \<Rightarrow> u16 \<Rightarrow> (item_stack \<times> 'c) result"
    and insert_op :: "'c \<Rightarrow> item_stack \<Rightarrow> (item_stack \<times> 'c) result"
  assumes take_valid: "valid c \<Longrightarrow> take_op c i n = Inr (s, c') \<Longrightarrow> valid c'"
    and take_content: "valid c \<Longrightarrow> take_op c i n = Inr (s, c') \<Longrightarrow> content k c' + amount k s = content k c"
    and insert_valid: "valid c \<Longrightarrow> insert_op c s = Inr (left, c') \<Longrightarrow> valid c'"
    and insert_content: "valid c \<Longrightarrow> insert_op c s = Inr (left, c') \<Longrightarrow>
      content k c' + amount k left = content k c + amount k s"
begin

lemma insert_all:
  assumes "valid c" and "insert_op c s = Inr (left, c')" and "is_empty left"
  shows "content k c' = content k c + amount k s"
  using insert_content [OF assms(1,2), of k] assms(3) by (simp add: amount_is_empty)

text \<open>Moving between two holders: what the one loses the other gains, but for what did not fit.\<close>

lemma transfer:
  assumes "valid a" and "valid b" and "take_op a i n = Inr (s, a')" and "insert_op b s = Inr (left, b')"
  shows "valid a' \<and> valid b' \<and> content k a' + content k b' + amount k left = content k a + content k b"
  using take_valid [OF assms(1,3)] insert_valid [OF assms(2,4)] take_content [OF assms(1,3), of k]
    insert_content [OF assms(2,4), of k] by simp

lemma takes:
  assumes "foldR (\<lambda>(i, n) (ts, c). bindR (take_op c i n) (\<lambda>(s, c). Inr (ts @ [s], c))) moves (ts0, c) = Inr (ts, c')"
    and "valid c"
  shows "valid c' \<and> content k c' + sum_list (map (amount k) ts) = content k c + sum_list (map (amount k) ts0)"
  using assms
proof (induction moves arbitrary: ts0 c)
  case (Cons m moves)
  obtain i n where m: "m = (i, n)" by (cases m)
  from Cons.prems(1) m obtain s c1 where t: "take_op c i n = Inr (s, c1)"
    and r: "foldR (\<lambda>(i, n) (ts, c). bindR (take_op c i n) (\<lambda>(s, c). Inr (ts @ [s], c))) moves (ts0 @ [s], c1) = Inr (ts, c')"
    by (auto simp: bindR_Inr_iff)
  from Cons.IH [OF r take_valid [OF Cons.prems(2) t]] take_content [OF Cons.prems(2) t, of k]
  show ?case by simp
qed simp

end

interpretation holder: item_holder "container_ok reg" held take_from "insert_stack reg" for reg
proof (unfold_locales, goal_cases)
  case (1 c i n s c')
  then show ?case by (rule take_from_spec(1))
next
  case (2 c i n s c' k)
  then show ?case by (rule take_from_spec(3))
next
  case (3 c s left c')
  from insert_stack_partial [OF this] show ?case by simp
next
  case (4 c s left c' k)
  from insert_stack_partial [OF this] show ?case by simp
qed

text \<open>One step of crafting on a slot, and the loop over the grid.\<close>

definition consume_one :: "item_stack \<Rightarrow> item_stack" where
  "consume_one s = snd (take_stack s 1)"

lemma consume_one_empty: "consume_one empty_stack = empty_stack"
  by (simp add: consume_one_def take_stack_def Let_def empty_stack_def normalize_stack_def)

lemma consume_grid_occupied:
  assumes "container_ok reg grid" and "ns = map (\<lambda>s. if is_empty s then 0 else 1) (drop i (slots grid))"
  shows "\<exists>grid'. consume_grid i ns grid = Inr (Some grid') \<and> container_ok reg grid' \<and>
    slots grid' = take i (slots grid) @ map consume_one (drop i (slots grid)) \<and>
    slot_validator grid' = slot_validator grid \<and>
    (\<forall>k. held k grid = held k grid' + length (filter (\<lambda>s. \<not> is_empty s \<and> kind_of s = k) (drop i (slots grid))))"
  using assms
proof (induction ns arbitrary: i grid)
  case Nil
  then show ?case by simp
next
  case (Cons n ns)
  have "drop i (slots grid) \<noteq> []" using Cons.prems(2) by (cases "drop i (slots grid)") simp_all
  then have i: "i < length (slots grid)" by simp
  then have d: "drop i (slots grid) = slots grid ! i # drop (Suc i) (slots grid)"
    by (simp add: Cons_nth_drop_Suc)
  with Cons.prems have n: "n = (if is_empty (slots grid ! i) then 0 else 1)"
    and ns: "ns = map (\<lambda>s. if is_empty s then 0 else 1) (drop (Suc i) (slots grid))" by simp_all
  have ok: "stack_ok reg (slots grid ! i)"
    using Cons.prems(1) i by (auto simp: container_ok_def all_ok_nth)
  show ?case
  proof (cases "is_empty (slots grid ! i)")
    case True
    then have e: "consume_one (slots grid ! i) = slots grid ! i"
      using ok by (simp add: is_empty_ok consume_one_empty)
    from Cons.IH [OF Cons.prems(1) ns] True n e i d show ?thesis
      by (auto simp: take_Suc_conv_app_nth)
  next
    case False
    obtain s g where t: "take_from grid i 1 = Inr (s, g)"
      using i by (cases "take_stack (slots grid ! i) 1") (simp add: take_from_def Let_def)
    note T = take_from_spec [OF Cons.prems(1) t]
    have "stack_count (slots grid ! i) \<noteq> 0" using False by (simp add: is_empty_def)
    then have "unat (stack_count s) = 1" using T(5) by (simp add: unat_gt_0 Suc_leI min_def Suc_le_eq)
    then have c: "stack_count s = 1" by (simp add: unsigned_word_eqI [where 'a = nat])
    have sg: "slots g = (slots grid)[i := consume_one (slots grid ! i)]"
      using T(6) by (simp add: consume_one_def)
    then have dg: "drop (Suc i) (slots g) = drop (Suc i) (slots grid)"
      and tg: "take (Suc i) (slots g) = take i (slots grid) @ [consume_one (slots grid ! i)]"
      using i by (simp_all add: take_Suc_conv_app_nth)
    have ks: "amount k s = (if kind_of (slots grid ! i) = k then 1 else 0)" for k
    proof -
      obtain l where tt: "take_stack (slots grid ! i) 1 = (s, l)"
        using t i by (auto simp: take_from_def Let_def split: prod.splits)
      have "kind_of s = kind_of (slots grid ! i)"
        using take_stack_spec(5) [OF ok tt] c by (auto simp: is_empty_def)
      with c show ?thesis by (simp add: amount_def)
    qed
    have h: "held k grid = held k g + (if kind_of (slots grid ! i) = k then 1 else 0)" for k
      using T(3) [of k] by (simp add: ks)
    from Cons.IH [OF T(1), of "Suc i"] ns dg obtain g' where
      g': "consume_grid (Suc i) ns g = Inr (Some g')" "container_ok reg g'"
        "slots g' = take (Suc i) (slots g) @ map consume_one (drop (Suc i) (slots g))"
        "slot_validator g' = slot_validator g"
        "\<forall>k. held k g = held k g' + length (filter (\<lambda>s. \<not> is_empty s \<and> kind_of s = k) (drop (Suc i) (slots g)))"
      by auto
    have "n = 1" using n False by simp
    then have run: "consume_grid i (n # ns) grid = Inr (Some g')"
      using t c g'(1) by simp
    have sl: "slots g' = take i (slots grid) @ map consume_one (drop i (slots grid))"
      using g'(3) by (simp add: tg dg d)
    have val: "slot_validator g' = slot_validator grid"
      using g'(4) T(7) by simp
    have "held k grid = held k g' + length (filter (\<lambda>s. \<not> is_empty s \<and> kind_of s = k) (drop i (slots grid)))" for k
      using h [of k] g'(5) False by (simp add: d dg)
    with run g'(2) sl val show ?thesis by blast
  qed
qed

lemma match_recipes_Some:
  assumes "match_recipes rs grid w h = Inr (Some m)"
  shows "\<exists>r \<in> set rs. match_recipe r grid w h = Inr (Some (match_consumption m)) \<and>
    match_id m = recipe_id r \<and> match_result m = recipe_result r"
  using assms by (induction rs) (auto simp: bindR_Inr_iff split: option.splits)

lemma craft_once_spec:
  assumes "container_ok reg grid" and "container_ok reg out"
    and "craft_once reg recipes grid w h out = Inr (crafted, grid', out')"
  shows "if crafted
    then \<exists>r \<in> set recipes. is_ok (match_recipe r grid w h) \<and> match_recipe r grid w h \<noteq> Inr None \<and>
      container_ok reg grid' \<and> container_ok reg out' \<and>
      slots grid' = map consume_one (slots grid) \<and>
      (\<forall>k. held k grid = held k grid' + length (filter (\<lambda>s. \<not> is_empty s \<and> kind_of s = k) (slots grid))) \<and>
      (\<forall>k. held k out' = held k out + amount k (recipe_result r))
    else grid' = grid \<and> out' = out \<and>
      (match_recipes recipes grid w h = Inr None \<or>
       (\<exists>m left o'. match_recipes recipes grid w h = Inr (Some m) \<and>
         insert_stack reg out (match_result m) = Inr (left, o') \<and> \<not> is_empty left))"
proof -
  from assms(3) obtain mo where mo: "match_recipes recipes grid w h = Inr mo"
    by (auto simp: craft_once_def bindR_Inr_iff)
  show ?thesis
  proof (cases mo)
    case None
    with assms(3) mo show ?thesis by (auto simp: craft_once_def)
  next
    case (Some m)
    from match_recipes_Some [OF mo [unfolded Some]] obtain r where r: "r \<in> set recipes"
      "match_recipe r grid w h = Inr (Some (match_consumption m))" "match_result m = recipe_result r" by auto
    have cons: "match_consumption m = map (\<lambda>s. if is_empty s then 0 else 1) (drop 0 (slots grid))"
      using match_consumes [OF r(2)] by (simp add: occupancy_def)
    from consume_grid_occupied [OF assms(1) cons] obtain g where
      g: "consume_grid 0 (match_consumption m) grid = Inr (Some g)" "container_ok reg g"
        "slots g = map consume_one (slots grid)"
        "\<forall>k. held k grid = held k g + length (filter (\<lambda>s. \<not> is_empty s \<and> kind_of s = k) (slots grid))"
      by auto
    with assms(3) mo Some obtain left o' where i: "insert_stack reg out (match_result m) = Inr (left, o')"
      and res: "(if \<not> is_empty left then (False, grid, out) else (True, g, o')) = (crafted, grid', out')"
      by (auto simp: craft_once_def bindR_Inr_iff split: if_splits)
    show ?thesis
    proof (cases "is_empty left")
      case True
      note I = holder.insert_all [OF assms(2) i True] holder.insert_valid [OF assms(2) i]
      from res True have "crafted" "grid' = g" "out' = o'" by simp_all
      moreover have "is_ok (match_recipe r grid w h) \<and> match_recipe r grid w h \<noteq> Inr None"
        using r(2) by simp
      ultimately show ?thesis
        using r(1,3) g(2-4) I by (simp only: if_True) (blast intro: bexI [of _ r])
    next
      case False
      with res i mo Some show ?thesis by auto
    qed
  qed
qed


section \<open>The crafting manager\<close>

text \<open>What registration guarantees of the recipes of a manager.\<close>

definition recipe_ok :: "item_registry \<Rightarrow> recipe \<Rightarrow> bool" where
  "recipe_ok reg r = (stack_ok reg (recipe_result r) \<and> \<not> is_empty (recipe_result r) \<and>
     (case recipe_type r of
        Shaped \<Rightarrow> recipe_width r \<in> {1..3} \<and> recipe_height r \<in> {1..3} \<and>
          length (ingredients r) = recipe_width r * recipe_height r
      | Shapeless \<Rightarrow> length (ingredients r) \<in> {1..9} \<and> [] \<notin> set (ingredients r)))"

definition recipes_ok :: "item_registry \<Rightarrow> recipe list \<Rightarrow> bool" where
  "recipes_ok reg rs = ((\<forall>r \<in> set rs. recipe_ok reg r) \<and> distinct (map recipe_id rs))"

text \<open>A recipe the two factories made, before its result is validated.\<close>

definition recipe_shape :: "recipe \<Rightarrow> bool" where
  "recipe_shape r = (\<not> is_empty (recipe_result r) \<and>
     (case recipe_type r of
        Shaped \<Rightarrow> recipe_width r \<in> {1..3} \<and> recipe_height r \<in> {1..3} \<and>
          length (ingredients r) = recipe_width r * recipe_height r
      | Shapeless \<Rightarrow> length (ingredients r) \<in> {1..9} \<and> [] \<notin> set (ingredients r)))"

lemma shaped_recipe_shape: "shaped_recipe i w h ings res = Inr r \<Longrightarrow> recipe_shape r \<and> recipe_id r = i \<and> recipe_result r = res"
  by (auto simp: shaped_recipe_def new_recipe_def recipe_shape_def split: if_splits)

lemma shapeless_recipe_shape: "shapeless_recipe i ings res = Inr r \<Longrightarrow> recipe_shape r \<and> recipe_id r = i \<and> recipe_result r = res"
  by (auto simp: shapeless_recipe_def new_recipe_def recipe_shape_def Suc_le_eq split: if_splits)

lemma register_recipe_ok:
  assumes "register_recipe reg rs r = Inr rs'" and "recipes_ok reg rs" and "recipe_shape r"
  shows "recipes_ok reg rs' \<and> rs' = rs @ [r]"
proof -
  from assms(1) have "stack_ok reg (recipe_result r)" "recipe_id r \<notin> recipe_id ` set rs" "rs' = rs @ [r]"
    by (auto simp: register_recipe_def stack_ok_def bindR_Inr_iff split: if_splits)
  with assms(2,3) show ?thesis
    by (auto simp: recipes_ok_def recipe_ok_def recipe_shape_def)
qed

lemma record_recipe_shape: "record_recipe reg parts rid res = Inr (Some r) \<Longrightarrow> recipe_shape r"
  by (auto simp: record_recipe_def bindR_Inr_iff split: if_splits option.splits
      dest: shaped_recipe_shape shapeless_recipe_shape)

definition recipes_inv :: "item_registry \<Rightarrow> recipe list \<Rightarrow> recipe list \<times> recipe_load_report \<Rightarrow> bool" where
  "recipes_inv reg rs0 = (\<lambda>(rs, report). recipes_ok reg rs \<and>
     recipes_encountered report = recipes_loaded report + recipes_skipped report \<and>
     length rs = length rs0 + recipes_loaded report \<and> take (length rs0) rs = rs0)"

lemma load_recipe_line_inv:
  assumes "recipes_inv reg rs0 st" and "load_recipe_line reg line st = Inr st'"
  shows "recipes_inv reg rs0 st'"
proof -
  obtain rs report where st: "st = (rs, report)" by (cases st)
  let ?report = "report\<lparr>recipes_encountered := recipes_encountered report + 1\<rparr>"
  from assms(2) consider "st' = st" | "st' = skip_record (rs, ?report)"
    | rid res r rs' where "record_recipe reg (split_on CHR 0x09 line) rid res = Inr (Some r)"
        "register_recipe reg rs r = Inr rs'"
        "st' = (rs', ?report\<lparr>recipes_loaded := recipes_loaded report + 1\<rparr>)"
    by (auto simp: load_recipe_line_def st Let_def bindR_Inr_iff split: if_splits sum.splits exn.splits option.splits)
  then show ?thesis
  proof cases
    case 3
    have ok: "recipes_ok reg rs" using assms(1) by (simp add: recipes_inv_def st)
    from register_recipe_ok [OF 3(2) ok record_recipe_shape [OF 3(1)]] 3(3) assms(1) show ?thesis
      by (auto simp: recipes_inv_def st)
  qed (use assms(1) in \<open>auto simp: recipes_inv_def st skip_record_def\<close>)
qed

lemma builtin_recipe_ok:
  assumes "builtin_recipe reg name mk rs = Inr rs'" and "recipes_ok reg rs"
    and "\<And>l r. mk l = Inr r \<Longrightarrow> recipe_shape r"
  shows "recipes_ok reg rs' \<and> length rs' = Suc (length rs)"
  using assms register_recipe_ok [OF _ assms(2)]
  by (fastforce simp: builtin_recipe_def bindR_Inr_iff)

lemma new_manager_ok: "new_crafting_manager reg = Inr rs \<Longrightarrow> recipes_ok reg rs \<and> length rs = 4"
proof -
  assume "new_crafting_manager reg = Inr rs"
  then obtain mk1 mk2 mk3 mk4 n1 n2 n3 n4 r1 r2 r3 where
    "builtin_recipe reg n1 mk1 [] = Inr r1" "builtin_recipe reg n2 mk2 r1 = Inr r2"
    "builtin_recipe reg n3 mk3 r2 = Inr r3" "builtin_recipe reg n4 mk4 r3 = Inr rs"
    and "\<And>l r. mk1 l = Inr r \<Longrightarrow> recipe_shape r" "\<And>l r. mk2 l = Inr r \<Longrightarrow> recipe_shape r"
    "\<And>l r. mk3 l = Inr r \<Longrightarrow> recipe_shape r" "\<And>l r. mk4 l = Inr r \<Longrightarrow> recipe_shape r"
    unfolding new_crafting_manager_def Let_def bindR_Inr_iff
    by (elim exE conjE, blast dest: shaped_recipe_shape shapeless_recipe_shape)
  note b = this
  have "recipes_ok reg []" by (simp add: recipes_ok_def)
  note r1 = builtin_recipe_ok [OF b(1) this b(5)]
  note r2 = builtin_recipe_ok [OF b(2) conjunct1 [OF r1] b(6)]
  note r3 = builtin_recipe_ok [OF b(3) conjunct1 [OF r2] b(7)]
  from builtin_recipe_ok [OF b(4) conjunct1 [OF r3] b(8)] r1 r2 r3 show ?thesis by simp
qed

section \<open>Properties\<close>

text \<open>C28. A shaped recipe matches a grid exactly when its pattern, or the mirrored pattern, can be placed
  somewhere in the grid so that every cell agrees: the cell's stack is one the pattern's ingredient admits,
  and every cell where the pattern has nothing is empty. The match then takes one item from every occupied
  slot.\<close>

theorem shaped_recipe_match:
  assumes "recipe_type r = Shaped" and "0 < w" and "0 < h" and "slot_count grid = w * h"
  shows "\<exists>m. match_recipe r grid w h = Inr m \<and>
    (m \<noteq> None) = (\<exists>oy ox mirrored. oy + recipe_height r \<le> h \<and> ox + recipe_width r \<le> w \<and>
      (\<forall>y < h. \<forall>x < w. ingredient_matches (pattern_at r oy ox mirrored y x) (slots grid ! (y * w + x)))) \<and>
    (m = None \<or> m = Some (map (\<lambda>s. if is_empty s then 0 else 1) (slots grid)))"
proof (cases "recipe_width r \<le> w \<and> recipe_height r \<le> h")
  case True
  then have d: "recipe_width r \<le> w" "recipe_height r \<le> h" by simp_all
  note M = shaped_match [OF assms(1-3) assms(4) [symmetric] d]
  let ?f = "\<lambda>(oy, ox, m). fits (pattern_at r oy ox m) grid w h"
  obtain m where m: "match_recipe r grid w h = Inr m"
    "m = map_option (\<lambda>(oy, ox, m). used_cells (pattern_at r oy ox m) w h) (find ?f (placements r w h))"
    using M by blast
  have P: "(oy, ox, mir) \<in> set (placements r w h) \<longleftrightarrow> oy + recipe_height r \<le> h \<and> ox + recipe_width r \<le> w" for oy ox mir
    using d by (cases mir) (auto simp: placements_def less_Suc_eq_le le_diff_conv2)
  have "m \<noteq> None \<longleftrightarrow> (\<exists>p \<in> set (placements r w h). ?f p)"
    unfolding m(2) by (auto simp: find_None_iff)
  also have "\<dots> \<longleftrightarrow> (\<exists>oy ox mirrored. oy + recipe_height r \<le> h \<and> ox + recipe_width r \<le> w \<and>
      fits (pattern_at r oy ox mirrored) grid w h)"
    using P by (auto simp: Bex_def)
  finally have "m \<noteq> None \<longleftrightarrow> (\<exists>oy ox mirrored. oy + recipe_height r \<le> h \<and> ox + recipe_width r \<le> w \<and>
      fits (pattern_at r oy ox mirrored) grid w h)" .
  moreover have "m = None \<or> m = Some (occupancy grid)"
    using match_consumes [of r grid w h] m(1) by (cases m) auto
  ultimately show ?thesis
    using m(1) by (auto simp: fits_def occupancy_def)
next
  case False
  then have "match_recipe r grid w h = Inr None"
    using assms by (auto simp: match_recipe_def Let_def)
  with False show ?thesis by auto
qed

text \<open>C29. A shapeless recipe matches a grid exactly when there is a one-to-one assignment of its ingredients to
  the occupied slots in which every slot's stack is one its ingredient admits: the backtracking search is
  complete. The match then takes one item from every occupied slot.\<close>

theorem shapeless_recipe_match:
  assumes "recipe_type r = Shapeless" and "0 < w" and "0 < h" and "slot_count grid = w * h"
  shows "\<exists>m. match_recipe r grid w h = Inr m \<and>
    (m \<noteq> None) = (\<exists>js. distinct js \<and> set js = {..< length (ingredients r)} \<and>
      list_all2 (\<lambda>i j. ingredient_matches (ingredients r ! j) (slots grid ! i))
        (filter (\<lambda>i. \<not> is_empty (slots grid ! i)) [0..<slot_count grid]) js) \<and>
    (m = None \<or> m = Some (map (\<lambda>s. if is_empty s then 0 else 1) (slots grid)))"
proof -
  let ?ings = "ingredients r" and ?occ = "occupied_slots grid"
  let ?match = "\<lambda>i j. ingredient_matches (?ings ! j) (slots grid ! i)"
  have "length ?occ = length ?ings \<and> assignable ?ings (slots grid) ?occ (replicate (length ?ings) False) \<longleftrightarrow>
    (\<exists>js. distinct js \<and> set js = {..< length ?ings} \<and> list_all2 ?match ?occ js)"
  proof
    assume a: "length ?occ = length ?ings \<and> assignable ?ings (slots grid) ?occ (replicate (length ?ings) False)"
    then obtain js where js: "distinct js" "\<forall>j \<in> set js. j < length ?ings" "list_all2 ?match ?occ js"
      by (auto simp: assignable_def)
    then have "card (set js) = card {..< length ?ings}" "set js \<subseteq> {..< length ?ings}"
      using a by (auto simp: distinct_card dest: list_all2_lengthD)
    then have "set js = {..< length ?ings}" by (intro card_subset_eq) auto
    with js show "\<exists>js. distinct js \<and> set js = {..< length ?ings} \<and> list_all2 ?match ?occ js" by blast
  next
    assume "\<exists>js. distinct js \<and> set js = {..< length ?ings} \<and> list_all2 ?match ?occ js"
    then obtain js where js: "distinct js" "set js = {..< length ?ings}" "list_all2 ?match ?occ js" by blast
    have "length ?occ = length js" using js(3) by (rule list_all2_lengthD)
    also have "\<dots> = length ?ings" using distinct_card [OF js(1)] js(2) by simp
    finally show "length ?occ = length ?ings \<and> assignable ?ings (slots grid) ?occ (replicate (length ?ings) False)"
      using js unfolding assignable_def by (intro conjI exI [of _ js]) auto
  qed
  with shapeless_match [OF assms(1-3) assms(4) [symmetric]] show ?thesis
    by (auto simp: occupancy_def occupied_slots_def slot_count_def)
qed

text \<open>C9. Crafting is all or nothing and conserves: when it reports success, some registered recipe matched, every
  occupied grid slot lost exactly one item, and the output gained exactly the recipe's result; the check
  that an ingredient could be taken never fails. Otherwise both containers are unchanged, and the reason is
  that no recipe matched or that the result did not fit.\<close>

theorem craft_once_atomic:
  assumes "container_ok reg grid" and "container_ok reg out"
    and "craft_once reg recipes grid w h out = Inr (crafted, grid', out')"
  shows "if crafted
    then \<exists>r \<in> set recipes. \<exists>cons. match_recipe r grid w h = Inr (Some cons) \<and>
      container_ok reg grid' \<and> container_ok reg out' \<and>
      (\<forall>k. held k grid = held k grid' + length (filter (\<lambda>s. \<not> is_empty s \<and> kind_of s = k) (slots grid))) \<and>
      slots grid' = map (\<lambda>s. snd (take_stack s 1)) (slots grid) \<and>
      (\<forall>k. held k out' = held k out + amount k (recipe_result r))
    else grid' = grid \<and> out' = out \<and>
      (match_recipes recipes grid w h = Inr None \<or>
       (\<exists>m left o'. match_recipes recipes grid w h = Inr (Some m) \<and>
         insert_stack reg out (match_result m) = Inr (left, o') \<and> \<not> is_empty left))"
proof (cases crafted)
  case True
  with craft_once_spec [OF assms] obtain r cons where "r \<in> set recipes" "match_recipe r grid w h = Inr (Some cons)"
    and rest: "container_ok reg grid'" "container_ok reg out'" "slots grid' = map consume_one (slots grid)"
      "\<forall>k. held k grid = held k grid' + length (filter (\<lambda>s. \<not> is_empty s \<and> kind_of s = k) (slots grid))"
      "\<forall>k. held k out' = held k out + amount k (recipe_result r)"
    by (auto simp: is_ok_iff)
  with True show ?thesis
    by (simp only: if_True consume_one_def [abs_def]) blast
qed (use craft_once_spec [OF assms] in simp)

text \<open>Loading recipes keeps the manager well-formed: every recipe has a valid result and the shape its kind
  demands (1 to 3 by 1 to 3 cells, or 1 to 9 non-empty ingredients), ids are unique, the recipes it had stay
  first, and every record encountered is counted as loaded or skipped.\<close>

theorem recipe_load:
  assumes "recipes_ok reg recipes" and "load_normalized_recipes reg recipes input = Inr (recipes', report)"
  shows "recipes_ok reg recipes' \<and> take (length recipes) recipes' = recipes \<and>
    length recipes' = length recipes + recipes_loaded report \<and>
    recipes_encountered report = recipes_loaded report + recipes_skipped report"
proof -
  from assms(2) obtain ls where
    "foldR (load_recipe_line reg) ls (recipes, \<lparr>recipes_encountered = 0, recipes_loaded = 0, recipes_skipped = 0\<rparr>) =
      Inr (recipes', report)"
    by (auto simp: load_normalized_recipes_def split: list.splits if_splits)
  moreover have "recipes_inv reg recipes (recipes, \<lparr>recipes_encountered = 0, recipes_loaded = 0, recipes_skipped = 0\<rparr>)"
    using assms(1) by (simp add: recipes_inv_def)
  ultimately have "recipes_inv reg recipes (recipes', report)"
    by (rule foldR_invariant) (rule load_recipe_line_inv)
  then show ?thesis by (simp add: recipes_inv_def)
qed


text \<open>The data of the witnesses: two items, a grid with one stack of stone, and the recipes of stone.\<close>

definition pair_registry :: item_registry where
  "pair_registry =
     [\<lparr>item_index = 0, item_name = \<lparr>name_space = ''minecraft'', loc_path = ''air''\<rparr>,
       properties = default_properties, protocol_id = None\<rparr>,
      \<lparr>item_index = 1, item_name = \<lparr>name_space = ''minecraft'', loc_path = ''stone''\<rparr>,
       properties = default_properties, protocol_id = None\<rparr>]"

definition stone_recipe :: "recipe_type \<Rightarrow> recipe" where
  "stone_recipe t = \<lparr>recipe_id = \<lparr>name_space = ''minecraft'', loc_path = ''x''\<rparr>, recipe_type = t,
     recipe_width = 1, recipe_height = 1, ingredients = [[1]], recipe_result = sample_stack 2\<rparr>"

definition stone_recipe_text :: string where
  "stone_recipe_text = ''MCRECIPES1'' @ [CHR 0x09, CHR 0x0A] @
     ''L'' @ [CHR 0x09] @ ''x'' @ [CHR 0x09] @ ''stone'' @ [CHR 0x09] @ ''2'' @ [CHR 0x09] @ ''stone'' @ [CHR 0x0A]"

lemma sample_container_pair_ok: "container_ok pair_registry sample_container"
  by (simp add: container_ok_def sample_container_def sample_stack_def pair_registry_def stack_ok_iff
      is_empty_def stack_limit_def default_properties_def)

theorem shaped_recipe_match_witness:
  "\<exists>m. match_recipe (stone_recipe Shaped) sample_container 2 1 = Inr (Some m)"
proof -
  have h: "recipe_type (stone_recipe Shaped) = Shaped" "0 < (2 :: nat)" "0 < (1 :: nat)"
      "slot_count sample_container = 2 * 1"
    by (simp_all add: stone_recipe_def slot_count_def sample_container_def)
  obtain m where m: "match_recipe (stone_recipe Shaped) sample_container 2 1 = Inr m"
    "(m \<noteq> None) = (\<exists>oy ox mirrored. oy + recipe_height (stone_recipe Shaped) \<le> 1 \<and>
      ox + recipe_width (stone_recipe Shaped) \<le> 2 \<and> (\<forall>y < 1. \<forall>x < 2.
        ingredient_matches (pattern_at (stone_recipe Shaped) oy ox mirrored y x) (slots sample_container ! (y * 2 + x))))"
    using shaped_recipe_match [OF h] by blast
  have "0 + recipe_height (stone_recipe Shaped) \<le> 1 \<and> 0 + recipe_width (stone_recipe Shaped) \<le> 2 \<and> (\<forall>y < 1. \<forall>x < 2.
        ingredient_matches (pattern_at (stone_recipe Shaped) 0 0 False y x) (slots sample_container ! (y * 2 + x)))"
    by (auto simp: stone_recipe_def sample_container_def sample_stack_def pattern_at_def ingredient_matches_def
        is_empty_def less_2_cases_iff empty_stack_def)
  with m show ?thesis by blast
qed

theorem shapeless_recipe_match_witness:
  "\<exists>m. match_recipe (stone_recipe Shapeless) sample_container 2 1 = Inr (Some m)"
proof -
  have h: "recipe_type (stone_recipe Shapeless) = Shapeless" "0 < (2 :: nat)" "0 < (1 :: nat)"
      "slot_count sample_container = 2 * 1"
    by (simp_all add: stone_recipe_def slot_count_def sample_container_def)
  obtain m where m: "match_recipe (stone_recipe Shapeless) sample_container 2 1 = Inr m"
    "(m \<noteq> None) = (\<exists>js. distinct js \<and> set js = {..< length (ingredients (stone_recipe Shapeless))} \<and>
      list_all2 (\<lambda>i j. ingredient_matches (ingredients (stone_recipe Shapeless) ! j) (slots sample_container ! i))
        (filter (\<lambda>i. \<not> is_empty (slots sample_container ! i)) [0..<slot_count sample_container]) js)"
    using shapeless_recipe_match [OF h] by blast
  have "distinct [0 :: nat] \<and> set [0] = {..< length (ingredients (stone_recipe Shapeless))} \<and>
      list_all2 (\<lambda>i j. ingredient_matches (ingredients (stone_recipe Shapeless) ! j) (slots sample_container ! i))
        (filter (\<lambda>i. \<not> is_empty (slots sample_container ! i)) [0..<slot_count sample_container]) [0]"
    by (auto simp: stone_recipe_def sample_container_def sample_stack_def ingredient_matches_def
        is_empty_def slot_count_def empty_stack_def)
  with m show ?thesis by blast
qed

theorem craft_once_atomic_witness:
  "\<exists>grid' out'. craft_once pair_registry [stone_recipe Shapeless] sample_container 2 1 sample_container =
     Inr (True, grid', out') \<and> container_ok pair_registry grid' \<and> container_ok pair_registry out'"
proof -
  have "(case craft_once pair_registry [stone_recipe Shapeless] sample_container 2 1 sample_container of
      Inr (b, _) \<Rightarrow> b | _ \<Rightarrow> False)"
    by code_simp
  then obtain grid' out' where
    c: "craft_once pair_registry [stone_recipe Shapeless] sample_container 2 1 sample_container = Inr (True, grid', out')"
    by (auto split: sum.splits)
  from craft_once_atomic [OF sample_container_pair_ok sample_container_pair_ok c] c show ?thesis by auto
qed

theorem recipe_load_witness:
  "\<exists>rs report. load_normalized_recipes pair_registry [] stone_recipe_text = Inr (rs, report) \<and>
     recipes_ok pair_registry rs \<and> length rs = 1"
proof -
  have "(case load_normalized_recipes pair_registry [] stone_recipe_text of
      Inr (rs, report) \<Rightarrow> recipes_loaded report = 1 | _ \<Rightarrow> False)"
    by code_simp
  then obtain rs report where
    l: "load_normalized_recipes pair_registry [] stone_recipe_text = Inr (rs, report)" "recipes_loaded report = 1"
    by (auto split: sum.splits)
  have "recipes_ok pair_registry []" by (simp add: recipes_ok_def)
  from recipe_load [OF this l(1)] l show ?thesis by auto
qed

end
