(* ===== verification/Chunk.thy ===== *)
theory Chunk
  imports Prelude
begin

text \<open>
  Chunks (include/mc/world/chunk.hpp, src/world/chunk.cpp): 24 sections of
  16 x 16 x 16 blocks with their count of blocks that are not air, a height
  map with one height per column, quarter-resolution biomes and the dirty flag.

  \<open>BlockId\<close> is an enum over \<open>std::uint16_t\<close>; the code also casts other numbers
  to it, so a block is a 16-bit word and the enumerators are constants. \<open>BiomeId\<close>
  is treated alike. Heights and Y coordinates are \<open>int\<close>: every operation checks
  that its \<open>std::int32_t\<close> is in [-64, 320) before it computes with it, so nothing
  wraps. The arrays are lists of their fixed lengths.
\<close>

section \<open>Constants\<close>

type_synonym block_value = u16
type_synonym biome_value = u8

definition air :: block_value where "air = 0"
definition bedrock :: block_value where "bedrock = 1"
definition stone :: block_value where "stone = 2"
definition dirt :: block_value where "dirt = 3"
definition grass_block :: block_value where "grass_block = 4"
definition water :: block_value where "water = 5"
definition sand :: block_value where "sand = 6"
definition gravel :: block_value where "gravel = 7"
definition coal_ore :: block_value where "coal_ore = 8"
definition iron_ore :: block_value where "iron_ore = 9"
definition oak_log :: block_value where "oak_log = 10"
definition oak_leaves :: block_value where "oak_leaves = 11"
definition short_grass :: block_value where "short_grass = 12"
definition dandelion :: block_value where "dandelion = 13"
definition poppy :: block_value where "poppy = 14"

definition plains :: biome_value where "plains = 0"
definition forest :: biome_value where "forest = 1"
definition desert :: biome_value where "desert = 2"
definition ocean :: biome_value where "ocean = 3"
definition mountains :: biome_value where "mountains = 4"

definition min_build_y :: int where "min_build_y = - 64"
definition max_build_y :: int where "max_build_y = 320"
definition section_count :: nat where "section_count = 24"

record chunk_position =
  chunk_x :: i32
  chunk_z :: i32

section \<open>Sections\<close>

record chunk_section =
  blocks :: "block_value list"
  non_air_count :: nat

definition empty_section :: chunk_section where
  "empty_section = \<lparr>blocks = replicate 4096 air, non_air_count = 0\<rparr>"

definition block_index :: "nat \<Rightarrow> nat \<Rightarrow> nat \<Rightarrow> nat result" where
  "block_index x y z =
     (if x \<ge> 16 \<or> y \<ge> 16 \<or> z \<ge> 16
      then Inl (Out_Of_Range ''chunk-section block coordinate is out of range'')
      else Inr ((y * 16 + z) * 16 + x))"

definition column_index :: "nat \<Rightarrow> nat \<Rightarrow> nat result" where
  "column_index x z =
     (if x \<ge> 16 \<or> z \<ge> 16 then Inl (Out_Of_Range ''chunk column coordinate is out of range'')
      else Inr (z * 16 + x))"

definition section_block :: "chunk_section \<Rightarrow> nat \<Rightarrow> nat \<Rightarrow> nat \<Rightarrow> block_value result" where
  "section_block s x y z = bindR (block_index x y z) (\<lambda>i. Inr (blocks s ! i))"

definition section_set_block ::
    "chunk_section \<Rightarrow> nat \<Rightarrow> nat \<Rightarrow> nat \<Rightarrow> block_value \<Rightarrow> chunk_section result" where
  "section_set_block s x y z b = bindR (block_index x y z) (\<lambda>i.
     let current = blocks s ! i;
         n = (if current = air \<and> b \<noteq> air then non_air_count s + 1
              else if current \<noteq> air \<and> b = air then non_air_count s - 1
              else non_air_count s)
     in Inr (s\<lparr>blocks := (blocks s)[i := b], non_air_count := n\<rparr>))"

section \<open>Chunks\<close>

record chunk =
  position :: chunk_position
  sections :: "chunk_section list"
  heightmap :: "int list"
  biomes :: "biome_value list"
  dirty :: bool

definition new_chunk :: "chunk_position \<Rightarrow> chunk" where
  "new_chunk pos = \<lparr>position = pos, sections = replicate section_count empty_section,
     heightmap = replicate 256 min_build_y, biomes = replicate (section_count * 64) plains, dirty = False\<rparr>"

definition section_offset :: "int \<Rightarrow> nat result" where
  "section_offset y =
     (if y < min_build_y \<or> y \<ge> max_build_y
      then Inl (Out_Of_Range ''block Y coordinate is outside build height'')
      else Inr (nat (y - min_build_y)))"

definition chunk_block :: "chunk \<Rightarrow> nat \<Rightarrow> int \<Rightarrow> nat \<Rightarrow> block_value result" where
  "chunk_block c x y z = bindR (section_offset y) (\<lambda>off.
     section_block (sections c ! (off div 16)) x (off mod 16) z)"

text \<open>
  The loop that lowers a column's height to the next block that is not air. It
  counts the steps left to the lowest height.
\<close>

function lower_height :: "chunk \<Rightarrow> nat \<Rightarrow> nat \<Rightarrow> int \<Rightarrow> int result" where
  "lower_height c x z h =
     (if h > min_build_y
      then bindR (chunk_block c x h z) (\<lambda>b. if b = air then lower_height c x z (h - 1) else Inr h)
      else Inr h)"
  by pat_completeness auto
termination
  by (relation "measure (\<lambda>(c, x, z, h). nat (h - min_build_y))") auto

text \<open>What a write of \<open>b\<close> over \<open>previous\<close> does to the height of its column.\<close>

definition update_height ::
    "nat \<Rightarrow> int \<Rightarrow> nat \<Rightarrow> block_value \<Rightarrow> block_value \<Rightarrow> chunk \<Rightarrow> chunk result" where
  "update_height x y z previous b c = bindR (column_index x z) (\<lambda>ci.
     let h = heightmap c ! ci in
     if b \<noteq> air \<and> y > h then Inr (c\<lparr>heightmap := (heightmap c)[ci := y]\<rparr>)
     else if previous \<noteq> air \<and> b = air \<and> y = h
     then bindR (lower_height c x z h) (\<lambda>h'. Inr (c\<lparr>heightmap := (heightmap c)[ci := h']\<rparr>))
     else Inr c)"

definition chunk_set_block :: "chunk \<Rightarrow> nat \<Rightarrow> int \<Rightarrow> nat \<Rightarrow> block_value \<Rightarrow> chunk result" where
  "chunk_set_block c x y z b = bindR (section_offset y) (\<lambda>off.
     let si = off div 16 in
     bindR (section_block (sections c ! si) x (off mod 16) z) (\<lambda>previous.
     bindR (section_set_block (sections c ! si) x (off mod 16) z b) (\<lambda>s.
     update_height x y z previous b
       (c\<lparr>sections := (sections c)[si := s], dirty := dirty c \<or> previous \<noteq> b\<rparr>))))"

definition chunk_height :: "chunk \<Rightarrow> nat \<Rightarrow> nat \<Rightarrow> int result" where
  "chunk_height c x z = bindR (column_index x z) (\<lambda>ci. Inr (heightmap c ! ci))"

definition set_height :: "chunk \<Rightarrow> nat \<Rightarrow> nat \<Rightarrow> int \<Rightarrow> chunk result" where
  "set_height c x z h =
     (if h < min_build_y \<or> h \<ge> max_build_y
      then Inl (Out_Of_Range ''heightmap value is outside build height'')
      else bindR (column_index x z) (\<lambda>ci.
        Inr (c\<lparr>heightmap := (heightmap c)[ci := h], dirty := True\<rparr>)))"

definition biome_index :: "nat \<Rightarrow> nat \<Rightarrow> nat \<Rightarrow> nat result" where
  "biome_index qx qy qz =
     (if qx \<ge> 4 \<or> qz \<ge> 4 \<or> qy \<ge> section_count * 4
      then Inl (Out_Of_Range ''quart biome coordinate is out of range'')
      else Inr ((qy * 4 + qz) * 4 + qx))"

definition chunk_biome :: "chunk \<Rightarrow> nat \<Rightarrow> nat \<Rightarrow> nat \<Rightarrow> biome_value result" where
  "chunk_biome c qx qy qz = bindR (biome_index qx qy qz) (\<lambda>i. Inr (biomes c ! i))"

definition set_biome :: "chunk \<Rightarrow> nat \<Rightarrow> nat \<Rightarrow> nat \<Rightarrow> biome_value \<Rightarrow> chunk result" where
  "set_biome c qx qy qz b = bindR (biome_index qx qy qz) (\<lambda>i.
     Inr (c\<lparr>biomes := (biomes c)[i := b], dirty := True\<rparr>))"

definition mark_saved :: "chunk \<Rightarrow> chunk" where
  "mark_saved c = c\<lparr>dirty := False\<rparr>"

section \<open>Stores of blocks\<close>

text \<open>
  What the code relies on wherever it reads and writes blocks by position: a
  read or a write succeeds exactly at the positions the store has, a write is
  seen by the reads of that position and by no other, and keeps the store
  well-formed.
\<close>

locale block_store =
  fixes get :: "'s \<Rightarrow> 'p \<Rightarrow> block_value result"
    and put :: "'s \<Rightarrow> 'p \<Rightarrow> block_value \<Rightarrow> 's result"
    and ok :: "'s \<Rightarrow> bool"
    and here :: "'p \<Rightarrow> bool"
  assumes get_ok: "ok s \<Longrightarrow> is_ok (get s p) = here p"
    and put_ok: "ok s \<Longrightarrow> is_ok (put s p b) = here p"
    and put_keeps: "ok s \<Longrightarrow> put s p b = Inr s' \<Longrightarrow> ok s'"
    and get_put: "ok s \<Longrightarrow> put s p b = Inr s' \<Longrightarrow> get s' q = (if q = p then Inr b else get s q)"
begin

definition put_all :: "('p \<times> block_value) list \<Rightarrow> 's \<Rightarrow> 's result" where
  "put_all = foldR (\<lambda>(p, b) s. put s p b)"

lemma put_all_simps [simp]:
  "put_all [] s = Inr s" "put_all ((p, b) # ws) s = bindR (put s p b) (put_all ws)"
  by (simp_all add: put_all_def)

lemma put_all_ok: "ok s \<Longrightarrow> is_ok (put_all ws s) = (\<forall>(p, b) \<in> set ws. here p)"
proof (induction ws arbitrary: s)
  case (Cons w ws)
  obtain p b where w: "w = (p, b)" by (cases w)
  show ?case
  proof (cases "put s p b")
    case (Inl e)
    with put_ok [OF Cons.prems, of p b] w show ?thesis by auto
  next
    case (Inr s')
    with put_ok [OF Cons.prems, of p b] put_keeps [OF Cons.prems Inr] Cons.IH [of s'] w show ?thesis by auto
  qed
qed simp

lemma put_all_keeps: "ok s \<Longrightarrow> put_all ws s = Inr s' \<Longrightarrow> ok s'"
proof (induction ws arbitrary: s)
  case (Cons w ws)
  then show ?case by (cases w) (auto simp: bindR_Inr_iff dest: put_keeps)
qed simp

text \<open>After a sequence of writes a position holds what was written to it last.\<close>

lemma get_put_all:
  "ok s \<Longrightarrow> put_all ws s = Inr s' \<Longrightarrow>
   get s' q = (case map_of (rev ws) q of None \<Rightarrow> get s q | Some b \<Rightarrow> Inr b)"
proof (induction ws arbitrary: s)
  case (Cons w ws)
  obtain p b where w: "w = (p, b)" by (cases w)
  from Cons.prems w obtain t where t: "put s p b = Inr t" "put_all ws t = Inr s'" by (auto simp: bindR_Inr_iff)
  have "get s' q = (case map_of (rev ws) q of None \<Rightarrow> get t q | Some b \<Rightarrow> Inr b)"
    using Cons.IH [OF put_keeps [OF Cons.prems(1) t(1)] t(2)] .
  then show ?case
    using get_put [OF Cons.prems(1) t(1), of q] w by (auto simp: map_add_def split: option.splits)
qed simp

text \<open>Writes to different positions commute, as far as the reads can tell.\<close>

lemma put_commute:
  assumes "ok s" and "p \<noteq> q" and "put s p a = Inr s1" "put s1 q b = Inr s2"
    and "put s q b = Inr t1" "put t1 p a = Inr t2"
  shows "get s2 r = get t2 r"
  using assms get_put put_keeps by (smt (verit))

end

section \<open>Well-formed sections\<close>

definition section_ok :: "chunk_section \<Rightarrow> bool" where
  "section_ok s = (length (blocks s) = 4096 \<and>
     non_air_count s = length (filter (\<lambda>b. b \<noteq> air) (blocks s)))"

lemma count_update:
  "i < length xs \<Longrightarrow> length (filter P (xs[i := b])) + (if P (xs ! i) then 1 else 0) =
     length (filter P xs) + (if P b then 1 else 0)"
proof (induction xs arbitrary: i)
  case (Cons x xs)
  then show ?case by (cases i) auto
qed simp

lemma count_update_cases:
  assumes "i < length xs"
  shows "P b \<Longrightarrow> \<not> P (xs ! i) \<Longrightarrow> length (filter P (xs[i := b])) = Suc (length (filter P xs))"
    and "\<not> P b \<Longrightarrow> P (xs ! i) \<Longrightarrow> length (filter P (xs[i := b])) = length (filter P xs) - 1"
    and "P b = P (xs ! i) \<Longrightarrow> length (filter P (xs[i := b])) = length (filter P xs)"
  using count_update [OF assms, of P b] by (auto split: if_splits)

definition cell :: "nat \<Rightarrow> nat \<Rightarrow> nat \<Rightarrow> nat" where
  "cell x y z = (y * 16 + z) * 16 + x"

lemma cell_less: "x < 16 \<Longrightarrow> y < 16 \<Longrightarrow> z < 16 \<Longrightarrow> cell x y z < 4096"
  by (simp add: cell_def)

lemma digits_inject:
  assumes "a * n + (x :: nat) = a' * n + x'" and "x < n" and "x' < n"
  shows "a = a' \<and> x = x'"
proof -
  have "x = (a * n + x) mod n" using assms(2) by simp
  also have "\<dots> = (a' * n + x') mod n" by (simp only: assms(1))
  also have "\<dots> = x'" using assms(3) by simp
  finally show ?thesis using assms by simp
qed

lemma cell_inject:
  assumes "x < 16" "x' < 16" "z < 16" "z' < 16"
  shows "cell x y z = cell x' y' z' \<longleftrightarrow> x = x' \<and> y = y' \<and> z = z'"
proof
  assume e: "cell x y z = cell x' y' z'"
  have 1: "y * 16 + z = y' * 16 + z' \<and> x = x'"
    using e assms(1,2) unfolding cell_def by (rule digits_inject)
  then show "x = x' \<and> y = y' \<and> z = z'"
    using digits_inject [of y 16 z y' z'] assms(3,4) by simp
qed simp

lemma block_index_eq:
  "block_index x y z = (if x < 16 \<and> y < 16 \<and> z < 16 then Inr (cell x y z)
     else Inl (Out_Of_Range ''chunk-section block coordinate is out of range''))"
  by (auto simp: block_index_def cell_def)

lemma empty_section_ok [simp]: "section_ok empty_section"
  by (simp add: section_ok_def empty_section_def)

lemma section_set_block_ok:
  assumes "section_ok s" and "section_set_block s x y z b = Inr s'"
  shows "section_ok s' \<and> blocks s' = (blocks s)[cell x y z := b]"
proof -
  from assms(2) have r: "x < 16" "y < 16" "z < 16"
    by (auto simp: section_set_block_def block_index_eq split: if_splits)
  have l: "cell x y z < length (blocks s)" using assms(1) cell_less [OF r] by (simp add: section_ok_def)
  show ?thesis
    using assms r count_update_cases [OF l, of "\<lambda>b. b \<noteq> air"]
    by (auto simp: section_set_block_def block_index_eq section_ok_def Let_def split: if_splits)
qed

type_synonym section_pos = "nat \<times> nat \<times> nat"

text \<open>Access by one position.\<close>

definition section_get :: "chunk_section \<Rightarrow> section_pos \<Rightarrow> block_value result" where
  "section_get s p = (case p of (x, y, z) \<Rightarrow> section_block s x y z)"

definition section_put :: "chunk_section \<Rightarrow> section_pos \<Rightarrow> block_value \<Rightarrow> chunk_section result" where
  "section_put s p b = (case p of (x, y, z) \<Rightarrow> section_set_block s x y z b)"

definition in_section :: "section_pos \<Rightarrow> bool" where
  "in_section p = (case p of (x, y, z) \<Rightarrow> x < 16 \<and> y < 16 \<and> z < 16)"

lemma section_get_eq:
  "section_get s p = (case p of (x, y, z) \<Rightarrow> if in_section p then Inr (blocks s ! cell x y z)
     else Inl (Out_Of_Range ''chunk-section block coordinate is out of range''))"
  by (auto simp: section_get_def section_block_def block_index_eq in_section_def split: prod.splits)

interpretation sectionstore: block_store section_get section_put section_ok in_section
proof unfold_locales
  fix s s' :: chunk_section and p q :: section_pos and b
  assume o: "section_ok s"
  obtain x y z where p: "p = (x, y, z)" by (cases p)
  show "is_ok (section_get s p) = in_section p"
    by (simp add: section_get_eq p)
  show "is_ok (section_put s p b) = in_section p"
    by (simp add: section_put_def section_set_block_def block_index_eq Let_def p in_section_def)
  assume u: "section_put s p b = Inr s'"
  then have u': "section_set_block s x y z b = Inr s'" by (simp add: section_put_def p)
  note w = section_set_block_ok [OF o u']
  then show "section_ok s'" ..
  from u have r: "in_section p"
    by (auto simp: section_put_def section_set_block_def block_index_eq p in_section_def split: if_splits)
  obtain x' y' z' where q: "q = (x', y', z')" by (cases q)
  show "section_get s' q = (if q = p then Inr b else section_get s q)"
  proof (cases "in_section q")
    case True
    with r p q have "cell x y z = cell x' y' z' \<longleftrightarrow> q = p" "cell x y z < length (blocks s)"
      using o cell_less by (auto simp: in_section_def cell_inject section_ok_def)
    with w True p q r show ?thesis by (auto simp: section_get_eq nth_list_update)
  next
    case False
    with r show ?thesis by (auto simp: section_get_eq q)
  qed
qed

section \<open>Well-formed chunks\<close>

definition chunk_ok :: "chunk \<Rightarrow> bool" where
  "chunk_ok c = (length (sections c) = section_count \<and> list_all section_ok (sections c) \<and>
     length (heightmap c) = 256 \<and> list_all (\<lambda>h. min_build_y \<le> h \<and> h < max_build_y) (heightmap c) \<and>
     length (biomes c) = section_count * 64)"

text \<open>The positions of a chunk, and the block a position holds.\<close>

type_synonym chunk_pos = "nat \<times> int \<times> nat"

definition in_chunk :: "chunk_pos \<Rightarrow> bool" where
  "in_chunk p = (case p of (x, y, z) \<Rightarrow> x < 16 \<and> z < 16 \<and> min_build_y \<le> y \<and> y < max_build_y)"

definition block_at :: "chunk \<Rightarrow> nat \<Rightarrow> int \<Rightarrow> nat \<Rightarrow> block_value" where
  "block_at c x y z = (let off = nat (y - min_build_y) in
     blocks (sections c ! (off div 16)) ! cell x (off mod 16) z)"

definition chunk_get :: "chunk \<Rightarrow> chunk_pos \<Rightarrow> block_value result" where
  "chunk_get c p = (case p of (x, y, z) \<Rightarrow> chunk_block c x y z)"

definition chunk_put :: "chunk \<Rightarrow> chunk_pos \<Rightarrow> block_value \<Rightarrow> chunk result" where
  "chunk_put c p b = (case p of (x, y, z) \<Rightarrow> chunk_set_block c x y z b)"

lemmas build_y = min_build_y_def max_build_y_def section_count_def

lemma new_chunk_ok [simp]: "chunk_ok (new_chunk pos)"
  by (simp add: chunk_ok_def new_chunk_def list_all_iff build_y)

lemma offset_less:
  assumes "min_build_y \<le> y" "y < max_build_y"
  shows "nat (y - min_build_y) div 16 < section_count"
  using assms by (simp add: build_y)

lemma chunk_block_eq:
  "chunk_block c x y z =
     (if y < min_build_y \<or> y \<ge> max_build_y then Inl (Out_Of_Range ''block Y coordinate is outside build height'')
      else if x < 16 \<and> z < 16 then Inr (block_at c x y z)
      else Inl (Out_Of_Range ''chunk-section block coordinate is out of range''))"
  by (auto simp: chunk_block_def section_offset_def section_block_def block_index_eq block_at_def Let_def)

lemma column_index_eq:
  "x < 16 \<Longrightarrow> z < 16 \<Longrightarrow> column_index x z = Inr (z * 16 + x)"
  by (simp add: column_index_def)

declare lower_height.simps [simp del]

text \<open>What the lowering loop finds: the next block down that is not air, or the lowest height.\<close>

definition next_top :: "chunk \<Rightarrow> nat \<Rightarrow> nat \<Rightarrow> int \<Rightarrow> int \<Rightarrow> bool" where
  "next_top c x z h t = (min_build_y \<le> t \<and> t \<le> h \<and> (\<forall>y. t < y \<and> y \<le> h \<longrightarrow> block_at c x y z = air) \<and>
     (t = min_build_y \<or> block_at c x t z \<noteq> air))"

lemma lower_height_top:
  "x < 16 \<Longrightarrow> z < 16 \<Longrightarrow> min_build_y \<le> h \<Longrightarrow> h < max_build_y \<Longrightarrow>
   \<exists>t. lower_height c x z h = Inr t \<and> next_top c x z h t"
proof (induction c x z h rule: lower_height.induct)
  case (1 c x z h)
  show ?case
  proof (cases "h > min_build_y \<and> block_at c x h z = air")
    case True
    with 1 obtain t where t: "lower_height c x z (h - 1) = Inr t" "next_top c x z (h - 1) t"
      by (auto simp: chunk_block_eq)
    have "next_top c x z h t"
      using t(2) True unfolding next_top_def by (metis add.commute dual_order.strict_iff_order zle_diff1_eq order_less_imp_le order.trans)
    with t(1) True 1 show ?thesis by (subst lower_height.simps) (simp add: chunk_block_eq)
  next
    case False
    with 1 show ?thesis by (subst lower_height.simps) (auto simp: chunk_block_eq next_top_def)
  qed
qed

lemma block_at_heightmap [simp]:
  "block_at (c\<lparr>heightmap := hs\<rparr>) = block_at c" "block_at (c\<lparr>dirty := d\<rparr>) = block_at c"
  "block_at (c\<lparr>biomes := bs\<rparr>) = block_at c"
  by (simp_all add: block_at_def fun_eq_iff)

text \<open>Replacing one block in the sections changes the block at that position only.\<close>

definition write_block :: "chunk \<Rightarrow> nat \<Rightarrow> int \<Rightarrow> nat \<Rightarrow> block_value \<Rightarrow> chunk_section \<Rightarrow> chunk" where
  "write_block c x y z b s = c\<lparr>sections := (sections c)[nat (y - min_build_y) div 16 := s],
     dirty := dirty c \<or> block_at c x y z \<noteq> b\<rparr>"

lemma offset_inject:
  assumes "min_build_y \<le> y" and "min_build_y \<le> y'"
  shows "nat (y - min_build_y) div 16 = nat (y' - min_build_y) div 16 \<and>
     nat (y - min_build_y) mod 16 = nat (y' - min_build_y) mod 16 \<longleftrightarrow> y = y'" (is "?l \<longleftrightarrow> ?r")
proof
  assume ?l
  then have "nat (y - min_build_y) div 16 * 16 + nat (y - min_build_y) mod 16 =
      nat (y' - min_build_y) div 16 * 16 + nat (y' - min_build_y) mod 16" by (simp only:)
  then have "nat (y - min_build_y) = nat (y' - min_build_y)" by (simp only: div_mult_mod_eq)
  then show ?r using assms by linarith
qed simp

lemma block_at_blocks:
  "block_at c x y z = blocks (sections c ! (nat (y - min_build_y) div 16)) ! cell x (nat (y - min_build_y) mod 16) z"
  by (simp add: block_at_def Let_def)

lemma write_block_at:
  assumes "chunk_ok c" and "in_chunk (x, y, z)" and "in_chunk (x', y', z')"
    and "section_set_block (sections c ! (nat (y - min_build_y) div 16)) x (nat (y - min_build_y) mod 16) z b = Inr s"
  shows "block_at (write_block c x y z b s) x' y' z' = (if (x', y', z') = (x, y, z) then b else block_at c x' y' z')"
proof -
  define i j i' j' where d: "i = nat (y - min_build_y) div 16" "j = nat (y - min_build_y) mod 16"
    "i' = nat (y' - min_build_y) div 16" "j' = nat (y' - min_build_y) mod 16"
  have r: "x < 16" "z < 16" "x' < 16" "z' < 16" "j < 16" "j' < 16" "min_build_y \<le> y" "min_build_y \<le> y'"
    using assms(2,3) by (simp_all add: in_chunk_def d)
  have ls: "i < length (sections c)" "i' < length (sections c)"
    unfolding d using assms(1-3) by (simp_all only: in_chunk_def chunk_ok_def offset_less split_conv)
  then have so: "section_ok (sections c ! i)" using assms(1) by (simp add: chunk_ok_def list_all_length)
  have a: "section_set_block (sections c ! i) x j z b = Inr s" unfolding d by (rule assms(4))
  have w: "blocks s = (blocks (sections c ! i))[cell x j z := b]" "length (blocks (sections c ! i)) = 4096"
    using section_set_block_ok [OF so a] so by (simp_all add: section_ok_def)
  have e: "i = i' \<and> j = j' \<longleftrightarrow> y = y'" unfolding d by (rule offset_inject) (use r in simp_all)
  have "block_at (write_block c x y z b s) x' y' z' = blocks ((sections c)[i := s] ! i') ! cell x' j' z'"
    by (simp add: block_at_blocks write_block_def d)
  also have "\<dots> = (if i = i' \<and> cell x j z = cell x' j' z' then b else blocks (sections c ! i') ! cell x' j' z')"
    using ls w cell_less [of x j z] cell_less [of x' j' z'] r by (cases "i = i'") (simp_all add: nth_list_update)
  also have "i = i' \<and> cell x j z = cell x' j' z' \<longleftrightarrow> (x', y', z') = (x, y, z)"
    using e cell_inject [of x x' z z' j j'] r by auto
  finally show ?thesis by (simp add: block_at_blocks d)
qed

text \<open>One write, with its branches: how the column's height moves.\<close>

definition new_top :: "chunk \<Rightarrow> nat \<Rightarrow> nat \<Rightarrow> int \<Rightarrow> int \<Rightarrow> block_value \<Rightarrow> block_value \<Rightarrow> int \<Rightarrow> bool" where
  "new_top c x z y h previous b t =
     (if b \<noteq> air \<and> y > h then t = y
      else if previous \<noteq> air \<and> b = air \<and> y = h then next_top c x z h t
      else t = h)"

lemma update_height_spec:
  assumes "x < 16" and "z < 16"
    and "min_build_y \<le> heightmap c ! (z * 16 + x)" and "heightmap c ! (z * 16 + x) < max_build_y"
  obtains t where "update_height x y z previous b c = Inr (c\<lparr>heightmap := (heightmap c)[z * 16 + x := t]\<rparr>)"
    "new_top c x z y (heightmap c ! (z * 16 + x)) previous b t"
proof -
  define h where "h = heightmap c ! (z * 16 + x)"
  obtain l where l: "lower_height c x z h = Inr l" "next_top c x z h l"
    using lower_height_top [of x z h c] assms by (auto simp: h_def)
  have same: "c\<lparr>heightmap := (heightmap c)[z * 16 + x := h]\<rparr> = c"
    by (simp add: h_def)
  have u: "update_height x y z previous b c =
     (if b \<noteq> air \<and> y > h then Inr (c\<lparr>heightmap := (heightmap c)[z * 16 + x := y]\<rparr>)
      else if previous \<noteq> air \<and> b = air \<and> y = h
      then Inr (c\<lparr>heightmap := (heightmap c)[z * 16 + x := l]\<rparr>) else Inr c)"
    using l(1) assms by (simp add: update_height_def column_index_eq flip: h_def)
  consider "b \<noteq> air \<and> y > h" | "\<not> (b \<noteq> air \<and> y > h)" "previous \<noteq> air \<and> b = air \<and> y = h"
    | "\<not> (b \<noteq> air \<and> y > h)" "\<not> (previous \<noteq> air \<and> b = air \<and> y = h)" by blast
  then show ?thesis
  proof cases
    case 1
    then show ?thesis using that [of y] u by (simp add: new_top_def flip: h_def)
  next
    case 2
    then show ?thesis using that [of l] u l(2) by (simp add: new_top_def flip: h_def)
  next
    case 3
    then show ?thesis using that [of h] u same by (simp only: new_top_def if_False h_def [symmetric])
  qed
qed

lemma chunk_set_block_spec:
  assumes "chunk_ok c" and "in_chunk (x, y, z)"
  obtains s t where
    "section_set_block (sections c ! (nat (y - min_build_y) div 16)) x (nat (y - min_build_y) mod 16) z b = Inr s"
    "chunk_set_block c x y z b = Inr ((write_block c x y z b s)\<lparr>heightmap := (heightmap c)[z * 16 + x := t]\<rparr>)"
    "new_top (write_block c x y z b s) x z y (heightmap c ! (z * 16 + x)) (block_at c x y z) b t"
proof -
  let ?o = "nat (y - min_build_y)" and ?h = "heightmap c ! (z * 16 + x)"
  have r: "x < 16" "z < 16" "min_build_y \<le> y" "y < max_build_y" using assms(2) by (auto simp: in_chunk_def)
  have hl: "z * 16 + x < length (heightmap c)" using r assms(1) by (simp add: chunk_ok_def)
  then have hb: "min_build_y \<le> ?h" "?h < max_build_y"
    using assms(1) by (auto simp: chunk_ok_def list_all_length)
  obtain s where s: "section_set_block (sections c ! (?o div 16)) x (?o mod 16) z b = Inr s"
    using r by (auto simp: section_set_block_def block_index_eq Let_def)
  let ?c = "write_block c x y z b s"
  have prev: "section_block (sections c ! (?o div 16)) x (?o mod 16) z = Inr (block_at c x y z)"
    using r by (simp add: section_block_def block_index_eq block_at_def Let_def)
  have "chunk_set_block c x y z b = update_height x y z (block_at c x y z) b ?c"
    using r s prev by (simp add: chunk_set_block_def section_offset_def Let_def write_block_def)
  moreover have hs: "heightmap ?c = heightmap c" by (simp add: write_block_def)
  moreover obtain t where "update_height x y z (block_at c x y z) b ?c =
      Inr (?c\<lparr>heightmap := (heightmap ?c)[z * 16 + x := t]\<rparr>)"
    "new_top ?c x z y (heightmap ?c ! (z * 16 + x)) (block_at c x y z) b t"
    using update_height_spec [OF r(1,2), of ?c y "block_at c x y z" b] hb hs by metis
  ultimately show ?thesis using that s by simp
qed


lemma chunk_set_block_fails:
  "\<not> in_chunk (x, y, z) \<Longrightarrow> \<not> is_ok (chunk_set_block c x y z b)"
  by (auto simp: chunk_set_block_def section_offset_def section_block_def block_index_eq in_chunk_def Let_def)

lemma new_top_bounds:
  assumes "new_top c x z y h previous b t" and "min_build_y \<le> h" "h < max_build_y" "min_build_y \<le> y" "y < max_build_y"
  shows "min_build_y \<le> t \<and> t < max_build_y"
  using assms by (auto simp: new_top_def next_top_def split: if_splits)

lemma chunk_set_block_ok:
  assumes "chunk_ok c" and "chunk_set_block c x y z b = Inr c'"
  shows "chunk_ok c'"
proof -
  have r: "in_chunk (x, y, z)" using chunk_set_block_fails [of x y z c b] assms(2) by auto
  then have rb: "x < 16" "z < 16" "min_build_y \<le> y" "y < max_build_y" by (simp_all add: in_chunk_def)
  obtain s t where w: "section_set_block (sections c ! (nat (y - min_build_y) div 16)) x (nat (y - min_build_y) mod 16) z b = Inr s"
    "chunk_set_block c x y z b = Inr ((write_block c x y z b s)\<lparr>heightmap := (heightmap c)[z * 16 + x := t]\<rparr>)"
    "new_top (write_block c x y z b s) x z y (heightmap c ! (z * 16 + x)) (block_at c x y z) b t"
    using chunk_set_block_spec [OF assms(1) r] by blast
  have "nat (y - min_build_y) div 16 < length (sections c)" "z * 16 + x < length (heightmap c)"
    using assms(1) rb offset_less by (simp_all add: chunk_ok_def)
  then have ok: "section_ok (sections c ! (nat (y - min_build_y) div 16))"
    "min_build_y \<le> heightmap c ! (z * 16 + x)" "heightmap c ! (z * 16 + x) < max_build_y"
    using assms(1) by (simp_all add: chunk_ok_def list_all_length)
  have "section_ok s" using section_set_block_ok [OF ok(1) w(1)] ..
  moreover have "min_build_y \<le> t \<and> t < max_build_y" by (rule new_top_bounds [OF w(3) ok(2,3) rb(3,4)])
  moreover have "c' = (write_block c x y z b s)\<lparr>heightmap := (heightmap c)[z * 16 + x := t]\<rparr>"
    using assms(2) w(2) by simp
  ultimately show ?thesis
    using assms(1) by (auto simp: chunk_ok_def write_block_def list_all_iff dest: subsetD [OF set_update_subset_insert])
qed

lemma chunk_set_block_at:
  assumes "chunk_ok c" and "chunk_set_block c x y z b = Inr c'" and "in_chunk (x', y', z')"
  shows "block_at c' x' y' z' = (if (x', y', z') = (x, y, z) then b else block_at c x' y' z')"
proof -
  have r: "in_chunk (x, y, z)" using chunk_set_block_fails [of x y z c b] assms(2) by auto
  obtain s t where w: "section_set_block (sections c ! (nat (y - min_build_y) div 16)) x (nat (y - min_build_y) mod 16) z b = Inr s"
    "chunk_set_block c x y z b = Inr ((write_block c x y z b s)\<lparr>heightmap := (heightmap c)[z * 16 + x := t]\<rparr>)"
    using chunk_set_block_spec [OF assms(1) r] by blast
  show ?thesis using write_block_at [OF assms(1) r assms(3) w(1)] w(2) assms(2) by auto
qed

interpretation chunkstore: block_store chunk_get chunk_put chunk_ok in_chunk
proof unfold_locales
  fix c c' :: chunk and p q :: chunk_pos and b
  assume o: "chunk_ok c"
  obtain x y z where p: "p = (x, y, z)" by (cases p)
  obtain x' y' z' where q: "q = (x', y', z')" by (cases q)
  show "is_ok (chunk_get c p) = in_chunk p"
    by (auto simp: chunk_get_def chunk_block_eq in_chunk_def p)
  show "is_ok (chunk_put c p b) = in_chunk p"
    using chunk_set_block_fails [of x y z c b] chunk_set_block_spec [OF o, of x y z b]
    by (auto simp: chunk_put_def p is_ok_iff)
  assume "chunk_put c p b = Inr c'"
  then have u: "chunk_set_block c x y z b = Inr c'" by (simp add: chunk_put_def p)
  show "chunk_ok c'" by (rule chunk_set_block_ok [OF o u])
  have "in_chunk p" using chunk_set_block_fails [of x y z c b] u p by auto
  then show "chunk_get c' q = (if q = p then Inr b else chunk_get c q)"
    using chunk_set_block_at [OF o u, of x' y' z'] by (auto simp: chunk_get_def chunk_block_eq in_chunk_def p q)
qed

section \<open>The height map\<close>

text \<open>A column's height is the highest block that is not air, or the lowest height when there is none.\<close>

definition top_ok :: "chunk \<Rightarrow> nat \<Rightarrow> nat \<Rightarrow> int \<Rightarrow> bool" where
  "top_ok c x z h = (min_build_y \<le> h \<and> h < max_build_y \<and>
     (\<forall>y. h < y \<and> y < max_build_y \<longrightarrow> block_at c x y z = air) \<and>
     (h = min_build_y \<or> block_at c x h z \<noteq> air))"

definition heights_exact :: "chunk \<Rightarrow> bool" where
  "heights_exact c = (\<forall>x < 16. \<forall>z < 16. top_ok c x z (heightmap c ! (z * 16 + x)))"

lemma top_ok_cong:
  assumes "\<And>y. min_build_y \<le> y \<Longrightarrow> y < max_build_y \<Longrightarrow> block_at c' x y z = block_at c x y z"
  shows "top_ok c' x z h = top_ok c x z h"
  using assms unfolding top_ok_def by (smt (verit))

lemma new_top_ok:
  assumes "top_ok c x z h" and "min_build_y \<le> y" "y < max_build_y"
    and at: "\<And>y'. min_build_y \<le> y' \<Longrightarrow> y' < max_build_y \<Longrightarrow> block_at c' x y' z = (if y' = y then b else block_at c x y' z)"
    and "new_top c' x z y h (block_at c x y z) b t"
  shows "top_ok c' x z t"
proof (cases "block_at c x y z \<noteq> air \<and> b = air \<and> y = h")
  case True
  then have "next_top c' x z h t" using assms(5) by (auto simp: new_top_def)
  with assms(1-3) at True show ?thesis unfolding top_ok_def next_top_def by (smt (verit))
next
  case False
  with assms show ?thesis unfolding top_ok_def new_top_def by (smt (verit))
qed

lemma new_top_cong: "block_at c = block_at c' \<Longrightarrow> new_top c x z y h previous b t = new_top c' x z y h previous b t"
  by (simp add: new_top_def next_top_def)

lemma chunk_set_block_heights:
  assumes "chunk_ok c" and "heights_exact c" and "chunk_set_block c x y z b = Inr c'"
  shows "heights_exact c'"
proof -
  have r: "in_chunk (x, y, z)" using chunk_set_block_fails [of x y z c b] assms(3) by auto
  then have rb: "x < 16" "z < 16" "min_build_y \<le> y" "y < max_build_y" by (simp_all add: in_chunk_def)
  obtain s t where w: "chunk_set_block c x y z b = Inr ((write_block c x y z b s)\<lparr>heightmap := (heightmap c)[z * 16 + x := t]\<rparr>)"
    "new_top (write_block c x y z b s) x z y (heightmap c ! (z * 16 + x)) (block_at c x y z) b t"
    using chunk_set_block_spec [OF assms(1) r] by blast
  have c': "c' = (write_block c x y z b s)\<lparr>heightmap := (heightmap c)[z * 16 + x := t]\<rparr>" using w(1) assms(3) by simp
  note at = chunk_set_block_at [OF assms(1) assms(3)]
  have "top_ok c' x' z' (heightmap c' ! (z' * 16 + x'))" if p: "x' < 16" "z' < 16" for x' z'
  proof (cases "x' = x \<and> z' = z")
    case True
    have "new_top c' x z y (heightmap c ! (z * 16 + x)) (block_at c x y z) b t"
      by (rule new_top_cong [THEN iffD1, OF _ w(2)]) (simp add: c')
    moreover have "heightmap c' ! (z * 16 + x) = t"
      using rb assms(1) by (simp add: c' chunk_ok_def)
    moreover have "top_ok c x z (heightmap c ! (z * 16 + x))" using assms(2) rb by (simp add: heights_exact_def)
    ultimately show ?thesis
      using new_top_ok [of c x z "heightmap c ! (z * 16 + x)" y c' b t] at rb True by (simp add: in_chunk_def)
  next
    case False
    then have "z' * 16 + x' \<noteq> z * 16 + x" using digits_inject [of z' 16 x' z x] p rb by auto
    then have "heightmap c' ! (z' * 16 + x') = heightmap c ! (z' * 16 + x')" by (simp add: c' write_block_def)
    moreover have "block_at c' x' y' z' = block_at c x' y' z'" if "min_build_y \<le> y'" "y' < max_build_y" for y'
      using at [of x' y' z'] False p that by (auto simp: in_chunk_def)
    ultimately show ?thesis using assms(2) p top_ok_cong [of c' x' z' c] by (simp add: heights_exact_def)
  qed
  then show ?thesis by (simp add: heights_exact_def)
qed

lemma new_chunk_heights: "heights_exact (new_chunk pos)"
proof -
  have "block_at (new_chunk pos) x y z = air" if "x < 16" "z < 16" "min_build_y \<le> y" "y < max_build_y" for x y z
    using that offset_less [of y] cell_less [of x "nat (y - min_build_y) mod 16" z]
    by (simp add: block_at_blocks new_chunk_def empty_section_def)
  then show ?thesis by (simp add: heights_exact_def top_ok_def) (simp add: new_chunk_def build_y)
qed

section \<open>Filling a chunk\<close>

text \<open>No block that is not air stands above its column's height.\<close>

definition heights_cover :: "chunk \<Rightarrow> bool" where
  "heights_cover c = (\<forall>x y z. in_chunk (x, y, z) \<and> block_at c x y z \<noteq> air \<longrightarrow> y \<le> heightmap c ! (z * 16 + x))"

lemma heights_exact_cover: "heights_exact c \<Longrightarrow> heights_cover c"
  unfolding heights_exact_def heights_cover_def top_ok_def in_chunk_def by (auto simp flip: not_less)

text \<open>
  Blocks written to air, under heights that cover them, one after another: no
  write moves a height.
\<close>

lemma chunk_set_block_covered:
  assumes "chunk_ok d" and "in_chunk (x, y, z)" and "block_at d x y z = air"
    and "b \<noteq> air \<longrightarrow> y \<le> heightmap d ! (z * 16 + x)"
  obtains d' where "chunk_set_block d x y z b = Inr d'" "heightmap d' = heightmap d" "dirty d \<longrightarrow> dirty d'"
proof -
  obtain s t where st: "chunk_set_block d x y z b = Inr ((write_block d x y z b s)\<lparr>heightmap := (heightmap d)[z * 16 + x := t]\<rparr>)"
    "new_top (write_block d x y z b s) x z y (heightmap d ! (z * 16 + x)) (block_at d x y z) b t"
    using chunk_set_block_spec [OF assms(1,2)] by blast
  have "t = heightmap d ! (z * 16 + x)" using st(2) assms(3,4) by (auto simp: new_top_def split: if_splits)
  with st(1) show ?thesis using that by (simp add: write_block_def)
qed

lemma chunk_set_block_position: "chunk_set_block c x y z b = Inr c' \<Longrightarrow> position c' = position c \<and> biomes c' = biomes c"
  by (auto simp: chunk_set_block_def update_height_def bindR_Inr_iff Let_def split: if_splits)

lemma put_blocks:
  assumes "distinct ps" and "chunk_ok d"
    and "\<forall>(x, y, z) \<in> set ps. in_chunk (x, y, z) \<and> block_at d x y z = air \<and>
      (B (x, y, z) \<noteq> air \<longrightarrow> y \<le> heightmap d ! (z * 16 + x))"
  shows "\<exists>d'. foldR (\<lambda>p d. chunk_put d p (B p)) ps d = Inr d' \<and> chunk_ok d' \<and>
    heightmap d' = heightmap d \<and> biomes d' = biomes d \<and> position d' = position d \<and> (dirty d \<longrightarrow> dirty d') \<and>
    (\<forall>x y z. in_chunk (x, y, z) \<longrightarrow>
      block_at d' x y z = (if (x, y, z) \<in> set ps then B (x, y, z) else block_at d x y z))"
  using assms
proof (induction ps arbitrary: d)
  case (Cons p ps)
  obtain x y z where p: "p = (x, y, z)" by (metis surj_pair)
  have pre: "in_chunk (x, y, z)" "block_at d x y z = air" "B p \<noteq> air \<longrightarrow> y \<le> heightmap d ! (z * 16 + x)"
    using Cons.prems(3) by (simp_all add: p)
  obtain d1 where d1: "chunk_set_block d x y z (B p) = Inr d1" "heightmap d1 = heightmap d" "dirty d \<longrightarrow> dirty d1"
    using chunk_set_block_covered [OF Cons.prems(2) pre] by blast
  have ok: "chunk_ok d1" by (rule chunk_set_block_ok [OF Cons.prems(2) d1(1)])
  note at = chunk_set_block_at [OF Cons.prems(2) d1(1)]
  have "\<forall>(x', y', z') \<in> set ps. in_chunk (x', y', z') \<and> block_at d1 x' y' z' = air \<and>
      (B (x', y', z') \<noteq> air \<longrightarrow> y' \<le> heightmap d1 ! (z' * 16 + x'))"
  proof (intro ballI)
    fix q assume q: "q \<in> set ps"
    obtain x' y' z' where q': "q = (x', y', z')" by (metis surj_pair)
    have "in_chunk (x', y', z')" "block_at d x' y' z' = air"
      "B (x', y', z') \<noteq> air \<longrightarrow> y' \<le> heightmap d ! (z' * 16 + x')" "(x', y', z') \<noteq> (x, y, z)"
      using bspec [OF Cons.prems(3), of q] Cons.prems(1) q by (auto simp: q' p)
    then show "case q of (x', y', z') \<Rightarrow> in_chunk (x', y', z') \<and> block_at d1 x' y' z' = air \<and>
        (B (x', y', z') \<noteq> air \<longrightarrow> y' \<le> heightmap d1 ! (z' * 16 + x'))"
      using at [of x' y' z'] by (auto simp: q' d1(2))
  qed
  then obtain d' where d': "foldR (\<lambda>p d. chunk_put d p (B p)) ps d1 = Inr d'" "chunk_ok d'"
    "heightmap d' = heightmap d1" "biomes d' = biomes d1" "position d' = position d1" "dirty d1 \<longrightarrow> dirty d'"
    "\<And>x' y' z'. in_chunk (x', y', z') \<Longrightarrow>
      block_at d' x' y' z' = (if (x', y', z') \<in> set ps then B (x', y', z') else block_at d1 x' y' z')"
    using Cons.IH [OF _ ok] Cons.prems(1) by auto
  have "block_at d' x' y' z' = (if (x', y', z') \<in> set (p # ps) then B (x', y', z') else block_at d x' y' z')"
    if "in_chunk (x', y', z')" for x' y' z'
    using d'(7) [OF that] at [OF that] Cons.prems(1) by (auto simp: p)
  moreover have "foldR (\<lambda>p d. chunk_put d p (B p)) (p # ps) d = Inr d'" using d1(1) d'(1) by (simp add: chunk_put_def p)
  ultimately show ?case
    using d' d1 chunk_set_block_position [OF d1(1)] by (intro exI [of _ d']) auto
qed simp

section \<open>Reachable chunks\<close>

text \<open>The operations that play changes a chunk by, in any order.\<close>

inductive chunk_step :: "chunk \<Rightarrow> chunk \<Rightarrow> bool" where
  step_block: "chunk_set_block c x y z b = Inr c' \<Longrightarrow> chunk_step c c'"
| step_biome: "set_biome c qx qy qz b = Inr c' \<Longrightarrow> chunk_step c c'"
| step_saved: "chunk_step c (mark_saved c)"

inductive reachable_chunk :: "chunk_position \<Rightarrow> chunk \<Rightarrow> bool" for pos where
  new: "reachable_chunk pos (new_chunk pos)"
| step: "reachable_chunk pos c \<Longrightarrow> chunk_step c c' \<Longrightarrow> reachable_chunk pos c'"

lemma set_biome_ok:
  "chunk_ok c \<Longrightarrow> set_biome c qx qy qz b = Inr c' \<Longrightarrow>
   chunk_ok c' \<and> heightmap c' = heightmap c \<and> block_at c' = block_at c \<and> position c' = position c"
  by (auto simp: set_biome_def bindR_Inr_iff chunk_ok_def block_at_def Let_def fun_eq_iff)

lemma set_height_ok: "chunk_ok c \<Longrightarrow> set_height c x z h = Inr c' \<Longrightarrow> chunk_ok c'"
  by (auto simp: set_height_def bindR_Inr_iff chunk_ok_def list_all_iff split: if_splits
      dest!: subsetD [OF set_update_subset_insert])

lemma heights_exact_cong:
  "heightmap c' = heightmap c \<Longrightarrow> block_at c' = block_at c \<Longrightarrow> heights_exact c' = heights_exact c"
  by (simp add: heights_exact_def top_ok_def)

lemma chunk_step_inv:
  "chunk_step c c' \<Longrightarrow> chunk_ok c \<Longrightarrow> heights_exact c \<Longrightarrow>
   chunk_ok c' \<and> heights_exact c' \<and> position c' = position c"
proof (induction rule: chunk_step.induct)
  case (step_block c x y z b c')
  then show ?case
    using chunk_set_block_ok chunk_set_block_heights chunk_set_block_position by blast
next
  case (step_biome c qx qy qz b c')
  then show ?case using set_biome_ok [of c qx qy qz b c'] heights_exact_cong [of c' c] by simp
next
  case (step_saved c)
  then show ?case using heights_exact_cong [of "mark_saved c" c] by (simp add: mark_saved_def chunk_ok_def)
qed

lemma reachable_chunk_inv:
  "reachable_chunk pos c \<Longrightarrow> chunk_ok c \<and> heights_exact c \<and> position c = pos"
proof (induction rule: reachable_chunk.induct)
  case new
  show ?case by (simp add: new_chunk_heights) (simp add: new_chunk_def)
next
  case (step c c')
  then show ?case using chunk_step_inv [of c c'] by simp
qed

section \<open>The abstract chunk\<close>

text \<open>What a chunk stands for: a block at every one of its positions.\<close>

definition chunk_map :: "chunk \<Rightarrow> chunk_pos \<Rightarrow> block_value option" where
  "chunk_map c p = (case p of (x, y, z) \<Rightarrow> if in_chunk p then Some (block_at c x y z) else None)"

lemma chunk_set_block_map:
  assumes "chunk_ok c" and "chunk_set_block c x y z b = Inr c'"
  shows "chunk_map c' = (chunk_map c)((x, y, z) \<mapsto> b)"
proof -
  have "in_chunk (x, y, z)" using chunk_set_block_fails [of x y z c b] assms(2) by auto
  then show ?thesis
    using chunk_set_block_at [OF assms] by (auto simp: chunk_map_def fun_eq_iff split: prod.splits)
qed

lemma chunk_set_block_dirty:
  assumes "chunk_ok c" and "chunk_set_block c x y z b = Inr c'"
  shows "dirty c' = (dirty c \<or> chunk_map c (x, y, z) \<noteq> Some b)"
proof -
  have "in_chunk (x, y, z)" using chunk_set_block_fails [of x y z c b] assms(2) by auto
  then obtain s t where "c' = (write_block c x y z b s)\<lparr>heightmap := (heightmap c)[z * 16 + x := t]\<rparr>"
    using chunk_set_block_spec [OF assms(1), of x y z b] assms(2) by (metis Inr_inject)
  then show ?thesis using \<open>in_chunk (x, y, z)\<close> by (simp add: chunk_map_def write_block_def)
qed

section \<open>Properties\<close>

text \<open>C6. Whatever sequence of block writes, biome writes and saves a new chunk went through, it has its 24
  sections of 4096 blocks, each section's count is the number of its blocks that are not air, and the height
  of every column is that of its highest block that is not air, or the lowest height of the world when the
  column is empty.\<close>

theorem chunk_reachable_invariant:
  assumes "reachable_chunk pos c"
  shows "chunk_ok c \<and> heights_exact c \<and> position c = pos"
  using assms by (rule reachable_chunk_inv)

text \<open>C30. A chunk implements a map from positions to blocks: a read is a lookup, a write inside the chunk is an
  update of the map at that position, which marks the chunk as dirty exactly when it changes the map, and
  a read or write outside the chunk is an error.\<close>

theorem chunk_refines_map:
  assumes "chunk_ok c"
  shows "(case chunk_block c x y z of Inl e \<Rightarrow> chunk_map c (x, y, z) = None
        | Inr b \<Rightarrow> chunk_map c (x, y, z) = Some b) \<and>
    (case chunk_set_block c x y z b of Inl e \<Rightarrow> chunk_map c (x, y, z) = None
        | Inr c' \<Rightarrow> chunk_map c (x, y, z) \<noteq> None \<and> chunk_map c' = (chunk_map c)((x, y, z) \<mapsto> b) \<and>
            dirty c' = (dirty c \<or> chunk_map c' \<noteq> chunk_map c) \<and>
            position c' = position c \<and> biomes c' = biomes c)"
proof (intro conjI)
  show "case chunk_block c x y z of Inl e \<Rightarrow> chunk_map c (x, y, z) = None
      | Inr b \<Rightarrow> chunk_map c (x, y, z) = Some b"
    by (auto simp: chunk_block_eq chunk_map_def in_chunk_def)
  show "case chunk_set_block c x y z b of Inl e \<Rightarrow> chunk_map c (x, y, z) = None
      | Inr c' \<Rightarrow> chunk_map c (x, y, z) \<noteq> None \<and> chunk_map c' = (chunk_map c)((x, y, z) \<mapsto> b) \<and>
          dirty c' = (dirty c \<or> chunk_map c' \<noteq> chunk_map c) \<and> position c' = position c \<and> biomes c' = biomes c"
  proof (cases "chunk_set_block c x y z b")
    case (Inl e)
    then have "\<not> in_chunk (x, y, z)" using chunk_set_block_spec [OF assms, of x y z b] by auto
    with Inl show ?thesis by (simp add: chunk_map_def)
  next
    case (Inr c')
    then have "in_chunk (x, y, z)" using chunk_set_block_fails [of x y z c b] by auto
    then have "chunk_map c (x, y, z) \<noteq> None" by (simp add: chunk_map_def)
    moreover have "chunk_map c (x, y, z) = Some b \<longleftrightarrow> chunk_map c' = chunk_map c"
      unfolding chunk_set_block_map [OF assms Inr] by (metis fun_upd_same fun_upd_triv)
    ultimately show ?thesis
      using Inr chunk_set_block_map [OF assms Inr] chunk_set_block_dirty [OF assms Inr]
        chunk_set_block_position [OF Inr] by simp
  qed
qed

text \<open>A chunk with one block of stone on bedrock, built by two writes.\<close>

definition origin :: chunk_position where
  "origin = \<lparr>chunk_x = 0, chunk_z = 0\<rparr>"

theorem chunk_reachable_invariant_witness:
  "\<exists>c c'. chunk_set_block (new_chunk origin) 3 (- 64) 5 bedrock = Inr c \<and> chunk_set_block c 3 70 5 stone = Inr c' \<and>
     chunk_ok c' \<and> heights_exact c'"
proof -
  have r: "in_chunk (3, - 64, 5)" "in_chunk (3, 70, 5)" by (simp_all add: in_chunk_def build_y)
  obtain c where c: "chunk_set_block (new_chunk origin) 3 (- 64) 5 bedrock = Inr c"
    using chunk_set_block_spec [OF new_chunk_ok r(1)] by blast
  obtain c' where c': "chunk_set_block c 3 70 5 stone = Inr c'"
    using chunk_set_block_spec [OF chunk_set_block_ok [OF new_chunk_ok c] r(2)] by blast
  have "reachable_chunk origin c'"
    using c c' by (blast intro: reachable_chunk.intros chunk_step.intros)
  from chunk_reachable_invariant [OF this] c c' show ?thesis by blast
qed

theorem chunk_refines_map_witness:
  "(case chunk_set_block (new_chunk origin) 3 70 5 stone of Inl e \<Rightarrow> False
     | Inr c' \<Rightarrow> chunk_map c' (3, 70, 5) = Some stone) \<and>
   chunk_map (new_chunk origin) (3, 320, 5) = None"
proof -
  have "chunk_map (new_chunk origin) (3, 70, 5) \<noteq> None" "chunk_map (new_chunk origin) (3, 320, 5) = None"
    by (simp_all add: chunk_map_def in_chunk_def build_y)
  then show ?thesis
    using chunk_refines_map [OF new_chunk_ok, of origin 3 70 5 stone] by (auto split: sum.splits)
qed

end
