(* ===== verification/Storage.thy ===== *)
theory Storage
  imports Chunk Codec Core_Types
begin

text \<open>
  Persistence (include/mc/world/storage.hpp, src/world/storage.cpp): the byte
  form of chunks and of level metadata, region files of 4096-byte sectors with
  their location table, and the storage of a level as a directory of them.

  A shrinking span is a \<open>reader\<close>: the bytes and the offset where the span now
  begins. The file system is a map from file names to contents, without I/O
  failures; the calls of zlib are the parameters \<open>deflate\<close> (\<open>compress2\<close> with a
  buffer of \<open>compressBound\<close>) and \<open>uncompress\<close>, and the clock is a parameter.
\<close>

section \<open>Numbers and strings\<close>

definition append_u16 :: "bytes \<Rightarrow> u16 \<Rightarrow> bytes" where
  "append_u16 ou v = ou @ [ucast (drop_bit 8 v), ucast v]"

definition append_u32 :: "bytes \<Rightarrow> u32 \<Rightarrow> bytes" where
  "append_u32 ou v = ou @ map (\<lambda>shift. ucast (drop_bit shift v)) [24, 16, 8, 0]"

definition append_u64 :: "bytes \<Rightarrow> u64 \<Rightarrow> bytes" where
  "append_u64 ou v = ou @ map (\<lambda>shift. ucast (drop_bit shift v)) [56, 48, 40, 32, 24, 16, 8, 0]"

definition append_string :: "bytes \<Rightarrow> string \<Rightarrow> bytes result" where
  "append_string ou s =
     (if length s > 65535 then Inl (Length_Error ''metadata string exceeds 65535 bytes'')
      else Inr (append_u16 ou (word_of_nat (length s)) @ bytes_of s))"

definition consume :: "string \<Rightarrow> nat \<Rightarrow> bytes decoder" where
  "consume message n r = (if remaining r < n then Inl (Runtime_Error message) else read_bytes n r)"

definition consume_u16 :: "u16 decoder" where
  "consume_u16 = bindD (consume ''chunk payload is truncated'' 2) (\<lambda>bs.
     returnD (push_bit 8 (ucast (bs ! 0)) OR ucast (bs ! 1)))"

definition consume_u32 :: "u32 decoder" where
  "consume_u32 = bindD (consume ''chunk payload is truncated'' 4) (\<lambda>bs.
     returnD (foldl (\<lambda>value byte. push_bit 8 value OR ucast byte) 0 bs))"

definition consume_u64 :: "u64 decoder" where
  "consume_u64 = bindD (consume ''metadata payload is truncated'' 8) (\<lambda>bs.
     returnD (foldl (\<lambda>value byte. push_bit 8 value OR ucast byte) 0 bs))"

definition consume_string :: "string decoder" where
  "consume_string = bindD consume_u16 (\<lambda>size.
     bindD (consume ''metadata string is truncated'' (unat size)) (\<lambda>bs. returnD (string_of bs)))"

section \<open>Chunks\<close>

text \<open>The loops over the columns, the quarter cells and the blocks, in the order of the code.\<close>

definition columns :: "(nat \<times> nat) list" where
  "columns = [(x, z). z \<leftarrow> [0..<16], x \<leftarrow> [0..<16]]"

definition quarters :: "(nat \<times> nat \<times> nat) list" where
  "quarters = [(qx, qy, qz). qy \<leftarrow> [0..<section_count * 4], qz \<leftarrow> [0..<4], qx \<leftarrow> [0..<4]]"

definition positions :: "(nat \<times> int \<times> nat) list" where
  "positions = [(x, min_build_y + int (section * 16 + y), z).
     section \<leftarrow> [0..<section_count], y \<leftarrow> [0..<16], z \<leftarrow> [0..<16], x \<leftarrow> [0..<16]]"

definition payload_magic :: bytes where
  "payload_magic = bytes_of ''MCC1''"

definition serialize_chunk :: "chunk \<Rightarrow> bytes result" where
  "serialize_chunk c =
     (let ou = append_u32 (append_u32 payload_magic (chunk_x (position c))) (chunk_z (position c)) in
      bindR (foldR (\<lambda>(x, z) ou. bindR (chunk_height c x z) (\<lambda>h. Inr (append_u32 ou (word_of_int h)))) columns ou) (\<lambda>ou.
      bindR (foldR (\<lambda>(qx, qy, qz) ou. bindR (chunk_biome c qx qy qz) (\<lambda>b. Inr (ou @ [b]))) quarters ou) (\<lambda>ou.
      Inr (foldl (\<lambda>ou section. foldl append_u16 ou (blocks section)) ou (sections c)))))"

definition read_height :: "nat \<times> nat \<Rightarrow> chunk \<Rightarrow> chunk decoder" where
  "read_height = (\<lambda>(x, z) c. bindD consume_u32 (\<lambda>v. liftD (set_height c x z (sint v))))"

definition read_biome :: "nat \<times> nat \<times> nat \<Rightarrow> chunk \<Rightarrow> chunk decoder" where
  "read_biome = (\<lambda>(qx, qy, qz) c. bindD (consume ''chunk payload is truncated'' 1) (\<lambda>bs.
     liftD (set_biome c qx qy qz (bs ! 0))))"

definition read_block :: "nat \<times> int \<times> nat \<Rightarrow> chunk \<Rightarrow> chunk decoder" where
  "read_block = (\<lambda>(x, y, z) c. bindD consume_u16 (\<lambda>b. liftD (chunk_set_block c x y z b)))"

definition read_chunk :: "chunk decoder" where
  "read_chunk =
     bindD consume_u32 (\<lambda>x.
     bindD consume_u32 (\<lambda>z.
     bindD (foldD read_height columns (new_chunk \<lparr>chunk_x = x, chunk_z = z\<rparr>)) (\<lambda>c.
     bindD (foldD read_biome quarters c) (foldD read_block positions))))"

definition deserialize_chunk :: "bytes \<Rightarrow> chunk result" where
  "deserialize_chunk payload =
     (if take 4 payload \<noteq> payload_magic
      then Inl (Runtime_Error ''chunk payload has an invalid format marker'')
      else (case read_chunk (mk_reader (drop 4 payload)) of
         Inl e \<Rightarrow> Inl e
       | Inr (c, r) \<Rightarrow>
           if \<not> reader_empty r then Inl (Runtime_Error ''chunk payload contains trailing data'')
           else Inr c))"

section \<open>Reading back numbers and strings\<close>

lemma append_img:
  "append_u16 ou v = ou @ be_bytes 2 v" "append_u32 ou w = ou @ be_bytes 4 w" "append_u64 ou x = ou @ be_bytes 8 x"
  by (simp_all add: append_u16_def append_u32_def append_u64_def be_bytes_shifts numeral_2_eq_2
      flip: be_bytes_shifts)

lemma reads_consume: "n = length bs \<Longrightarrow> reads (consume message n) bs bs"
  by (simp add: reads_def consume_def read_bytes_at)

lemma reads_map: "reads d bs x \<Longrightarrow> y = f x \<Longrightarrow> reads (bindD d (\<lambda>x. returnD (f x))) bs y"
  using reads_bind_return [of d bs x f] by simp

lemma reads_consume_u16: "reads consume_u16 (be_bytes 2 v) v"
  unfolding consume_u16_def
proof (rule reads_map [OF reads_consume])
  show "v = push_bit 8 (ucast (be_bytes 2 v ! 0)) OR ucast (be_bytes 2 v ! 1)"
    using be_value_u16 [of v] by (simp add: be_value_def numeral_2_eq_2)
qed simp

lemma reads_consume_u32: "reads consume_u32 (be_bytes 4 v) v"
  unfolding consume_u32_def be_value_foldl by (rule reads_map [OF reads_consume]) simp_all

lemma reads_consume_u64: "reads consume_u64 (be_bytes 8 v) v"
  unfolding consume_u64_def be_value_foldl by (rule reads_map [OF reads_consume]) simp_all

definition stored_string :: "string \<Rightarrow> bytes" where
  "stored_string s = be_bytes 2 (word_of_nat (length s) :: u16) @ bytes_of s"

lemma append_string_img:
  "length s \<le> 65535 \<Longrightarrow> append_string ou s = Inr (ou @ stored_string s)"
  by (simp add: append_string_def stored_string_def append_img)

lemma reads_consume_string:
  assumes "length s \<le> 65535"
  shows "reads consume_string (stored_string s) s"
proof -
  have "reads (bindD (consume m (unat (word_of_nat (length s) :: u16))) (\<lambda>bs. returnD (string_of bs))) (bytes_of s) s" for m
    by (rule reads_map [OF reads_consume]) (use assms in \<open>simp_all add: unat_word_of_nat\<close>)
  then show ?thesis
    unfolding consume_string_def stored_string_def by (rule reads_bindD [OF reads_consume_u16])
qed

interpretation stored_u16: fixed_codec "\<lambda>ou v. Inr (append_u16 ou v)" consume_u16 "\<lambda>_. True" "be_bytes 2" 2
  by unfold_locales (simp_all add: append_img readsD [OF reads_consume_u16])

interpretation stored_u32: fixed_codec "\<lambda>ou v. Inr (append_u32 ou v)" consume_u32 "\<lambda>_. True" "be_bytes 4" 4
  by unfold_locales (simp_all add: append_img readsD [OF reads_consume_u32])

interpretation stored_u64: fixed_codec "\<lambda>ou v. Inr (append_u64 ou v)" consume_u64 "\<lambda>_. True" "be_bytes 8" 8
  by unfold_locales (simp_all add: append_img readsD [OF reads_consume_u64])

interpretation stored_str: codec append_string consume_string "\<lambda>s. length s \<le> 65535" stored_string
  by unfold_locales (simp_all add: append_string_img readsD [OF reads_consume_string])

section \<open>The loops enumerate the arrays\<close>

lemma concat_rows: "concat (map (\<lambda>j. map (\<lambda>i. j * n + i) [0..<n]) [0..<m]) = [0..<m * n]"
proof (induction m)
  case (Suc m)
  have "map (\<lambda>i. m * n + i) [0..<n] = [m * n..<m * n + n]"
    by (simp add: map_add_upt add.commute)
  moreover have "[0..<m * n + n] = [0..<m * n] @ [m * n..<m * n + n]"
    using upt_add_eq_append [of 0 "m * n" n] by simp
  ultimately show ?case using Suc.IH by (simp add: add.commute)
qed simp

lemma map_rows: "concat (map (\<lambda>j. map (\<lambda>i. f (j * n + i)) [0..<n]) [0..<m]) = map f [0..<m * n]"
proof -
  have "map f (concat (map (\<lambda>j. map (\<lambda>i. j * n + i) [0..<n]) [0..<m])) = map f [0..<m * n]"
    by (simp only: concat_rows)
  then show ?thesis by (simp add: map_concat comp_def)
qed

lemma concat_concat_map: "concat (map (\<lambda>x. concat (f x)) xs) = concat (concat (map f xs))"
  by (induction xs) auto

lemma map_columns: "map (\<lambda>(x, z). f x z) columns = concat (map (\<lambda>z. map (\<lambda>x. f x z) [0..<16]) [0..<16])"
  unfolding columns_def by (simp only: map_concat map_map comp_def split_conv)

lemma map_quarters:
  "map (\<lambda>(qx, qy, qz). f qx qy qz) quarters =
   concat (map (\<lambda>qy. concat (map (\<lambda>qz. map (\<lambda>qx. f qx qy qz) [0..<4]) [0..<4])) [0..<section_count * 4])"
  unfolding quarters_def by (simp only: map_concat map_map comp_def split_conv)

lemma columns_indices: "map (\<lambda>(x, z). z * 16 + x) columns = [0..<256]"
  unfolding map_columns using concat_rows [of 16 16] by (simp only: mult_numeral_1_right) simp

lemma quarters_indices: "map (\<lambda>(qx, qy, qz). (qy * 4 + qz) * 4 + qx) quarters = [0..<section_count * 64]"
proof -
  have "map (\<lambda>(qx, qy, qz). (qy * 4 + qz) * 4 + qx) quarters =
      concat (concat (map (\<lambda>qy. map (\<lambda>qz. map (\<lambda>qx. (qy * 4 + qz) * 4 + qx) [0..<4]) [0..<4]) [0..<section_count * 4]))"
    unfolding map_quarters by (rule concat_concat_map)
  also have "\<dots> = [0..<section_count * 4 * 4 * 4]"
    unfolding map_rows [of "\<lambda>j. map (\<lambda>qx. j * 4 + qx) [0..<4]"] by (rule concat_rows)
  finally show ?thesis by (simp add: section_count_def)
qed

section \<open>The image of a chunk\<close>

definition height_img :: "chunk \<Rightarrow> nat \<times> nat \<Rightarrow> bytes" where
  "height_img c = (\<lambda>(x, z). be_bytes 4 (word_of_int (heightmap c ! (z * 16 + x)) :: u32))"

definition biome_img :: "chunk \<Rightarrow> nat \<times> nat \<times> nat \<Rightarrow> bytes" where
  "biome_img c = (\<lambda>(qx, qy, qz). [biomes c ! ((qy * 4 + qz) * 4 + qx)])"

definition block_img :: "chunk \<Rightarrow> nat \<times> int \<times> nat \<Rightarrow> bytes" where
  "block_img c = (\<lambda>(x, y, z). be_bytes 2 (block_at c x y z))"

definition chunk_img :: "chunk \<Rightarrow> bytes" where
  "chunk_img c = payload_magic @ be_bytes 4 (chunk_x (position c)) @ be_bytes 4 (chunk_z (position c)) @
     concat (map (height_img c) columns) @ concat (map (biome_img c) quarters) @
     concat (map (block_img c) positions)"

lemma columns_bounds: "(x, z) \<in> set columns \<longleftrightarrow> x < 16 \<and> z < 16"
  by (auto simp: columns_def image_iff)

lemma quarters_bounds: "(qx, qy, qz) \<in> set quarters \<longleftrightarrow> qx < 4 \<and> qy < section_count * 4 \<and> qz < 4"
  by (auto simp: quarters_def image_iff)

lemma split_y:
  "min_build_y \<le> y \<and> y < max_build_y \<longleftrightarrow> (\<exists>i < section_count. \<exists>j < 16. y = min_build_y + int (i * 16 + j))"
proof
  assume y: "min_build_y \<le> y \<and> y < max_build_y"
  then have "y = min_build_y + int (nat (y - min_build_y) div 16 * 16 + nat (y - min_build_y) mod 16)" by simp
  with y offset_less [of y] show "\<exists>i < section_count. \<exists>j < 16. y = min_build_y + int (i * 16 + j)"
    by (intro exI [of _ "nat (y - min_build_y) div 16"] exI [of _ "nat (y - min_build_y) mod 16"] conjI) simp_all
qed (auto simp: build_y)

lemma positions_bounds: "p \<in> set positions \<longleftrightarrow> in_chunk p"
proof -
  obtain x y z where p: "p = (x, y, z)" by (cases p)
  show ?thesis unfolding p in_chunk_def positions_def
    by (auto simp: image_iff split_y simp del: of_nat_add of_nat_mult) (use atLeast0LessThan in blast)
qed

lemma foldR_img:
  "(\<And>x ou. x \<in> set xs \<Longrightarrow> f x ou = Inr (ou @ img x)) \<Longrightarrow> foldR f xs ou = Inr (ou @ concat (map img xs))"
  by (induction xs arbitrary: ou) auto

lemma foldl_append_u16: "foldl append_u16 ou vs = ou @ concat (map (be_bytes 2) vs)"
  by (induction vs arbitrary: ou) (auto simp: append_img)

lemma foldl_sections:
  "foldl (\<lambda>ou s. foldl append_u16 ou (blocks s)) ou ss = ou @ concat (map (be_bytes 2) (concat (map blocks ss)))"
  by (induction ss arbitrary: ou) (auto simp: foldl_append_u16)

text \<open>The blocks of the sections, one after another, are the blocks at the positions in their order.\<close>

lemma block_at_section:
  "j < 16 \<Longrightarrow> block_at c x (min_build_y + int (section * 16 + j)) z = blocks (sections c ! section) ! cell x j z"
  by (simp add: block_at_def Let_def del: of_nat_add of_nat_mult)

lemma section_cells:
  "concat (map (\<lambda>j. concat (map (\<lambda>z. map (\<lambda>x. f (cell x j z)) [0..<16]) [0..<16])) [0..<16]) = map f [0..<4096]"
proof -
  have "concat (map (\<lambda>j. concat (map (\<lambda>z. map (\<lambda>x. f (cell x j z)) [0..<16]) [0..<16])) [0..<16]) =
      concat (concat (map (\<lambda>j. map (\<lambda>z. map (\<lambda>x. f ((j * 16 + z) * 16 + x)) [0..<16]) [0..<16]) [0..<16]))"
    unfolding cell_def by (rule concat_concat_map)
  also have "\<dots> = map f [0..<16 * 16 * 16]"
    unfolding map_rows [of "\<lambda>k. map (\<lambda>x. f (k * 16 + x)) [0..<16]"] by (rule map_rows)
  finally show ?thesis by simp
qed

lemma section_blocks:
  assumes "chunk_ok c" and "i < section_count"
  shows "blocks (sections c ! i) = concat (map (\<lambda>j. concat (map (\<lambda>z.
    map (\<lambda>x. block_at c x (min_build_y + int (i * 16 + j)) z) [0..<16]) [0..<16])) [0..<16])"
proof -
  have l: "length (blocks (sections c ! i)) = 4096"
    using assms by (simp add: chunk_ok_def list_all_length section_ok_def)
  have "blocks (sections c ! i) = map ((!) (blocks (sections c ! i))) [0..<4096]"
    unfolding l [symmetric] by (rule map_nth [symmetric])
  also have "\<dots> = concat (map (\<lambda>j. concat (map (\<lambda>z. map (\<lambda>x. blocks (sections c ! i) ! cell x j z) [0..<16]) [0..<16])) [0..<16])"
    by (rule section_cells [symmetric])
  also have "\<dots> = concat (map (\<lambda>j. concat (map (\<lambda>z.
      map (\<lambda>x. block_at c x (min_build_y + int (i * 16 + j)) z) [0..<16]) [0..<16])) [0..<16])"
    by (intro arg_cong [of _ _ concat] map_cong refl block_at_section [symmetric]) simp
  finally show ?thesis .
qed

lemma blocks_in_order:
  assumes "chunk_ok c"
  shows "concat (map blocks (sections c)) = map (\<lambda>(x, y, z). block_at c x y z) positions"
proof -
  have "map blocks (sections c) = map (\<lambda>i. blocks (sections c ! i)) [0..<section_count]"
    using assms by (intro nth_equalityI) (simp_all add: chunk_ok_def)
  also have "\<dots> = map (\<lambda>i. concat (map (\<lambda>j. concat (map (\<lambda>z.
      map (\<lambda>x. block_at c x (min_build_y + int (i * 16 + j)) z) [0..<16]) [0..<16])) [0..<16])) [0..<section_count]"
    by (intro map_cong refl section_blocks [OF assms]) simp
  finally show ?thesis
    unfolding positions_def by (simp only: map_concat map_map comp_def split_conv)
qed

lemma serialize_chunk_img:
  assumes "chunk_ok c"
  shows "serialize_chunk c = Inr (chunk_img c)"
proof -
  let ?o1 = "payload_magic @ be_bytes 4 (chunk_x (position c)) @ be_bytes 4 (chunk_z (position c))"
  have 1: "foldR (\<lambda>(x, z) ou. bindR (chunk_height c x z) (\<lambda>h. Inr (ou @ be_bytes 4 (word_of_int h :: u32)))) columns ou =
      Inr (ou @ concat (map (height_img c) columns))" for ou
    by (rule foldR_img) (auto simp: columns_bounds chunk_height_def column_index_eq append_img height_img_def)
  have 2: "foldR (\<lambda>(qx, qy, qz) ou. bindR (chunk_biome c qx qy qz) (\<lambda>b. Inr (ou @ [b]))) quarters ou =
      Inr (ou @ concat (map (biome_img c) quarters))" for ou
    by (rule foldR_img) (auto simp: quarters_bounds chunk_biome_def biome_index_def biome_img_def)
  have 3: "concat (map (be_bytes 2) (concat (map blocks (sections c)))) = concat (map (block_img c) positions)"
    unfolding blocks_in_order [OF assms] by (simp add: block_img_def comp_def split_def)
  show ?thesis
    unfolding serialize_chunk_def Let_def append_img 1 bindR.simps 2 foldl_sections 3 chunk_img_def by simp
qed

section \<open>Reading a chunk back\<close>

lemma nth_fold_update:
  "length (fold (\<lambda>i xs. xs[i := ys ! i]) js xs) = length xs \<and>
   (i < length xs \<longrightarrow> fold (\<lambda>i xs. xs[i := ys ! i]) js xs ! i = (if i \<in> set js then ys ! i else xs ! i))"
  by (induction js arbitrary: xs) (auto simp: nth_list_update)

lemma fold_update: "length xs = length ys \<Longrightarrow> fold (\<lambda>i xs. xs[i := ys ! i]) [0..<length ys] xs = ys"
  by (rule nth_equalityI) (simp_all add: nth_fold_update)

lemma sint_height:
  assumes "min_build_y \<le> h" "h < max_build_y"
  shows "sint (word_of_int h :: u32) = h"
  using assms by (simp add: build_y signed_of_int signed_take_bit_int_eq_self)

lemma reads_liftD: "m = Inr x \<Longrightarrow> reads (liftD m) [] x"
  by (simp add: reads_def liftD_run)

lemma reads_then_lift: "reads d bs v \<Longrightarrow> f v = Inr x \<Longrightarrow> reads (bindD d (\<lambda>v. liftD (f v))) bs x"
  using reads_bindD [of d bs v "\<lambda>v. liftD (f v)" "[]" x] by (simp add: reads_liftD)

lemma fold_heights:
  "fold (\<lambda>i c. c\<lparr>heightmap := (heightmap c)[i := hs ! i], dirty := True\<rparr>) js c =
   c\<lparr>heightmap := fold (\<lambda>i xs. xs[i := hs ! i]) js (heightmap c), dirty := dirty c \<or> js \<noteq> []\<rparr>"
  by (induction js arbitrary: c) simp_all

lemma fold_biomes:
  "fold (\<lambda>i c. c\<lparr>biomes := (biomes c)[i := bs ! i], dirty := True\<rparr>) js c =
   c\<lparr>biomes := fold (\<lambda>i xs. xs[i := bs ! i]) js (biomes c), dirty := dirty c \<or> js \<noteq> []\<rparr>"
  by (induction js arbitrary: c) simp_all

lemma reads_heights:
  assumes "chunk_ok c" and "length (heightmap d) = 256"
  shows "reads (foldD read_height columns (d :: chunk)) (concat (map (height_img c) columns))
    (d\<lparr>heightmap := heightmap c, dirty := True\<rparr>)"
proof -
  let ?h = "\<lambda>i d. d\<lparr>heightmap := (heightmap d)[i := heightmap c ! i], dirty := True\<rparr>"
  have l: "length (heightmap c) = 256" using assms(1) by (simp add: chunk_ok_def)
  have "reads (foldD read_height columns d) (concat (map (height_img c) columns))
      (fold (\<lambda>(x, z). ?h (z * 16 + x)) columns d) \<and> length (heightmap (fold (\<lambda>(x, z). ?h (z * 16 + x)) columns d)) = 256"
  proof (rule reads_foldD [where P = "\<lambda>d. length (heightmap d) = 256"])
    fix p and d' :: chunk assume p: "p \<in> set columns" "length (heightmap d') = 256"
    obtain x z where xz: "p = (x, z)" "x < 16" "z < 16" using p(1) columns_bounds by (metis surj_pair)
    then have b: "min_build_y \<le> heightmap c ! (z * 16 + x)" "heightmap c ! (z * 16 + x) < max_build_y"
      using assms(1) by (auto simp: chunk_ok_def list_all_length)
    have "reads (bindD consume_u32 (\<lambda>v. liftD (set_height d' x z (sint v)))) (be_bytes 4 (word_of_int (heightmap c ! (z * 16 + x)) :: u32))
        (?h (z * 16 + x) d')"
      by (rule reads_then_lift [OF reads_consume_u32])
        (use b xz in \<open>simp add: sint_height set_height_def column_index_eq\<close>)
    then show "reads (read_height p d') (height_img c p) ((\<lambda>(x, z). ?h (z * 16 + x)) p d') \<and>
        length (heightmap ((\<lambda>(x, z). ?h (z * 16 + x)) p d')) = 256"
      using p(2) by (simp add: xz(1) read_height_def height_img_def)
  qed (rule assms(2))
  moreover have "fold (\<lambda>(x, z). ?h (z * 16 + x)) columns d = fold ?h (map (\<lambda>(x, z). z * 16 + x) columns) d"
    by (simp add: fold_map comp_def split_def)
  moreover have "\<dots> = d\<lparr>heightmap := heightmap c, dirty := True\<rparr>"
    unfolding columns_indices fold_heights using fold_update [of "heightmap d" "heightmap c"] l assms(2) by simp
  ultimately show ?thesis by simp
qed

lemma reads_biomes:
  assumes "chunk_ok c" and "length (biomes d) = section_count * 64"
  shows "reads (foldD read_biome quarters (d :: chunk)) (concat (map (biome_img c) quarters))
    (d\<lparr>biomes := biomes c, dirty := True\<rparr>)"
proof -
  let ?h = "\<lambda>i d. d\<lparr>biomes := (biomes d)[i := biomes c ! i], dirty := True\<rparr>"
  let ?g = "\<lambda>(qx, qy, qz). ?h ((qy * 4 + qz) * 4 + qx)"
  have l: "length (biomes c) = section_count * 64" using assms(1) by (simp add: chunk_ok_def)
  have "reads (foldD read_biome quarters d) (concat (map (biome_img c) quarters)) (fold ?g quarters d) \<and>
      length (biomes (fold ?g quarters d)) = section_count * 64"
  proof (rule reads_foldD [where P = "\<lambda>d. length (biomes d) = section_count * 64"])
    fix p and d' :: chunk assume p: "p \<in> set quarters" "length (biomes d') = section_count * 64"
    obtain qx qy qz where q: "p = (qx, qy, qz)" "qx < 4" "qy < section_count * 4" "qz < 4"
      using p(1) quarters_bounds by (metis surj_pair)
    have "reads (bindD (consume ''chunk payload is truncated'' 1) (\<lambda>bs. liftD (set_biome d' qx qy qz (bs ! 0))))
        [biomes c ! ((qy * 4 + qz) * 4 + qx)] (?h ((qy * 4 + qz) * 4 + qx) d')"
      by (rule reads_then_lift [OF reads_consume]) (use q in \<open>simp_all add: set_biome_def biome_index_def\<close>)
    then show "reads (read_biome p d') (biome_img c p) (?g p d') \<and> length (biomes (?g p d')) = section_count * 64"
      using p(2) by (simp add: q(1) read_biome_def biome_img_def)
  qed (rule assms(2))
  moreover have "fold ?g quarters d = fold ?h (map (\<lambda>(qx, qy, qz). (qy * 4 + qz) * 4 + qx) quarters) d"
    by (simp add: fold_map comp_def split_def)
  moreover have "\<dots> = d\<lparr>biomes := biomes c, dirty := True\<rparr>"
    unfolding quarters_indices fold_biomes using fold_update [of "biomes d" "biomes c"] l assms(2)
    by (simp add: section_count_def)
  ultimately show ?thesis by simp
qed


text \<open>Reading the image of blocks writes them one after another.\<close>

lemma reads_put_blocks:
  "foldR (\<lambda>p d. chunk_put d p (case p of (x, y, z) \<Rightarrow> block_at c x y z)) ps d = Inr d' \<Longrightarrow>
   reads (foldD read_block ps d) (concat (map (block_img c) ps)) d'"
proof (induction ps arbitrary: d)
  case Nil
  then show ?case by (simp add: reads_returnD)
next
  case (Cons p ps)
  obtain x y z where p: "p = (x, y, z)" by (metis surj_pair)
  obtain d1 where d1: "chunk_set_block d x y z (block_at c x y z) = Inr d1"
    "foldR (\<lambda>p d. chunk_put d p (case p of (x, y, z) \<Rightarrow> block_at c x y z)) ps d1 = Inr d'"
    using Cons.prems by (auto simp: p chunk_put_def bindR_Inr_iff)
  have "reads (read_block p d) (block_img c p) d1"
    unfolding p read_block_def block_img_def split_conv
    by (rule reads_then_lift [OF reads_consume_u16]) (rule d1(1))
  then show ?case
    using reads_bindD [of "read_block p d" "block_img c p" d1 "foldD read_block ps", OF _ Cons.IH [OF d1(2)]] by simp
qed

text \<open>A well-formed chunk is determined by its blocks, heights, biomes, position and flag.\<close>

lemma chunk_eqI:
  fixes c d :: chunk
  assumes "chunk_ok c" "chunk_ok d" and "\<And>x y z. in_chunk (x, y, z) \<Longrightarrow> block_at c x y z = block_at d x y z"
    and "heightmap c = heightmap d" "biomes c = biomes d" "position c = position d" "dirty c = dirty d"
  shows "c = d"
proof -
  have "sections c ! i = sections d ! i" if i: "i < section_count" for i
  proof (rule chunk_section.equality)
    show b: "blocks (sections c ! i) = blocks (sections d ! i)"
      unfolding section_blocks [OF assms(1) i] section_blocks [OF assms(2) i]
      by (intro arg_cong [of _ _ concat] map_cong refl assms(3))
        (use i in \<open>auto simp: in_chunk_def split_y simp del: of_nat_add of_nat_mult\<close>)
    show "non_air_count (sections c ! i) = non_air_count (sections d ! i)"
      using assms(1,2) i b by (simp add: chunk_ok_def list_all_length section_ok_def)
  qed simp
  then have "sections c = sections d"
    using assms(1,2) by (intro nth_equalityI) (simp_all add: chunk_ok_def)
  with assms(4-7) show ?thesis by (intro chunk.equality) simp_all
qed


lemma new_chunk_at: "in_chunk (x, y, z) \<Longrightarrow> block_at (new_chunk pos) x y z = air"
  using offset_less [of y] cell_less [of x "nat (y - min_build_y) mod 16" z]
  by (simp add: block_at_blocks new_chunk_def empty_section_def in_chunk_def)

lemma flat_rows:
  "concat (map (\<lambda>j. concat (map (\<lambda>i. f (j * n + i)) [0..<n])) [0..<m]) = concat (map f [0..<m * n])"
  by (simp only: concat_concat_map map_rows)

lemma positions_indices:
  "map (\<lambda>(x, y, z). (nat (y - min_build_y) * 16 + z) * 16 + x) positions = [0..<section_count * 16 * 16 * 16]"
proof -
  let ?n = "\<lambda>(x, y, z). (nat (y - min_build_y) * 16 + z) * 16 + x"
  have "map ?n positions = concat (map (\<lambda>i. concat (map (\<lambda>j. concat (map (\<lambda>z.
      map (\<lambda>x. ((i * 16 + j) * 16 + z) * 16 + x) [0..<16]) [0..<16])) [0..<16])) [0..<section_count])"
    unfolding positions_def by (simp only: map_concat map_map comp_def split_conv add_diff_cancel_left' nat_int)
  also have "\<dots> = concat (map (\<lambda>k. concat (map (\<lambda>z. map (\<lambda>x. (k * 16 + z) * 16 + x) [0..<16]) [0..<16])) [0..<section_count * 16])"
    by (rule flat_rows)
  also have "\<dots> = concat (map (\<lambda>m. map (\<lambda>x. m * 16 + x) [0..<16]) [0..<section_count * 16 * 16])"
    by (rule flat_rows)
  also have "\<dots> = [0..<section_count * 16 * 16 * 16]" by (rule concat_rows)
  finally show ?thesis .
qed

lemma distinct_positions: "distinct positions"
  using positions_indices distinct_map distinct_upt by metis

lemma read_chunk_img:
  assumes "chunk_ok c" and "heights_cover c"
  shows "reads read_chunk (drop 4 (chunk_img c)) (c\<lparr>dirty := True\<rparr>)"
proof -
  let ?p = "position c"
  have magic: "length payload_magic = 4" by (simp add: payload_magic_def)
  have pos: "\<lparr>chunk_x = chunk_x ?p, chunk_z = chunk_z ?p\<rparr> = ?p" by simp
  let ?d = "(new_chunk ?p)\<lparr>heightmap := heightmap c, dirty := True\<rparr>"
  let ?e = "?d\<lparr>biomes := biomes c, dirty := True\<rparr>"
  have l: "length (heightmap (new_chunk ?p)) = 256" "length (biomes ?d) = section_count * 64"
    by (simp_all add: new_chunk_def)
  have e: "chunk_ok ?e" using new_chunk_ok [of ?p] assms(1) by (simp add: chunk_ok_def)
  have "\<forall>(x, y, z) \<in> set positions. in_chunk (x, y, z) \<and> block_at ?e x y z = air \<and>
      ((\<lambda>(x, y, z). block_at c x y z) (x, y, z) \<noteq> air \<longrightarrow> y \<le> heightmap ?e ! (z * 16 + x))"
    using assms(2) by (auto simp: positions_bounds new_chunk_at heights_cover_def)
  then obtain d' where d': "reads (foldD read_block positions ?e) (concat (map (block_img c) positions)) d'" "chunk_ok d'"
    "heightmap d' = heightmap c" "biomes d' = biomes c" "position d' = ?p" "dirty d'"
    "\<And>x y z. in_chunk (x, y, z) \<Longrightarrow> block_at d' x y z = block_at c x y z"
    using put_blocks [OF distinct_positions e, of "\<lambda>(x, y, z). block_at c x y z"] reads_put_blocks
    by (fastforce simp: positions_bounds new_chunk_def)
  have "d' = c\<lparr>dirty := True\<rparr>"
    by (rule chunk_eqI) (use assms(1) d' in \<open>simp_all add: chunk_ok_def\<close>)
  moreover have "reads (bindD (foldD read_height columns (new_chunk ?p)) (\<lambda>c. bindD (foldD read_biome quarters c) (foldD read_block positions)))
      (concat (map (height_img c) columns) @ concat (map (biome_img c) quarters) @ concat (map (block_img c) positions)) d'"
    by (rule reads_bindD [OF reads_heights [OF assms(1) l(1)]], rule reads_bindD [OF reads_biomes [OF assms(1) l(2)]])
      (rule d'(1))
  then have "reads read_chunk (be_bytes 4 (chunk_x ?p) @ be_bytes 4 (chunk_z ?p) @ concat (map (height_img c) columns) @
      concat (map (biome_img c) quarters) @ concat (map (block_img c) positions)) d'"
    unfolding read_chunk_def
    by (intro reads_bindD [OF reads_consume_u32]) (simp only: pos)
  ultimately show ?thesis by (simp add: chunk_img_def magic)
qed

lemma chunk_img_magic: "take 4 (chunk_img c) = payload_magic"
  by (simp add: chunk_img_def payload_magic_def)

lemma deserialize_chunk_img:
  assumes "chunk_ok c" and "heights_cover c"
  shows "deserialize_chunk (chunk_img c) = Inr (c\<lparr>dirty := True\<rparr>)"
  using readsD_all [OF read_chunk_img [OF assms], of "[]"]
  by (simp add: deserialize_chunk_def chunk_img_magic mk_reader_at)

section \<open>Whatever the bytes are\<close>

text \<open>A chunk that could be read is well-formed, and its heights cover its blocks.\<close>

lemma new_top_cover:
  assumes "heights_cover c" and "in_chunk (x, y, z)"
    and "new_top c' x z y (heightmap c ! (z * 16 + x)) (block_at c x y z) b t"
    and at: "\<And>y'. in_chunk (x, y', z) \<Longrightarrow> block_at c' x y' z = (if y' = y then b else block_at c x y' z)"
    and "in_chunk (x, y', z)" and "block_at c' x y' z \<noteq> air" and "heightmap c ! (z * 16 + x) < max_build_y"
  shows "y' \<le> t"
proof -
  let ?h = "heightmap c ! (z * 16 + x)"
  have 1: "y' = y \<or> y' \<le> ?h"
    using at [OF assms(5)] assms(1,5,6) unfolding heights_cover_def by (metis)
  show ?thesis
  proof (cases "b \<noteq> air \<and> y > ?h")
    case True
    then show ?thesis using 1 assms(3) by (auto simp: new_top_def)
  next
    case False
    then have le: "y' \<le> ?h" using 1 at [OF assms(5)] assms(6) by auto
    show ?thesis
    proof (cases "block_at c x y z \<noteq> air \<and> b = air \<and> y = ?h")
      case True
      then have "next_top c' x z ?h t" using assms(3) by (auto simp: new_top_def)
      with le assms(6) show ?thesis unfolding next_top_def by (metis not_le)
    next
      case False
      then show ?thesis using le assms(3) \<open>\<not> (b \<noteq> air \<and> y > ?h)\<close> by (auto simp: new_top_def split: if_splits)
    qed
  qed
qed

lemma chunk_set_block_cover:
  assumes "chunk_ok c" and "heights_cover c" and "chunk_set_block c x y z b = Inr c'"
  shows "heights_cover c'"
proof -
  have r: "in_chunk (x, y, z)" using chunk_set_block_fails [of x y z c b] assms(3) by auto
  then have rb: "x < 16" "z < 16" by (simp_all add: in_chunk_def)
  obtain s t where w: "chunk_set_block c x y z b = Inr ((write_block c x y z b s)\<lparr>heightmap := (heightmap c)[z * 16 + x := t]\<rparr>)"
    "new_top (write_block c x y z b s) x z y (heightmap c ! (z * 16 + x)) (block_at c x y z) b t"
    using chunk_set_block_spec [OF assms(1) r] by blast
  have c': "c' = (write_block c x y z b s)\<lparr>heightmap := (heightmap c)[z * 16 + x := t]\<rparr>" using w(1) assms(3) by simp
  have nt: "new_top c' x z y (heightmap c ! (z * 16 + x)) (block_at c x y z) b t"
    by (rule new_top_cong [THEN iffD1, OF _ w(2)]) (simp add: c')
  note at = chunk_set_block_at [OF assms(1) assms(3)]
  have l: "z * 16 + x < length (heightmap c)" using rb assms(1) by (simp add: chunk_ok_def)
  then have hb: "heightmap c ! (z * 16 + x) < max_build_y" using assms(1) by (simp add: chunk_ok_def list_all_length)
  have "y' \<le> heightmap c' ! (z' * 16 + x')" if p: "in_chunk (x', y', z')" "block_at c' x' y' z' \<noteq> air" for x' y' z'
  proof (cases "x' = x \<and> z' = z")
    case True
    then have "y' \<le> t"
      using new_top_cover [OF assms(2) r nt] at [of x _ z] p hb by auto
    with True l show ?thesis by (simp add: c' write_block_def)
  next
    case False
    then have "z' * 16 + x' \<noteq> z * 16 + x" using digits_inject [of z' 16 x' z x] p rb by (auto simp: in_chunk_def)
    moreover have "block_at c x' y' z' \<noteq> air" using at [OF p(1)] False p(2) by auto
    ultimately show ?thesis using assms(2) p(1) by (simp add: c' write_block_def heights_cover_def)
  qed
  then show ?thesis unfolding heights_cover_def by blast
qed

lemma foldD_invariant:
  assumes "P s" and "\<And>x s r s' r'. P s \<Longrightarrow> f x s r = Inr (s', r') \<Longrightarrow> P s'" and "foldD f xs s r = Inr (s', r')"
  shows "P s'"
  using assms(1,3)
proof (induction xs arbitrary: s r)
  case (Cons x xs)
  then obtain s1 r1 where "f x s r = Inr (s1, r1)" "foldD f xs s1 r1 = Inr (s', r')" by (auto simp: bindD_Inr_iff)
  with Cons.IH Cons.prems(1) assms(2) show ?case by blast
qed (simp add: returnD_def)

lemma set_height_blocks: "set_height c x z h = Inr c' \<Longrightarrow> block_at c' = block_at c"
  by (auto simp: set_height_def bindR_Inr_iff split: if_splits)

lemma set_biome_blocks: "set_biome c qx qy qz b = Inr c' \<Longrightarrow> block_at c' = block_at c"
  by (auto simp: set_biome_def bindR_Inr_iff)

definition no_blocks :: "chunk \<Rightarrow> bool" where
  "no_blocks c = (\<forall>x y z. in_chunk (x, y, z) \<longrightarrow> block_at c x y z = air)"

lemma deserialize_chunk_well_formed:
  assumes "deserialize_chunk payload = Inr c"
  shows "chunk_ok c \<and> heights_cover c"
proof -
  obtain x z c1 c2 r r1 r2 r3 where r: 
    "foldD read_height columns (new_chunk \<lparr>chunk_x = x, chunk_z = z\<rparr>) r = Inr (c1, r1)"
    "foldD read_biome quarters c1 r1 = Inr (c2, r2)" "foldD read_block positions c2 r2 = Inr (c, r3)"
    using assms by (auto simp: deserialize_chunk_def read_chunk_def bindD_Inr_iff split: sum.splits if_splits)
  have "chunk_ok c1 \<and> no_blocks c1"
    by (rule foldD_invariant [where P = "\<lambda>c. chunk_ok c \<and> no_blocks c", OF _ _ r(1)])
      (auto simp: read_height_def bindD_Inr_iff liftD_Inr_iff set_height_ok set_height_blocks no_blocks_def new_chunk_at)
  then have "chunk_ok c2 \<and> no_blocks c2"
    by (rule foldD_invariant [where P = "\<lambda>c. chunk_ok c \<and> no_blocks c", OF _ _ r(2)])
      (auto simp: read_biome_def bindD_Inr_iff liftD_Inr_iff no_blocks_def set_biome_blocks dest: set_biome_ok)
  then have "chunk_ok c2 \<and> heights_cover c2" by (auto simp: no_blocks_def heights_cover_def)
  then show ?thesis
    by (rule foldD_invariant [where P = "\<lambda>c. chunk_ok c \<and> heights_cover c", OF _ _ r(3)])
      (auto simp: read_block_def bindD_Inr_iff liftD_Inr_iff chunk_set_block_ok chunk_set_block_cover)
qed

section \<open>The size of a stored chunk\<close>

lemma length_concat_const:
  "(\<And>x. x \<in> set xs \<Longrightarrow> length (f x) = k) \<Longrightarrow> length (concat (map f xs)) = k * length xs"
  by (induction xs) auto

lemma length_positions: "length positions = section_count * 4096"
  using arg_cong [OF positions_indices, of length] by simp

lemma length_chunk_img: "length (chunk_img c) = 199180"
proof -
  have l: "length columns = 256" "length quarters = section_count * 64"
    using arg_cong [OF columns_indices, of length] arg_cong [OF quarters_indices, of length] by simp_all
  have "length (concat (map (height_img c) columns)) = 4 * length columns"
    "length (concat (map (biome_img c) quarters)) = 1 * length quarters"
    "length (concat (map (block_img c) positions)) = 2 * length positions"
    by (rule length_concat_const, simp add: height_img_def biome_img_def block_img_def split_def)+
  then show ?thesis by (simp add: chunk_img_def payload_magic_def l length_positions section_count_def)
qed

section \<open>Properties\<close>

text \<open>C16. Storing a chunk and reading it back gives the same chunk, with its flag set: its position, every block,
  every height and every biome, for every chunk that play can reach.\<close>

theorem stored_chunk_roundtrip:
  assumes "reachable_chunk pos c"
  shows "\<exists>payload. serialize_chunk c = Inr payload \<and> deserialize_chunk payload = Inr (c\<lparr>dirty := True\<rparr>)"
  using serialize_chunk_img deserialize_chunk_img heights_exact_cover reachable_chunk_inv [OF assms] by blast

text \<open>C31. Whatever bytes a chunk is read from, the result is an error or a well-formed chunk: exact block counts in
  every section, all heights inside the world, and no block above the height of its column.\<close>

theorem deserialize_chunk_safe:
  "case deserialize_chunk payload of Inl e \<Rightarrow> True
   | Inr c \<Rightarrow> chunk_ok c \<and> (\<exists>stored. serialize_chunk c = Inr stored \<and> deserialize_chunk stored = Inr (c\<lparr>dirty := True\<rparr>))"
proof (cases "deserialize_chunk payload")
  case (Inr c)
  then have "chunk_ok c \<and> heights_cover c" by (rule deserialize_chunk_well_formed)
  with Inr show ?thesis using serialize_chunk_img deserialize_chunk_img by auto
qed simp

theorem stored_chunk_roundtrip_witness:
  "\<exists>payload. serialize_chunk (new_chunk origin) = Inr payload \<and>
     deserialize_chunk payload = Inr ((new_chunk origin)\<lparr>dirty := True\<rparr>)"
  by (rule stored_chunk_roundtrip [OF reachable_chunk.new])

end
