(* ===== verification/Region.thy ===== *)
theory Region
  imports Storage
begin

text \<open>
  Region files and the storage of a level (src/world/storage.cpp): 4096-byte
  sectors behind a table of locations and one of timestamps, writes in place or
  at the end of the file, and the directory of region files.

  A file is the list of its bytes. \<open>deflate\<close> and \<open>uncompress\<close> stand for zlib's
  \<open>compress2\<close> and \<open>uncompress\<close>. A storage holds its files by name, the keys of the
  region files it has opened, and the values the clock gives to its successive
  reads.
\<close>

section \<open>Coordinates\<close>

definition region_position :: "chunk_position \<Rightarrow> int \<times> int" where
  "region_position p = (floor_div (sint (chunk_x p)) 32, floor_div (sint (chunk_z p)) 32)"

definition local_region_x :: "chunk_position \<Rightarrow> u8" where
  "local_region_x p = floor_mod (sint (chunk_x p)) 32"

definition local_region_z :: "chunk_position \<Rightarrow> u8" where
  "local_region_z p = floor_mod (sint (chunk_z p)) 32"

definition location_index :: "u8 \<Rightarrow> u8 \<Rightarrow> nat result" where
  "location_index x z =
     (if x \<ge> 32 \<or> z \<ge> 32 then Inl (Out_Of_Range ''local region coordinate is out of range'')
      else Inr (unat z * 32 + unat x))"

section \<open>Compression\<close>

datatype inflate_result = Z_Ok bytes | Z_Buf_Error | Z_Failed

type_synonym deflater = "bytes \<Rightarrow> bytes option"
type_synonym inflater = "bytes \<Rightarrow> nat \<Rightarrow> inflate_result"

definition max_uncompressed_chunk_size :: nat where
  "max_uncompressed_chunk_size = 16777216"

definition compress_payload :: "deflater \<Rightarrow> bytes \<Rightarrow> bytes result" where
  "compress_payload deflate payload =
     (if length payload > max_uncompressed_chunk_size
      then Inl (Length_Error ''chunk payload exceeds storage limit'')
      else (case deflate payload of
         None \<Rightarrow> Inl (Runtime_Error ''failed to compress region chunk'')
       | Some compressed \<Rightarrow> Inr compressed))"

text \<open>The output sizes tried: 256 KiB, doubled up to the limit.\<close>

definition capacities :: "nat list" where
  "capacities = [262144, 524288, 1048576, 2097152, 4194304, 8388608, 16777216]"

fun decompress_from :: "inflater \<Rightarrow> bytes \<Rightarrow> nat list \<Rightarrow> bytes result" where
  "decompress_from uncompress payload [] =
     Inl (Length_Error ''decompressed region chunk exceeds storage limit'')"
| "decompress_from uncompress payload (capacity # larger) =
     (case uncompress payload capacity of
        Z_Ok ou \<Rightarrow> Inr ou
      | Z_Buf_Error \<Rightarrow> decompress_from uncompress payload larger
      | Z_Failed \<Rightarrow> Inl (Runtime_Error ''failed to decompress region chunk''))"

definition decompress_payload :: "inflater \<Rightarrow> bytes \<Rightarrow> bytes result" where
  "decompress_payload uncompress payload = decompress_from uncompress payload capacities"

section \<open>Region files\<close>

definition sector_size :: nat where "sector_size = 4096"
definition header_size :: nat where "header_size = sector_size * 2"

definition file_read :: "bytes \<Rightarrow> nat \<Rightarrow> nat \<Rightarrow> bytes option" where
  "file_read f off n = (if off + n > length f then None else Some (take n (drop off f)))"

text \<open>A write behind the end of the file fills the gap with zeros.\<close>

definition file_write :: "bytes \<Rightarrow> nat \<Rightarrow> bytes \<Rightarrow> bytes" where
  "file_write f off bs = (if bs = [] then f
     else map (\<lambda>k. if off \<le> k \<and> k < off + length bs then bs ! (k - off)
       else if k < length f then f ! k else 0) [0..<max (length f) (off + length bs)])"

definition read_u32 :: "bytes \<Rightarrow> nat \<Rightarrow> u32 result" where
  "read_u32 f off =
     (case file_read f off 4 of
        None \<Rightarrow> Inl (Runtime_Error ''failed to read region file header'')
      | Some bs \<Rightarrow> Inr (foldl (\<lambda>value byte. push_bit 8 value OR ucast byte) 0 bs))"

definition write_u32 :: "bytes \<Rightarrow> nat \<Rightarrow> u32 \<Rightarrow> bytes" where
  "write_u32 f off v = file_write f off (map (\<lambda>index. ucast (drop_bit ((4 - index - 1) * 8) v)) [0, 1, 2, 3])"

text \<open>The constructor: an absent file is created with its empty tables.\<close>

definition open_region :: "bytes option \<Rightarrow> bytes result" where
  "open_region file =
     (let f = (case file of None \<Rightarrow> replicate header_size 0 | Some f \<Rightarrow> f) in
      if length f < header_size then Inl (Runtime_Error ''region file header is truncated'') else Inr f)"

definition region_read :: "inflater \<Rightarrow> bytes \<Rightarrow> u8 \<Rightarrow> u8 \<Rightarrow> bytes option result" where
  "region_read uncompress f x z =
     bindR (location_index x z) (\<lambda>index.
     bindR (read_u32 f (index * 4)) (\<lambda>location.
     let sector_offset = unat (drop_bit 8 location); sector_count_value = unat (location AND 0xFF) in
     if sector_offset = 0 \<or> sector_count_value = 0 then Inr None
     else let record_offset = sector_offset * sector_size in
       bindR (read_u32 f record_offset) (\<lambda>len.
       if unat len < 1 \<or> unat len > sector_count_value * sector_size - 4
       then Inl (Runtime_Error ''region chunk length is invalid'')
       else if file_read f (record_offset + 4) 1 \<noteq> Some [2]
       then Inl (Runtime_Error ''unsupported region chunk compression'')
       else (case file_read f (record_offset + 5) (unat len - 1) of
          None \<Rightarrow> Inl (Runtime_Error ''region chunk payload is truncated'')
        | Some compressed \<Rightarrow> bindR (decompress_payload uncompress compressed) (\<lambda>p. Inr (Some p))))))"

text \<open>Where a record of the given number of sectors goes: in place when it fits, else at the end.\<close>

definition choose_sector :: "bytes \<Rightarrow> u32 \<Rightarrow> nat \<Rightarrow> u32" where
  "choose_sector f old_location required =
     (if drop_bit 8 old_location < 2 \<or> unat (old_location AND 0xFF) < required
      then word_of_nat (max 2 ((length f + sector_size - 1) div sector_size))
      else drop_bit 8 old_location)"

definition region_write :: "deflater \<Rightarrow> u32 \<Rightarrow> bytes \<Rightarrow> u8 \<Rightarrow> u8 \<Rightarrow> bytes \<Rightarrow> bytes result" where
  "region_write deflate now f x z payload =
     bindR (compress_payload deflate payload) (\<lambda>compressed.
     let record_size = 5 + length compressed;
         required = (record_size + sector_size - 1) div sector_size in
     if required > 255 then Inl (Length_Error ''compressed chunk exceeds region sector limit'')
     else bindR (location_index x z) (\<lambda>index.
       bindR (read_u32 f (index * 4)) (\<lambda>old_location.
       let sector_offset = choose_sector f old_location required in
       if sector_offset > 0xFFFFFF
       then Inl (Length_Error ''region file exceeds location-table capacity'')
       else let record_offset = unat sector_offset * sector_size;
         f1 = write_u32 f record_offset (word_of_nat (length compressed + 1));
         f2 = file_write f1 (record_offset + 4) [2];
         f3 = file_write f2 (record_offset + 5) compressed;
         f4 = file_write f3 (record_offset + record_size) (replicate (required * sector_size - record_size) 0);
         location = push_bit 8 sector_offset OR word_of_nat required;
         f5 = write_u32 f4 (index * 4) location
         in Inr (write_u32 f5 (sector_size + index * 4) now))))"

section \<open>The storage of a level\<close>

record level_storage =
  files :: "string \<Rightarrow> bytes option"
  opened :: "(int \<times> int) list"
  clock :: "nat \<Rightarrow> u32"
  clock_reads :: nat

definition region_name :: "int \<times> int \<Rightarrow> string" where
  "region_name key = ''region/r.'' @ show_int (fst key) @ ''.'' @ show_int (snd key) @ ''.mca''"

text \<open>The region file of a position, opened when it is used first.\<close>

definition region_file :: "level_storage \<Rightarrow> chunk_position \<Rightarrow> (bytes \<times> level_storage) result" where
  "region_file st pos =
     (let key = region_position pos; name = region_name key in
      if key \<in> set (opened st)
      then (case files st name of
          None \<Rightarrow> Inl (Runtime_Error ''failed to read region file header'')
        | Some f \<Rightarrow> Inr (f, st))
      else bindR (open_region (files st name)) (\<lambda>f.
        Inr (f, st\<lparr>files := (files st)(name \<mapsto> f), opened := key # opened st\<rparr>)))"

definition load_chunk :: "inflater \<Rightarrow> level_storage \<Rightarrow> chunk_position \<Rightarrow> (chunk option \<times> level_storage) result" where
  "load_chunk uncompress st pos =
     bindR (region_file st pos) (\<lambda>(f, st).
     bindR (region_read uncompress f (local_region_x pos) (local_region_z pos)) (\<lambda>payload.
     case payload of
       None \<Rightarrow> Inr (None, st)
     | Some p \<Rightarrow> bindR (deserialize_chunk p) (\<lambda>c.
         if position c \<noteq> pos
         then Inl (Runtime_Error ''stored chunk position does not match region entry'')
         else Inr (Some c, st))))"

definition save_chunk :: "deflater \<Rightarrow> level_storage \<Rightarrow> chunk \<Rightarrow> level_storage result" where
  "save_chunk deflate st c =
     bindR (serialize_chunk c) (\<lambda>payload.
     bindR (region_file st (position c)) (\<lambda>(f, st).
     bindR (region_write deflate (clock st (clock_reads st)) f
         (local_region_x (position c)) (local_region_z (position c)) payload) (\<lambda>f'.
     Inr (st\<lparr>files := (files st)(region_name (region_position (position c)) \<mapsto> f'),
       clock_reads := clock_reads st + 1\<rparr>))))"

section \<open>Reading what was written\<close>

lemma length_file_write [simp]:
  "length (file_write f off bs) = (if bs = [] then length f else max (length f) (off + length bs))"
  by (simp add: file_write_def)

lemma nth_file_write:
  assumes "bs \<noteq> []" and "k < max (length f) (off + length bs)"
  shows "file_write f off bs ! k =
    (if off \<le> k \<and> k < off + length bs then bs ! (k - off) else if k < length f then f ! k else 0)"
  using assms by (simp add: file_write_def)

lemma file_write_append:
  "file_write (file_write f off xs) (off + length xs) ys = file_write f off (xs @ ys)"
proof (cases "xs = [] \<or> ys = []")
  case False
  let ?g = "file_write f off xs"
  show ?thesis
  proof (rule nth_equalityI)
    fix k assume "k < length (file_write ?g (off + length xs) ys)"
    with False have k: "k < max (length f) (off + length (xs @ ys))" "k < max (length ?g) (off + length xs + length ys)"
      by auto
    show "file_write ?g (off + length xs) ys ! k = file_write f off (xs @ ys) ! k"
    proof (cases "k < length ?g")
      case True
      then have "?g ! k = (if off \<le> k \<and> k < off + length xs then xs ! (k - off) else if k < length f then f ! k else 0)"
        using False by (intro nth_file_write) simp_all
      with True False k show ?thesis by (auto simp: nth_file_write nth_append)
    next
      case False
      with \<open>\<not> (xs = [] \<or> ys = [])\<close> k show ?thesis by (auto simp: nth_file_write nth_append)
    qed
  qed (use False in auto)
qed (auto simp: file_write_def)

lemma file_read_nth: "off + n \<le> length f \<Longrightarrow> file_read f off n = Some (map (\<lambda>k. f ! (off + k)) [0..<n])"
  by (auto simp: file_read_def intro!: nth_equalityI)

lemma file_read_written:
  assumes "i + n \<le> length bs" and "bs \<noteq> []"
  shows "file_read (file_write f off bs) (off + i) n = Some (take n (drop i bs))"
proof -
  have l: "off + i + n \<le> length (file_write f off bs)" using assms by simp
  have "map (\<lambda>k. file_write f off bs ! (off + i + k)) [0..<n] = take n (drop i bs)"
    using assms by (intro nth_equalityI) (auto simp: nth_file_write add.assoc)
  then show ?thesis by (simp only: file_read_nth [OF l])
qed

lemma file_read_other:
  assumes "o' + n \<le> off \<or> off + length bs \<le> o'" and "o' + n \<le> length f"
  shows "file_read (file_write f off bs) o' n = file_read f o' n"
proof (cases "bs = []")
  case False
  have l: "o' + n \<le> length (file_write f off bs)" using assms(2) by (simp add: max_def)
  have "map (\<lambda>k. file_write f off bs ! (o' + k)) [0..<n] = map (\<lambda>k. f ! (o' + k)) [0..<n]"
    using assms False by (intro map_cong) (auto simp: nth_file_write)
  then show ?thesis by (simp only: file_read_nth [OF l] file_read_nth [OF assms(2)])
qed (simp add: file_write_def)

lemma write_u32_img: "write_u32 f off v = file_write f off (be_bytes 4 v)"
  using be_bytes_shifts(2) [of v] by (simp add: write_u32_def)

lemma read_u32_value:
  "read_u32 f off = (case file_read f off 4 of None \<Rightarrow> Inl (Runtime_Error ''failed to read region file header'')
     | Some bs \<Rightarrow> Inr (be_value bs))"
  unfolding read_u32_def be_value_foldl ..

lemma length_write_u32 [simp]: "length (write_u32 f off v) = max (length f) (off + 4)"
  using length_be_bytes [of 4 v] by (auto simp: write_u32_img simp del: length_be_bytes)

section \<open>Well-formed region files\<close>

text \<open>The sectors an entry of the location table names.\<close>

definition entry :: "bytes \<Rightarrow> nat \<Rightarrow> nat \<times> nat" where
  "entry f i = (let location = be_value (take 4 (drop (i * 4) f)) :: u32 in
     (unat (drop_bit 8 location), unat (location AND 0xFF)))"

definition live :: "bytes \<Rightarrow> nat \<Rightarrow> bool" where
  "live f i = (fst (entry f i) \<noteq> 0 \<and> snd (entry f i) \<noteq> 0)"

text \<open>A record at a sector that decompresses to a payload.\<close>

definition holds :: "inflater \<Rightarrow> bytes \<Rightarrow> nat \<times> nat \<Rightarrow> bytes \<Rightarrow> bool" where
  "holds uncompress f e p = (\<exists>compressed. length compressed + 5 \<le> snd e * sector_size \<and> snd e \<le> 255 \<and>
     file_read f (fst e * sector_size) (5 + length compressed) =
       Some (be_bytes 4 (word_of_nat (length compressed + 1) :: u32) @ [2] @ compressed) \<and>
     decompress_payload uncompress compressed = Inr p)"

definition apart :: "nat \<times> nat \<Rightarrow> nat \<times> nat \<Rightarrow> bool" where
  "apart e e' = (fst e + snd e \<le> fst e' \<or> fst e' + snd e' \<le> fst e)"

definition region_ok :: "inflater \<Rightarrow> bytes \<Rightarrow> bool" where
  "region_ok uncompress f = (header_size \<le> length f \<and> sector_size dvd length f \<and>
     length f \<le> (0xFFFFFF + 255) * sector_size \<and>
     (\<forall>i < 1024. live f i \<longrightarrow> 2 \<le> fst (entry f i) \<and>
        (fst (entry f i) + snd (entry f i)) * sector_size \<le> length f \<and> (\<exists>p. holds uncompress f (entry f i) p)) \<and>
     (\<forall>i < 1024. \<forall>j < 1024. i \<noteq> j \<longrightarrow> live f i \<longrightarrow> live f j \<longrightarrow> apart (entry f i) (entry f j)))"

text \<open>What zlib documents: decompressing a compressed buffer gives it back, or asks for more room.\<close>

definition zlib_ok :: "deflater \<Rightarrow> inflater \<Rightarrow> bool" where
  "zlib_ok deflate uncompress = (\<forall>p c capacity. deflate p = Some c \<longrightarrow>
     uncompress c capacity = (if length p \<le> capacity then Z_Ok p else Z_Buf_Error))"

lemma decompress_from_deflated:
  assumes "zlib_ok deflate uncompress" and "deflate p = Some c" and "\<exists>k \<in> set ks. length p \<le> k"
  shows "decompress_from uncompress c ks = Inr p"
  using assms(3)
proof (induction ks)
  case (Cons k ks)
  have "uncompress c k = (if length p \<le> k then Z_Ok p else Z_Buf_Error)"
    using assms(1,2) unfolding zlib_ok_def by blast
  with Cons show ?case by auto
qed simp

lemma decompress_compressed:
  assumes "zlib_ok deflate uncompress" and "compress_payload deflate p = Inr c"
  shows "decompress_payload uncompress c = Inr p"
  using decompress_from_deflated [OF assms(1), of p c capacities] assms(2)
  by (auto simp: compress_payload_def decompress_payload_def capacities_def max_uncompressed_chunk_size_def
      split: if_splits option.splits)

lemma location_index_less: "location_index x z = Inr i \<Longrightarrow> i < 1024"
proof -
  assume a: "location_index x z = Inr i"
  then have "x < 32" "z < 32" by (auto simp: location_index_def not_le split: if_splits)
  then have "unat x < 32" "unat z < 32" by (simp_all add: word_less_nat_alt)
  with a show "i < 1024" by (auto simp: location_index_def split: if_splits)
qed

lemma location_index_inject:
  assumes "location_index x z = Inr i" and "location_index x' z' = Inr i"
  shows "x = x' \<and> z = z'"
proof -
  have "x < 32" "x' < 32" using assms by (auto simp: location_index_def not_le split: if_splits)
  then have x: "unat x < 32" "unat x' < 32" by (simp_all add: word_less_nat_alt)
  have "unat z * 32 + unat x = unat z' * 32 + unat x'"
    using assms by (simp add: location_index_def split: if_splits)
  from digits_inject [OF this x] show ?thesis by (simp add: unat_eq_iff)
qed

text \<open>Reading through an entry: nothing behind an empty one, else the payload its record holds.\<close>

lemma region_read_entry:
  assumes "header_size \<le> length f" and "location_index x z = Inr i"
  shows "\<not> live f i \<Longrightarrow> region_read uncompress f x z = Inr None"
    and "live f i \<Longrightarrow> holds uncompress f (entry f i) p \<Longrightarrow> region_read uncompress f x z = Inr (Some p)"
proof -
  have i: "i * 4 + 4 \<le> length f" using location_index_less [OF assms(2)] assms(1) by (simp add: header_size_def sector_size_def)
  have l: "read_u32 f (i * 4) = Inr (be_value (take 4 (drop (i * 4) f)))"
    using i by (simp add: read_u32_value file_read_def)
  show "\<not> live f i \<Longrightarrow> region_read uncompress f x z = Inr None"
    using l assms(2) by (simp add: region_read_def live_def entry_def Let_def)
  assume lv: "live f i" and "holds uncompress f (entry f i) p"
  then obtain c where c: "length c + 5 \<le> snd (entry f i) * sector_size" "snd (entry f i) \<le> 255"
    "file_read f (fst (entry f i) * sector_size) (5 + length c) = Some (be_bytes 4 (word_of_nat (length c + 1) :: u32) @ [2] @ c)"
    "decompress_payload uncompress c = Inr p" unfolding holds_def by blast
  let ?o = "fst (entry f i) * sector_size" and ?w = "word_of_nat (length c + 1) :: u32"
  have lc: "unat ?w = length c + 1" using c(1,2) by (intro unat_word_of_nat) (simp add: sector_size_def)
  have sub: "file_read f (?o + j) n = Some (take n (drop j (be_bytes 4 ?w @ [2] @ c)))" if "j + n \<le> 5 + length c" for j n
  proof -
    have f: "?o + (5 + length c) \<le> length f" "take (5 + length c) (drop ?o f) = be_bytes 4 ?w @ [2] @ c"
      using c(3) by (simp_all add: file_read_def split: if_splits)
    have "take n (drop (?o + j) f) = take n (drop j (take (5 + length c) (drop ?o f)))"
      using that by (simp add: drop_take min_def add.commute)
    with f that show ?thesis by (simp only: file_read_def) simp
  qed
  have "read_u32 f ?o = Inr ?w" using sub [of 0 4] by (simp add: read_u32_value)
  moreover have "file_read f (?o + 4) 1 = Some [2]" using sub [of 4 1] by simp
  moreover have "file_read f (?o + 5) (length c) = Some c" using sub [of 5 "length c"] by simp
  ultimately show "region_read uncompress f x z = Inr (Some p)"
    using l assms(2) lv c lc
    by (simp add: region_read_def live_def entry_def Let_def)
qed

section \<open>Writing a record\<close>

lemma location_fields:
  fixes w n :: u32
  assumes "w \<le> 0xFFFFFF" and "n \<le> 255"
  shows "drop_bit 8 (push_bit 8 w OR n) = w" and "(push_bit 8 w OR n) AND 0xFF = n"
proof -
  have n: "\<not> bit n k" if "8 \<le> k" for k
    by (rule no_high_bit [OF _ that]) (use assms(2) in \<open>simp add: word_le_nat_alt\<close>)
  have w: "\<not> bit w k" if "24 \<le> k" for k
    by (rule no_high_bit [OF _ that]) (use assms(1) in \<open>simp add: word_le_nat_alt\<close>)
  show "drop_bit 8 (push_bit 8 w OR n) = w"
    using w by (intro bit_word_eqI) (auto simp: bit_simps n simp flip: not_le)
  have "(push_bit 8 w OR n) AND mask 8 = n"
    using n by (intro bit_word_eqI) (auto simp: bit_simps simp flip: not_le)
  then show "(push_bit 8 w OR n) AND 0xFF = n" by (simp add: mask_numeral)
qed

text \<open>The bytes of a record: length, compression, data and padding, a whole number of sectors.\<close>

definition record_bytes :: "bytes \<Rightarrow> nat \<Rightarrow> bytes" where
  "record_bytes compressed required = be_bytes 4 (word_of_nat (length compressed + 1) :: u32) @ [2] @ compressed @
     replicate (required * sector_size - (5 + length compressed)) 0"

lemma length_record_bytes:
  "5 + length compressed \<le> required * sector_size \<Longrightarrow>
   length (record_bytes compressed required) = required * sector_size"
  by (simp add: record_bytes_def)

lemma record_bytes_nonempty [simp]: "record_bytes compressed required \<noteq> []"
  by (simp add: record_bytes_def)

definition sectors_needed :: "bytes \<Rightarrow> nat" where
  "sectors_needed compressed = (5 + length compressed + sector_size - 1) div sector_size"

lemma sectors_needed:
  "5 + length compressed \<le> sectors_needed compressed * sector_size" "0 < sectors_needed compressed"
  by (simp_all add: sectors_needed_def sector_size_def)

lemma region_write_cases:
  assumes "region_write deflate now f x z payload = Inr f'"
  obtains compressed i old where
    "compress_payload deflate payload = Inr compressed" "sectors_needed compressed \<le> 255"
    "location_index x z = Inr i" "read_u32 f (i * 4) = Inr old"
    "choose_sector f old (sectors_needed compressed) \<le> 0xFFFFFF"
    "f' = write_u32 (write_u32 (file_write f (unat (choose_sector f old (sectors_needed compressed)) * sector_size)
         (record_bytes compressed (sectors_needed compressed))) (i * 4)
         (push_bit 8 (choose_sector f old (sectors_needed compressed)) OR word_of_nat (sectors_needed compressed)))
       (sector_size + i * 4) now"
proof -
  from assms obtain compressed i old where c: "compress_payload deflate payload = Inr compressed"
    "sectors_needed compressed \<le> 255" "location_index x z = Inr i" "read_u32 f (i * 4) = Inr old"
    "choose_sector f old (sectors_needed compressed) \<le> 0xFFFFFF"
    by (auto simp: region_write_def bindR_Inr_iff Let_def sectors_needed_def not_less split: if_splits)
  let ?req = "sectors_needed compressed"
  let ?ro = "unat (choose_sector f old ?req) * sector_size"
  have "file_write (file_write (file_write (write_u32 f ?ro (word_of_nat (length compressed + 1))) (?ro + 4) [2]) (?ro + 5) compressed)
      (?ro + (5 + length compressed)) (replicate (?req * sector_size - (5 + length compressed)) 0) =
    file_write f ?ro (record_bytes compressed ?req)"
  proof -
    let ?len = "be_bytes 4 (word_of_nat (length compressed + 1) :: u32)"
    have "file_write (write_u32 f ?ro (word_of_nat (length compressed + 1))) (?ro + 4) [2] = file_write f ?ro (?len @ [2])"
      using file_write_append [of f ?ro ?len "[2]"] by (simp only: write_u32_img length_be_bytes)
    moreover have "file_write (file_write f ?ro (?len @ [2])) (?ro + 5) compressed = file_write f ?ro ((?len @ [2]) @ compressed)"
      using file_write_append [of f ?ro "?len @ [2]" compressed] by simp
    moreover have "file_write (file_write f ?ro ((?len @ [2]) @ compressed)) (?ro + (5 + length compressed))
        (replicate (?req * sector_size - (5 + length compressed)) 0) = file_write f ?ro (record_bytes compressed ?req)"
      using file_write_append [of f ?ro "(?len @ [2]) @ compressed"] by (simp add: record_bytes_def)
    ultimately show ?thesis by simp
  qed
  then have "region_write deflate now f x z payload = Inr (write_u32 (write_u32 (file_write f ?ro
      (record_bytes compressed ?req)) (i * 4) (push_bit 8 (choose_sector f old ?req) OR word_of_nat ?req)) (sector_size + i * 4) now)"
    using c by (simp add: region_write_def Let_def sectors_needed_def not_less del: length_be_bytes)
  with assms c show ?thesis using that by simp
qed

text \<open>
  The sector chosen: behind the tables, inside or right behind the file, and
  apart from the sectors of every other live entry.
\<close>

lemma choose_sector_ok:
  assumes "region_ok uncompress f" and "i < 1024" and "read_u32 f (i * 4) = Inr old"
    and "0 < required"
  defines "s \<equiv> unat (choose_sector f old required)"
  shows "2 \<le> s" and "s * sector_size \<le> length f"
    and "\<And>j. j < 1024 \<Longrightarrow> j \<noteq> i \<Longrightarrow> live f j \<Longrightarrow> apart (s, required) (entry f j)"
proof -
  note ok = assms(1) [unfolded region_ok_def]
  have "read_u32 f (i * 4) = Inr (be_value (take 4 (drop (i * 4) f)))"
    using ok assms(2) by (simp add: read_u32_value file_read_def header_size_def sector_size_def)
  then have e: "entry f i = (unat (drop_bit 8 old), unat (old AND 0xFF))" using assms(3) by (simp add: entry_def Let_def)
  have two: "drop_bit 8 old < 2 \<longleftrightarrow> fst (entry f i) < 2" by (simp add: e word_less_nat_alt)
  have "2 \<le> s \<and> s * sector_size \<le> length f \<and> (\<forall>j < 1024. j \<noteq> i \<longrightarrow> live f j \<longrightarrow> apart (s, required) (entry f j))"
  proof (cases "fst (entry f i) < 2 \<or> snd (entry f i) < required")
    case True
    obtain n where n: "length f = n * sector_size" using ok by (auto simp: dvd_def mult.commute)
    have "n \<le> 0xFFFFFF + 255" "2 \<le> n" using ok n by (simp_all add: header_size_def sector_size_def)
    moreover have "(length f + sector_size - 1) div sector_size = n" by (simp add: n sector_size_def)
    ultimately have s: "s = n"
      using True two e by (simp add: s_def choose_sector_def) (simp add: unat_word_of_nat)
    have "apart (s, required) (entry f j)" if j: "j < 1024" "j \<noteq> i" "live f j" for j
    proof -
      have "(fst (entry f j) + snd (entry f j)) * sector_size \<le> n * sector_size" using ok j n by auto
      then have "fst (entry f j) + snd (entry f j) \<le> n" by (simp add: sector_size_def)
      then show ?thesis by (simp add: apart_def s)
    qed
    with s \<open>2 \<le> n\<close> n show ?thesis by simp
  next
    case False
    then have s: "s = fst (entry f i)" using two e by (simp add: s_def choose_sector_def)
    have l: "live f i" using False assms(4) by (auto simp: live_def)
    then have "(fst (entry f i) + snd (entry f i)) * sector_size \<le> length f" using ok assms(2) by blast
    then have "s * sector_size \<le> length f" by (simp add: s add_mult_distrib)
    moreover have "apart (s, required) (entry f j)" if j: "j < 1024" "j \<noteq> i" "live f j" for j
    proof -
      have "apart (entry f i) (entry f j)" using ok assms(2) l j by blast
      with False s show ?thesis by (auto simp: apart_def)
    qed
    ultimately show ?thesis using False s by simp
  qed
  then show "2 \<le> s" "s * sector_size \<le> length f"
    "\<And>j. j < 1024 \<Longrightarrow> j \<noteq> i \<Longrightarrow> live f j \<Longrightarrow> apart (s, required) (entry f j)" by blast+
qed


text \<open>
  The write as a whole: what every entry names afterwards, and what the file holds there.
\<close>

lemma entry_write_u32:
  assumes "i < 1024" "j < 1024" and "header_size \<le> length f"
  shows "entry (write_u32 f (i * 4) v) j =
    (if j = i then (unat (drop_bit 8 v), unat (v AND 0xFF)) else entry f j)"
proof -
  have l: "j * 4 + 4 \<le> length f" "i * 4 + 4 \<le> length f"
    using assms by (simp_all add: header_size_def sector_size_def)
  have r: "file_read g (j * 4) 4 = Some (take 4 (drop (j * 4) g))" if "length f \<le> length g" for g
    using that l by (simp add: file_read_def)
  have nz: "be_bytes 4 v \<noteq> []" using length_be_bytes [of 4 v] by (auto simp del: length_be_bytes)
  show ?thesis
  proof (cases "j = i")
    case True
    have "Some (take 4 (drop (j * 4) (write_u32 f (i * 4) v))) = Some (be_bytes 4 v)"
      using r [of "write_u32 f (i * 4) v"] file_read_written [of 0 4 "be_bytes 4 v" f "i * 4"] nz True
      by (simp add: write_u32_img)
    with True show ?thesis by (simp add: entry_def Let_def)
  next
    case False
    then have "j * 4 + 4 \<le> i * 4 \<or> i * 4 + length (be_bytes 4 v) \<le> j * 4" by auto
    then have "Some (take 4 (drop (j * 4) (write_u32 f (i * 4) v))) = Some (take 4 (drop (j * 4) f))"
      using r [of f] r [of "write_u32 f (i * 4) v"] l file_read_other [of "j * 4" 4 "i * 4" "be_bytes 4 v" f]
      by (simp add: write_u32_img)
    with False show ?thesis by (simp add: entry_def Let_def)
  qed
qed

lemma entry_file_write:
  assumes "j < 1024" and "header_size \<le> length f" and "header_size \<le> off \<or> (off = sector_size + k * 4 \<and> length bs = 4)"
  shows "entry (file_write f off bs) j = entry f j"
proof -
  have l: "j * 4 + 4 \<le> length f" "j * 4 + 4 \<le> off" using assms by (auto simp: header_size_def sector_size_def)
  have "length f \<le> length (file_write f off bs)" by simp
  then have "Some (take 4 (drop (j * 4) (file_write f off bs))) = Some (take 4 (drop (j * 4) f))"
    using file_read_other [of "j * 4" 4 off bs f] l by (simp add: file_read_def)
  then show ?thesis by (simp add: entry_def Let_def)
qed

lemma holds_file_write:
  assumes "holds uncompress f e p" and "off + length bs \<le> fst e * sector_size \<or> (fst e + snd e) * sector_size \<le> off"
  shows "holds uncompress (file_write f off bs) e p"
proof -
  obtain c where c: "length c + 5 \<le> snd e * sector_size" "snd e \<le> 255"
    "file_read f (fst e * sector_size) (5 + length c) = Some (be_bytes 4 (word_of_nat (length c + 1) :: u32) @ [2] @ c)"
    "decompress_payload uncompress c = Inr p" using assms(1) unfolding holds_def by blast
  have "fst e * sector_size + (5 + length c) \<le> length f" using c(3) by (simp add: file_read_def split: if_splits)
  moreover have "fst e * sector_size + (5 + length c) \<le> off \<or> off + length bs \<le> fst e * sector_size"
    using assms(2) c(1) by (auto simp: add_mult_distrib)
  ultimately have "file_read (file_write f off bs) (fst e * sector_size) (5 + length c) = file_read f (fst e * sector_size) (5 + length c)"
    by (intro file_read_other) auto
  with c show ?thesis unfolding holds_def by metis
qed


lemma region_write_spec:
  assumes "zlib_ok deflate uncompress" and "region_ok uncompress f" and "location_index x z = Inr i"
    and "region_write deflate now f x z payload = Inr f'"
  shows "region_ok uncompress f' \<and> live f' i \<and> holds uncompress f' (entry f' i) payload \<and>
    (\<forall>j < 1024. j \<noteq> i \<longrightarrow> entry f' j = entry f j \<and> (\<forall>p. live f j \<longrightarrow> holds uncompress f (entry f j) p \<longrightarrow> holds uncompress f' (entry f j) p))"
proof -
  obtain compressed old where c: "compress_payload deflate payload = Inr compressed" "sectors_needed compressed \<le> 255"
    "read_u32 f (i * 4) = Inr old" "choose_sector f old (sectors_needed compressed) \<le> 0xFFFFFF"
    "f' = write_u32 (write_u32 (file_write f (unat (choose_sector f old (sectors_needed compressed)) * sector_size)
         (record_bytes compressed (sectors_needed compressed))) (i * 4)
         (push_bit 8 (choose_sector f old (sectors_needed compressed)) OR word_of_nat (sectors_needed compressed)))
       (sector_size + i * 4) now"
    using region_write_cases [OF assms(4)] assms(3) by (metis Inr_inject)
  note ok = assms(2) [unfolded region_ok_def]
  have okl: "header_size \<le> length f" "sector_size dvd length f" "length f \<le> (0xFFFFFF + 255) * sector_size"
    using ok by blast+
  define req s where "req = sectors_needed compressed" and "s = choose_sector f old req"
  have i: "i < 1024" by (rule location_index_less [OF assms(3)])
  have rq: "5 + length compressed \<le> req * sector_size" "0 < req" "req \<le> 255"
    using sectors_needed [of compressed] c(2) by (simp_all add: req_def)
  note s = choose_sector_ok [OF assms(2) i c(3) rq(2), folded s_def]
  have sb: "unat s \<le> 0xFFFFFF" using c(4) by (simp add: s_def req_def word_le_nat_alt)
  let ?ro = "unat s * sector_size" and ?rec = "record_bytes compressed req"
  let ?loc = "push_bit 8 s OR word_of_nat req :: u32"
  define g where "g = file_write f ?ro ?rec"
  have f': "f' = write_u32 (write_u32 g (i * 4) ?loc) (sector_size + i * 4) now"
    using c(5) by (simp add: g_def s_def req_def)
  have lr: "length ?rec = req * sector_size" by (rule length_record_bytes [OF rq(1)])
  have ro: "header_size \<le> ?ro" using s(1) by (simp add: header_size_def sector_size_def)
  have lg: "length g = max (length f) ((unat s + req) * sector_size)" "header_size \<le> length g"
    using okl(1) by (simp_all add: g_def lr add_mult_distrib)
  have lf': "length f' = length g"
    using lg(2) i by (simp add: f' header_size_def sector_size_def)
  have loc: "unat (drop_bit 8 ?loc) = unat s" "unat (?loc AND 0xFF) = req"
    using location_fields [of s "word_of_nat req"] sb rq(3)
    by (simp_all add: word_le_nat_alt unat_word_of_nat)
  have entry': "entry f' j = (if j = i then (unat s, req) else entry f j)" if "j < 1024" for j
  proof -
    have "entry f' j = entry (write_u32 g (i * 4) ?loc) j"
      unfolding f' write_u32_img using that lg(2) i
      by (intro entry_file_write [where k = i]) (simp_all add: header_size_def sector_size_def)
    also have "\<dots> = (if j = i then (unat s, req) else entry g j)"
      unfolding entry_write_u32 [OF i that lg(2)] loc ..
    also have "entry g j = entry f j"
      unfolding g_def using that okl(1) ro by (intro entry_file_write) auto
    finally show ?thesis .
  qed
  have tables: "holds uncompress f' e p" if "holds uncompress g e p" "2 \<le> fst e" for e p
    unfolding f' write_u32_img using that i
    by (intro holds_file_write) (auto simp: sector_size_def)
  have mine: "holds uncompress f' (unat s, req) payload"
  proof (rule tables)
    have "take (5 + length compressed) ?rec = be_bytes 4 (word_of_nat (length compressed + 1) :: u32) @ [2] @ compressed"
      by (simp add: record_bytes_def)
    then have "file_read g ?ro (5 + length compressed) = Some (be_bytes 4 (word_of_nat (length compressed + 1) :: u32) @ [2] @ compressed)"
      using file_read_written [of 0 "5 + length compressed" ?rec f ?ro] rq(1) lr by (simp add: g_def)
    then show "holds uncompress g (unat s, req) payload"
      using rq decompress_compressed [OF assms(1) c(1)] unfolding holds_def by (intro exI [of _ compressed]) simp
  qed (simp add: s(1))
  have others: "holds uncompress f' (entry f j) p" if j: "j < 1024" "j \<noteq> i" "live f j" and "holds uncompress f (entry f j) p" for j p
  proof (rule tables)
    have "unat s + req \<le> fst (entry f j) \<or> fst (entry f j) + snd (entry f j) \<le> unat s"
      using s(3) [OF j] by (simp add: apart_def)
    then show "holds uncompress g (entry f j) p"
      unfolding g_def using that(4) lr
      by (intro holds_file_write) (auto simp: sector_size_def)
  qed (use ok j in blast)
  have live': "live f' j = (j = i \<or> live f j)" if "j < 1024" for j
    using entry' [OF that] s(1) rq(2) by (simp add: live_def)
  have "region_ok uncompress f'"
    unfolding region_ok_def
  proof (intro conjI allI impI)
    show "header_size \<le> length f'" using lg(2) lf' by simp
    show "sector_size dvd length f'" using okl(2) by (simp add: lf' lg(1) max_def)
    have "(unat s + req) * sector_size \<le> (0xFFFFFF + 255) * sector_size" using sb rq(3) by (intro mult_le_mono1) simp
    then show "length f' \<le> (0xFFFFFF + 255) * sector_size" using okl(3) by (simp add: lf' lg(1))
  next
    fix j assume j: "j < 1024" "live f' j"
    show "2 \<le> fst (entry f' j)" and "(fst (entry f' j) + snd (entry f' j)) * sector_size \<le> length f'"
      and "\<exists>p. holds uncompress f' (entry f' j) p"
    proof -
      have "2 \<le> fst (entry f' j) \<and> (fst (entry f' j) + snd (entry f' j)) * sector_size \<le> length f' \<and>
          (\<exists>p. holds uncompress f' (entry f' j) p)"
      proof (cases "j = i")
        case True
        then show ?thesis using mine s(1) entry' [OF i] lf' lg(1) by auto
      next
        case False
        then have l: "live f j" using live' [OF j(1)] j(2) by simp
        have "2 \<le> fst (entry f j)" "(fst (entry f j) + snd (entry f j)) * sector_size \<le> length f"
          "\<exists>p. holds uncompress f (entry f j) p" using ok j(1) l by blast+
        with others [OF j(1) False l] show ?thesis
          using entry' [OF j(1)] False lf' lg(1) by auto
      qed
      then show "2 \<le> fst (entry f' j)" and "(fst (entry f' j) + snd (entry f' j)) * sector_size \<le> length f'"
        and "\<exists>p. holds uncompress f' (entry f' j) p" by blast+
    qed
  next
    fix j k assume jk: "j < 1024" "k < 1024" "j \<noteq> k" "live f' j" "live f' k"
    have "apart (unat s, req) (entry f k')" "apart (entry f k') (unat s, req)" if "k' < 1024" "k' \<noteq> i" "live f k'" for k'
      using s(3) [OF that] by (auto simp: apart_def)
    moreover have "apart (entry f j) (entry f k)" if "live f j" "live f k" using ok jk that by blast
    ultimately show "apart (entry f' j) (entry f' k)"
      using jk live' [OF jk(1)] live' [OF jk(2)] entry' [OF jk(1)] entry' [OF jk(2)] by (cases "j = i"; cases "k = i") auto
  qed
  then show ?thesis
    using mine entry' i live' [OF i] others by auto
qed

text \<open>What a reader of any entry sees after a write.\<close>

lemma region_write_read:
  assumes "zlib_ok deflate uncompress" and "region_ok uncompress f"
    and "region_write deflate now f x z payload = Inr f'"
  shows "region_ok uncompress f'" and "region_read uncompress f' x z = Inr (Some payload)"
    and "(x', z') \<noteq> (x, z) \<Longrightarrow> region_read uncompress f' x' z' = region_read uncompress f x' z'"
proof -
  obtain i where i: "location_index x z = Inr i" using region_write_cases [OF assms(3)] by metis
  note w = region_write_spec [OF assms(1,2) i assms(3)]
  have h: "header_size \<le> length f" "header_size \<le> length f'" using assms(2) w by (auto simp: region_ok_def)
  show "region_ok uncompress f'" using w ..
  show "region_read uncompress f' x z = Inr (Some payload)"
    using region_read_entry(2) [OF h(2) i] w by blast
  assume d: "(x', z') \<noteq> (x, z)"
  show "region_read uncompress f' x' z' = region_read uncompress f x' z'"
  proof (cases "location_index x' z'")
    case (Inr j)
    then have j: "j < 1024" "j \<noteq> i" using location_index_less location_index_inject [OF i] d by blast+
    then have e: "entry f' j = entry f j" "live f' j = live f j" using w by (auto simp: live_def)
    show ?thesis
    proof (cases "live f j")
      case True
      then obtain p where "holds uncompress f (entry f j) p" using assms(2) j(1) unfolding region_ok_def by blast
      then have "region_read uncompress f x' z' = Inr (Some p)" "region_read uncompress f' x' z' = Inr (Some p)"
        using region_read_entry(2) [OF h(1) Inr] region_read_entry(2) [OF h(2) Inr] True e w j by auto
      then show ?thesis by simp
    next
      case False
      then show ?thesis
        using region_read_entry(1) [OF h(1) Inr] region_read_entry(1) [OF h(2) Inr] e by simp
    qed
  qed (simp add: region_read_def)
qed

lemma new_region_ok: "region_ok uncompress (replicate header_size 0)"
proof -
  have "entry (replicate header_size 0) i = (0, 0)" if "i < 1024" for i
  proof -
    have "take 4 (drop (i * 4) (replicate header_size (0 :: u8))) = be_bytes 4 (0 :: u32)"
    proof -
      have "min 4 (header_size - i * 4) = 4" using that by (simp add: header_size_def sector_size_def)
      moreover have "replicate 4 (0 :: u8) = [0, 0, 0, 0]" by (simp add: numeral_eq_Suc)
      ultimately show ?thesis by (simp flip: be_bytes_shifts)
    qed
    then have "(be_value (take 4 (drop (i * 4) (replicate header_size (0 :: u8)))) :: u32) = 0"
      by (simp only: be_value_u32)
    then show ?thesis by (simp add: entry_def)
  qed
  then show ?thesis by (simp add: region_ok_def live_def header_size_def sector_size_def)
qed

section \<open>Coordinates\<close>

lemma local_region_uint:
  "uint (local_region_x p) = sint (chunk_x p) mod 32" "uint (local_region_z p) = sint (chunk_z p) mod 32"
proof -
  have "uint (word_of_int (v mod 32) :: u8) = v mod 32" for v
    by (simp add: uint_word_of_int mod_pos_pos_trivial order_less_le_trans [OF pos_mod_bound])
  then show "uint (local_region_x p) = sint (chunk_x p) mod 32" "uint (local_region_z p) = sint (chunk_z p) mod 32"
    by (simp_all add: local_region_x_def local_region_z_def floor_mod_mod)
qed

lemma location_index_local:
  obtains i where "location_index (local_region_x p) (local_region_z p) = Inr i"
proof -
  have "uint (local_region_x p) < 32" "uint (local_region_z p) < 32" by (simp_all add: local_region_uint)
  then have "local_region_x p < 32" "local_region_z p < 32" by (simp_all add: word_less_def)
  then show ?thesis using that by (simp add: location_index_def not_le)
qed

text \<open>A chunk's position is its region and its place in it.\<close>

lemma region_coordinates_inject:
  assumes "region_position p = region_position q"
    and "local_region_x p = local_region_x q" "local_region_z p = local_region_z q"
  shows "p = q"
proof -
  have "sint (chunk_x p) div 32 = sint (chunk_x q) div 32" "sint (chunk_z p) div 32 = sint (chunk_z q) div 32"
    using assms(1) by (simp_all add: region_position_def floor_div_div)
  moreover have "sint (chunk_x p) mod 32 = sint (chunk_x q) mod 32" "sint (chunk_z p) mod 32 = sint (chunk_z q) mod 32"
    using assms(2,3) by (simp_all flip: local_region_uint)
  ultimately have "sint (chunk_x p) = sint (chunk_x q)" "sint (chunk_z p) = sint (chunk_z q)"
    by (metis div_mult_mod_eq)+
  then show ?thesis by (intro chunk_position.equality) (simp_all add: signed_word_eqI)
qed

lemma dot_not_in_int: "CHR ''.'' \<notin> set (show_int i)"
  using show_int_char [of "CHR ''.''" i] by (auto simp: is_digit_def byte_of_char_def)

lemma region_name_inject: "region_name k = region_name l \<longleftrightarrow> k = l"
proof
  assume e: "region_name k = region_name l"
  have s: "split_on CHR ''.'' (show_int i @ CHR ''.'' # t) = show_int i # split_on CHR ''.'' t" for i t
    by (rule split_on_append [OF dot_not_in_int])
  have "split_on CHR ''.'' (drop 9 (region_name k)) = split_on CHR ''.'' (drop 9 (region_name l))"
    by (simp only: e)
  then have "show_int (fst k) = show_int (fst l) \<and> show_int (snd k) = show_int (snd l)"
    by (simp add: region_name_def s)
  then show "k = l" by (simp add: show_int_inject prod_eq_iff)
qed simp

section \<open>Stores of chunks\<close>

text \<open>
  What the chunk manager relies on: loading a position returns what the store
  holds there, and saving a chunk replaces what it holds at the chunk's
  position and nothing else. A chunk comes back with its flag set.
\<close>

locale chunk_storage =
  fixes load :: "'s \<Rightarrow> chunk_position \<Rightarrow> (chunk option \<times> 's) result"
    and save :: "'s \<Rightarrow> chunk \<Rightarrow> 's result"
    and ok :: "'s \<Rightarrow> bool"
    and view :: "'s \<Rightarrow> chunk_position \<Rightarrow> chunk option"
  assumes load_view: "ok s \<Longrightarrow> \<exists>s'. load s pos = Inr (view s pos, s') \<and> ok s' \<and> view s' = view s"
    and save_view: "ok s \<Longrightarrow> chunk_ok c \<Longrightarrow> heights_cover c \<Longrightarrow> save s c = Inr s' \<Longrightarrow>
      ok s' \<and> view s' = (view s)(position c \<mapsto> c\<lparr>dirty := True\<rparr>)"
    and view_chunk: "ok s \<Longrightarrow> view s pos = Some c \<Longrightarrow> chunk_ok c \<and> heights_cover c \<and> position c = pos"
begin

lemma load_after_save:
  assumes "ok s" and "chunk_ok c" and "heights_cover c" and "save s c = Inr s'"
  shows "\<exists>s''. load s' pos = Inr (if pos = position c then Some (c\<lparr>dirty := True\<rparr>) else view s pos, s'')"
  using save_view [OF assms] load_view [of s' pos] by auto

end

section \<open>The storage of a level implements such a store\<close>

text \<open>The chunk a storage holds for a position, read from its region file.\<close>

definition stored_chunk :: "inflater \<Rightarrow> level_storage \<Rightarrow> chunk_position \<Rightarrow> chunk option" where
  "stored_chunk uncompress st pos =
     (case files st (region_name (region_position pos)) of
        None \<Rightarrow> None
      | Some f \<Rightarrow> (case region_read uncompress f (local_region_x pos) (local_region_z pos) of
            Inr (Some p) \<Rightarrow> (case deserialize_chunk p of Inr c \<Rightarrow> Some c | Inl _ \<Rightarrow> None)
          | _ \<Rightarrow> None))"

definition payload_ok :: "inflater \<Rightarrow> bytes \<Rightarrow> chunk_position \<Rightarrow> bool" where
  "payload_ok uncompress f pos =
     (region_read uncompress f (local_region_x pos) (local_region_z pos) = Inr None \<or>
      (\<exists>c. region_read uncompress f (local_region_x pos) (local_region_z pos) = Inr (Some (chunk_img c)) \<and>
        chunk_ok c \<and> heights_cover c \<and> position c = pos))"

definition level_ok :: "inflater \<Rightarrow> level_storage \<Rightarrow> bool" where
  "level_ok uncompress st =
     ((\<forall>pos f. files st (region_name (region_position pos)) = Some f \<longrightarrow>
        region_ok uncompress f \<and> payload_ok uncompress f pos) \<and>
      (\<forall>key \<in> set (opened st). files st (region_name key) \<noteq> None))"

lemma new_region_read:
  "region_read uncompress (replicate header_size 0) (local_region_x pos) (local_region_z pos) = Inr None"
proof -
  obtain i where i: "location_index (local_region_x pos) (local_region_z pos) = Inr i" by (rule location_index_local)
  have "\<not> live (replicate header_size 0) i"
  proof
    assume l: "live (replicate header_size 0) i"
    have "2 \<le> fst (entry (replicate header_size 0) i) \<and> (fst (entry (replicate header_size 0) i) +
        snd (entry (replicate header_size 0) i)) * sector_size \<le> length (replicate header_size (0 :: u8))"
      using new_region_ok [unfolded region_ok_def] location_index_less [OF i] l by blast
    with l show False by (auto simp: live_def header_size_def sector_size_def)
  qed
  then show ?thesis by (intro region_read_entry(1) [OF _ i]) simp_all
qed

lemma region_file_ok:
  assumes "level_ok uncompress st"
  shows "\<exists>f st'. region_file st pos = Inr (f, st') \<and> level_ok uncompress st' \<and>
    files st' (region_name (region_position pos)) = Some f \<and> region_ok uncompress f \<and>
    stored_chunk uncompress st' = stored_chunk uncompress st"
proof (cases "region_position pos \<in> set (opened st)")
  case True
  then obtain f where "files st (region_name (region_position pos)) = Some f"
    using assms unfolding level_ok_def by blast
  with True assms show ?thesis by (auto simp: region_file_def level_ok_def)
next
  case False
  let ?name = "region_name (region_position pos)"
  define f where "f = (case files st ?name of None \<Rightarrow> replicate header_size 0 | Some f \<Rightarrow> f)"
  have f: "region_ok uncompress f"
    using assms new_region_ok by (auto simp: f_def level_ok_def split: option.splits)
  then have o: "open_region (files st ?name) = Inr f"
    by (auto simp: open_region_def Let_def f_def region_ok_def split: option.splits)
  let ?st = "st\<lparr>files := (files st)(?name \<mapsto> f), opened := region_position pos # opened st\<rparr>"
  have "level_ok uncompress ?st"
    using assms f unfolding level_ok_def payload_ok_def
    by (auto simp: region_name_inject f_def new_region_read split: option.splits)
  moreover have "stored_chunk uncompress ?st = stored_chunk uncompress st"
    by (auto simp: stored_chunk_def fun_eq_iff region_name_inject f_def new_region_read split: option.splits)
  ultimately show ?thesis using False o f by (simp add: region_file_def Let_def)
qed

lemma stored_chunk_of:
  assumes "level_ok uncompress st" and "files st (region_name (region_position pos)) = Some f"
  shows "(region_read uncompress f (local_region_x pos) (local_region_z pos) = Inr None \<and>
      stored_chunk uncompress st pos = None) \<or>
    (\<exists>c. region_read uncompress f (local_region_x pos) (local_region_z pos) = Inr (Some (chunk_img c)) \<and>
      stored_chunk uncompress st pos = Some (c\<lparr>dirty := True\<rparr>) \<and> chunk_ok c \<and> heights_cover c \<and> position c = pos)"
proof -
  have "payload_ok uncompress f pos" using assms by (simp add: level_ok_def)
  then show ?thesis
    using assms(2) by (auto simp: payload_ok_def stored_chunk_def deserialize_chunk_img)
qed

lemma chunk_ok_dirty [simp]: "chunk_ok (c\<lparr>dirty := d\<rparr>) = chunk_ok c" "heights_cover (c\<lparr>dirty := d\<rparr>) = heights_cover c"
  by (simp_all add: chunk_ok_def heights_cover_def)

lemma load_chunk_stored:
  assumes "level_ok uncompress st"
  shows "\<exists>st'. load_chunk uncompress st pos = Inr (stored_chunk uncompress st pos, st') \<and>
    level_ok uncompress st' \<and> stored_chunk uncompress st' = stored_chunk uncompress st"
proof -
  obtain f st' where f: "region_file st pos = Inr (f, st')" "level_ok uncompress st'"
    "files st' (region_name (region_position pos)) = Some f" "stored_chunk uncompress st' = stored_chunk uncompress st"
    using region_file_ok [OF assms] by blast
  then have "load_chunk uncompress st pos = Inr (stored_chunk uncompress st pos, st')"
    using stored_chunk_of [OF f(2,3)] by (auto simp: load_chunk_def deserialize_chunk_img)
  with f show ?thesis by blast
qed

lemma save_chunk_stored:
  assumes "zlib_ok deflate uncompress" and "level_ok uncompress st" and "chunk_ok c" and "heights_cover c"
    and "save_chunk deflate st c = Inr st'"
  shows "level_ok uncompress st' \<and> stored_chunk uncompress st' = (stored_chunk uncompress st)(position c \<mapsto> c\<lparr>dirty := True\<rparr>)"
proof -
  let ?p = "position c"
  obtain f st1 where f: "region_file st ?p = Inr (f, st1)" "level_ok uncompress st1"
    "files st1 (region_name (region_position ?p)) = Some f" "region_ok uncompress f"
    "stored_chunk uncompress st1 = stored_chunk uncompress st"
    using region_file_ok [OF assms(2)] by blast
  obtain f' where f': "region_write deflate (clock st1 (clock_reads st1)) f (local_region_x ?p) (local_region_z ?p) (chunk_img c) = Inr f'"
    "st' = st1\<lparr>files := (files st1)(region_name (region_position ?p) \<mapsto> f'), clock_reads := clock_reads st1 + 1\<rparr>"
    using assms(5) f(1) by (auto simp: save_chunk_def serialize_chunk_img [OF assms(3)] bindR_Inr_iff)
  note w = region_write_read [OF assms(1) f(4) f'(1)]
  have same: "region_read uncompress f' (local_region_x q) (local_region_z q) = region_read uncompress f (local_region_x q) (local_region_z q)"
    if "region_position q = region_position ?p" "q \<noteq> ?p" for q
    using w(3) region_coordinates_inject [of q ?p] that by auto
  have po: "payload_ok uncompress f' q" if "region_position q = region_position ?p" for q
  proof (cases "q = ?p")
    case True
    then show ?thesis using w(2) assms(3,4) by (auto simp: payload_ok_def)
  next
    case False
    have "payload_ok uncompress f q" using f(2,3) that by (metis level_ok_def)
    then show ?thesis using same [OF that False] by (simp add: payload_ok_def)
  qed
  have "level_ok uncompress st'"
    using f(2) w(1) po unfolding level_ok_def by (auto simp: f'(2) region_name_inject)
  moreover have "stored_chunk uncompress st' q = ((stored_chunk uncompress st)(?p \<mapsto> c\<lparr>dirty := True\<rparr>)) q" for q
  proof (cases "q = ?p")
    case True
    then show ?thesis using w(2) assms(3,4) by (simp add: stored_chunk_def f'(2) deserialize_chunk_img)
  next
    case False
    then have "stored_chunk uncompress st' q = stored_chunk uncompress st1 q"
      using same [of q] f(3) by (cases "region_position q = region_position ?p")
        (simp_all add: stored_chunk_def f'(2) region_name_inject)
    with False f(5) show ?thesis by simp
  qed
  ultimately show ?thesis by (simp add: fun_eq_iff)
qed

interpretation level: chunk_storage "load_chunk uncompress" "save_chunk deflate"
    "\<lambda>st. zlib_ok deflate uncompress \<and> level_ok uncompress st" "stored_chunk uncompress"
  for deflate uncompress
proof unfold_locales
  fix s pos assume "zlib_ok deflate uncompress \<and> level_ok uncompress s"
  then show "\<exists>s'. load_chunk uncompress s pos = Inr (stored_chunk uncompress s pos, s') \<and>
      (zlib_ok deflate uncompress \<and> level_ok uncompress s') \<and> stored_chunk uncompress s' = stored_chunk uncompress s"
    using load_chunk_stored by blast
next
  fix s c s' assume "zlib_ok deflate uncompress \<and> level_ok uncompress s" "chunk_ok c" "heights_cover c"
    "save_chunk deflate s c = Inr s'"
  then show "(zlib_ok deflate uncompress \<and> level_ok uncompress s') \<and>
      stored_chunk uncompress s' = (stored_chunk uncompress s)(position c \<mapsto> c\<lparr>dirty := True\<rparr>)"
    using save_chunk_stored by blast
next
  fix s pos c assume "zlib_ok deflate uncompress \<and> level_ok uncompress s" and c: "stored_chunk uncompress s pos = Some c"
  then have l: "level_ok uncompress s" by simp
  obtain f where "files s (region_name (region_position pos)) = Some f"
    using c by (auto simp: stored_chunk_def split: option.splits)
  then show "chunk_ok c \<and> heights_cover c \<and> position c = pos"
    using stored_chunk_of [OF l] c by fastforce
qed

end
