(* ===== verification/Generation.thy ===== *)
theory Generation
  imports Storage
begin

text \<open>
  World generation (include/mc/world/generation.hpp,
  src/world/generation.cpp): value noise on a lattice of hashed corners, the
  biome of a column, the terrain of a chunk with its ores, trees and plants.

  The 64-bit coordinates and the products of the noise are \<open>int\<close>: block
  coordinates are below 2^36 in size, so no signed operation of the source
  overflows. The hashes wrap, on \<open>u64\<close>.
\<close>

section \<open>Noise\<close>

definition mix :: "u64 \<Rightarrow> u64" where
  "mix value =
     (let value = value + 0x9E3779B97F4A7C15;
          value = (value XOR drop_bit 30 value) * 0xBF58476D1CE4E5B9;
          value = (value XOR drop_bit 27 value) * 0x94D049BB133111EB
      in value XOR drop_bit 31 value)"

definition lattice :: "u64 \<Rightarrow> int \<Rightarrow> int \<Rightarrow> int" where
  "lattice seed x z =
     (let value = mix (seed XOR mix (word_of_int x) XOR push_bit 1 (mix (word_of_int z))) in
      uint (value AND 0xFFFF) - 32768)"

definition noise :: "u64 \<Rightarrow> int \<Rightarrow> int \<Rightarrow> int \<Rightarrow> int" where
  "noise seed x z scale =
     (let cell_x = floor_div x scale; cell_z = floor_div z scale;
          local_x = x - cell_x * scale; local_z = z - cell_z * scale;
          top = lattice seed cell_x cell_z * (scale - local_x) + lattice seed (cell_x + 1) cell_z * local_x;
          bottom = lattice seed cell_x (cell_z + 1) * (scale - local_x) +
            lattice seed (cell_x + 1) (cell_z + 1) * local_x
      in (top * (scale - local_z) + bottom * local_z) sdiv (scale * scale))"

definition ore_at :: "u64 \<Rightarrow> int \<Rightarrow> int \<Rightarrow> int \<Rightarrow> u64 \<Rightarrow> bool" where
  "ore_at seed x y z modulus =
     (mix (seed XOR mix (word_of_int x) XOR mix (word_of_int z) XOR mix (word_of_int y)) mod modulus = 0)"

definition feature_value :: "u64 \<Rightarrow> int \<Rightarrow> int \<Rightarrow> u64 \<Rightarrow> u64" where
  "feature_value seed x z salt = mix (seed XOR salt XOR mix (word_of_int x) XOR push_bit 1 (mix (word_of_int z)))"

section \<open>Biomes and heights\<close>

record generation_settings =
  seed :: u64
  sea_level :: int

definition sample_biome :: "u64 \<Rightarrow> int \<Rightarrow> int \<Rightarrow> int \<Rightarrow> biome_value" where
  "sample_biome s block_x surface_y block_z =
     (if surface_y < 60 then ocean
      else if surface_y > 86 then mountains
      else
        let temperature = noise (s XOR 0xA24BAED4963EE407) block_x block_z 192;
            humidity = noise (s XOR 0x9FB21C651E98DF25) block_x block_z 160 in
        if temperature > 8000 \<and> humidity < - 2000 then desert
        else if humidity > 4000 then forest
        else plains)"

definition new_generator :: "generation_settings \<Rightarrow> generation_settings result" where
  "new_generator g =
     (if sea_level g < min_build_y \<or> sea_level g \<ge> max_build_y
      then Inl (Invalid_Argument ''sea level is outside build height'') else Inr g)"

definition clamp :: "int \<Rightarrow> int \<Rightarrow> int \<Rightarrow> int" where
  "clamp v low high = (if v < low then low else if high < v then high else v)"

definition surface_height :: "generation_settings \<Rightarrow> int \<Rightarrow> int \<Rightarrow> int" where
  "surface_height g block_x block_z =
     (let continental = noise (seed g) block_x block_z 128;
          detail = noise (seed g XOR 0xD1B54A32D192ED03) block_x block_z 32;
          height = sea_level g + (continental * 30) sdiv 32768 + (detail * 9) sdiv 32768
      in clamp height (min_build_y + 5) (max_build_y - 2))"

section \<open>Terrain\<close>

definition global_x :: "chunk_position \<Rightarrow> nat \<Rightarrow> int" where
  "global_x pos x = sint (chunk_x pos) * 16 + int x"

definition global_z :: "chunk_position \<Rightarrow> nat \<Rightarrow> int" where
  "global_z pos z = sint (chunk_z pos) * 16 + int z"

definition terrain_block :: "generation_settings \<Rightarrow> int \<Rightarrow> int \<Rightarrow> int \<Rightarrow> biome_value \<Rightarrow> int \<Rightarrow> block_value" where
  "terrain_block g block_x block_z surface biome y =
     (if y = min_build_y then bedrock
      else if y \<le> surface - 4
      then (if y < 32 \<and> ore_at (seed g XOR 0xC0A1) block_x y block_z 97 then iron_ore
            else if y < 96 \<and> ore_at (seed g XOR 0xC0A2) block_x y block_z 61 then coal_ore
            else stone)
      else if y < surface then (if biome = desert then sand else dirt)
      else if y = surface then (if biome = desert \<or> surface \<le> sea_level g then sand else grass_block)
      else if y \<le> sea_level g then water
      else air)"

text \<open>The terrain of one column: its height, its blocks from the bottom up, its biomes.\<close>

definition fill_column :: "generation_settings \<Rightarrow> nat \<times> nat \<Rightarrow> chunk \<Rightarrow> chunk result" where
  "fill_column g = (\<lambda>(x, z) c.
     let block_x = global_x (position c) x; block_z = global_z (position c) z;
         surface = surface_height g block_x block_z;
         biome = sample_biome (seed g) block_x surface block_z;
         top = max surface (sea_level g) in
     bindR (set_height c x z top) (\<lambda>c.
     bindR (foldR (\<lambda>y c. chunk_set_block c x y z (terrain_block g block_x block_z surface biome y))
       [min_build_y..top] c) (\<lambda>c.
     foldR (\<lambda>quart_y c. if x mod 4 = 0 \<and> z mod 4 = 0 then set_biome c (x div 4) quart_y (z div 4) biome else Inr c)
       [0..<section_count * 4] c)))"

section \<open>Trees\<close>

text \<open>The cells of a crown around its center, from the bottom layer up, without the corners of the top layer.\<close>

definition crown_cells :: "int \<Rightarrow> (int \<times> int \<times> int) list" where
  "crown_cells crown_y = [(y, offset_z, offset_x).
     y \<leftarrow> [crown_y - 2..crown_y + 1],
     offset_z \<leftarrow> [- (if y = crown_y + 1 then 1 else 2)..(if y = crown_y + 1 then 1 else 2)],
     offset_x \<leftarrow> [- (if y = crown_y + 1 then 1 else 2)..(if y = crown_y + 1 then 1 else 2)],
     \<not> (y = crown_y + 1 \<and> \<bar>offset_x\<bar> = 1 \<and> \<bar>offset_z\<bar> = 1)]"

definition place_leaf :: "nat \<Rightarrow> nat \<Rightarrow> int \<times> int \<times> int \<Rightarrow> chunk \<Rightarrow> chunk result" where
  "place_leaf x z = (\<lambda>(y, offset_z, offset_x) c.
     let leaf_x = nat (int x + offset_x); leaf_z = nat (int z + offset_z) in
     bindR (chunk_block c leaf_x y leaf_z) (\<lambda>b.
     if b = air
     then bindR (chunk_set_block c leaf_x y leaf_z oak_leaves) (\<lambda>c.
       bindR (chunk_height c leaf_x leaf_z) (\<lambda>h. set_height c leaf_x leaf_z (max h y)))
     else Inr c))"

definition grow_tree :: "nat \<Rightarrow> nat \<Rightarrow> int \<Rightarrow> int \<Rightarrow> chunk \<Rightarrow> chunk result" where
  "grow_tree x z surface trunk_height c =
     bindR (foldR (\<lambda>y c. chunk_set_block c x y z oak_log) [surface + 1..surface + trunk_height] c) (\<lambda>c.
     let crown_y = surface + trunk_height in
     bindR (foldR (place_leaf x z) (crown_cells crown_y) c) (\<lambda>c.
     set_height c x z (crown_y + 1)))"

definition plant_tree :: "generation_settings \<Rightarrow> nat \<Rightarrow> chunk \<Rightarrow> chunk result" where
  "plant_tree g candidate c =
     (let chunk_seed = feature_value (seed g) (sint (chunk_x (position c))) (sint (chunk_z (position c)))
            (0x54524545 + word_of_nat candidate);
          x = 2 + unat (chunk_seed mod 12);
          z = 2 + unat (drop_bit 8 chunk_seed mod 12) in
      bindR (chunk_height c x z) (\<lambda>surface.
      bindR (chunk_biome c (x div 4) 0 (z div 4)) (\<lambda>biome.
      let tree_allowed = biome = forest \<or> (biome = plains \<and> candidate = 0 \<and> chunk_seed mod 3 = 0) in
      if \<not> tree_allowed \<or> surface + 8 \<ge> max_build_y then Inr c
      else bindR (chunk_block c x surface z) (\<lambda>b.
        if b \<noteq> grass_block then Inr c
        else grow_tree x z surface (4 + uint (drop_bit 16 chunk_seed mod 3)) c))))"

section \<open>Plants\<close>

definition plant_kind :: "u64 \<Rightarrow> block_value" where
  "plant_kind value =
     (if value mod 131 = 0 then poppy
      else if value mod 97 = 0 then dandelion
      else if value mod 13 = 0 then short_grass
      else air)"

definition place_plant :: "generation_settings \<Rightarrow> nat \<times> nat \<Rightarrow> chunk \<Rightarrow> chunk result" where
  "place_plant g = (\<lambda>(x, z) c.
     bindR (chunk_height c x z) (\<lambda>surface.
     if surface + 1 \<ge> max_build_y then Inr c
     else bindR (chunk_block c x surface z) (\<lambda>b.
       if b \<noteq> grass_block then Inr c
       else
         let value = feature_value (seed g) (global_x (position c) x) (global_z (position c) z) 0x504C414E54;
             plant = plant_kind value in
         if plant \<noteq> air
         then bindR (chunk_set_block c x (surface + 1) z plant) (\<lambda>c. set_height c x z (surface + 1))
         else Inr c)))"

definition generate :: "generation_settings \<Rightarrow> chunk_position \<Rightarrow> chunk result" where
  "generate g pos =
     bindR (foldR (fill_column g) columns (new_chunk pos)) (\<lambda>c.
     bindR (foldR (plant_tree g) [0..<4] c) (\<lambda>c.
     foldR (place_plant g) columns c))"

section \<open>Noise stays in range\<close>

lemma lattice_range: "- 32768 \<le> lattice s x z \<and> lattice s x z \<le> 32767"
proof -
  have "uint (v AND 0xFFFF :: u64) < 65536" for v
  proof -
    have "v AND 0xFFFF = take_bit 16 v" by (simp add: take_bit_eq_mask mask_numeral)
    then show ?thesis using take_bit_int_less_exp [of 16 "uint v"] by (simp add: unsigned_take_bit_eq)
  qed
  then show ?thesis by (simp add: lattice_def Let_def zless_imp_add1_zle add1_zle_eq [symmetric] le_diff_eq)
qed

text \<open>A weighted mean of two numbers lies between their bounds.\<close>

lemma mean_range:
  fixes a b l n :: int
  assumes "lo \<le> a" "a \<le> hi" "lo \<le> b" "b \<le> hi" and "0 \<le> l" "l \<le> n"
  shows "lo * n \<le> a * (n - l) + b * l \<and> a * (n - l) + b * l \<le> hi * n"
proof -
  have "lo * (n - l) \<le> a * (n - l)" "lo * l \<le> b * l" "a * (n - l) \<le> hi * (n - l)" "b * l \<le> hi * l"
    using assms by (simp_all add: mult_right_mono)
  then show ?thesis by (simp add: algebra_simps)
qed

lemma sdiv_range:
  fixes v d :: int
  assumes "0 < d" and "lo * d \<le> v" "v \<le> hi * d" and "lo \<le> 0" "0 \<le> hi"
  shows "lo \<le> v sdiv d \<and> v sdiv d \<le> hi"
proof -
  have d: "lo * d div d = lo" "hi * d div d = hi" using assms(1) by simp_all
  have "lo \<le> v div d" using zdiv_mono1 [OF assms(2,1)] d by simp
  moreover have "v div d \<le> hi" using zdiv_mono1 [OF assms(3,1)] d by simp
  moreover have "v div d + 1 \<le> hi" if "v < 0"
    using that assms(1,5) pos_imp_zdiv_neg_iff [of d v] by linarith
  ultimately show ?thesis unfolding signed_division(1) [OF assms(1)] by auto
qed

lemma noise_range:
  assumes "0 < scale"
  shows "- 32768 \<le> noise s x z scale \<and> noise s x z scale \<le> 32767"
proof -
  let ?cx = "floor_div x scale" and ?cz = "floor_div z scale"
  let ?lx = "x - ?cx * scale" and ?lz = "z - ?cz * scale"
  have l: "0 \<le> ?lx" "?lx \<le> scale" "0 \<le> ?lz" "?lz \<le> scale"
    using assms less_imp_le [OF pos_mod_bound [OF assms, of x]] less_imp_le [OF pos_mod_bound [OF assms, of z]]
    by (simp_all add: floor_div_div minus_div_mult_eq_mod)
  define top bottom where "top = lattice s ?cx ?cz * (scale - ?lx) + lattice s (?cx + 1) ?cz * ?lx"
    and "bottom = lattice s ?cx (?cz + 1) * (scale - ?lx) + lattice s (?cx + 1) (?cz + 1) * ?lx"
  have "- 32768 * scale \<le> top \<and> top \<le> 32767 * scale" "- 32768 * scale \<le> bottom \<and> bottom \<le> 32767 * scale"
    unfolding top_def bottom_def
    by (intro mean_range; use lattice_range [of s] l in simp)+
  then have "(- 32768 * scale) * scale \<le> top * (scale - ?lz) + bottom * ?lz \<and>
      top * (scale - ?lz) + bottom * ?lz \<le> (32767 * scale) * scale"
    using l by (intro mean_range) simp_all
  then have "- 32768 \<le> (top * (scale - ?lz) + bottom * ?lz) sdiv (scale * scale) \<and>
      (top * (scale - ?lz) + bottom * ?lz) sdiv (scale * scale) \<le> 32767"
    using assms by (intro sdiv_range) (simp_all add: mult.assoc)
  then show ?thesis by (simp add: noise_def Let_def top_def bottom_def)
qed

lemma surface_height_range:
  "min_build_y + 5 \<le> surface_height g x z \<and> surface_height g x z \<le> max_build_y - 2"
  by (auto simp: surface_height_def Let_def clamp_def build_y)

section \<open>Columns\<close>

lemma terrain_block_top:
  assumes "min_build_y < max surface (sea_level g)"
  shows "terrain_block g bx bz surface biome (max surface (sea_level g)) \<noteq> air"
  using assms by (auto simp: terrain_block_def max_def air_def bedrock_def iron_ore_def coal_ore_def stone_def sand_def
      dirt_def grass_block_def water_def)

lemma foldR_map: "foldR f (map h xs) s = foldR (\<lambda>x. f (h x)) xs s"
proof (induction xs arbitrary: s)
  case (Cons x xs)
  then show ?case by (cases "f (h x) s") auto
qed simp

lemma foldR_cong: "(\<And>x s. x \<in> set xs \<Longrightarrow> f x s = g x s) \<Longrightarrow> foldR f xs s = foldR g xs s"
proof (induction xs arbitrary: s)
  case (Cons x xs)
  then show ?case by (cases "g x s") auto
qed simp

lemma set_biomes_ok:
  assumes "chunk_ok c" and "x < 16" "z < 16" and "\<forall>qy \<in> set ws. qy < section_count * 4"
  shows "\<exists>c'. foldR (\<lambda>qy c. if x mod 4 = 0 \<and> z mod 4 = 0 then set_biome c (x div 4) qy (z div 4) b else Inr c) ws c = Inr c' \<and>
    chunk_ok c' \<and> heightmap c' = heightmap c \<and> block_at c' = block_at c \<and> position c' = position c"
  using assms(4,1)
proof (induction ws arbitrary: c)
  case (Cons qy ws)
  show ?case
  proof (cases "x mod 4 = 0 \<and> z mod 4 = 0")
    case True
    have "x div 4 < 4" "z div 4 < 4" using assms(2,3) by auto
    then obtain c1 where c1: "set_biome c (x div 4) qy (z div 4) b = Inr c1"
      using Cons.prems(1) by (auto simp: set_biome_def biome_index_def)
    with Cons.IH [of c1] Cons.prems set_biome_ok [OF Cons.prems(2) c1] True show ?thesis by auto
  next
    case False
    then show ?thesis using Cons by auto
  qed
qed simp

text \<open>A column that holds nothing but air.\<close>

definition empty_column :: "chunk \<Rightarrow> nat \<Rightarrow> nat \<Rightarrow> bool" where
  "empty_column c x z = (\<forall>y. min_build_y \<le> y \<and> y < max_build_y \<longrightarrow> block_at c x y z = air)"

definition column_done :: "chunk \<Rightarrow> nat \<Rightarrow> nat \<Rightarrow> bool" where
  "column_done c x z = (top_ok c x z (heightmap c ! (z * 16 + x)) \<and> block_at c x min_build_y z = bedrock \<and>
     min_build_y + 5 \<le> heightmap c ! (z * 16 + x))"

lemma fill_column_ok:
  assumes "chunk_ok c" and "x < 16" "z < 16" and "empty_column c x z" and "sea_level g < max_build_y"
  shows "\<exists>c'. fill_column g (x, z) c = Inr c' \<and> chunk_ok c' \<and> position c' = position c \<and> column_done c' x z \<and>
    (\<forall>x' z'. x' < 16 \<longrightarrow> z' < 16 \<longrightarrow> (x', z') \<noteq> (x, z) \<longrightarrow>
      heightmap c' ! (z' * 16 + x') = heightmap c ! (z' * 16 + x') \<and>
      (\<forall>y. min_build_y \<le> y \<and> y < max_build_y \<longrightarrow> block_at c' x' y z' = block_at c x' y z'))"
proof -
  define bx bz where b: "bx = global_x (position c) x" "bz = global_z (position c) z"
  define surface biome top where s: "surface = surface_height g bx bz" "biome = sample_biome (seed g) bx surface bz"
    "top = max surface (sea_level g)"
  define B where "B = (\<lambda>(x' :: nat, y, z' :: nat). terrain_block g bx bz surface biome y)"
  have top: "min_build_y + 5 \<le> top" "top < max_build_y"
    using surface_height_range [of g bx bz] assms(5) by (auto simp: s)
  define c1 where "c1 = c\<lparr>heightmap := (heightmap c)[z * 16 + x := top], dirty := True\<rparr>"
  have h1: "set_height c x z top = Inr c1"
    using top assms(2,3) by (simp add: set_height_def column_index_eq c1_def)
  then have ok1: "chunk_ok c1" using set_height_ok assms(1) by blast
  have hl: "z * 16 + x < length (heightmap c)" using assms(1-3) by (simp add: chunk_ok_def)
  let ?ps = "map (\<lambda>y. (x, y, z)) [min_build_y..top]"
  have "distinct ?ps" by (simp add: distinct_map inj_on_def)
  moreover have "\<forall>(x, y, z) \<in> set ?ps. in_chunk (x, y, z) \<and> block_at c1 x y z = air \<and>
      (B (x, y, z) \<noteq> air \<longrightarrow> y \<le> heightmap c1 ! (z * 16 + x))"
    using assms(2-4) top hl by (auto simp: in_chunk_def empty_column_def c1_def)
  ultimately obtain c2 where c2: "foldR (\<lambda>p c. chunk_put c p (B p)) ?ps c1 = Inr c2" "chunk_ok c2" "heightmap c2 = heightmap c1"
    "position c2 = position c1" "\<And>x' y z'. in_chunk (x', y, z') \<Longrightarrow>
      block_at c2 x' y z' = (if (x', y, z') \<in> set ?ps then B (x', y, z') else block_at c1 x' y z')"
    using put_blocks [OF _ ok1, of ?ps B] by blast
  have f2: "foldR (\<lambda>y c. chunk_set_block c x y z (terrain_block g bx bz surface biome y)) [min_build_y..top] c1 = Inr c2"
    using c2(1) by (simp add: foldR_map chunk_put_def B_def)
  obtain c3 where c3: "foldR (\<lambda>qy c. if x mod 4 = 0 \<and> z mod 4 = 0 then set_biome c (x div 4) qy (z div 4) biome else Inr c)
      [0..<section_count * 4] c2 = Inr c3"
    "chunk_ok c3" "heightmap c3 = heightmap c2" "block_at c3 = block_at c2" "position c3 = position c2"
    using set_biomes_ok [OF c2(2) assms(2,3), of "[0..<section_count * 4]" biome] by auto
  have "fill_column g (x, z) c = Inr c3"
    using h1 f2 c3(1) unfolding b s by (simp add: fill_column_def Let_def)
  moreover have h3: "heightmap c3 = (heightmap c)[z * 16 + x := top]" by (simp add: c3 c2 c1_def)
  moreover have at: "block_at c3 x' y z' = (if x' = x \<and> z' = z \<and> y \<le> top then terrain_block g bx bz surface biome y else block_at c x' y z')"
    if "in_chunk (x', y, z')" for x' y z'
    using c2(5) [OF that] that by (auto simp: c3(4) c1_def B_def in_chunk_def)
  moreover have "column_done c3 x z"
  proof -
    have "block_at c3 x top z \<noteq> air"
      using at [of x top z] assms(2,3) top terrain_block_top [of surface g bx bz biome] by (simp add: in_chunk_def s)
    moreover have "block_at c3 x min_build_y z = bedrock"
      using at [of x min_build_y z] assms(2,3) top by (simp add: in_chunk_def terrain_block_def build_y)
    moreover have "block_at c3 x y z = air" if "top < y" "y < max_build_y" for y
      using at [of x y z] assms(2-4) top that by (simp add: in_chunk_def empty_column_def)
    ultimately show ?thesis using hl top by (simp add: column_done_def top_ok_def h3)
  qed
  moreover have "heightmap c3 ! (z' * 16 + x') = heightmap c ! (z' * 16 + x')" if "x' < 16" "(x', z') \<noteq> (x, z)" for x' z'
  proof -
    have "z' * 16 + x' \<noteq> z * 16 + x"
      using digits_inject [of z' 16 x' z x] that assms(2) by fastforce
    then show ?thesis unfolding h3 by simp
  qed
  ultimately show ?thesis
    using c3(2,5) c2(4) by (intro exI [of _ c3]) (auto simp: in_chunk_def c1_def)
qed

text \<open>A chunk whose terrain stands: every column has bedrock at the bottom and an exact height.\<close>

abbreviation top_of :: "chunk \<Rightarrow> nat \<Rightarrow> nat \<Rightarrow> int" where
  "top_of c x z \<equiv> heightmap c ! (z * 16 + x)"

definition grounded :: "chunk_position \<Rightarrow> chunk \<Rightarrow> bool" where
  "grounded pos c = (chunk_ok c \<and> position c = pos \<and> (\<forall>x < 16. \<forall>z < 16. column_done c x z))"

lemma grounded_heights: "grounded pos c \<Longrightarrow> heights_exact c"
  by (simp add: grounded_def column_done_def heights_exact_def)

lemma new_chunk_empty: "x < 16 \<Longrightarrow> z < 16 \<Longrightarrow> empty_column (new_chunk pos) x z"
  using offset_less cell_less
  by (simp add: empty_column_def block_at_blocks new_chunk_def empty_section_def)

lemma columns_distinct: "distinct columns"
proof -
  have "distinct (map (\<lambda>(x, z). z * 16 + x) columns)" unfolding columns_indices by simp
  then show ?thesis by (simp add: distinct_map)
qed

lemma fill_columns:
  assumes "distinct ps" and "\<forall>(x, z) \<in> set ps. x < 16 \<and> z < 16" and "sea_level g < max_build_y"
    and "chunk_ok c" and "\<forall>(x, z) \<in> set ps. empty_column c x z"
  shows "\<exists>c'. foldR (fill_column g) ps c = Inr c' \<and> chunk_ok c' \<and> position c' = position c \<and>
    (\<forall>(x, z) \<in> set ps. column_done c' x z) \<and>
    (\<forall>x z. x < 16 \<longrightarrow> z < 16 \<longrightarrow> (x, z) \<notin> set ps \<longrightarrow> column_done c x z \<longrightarrow> column_done c' x z)"
  using assms(1,2,4,5)
proof (induction ps arbitrary: c)
  case (Cons p ps)
  obtain x z where p: "p = (x, z)" by (cases p)
  have r: "x < 16" "z < 16" "empty_column c x z" using Cons.prems p by auto
  obtain c1 where c1: "fill_column g (x, z) c = Inr c1" "chunk_ok c1" "position c1 = position c" "column_done c1 x z"
    and same: "\<And>x' z'. x' < 16 \<Longrightarrow> z' < 16 \<Longrightarrow> (x', z') \<noteq> (x, z) \<Longrightarrow> top_of c1 x' z' = top_of c x' z' \<and>
      (\<forall>y. min_build_y \<le> y \<and> y < max_build_y \<longrightarrow> block_at c1 x' y z' = block_at c x' y z')"
    using fill_column_ok [OF Cons.prems(3) r assms(3)] by blast
  have keep: "column_done c1 x' z'" if "x' < 16" "z' < 16" "(x', z') \<noteq> (x, z)" "column_done c x' z'" for x' z'
    using same [OF that(1-3)] that(4) top_ok_cong [of c1 x' z' c] by (simp add: column_done_def build_y)
  have "\<forall>(x', z') \<in> set ps. empty_column c1 x' z'"
  proof (rule ballI, clarify)
    fix x' z' assume m: "(x', z') \<in> set ps"
    then have "x' < 16" "z' < 16" "empty_column c x' z'" "(x', z') \<noteq> (x, z)" using Cons.prems p by auto
    then show "empty_column c1 x' z'" using same [of x' z'] by (simp add: empty_column_def)
  qed
  then obtain c' where c': "foldR (fill_column g) ps c1 = Inr c'" "chunk_ok c'" "position c' = position c1"
    "\<forall>(x, z) \<in> set ps. column_done c' x z"
    "\<forall>x z. x < 16 \<longrightarrow> z < 16 \<longrightarrow> (x, z) \<notin> set ps \<longrightarrow> column_done c1 x z \<longrightarrow> column_done c' x z"
    using Cons.IH [of c1] Cons.prems c1(2) by auto
  have "column_done c' x z" using c'(5) c1(4) r Cons.prems(1) p by simp
  then show ?case using c' c1 keep p by (intro exI [of _ c']) auto
qed simp

lemma terrain_grounded:
  assumes "sea_level g < max_build_y"
  obtains c where "foldR (fill_column g) columns (new_chunk pos) = Inr c" "grounded pos c"
proof -
  have "\<forall>(x, z) \<in> set columns. x < 16 \<and> z < 16" "\<forall>(x, z) \<in> set columns. empty_column (new_chunk pos) x z"
    using columns_bounds new_chunk_empty by blast+
  then obtain c where c: "foldR (fill_column g) columns (new_chunk pos) = Inr c" "chunk_ok c"
    "position c = position (new_chunk pos)" "\<forall>(x, z) \<in> set columns. column_done c x z"
    using fill_columns [OF columns_distinct _ assms new_chunk_ok] by blast
  have "column_done c x z" if "x < 16" "z < 16" for x z using c(4) columns_bounds that by blast
  then show ?thesis using that c by (simp add: grounded_def new_chunk_def)
qed

section \<open>Trees and plants\<close>

text \<open>Setting a block that is not air, above the floor of a standing terrain.\<close>

lemma put_grounded:
  assumes "grounded pos c" and "in_chunk (x, y, z)" and "min_build_y < y" and "b \<noteq> air"
  obtains c' where "chunk_set_block c x y z b = Inr c'" "grounded pos c'" "biomes c' = biomes c"
    "heightmap c' = (heightmap c)[z * 16 + x := max (top_of c x z) y]"
    "\<And>x' y' z'. in_chunk (x', y', z') \<Longrightarrow>
      block_at c' x' y' z' = (if (x', y', z') = (x, y, z) then b else block_at c x' y' z')"
proof -
  have ok: "chunk_ok c" "position c = pos" using assms(1) by (simp_all add: grounded_def)
  obtain s t where st: "chunk_set_block c x y z b = Inr ((write_block c x y z b s)\<lparr>heightmap := (heightmap c)[z * 16 + x := t]\<rparr>)"
    "new_top (write_block c x y z b s) x z y (top_of c x z) (block_at c x y z) b t"
    using chunk_set_block_spec [OF ok(1) assms(2)] by blast
  let ?c = "(write_block c x y z b s)\<lparr>heightmap := (heightmap c)[z * 16 + x := t]\<rparr>"
  have t: "t = max (top_of c x z) y" using st(2) assms(4) by (auto simp: new_top_def split: if_splits)
  note at = chunk_set_block_at [OF ok(1) st(1)]
  have hl: "z * 16 + x < length (heightmap c)" using ok(1) assms(2) by (simp add: chunk_ok_def in_chunk_def)
  have "heights_exact ?c" using chunk_set_block_heights [OF ok(1) grounded_heights [OF assms(1)] st(1)] .
  moreover have "column_done ?c x' z'" if p: "x' < 16" "z' < 16" for x' z'
  proof -
    have old: "column_done c x' z'" using assms(1) p by (simp add: grounded_def)
    have "block_at ?c x' min_build_y z' = bedrock"
      using at [of x' min_build_y z'] p old assms(3) by (simp add: in_chunk_def build_y column_done_def)
    moreover have "min_build_y + 5 \<le> top_of ?c x' z'"
      using old hl by (cases "z' * 16 + x' = z * 16 + x") (auto simp: column_done_def t)
    ultimately show ?thesis using \<open>heights_exact ?c\<close> p by (simp add: column_done_def heights_exact_def)
  qed
  ultimately have "grounded pos ?c"
    using chunk_set_block_ok [OF ok(1) st(1)] chunk_set_block_position [OF st(1)] ok(2) by (simp add: grounded_def)
  then show ?thesis using that [OF st(1)] at chunk_set_block_position [OF st(1)] t by simp
qed

lemma set_height_same:
  assumes "grounded pos c" and "x < 16" "z < 16" and "h = top_of c x z"
  obtains c' where "set_height c x z h = Inr c'" "grounded pos c'" "biomes c' = biomes c" "heightmap c' = heightmap c"
    "block_at c' = block_at c"
proof -
  have "min_build_y \<le> h \<and> h < max_build_y"
    using assms by (auto simp: grounded_def column_done_def top_ok_def)
  then have "set_height c x z h = Inr (c\<lparr>dirty := True\<rparr>)"
    using assms(2-4) by (simp add: set_height_def column_index_eq)
  moreover have "block_at (c\<lparr>dirty := True\<rparr>) = block_at c" by (simp add: fun_eq_iff block_at_def)
  moreover from this have "grounded pos (c\<lparr>dirty := True\<rparr>)"
    using assms(1) by (simp add: grounded_def column_done_def top_ok_def chunk_ok_def)
  ultimately show ?thesis using that by simp
qed


text \<open>What growing does: no block is taken away, no column rises above \<open>k\<close> by it, the biomes stay.\<close>

definition grown :: "int \<Rightarrow> chunk \<Rightarrow> chunk \<Rightarrow> bool" where
  "grown k c c' = (biomes c' = biomes c \<and>
     (\<forall>x y z. in_chunk (x, y, z) \<and> block_at c x y z \<noteq> air \<longrightarrow> block_at c' x y z \<noteq> air) \<and>
     (\<forall>x < 16. \<forall>z < 16. top_of c' x z \<le> max (top_of c x z) k))"

lemma grown_refl: "grown k c c" by (simp add: grown_def)

lemma grown_trans: "grown k c c' \<Longrightarrow> grown k c' c'' \<Longrightarrow> grown k c c''"
  unfolding grown_def by (auto simp: le_max_iff_disj) (meson order_trans)+

lemma put_grown:
  assumes "grounded pos c" and "in_chunk (x, y, z)" and "min_build_y < y" "y \<le> k" and "b \<noteq> air"
  obtains c' where "chunk_set_block c x y z b = Inr c'" "grounded pos c'" "grown k c c'" "block_at c' x y z = b"
    "top_of c' x z = max (top_of c x z) y"
proof -
  obtain c' where c': "chunk_set_block c x y z b = Inr c'" "grounded pos c'" "biomes c' = biomes c"
    "heightmap c' = (heightmap c)[z * 16 + x := max (top_of c x z) y]"
    "\<And>x' y' z'. in_chunk (x', y', z') \<Longrightarrow>
      block_at c' x' y' z' = (if (x', y', z') = (x, y, z) then b else block_at c x' y' z')"
    using put_grounded [OF assms(1-3,5)] by blast
  have hl: "z * 16 + x < length (heightmap c)" using assms(1,2) by (simp add: grounded_def chunk_ok_def in_chunk_def)
  have "top_of c' x' z' \<le> max (top_of c x' z') k" for x' z'
    using hl assms(4) by (cases "z' * 16 + x' = z * 16 + x") (auto simp: c'(4))
  then have "grown k c c'" using c'(3,5) assms(5) by (simp add: grown_def)
  moreover have "block_at c' x y z = b" using c'(5) [OF assms(2)] by simp
  moreover have "top_of c' x z = max (top_of c x z) y" using hl by (simp add: c'(4))
  ultimately show ?thesis using that c'(1,2) by blast
qed

lemma place_leaf_ok:
  assumes "grounded pos c" and "2 \<le> x" "x < 14" "2 \<le> z" "z < 14" and "\<bar>ox\<bar> \<le> 2" "\<bar>oz\<bar> \<le> 2"
    and "min_build_y < y" "y \<le> k" "y < max_build_y"
  obtains c' where "place_leaf x z (y, oz, ox) c = Inr c'" "grounded pos c'" "grown k c c'"
    "block_at c' (nat (int x + ox)) y (nat (int z + oz)) \<noteq> air"
proof -
  let ?x = "nat (int x + ox)" and ?z = "nat (int z + oz)"
  have r: "in_chunk (?x, y, ?z)" using assms(2-8,10) by (auto simp: in_chunk_def)
  then have b: "chunk_block c ?x y ?z = Inr (block_at c ?x y ?z)" "?x < 16" "?z < 16"
    by (auto simp: chunk_block_eq in_chunk_def)
  show ?thesis
  proof (cases "block_at c ?x y ?z = air")
    case False
    then have "place_leaf x z (y, oz, ox) c = Inr c" using b by (simp add: place_leaf_def Let_def)
    then show ?thesis using that assms(1) grown_refl False by blast
  next
    case True
    have "oak_leaves \<noteq> air" by (simp add: oak_leaves_def air_def)
    then obtain c1 where c1: "chunk_set_block c ?x y ?z oak_leaves = Inr c1" "grounded pos c1" "grown k c c1"
      "block_at c1 ?x y ?z = oak_leaves" "top_of c1 ?x ?z = max (top_of c ?x ?z) y"
      using put_grown [OF assms(1) r assms(8,9)] by blast
    have "chunk_height c1 ?x ?z = Inr (top_of c1 ?x ?z)" using b by (simp add: chunk_height_def column_index_eq)
    moreover have "max (top_of c1 ?x ?z) y = top_of c1 ?x ?z" using c1(5) by simp
    moreover obtain c2 where c2: "set_height c1 ?x ?z (top_of c1 ?x ?z) = Inr c2" "grounded pos c2"
      "biomes c2 = biomes c1" "heightmap c2 = heightmap c1" "block_at c2 = block_at c1"
      using set_height_same [OF c1(2) b(2,3) refl] by blast
    ultimately have "place_leaf x z (y, oz, ox) c = Inr c2"
      using b True c1(1) by (simp add: place_leaf_def Let_def)
    moreover have "grown k c c2" using c1(3) c2 by (simp add: grown_def)
    ultimately show ?thesis using that c2 c1(4) \<open>oak_leaves \<noteq> air\<close> by simp
  qed
qed

lemma crown_cells_bounds:
  "(y, oz, ox) \<in> set (crown_cells k) \<Longrightarrow> k - 2 \<le> y \<and> y \<le> k + 1 \<and> \<bar>ox\<bar> \<le> 2 \<and> \<bar>oz\<bar> \<le> 2"
  by (auto simp: crown_cells_def split: if_splits)

lemma crown_cells_tip: "(k + 1, 0, 0) \<in> set (crown_cells k)"
  by (simp add: crown_cells_def image_iff)

lemma grow_leaves:
  assumes "2 \<le> x" "x < 14" "2 \<le> z" "z < 14"
    and "\<forall>(y, oz, ox) \<in> set ws. min_build_y < y \<and> y \<le> k \<and> y < max_build_y \<and> \<bar>ox\<bar> \<le> 2 \<and> \<bar>oz\<bar> \<le> 2"
    and "grounded pos c"
  shows "\<exists>c'. foldR (place_leaf x z) ws c = Inr c' \<and> grounded pos c' \<and> grown k c c' \<and>
    (\<forall>(y, oz, ox) \<in> set ws. block_at c' (nat (int x + ox)) y (nat (int z + oz)) \<noteq> air)"
  using assms(5,6)
proof (induction ws arbitrary: c)
  case (Cons w ws)
  obtain y oz ox where w: "w = (y, oz, ox)" by (metis surj_pair)
  have r: "min_build_y < y" "y \<le> k" "y < max_build_y" "\<bar>ox\<bar> \<le> 2" "\<bar>oz\<bar> \<le> 2" using Cons.prems(1) w by auto
  obtain c1 where c1: "place_leaf x z w c = Inr c1" "grounded pos c1" "grown k c c1"
    "block_at c1 (nat (int x + ox)) y (nat (int z + oz)) \<noteq> air"
    using place_leaf_ok [OF Cons.prems(2) assms(1-4) r(4,5,1,2,3)] w by metis
  obtain c' where c': "foldR (place_leaf x z) ws c1 = Inr c'" "grounded pos c'" "grown k c1 c'"
    "\<forall>(y, oz, ox) \<in> set ws. block_at c' (nat (int x + ox)) y (nat (int z + oz)) \<noteq> air"
    using Cons.IH [of c1] Cons.prems(1) c1(2) by auto
  have "in_chunk (nat (int x + ox), y, nat (int z + oz))" using assms(1-4) r by (auto simp: in_chunk_def)
  then have "block_at c' (nat (int x + ox)) y (nat (int z + oz)) \<noteq> air"
    using c'(3) c1(4) by (simp add: grown_def)
  then show ?case using c' c1 grown_trans w by (intro exI [of _ c']) auto
qed (simp add: grown_refl)


lemma raise_trunk:
  assumes "x < 16" "z < 16" and "\<forall>y \<in> set ys. min_build_y < y \<and> y \<le> k \<and> y < max_build_y"
    and "grounded pos c"
  shows "\<exists>c'. foldR (\<lambda>y c. chunk_set_block c x y z oak_log) ys c = Inr c' \<and> grounded pos c' \<and> grown k c c'"
  using assms(3,4)
proof (induction ys arbitrary: c)
  case (Cons y ys)
  have r: "in_chunk (x, y, z)" "min_build_y < y" "y \<le> k" using Cons.prems(1) assms(1,2) by (auto simp: in_chunk_def)
  have "oak_log \<noteq> air" by (simp add: oak_log_def air_def)
  then obtain c1 where c1: "chunk_set_block c x y z oak_log = Inr c1" "grounded pos c1" "grown k c c1"
    using put_grown [OF Cons.prems(2) r] by blast
  then obtain c' where "foldR (\<lambda>y c. chunk_set_block c x y z oak_log) ys c1 = Inr c'" "grounded pos c'" "grown k c1 c'"
    using Cons.IH [of c1] Cons.prems(1) by auto
  with c1 show ?case using grown_trans by (intro exI [of _ c']) auto
qed (simp add: grown_refl)

lemma grow_tree_ok:
  assumes "grounded pos c" and "2 \<le> x" "x < 14" "2 \<le> z" "z < 14" and "4 \<le> t" "top_of c x z + t + 1 < max_build_y"
  obtains c' where "grow_tree x z (top_of c x z) t c = Inr c'" "grounded pos c'" "biomes c' = biomes c"
    "top_of c' x z = top_of c x z + t + 1"
proof -
  let ?s = "top_of c x z"
  let ?k = "?s + t + 1"
  have low: "min_build_y + 5 \<le> ?s" using assms(1-5) by (simp add: grounded_def column_done_def)
  have r: "x < 16" "z < 16" using assms(3,5) by simp_all
  obtain c1 where c1: "foldR (\<lambda>y c. chunk_set_block c x y z oak_log) [?s + 1..?s + t] c = Inr c1"
    "grounded pos c1" "grown ?k c c1"
    using raise_trunk [OF r _ assms(1), of "[?s + 1..?s + t]" ?k] low assms(7) by auto
  have cells: "\<forall>(y, oz, ox) \<in> set (crown_cells (?s + t)). min_build_y < y \<and> y \<le> ?k \<and> y < max_build_y \<and> \<bar>ox\<bar> \<le> 2 \<and> \<bar>oz\<bar> \<le> 2"
    using crown_cells_bounds [of _ _ _ "?s + t"] low assms(6,7) by fastforce
  obtain c2 where c2: "foldR (place_leaf x z) (crown_cells (?s + t)) c1 = Inr c2" "grounded pos c2" "grown ?k c1 c2"
    "\<forall>(y, oz, ox) \<in> set (crown_cells (?s + t)). block_at c2 (nat (int x + ox)) y (nat (int z + oz)) \<noteq> air"
    using grow_leaves [OF assms(2-5) cells c1(2)] by blast
  have "grown ?k c c2" using c1(3) c2(3) by (rule grown_trans)
  then have "top_of c2 x z \<le> max ?s ?k" using r by (simp only: grown_def)
  then have g: "biomes c2 = biomes c" "top_of c2 x z \<le> ?k" using \<open>grown ?k c c2\<close> assms(6) by (simp_all add: grown_def)
  have "block_at c2 x ?k z \<noteq> air" using c2(4) crown_cells_tip [of "?s + t"] by fastforce
  moreover have "top_ok c2 x z (top_of c2 x z)" using c2(2) r by (simp add: grounded_def column_done_def)
  ultimately have tip: "?k = top_of c2 x z" using g(2) assms(7) unfolding top_ok_def by (smt (verit))
  obtain c3 where c3: "set_height c2 x z ?k = Inr c3" "grounded pos c3" "biomes c3 = biomes c2" "heightmap c3 = heightmap c2"
    using set_height_same [OF c2(2) r tip] by blast
  have "grow_tree x z ?s t c = Inr c3" using c1(1) c2(1) c3(1) by (simp add: grow_tree_def Let_def)
  then show ?thesis using that c3 g tip by simp
qed

lemma chunk_biome_total:
  assumes "x < 16" "z < 16"
  obtains b where "chunk_biome c (x div 4) 0 (z div 4) = Inr b"
proof -
  have "x div 4 < 4" "z div 4 < 4" using assms by auto
  then show ?thesis using that by (auto simp: chunk_biome_def biome_index_def section_count_def)
qed

lemma column_of_seed:
  fixes v :: u64
  shows "2 + unat (v mod 12) < 14" "uint (v mod 3) \<le> 2"
proof -
  have "unat (v mod 12) < 12" "uint (v mod 3) < 3"
    by (simp_all add: unat_mod_distrib uint_mod_distrib)
  then show "2 + unat (v mod 12) < 14" "uint (v mod 3) \<le> 2" by simp_all
qed

lemma plant_tree_ok:
  assumes "grounded pos c"
  shows "\<exists>c'. plant_tree g candidate c = Inr c' \<and> grounded pos c'"
proof -
  define v where "v = feature_value (seed g) (sint (chunk_x (position c))) (sint (chunk_z (position c)))
    (0x54524545 + word_of_nat candidate)"
  define x z where xz: "x = 2 + unat (v mod 12)" "z = 2 + unat (drop_bit 8 v mod 12)"
  have r: "2 \<le> x" "x < 14" "2 \<le> z" "z < 14" using column_of_seed(1) by (simp_all add: xz)
  then have r': "x < 16" "z < 16" by simp_all
  have h: "chunk_height c x z = Inr (top_of c x z)" using r' by (simp add: chunk_height_def column_index_eq)
  obtain b where b: "chunk_biome c (x div 4) 0 (z div 4) = Inr b" using chunk_biome_total r' by blast
  have filled: "column_done c x z" using assms r' by (simp add: grounded_def)
  then have blk: "chunk_block c x (top_of c x z) z = Inr (block_at c x (top_of c x z) z)"
    using r' by (auto simp: chunk_block_eq column_done_def top_ok_def)
  define t where "t = 4 + uint (drop_bit 16 v mod 3)"
  have t: "4 \<le> t" "t \<le> 6" using column_of_seed(2) by (simp_all add: t_def)
  define allowed where "allowed = (b = forest \<or> (b = plains \<and> candidate = 0 \<and> v mod 3 = 0))"
  have "plant_tree g candidate c =
     (if \<not> allowed \<or> top_of c x z + 8 \<ge> max_build_y then Inr c
      else if block_at c x (top_of c x z) z \<noteq> grass_block then Inr c
      else grow_tree x z (top_of c x z) t c)"
    unfolding plant_tree_def Let_def v_def [symmetric] xz [symmetric] h b bindR.simps blk allowed_def t_def
    by (rule refl)
  moreover have "\<exists>c'. grow_tree x z (top_of c x z) t c = Inr c' \<and> grounded pos c'" if "\<not> top_of c x z + 8 \<ge> max_build_y"
    using grow_tree_ok [OF assms r t(1)] that t(2) by fastforce
  ultimately show ?thesis using assms by auto
qed

lemma place_plant_ok:
  assumes "grounded pos c" and "x < 16" "z < 16"
  shows "\<exists>c'. place_plant g (x, z) c = Inr c' \<and> grounded pos c'"
proof -
  let ?h = "top_of c x z"
  define plant where "plant = plant_kind (feature_value (seed g) (global_x (position c) x) (global_z (position c) z) 0x504C414E54)"
  have filled: "column_done c x z" using assms by (simp add: grounded_def)
  then have low: "min_build_y + 5 \<le> ?h" by (simp add: column_done_def)
  have h: "chunk_height c x z = Inr ?h" "chunk_block c x ?h z = Inr (block_at c x ?h z)"
    using assms(2,3) filled by (auto simp: chunk_height_def column_index_eq chunk_block_eq column_done_def top_ok_def)
  have e: "place_plant g (x, z) c = (if ?h + 1 \<ge> max_build_y \<or> block_at c x ?h z \<noteq> grass_block \<or> plant = air then Inr c
     else bindR (chunk_set_block c x (?h + 1) z plant) (\<lambda>c. set_height c x z (?h + 1)))"
    using h unfolding plant_def by (simp add: place_plant_def Let_def)
  show ?thesis
  proof (cases "?h + 1 \<ge> max_build_y \<or> block_at c x ?h z \<noteq> grass_block \<or> plant = air")
    case False
    then have r: "in_chunk (x, ?h + 1, z)" "min_build_y < ?h + 1" "plant \<noteq> air"
      using assms(2,3) low by (auto simp: in_chunk_def)
    obtain c1 where c1: "chunk_set_block c x (?h + 1) z plant = Inr c1" "grounded pos c1" "top_of c1 x z = max ?h (?h + 1)"
      using put_grown [OF assms(1) r(1,2) order_refl r(3)] by blast
    obtain c2 where "set_height c1 x z (?h + 1) = Inr c2" "grounded pos c2"
      using set_height_same [OF c1(2) assms(2,3), of "?h + 1"] c1(3) by auto
    then show ?thesis using e False c1(1) by simp
  qed (use e assms(1) in simp)
qed

lemma foldR_keeps:
  assumes "\<And>x s. x \<in> set xs \<Longrightarrow> P s \<Longrightarrow> \<exists>s'. f x s = Inr s' \<and> P s'" and "P s"
  shows "\<exists>s'. foldR f xs s = Inr s' \<and> P s'"
  using assms
proof (induction xs arbitrary: s)
  case (Cons x xs)
  obtain s1 where s1: "f x s = Inr s1" "P s1" using Cons.prems by (meson list.set_intros(1))
  then show ?case using Cons.IH [of s1] Cons.prems(1) by simp
qed simp

lemma generate_grounded:
  assumes "sea_level g < max_build_y"
  obtains c where "generate g pos = Inr c" "grounded pos c"
proof -
  obtain c1 where c1: "foldR (fill_column g) columns (new_chunk pos) = Inr c1" "grounded pos c1"
    using terrain_grounded [OF assms] by blast
  obtain c2 where c2: "foldR (plant_tree g) [0..<4] c1 = Inr c2" "grounded pos c2"
    using foldR_keeps [where P = "grounded pos" and f = "plant_tree g" and xs = "[0..<4]"] plant_tree_ok c1(2) by blast
  have "\<exists>c'. place_plant g p c = Inr c' \<and> grounded pos c'" if "p \<in> set columns" "grounded pos c" for p c
    using place_plant_ok [OF that(2)] that(1) columns_bounds by (metis surj_pair)
  then obtain c3 where "foldR (place_plant g) columns c2 = Inr c3" "grounded pos c3"
    using foldR_keeps [where P = "grounded pos" and f = "place_plant g" and xs = columns] c2(2) by blast
  then show ?thesis using that c1(1) c2(1) by (simp add: generate_def)
qed

section \<open>Properties\<close>

lemma noise_corner:
  assumes "0 < scale"
  shows "noise s (cx * scale) (cz * scale) scale = lattice s cx cz"
  using assms by (simp add: noise_def Let_def floor_div_div signed_division(1) mult.assoc)

text \<open>The noise the terrain is made of is an interpolation of the hashed corners of its lattice: on a corner it is
  that corner's value, and everywhere it stays within the 16-bit range of the corners, so that the products
  of the height formula cannot leave 32 bits.\<close>

theorem noise_interpolates:
  assumes "0 < scale"
  shows "noise s (cx * scale) (cz * scale) scale = lattice s cx cz \<and>
    - 32768 \<le> noise s x z scale \<and> noise s x z scale \<le> 32767 \<and>
    - (2 ^ 31) \<le> noise s x z scale * 30 \<and> noise s x z scale * 30 < 2 ^ 31"
  using noise_corner [OF assms] noise_range [OF assms, of s x z] by simp

text \<open>C34. Generating a chunk never fails, for any seed, position and accepted sea level: no tree and no plant reaches
  outside the chunk or the world. The chunk is well formed, every column stands on bedrock and is at least
  five blocks tall, every height is exact though the generator sets heights by hand, and storing the chunk
  and reading it back gives it again.\<close>

theorem generate_terrain:
  "case new_generator settings of
     Inl e \<Rightarrow> sea_level settings < min_build_y \<or> max_build_y \<le> sea_level settings
   | Inr g \<Rightarrow> \<exists>c payload. generate g pos = Inr c \<and> position c = pos \<and> chunk_ok c \<and> heights_exact c \<and>
       list_all (\<lambda>(x, z). block_at c x min_build_y z = bedrock \<and>
         min_build_y + 5 \<le> heightmap c ! (z * 16 + x)) columns \<and>
       serialize_chunk c = Inr payload \<and> deserialize_chunk payload = Inr (c\<lparr>dirty := True\<rparr>)"
proof (cases "new_generator settings")
  case (Inr g)
  then have "sea_level g < max_build_y" by (simp add: new_generator_def split: if_splits)
  then obtain c where c: "generate g pos = Inr c" "grounded pos c" by (rule generate_grounded)
  then have ok: "chunk_ok c" "heights_exact c" "position c = pos"
    using grounded_heights by (simp_all add: grounded_def)
  have "list_all (\<lambda>(x, z). block_at c x min_build_y z = bedrock \<and> min_build_y + 5 \<le> top_of c x z) columns"
    unfolding list_all_iff using c(2) columns_bounds by (fastforce simp: grounded_def column_done_def)
  moreover obtain payload where "serialize_chunk c = Inr payload" "deserialize_chunk payload = Inr (c\<lparr>dirty := True\<rparr>)"
    using serialize_chunk_img [OF ok(1)] deserialize_chunk_img [OF ok(1) heights_exact_cover [OF ok(2)]] by blast
  ultimately show ?thesis using Inr c(1) ok by auto
qed (auto simp: new_generator_def split: if_splits)

theorem noise_interpolates_witness:
  "noise 7 (3 * 32) (5 * 32) 32 = lattice 7 3 5 \<and> noise 7 (- 11) 1000 32 \<le> 32767"
  using noise_interpolates [of 32 7 3 5 "- 11" 1000] by (simp del: mult_numeral_left)

end
