(* ===== verification/Chunk_Cache.thy ===== *)
theory Chunk_Cache
  imports Region Generation "HOL-Library.AList"
begin

text \<open>
  The chunk manager (class ChunkManager of include/mc/world/world.hpp and
  src/world/world.cpp): the loaded chunks, kept up to a limit; who holds them;
  the storage behind them.

  A loaded chunk is one object, which the cache and its holders share: the
  object is the entry's chunk, its holders are counted, and a holder works on
  it through the entry. The cache is an association list whose order stands for
  the iteration order of the source's hash map; no property depends on it. The
  storage is a state \<open>'s\<close> with its two operations as arguments, so that the
  lemmas below rest on the laws of \<open>chunk_storage\<close> alone. An operation that
  throws has no state in the model.
\<close>

section \<open>The cache\<close>

record cache_entry =
  entry_chunk :: chunk
  last_access :: u64
  holders :: nat

record 's chunk_manager =
  generator :: generation_settings
  max_loaded_chunks :: nat
  disk :: "'s option"
  cached :: "(chunk_position \<times> cache_entry) list"
  access_counter :: u64

type_synonym 's loader = "'s \<Rightarrow> chunk_position \<Rightarrow> (chunk option \<times> 's) result"
type_synonym 's saver = "'s \<Rightarrow> chunk \<Rightarrow> 's result"

definition new_chunk_manager :: "generation_settings \<Rightarrow> nat \<Rightarrow> 's option \<Rightarrow> 's chunk_manager result" where
  "new_chunk_manager g limit storage =
     (if limit = 0 then Inl (Invalid_Argument ''maximum loaded chunk count must be positive'')
      else Inr \<lparr>generator = g, max_loaded_chunks = limit, disk = storage, cached = [], access_counter = 0\<rparr>)"

definition save_entry :: "'s saver \<Rightarrow> cache_entry \<Rightarrow> 's option \<Rightarrow> (cache_entry \<times> 's option) result" where
  "save_entry save e storage =
     (case storage of
        None \<Rightarrow> Inr (e, storage)
      | Some s \<Rightarrow>
          if dirty (entry_chunk e)
          then bindR (save s (entry_chunk e)) (\<lambda>s. Inr (e\<lparr>entry_chunk := mark_saved (entry_chunk e)\<rparr>, Some s))
          else Inr (e, storage))"

text \<open>The entry nobody holds that was used the longest time ago.\<close>

fun oldest_unheld :: "(chunk_position \<times> cache_entry) option \<Rightarrow> u64 \<Rightarrow> (chunk_position \<times> cache_entry) list \<Rightarrow>
    (chunk_position \<times> cache_entry) option" where
  "oldest_unheld oldest access [] = oldest"
| "oldest_unheld oldest access ((pos, e) # rest) =
     (if holders e = 0 \<and> last_access e < access then oldest_unheld (Some (pos, e)) (last_access e) rest
      else oldest_unheld oldest access rest)"

lemma oldest_unheld_in:
  "oldest_unheld oldest access es = Some (pos, e) \<Longrightarrow>
   oldest = Some (pos, e) \<or> (pos, e) \<in> set es \<and> holders e = 0"
  by (induction oldest access es rule: oldest_unheld.induct) (auto split: if_splits)

function evict_to_limit :: "'s saver \<Rightarrow> 's chunk_manager \<Rightarrow> 's chunk_manager result" where
  "evict_to_limit save m =
     (if length (cached m) \<le> max_loaded_chunks m then Inr m
      else case oldest_unheld None (- 1) (cached m) of
        None \<Rightarrow> Inr m
      | Some (pos, e) \<Rightarrow>
          bindR (save_entry save e (disk m)) (\<lambda>(e, storage).
          evict_to_limit save (m\<lparr>disk := storage, cached := AList.delete pos (cached m)\<rparr>)))"
  by pat_completeness auto

lemma delete_shorter: "(pos, e) \<in> set es \<Longrightarrow> length (AList.delete pos es) < length es"
  unfolding AList.delete_eq by (rule length_filter_less [of "(pos, e)"]) auto

termination evict_to_limit
  by (relation "measure (\<lambda>(save, m). length (cached m))")
    (auto dest!: oldest_unheld_in intro: delete_shorter)

declare evict_to_limit.simps [simp del]

text \<open>The chunk for a position that is not loaded: from the storage, or generated and stored.\<close>

definition fetch_chunk :: "'s loader \<Rightarrow> 's saver \<Rightarrow> 's chunk_manager \<Rightarrow> chunk_position \<Rightarrow> (chunk \<times> 's option) result" where
  "fetch_chunk load save m pos =
     (case disk m of
        None \<Rightarrow> bindR (generate (generator m) pos) (\<lambda>c. Inr (c, None))
      | Some s \<Rightarrow> bindR (load s pos) (\<lambda>(loaded, s).
          case loaded of
            Some c \<Rightarrow> Inr (c, Some s)
          | None \<Rightarrow> bindR (generate (generator m) pos) (\<lambda>c. bindR (save s c) (\<lambda>s. Inr (c, Some s)))))"

definition cache_load :: "'s loader \<Rightarrow> 's saver \<Rightarrow> 's chunk_manager \<Rightarrow> chunk_position \<Rightarrow>
    (chunk \<times> 's chunk_manager) result" where
  "cache_load load save m pos =
     (let access = access_counter m + 1 in
      case map_of (cached m) pos of
        Some e \<Rightarrow> Inr (entry_chunk e,
          m\<lparr>cached := AList.update pos (e\<lparr>last_access := access, holders := holders e + 1\<rparr>) (cached m),
            access_counter := access\<rparr>)
      | None \<Rightarrow> bindR (fetch_chunk load save m pos) (\<lambda>(c, storage).
          let c = mark_saved c in
          bindR (evict_to_limit save (m\<lparr>disk := storage,
              cached := AList.update pos \<lparr>entry_chunk = c, last_access = access, holders = 1\<rparr> (cached m),
              access_counter := access\<rparr>)) (\<lambda>m.
          Inr (c, m))))"

text \<open>What a holder does: change the shared chunk, and let it go.\<close>

definition store_chunk :: "chunk_position \<Rightarrow> chunk \<Rightarrow> 's chunk_manager \<Rightarrow> 's chunk_manager" where
  "store_chunk pos c m = m\<lparr>cached := AList.map_entry pos (\<lambda>e. e\<lparr>entry_chunk := c\<rparr>) (cached m)\<rparr>"

definition release :: "chunk_position \<Rightarrow> 's chunk_manager \<Rightarrow> 's chunk_manager" where
  "release pos m = m\<lparr>cached := AList.map_entry pos (\<lambda>e. e\<lparr>holders := holders e - 1\<rparr>) (cached m)\<rparr>"

definition unload :: "'s saver \<Rightarrow> 's chunk_manager \<Rightarrow> chunk_position \<Rightarrow> (bool \<times> 's chunk_manager) result" where
  "unload save m pos =
     (case map_of (cached m) pos of
        None \<Rightarrow> Inr (False, m)
      | Some e \<Rightarrow>
          if holders e \<noteq> 0 then Inr (False, m)
          else bindR (save_entry save e (disk m)) (\<lambda>(e, storage).
            Inr (True, m\<lparr>disk := storage, cached := AList.delete pos (cached m)\<rparr>)))"

fun save_entries :: "'s saver \<Rightarrow> (chunk_position \<times> cache_entry) list \<Rightarrow> 's option \<Rightarrow>
    (nat \<times> (chunk_position \<times> cache_entry) list \<times> 's option) result" where
  "save_entries save [] storage = Inr (0, [], storage)"
| "save_entries save ((pos, e) # rest) storage =
     (if dirty (entry_chunk e)
      then bindR (save_entry save e storage) (\<lambda>(e, storage).
        bindR (save_entries save rest storage) (\<lambda>(saved, rest, storage). Inr (saved + 1, (pos, e) # rest, storage)))
      else bindR (save_entries save rest storage) (\<lambda>(saved, rest, storage). Inr (saved, (pos, e) # rest, storage)))"

definition save_dirty :: "'s saver \<Rightarrow> 's chunk_manager \<Rightarrow> (nat \<times> 's chunk_manager) result" where
  "save_dirty save m =
     (case disk m of
        None \<Rightarrow> Inr (0, m)
      | Some _ \<Rightarrow> bindR (save_entries save (cached m) (disk m)) (\<lambda>(saved, entries, storage).
          Inr (saved, m\<lparr>disk := storage, cached := entries\<rparr>)))"

definition loaded_count :: "'s chunk_manager \<Rightarrow> nat" where
  "loaded_count m = length (cached m)"


section \<open>What the manager stands for\<close>

text \<open>The chunk every position has, loaded or not; flags aside.\<close>

definition fresh_chunk :: "generation_settings \<Rightarrow> chunk_position \<Rightarrow> chunk" where
  "fresh_chunk g pos = (case generate g pos of Inr c \<Rightarrow> mark_saved c | Inl _ \<Rightarrow> new_chunk pos)"

definition unloaded_view :: "('s \<Rightarrow> chunk_position \<Rightarrow> chunk option) \<Rightarrow> generation_settings \<Rightarrow> 's option \<Rightarrow> chunk_position \<Rightarrow> chunk" where
  "unloaded_view view g storage pos =
     (case storage of
        None \<Rightarrow> fresh_chunk g pos
      | Some s \<Rightarrow> (case view s pos of Some c \<Rightarrow> mark_saved c | None \<Rightarrow> fresh_chunk g pos))"

definition manager_view :: "('s \<Rightarrow> chunk_position \<Rightarrow> chunk option) \<Rightarrow> 's chunk_manager \<Rightarrow> chunk_position \<Rightarrow> chunk" where
  "manager_view view m pos =
     (case map_of (cached m) pos of
        Some e \<Rightarrow> mark_saved (entry_chunk e)
      | None \<Rightarrow> unloaded_view view (generator m) (disk m) pos)"

definition sound_chunk :: "chunk_position \<Rightarrow> chunk \<Rightarrow> bool" where
  "sound_chunk pos c = (chunk_ok c \<and> heights_cover c \<and> position c = pos)"

text \<open>An entry that is not dirty is what would be loaded again in its place.\<close>

definition manager_ok :: "('s \<Rightarrow> bool) \<Rightarrow> ('s \<Rightarrow> chunk_position \<Rightarrow> chunk option) \<Rightarrow> 's chunk_manager \<Rightarrow> bool" where
  "manager_ok ok view m =
     (sea_level (generator m) < max_build_y \<and> (case disk m of None \<Rightarrow> True | Some s \<Rightarrow> ok s) \<and>
      distinct (map fst (cached m)) \<and>
      (\<forall>pos e. map_of (cached m) pos = Some e \<longrightarrow> sound_chunk pos (entry_chunk e) \<and>
        (\<not> dirty (entry_chunk e) \<longrightarrow> unloaded_view view (generator m) (disk m) pos = mark_saved (entry_chunk e))))"

lemma sound_mark_saved [simp]: "sound_chunk pos (mark_saved c) = sound_chunk pos c"
  by (simp add: sound_chunk_def mark_saved_def chunk_ok_def heights_cover_def block_at_def)

lemma mark_saved_simps [simp]: "\<not> dirty (mark_saved c)" "mark_saved (mark_saved c) = mark_saved c"
  "mark_saved (c\<lparr>dirty := d\<rparr>) = mark_saved c" "block_at (mark_saved c) = block_at c"
  "heightmap (mark_saved c) = heightmap c" "biomes (mark_saved c) = biomes c"
  by (simp_all add: mark_saved_def block_at_def fun_eq_iff)

lemma generate_sound:
  assumes "sea_level g < max_build_y"
  obtains c where "generate g pos = Inr c" "sound_chunk pos c" "fresh_chunk g pos = mark_saved c"
proof -
  obtain c where c: "generate g pos = Inr c" "grounded pos c" using generate_grounded [OF assms] by blast
  then have "sound_chunk pos c"
    using heights_exact_cover [OF grounded_heights [OF c(2)]] by (simp add: sound_chunk_def grounded_def)
  with c that show ?thesis by (simp add: fresh_chunk_def)
qed

context chunk_storage
begin

lemma save_entry_view:
  assumes "save_entry save e storage = Inr (e', storage')" and "sound_chunk pos (entry_chunk e)"
    and "case storage of None \<Rightarrow> True | Some s \<Rightarrow> ok s"
    and "\<not> dirty (entry_chunk e) \<Longrightarrow> unloaded_view view g storage pos = mark_saved (entry_chunk e)"
  shows "(case storage' of None \<Rightarrow> True | Some s \<Rightarrow> ok s) \<and> (storage' = None \<longleftrightarrow> storage = None) \<and>
    mark_saved (entry_chunk e') = mark_saved (entry_chunk e) \<and> holders e' = holders e \<and>
    (storage \<noteq> None \<longrightarrow> \<not> dirty (entry_chunk e') \<and>
      unloaded_view view g storage' = (unloaded_view view g storage)(pos := mark_saved (entry_chunk e))) \<and>
    (storage = None \<longrightarrow> e' = e \<and> storage' = storage)"
proof (cases storage)
  case (Some s)
  show ?thesis
  proof (cases "dirty (entry_chunk e)")
    case True
    obtain s' where s': "save s (entry_chunk e) = Inr s'" "storage' = Some s'"
      "e' = e\<lparr>entry_chunk := mark_saved (entry_chunk e)\<rparr>"
      using assms(1) Some True by (auto simp: save_entry_def bindR_Inr_iff)
    have "ok s' \<and> view s' = (view s)(pos \<mapsto> (entry_chunk e)\<lparr>dirty := True\<rparr>)"
      using save_view [of s "entry_chunk e" s'] assms(2,3) s'(1) Some by (simp add: sound_chunk_def)
    then show ?thesis using s' Some by (auto simp: unloaded_view_def fun_eq_iff)
  next
    case False
    then show ?thesis using assms Some by (auto simp: save_entry_def fun_eq_iff)
  qed
qed (use assms in \<open>simp add: save_entry_def\<close>)

text \<open>Writing an entry to the storage changes neither what it nor what any other position stands for.\<close>

lemma save_entry_manager:
  assumes "manager_ok ok view m" and "map_of (cached m) pos = Some e" and "disk m \<noteq> None"
    and "save_entry save e (disk m) = Inr (e', storage)"
  shows "manager_ok ok view (m\<lparr>disk := storage\<rparr>) \<and> manager_view view (m\<lparr>disk := storage\<rparr>) = manager_view view m \<and>
    unloaded_view view (generator m) storage pos = mark_saved (entry_chunk e) \<and> storage \<noteq> None \<and>
    \<not> dirty (entry_chunk e') \<and> mark_saved (entry_chunk e') = mark_saved (entry_chunk e)"
proof -
  have e: "sound_chunk pos (entry_chunk e)" "\<not> dirty (entry_chunk e) \<Longrightarrow>
      unloaded_view view (generator m) (disk m) pos = mark_saved (entry_chunk e)"
    and ok: "case disk m of None \<Rightarrow> True | Some s \<Rightarrow> ok s" "distinct (map fst (cached m))"
    using assms(1,2) by (simp_all add: manager_ok_def)
  note v = save_entry_view [OF assms(4) e(1) ok(1) e(2)]
  have "manager_ok ok view (m\<lparr>disk := storage\<rparr>)"
    unfolding manager_ok_def
  proof (intro conjI allI impI)
    fix p d assume p: "map_of (cached (m\<lparr>disk := storage\<rparr>)) p = Some d"
    then show "sound_chunk p (entry_chunk d)" using assms(1) by (simp add: manager_ok_def)
    assume "\<not> dirty (entry_chunk d)"
    then show "unloaded_view view (generator (m\<lparr>disk := storage\<rparr>)) (disk (m\<lparr>disk := storage\<rparr>)) p = mark_saved (entry_chunk d)"
      using v assms(1-3) p by (cases "p = pos") (simp_all add: manager_ok_def)
  qed (use assms(1) ok v in \<open>simp_all add: manager_ok_def\<close>)
  moreover have "manager_view view (m\<lparr>disk := storage\<rparr>) = manager_view view m"
    using v assms(2,3) by (auto simp: manager_view_def fun_eq_iff split: option.splits)
  ultimately show ?thesis using v assms(3) by simp
qed

text \<open>An entry that is not dirty can be dropped.\<close>

lemma drop_entry_manager:
  assumes "manager_ok ok view m"
    and "\<And>e. map_of (cached m) pos = Some e \<Longrightarrow> unloaded_view view (generator m) (disk m) pos = mark_saved (entry_chunk e)"
  shows "manager_ok ok view (m\<lparr>cached := AList.delete pos (cached m)\<rparr>) \<and>
    manager_view view (m\<lparr>cached := AList.delete pos (cached m)\<rparr>) = manager_view view m"
  using assms
  by (auto simp: manager_ok_def manager_view_def fun_eq_iff delete_conv' distinct_delete split: option.splits if_splits)

lemma evict_entry_manager:
  assumes "manager_ok ok view m" and "map_of (cached m) pos = Some e" and "disk m \<noteq> None"
    and "save_entry save e (disk m) = Inr (e', storage)"
  shows "manager_ok ok view (m\<lparr>disk := storage, cached := AList.delete pos (cached m)\<rparr>) \<and>
    manager_view view (m\<lparr>disk := storage, cached := AList.delete pos (cached m)\<rparr>) = manager_view view m \<and> storage \<noteq> None"
proof -
  note s = save_entry_manager [OF assms]
  then show ?thesis using drop_entry_manager [of "m\<lparr>disk := storage\<rparr>" pos] assms(2) by simp
qed

lemma evict_to_limit_manager:
  "evict_to_limit save m = Inr m' \<Longrightarrow> manager_ok ok view m \<Longrightarrow> disk m \<noteq> None \<Longrightarrow>
   manager_ok ok view m' \<and> manager_view view m' = manager_view view m \<and> disk m' \<noteq> None \<and>
   generator m' = generator m \<and> (\<forall>pos e. map_of (cached m) pos = Some e \<longrightarrow> holders e \<noteq> 0 \<longrightarrow> map_of (cached m') pos = Some e)"
proof (induction "length (cached m)" arbitrary: m rule: less_induct)
  case less
  show ?case
  proof (cases "length (cached m) \<le> max_loaded_chunks m \<or> oldest_unheld None (- 1) (cached m) = None")
    case True
    then have "m' = m" using less.prems(1) by (subst (asm) evict_to_limit.simps) (auto split: if_splits)
    then show ?thesis using less.prems by simp
  next
    case False
    then obtain pos e where o: "oldest_unheld None (- 1) (cached m) = Some (pos, e)" by auto
    from oldest_unheld_in [OF o] have i: "(pos, e) \<in> set (cached m)" "holders e = 0" by simp_all
    have mo: "map_of (cached m) pos = Some e" using i(1) less.prems(2) by (simp add: manager_ok_def)
    obtain e' storage where s: "save_entry save e (disk m) = Inr (e', storage)"
      "evict_to_limit save (m\<lparr>disk := storage, cached := AList.delete pos (cached m)\<rparr>) = Inr m'"
      using less.prems(1) False o by (subst (asm) evict_to_limit.simps) (auto simp: bindR_Inr_iff)
    note v = evict_entry_manager [OF less.prems(2) mo less.prems(3) s(1)]
    have l: "length (cached (m\<lparr>disk := storage, cached := AList.delete pos (cached m)\<rparr>)) < length (cached m)"
      using delete_shorter [OF i(1)] by simp
    have "map_of (AList.delete pos (cached m)) p = Some d" if "map_of (cached m) p = Some d" "holders d \<noteq> 0" for p d
      using that mo i(2) by (auto simp: delete_conv')
    then show ?thesis using less.hyps [OF l s(2)] v by simp
  qed
qed

lemma fetch_chunk_view:
  assumes "fetch_chunk load save m pos = Inr (c, storage)" and "manager_ok ok view m" and "disk m \<noteq> None"
  shows "sound_chunk pos c \<and> (case storage of None \<Rightarrow> False | Some s \<Rightarrow> ok s) \<and>
    unloaded_view view (generator m) storage = unloaded_view view (generator m) (disk m) \<and>
    mark_saved c = unloaded_view view (generator m) (disk m) pos"
proof -
  obtain s where s: "disk m = Some s" "ok s" "sea_level (generator m) < max_build_y"
    using assms(2,3) by (auto simp: manager_ok_def)
  obtain s1 where s1: "load s pos = Inr (view s pos, s1)" "ok s1" "view s1 = view s" using load_view [OF s(2)] by blast
  show ?thesis
  proof (cases "view s pos")
    case (Some d)
    then have "c = d" "storage = Some s1" using assms(1) s(1) s1(1) by (auto simp: fetch_chunk_def)
    then show ?thesis
      using view_chunk [OF s(2) Some] Some s(1) s1 by (simp add: unloaded_view_def fun_eq_iff sound_chunk_def)
  next
    case None
    obtain g where g: "generate (generator m) pos = Inr g" "sound_chunk pos g" "fresh_chunk (generator m) pos = mark_saved g"
      using generate_sound [OF s(3)] by blast
    obtain s2 where s2: "save s1 g = Inr s2" "c = g" "storage = Some s2"
      using assms(1) s(1) s1(1) None g(1) by (auto simp: fetch_chunk_def bindR_Inr_iff)
    have "ok s2 \<and> view s2 = (view s)(pos \<mapsto> g\<lparr>dirty := True\<rparr>)"
      using save_view [OF s1(2) _ _ s2(1)] g(2) s1(3) by (simp add: sound_chunk_def)
    then show ?thesis using s2(2,3) g None s(1) by (auto simp: unloaded_view_def fun_eq_iff)
  qed
qed

lemma cache_load_view:
  assumes "cache_load load save m pos = Inr (c, m')" and "manager_ok ok view m" and "disk m \<noteq> None"
  shows "manager_ok ok view m' \<and> manager_view view m' = manager_view view m \<and> disk m' \<noteq> None \<and>
    generator m' = generator m \<and> mark_saved c = manager_view view m pos \<and>
    (\<exists>e. map_of (cached m') pos = Some e \<and> entry_chunk e = c)"
proof (cases "map_of (cached m) pos")
  case (Some e)
  then have "c = entry_chunk e" "m' = m\<lparr>cached := AList.update pos (e\<lparr>last_access := access_counter m + 1,
      holders := holders e + 1\<rparr>) (cached m), access_counter := access_counter m + 1\<rparr>"
    using assms(1) by (simp_all add: cache_load_def Let_def)
  then show ?thesis using assms(2,3) Some
    by (auto simp: manager_ok_def manager_view_def fun_eq_iff update_conv' distinct_update split: option.splits)
next
  case None
  obtain d storage where f: "fetch_chunk load save m pos = Inr (d, storage)"
    using assms(1) None by (auto simp: cache_load_def Let_def bindR_Inr_iff)
  define e where "e = \<lparr>entry_chunk = mark_saved d, last_access = access_counter m + 1, holders = 1\<rparr>"
  define m1 where "m1 = m\<lparr>disk := storage, cached := AList.update pos e (cached m), access_counter := access_counter m + 1\<rparr>"
  have m1: "evict_to_limit save m1 = Inr m'" "c = mark_saved d"
    using assms(1) None f by (auto simp: cache_load_def Let_def bindR_Inr_iff m1_def e_def)
  note v = fetch_chunk_view [OF f assms(2,3)]
  have up: "map_of (cached m1) = (map_of (cached m))(pos \<mapsto> e)" by (simp add: m1_def update_conv')
  have e: "sound_chunk pos (entry_chunk e)" "unloaded_view view (generator m) (disk m) pos = mark_saved (entry_chunk e)"
  proof -
    have "sound_chunk pos d" and u: "unloaded_view view (generator m) (disk m) pos = mark_saved d" using v by simp_all
    then show "sound_chunk pos (entry_chunk e)" "unloaded_view view (generator m) (disk m) pos = mark_saved (entry_chunk e)"
      by (simp_all add: e_def)
  qed
  have same: "unloaded_view view (generator m1) (disk m1) = unloaded_view view (generator m) (disk m)"
    "case disk m1 of None \<Rightarrow> True | Some s \<Rightarrow> ok s" "generator m1 = generator m" "distinct (map fst (cached m1))"
    using v assms(2) by (auto simp: m1_def manager_ok_def distinct_update split: option.splits)
  have "manager_ok ok view m1"
    unfolding manager_ok_def up same(1) using assms(2) e same(2-4) by (auto simp: manager_ok_def)
  moreover have "manager_view view m1 = manager_view view m"
    unfolding manager_view_def up same(1) using None e by (auto simp: fun_eq_iff)
  moreover have "disk m1 \<noteq> None" "generator m1 = generator m" using v by (auto simp: m1_def split: option.splits)
  moreover have "mark_saved c = manager_view view m pos"
  proof -
    have "unloaded_view view (generator m) (disk m) pos = mark_saved d" using v by simp
    then show ?thesis using None m1(2) by (simp add: manager_view_def)
  qed
  moreover have "map_of (cached m1) pos = Some e" "holders e \<noteq> 0" "entry_chunk e = c"
    using up m1(2) by (simp_all add: e_def)
  ultimately show ?thesis
    using evict_to_limit_manager [OF m1(1)] by metis
qed

lemma store_chunk_view:
  assumes "manager_ok ok view m" and "map_of (cached m) pos = Some e" and "sound_chunk pos c"
    and "\<not> dirty c \<longrightarrow> c = entry_chunk e"
  shows "manager_ok ok view (store_chunk pos c m) \<and>
    manager_view view (store_chunk pos c m) = (manager_view view m)(pos := mark_saved c)"
  using assms
  by (auto simp: manager_ok_def manager_view_def store_chunk_def map_of_map_entry distinct_map_entry fun_eq_iff split: option.splits)

lemma release_view:
  assumes "manager_ok ok view m"
  shows "manager_ok ok view (release pos m) \<and> manager_view view (release pos m) = manager_view view m"
  using assms
  by (auto simp: manager_ok_def manager_view_def release_def map_of_map_entry distinct_map_entry fun_eq_iff split: option.splits)

lemma unload_view:
  assumes "unload save m pos = Inr (done', m')" and "manager_ok ok view m" and "disk m \<noteq> None"
  shows "manager_ok ok view m' \<and> manager_view view m' = manager_view view m \<and> disk m' \<noteq> None \<and> generator m' = generator m"
proof (cases "map_of (cached m) pos")
  case (Some e)
  show ?thesis
  proof (cases "holders e = 0")
    case True
    then obtain e' storage where "save_entry save e (disk m) = Inr (e', storage)"
      "m' = m\<lparr>disk := storage, cached := AList.delete pos (cached m)\<rparr>"
      using assms(1) Some by (auto simp: unload_def bindR_Inr_iff)
    then show ?thesis using evict_entry_manager [OF assms(2) Some assms(3)] by simp
  qed (use assms Some in \<open>auto simp: unload_def\<close>)
qed (use assms in \<open>auto simp: unload_def\<close>)

text \<open>The pass that saves every dirty entry, over any part of the cache.\<close>

lemma save_entries_view:
  assumes "save_entries save es (Some s) = Inr (n, es', storage)" and "ok s" and "distinct (map fst es)"
    and "\<forall>(pos, e) \<in> set es. sound_chunk pos (entry_chunk e) \<and>
      (\<not> dirty (entry_chunk e) \<longrightarrow> unloaded_view view g (Some s) pos = mark_saved (entry_chunk e))"
  shows "(\<exists>s'. storage = Some s' \<and> ok s') \<and> map fst es' = map fst es \<and> n = length (filter (\<lambda>(pos, e). dirty (entry_chunk e)) es) \<and>
    (\<forall>pos. map_of es' pos = map_option (\<lambda>e. e\<lparr>entry_chunk := mark_saved (entry_chunk e)\<rparr>) (map_of es pos)) \<and>
    (\<forall>pos. unloaded_view view g storage pos =
      (case map_of es pos of None \<Rightarrow> unloaded_view view g (Some s) pos | Some e \<Rightarrow> mark_saved (entry_chunk e)))"
  using assms
proof (induction es arbitrary: s n es' storage)
  case (Cons p es)
  obtain pos e where p: "p = (pos, e)" by (cases p)
  have e: "sound_chunk pos (entry_chunk e)"
    "\<not> dirty (entry_chunk e) \<Longrightarrow> unloaded_view view g (Some s) pos = mark_saved (entry_chunk e)"
    using Cons.prems(4) p by auto
  have "\<exists>s1 e1 n1 es1. save_entry save e (Some s) = Inr (e1, Some s1) \<and> save_entries save es (Some s1) = Inr (n1, es1, storage) \<and>
      es' = (pos, e1) # es1 \<and> n = n1 + (if dirty (entry_chunk e) then 1 else 0) \<and>
      e1 = e\<lparr>entry_chunk := mark_saved (entry_chunk e)\<rparr>"
    using Cons.prems(1) p by (auto simp: bindR_Inr_iff save_entry_def mark_saved_def split: if_splits)
  then obtain s1 e1 n1 es1 where s1: "save_entry save e (Some s) = Inr (e1, Some s1)"
    "save_entries save es (Some s1) = Inr (n1, es1, storage)" "es' = (pos, e1) # es1"
    "n = n1 + (if dirty (entry_chunk e) then 1 else 0)" "e1 = e\<lparr>entry_chunk := mark_saved (entry_chunk e)\<rparr>" by blast
  have v: "ok s1" "unloaded_view view g (Some s1) = (unloaded_view view g (Some s))(pos := mark_saved (entry_chunk e))"
    using save_entry_view [OF s1(1) e(1) _ e(2)] Cons.prems(2) by simp_all
  have other: "\<forall>(p, d) \<in> set es. p \<noteq> pos" using Cons.prems(3) p by (force simp: image_iff)
  then have "\<forall>(p, d) \<in> set es. sound_chunk p (entry_chunk d) \<and>
      (\<not> dirty (entry_chunk d) \<longrightarrow> unloaded_view view g (Some s1) p = mark_saved (entry_chunk d))"
    using Cons.prems(4) unfolding v(2) by auto
  with Cons.IH [OF s1(2) v(1)] Cons.prems(3) p have IH:
    "\<exists>s'. storage = Some s' \<and> ok s'" "map fst es1 = map fst es" "n1 = length (filter (\<lambda>(pos, e). dirty (entry_chunk e)) es)"
    "\<And>p. map_of es1 p = map_option (\<lambda>e. e\<lparr>entry_chunk := mark_saved (entry_chunk e)\<rparr>) (map_of es p)"
    "\<And>p. unloaded_view view g storage p =
      (case map_of es p of None \<Rightarrow> unloaded_view view g (Some s1) p | Some e \<Rightarrow> mark_saved (entry_chunk e))"
    by simp_all
  have "map_of es pos = None" using other by (auto simp: map_of_eq_None_iff)
  then show ?case using IH s1(3-5) v(2) p by (auto split: option.splits)
qed simp

lemma save_dirty_view:
  assumes "save_dirty save m = Inr (n, m')" and "manager_ok ok view m" and "disk m \<noteq> None"
  shows "manager_ok ok view m' \<and> manager_view view m' = manager_view view m \<and> disk m' \<noteq> None \<and> generator m' = generator m \<and>
    n = length (filter (\<lambda>(pos, e). dirty (entry_chunk e)) (cached m)) \<and>
    unloaded_view view (generator m') (disk m') = manager_view view m"
proof -
  obtain s where s: "disk m = Some s" "ok s" using assms(2,3) by (auto simp: manager_ok_def)
  obtain es storage where sv: "save_entries save (cached m) (Some s) = Inr (n, es, storage)"
    "m' = m\<lparr>disk := storage, cached := es\<rparr>"
    using assms(1) s(1) by (auto simp: save_dirty_def bindR_Inr_iff)
  have d: "distinct (map fst (cached m))" using assms(2) by (simp add: manager_ok_def)
  have "\<forall>(pos, e) \<in> set (cached m). sound_chunk pos (entry_chunk e) \<and>
      (\<not> dirty (entry_chunk e) \<longrightarrow> unloaded_view view (generator m) (Some s) pos = mark_saved (entry_chunk e))"
    using assms(2) s(1) by (fastforce simp: manager_ok_def)
  from save_entries_view [OF sv(1) s(2) d this]
  have v: "\<exists>s'. storage = Some s' \<and> ok s'" "map fst es = map fst (cached m)"
    "n = length (filter (\<lambda>(pos, e). dirty (entry_chunk e)) (cached m))"
    "\<And>pos. map_of es pos = map_option (\<lambda>e. e\<lparr>entry_chunk := mark_saved (entry_chunk e)\<rparr>) (map_of (cached m) pos)"
    "\<And>pos. unloaded_view view (generator m) storage pos =
      (case map_of (cached m) pos of None \<Rightarrow> unloaded_view view (generator m) (Some s) pos | Some e \<Rightarrow> mark_saved (entry_chunk e))"
    by blast+
  have u: "unloaded_view view (generator m) storage = manager_view view m"
    using v(5) unfolding fun_eq_iff manager_view_def s(1) by simp
  have "manager_ok ok view m'"
    using assms(2) v(1,2,4,5) sv(2) by (auto simp: manager_ok_def)
  moreover have "manager_view view m' = manager_view view m"
    using v(4,5) sv(2) s(1) by (auto simp: manager_view_def fun_eq_iff split: option.splits)
  ultimately show ?thesis using v(1,3) u sv(2) by auto
qed

end

text \<open>The limit: above it only chunks that somebody holds are left.\<close>

lemma oldest_unheld_None:
  "oldest_unheld oldest access es = None \<longleftrightarrow> oldest = None \<and> (\<forall>(pos, e) \<in> set es. holders e = 0 \<longrightarrow> access \<le> last_access e)"
  by (induction oldest access es rule: oldest_unheld.induct) (auto simp: not_less)

lemma evict_to_limit_bound:
  "evict_to_limit save m = Inr m' \<Longrightarrow> max_loaded_chunks m' = max_loaded_chunks m \<and>
   (length (cached m') \<le> max_loaded_chunks m \<or> (\<forall>(pos, e) \<in> set (cached m'). holders e = 0 \<longrightarrow> last_access e = - 1))"
proof (induction "length (cached m)" arbitrary: m rule: less_induct)
  case less
  show ?case
  proof (cases "length (cached m) \<le> max_loaded_chunks m \<or> oldest_unheld None (- 1) (cached m) = None")
    case True
    then have "m' = m" using less.prems(1) by (subst (asm) evict_to_limit.simps) (auto split: if_splits)
    moreover have "a = - 1" if "- 1 \<le> a" for a :: u64 using that by (simp add: word_order.extremum_unique)
    ultimately show ?thesis using True by (fastforce simp: oldest_unheld_None)
  next
    case False
    then obtain pos e where o: "oldest_unheld None (- 1) (cached m) = Some (pos, e)" by auto
    then obtain e' storage where s:
      "evict_to_limit save (m\<lparr>disk := storage, cached := AList.delete pos (cached m)\<rparr>) = Inr m'"
      using less.prems(1) False by (subst (asm) evict_to_limit.simps) (auto simp: bindR_Inr_iff)
    have "length (cached (m\<lparr>disk := storage, cached := AList.delete pos (cached m)\<rparr>)) < length (cached m)"
      using oldest_unheld_in [OF o] by (auto intro: delete_shorter)
    from less.hyps [OF this s] show ?thesis by simp
  qed
qed

section \<open>Working on a loaded chunk\<close>

text \<open>What the callers of \<open>load\<close> do: hold the chunk, read or change it, let it go.\<close>

definition on_chunk :: "'s loader \<Rightarrow> 's saver \<Rightarrow> 's chunk_manager \<Rightarrow> chunk_position \<Rightarrow> (chunk \<Rightarrow> ('a \<times> chunk) result) \<Rightarrow>
    ('a \<times> 's chunk_manager) result" where
  "on_chunk load save m pos f =
     bindR (cache_load load save m pos) (\<lambda>(c, m).
     bindR (f c) (\<lambda>(r, c).
     Inr (r, release pos (store_chunk pos c m))))"

lemma chunk_set_block_same:
  assumes "chunk_ok c" "heights_cover c" and "chunk_set_block c x y z b = Inr c'" and "block_at c x y z = b"
  shows "c' = c"
proof -
  have r: "in_chunk (x, y, z)" using chunk_set_block_fails [of x y z c b] assms(3) by auto
  obtain s t where w: "section_set_block (sections c ! (nat (y - min_build_y) div 16)) x (nat (y - min_build_y) mod 16) z b = Inr s"
    "chunk_set_block c x y z b = Inr ((write_block c x y z b s)\<lparr>heightmap := (heightmap c)[z * 16 + x := t]\<rparr>)"
    "new_top (write_block c x y z b s) x z y (heightmap c ! (z * 16 + x)) (block_at c x y z) b t"
    using chunk_set_block_spec [OF assms(1) r] by blast
  have "\<not> (b \<noteq> air \<and> y > heightmap c ! (z * 16 + x))" using assms(2,4) r unfolding heights_cover_def by (meson not_le)
  then have t: "t = heightmap c ! (z * 16 + x)" using w(3) assms(4) by (auto simp: new_top_def split: if_splits)
  have "block_index x (nat (y - min_build_y) mod 16) z = Inr (cell x (nat (y - min_build_y) mod 16) z)"
    using r by (simp add: block_index_eq in_chunk_def)
  then have "s = sections c ! (nat (y - min_build_y) div 16)"
    using w(1) assms(4) by (auto simp: section_set_block_def Let_def block_at_def)
  then show ?thesis using w(2) assms(3,4) t by (simp add: write_block_def)
qed

lemma chunk_set_block_sound:
  assumes "sound_chunk pos c" and "chunk_set_block c x y z b = Inr c'"
  shows "sound_chunk pos c' \<and> (\<not> dirty c' \<longrightarrow> c' = c)"
proof -
  have ok: "chunk_ok c" "heights_cover c" "position c = pos" using assms(1) by (simp_all add: sound_chunk_def)
  have "sound_chunk pos c'"
    using chunk_set_block_ok [OF ok(1) assms(2)] chunk_set_block_cover [OF ok(1,2) assms(2)]
      chunk_set_block_position [OF assms(2)] ok(3) by (simp add: sound_chunk_def)
  moreover have "in_chunk (x, y, z)" using chunk_set_block_fails [of x y z c b] assms(2) by auto
  then have "block_at c x y z = b" if "\<not> dirty c'"
    using chunk_set_block_dirty [OF ok(1) assms(2)] that by (simp add: chunk_map_def)
  ultimately show ?thesis using chunk_set_block_same [OF ok(1,2) assms(2)] by blast
qed

text \<open>
  What \<open>f\<close> may do to a chunk: keep it sound, and flag it if it changes it.
\<close>

context chunk_storage
begin

lemma on_chunk_view:
  assumes "on_chunk load save m pos f = Inr (r, m')" and "manager_ok ok view m" and "disk m \<noteq> None"
    and "\<And>c r c'. f c = Inr (r, c') \<Longrightarrow> sound_chunk pos c \<Longrightarrow> sound_chunk pos c' \<and> (\<not> dirty c' \<longrightarrow> c' = c)"
  obtains c c' where "f c = Inr (r, c')" "sound_chunk pos c" "mark_saved c = manager_view view m pos"
    "manager_ok ok view m'" "manager_view view m' = (manager_view view m)(pos := mark_saved c')" "disk m' \<noteq> None"
    "generator m' = generator m"
proof -
  obtain c m1 c' where l: "cache_load load save m pos = Inr (c, m1)" "f c = Inr (r, c')"
    "m' = release pos (store_chunk pos c' m1)"
    using assms(1) by (auto simp: on_chunk_def bindR_Inr_iff)
  obtain e where v: "manager_ok ok view m1" "manager_view view m1 = manager_view view m" "disk m1 \<noteq> None"
    "generator m1 = generator m" "mark_saved c = manager_view view m pos" "map_of (cached m1) pos = Some e" "entry_chunk e = c"
    using cache_load_view [OF l(1) assms(2,3)] by blast
  have s: "sound_chunk pos c" using v(1,6,7) by (auto simp: manager_ok_def)
  from assms(4) [OF l(2) this] have "sound_chunk pos c' \<and> (\<not> dirty c' \<longrightarrow> c' = entry_chunk e)" by (simp add: v(7))
  then have st: "manager_ok ok view (store_chunk pos c' m1)"
    "manager_view view (store_chunk pos c' m1) = (manager_view view m)(pos := mark_saved c')"
    using store_chunk_view [OF v(1,6), of c'] v(2) by auto
  show ?thesis
    using that [OF l(2) s v(5)] release_view [OF st(1), of pos] st(2) v(3,4) l(3)
    by (simp add: release_def store_chunk_def)
qed

end

end
