(* ===== verification/Metadata.thy ===== *)
theory Metadata
  imports Region
begin

text \<open>
  The metadata of a level (\<open>LevelMetadata\<close>, \<open>load_metadata\<close> and \<open>save_metadata\<close>
  of src/world/storage.cpp): its byte form in two versions and the file
  level.mcd it is kept in.

  A \<open>std::map\<close> of strings is the list of its entries in key order. The two
  calls of \<open>consume_string\<close> that are the arguments of one \<open>emplace\<close> are not
  ordered by the language; \<open>left_first\<close> is the order the compiler chose.
\<close>

section \<open>Maps of strings\<close>

type_synonym string_map = "(string \<times> string) list"

text \<open>\<open>emplace\<close> keeps an entry that is there.\<close>

fun emplace :: "string \<Rightarrow> string \<Rightarrow> string_map \<Rightarrow> string_map" where
  "emplace k v [] = [(k, v)]"
| "emplace k v ((k', v') # es) =
     (if string_less k' k then (k', v') # emplace k v es
      else if string_less k k' then (k, v) # (k', v') # es
      else (k', v') # es)"

definition map_ok :: "string_map \<Rightarrow> bool" where
  "map_ok es = sorted_wrt string_less (map fst es)"

section \<open>Metadata\<close>

record level_metadata =
  data_version :: u32
  world_seed :: u64
  spawn :: block_position
  dimensions :: "resource_location list"
  game_rules :: string_map
  world_state :: string_map

definition current_data_version :: u32 where
  "current_data_version = 4903"

definition read_pair :: "bool \<Rightarrow> (string \<times> string) decoder" where
  "read_pair left_first =
     (if left_first
      then bindD consume_string (\<lambda>k. bindD consume_string (\<lambda>v. returnD (k, v)))
      else bindD consume_string (\<lambda>v. bindD consume_string (\<lambda>k. returnD (k, v))))"

definition read_map :: "bool \<Rightarrow> nat \<Rightarrow> string_map decoder" where
  "read_map left_first n = foldD (\<lambda>_ es. bindD (read_pair left_first) (\<lambda>(k, v). returnD (emplace k v es))) [0..<n] []"

definition read_dimensions :: "nat \<Rightarrow> resource_location list decoder" where
  "read_dimensions n = foldD (\<lambda>_ ds. bindD consume_string (\<lambda>s. liftD (bindR (parse_location s) (\<lambda>l. Inr (ds @ [l]))))) [0..<n] []"

definition read_metadata :: "bool \<Rightarrow> bool \<Rightarrow> level_metadata decoder" where
  "read_metadata left_first is_v2 =
     bindD consume_u32 (\<lambda>version.
     guardD (version > current_data_version) (Runtime_Error ''world data version is newer than this server'')
     (bindD consume_u64 (\<lambda>seed.
     bindD consume_u32 (\<lambda>x. bindD consume_u32 (\<lambda>y. bindD consume_u32 (\<lambda>z.
     bindD consume_u16 (\<lambda>dimension_count.
     guardD (dimension_count = 0 \<or> dimension_count > 64) (Runtime_Error ''level metadata dimension count is invalid'')
     (bindD (read_dimensions (unat dimension_count)) (\<lambda>ds.
     bindD consume_u16 (\<lambda>rule_count.
     guardD (rule_count > 1024) (Runtime_Error ''level metadata game rule count is invalid'')
     (bindD (read_map left_first (unat rule_count)) (\<lambda>rules.
     bindD (if is_v2
        then bindD consume_u16 (\<lambda>state_count.
          guardD (state_count > 1024) (Runtime_Error ''level metadata world-state count is invalid'')
          (read_map left_first (unat state_count)))
        else returnD []) (\<lambda>state.
     returnD \<lparr>data_version = version, world_seed = seed, spawn = \<lparr>pos_x = x, pos_y = y, pos_z = z\<rparr>,
       dimensions = ds, game_rules = rules, world_state = state\<rparr>)))))))))))))"

definition parse_metadata :: "bool \<Rightarrow> bytes \<Rightarrow> level_metadata result" where
  "parse_metadata left_first payload =
     (let is_v1 = take 4 payload = bytes_of ''MCL1''; is_v2 = take 4 payload = bytes_of ''MCL2'' in
      if \<not> is_v1 \<and> \<not> is_v2 then Inl (Runtime_Error ''level metadata is invalid or truncated'')
      else (case read_metadata left_first is_v2 (mk_reader (drop 4 payload)) of
         Inl e \<Rightarrow> Inl e
       | Inr (m, r) \<Rightarrow>
           if \<not> reader_empty r then Inl (Runtime_Error ''level metadata contains trailing data'')
           else Inr m))"

definition load_metadata :: "bool \<Rightarrow> level_storage \<Rightarrow> level_metadata option result" where
  "load_metadata left_first st =
     (case files st ''level.mcd'' of
        None \<Rightarrow> Inr None
      | Some payload \<Rightarrow> bindR (parse_metadata left_first payload) (\<lambda>m. Inr (Some m)))"

definition append_pair :: "string \<times> string \<Rightarrow> bytes \<Rightarrow> bytes result" where
  "append_pair = (\<lambda>(name, value) ou. bindR (append_string ou name) (\<lambda>ou. append_string ou value))"

definition serialize_metadata :: "level_metadata \<Rightarrow> bytes result" where
  "serialize_metadata m =
     (if data_version m > current_data_version \<or> dimensions m = [] \<or> length (dimensions m) > 64 \<or>
         length (game_rules m) > 1024 \<or> length (world_state m) > 1024
      then Inl (Invalid_Argument ''level metadata values are out of bounds'')
      else
        let ou = append_u64 (append_u32 (bytes_of ''MCL2'') (data_version m)) (world_seed m);
            ou = append_u32 (append_u32 (append_u32 ou (pos_x (spawn m))) (pos_y (spawn m))) (pos_z (spawn m)) in
        bindR (foldR (\<lambda>d ou. append_string ou (location_string d)) (dimensions m)
          (append_u16 ou (word_of_nat (length (dimensions m))))) (\<lambda>ou.
        bindR (foldR append_pair (game_rules m) (append_u16 ou (word_of_nat (length (game_rules m))))) (\<lambda>ou.
        foldR append_pair (world_state m) (append_u16 ou (word_of_nat (length (world_state m)))))))"

text \<open>The file is written under another name and then moved over the old one.\<close>

definition save_metadata :: "level_storage \<Rightarrow> level_metadata \<Rightarrow> level_storage result" where
  "save_metadata st m = bindR (serialize_metadata m) (\<lambda>payload.
     let written = (files st)(''level.mcd.tmp'' \<mapsto> payload) in
     Inr (st\<lparr>files := written(''level.mcd.tmp'' := None, ''level.mcd'' := written ''level.mcd.tmp'')\<rparr>))"

section \<open>Facts on maps\<close>

lemma emplace_last:
  "\<forall>e \<in> set es. string_less (fst e) k \<Longrightarrow> emplace k v es = es @ [(k, v)]"
  by (induction es) auto

lemma fold_emplace:
  "map_ok (es @ fs) \<Longrightarrow> fold (\<lambda>(k, v). emplace k v) fs es = es @ fs"
proof (induction fs arbitrary: es)
  case (Cons f fs)
  obtain k v where f: "f = (k, v)" by (cases f)
  have "\<forall>e \<in> set es. string_less (fst e) k" using Cons.prems by (auto simp: map_ok_def sorted_wrt_append f)
  with Cons.IH [of "es @ [f]"] Cons.prems f show ?case by (simp add: emplace_last)
qed simp

section \<open>The image of metadata\<close>

definition pair_img :: "string \<times> string \<Rightarrow> bytes" where
  "pair_img e = stored_string (fst e) @ stored_string (snd e)"

definition map_img :: "string_map \<Rightarrow> bytes" where
  "map_img es = be_bytes 2 (word_of_nat (length es) :: u16) @ concat (map pair_img es)"

definition metadata_body :: "level_metadata \<Rightarrow> bytes" where
  "metadata_body m = be_bytes 4 (data_version m) @ be_bytes 8 (world_seed m) @
     be_bytes 4 (pos_x (spawn m)) @ be_bytes 4 (pos_y (spawn m)) @ be_bytes 4 (pos_z (spawn m)) @
     be_bytes 2 (word_of_nat (length (dimensions m)) :: u16) @
     concat (map (\<lambda>d. stored_string (location_string d)) (dimensions m)) @ map_img (game_rules m)"

definition short_strings :: "string_map \<Rightarrow> bool" where
  "short_strings es = list_all (\<lambda>(k, v). length k \<le> 65535 \<and> length v \<le> 65535) es"

definition metadata_ok :: "level_metadata \<Rightarrow> bool" where
  "metadata_ok m = (data_version m \<le> current_data_version \<and> dimensions m \<noteq> [] \<and> length (dimensions m) \<le> 64 \<and>
     list_all (\<lambda>d. location_ok d \<and> length (location_string d) \<le> 65535) (dimensions m) \<and>
     length (game_rules m) \<le> 1024 \<and> length (world_state m) \<le> 1024 \<and>
     map_ok (game_rules m) \<and> map_ok (world_state m) \<and>
     short_strings (game_rules m) \<and> short_strings (world_state m))"

lemma foldR_append_pair:
  "short_strings es \<Longrightarrow> foldR append_pair es ou = Inr (ou @ concat (map pair_img es))"
  by (rule foldR_img) (auto simp: append_pair_def append_string_img pair_img_def short_strings_def list_all_iff)

lemma foldR_append_dimension:
  "list_all (\<lambda>d. location_ok d \<and> length (location_string d) \<le> 65535) ds \<Longrightarrow>
   foldR (\<lambda>d ou. append_string ou (location_string d)) ds ou =
     Inr (ou @ concat (map (\<lambda>d. stored_string (location_string d)) ds))"
  by (rule foldR_img) (auto simp: append_string_img list_all_iff)

lemma serialize_metadata_img:
  assumes "metadata_ok m"
  shows "serialize_metadata m = Inr (bytes_of ''MCL2'' @ metadata_body m @ map_img (world_state m))"
proof -
  have "\<not> (data_version m > current_data_version \<or> dimensions m = [] \<or> length (dimensions m) > 64 \<or>
      length (game_rules m) > 1024 \<or> length (world_state m) > 1024)"
    using assms by (auto simp: metadata_ok_def not_less)
  moreover have "short_strings (game_rules m)" "short_strings (world_state m)"
    "list_all (\<lambda>d. location_ok d \<and> length (location_string d) \<le> 65535) (dimensions m)"
    using assms by (simp_all add: metadata_ok_def)
  ultimately show ?thesis
    by (simp add: serialize_metadata_def Let_def append_img foldR_append_pair foldR_append_dimension metadata_body_def map_img_def)
qed

lemma reads_n_fold:
  assumes "\<And>x s. x \<in> set xs \<Longrightarrow> reads (f s) (img x) (g x s)"
  shows "reads (foldD (\<lambda>_ s. f s) [0..<length xs] s) (concat (map img xs)) (fold g xs s)"
proof -
  have "reads (foldD (\<lambda>_ s. f s) ns s) (concat (map img xs)) (fold g xs s)" if "length ns = length xs" for ns :: "nat list"
    using that assms
  proof (induction ns xs arbitrary: s rule: list_induct2)
    case Nil
    then show ?case by (simp add: reads_returnD)
  next
    case (Cons n ns x xs)
    have "reads (f s) (img x) (g x s)" using Cons.prems by simp
    with reads_bindD [OF this, of "foldD (\<lambda>_ s. f s) ns"] Cons show ?case by simp
  qed
  then show ?thesis by simp
qed

text \<open>
  What comes back from a saved map: the map itself, or, when the compiler reads
  the arguments of \<open>emplace\<close> from right to left, the map in which every name
  and its value are exchanged (of two equal values the first wins).
\<close>

definition exchanged :: "string_map \<Rightarrow> string_map" where
  "exchanged es = fold (\<lambda>(k, v). emplace v k) es []"

definition come_back_map :: "bool \<Rightarrow> string_map \<Rightarrow> string_map" where
  "come_back_map left_first es = (if left_first then es else exchanged es)"

definition come_back :: "bool \<Rightarrow> level_metadata \<Rightarrow> level_metadata" where
  "come_back left_first m =
     m\<lparr>game_rules := come_back_map left_first (game_rules m), world_state := come_back_map left_first (world_state m)\<rparr>"

lemma come_back_map_Nil [simp]: "come_back_map left_first [] = []"
  by (simp add: come_back_map_def exchanged_def)

lemma reads_pair:
  assumes "length k \<le> 65535" "length v \<le> 65535"
  shows "reads (read_pair left_first) (pair_img (k, v)) (if left_first then (k, v) else (v, k))"
proof -
  have "reads (bindD consume_string (\<lambda>k. bindD consume_string (\<lambda>v. returnD (f k v)))) (pair_img (k, v)) (f k v)" for f
    unfolding pair_img_def fst_conv snd_conv
    by (rule reads_bindD [OF reads_consume_string [OF assms(1)]],
        rule reads_map [OF reads_consume_string [OF assms(2)]]) simp
  from this [of "\<lambda>k v. if left_first then (k, v) else (v, k)"] show ?thesis
    by (cases left_first) (simp_all add: read_pair_def)
qed

lemma fold_come_back:
  "map_ok es \<Longrightarrow> fold (\<lambda>(k, v). if left_first then emplace k v else emplace v k) es [] = come_back_map left_first es"
  using fold_emplace [of "[]" es] by (cases left_first) (simp_all add: come_back_map_def exchanged_def)

lemma reads_read_map:
  assumes "map_ok es" and "short_strings es"
  shows "reads (read_map left_first (length es)) (concat (map pair_img es)) (come_back_map left_first es)"
proof -
  have "reads (foldD (\<lambda>_ es. bindD (read_pair left_first) (\<lambda>(k, v). returnD (emplace k v es))) [0..<length es] [])
      (concat (map pair_img es)) (fold (\<lambda>(k, v). if left_first then emplace k v else emplace v k) es [])"
  proof (rule reads_n_fold)
    fix e s assume e: "e \<in> set es"
    obtain k v where kv: "e = (k, v)" by (cases e)
    then have l: "length k \<le> 65535" "length v \<le> 65535" using e assms(2) by (auto simp: short_strings_def list_all_iff)
    show "reads (bindD (read_pair left_first) (\<lambda>(k, v). returnD (emplace k v s))) (pair_img e)
        ((\<lambda>(k, v). if left_first then emplace k v else emplace v k) e s)"
      using reads_bind_return [OF reads_pair [OF l, of left_first], of "\<lambda>(k, v). emplace k v s"]
      by (cases left_first) (simp_all add: kv split_def)
  qed
  then show ?thesis using fold_come_back [OF assms(1)] by (simp add: read_map_def)
qed

lemma reads_dimensions:
  assumes "list_all (\<lambda>d. location_ok d \<and> length (location_string d) \<le> 65535) ds"
  shows "reads (read_dimensions (length ds)) (concat (map (\<lambda>d. stored_string (location_string d)) ds)) ds"
proof -
  have "reads (foldD (\<lambda>_ s. bindD consume_string (\<lambda>t. liftD (bindR (parse_location t) (\<lambda>l. Inr (s @ [l]))))) [0..<length ds] [])
      (concat (map (\<lambda>d. stored_string (location_string d)) ds)) (fold (\<lambda>d s. s @ [d]) ds [])"
    by (rule reads_n_fold, rule reads_then_lift [OF reads_consume_string])
      (use assms in \<open>auto simp: list_all_iff parse_location_string\<close>)
  moreover have "fold (\<lambda>d s. s @ [d]) ds s = s @ ds" for s by (induction ds arbitrary: s) auto
  ultimately show ?thesis by (simp add: read_dimensions_def)
qed

lemma small_count:
  assumes "n \<le> 1024"
  shows "unat (word_of_nat n :: u16) = n" and "\<not> word_of_nat n > (1024 :: u16)"
proof -
  show u: "unat (word_of_nat n :: u16) = n" using assms by (intro unat_word_of_nat) simp
  then show "\<not> word_of_nat n > (1024 :: u16)" using assms by (simp add: word_less_nat_alt)
qed

lemma reads_counted_map:
  assumes "map_ok es" and "short_strings es" and "length es \<le> 1024"
  shows "reads (bindD consume_u16 (\<lambda>count. guardD (count > 1024) e (read_map left_first (unat count)))) (map_img es) (come_back_map left_first es)"
  unfolding map_img_def
  by (rule reads_bindD [OF reads_consume_u16], rule reads_guardD)
    (use small_count [OF assms(3)] reads_read_map [OF assms(1,2)] in simp_all)

lemma reads_bind_guard:
  "reads d bs v \<Longrightarrow> \<not> bad v \<Longrightarrow> reads (f v) cs y \<Longrightarrow> reads (bindD d (\<lambda>v. guardD (bad v) e (f v))) (bs @ cs) y"
  using reads_bindD [of d bs v "\<lambda>v. guardD (bad v) e (f v)" cs y] by (simp add: reads_guardD)

lemma reads_metadata:
  assumes "metadata_ok m" and "if is_v2 then tail = map_img (world_state m) else tail = [] \<and> world_state m = []"
  shows "reads (read_metadata left_first is_v2) (metadata_body m @ tail) (come_back left_first m)"
proof -
  have m: "data_version m \<le> current_data_version" "dimensions m \<noteq> []" "length (dimensions m) \<le> 64"
    "list_all (\<lambda>d. location_ok d \<and> length (location_string d) \<le> 65535) (dimensions m)"
    "length (game_rules m) \<le> 1024" "length (world_state m) \<le> 1024" "map_ok (game_rules m)" "map_ok (world_state m)"
    "short_strings (game_rules m)" "short_strings (world_state m)" using assms(1) by (simp_all add: metadata_ok_def)
  have c: "unat (word_of_nat (length (dimensions m)) :: u16) = length (dimensions m)"
    "\<not> (word_of_nat (length (dimensions m)) = (0 :: u16) \<or> word_of_nat (length (dimensions m)) > (64 :: u16))"
  proof -
    show u: "unat (word_of_nat (length (dimensions m)) :: u16) = length (dimensions m)"
      using m(3) by (intro unat_word_of_nat) simp
    then show "\<not> (word_of_nat (length (dimensions m)) = (0 :: u16) \<or> word_of_nat (length (dimensions m)) > (64 :: u16))"
      using m(2,3) by (auto simp: word_less_nat_alt dest: arg_cong [of _ _ unat])
  qed
  have state: "reads (bindD (if is_v2
        then bindD consume_u16 (\<lambda>state_count. guardD (state_count > 1024) e (read_map left_first (unat state_count)))
        else returnD []) (\<lambda>state. returnD (F state))) tail (F (come_back_map left_first (world_state m)))" for e and F :: "string_map \<Rightarrow> level_metadata"
    using assms(2) reads_bind_return [where f = F, OF reads_counted_map [OF m(8,10,6), of e left_first]]
      reads_bind_return [where f = F, OF reads_returnD [of "[]"]]
    by (cases is_v2) simp_all
  have rules: "reads (bindD consume_u16 (\<lambda>n. guardD (n > 1024) e (bindD (read_map left_first (unat n)) G)))
      (map_img (game_rules m) @ tail) y" if "reads (G (come_back_map left_first (game_rules m))) tail y" for e G and y :: level_metadata
    unfolding map_img_def append_assoc
    by (rule reads_bind_guard [OF reads_consume_u16])
      (use small_count [OF m(5)] reads_bindD [where f = G, OF reads_read_map [OF m(7,9)] that] in simp_all)
  have whole: "\<lparr>data_version = data_version m, world_seed = world_seed m,
      spawn = \<lparr>pos_x = pos_x (spawn m), pos_y = pos_y (spawn m), pos_z = pos_z (spawn m)\<rparr>,
      dimensions = dimensions m, game_rules = come_back_map left_first (game_rules m),
      world_state = come_back_map left_first (world_state m)\<rparr> = come_back left_first m" by (simp add: come_back_def)
  show ?thesis
    unfolding read_metadata_def metadata_body_def append_assoc
    apply (rule reads_bind_guard [OF reads_consume_u32])
     apply (use m(1) in simp)
    apply (rule reads_bindD [OF reads_consume_u64])
    apply (rule reads_bindD [OF reads_consume_u32])+
    apply (rule reads_bind_guard [OF reads_consume_u16])
     apply (rule c(2))
    apply (subst c(1))
    apply (rule reads_bindD [OF reads_dimensions [OF m(4)]])
    apply (rule rules)
    apply (rule state [where F = "\<lambda>state. \<lparr>data_version = data_version m, world_seed = world_seed m,
        spawn = \<lparr>pos_x = pos_x (spawn m), pos_y = pos_y (spawn m), pos_z = pos_z (spawn m)\<rparr>,
        dimensions = dimensions m, game_rules = come_back_map left_first (game_rules m), world_state = state\<rparr>", unfolded whole])
    done
qed

text \<open>The file of the metadata is none of the region files.\<close>

lemma region_name_metadata: "region_name key \<noteq> ''level.mcd'' \<and> region_name key \<noteq> ''level.mcd.tmp''"
  by (simp add: region_name_def)

lemma byte_digits: "byte_of_char CHR ''1'' \<noteq> byte_of_char CHR ''2''"
  by (simp add: byte_of_char_def)

lemma parse_metadata_img:
  assumes "metadata_ok m"
  shows "parse_metadata left_first (bytes_of ''MCL2'' @ metadata_body m @ map_img (world_state m)) =
      Inr (come_back left_first m)"
    and "world_state m = [] \<Longrightarrow> parse_metadata left_first (bytes_of ''MCL1'' @ metadata_body m) =
      Inr (come_back left_first m)"
  using byte_digits readsD_all [OF reads_metadata [OF assms, of True "map_img (world_state m)" left_first], of "[]"]
    readsD_all [OF reads_metadata [OF assms, of False "[]" left_first], of "[]"]
  by (simp_all add: parse_metadata_def mk_reader_at)

section \<open>What saving accepts\<close>

lemma foldR_elements_ok: "foldR f xs s = Inr t \<Longrightarrow> x \<in> set xs \<Longrightarrow> \<exists>s. is_ok (f x s)"
  by (induction xs arbitrary: s) (auto simp: bindR_Inr_iff is_ok_iff)

lemma append_string_short: "is_ok (append_string ou s) \<Longrightarrow> length s \<le> 65535"
  by (simp add: append_string_def split: if_splits)

lemma append_pairs_short: "foldR append_pair es ou = Inr ou' \<Longrightarrow> short_strings es"
proof -
  assume f: "foldR append_pair es ou = Inr ou'"
  have "\<exists>ou. is_ok (append_pair e ou)" if "e \<in> set es" for e by (rule foldR_elements_ok [OF f that])
  then show "short_strings es"
    by (fastforce simp: short_strings_def list_all_iff append_pair_def is_ok_iff bindR_Inr_iff
        dest: append_string_short [OF is_ok_iff [THEN iffD2], OF exI])
qed

lemma serialize_metadata_ok:
  assumes "serialize_metadata m = Inr ou"
    and "map_ok (game_rules m)" and "map_ok (world_state m)" and "list_all location_ok (dimensions m)"
  shows "metadata_ok m"
proof -
  obtain o1 o2 o3 where r: "foldR (\<lambda>d ou. append_string ou (location_string d)) (dimensions m) o1 = Inr o2"
    "\<exists>p q. foldR append_pair (game_rules m) p = Inr q" "\<exists>p q. foldR append_pair (world_state m) p = Inr q"
    using assms(1) by (auto simp: serialize_metadata_def Let_def bindR_Inr_iff split: if_splits)
  have "length (location_string d) \<le> 65535" if "d \<in> set (dimensions m)" for d
    using foldR_elements_ok [OF r(1) that] append_string_short by blast
  moreover have "short_strings (game_rules m)" "short_strings (world_state m)" using r(2,3) append_pairs_short by blast+
  ultimately show ?thesis
    using assms by (auto simp: metadata_ok_def serialize_metadata_def list_all_iff not_less split: if_splits)
qed

section \<open>Properties\<close>

text \<open>C32. Writing to a region file changes exactly one chunk: a reader of that place gets back the payload that was
  written, a reader of any other place gets what it got before, and the file stays well-formed: the sectors
  of different chunks never overlap, lie behind the tables and inside the file, and every record can be read.\<close>

theorem region_file_write:
  assumes "zlib_ok deflate uncompress" and "region_ok uncompress f"
    and "region_write deflate now f x z payload = Inr f'"
  shows "region_ok uncompress f' \<and> region_read uncompress f' x z = Inr (Some payload) \<and>
    (\<forall>x' z'. (x', z') = (x, z) \<or> region_read uncompress f' x' z' = region_read uncompress f x' z')"
  using region_write_read [OF assms] by blast

text \<open>C2. The storage of a level is a map from positions to chunks: after saving a chunk, loading its position gives
  that chunk with its flag set, and loading any other position gives what it gave before, though many
  chunks share a region file and a region file may have to be created for the load.\<close>

theorem level_storage_refines_map:
  assumes "zlib_ok deflate uncompress" and "level_ok uncompress st" and "reachable_chunk pos c"
    and "save_chunk deflate st c = Inr st'"
  shows "level_ok uncompress st' \<and> (\<forall>q. \<exists>st1 st2 old. load_chunk uncompress st q = Inr (old, st1) \<and>
    load_chunk uncompress st' q = Inr (if q = pos then Some (c\<lparr>dirty := True\<rparr>) else old, st2))"
proof -
  have c: "chunk_ok c" "heights_cover c" "position c = pos"
    using reachable_chunk_inv [OF assms(3)] heights_exact_cover by blast+
  have ok: "zlib_ok deflate uncompress \<and> level_ok uncompress st" using assms(1,2) ..
  have "level_ok uncompress st'" using level.save_view [OF ok c(1,2) assms(4)] by blast
  moreover have "\<exists>st1 st2 old. load_chunk uncompress st q = Inr (old, st1) \<and>
      load_chunk uncompress st' q = Inr (if q = pos then Some (c\<lparr>dirty := True\<rparr>) else old, st2)" for q
  proof -
    obtain st1 where "load_chunk uncompress st q = Inr (stored_chunk uncompress st q, st1)"
      using level.load_view [OF ok, of q] by blast
    moreover obtain st2 where "load_chunk uncompress st' q =
        Inr (if q = pos then Some (c\<lparr>dirty := True\<rparr>) else stored_chunk uncompress st q, st2)"
      using level.load_after_save [OF ok c(1,2) assms(4), of q] c(3) by blast
    ultimately show ?thesis by blast
  qed
  ultimately show ?thesis by blast
qed

text \<open>C33. Level metadata is either refused, because a value is out of bounds, or saved; then loading it gives
  back exactly what was saved, provided the compiler evaluates the arguments of \<open>emplace\<close> from left to right.
  The language leaves that order open. With the other order the dimensions, the seed, the spawn point and
  the version still come back, but the game rules and the world state come back with names and values
  exchanged. Saving leaves every region file as it was.\<close>

theorem level_metadata_roundtrip:
  assumes "map_ok (game_rules m)" and "map_ok (world_state m)" and "list_all location_ok (dimensions m)"
  shows "case save_metadata st m of
      Inl e \<Rightarrow> \<not> metadata_ok m
    | Inr st' \<Rightarrow> metadata_ok m \<and> load_metadata True st' = Inr (Some m) \<and>
        load_metadata False st' = Inr (Some (m\<lparr>game_rules := exchanged (game_rules m),
          world_state := exchanged (world_state m)\<rparr>)) \<and>
        (\<forall>key. files st' (region_name key) = files st (region_name key))"
proof (cases "save_metadata st m")
  case (Inl e)
  have "\<not> metadata_ok m" using Inl serialize_metadata_img [of m] by (auto simp: save_metadata_def Let_def)
  with Inl show ?thesis by simp
next
  case (Inr st')
  then have ok: "metadata_ok m"
    using serialize_metadata_ok [OF _ assms] by (auto simp: save_metadata_def bindR_Inr_iff)
  have "load_metadata left_first st' = Inr (Some (come_back left_first m))" for left_first
    using Inr serialize_metadata_img [OF ok] parse_metadata_img(1) [OF ok, of left_first]
    by (auto simp: save_metadata_def load_metadata_def Let_def)
  moreover have "come_back True m = m"
    "come_back False m = m\<lparr>game_rules := exchanged (game_rules m), world_state := exchanged (world_state m)\<rparr>"
    by (simp_all add: come_back_def come_back_map_def)
  ultimately show ?thesis
    using Inr ok serialize_metadata_img [OF ok] region_name_metadata by (auto simp: save_metadata_def Let_def)
qed

text \<open>A store of one region file that no compressor is used on: zlib's stored form, in the simplest case.\<close>

definition copy_deflate :: deflater where
  "copy_deflate p = Some p"

definition copy_uncompress :: inflater where
  "copy_uncompress c capacity = (if length c \<le> capacity then Z_Ok c else Z_Buf_Error)"

definition empty_storage :: level_storage where
  "empty_storage = \<lparr>files = (\<lambda>_. None), opened = [], clock = (\<lambda>_. 0), clock_reads = 0\<rparr>"

lemma copy_zlib: "zlib_ok copy_deflate copy_uncompress"
  by (simp add: zlib_ok_def copy_deflate_def copy_uncompress_def)

lemma empty_storage_ok: "level_ok uncompress empty_storage"
  by (simp add: level_ok_def empty_storage_def)

lemma read_empty_table: "i < 1024 \<Longrightarrow> read_u32 (replicate header_size 0) (i * 4) = Inr 0"
proof -
  assume i: "i < 1024"
  then have "min 4 (header_size - i * 4) = 4" by (simp add: header_size_def sector_size_def)
  moreover have "(be_value (replicate 4 0) :: u32) = 0" by (simp add: be_value_def numeral_eq_Suc)
  ultimately show ?thesis using i by (simp add: read_u32_value file_read_def header_size_def sector_size_def)
qed

lemma first_write: "region_write copy_deflate now (replicate header_size 0) 3 4 [1, 2, 3] \<noteq> Inl e"
proof -
  have "location_index 3 4 = Inr 131" by (simp add: location_index_def)
  moreover have "read_u32 (replicate header_size 0) (131 * 4) = Inr 0" by (rule read_empty_table) simp
  moreover have "choose_sector (replicate header_size 0) 0 1 = 2"
    by (simp add: choose_sector_def header_size_def sector_size_def)
  ultimately show ?thesis
    by (simp add: region_write_def compress_payload_def copy_deflate_def max_uncompressed_chunk_size_def sector_size_def Let_def)
qed

theorem region_file_write_witness:
  "\<exists>f'. region_write copy_deflate 7 (replicate header_size 0) 3 4 [1, 2, 3] = Inr f' \<and>
     region_read copy_uncompress f' 3 4 = Inr (Some [1, 2, 3])"
proof -
  obtain f' where "region_write copy_deflate 7 (replicate header_size 0) 3 4 [1, 2, 3] = Inr f'"
    using first_write by (cases "region_write copy_deflate 7 (replicate header_size 0) 3 4 [1, 2, 3]") auto
  with region_file_write [OF copy_zlib new_region_ok this] show ?thesis by blast
qed


lemma first_chunk_save:
  assumes "chunk_ok c" and "position c = origin"
  shows "\<exists>st'. save_chunk copy_deflate empty_storage c = Inr st'"
proof -
  have li: "location_index (local_region_x origin) (local_region_z origin) = Inr 0"
    by (simp add: local_region_x_def local_region_z_def floor_mod_mod origin_def location_index_def)
  have rd: "read_u32 (replicate header_size 0) 0 = Inr 0" using read_empty_table [of 0] by simp
  have ch: "choose_sector (replicate header_size 0) 0 49 = 2"
    by (simp add: choose_sector_def header_size_def sector_size_def)
  have sec: "(5 + length (chunk_img c) + sector_size - 1) div sector_size = 49"
    by (simp add: length_chunk_img sector_size_def)
  have "region_write copy_deflate 0 (replicate header_size 0) (local_region_x origin) (local_region_z origin)
      (chunk_img c) \<noteq> Inl e" for e
    using li rd ch sec
    by (simp add: region_write_def compress_payload_def copy_deflate_def max_uncompressed_chunk_size_def
        length_chunk_img Let_def)
  then obtain f' where f': "region_write copy_deflate 0 (replicate header_size 0) (local_region_x origin) (local_region_z origin)
      (chunk_img c) = Inr f'"
    by (cases "region_write copy_deflate 0 (replicate header_size 0) (local_region_x origin) (local_region_z origin)
      (chunk_img c)") auto
  have "region_file empty_storage origin = Inr (replicate header_size 0,
      empty_storage\<lparr>files := (files empty_storage)(region_name (region_position origin) \<mapsto> replicate header_size 0),
        opened := region_position origin # opened empty_storage\<rparr>)"
    by (simp add: region_file_def empty_storage_def open_region_def Let_def)
  then show ?thesis using f' by (simp add: save_chunk_def serialize_chunk_img [OF assms(1)] assms(2) empty_storage_def)
qed

theorem level_storage_refines_map_witness:
  "\<exists>st'. save_chunk copy_deflate empty_storage (new_chunk origin) = Inr st' \<and>
     (\<exists>st2. load_chunk copy_uncompress st' origin = Inr (Some ((new_chunk origin)\<lparr>dirty := True\<rparr>), st2))"
proof -
  have "position (new_chunk origin) = origin" by (simp add: new_chunk_def)
  then obtain st' where st': "save_chunk copy_deflate empty_storage (new_chunk origin) = Inr st'"
    using first_chunk_save [OF new_chunk_ok] by blast
  from level_storage_refines_map [OF copy_zlib empty_storage_ok reachable_chunk.new this]
  obtain st2 where "load_chunk copy_uncompress st' origin = Inr (Some ((new_chunk origin)\<lparr>dirty := True\<rparr>), st2)"
    by metis
  with st' show ?thesis by blast
qed


text \<open>The metadata of a new level with two game rules.\<close>

definition sample_metadata :: level_metadata where
  "sample_metadata = \<lparr>data_version = 4903, world_seed = 42, spawn = \<lparr>pos_x = 0, pos_y = 64, pos_z = 0\<rparr>,
     dimensions = [\<lparr>name_space = ''minecraft'', loc_path = ''overworld''\<rparr>],
     game_rules = [(''keepInventory'', ''true''), (''mobGriefing'', ''false'')], world_state = []\<rparr>"

lemma sample_location_ok: "location_ok \<lparr>name_space = ''minecraft'', loc_path = ''overworld''\<rparr>"
  by (simp add: location_ok_def valid_name_space_character_def valid_path_character_def char_between_def byte_of_char_def)

theorem level_metadata_roundtrip_witness:
  "\<exists>st'. save_metadata empty_storage sample_metadata = Inr st' \<and> load_metadata True st' = Inr (Some sample_metadata) \<and>
     load_metadata False st' = Inr (Some (sample_metadata\<lparr>game_rules :=
       [(''false'', ''mobGriefing''), (''true'', ''keepInventory'')]\<rparr>))"
proof -
  have t: "map_ok (game_rules sample_metadata)" "map_ok (world_state sample_metadata)"
    "list_all location_ok (dimensions sample_metadata)"
    using sample_location_ok by (simp_all add: sample_metadata_def map_ok_def byte_of_char_def)
  have "metadata_ok sample_metadata"
    using t by (simp add: metadata_ok_def short_strings_def)
      (simp add: sample_metadata_def current_data_version_def location_string_def)
  moreover have "exchanged (game_rules sample_metadata) = [(''false'', ''mobGriefing''), (''true'', ''keepInventory'')]"
    "world_state sample_metadata = []" "exchanged [] = []"
    by (simp_all add: exchanged_def sample_metadata_def byte_of_char_def)
  ultimately show ?thesis
    using level_metadata_roundtrip [OF t, of empty_storage]
    by (cases "save_metadata empty_storage sample_metadata") auto
qed

end
