(* ===== verification/World.thy ===== *)
theory World
  imports Chunk_Cache Metadata "HOL-Library.Multiset"
begin

text \<open>
  The world (class World of include/mc/world/world.hpp and
  src/world/world.cpp): blocks, heights and biomes by global position over the
  chunk manager, falling columns, the clock, the weather's state, difficulty,
  spawn and game rules.

  Rain and thunder levels, the border, lines of sight and collisions compute
  with floating point and are not modelled, nor is the text form of the
  persisted state, which holds such numbers.
\<close>

section \<open>State\<close>

record world =
  manager :: "level_storage chunk_manager"
  metadata :: level_metadata
  game_time :: u64
  day_time :: u64
  advance_time :: bool
  weather_seed :: u64
  weather_duration :: u32
  raining :: bool
  thundering :: bool
  weather_cycle :: bool
  difficulty :: u8
  rules :: string_map

section \<open>Construction\<close>

text \<open>
  \<open>WorldSettings\<close> (without the two levels), after \<open>load_persisted_settings\<close> has put the
  stored values in place of the configured ones; \<open>level_files\<close> is the storage at the
  settings' path.
\<close>

record world_settings =
  generation :: generation_settings
  chunk_limit :: nat
  level_files :: "level_storage option"
  initial_game_time :: u64
  initial_day_time :: u64
  initial_advance :: bool
  initial_duration :: u32
  initial_rain :: bool
  initial_thunder :: bool
  initial_cycle :: bool
  initial_difficulty :: u8

definition new_metadata :: "u64 \<Rightarrow> level_metadata" where
  "new_metadata s = \<lparr>data_version = current_data_version, world_seed = s, spawn = \<lparr>pos_x = 0, pos_y = 64, pos_z = 0\<rparr>,
     dimensions = [\<lparr>name_space = ''minecraft'', loc_path = ''overworld''\<rparr>], game_rules = [], world_state = []\<rparr>"

text \<open>The constructor; \<open>left_first\<close> is the evaluation order of \<open>load_metadata\<close>.\<close>

definition new_world :: "bool \<Rightarrow> world_settings \<Rightarrow> world result" where
  "new_world left_first s =
     bindR (new_generator (generation s)) (\<lambda>g.
     bindR (new_chunk_manager g (chunk_limit s) (level_files s)) (\<lambda>m.
     bindR (case level_files s of None \<Rightarrow> Inr None | Some st \<Rightarrow> load_metadata left_first st) (\<lambda>persisted.
     Inr \<lparr>manager = m,
       metadata = (case persisted of None \<Rightarrow> new_metadata (seed (generation s)) | Some p \<Rightarrow> p),
       game_time = initial_game_time s, day_time = initial_day_time s, advance_time = initial_advance s,
       weather_seed = seed (generation s), weather_duration = max 1 (initial_duration s),
       raining = initial_rain s, thundering = initial_thunder s, weather_cycle = initial_cycle s,
       difficulty = initial_difficulty s,
       rules = (case persisted of None \<Rightarrow> [] | Some p \<Rightarrow> game_rules p)\<rparr>)))"

section \<open>Blocks by global position\<close>

definition local_coordinate :: "int \<Rightarrow> nat" where
  "local_coordinate v = (let r = v smod 16 in nat (if r < 0 then r + 16 else r))"

definition chunk_of :: "i32 \<Rightarrow> i32 \<Rightarrow> chunk_position" where
  "chunk_of x z = \<lparr>chunk_x = word_of_int (floor_div (sint x) 16), chunk_z = word_of_int (floor_div (sint z) 16)\<rparr>"

definition in_height :: "block_position \<Rightarrow> bool" where
  "in_height p = (min_build_y \<le> sint (pos_y p) \<and> sint (pos_y p) < max_build_y)"

definition on_world_chunk :: "deflater \<Rightarrow> inflater \<Rightarrow> world \<Rightarrow> chunk_position \<Rightarrow> (chunk \<Rightarrow> ('a \<times> chunk) result) \<Rightarrow>
    ('a \<times> world) result" where
  "on_world_chunk deflate uncompress w pos f =
     bindR (on_chunk (load_chunk uncompress) (save_chunk deflate) (manager w) pos f) (\<lambda>(r, m).
     Inr (r, w\<lparr>manager := m\<rparr>))"

definition world_block :: "deflater \<Rightarrow> inflater \<Rightarrow> world \<Rightarrow> block_position \<Rightarrow> (block_value \<times> world) result" where
  "world_block deflate uncompress w p =
     (if \<not> in_height p then Inl (Out_Of_Range ''global block Y is outside build height'')
      else on_world_chunk deflate uncompress w (chunk_of (pos_x p) (pos_z p)) (\<lambda>c.
        bindR (chunk_block c (local_coordinate (sint (pos_x p))) (sint (pos_y p)) (local_coordinate (sint (pos_z p)))) (\<lambda>b.
        Inr (b, c))))"

definition world_set_block :: "deflater \<Rightarrow> inflater \<Rightarrow> world \<Rightarrow> block_position \<Rightarrow> block_value \<Rightarrow> world result" where
  "world_set_block deflate uncompress w p b =
     (if \<not> in_height p then Inl (Out_Of_Range ''global block Y is outside build height'')
      else bindR (on_world_chunk deflate uncompress w (chunk_of (pos_x p) (pos_z p)) (\<lambda>c.
        bindR (chunk_set_block c (local_coordinate (sint (pos_x p))) (sint (pos_y p)) (local_coordinate (sint (pos_z p))) b)
          (\<lambda>c. Inr ((), c)))) (\<lambda>(_, w). Inr w))"

definition world_surface_height :: "deflater \<Rightarrow> inflater \<Rightarrow> world \<Rightarrow> i32 \<Rightarrow> i32 \<Rightarrow> (int \<times> world) result" where
  "world_surface_height deflate uncompress w x z =
     on_world_chunk deflate uncompress w (chunk_of x z) (\<lambda>c.
       bindR (chunk_height c (local_coordinate (sint x)) (local_coordinate (sint z))) (\<lambda>h. Inr (h, c)))"

definition world_biome :: "deflater \<Rightarrow> inflater \<Rightarrow> world \<Rightarrow> i32 \<Rightarrow> i32 \<Rightarrow> i32 \<Rightarrow> (biome_value \<times> world) result" where
  "world_biome deflate uncompress w x y z =
     on_world_chunk deflate uncompress w (chunk_of x z) (\<lambda>c.
       let clamped_y = clamp (sint y) min_build_y (max_build_y - 1) in
       bindR (chunk_biome c (local_coordinate (sint x) div 4) (nat (clamped_y - min_build_y) div 4)
         (local_coordinate (sint z) div 4)) (\<lambda>b. Inr (b, c)))"

definition world_solid :: "deflater \<Rightarrow> inflater \<Rightarrow> world \<Rightarrow> block_position \<Rightarrow> (bool \<times> world) result" where
  "world_solid deflate uncompress w p =
     bindR (world_block deflate uncompress w p) (\<lambda>(b, w).
     Inr (b \<noteq> air \<and> b \<noteq> water \<and> b \<noteq> short_grass \<and> b \<noteq> dandelion \<and> b \<noteq> poppy, w))"

section \<open>Falling columns\<close>

definition at_height :: "block_position \<Rightarrow> int \<Rightarrow> block_position" where
  "at_height p y = p\<lparr>pos_y := word_of_int y\<rparr>"

text \<open>How far down the block at height \<open>y\<close> can fall.\<close>

function fall_to :: "deflater \<Rightarrow> inflater \<Rightarrow> block_position \<Rightarrow> int \<Rightarrow> world \<Rightarrow> (int \<times> world) result" where
  "fall_to deflate uncompress p y w =
     (if y > min_build_y
      then bindR (world_block deflate uncompress w (at_height p (y - 1))) (\<lambda>(b, w).
        if b = air then fall_to deflate uncompress p (y - 1) w else Inr (y, w))
      else Inr (y, w))"
  by pat_completeness auto
termination
  by (relation "measure (\<lambda>(deflate, uncompress, p, y, w). nat (y - min_build_y))") auto

declare fall_to.simps [simp del]

definition settle_block :: "deflater \<Rightarrow> inflater \<Rightarrow> block_position \<Rightarrow> int \<Rightarrow> block_position list \<times> world \<Rightarrow>
    (block_position list \<times> world) result" where
  "settle_block deflate uncompress p y = (\<lambda>(changed, w).
     bindR (world_block deflate uncompress w (at_height p y)) (\<lambda>(b, w).
     if b \<noteq> sand \<and> b \<noteq> gravel then Inr (changed, w)
     else bindR (fall_to deflate uncompress p y w) (\<lambda>(destination, w).
       if destination = y then Inr (changed, w)
       else bindR (world_set_block deflate uncompress w (at_height p y) air) (\<lambda>w.
         bindR (world_set_block deflate uncompress w (at_height p destination) b) (\<lambda>w.
         Inr (changed @ [at_height p y, at_height p destination], w))))))"

definition settle_falling_column :: "deflater \<Rightarrow> inflater \<Rightarrow> block_position \<Rightarrow> world \<Rightarrow> (block_position list \<times> world) result" where
  "settle_falling_column deflate uncompress p w =
     foldR (settle_block deflate uncompress p) [max (sint (pos_y p)) (min_build_y + 1)..max_build_y - 1] ([], w)"

section \<open>Saving and unloading\<close>

definition world_save_dirty :: "deflater \<Rightarrow> world \<Rightarrow> (nat \<times> world) result" where
  "world_save_dirty deflate w = bindR (save_dirty (save_chunk deflate) (manager w)) (\<lambda>(n, m). Inr (n, w\<lparr>manager := m\<rparr>))"

section \<open>Time and weather\<close>

definition tick_time :: "u64 \<Rightarrow> world \<Rightarrow> world" where
  "tick_time ticks w = w\<lparr>game_time := game_time w + ticks,
     day_time := if advance_time w then day_time w + ticks else day_time w\<rparr>"

definition daylight :: "world \<Rightarrow> bool" where
  "daylight w = (let time = day_time w mod 24000 in time < 12000 \<or> time \<ge> 23000)"

definition set_day_time :: "u64 \<Rightarrow> world \<Rightarrow> world" where
  "set_day_time t w = w\<lparr>day_time := t\<rparr>"

definition set_advance_time :: "bool \<Rightarrow> world \<Rightarrow> world" where
  "set_advance_time b w = w\<lparr>advance_time := b\<rparr>"

text \<open>The turns of the weather; the report is the \<open>raining\<close> of the source's update.\<close>

definition turn_weather :: "u32 \<Rightarrow> world \<Rightarrow> bool option \<times> world" where
  "turn_weather ticks w =
     (if weather_cycle w \<and> ticks \<ge> weather_duration w
      then (let rain = \<not> raining w;
                random = weather_seed w XOR game_time w * 0x9E3779B97F4A7C15 in
        (Some rain, w\<lparr>raining := rain,
           thundering := rain \<and> drop_bit 32 random mod 4 = 0,
           weather_duration := ucast (6000 + random mod 12001)\<rparr>))
      else if weather_cycle w then (None, w\<lparr>weather_duration := weather_duration w - ticks\<rparr>)
      else (None, w))"

definition set_weather :: "bool \<Rightarrow> bool \<Rightarrow> u32 \<Rightarrow> world \<Rightarrow> world" where
  "set_weather rain thunder duration w =
     w\<lparr>raining := rain, thundering := rain \<and> thunder, weather_duration := max 1 duration\<rparr>"

definition set_weather_cycle :: "bool \<Rightarrow> world \<Rightarrow> world" where
  "set_weather_cycle b w = w\<lparr>weather_cycle := b\<rparr>"

section \<open>Difficulty, spawn and game rules\<close>

definition set_difficulty :: "u8 \<Rightarrow> world \<Rightarrow> world result" where
  "set_difficulty d w = (if d > 3 then Inl (Invalid_Argument ''world difficulty is invalid'') else Inr (w\<lparr>difficulty := d\<rparr>))"

definition set_spawn :: "block_position \<Rightarrow> world \<Rightarrow> world result" where
  "set_spawn p w =
     (if \<not> in_height p then Inl (Invalid_Argument ''world spawn is invalid'')
      else Inr (w\<lparr>metadata := (metadata w)\<lparr>spawn := p\<rparr>\<rparr>))"

definition game_rule :: "string \<Rightarrow> world \<Rightarrow> string option" where
  "game_rule name w = map_of (rules w) name"

text \<open>Assignment in a \<open>std::map\<close>, kept in the order of its keys.\<close>

fun assign :: "string \<Rightarrow> string \<Rightarrow> string_map \<Rightarrow> string_map" where
  "assign k v [] = [(k, v)]"
| "assign k v ((k', v') # rest) =
     (if k = k' then (k, v) # rest
      else if string_less k k' then (k, v) # (k', v') # rest
      else (k', v') # assign k v rest)"

definition set_game_rule :: "string \<Rightarrow> string \<Rightarrow> world \<Rightarrow> world result" where
  "set_game_rule name v w =
     (if name = [] \<or> length name > 128 \<or> length v > 128
      then Inl (Invalid_Argument ''world game rule is invalid'')
      else Inr (w\<lparr>rules := assign name v (rules w)\<rparr>))"

section \<open>Coordinates\<close>

lemma local_coordinate_mod: "local_coordinate v = nat (v mod 16)"
proof -
  have "v smod 16 < 0 \<longleftrightarrow> v < 0 \<and> v mod 16 \<noteq> 0"
    unfolding signed_division(2) [of 16, simplified] using pos_mod_bound [of 16 v] pos_mod_sign [of 16 v] by auto
  then show ?thesis using signed_division(2) [of 16 v] by (simp add: local_coordinate_def Let_def)
qed

lemma local_coordinate_less [simp]: "local_coordinate v < 16"
  using pos_mod_bound [of 16 v] by (simp add: local_coordinate_mod nat_less_iff)

lemma sint_quotient: "sint (word_of_int (sint (x :: i32) div 16) :: i32) = sint x div 16"
proof -
  have "- (2 ^ 31) \<le> sint x" "sint x < 2 ^ 31" using sint_ge [of x] sint_lt [of x] by simp_all
  then have "- (2 ^ 31) \<le> sint x div 16 \<and> sint x div 16 < 2 ^ 31" by linarith
  then show ?thesis by (simp add: signed_take_bit_int_eq_self signed_of_int)
qed

lemma chunk_of_inject:
  assumes "chunk_of x z = chunk_of x' z'" and "local_coordinate (sint x) = local_coordinate (sint x')"
    and "local_coordinate (sint z) = local_coordinate (sint z')"
  shows "x = x' \<and> z = z'"
proof -
  have same: "a = b" if "(word_of_int (sint a div 16) :: i32) = word_of_int (sint b div 16)"
      "nat (sint a mod 16) = nat (sint b mod 16)" for a b :: i32
  proof -
    have "sint a div 16 = sint b div 16" using that(1) sint_quotient by metis
    moreover have "sint a mod 16 = sint b mod 16" using that(2) by (simp add: nat_eq_iff)
    ultimately have "sint a = sint b" by (metis div_mult_mod_eq)
    then show ?thesis by (rule signed_word_eqI)
  qed
  show ?thesis
    using assms same [of x x'] same [of z z'] by (simp add: chunk_of_def floor_div_div local_coordinate_mod)
qed

section \<open>The blocks a world stands for\<close>

definition world_chunk :: "inflater \<Rightarrow> world \<Rightarrow> chunk_position \<Rightarrow> chunk" where
  "world_chunk uncompress w = manager_view (stored_chunk uncompress) (manager w)"

definition world_at :: "inflater \<Rightarrow> world \<Rightarrow> block_position \<Rightarrow> block_value" where
  "world_at uncompress w p = block_at (world_chunk uncompress w (chunk_of (pos_x p) (pos_z p)))
     (local_coordinate (sint (pos_x p))) (sint (pos_y p)) (local_coordinate (sint (pos_z p)))"

text \<open>A world with a storage, whose cache and storage are sound.\<close>

definition world_ok :: "deflater \<Rightarrow> inflater \<Rightarrow> world \<Rightarrow> bool" where
  "world_ok deflate uncompress w =
     (manager_ok (\<lambda>st. zlib_ok deflate uncompress \<and> level_ok uncompress st) (stored_chunk uncompress) (manager w) \<and>
      disk (manager w) \<noteq> None)"

lemma on_world_chunk_view:
  assumes "on_world_chunk deflate uncompress w pos f = Inr (r, w')" and "world_ok deflate uncompress w"
    and "\<And>c r c'. f c = Inr (r, c') \<Longrightarrow> sound_chunk pos c \<Longrightarrow> sound_chunk pos c' \<and> (\<not> dirty c' \<longrightarrow> c' = c)"
  obtains c c' where "f c = Inr (r, c')" "sound_chunk pos c" "mark_saved c = world_chunk uncompress w pos"
    "world_ok deflate uncompress w'" "world_chunk uncompress w' = (world_chunk uncompress w)(pos := mark_saved c')"
    "w' = w\<lparr>manager := manager w'\<rparr>"
proof -
  obtain m where m: "on_chunk (load_chunk uncompress) (save_chunk deflate) (manager w) pos f = Inr (r, m)"
    "w' = w\<lparr>manager := m\<rparr>"
    using assms(1) by (auto simp: on_world_chunk_def bindR_Inr_iff)
  show ?thesis
    by (rule level.on_chunk_view [where deflate = deflate and uncompress = uncompress, OF m(1)]; use assms(2,3) that m(2) in \<open>simp add: world_ok_def world_chunk_def\<close>)
qed

lemma on_world_chunk_read:
  assumes "on_world_chunk deflate uncompress w pos (\<lambda>c. bindR (g c) (\<lambda>r. Inr (r, c))) = Inr (r, w')"
    and "world_ok deflate uncompress w"
  obtains c where "g c = Inr r" "sound_chunk pos c" "mark_saved c = world_chunk uncompress w pos"
    "world_ok deflate uncompress w'" "world_chunk uncompress w' = world_chunk uncompress w" "w' = w\<lparr>manager := manager w'\<rparr>"
proof -
  obtain c c' where c: "bindR (g c) (\<lambda>r. Inr (r, c)) = Inr (r, c')" "sound_chunk pos c" "mark_saved c = world_chunk uncompress w pos"
    "world_ok deflate uncompress w'" "world_chunk uncompress w' = (world_chunk uncompress w)(pos := mark_saved c')"
    "w' = w\<lparr>manager := manager w'\<rparr>"
    by (rule on_world_chunk_view [OF assms]) (auto simp: bindR_Inr_iff)
  then show ?thesis using that by (auto simp: bindR_Inr_iff)
qed

lemma world_block_view:
  assumes "world_block deflate uncompress w p = Inr (b, w')" and "world_ok deflate uncompress w"
  shows "in_height p \<and> b = world_at uncompress w p \<and> world_ok deflate uncompress w' \<and>
    world_chunk uncompress w' = world_chunk uncompress w"
proof -
  have h: "in_height p" using assms(1) by (auto simp: world_block_def split: if_splits)
  obtain c where c: "chunk_block c (local_coordinate (sint (pos_x p))) (sint (pos_y p)) (local_coordinate (sint (pos_z p))) = Inr b"
    "mark_saved c = world_chunk uncompress w (chunk_of (pos_x p) (pos_z p))"
    "world_ok deflate uncompress w'" "world_chunk uncompress w' = world_chunk uncompress w"
    by (rule on_world_chunk_read [of deflate uncompress w "chunk_of (pos_x p) (pos_z p)"
        "\<lambda>c. chunk_block c (local_coordinate (sint (pos_x p))) (sint (pos_y p)) (local_coordinate (sint (pos_z p)))" b w'])
      (use assms h in \<open>simp_all add: world_block_def\<close>)
  have "b = world_at uncompress w p"
    using c(1) h mark_saved_simps(4) [of c] unfolding world_at_def c(2) [symmetric] by (auto simp: chunk_block_eq split: if_splits)
  then show ?thesis using h c by simp
qed

lemma world_set_block_view:
  assumes "world_set_block deflate uncompress w p b = Inr w'" and "world_ok deflate uncompress w"
  shows "in_height p \<and> world_ok deflate uncompress w' \<and>
    (\<forall>q. in_height q \<longrightarrow> world_at uncompress w' q = (if q = p then b else world_at uncompress w q))"
proof -
  let ?x = "local_coordinate (sint (pos_x p))" and ?z = "local_coordinate (sint (pos_z p))" and ?y = "sint (pos_y p)"
  let ?pos = "chunk_of (pos_x p) (pos_z p)" and ?f = "\<lambda>c. bindR (chunk_set_block c ?x ?y ?z b) (\<lambda>c. Inr ((), c))"
  have h: "in_height p" using assms(1) by (auto simp: world_set_block_def split: if_splits)
  then have "on_world_chunk deflate uncompress w ?pos ?f = Inr ((), w')"
    using assms(1) by (auto simp: world_set_block_def bindR_Inr_iff)
  then obtain c c' where c: "?f c = Inr ((), c')" "sound_chunk ?pos c" "mark_saved c = world_chunk uncompress w ?pos"
    "world_ok deflate uncompress w'" "world_chunk uncompress w' = (world_chunk uncompress w)(?pos := mark_saved c')"
    by (rule on_world_chunk_view [OF _ assms(2)]) (auto simp: bindR_Inr_iff dest: chunk_set_block_sound)
  have s: "chunk_set_block c ?x ?y ?z b = Inr c'" "chunk_ok c" using c(1,2) by (auto simp: bindR_Inr_iff sound_chunk_def)
  have "world_at uncompress w' q = (if q = p then b else world_at uncompress w q)" if q: "in_height q" for q
  proof (cases "chunk_of (pos_x q) (pos_z q) = ?pos")
    case True
    let ?qx = "local_coordinate (sint (pos_x q))" and ?qz = "local_coordinate (sint (pos_z q))"
    have "in_chunk (?qx, sint (pos_y q), ?qz)" using q by (simp add: in_chunk_def in_height_def)
    from chunk_set_block_at [OF s(2,1) this]
    have "world_at uncompress w' q = (if (?qx, sint (pos_y q), ?qz) = (?x, ?y, ?z) then b else world_at uncompress w q)"
      using True c(3) mark_saved_simps(4) [of c] by (simp add: world_at_def c(5))
    moreover have "(?qx, sint (pos_y q), ?qz) = (?x, ?y, ?z) \<longleftrightarrow> q = p"
      using chunk_of_inject [of "pos_x q" "pos_z q" "pos_x p" "pos_z p"] True by (auto intro!: block_position.equality dest: signed_word_eqI)
    ultimately show ?thesis by simp
  qed (auto simp: world_at_def c(5))
  then show ?thesis using h c by simp
qed

section \<open>Sequences of operations\<close>

text \<open>What a client does with a world, one operation after another; a read has an outcome.\<close>

datatype world_op =
    Read_Block block_position
  | Write_Block block_position block_value
  | Read_Surface i32 i32
  | Save_Dirty
  | Unload chunk_position
  | Unload_Unused

fun world_step :: "deflater \<Rightarrow> inflater \<Rightarrow> world_op \<Rightarrow> world \<Rightarrow> (block_value list \<times> world) result" where
  "world_step deflate uncompress (Read_Block p) w = bindR (world_block deflate uncompress w p) (\<lambda>(b, w). Inr ([b], w))"
| "world_step deflate uncompress (Write_Block p b) w = bindR (world_set_block deflate uncompress w p b) (\<lambda>w. Inr ([], w))"
| "world_step deflate uncompress (Read_Surface x z) w = bindR (world_surface_height deflate uncompress w x z) (\<lambda>(_, w). Inr ([], w))"
| "world_step deflate uncompress Save_Dirty w = bindR (world_save_dirty deflate w) (\<lambda>(_, w). Inr ([], w))"
| "world_step deflate uncompress (Unload pos) w =
     bindR (unload (save_chunk deflate) (manager w) pos) (\<lambda>(_, m). Inr ([], w\<lparr>manager := m\<rparr>))"
| "world_step deflate uncompress Unload_Unused w =
     bindR (evict_to_limit (save_chunk deflate) (manager w)) (\<lambda>m. Inr ([], w\<lparr>manager := m\<rparr>))"

fun world_run :: "deflater \<Rightarrow> inflater \<Rightarrow> world_op list \<Rightarrow> world \<Rightarrow> (block_value list \<times> world) result" where
  "world_run deflate uncompress [] w = Inr ([], w)"
| "world_run deflate uncompress (a # as) w =
     bindR (world_step deflate uncompress a w) (\<lambda>(bs, w).
     bindR (world_run deflate uncompress as w) (\<lambda>(cs, w). Inr (bs @ cs, w)))"

text \<open>The same on a map from positions to blocks: only writes change it, only reads look at it.\<close>

fun map_step :: "world_op \<Rightarrow> (block_position \<Rightarrow> block_value) \<Rightarrow> block_value list \<times> (block_position \<Rightarrow> block_value)" where
  "map_step (Read_Block p) f = ([f p], f)"
| "map_step (Write_Block p b) f = ([], f(p := b))"
| "map_step _ f = ([], f)"

fun map_run :: "world_op list \<Rightarrow> (block_position \<Rightarrow> block_value) \<Rightarrow> block_value list \<times> (block_position \<Rightarrow> block_value)" where
  "map_run [] f = ([], f)"
| "map_run (a # as) f = (let (bs, f) = map_step a f; (cs, f) = map_run as f in (bs @ cs, f))"

definition agree :: "(block_position \<Rightarrow> block_value) \<Rightarrow> (block_position \<Rightarrow> block_value) \<Rightarrow> bool" where
  "agree f g = (\<forall>p. in_height p \<longrightarrow> f p = g p)"

lemma world_at_cong: "world_chunk uncompress w' = world_chunk uncompress w \<Longrightarrow> world_at uncompress w' = world_at uncompress w"
  by (simp add: world_at_def fun_eq_iff)

lemma world_block_at:
  assumes "world_block deflate uncompress w p = Inr (b, w')" and "world_ok deflate uncompress w"
  shows "in_height p" "b = world_at uncompress w p" "world_ok deflate uncompress w'" "world_at uncompress w' = world_at uncompress w"
  using world_block_view [OF assms] world_at_cong [of uncompress w' w] by blast+

lemma world_step_refines:
  assumes "world_step deflate uncompress a w = Inr (bs, w')" and "world_ok deflate uncompress w"
    and "agree (world_at uncompress w) f" and "map_step a f = (cs, f')"
  shows "world_ok deflate uncompress w' \<and> bs = cs \<and> agree (world_at uncompress w') f'"
proof (cases a)
  case (Read_Block p)
  then obtain b where b: "world_block deflate uncompress w p = Inr (b, w')" "bs = [b]"
    using assms(1) by (auto simp: bindR_Inr_iff)
  from world_block_at [OF b(1) assms(2)] show ?thesis using b(2) assms(3,4) Read_Block by (auto simp: agree_def)
next
  case (Write_Block p b)
  then show ?thesis
    using assms world_set_block_view [OF _ assms(2), of p b w'] by (auto simp: bindR_Inr_iff agree_def)
next
  case (Read_Surface x z)
  then obtain h where h: "on_world_chunk deflate uncompress w (chunk_of x z) (\<lambda>c.
       bindR (chunk_height c (local_coordinate (sint x)) (local_coordinate (sint z))) (\<lambda>h. Inr (h, c))) = Inr (h, w')"
    "bs = []"
    using assms(1) by (auto simp: bindR_Inr_iff world_surface_height_def)
  have "world_ok deflate uncompress w' \<and> world_at uncompress w' = world_at uncompress w"
    by (rule on_world_chunk_read [OF h(1) assms(2)]) (use world_at_cong in blast)
  then show ?thesis using h(2) assms(3,4) Read_Surface by (simp add: agree_def)
next
  case Save_Dirty
  then obtain n m where m: "save_dirty (save_chunk deflate) (manager w) = Inr (n, m)" "w' = w\<lparr>manager := m\<rparr>" "bs = []"
    using assms(1) by (auto simp: bindR_Inr_iff world_save_dirty_def)
  have ok: "world_ok deflate uncompress w'" "world_chunk uncompress w' = world_chunk uncompress w"
    using level.save_dirty_view [where deflate = deflate and uncompress = uncompress, OF m(1)] assms(2) m(2)
    by (simp_all add: world_ok_def world_chunk_def)
  then show ?thesis using world_at_cong [OF ok(2)] assms(3,4) m(3) Save_Dirty by (simp add: agree_def)
next
  case (Unload pos)
  then obtain d m where m: "unload (save_chunk deflate) (manager w) pos = Inr (d, m)" "w' = w\<lparr>manager := m\<rparr>" "bs = []"
    using assms(1) by (auto simp: bindR_Inr_iff)
  have ok: "world_ok deflate uncompress w'" "world_chunk uncompress w' = world_chunk uncompress w"
    using level.unload_view [where deflate = deflate and uncompress = uncompress, OF m(1)] assms(2) m(2)
    by (simp_all add: world_ok_def world_chunk_def)
  then show ?thesis using world_at_cong [OF ok(2)] assms(3,4) m(3) Unload by (simp add: agree_def)
next
  case Unload_Unused
  then obtain m where m: "evict_to_limit (save_chunk deflate) (manager w) = Inr m" "w' = w\<lparr>manager := m\<rparr>" "bs = []"
    using assms(1) by (auto simp: bindR_Inr_iff)
  have ok: "world_ok deflate uncompress w'" "world_chunk uncompress w' = world_chunk uncompress w"
    using level.evict_to_limit_manager [where deflate = deflate and uncompress = uncompress, OF m(1)] assms(2) m(2)
    by (simp_all add: world_ok_def world_chunk_def)
  then show ?thesis using world_at_cong [OF ok(2)] assms(3,4) m(3) Unload_Unused by (simp add: agree_def)
qed

lemma world_run_refines:
  "world_run deflate uncompress as w = Inr (bs, w') \<Longrightarrow> world_ok deflate uncompress w \<Longrightarrow> agree (world_at uncompress w) f \<Longrightarrow>
   world_ok deflate uncompress w' \<and> bs = fst (map_run as f) \<and> agree (world_at uncompress w') (snd (map_run as f))"
proof (induction as arbitrary: w f bs)
  case (Cons a as)
  obtain b1 w1 b2 where s: "world_step deflate uncompress a w = Inr (b1, w1)"
    "world_run deflate uncompress as w1 = Inr (b2, w')" "bs = b1 @ b2"
    using Cons.prems(1) by (auto simp: bindR_Inr_iff)
  obtain c1 f1 where f: "map_step a f = (c1, f1)" by (cases "map_step a f")
  have "world_ok deflate uncompress w1" "b1 = c1" "agree (world_at uncompress w1) f1"
    using world_step_refines [OF s(1) Cons.prems(2,3) f] by simp_all
  with Cons.IH [OF s(2)] s(3) f show ?case by (simp add: split_def Let_def)
qed simp

section \<open>Falling columns\<close>

definition falling :: "block_value \<Rightarrow> bool" where
  "falling b = (b = sand \<or> b = gravel)"

text \<open>The same fall on a column as a function of the height.\<close>

definition swap_heights :: "int \<Rightarrow> int \<Rightarrow> int \<Rightarrow> int" where
  "swap_heights a b y = (if y = a then b else if y = b then a else y)"

lemma swap_heights_mset:
  assumes "a \<in> A" "b \<in> A"
  shows "image_mset (\<lambda>y. f (swap_heights a b y)) (mset_set A) = image_mset f (mset_set A)"
proof -
  have "inj_on (swap_heights a b) A" "swap_heights a b ` A = A"
    using assms by (auto simp: inj_on_def swap_heights_def image_def)
  then have "image_mset (swap_heights a b) (mset_set A) = mset_set A" by (simp add: image_mset_mset_set)
  then show ?thesis by (metis (no_types, lifting) ext comp_apply image_mset.compositionality)
qed

lemma at_height_inject:
  assumes "min_build_y \<le> y" "y < max_build_y"
  shows "sint (pos_y (at_height p y)) = y" "in_height (at_height p y)"
    "pos_x (at_height p y) = pos_x p" "pos_z (at_height p y) = pos_z p"
proof -
  have "- (2 ^ 31) \<le> y \<and> y < 2 ^ 31" using assms by (simp add: build_y)
  then have "sint (word_of_int y :: i32) = y" by (simp add: signed_of_int signed_take_bit_int_eq_self)
  then show "sint (pos_y (at_height p y)) = y" "in_height (at_height p y)" "pos_x (at_height p y) = pos_x p"
    "pos_z (at_height p y) = pos_z p"
    using assms by (simp_all add: at_height_def in_height_def)
qed

text \<open>Where a block comes to rest: on a block that is not air, or on the floor, with air all the way.\<close>

definition rests :: "(int \<Rightarrow> block_value) \<Rightarrow> int \<Rightarrow> int \<Rightarrow> bool" where
  "rests f y d = (min_build_y \<le> d \<and> d \<le> y \<and> (\<forall>h. d \<le> h \<and> h < y \<longrightarrow> f h = air) \<and> (d = min_build_y \<or> f (d - 1) \<noteq> air))"

lemma fall_to_rests:
  "fall_to deflate uncompress p y w = Inr (d, w') \<Longrightarrow> world_ok deflate uncompress w \<Longrightarrow> min_build_y \<le> y \<Longrightarrow> y < max_build_y \<Longrightarrow>
   world_ok deflate uncompress w' \<and> world_at uncompress w' = world_at uncompress w \<and>
   rests (\<lambda>h. world_at uncompress w (at_height p h)) y d"
proof (induction "nat (y - min_build_y)" arbitrary: y w)
  case 0
  then have "y = min_build_y" by simp
  then show ?case using 0 by (subst (asm) fall_to.simps) (auto simp: rests_def)
next
  case (Suc n)
  then have y: "min_build_y < y" by simp
  obtain b w1 where w1: "world_block deflate uncompress w (at_height p (y - 1)) = Inr (b, w1)"
    "(if b = air then fall_to deflate uncompress p (y - 1) w1 else Inr (y, w1)) = Inr (d, w')"
    using Suc.prems(1) y by (subst (asm) fall_to.simps) (auto simp: bindR_Inr_iff)
  note v = world_block_at(2-4) [OF w1(1) Suc.prems(2)]
  show ?case
  proof (cases "b = air")
    case True
    then have "fall_to deflate uncompress p (y - 1) w1 = Inr (d, w')" using w1(2) by simp
    moreover have "n = nat (y - 1 - min_build_y)" using Suc.hyps(2) by simp
    ultimately have "world_ok deflate uncompress w' \<and> world_at uncompress w' = world_at uncompress w \<and>
        rests (\<lambda>h. world_at uncompress w (at_height p h)) (y - 1) d"
      using Suc.hyps(1) [of "y - 1" w1] v(2,3) y Suc.prems(4) by simp
    then show ?thesis using True v(1) unfolding rests_def by (smt (verit))
  next
    case False
    then show ?thesis using w1(2) v y by (auto simp: rests_def)
  qed
qed


text \<open>One block of the pass: it stays, or it and the air it falls to change places.\<close>

lemma settle_block_step:
  assumes "settle_block deflate uncompress p y (changed, w) = Inr (changed', w')" and "world_ok deflate uncompress w"
    and "min_build_y < y" "y < max_build_y"
  defines "f \<equiv> \<lambda>h. world_at uncompress w (at_height p h)" and "f' \<equiv> \<lambda>h. world_at uncompress w' (at_height p h)"
  shows "world_ok deflate uncompress w' \<and>
    (\<exists>d. (falling (f y) \<longrightarrow> rests f y d) \<and>
      (\<forall>h. min_build_y \<le> h \<and> h < max_build_y \<longrightarrow> f' h = (if falling (f y) then f (swap_heights y d h) else f h))) \<and>
    (\<forall>q. in_height q \<longrightarrow> q \<notin> set changed' \<longrightarrow> world_at uncompress w' q = world_at uncompress w q) \<and>
    set changed \<subseteq> set changed'"
proof -
  obtain b w1 where w1: "world_block deflate uncompress w (at_height p y) = Inr (b, w1)"
    using assms(1) by (auto simp: settle_block_def bindR_Inr_iff)
  from world_block_at(2-4) [OF this assms(2)] have v1: "b = f y" "world_ok deflate uncompress w1"
    "world_at uncompress w1 = world_at uncompress w" by (simp_all add: f_def)
  show ?thesis
  proof (cases "falling (f y)")
    case False
    then have "changed' = changed" "w' = w1" using assms(1) w1 v1(1) by (auto simp: settle_block_def falling_def)
    then show ?thesis using v1 False by (simp add: f_def f'_def)
  next
    case True
    obtain d w2 where w2: "fall_to deflate uncompress p y w1 = Inr (d, w2)"
      "(if d = y then Inr (changed, w2)
        else bindR (world_set_block deflate uncompress w2 (at_height p y) air) (\<lambda>w.
         bindR (world_set_block deflate uncompress w (at_height p d) b) (\<lambda>w.
         Inr (changed @ [at_height p y, at_height p d], w)))) = Inr (changed', w')"
      using assms(1) w1 v1(1) True by (auto simp: settle_block_def falling_def bindR_Inr_iff)
    have v2: "world_ok deflate uncompress w2" "world_at uncompress w2 = world_at uncompress w" "rests f y d"
      using fall_to_rests [OF w2(1) v1(2)] assms(3,4) v1(3) by (simp_all add: f_def)
    show ?thesis
    proof (cases "d = y")
      case True
      then have "changed' = changed" "w' = w2" using w2(2) by simp_all
      then show ?thesis using v2 True by (auto simp: f_def f'_def swap_heights_def intro!: exI [of _ y])
    next
      case False
      then have d: "min_build_y \<le> d" "d < y" "f d = air" using v2(3) by (auto simp: rests_def)
      obtain w3 where w3: "world_set_block deflate uncompress w2 (at_height p y) air = Inr w3"
        "world_set_block deflate uncompress w3 (at_height p d) b = Inr w'" "changed' = changed @ [at_height p y, at_height p d]"
        using w2(2) False by (auto simp: bindR_Inr_iff)
      have v3: "world_ok deflate uncompress w3" "\<And>q. in_height q \<Longrightarrow>
          world_at uncompress w3 q = (if q = at_height p y then air else world_at uncompress w q)"
        using world_set_block_view [OF w3(1) v2(1)] v2(2) by simp_all
      have v4: "world_ok deflate uncompress w'" "\<And>q. in_height q \<Longrightarrow>
          world_at uncompress w' q = (if q = at_height p d then b else if q = at_height p y then air else world_at uncompress w q)"
        using world_set_block_view [OF w3(2) v3(1)] v3(2) by simp_all
      have same: "at_height p h = at_height p k \<longleftrightarrow> h = k"
        if "min_build_y \<le> h" "h < max_build_y" "min_build_y \<le> k" "k < max_build_y" for h k
        using at_height_inject(1) [OF that(1,2), of p] at_height_inject(1) [OF that(3,4), of p] by metis
      have "\<forall>h. min_build_y \<le> h \<and> h < max_build_y \<longrightarrow> f' h = (if falling (f y) then f (swap_heights y d h) else f h)"
      proof (intro allI impI, elim conjE)
        fix h assume h: "min_build_y \<le> h" "h < max_build_y"
        show "f' h = (if falling (f y) then f (swap_heights y d h) else f h)"
          using v4(2) [OF at_height_inject(2) [OF h]] same [OF h, of d] same [OF h, of y] d assms(3,4) v1(1) True
          by (simp add: f_def f'_def swap_heights_def)
      qed
      then have "\<exists>d. (falling (f y) \<longrightarrow> rests f y d) \<and>
          (\<forall>h. min_build_y \<le> h \<and> h < max_build_y \<longrightarrow> f' h = (if falling (f y) then f (swap_heights y d h) else f h))"
        using v2(3) by blast
      moreover have "\<forall>q. in_height q \<longrightarrow> q \<notin> set changed' \<longrightarrow> world_at uncompress w' q = world_at uncompress w q"
      proof (intro allI impI)
        fix q assume "in_height q" "q \<notin> set changed'"
        then show "world_at uncompress w' q = world_at uncompress w q" using v4(2) [of q] w3(3) by simp
      qed
      moreover have "set changed \<subseteq> set changed'" using w3(3) by auto
      ultimately show ?thesis using v4(1) by (intro conjI)
    qed
  qed
qed

text \<open>Every block that can fall, in a range of heights, lies on something.\<close>

definition supported :: "(int \<Rightarrow> block_value) \<Rightarrow> int \<Rightarrow> int \<Rightarrow> bool" where
  "supported f low high = (\<forall>h. low \<le> h \<and> h \<le> high \<and> falling (f h) \<longrightarrow> f (h - 1) \<noteq> air)"

lemma supported_step:
  assumes "supported f low (y - 1)" and "min_build_y < low" "low \<le> y" "y < max_build_y"
    and "falling (f y) \<Longrightarrow> rests f y d"
    and "\<And>h. min_build_y \<le> h \<Longrightarrow> h < max_build_y \<Longrightarrow> f' h = (if falling (f y) then f (swap_heights y d h) else f h)"
  shows "supported f' low y"
  unfolding supported_def
proof (intro allI impI, elim conjE)
  fix h assume h: "low \<le> h" "h \<le> y" "falling (f' h)"
  have f': "f' h = (if falling (f y) then f (swap_heights y d h) else f h)"
    "f' (h - 1) = (if falling (f y) then f (swap_heights y d (h - 1)) else f (h - 1))"
    using assms(2-4,6) h(1,2) by simp_all
  have old: "f (h - 1) \<noteq> air" if "h \<noteq> y" "falling (f h)" using assms(1) h(1,2) that by (simp add: supported_def)
  have not: "\<not> falling air" by (simp add: falling_def air_def sand_def gravel_def)
  show "f' (h - 1) \<noteq> air"
  proof (cases "falling (f y)")
    case False
    then show ?thesis using f' h(3) old by (cases "h = y") auto
  next
    case True
    then have r: "rests f y d" by (rule assms(5))
    then have air: "d \<noteq> y \<Longrightarrow> f d = air" by (simp add: rests_def)
    consider "h = d" | "h \<noteq> d" "h = y" | "h \<noteq> d" "h \<noteq> y" by blast
    then show ?thesis
    proof cases
      case 1
      then show ?thesis using f' True r h(1,2) assms(2) by (auto simp: swap_heights_def rests_def)
    next
      case 2
      then show ?thesis using f' True h(3) air not by (simp add: swap_heights_def)
    next
      case 3
      then show ?thesis using f' True h old not r by (auto simp: swap_heights_def rests_def)
    qed
  qed
qed

lemma settle_blocks:
  assumes "foldR (settle_block deflate uncompress p) [y..max_build_y - 1] (changed, w) = Inr (changed', w')"
    and "world_ok deflate uncompress w" and "min_build_y < low" "low \<le> y" "y \<le> max_build_y"
    and "supported (\<lambda>h. world_at uncompress w (at_height p h)) low (y - 1)"
  shows "world_ok deflate uncompress w' \<and> supported (\<lambda>h. world_at uncompress w' (at_height p h)) low (max_build_y - 1) \<and>
    image_mset (\<lambda>h. world_at uncompress w' (at_height p h)) (mset_set {min_build_y..<max_build_y}) =
      image_mset (\<lambda>h. world_at uncompress w (at_height p h)) (mset_set {min_build_y..<max_build_y}) \<and>
    (\<forall>q. in_height q \<longrightarrow> q \<notin> set changed' \<longrightarrow> world_at uncompress w' q = world_at uncompress w q) \<and>
    set changed \<subseteq> set changed'"
  using assms
proof (induction "nat (max_build_y - y)" arbitrary: y changed w)
  case 0
  then have "y = max_build_y" by simp
  then show ?case using 0 by simp
next
  case (Suc n)
  then have y: "y < max_build_y" by simp
  then have "[y..max_build_y - 1] = y # [y + 1..max_build_y - 1]" by (simp add: upto_rec1)
  then obtain changed1 w1 where s: "settle_block deflate uncompress p y (changed, w) = Inr (changed1, w1)"
    "foldR (settle_block deflate uncompress p) [y + 1..max_build_y - 1] (changed1, w1) = Inr (changed', w')"
    using Suc.prems(1) by (auto simp: bindR_Inr_iff)
  let ?f = "\<lambda>h. world_at uncompress w (at_height p h)" and ?f1 = "\<lambda>h. world_at uncompress w1 (at_height p h)"
  have "min_build_y < y" using Suc.prems(3,4) by simp
  from settle_block_step [OF s(1) Suc.prems(2) this y]
  obtain d where d: "world_ok deflate uncompress w1" "falling (?f y) \<longrightarrow> rests ?f y d"
    "\<And>h. min_build_y \<le> h \<Longrightarrow> h < max_build_y \<Longrightarrow> ?f1 h = (if falling (?f y) then ?f (swap_heights y d h) else ?f h)"
    "\<And>q. in_height q \<Longrightarrow> q \<notin> set changed1 \<Longrightarrow> world_at uncompress w1 q = world_at uncompress w q"
    "set changed \<subseteq> set changed1" by blast
  have "supported ?f1 low y"
    by (rule supported_step [OF Suc.prems(6,3,4) y, where d = d]) (use d(2,3) in blast)+
  then have hyp: "n = nat (max_build_y - (y + 1))" "low \<le> y + 1" "y + 1 \<le> max_build_y" "supported ?f1 low (y + 1 - 1)"
    using Suc.hyps(2) Suc.prems(4) y by simp_all
  note IH = Suc.hyps(1) [OF hyp(1) s(2) d(1) Suc.prems(3) hyp(2-4)]
  have "image_mset ?f1 (mset_set {min_build_y..<max_build_y}) = image_mset ?f (mset_set {min_build_y..<max_build_y})"
  proof (cases "falling (?f y)")
    case True
    then have "y \<in> {min_build_y..<max_build_y}" "d \<in> {min_build_y..<max_build_y}"
      using d(2) \<open>min_build_y < y\<close> y by (auto simp: rests_def)
    then have "image_mset (\<lambda>h. ?f (swap_heights y d h)) (mset_set {min_build_y..<max_build_y}) =
        image_mset ?f (mset_set {min_build_y..<max_build_y})" by (rule swap_heights_mset)
    moreover have "image_mset ?f1 (mset_set {min_build_y..<max_build_y}) =
        image_mset (\<lambda>h. ?f (swap_heights y d h)) (mset_set {min_build_y..<max_build_y})"
      using d(3) True by (intro image_mset_cong) simp
    ultimately show ?thesis by simp
  qed (use d(3) in \<open>intro image_mset_cong; simp\<close>)
  note eq = this
  show ?case
  proof (intro conjI allI impI)
    fix q assume q: "in_height q" "q \<notin> set changed'"
    have "set changed1 \<subseteq> set changed'" using IH by (elim conjE)
    then have "q \<notin> set changed1" using q(2) by blast
    then show "world_at uncompress w' q = world_at uncompress w q"
      using IH [THEN conjunct2, THEN conjunct2, THEN conjunct2, THEN conjunct1] d(4) [OF q(1)] q by simp
  next
    show "set changed \<subseteq> set changed'" using IH d(5) by (elim conjE) (rule subset_trans)
  qed (use IH eq in \<open>elim conjE; simp\<close>)+
qed

section \<open>Operations on a loaded chunk do not fail\<close>

definition loaded :: "world \<Rightarrow> chunk_position \<Rightarrow> bool" where
  "loaded w pos = (map_of (cached (manager w)) pos \<noteq> None)"

lemma on_world_chunk_total:
  assumes "world_ok deflate uncompress w" and "loaded w pos" and "\<And>c. sound_chunk pos c \<Longrightarrow> \<exists>r c'. f c = Inr (r, c')"
  shows "\<exists>r w'. on_world_chunk deflate uncompress w pos f = Inr (r, w') \<and> loaded w' pos"
proof -
  obtain e where e: "map_of (cached (manager w)) pos = Some e" using assms(2) by (auto simp: loaded_def)
  have "sound_chunk pos (entry_chunk e)" using assms(1) e by (simp add: world_ok_def manager_ok_def)
  then obtain r c' where "f (entry_chunk e) = Inr (r, c')" using assms(3) by blast
  then show ?thesis
    using e by (simp add: on_world_chunk_def on_chunk_def cache_load_def Let_def loaded_def release_def store_chunk_def
        map_of_map_entry update_conv')
qed

lemma world_block_total:
  assumes "world_ok deflate uncompress w" and "loaded w (chunk_of (pos_x p) (pos_z p))" and "in_height p"
  shows "\<exists>w'. world_block deflate uncompress w p = Inr (world_at uncompress w p, w') \<and> loaded w' (chunk_of (pos_x p) (pos_z p)) \<and>
    world_ok deflate uncompress w' \<and> world_at uncompress w' = world_at uncompress w"
proof -
  let ?f = "\<lambda>c. bindR (chunk_block c (local_coordinate (sint (pos_x p))) (sint (pos_y p)) (local_coordinate (sint (pos_z p)))) (\<lambda>b. Inr (b, c))"
  have "\<exists>r c'. ?f c = Inr (r, c')" for c using assms(3) by (simp add: chunk_block_eq in_height_def)
  then obtain b w' where "on_world_chunk deflate uncompress w (chunk_of (pos_x p) (pos_z p)) ?f = Inr (b, w')"
    "loaded w' (chunk_of (pos_x p) (pos_z p))"
    using on_world_chunk_total [OF assms(1,2), of ?f] by blast
  moreover from this(1) have "world_block deflate uncompress w p = Inr (b, w')" using assms(3) by (simp add: world_block_def)
  ultimately show ?thesis using world_block_at [OF _ assms(1)] by blast
qed

lemma world_set_block_total:
  assumes "world_ok deflate uncompress w" and "loaded w (chunk_of (pos_x p) (pos_z p))" and "in_height p"
  shows "\<exists>w'. world_set_block deflate uncompress w p b = Inr w' \<and> loaded w' (chunk_of (pos_x p) (pos_z p)) \<and>
    world_ok deflate uncompress w'"
proof -
  let ?f = "\<lambda>c. bindR (chunk_set_block c (local_coordinate (sint (pos_x p))) (sint (pos_y p)) (local_coordinate (sint (pos_z p))) b)
    (\<lambda>c. Inr ((), c))"
  have "\<exists>r c'. ?f c = Inr (r, c')" if "sound_chunk (chunk_of (pos_x p) (pos_z p)) c" for c
    using chunk_set_block_spec [of c "local_coordinate (sint (pos_x p))" "sint (pos_y p)" "local_coordinate (sint (pos_z p))" b]
      that assms(3) by (fastforce simp: sound_chunk_def in_chunk_def in_height_def)
  then obtain r w' where "on_world_chunk deflate uncompress w (chunk_of (pos_x p) (pos_z p)) ?f = Inr (r, w')"
    "loaded w' (chunk_of (pos_x p) (pos_z p))"
    using on_world_chunk_total [OF assms(1,2), of ?f] by blast
  moreover from this(1) have "world_set_block deflate uncompress w p b = Inr w'" using assms(3) by (simp add: world_set_block_def)
  ultimately show ?thesis using world_set_block_view [OF _ assms(1)] by blast
qed

lemma fall_to_total:
  assumes "world_ok deflate uncompress w" and "loaded w (chunk_of (pos_x p) (pos_z p))" and "min_build_y \<le> y" "y < max_build_y"
  shows "\<exists>d w'. fall_to deflate uncompress p y w = Inr (d, w') \<and> loaded w' (chunk_of (pos_x p) (pos_z p))"
  using assms
proof (induction "nat (y - min_build_y)" arbitrary: y w)
  case 0
  then show ?case by (subst fall_to.simps) simp
next
  case (Suc n)
  then have y: "min_build_y < y" by simp
  have "chunk_of (pos_x (at_height p (y - 1))) (pos_z (at_height p (y - 1))) = chunk_of (pos_x p) (pos_z p)"
    "in_height (at_height p (y - 1))"
    using at_height_inject [of "y - 1" p] y Suc.prems(4) by simp_all
  then obtain b w1 where w1: "world_block deflate uncompress w (at_height p (y - 1)) = Inr (b, w1)"
    "loaded w1 (chunk_of (pos_x p) (pos_z p))" "world_ok deflate uncompress w1"
    using world_block_total [OF Suc.prems(1), of "at_height p (y - 1)"] Suc.prems(2) by auto
  have "n = nat (y - 1 - min_build_y)" "min_build_y \<le> y - 1" "y - 1 < max_build_y" using Suc.hyps(2) y Suc.prems(4) by simp_all
  from Suc.hyps(1) [OF this(1) w1(3,2) this(2,3)] w1 y show ?case
    by (subst fall_to.simps) (auto simp del: split_paired_Ex)
qed

lemma settle_block_total:
  assumes "world_ok deflate uncompress w" and "loaded w (chunk_of (pos_x p) (pos_z p))" and "min_build_y < y" "y < max_build_y"
  shows "\<exists>changed' w'. settle_block deflate uncompress p y (changed, w) = Inr (changed', w') \<and>
    loaded w' (chunk_of (pos_x p) (pos_z p)) \<and> world_ok deflate uncompress w'"
proof -
  let ?pos = "chunk_of (pos_x p) (pos_z p)"
  have here: "chunk_of (pos_x (at_height p h)) (pos_z (at_height p h)) = ?pos" for h by (simp add: at_height_def)
  have y: "in_height (at_height p y)" using at_height_inject(2) assms(3,4) by simp
  obtain b w1 where w1: "world_block deflate uncompress w (at_height p y) = Inr (b, w1)" "loaded w1 ?pos" "world_ok deflate uncompress w1"
    using world_block_total [OF assms(1), of "at_height p y"] assms(2) y here by auto
  obtain d w2 where w2: "fall_to deflate uncompress p y w1 = Inr (d, w2)" "loaded w2 ?pos"
    using fall_to_total [OF w1(3,2), of y] assms(3,4) by auto
  have v2: "world_ok deflate uncompress w2" "min_build_y \<le> d" "d < max_build_y"
    using fall_to_rests [OF w2(1) w1(3)] assms(3,4) by (simp_all add: rests_def)
  obtain w3 where w3: "world_set_block deflate uncompress w2 (at_height p y) air = Inr w3" "loaded w3 ?pos" "world_ok deflate uncompress w3"
    using world_set_block_total [OF v2(1), of "at_height p y" air] w2(2) y here by auto
  have "in_height (at_height p d)" using at_height_inject(2) v2 by simp
  then obtain w4 where w4: "world_set_block deflate uncompress w3 (at_height p d) b = Inr w4" "loaded w4 ?pos" "world_ok deflate uncompress w4"
    using world_set_block_total [OF w3(3), of "at_height p d" b] w3(2) here by auto
  show ?thesis using w1 w2 v2(1) w3(1) w4 by (auto simp: settle_block_def)
qed

lemma settle_blocks_total:
  assumes "world_ok deflate uncompress w" and "loaded w (chunk_of (pos_x p) (pos_z p))"
    and "\<forall>y \<in> set ys. min_build_y < y \<and> y < max_build_y"
  shows "\<exists>changed' w'. foldR (settle_block deflate uncompress p) ys (changed, w) = Inr (changed', w')"
  using assms
proof (induction ys arbitrary: changed w)
  case (Cons y ys)
  obtain changed1 w1 where "settle_block deflate uncompress p y (changed, w) = Inr (changed1, w1)"
    "loaded w1 (chunk_of (pos_x p) (pos_z p))" "world_ok deflate uncompress w1"
    using settle_block_total [OF Cons.prems(1,2), of y changed] Cons.prems(3) by auto
  with Cons.IH [of w1 changed1] Cons.prems(3) show ?case by simp
qed simp

section \<open>Properties\<close>

lemma length_update: "pos \<in> fst ` set es \<Longrightarrow> length (AList.update pos v es) = length es"
  by (induction es) auto

text \<open>A load keeps the cache within its limit: afterwards no more chunks are loaded than before, or no more than the
  limit, or every chunk that is loaded is held by somebody (or carries the last access number there is).
  The eviction ends, whatever the limit.\<close>

theorem cache_limit:
  "case cache_load load save m pos of
     Inl e \<Rightarrow> map_of (cached m) pos = None
   | Inr (c, m') \<Rightarrow> loaded_count m' \<le> max (max_loaded_chunks m) (loaded_count m) \<or>
       list_all (\<lambda>(p, e). 0 < holders e \<or> last_access e = - 1) (cached m')"
proof (cases "map_of (cached m) pos")
  case (Some e)
  then have "pos \<in> fst ` set (cached m)" by (metis domI dom_map_of_conv_image_fst)
  then have "length (AList.update pos v (cached m)) = length (cached m)" for v by (rule length_update)
  then show ?thesis using Some by (simp add: cache_load_def Let_def loaded_count_def)
next
  case None
  show ?thesis
  proof (cases "cache_load load save m pos")
    case (Inr r)
    obtain c m' where r: "r = (c, m')" by (cases r)
    then obtain m1 where "evict_to_limit save m1 = Inr m'" "max_loaded_chunks m1 = max_loaded_chunks m"
      using Inr None by (auto simp: cache_load_def Let_def bindR_Inr_iff)
    from evict_to_limit_bound [OF this(1)] this(2) show ?thesis
      using Inr r by (auto simp: loaded_count_def list_all_iff le_max_iff_disj)
  qed (use None in simp)
qed

text \<open>C1. A world with a storage is a map from positions to blocks: whatever sequence of reads, writes, saves, unloads and
  evictions runs on it, the reads see exactly what the map holds at their position: the last write, or what was
  there at the start, though chunks are generated, stored, dropped from the cache and loaded again on the way.\<close>

theorem world_refines_map:
  assumes "world_ok deflate uncompress w" and "world_run deflate uncompress as w = Inr (bs, w')"
  shows "world_ok deflate uncompress w' \<and> bs = fst (map_run as (world_at uncompress w)) \<and>
    agree (world_at uncompress w') (snd (map_run as (world_at uncompress w)))"
  by (rule world_run_refines [OF assms(2,1)]) (simp add: agree_def)

text \<open>C36. A restart after saving loses nothing: a new chunk manager over the storage that the saved world leaves, with the
  same generator, stands for the same blocks as the world did, with every chunk unloaded.\<close>

theorem world_restart_keeps_blocks:
  assumes "world_ok deflate uncompress w" and "world_save_dirty deflate w = Inr (n, w1)"
    and "new_chunk_manager (generator (manager w)) limit (disk (manager w1)) = Inr m"
  shows "world_ok deflate uncompress (w1\<lparr>manager := m\<rparr>) \<and> cached m = [] \<and>
    world_at uncompress (w1\<lparr>manager := m\<rparr>) = world_at uncompress w \<and>
    n = length (filter (\<lambda>(pos, e). dirty (entry_chunk e)) (cached (manager w)))"
proof -
  obtain m1 where m1: "save_dirty (save_chunk deflate) (manager w) = Inr (n, m1)" "w1 = w\<lparr>manager := m1\<rparr>"
    using assms(2) by (auto simp: world_save_dirty_def bindR_Inr_iff)
  note v = level.save_dirty_view [where deflate = deflate and uncompress = uncompress, OF m1(1)]
  have m: "m = \<lparr>generator = generator (manager w), max_loaded_chunks = limit, disk = disk m1, cached = [], access_counter = 0\<rparr>"
    using assms(3) m1(2) by (simp add: new_chunk_manager_def split: if_splits)
  have "world_chunk uncompress (w1\<lparr>manager := m\<rparr>) = world_chunk uncompress w"
  proof -
    have "unloaded_view (stored_chunk uncompress) (generator (manager w)) (disk m1) = world_chunk uncompress w"
      using v assms(1) by (auto simp: world_ok_def world_chunk_def)
    then show ?thesis by (simp add: m world_chunk_def manager_view_def fun_eq_iff)
  qed
  then have "world_at uncompress (w1\<lparr>manager := m\<rparr>) = world_at uncompress w" by (rule world_at_cong)
  moreover have "world_ok deflate uncompress (w1\<lparr>manager := m\<rparr>)"
    using v assms(1) m by (simp add: world_ok_def manager_ok_def)
  ultimately show ?thesis using v assms(1) m by (simp add: world_ok_def)
qed

text \<open>C35. Settling a column, when its chunk is loaded, ends without an error: afterwards no sand and no gravel from the
  given height up hangs over air, the column has the same blocks, each as often as before, and every position
  whose block changed, anywhere in the world, is in the list of changes.\<close>

theorem settle_column:
  assumes "world_ok deflate uncompress w" and "loaded w (chunk_of (pos_x p) (pos_z p))"
  shows "case settle_falling_column deflate uncompress p w of
      Inl e \<Rightarrow> False
    | Inr (changed, w') \<Rightarrow> world_ok deflate uncompress w' \<and>
        supported (\<lambda>y. world_at uncompress w' (at_height p y)) (max (sint (pos_y p)) (min_build_y + 1)) (max_build_y - 1) \<and>
        image_mset (\<lambda>y. world_at uncompress w' (at_height p y)) (mset_set {min_build_y..<max_build_y}) =
          image_mset (\<lambda>y. world_at uncompress w (at_height p y)) (mset_set {min_build_y..<max_build_y}) \<and>
        agree (\<lambda>q. if q \<in> set changed then 0 else world_at uncompress w' q)
          (\<lambda>q. if q \<in> set changed then 0 else world_at uncompress w q)"
proof -
  let ?low = "max (sint (pos_y p)) (min_build_y + 1)"
  obtain changed w' where s: "foldR (settle_block deflate uncompress p) [?low..max_build_y - 1] ([], w) = Inr (changed, w')"
    using settle_blocks_total [OF assms, of "[?low..max_build_y - 1]" "[]"] by fastforce
  have v: "world_ok deflate uncompress w' \<and> supported (\<lambda>h. world_at uncompress w' (at_height p h)) ?low (max_build_y - 1) \<and>
    image_mset (\<lambda>h. world_at uncompress w' (at_height p h)) (mset_set {min_build_y..<max_build_y}) =
      image_mset (\<lambda>h. world_at uncompress w (at_height p h)) (mset_set {min_build_y..<max_build_y}) \<and>
    (\<forall>q. in_height q \<longrightarrow> q \<notin> set changed \<longrightarrow> world_at uncompress w' q = world_at uncompress w q)"
  proof (cases "?low \<le> max_build_y")
    case True
    have "supported (\<lambda>h. world_at uncompress w (at_height p h)) ?low (?low - 1)"
      unfolding supported_def by (intro allI impI, elim conjE) linarith
    from settle_blocks [OF s assms(1) _ order_refl True this] show ?thesis by simp
  next
    case False
    then have "[?low..max_build_y - 1] = []" by auto
    then have "w' = w" using s by simp
    moreover have "supported (\<lambda>h. world_at uncompress w (at_height p h)) ?low (max_build_y - 1)"
      unfolding supported_def using False by (intro allI impI, elim conjE) linarith
    ultimately show ?thesis using assms(1) by simp
  qed
  then show ?thesis using s by (simp add: settle_falling_column_def agree_def)
qed


text \<open>A world over an empty storage, with one chunk loaded that nobody holds and that was changed since it was loaded.\<close>

definition sample_world :: world where
  "sample_world = \<lparr>
     manager = \<lparr>generator = \<lparr>seed = 42, sea_level = 63\<rparr>, max_loaded_chunks = 4, disk = Some empty_storage,
       cached = [(origin, \<lparr>entry_chunk = (new_chunk origin)\<lparr>dirty := True\<rparr>, last_access = 1, holders = 0\<rparr>)], access_counter = 1\<rparr>,
     metadata = sample_metadata, game_time = 0, day_time = 0, advance_time = True, weather_seed = 42,
     weather_duration = 12000, raining = False, thundering = False, weather_cycle = True, difficulty = 2, rules = []\<rparr>"

definition sample_position :: block_position where
  "sample_position = \<lparr>pos_x = 3, pos_y = 70, pos_z = 5\<rparr>"

lemma sample_world_ok: "world_ok copy_deflate copy_uncompress sample_world" "loaded sample_world origin"
proof -
  have "sound_chunk origin ((new_chunk origin)\<lparr>dirty := True\<rparr>)"
    using sound_mark_saved [of origin "(new_chunk origin)\<lparr>dirty := True\<rparr>"] heights_exact_cover [OF new_chunk_heights [of origin]]
    by (simp add: sound_chunk_def mark_saved_def) (simp add: new_chunk_def chunk_ok_def heights_cover_def block_at_def)
  then show "world_ok copy_deflate copy_uncompress sample_world" "loaded sample_world origin"
    using copy_zlib empty_storage_ok
    by (simp_all add: world_ok_def manager_ok_def sample_world_def loaded_def build_y)
qed

lemma sample_position_chunk: "chunk_of (pos_x sample_position) (pos_z sample_position) = origin" "in_height sample_position"
  by (simp_all add: chunk_of_def sample_position_def origin_def floor_div_div in_height_def build_y)

theorem world_refines_map_witness:
  "\<exists>w'. world_run copy_deflate copy_uncompress [Write_Block sample_position stone, Read_Block sample_position] sample_world = Inr ([stone], w')"
proof -
  note p = sample_position_chunk
  obtain w1 where w1: "world_set_block copy_deflate copy_uncompress sample_world sample_position stone = Inr w1" "loaded w1 origin"
    "world_ok copy_deflate copy_uncompress w1"
    using world_set_block_total [OF sample_world_ok(1), of sample_position stone] sample_world_ok(2) p by auto
  obtain b w2 where w2: "world_block copy_deflate copy_uncompress w1 sample_position = Inr (b, w2)"
    using world_block_total [OF w1(3), of sample_position] w1(2) p by auto
  have run: "world_run copy_deflate copy_uncompress [Write_Block sample_position stone, Read_Block sample_position] sample_world = Inr ([b], w2)"
    using w1(1) w2 by simp
  from world_refines_map [OF sample_world_ok(1) run] have "b = stone" by simp
  with run show ?thesis by blast
qed

theorem world_restart_keeps_blocks_witness:
  "\<exists>n w1 m. world_save_dirty copy_deflate sample_world = Inr (n, w1) \<and> n = 1 \<and>
     new_chunk_manager (generator (manager sample_world)) 9 (disk (manager w1)) = Inr m \<and>
     world_at copy_uncompress (w1\<lparr>manager := m\<rparr>) = world_at copy_uncompress sample_world"
proof -
  have "sound_chunk origin ((new_chunk origin)\<lparr>dirty := True\<rparr>)"
    using sample_world_ok(1) by (auto simp: world_ok_def manager_ok_def sample_world_def split: if_splits)
  then obtain st' where "save_chunk copy_deflate empty_storage ((new_chunk origin)\<lparr>dirty := True\<rparr>) = Inr st'"
    using first_chunk_save [of "(new_chunk origin)\<lparr>dirty := True\<rparr>"] unfolding sound_chunk_def by blast
  then obtain n w1 where w1: "world_save_dirty copy_deflate sample_world = Inr (n, w1)"
    by (simp add: world_save_dirty_def save_dirty_def sample_world_def save_entry_def)
  moreover obtain m where m: "new_chunk_manager (generator (manager sample_world)) 9 (disk (manager w1)) = Inr m"
    by (simp add: new_chunk_manager_def)
  ultimately show ?thesis
    using world_restart_keeps_blocks [OF sample_world_ok(1) w1 m] by (auto simp: sample_world_def)
qed

theorem settle_column_witness:
  "\<exists>changed w'. settle_falling_column copy_deflate copy_uncompress sample_position sample_world = Inr (changed, w') \<and>
     supported (\<lambda>y. world_at copy_uncompress w' (at_height sample_position y)) 70 319"
  using settle_column [OF sample_world_ok(1), of sample_position] sample_world_ok(2) sample_position_chunk(1)
  by (auto split: sum.splits simp: sample_position_def build_y)

section \<open>The weather's state machine\<close>

text \<open>
  A world starts from its settings. Every operation on blocks and chunks changes
  only the chunk manager of the world (\<open>step_chunks\<close>, any change of it).
\<close>

inductive weather_step :: "world \<Rightarrow> world \<Rightarrow> bool" where
  step_time: "weather_step w (tick_time t w)"
| step_turn: "weather_step w (snd (turn_weather t w))"
| step_weather: "weather_step w (set_weather rain thunder duration w)"
| step_cycle: "weather_step w (set_weather_cycle b w)"
| step_day: "weather_step w (set_day_time t w)"
| step_advance: "weather_step w (set_advance_time b w)"
| step_chunks: "weather_step w (w\<lparr>manager := m\<rparr>)"
| step_difficulty: "set_difficulty d w = Inr w' \<Longrightarrow> weather_step w w'"
| step_spawn: "set_spawn p w = Inr w' \<Longrightarrow> weather_step w w'"
| step_rule: "set_game_rule name v w = Inr w' \<Longrightarrow> weather_step w w'"

inductive weather_reaches :: "world \<Rightarrow> world \<Rightarrow> bool" for w where
  start: "weather_reaches w w"
| more_steps: "weather_reaches w w' \<Longrightarrow> weather_step w' w'' \<Longrightarrow> weather_reaches w w''"

definition dry_thunder :: "world \<Rightarrow> bool" where
  "dry_thunder w = (thundering w \<and> \<not> raining w)"

text \<open>The constructor leaves at least one tick; it takes rain and thunder as they are in the settings.\<close>

lemma new_world_weather:
  assumes "new_world left_first s = Inr w"
  shows "0 < weather_duration w" and "dry_thunder w \<longleftrightarrow> initial_thunder s \<and> \<not> initial_rain s"
proof -
  have "0 < max 1 (initial_duration s)" by (simp add: less_max_iff_disj)
  then show "0 < weather_duration w" "dry_thunder w \<longleftrightarrow> initial_thunder s \<and> \<not> initial_rain s"
    using assms by (auto simp: new_world_def dry_thunder_def bindR_Inr_iff)
qed

lemma new_duration: "0 < (ucast (6000 + random mod 12001 :: u64) :: u32)"
proof -
  have "unat (random mod 12001) < 12001" by (simp add: unat_mod_distrib)
  moreover have "unat (6000 + random mod 12001) = 6000 + unat (random mod 12001)"
    using calculation by (subst unat_add_lem [THEN iffD1]) simp_all
  ultimately have "unat (ucast (6000 + random mod 12001) :: u32) = 6000 + unat (random mod 12001)"
    by (simp add: unsigned_ucast_eq take_bit_nat_eq_self)
  then show ?thesis by (simp add: word_less_nat_alt)
qed


lemma weather_step_ok: "weather_step w w' \<Longrightarrow> 0 < weather_duration w \<Longrightarrow> 0 < weather_duration w' \<and> (dry_thunder w' \<longrightarrow> dry_thunder w)"
proof (induction rule: weather_step.induct)
  case (step_turn w t)
  then show ?case
    using new_duration word_gt_0 [of "weather_duration w - t"]
    by (auto simp: turn_weather_def dry_thunder_def Let_def)
next
  case (step_weather w rain thunder duration)
  have "0 < max 1 duration" by (simp add: less_max_iff_disj)
  then show ?case by (auto simp: set_weather_def dry_thunder_def)
qed (auto simp: dry_thunder_def tick_time_def set_weather_cycle_def set_day_time_def set_advance_time_def
    set_difficulty_def set_spawn_def set_game_rule_def split: if_splits)

lemma weather_reaches_ok:
  "weather_reaches w w' \<Longrightarrow> 0 < weather_duration w \<Longrightarrow> 0 < weather_duration w' \<and> (dry_thunder w' \<longrightarrow> dry_thunder w)"
  by (induction rule: weather_reaches.induct) (auto dest: weather_step_ok)

text \<open>The server's ticks: the clock moves by one, then the weather.\<close>

fun quiet_ticks :: "nat \<Rightarrow> world \<Rightarrow> world" where
  "quiet_ticks 0 w = w"
| "quiet_ticks (Suc n) w = quiet_ticks n (snd (turn_weather 1 (tick_time 1 w)))"

lemma quiet_ticks_wait:
  "weather_cycle w \<Longrightarrow> n < unat (weather_duration w) \<Longrightarrow>
   raining (quiet_ticks n w) = raining w \<and> weather_cycle (quiet_ticks n w) \<and>
   unat (weather_duration (quiet_ticks n w)) = unat (weather_duration w) - n"
proof (induction n arbitrary: w)
  case (Suc n)
  let ?w = "snd (turn_weather 1 (tick_time 1 w))"
  have "\<not> weather_duration w \<le> 1" using Suc.prems(2) by (simp add: word_le_nat_alt)
  then have w: "weather_cycle ?w" "raining ?w = raining w" "weather_duration ?w = weather_duration w - 1"
    using Suc.prems(1) by (simp_all add: turn_weather_def tick_time_def)
  have "weather_duration w \<noteq> 0" using Suc.prems(2) by auto
  then have "unat (weather_duration ?w) = unat (weather_duration w) - 1" by (simp add: w(3) unat_minus_one)
  with Suc.IH [OF w(1)] Suc.prems(2) w(2) show ?case by simp
qed simp

lemma quiet_ticks_snoc: "quiet_ticks (Suc n) w = snd (turn_weather 1 (tick_time 1 (quiet_ticks n w)))"
  by (induction n arbitrary: w) simp_all

text \<open>C37. The weather never sticks: from the construction of a world on, in every state that the clock, the ticks, the
  commands and the work on chunks can reach, some time is left. While the cycle is on, nothing changes for
  exactly the time that is left, and the next tick turns the weather. Thunder without rain occurs only when
  the settings the world was constructed from ask for it; the turns and the commands never produce it.\<close>

theorem weather_turns:
  assumes "new_world left_first s = Inr w" and "weather_reaches w w'"
  shows "0 < weather_duration w' \<and>
    (if thundering w' \<and> \<not> raining w' then initial_thunder s \<and> \<not> initial_rain s else True) \<and>
    (let n = unat (weather_duration w') - 1 in
     \<not> weather_cycle w' \<or> (raining (quiet_ticks n w') = raining w' \<and> raining (quiet_ticks (Suc n) w') \<noteq> raining w'))"
proof -
  note new = new_world_weather [OF assms(1)]
  have ok: "0 < weather_duration w'" "dry_thunder w' \<longrightarrow> initial_thunder s \<and> \<not> initial_rain s"
    using weather_reaches_ok [OF assms(2) new(1)] new(2) by simp_all
  define n where "n = unat (weather_duration w') - 1"
  have n: "n < unat (weather_duration w')" "unat (weather_duration w') - n = 1"
    using ok by (simp_all add: n_def word_less_nat_alt)
  have "raining (quiet_ticks n w') = raining w' \<and> raining (quiet_ticks (Suc n) w') \<noteq> raining w'" if c: "weather_cycle w'"
  proof -
    note q = quiet_ticks_wait [OF c n(1)]
    then have "weather_duration (quiet_ticks n w') = 1" using n(2) by (metis unat_1 word_unat_eq_iff)
    then show ?thesis using q by (simp add: quiet_ticks_snoc turn_weather_def tick_time_def Let_def del: quiet_ticks.simps)
  qed
  then show ?thesis using ok unfolding n_def Let_def dry_thunder_def by simp
qed

definition sample_settings :: world_settings where
  "sample_settings = \<lparr>generation = \<lparr>seed = 42, sea_level = 63\<rparr>, chunk_limit = 4, level_files = None,
     initial_game_time = 0, initial_day_time = 0, initial_advance = True, initial_duration = 12000, initial_rain = False,
     initial_thunder = False, initial_cycle = True, initial_difficulty = 2\<rparr>"

theorem weather_turns_witness:
  "\<exists>w. new_world True sample_settings = Inr w \<and> weather_duration w = 12000 \<and>
     \<not> raining (quiet_ticks 11999 w) \<and> raining (quiet_ticks 12000 w) \<and>
     raining (set_weather True True 0 w) \<and> \<not> raining (quiet_ticks 1 (set_weather True True 0 w))"
proof -
  obtain w where w: "new_world True sample_settings = Inr w"
    by (simp add: new_world_def new_generator_def new_chunk_manager_def sample_settings_def build_y)
  then have f: "weather_duration w = 12000" "weather_cycle w" "\<not> raining w"
    by (auto simp: new_world_def new_generator_def new_chunk_manager_def sample_settings_def build_y)
  have "\<not> raining (quiet_ticks 11999 w) \<and> raining (quiet_ticks (Suc 11999) w)"
    using weather_turns [OF w weather_reaches.start] f by (simp add: Let_def del: quiet_ticks.simps)
  then have first: "\<not> raining (quiet_ticks 11999 w)" "raining (quiet_ticks 12000 w)"
    by (simp_all del: quiet_ticks.simps)
  have "weather_reaches w (set_weather True True 0 w)"
    by (blast intro: weather_reaches.intros weather_step.intros)
  from weather_turns [OF w this] f(2) have "\<not> raining (quiet_ticks 1 (set_weather True True 0 w))"
    by (simp add: set_weather_def Let_def)
  with w f(1) first show ?thesis by (simp add: set_weather_def del: quiet_ticks.simps)
qed

text \<open>
  The constructor does not join thunder to rain as \<open>set_weather\<close> does: settings, or
  a stored state, with thunder and no rain give a world that storms in the dry.
\<close>

lemma dry_thunder_kept:
  "\<exists>w. new_world True (sample_settings\<lparr>initial_thunder := True\<rparr>) = Inr w \<and> thundering w \<and> \<not> raining w"
  by (simp add: new_world_def new_generator_def new_chunk_manager_def sample_settings_def build_y)

end
