(* ===== verification/Ticks.thy ===== *)
theory Ticks
  imports World
begin

text \<open>
  Block ticks (include/mc/world/ticks.hpp and src/world/ticks.cpp): updates
  scheduled for a tick, falling blocks, flowing water, and the random ticks that
  spread and smother grass.

  The schedule is a \<open>std::multimap\<close>: a list in the order of its times, in which a
  new entry goes behind the entries of the same time. A tick visits the entries
  that are due when it starts; what it schedules is later.
\<close>

section \<open>The schedule\<close>

record tick_system =
  tick_seed :: u64
  current_tick :: u64
  scheduled :: "(u64 \<times> block_position) list"

definition new_tick_system :: "u64 \<Rightarrow> tick_system" where
  "new_tick_system s = \<lparr>tick_seed = s, current_tick = 0, scheduled = []\<rparr>"

fun schedule_at :: "u64 \<Rightarrow> block_position \<Rightarrow> (u64 \<times> block_position) list \<Rightarrow> (u64 \<times> block_position) list" where
  "schedule_at t p [] = [(t, p)]"
| "schedule_at t p ((t', p') # es) = (if t < t' then (t, p) # (t', p') # es else (t', p') # schedule_at t p es)"

definition emplace_tick :: "u64 \<Rightarrow> block_position \<Rightarrow> tick_system \<Rightarrow> tick_system" where
  "emplace_tick t p s = s\<lparr>scheduled := schedule_at t p (scheduled s)\<rparr>"

definition shifted :: "block_position \<Rightarrow> i32 \<times> i32 \<times> i32 \<Rightarrow> block_position" where
  "shifted p = (\<lambda>(x, y, z). \<lparr>pos_x = pos_x p + x, pos_y = pos_y p + y, pos_z = pos_z p + z\<rparr>)"

definition neighbor_offsets :: "(i32 \<times> i32 \<times> i32) list" where
  "neighbor_offsets = [(0, 0, 0), (0, 1, 0), (0, - 1, 0), (1, 0, 0), (- 1, 0, 0), (0, 0, 1), (0, 0, - 1)]"

definition notify_neighbors :: "block_position \<Rightarrow> u32 \<Rightarrow> tick_system \<Rightarrow> tick_system" where
  "notify_neighbors p delay_ticks s =
     fold (\<lambda>offset s. emplace_tick (current_tick s + ucast (max 1 delay_ticks)) (shifted p offset) s) neighbor_offsets s"

section \<open>Flowing water\<close>

definition flow_offsets :: "(i32 \<times> i32 \<times> i32) list" where
  "flow_offsets = [(1, 0, 0), (- 1, 0, 0), (0, 0, 1), (0, 0, - 1)]"

text \<open>The first free neighbour of the four, from a random one on.\<close>

fun flow_aside :: "deflater \<Rightarrow> inflater \<Rightarrow> block_position \<Rightarrow> u64 \<Rightarrow> nat list \<Rightarrow> world \<Rightarrow> (block_position list \<times> world) result" where
  "flow_aside deflate uncompress p random [] w = Inr ([], w)"
| "flow_aside deflate uncompress p random (attempt # rest) w =
     (let adjacent = shifted p (flow_offsets ! (unat (random + word_of_nat attempt) mod length flow_offsets)) in
      bindR (world_block deflate uncompress w adjacent) (\<lambda>(b, w).
      if b = air
      then bindR (world_set_block deflate uncompress w adjacent water) (\<lambda>w. Inr ([adjacent], w))
      else flow_aside deflate uncompress p random rest w))"

definition fluid_tick_at :: "deflater \<Rightarrow> inflater \<Rightarrow> block_position \<Rightarrow> u64 \<Rightarrow> tick_system \<times> world \<Rightarrow>
    (block_position list \<times> tick_system \<times> world) result" where
  "fluid_tick_at deflate uncompress p random = (\<lambda>(s, w).
     if sint (pos_y p) \<le> min_build_y \<or> sint (pos_y p) \<ge> max_build_y then Inr ([], s, w)
     else bindR (world_block deflate uncompress w p) (\<lambda>(b, w).
       if b \<noteq> water then Inr ([], s, w)
       else
         let below = shifted p (0, - 1, 0) in
         bindR (world_block deflate uncompress w below) (\<lambda>(under, w).
         if under = air
         then bindR (world_set_block deflate uncompress w below water) (\<lambda>w.
           Inr ([below], emplace_tick (current_tick s + 5) below s, w))
         else bindR (flow_aside deflate uncompress p random [0..<4] w) (\<lambda>(changed, w). Inr (changed, s, w)))))"

section \<open>Random ticks\<close>

definition random_tick_at :: "deflater \<Rightarrow> inflater \<Rightarrow> block_position \<Rightarrow> u64 \<Rightarrow> tick_system \<times> world \<Rightarrow>
    (block_position list \<times> tick_system \<times> world) result" where
  "random_tick_at deflate uncompress p random = (\<lambda>(s, w).
     if sint (pos_y p) < min_build_y \<or> sint (pos_y p) + 1 \<ge> max_build_y then Inr ([], s, w)
     else bindR (world_block deflate uncompress w p) (\<lambda>(b, w).
       let above = shifted p (0, 1, 0) in
       if b = water then fluid_tick_at deflate uncompress p random (s, w)
       else if b = dirt
       then bindR (world_block deflate uncompress w above) (\<lambda>(over, w).
         if over = air
         then bindR (world_biome deflate uncompress w (pos_x p) (pos_y p) (pos_z p)) (\<lambda>(biome, w).
           if biome \<noteq> desert \<and> biome \<noteq> ocean
           then bindR (world_set_block deflate uncompress w p grass_block) (\<lambda>w. Inr ([p], s, w))
           else Inr ([], s, w))
         else Inr ([], s, w))
       else if b = grass_block
       then bindR (world_solid deflate uncompress w above) (\<lambda>(covered, w).
         if covered then bindR (world_set_block deflate uncompress w p dirt) (\<lambda>w. Inr ([p], s, w))
         else bindR (world_block deflate uncompress w above) (\<lambda>(over, w).
           if over = air \<and> random mod 32 = 0
           then bindR (world_set_block deflate uncompress w above short_grass) (\<lambda>w. Inr ([above], s, w))
           else Inr ([], s, w)))
       else Inr ([], s, w)))"

section \<open>A tick\<close>

definition scheduled_tick :: "deflater \<Rightarrow> inflater \<Rightarrow> u64 \<times> block_position \<Rightarrow> block_position list \<times> tick_system \<times> world \<Rightarrow>
    (block_position list \<times> tick_system \<times> world) result" where
  "scheduled_tick deflate uncompress = (\<lambda>(t, p) (changed, s, w).
     if sint (pos_y p) > min_build_y \<and> sint (pos_y p) < max_build_y
     then bindR (settle_falling_column deflate uncompress p w) (\<lambda>(gravity, w).
       bindR (fluid_tick_at deflate uncompress p (mix (tick_seed s XOR current_tick s)) (s, w)) (\<lambda>(fluid, s, w).
       Inr (changed @ gravity @ fluid, s, w)))
     else Inr (changed, s, w))"

definition chunk_bits :: "chunk_position \<Rightarrow> u64" where
  "chunk_bits pos = push_bit 32 (ucast (chunk_x pos)) OR ucast (chunk_z pos)"

definition surface_tick :: "deflater \<Rightarrow> inflater \<Rightarrow> chunk_position \<times> nat \<Rightarrow> block_position list \<times> tick_system \<times> world \<Rightarrow>
    (block_position list \<times> tick_system \<times> world) result" where
  "surface_tick deflate uncompress = (\<lambda>(pos, attempt) (changed, s, w).
     let random = mix (tick_seed s XOR mix (current_tick s) XOR mix (chunk_bits pos) XOR word_of_nat attempt);
         x = chunk_x pos * 16 + ucast (random AND 15);
         z = chunk_z pos * 16 + ucast (drop_bit 4 random AND 15) in
     bindR (world_surface_height deflate uncompress w x z) (\<lambda>(y, w).
     bindR (random_tick_at deflate uncompress \<lparr>pos_x = x, pos_y = word_of_int y, pos_z = z\<rparr> random (s, w)) (\<lambda>(changes, s, w).
     Inr (changed @ changes, s, w))))"

definition tick :: "deflater \<Rightarrow> inflater \<Rightarrow> chunk_position list \<Rightarrow> tick_system \<times> world \<Rightarrow>
    (block_position list \<times> tick_system \<times> world) result" where
  "tick deflate uncompress active = (\<lambda>(s, w).
     let now = current_tick s + 1;
         due = takeWhile (\<lambda>(t, _). t \<le> now) (scheduled s);
         s = s\<lparr>current_tick := now, scheduled := dropWhile (\<lambda>(t, _). t \<le> now) (scheduled s)\<rparr> in
     bindR (foldR (scheduled_tick deflate uncompress) due ([], s, w)) (\<lambda>r.
     foldR (surface_tick deflate uncompress) (List.product active [0..<3]) r))"

section \<open>The schedule stays in order\<close>

definition in_order :: "tick_system \<Rightarrow> bool" where
  "in_order s = sorted (map fst (scheduled s))"

lemma schedule_at_mset: "mset (schedule_at t p es) = add_mset (t, p) (mset es)"
  by (induction t p es rule: schedule_at.induct) auto

lemma schedule_at_times: "set (map fst (schedule_at t p es)) = insert t (set (map fst es))"
  by (induction t p es rule: schedule_at.induct) auto

lemma schedule_at_sorted: "sorted (map fst es) \<Longrightarrow> sorted (map fst (schedule_at t p es))"
proof (induction t p es rule: schedule_at.induct)
  case (2 t p t' p' es)
  then show ?case using schedule_at_times [of t p es] by fastforce
qed simp

lemma emplace_tick_facts:
  "in_order s \<Longrightarrow> in_order (emplace_tick t p s)" "current_tick (emplace_tick t p s) = current_tick s"
  "mset (scheduled (emplace_tick t p s)) = add_mset (t, p) (mset (scheduled s))"
  by (simp_all add: in_order_def emplace_tick_def schedule_at_sorted schedule_at_mset)

lemma due_filter:
  assumes "sorted (map fst es)"
  shows "takeWhile (\<lambda>(t, p). t \<le> now) es = filter (\<lambda>(t, p). t \<le> (now :: u64)) es"
    "dropWhile (\<lambda>(t, p). t \<le> now) es = filter (\<lambda>(t, p). now < t) es"
proof -
  have "takeWhile (\<lambda>(t, p). t \<le> now) es = filter (\<lambda>(t, p). t \<le> now) es \<and>
    dropWhile (\<lambda>(t, p). t \<le> now) es = filter (\<lambda>(t, p). now < t) es"
    using assms
  proof (induction es)
    case (Cons e es)
    show ?case
    proof (cases "fst e \<le> now")
      case True
      then show ?thesis using Cons by (auto simp: split_def)
    next
      case False
      then have "\<forall>x \<in> set es. now < fst x" using Cons.prems by (auto simp: not_le)
      then have "filter (\<lambda>(t, p). t \<le> now) es = []" "filter (\<lambda>(t, p). now < t) es = es"
        by (auto simp: filter_empty_conv filter_id_conv split_def)
      then show ?thesis using False by (simp add: split_def)
    qed
  qed simp
  then show "takeWhile (\<lambda>(t, p). t \<le> now) es = filter (\<lambda>(t, p). t \<le> (now :: u64)) es"
    "dropWhile (\<lambda>(t, p). t \<le> now) es = filter (\<lambda>(t, p). now < t) es" by simp_all
qed

section \<open>What a step reports\<close>

text \<open>
  A step on a world and a schedule, and its report: no block changes outside the
  report, and what is scheduled is for five ticks later and in the report.
\<close>

definition changes_only :: "inflater \<Rightarrow> world \<Rightarrow> block_position list \<Rightarrow> world \<Rightarrow> bool" where
  "changes_only uncompress w changed w' =
     (\<forall>q. in_height q \<longrightarrow> q \<notin> set changed \<longrightarrow> world_at uncompress w' q = world_at uncompress w q)"

definition scheduled_by :: "tick_system \<Rightarrow> block_position list \<Rightarrow> tick_system \<Rightarrow> bool" where
  "scheduled_by s changed s' = (\<exists>new. set new \<subseteq> set changed \<and>
     mset (scheduled s') = mset (scheduled s) + mset (map (\<lambda>p. (current_tick s + 5, p)) new))"

definition reported :: "deflater \<Rightarrow> inflater \<Rightarrow> tick_system \<times> world \<Rightarrow> block_position list \<Rightarrow> tick_system \<times> world \<Rightarrow> bool" where
  "reported deflate uncompress = (\<lambda>(s, w) changed (s', w').
     world_ok deflate uncompress w' \<and> changes_only uncompress w changed w' \<and>
     current_tick s' = current_tick s \<and> tick_seed s' = tick_seed s \<and> (in_order s \<longrightarrow> in_order s') \<and>
     scheduled_by s changed s')"

lemma scheduled_by_refl [simp]: "scheduled_by s cs s"
  by (simp add: scheduled_by_def exI [of _ "[]"])

lemma scheduled_by_trans:
  assumes "scheduled_by s cs s1" "scheduled_by s1 ds s2" "current_tick s1 = current_tick s"
  shows "scheduled_by s (cs @ ds) s2"
proof -
  obtain new1 where 1: "set new1 \<subseteq> set cs"
    "mset (scheduled s1) = mset (scheduled s) + mset (map (\<lambda>p. (current_tick s + 5, p)) new1)"
    using assms(1) by (auto simp: scheduled_by_def)
  obtain new2 where 2: "set new2 \<subseteq> set ds"
    "mset (scheduled s2) = mset (scheduled s1) + mset (map (\<lambda>p. (current_tick s1 + 5, p)) new2)"
    using assms(2) by (auto simp: scheduled_by_def)
  show ?thesis unfolding scheduled_by_def
    by (rule exI [of _ "new1 @ new2"]) (use 1 2 assms(3) in auto)
qed

lemma scheduled_by_emplace:
  assumes "scheduled_by s cs s1" "p \<in> set cs" "current_tick s1 = current_tick s"
  shows "scheduled_by s cs (emplace_tick (current_tick s1 + 5) p s1)"
proof -
  obtain new where "set new \<subseteq> set cs"
    "mset (scheduled s1) = mset (scheduled s) + mset (map (\<lambda>p. (current_tick s + 5, p)) new)"
    using assms(1) by (auto simp: scheduled_by_def)
  then show ?thesis unfolding scheduled_by_def
    by (intro exI [of _ "p # new"]) (use assms(2,3) in \<open>simp add: emplace_tick_facts\<close>)
qed

lemma reported_nothing:
  "world_ok deflate uncompress w' \<Longrightarrow> world_at uncompress w' = world_at uncompress w \<Longrightarrow>
   reported deflate uncompress (s, w) [] (s, w')"
  by (simp add: reported_def changes_only_def)

lemma reported_trans:
  assumes "reported deflate uncompress sw cs sw1" and "reported deflate uncompress sw1 ds sw2"
  shows "reported deflate uncompress sw (cs @ ds) sw2"
proof -
  obtain s w s1 w1 s2 w2 where p: "sw = (s, w)" "sw1 = (s1, w1)" "sw2 = (s2, w2)" by (metis surj_pair)
  have "scheduled_by s (cs @ ds) s2"
    using assms by (intro scheduled_by_trans [of s cs s1]) (simp_all add: reported_def p)
  then show ?thesis using assms unfolding reported_def changes_only_def p by simp
qed

lemma write_reported:
  assumes "world_set_block deflate uncompress w p b = Inr w'" and "world_ok deflate uncompress w" and "p \<in> set cs"
  shows "reported deflate uncompress (s, w) cs (s, w')"
  using world_set_block_view [OF assms(1,2)] assms(3)
  by (auto simp: reported_def changes_only_def)

lemma flow_aside_reported:
  "flow_aside deflate uncompress p random as w = Inr (cs, w') \<Longrightarrow> world_ok deflate uncompress w \<Longrightarrow>
   reported deflate uncompress (s, w) cs (s, w')"
proof (induction as arbitrary: w)
  case Nil
  then show ?case by (simp add: reported_nothing)
next
  case (Cons a as)
  let ?q = "shifted p (flow_offsets ! (unat (random + word_of_nat a) mod length flow_offsets))"
  obtain b w1 where w1: "world_block deflate uncompress w ?q = Inr (b, w1)"
    "(if b = air then bindR (world_set_block deflate uncompress w1 ?q water) (\<lambda>w. Inr ([?q], w))
      else flow_aside deflate uncompress p random as w1) = Inr (cs, w')"
    using Cons.prems(1) by (auto simp: bindR_Inr_iff Let_def)
  note v = world_block_at [OF w1(1) Cons.prems(2)]
  have r: "reported deflate uncompress (s, w) [] (s, w1)" by (rule reported_nothing [OF v(3,4)])
  have "reported deflate uncompress (s, w1) cs (s, w')"
  proof (cases "b = air")
    case True
    then have "cs = [?q]" "world_set_block deflate uncompress w1 ?q water = Inr w'" using w1(2) by (auto simp: bindR_Inr_iff)
    then show ?thesis by (intro write_reported [OF _ v(3)]) simp_all
  next
    case False
    then show ?thesis using Cons.IH [OF _ v(3)] w1(2) by simp
  qed
  from reported_trans [OF r this] show ?case by simp
qed

lemma emplace_reported:
  assumes "reported deflate uncompress (s0, w0) cs (s, w)" and "p \<in> set cs"
  shows "reported deflate uncompress (s0, w0) cs (emplace_tick (current_tick s + 5) p s, w)"
  using assms scheduled_by_emplace [of s0 cs s p]
  by (simp add: reported_def emplace_tick_facts(1,2)) (simp add: emplace_tick_def)

lemma fluid_tick_reported:
  assumes "fluid_tick_at deflate uncompress p random (s, w) = Inr (cs, sw')" and "world_ok deflate uncompress w"
  shows "reported deflate uncompress (s, w) cs sw'"
proof (cases "sint (pos_y p) \<le> min_build_y \<or> sint (pos_y p) \<ge> max_build_y")
  case True
  then show ?thesis using assms by (auto simp: fluid_tick_at_def intro: reported_nothing)
next
  case False
  let ?below = "shifted p (0, - 1, 0)"
  obtain b w1 where w1: "world_block deflate uncompress w p = Inr (b, w1)"
    using assms(1) False by (auto simp: fluid_tick_at_def bindR_Inr_iff)
  note v1 = world_block_at [OF w1 assms(2)]
  have r1: "reported deflate uncompress (s, w) [] (s, w1)" by (rule reported_nothing [OF v1(3,4)])
  show ?thesis
  proof (cases "b = water")
    case False
    then show ?thesis using assms(1) w1 r1 \<open>\<not> (sint (pos_y p) \<le> min_build_y \<or> sint (pos_y p) \<ge> max_build_y)\<close>
      by (simp add: fluid_tick_at_def)
  next
    case True
    obtain under w2 where w2: "world_block deflate uncompress w1 ?below = Inr (under, w2)"
      "(if under = air then bindR (world_set_block deflate uncompress w2 ?below water) (\<lambda>w.
          Inr ([?below], emplace_tick (current_tick s + 5) ?below s, w))
        else bindR (flow_aside deflate uncompress p random [0..<4] w2) (\<lambda>(changed, w). Inr (changed, s, w))) = Inr (cs, sw')"
      using assms(1) w1 True False by (auto simp: fluid_tick_at_def bindR_Inr_iff Let_def)
    note v2 = world_block_at [OF w2(1) v1(3)]
    have r2: "reported deflate uncompress (s, w) [] (s, w2)"
      using reported_trans [OF r1 reported_nothing [OF v2(3,4)]] by simp
    have "reported deflate uncompress (s, w2) cs sw'"
    proof (cases "under = air")
      case True
      then obtain w3 where w3: "world_set_block deflate uncompress w2 ?below water = Inr w3" "cs = [?below]"
        "sw' = (emplace_tick (current_tick s + 5) ?below s, w3)" using w2(2) by (auto simp: bindR_Inr_iff)
      have "reported deflate uncompress (s, w2) cs (s, w3)" using write_reported [OF w3(1) v2(3)] w3(2) by simp
      then show ?thesis unfolding w3(3) by (rule emplace_reported) (simp_all add: w3(2))
    next
      case False
      then obtain w3 where "flow_aside deflate uncompress p random [0..<4] w2 = Inr (cs, w3)" "sw' = (s, w3)"
        using w2(2) by (auto simp: bindR_Inr_iff)
      then show ?thesis using flow_aside_reported v2(3) by blast
    qed
    from reported_trans [OF r2 this] show ?thesis by simp
  qed
qed


lemma world_biome_view:
  assumes "world_biome deflate uncompress w x y z = Inr (b, w')" and "world_ok deflate uncompress w"
  shows "world_ok deflate uncompress w'" "world_at uncompress w' = world_at uncompress w"
proof -
  let ?g = "\<lambda>c. let clamped_y = clamp (sint y) min_build_y (max_build_y - 1) in
    chunk_biome c (local_coordinate (sint x) div 4) (nat (clamped_y - min_build_y) div 4) (local_coordinate (sint z) div 4)"
  have g: "on_world_chunk deflate uncompress w (chunk_of x z) (\<lambda>c. bindR (?g c) (\<lambda>r. Inr (r, c))) = Inr (b, w')"
    using assms(1) by (simp add: world_biome_def Let_def)
  show "world_ok deflate uncompress w'" "world_at uncompress w' = world_at uncompress w"
    by (rule on_world_chunk_read [OF g assms(2)]; use world_at_cong in blast)+
qed

lemma world_surface_height_view:
  assumes "world_surface_height deflate uncompress w x z = Inr (h, w')" and "world_ok deflate uncompress w"
  shows "world_ok deflate uncompress w'" "world_at uncompress w' = world_at uncompress w"
  by (rule on_world_chunk_read [OF assms(1) [unfolded world_surface_height_def] assms(2)]; use world_at_cong in blast)+

lemma world_solid_view:
  assumes "world_solid deflate uncompress w p = Inr (b, w')" and "world_ok deflate uncompress w"
  shows "world_ok deflate uncompress w'" "world_at uncompress w' = world_at uncompress w"
  using assms world_block_at [OF _ assms(2)] by (auto simp: world_solid_def bindR_Inr_iff)

text \<open>Reading first changes nothing.\<close>

lemma reported_after_read:
  assumes "world_ok deflate uncompress w1" "world_at uncompress w1 = world_at uncompress w"
    and "reported deflate uncompress (s, w1) cs sw'"
  shows "reported deflate uncompress (s, w) cs sw'"
  using reported_trans [OF reported_nothing [OF assms(1,2)] assms(3)] by simp

lemma random_tick_reported:
  assumes "random_tick_at deflate uncompress p random (s, w) = Inr (cs, sw')" and "world_ok deflate uncompress w"
  shows "reported deflate uncompress (s, w) cs sw'"
proof (cases "sint (pos_y p) < min_build_y \<or> sint (pos_y p) + 1 \<ge> max_build_y")
  case True
  then show ?thesis using assms by (auto simp: random_tick_at_def intro: reported_nothing)
next
  case False
  let ?above = "shifted p (0, 1, 0)"
  obtain b w1 where w1: "world_block deflate uncompress w p = Inr (b, w1)"
    using assms(1) False by (auto simp: random_tick_at_def bindR_Inr_iff)
  note v1 = world_block_at(3,4) [OF w1 assms(2)]
  show ?thesis
  proof (rule reported_after_read [OF v1])
    consider "b = water" | "b = dirt" | "b = grass_block" | "b \<noteq> water" "b \<noteq> dirt" "b \<noteq> grass_block" by blast
    then show "reported deflate uncompress (s, w1) cs sw'"
    proof cases
      case 1
      then show ?thesis using assms(1) False w1 fluid_tick_reported v1(1) by (auto simp: random_tick_at_def Let_def)
    next
      case 2
      then obtain over w2 where w2: "world_block deflate uncompress w1 ?above = Inr (over, w2)"
        "(if over = air
         then bindR (world_biome deflate uncompress w2 (pos_x p) (pos_y p) (pos_z p)) (\<lambda>(biome, w).
           if biome \<noteq> desert \<and> biome \<noteq> ocean
           then bindR (world_set_block deflate uncompress w p grass_block) (\<lambda>w. Inr ([p], s, w))
           else Inr ([], s, w))
         else Inr ([], s, w2)) = Inr (cs, sw')"
        using assms(1) False w1 by (auto simp: random_tick_at_def bindR_Inr_iff dirt_def water_def Let_def)
      note v2 = world_block_at(3,4) [OF w2(1) v1(1)]
      show ?thesis
      proof (rule reported_after_read [OF v2], cases "over = air")
        case True
        then obtain biome w3 where w3: "world_biome deflate uncompress w2 (pos_x p) (pos_y p) (pos_z p) = Inr (biome, w3)"
          "(if biome \<noteq> desert \<and> biome \<noteq> ocean
           then bindR (world_set_block deflate uncompress w3 p grass_block) (\<lambda>w. Inr ([p], s, w))
           else Inr ([], s, w3)) = Inr (cs, sw')" using w2(2) by (auto simp: bindR_Inr_iff)
        note v3 = world_biome_view [OF w3(1) v2(1)]
        show "reported deflate uncompress (s, w2) cs sw'"
          by (rule reported_after_read [OF v3])
            (use w3(2) v3 in \<open>auto simp: bindR_Inr_iff split: if_splits intro: write_reported reported_nothing\<close>)
      next
        assume "over \<noteq> air"
        then show "reported deflate uncompress (s, w2) cs sw'" using w2(2) v2(1) by (auto intro: reported_nothing)
      qed
    next
      case 3
      then obtain covered w2 where w2: "world_solid deflate uncompress w1 ?above = Inr (covered, w2)"
        "(if covered then bindR (world_set_block deflate uncompress w2 p dirt) (\<lambda>w. Inr ([p], s, w))
         else bindR (world_block deflate uncompress w2 ?above) (\<lambda>(over, w).
           if over = air \<and> random mod 32 = 0
           then bindR (world_set_block deflate uncompress w ?above short_grass) (\<lambda>w. Inr ([?above], s, w))
           else Inr ([], s, w))) = Inr (cs, sw')"
        using assms(1) False w1 by (auto simp: random_tick_at_def bindR_Inr_iff grass_block_def dirt_def water_def Let_def)
      note v2 = world_solid_view [OF w2(1) v1(1)]
      show ?thesis
      proof (rule reported_after_read [OF v2], cases covered)
        case True
        then show "reported deflate uncompress (s, w2) cs sw'"
          using w2(2) v2(1) by (auto simp: bindR_Inr_iff intro: write_reported)
      next
        assume "\<not> covered"
        then obtain over w3 where w3: "world_block deflate uncompress w2 ?above = Inr (over, w3)"
          "(if over = air \<and> random mod 32 = 0
           then bindR (world_set_block deflate uncompress w3 ?above short_grass) (\<lambda>w. Inr ([?above], s, w))
           else Inr ([], s, w3)) = Inr (cs, sw')" using w2(2) by (auto simp: bindR_Inr_iff)
        note v3 = world_block_at(3,4) [OF w3(1) v2(1)]
        show "reported deflate uncompress (s, w2) cs sw'"
          by (rule reported_after_read [OF v3])
            (use w3(2) v3 in \<open>auto simp: bindR_Inr_iff split: if_splits intro: write_reported reported_nothing\<close>)
      qed
    next
      case 4
      then show ?thesis using assms(1) False w1 v1(1) by (auto simp: random_tick_at_def Let_def intro: reported_nothing)
    qed
  qed
qed

section \<open>A whole tick\<close>

lemma settle_reported:
  assumes "settle_falling_column deflate uncompress p w = Inr (cs, w')" and "world_ok deflate uncompress w"
  shows "reported deflate uncompress (s, w) cs (s, w')"
proof -
  let ?low = "max (sint (pos_y p)) (min_build_y + 1)"
  have s: "foldR (settle_block deflate uncompress p) [?low..max_build_y - 1] ([], w) = Inr (cs, w')"
    using assms(1) by (simp add: settle_falling_column_def)
  show ?thesis
  proof (cases "?low \<le> max_build_y")
    case True
    have "supported (\<lambda>h. world_at uncompress w (at_height p h)) ?low (?low - 1)"
      unfolding supported_def by (intro allI impI, elim conjE) linarith
    from settle_blocks [OF s assms(2) _ order_refl True this]
    show ?thesis by (simp add: reported_def changes_only_def)
  next
    case False
    then have "[?low..max_build_y - 1] = []" by auto
    then show ?thesis using s assms(2) by (simp add: reported_nothing)
  qed
qed

lemma scheduled_tick_reported:
  assumes "scheduled_tick deflate uncompress e (cs, s, w) = Inr (cs', s', w')" and "world_ok deflate uncompress w"
  shows "\<exists>ds. cs' = cs @ ds \<and> reported deflate uncompress (s, w) ds (s', w')"
proof -
  obtain t p where e: "e = (t, p)" by (cases e)
  show ?thesis
  proof (cases "sint (pos_y p) > min_build_y \<and> sint (pos_y p) < max_build_y")
    case True
    then obtain gravity w1 fluid where w1: "settle_falling_column deflate uncompress p w = Inr (gravity, w1)"
      "fluid_tick_at deflate uncompress p (mix (tick_seed s XOR current_tick s)) (s, w1) = Inr (fluid, s', w')"
      "cs' = cs @ gravity @ fluid"
      using assms(1) by (auto simp: scheduled_tick_def e bindR_Inr_iff)
    have r: "reported deflate uncompress (s, w) gravity (s, w1)" by (rule settle_reported [OF w1(1) assms(2)])
    then have "world_ok deflate uncompress w1" by (simp add: reported_def)
    from reported_trans [OF r fluid_tick_reported [OF w1(2) this]] w1(3) show ?thesis by blast
  next
    case False
    then have "cs' = cs" "s' = s" "w' = w" using assms(1) by (auto simp: scheduled_tick_def e)
    then show ?thesis using reported_nothing [OF assms(2) refl, of s] by blast
  qed
qed

lemma surface_tick_reported:
  assumes "surface_tick deflate uncompress e (cs, s, w) = Inr (cs', s', w')" and "world_ok deflate uncompress w"
  shows "\<exists>ds. cs' = cs @ ds \<and> reported deflate uncompress (s, w) ds (s', w')"
proof -
  obtain pos attempt where e: "e = (pos, attempt)" by (cases e)
  obtain random x z y w1 ds where w1: "world_surface_height deflate uncompress w x z = Inr (y, w1)"
    "random_tick_at deflate uncompress \<lparr>pos_x = x, pos_y = word_of_int y, pos_z = z\<rparr> random (s, w1) = Inr (ds, s', w')"
    "cs' = cs @ ds"
    using assms(1) by (auto simp: surface_tick_def e bindR_Inr_iff Let_def)
  note v = world_surface_height_view [OF w1(1) assms(2)]
  show ?thesis using reported_after_read [OF v random_tick_reported [OF w1(2) v(1)]] w1(3) by blast
qed

lemma steps_reported:
  assumes "\<And>e cs s w cs' s' w'. f e (cs, s, w) = Inr (cs', s', w') \<Longrightarrow> world_ok deflate uncompress w \<Longrightarrow>
      \<exists>ds. cs' = cs @ ds \<and> reported deflate uncompress (s, w) ds (s', w')"
    and "foldR f es (cs, s, w) = Inr (cs', s', w')" and "world_ok deflate uncompress w"
  shows "\<exists>ds. cs' = cs @ ds \<and> reported deflate uncompress (s, w) ds (s', w')"
  using assms(2,3)
proof (induction es arbitrary: cs s w)
  case Nil
  then show ?case using reported_nothing [OF _ refl] by auto
next
  case (Cons e es)
  obtain cs1 s1 w1 where s1: "f e (cs, s, w) = Inr (cs1, s1, w1)" "foldR f es (cs1, s1, w1) = Inr (cs', s', w')"
    using Cons.prems(1) by (auto simp: bindR_Inr_iff)
  obtain ds where ds: "cs1 = cs @ ds" "reported deflate uncompress (s, w) ds (s1, w1)"
    using assms(1) [OF s1(1) Cons.prems(2)] by blast
  then have "world_ok deflate uncompress w1" by (simp add: reported_def)
  then obtain es' where "cs' = cs1 @ es'" "reported deflate uncompress (s1, w1) es' (s', w')"
    using Cons.IH [OF s1(2)] by blast
  then show ?case using ds reported_trans by (intro exI [of _ "ds @ es'"]) auto
qed

lemma tick_reported:
  assumes "tick deflate uncompress active (s, w) = Inr (cs, s', w')" and "world_ok deflate uncompress w"
  shows "reported deflate uncompress (s\<lparr>current_tick := current_tick s + 1,
    scheduled := dropWhile (\<lambda>(t, p). t \<le> current_tick s + 1) (scheduled s)\<rparr>, w) cs (s', w')"
proof -
  let ?s = "s\<lparr>current_tick := current_tick s + 1, scheduled := dropWhile (\<lambda>(t, p). t \<le> current_tick s + 1) (scheduled s)\<rparr>"
  obtain cs1 s1 w1 where r: "foldR (scheduled_tick deflate uncompress)
      (takeWhile (\<lambda>(t, p). t \<le> current_tick s + 1) (scheduled s)) ([], ?s, w) = Inr (cs1, s1, w1)"
    "foldR (surface_tick deflate uncompress) (List.product active [0..<3]) (cs1, s1, w1) = Inr (cs, s', w')"
    using assms(1) by (auto simp: tick_def Let_def bindR_Inr_iff)
  have 1: "reported deflate uncompress (?s, w) cs1 (s1, w1)"
    using steps_reported [where f = "scheduled_tick deflate uncompress", OF scheduled_tick_reported r(1) assms(2)] by simp
  then have "world_ok deflate uncompress w1" by (simp add: reported_def)
  then have "\<exists>ds. cs = cs1 @ ds \<and> reported deflate uncompress (s1, w1) ds (s', w')"
    by (intro steps_reported [where f = "surface_tick deflate uncompress", OF _ r(2)]) (rule surface_tick_reported)
  then obtain ds where "cs = cs1 @ ds" "reported deflate uncompress (s1, w1) ds (s', w')" by blast
  with reported_trans [OF 1] show ?thesis by simp
qed

lemma notify_order: "in_order s \<Longrightarrow> in_order (notify_neighbors p d s)"
proof -
  have "in_order s \<Longrightarrow> in_order (fold (\<lambda>offset s. emplace_tick (current_tick s + ucast (max 1 d)) (shifted p offset) s) os s)" for os
    by (induction os arbitrary: s) (simp_all add: emplace_tick_facts(1))
  then show "in_order s \<Longrightarrow> in_order (notify_neighbors p d s)" by (simp add: notify_neighbors_def)
qed

inductive tick_reaches :: "deflater \<Rightarrow> inflater \<Rightarrow> tick_system \<times> world \<Rightarrow> tick_system \<times> world \<Rightarrow> bool"
  for deflate uncompress where
  begin_ticks: "tick_reaches deflate uncompress (new_tick_system start, w) (new_tick_system start, w)"
| notify_step: "tick_reaches deflate uncompress sw (s, w) \<Longrightarrow> tick_reaches deflate uncompress sw (notify_neighbors p d s, w)"
| tick_step: "tick_reaches deflate uncompress sw (s, w) \<Longrightarrow> tick deflate uncompress active (s, w) = Inr (cs, s', w') \<Longrightarrow>
    tick_reaches deflate uncompress sw (s', w')"

lemma tick_reaches_inv:
  "tick_reaches deflate uncompress sw sw' \<Longrightarrow> world_ok deflate uncompress (snd sw) \<Longrightarrow>
   in_order (fst sw') \<and> world_ok deflate uncompress (snd sw')"
proof (induction rule: tick_reaches.induct)
  case (begin_ticks start w)
  then show ?case by (simp add: in_order_def new_tick_system_def)
next
  case (notify_step sw s w p d)
  then show ?case by (simp add: notify_order)
next
  case (tick_step sw s w active cs s' w')
  then have ok: "in_order s" "world_ok deflate uncompress w" by simp_all
  have "in_order (s\<lparr>current_tick := current_tick s + 1,
      scheduled := dropWhile (\<lambda>(t, p). t \<le> current_tick s + 1) (scheduled s)\<rparr>)"
    using ok(1) by (simp add: in_order_def due_filter sorted_filter)
  then show ?case using tick_reported [OF tick_step.hyps(2) ok(2)] by (simp add: reported_def)
qed

section \<open>What a tick does with the updates that are due\<close>

text \<open>
  A specification on a map from positions to blocks. At a position that is due
  and neither on the floor nor outside the world, first the column settles: no
  sand and no gravel from there up hangs over air, the column keeps its blocks,
  and nothing else changes. Then, if there is water, it flows: down, if there is
  air below, and the new water is due in its turn; else to the first of the four
  sides, from a random one on, where there is air.
\<close>

definition handled :: "block_position \<Rightarrow> bool" where
  "handled p \<longleftrightarrow> min_build_y < sint (pos_y p) \<and> sint (pos_y p) < max_build_y"

definition settles :: "block_position \<Rightarrow> (block_position \<Rightarrow> block_value) \<Rightarrow> block_position list \<Rightarrow>
    (block_position \<Rightarrow> block_value) \<Rightarrow> bool" where
  "settles p M changed M' \<longleftrightarrow>
     supported (\<lambda>y. M' (at_height p y)) (max (sint (pos_y p)) (min_build_y + 1)) (max_build_y - 1) \<and>
     image_mset (\<lambda>y. M' (at_height p y)) (mset_set {min_build_y..<max_build_y}) =
       image_mset (\<lambda>y. M (at_height p y)) (mset_set {min_build_y..<max_build_y}) \<and>
     agree (\<lambda>q. if q \<in> set changed then 0 else M' q) (\<lambda>q. if q \<in> set changed then 0 else M q)"

definition flows :: "u64 \<Rightarrow> block_position \<Rightarrow> (block_position \<Rightarrow> block_value) \<Rightarrow>
    block_position list \<times> block_position list \<times> (block_position \<Rightarrow> block_value)" where
  "flows random p M =
     (let below = shifted p (0, - 1, 0) in
      if M p \<noteq> water then ([], [], M)
      else if M below = air then ([below], [below], M(below := water))
      else case find (\<lambda>q. M q = air) (map (shifted p) (rotate (unat random) flow_offsets)) of
          None \<Rightarrow> ([], [], M)
        | Some q \<Rightarrow> ([q], [], M(q := water)))"

inductive update_run :: "u64 \<Rightarrow> block_position list \<Rightarrow> (block_position \<Rightarrow> block_value) \<Rightarrow> block_position list \<Rightarrow>
    block_position list \<Rightarrow> (block_position \<Rightarrow> block_value) \<Rightarrow> bool" for random where
  no_update: "update_run random [] M [] [] M"
| outside: "\<not> handled p \<Longrightarrow> update_run random ps M changed new M' \<Longrightarrow> update_run random (p # ps) M changed new M'"
| inside: "handled p \<Longrightarrow> settles p M gravity M1 \<Longrightarrow> flows random p M1 = (fluid, new1, M2) \<Longrightarrow>
    update_run random ps M2 changed new M' \<Longrightarrow>
    update_run random (p # ps) M (gravity @ fluid @ changed) (new1 @ new) M'"

subsection \<open>The tick meets the specification\<close>

lemma agree_column:
  assumes "agree f g" and "min_build_y \<le> y" and "y < max_build_y"
  shows "f (at_height p y) = g (at_height p y)"
  using assms(1) at_height_inject(2) [OF assms(2,3), of p] by (simp add: agree_def)

lemma settles_agree:
  assumes "settles p M changed M'" and "agree M N"
  shows "settles p N changed M'"
proof -
  have "image_mset (\<lambda>y. M (at_height p y)) (mset_set {min_build_y..<max_build_y}) =
      image_mset (\<lambda>y. N (at_height p y)) (mset_set {min_build_y..<max_build_y})"
    by (intro image_mset_cong) (simp add: agree_column [OF assms(2)])
  with assms show ?thesis by (simp add: settles_def agree_def)
qed

lemma settle_settles:
  assumes "settle_falling_column deflate uncompress p w = Inr (cs, w')" and "world_ok deflate uncompress w"
  shows "settles p (world_at uncompress w) cs (world_at uncompress w')"
proof -
  let ?low = "max (sint (pos_y p)) (min_build_y + 1)"
  have s: "foldR (settle_block deflate uncompress p) [?low..max_build_y - 1] ([], w) = Inr (cs, w')"
    using assms(1) by (simp add: settle_falling_column_def)
  show ?thesis
  proof (cases "?low \<le> max_build_y")
    case True
    have "supported (\<lambda>h. world_at uncompress w (at_height p h)) ?low (?low - 1)"
      unfolding supported_def by (intro allI impI, elim conjE) linarith
    from settle_blocks [OF s assms(2) _ order_refl True this] show ?thesis by (simp add: settles_def agree_def)
  next
    case False
    then have "[?low..max_build_y - 1] = []" by auto
    then have "w' = w" using s by simp
    moreover have "supported (\<lambda>h. world_at uncompress w (at_height p h)) ?low (max_build_y - 1)"
      unfolding supported_def using False by (intro allI impI, elim conjE) linarith
    ultimately show ?thesis by (simp add: settles_def agree_def)
  qed
qed

text \<open>The positions beside and below a handled one are inside the world.\<close>

lemma handled_around:
  assumes "handled p"
  shows "in_height p" and "in_height (shifted p (0, - 1, 0))" and "off \<in> set flow_offsets \<Longrightarrow> in_height (shifted p off)"
proof -
  show p: "in_height p" using assms by (simp add: handled_def in_height_def)
  have "sint (pos_y p - 1) = sint (pos_y p) - 1"
    using assms by (subst sint_sub_small) (simp_all add: handled_def build_y)
  then show "in_height (shifted p (0, - 1, 0))" using assms by (simp add: handled_def in_height_def shifted_def)
  show "in_height (shifted p off)" if "off \<in> set flow_offsets"
    using p that by (auto simp: flow_offsets_def in_height_def shifted_def)
qed

lemma flow_side:
  assumes "a < 4"
  shows "flow_offsets ! (unat ((random :: u64) + word_of_nat a) mod length flow_offsets) = rotate (unat random) flow_offsets ! a"
proof -
  have "unat (random + word_of_nat a) = (unat random + a) mod 2 ^ 64"
    by (simp add: unat_word_ariths unat_of_nat mod_simps)
  moreover have "(unat random + a) mod 2 ^ 64 mod 4 = (unat random + a) mod 4"
    by (rule mod_mod_cancel) simp
  moreover have "length flow_offsets = 4" by (simp add: flow_offsets_def)
  ultimately show ?thesis using assms by (simp add: nth_rotate add.commute)
qed

lemma flow_aside_find:
  assumes "flow_aside deflate uncompress p random as w = Inr (cs, w')" and "world_ok deflate uncompress w"
    and "agree (world_at uncompress w) M" and "handled p" and "\<forall>a \<in> set as. a < 4"
  shows "world_ok deflate uncompress w' \<and>
    (case find (\<lambda>q. M q = air) (map (\<lambda>a. shifted p (rotate (unat random) flow_offsets ! a)) as) of
       None \<Rightarrow> cs = [] \<and> agree (world_at uncompress w') M
     | Some q \<Rightarrow> cs = [q] \<and> agree (world_at uncompress w') (M(q := water)))"
  using assms
proof (induction as arbitrary: w)
  case (Cons a as)
  let ?q = "shifted p (rotate (unat random) flow_offsets ! a)"
  have side: "flow_offsets ! (unat (random + word_of_nat a) mod length flow_offsets) = rotate (unat random) flow_offsets ! a"
    by (rule flow_side) (use Cons.prems(5) in simp)
  obtain b w1 where w1: "world_block deflate uncompress w ?q = Inr (b, w1)"
    "(if b = air then bindR (world_set_block deflate uncompress w1 ?q water) (\<lambda>w. Inr ([?q], w))
      else flow_aside deflate uncompress p random as w1) = Inr (cs, w')"
    using Cons.prems(1) by (auto simp: bindR_Inr_iff Let_def side)
  note v = world_block_at [OF w1(1) Cons.prems(2)]
  have b: "b = M ?q" using v(1,2) Cons.prems(3) by (simp add: agree_def)
  show ?case
  proof (cases "b = air")
    case True
    then have c: "cs = [?q]" "world_set_block deflate uncompress w1 ?q water = Inr w'" using w1(2) by (auto simp: bindR_Inr_iff)
    from world_set_block_view [OF c(2) v(3)] v(4) Cons.prems(3) c(1) b True show ?thesis by (simp add: agree_def)
  next
    case False
    then show ?thesis using Cons.IH [OF _ v(3)] w1(2) v(4) b Cons.prems(3-5) by simp
  qed
qed simp

lemma fluid_tick_flows:
  assumes "fluid_tick_at deflate uncompress p random (s, w) = Inr (cs, s', w')" and "world_ok deflate uncompress w"
    and "agree (world_at uncompress w) M" and "handled p"
  shows "\<exists>new M'. flows random p M = (cs, new, M') \<and> agree (world_at uncompress w') M' \<and>
    mset (scheduled s') = mset (scheduled s) + mset (map (\<lambda>p. (current_tick s + 5, p)) new)"
proof -
  let ?below = "shifted p (0, - 1, 0)"
  have p: "\<not> (sint (pos_y p) \<le> min_build_y \<or> sint (pos_y p) \<ge> max_build_y)" using assms(4) by (auto simp: handled_def)
  obtain b w1 where w1: "world_block deflate uncompress w p = Inr (b, w1)"
    using assms(1) p by (auto simp: fluid_tick_at_def bindR_Inr_iff)
  note v1 = world_block_at [OF w1 assms(2)]
  have b: "b = M p" using v1(1,2) assms(3) by (simp add: agree_def)
  show ?thesis
  proof (cases "b = water")
    case False
    then have "cs = [] \<and> s' = s \<and> w' = w1" using assms(1) w1 p by (simp add: fluid_tick_at_def)
    then show ?thesis using False b v1(4) assms(3) by (simp add: flows_def Let_def)
  next
    case True
    obtain under w2 where w2: "world_block deflate uncompress w1 ?below = Inr (under, w2)"
      "(if under = air then bindR (world_set_block deflate uncompress w2 ?below water) (\<lambda>w.
          Inr ([?below], emplace_tick (current_tick s + 5) ?below s, w))
        else bindR (flow_aside deflate uncompress p random [0..<4] w2) (\<lambda>(changed, w). Inr (changed, s, w))) = Inr (cs, s', w')"
      using assms(1) w1 True p by (auto simp: fluid_tick_at_def bindR_Inr_iff Let_def)
    note v2 = world_block_at [OF w2(1) v1(3)]
    have under: "under = M ?below" and a2: "agree (world_at uncompress w2) M"
      using v2(1,2,4) v1(4) assms(3) by (simp_all add: agree_def)
    show ?thesis
    proof (cases "under = air")
      case True
      then obtain w3 where w3: "world_set_block deflate uncompress w2 ?below water = Inr w3" "cs = [?below]"
        "s' = emplace_tick (current_tick s + 5) ?below s" "w' = w3" using w2(2) by (auto simp: bindR_Inr_iff)
      from world_set_block_view [OF w3(1) v2(3)] a2 have "agree (world_at uncompress w') (M(?below := water))"
        by (simp add: agree_def w3(4))
      then show ?thesis using True \<open>b = water\<close> b under w3 by (simp add: flows_def Let_def emplace_tick_facts(3))
    next
      case False
      then have f: "flow_aside deflate uncompress p random [0..<4] w2 = Inr (cs, w')" "s' = s"
        using w2(2) by (auto simp: bindR_Inr_iff)
      have "map (\<lambda>a. shifted p (rotate (unat random) flow_offsets ! a)) [0..<4] = map (shifted p) (rotate (unat random) flow_offsets)"
        by (rule nth_equalityI) (simp_all add: flow_offsets_def)
      with flow_aside_find [OF f(1) v2(3) a2 assms(4)] show ?thesis
        using False \<open>b = water\<close> b under f(2) by (auto simp: flows_def Let_def split: option.splits)
    qed
  qed
qed

lemma scheduled_ticks_run:
  assumes "foldR (scheduled_tick deflate uncompress) es (cs, s, w) = Inr (cs', s', w')" and "world_ok deflate uncompress w"
    and "agree (world_at uncompress w) M"
  shows "\<exists>ds new M'. cs' = cs @ ds \<and> update_run (mix (tick_seed s XOR current_tick s)) (map snd es) M ds new M' \<and>
    agree (world_at uncompress w') M' \<and>
    mset (scheduled s') = mset (scheduled s) + mset (map (\<lambda>p. (current_tick s + 5, p)) new)"
  using assms
proof (induction es arbitrary: cs s w M)
  case Nil
  then show ?case by (auto intro!: exI [of _ "[]"] exI [of _ M] update_run.intros)
next
  case (Cons e es)
  obtain t p where e: "e = (t, p)" by (cases e)
  obtain cs1 s1 w1 where s1: "scheduled_tick deflate uncompress e (cs, s, w) = Inr (cs1, s1, w1)"
    "foldR (scheduled_tick deflate uncompress) es (cs1, s1, w1) = Inr (cs', s', w')"
    using Cons.prems(1) by (auto simp: bindR_Inr_iff)
  have r: "world_ok deflate uncompress w1" "current_tick s1 = current_tick s" "tick_seed s1 = tick_seed s"
    using scheduled_tick_reported [OF s1(1) Cons.prems(2)] by (auto simp: reported_def)
  show ?case
  proof (cases "handled p")
    case False
    then have "cs1 = cs" "s1 = s" "w1 = w" using s1(1) by (auto simp: scheduled_tick_def e handled_def)
    then obtain ds new M' where i: "cs' = cs @ ds" "update_run (mix (tick_seed s XOR current_tick s)) (map snd es) M ds new M'"
      "agree (world_at uncompress w') M'" "mset (scheduled s') = mset (scheduled s) + mset (map (\<lambda>p. (current_tick s + 5, p)) new)"
      using Cons.IH [OF s1(2) r(1), of M] Cons.prems(3) by blast
    have "update_run (mix (tick_seed s XOR current_tick s)) (map snd (e # es)) M ds new M'"
      unfolding e list.map snd_conv by (rule update_run.outside [OF False i(2)])
    then show ?thesis using i by blast
  next
    case True
    then obtain gravity w2 fluid where w2: "settle_falling_column deflate uncompress p w = Inr (gravity, w2)"
      "fluid_tick_at deflate uncompress p (mix (tick_seed s XOR current_tick s)) (s, w2) = Inr (fluid, s1, w1)"
      "cs1 = cs @ gravity @ fluid"
      using s1(1) by (auto simp: scheduled_tick_def e handled_def bindR_Inr_iff)
    have ok2: "world_ok deflate uncompress w2" using settle_reported [OF w2(1) Cons.prems(2)] by (simp add: reported_def)
    have g: "settles p M gravity (world_at uncompress w2)"
      by (rule settles_agree [OF settle_settles [OF w2(1) Cons.prems(2)] Cons.prems(3)])
    obtain new1 M2 where f: "flows (mix (tick_seed s XOR current_tick s)) p (world_at uncompress w2) = (fluid, new1, M2)"
      "agree (world_at uncompress w1) M2"
      "mset (scheduled s1) = mset (scheduled s) + mset (map (\<lambda>p. (current_tick s + 5, p)) new1)"
      using fluid_tick_flows [OF w2(2) ok2 _ True, of "world_at uncompress w2"] by (auto simp: agree_def)
    obtain ds new M' where i: "cs' = cs1 @ ds" "update_run (mix (tick_seed s XOR current_tick s)) (map snd es) M2 ds new M'"
      "agree (world_at uncompress w') M'"
      "mset (scheduled s') = mset (scheduled s1) + mset (map (\<lambda>p. (current_tick s + 5, p)) new)"
      using Cons.IH [OF s1(2) r(1) f(2)] r(2,3) by auto
    have "update_run (mix (tick_seed s XOR current_tick s)) (map snd (e # es)) M (gravity @ fluid @ ds) (new1 @ new) M'"
      unfolding e list.map snd_conv by (rule update_run.inside [OF True g f(1) i(2)])
    then show ?thesis using i f(3) w2(3) by (intro exI [of _ "gravity @ fluid @ ds"] exI [of _ "new1 @ new"] exI [of _ M']) simp
  qed
qed

lemma update_run_new: "update_run random ps M changed new M' \<Longrightarrow> set new \<subseteq> set changed"
  by (induction rule: update_run.induct) (auto simp: flows_def Let_def split: if_splits option.splits)

text \<open>A random tick changes one block at most.\<close>

lemma flow_aside_few: "flow_aside deflate uncompress p random as w = Inr (cs, w') \<Longrightarrow> length cs \<le> 1"
  by (induction as arbitrary: w) (auto simp: bindR_Inr_iff Let_def split: if_splits)

lemma fluid_tick_few: "fluid_tick_at deflate uncompress p random sw = Inr (cs, sw') \<Longrightarrow> length cs \<le> 1"
  by (cases sw) (auto simp: fluid_tick_at_def bindR_Inr_iff Let_def split: if_splits dest: flow_aside_few)

lemma random_tick_few: "random_tick_at deflate uncompress p random sw = Inr (cs, sw') \<Longrightarrow> length cs \<le> 1"
  by (cases sw) (auto simp: random_tick_at_def bindR_Inr_iff Let_def split: if_splits dest: fluid_tick_few)

lemma surface_ticks_few:
  "foldR (surface_tick deflate uncompress) es (cs, sw) = Inr (cs', sw') \<Longrightarrow>
   \<exists>ds. cs' = cs @ ds \<and> length ds \<le> length es"
proof (induction es arbitrary: cs sw)
  case (Cons e es)
  obtain cs1 sw1 where 1: "surface_tick deflate uncompress e (cs, sw) = Inr (cs1, sw1)"
    "foldR (surface_tick deflate uncompress) es (cs1, sw1) = Inr (cs', sw')"
    using Cons.prems by (auto simp: bindR_Inr_iff)
  have "\<exists>ds. cs1 = cs @ ds \<and> length ds \<le> 1"
    using 1(1) by (cases e; cases sw) (auto simp: surface_tick_def bindR_Inr_iff Let_def dest: random_tick_few)
  moreover obtain ds where "cs' = cs1 @ ds" "length ds \<le> length es" using Cons.IH [OF 1(2)] by blast
  ultimately show ?case by (auto intro: add_mono)
qed simp

section \<open>Properties\<close>

text \<open>C14. In every state the ticks can reach, a tick moves the clock by one and does with the updates that are due
  exactly what \<open>update_run\<close> says, one after the other in the order of the schedule: settle the column, then
  let the water at the position flow, with the report and the new updates that this gives. Only the random
  ticks come after that, and change at most three blocks for each active chunk. What is left in the
  schedule, in the order of the times, are exactly the updates that were not due yet and the new ones, for
  five ticks later at positions reported as changed; so, short of the end of the 64-bit clock, nothing that
  is due is left.\<close>

theorem tick_schedule:
  assumes "tick_reaches deflate uncompress sw (s, w)" and "world_ok deflate uncompress (snd sw)"
    and "tick deflate uncompress active (s, w) = Inr (changed, s', w')"
  shows "current_tick s' = current_tick s + 1 \<and> in_order s' \<and>
    (\<exists>changed1 changed2 new1 new2 M. changed = changed1 @ changed2 \<and>
      update_run (mix (tick_seed s XOR current_tick s')) (map snd (filter (\<lambda>(t, p). t \<le> current_tick s') (scheduled s)))
        (world_at uncompress w) changed1 new1 M \<and>
      agree (\<lambda>q. if q \<in> set changed2 then 0 else world_at uncompress w' q) (\<lambda>q. if q \<in> set changed2 then 0 else M q) \<and>
      length changed2 \<le> 3 * length active \<and> set new1 \<subseteq> set changed1 \<and> set new2 \<subseteq> set changed2 \<and>
      mset (scheduled s') = filter_mset (\<lambda>(t, p). current_tick s' < t) (mset (scheduled s)) +
        mset (map (\<lambda>p. (current_tick s' + 5, p)) (new1 @ new2))) \<and>
    (current_tick s' \<le> - 6 \<longrightarrow> list_all (\<lambda>(t, p). current_tick s' < t) (scheduled s'))"
proof -
  have ok: "in_order s" "world_ok deflate uncompress w" using tick_reaches_inv [OF assms(1,2)] by simp_all
  let ?now = "current_tick s + 1"
  let ?s = "s\<lparr>current_tick := ?now, scheduled := dropWhile (\<lambda>(t, p). t \<le> ?now) (scheduled s)\<rparr>"
  have drop: "scheduled ?s = filter (\<lambda>(t, p). ?now < t) (scheduled s)"
    "takeWhile (\<lambda>(t, p). t \<le> ?now) (scheduled s) = filter (\<lambda>(t, p). t \<le> ?now) (scheduled s)"
    using ok(1) by (simp_all add: in_order_def due_filter)
  then have "in_order ?s" using ok(1) by (simp add: in_order_def sorted_filter)
  with tick_reported [OF assms(3) ok(2)]
  have r: "current_tick s' = ?now" "in_order s'" by (simp_all add: reported_def)
  obtain changed1 s1 w1 where f: "foldR (scheduled_tick deflate uncompress) (filter (\<lambda>(t, p). t \<le> ?now) (scheduled s))
      ([], ?s, w) = Inr (changed1, s1, w1)"
    "foldR (surface_tick deflate uncompress) (List.product active [0..<3]) (changed1, s1, w1) = Inr (changed, s', w')"
    using assms(3) by (auto simp: tick_def Let_def bindR_Inr_iff drop(2))
  have 1: "reported deflate uncompress (?s, w) changed1 (s1, w1)"
    using steps_reported [where f = "scheduled_tick deflate uncompress", OF scheduled_tick_reported f(1) ok(2)] by simp
  obtain changed2 where 2: "changed = changed1 @ changed2" "length changed2 \<le> 3 * length active"
    using surface_ticks_few [OF f(2)] by (auto simp: length_product mult.commute)
  have "\<exists>ds. changed = changed1 @ ds \<and> reported deflate uncompress (s1, w1) ds (s', w')"
    by (rule steps_reported [where f = "surface_tick deflate uncompress", OF surface_tick_reported f(2)])
      (use 1 in \<open>simp_all add: reported_def\<close>)
  then have 3: "reported deflate uncompress (s1, w1) changed2 (s', w')" using 2(1) by simp
  obtain new1 M where u: "update_run (mix (tick_seed s XOR ?now)) (map snd (filter (\<lambda>(t, p). t \<le> ?now) (scheduled s)))
      (world_at uncompress w) changed1 new1 M" "agree (world_at uncompress w1) M"
    "mset (scheduled s1) = mset (scheduled ?s) + mset (map (\<lambda>p. (?now + 5, p)) new1)"
    using scheduled_ticks_run [OF f(1) ok(2), of "world_at uncompress w"] by (auto simp: agree_def)
  obtain new2 where new2: "set new2 \<subseteq> set changed2"
    "mset (scheduled s') = mset (scheduled s1) + mset (map (\<lambda>p. (?now + 5, p)) new2)"
    using 1 3 by (auto simp: reported_def scheduled_by_def)
  have new1: "set new1 \<subseteq> set changed1" using update_run_new [OF u(1)] .
  have all: "mset (scheduled s') = filter_mset (\<lambda>(t, p). ?now < t) (mset (scheduled s)) +
      mset (map (\<lambda>p. (?now + 5, p)) (new1 @ new2))"
    unfolding new2(2) u(3) drop(1) by simp
  have a: "agree (\<lambda>q. if q \<in> set changed2 then 0 else world_at uncompress w' q) (\<lambda>q. if q \<in> set changed2 then 0 else M q)"
    using 3 u(2) by (simp add: reported_def changes_only_def agree_def)
  have "list_all (\<lambda>(t, p). current_tick s' < t) (scheduled s')" if "current_tick s' \<le> - 6"
  proof -
    have "unat (current_tick s') \<le> 18446744073709551610" using that by (simp add: word_le_nat_alt)
    then have "unat (current_tick s' + 5) = unat (current_tick s') + 5" by (subst unat_add_lem [THEN iffD1]) simp_all
    then have "current_tick s' < current_tick s' + 5" by (simp add: word_less_nat_alt)
    moreover have "set (scheduled s') = {x \<in> set (scheduled s). ?now < fst x} \<union> (\<lambda>p. (?now + 5, p)) ` set (new1 @ new2)"
      using arg_cong [OF all, of set_mset] by (auto simp: split_def)
    ultimately show ?thesis unfolding r(1) by (auto simp: list_all_iff)
  qed
  moreover have "\<exists>changed1 changed2 new1 new2 M. changed = changed1 @ changed2 \<and>
      update_run (mix (tick_seed s XOR ?now)) (map snd (filter (\<lambda>(t, p). t \<le> ?now) (scheduled s)))
        (world_at uncompress w) changed1 new1 M \<and>
      agree (\<lambda>q. if q \<in> set changed2 then 0 else world_at uncompress w' q) (\<lambda>q. if q \<in> set changed2 then 0 else M q) \<and>
      length changed2 \<le> 3 * length active \<and> set new1 \<subseteq> set changed1 \<and> set new2 \<subseteq> set changed2 \<and>
      mset (scheduled s') = filter_mset (\<lambda>(t, p). ?now < t) (mset (scheduled s)) +
        mset (map (\<lambda>p. (?now + 5, p)) (new1 @ new2))"
    using 2 u(1) a new1 new2(1) all by blast
  ultimately show ?thesis unfolding r(1) using r(2) by blast
qed

text \<open>C38. What a tick tells the server to send to the clients is complete: no block of the world changes in a tick outside the
  positions it returns, whether by falling, by flowing water or by a random tick.\<close>

theorem tick_reports_changes:
  assumes "world_ok deflate uncompress w" and "tick deflate uncompress active (s, w) = Inr (changed, s', w')"
  shows "world_ok deflate uncompress w' \<and>
    agree (\<lambda>q. if q \<in> set changed then 0 else world_at uncompress w' q)
      (\<lambda>q. if q \<in> set changed then 0 else world_at uncompress w q)"
  using tick_reported [OF assms(2,1)] by (simp add: reported_def changes_only_def agree_def)

text \<open>
  The sample world with two changes announced: one above the world, due at the
  next tick, and one inside it, due later.
\<close>

definition sample_ticks :: tick_system where
  "sample_ticks = notify_neighbors sample_position 3 (notify_neighbors \<lparr>pos_x = 3, pos_y = 400, pos_z = 5\<rparr> 1 (new_tick_system 42))"

lemma sample_ticks_scheduled:
  "current_tick sample_ticks = 0" "length (scheduled sample_ticks) = 14"
  "\<exists>s'. tick copy_deflate copy_uncompress [] (sample_ticks, sample_world) = Inr ([], s', sample_world) \<and> length (scheduled s') = 7"
proof -
  have late: "\<not> (3 :: u64) \<le> 1" by (simp add: word_le_nat_alt)
  show "current_tick sample_ticks = 0" "length (scheduled sample_ticks) = 14"
    "\<exists>s'. tick copy_deflate copy_uncompress [] (sample_ticks, sample_world) = Inr ([], s', sample_world) \<and> length (scheduled s') = 7"
  using late
  by (simp_all add: sample_ticks_def notify_neighbors_def new_tick_system_def neighbor_offsets_def emplace_tick_def shifted_def
      sample_position_def tick_def scheduled_tick_def build_y Let_def)
qed

theorem tick_schedule_witness:
  "\<exists>s'. tick copy_deflate copy_uncompress [] (sample_ticks, sample_world) = Inr ([], s', sample_world) \<and>
     length (scheduled s') = 7 \<and> list_all (\<lambda>(t, p). 1 < t) (scheduled s')"
proof -
  obtain s' where s': "tick copy_deflate copy_uncompress [] (sample_ticks, sample_world) = Inr ([], s', sample_world)"
    "length (scheduled s') = 7" using sample_ticks_scheduled(3) by blast
  have "tick_reaches copy_deflate copy_uncompress (new_tick_system 42, sample_world) (sample_ticks, sample_world)"
    unfolding sample_ticks_def by (intro tick_reaches.intros)
  from tick_schedule [OF this _ s'(1)] sample_world_ok(1)
  have t: "current_tick s' = current_tick sample_ticks + 1"
    "current_tick s' \<le> - 6 \<longrightarrow> list_all (\<lambda>(t, p). current_tick s' < t) (scheduled s')" by auto
  then have "current_tick s' = 1" by (simp add: sample_ticks_scheduled(1))
  then show ?thesis using s' t(2) by (simp add: word_le_nat_alt)
qed

theorem tick_reports_changes_witness:
  "\<exists>s'. tick copy_deflate copy_uncompress [] (sample_ticks, sample_world) = Inr ([], s', sample_world) \<and>
     world_ok copy_deflate copy_uncompress sample_world"
proof -
  obtain s' where s': "tick copy_deflate copy_uncompress [] (sample_ticks, sample_world) = Inr ([], s', sample_world)"
    using sample_ticks_scheduled(3) by blast
  with tick_reports_changes [OF sample_world_ok(1) s'] show ?thesis by blast
qed

end
