(* ===== verification/Packets.thy ===== *)
theory Packets
  imports Nbt
begin

text \<open>
  Packets of the handshake, login and configuration states (namespaces
  \<open>mc::protocol\<close>, \<open>login\<close> and \<open>configuration\<close> of include/mc/protocol/packets.hpp
  and src/protocol/packets.cpp). A decoder takes the reader of one packet body,
  checks the packet id, reads the fields in the order of the source and refuses
  trailing data. An encoder is a list of writers, one for each statement of the
  source that appends to the payload or throws, framed by \<open>frame_packet\<close>. A
  name that occurs in several namespaces has the namespace as its prefix; the
  constructors of a packet id enumeration have a prefix of their own.
\<close>

section \<open>Reading and writing one packet\<close>

definition expect_packet_end :: "unit decoder" where
  "expect_packet_end packet =
     (if \<not> reader_empty packet then Inl (Decode_Error ''packet contains trailing data'')
      else Inr ((), packet))"

text \<open>The first check of a decoder, and its return after the last.\<close>

definition expect_id :: "i32 \<Rightarrow> string \<Rightarrow> 'a decoder \<Rightarrow> 'a decoder" where
  "expect_id expected message k = bindD read_varint (\<lambda>packet_id.
     guardD (packet_id \<noteq> expected) (Decode_Error message) k)"

definition complete :: "'a \<Rightarrow> 'a decoder" where
  "complete x = bindD expect_packet_end (\<lambda>_. returnD x)"

definition read_rest :: "bytes decoder" where
  "read_rest packet = read_bytes (remaining packet) packet"

text \<open>
  A writer appends to the payload or throws: \<open>emit\<close> is a write that cannot
  fail, \<open>put\<close> one that can, \<open>check\<close> a throw, \<open>each\<close> a loop over a container.
\<close>

type_synonym writer = "bytes \<Rightarrow> bytes result"

definition emit :: "(bytes \<Rightarrow> 'a \<Rightarrow> bytes) \<Rightarrow> 'a \<Rightarrow> writer" where
  "emit f v output = Inr (f output v)"

definition put :: "(bytes \<Rightarrow> 'a \<Rightarrow> bytes result) \<Rightarrow> 'a \<Rightarrow> writer" where
  "put f v output = f output v"

definition check :: "bool \<Rightarrow> exn \<Rightarrow> writer" where
  "check bad e output = (if bad then Inl e else Inr output)"

definition append_bytes :: "bytes \<Rightarrow> bytes \<Rightarrow> bytes" where
  "append_bytes output bs = output @ bs"

definition write_all :: "writer list \<Rightarrow> writer" where
  "write_all = foldR (\<lambda>w output. w output)"

definition each :: "('a \<Rightarrow> writer list) \<Rightarrow> 'a list \<Rightarrow> writer" where
  "each f xs = write_all (concat (map f xs))"

definition make_packet :: "i32 \<Rightarrow> writer list \<Rightarrow> bytes result" where
  "make_packet packet_id ws = bindR (write_all ws []) (frame_packet packet_id)"

text \<open>\<open>static_cast\<close> of a container's size to the VarInt that precedes its elements.\<close>

abbreviation count_of :: "'a list \<Rightarrow> i32" where
  "count_of xs \<equiv> word_of_nat (length xs)"

section \<open>Handshake\<close>

datatype connection_state =
    Handshaking_State
  | Status_State
  | Login_State
  | Transfer_State
  | Configuration_State
  | Play_State
  | Closed_State

record handshake =
  protocol_version :: i32
  server_address :: string
  server_port :: u16
  next_state :: connection_state

definition decode_handshake :: "handshake decoder" where
  "decode_handshake = expect_id 0 ''expected handshake packet''
     (bindD read_varint (\<lambda>version.
      bindD (read_string 255) (\<lambda>address.
      bindD read_u16_be (\<lambda>port.
      bindD read_varint (\<lambda>intention.
      let result = \<lparr>protocol_version = version, server_address = address,
            server_port = port, next_state = Closed_State\<rparr> in
      if intention = 1 then complete (result\<lparr>next_state := Status_State\<rparr>)
      else if intention = 2 then complete (result\<lparr>next_state := Login_State\<rparr>)
      else if intention = 3 then complete (result\<lparr>next_state := Transfer_State\<rparr>)
      else throwD (Decode_Error ''unsupported handshake intention''))))))"

section \<open>Cookies\<close>

record cookie_response =
  cookie_key :: string
  cookie_payload :: "bytes option"

definition encode_cookie_request :: "i32 \<Rightarrow> string \<Rightarrow> bytes result" where
  "encode_cookie_request packet_id key = make_packet packet_id [put write_string key]"

definition decode_cookie_response :: "i32 \<Rightarrow> cookie_response decoder" where
  "decode_cookie_response expected_packet_id =
     expect_id expected_packet_id ''expected cookie response packet''
     (bindD (read_string 32767) (\<lambda>key.
      bindD read_bool (\<lambda>present.
      if present
      then bindD (read_byte_array 5120) (\<lambda>payload.
        complete \<lparr>cookie_key = key, cookie_payload = Some payload\<rparr>)
      else complete \<lparr>cookie_key = key, cookie_payload = None\<rparr>)))"

section \<open>Login\<close>

datatype login_serverbound =
    LoginS_hello
  | LoginS_key
  | LoginS_custom_query_answer
  | LoginS_acknowledged
  | LoginS_cookie_response

primrec login_serverbound_id :: "login_serverbound \<Rightarrow> i32" where
  "login_serverbound_id LoginS_hello = 0x00"
| "login_serverbound_id LoginS_key = 0x01"
| "login_serverbound_id LoginS_custom_query_answer = 0x02"
| "login_serverbound_id LoginS_acknowledged = 0x03"
| "login_serverbound_id LoginS_cookie_response = 0x04"

datatype login_clientbound =
    LoginC_disconnect
  | LoginC_hello
  | LoginC_finished
  | LoginC_compression
  | LoginC_custom_query
  | LoginC_cookie_request

primrec login_clientbound_id :: "login_clientbound \<Rightarrow> i32" where
  "login_clientbound_id LoginC_disconnect = 0x00"
| "login_clientbound_id LoginC_hello = 0x01"
| "login_clientbound_id LoginC_finished = 0x02"
| "login_clientbound_id LoginC_compression = 0x03"
| "login_clientbound_id LoginC_custom_query = 0x04"
| "login_clientbound_id LoginC_cookie_request = 0x05"

record hello =
  hello_name :: string
  hello_profile_id :: uuid

record encryption_response =
  encrypted_secret :: bytes
  encrypted_challenge :: bytes

record custom_query_answer =
  query_transaction_id :: i32
  query_payload :: "bytes option"

record profile_property =
  property_name :: string
  property_value :: string
  property_signature :: "string option"

record game_profile =
  profile_id :: uuid
  profile_name :: string
  profile_properties :: "profile_property list"

definition login_decode_hello :: "hello decoder" where
  "login_decode_hello = expect_id (login_serverbound_id LoginS_hello) ''expected login hello packet''
     (bindD (read_string 16) (\<lambda>name. bindD read_uuid (\<lambda>id.
      complete \<lparr>hello_name = name, hello_profile_id = id\<rparr>)))"

definition login_decode_encryption_response :: "encryption_response decoder" where
  "login_decode_encryption_response =
     expect_id (login_serverbound_id LoginS_key) ''expected login key packet''
     (bindD (read_byte_array 512) (\<lambda>secret. bindD (read_byte_array 512) (\<lambda>challenge.
      complete \<lparr>encrypted_secret = secret, encrypted_challenge = challenge\<rparr>)))"

definition login_encode_encryption_request :: "string \<Rightarrow> bytes \<Rightarrow> bytes \<Rightarrow> bool \<Rightarrow> bytes result" where
  "login_encode_encryption_request server_id public_key challenge should_authenticate =
     make_packet (login_clientbound_id LoginC_hello)
      [put write_string server_id,
       put write_byte_array public_key,
       put write_byte_array challenge,
       emit write_bool should_authenticate]"

definition login_encode_disconnect :: "string \<Rightarrow> bytes result" where
  "login_encode_disconnect json_component = make_packet (login_clientbound_id LoginC_disconnect)
     [check (length json_component > 262144)
        (Length_Error ''Login disconnect component exceeds protocol limit''),
      put write_string json_component]"

definition login_encode_custom_query :: "i32 \<Rightarrow> string \<Rightarrow> bytes \<Rightarrow> bytes result" where
  "login_encode_custom_query transaction_id channel payload =
     make_packet (login_clientbound_id LoginC_custom_query)
      [check (length payload > 1024 * 1024)
         (Length_Error ''Login custom query exceeds protocol limit''),
       emit write_varint transaction_id,
       put write_string channel,
       emit append_bytes payload]"

definition login_decode_custom_query_answer :: "custom_query_answer decoder" where
  "login_decode_custom_query_answer =
     expect_id (login_serverbound_id LoginS_custom_query_answer)
       ''expected Login custom query answer packet''
     (bindD read_varint (\<lambda>transaction_id.
      bindD read_bool (\<lambda>present.
      if present
      then (\<lambda>packet. guardD (remaining packet > 1024 * 1024)
        (Decode_Error ''Login custom query answer exceeds protocol limit'')
        (bindD read_rest (\<lambda>payload.
          complete \<lparr>query_transaction_id = transaction_id, query_payload = Some payload\<rparr>)) packet)
      else complete \<lparr>query_transaction_id = transaction_id, query_payload = None\<rparr>)))"

definition login_encode_compression :: "nat \<Rightarrow> bytes result" where
  "login_encode_compression threshold = make_packet (login_clientbound_id LoginC_compression)
     [check (threshold > 2147483647)
        (Invalid_Argument ''compression threshold exceeds VarInt range''),
      emit write_varint (word_of_nat threshold)]"

definition login_encode_finished_payload :: "game_profile \<Rightarrow> uuid \<Rightarrow> bytes result" where
  "login_encode_finished_payload profile session_id = write_all
     [check (profile_name profile = [] \<or> length (profile_name profile) > 16 \<or>
         length (profile_properties profile) > 16)
        (Invalid_Argument ''Login profile is outside protocol bounds''),
      emit write_uuid (profile_id profile),
      put write_string (profile_name profile),
      emit write_varint (count_of (profile_properties profile)),
      each (\<lambda>property.
        [check (length (property_name property) > 64 \<or> length (property_value property) > 32767 \<or>
            (case property_signature property of None \<Rightarrow> False | Some s \<Rightarrow> length s > 1024))
           (Invalid_Argument ''Login profile property is outside protocol bounds''),
         put write_string (property_name property),
         put write_string (property_value property),
         put (write_optional write_string) (property_signature property)])
        (profile_properties profile),
      emit write_uuid session_id] []"

definition login_encode_finished :: "game_profile \<Rightarrow> uuid \<Rightarrow> bytes result" where
  "login_encode_finished profile session_id =
     bindR (login_encode_finished_payload profile session_id)
       (frame_packet (login_clientbound_id LoginC_finished))"

definition login_encode_finished_hello :: "hello \<Rightarrow> uuid \<Rightarrow> bytes result" where
  "login_encode_finished_hello hello session_id =
     login_encode_finished
       \<lparr>profile_id = hello_profile_id hello, profile_name = hello_name hello,
        profile_properties = []\<rparr> session_id"

section \<open>Configuration\<close>

datatype configuration_serverbound =
    ConfigurationS_client_information
  | ConfigurationS_cookie_response
  | ConfigurationS_custom_payload
  | ConfigurationS_finish
  | ConfigurationS_keep_alive
  | ConfigurationS_pong
  | ConfigurationS_resource_pack
  | ConfigurationS_select_known_packs
  | ConfigurationS_custom_click_action
  | ConfigurationS_accept_code_of_conduct

primrec configuration_serverbound_id :: "configuration_serverbound \<Rightarrow> i32" where
  "configuration_serverbound_id ConfigurationS_client_information = 0x00"
| "configuration_serverbound_id ConfigurationS_cookie_response = 0x01"
| "configuration_serverbound_id ConfigurationS_custom_payload = 0x02"
| "configuration_serverbound_id ConfigurationS_finish = 0x03"
| "configuration_serverbound_id ConfigurationS_keep_alive = 0x04"
| "configuration_serverbound_id ConfigurationS_pong = 0x05"
| "configuration_serverbound_id ConfigurationS_resource_pack = 0x06"
| "configuration_serverbound_id ConfigurationS_select_known_packs = 0x07"
| "configuration_serverbound_id ConfigurationS_custom_click_action = 0x08"
| "configuration_serverbound_id ConfigurationS_accept_code_of_conduct = 0x09"

datatype configuration_clientbound =
    ConfigurationC_cookie_request
  | ConfigurationC_custom_payload
  | ConfigurationC_disconnect
  | ConfigurationC_finish
  | ConfigurationC_keep_alive
  | ConfigurationC_ping
  | ConfigurationC_reset_chat
  | ConfigurationC_registry_data
  | ConfigurationC_resource_pack_pop
  | ConfigurationC_resource_pack_push
  | ConfigurationC_store_cookie
  | ConfigurationC_transfer
  | ConfigurationC_update_enabled_features
  | ConfigurationC_update_tags
  | ConfigurationC_select_known_packs
  | ConfigurationC_custom_report_details
  | ConfigurationC_server_links
  | ConfigurationC_clear_dialog
  | ConfigurationC_show_dialog
  | ConfigurationC_code_of_conduct

primrec configuration_clientbound_id :: "configuration_clientbound \<Rightarrow> i32" where
  "configuration_clientbound_id ConfigurationC_cookie_request = 0x00"
| "configuration_clientbound_id ConfigurationC_custom_payload = 0x01"
| "configuration_clientbound_id ConfigurationC_disconnect = 0x02"
| "configuration_clientbound_id ConfigurationC_finish = 0x03"
| "configuration_clientbound_id ConfigurationC_keep_alive = 0x04"
| "configuration_clientbound_id ConfigurationC_ping = 0x05"
| "configuration_clientbound_id ConfigurationC_reset_chat = 0x06"
| "configuration_clientbound_id ConfigurationC_registry_data = 0x07"
| "configuration_clientbound_id ConfigurationC_resource_pack_pop = 0x08"
| "configuration_clientbound_id ConfigurationC_resource_pack_push = 0x09"
| "configuration_clientbound_id ConfigurationC_store_cookie = 0x0A"
| "configuration_clientbound_id ConfigurationC_transfer = 0x0B"
| "configuration_clientbound_id ConfigurationC_update_enabled_features = 0x0C"
| "configuration_clientbound_id ConfigurationC_update_tags = 0x0D"
| "configuration_clientbound_id ConfigurationC_select_known_packs = 0x0E"
| "configuration_clientbound_id ConfigurationC_custom_report_details = 0x0F"
| "configuration_clientbound_id ConfigurationC_server_links = 0x10"
| "configuration_clientbound_id ConfigurationC_clear_dialog = 0x11"
| "configuration_clientbound_id ConfigurationC_show_dialog = 0x12"
| "configuration_clientbound_id ConfigurationC_code_of_conduct = 0x13"

record tag_data =
  tag_name :: string
  tag_entries :: "i32 list"

record registry_tags =
  tags_registry :: string
  registry_tag_list :: "tag_data list"

record registry_data =
  data_registry :: string
  registry_entries :: "string list"

record known_pack =
  pack_name_space :: string
  pack_id :: string
  pack_version :: string

record client_information =
  language :: string
  view_distance :: i8
  chat_visibility :: u8
  chat_colors :: bool
  model_customisation :: u8
  main_hand :: u8
  text_filtering_enabled :: bool
  allows_listing :: bool
  particle_status :: u8

record custom_payload =
  payload_channel :: string
  payload_data :: bytes

datatype resource_pack_action =
    Successfully_Loaded
  | Declined
  | Failed_Download
  | Accepted
  | Downloaded
  | Invalid_Url
  | Failed_Reload
  | Discarded

text \<open>The enumerators in order: \<open>static_cast\<close> of an index to the enumeration.\<close>

definition resource_pack_actions :: "resource_pack_action list" where
  "resource_pack_actions = [Successfully_Loaded, Declined, Failed_Download, Accepted,
     Downloaded, Invalid_Url, Failed_Reload, Discarded]"

record resource_pack_response =
  resource_pack_id :: uuid
  resource_pack_result :: resource_pack_action

record custom_click_action =
  click_id :: string
  click_payload :: "tag option"

definition max_known_packs :: nat where
  "max_known_packs = 64"

definition write_known_pack :: "known_pack \<Rightarrow> writer" where
  "write_known_pack pack = write_all
     [put write_string (pack_name_space pack),
      put write_string (pack_id pack),
      put write_string (pack_version pack)]"

definition configuration_encode_custom_payload :: "string \<Rightarrow> bytes \<Rightarrow> bytes result" where
  "configuration_encode_custom_payload channel payload =
     make_packet (configuration_clientbound_id ConfigurationC_custom_payload)
      [check (length payload > 1024 * 1024)
         (Length_Error ''Configuration custom payload exceeds limit''),
       put write_identifier channel,
       emit append_bytes payload]"

definition configuration_encode_brand :: "string \<Rightarrow> bytes result" where
  "configuration_encode_brand brand = bindR (write_string [] brand)
     (configuration_encode_custom_payload ''minecraft:brand'')"

definition component_limits :: limits where
  "component_limits = \<lparr>max_bytes = 262144, max_depth = 64,
     max_collection_entries = 4096, max_string_bytes = 65535\<rparr>"

definition configuration_encode_disconnect_text :: "string \<Rightarrow> bytes result" where
  "configuration_encode_disconnect_text str =
     make_packet (configuration_clientbound_id ConfigurationC_disconnect)
      [put (write_any_tag component_limits) (string_tag str)]"

definition configuration_encode_cookie_request :: "string \<Rightarrow> bytes result" where
  "configuration_encode_cookie_request key =
     encode_cookie_request (configuration_clientbound_id ConfigurationC_cookie_request) key"

text \<open>\<open>static_cast<std::uint8_t>\<close> of a VarInt keeps its low eight bits.\<close>

definition decode_client_information_payload :: "client_information decoder" where
  "decode_client_information_payload =
     bindD (read_string 16) (\<lambda>language.
     bindD read_i8 (\<lambda>distance.
     bindD read_varint (\<lambda>visibility.
     bindD read_bool (\<lambda>colors.
     bindD read_u8 (\<lambda>model.
     bindD read_varint (\<lambda>hand.
     bindD read_bool (\<lambda>filtering.
     bindD read_bool (\<lambda>listing.
     bindD read_varint (\<lambda>particles.
     let information =
       \<lparr>language = language, view_distance = distance, chat_visibility = ucast visibility,
        chat_colors = colors, model_customisation = model, main_hand = ucast hand,
        text_filtering_enabled = filtering, allows_listing = listing,
        particle_status = ucast particles\<rparr> in
     guardD (chat_visibility information > 2 \<or> main_hand information > 1 \<or>
         particle_status information > 2)
       (Decode_Error ''client information enum is out of bounds'')
       (complete information))))))))))"

definition configuration_decode_client_information :: "client_information decoder" where
  "configuration_decode_client_information =
     expect_id (configuration_serverbound_id ConfigurationS_client_information)
       ''expected Configuration client information packet'' decode_client_information_payload"

definition configuration_decode_cookie_response :: "cookie_response decoder" where
  "configuration_decode_cookie_response =
     decode_cookie_response (configuration_serverbound_id ConfigurationS_cookie_response)"

definition decode_custom_payload_payload :: "custom_payload decoder" where
  "decode_custom_payload_payload = bindD read_identifier (\<lambda>channel packet.
     guardD (remaining packet > 1024 * 1024) (Decode_Error ''custom payload exceeds limit'')
      (bindD read_rest (\<lambda>bs. returnD \<lparr>payload_channel = channel, payload_data = bs\<rparr>)) packet)"

definition configuration_decode_custom_payload :: "custom_payload decoder" where
  "configuration_decode_custom_payload =
     expect_id (configuration_serverbound_id ConfigurationS_custom_payload)
       ''expected Configuration custom payload packet'' decode_custom_payload_payload"

definition configuration_encode_finish :: "bytes result" where
  "configuration_encode_finish = make_packet (configuration_clientbound_id ConfigurationC_finish) []"

definition configuration_decode_finish :: "unit decoder" where
  "configuration_decode_finish =
     expect_id (configuration_serverbound_id ConfigurationS_finish)
       ''expected Configuration finish packet'' (complete ())"

definition configuration_encode_keep_alive :: "i64 \<Rightarrow> bytes result" where
  "configuration_encode_keep_alive i =
     make_packet (configuration_clientbound_id ConfigurationC_keep_alive) [emit write_i64_be i]"

definition configuration_decode_keep_alive :: "i64 decoder" where
  "configuration_decode_keep_alive =
     expect_id (configuration_serverbound_id ConfigurationS_keep_alive)
       ''expected Configuration keepalive packet'' (bindD read_i64_be complete)"

definition configuration_encode_ping :: "i32 \<Rightarrow> bytes result" where
  "configuration_encode_ping i =
     make_packet (configuration_clientbound_id ConfigurationC_ping) [emit write_i32_be i]"

definition configuration_decode_pong :: "i32 decoder" where
  "configuration_decode_pong =
     expect_id (configuration_serverbound_id ConfigurationS_pong)
       ''expected Configuration pong packet'' (bindD read_i32_be complete)"

definition configuration_encode_reset_chat :: "bytes result" where
  "configuration_encode_reset_chat =
     make_packet (configuration_clientbound_id ConfigurationC_reset_chat) []"

definition configuration_encode_resource_pack_pop :: "uuid option \<Rightarrow> bytes result" where
  "configuration_encode_resource_pack_pop i =
     make_packet (configuration_clientbound_id ConfigurationC_resource_pack_pop)
      [put (write_optional (\<lambda>output v. Inr (write_uuid output v))) i]"

definition configuration_encode_resource_pack_push ::
  "uuid \<Rightarrow> string \<Rightarrow> string \<Rightarrow> bool \<Rightarrow> bytes result" where
  "configuration_encode_resource_pack_push i url hash required =
     make_packet (configuration_clientbound_id ConfigurationC_resource_pack_push)
      [check (length url > 32767 \<or> length hash > 40)
         (Length_Error ''Configuration resource pack field exceeds limit''),
       emit write_uuid i,
       put write_string url,
       put write_string hash,
       emit write_bool required,
       emit write_bool False]"

text \<open>The response after the id, with the message of its bounds check.\<close>

definition decode_resource_pack_action :: "string \<Rightarrow> resource_pack_response decoder" where
  "decode_resource_pack_action message =
     bindD read_uuid (\<lambda>id. bindD read_varint (\<lambda>action.
     guardD (action <s 0 \<or> 7 <s action) (Decode_Error message)
      (complete \<lparr>resource_pack_id = id, resource_pack_result = resource_pack_actions ! unat action\<rparr>)))"

definition configuration_decode_resource_pack_response :: "resource_pack_response decoder" where
  "configuration_decode_resource_pack_response =
     expect_id (configuration_serverbound_id ConfigurationS_resource_pack)
       ''expected Configuration resource pack response''
       (decode_resource_pack_action ''Configuration resource pack action is out of bounds'')"

definition click_limits :: limits where
  "click_limits = \<lparr>max_bytes = 32768, max_depth = 16,
     max_collection_entries = 8192, max_string_bytes = 32767\<rparr>"

text \<open>The nested reader over the encoded tag is a reader of its own.\<close>

definition decode_custom_click_action_payload :: "custom_click_action decoder" where
  "decode_custom_click_action_payload =
     bindD read_identifier (\<lambda>id.
     bindD (read_byte_array 65536) (\<lambda>encoded.
     bindD (liftD (bindR (read_any_tag click_limits (mk_reader encoded)) (\<lambda>(tag, tag_reader).
       if \<not> reader_empty tag_reader
       then Inl (Decode_Error ''Configuration custom click NBT contains trailing data'')
       else Inr tag))) (\<lambda>tag.
     complete \<lparr>click_id = id, click_payload = (if tag_type tag \<noteq> End_T then Some tag else None)\<rparr>)))"

definition configuration_decode_custom_click_action :: "custom_click_action decoder" where
  "configuration_decode_custom_click_action =
     expect_id (configuration_serverbound_id ConfigurationS_custom_click_action)
       ''expected Configuration custom click action'' decode_custom_click_action_payload"

definition configuration_encode_store_cookie :: "string \<Rightarrow> bytes \<Rightarrow> bytes result" where
  "configuration_encode_store_cookie key payload =
     make_packet (configuration_clientbound_id ConfigurationC_store_cookie)
      [check (length payload > 5120)
         (Length_Error ''Configuration cookie payload exceeds 5120 bytes''),
       put write_identifier key,
       put write_byte_array payload]"

definition configuration_encode_transfer :: "string \<Rightarrow> u16 \<Rightarrow> bytes result" where
  "configuration_encode_transfer host port =
     make_packet (configuration_clientbound_id ConfigurationC_transfer)
      [check (host = []) (Invalid_Argument ''transfer host must not be empty''),
       put write_string host,
       emit write_varint (ucast port)]"

definition configuration_encode_enabled_features :: "string list \<Rightarrow> bytes result" where
  "configuration_encode_enabled_features features =
     make_packet (configuration_clientbound_id ConfigurationC_update_enabled_features)
      [check (length features > 1024) (Length_Error ''enabled feature set exceeds limit''),
       emit write_varint (count_of features),
       each (\<lambda>feature. [put write_identifier feature]) features]"

definition configuration_encode_vanilla_features :: "bytes result" where
  "configuration_encode_vanilla_features =
     configuration_encode_enabled_features [''minecraft:vanilla'']"

definition configuration_encode_select_known_packs :: "bytes result" where
  "configuration_encode_select_known_packs =
     make_packet (configuration_clientbound_id ConfigurationC_select_known_packs)
      [emit write_varint 1,
       write_known_pack \<lparr>pack_name_space = ''minecraft'', pack_id = ''core'', pack_version = ''26.2''\<rparr>]"

definition read_known_pack :: "known_pack decoder" where
  "read_known_pack =
     bindD (read_string 32767) (\<lambda>name_space.
     bindD (read_string 32767) (\<lambda>id.
     bindD (read_string 32767) (\<lambda>version.
     returnD \<lparr>pack_name_space = name_space, pack_id = id, pack_version = version\<rparr>)))"

definition configuration_decode_selected_known_packs :: "known_pack list decoder" where
  "configuration_decode_selected_known_packs =
     expect_id (configuration_serverbound_id ConfigurationS_select_known_packs)
       ''expected selected known packs packet''
     (bindD read_varint (\<lambda>count.
      guardD (count <s 0 \<or> unat count > max_known_packs)
        (Decode_Error ''known pack count is out of bounds'')
        (bindD (read_n (unat count) read_known_pack) complete)))"

definition configuration_encode_empty_tags :: "bytes result" where
  "configuration_encode_empty_tags =
     make_packet (configuration_clientbound_id ConfigurationC_update_tags) [emit write_varint 0]"

definition configuration_encode_custom_report_details :: "(string \<times> string) list \<Rightarrow> bytes result" where
  "configuration_encode_custom_report_details details =
     make_packet (configuration_clientbound_id ConfigurationC_custom_report_details)
      [check (length details > 32) (Length_Error ''custom report details exceed limit''),
       emit write_varint (count_of details),
       each (\<lambda>(title, description).
         [check (length title > 128 \<or> length description > 4096)
            (Length_Error ''custom report detail field exceeds limit''),
          put write_string title,
          put write_string description]) details]"

definition configuration_encode_empty_server_links :: "bytes result" where
  "configuration_encode_empty_server_links =
     make_packet (configuration_clientbound_id ConfigurationC_server_links) [emit write_varint 0]"

definition configuration_encode_clear_dialog :: "bytes result" where
  "configuration_encode_clear_dialog =
     make_packet (configuration_clientbound_id ConfigurationC_clear_dialog) []"

definition configuration_encode_show_dialog :: "tag \<Rightarrow> bytes result" where
  "configuration_encode_show_dialog direct_dialog =
     make_packet (configuration_clientbound_id ConfigurationC_show_dialog)
      [check (tag_type direct_dialog = End_T)
         (Invalid_Argument ''Configuration dialog must not be an END tag''),
       put (write_any_tag \<lparr>max_bytes = 2 * 1024 * 1024, max_depth = 64,
         max_collection_entries = 65536, max_string_bytes = 65535\<rparr>) direct_dialog]"

definition configuration_encode_code_of_conduct :: "string \<Rightarrow> bytes result" where
  "configuration_encode_code_of_conduct str =
     make_packet (configuration_clientbound_id ConfigurationC_code_of_conduct)
      [put write_string str]"

definition configuration_decode_accept_code_of_conduct :: "unit decoder" where
  "configuration_decode_accept_code_of_conduct =
     expect_id (configuration_serverbound_id ConfigurationS_accept_code_of_conduct)
       ''expected accept code of conduct packet'' (complete ())"

section \<open>The contract of a decoder\<close>

text \<open>
  A polite decoder throws nothing but \<open>DecodeError\<close>. A whole decoder is polite,
  stays inside its span and returns only when the span is consumed.
\<close>

definition polite :: "'a decoder \<Rightarrow> bool" where
  "polite d = (\<forall>r e. d r = Inl e \<longrightarrow> (\<exists>m. e = Decode_Error m))"

definition whole :: "'a decoder \<Rightarrow> bool" where
  "whole d = (safe d \<and> polite d \<and>
     (\<forall>r x r'. wf_reader r \<longrightarrow> d r = Inr (x, r') \<longrightarrow> reader_empty r'))"

named_theorems polite_intros

lemma politeI: "(\<And>r e. d r = Inl e \<Longrightarrow> \<exists>m. e = Decode_Error m) \<Longrightarrow> polite d"
  unfolding polite_def by blast

lemma politeD: "polite d \<Longrightarrow> d r = Inl e \<Longrightarrow> \<exists>m. e = Decode_Error m"
  unfolding polite_def by blast

lemma polite_returnD [polite_intros]: "polite (returnD x)"
  by (simp add: polite_def returnD_def)

lemma polite_throwD [polite_intros]: "polite (throwD (Decode_Error m))"
  by (simp add: polite_def throwD_def)

lemma polite_bindD [polite_intros]: "polite d \<Longrightarrow> (\<And>x. polite (f x)) \<Longrightarrow> polite (bindD d f)"
  unfolding polite_def bindD_Inl_iff by blast

lemma polite_guardD [polite_intros]: "polite k \<Longrightarrow> polite (guardD c (Decode_Error m) k)"
  by (simp add: guardD_def polite_throwD)

lemma polite_if [polite_intros]: "(c \<Longrightarrow> polite a) \<Longrightarrow> (\<not> c \<Longrightarrow> polite b) \<Longrightarrow> polite (if c then a else b)"
  by simp

lemma polite_read_n [polite_intros]: "polite d \<Longrightarrow> polite (read_n n d)"
  by (induction n) (auto intro: polite_intros)

lemma polite_foldD: "(\<And>x s. polite (f x s)) \<Longrightarrow> polite (foldD f xs s)"
  by (induction xs arbitrary: s) (auto intro: polite_intros)

lemma polite_read_bytes [polite_intros]: "polite (read_bytes n)"
  by (simp add: polite_def read_bytes_def)

lemma polite_rest: "(\<And>bs. polite (f bs)) \<Longrightarrow>
    polite (\<lambda>r. guardD (remaining r > n) (Decode_Error m) (bindD read_rest f) r)"
  by (auto simp: polite_def guardD_def throwD_def bindD_Inl_iff read_rest_def read_bytes_def)

lemma polite_liftD [polite_intros]: "(\<And>e. m = Inl e \<Longrightarrow> \<exists>s. e = Decode_Error s) \<Longrightarrow> polite (liftD m)"
  by (cases m) (auto simp: liftD_def polite_def throwD_def returnD_def)

lemma polite_read_leb: "polite (read_leb limit overflow t e l i (acc :: 'w::len word))"
proof (induction "limit - i" arbitrary: i acc)
  case 0
  then show ?case by (simp add: polite_def read_leb.simps [of limit _ _ _ _ i])
next
  case (Suc n)
  have "polite (read_leb limit overflow t e l (i + 1) a)" for a :: "'w word"
    using Suc.hyps(2) by (intro Suc.hyps(1)) arith
  then show ?case
    unfolding polite_def by (subst read_leb.simps) (auto simp: Let_def)
qed

lemma polite_read_varint [polite_intros]: "polite read_varint"
  and polite_read_varlong [polite_intros]: "polite read_varlong"
  by (simp_all add: read_varint_def read_varlong_def polite_read_leb)

lemma polite_read_u8 [polite_intros]: "polite read_u8"
  and polite_read_i8 [polite_intros]: "polite read_i8"
  and polite_read_bool [polite_intros]: "polite read_bool"
  and polite_read_i16 [polite_intros]: "polite read_i16_be"
  and polite_read_u16 [polite_intros]: "polite read_u16_be"
  and polite_read_i32 [polite_intros]: "polite read_i32_be"
  and polite_read_i64 [polite_intros]: "polite read_i64_be"
  by (auto simp: read_u8_def read_i8_def read_bool_def read_i16_be_def read_u16_be_def
      read_i32_be_def read_i64_be_def intro!: polite_intros)

lemma polite_read_f32 [polite_intros]: "polite read_f32_be"
  and polite_read_f64 [polite_intros]: "polite read_f64_be"
  and polite_read_uuid [polite_intros]: "polite read_uuid"
  and polite_read_position [polite_intros]: "polite read_position"
  by (auto simp: read_f32_be_def read_f64_be_def read_uuid_def read_position_def
      intro!: polite_intros)

lemma utf8_continue_error: "utf8_continue bs c = Inl e \<Longrightarrow> \<exists>m. e = Decode_Error m"
  by (induction bs c rule: utf8_continue.induct) (auto simp: utf8_continue.simps split: if_splits)

lemma utf16_length_error: "utf16_length_from bs n = Inl e \<Longrightarrow> \<exists>m. e = Decode_Error m"
proof (induction bs n rule: utf16_length_from.induct)
  case (2 first rest units)
  then show ?case
    by (auto simp: utf16_length_from.simps bindR_Inl_iff Let_def split: option.splits prod.splits if_splits
        dest: utf8_continue_error)
qed simp

lemma polite_read_string [polite_intros]: "polite (read_string m)"
  and polite_read_byte_array [polite_intros]: "polite (read_byte_array m)"
  by (auto simp: read_string_def Let_def read_byte_array_def utf16_length_def
      intro!: polite_intros dest: utf16_length_error)

lemma polite_read_identifier [polite_intros]: "polite read_identifier"
  by (auto simp: read_identifier_def Let_def intro!: polite_intros)

lemma modified_unit_error: "modified_unit b bs = Inl e \<Longrightarrow> \<exists>m. e = Decode_Error m"
  by (auto simp: modified_unit_def Let_def split: if_splits)

lemma modified_code_point_error: "modified_code_point u bs = Inl e \<Longrightarrow> \<exists>m. e = Decode_Error m"
  by (auto simp: modified_code_point_def Let_def split: if_splits)

lemma decode_modified_error: "decode_modified_utf bs out = Inl e \<Longrightarrow> \<exists>m. e = Decode_Error m"
proof (induction bs out rule: decode_modified_utf.induct)
  case (2 first rest out)
  then show ?case
    by (auto simp: bindR_Inl_iff dest: modified_unit_error modified_code_point_error)
qed simp

lemma polite_read_type [polite_intros]: "polite read_type"
  and polite_checked_count [polite_intros]: "polite (checked_count limits)"
  and polite_read_modified_utf [polite_intros]: "polite (read_modified_utf limits)"
  by (auto simp: read_type_def checked_count_def read_modified_utf_def
      intro!: polite_intros dest: decode_modified_error)

lemma polite_read_entries [polite_intros]:
  assumes "\<And>t. polite (rc t)"
  shows "polite (read_entries limits rc n)"
  using assms
proof (induction limits rc n rule: read_entries.induct)
  case (1 limits rc n)
  then show ?case
    by (subst read_entries.simps) (auto intro!: polite_intros)
qed

lemma polite_read_payload [polite_intros]: "polite (read_payload limits depth type)"
proof (induction limits depth type rule: read_payload.induct)
  case (1 limits depth type)
  then show ?case
    by (subst read_payload.simps) (auto intro!: polite_intros split: nbt_type.split)
qed

lemma polite_read_any_tag [polite_intros]: "polite (read_any_tag limits)"
proof (rule politeI)
  fix r e assume "read_any_tag limits r = Inl e"
  then consider "read_type r = Inl e" | t r' where "read_payload limits 0 t r' = Inl e"
    | m where "e = Decode_Error m"
    by (auto simp: read_any_tag_def bindD_Inl_iff guardD_def throwD_def returnD_def split: if_splits)
  then show "\<exists>m. e = Decode_Error m"
    using politeD [OF polite_read_type] politeD [OF polite_read_payload] by cases blast+
qed

section \<open>Whole decoders\<close>

named_theorems whole_intros

lemma whole_complete [whole_intros]: "whole (complete x)"
  by (auto simp: whole_def safe_def polite_def complete_def expect_packet_end_def bindD_def
      returnD_def split: if_splits)

lemma whole_throwD [whole_intros]: "whole (throwD (Decode_Error m))"
  by (simp add: whole_def safe_throwD polite_throwD)

lemma whole_bindD [whole_intros]:
  assumes "safe d" and "polite d" and "\<And>x. whole (f x)"
  shows "whole (bindD d f)"
proof -
  have "safe (bindD d f)" "polite (bindD d f)"
    using assms by (auto simp: whole_def intro: safe_bindD polite_bindD)
  moreover have "reader_empty r'" if "wf_reader r" "bindD d f r = Inr (x, r')" for r x r'
    using that assms safeD(1) [OF assms(1)] unfolding whole_def bindD_Inr_iff by blast
  ultimately show ?thesis unfolding whole_def by blast
qed

lemma whole_guardD [whole_intros]: "whole k \<Longrightarrow> whole (guardD c (Decode_Error m) k)"
  by (simp add: guardD_def whole_throwD)

lemma whole_if [whole_intros]: "whole a \<Longrightarrow> whole b \<Longrightarrow> whole (if c then a else b)"
  by simp

lemma whole_expect_id [whole_intros]: "whole k \<Longrightarrow> whole (expect_id i m k)"
  unfolding expect_id_def by (intro whole_intros safe_intros polite_intros)

lemma read_rest_empty: "wf_reader r \<Longrightarrow> read_rest r = Inr (bs, r') \<Longrightarrow> reader_empty r'"
  by (auto simp: read_rest_def read_bytes_def remaining_def wf_reader_def reader_empty_def advance_def)

lemma safe_read_rest: "safe read_rest"
  by (auto simp: safe_def read_rest_def dest: safeD [OF safe_read_bytes])

lemma whole_rest:
  assumes "\<And>bs. whole (f bs) \<or> (\<exists>x. f bs = returnD x)"
  shows "whole (\<lambda>r. guardD (remaining r > n) (Decode_Error m) (bindD read_rest f) r)"
proof -
  have s: "safe (f bs)" and p: "polite (f bs)" for bs
    using assms [of bs] by (auto simp: whole_def intro: safe_returnD polite_returnD)
  have e: "reader_empty r'" if "bindD read_rest f r = Inr (x, r')" "wf_reader r" for r x r'
  proof -
    from that obtain bs r1 where r1: "read_rest r = Inr (bs, r1)" and f: "f bs r1 = Inr (x, r')"
      by (auto simp: bindD_Inr_iff)
    from read_rest_empty [OF that(2) r1] safeD(1) [OF safe_read_rest that(2) r1] f assms [of bs]
    show ?thesis by (auto simp: whole_def returnD_def)
  qed
  let ?d = "\<lambda>r. guardD (remaining r > n) (Decode_Error m) (bindD read_rest f) r"
  have b: "safe (bindD read_rest f)" by (intro safe_bindD safe_read_rest s)
  have "bindD read_rest f r = Inr (x, r')" if "?d r = Inr (x, r')" for r x r'
    using that by (simp add: guardD_Inr_iff)
  with b have "safe ?d" unfolding safe_def by blast
  moreover have "polite ?d" by (rule polite_rest [OF p])
  moreover have "reader_empty r'" if "wf_reader r" "?d r = Inr (x, r')" for r x r'
    using that e [of r x r'] by (simp add: guardD_Inr_iff)
  ultimately show ?thesis unfolding whole_def by blast
qed

text \<open>What a whole decoder does with the body of a packet.\<close>

definition rejects_or_consumes :: "'a decoder \<Rightarrow> bytes \<Rightarrow> bool" where
  "rejects_or_consumes d body = (case d (mk_reader body) of
      Inl (Decode_Error m) \<Rightarrow> True
    | Inl _ \<Rightarrow> False
    | Inr (x, r) \<Rightarrow> data r = body \<and> offset r = length body)"

lemma whole_run: "whole d \<Longrightarrow> rejects_or_consumes d body"
proof -
  assume w: "whole d"
  have r: "wf_reader (mk_reader body)" by (simp add: wf_reader_def mk_reader_def)
  show ?thesis
  proof (cases "d (mk_reader body)")
    case (Inl e)
    with w obtain m where "e = Decode_Error m" unfolding whole_def polite_def by blast
    with Inl show ?thesis by (simp add: rejects_or_consumes_def)
  next
    case (Inr p)
    obtain x r' where "p = (x, r')" by (cases p)
    with Inr w r have "reader_empty r'" "data r' = body"
      by (auto simp: whole_def mk_reader_def dest: safeD(2))
    with Inr \<open>p = (x, r')\<close> show ?thesis
      by (simp add: rejects_or_consumes_def reader_empty_def)
  qed
qed

lemma whole_decode_handshake: "whole decode_handshake"
  unfolding decode_handshake_def Let_def by (intro whole_intros safe_intros polite_intros)

lemma whole_decode_cookie_response: "whole (decode_cookie_response i)"
  unfolding decode_cookie_response_def by (intro whole_intros safe_intros polite_intros)

lemma whole_login_decoders:
  "whole login_decode_hello"
  "whole login_decode_encryption_response"
  "whole login_decode_custom_query_answer"
  unfolding login_decode_hello_def login_decode_encryption_response_def
    login_decode_custom_query_answer_def
  by (intro whole_intros whole_rest disjI1 safe_intros polite_intros)+

lemma whole_client_information: "whole decode_client_information_payload"
  unfolding decode_client_information_payload_def Let_def
  by (intro whole_intros safe_intros polite_intros)

lemma whole_custom_payload: "whole decode_custom_payload_payload"
  unfolding decode_custom_payload_payload_def
  by (intro whole_intros safe_intros polite_intros whole_rest) blast

lemma whole_resource_pack_action: "whole (decode_resource_pack_action m)"
  unfolding decode_resource_pack_action_def by (intro whole_intros safe_intros polite_intros)

lemma whole_custom_click: "whole decode_custom_click_action_payload"
  unfolding decode_custom_click_action_payload_def
proof (intro whole_intros safe_intros polite_intros)
  fix bs e
  assume "bindR (read_any_tag click_limits (mk_reader bs)) (\<lambda>(tag, tag_reader).
      if \<not> reader_empty tag_reader
      then Inl (Decode_Error ''Configuration custom click NBT contains trailing data'')
      else Inr tag) = Inl e"
  then show "\<exists>s. e = Decode_Error s"
    by (auto simp: bindR_Inl_iff split: if_splits dest: politeD [OF polite_read_any_tag])
qed

lemma whole_known_packs: "whole configuration_decode_selected_known_packs"
  unfolding configuration_decode_selected_known_packs_def read_known_pack_def
  by (intro whole_intros safe_intros polite_intros)

lemma whole_configuration_decoders:
  "whole configuration_decode_client_information"
  "whole configuration_decode_cookie_response"
  "whole configuration_decode_custom_payload"
  "whole configuration_decode_finish"
  "whole configuration_decode_keep_alive"
  "whole configuration_decode_pong"
  "whole configuration_decode_resource_pack_response"
  "whole configuration_decode_custom_click_action"
  "whole configuration_decode_accept_code_of_conduct"
  unfolding configuration_decode_client_information_def configuration_decode_cookie_response_def
    configuration_decode_custom_payload_def configuration_decode_finish_def
    configuration_decode_keep_alive_def configuration_decode_pong_def
    configuration_decode_resource_pack_response_def configuration_decode_custom_click_action_def
    configuration_decode_accept_code_of_conduct_def
  by (intro whole_intros safe_intros polite_intros whole_client_information
      whole_decode_cookie_response whole_custom_payload whole_resource_pack_action
      whole_custom_click)+

text \<open>The enumerations of the client information are cut to a byte before the check of their range:
  the varint 256 is accepted as the chat visibility 0.\<close>

lemma client_information_enums_cut:
  "map_sum (\<lambda>e. ()) (chat_visibility \<circ> fst)
     (decode_client_information_payload (mk_reader [2, 101, 110, 8, 128, 2, 1, 0, 1, 0, 0, 0])) = Inr 0"
  "map_sum (\<lambda>e. ()) fst (read_varint (mk_reader [128, 2])) = Inr 256"
  by code_simp+

end
