(* ===== verification/Floats.thy ===== *)
theory Floats
  imports Reader
begin

text \<open>
  IEEE 754 numbers as the code holds them: a \<open>float\<close> is its 32 bits and a
  \<open>double\<close> its 64. The predicates are the comparisons and classifications of
  the standard library the sources call (\<open>std::isfinite\<close>, \<open>std::isnan\<close>,
  \<open>std::abs\<close>, \<open><\<close>, \<open><=\<close>), the operations round to nearest, ties to even.
  A finite number denotes an integer multiple of the format's least positive
  number; \<open>scaled\<close> is that integer, so the laws are stated on integers.
\<close>

section \<open>Magnitudes\<close>

text \<open>
  The magnitude of a pattern is its bits without the sign; with \<open>m\<close> fraction
  bits its exponent field is \<open>n div 2 ^ m\<close> and its fraction \<open>n mod 2 ^ m\<close>.
\<close>

definition scaled :: "nat \<Rightarrow> nat \<Rightarrow> nat" where
  "scaled m n = (if n < 2 ^ m then n else (2 ^ m + n mod 2 ^ m) * 2 ^ (n div 2 ^ m - 1))"

lemma scaled_step: "scaled m n < scaled m (Suc n)"
proof (cases "Suc n < 2 ^ m")
  case True
  then show ?thesis by (simp add: scaled_def)
next
  case big: False
  define q r where "q = n div 2 ^ m" and "r = n mod 2 ^ m"
  have n: "n = q * 2 ^ m + r" and r: "r < 2 ^ m"
    unfolding q_def r_def by (simp_all only: div_mult_mod_eq mod_less_divisor zero_less_power zero_less_numeral)
  show ?thesis
  proof (cases "n < 2 ^ m")
    case True
    with big have "Suc n = 2 ^ m" by simp
    then show ?thesis by (simp add: scaled_def flip: \<open>Suc n = 2 ^ m\<close>)
  next
    case False
    then have "0 < q" by (simp add: q_def div_greater_zero_iff)
    then obtain k where k: "q = Suc k" by (cases q) auto
    have s: "scaled m n = (2 ^ m + r) * 2 ^ k"
      using False k by (simp add: scaled_def q_def r_def)
    show ?thesis
    proof (cases "Suc r < 2 ^ m")
      case True
      have "Suc n div 2 ^ m = q" "Suc n mod 2 ^ m = Suc r"
        using True by (simp_all add: n div_mult_self3 flip: add_Suc_right)
      with False big k have "scaled m (Suc n) = (2 ^ m + Suc r) * 2 ^ k"
        by (simp add: scaled_def)
      with s show ?thesis by simp
    next
      case carry: False
      with r have "Suc r = 2 ^ m" by simp
      then have "Suc n = Suc q * 2 ^ m" by (simp add: n)
      then have "scaled m (Suc n) = 2 ^ m * 2 ^ q"
        using big by (simp add: scaled_def)
      also have "\<dots> = (2 ^ m + 2 ^ m) * 2 ^ k" by (simp add: k)
      finally show ?thesis using s r by simp
    qed
  qed
qed

lemma scaled_less: "scaled m a < scaled m b \<longleftrightarrow> a < b"
  using lift_Suc_mono_less [of "scaled m"] scaled_step by (metis linorder_neqE_nat order_less_asym)

lemma scaled_0 [simp]: "scaled m 0 = 0"
  by (simp add: scaled_def)

lemma scaled_le: "scaled m a \<le> scaled m b \<longleftrightarrow> a \<le> b"
  by (simp add: scaled_less flip: not_less)

definition signed :: "bool \<Rightarrow> nat \<Rightarrow> int" where
  "signed negative n = (if negative then - int n else int n)"

lemma signed_scaled_less:
  "signed s (scaled m a) < signed t (scaled m b) \<longleftrightarrow> signed s a < signed t b"
proof -
  have "scaled m a = 0 \<longleftrightarrow> a = 0" "scaled m b = 0 \<longleftrightarrow> b = 0"
    using scaled_le [of m a 0] scaled_le [of m b 0] by simp_all
  then show ?thesis
    using scaled_less [of m a b] scaled_less [of m b a] by (auto simp: signed_def)
qed

section \<open>Single precision\<close>

type_synonym f32 = "32 word"
type_synonym f64 = "64 word"

definition f32_magnitude :: "f32 \<Rightarrow> nat" where
  "f32_magnitude b = unat (b AND 0x7FFFFFFF)"

definition f32_finite :: "f32 \<Rightarrow> bool" where
  "f32_finite b = (f32_magnitude b < 0x7F800000)"

definition f32_nan :: "f32 \<Rightarrow> bool" where
  "f32_nan b = (0x7F800000 < f32_magnitude b)"

definition f32_rank :: "f32 \<Rightarrow> int" where
  "f32_rank b = signed (bit b 31) (f32_magnitude b)"

definition f32_less :: "f32 \<Rightarrow> f32 \<Rightarrow> bool" where
  "f32_less a b = (\<not> f32_nan a \<and> \<not> f32_nan b \<and> f32_rank a < f32_rank b)"

definition f32_le :: "f32 \<Rightarrow> f32 \<Rightarrow> bool" where
  "f32_le a b = (\<not> f32_nan a \<and> \<not> f32_nan b \<and> f32_rank a \<le> f32_rank b)"

text \<open>The value, in units of \<open>2 ^ -149\<close>.\<close>

definition f32_value :: "f32 \<Rightarrow> int" where
  "f32_value b = signed (bit b 31) (scaled 23 (f32_magnitude b))"

lemma f32_finite_not_nan: "f32_finite b \<Longrightarrow> \<not> f32_nan b"
  by (simp add: f32_finite_def f32_nan_def)

lemma f32_less_value:
  "f32_finite a \<Longrightarrow> f32_finite b \<Longrightarrow> f32_less a b \<longleftrightarrow> f32_value a < f32_value b"
  by (simp add: f32_less_def f32_finite_not_nan f32_rank_def f32_value_def signed_scaled_less)

lemma f32_le_value:
  "f32_finite a \<Longrightarrow> f32_finite b \<Longrightarrow> f32_le a b \<longleftrightarrow> f32_value a \<le> f32_value b"
  by (simp add: f32_le_def f32_finite_not_nan f32_rank_def f32_value_def signed_scaled_less
      flip: not_less)

section \<open>Double precision\<close>

definition f64_magnitude :: "f64 \<Rightarrow> nat" where
  "f64_magnitude b = unat (b AND 0x7FFFFFFFFFFFFFFF)"

definition f64_finite :: "f64 \<Rightarrow> bool" where
  "f64_finite b = (f64_magnitude b < 0x7FF0000000000000)"

definition f64_nan :: "f64 \<Rightarrow> bool" where
  "f64_nan b = (0x7FF0000000000000 < f64_magnitude b)"

definition f64_rank :: "f64 \<Rightarrow> int" where
  "f64_rank b = signed (bit b 63) (f64_magnitude b)"

definition f64_less :: "f64 \<Rightarrow> f64 \<Rightarrow> bool" where
  "f64_less a b = (\<not> f64_nan a \<and> \<not> f64_nan b \<and> f64_rank a < f64_rank b)"

definition f64_le :: "f64 \<Rightarrow> f64 \<Rightarrow> bool" where
  "f64_le a b = (\<not> f64_nan a \<and> \<not> f64_nan b \<and> f64_rank a \<le> f64_rank b)"

definition f64_abs :: "f64 \<Rightarrow> f64" where
  "f64_abs b = b AND 0x7FFFFFFFFFFFFFFF"

text \<open>The value, in units of \<open>2 ^ -1074\<close>.\<close>

definition f64_value :: "f64 \<Rightarrow> int" where
  "f64_value b = signed (bit b 63) (scaled 52 (f64_magnitude b))"

lemma f64_finite_not_nan: "f64_finite b \<Longrightarrow> \<not> f64_nan b"
  by (simp add: f64_finite_def f64_nan_def)

lemma f64_less_value:
  "f64_finite a \<Longrightarrow> f64_finite b \<Longrightarrow> f64_less a b \<longleftrightarrow> f64_value a < f64_value b"
  by (simp add: f64_less_def f64_finite_not_nan f64_rank_def f64_value_def signed_scaled_less)

lemma f64_le_value:
  "f64_finite a \<Longrightarrow> f64_finite b \<Longrightarrow> f64_le a b \<longleftrightarrow> f64_value a \<le> f64_value b"
  by (simp add: f64_le_def f64_finite_not_nan f64_rank_def f64_value_def signed_scaled_less
      flip: not_less)

lemma f64_abs_bits: "f64_magnitude (f64_abs b) = f64_magnitude b" "\<not> bit (f64_abs b) 63"
  by (simp_all add: f64_magnitude_def f64_abs_def bit_simps and.assoc)

lemma f64_abs_value: "f64_value (f64_abs b) = \<bar>f64_value b\<bar>"
  by (simp add: f64_value_def f64_abs_bits signed_def)

lemma f64_abs_finite [simp]: "f64_finite (f64_abs b) = f64_finite b"
  by (simp add: f64_finite_def f64_abs_bits)

section \<open>Rounding\<close>

text \<open>
  A format is its number of fraction bits, the exponent of its unit and the
  magnitude of infinity; a number is a sign and a magnitude.
\<close>

record float_format =
  fraction_bits :: nat
  unit_exponent :: nat
  infinity :: nat

type_synonym float_number = "bool \<times> nat"

definition single_format :: float_format where
  "single_format = \<lparr>fraction_bits = 23, unit_exponent = 149, infinity = 0x7F800000\<rparr>"

definition double_format :: float_format where
  "double_format = \<lparr>fraction_bits = 52, unit_exponent = 1074, infinity = 0x7FF0000000000000\<rparr>"

fun bit_length :: "nat \<Rightarrow> nat" where
  "bit_length n = (if n = 0 then 0 else Suc (bit_length (n div 2)))"

declare bit_length.simps [simp del]

definition nearest_even :: "nat \<Rightarrow> nat \<Rightarrow> nat" where
  "nearest_even num den = (let q = num div den; r = num mod den in
     if 2 * r < den \<or> (2 * r = den \<and> even q) then q else q + 1)"

text \<open>The magnitude nearest to \<open>num / den\<close> units, with an unbounded exponent.\<close>

definition round_magnitude :: "nat \<Rightarrow> nat \<Rightarrow> nat \<Rightarrow> nat" where
  "round_magnitude m num den = (let k = bit_length (num div den) - (m + 1) in
     nearest_even num (den * 2 ^ k) + k * 2 ^ m)"

definition round_float :: "float_format \<Rightarrow> bool \<Rightarrow> nat \<Rightarrow> nat \<Rightarrow> float_number" where
  "round_float f s num den = (s, min (infinity f) (round_magnitude (fraction_bits f) num den))"

lemma bit_length_bounds: "n < 2 ^ bit_length n" "0 < n \<Longrightarrow> 2 ^ (bit_length n - 1) \<le> n"
proof (induction n rule: bit_length.induct)
  case (1 n)
  have step: "0 < n \<Longrightarrow> bit_length n = Suc (bit_length (n div 2))"
    by (subst bit_length.simps) simp
  { case 1
    then show ?case
      using "1.IH"(1) step by (cases "n = 0") auto
  next
    case 2
    then show ?case
    proof (cases "n div 2 = 0")
      case True
      with 2 show ?thesis using step by (simp add: bit_length.simps [of 0])
    next
      case False
      then have "bit_length (n div 2) \<noteq> 0" by (subst bit_length.simps) simp
      then obtain l where l: "bit_length (n div 2) = Suc l" by (cases "bit_length (n div 2)") auto
      show ?thesis
        using "1.IH"(2) False 2 step l by simp
    qed }
qed

text \<open>Distances are compared after multiplication by the denominator.\<close>

definition distance :: "nat \<Rightarrow> nat \<Rightarrow> nat \<Rightarrow> int" where
  "distance num den x = \<bar>int num - int (x * den)\<bar>"

lemma nearest_even_close: "0 < den \<Longrightarrow> 2 * \<bar>int num - int (nearest_even num den * den)\<bar> \<le> int den"
proof -
  assume den: "0 < den"
  have n: "int num = int (num div den) * int den + int (num mod den)"
    by (simp flip: of_nat_mult of_nat_add)
  have "num mod den < den" using den by simp
  then show ?thesis
    unfolding nearest_even_def Let_def n
    by (auto simp: algebra_simps abs_if)
qed

lemma closer_half: "d \<le> \<bar>x - c\<bar> \<Longrightarrow> 2 * \<bar>n - c\<bar> \<le> d \<Longrightarrow> \<bar>n - c\<bar> \<le> \<bar>n - x\<bar>"
  for d x c n :: int
  by arith

lemma nearest_even_best:
  assumes "0 < den"
  shows "distance num den (nearest_even num den) \<le> distance num den x"
proof (cases "x = nearest_even num den")
  case False
  then have "1 \<le> \<bar>int x - int (nearest_even num den)\<bar>" by simp
  then have "int den \<le> \<bar>int x - int (nearest_even num den)\<bar> * int den"
    using assms by simp
  also have "\<dots> = \<bar>int x * int den - int (nearest_even num den) * int den\<bar>"
    by (simp add: abs_mult flip: left_diff_distrib)
  finally have "int den \<le> \<bar>int (x * den) - int (nearest_even num den * den)\<bar>"
    by simp
  then show ?thesis
    unfolding distance_def by (rule closer_half) (rule nearest_even_close [OF assms])
qed simp

lemma nearest_even_range:
  assumes "0 < den" and "a * den \<le> num" and "num < b * den"
  shows "a \<le> nearest_even num den" and "nearest_even num den \<le> b"
proof -
  have "a \<le> num div den" using assms by (simp add: less_eq_div_iff_mult_less_eq)
  moreover have "num div den < b" using assms by (simp add: div_less_iff_less_mult)
  ultimately show "a \<le> nearest_even num den" "nearest_even num den \<le> b"
    by (auto simp: nearest_even_def Let_def)
qed

lemma scaled_normal:
  assumes "2 ^ m \<le> c" and "c \<le> 2 * 2 ^ m"
  shows "scaled m (c + k * 2 ^ m) = c * 2 ^ k"
proof (cases "c = 2 * 2 ^ m")
  case True
  then have "c + k * 2 ^ m = (k + 2) * 2 ^ m" by simp
  then show ?thesis by (simp add: scaled_def True)
next
  case False
  define f where "f = c - 2 ^ m"
  have f: "c = 2 ^ m + f" "f < 2 ^ m" using assms False by (simp_all add: f_def)
  then have n: "c + k * 2 ^ m = (k + 1) * 2 ^ m + f" by simp
  have "(c + k * 2 ^ m) div 2 ^ m = k + 1" "(c + k * 2 ^ m) mod 2 ^ m = f"
    unfolding n using f(2) by (simp_all only: div_mult_self3 mod_mult_self3 div_less mod_less)
  then show ?thesis
    unfolding scaled_def using f assms by (simp add: not_less)
qed

lemma round_magnitude_value:
  fixes m num den :: nat
  assumes "0 < den"
  defines "k \<equiv> bit_length (num div den) - (m + 1)"
  shows "scaled m (round_magnitude m num den) = nearest_even num (den * 2 ^ k) * 2 ^ k"
    and "0 < k \<Longrightarrow> 2 ^ m * 2 ^ k * den \<le> num"
    and "num < 2 * 2 ^ m * 2 ^ k * den"
    and "nearest_even num (den * 2 ^ k) \<le> 2 * 2 ^ m"
    and "0 < k \<Longrightarrow> 2 ^ m \<le> nearest_even num (den * 2 ^ k)"
proof -
  let ?X = "num div den"
  have le: "bit_length ?X \<le> m + 1 + k" by (simp add: k_def)
  have "?X < 2 ^ bit_length ?X" by (rule bit_length_bounds)
  also have "\<dots> \<le> 2 ^ (m + 1 + k)" using le by (intro power_increasing) auto
  finally have "num < 2 ^ (m + 1 + k) * den" using assms(1) by (simp add: div_less_iff_less_mult)
  then show upper: "num < 2 * 2 ^ m * 2 ^ k * den" by (simp add: power_add mult_ac)
  show lower: "2 ^ m * 2 ^ k * den \<le> num" if "0 < k"
  proof -
    have "m + k = bit_length ?X - 1" "0 < ?X"
      using that by (auto simp: k_def bit_length.simps [of 0] intro: gr0I)
    with bit_length_bounds(2) [of ?X] have "2 ^ (m + k) \<le> ?X" by simp
    then show ?thesis using assms(1) by (simp add: less_eq_div_iff_mult_less_eq power_add)
  qed
  have den: "0 < den * 2 ^ k" using assms(1) by simp
  show c: "nearest_even num (den * 2 ^ k) \<le> 2 * 2 ^ m"
    by (rule nearest_even_range(2) [OF den, of 0]) (use upper in \<open>simp_all add: mult_ac\<close>)
  show c': "2 ^ m \<le> nearest_even num (den * 2 ^ k)" if "0 < k"
    by (rule nearest_even_range(1) [OF den, of _ _ "2 * 2 ^ m"])
      (use upper lower [OF that] in \<open>simp_all add: mult_ac\<close>)
  show "scaled m (round_magnitude m num den) = nearest_even num (den * 2 ^ k) * 2 ^ k"
  proof (cases "k = 0")
    case True
    then show ?thesis
      using c scaled_normal [of m "nearest_even num den" 0]
      unfolding round_magnitude_def Let_def k_def [symmetric]
      by (cases "nearest_even num den < 2 ^ m") (simp_all add: scaled_def [of m "nearest_even num den"])
  next
    case False
    then show ?thesis
      unfolding round_magnitude_def Let_def k_def [symmetric]
      by (simp add: scaled_normal c c')
  qed
qed

lemma scaled_coarse:
  assumes "2 ^ m * 2 ^ k \<le> scaled m n"
  shows "2 ^ k dvd scaled m n"
proof (cases "n < 2 ^ m")
  case True
  then have "scaled m n = n" by (simp add: scaled_def)
  moreover have "(2 :: nat) ^ m * 1 \<le> 2 ^ m * 2 ^ k" by (intro mult_left_mono) simp_all
  ultimately show ?thesis using assms True by simp
next
  case False
  let ?q = "n div 2 ^ m - 1"
  from False have s: "scaled m n = (2 ^ m + n mod 2 ^ m) * 2 ^ ?q" by (simp add: scaled_def)
  have "n mod 2 ^ m < 2 ^ m" by simp
  then have "scaled m n < 2 ^ m * 2 ^ (?q + 1)" by (simp add: s algebra_simps)
  with assms have "(2 :: nat) ^ k < 2 ^ (?q + 1)"
    by (meson le_less_trans mult_less_cancel1)
  then have "k < ?q + 1" by (rule power_less_imp_less_exp [rotated]) simp
  then have "k \<le> ?q" by simp
  then show ?thesis unfolding s by (intro dvd_mult le_imp_power_dvd)
qed

lemma distance_below:
  assumes "x \<le> y" and "y * den \<le> num"
  shows "distance num den y \<le> distance num den x"
proof -
  have "x * den \<le> y * den" using assms(1) by simp
  with assms(2) show ?thesis unfolding distance_def by linarith
qed

text \<open>No number of the format is nearer to the exact value than the rounded one.\<close>

lemma round_magnitude_nearest:
  assumes "0 < den"
  shows "distance num den (scaled m (round_magnitude m num den)) \<le> distance num den (scaled m n)"
proof -
  define k where "k = bit_length (num div den) - (m + 1)"
  have den: "0 < den * 2 ^ k" using assms by simp
  have scale: "distance num den (y * 2 ^ k) = distance num (den * 2 ^ k) y" for y
    by (simp add: distance_def mult_ac)
  note val = round_magnitude_value [OF assms, where num = num and m = m, folded k_def]
  have best: "distance num den (scaled m (round_magnitude m num den)) \<le> distance num den (y * 2 ^ k)" for y
    unfolding val(1) scale by (rule nearest_even_best [OF den])
  show ?thesis
  proof (cases "2 ^ k dvd scaled m n")
    case True
    then obtain y where "scaled m n = y * 2 ^ k" by (metis dvd_div_mult_self)
    with best [of y] show ?thesis by simp
  next
    case False
    then have "0 < k" by (cases k) auto
    have "scaled m n \<le> 2 ^ m * 2 ^ k"
      using False scaled_coarse [of m k n] nat_le_linear by blast
    then have "distance num den (2 ^ m * 2 ^ k) \<le> distance num den (scaled m n)"
      by (rule distance_below [OF _ val(2) [OF \<open>0 < k\<close>]])
    with best [of "2 ^ m"] show ?thesis by (rule order_trans)
  qed
qed

lemma round_magnitude_exact:
  assumes "0 < den" and "scaled m n * den = num"
  shows "round_magnitude m num den = n"
proof -
  have "distance num den (scaled m n) = 0" using assms(2) by (simp add: distance_def)
  with round_magnitude_nearest [OF assms(1), of num m n]
  have "distance num den (scaled m (round_magnitude m num den)) = 0" by (simp add: distance_def)
  then have "int (scaled m (round_magnitude m num den) * den) = int (scaled m n * den)"
    using assms(2) by (simp add: distance_def)
  then have "scaled m (round_magnitude m num den) * den = scaled m n * den" by (simp only: of_nat_eq_iff)
  then have "scaled m (round_magnitude m num den) = scaled m n" using assms(1) by simp
  then show ?thesis
    using scaled_less [of m n "round_magnitude m num den"] scaled_less [of m "round_magnitude m num den" n]
    by simp
qed

section \<open>Arithmetic\<close>

definition nan_number :: "float_format \<Rightarrow> float_number" where
  "nan_number f = (False, infinity f + 2 ^ (fraction_bits f - 1))"

definition float_units :: "float_format \<Rightarrow> float_number \<Rightarrow> int" where
  "float_units f x = signed (fst x) (scaled (fraction_bits f) (snd x))"

definition float_add :: "float_format \<Rightarrow> float_number \<Rightarrow> float_number \<Rightarrow> float_number" where
  "float_add f x y =
     (if infinity f < snd x \<or> infinity f < snd y then nan_number f
      else if snd x = infinity f then
        (if snd y = infinity f \<and> fst x \<noteq> fst y then nan_number f else x)
      else if snd y = infinity f then y
      else let s = float_units f x + float_units f y in
        if s = 0 then (fst x \<and> fst y, 0) else round_float f (s < 0) (nat \<bar>s\<bar>) 1)"

definition float_mul :: "float_format \<Rightarrow> float_number \<Rightarrow> float_number \<Rightarrow> float_number" where
  "float_mul f x y =
     (if infinity f < snd x \<or> infinity f < snd y then nan_number f
      else if snd x = infinity f \<or> snd y = infinity f then
        (if snd x = 0 \<or> snd y = 0 then nan_number f else (fst x \<noteq> fst y, infinity f))
      else round_float f (fst x \<noteq> fst y)
        (scaled (fraction_bits f) (snd x) * scaled (fraction_bits f) (snd y))
        (2 ^ unit_exponent f))"

definition float_div :: "float_format \<Rightarrow> float_number \<Rightarrow> float_number \<Rightarrow> float_number" where
  "float_div f x y =
     (if infinity f < snd x \<or> infinity f < snd y then nan_number f
      else if snd x = infinity f then
        (if snd y = infinity f then nan_number f else (fst x \<noteq> fst y, infinity f))
      else if snd y = infinity f then (fst x \<noteq> fst y, 0)
      else if snd y = 0 then
        (if snd x = 0 then nan_number f else (fst x \<noteq> fst y, infinity f))
      else round_float f (fst x \<noteq> fst y)
        (scaled (fraction_bits f) (snd x) * 2 ^ unit_exponent f)
        (scaled (fraction_bits f) (snd y)))"

definition float_of_int :: "float_format \<Rightarrow> int \<Rightarrow> float_number" where
  "float_of_int f i =
     (if i = 0 then (False, 0) else round_float f (i < 0) (nat \<bar>i\<bar> * 2 ^ unit_exponent f) 1)"

definition f32_number :: "f32 \<Rightarrow> float_number" where
  "f32_number b = (bit b 31, f32_magnitude b)"

definition f32_of_number :: "float_number \<Rightarrow> f32" where
  "f32_of_number x = of_nat (snd x) OR (if fst x then 0x80000000 else 0)"

definition f64_number :: "f64 \<Rightarrow> float_number" where
  "f64_number b = (bit b 63, f64_magnitude b)"

definition f64_of_number :: "float_number \<Rightarrow> f64" where
  "f64_of_number x = of_nat (snd x) OR (if fst x then 0x8000000000000000 else 0)"

definition f32_add :: "f32 \<Rightarrow> f32 \<Rightarrow> f32" where
  "f32_add a b = f32_of_number (float_add single_format (f32_number a) (f32_number b))"

definition f32_mul :: "f32 \<Rightarrow> f32 \<Rightarrow> f32" where
  "f32_mul a b = f32_of_number (float_mul single_format (f32_number a) (f32_number b))"

definition f32_div :: "f32 \<Rightarrow> f32 \<Rightarrow> f32" where
  "f32_div a b = f32_of_number (float_div single_format (f32_number a) (f32_number b))"

definition f64_neg :: "f64 \<Rightarrow> f64" where
  "f64_neg b = b XOR 0x8000000000000000"

definition f64_add :: "f64 \<Rightarrow> f64 \<Rightarrow> f64" where
  "f64_add a b = f64_of_number (float_add double_format (f64_number a) (f64_number b))"

definition f64_sub :: "f64 \<Rightarrow> f64 \<Rightarrow> f64" where
  "f64_sub a b = f64_add a (f64_neg b)"

definition f64_mul :: "f64 \<Rightarrow> f64 \<Rightarrow> f64" where
  "f64_mul a b = f64_of_number (float_mul double_format (f64_number a) (f64_number b))"

definition f64_div :: "f64 \<Rightarrow> f64 \<Rightarrow> f64" where
  "f64_div a b = f64_of_number (float_div double_format (f64_number a) (f64_number b))"

definition f64_of_int :: "int \<Rightarrow> f64" where
  "f64_of_int i = f64_of_number (float_of_int double_format i)"

text \<open>
  Conversions to integers of finite numbers; the code casts the result of
  \<open>std::floor\<close>, \<open>std::ceil\<close> or \<open>std::llround\<close> to an integer type at once.
\<close>

definition f32_floor :: "f32 \<Rightarrow> int" where
  "f32_floor b = f32_value b div 2 ^ 149"

definition f64_floor :: "f64 \<Rightarrow> int" where
  "f64_floor b = f64_value b div 2 ^ 1074"

definition f64_ceil :: "f64 \<Rightarrow> int" where
  "f64_ceil b = - (- f64_value b div 2 ^ 1074)"

definition f64_llround :: "f64 \<Rightarrow> int" where
  "f64_llround b = signed (bit b 63) (nat ((2 * \<bar>f64_value b\<bar> + 2 ^ 1074) div 2 ^ 1075))"

lemma f64_floor_le: "f64_floor b * 2 ^ 1074 \<le> f64_value b" "f64_value b < (f64_floor b + 1) * 2 ^ 1074"
proof -
  have "f64_value b = f64_floor b * 2 ^ 1074 + f64_value b mod 2 ^ 1074"
    unfolding f64_floor_def by (simp only: div_mult_mod_eq)
  moreover have "0 \<le> f64_value b mod 2 ^ 1074" "f64_value b mod 2 ^ 1074 < 2 ^ 1074"
    by (simp_all only: pos_mod_sign pos_mod_bound zero_less_power zero_less_numeral)
  ultimately show "f64_floor b * 2 ^ 1074 \<le> f64_value b" "f64_value b < (f64_floor b + 1) * 2 ^ 1074"
    by (simp_all only: distrib_right mult_1)
qed

end
