(* ===== verification/Play_Serverbound.thy ===== *)
theory Play_Serverbound
  imports Packets Floats
begin

text \<open>
  The packets a client sends in the play state (namespace \<open>mc::protocol::play\<close> of
  packets.hpp and packets.cpp): their ids, the values they carry and a decoder
  for each. A \<open>float\<close> or \<open>double\<close> is its bit pattern; the bounds the code puts
  on them are the comparisons of theory Floats.
\<close>

section \<open>Packet ids\<close>

datatype (plugins only: code) play_serverbound =
    PlayS_accept_teleportation
  | PlayS_attack
  | PlayS_block_entity_tag_query
  | PlayS_bundle_item_selected
  | PlayS_change_difficulty
  | PlayS_change_game_mode
  | PlayS_chat_ack
  | PlayS_chat_command
  | PlayS_chunk_batch_received
  | PlayS_client_command
  | PlayS_client_tick_end
  | PlayS_client_information
  | PlayS_command_suggestion
  | PlayS_configuration_acknowledged
  | PlayS_container_button_click
  | PlayS_container_click
  | PlayS_container_close
  | PlayS_container_slot_state_changed
  | PlayS_cookie_response
  | PlayS_custom_payload
  | PlayS_keep_alive
  | PlayS_interact
  | PlayS_entity_tag_query
  | PlayS_lock_difficulty
  | PlayS_move_player_pos
  | PlayS_move_player_pos_rot
  | PlayS_move_player_rot
  | PlayS_move_player_status_only
  | PlayS_move_vehicle
  | PlayS_paddle_boat
  | PlayS_pick_item_from_block
  | PlayS_pick_item_from_entity
  | PlayS_ping_request
  | PlayS_place_recipe
  | PlayS_player_abilities
  | PlayS_player_action
  | PlayS_player_command
  | PlayS_player_input
  | PlayS_player_loaded
  | PlayS_pong
  | PlayS_recipe_book_change_settings
  | PlayS_recipe_book_seen_recipe
  | PlayS_rename_item
  | PlayS_resource_pack
  | PlayS_seen_advancements
  | PlayS_select_trade
  | PlayS_set_beacon
  | PlayS_set_carried_item
  | PlayS_set_creative_mode_slot
  | PlayS_spectator_action
  | PlayS_swing
  | PlayS_teleport_to_entity
  | PlayS_use_item_on
  | PlayS_use_item
  | PlayS_custom_click_action

primrec play_serverbound_id :: "play_serverbound \<Rightarrow> i32" where
  "play_serverbound_id PlayS_accept_teleportation = 0x00"
| "play_serverbound_id PlayS_attack = 0x01"
| "play_serverbound_id PlayS_block_entity_tag_query = 0x02"
| "play_serverbound_id PlayS_bundle_item_selected = 0x03"
| "play_serverbound_id PlayS_change_difficulty = 0x04"
| "play_serverbound_id PlayS_change_game_mode = 0x05"
| "play_serverbound_id PlayS_chat_ack = 0x06"
| "play_serverbound_id PlayS_chat_command = 0x07"
| "play_serverbound_id PlayS_chunk_batch_received = 0x0B"
| "play_serverbound_id PlayS_client_command = 0x0C"
| "play_serverbound_id PlayS_client_tick_end = 0x0D"
| "play_serverbound_id PlayS_client_information = 0x0E"
| "play_serverbound_id PlayS_command_suggestion = 0x0F"
| "play_serverbound_id PlayS_configuration_acknowledged = 0x10"
| "play_serverbound_id PlayS_container_button_click = 0x11"
| "play_serverbound_id PlayS_container_click = 0x12"
| "play_serverbound_id PlayS_container_close = 0x13"
| "play_serverbound_id PlayS_container_slot_state_changed = 0x14"
| "play_serverbound_id PlayS_cookie_response = 0x15"
| "play_serverbound_id PlayS_custom_payload = 0x16"
| "play_serverbound_id PlayS_keep_alive = 0x1C"
| "play_serverbound_id PlayS_interact = 0x1A"
| "play_serverbound_id PlayS_entity_tag_query = 0x19"
| "play_serverbound_id PlayS_lock_difficulty = 0x1D"
| "play_serverbound_id PlayS_move_player_pos = 0x1E"
| "play_serverbound_id PlayS_move_player_pos_rot = 0x1F"
| "play_serverbound_id PlayS_move_player_rot = 0x20"
| "play_serverbound_id PlayS_move_player_status_only = 0x21"
| "play_serverbound_id PlayS_move_vehicle = 0x22"
| "play_serverbound_id PlayS_paddle_boat = 0x23"
| "play_serverbound_id PlayS_pick_item_from_block = 0x24"
| "play_serverbound_id PlayS_pick_item_from_entity = 0x25"
| "play_serverbound_id PlayS_ping_request = 0x26"
| "play_serverbound_id PlayS_place_recipe = 0x27"
| "play_serverbound_id PlayS_player_abilities = 0x28"
| "play_serverbound_id PlayS_player_action = 0x29"
| "play_serverbound_id PlayS_player_command = 0x2A"
| "play_serverbound_id PlayS_player_input = 0x2B"
| "play_serverbound_id PlayS_player_loaded = 0x2C"
| "play_serverbound_id PlayS_pong = 0x2D"
| "play_serverbound_id PlayS_recipe_book_change_settings = 0x2E"
| "play_serverbound_id PlayS_recipe_book_seen_recipe = 0x2F"
| "play_serverbound_id PlayS_rename_item = 0x30"
| "play_serverbound_id PlayS_resource_pack = 0x31"
| "play_serverbound_id PlayS_seen_advancements = 0x32"
| "play_serverbound_id PlayS_select_trade = 0x33"
| "play_serverbound_id PlayS_set_beacon = 0x34"
| "play_serverbound_id PlayS_set_carried_item = 0x35"
| "play_serverbound_id PlayS_set_creative_mode_slot = 0x38"
| "play_serverbound_id PlayS_spectator_action = 0x3E"
| "play_serverbound_id PlayS_swing = 0x3F"
| "play_serverbound_id PlayS_teleport_to_entity = 0x40"
| "play_serverbound_id PlayS_use_item_on = 0x42"
| "play_serverbound_id PlayS_use_item = 0x43"
| "play_serverbound_id PlayS_custom_click_action = 0x44"

section \<open>Values\<close>

record entity_vector =
  vector_x :: f64
  vector_y :: f64
  vector_z :: f64

record vehicle_move =
  vehicle_position :: entity_vector
  vehicle_yaw :: f32
  vehicle_pitch :: f32
  vehicle_on_ground :: bool

record paddle_state =
  paddle_left :: bool
  paddle_right :: bool

record simple_item_stack =
  simple_item_id :: i32
  simple_count :: i32

definition simple_empty :: "simple_item_stack \<Rightarrow> bool" where
  "simple_empty item = (simple_count item = 0)"

definition no_item :: simple_item_stack where
  "no_item = \<lparr>simple_item_id = 0, simple_count = 0\<rparr>"

record container_slot_state_change =
  state_slot :: i32
  state_container :: i32
  slot_state :: bool

record creative_slot_change =
  creative_slot :: i16
  creative_item :: simple_item_stack

record command_suggestion_request =
  suggestion_id :: i32
  suggestion_command :: string

record block_entity_tag_query =
  block_query_transaction :: i32
  block_query_position :: block_position

record entity_tag_query =
  entity_query_transaction :: i32
  entity_query_id :: i32

record bundle_item_selection =
  bundle_slot :: i32
  bundle_selected_index :: i32

datatype container_input =
    Pickup
  | Quick_Move
  | Swap
  | Clone
  | Throw_Item
  | Quick_Craft
  | Pickup_All

definition container_inputs :: "container_input list" where
  "container_inputs = [Pickup, Quick_Move, Swap, Clone, Throw_Item, Quick_Craft, Pickup_All]"

record container_click =
  click_container_id :: i32
  click_state_id :: i32
  click_slot :: i16
  click_button :: i8
  click_input :: container_input
  changed_slots :: "(i16 \<times> simple_item_stack) list"
  carried_item :: simple_item_stack

record beacon_selection =
  beacon_primary :: "i32 option"
  beacon_secondary :: "i32 option"

record place_recipe =
  recipe_container_id :: i32
  recipe_display_id :: i32
  use_max_items :: bool

record recipe_book_setting_change =
  book_type :: u8
  book_open :: bool
  book_filtering :: bool

record seen_advancements =
  opened_tab :: bool
  advancement_tab :: "string option"

record entity_interaction =
  interaction_entity_id :: i32
  interaction_hand :: u8
  interaction_location :: entity_vector
  secondary_action :: bool

record player_position =
  player_x :: f64
  player_y :: f64
  player_z :: f64
  player_yaw :: "f32 option"
  player_pitch :: "f32 option"
  player_on_ground :: bool
  player_collision :: bool

record player_rotation =
  rotation_yaw :: f32
  rotation_pitch :: f32
  rotation_on_ground :: bool
  rotation_collision :: bool

datatype player_action_type =
    Start_Destroy_Block
  | Abort_Destroy_Block
  | Stop_Destroy_Block
  | Drop_All_Items
  | Drop_Item
  | Release_Use_Item
  | Swap_Item_With_Offhand
  | Stab

definition player_action_types :: "player_action_type list" where
  "player_action_types = [Start_Destroy_Block, Abort_Destroy_Block, Stop_Destroy_Block,
     Drop_All_Items, Drop_Item, Release_Use_Item, Swap_Item_With_Offhand, Stab]"

record player_action =
  action_type :: player_action_type
  action_position :: block_position
  action_direction :: u8
  action_sequence :: i32

datatype player_command_action =
    Stop_Sleeping
  | Start_Sprinting
  | Stop_Sprinting
  | Start_Riding_Jump
  | Stop_Riding_Jump
  | Open_Inventory
  | Start_Fall_Flying

definition player_command_actions :: "player_command_action list" where
  "player_command_actions = [Stop_Sleeping, Start_Sprinting, Stop_Sprinting,
     Start_Riding_Jump, Stop_Riding_Jump, Open_Inventory, Start_Fall_Flying]"

record player_command =
  command_entity_id :: i32
  command_action :: player_command_action
  command_data :: i32

record player_input =
  input_forward :: bool
  input_backward :: bool
  input_left :: bool
  input_right :: bool
  input_jump :: bool
  input_shift :: bool
  input_sprint :: bool

datatype client_command_action =
    Perform_Respawn
  | Request_Stats
  | Request_Gamerule_Values

definition client_command_actions :: "client_command_action list" where
  "client_command_actions = [Perform_Respawn, Request_Stats, Request_Gamerule_Values]"

record block_hit =
  hit_position :: block_position
  hit_direction :: u8
  hit_offset_x :: f32
  hit_offset_y :: f32
  hit_offset_z :: f32
  hit_inside :: bool
  world_border_hit :: bool

record use_item_on =
  use_on_hand :: u8
  use_on_hit :: block_hit
  use_on_sequence :: i32

record use_item =
  use_hand :: u8
  use_sequence :: i32
  use_yaw :: f32
  use_pitch :: f32

record pick_item_from_block =
  pick_position :: block_position
  pick_block_data :: bool

record pick_item_from_entity =
  pick_entity_id :: i32
  pick_entity_data :: bool

section \<open>Bounds on floating point fields\<close>

definition f64_30_million :: f64 where
  "f64_30_million = 0x417C9C3800000000"

definition f64_20_million :: f64 where
  "f64_20_million = 0x417312D000000000"

text \<open>The check of a position: finite and inside the world.\<close>

definition outside_world :: "f64 \<Rightarrow> f64 \<Rightarrow> f64 \<Rightarrow> bool" where
  "outside_world x y z =
     (\<not> f64_finite x \<or> \<not> f64_finite y \<or> \<not> f64_finite z \<or>
      f64_less f64_30_million (f64_abs x) \<or> f64_less f64_30_million (f64_abs z) \<or>
      f64_less f64_20_million (f64_abs y))"

definition f32_one :: f32 where
  "f32_one = 0x3F800000"

definition outside_block :: "f32 \<Rightarrow> bool" where
  "outside_block v = (f32_less v 0 \<or> f32_less f32_one v)"

section \<open>Decoders\<close>

definition play_decode_keep_alive :: "i64 decoder" where
  "play_decode_keep_alive = expect_id (play_serverbound_id PlayS_keep_alive)
     ''expected Play keepalive packet'' (bindD read_i64_be complete)"

definition decode_teleport_acknowledgement :: "i32 decoder" where
  "decode_teleport_acknowledgement = expect_id (play_serverbound_id PlayS_accept_teleportation)
     ''expected teleport acknowledgement packet'' (bindD read_varint complete)"

definition decode_chunk_batch_received :: "f32 decoder" where
  "decode_chunk_batch_received = expect_id (play_serverbound_id PlayS_chunk_batch_received)
     ''expected chunk batch feedback packet''
     (bindD read_f32_be (\<lambda>rate.
      guardD (\<not> f32_finite rate \<or> f32_le rate 0)
        (Decode_Error ''chunk batch feedback rate is invalid'') (complete rate)))"

definition read_movement_flags :: "(bool \<times> bool) decoder" where
  "read_movement_flags = bindD read_u8 (\<lambda>flags.
     guardD (flags AND 0xFC \<noteq> 0) (Decode_Error ''Play movement flags contain reserved bits'')
      (returnD (flags AND 0x01 \<noteq> 0, flags AND 0x02 \<noteq> 0)))"

text \<open>\<open>decode_player_position\<close> checks the flags in place, with the same code.\<close>

definition decode_player_position :: "player_position decoder" where
  "decode_player_position = bindD read_varint (\<lambda>packet_id.
     guardD (packet_id \<noteq> play_serverbound_id PlayS_move_player_pos \<and>
         packet_id \<noteq> play_serverbound_id PlayS_move_player_pos_rot)
       (Decode_Error ''expected Play position packet'')
     (bindD read_f64_be (\<lambda>x. bindD read_f64_be (\<lambda>y. bindD read_f64_be (\<lambda>z.
      bindD (if packet_id = play_serverbound_id PlayS_move_player_pos_rot
          then bindD read_f32_be (\<lambda>yaw. bindD read_f32_be (\<lambda>pitch.
            guardD (\<not> f32_finite yaw \<or> \<not> f32_finite pitch)
              (Decode_Error ''Play rotation contains a non-finite value'')
              (returnD (Some yaw, Some pitch))))
          else returnD (None, None)) (\<lambda>(yaw, pitch).
      bindD read_u8 (\<lambda>flags.
      guardD (flags AND 0xFC \<noteq> 0) (Decode_Error ''Play movement flags contain reserved bits'')
     (guardD (outside_world x y z) (Decode_Error ''Play position is outside world bounds'')
     (complete \<lparr>player_x = x, player_y = y, player_z = z, player_yaw = yaw, player_pitch = pitch,
        player_on_ground = (flags AND 0x01 \<noteq> 0), player_collision = (flags AND 0x02 \<noteq> 0)\<rparr>)))))))))"

definition decode_empty_play_packet :: "play_serverbound \<Rightarrow> unit decoder" where
  "decode_empty_play_packet expected = expect_id (play_serverbound_id expected)
     ''unexpected empty Play packet'' (complete ())"

definition decode_player_rotation :: "player_rotation decoder" where
  "decode_player_rotation = expect_id (play_serverbound_id PlayS_move_player_rot)
     ''expected Play rotation packet''
     (bindD read_f32_be (\<lambda>yaw. bindD read_f32_be (\<lambda>pitch.
      guardD (\<not> f32_finite yaw \<or> \<not> f32_finite pitch)
        (Decode_Error ''Play rotation contains a non-finite value'')
      (bindD read_movement_flags (\<lambda>(on_ground, collision).
        complete \<lparr>rotation_yaw = yaw, rotation_pitch = pitch,
          rotation_on_ground = on_ground, rotation_collision = collision\<rparr>)))))"

definition decode_player_status :: "(bool \<times> bool) decoder" where
  "decode_player_status = expect_id (play_serverbound_id PlayS_move_player_status_only)
     ''expected Play movement status packet'' (bindD read_movement_flags complete)"

definition decode_move_vehicle :: "vehicle_move decoder" where
  "decode_move_vehicle = expect_id (play_serverbound_id PlayS_move_vehicle)
     ''expected vehicle move packet''
     (bindD read_f64_be (\<lambda>x. bindD read_f64_be (\<lambda>y. bindD read_f64_be (\<lambda>z.
      bindD read_f32_be (\<lambda>yaw. bindD read_f32_be (\<lambda>pitch. bindD read_bool (\<lambda>on_ground.
      guardD (outside_world x y z \<or> \<not> f32_finite yaw \<or> \<not> f32_finite pitch)
        (Decode_Error ''vehicle move fields are invalid'')
      (complete \<lparr>vehicle_position = \<lparr>vector_x = x, vector_y = y, vector_z = z\<rparr>,
         vehicle_yaw = yaw, vehicle_pitch = pitch, vehicle_on_ground = on_ground\<rparr>))))))))"

definition decode_paddle_boat :: "paddle_state decoder" where
  "decode_paddle_boat = expect_id (play_serverbound_id PlayS_paddle_boat)
     ''expected paddle boat packet''
     (bindD read_bool (\<lambda>left. bindD read_bool (\<lambda>right.
      complete \<lparr>paddle_left = left, paddle_right = right\<rparr>)))"

definition decode_client_tick_end :: "unit decoder" where
  "decode_client_tick_end = decode_empty_play_packet PlayS_client_tick_end"

definition play_decode_client_information :: "client_information decoder" where
  "play_decode_client_information = expect_id (play_serverbound_id PlayS_client_information)
     ''expected Play client information packet'' decode_client_information_payload"

definition play_decode_custom_payload :: "custom_payload decoder" where
  "play_decode_custom_payload = expect_id (play_serverbound_id PlayS_custom_payload)
     ''expected Play custom payload packet'' decode_custom_payload_payload"

definition play_decode_custom_click_action :: "custom_click_action decoder" where
  "play_decode_custom_click_action = expect_id (play_serverbound_id PlayS_custom_click_action)
     ''expected Play custom click action packet'' decode_custom_click_action_payload"

definition decode_configuration_acknowledged :: "unit decoder" where
  "decode_configuration_acknowledged = decode_empty_play_packet PlayS_configuration_acknowledged"

definition play_decode_cookie_response :: "cookie_response decoder" where
  "play_decode_cookie_response =
     decode_cookie_response (play_serverbound_id PlayS_cookie_response)"

definition decode_player_loaded :: "unit decoder" where
  "decode_player_loaded = decode_empty_play_packet PlayS_player_loaded"

definition decode_ping_request :: "i64 decoder" where
  "decode_ping_request = expect_id (play_serverbound_id PlayS_ping_request)
     ''expected Play ping request'' (bindD read_i64_be complete)"

definition decode_pick_item_from_block :: "pick_item_from_block decoder" where
  "decode_pick_item_from_block = expect_id (play_serverbound_id PlayS_pick_item_from_block)
     ''expected pick item from block packet''
     (bindD read_position (\<lambda>position. bindD read_bool (\<lambda>include.
      complete \<lparr>pick_position = position, pick_block_data = include\<rparr>)))"

definition decode_pick_item_from_entity :: "pick_item_from_entity decoder" where
  "decode_pick_item_from_entity = expect_id (play_serverbound_id PlayS_pick_item_from_entity)
     ''expected pick item from entity packet''
     (bindD read_varint (\<lambda>entity.
      guardD (entity <s 0) (Decode_Error ''picked entity ID is invalid'')
      (bindD read_bool (\<lambda>include.
       complete \<lparr>pick_entity_id = entity, pick_entity_data = include\<rparr>))))"

definition decode_player_abilities :: "bool decoder" where
  "decode_player_abilities = expect_id (play_serverbound_id PlayS_player_abilities)
     ''expected Play player abilities packet''
     (bindD read_u8 (\<lambda>flags.
      guardD (flags AND 0xFD \<noteq> 0) (Decode_Error ''player ability flags contain reserved bits'')
      (complete (flags AND 0x02 \<noteq> 0))))"

definition decode_player_action :: "player_action decoder" where
  "decode_player_action = expect_id (play_serverbound_id PlayS_player_action)
     ''expected player action packet''
     (bindD read_varint (\<lambda>action.
      guardD (action <s 0 \<or> 7 <s action) (Decode_Error ''player action type is out of bounds'')
     (bindD read_position (\<lambda>position. bindD read_u8 (\<lambda>direction. bindD read_varint (\<lambda>sequence.
      guardD (direction > 5 \<or> sequence <s 0)
        (Decode_Error ''player action direction or sequence is out of bounds'')
      (complete \<lparr>action_type = player_action_types ! unat action, action_position = position,
         action_direction = direction, action_sequence = sequence\<rparr>)))))))"

definition decode_player_command :: "player_command decoder" where
  "decode_player_command = expect_id (play_serverbound_id PlayS_player_command)
     ''expected player command packet''
     (bindD read_varint (\<lambda>entity. bindD read_varint (\<lambda>action. bindD read_varint (\<lambda>value.
      guardD (entity <s 0 \<or> action <s 0 \<or> 6 <s action \<or> value <s 0)
        (Decode_Error ''player command fields are invalid'')
      (complete \<lparr>command_entity_id = entity, command_action = player_command_actions ! unat action,
         command_data = value\<rparr>)))))"

definition decode_player_input :: "player_input decoder" where
  "decode_player_input = expect_id (play_serverbound_id PlayS_player_input)
     ''expected player input packet''
     (bindD read_u8 (\<lambda>flags.
      guardD (flags AND 0x80 \<noteq> 0) (Decode_Error ''player input has reserved flags'')
      (complete \<lparr>input_forward = (flags AND 0x01 \<noteq> 0), input_backward = (flags AND 0x02 \<noteq> 0),
         input_left = (flags AND 0x04 \<noteq> 0), input_right = (flags AND 0x08 \<noteq> 0),
         input_jump = (flags AND 0x10 \<noteq> 0), input_shift = (flags AND 0x20 \<noteq> 0),
         input_sprint = (flags AND 0x40 \<noteq> 0)\<rparr>)))"

definition decode_client_command :: "client_command_action decoder" where
  "decode_client_command = expect_id (play_serverbound_id PlayS_client_command)
     ''expected client command packet''
     (bindD read_varint (\<lambda>action.
      guardD (action <s 0 \<or> 2 <s action) (Decode_Error ''client command action is invalid'')
      (complete (client_command_actions ! unat action))))"

definition play_decode_pong :: "i32 decoder" where
  "play_decode_pong = expect_id (play_serverbound_id PlayS_pong)
     ''expected Play pong packet'' (bindD read_i32_be complete)"

definition decode_rename_item :: "string decoder" where
  "decode_rename_item = expect_id (play_serverbound_id PlayS_rename_item)
     ''expected rename item packet'' (bindD (read_string 32767) complete)"

definition play_decode_resource_pack_response :: "resource_pack_response decoder" where
  "play_decode_resource_pack_response = expect_id (play_serverbound_id PlayS_resource_pack)
     ''expected Play resource pack response''
     (decode_resource_pack_action ''Play resource pack action is out of bounds'')"

definition decode_select_trade :: "i32 decoder" where
  "decode_select_trade = expect_id (play_serverbound_id PlayS_select_trade)
     ''expected select trade packet''
     (bindD read_varint (\<lambda>selection.
      guardD (selection <s 0) (Decode_Error ''trade selection must not be negative'')
      (complete selection)))"

definition decode_container_button_click :: "(i32 \<times> i32) decoder" where
  "decode_container_button_click = expect_id (play_serverbound_id PlayS_container_button_click)
     ''expected container button click packet''
     (bindD read_varint (\<lambda>container. bindD read_varint (\<lambda>button.
      guardD (container <s 0 \<or> button <s 0) (Decode_Error ''container button fields are invalid'')
      (complete (container, button)))))"

text \<open>The lambda \<open>read_hashed_stack\<close> of \<open>decode_container_click\<close>.\<close>

definition read_hashed_stack :: "simple_item_stack decoder" where
  "read_hashed_stack = bindD read_bool (\<lambda>present.
     if \<not> present then returnD no_item
     else bindD read_varint (\<lambda>item_id. bindD read_varint (\<lambda>count.
       guardD (item_id <s 0 \<or> 1538 \<le>s item_id \<or> count \<le>s 0 \<or> 99 <s count)
         (Decode_Error ''hashed item stack is out of bounds'')
      (bindD read_varint (\<lambda>added.
       guardD (added <s 0 \<or> 256 <s added)
         (Decode_Error ''hashed added-component count is out of bounds'')
      (guardD (added \<noteq> 0) (Decode_Error ''hashed item components are not supported'')
      (bindD read_varint (\<lambda>removed.
       guardD (removed <s 0 \<or> 256 <s removed)
         (Decode_Error ''hashed removed-component count is out of bounds'')
      (guardD (removed \<noteq> 0) (Decode_Error ''hashed item components are not supported'')
      (returnD \<lparr>simple_item_id = item_id, simple_count = count\<rparr>))))))))))"

text \<open>The loop over the changed slots, with those read so far.\<close>

fun read_changed_slots ::
  "nat \<Rightarrow> (i16 \<times> simple_item_stack) list \<Rightarrow> (i16 \<times> simple_item_stack) list decoder" where
  "read_changed_slots 0 changes = returnD changes"
| "read_changed_slots (Suc n) changes = bindD read_i16_be (\<lambda>slot.
     guardD (list_ex (\<lambda>change. fst change = slot) changes)
       (Decode_Error ''container click contains a duplicate slot'')
     (bindD read_hashed_stack (\<lambda>item.
       read_changed_slots n (changes @ [(slot, item)]))))"

definition decode_container_click :: "container_click decoder" where
  "decode_container_click = expect_id (play_serverbound_id PlayS_container_click)
     ''expected container click packet''
     (bindD read_varint (\<lambda>container. bindD read_varint (\<lambda>state.
      bindD read_i16_be (\<lambda>slot. bindD read_i8 (\<lambda>button.
      guardD (container <s 0 \<or> state <s 0) (Decode_Error ''container click identity is invalid'')
     (bindD read_varint (\<lambda>input.
      guardD (input <s 0 \<or> 6 <s input) (Decode_Error ''container click input is invalid'')
     (bindD read_varint (\<lambda>changed_count.
      guardD (changed_count <s 0 \<or> 128 <s changed_count)
        (Decode_Error ''container changed-slot count is out of bounds'')
     (bindD (read_changed_slots (unat changed_count) []) (\<lambda>changes.
      bindD read_hashed_stack (\<lambda>carried.
      complete \<lparr>click_container_id = container, click_state_id = state, click_slot = slot,
        click_button = button, click_input = container_inputs ! unat input,
        changed_slots = changes, carried_item = carried\<rparr>))))))))))))"

definition decode_container_close :: "i32 decoder" where
  "decode_container_close = expect_id (play_serverbound_id PlayS_container_close)
     ''expected container close packet''
     (bindD read_varint (\<lambda>container.
      guardD (container <s 0) (Decode_Error ''container ID is invalid'') (complete container)))"

definition decode_container_slot_state_change :: "container_slot_state_change decoder" where
  "decode_container_slot_state_change =
     expect_id (play_serverbound_id PlayS_container_slot_state_changed)
       ''expected container slot state packet''
     (bindD read_varint (\<lambda>slot. bindD read_varint (\<lambda>container. bindD read_bool (\<lambda>state.
      guardD (slot <s 0 \<or> container <s 0)
        (Decode_Error ''container slot state fields are invalid'')
      (complete \<lparr>state_slot = slot, state_container = container, slot_state = state\<rparr>)))))"

definition read_beacon_effect :: "i32 option decoder" where
  "read_beacon_effect = bindD read_bool (\<lambda>present.
     if \<not> present then returnD None
     else bindD read_varint (\<lambda>holder_id.
       guardD (holder_id \<le>s 0 \<or> 40 <s holder_id)
         (Decode_Error ''beacon effect holder is out of bounds'')
       (returnD (Some (holder_id - 1)))))"

definition decode_set_beacon :: "beacon_selection decoder" where
  "decode_set_beacon = expect_id (play_serverbound_id PlayS_set_beacon)
     ''expected set beacon packet''
     (bindD read_beacon_effect (\<lambda>primary. bindD read_beacon_effect (\<lambda>secondary.
      complete \<lparr>beacon_primary = primary, beacon_secondary = secondary\<rparr>)))"

definition decode_place_recipe :: "place_recipe decoder" where
  "decode_place_recipe = expect_id (play_serverbound_id PlayS_place_recipe)
     ''expected place recipe packet''
     (bindD read_varint (\<lambda>container. bindD read_varint (\<lambda>display. bindD read_bool (\<lambda>maximal.
      guardD (container <s 0 \<or> display <s 0) (Decode_Error ''place recipe fields are invalid'')
      (complete \<lparr>recipe_container_id = container, recipe_display_id = display,
         use_max_items = maximal\<rparr>)))))"

definition decode_recipe_book_setting_change :: "recipe_book_setting_change decoder" where
  "decode_recipe_book_setting_change =
     expect_id (play_serverbound_id PlayS_recipe_book_change_settings)
       ''expected recipe book setting packet''
     (bindD read_varint (\<lambda>type.
      guardD (type <s 0 \<or> 3 <s type) (Decode_Error ''recipe book type is invalid'')
     (bindD read_bool (\<lambda>is_open. bindD read_bool (\<lambda>filtering.
      complete \<lparr>book_type = ucast type, book_open = is_open, book_filtering = filtering\<rparr>)))))"

definition decode_recipe_book_seen :: "i32 decoder" where
  "decode_recipe_book_seen = expect_id (play_serverbound_id PlayS_recipe_book_seen_recipe)
     ''expected recipe book seen packet''
     (bindD read_varint (\<lambda>display.
      guardD (display <s 0) (Decode_Error ''recipe display ID is invalid'') (complete display)))"

definition decode_seen_advancements :: "seen_advancements decoder" where
  "decode_seen_advancements = expect_id (play_serverbound_id PlayS_seen_advancements)
     ''expected seen advancements packet''
     (bindD read_varint (\<lambda>action.
      if action = 0
      then bindD read_identifier (\<lambda>tab.
        complete \<lparr>opened_tab = True, advancement_tab = Some tab\<rparr>)
      else guardD (action \<noteq> 1) (Decode_Error ''seen advancements action is invalid'')
        (complete \<lparr>opened_tab = False, advancement_tab = None\<rparr>)))"

definition decode_set_carried_item :: "i16 decoder" where
  "decode_set_carried_item = expect_id (play_serverbound_id PlayS_set_carried_item)
     ''expected set carried item packet''
     (bindD read_i16_be (\<lambda>slot.
      guardD (slot <s 0 \<or> 8 <s slot) (Decode_Error ''carried item slot is outside hotbar'')
      (complete slot)))"

definition decode_set_creative_mode_slot :: "creative_slot_change decoder" where
  "decode_set_creative_mode_slot = expect_id (play_serverbound_id PlayS_set_creative_mode_slot)
     ''expected set creative mode slot packet''
     (bindD read_i16_be (\<lambda>slot.
      guardD (slot <s - 1 \<or> 45 <s slot)
        (Decode_Error ''creative inventory slot is out of bounds'')
     (bindD read_varint (\<lambda>count.
      guardD (count <s 0 \<or> 99 <s count) (Decode_Error ''creative item count is out of bounds'')
     (if count \<noteq> 0
      then bindD read_varint (\<lambda>item_id.
        guardD (item_id <s 0 \<or> 1538 \<le>s item_id)
          (Decode_Error ''creative item ID is out of bounds'')
       (bindD read_varint (\<lambda>added. bindD read_varint (\<lambda>removed.
        guardD (added \<noteq> 0 \<or> removed \<noteq> 0)
          (Decode_Error ''creative item components are not supported'')
        (complete \<lparr>creative_slot = slot,
           creative_item = \<lparr>simple_item_id = item_id, simple_count = count\<rparr>\<rparr>)))))
      else complete \<lparr>creative_slot = slot, creative_item = no_item\<rparr>)))))"

definition decode_spectator_action :: "i32 option decoder" where
  "decode_spectator_action = expect_id (play_serverbound_id PlayS_spectator_action)
     ''expected spectator action packet''
     (bindD read_varint (\<lambda>encoded.
      guardD (encoded <s 0) (Decode_Error ''spectator target is invalid'')
      (complete (if encoded = 0 then None else Some (encoded - 1)))))"

definition decode_teleport_to_entity :: "uuid decoder" where
  "decode_teleport_to_entity = expect_id (play_serverbound_id PlayS_teleport_to_entity)
     ''expected teleport-to-entity packet'' (bindD read_uuid complete)"

definition decode_swing :: "u8 decoder" where
  "decode_swing = expect_id (play_serverbound_id PlayS_swing) ''expected Play swing packet''
     (bindD read_varint (\<lambda>hand.
      guardD (hand <s 0 \<or> 1 <s hand) (Decode_Error ''swing hand is out of bounds'')
      (complete (ucast hand))))"

definition decode_use_item_on :: "use_item_on decoder" where
  "decode_use_item_on = expect_id (play_serverbound_id PlayS_use_item_on)
     ''expected use item on packet''
     (bindD read_varint (\<lambda>hand.
      guardD (hand <s 0 \<or> 1 <s hand) (Decode_Error ''use item hand is out of bounds'')
     (bindD read_position (\<lambda>position. bindD read_varint (\<lambda>direction.
      guardD (direction <s 0 \<or> 5 <s direction)
        (Decode_Error ''use item direction is out of bounds'')
     (bindD read_f32_be (\<lambda>x. bindD read_f32_be (\<lambda>y. bindD read_f32_be (\<lambda>z.
      bindD read_bool (\<lambda>inside. bindD read_bool (\<lambda>border. bindD read_varint (\<lambda>sequence.
      guardD (sequence <s 0 \<or> \<not> f32_finite x \<or> \<not> f32_finite y \<or> \<not> f32_finite z \<or>
          outside_block x \<or> outside_block y \<or> outside_block z)
        (Decode_Error ''use item block hit is out of bounds'')
      (complete \<lparr>use_on_hand = ucast hand,
         use_on_hit = \<lparr>hit_position = position, hit_direction = ucast direction,
           hit_offset_x = x, hit_offset_y = y, hit_offset_z = z, hit_inside = inside,
           world_border_hit = border\<rparr>,
         use_on_sequence = sequence\<rparr>)))))))))))))"

definition decode_use_item :: "use_item decoder" where
  "decode_use_item = expect_id (play_serverbound_id PlayS_use_item) ''expected use item packet''
     (bindD read_varint (\<lambda>hand. bindD read_varint (\<lambda>sequence.
      bindD read_f32_be (\<lambda>yaw. bindD read_f32_be (\<lambda>pitch.
      guardD (hand <s 0 \<or> 1 <s hand \<or> sequence <s 0 \<or> \<not> f32_finite yaw \<or> \<not> f32_finite pitch)
        (Decode_Error ''use item fields are out of bounds'')
      (complete \<lparr>use_hand = ucast hand, use_sequence = sequence, use_yaw = yaw,
         use_pitch = pitch\<rparr>))))))"

section \<open>Entities and commands\<close>

text \<open>
  \<open>read_lp_vector\<close>: three fifteen-bit components packed into six bytes behind a
  scale of two bits, which a VarInt extends.
\<close>

definition lp_unpack :: "u64 \<Rightarrow> u64 \<Rightarrow> nat \<Rightarrow> f64" where
  "lp_unpack packed scale shift =
     (let raw = min (drop_bit shift packed AND 32767) 32766
      in f64_mul
           (f64_sub (f64_div (f64_mul (f64_of_int (uint raw)) 0x4000000000000000) 0x40DFFF8000000000)
             0x3FF0000000000000)
           (f64_of_int (uint scale)))"

definition read_lp_vector :: "entity_vector decoder" where
  "read_lp_vector = bindD read_u8 (\<lambda>first.
     if first = 0 then returnD \<lparr>vector_x = 0, vector_y = 0, vector_z = 0\<rparr>
     else bindD read_u8 (\<lambda>second. bindD read_i32_be (\<lambda>upper.
       let packed = push_bit 16 (ucast upper) OR push_bit 8 (ucast second) OR ucast first :: u64;
           low = ucast first AND 3 :: u64
       in bindD (if first AND 4 \<noteq> 0
            then bindD read_varint (\<lambda>continuation.
              guardD (continuation <s 0) (Decode_Error ''LP vector scale is invalid'')
              (returnD (low OR push_bit 2 (ucast continuation))))
            else returnD low) (\<lambda>scale.
          returnD \<lparr>vector_x = lp_unpack packed scale 3, vector_y = lp_unpack packed scale 18,
            vector_z = lp_unpack packed scale 33\<rparr>))))"

definition decode_attack :: "i32 decoder" where
  "decode_attack = expect_id (play_serverbound_id PlayS_attack) ''expected entity attack packet''
     (bindD read_varint (\<lambda>entity.
      guardD (entity <s 0) (Decode_Error ''attacked entity ID is invalid'') (complete entity)))"

definition decode_block_entity_tag_query :: "block_entity_tag_query decoder" where
  "decode_block_entity_tag_query = expect_id (play_serverbound_id PlayS_block_entity_tag_query)
     ''expected block entity tag query packet''
     (bindD read_varint (\<lambda>transaction. bindD read_position (\<lambda>position.
      guardD (transaction <s 0) (Decode_Error ''block entity query transaction is invalid'')
      (complete \<lparr>block_query_transaction = transaction, block_query_position = position\<rparr>))))"

definition decode_entity_tag_query :: "entity_tag_query decoder" where
  "decode_entity_tag_query = expect_id (play_serverbound_id PlayS_entity_tag_query)
     ''expected entity tag query packet''
     (bindD read_varint (\<lambda>transaction. bindD read_varint (\<lambda>entity.
      guardD (transaction <s 0 \<or> entity <s 0) (Decode_Error ''entity tag query fields are invalid'')
      (complete \<lparr>entity_query_transaction = transaction, entity_query_id = entity\<rparr>))))"

definition decode_bundle_item_selection :: "bundle_item_selection decoder" where
  "decode_bundle_item_selection = expect_id (play_serverbound_id PlayS_bundle_item_selected)
     ''expected bundle item selection packet''
     (bindD read_varint (\<lambda>slot. bindD read_varint (\<lambda>index.
      guardD (slot <s 0 \<or> 45 <s slot \<or> index <s - 1 \<or> 63 <s index)
        (Decode_Error ''bundle item selection is out of bounds'')
      (complete \<lparr>bundle_slot = slot, bundle_selected_index = index\<rparr>))))"

definition decode_change_difficulty :: "u8 decoder" where
  "decode_change_difficulty = expect_id (play_serverbound_id PlayS_change_difficulty)
     ''expected difficulty change packet''
     (bindD read_varint (\<lambda>difficulty.
      guardD (difficulty <s 0 \<or> 3 <s difficulty)
        (Decode_Error ''difficulty change is out of bounds'')
      (complete (ucast difficulty))))"

definition decode_change_game_mode :: "u8 decoder" where
  "decode_change_game_mode = expect_id (play_serverbound_id PlayS_change_game_mode)
     ''expected game-mode change packet''
     (bindD read_varint (\<lambda>game_mode.
      guardD (game_mode <s 0 \<or> 3 <s game_mode)
        (Decode_Error ''game-mode change is out of bounds'')
      (complete (ucast game_mode))))"

definition decode_empty_chat_ack :: "unit decoder" where
  "decode_empty_chat_ack = expect_id (play_serverbound_id PlayS_chat_ack)
     ''expected chat acknowledgement packet''
     (bindD read_varint (\<lambda>count.
      guardD (count \<noteq> 0)
        (Decode_Error ''chat acknowledgement references an absent message chain'') (complete ())))"

definition decode_lock_difficulty :: "bool decoder" where
  "decode_lock_difficulty = expect_id (play_serverbound_id PlayS_lock_difficulty)
     ''expected difficulty lock packet'' (bindD read_bool complete)"

definition decode_chat_command :: "string decoder" where
  "decode_chat_command = expect_id (play_serverbound_id PlayS_chat_command)
     ''expected chat command packet''
     (bindD (read_string 256) (\<lambda>command.
      guardD (command = [] \<or> hd command = CHR ''/'') (Decode_Error ''chat command is invalid'')
      (complete command)))"

definition decode_command_suggestion :: "command_suggestion_request decoder" where
  "decode_command_suggestion = expect_id (play_serverbound_id PlayS_command_suggestion)
     ''expected command suggestion packet''
     (bindD read_varint (\<lambda>i. bindD (read_string 256) (\<lambda>command.
      guardD (i <s 0 \<or> command = []) (Decode_Error ''command suggestion request is invalid'')
      (complete \<lparr>suggestion_id = i, suggestion_command = command\<rparr>))))"

definition decode_interact :: "entity_interaction decoder" where
  "decode_interact = expect_id (play_serverbound_id PlayS_interact)
     ''expected entity interaction packet''
     (bindD read_varint (\<lambda>entity. bindD read_varint (\<lambda>hand.
      guardD (entity <s 0 \<or> hand <s 0 \<or> 1 <s hand)
        (Decode_Error ''entity interaction target or hand is invalid'')
     (bindD read_lp_vector (\<lambda>location. bindD read_bool (\<lambda>secondary.
      complete \<lparr>interaction_entity_id = entity, interaction_hand = ucast hand,
        interaction_location = location, secondary_action = secondary\<rparr>))))))"

section \<open>Every decoder is whole\<close>

lemma safe_case_prod [safe_intros]: "(\<And>a b. safe (f a b)) \<Longrightarrow> safe (case p of (a, b) \<Rightarrow> f a b)"
  by (cases p) simp

lemma whole_case_prod [whole_intros]: "(\<And>a b. whole (f a b)) \<Longrightarrow> whole (case p of (a, b) \<Rightarrow> f a b)"
  by (cases p) simp

lemma reads_movement_flags: "safe read_movement_flags" "polite read_movement_flags"
  unfolding read_movement_flags_def by (intro safe_intros polite_intros)+

lemma reads_hashed_stack: "safe read_hashed_stack" "polite read_hashed_stack"
  unfolding read_hashed_stack_def by (intro safe_intros polite_intros)+

lemma reads_changed_slots: "safe (read_changed_slots n cs)" "polite (read_changed_slots n cs)"
  by (induction n arbitrary: cs) (auto intro!: safe_intros polite_intros reads_hashed_stack)

lemma reads_beacon_effect: "safe read_beacon_effect" "polite read_beacon_effect"
  unfolding read_beacon_effect_def by (intro safe_intros polite_intros)+

lemma reads_lp_vector: "safe read_lp_vector" "polite read_lp_vector"
  unfolding read_lp_vector_def Let_def by (intro safe_intros polite_intros)+

lemmas play_readers =
  reads_movement_flags reads_hashed_stack reads_changed_slots reads_beacon_effect reads_lp_vector
  whole_client_information whole_decode_cookie_response whole_custom_payload
  whole_resource_pack_action whole_custom_click

lemma whole_empty_play_packet: "whole (decode_empty_play_packet i)"
  unfolding decode_empty_play_packet_def by (intro whole_intros)

lemma whole_play_1:
  "whole play_decode_keep_alive"
  "whole decode_teleport_acknowledgement"
  "whole decode_chunk_batch_received"
  "whole decode_player_position"
  "whole decode_player_rotation"
  "whole decode_player_status"
  "whole decode_move_vehicle"
  "whole decode_paddle_boat"
  "whole decode_client_tick_end"
  "whole play_decode_client_information"
  "whole play_decode_custom_payload"
  "whole play_decode_custom_click_action"
  "whole decode_configuration_acknowledged"
  "whole play_decode_cookie_response"
  unfolding play_decode_keep_alive_def
    decode_teleport_acknowledgement_def
    decode_chunk_batch_received_def
    decode_player_position_def
    decode_player_rotation_def
    decode_player_status_def
    decode_move_vehicle_def
    decode_paddle_boat_def
    decode_client_tick_end_def
    play_decode_client_information_def
    play_decode_custom_payload_def
    play_decode_custom_click_action_def
    decode_configuration_acknowledged_def
    play_decode_cookie_response_def
  by (intro whole_intros safe_intros polite_intros play_readers whole_empty_play_packet)+

lemma whole_play_2:
  "whole decode_player_loaded"
  "whole decode_ping_request"
  "whole decode_pick_item_from_block"
  "whole decode_pick_item_from_entity"
  "whole decode_player_abilities"
  "whole decode_player_action"
  "whole decode_player_command"
  "whole decode_player_input"
  "whole decode_client_command"
  "whole play_decode_pong"
  "whole decode_rename_item"
  "whole play_decode_resource_pack_response"
  "whole decode_select_trade"
  "whole decode_container_button_click"
  unfolding decode_player_loaded_def
    decode_ping_request_def
    decode_pick_item_from_block_def
    decode_pick_item_from_entity_def
    decode_player_abilities_def
    decode_player_action_def
    decode_player_command_def
    decode_player_input_def
    decode_client_command_def
    play_decode_pong_def
    decode_rename_item_def
    play_decode_resource_pack_response_def
    decode_select_trade_def
    decode_container_button_click_def
  by (intro whole_intros safe_intros polite_intros play_readers whole_empty_play_packet)+

lemma whole_play_3:
  "whole decode_container_click"
  "whole decode_container_close"
  "whole decode_container_slot_state_change"
  "whole decode_set_beacon"
  "whole decode_place_recipe"
  "whole decode_recipe_book_setting_change"
  "whole decode_recipe_book_seen"
  "whole decode_seen_advancements"
  "whole decode_set_carried_item"
  "whole decode_set_creative_mode_slot"
  "whole decode_spectator_action"
  "whole decode_teleport_to_entity"
  "whole decode_swing"
  "whole decode_use_item_on"
  unfolding decode_container_click_def
    decode_container_close_def
    decode_container_slot_state_change_def
    decode_set_beacon_def
    decode_place_recipe_def
    decode_recipe_book_setting_change_def
    decode_recipe_book_seen_def
    decode_seen_advancements_def
    decode_set_carried_item_def
    decode_set_creative_mode_slot_def
    decode_spectator_action_def
    decode_teleport_to_entity_def
    decode_swing_def
    decode_use_item_on_def
  by (intro whole_intros safe_intros polite_intros play_readers whole_empty_play_packet)+

lemma whole_play_4:
  "whole decode_use_item"
  "whole decode_attack"
  "whole decode_block_entity_tag_query"
  "whole decode_entity_tag_query"
  "whole decode_bundle_item_selection"
  "whole decode_change_difficulty"
  "whole decode_change_game_mode"
  "whole decode_empty_chat_ack"
  "whole decode_lock_difficulty"
  "whole decode_chat_command"
  "whole decode_command_suggestion"
  "whole decode_interact"
  unfolding decode_use_item_def
    decode_attack_def
    decode_block_entity_tag_query_def
    decode_entity_tag_query_def
    decode_bundle_item_selection_def
    decode_change_difficulty_def
    decode_change_game_mode_def
    decode_empty_chat_ack_def
    decode_lock_difficulty_def
    decode_chat_command_def
    decode_command_suggestion_def
    decode_interact_def
  by (intro whole_intros safe_intros polite_intros play_readers whole_empty_play_packet)+

section \<open>The values decoders return\<close>

lemma complete_Inr_iff: "complete x r = Inr (y, r') \<longleftrightarrow> y = x \<and> r' = r \<and> reader_empty r"
  by (auto simp: complete_def expect_packet_end_def bindD_def returnD_def)

lemma expect_id_Inr_iff:
  "expect_id i m k r = Inr p \<longleftrightarrow> (\<exists>r1. read_varint r = Inr (i, r1) \<and> k r1 = Inr p)"
  by (auto simp: expect_id_def decoder_iff)

lemmas packet_iff = expect_id_Inr_iff complete_Inr_iff decoder_iff

lemma f32_one_value: "f32_value f32_one = 2 ^ 149"
  by (simp add: f32_value_def f32_one_def f32_magnitude_def scaled_def signed_def)

lemma f32_zero_value: "f32_value 0 = 0" "f32_finite 0" "f32_finite f32_one"
  by (simp_all add: f32_value_def f32_magnitude_def scaled_def signed_def f32_finite_def f32_one_def)

lemma f64_bound_values:
  "f64_value f64_30_million = 30000000 * 2 ^ 1074" "f64_value f64_20_million = 20000000 * 2 ^ 1074"
  "f64_finite f64_30_million" "f64_finite f64_20_million"
  by (simp_all add: f64_value_def f64_30_million_def f64_20_million_def f64_magnitude_def
      scaled_def signed_def f64_finite_def)

text \<open>The values of finite numbers, in the units of the format.\<close>

definition within_block :: "f32 \<Rightarrow> bool" where
  "within_block v = (f32_finite v \<and> 0 \<le> f32_value v \<and> f32_value v \<le> 2 ^ 149)"

definition within_world :: "f64 \<Rightarrow> f64 \<Rightarrow> f64 \<Rightarrow> bool" where
  "within_world x y z =
     (f64_finite x \<and> f64_finite y \<and> f64_finite z \<and>
      \<bar>f64_value x\<bar> \<le> 30000000 * 2 ^ 1074 \<and> \<bar>f64_value y\<bar> \<le> 20000000 * 2 ^ 1074 \<and>
      \<bar>f64_value z\<bar> \<le> 30000000 * 2 ^ 1074)"

lemma outside_block_iff: "f32_finite v \<Longrightarrow> \<not> outside_block v \<longleftrightarrow> within_block v"
  using f32_less_value [of v 0] f32_less_value [of f32_one v]
  by (auto simp: outside_block_def within_block_def f32_zero_value f32_one_value not_less)

lemma outside_world_iff: "\<not> outside_world x y z \<longleftrightarrow> within_world x y z"
proof -
  have le: "f64_finite v \<Longrightarrow> \<not> f64_less b (f64_abs v) \<longleftrightarrow> \<bar>f64_value v\<bar> \<le> f64_value b"
    if "f64_finite b" for b v
    using f64_less_value [of b "f64_abs v"] that by (simp add: f64_abs_value not_less)
  show ?thesis
    unfolding outside_world_def within_world_def de_Morgan_disj not_not
    using le [OF f64_bound_values(3)] le [OF f64_bound_values(4)]
    unfolding f64_bound_values(1,2) by blast
qed

definition ok_stack :: "simple_item_stack \<Rightarrow> bool" where
  "ok_stack item = (item = no_item \<or>
     0 \<le> sint (simple_item_id item) \<and> sint (simple_item_id item) < 1538 \<and>
     0 < sint (simple_count item) \<and> sint (simple_count item) \<le> 99)"

definition ok_container_click :: "container_click \<Rightarrow> bool" where
  "ok_container_click click =
     (0 \<le> sint (click_container_id click) \<and> 0 \<le> sint (click_state_id click) \<and>
      length (changed_slots click) \<le> 128 \<and> distinct (map fst (changed_slots click)) \<and>
      list_all (\<lambda>(slot, item). ok_stack item) (changed_slots click) \<and>
      ok_stack (carried_item click))"

definition ok_use_item_on :: "use_item_on \<Rightarrow> bool" where
  "ok_use_item_on use =
     (unat (use_on_hand use) \<le> 1 \<and> unat (hit_direction (use_on_hit use)) \<le> 5 \<and> 0 \<le> sint (use_on_sequence use) \<and>
      within_block (hit_offset_x (use_on_hit use)) \<and> within_block (hit_offset_y (use_on_hit use)) \<and>
      within_block (hit_offset_z (use_on_hit use)))"

definition ok_player_position :: "player_position \<Rightarrow> bool" where
  "ok_player_position p =
     (within_world (player_x p) (player_y p) (player_z p) \<and>
      (case (player_yaw p, player_pitch p) of
         (Some yaw, Some pitch) \<Rightarrow> f32_finite yaw \<and> f32_finite pitch
       | (None, None) \<Rightarrow> True
       | _ \<Rightarrow> False))"

definition ok_creative_slot :: "creative_slot_change \<Rightarrow> bool" where
  "ok_creative_slot change =
     (- 1 \<le> sint (creative_slot change) \<and> sint (creative_slot change) \<le> 45 \<and>
      ok_stack (creative_item change))"

lemma uint_nonneg_sint:
  fixes v :: i32
  assumes "0 \<le> sint v"
  shows "uint v = sint v"
proof -
  have "uint v = take_bit 32 (sint v)"
    using unsigned_of_int [of "sint v", where 'a = int and 'b = 32] by (simp add: of_int_sint)
  with assms sint_lt [of v] show ?thesis by (simp add: take_bit_int_eq_self)
qed

lemma unat_nonneg_sint: "0 \<le> sint v \<Longrightarrow> int (unat v) = sint v" for v :: i32
  by (simp add: uint_nonneg_sint)

lemma signed_small:
  fixes v :: i32
  assumes "0 \<le> sint v" and "sint v \<le> int n" and "n < 128"
  shows "unat (ucast v :: u8) \<le> n"
proof -
  have "uint v = sint v"
    using assms(1) by (rule uint_nonneg_sint)
  with assms have "uint (ucast v :: u8) \<le> int n"
    by (simp add: unsigned_ucast_eq take_bit_int_eq_self)
  then show ?thesis by (simp add: zero_le_imp_eq_int nat_le_iff flip: of_nat_le_iff [where 'a = int])
qed

lemma sint_small [simp]: "sint (1 :: i32) = 1" "sint (5 :: i32) = 5" "sint (99 :: i32) = 99"
    "sint (1538 :: i32) = 1538" "sint (128 :: i32) = 128" "sint (- 1 :: i16) = - 1" "sint (45 :: i16) = 45"
  by simp_all

lemma hashed_stack_ok: "read_hashed_stack r = Inr (item, r') \<Longrightarrow> ok_stack item"
  unfolding read_hashed_stack_def
  by (auto simp: decoder_iff ok_stack_def word_sless_alt word_sle_eq split: if_splits)

lemma changed_slots_ok:
  assumes "read_changed_slots n cs r = Inr (cs', r')"
    and "distinct (map fst cs)" and "list_all (\<lambda>(slot, item). ok_stack item) cs"
  shows "length cs' = length cs + n" and "distinct (map fst cs')"
    and "list_all (\<lambda>(slot, item). ok_stack item) cs'"
  using assms
proof (atomize (full), induction n arbitrary: cs r)
  case 0
  then show ?case by (simp add: decoder_iff)
next
  case (Suc n)
  from Suc.prems(1) obtain slot item r1 where "\<not> list_ex (\<lambda>change. fst change = slot) cs"
    and "ok_stack item" and "read_changed_slots n (cs @ [(slot, item)]) r1 = Inr (cs', r')"
    by (auto simp: decoder_iff dest: hashed_stack_ok)
  with Suc.IH [of "cs @ [(slot, item)]" r1] Suc.prems(2,3) show ?case
    by (auto simp: list_ex_iff)
qed

lemma changed_slots_all:
  "read_changed_slots n [] r = Inr (cs, r') \<Longrightarrow>
     length cs = n \<and> distinct (map fst cs) \<and> list_all (\<lambda>(slot, item). ok_stack item) cs"
  using changed_slots_ok [of n "[]" r cs r'] by simp

lemma unat_le_128: "\<not> sint v < 0 \<Longrightarrow> \<not> 128 < sint v \<Longrightarrow> unat v \<le> 128" for v :: i32
  using unat_nonneg_sint [of v] by linarith

lemma container_click_ok:
  "decode_container_click r = Inr (click, r') \<Longrightarrow> ok_container_click click"
  unfolding decode_container_click_def
  by (auto simp: packet_iff ok_container_click_def word_sless_alt unat_le_128 dest!: changed_slots_all
      dest: hashed_stack_ok)

lemma hand_and_direction:
  "\<not> sint v < 0 \<Longrightarrow> \<not> 1 < sint v \<Longrightarrow> unat (ucast v :: u8) \<le> Suc 0"
  "\<not> sint v < 0 \<Longrightarrow> \<not> 5 < sint v \<Longrightarrow> unat (ucast v :: u8) \<le> 5" for v :: i32
  using signed_small [of v 1] signed_small [of v 5] by simp_all

lemma use_item_on_ok: "decode_use_item_on r = Inr (use, r') \<Longrightarrow> ok_use_item_on use"
  unfolding decode_use_item_on_def
  by (auto simp: packet_iff ok_use_item_on_def word_sless_alt hand_and_direction
      simp flip: outside_block_iff)

lemma player_position_ok: "decode_player_position r = Inr (p, r') \<Longrightarrow> ok_player_position p"
  unfolding decode_player_position_def
  by (auto simp: packet_iff ok_player_position_def outside_world_iff split: if_splits)

lemma sint_pos: "\<not> sint v < 0 \<Longrightarrow> v \<noteq> 0 \<Longrightarrow> 0 < sint v" for v :: i32
proof -
  have "sint v = 0 \<longleftrightarrow> v = 0" by (rule signed_eq_0_iff)
  then show "\<not> sint v < 0 \<Longrightarrow> v \<noteq> 0 \<Longrightarrow> 0 < sint v" by linarith
qed

lemma creative_slot_ok: "decode_set_creative_mode_slot r = Inr (change, r') \<Longrightarrow> ok_creative_slot change"
  unfolding decode_set_creative_mode_slot_def
  by (auto simp: packet_iff ok_creative_slot_def ok_stack_def word_sless_alt word_sle_eq sint_pos split: if_splits)

definition accepts_only :: "'a decoder \<Rightarrow> ('a \<Rightarrow> bool) \<Rightarrow> bytes \<Rightarrow> bool" where
  "accepts_only d P body = (case d (mk_reader body) of Inl _ \<Rightarrow> True | Inr (v, _) \<Rightarrow> P v)"

lemma accepts_onlyI: "(\<And>v r'. d (mk_reader body) = Inr (v, r') \<Longrightarrow> P v) \<Longrightarrow> accepts_only d P body"
  by (auto simp: accepts_only_def split: sum.splits)

section \<open>Container clicks on the wire\<close>

text \<open>\<open>reads_all\<close>: reading an image that ends the packet.\<close>

definition reads_all :: "'a decoder \<Rightarrow> bytes \<Rightarrow> 'a \<Rightarrow> bool" where
  "reads_all d bs x = (\<forall>pre. d (reader_at pre bs) = Inr (x, reader_at (pre @ bs) []))"

lemma reads_all_complete: "reads_all (complete x) [] x"
  by (simp add: reads_all_def complete_def expect_packet_end_def bindD_def returnD_def)

lemma reads_all_bindD: "reads d bs x \<Longrightarrow> reads_all (f x) cs y \<Longrightarrow> reads_all (bindD d f) (bs @ cs) y"
  by (simp add: reads_def reads_all_def bindD_def)

lemma reads_all_last: "reads d bs x \<Longrightarrow> reads_all (f x) [] y \<Longrightarrow> reads_all (bindD d f) bs y"
  using reads_all_bindD [of d bs x f "[]" y] by simp

lemma reads_all_guardD: "\<not> bad \<Longrightarrow> reads_all d bs x \<Longrightarrow> reads_all (guardD bad e d) bs x"
  by (simp add: guardD_def)

lemma reads_varint: "reads read_varint (write_varint [] v) v"
  by (rule varint.reads_img) simp

lemma reads_all_expect_id:
  "reads_all k bs x \<Longrightarrow> reads_all (expect_id i m k) (write_varint [] i @ bs) x"
  unfolding expect_id_def by (intro reads_all_bindD [OF reads_varint] reads_all_guardD) simp

lemma reads_all_run:
  "reads_all d bs x \<Longrightarrow> d (mk_reader bs) = Inr (x, \<lparr>data = bs, offset = length bs\<rparr>)"
  unfolding reads_all_def mk_reader_at by (drule spec [of _ "[]"]) (simp add: reader_at_def)

definition hashed_img :: "simple_item_stack \<Rightarrow> bytes" where
  "hashed_img item =
     (if item = no_item then write_bool [] False
      else write_bool [] True @ write_varint [] (simple_item_id item) @
        write_varint [] (simple_count item) @ write_varint [] 0 @ write_varint [] 0)"

definition change_img :: "i16 \<times> simple_item_stack \<Rightarrow> bytes" where
  "change_img change = write_i16_be [] (fst change) @ hashed_img (snd change)"

primrec container_input_id :: "container_input \<Rightarrow> i32" where
  "container_input_id Pickup = 0"
| "container_input_id Quick_Move = 1"
| "container_input_id Swap = 2"
| "container_input_id Clone = 3"
| "container_input_id Throw_Item = 4"
| "container_input_id Quick_Craft = 5"
| "container_input_id Pickup_All = 6"

definition container_click_img :: "container_click \<Rightarrow> bytes" where
  "container_click_img click =
     write_varint [] (play_serverbound_id PlayS_container_click) @
     write_varint [] (click_container_id click) @ write_varint [] (click_state_id click) @
     write_i16_be [] (click_slot click) @ write_i8 [] (click_button click) @
     write_varint [] (container_input_id (click_input click)) @
     write_varint [] (count_of (changed_slots click)) @
     concat (map change_img (changed_slots click)) @ hashed_img (carried_item click)"

lemma container_input_cast: "container_inputs ! unat (container_input_id i) = i"
  "0 \<le> sint (container_input_id i)" "sint (container_input_id i) \<le> 6"
  by (cases i; simp add: container_inputs_def)+

lemma reads_last: "reads d bs x \<Longrightarrow> reads (f x) [] y \<Longrightarrow> reads (bindD d f) bs y"
  using reads_bindD [of d bs x f "[]" y] by simp

lemma reads_hashed_img:
  assumes "ok_stack item"
  shows "reads read_hashed_stack (hashed_img item) item"
proof (cases "item = no_item")
  case True
  then show ?thesis
    unfolding read_hashed_stack_def hashed_img_def
    by (auto intro!: reads_last [OF bool.reads_img] simp: reads_returnD)
next
  case False
  with assms show ?thesis
    unfolding read_hashed_stack_def hashed_img_def
    by (cases item) (auto intro!: reads_bindD [OF bool.reads_img] reads_bindD [OF reads_varint]
        reads_last [OF reads_varint] reads_guardD reads_returnD
        simp: ok_stack_def word_sless_alt word_sle_eq)
qed

lemma change_img_pair: "change_img (slot, item) = write_i16_be [] slot @ hashed_img item"
  by (simp add: change_img_def)

lemma reads_changed:
  assumes "list_all (\<lambda>(slot, item). ok_stack item) changes"
    and "distinct (map fst (cs @ changes))"
  shows "reads (read_changed_slots (length changes) cs) (concat (map change_img changes)) (cs @ changes)"
  using assms
proof (induction changes arbitrary: cs)
  case Nil
  then show ?case by (simp add: reads_returnD)
next
  case (Cons change changes)
  obtain slot item where c: "change = (slot, item)" by (cases change)
  with Cons.prems have ok: "ok_stack item" and new: "\<not> list_ex (\<lambda>change. fst change = slot) cs"
    by (auto simp: list_ex_iff)
  have "reads (read_changed_slots (length changes) (cs @ [(slot, item)]))
      (concat (map change_img changes)) ((cs @ [(slot, item)]) @ changes)"
    using Cons.prems c by (intro Cons.IH) auto
  then have "reads (read_changed_slots (length (change # changes)) cs)
      (write_i16_be [] slot @ hashed_img item @ concat (map change_img changes))
      ((cs @ [(slot, item)]) @ changes)"
    using new by (auto intro!: reads_bindD i16.reads_img reads_guardD reads_hashed_img ok)
  then show ?case by (simp add: c change_img_pair)
qed

lemmas reads_changes = reads_changed [where cs = "[]", unfolded append_Nil]

lemma click_fields:
  "\<lparr>click_container_id = click_container_id click, click_state_id = click_state_id click,
     click_slot = click_slot click, click_button = click_button click, click_input = click_input click,
     changed_slots = changed_slots click, carried_item = carried_item click\<rparr> = click"
  by simp

lemma container_click_reads:
  assumes "ok_container_click click"
  shows "reads_all decode_container_click (container_click_img click) click"
proof -
  let ?n = "length (changed_slots click)"
  have n: "?n \<le> 128" using assms by (simp add: ok_container_click_def)
  then have count: "sint (count_of (changed_slots click)) = int ?n" "unat (count_of (changed_slots click)) = ?n"
    by (simp_all add: sint_word_of_nat unat_word_of_nat)
  show ?thesis
    unfolding decode_container_click_def container_click_img_def
    using assms n container_input_cast(2,3) [of "click_input click"]
    by (auto intro!: reads_all_expect_id reads_all_bindD [OF reads_varint]
        reads_all_bindD [OF i16.reads_img] reads_all_bindD [OF i8.reads_img] reads_all_guardD
        reads_all_bindD [OF reads_changes] reads_all_last [OF reads_hashed_img]
        simp: ok_container_click_def word_sless_alt count container_input_cast(1) click_fields reads_all_complete)
qed

section \<open>Properties\<close>

text \<open>C20. Whatever bytes a client sends in the play state, each decoder either throws \<open>DecodeError\<close>,
  and no other exception, or has consumed the whole packet body and read nothing beyond it.\<close>

theorem play_packets_reject_or_consume:
  "rejects_or_consumes play_decode_keep_alive body \<and>
   rejects_or_consumes decode_teleport_acknowledgement body \<and>
   rejects_or_consumes decode_chunk_batch_received body \<and>
   rejects_or_consumes decode_player_position body \<and>
   rejects_or_consumes decode_player_rotation body \<and>
   rejects_or_consumes decode_player_status body \<and>
   rejects_or_consumes decode_move_vehicle body \<and>
   rejects_or_consumes decode_paddle_boat body \<and>
   rejects_or_consumes decode_client_tick_end body \<and>
   rejects_or_consumes play_decode_client_information body \<and>
   rejects_or_consumes play_decode_custom_payload body \<and>
   rejects_or_consumes play_decode_custom_click_action body \<and>
   rejects_or_consumes decode_configuration_acknowledged body \<and>
   rejects_or_consumes play_decode_cookie_response body \<and>
   rejects_or_consumes decode_player_loaded body \<and>
   rejects_or_consumes decode_ping_request body \<and>
   rejects_or_consumes decode_pick_item_from_block body \<and>
   rejects_or_consumes decode_pick_item_from_entity body \<and>
   rejects_or_consumes decode_player_abilities body \<and>
   rejects_or_consumes decode_player_action body \<and>
   rejects_or_consumes decode_player_command body \<and>
   rejects_or_consumes decode_player_input body \<and>
   rejects_or_consumes decode_client_command body \<and>
   rejects_or_consumes play_decode_pong body \<and>
   rejects_or_consumes decode_rename_item body \<and>
   rejects_or_consumes play_decode_resource_pack_response body \<and>
   rejects_or_consumes decode_select_trade body \<and>
   rejects_or_consumes decode_container_button_click body \<and>
   rejects_or_consumes decode_container_click body \<and>
   rejects_or_consumes decode_container_close body \<and>
   rejects_or_consumes decode_container_slot_state_change body \<and>
   rejects_or_consumes decode_set_beacon body \<and>
   rejects_or_consumes decode_place_recipe body \<and>
   rejects_or_consumes decode_recipe_book_setting_change body \<and>
   rejects_or_consumes decode_recipe_book_seen body \<and>
   rejects_or_consumes decode_seen_advancements body \<and>
   rejects_or_consumes decode_set_carried_item body \<and>
   rejects_or_consumes decode_set_creative_mode_slot body \<and>
   rejects_or_consumes decode_spectator_action body \<and>
   rejects_or_consumes decode_teleport_to_entity body \<and>
   rejects_or_consumes decode_swing body \<and>
   rejects_or_consumes decode_use_item_on body \<and>
   rejects_or_consumes decode_use_item body \<and>
   rejects_or_consumes decode_attack body \<and>
   rejects_or_consumes decode_block_entity_tag_query body \<and>
   rejects_or_consumes decode_entity_tag_query body \<and>
   rejects_or_consumes decode_bundle_item_selection body \<and>
   rejects_or_consumes decode_change_difficulty body \<and>
   rejects_or_consumes decode_change_game_mode body \<and>
   rejects_or_consumes decode_empty_chat_ack body \<and>
   rejects_or_consumes decode_lock_difficulty body \<and>
   rejects_or_consumes decode_chat_command body \<and>
   rejects_or_consumes decode_command_suggestion body \<and>
   rejects_or_consumes decode_interact body"
  by (intro conjI whole_run whole_play_1 whole_play_2 whole_play_3 whole_play_4)

text \<open>C7. The values that get past the decoders satisfy the bounds the game code relies on: a click has
  distinct slots, at most 128 of them, and stacks of registered items; a block hit lies on the block
  and names a real face and hand; a position is finite and inside the world; a creative change
  names an inventory slot.\<close>

theorem play_values_in_bounds:
  "accepts_only decode_container_click ok_container_click body \<and>
   accepts_only decode_use_item_on ok_use_item_on body \<and>
   accepts_only decode_player_position ok_player_position body \<and>
   accepts_only decode_set_creative_mode_slot ok_creative_slot body"
  by (intro conjI accepts_onlyI)
    (erule container_click_ok use_item_on_ok player_position_ok creative_slot_ok)+

text \<open>C21. Every click within those bounds has an image on the wire, and the decoder returns that very
  click from it.\<close>

theorem container_click_roundtrip:
  assumes "ok_container_click click"
  shows "decode_container_click (mk_reader (container_click_img click)) =
    Inr (click, \<lparr>data = container_click_img click, offset = length (container_click_img click)\<rparr>)"
  by (rule reads_all_run [OF container_click_reads [OF assms]])

definition sample_click :: container_click where
  "sample_click = \<lparr>click_container_id = 3, click_state_id = 7, click_slot = 5, click_button = 1,
     click_input = Swap,
     changed_slots = [(5, no_item), (36, \<lparr>simple_item_id = 1537, simple_count = 64\<rparr>)],
     carried_item = no_item\<rparr>"

theorem container_click_roundtrip_witness:
  "decode_container_click (mk_reader (container_click_img sample_click)) =
    Inr (sample_click, \<lparr>data = container_click_img sample_click,
      offset = length (container_click_img sample_click)\<rparr>)"
  by (rule container_click_roundtrip) (simp add: sample_click_def ok_container_click_def ok_stack_def)

end
