(* ===== verification/Play_Clientbound.thy ===== *)
theory Play_Clientbound
  imports Play_Serverbound
begin

text \<open>
  The packets the server sends in the play state (namespace \<open>mc::protocol::play\<close> of
  packets.hpp and packets.cpp): their ids and one encoder for each, a list of
  writers in the order of the source, with its checks where the source has them.
\<close>

section \<open>Packet ids\<close>

text \<open>The enumerators of \<open>ClientboundPacketId\<close>, each as the number it is cast to.\<close>

definition PlayC_add_entity :: i32 where
  "PlayC_add_entity = 0x01"

definition PlayC_animate :: i32 where
  "PlayC_animate = 0x02"

definition PlayC_award_stats :: i32 where
  "PlayC_award_stats = 0x03"

definition PlayC_block_entity_data :: i32 where
  "PlayC_block_entity_data = 0x06"

definition PlayC_block_changed_ack :: i32 where
  "PlayC_block_changed_ack = 0x04"

definition PlayC_block_destruction :: i32 where
  "PlayC_block_destruction = 0x05"

definition PlayC_block_event :: i32 where
  "PlayC_block_event = 0x07"

definition PlayC_block_update :: i32 where
  "PlayC_block_update = 0x08"

definition PlayC_change_difficulty :: i32 where
  "PlayC_change_difficulty = 0x0A"

definition PlayC_chunk_batch_finished :: i32 where
  "PlayC_chunk_batch_finished = 0x0B"

definition PlayC_chunk_batch_start :: i32 where
  "PlayC_chunk_batch_start = 0x0C"

definition PlayC_command_suggestions :: i32 where
  "PlayC_command_suggestions = 0x0F"

definition PlayC_commands :: i32 where
  "PlayC_commands = 0x10"

definition PlayC_clear_titles :: i32 where
  "PlayC_clear_titles = 0x0E"

definition PlayC_container_close :: i32 where
  "PlayC_container_close = 0x11"

definition PlayC_container_set_content :: i32 where
  "PlayC_container_set_content = 0x12"

definition PlayC_container_set_data :: i32 where
  "PlayC_container_set_data = 0x13"

definition PlayC_container_set_slot :: i32 where
  "PlayC_container_set_slot = 0x14"

definition PlayC_cookie_request :: i32 where
  "PlayC_cookie_request = 0x15"

definition PlayC_custom_payload :: i32 where
  "PlayC_custom_payload = 0x18"

definition PlayC_disconnect :: i32 where
  "PlayC_disconnect = 0x20"

definition PlayC_entity_event :: i32 where
  "PlayC_entity_event = 0x22"

definition PlayC_entity_position_sync :: i32 where
  "PlayC_entity_position_sync = 0x23"

definition PlayC_forget_level_chunk :: i32 where
  "PlayC_forget_level_chunk = 0x25"

definition PlayC_game_event :: i32 where
  "PlayC_game_event = 0x26"

definition PlayC_game_rule_values :: i32 where
  "PlayC_game_rule_values = 0x27"

definition PlayC_game_test_highlight_pos :: i32 where
  "PlayC_game_test_highlight_pos = 0x28"

definition PlayC_hurt_animation :: i32 where
  "PlayC_hurt_animation = 0x2A"

definition PlayC_initialize_border :: i32 where
  "PlayC_initialize_border = 0x2B"

definition PlayC_keep_alive :: i32 where
  "PlayC_keep_alive = 0x2C"

definition PlayC_level_chunk_with_light :: i32 where
  "PlayC_level_chunk_with_light = 0x2D"

definition PlayC_level_event :: i32 where
  "PlayC_level_event = 0x2E"

definition PlayC_level_particles :: i32 where
  "PlayC_level_particles = 0x2F"

definition PlayC_light_update :: i32 where
  "PlayC_light_update = 0x30"

definition PlayC_login :: i32 where
  "PlayC_login = 0x31"

definition PlayC_move_entity_pos :: i32 where
  "PlayC_move_entity_pos = 0x35"

definition PlayC_move_entity_pos_rot :: i32 where
  "PlayC_move_entity_pos_rot = 0x36"

definition PlayC_move_entity_rot :: i32 where
  "PlayC_move_entity_rot = 0x38"

definition PlayC_move_vehicle :: i32 where
  "PlayC_move_vehicle = 0x39"

definition PlayC_open_book :: i32 where
  "PlayC_open_book = 0x3A"

definition PlayC_open_screen :: i32 where
  "PlayC_open_screen = 0x3B"

definition PlayC_open_sign_editor :: i32 where
  "PlayC_open_sign_editor = 0x3C"

definition PlayC_ping :: i32 where
  "PlayC_ping = 0x3D"

definition PlayC_pong_response :: i32 where
  "PlayC_pong_response = 0x3E"

definition PlayC_player_abilities :: i32 where
  "PlayC_player_abilities = 0x40"

definition PlayC_player_info_remove :: i32 where
  "PlayC_player_info_remove = 0x45"

definition PlayC_player_info_update :: i32 where
  "PlayC_player_info_update = 0x46"

definition PlayC_player_position :: i32 where
  "PlayC_player_position = 0x48"

definition PlayC_recipe_book_remove :: i32 where
  "PlayC_recipe_book_remove = 0x4B"

definition PlayC_recipe_book_settings :: i32 where
  "PlayC_recipe_book_settings = 0x4C"

definition PlayC_player_rotation :: i32 where
  "PlayC_player_rotation = 0x49"

definition PlayC_remove_entities :: i32 where
  "PlayC_remove_entities = 0x4D"

definition PlayC_remove_mob_effect :: i32 where
  "PlayC_remove_mob_effect = 0x4E"

definition PlayC_reset_score :: i32 where
  "PlayC_reset_score = 0x4F"

definition PlayC_resource_pack_pop :: i32 where
  "PlayC_resource_pack_pop = 0x50"

definition PlayC_resource_pack_push :: i32 where
  "PlayC_resource_pack_push = 0x51"

definition PlayC_respawn :: i32 where
  "PlayC_respawn = 0x52"

definition PlayC_rotate_head :: i32 where
  "PlayC_rotate_head = 0x53"

definition PlayC_select_advancements_tab :: i32 where
  "PlayC_select_advancements_tab = 0x55"

definition PlayC_set_action_bar_text :: i32 where
  "PlayC_set_action_bar_text = 0x57"

definition PlayC_set_border_center :: i32 where
  "PlayC_set_border_center = 0x58"

definition PlayC_set_border_lerp_size :: i32 where
  "PlayC_set_border_lerp_size = 0x59"

definition PlayC_set_border_size :: i32 where
  "PlayC_set_border_size = 0x5A"

definition PlayC_set_border_warning_delay :: i32 where
  "PlayC_set_border_warning_delay = 0x5B"

definition PlayC_set_border_warning_distance :: i32 where
  "PlayC_set_border_warning_distance = 0x5C"

definition PlayC_set_camera :: i32 where
  "PlayC_set_camera = 0x5D"

definition PlayC_set_chunk_cache_center :: i32 where
  "PlayC_set_chunk_cache_center = 0x5E"

definition PlayC_set_chunk_cache_radius :: i32 where
  "PlayC_set_chunk_cache_radius = 0x5F"

definition PlayC_set_cursor_item :: i32 where
  "PlayC_set_cursor_item = 0x60"

definition PlayC_set_default_spawn_position :: i32 where
  "PlayC_set_default_spawn_position = 0x61"

definition PlayC_set_display_objective :: i32 where
  "PlayC_set_display_objective = 0x62"

definition PlayC_set_entity_data :: i32 where
  "PlayC_set_entity_data = 0x63"

definition PlayC_set_entity_link :: i32 where
  "PlayC_set_entity_link = 0x64"

definition PlayC_set_entity_motion :: i32 where
  "PlayC_set_entity_motion = 0x65"

definition PlayC_set_experience :: i32 where
  "PlayC_set_experience = 0x67"

definition PlayC_set_health :: i32 where
  "PlayC_set_health = 0x68"

definition PlayC_set_held_slot :: i32 where
  "PlayC_set_held_slot = 0x69"

definition PlayC_set_objective :: i32 where
  "PlayC_set_objective = 0x6A"

definition PlayC_set_passengers :: i32 where
  "PlayC_set_passengers = 0x6B"

definition PlayC_set_player_inventory :: i32 where
  "PlayC_set_player_inventory = 0x6C"

definition PlayC_set_player_team :: i32 where
  "PlayC_set_player_team = 0x6D"

definition PlayC_set_score :: i32 where
  "PlayC_set_score = 0x6E"

definition PlayC_set_subtitle_text :: i32 where
  "PlayC_set_subtitle_text = 0x70"

definition PlayC_set_time :: i32 where
  "PlayC_set_time = 0x71"

definition PlayC_set_title_text :: i32 where
  "PlayC_set_title_text = 0x72"

definition PlayC_set_titles_animation :: i32 where
  "PlayC_set_titles_animation = 0x73"

definition PlayC_sound_entity :: i32 where
  "PlayC_sound_entity = 0x74"

definition PlayC_sound :: i32 where
  "PlayC_sound = 0x75"

definition PlayC_stop_sound :: i32 where
  "PlayC_stop_sound = 0x77"

definition PlayC_system_chat :: i32 where
  "PlayC_system_chat = 0x79"

definition PlayC_tab_list :: i32 where
  "PlayC_tab_list = 0x7A"

definition PlayC_tag_query :: i32 where
  "PlayC_tag_query = 0x7B"

definition PlayC_take_item_entity :: i32 where
  "PlayC_take_item_entity = 0x7C"

definition PlayC_ticking_state :: i32 where
  "PlayC_ticking_state = 0x7F"

definition PlayC_ticking_step :: i32 where
  "PlayC_ticking_step = 0x80"

definition PlayC_update_advancements :: i32 where
  "PlayC_update_advancements = 0x82"

definition PlayC_update_attributes :: i32 where
  "PlayC_update_attributes = 0x83"

definition PlayC_update_mob_effect :: i32 where
  "PlayC_update_mob_effect = 0x84"

definition PlayC_custom_report_details :: i32 where
  "PlayC_custom_report_details = 0x88"

definition PlayC_server_links :: i32 where
  "PlayC_server_links = 0x89"

definition PlayC_projectile_power :: i32 where
  "PlayC_projectile_power = 0x87"

section \<open>Session and world\<close>

record statistic_entry =
  statistic_type_id :: i32
  statistic_value_id :: i32
  statistic_value :: i32

definition encode_login :: "bool \<Rightarrow> bytes result" where
  "encode_login hardcore = make_packet PlayC_login
     [emit write_i32_be 1,
      emit write_bool hardcore,
      emit write_varint 1,
      put write_string ''minecraft:overworld'',
      emit write_varint 20,
      emit write_varint 10,
      emit write_varint 10,
      emit write_bool False,
      emit write_bool True,
      emit write_bool False,
      emit write_varint 0,
      put write_string ''minecraft:overworld'',
      emit write_i64_be 0,
      emit write_u8 0,
      emit write_u8 0xFF,
      emit write_bool False,
      emit write_bool False,
      emit write_bool False,
      emit write_varint 0,
      emit write_varint 63,
      emit write_bool False,
      emit write_bool False]"

definition encode_award_stats :: "statistic_entry list \<Rightarrow> bytes result" where
  "encode_award_stats statistics = make_packet PlayC_award_stats
     [check (length statistics > 16384) (Length_Error ''statistics exceed limit''),
      emit write_varint (count_of statistics),
      each (\<lambda>statistic.
        [check (statistic_type_id statistic <s 0 \<or> 8 <s statistic_type_id statistic \<or>
            statistic_value_id statistic <s 0 \<or> statistic_value statistic <s 0)
           (Invalid_Argument ''statistic fields are invalid''),
         emit write_varint (statistic_type_id statistic),
         emit write_varint (statistic_value_id statistic),
         emit write_varint (statistic_value statistic)]) statistics]"

definition play_encode_keep_alive :: "i64 \<Rightarrow> bytes result" where
  "play_encode_keep_alive i = make_packet PlayC_keep_alive [emit write_i64_be i]"

definition encode_player_position :: "i32 \<Rightarrow> f64 \<Rightarrow> f64 \<Rightarrow> f64 \<Rightarrow> f32 \<Rightarrow> f32 \<Rightarrow> bytes result" where
  "encode_player_position teleport_id x y z yaw pitch = make_packet PlayC_player_position
     [emit write_varint teleport_id,
      emit write_f64_be x,
      emit write_f64_be y,
      emit write_f64_be z,
      emit write_f64_be 0,
      emit write_f64_be 0,
      emit write_f64_be 0,
      emit write_f32_be yaw,
      emit write_f32_be pitch,
      emit write_i32_be 0]"

definition encode_respawn :: "bool \<Rightarrow> u8 \<Rightarrow> i8 \<Rightarrow> bytes result" where
  "encode_respawn keep_all_data game_mode previous_game_mode = make_packet PlayC_respawn
     [check (game_mode > 3 \<or> previous_game_mode <s - 1 \<or> 3 <s previous_game_mode)
        (Invalid_Argument ''respawn game mode is invalid''),
      emit write_varint 0,
      put write_string ''minecraft:overworld'',
      emit write_i64_be 0,
      emit write_i8 game_mode,
      emit write_i8 previous_game_mode,
      emit write_bool False,
      emit write_bool False,
      emit write_bool False,
      emit write_varint 0,
      emit write_varint 63,
      emit write_i8 (if keep_all_data then 0x03 else 0x00)]"

definition encode_initialize_border ::
  "f64 \<Rightarrow> f64 \<Rightarrow> f64 \<Rightarrow> f64 \<Rightarrow> i64 \<Rightarrow> i32 \<Rightarrow> i32 \<Rightarrow> i32 \<Rightarrow> bytes result" where
  "encode_initialize_border center_x center_z old_size new_size lerp_time max_size
       warning_blocks warning_time = make_packet PlayC_initialize_border
     [check (\<not> f64_finite center_x \<or> \<not> f64_finite center_z \<or>
         \<not> f64_finite old_size \<or> \<not> f64_finite new_size \<or>
         f64_less old_size 0 \<or> f64_less new_size 0 \<or> lerp_time <s 0 \<or> max_size <s 0 \<or>
         warning_blocks <s 0 \<or> warning_time <s 0)
        (Invalid_Argument ''world border values are invalid''),
      emit write_f64_be center_x,
      emit write_f64_be center_z,
      emit write_f64_be old_size,
      emit write_f64_be new_size,
      emit write_varlong lerp_time,
      emit write_varint max_size,
      emit write_varint warning_blocks,
      emit write_varint warning_time]"

definition encode_player_abilities ::
  "bool \<Rightarrow> bool \<Rightarrow> bool \<Rightarrow> bool \<Rightarrow> f32 \<Rightarrow> f32 \<Rightarrow> bytes result" where
  "encode_player_abilities invulnerable flying can_fly instant_build flying_speed walking_speed =
     make_packet PlayC_player_abilities
     [check (\<not> f32_finite flying_speed \<or> \<not> f32_finite walking_speed \<or>
         f32_less flying_speed 0 \<or> f32_less walking_speed 0)
        (Invalid_Argument ''player ability speeds are invalid''),
      emit write_u8 ((if invulnerable then 0x01 else 0) OR (if flying then 0x02 else 0) OR
        (if can_fly then 0x04 else 0) OR (if instant_build then 0x08 else 0)),
      emit write_f32_be flying_speed,
      emit write_f32_be walking_speed]"

definition encode_move_vehicle :: "entity_vector \<Rightarrow> f32 \<Rightarrow> f32 \<Rightarrow> bytes result" where
  "encode_move_vehicle position yaw pitch = make_packet PlayC_move_vehicle
     [check (outside_world (vector_x position) (vector_y position) (vector_z position) \<or>
         \<not> f32_finite yaw \<or> \<not> f32_finite pitch)
        (Invalid_Argument ''vehicle correction fields are invalid''),
      emit write_f64_be (vector_x position),
      emit write_f64_be (vector_y position),
      emit write_f64_be (vector_z position),
      emit write_f32_be yaw,
      emit write_f32_be pitch]"

definition encode_set_camera :: "i32 \<Rightarrow> bytes result" where
  "encode_set_camera entity_id = make_packet PlayC_set_camera
     [check (entity_id <s 0) (Invalid_Argument ''camera entity ID is invalid''),
      emit write_varint entity_id]"

definition encode_border_center :: "f64 \<Rightarrow> f64 \<Rightarrow> bytes result" where
  "encode_border_center x z = make_packet PlayC_set_border_center
     [check (\<not> f64_finite x \<or> \<not> f64_finite z)
        (Invalid_Argument ''world border center is invalid''),
      emit write_f64_be x,
      emit write_f64_be z]"

definition encode_border_lerp_size :: "f64 \<Rightarrow> f64 \<Rightarrow> i64 \<Rightarrow> bytes result" where
  "encode_border_lerp_size old_size new_size lerp_time = make_packet PlayC_set_border_lerp_size
     [check (\<not> f64_finite old_size \<or> \<not> f64_finite new_size \<or>
         f64_less old_size 0 \<or> f64_less new_size 0 \<or> lerp_time <s 0)
        (Invalid_Argument ''world border lerp values are invalid''),
      emit write_f64_be old_size,
      emit write_f64_be new_size,
      emit write_varlong lerp_time]"

definition encode_border_size :: "f64 \<Rightarrow> bytes result" where
  "encode_border_size border_size = make_packet PlayC_set_border_size
     [check (\<not> f64_finite border_size \<or> f64_less border_size 0)
        (Invalid_Argument ''world border size is invalid''),
      emit write_f64_be border_size]"

definition encode_border_warning_delay :: "i32 \<Rightarrow> bytes result" where
  "encode_border_warning_delay warning_time = make_packet PlayC_set_border_warning_delay
     [check (warning_time <s 0) (Invalid_Argument ''border warning time is invalid''),
      emit write_varint warning_time]"

definition encode_border_warning_distance :: "i32 \<Rightarrow> bytes result" where
  "encode_border_warning_distance warning_blocks = make_packet PlayC_set_border_warning_distance
     [check (warning_blocks <s 0) (Invalid_Argument ''border warning distance is invalid''),
      emit write_varint warning_blocks]"

definition encode_chunk_cache_radius :: "i32 \<Rightarrow> bytes result" where
  "encode_chunk_cache_radius radius = make_packet PlayC_set_chunk_cache_radius
     [check (radius <s 2 \<or> 32 <s radius) (Invalid_Argument ''chunk cache radius is invalid''),
      emit write_varint radius]"

definition encode_experience :: "f32 \<Rightarrow> i32 \<Rightarrow> i32 \<Rightarrow> bytes result" where
  "encode_experience progress experience level = make_packet PlayC_set_experience
     [check (\<not> f32_finite progress \<or> f32_less progress 0 \<or> f32_less f32_one progress \<or>
         experience <s 0 \<or> level <s 0)
        (Invalid_Argument ''experience values are invalid''),
      emit write_f32_be progress,
      emit write_varint experience,
      emit write_varint level]"

definition encode_health :: "f32 \<Rightarrow> i32 \<Rightarrow> f32 \<Rightarrow> bytes result" where
  "encode_health health food saturation = make_packet PlayC_set_health
     [check (\<not> f32_finite health \<or> \<not> f32_finite saturation \<or> f32_less health 0 \<or>
         food <s 0 \<or> 20 <s food \<or> f32_less saturation 0)
        (Invalid_Argument ''health values are invalid''),
      emit write_f32_be health,
      emit write_varint food,
      emit write_f32_be saturation]"

definition encode_set_time :: "i64 \<Rightarrow> i64 \<Rightarrow> f32 \<Rightarrow> bytes result" where
  "encode_set_time game_time day_time rate = make_packet PlayC_set_time
     [check (game_time <s 0 \<or> day_time <s 0 \<or> \<not> f32_finite rate \<or> f32_less rate 0)
        (Invalid_Argument ''world time fields are invalid''),
      emit write_i64_be game_time,
      emit write_varint 1,
      emit write_varint 1,
      emit write_varlong day_time,
      emit write_f32_be 0,
      emit write_f32_be rate]"

definition encode_held_slot :: "i32 \<Rightarrow> bytes result" where
  "encode_held_slot slot = make_packet PlayC_set_held_slot
     [check (slot <s 0 \<or> 8 <s slot) (Invalid_Argument ''held slot is outside hotbar''),
      emit write_varint slot]"

definition write_literal_component :: "bytes \<Rightarrow> string \<Rightarrow> bytes result" where
  "write_literal_component output str = write_any_tag component_limits output (string_tag str)"

definition encode_literal_component_packet :: "i32 \<Rightarrow> string \<Rightarrow> bytes result" where
  "encode_literal_component_packet packet_id str =
     make_packet packet_id [put write_literal_component str]"

definition encode_clear_titles :: "bool \<Rightarrow> bytes result" where
  "encode_clear_titles reset_times = make_packet PlayC_clear_titles [emit write_bool reset_times]"

definition encode_block_changed_ack :: "i32 \<Rightarrow> bytes result" where
  "encode_block_changed_ack sequence = make_packet PlayC_block_changed_ack
     [check (sequence <s 0) (Invalid_Argument ''block sequence must not be negative''),
      emit write_varint sequence]"

definition encode_block_destruction :: "i32 \<Rightarrow> block_position \<Rightarrow> i32 \<Rightarrow> bytes result" where
  "encode_block_destruction breaker_id position progress = make_packet PlayC_block_destruction
     [check (breaker_id <s 0 \<or> progress <s - 1 \<or> 10 <s progress)
        (Invalid_Argument ''block destruction progress is invalid''),
      emit write_varint breaker_id,
      put write_position position,
      emit write_u8 (ucast progress)]"

definition encode_block_event :: "block_position \<Rightarrow> u8 \<Rightarrow> u8 \<Rightarrow> i32 \<Rightarrow> bytes result" where
  "encode_block_event position first second block_id = make_packet PlayC_block_event
     [check (block_id <s 0 \<or> 1196 \<le>s block_id)
        (Invalid_Argument ''block event registry ID is invalid''),
      put write_position position,
      emit write_u8 first,
      emit write_u8 second,
      emit write_varint block_id]"

definition encode_block_update :: "block_position \<Rightarrow> i32 \<Rightarrow> bytes result" where
  "encode_block_update position block_state_id = make_packet PlayC_block_update
     [check (block_state_id <s 0 \<or> 32365 <s block_state_id)
        (Invalid_Argument ''block state ID is invalid''),
      put write_position position,
      emit write_varint block_state_id]"

definition encode_game_rule_values :: "(string \<times> string) list \<Rightarrow> bytes result" where
  "encode_game_rule_values rules = make_packet PlayC_game_rule_values
     [check (length rules > 1024) (Length_Error ''game-rule map exceeds limit''),
      emit write_varint (count_of rules),
      each (\<lambda>(key, rule). [put write_identifier key, put write_string rule]) rules]"

definition encode_game_event :: "u8 \<Rightarrow> f32 \<Rightarrow> bytes result" where
  "encode_game_event event parameter = make_packet PlayC_game_event
     [check (event > 13 \<or> \<not> f32_finite parameter)
        (Invalid_Argument ''game event fields are invalid''),
      emit write_u8 event,
      emit write_f32_be parameter]"

definition encode_level_event :: "i32 \<Rightarrow> block_position \<Rightarrow> i32 \<Rightarrow> bool \<Rightarrow> bytes result" where
  "encode_level_event type position event_data global_event = make_packet PlayC_level_event
     [emit write_i32_be type,
      put write_position position,
      emit write_i32_be event_data,
      emit write_bool global_event]"

record particle_options =
  particle_type_id :: i32
  particle_data :: bytes

definition encode_level_particles ::
  "particle_options \<Rightarrow> bool \<Rightarrow> bool \<Rightarrow> entity_vector \<Rightarrow> f32 \<Rightarrow> f32 \<Rightarrow> f32 \<Rightarrow> f32 \<Rightarrow> i32 \<Rightarrow> bytes result" where
  "encode_level_particles particle override_limiter always_show position offset_x offset_y offset_z
       max_speed count = make_packet PlayC_level_particles
     [check (particle_type_id particle <s 0 \<or> 125 \<le>s particle_type_id particle \<or>
         length (particle_data particle) > 1024 \<or> count <s 0 \<or> 1000000 <s count \<or>
         \<not> f64_finite (vector_x position) \<or> \<not> f64_finite (vector_y position) \<or>
         \<not> f64_finite (vector_z position) \<or> \<not> f32_finite offset_x \<or>
         \<not> f32_finite offset_y \<or> \<not> f32_finite offset_z \<or> \<not> f32_finite max_speed)
        (Invalid_Argument ''level particle fields are invalid''),
      emit write_bool override_limiter,
      emit write_bool always_show,
      emit write_f64_be (vector_x position),
      emit write_f64_be (vector_y position),
      emit write_f64_be (vector_z position),
      emit write_f32_be offset_x,
      emit write_f32_be offset_y,
      emit write_f32_be offset_z,
      emit write_f32_be max_speed,
      emit write_i32_be count,
      emit write_varint (particle_type_id particle),
      emit append_bytes (particle_data particle)]"

definition encode_hurt_animation :: "i32 \<Rightarrow> f32 \<Rightarrow> bytes result" where
  "encode_hurt_animation entity_id yaw = make_packet PlayC_hurt_animation
     [check (entity_id <s 0 \<or> \<not> f32_finite yaw)
        (Invalid_Argument ''hurt animation fields are invalid''),
      emit write_varint entity_id,
      emit write_f32_be yaw]"

definition encode_change_difficulty :: "u8 \<Rightarrow> bool \<Rightarrow> bytes result" where
  "encode_change_difficulty level locked = make_packet PlayC_change_difficulty
     [check (level > 3) (Invalid_Argument ''difficulty ID is invalid''),
      emit write_varint (ucast level),
      emit write_bool locked]"

definition encode_game_test_highlight :: "block_position \<Rightarrow> block_position \<Rightarrow> bytes result" where
  "encode_game_test_highlight absolute relative = make_packet PlayC_game_test_highlight_pos
     [put write_position absolute, put write_position relative]"

definition play_encode_ping :: "i32 \<Rightarrow> bytes result" where
  "play_encode_ping i = make_packet PlayC_ping [emit write_i32_be i]"

definition encode_player_rotation :: "f32 \<Rightarrow> bool \<Rightarrow> f32 \<Rightarrow> bool \<Rightarrow> bytes result" where
  "encode_player_rotation yaw relative_yaw pitch relative_pitch = make_packet PlayC_player_rotation
     [check (\<not> f32_finite yaw \<or> \<not> f32_finite pitch)
        (Invalid_Argument ''player rotation is non-finite''),
      emit write_f32_be yaw,
      emit write_bool relative_yaw,
      emit write_f32_be pitch,
      emit write_bool relative_pitch]"

definition encode_select_advancements_tab :: "string option \<Rightarrow> bytes result" where
  "encode_select_advancements_tab tab = make_packet PlayC_select_advancements_tab
     [put (write_optional write_identifier) tab]"

definition encode_ticking_state :: "f32 \<Rightarrow> bool \<Rightarrow> bytes result" where
  "encode_ticking_state tick_rate frozen = make_packet PlayC_ticking_state
     [check (\<not> f32_finite tick_rate \<or> f32_le tick_rate 0) (Invalid_Argument ''tick rate is invalid''),
      emit write_f32_be tick_rate,
      emit write_bool frozen]"

definition encode_ticking_step :: "i32 \<Rightarrow> bytes result" where
  "encode_ticking_step steps = make_packet PlayC_ticking_step
     [check (steps <s 0) (Invalid_Argument ''tick steps must not be negative''),
      emit write_varint steps]"

definition encode_projectile_power :: "i32 \<Rightarrow> f64 \<Rightarrow> bytes result" where
  "encode_projectile_power entity_id strength = make_packet PlayC_projectile_power
     [check (entity_id <s 0 \<or> \<not> f64_finite strength \<or> f64_less strength 0)
        (Invalid_Argument ''projectile power fields are invalid''),
      emit write_varint entity_id,
      emit write_f64_be strength]"

section \<open>Sounds\<close>

definition write_sound_header :: "i32 \<Rightarrow> u8 \<Rightarrow> writer" where
  "write_sound_header sound_id source = write_all
     [check (sound_id <s 0 \<or> 1968 \<le>s sound_id \<or> source > 9)
        (Invalid_Argument ''sound registry or source ID is invalid''),
      emit write_varint (sound_id + 1),
      emit write_varint (ucast source)]"

definition validate_sound_values :: "f32 \<Rightarrow> f32 \<Rightarrow> writer" where
  "validate_sound_values volume pitch =
     check (\<not> f32_finite volume \<or> \<not> f32_finite pitch \<or> f32_less volume 0 \<or> f32_less pitch 0)
       (Invalid_Argument ''sound volume or pitch is invalid'')"

definition encode_sound_entity :: "i32 \<Rightarrow> u8 \<Rightarrow> i32 \<Rightarrow> f32 \<Rightarrow> f32 \<Rightarrow> i64 \<Rightarrow> bytes result" where
  "encode_sound_entity sound_id source entity_id volume pitch seed_value = make_packet PlayC_sound_entity
     [check (entity_id <s 0) (Invalid_Argument ''sound entity ID is invalid''),
      validate_sound_values volume pitch,
      write_sound_header sound_id source,
      emit write_varint entity_id,
      emit write_f32_be volume,
      emit write_f32_be pitch,
      emit write_i64_be seed_value]"

text \<open>
  \<open>numeric_limits<int32_t>::min() / 8.0\<close> and \<open>max() / 8.0\<close>, which are exact, and
  the cast of \<open>std::floor\<close> to 32 bits of the lambda \<open>coordinate\<close>.
\<close>

definition write_sound_coordinate :: "f64 \<Rightarrow> writer" where
  "write_sound_coordinate v = write_all
     [check (\<not> f64_finite v \<or> f64_less v 0xC1B0000000000000 \<or> f64_less 0x41AFFFFFFFC00000 v)
        (Invalid_Argument ''sound position is outside packet range''),
      emit write_i32_be (word_of_int (f64_floor (f64_mul v 0x4020000000000000)))]"

definition encode_sound :: "i32 \<Rightarrow> u8 \<Rightarrow> entity_vector \<Rightarrow> f32 \<Rightarrow> f32 \<Rightarrow> i64 \<Rightarrow> bytes result" where
  "encode_sound sound_id source position volume pitch seed_value = make_packet PlayC_sound
     [validate_sound_values volume pitch,
      write_sound_header sound_id source,
      write_sound_coordinate (vector_x position),
      write_sound_coordinate (vector_y position),
      write_sound_coordinate (vector_z position),
      emit write_f32_be volume,
      emit write_f32_be pitch,
      emit write_i64_be seed_value]"

text \<open>The writes a C++ \<open>if\<close> over an optional guards.\<close>

definition when_some :: "('a \<Rightarrow> writer list) \<Rightarrow> 'a option \<Rightarrow> writer" where
  "when_some f v = (case v of None \<Rightarrow> write_all [] | Some x \<Rightarrow> write_all (f x))"

definition encode_stop_sound :: "u8 option \<Rightarrow> string option \<Rightarrow> bytes result" where
  "encode_stop_sound source sound_name = make_packet PlayC_stop_sound
     [check (case source of None \<Rightarrow> False | Some s \<Rightarrow> s > 9) (Invalid_Argument ''sound source is invalid''),
      emit write_u8 ((if source \<noteq> None then 1 else 0) OR (if sound_name \<noteq> None then 2 else 0)),
      when_some (\<lambda>s. [emit write_varint (ucast s)]) source,
      when_some (\<lambda>n. [put write_identifier n]) sound_name]"

section \<open>Rotations and movement\<close>

text \<open>\<open>degrees * 256.0F / 360.0F\<close>, floored, cut to eight bits.\<close>

definition write_degrees :: "f32 \<Rightarrow> writer" where
  "write_degrees degrees = write_all
     [check (\<not> f32_finite degrees) (Invalid_Argument ''entity rotation is non-finite''),
      emit write_u8 (word_of_int (f32_floor (f32_div (f32_mul degrees 0x43800000) 0x43B40000)))]"

text \<open>\<open>sanitize\<close> clamps to \<open>17179869183.0\<close> and makes a NaN zero.\<close>

definition lp_sanitize :: "f64 \<Rightarrow> f64" where
  "lp_sanitize v =
     (if f64_nan v then 0
      else if f64_less v 0xC20FFFFFFFF80000 then 0xC20FFFFFFFF80000
      else if f64_less 0x420FFFFFFFF80000 v then 0x420FFFFFFFF80000 else v)"

definition f64_max :: "f64 \<Rightarrow> f64 \<Rightarrow> f64" where
  "f64_max a b = (if f64_less a b then b else a)"

definition lp_pack :: "u64 \<Rightarrow> f64 \<Rightarrow> u64" where
  "lp_pack scale component =
     word_of_int (f64_llround (f64_mul
       (f64_add (f64_mul (f64_div component (f64_of_int (uint scale))) 0x3FE0000000000000)
         0x3FE0000000000000)
       0x40DFFF8000000000))"

definition write_lp_vector :: "bytes \<Rightarrow> entity_vector \<Rightarrow> bytes" where
  "write_lp_vector output v =
     (let x = lp_sanitize (vector_x v); y = lp_sanitize (vector_y v); z = lp_sanitize (vector_z v);
          absolute_max = f64_max (f64_max (f64_abs x) (f64_abs y)) (f64_abs z)
      in if f64_less absolute_max 0x3F00004001000400 then write_u8 output 0
      else
        let scale = word_of_int (f64_ceil absolute_max) :: u64;
            continuation = (scale AND 3 \<noteq> scale);
            packed = (if continuation then scale AND 3 OR 4 else scale) OR
              push_bit 3 (lp_pack scale x) OR push_bit 18 (lp_pack scale y) OR
              push_bit 33 (lp_pack scale z);
            output = write_u8 output (ucast packed);
            output = write_u8 output (ucast (drop_bit 8 packed));
            output = write_i32_be output (ucast (drop_bit 16 packed))
        in if continuation then write_varint output (ucast (drop_bit 2 scale)) else output)"

definition pack_entity_delta :: "f64 \<Rightarrow> i16 result" where
  "pack_entity_delta delta =
     (if \<not> f64_finite delta \<or> f64_less delta 0xC020000000000000 \<or> f64_le 0x4020000000000000 delta
      then Inl (Invalid_Argument ''relative entity movement exceeds packet range'')
      else Inr (word_of_int (f64_llround (f64_mul delta 0x40B0000000000000))))"

definition write_packed_delta :: "bytes \<Rightarrow> f64 \<Rightarrow> bytes result" where
  "write_packed_delta output delta =
     bindR (pack_entity_delta delta) (\<lambda>packed. Inr (write_i16_be output packed))"

definition write_entity_delta :: "entity_vector \<Rightarrow> writer" where
  "write_entity_delta delta = write_all
     [put write_packed_delta (vector_x delta),
      put write_packed_delta (vector_y delta),
      put write_packed_delta (vector_z delta)]"

definition validate_entity_id :: "i32 \<Rightarrow> writer" where
  "validate_entity_id entity_id =
     check (entity_id <s 0) (Invalid_Argument ''entity ID must not be negative'')"

section \<open>Entities\<close>

record entity_spawn =
  spawn_id :: i32
  spawn_uuid :: uuid
  spawn_type :: i32
  spawn_position :: entity_vector
  spawn_movement :: entity_vector
  spawn_pitch :: f32
  spawn_yaw :: f32
  spawn_head_yaw :: f32
  spawn_data :: i32

definition finite_vector :: "entity_vector \<Rightarrow> bool" where
  "finite_vector v = (f64_finite (vector_x v) \<and> f64_finite (vector_y v) \<and> f64_finite (vector_z v))"

definition encode_add_entity :: "entity_spawn \<Rightarrow> bytes result" where
  "encode_add_entity entity = make_packet PlayC_add_entity
     [validate_entity_id (spawn_id entity),
      check (spawn_type entity <s 0 \<or> \<not> finite_vector (spawn_position entity))
        (Invalid_Argument ''entity spawn fields are invalid''),
      emit write_varint (spawn_id entity),
      emit write_uuid (spawn_uuid entity),
      emit write_varint (spawn_type entity),
      emit write_f64_be (vector_x (spawn_position entity)),
      emit write_f64_be (vector_y (spawn_position entity)),
      emit write_f64_be (vector_z (spawn_position entity)),
      emit write_lp_vector (spawn_movement entity),
      write_degrees (spawn_pitch entity),
      write_degrees (spawn_yaw entity),
      write_degrees (spawn_head_yaw entity),
      emit write_varint (spawn_data entity)]"

definition encode_animate :: "i32 \<Rightarrow> u8 \<Rightarrow> bytes result" where
  "encode_animate entity_id action = make_packet PlayC_animate
     [validate_entity_id entity_id,
      emit write_varint entity_id,
      emit write_u8 action]"

definition encode_entity_event :: "i32 \<Rightarrow> i8 \<Rightarrow> bytes result" where
  "encode_entity_event entity_id event_id = make_packet PlayC_entity_event
     [validate_entity_id entity_id,
      emit write_i32_be entity_id,
      emit write_i8 event_id]"

definition encode_entity_position_sync ::
  "i32 \<Rightarrow> entity_vector \<Rightarrow> entity_vector \<Rightarrow> f32 \<Rightarrow> f32 \<Rightarrow> bool \<Rightarrow> bytes result" where
  "encode_entity_position_sync entity_id position movement yaw pitch on_ground =
     make_packet PlayC_entity_position_sync
     [validate_entity_id entity_id,
      check (\<not> finite_vector position \<or> \<not> finite_vector movement \<or>
          \<not> f32_finite yaw \<or> \<not> f32_finite pitch)
        (Invalid_Argument ''entity synchronization values are non-finite''),
      emit write_varint entity_id,
      emit write_f64_be (vector_x position),
      emit write_f64_be (vector_y position),
      emit write_f64_be (vector_z position),
      emit write_f64_be (vector_x movement),
      emit write_f64_be (vector_y movement),
      emit write_f64_be (vector_z movement),
      emit write_f32_be yaw,
      emit write_f32_be pitch,
      emit write_bool on_ground]"

definition encode_move_entity_position :: "i32 \<Rightarrow> entity_vector \<Rightarrow> bool \<Rightarrow> bytes result" where
  "encode_move_entity_position entity_id delta on_ground = make_packet PlayC_move_entity_pos
     [validate_entity_id entity_id,
      emit write_varint entity_id,
      write_entity_delta delta,
      emit write_bool on_ground]"

definition encode_move_entity_position_rotation ::
  "i32 \<Rightarrow> entity_vector \<Rightarrow> f32 \<Rightarrow> f32 \<Rightarrow> bool \<Rightarrow> bytes result" where
  "encode_move_entity_position_rotation entity_id delta yaw pitch on_ground =
     make_packet PlayC_move_entity_pos_rot
     [validate_entity_id entity_id,
      emit write_varint entity_id,
      write_entity_delta delta,
      write_degrees yaw,
      write_degrees pitch,
      emit write_bool on_ground]"

definition encode_move_entity_rotation :: "i32 \<Rightarrow> f32 \<Rightarrow> f32 \<Rightarrow> bool \<Rightarrow> bytes result" where
  "encode_move_entity_rotation entity_id yaw pitch on_ground = make_packet PlayC_move_entity_rot
     [validate_entity_id entity_id,
      emit write_varint entity_id,
      write_degrees yaw,
      write_degrees pitch,
      emit write_bool on_ground]"

definition encode_remove_entities :: "i32 list \<Rightarrow> bytes result" where
  "encode_remove_entities entity_ids = make_packet PlayC_remove_entities
     [check (length entity_ids > 65536) (Length_Error ''entity removal list exceeds limit''),
      emit write_varint (count_of entity_ids),
      each (\<lambda>entity_id. [validate_entity_id entity_id, emit write_varint entity_id]) entity_ids]"

definition encode_rotate_head :: "i32 \<Rightarrow> f32 \<Rightarrow> bytes result" where
  "encode_rotate_head entity_id head_yaw = make_packet PlayC_rotate_head
     [validate_entity_id entity_id,
      emit write_varint entity_id,
      write_degrees head_yaw]"

definition encode_entity_link :: "i32 \<Rightarrow> i32 \<Rightarrow> bytes result" where
  "encode_entity_link source_id destination_id = make_packet PlayC_set_entity_link
     [validate_entity_id source_id,
      emit write_i32_be source_id,
      emit write_i32_be destination_id]"

definition encode_entity_motion :: "i32 \<Rightarrow> entity_vector \<Rightarrow> bytes result" where
  "encode_entity_motion entity_id movement = make_packet PlayC_set_entity_motion
     [validate_entity_id entity_id,
      emit write_varint entity_id,
      emit write_lp_vector movement]"

definition encode_passengers :: "i32 \<Rightarrow> i32 list \<Rightarrow> bytes result" where
  "encode_passengers vehicle_id passengers = make_packet PlayC_set_passengers
     [validate_entity_id vehicle_id,
      check (length passengers > 1024) (Length_Error ''passenger list exceeds limit''),
      emit write_varint vehicle_id,
      emit write_varint (count_of passengers),
      each (\<lambda>passenger. [validate_entity_id passenger, emit write_varint passenger]) passengers]"

definition encode_take_item_entity :: "i32 \<Rightarrow> i32 \<Rightarrow> i32 \<Rightarrow> bytes result" where
  "encode_take_item_entity item_id player_id amount = make_packet PlayC_take_item_entity
     [validate_entity_id item_id,
      validate_entity_id player_id,
      check (amount <s 0) (Invalid_Argument ''taken item amount must not be negative''),
      emit write_varint item_id,
      emit write_varint player_id,
      emit write_varint amount]"

section \<open>Texts and resources\<close>

definition play_encode_cookie_request :: "string \<Rightarrow> bytes result" where
  "play_encode_cookie_request key = encode_cookie_request PlayC_cookie_request key"

definition play_encode_custom_payload :: "string \<Rightarrow> bytes \<Rightarrow> bytes result" where
  "play_encode_custom_payload channel payload = make_packet PlayC_custom_payload
     [check (length payload > 1024 * 1024) (Length_Error ''Play custom payload exceeds limit''),
      put write_identifier channel,
      emit append_bytes payload]"

definition play_encode_disconnect_text :: "string \<Rightarrow> bytes result" where
  "play_encode_disconnect_text str = encode_literal_component_packet PlayC_disconnect str"

definition encode_pong_response :: "i64 \<Rightarrow> bytes result" where
  "encode_pong_response time = make_packet PlayC_pong_response [emit write_i64_be time]"

definition play_encode_resource_pack_pop :: "uuid option \<Rightarrow> bytes result" where
  "play_encode_resource_pack_pop i = make_packet PlayC_resource_pack_pop
     [put (write_optional (\<lambda>output v. Inr (write_uuid output v))) i]"

definition play_encode_resource_pack_push :: "uuid \<Rightarrow> string \<Rightarrow> string \<Rightarrow> bool \<Rightarrow> bytes result" where
  "play_encode_resource_pack_push i url hash required = make_packet PlayC_resource_pack_push
     [check (length url > 32767 \<or> length hash > 40)
        (Length_Error ''Play resource pack field exceeds limit''),
      emit write_uuid i,
      put write_string url,
      put write_string hash,
      emit write_bool required,
      emit write_bool False]"

definition encode_action_bar_text :: "string \<Rightarrow> bytes result" where
  "encode_action_bar_text str = encode_literal_component_packet PlayC_set_action_bar_text str"

definition encode_subtitle_text :: "string \<Rightarrow> bytes result" where
  "encode_subtitle_text str = encode_literal_component_packet PlayC_set_subtitle_text str"

definition encode_title_text :: "string \<Rightarrow> bytes result" where
  "encode_title_text str = encode_literal_component_packet PlayC_set_title_text str"

definition encode_titles_animation :: "i32 \<Rightarrow> i32 \<Rightarrow> i32 \<Rightarrow> bytes result" where
  "encode_titles_animation fade_in stay fade_out = make_packet PlayC_set_titles_animation
     [check (fade_in <s 0 \<or> stay <s 0 \<or> fade_out <s 0)
        (Invalid_Argument ''title animation times must not be negative''),
      emit write_i32_be fade_in,
      emit write_i32_be stay,
      emit write_i32_be fade_out]"

definition encode_system_chat :: "string \<Rightarrow> bool \<Rightarrow> bytes result" where
  "encode_system_chat str overlay = make_packet PlayC_system_chat
     [put write_literal_component str, emit write_bool overlay]"

definition encode_tab_list :: "string \<Rightarrow> string \<Rightarrow> bytes result" where
  "encode_tab_list header footer = make_packet PlayC_tab_list
     [put write_literal_component header, put write_literal_component footer]"

definition play_encode_custom_report_details :: "(string \<times> string) list \<Rightarrow> bytes result" where
  "play_encode_custom_report_details details = make_packet PlayC_custom_report_details
     [check (length details > 32) (Length_Error ''Play report details exceed limit''),
      emit write_varint (count_of details),
      each (\<lambda>(title, description).
        [check (length title > 128 \<or> length description > 4096)
           (Length_Error ''Play report detail field exceeds limit''),
         put write_string title,
         put write_string description]) details]"

definition play_encode_empty_server_links :: "bytes result" where
  "play_encode_empty_server_links = make_packet PlayC_server_links [emit write_varint 0]"

section \<open>Containers\<close>

definition write_simple_item_stack :: "simple_item_stack \<Rightarrow> writer" where
  "write_simple_item_stack item = write_all
     ([check (simple_count item <s 0 \<or> 99 <s simple_count item \<or> simple_item_id item <s 0 \<or>
          1538 \<le>s simple_item_id item)
         (Invalid_Argument ''simple item stack is out of bounds''),
       emit write_varint (simple_count item)] @
      (if simple_empty item then []
       else [emit write_varint (simple_item_id item), emit write_varint 0, emit write_varint 0]))"

definition validate_container_id :: "i32 \<Rightarrow> writer" where
  "validate_container_id container_id =
     check (container_id <s 0) (Invalid_Argument ''container ID must not be negative'')"

definition encode_container_close :: "i32 \<Rightarrow> bytes result" where
  "encode_container_close container_id = make_packet PlayC_container_close
     [validate_container_id container_id, emit write_varint container_id]"

definition encode_container_content ::
  "i32 \<Rightarrow> i32 \<Rightarrow> simple_item_stack list \<Rightarrow> simple_item_stack \<Rightarrow> bytes result" where
  "encode_container_content container_id state_id items carried =
     make_packet PlayC_container_set_content
     [validate_container_id container_id,
      check (state_id <s 0 \<or> length items > 1024)
        (Invalid_Argument ''container content state or size is invalid''),
      emit write_varint container_id,
      emit write_varint state_id,
      emit write_varint (count_of items),
      each (\<lambda>item. [write_simple_item_stack item]) items,
      write_simple_item_stack carried]"

definition encode_container_data :: "i32 \<Rightarrow> i16 \<Rightarrow> i16 \<Rightarrow> bytes result" where
  "encode_container_data container_id data_id data_value = make_packet PlayC_container_set_data
     [validate_container_id container_id,
      emit write_varint container_id,
      emit write_i16_be data_id,
      emit write_i16_be data_value]"

definition encode_container_slot :: "i32 \<Rightarrow> i32 \<Rightarrow> i16 \<Rightarrow> simple_item_stack \<Rightarrow> bytes result" where
  "encode_container_slot container_id state_id slot item = make_packet PlayC_container_set_slot
     [validate_container_id container_id,
      check (state_id <s 0) (Invalid_Argument ''container state ID is invalid''),
      emit write_varint container_id,
      emit write_varint state_id,
      emit write_i16_be slot,
      write_simple_item_stack item]"

definition encode_open_book :: "u8 \<Rightarrow> bytes result" where
  "encode_open_book hand = make_packet PlayC_open_book
     [check (hand > 1) (Invalid_Argument ''book hand is invalid''),
      emit write_varint (ucast hand)]"

definition encode_open_screen :: "i32 \<Rightarrow> i32 \<Rightarrow> string \<Rightarrow> bytes result" where
  "encode_open_screen container_id menu_type title = make_packet PlayC_open_screen
     [validate_container_id container_id,
      check (menu_type <s 0) (Invalid_Argument ''menu type ID is invalid''),
      emit write_varint container_id,
      emit write_varint menu_type,
      put write_literal_component title]"

definition encode_open_sign_editor :: "block_position \<Rightarrow> bool \<Rightarrow> bytes result" where
  "encode_open_sign_editor position front_text = make_packet PlayC_open_sign_editor
     [put write_position position, emit write_bool front_text]"

definition encode_cursor_item :: "simple_item_stack \<Rightarrow> bytes result" where
  "encode_cursor_item item = make_packet PlayC_set_cursor_item [write_simple_item_stack item]"

definition encode_player_inventory :: "i32 \<Rightarrow> simple_item_stack \<Rightarrow> bytes result" where
  "encode_player_inventory slot item = make_packet PlayC_set_player_inventory
     [check (slot <s 0) (Invalid_Argument ''player inventory slot is invalid''),
      emit write_varint slot,
      write_simple_item_stack item]"

section \<open>Players and scores\<close>

definition encode_player_info_remove :: "uuid list \<Rightarrow> bytes result" where
  "encode_player_info_remove profile_ids = make_packet PlayC_player_info_remove
     [check (length profile_ids > 1024) (Length_Error ''player removal list exceeds limit''),
      emit write_varint (count_of profile_ids),
      each (\<lambda>profile_id. [emit write_uuid profile_id]) profile_ids]"

definition encode_player_info_initialize ::
  "game_profile \<Rightarrow> u8 \<Rightarrow> bool \<Rightarrow> i32 \<Rightarrow> i32 \<Rightarrow> bool \<Rightarrow> bytes result" where
  "encode_player_info_initialize profile game_mode listed latency list_order show_hat =
     make_packet PlayC_player_info_update
     [check (length (profile_name profile) > 16 \<or> length (profile_properties profile) > 16 \<or>
         game_mode > 3 \<or> latency <s 0 \<or> list_order <s 0)
        (Invalid_Argument ''player info initialization fields are invalid''),
      emit write_u8 0xFF,
      emit write_varint 1,
      emit write_uuid (profile_id profile),
      put write_string (profile_name profile),
      emit write_varint (count_of (profile_properties profile)),
      each (\<lambda>property.
        [check (length (property_name property) > 64 \<or> length (property_value property) > 32767 \<or>
            (case property_signature property of None \<Rightarrow> False | Some s \<Rightarrow> length s > 1024))
           (Length_Error ''player info profile property exceeds limit''),
         put write_string (property_name property),
         put write_string (property_value property),
         put (write_optional write_string) (property_signature property)])
        (profile_properties profile),
      emit write_bool False,
      emit write_varint (ucast game_mode),
      emit write_bool listed,
      emit write_varint latency,
      emit write_bool False,
      emit write_varint list_order,
      emit write_bool show_hat]"

definition encode_reset_score :: "string \<Rightarrow> string option \<Rightarrow> bytes result" where
  "encode_reset_score owner objective = make_packet PlayC_reset_score
     [put write_string owner, put (write_optional write_string) objective]"

definition encode_display_objective :: "u8 \<Rightarrow> string \<Rightarrow> bytes result" where
  "encode_display_objective slot objective = make_packet PlayC_set_display_objective
     [check (slot > 18) (Invalid_Argument ''scoreboard display slot is invalid''),
      emit write_varint (ucast slot),
      put write_string objective]"

datatype objective_method = Objective_Add | Objective_Remove | Objective_Change

primrec objective_method_id :: "objective_method \<Rightarrow> u8" where
  "objective_method_id Objective_Add = 0"
| "objective_method_id Objective_Remove = 1"
| "objective_method_id Objective_Change = 2"

datatype objective_render_type = Render_Integer | Render_Hearts

primrec objective_render_type_id :: "objective_render_type \<Rightarrow> i32" where
  "objective_render_type_id Render_Integer = 0"
| "objective_render_type_id Render_Hearts = 1"

definition encode_objective ::
  "string \<Rightarrow> objective_method \<Rightarrow> string \<Rightarrow> objective_render_type \<Rightarrow> bytes result" where
  "encode_objective name method display_name render_type = make_packet PlayC_set_objective
     ([put write_string name, emit write_u8 (objective_method_id method)] @
      (if method = Objective_Add \<or> method = Objective_Change
       then [put write_literal_component display_name,
             emit write_varint (objective_render_type_id render_type),
             emit write_bool False]
       else []))"

definition encode_score :: "string \<Rightarrow> string \<Rightarrow> i32 \<Rightarrow> string option \<Rightarrow> bytes result" where
  "encode_score owner objective score display = make_packet PlayC_set_score
     [put write_string owner,
      put write_string objective,
      emit write_varint score,
      put (write_optional write_literal_component) display,
      emit write_bool False]"

record team_parameters =
  team_display_name :: string
  team_prefix :: string
  team_suffix :: string
  name_tag_visibility :: u8
  collision_rule :: u8
  team_options :: u8

definition encode_team :: "string \<Rightarrow> u8 \<Rightarrow> team_parameters option \<Rightarrow> string list \<Rightarrow> bytes result" where
  "encode_team name method parameters players =
     (let has_parameters = (method = 0 \<or> method = 2);
          has_players = (method = 0 \<or> method = 3 \<or> method = 4)
      in make_packet PlayC_set_player_team
     [check (method > 4) (Invalid_Argument ''team method is invalid''),
      check (has_parameters \<noteq> (parameters \<noteq> None) \<or> (\<not> has_players \<and> players \<noteq> []) \<or>
          length players > 1024)
        (Invalid_Argument ''team packet fields do not match method''),
      put write_string name,
      emit write_u8 method,
      when_some (\<lambda>team.
        [check (name_tag_visibility team > 3 \<or> collision_rule team > 3)
           (Invalid_Argument ''team parameter enum is invalid''),
         put write_literal_component (team_display_name team),
         put write_literal_component (team_prefix team),
         put write_literal_component (team_suffix team),
         emit write_varint (ucast (name_tag_visibility team)),
         emit write_varint (ucast (collision_rule team)),
         emit write_bool False,
         emit write_u8 (team_options team)]) parameters,
      write_all (if has_players
        then [emit write_varint (count_of players), each (\<lambda>player. [put write_string player]) players]
        else [])])"

section \<open>Attributes and effects\<close>

record attribute_modifier =
  modifier_id :: string
  modifier_amount :: f64
  modifier_operation :: u8

record attribute_snapshot =
  attribute_id :: i32
  attribute_base :: f64
  attribute_modifiers :: "attribute_modifier list"

definition encode_update_attributes :: "i32 \<Rightarrow> attribute_snapshot list \<Rightarrow> bytes result" where
  "encode_update_attributes entity_id attributes = make_packet PlayC_update_attributes
     [check (entity_id <s 0 \<or> length attributes > 128)
        (Invalid_Argument ''attribute update entity or count is invalid''),
      emit write_varint entity_id,
      emit write_varint (count_of attributes),
      each (\<lambda>attribute.
        [check (attribute_id attribute <s 0 \<or> 40 \<le>s attribute_id attribute \<or>
            \<not> f64_finite (attribute_base attribute) \<or> length (attribute_modifiers attribute) > 1024)
           (Invalid_Argument ''attribute snapshot is invalid''),
         emit write_varint (attribute_id attribute + 1),
         emit write_f64_be (attribute_base attribute),
         emit write_varint (count_of (attribute_modifiers attribute)),
         each (\<lambda>modifier.
           [check (\<not> f64_finite (modifier_amount modifier) \<or> modifier_operation modifier > 2)
              (Invalid_Argument ''attribute modifier is invalid''),
            put write_identifier (modifier_id modifier),
            emit write_f64_be (modifier_amount modifier),
            emit write_varint (ucast (modifier_operation modifier))])
           (attribute_modifiers attribute)]) attributes]"

definition encode_update_mob_effect ::
  "i32 \<Rightarrow> i32 \<Rightarrow> i32 \<Rightarrow> i32 \<Rightarrow> bool \<Rightarrow> bool \<Rightarrow> bool \<Rightarrow> bool \<Rightarrow> bytes result" where
  "encode_update_mob_effect entity_id effect_id amplifier duration_ticks ambient visible show_icon blend =
     make_packet PlayC_update_mob_effect
     [check (entity_id <s 0 \<or> effect_id <s 0 \<or> 40 \<le>s effect_id \<or> amplifier <s 0 \<or>
         duration_ticks <s 0)
        (Invalid_Argument ''mob effect update fields are invalid''),
      emit write_varint entity_id,
      emit write_varint (effect_id + 1),
      emit write_varint amplifier,
      emit write_varint duration_ticks,
      emit write_u8 ((if ambient then 1 else 0) OR (if visible then 2 else 0) OR
        (if show_icon then 4 else 0) OR (if blend then 8 else 0))]"

definition encode_remove_mob_effect :: "i32 \<Rightarrow> i32 \<Rightarrow> bytes result" where
  "encode_remove_mob_effect entity_id effect_id = make_packet PlayC_remove_mob_effect
     [check (entity_id <s 0 \<or> effect_id <s 0 \<or> 40 \<le>s effect_id)
        (Invalid_Argument ''mob effect removal fields are invalid''),
      emit write_varint entity_id,
      emit write_varint (effect_id + 1)]"

section \<open>Entity metadata\<close>

record metadata_rotations =
  rotations_x :: f32
  rotations_y :: f32
  rotations_z :: f32

text \<open>The alternatives of \<open>EntityMetadataValue\<close> in order.\<close>

datatype entity_metadata_value =
    Metadata_Byte u8
  | Metadata_Bool bool
  | Metadata_Int i32
  | Metadata_Long i64
  | Metadata_Float f32
  | Metadata_String string
  | Metadata_Item simple_item_stack
  | Metadata_Rotations metadata_rotations
  | Metadata_Position block_position
  | Metadata_Block_State i32
  | Metadata_Optional_Unsigned_Int "i32 option"
  | Metadata_Pose u8

record entity_metadata_entry =
  metadata_index :: u8
  metadata_value :: entity_metadata_value

primrec write_metadata_value :: "entity_metadata_value \<Rightarrow> writer list" where
  "write_metadata_value (Metadata_Byte v) = [emit write_varint 0, emit write_u8 v]"
| "write_metadata_value (Metadata_Bool v) = [emit write_varint 8, emit write_bool v]"
| "write_metadata_value (Metadata_Int v) = [emit write_varint 1, emit write_varint v]"
| "write_metadata_value (Metadata_Long v) = [emit write_varint 2, emit write_varlong v]"
| "write_metadata_value (Metadata_Float v) =
     [check (\<not> f32_finite v) (Invalid_Argument ''entity metadata float is non-finite''),
      emit write_varint 3, emit write_f32_be v]"
| "write_metadata_value (Metadata_String v) =
     [check (length v > 32767) (Length_Error ''entity metadata string exceeds limit''),
      emit write_varint 4, put write_string v]"
| "write_metadata_value (Metadata_Item v) = [emit write_varint 7, write_simple_item_stack v]"
| "write_metadata_value (Metadata_Rotations v) =
     [check (\<not> f32_finite (rotations_x v) \<or> \<not> f32_finite (rotations_y v) \<or>
         \<not> f32_finite (rotations_z v))
        (Invalid_Argument ''entity metadata rotations are non-finite''),
      emit write_varint 9, emit write_f32_be (rotations_x v), emit write_f32_be (rotations_y v),
      emit write_f32_be (rotations_z v)]"
| "write_metadata_value (Metadata_Position v) = [emit write_varint 10, put write_position v]"
| "write_metadata_value (Metadata_Block_State v) =
     [check (v <s 0 \<or> 32365 <s v) (Invalid_Argument ''entity metadata block state is invalid''),
      emit write_varint 14, emit write_varint v]"
| "write_metadata_value (Metadata_Optional_Unsigned_Int v) =
     [check (case v of None \<Rightarrow> False | Some n \<Rightarrow> n <s 0 \<or> n = 2147483647)
        (Invalid_Argument ''entity metadata optional integer is invalid''),
      emit write_varint 19, emit write_varint (case v of None \<Rightarrow> 0 | Some n \<Rightarrow> n + 1)]"
| "write_metadata_value (Metadata_Pose v) =
     [check (v > 17) (Invalid_Argument ''entity metadata pose is invalid''),
      emit write_varint 20, emit write_varint (ucast v)]"

text \<open>The loop over the entries; \<open>seen\<close> holds the indices so far.\<close>

fun write_metadata_entries :: "u8 set \<Rightarrow> entity_metadata_entry list \<Rightarrow> writer list" where
  "write_metadata_entries seen [] = []"
| "write_metadata_entries seen (entry # entries) =
     [check (metadata_index entry = 0xFF \<or> metadata_index entry \<in> seen)
        (Invalid_Argument ''entity metadata index is invalid or duplicated''),
      emit write_u8 (metadata_index entry)] @
     write_metadata_value (metadata_value entry) @
     write_metadata_entries (insert (metadata_index entry) seen) entries"

definition encode_entity_metadata :: "i32 \<Rightarrow> entity_metadata_entry list \<Rightarrow> bytes result" where
  "encode_entity_metadata entity_id entries = make_packet PlayC_set_entity_data
     ([check (entity_id <s 0 \<or> length entries > 255)
         (Invalid_Argument ''entity metadata target or count is invalid''),
       emit write_varint entity_id] @
      write_metadata_entries {} entries @ [emit write_u8 0xFF])"

section \<open>Recipes, chunks and commands\<close>

definition encode_recipe_book_remove :: "i32 list \<Rightarrow> bytes result" where
  "encode_recipe_book_remove display_ids = make_packet PlayC_recipe_book_remove
     [check (length display_ids > 65536) (Length_Error ''recipe removal list exceeds limit''),
      emit write_varint (count_of display_ids),
      each (\<lambda>display_id.
        [check (display_id <s 0) (Invalid_Argument ''recipe display ID is invalid''),
         emit write_varint display_id]) display_ids]"

text \<open>The argument is an array of eight flags.\<close>

definition encode_recipe_book_settings :: "bool list \<Rightarrow> bytes result" where
  "encode_recipe_book_settings open_filtering_pairs = make_packet PlayC_recipe_book_settings
     [each (\<lambda>flag. [emit write_bool flag]) open_filtering_pairs]"

definition encode_empty_advancements :: "bool \<Rightarrow> bool \<Rightarrow> bytes result" where
  "encode_empty_advancements reset show_advancements = make_packet PlayC_update_advancements
     [emit write_bool reset,
      emit write_varint 0,
      emit write_varint 0,
      emit write_varint 0,
      emit write_bool show_advancements]"

definition encode_chunk_cache_center :: "i32 \<Rightarrow> i32 \<Rightarrow> bytes result" where
  "encode_chunk_cache_center x z = make_packet PlayC_set_chunk_cache_center
     [emit write_varint x, emit write_varint z]"

definition encode_forget_level_chunk :: "i32 \<Rightarrow> i32 \<Rightarrow> bytes result" where
  "encode_forget_level_chunk x z = make_packet PlayC_forget_level_chunk
     [emit write_i64_be (ucast x OR push_bit 32 (ucast z))]"

definition encode_default_spawn_position :: "block_position \<Rightarrow> f32 \<Rightarrow> f32 \<Rightarrow> bytes result" where
  "encode_default_spawn_position position yaw pitch = make_packet PlayC_set_default_spawn_position
     [put write_identifier ''minecraft:overworld'',
      put write_position position,
      emit write_f32_be yaw,
      emit write_f32_be pitch]"

definition encode_chunk_batch_start :: "bytes result" where
  "encode_chunk_batch_start = make_packet PlayC_chunk_batch_start []"

definition encode_chunk_batch_finished :: "i32 \<Rightarrow> bytes result" where
  "encode_chunk_batch_finished batch_size = make_packet PlayC_chunk_batch_finished
     [check (batch_size <s 0) (Invalid_Argument ''chunk batch size must not be negative''),
      emit write_varint batch_size]"

definition encode_command_suggestions :: "i32 \<Rightarrow> i32 \<Rightarrow> i32 \<Rightarrow> string list \<Rightarrow> bytes result" where
  "encode_command_suggestions i start len suggestions = make_packet PlayC_command_suggestions
     [check (i <s 0 \<or> start <s 0 \<or> len <s 0 \<or> length suggestions > 128)
        (Invalid_Argument ''command suggestion fields are invalid''),
      emit write_varint i,
      emit write_varint start,
      emit write_varint len,
      emit write_varint (count_of suggestions),
      each (\<lambda>suggestion.
        [check (suggestion = [] \<or> length suggestion > 256)
           (Invalid_Argument ''command suggestion text is invalid''),
         put write_string suggestion,
         emit write_bool False]) suggestions]"

text \<open>\<open>std::sort\<close>: equal strings are indistinguishable, so any sort gives this list.\<close>

fun insert_string :: "string \<Rightarrow> string list \<Rightarrow> string list" where
  "insert_string s [] = [s]"
| "insert_string s (t # ts) = (if string_less t s then t # insert_string s ts else s # t # ts)"

definition sort_strings :: "string list \<Rightarrow> string list" where
  "sort_strings ss = foldr insert_string ss []"

fun adjacent_equal :: "string list \<Rightarrow> bool" where
  "adjacent_equal (s # t # ts) = (s = t \<or> adjacent_equal (t # ts))"
| "adjacent_equal _ = False"

text \<open>\<open>std::islower\<close> in the C locale, or an underscore.\<close>

definition command_char :: "char \<Rightarrow> bool" where
  "command_char c = (char_between CHR ''a'' CHR ''z'' c \<or> c = CHR ''_'')"

definition encode_command_tree :: "string list \<Rightarrow> bytes result" where
  "encode_command_tree roots =
     (let sorted_roots = sort_strings roots
      in make_packet PlayC_commands
     [check (roots = [] \<or> length roots > 128) (Invalid_Argument ''command tree root count is invalid''),
      check (adjacent_equal sorted_roots) (Invalid_Argument ''command tree contains duplicate roots''),
      each (\<lambda>root. [check (root = [] \<or> length root > 64 \<or> \<not> list_all command_char root)
        (Invalid_Argument ''command tree literal is invalid'')]) sorted_roots,
      emit write_varint (word_of_nat (length sorted_roots + 1)),
      emit write_u8 0,
      emit write_varint (count_of sorted_roots),
      each (\<lambda>index. [emit write_varint (word_of_nat (index + 1))]) [0..<length sorted_roots],
      each (\<lambda>root. [emit write_u8 0x05, emit write_varint 0, put write_string root]) sorted_roots,
      emit write_varint 0])"

definition encode_tag_query :: "i32 \<Rightarrow> tag option \<Rightarrow> bytes result" where
  "encode_tag_query transaction_id response = make_packet PlayC_tag_query
     [check (transaction_id <s 0 \<or>
         (case response of None \<Rightarrow> False | Some t \<Rightarrow> tag_type t \<noteq> Compound_T))
        (Invalid_Argument ''tag query response is invalid''),
      emit write_varint transaction_id,
      put (write_any_tag default_limits)
        (case response of None \<Rightarrow> Tag End_T No_Value | Some t \<Rightarrow> t)]"

definition encode_block_entity_data :: "block_position \<Rightarrow> i32 \<Rightarrow> tag \<Rightarrow> bytes result" where
  "encode_block_entity_data position entity_type compound = make_packet PlayC_block_entity_data
     [check (entity_type <s 0 \<or> tag_type compound \<noteq> Compound_T)
        (Invalid_Argument ''block entity data is invalid''),
      put write_position position,
      emit write_varint entity_type,
      put (write_any_tag default_limits) compound]"

definition encode_level_chunks_load_start :: "bytes result" where
  "encode_level_chunks_load_start = encode_game_event 13 0"

text \<open>
  The largest \<open>double\<close> below 8 passes the range check of \<open>pack_entity_delta\<close>, but
  \<open>std::llround\<close> takes it to 32768, which the cast to 16 bits turns into -32768:
  a movement of almost eight blocks is sent as one of eight blocks backwards.
\<close>

lemma pack_entity_delta_wraps: "pack_entity_delta 0x401FFFFFFFFFFFFF = Inr (- 32768)"
proof -
  have "round_magnitude 52 (scaled 52 0x401FFFFFFFFFFFFF * scaled 52 0x40B0000000000000) (2 ^ 1074) =
      0x40DFFFFFFFFFFFFF"
    by (rule round_magnitude_exact) (simp_all add: scaled_def)
  then have "f64_mul 0x401FFFFFFFFFFFFF 0x40B0000000000000 = 0x40DFFFFFFFFFFFFF"
    by (simp add: f64_mul_def f64_number_def f64_magnitude_def float_mul_def double_format_def
        round_float_def f64_of_number_def)
  moreover have "f64_llround 0x40DFFFFFFFFFFFFF = 32768"
    by (simp add: f64_llround_def f64_value_def f64_magnitude_def scaled_def signed_def)
  ultimately show ?thesis
    by (simp add: pack_entity_delta_def f64_finite_def f64_magnitude_def f64_less_def f64_le_def
        f64_nan_def f64_rank_def signed_def)
qed

end
