(* ===== verification/Chunk_Packets.thy ===== *)
theory Chunk_Packets
  imports Play_Clientbound Chunk
begin

text \<open>
  Chunks on the wire (the end of namespace \<open>mc::protocol::play\<close> in packets.cpp):
  paletted containers, sky light, and the chunk and light packets. The decoder
  \<open>read_paletted\<close> and the layout of light and heights are the format the client
  reads; the encoder is proved against them.
\<close>

section \<open>Registry ids\<close>

definition protocol_block_state_id :: "block_value \<Rightarrow> i32 result" where
  "protocol_block_state_id b =
     (if b = air then Inr 0
      else if b = stone then Inr 1
      else if b = grass_block then Inr 9
      else if b = dirt then Inr 10
      else if b = bedrock then Inr 85
      else if b = water then Inr 86
      else if b = sand then Inr 118
      else if b = gravel then Inr 124
      else if b = iron_ore then Inr 131
      else if b = coal_ore then Inr 133
      else if b = oak_log then Inr 137
      else if b = oak_leaves then Inr 279
      else if b = short_grass then Inr 2248
      else if b = dandelion then Inr 2321
      else if b = poppy then Inr 2324
      else Inl (Logic_Error ''BlockId has no protocol state mapping''))"

definition protocol_biome :: "biome_value \<Rightarrow> i32 result" where
  "protocol_biome b =
     (if b = desert then Inr 14
      else if b = forest then Inr 21
      else if b = ocean then Inr 35
      else if b = plains then Inr 40
      else if b = mountains then Inr 63
      else Inl (Logic_Error ''BiomeId has no protocol mapping''))"

section \<open>Paletted containers\<close>

text \<open>The inner loop of \<open>write_packed_values\<close>: one word, from its lowest field.\<close>

fun pack_word :: "nat \<Rightarrow> nat \<Rightarrow> u16 list \<Rightarrow> u64" where
  "pack_word bits shift [] = 0"
| "pack_word bits shift (v # vs) = push_bit shift (ucast v) OR pack_word bits (shift + bits) vs"

definition write_packed_values :: "bytes \<Rightarrow> u16 list \<Rightarrow> nat \<Rightarrow> bytes" where
  "write_packed_values output vs bits =
     (let values_per_word = 64 div bits;
          word_count = (length vs + values_per_word - 1) div values_per_word
      in foldl (\<lambda>output word_index.
          write_i64_be output
            (pack_word bits 0 (take values_per_word (drop (word_index * values_per_word) vs))))
        output [0..<word_count])"

fun palette_index :: "'a \<Rightarrow> 'a list \<Rightarrow> nat" where
  "palette_index v [] = 0"
| "palette_index v (x # xs) = (if x = v then 0 else Suc (palette_index v xs))"

text \<open>One round of the loop that builds the palette and the index of each value.\<close>

definition add_to_palette :: "nat \<Rightarrow> i32 \<Rightarrow> i32 list \<times> u16 list \<Rightarrow> (i32 list \<times> u16 list) result" where
  "add_to_palette global_bits v s =
     (let (palette, indices) = s in
      if v <s 0 \<or> int (2 ^ global_bits) \<le> sint v
      then Inl (Invalid_Argument ''paletted container value is out of bounds'')
      else
        let palette = (if v \<in> set palette then palette else palette @ [v])
        in Inr (palette, indices @ [word_of_nat (palette_index v palette)]))"

function needed_bits :: "nat \<Rightarrow> nat \<Rightarrow> nat" where
  "needed_bits n bits = (if 2 ^ bits < n then needed_bits n (bits + 1) else bits)"
  by pat_completeness auto
termination
  by (relation "measure (\<lambda>(n, bits). n - 2 ^ bits)") (auto intro: diff_less_mono2)

declare needed_bits.simps [simp del]

definition encode_paletted_container :: "i32 list \<Rightarrow> u8 \<Rightarrow> u8 \<Rightarrow> u8 \<Rightarrow> bytes result" where
  "encode_paletted_container vs minimum_bits maximum_local_bits global_bits =
     (if vs = [] \<or> minimum_bits = 0 \<or> minimum_bits > maximum_local_bits \<or>
         maximum_local_bits \<ge> global_bits \<or> global_bits > 16
      then Inl (Invalid_Argument ''paletted container bit widths are invalid'')
      else bindR (foldR (add_to_palette (unat global_bits)) vs ([], [])) (\<lambda>(palette, indices).
        if length palette = 1
        then Inr (write_varint [0] (hd palette))
        else
          let bits = needed_bits (length palette) (unat minimum_bits) in
          if bits > unat maximum_local_bits
          then Inr (write_packed_values [global_bits] (map ucast vs) (unat global_bits))
          else Inr (write_packed_values
            (foldl write_varint (write_varint [word_of_nat bits] (count_of palette)) palette)
            indices bits)))"

section \<open>Sky light\<close>

text \<open>
  The nested loops over a light section in one index: \<open>index\<close> counts x, then z,
  then the local y. Two blocks share a byte.
\<close>

definition light_block :: "chunk \<Rightarrow> nat \<Rightarrow> nat \<Rightarrow> bytes \<Rightarrow> bytes result" where
  "light_block c light_section index section =
     (let local_y = index div 256; z = index div 16 mod 16; x = index mod 16;
          block_y = min_build_y - 16 + int (light_section * 16) + int local_y
      in bindR (chunk_height c x z) (\<lambda>height.
        if block_y \<le> height then Inr section
        else Inr (section[index div 2 :=
          section ! (index div 2) OR (if index mod 2 = 0 then 0x0F else 0xF0)])))"

definition sky_light_section :: "chunk \<Rightarrow> nat \<Rightarrow> bytes result" where
  "sky_light_section c light_section =
     foldR (light_block c light_section) [0..<4096] (replicate 2048 0)"

definition light_section_count :: nat where
  "light_section_count = section_count + 2"

definition sky_light_sections :: "chunk \<Rightarrow> bytes list result" where
  "sky_light_sections c =
     foldR (\<lambda>i sections. bindR (sky_light_section c i) (\<lambda>section. Inr (sections @ [section])))
       [0..<light_section_count] []"

definition full_light_mask :: u64 where
  "full_light_mask = push_bit light_section_count 1 - 1"

definition write_light_data :: "chunk \<Rightarrow> writer" where
  "write_light_data c output =
     bindR (write_all
       [put write_bitset [full_light_mask],
        put write_bitset [],
        put write_bitset [],
        put write_bitset [full_light_mask]] output) (\<lambda>output.
     bindR (sky_light_sections c) (\<lambda>sky_light.
     write_all
       [emit write_varint (count_of sky_light),
        each (\<lambda>section. [put write_byte_array section]) sky_light,
        emit write_varint 0] output))"

section \<open>Chunk packets\<close>

definition section_biomes :: "chunk \<Rightarrow> nat \<Rightarrow> i32 list result" where
  "section_biomes c section_index =
     foldR (\<lambda>i biomes.
       bindR (chunk_biome c (i mod 4) (section_index * 4 + i div 16) (i div 4 mod 4)) (\<lambda>biome.
       bindR (protocol_biome biome) (\<lambda>encoded. Inr (biomes @ [encoded])))) [0..<64] []"

definition section_states :: "chunk_section \<Rightarrow> i32 list result" where
  "section_states section =
     foldR (\<lambda>block states. bindR (protocol_block_state_id block) (\<lambda>state. Inr (states @ [state])))
       (blocks section) []"

definition write_section :: "chunk \<Rightarrow> nat \<Rightarrow> bytes \<Rightarrow> bytes result" where
  "write_section c section_index output =
     (let section = sections c ! section_index in
      bindR (section_states section) (\<lambda>block_states.
      let fluid_count = length (filter (\<lambda>block. block = water) (blocks section));
          output = write_i16_be output (word_of_nat (non_air_count section));
          output = write_i16_be output (word_of_nat fluid_count) in
      bindR (encode_paletted_container block_states 4 8 15) (\<lambda>encoded_blocks.
      bindR (section_biomes c section_index) (\<lambda>encoded.
      bindR (encode_paletted_container encoded 1 3 7) (\<lambda>encoded_biomes.
      Inr (output @ encoded_blocks @ encoded_biomes))))))"

text \<open>The word the loop over the 256 columns adds a height to, and where.\<close>

definition heightmap_step :: "chunk \<Rightarrow> nat \<Rightarrow> u64 list \<Rightarrow> u64 list result" where
  "heightmap_step c value_index ws =
     bindR (chunk_height c (value_index mod 16) (value_index div 16)) (\<lambda>height.
     let surface_height = max min_build_y (min (max_build_y - 1) height);
         heightmap_value = word_of_int (surface_height + 65);
         word_index = value_index div 7;
         shift = (value_index mod 7) * 9
     in Inr (ws[word_index := ws ! word_index OR push_bit shift heightmap_value]))"

definition heightmap_words :: "chunk \<Rightarrow> u64 list result" where
  "heightmap_words c = foldR (heightmap_step c) [0..<256] (replicate 37 0)"

definition encode_level_chunk :: "chunk \<Rightarrow> bytes result" where
  "encode_level_chunk c =
     bindR (foldR (write_section c) [0..<section_count] []) (\<lambda>section_data.
     bindR (heightmap_words c) (\<lambda>ws.
     make_packet PlayC_level_chunk_with_light
       [emit write_i32_be (chunk_x (position c)),
        emit write_i32_be (chunk_z (position c)),
        emit write_varint 3,
        each (\<lambda>heightmap_type.
          [emit write_varint heightmap_type,
           emit write_varint (count_of ws),
           each (\<lambda>word. [emit write_i64_be word]) ws]) [1, 4, 5],
        emit write_varint (count_of section_data),
        emit append_bytes section_data,
        emit write_varint 0,
        write_light_data c]))"

definition encode_light_update :: "chunk \<Rightarrow> bytes result" where
  "encode_light_update c = make_packet PlayC_light_update
     [emit write_varint (chunk_x (position c)),
      emit write_varint (chunk_z (position c)),
      write_light_data c]"

section \<open>The client's view of a paletted container\<close>

definition word_count :: "nat \<Rightarrow> nat \<Rightarrow> nat" where
  "word_count bits n = (n + 64 div bits - 1) div (64 div bits)"

definition packed_field :: "nat \<Rightarrow> u64 list \<Rightarrow> nat \<Rightarrow> u64" where
  "packed_field bits ws i =
     take_bit bits (drop_bit ((i mod (64 div bits)) * bits) (ws ! (i div (64 div bits))))"

definition read_packed :: "nat \<Rightarrow> nat \<Rightarrow> u64 list decoder" where
  "read_packed n bits = bindD (read_n (word_count bits n) read_i64_be) (\<lambda>ws.
     returnD (map (packed_field bits ws) [0..<n]))"

definition read_paletted :: "nat \<Rightarrow> u8 \<Rightarrow> u8 \<Rightarrow> i32 list decoder" where
  "read_paletted n maximum_local_bits global_bits = bindD read_u8 (\<lambda>bits.
     if bits = 0 then bindD read_varint (\<lambda>v. returnD (replicate n v))
     else if bits \<le> maximum_local_bits
     then bindD read_varint (\<lambda>count.
       bindD (read_n (unat count) read_varint) (\<lambda>palette.
       bindD (read_packed n (unat bits)) (\<lambda>indices.
       returnD (map (\<lambda>i. palette ! unat i) indices))))
     else bindD (read_packed n (unat global_bits)) (\<lambda>vs. returnD (map ucast vs)))"

text \<open>What the encoder accepts.\<close>

definition palette_input :: "i32 list \<Rightarrow> u8 \<Rightarrow> u8 \<Rightarrow> u8 \<Rightarrow> bool" where
  "palette_input vs minimum_bits maximum_local_bits global_bits =
     (vs \<noteq> [] \<and> 0 < minimum_bits \<and> minimum_bits \<le> maximum_local_bits \<and>
      maximum_local_bits < global_bits \<and> global_bits \<le> 16 \<and>
      list_all (\<lambda>v. 0 \<le> sint v \<and> sint v < 2 ^ unat global_bits) vs)"

section \<open>Packed words\<close>

lemma pack_word_shift: "pack_word b (s + t) vs = push_bit s (pack_word b t vs)"
proof (induction vs arbitrary: t)
  case (Cons v vs)
  from Cons.IH [of "t + b"] show ?case
    by (simp add: push_bit_or push_bit_push_bit add.assoc pack_word.simps)
qed simp

lemma pack_word_cons: "pack_word b 0 (v # vs) = ucast v OR push_bit b (pack_word b 0 vs)"
  using pack_word_shift [of b b 0 vs] by (simp add: pack_word.simps)

declare pack_word.simps(2) [simp del]

lemma field_bits:
  fixes v :: "'w::len word"
  assumes "unat v < 2 ^ b" and "b \<le> n"
  shows "\<not> bit v n"
proof -
  have "drop_bit b v = 0"
    using assms(1) by (simp add: unat_eq_iff unat_drop_bit)
  then have "\<not> bit (drop_bit b v) (n - b)" by simp
  with assms(2) show ?thesis by (simp add: bit_drop_bit_eq)
qed

lemma pack_word_field:
  assumes "i < length vs" and "length vs * b \<le> 64" and "\<forall>v \<in> set vs. unat v < 2 ^ b"
  shows "take_bit b (drop_bit (i * b) (pack_word b 0 vs)) = ucast (vs ! i)"
  using assms
proof (induction vs arbitrary: i)
  case (Cons v vs)
  have v: "\<not> bit v n" if "b \<le> n" for n
    using field_bits [of v b n] that Cons.prems(3) by simp
  show ?case
  proof (cases i)
    case 0
    have "bit (take_bit b (pack_word b 0 (v # vs))) n = bit (ucast v :: u64) n" if "n < 64" for n
      using v [of n] that by (auto simp: pack_word_cons bit_simps not_less)
    then have "take_bit b (pack_word b 0 (v # vs)) = ucast v" by (intro bit_word_eqI) simp
    then show ?thesis by (simp add: 0)
  next
    case (Suc j)
    have j: "j < length vs" "length vs * b \<le> 64" "b + length vs * b \<le> 64"
      using Cons.prems Suc by simp_all
    have "(j + 1) * b \<le> length vs * b" using j by (intro mult_le_mono1) simp
    then have room: "b + j * b + b \<le> 64" using j(3) by simp
    have "bit (take_bit b (drop_bit (i * b) (pack_word b 0 (v # vs)))) n =
        bit (take_bit b (drop_bit (j * b) (pack_word b 0 vs))) n" if "n < 64" for n
      using that room v [of "b + j * b + n"]
      by (auto simp: pack_word_cons Suc bit_simps)
    then have "take_bit b (drop_bit (i * b) (pack_word b 0 (v # vs))) =
        take_bit b (drop_bit (j * b) (pack_word b 0 vs))"
      by (intro bit_word_eqI) simp
    also have "\<dots> = ucast (vs ! j)" using Cons j by simp
    finally show ?thesis by (simp add: Suc)
  qed
qed simp

definition packed_words :: "u16 list \<Rightarrow> nat \<Rightarrow> u64 list" where
  "packed_words vs bits = map (\<lambda>j. pack_word bits 0
     (take (64 div bits) (drop (j * (64 div bits)) vs))) [0..<word_count bits (length vs)]"

lemma write_packed_img:
  "write_packed_values out vs bits = out @ concat (map (write_i64_be []) (packed_words vs bits))"
  unfolding write_packed_values_def Let_def packed_words_def word_count_def
  by (simp only: write_i64s_append [symmetric] foldl_map)

lemma packed_field_word:
  assumes "i < length vs" and "0 < b" and "b \<le> 64" and "\<forall>v \<in> set vs. unat v < 2 ^ b"
  shows "packed_field b (packed_words vs b) i = ucast (vs ! i)"
proof -
  let ?n = "64 div b"
  have n: "0 < ?n" using assms by (simp add: div_greater_zero_iff)
  let ?j = "i div ?n" and ?k = "i mod ?n"
  let ?ws = "take ?n (drop (?j * ?n) vs)"
  have i: "i = ?j * ?n + ?k" by (simp only: div_mult_mod_eq)
  have k: "?k < ?n" using n by simp
  then have len: "?k < length ?ws" using assms(1) by (simp add: i [symmetric] min_def) (metis i less_diff_conv add.commute assms(1))
  have "?j * ?n + ?n \<le> length vs + ?n - 1" using assms(1) i k n by linarith
  then have "?j + 1 \<le> (length vs + ?n - 1) div ?n"
    using n by (simp add: less_eq_div_iff_mult_less_eq)
  then have j: "?j < word_count b (length vs)" by (simp add: word_count_def)
  have "length ?ws * b \<le> ?n * b" by (intro mult_le_mono1) simp
  also have "\<dots> \<le> 64" by simp
  finally have "take_bit b (drop_bit (?k * b) (pack_word b 0 ?ws)) = ucast (?ws ! ?k)"
    using len assms(4) by (intro pack_word_field) (auto dest: in_set_takeD in_set_dropD)
  moreover have "?ws ! ?k = vs ! (?j * ?n + ?k)" using k i assms(1) by (subst nth_take) (simp_all add: nth_drop)
  then have "?ws ! ?k = vs ! i" unfolding i [symmetric] .
  ultimately show ?thesis using j by (simp add: packed_field_def packed_words_def)
qed

lemma reads_packed:
  assumes "0 < b" and "b \<le> 64" and "\<forall>v \<in> set vs. unat v < 2 ^ b"
  shows "reads (read_packed (length vs) b) (concat (map (write_i64_be []) (packed_words vs b)))
    (map ucast vs)"
proof -
  let ?ws = "packed_words vs b"
  have "list_all2 (reads read_i64_be) (map (write_i64_be []) ?ws) ?ws"
    by (simp add: list_all2_conv_all_nth i64.reads_img)
  from reads_read_n [OF this]
  have "reads (read_n (word_count b (length vs)) read_i64_be) (concat (map (write_i64_be []) ?ws)) ?ws"
    by (simp add: packed_words_def)
  note words = this
  have eq: "map ucast vs = map (packed_field b ?ws) [0..<length vs]"
    using assms by (intro nth_equalityI) (simp_all add: packed_field_word)
  show ?thesis
    unfolding read_packed_def eq by (rule reads_last [OF words reads_returnD])
qed

section \<open>The palette\<close>

lemma palette_index_less: "v \<in> set p \<Longrightarrow> palette_index v p < length p"
  by (induction p) auto

lemma palette_index_nth: "v \<in> set p \<Longrightarrow> p ! palette_index v p = v"
  by (induction p) auto

lemma palette_index_append: "v \<in> set p \<Longrightarrow> palette_index v (p @ q) = palette_index v p"
  by (induction p) auto

definition palette_of :: "i32 list \<Rightarrow> i32 list \<Rightarrow> u16 list \<Rightarrow> bool" where
  "palette_of vs palette indices =
     (distinct palette \<and> set palette = set vs \<and>
      indices = map (\<lambda>v. word_of_nat (palette_index v palette)) vs)"

lemma add_to_palette_cases:
  "add_to_palette g v (palette, indices) =
     (if 0 \<le> sint v \<and> sint v < 2 ^ g
      then let p = (if v \<in> set palette then palette else palette @ [v])
           in Inr (p, indices @ [word_of_nat (palette_index v p)])
      else Inl (Invalid_Argument ''paletted container value is out of bounds''))"
  by (auto simp: add_to_palette_def Let_def word_sless_alt)

lemma palette_of_step:
  assumes "palette_of xs palette indices" and "p = (if v \<in> set palette then palette else palette @ [v])"
  shows "palette_of (xs @ [v]) p (indices @ [word_of_nat (palette_index v p)])"
proof -
  have "palette_index x p = palette_index x palette" if "x \<in> set xs" for x
    using that assms by (auto simp: palette_of_def palette_index_append)
  then show ?thesis using assms by (auto simp: palette_of_def)
qed

lemma build_palette:
  assumes "palette_of xs palette indices"
  shows "case foldR (add_to_palette g) vs (palette, indices) of
      Inl e \<Rightarrow> \<not> list_all (\<lambda>v. 0 \<le> sint v \<and> sint v < 2 ^ g) vs
    | Inr (palette', indices') \<Rightarrow> list_all (\<lambda>v. 0 \<le> sint v \<and> sint v < 2 ^ g) vs \<and>
        palette_of (xs @ vs) palette' indices'"
  using assms
proof (induction vs arbitrary: xs palette indices)
  case (Cons v vs)
  show ?case
  proof (cases "0 \<le> sint v \<and> sint v < 2 ^ g")
    case True
    define p where "p = (if v \<in> set palette then palette else palette @ [v])"
    have "add_to_palette g v (palette, indices) = Inr (p, indices @ [word_of_nat (palette_index v p)])"
      using True unfolding p_def add_to_palette_cases Let_def by (simp only: if_True simp_thms)
    with Cons.IH [OF palette_of_step [OF Cons.prems p_def]] True show ?thesis
      by (auto split: sum.splits)
  next
    case False
    then have "add_to_palette g v (palette, indices) =
        Inl (Invalid_Argument ''paletted container value is out of bounds'')"
      unfolding add_to_palette_cases by (rule if_not_P)
    with False show ?thesis by auto
  qed
qed simp

lemma palette_size:
  assumes "distinct palette" and "\<forall>v \<in> set palette. 0 \<le> sint v \<and> sint v < 2 ^ g"
  shows "length palette \<le> 2 ^ g"
proof -
  have "sint ` set palette \<subseteq> {0..<2 ^ g}" using assms(2) by auto
  then have "card (sint ` set palette) \<le> card {0..<(2 :: int) ^ g}" by (intro card_mono) simp_all
  moreover have "card (sint ` set palette) = length palette"
    using assms(1) by (subst card_image) (auto intro!: inj_onI signed_word_eqI distinct_card)
  ultimately show ?thesis by (simp add: nat_power_eq)
qed

lemma needed_bits_bounds:
  "n \<le> 2 ^ needed_bits n b" "b \<le> needed_bits n b"
  "n \<le> 2 ^ g \<Longrightarrow> b \<le> g \<Longrightarrow> needed_bits n b \<le> g"
proof (atomize (full), induction n b rule: needed_bits.induct)
  case (1 n b)
  show ?case
  proof (cases "2 ^ b < n")
    case True
    with 1 have IH: "n \<le> 2 ^ needed_bits n (b + 1)" "b + 1 \<le> needed_bits n (b + 1)"
      "n \<le> 2 ^ g \<longrightarrow> b + 1 \<le> g \<longrightarrow> needed_bits n (b + 1) \<le> g" by blast+
    have "b \<noteq> g" if "n \<le> 2 ^ g" using that True by auto
    with IH True show ?thesis by (subst (1 2 3) needed_bits.simps) auto
  next
    case False
    then show ?thesis by (subst (1 2 3) needed_bits.simps) auto
  qed
qed

text \<open>The three forms of the image.\<close>

lemma reads_single:
  assumes "palette_of vs palette indices" and "length palette = 1"
  shows "reads (read_paletted (length vs) ml g) (write_varint [0] (hd palette)) vs"
proof -
  obtain v where p: "palette = [v]" using assms(2) by (cases palette) auto
  then have "\<forall>x \<in> set vs. x = v" using assms(1) by (auto simp: palette_of_def)
  then have vs: "replicate (length vs) v = vs" by (simp add: replicate_length_same)
  have "reads (read_paletted (length vs) ml g) ([0] @ write_varint [] v) (replicate (length vs) v)"
    unfolding read_paletted_def
    by (rule reads_bindD) (auto simp: reads_def dec_simps intro!: reads_last [OF reads_varint] reads_returnD)
  then show ?thesis using vs by (simp add: p write_varint_append [of "[0]"])
qed

lemma reads_direct:
  assumes "\<forall>v \<in> set vs. 0 \<le> sint v \<and> sint v < 2 ^ unat g" and "ml < g" and "g \<le> 16"
  shows "reads (read_paletted (length vs) ml g) (write_packed_values [g] (map ucast vs) (unat g)) vs"
proof -
  have g: "0 < unat g" "unat g \<le> 64" "unat g \<le> 16"
    using assms(2,3) by (auto simp: word_less_nat_alt word_le_nat_alt)
  have v: "unat (ucast v :: u16) = unat v \<and> unat v < 2 ^ unat g" if "v \<in> set vs" for v
  proof -
    have "int (unat v) = sint v" "sint v < 2 ^ unat g"
      using assms(1) that unat_nonneg_sint [of v] by simp_all
    then have "int (unat v) < int (2 ^ unat g)" by simp
    then have lt: "unat v < 2 ^ unat g" by (simp only: of_nat_less_iff)
    also have "(2 :: nat) ^ unat g \<le> 2 ^ 16" using g(3) by (intro power_increasing) simp_all
    finally show ?thesis
      using lt by (simp add: unsigned_ucast_eq unsigned_take_bit_eq take_bit_nat_eq_self)
  qed
  let ?us = "map ucast vs :: u16 list"
  have "\<forall>u \<in> set ?us. unat u < 2 ^ unat g" using v by auto
  then have "reads (read_packed (length ?us) (unat g))
      (concat (map (write_i64_be []) (packed_words ?us (unat g)))) (map ucast ?us)"
    using g by (intro reads_packed) auto
  moreover have "map ucast (map ucast (map ucast vs :: u16 list) :: u64 list) = vs"
  proof (simp add: comp_def, rule map_idI)
    fix v assume "v \<in> set vs"
    from v [OF this] have "unat (ucast v :: u16) = unat v" by simp
    moreover have "unat (ucast v :: u16) < 2 ^ 16" using unsigned_less [of "ucast v :: u16"] by simp
    ultimately show "ucast (ucast (ucast v :: u16) :: u64) = v"
      by (simp add: unat_eq_iff unsigned_ucast_eq unsigned_take_bit_eq take_bit_nat_eq_self)
  qed
  moreover have "g \<noteq> 0" "\<not> g \<le> ml" using assms(2) by auto
  ultimately have "reads (read_paletted (length vs) ml g)
      ([g] @ concat (map (write_i64_be []) (packed_words (map ucast vs) (unat g)))) vs"
    unfolding read_paletted_def
    by (intro reads_bindD [where x = g]) (auto simp: reads_def dec_simps intro!: reads_last reads_returnD)
  then show ?thesis by (simp add: write_packed_img)
qed

lemma foldl_write_varint: "foldl write_varint out vs = out @ concat (map (write_varint []) vs)"
proof (induction vs arbitrary: out)
  case (Cons v vs)
  from Cons.IH [of "write_varint out v"] show ?case
    by (simp add: write_varint_append [of out v])
qed simp

lemma reads_indexed:
  assumes p: "palette_of vs palette indices" and b: "0 < b" "b \<le> unat ml" "unat ml < 16"
    and fits: "length palette \<le> 2 ^ b"
  shows "reads (read_paletted (length vs) ml g)
    (write_packed_values (foldl write_varint (write_varint [word_of_nat b] (count_of palette)) palette)
      indices b) vs"
proof -
  have len: "length palette \<le> 2 ^ 15"
  proof -
    have "(2 :: nat) ^ b \<le> 2 ^ 15" using b by (intro power_increasing) simp_all
    with fits show ?thesis by (rule order_trans)
  qed
  have index: "unat (word_of_nat (palette_index v palette) :: u16) = palette_index v palette \<and>
      palette_index v palette < 2 ^ b \<and> palette ! palette_index v palette = v \<and>
      take_bit 64 (palette_index v palette) = palette_index v palette" if "v \<in> set vs" for v
  proof -
    have "v \<in> set palette" using p that by (simp add: palette_of_def)
    then have "palette_index v palette < length palette" by (rule palette_index_less)
    with len fits palette_index_nth [OF \<open>v \<in> set palette\<close>] show ?thesis
      by (simp add: unsigned_of_nat take_bit_nat_eq_self)
  qed
  have indices: "indices = map (\<lambda>v. word_of_nat (palette_index v palette)) vs" "length indices = length vs"
    using p by (simp_all add: palette_of_def)
  have "\<forall>i \<in> set indices. unat i < 2 ^ b" using index by (auto simp: indices)
  then have "reads (read_packed (length vs) b) (concat (map (write_i64_be []) (packed_words indices b)))
      (map ucast indices)"
    using reads_packed [of b indices] b by (simp add: indices(2))
  moreover have "map (\<lambda>i. palette ! unat i) (map ucast indices :: u64 list) = vs"
    using index
    by (auto simp: indices unsigned_ucast_eq unsigned_take_bit_eq intro!: map_idI)
  moreover have "reads (read_n (length palette) read_varint) (concat (map (write_varint []) palette)) palette"
    by (intro reads_read_n) (simp add: list_all2_conv_all_nth reads_varint)
  moreover have "unat (count_of palette :: i32) = length palette" using len by (simp add: unsigned_of_nat take_bit_nat_eq_self)
  moreover have "unat (word_of_nat b :: u8) = b" using b by (simp add: unsigned_of_nat take_bit_nat_eq_self)
  moreover from this b have "word_of_nat b \<noteq> (0 :: u8)" "word_of_nat b \<le> ml"
    by (auto simp: word_le_nat_alt unat_eq_iff)
  ultimately have "reads (read_paletted (length vs) ml g)
      ([word_of_nat b] @ write_varint [] (count_of palette) @ concat (map (write_varint []) palette) @
        concat (map (write_i64_be []) (packed_words indices b))) vs"
    unfolding read_paletted_def
    by (intro reads_bindD [where x = "word_of_nat b"])
      (auto simp: reads_def dec_simps intro!: reads_last reads_bindD reads_varint reads_returnD)
  then show ?thesis
    by (simp add: write_packed_img foldl_write_varint write_varint_append [of "[word_of_nat b]"])
qed

lemma paletted_container_reads:
  "case encode_paletted_container vs mn ml g of
      Inl e \<Rightarrow> \<not> palette_input vs mn ml g
    | Inr out \<Rightarrow> palette_input vs mn ml g \<and> reads (read_paletted (length vs) ml g) out vs"
proof (cases "vs = [] \<or> mn = 0 \<or> mn > ml \<or> ml \<ge> g \<or> g > 16")
  case True
  then show ?thesis by (auto simp: encode_paletted_container_def palette_input_def)
next
  case False
  then have widths: "vs \<noteq> []" "0 < unat mn" "unat mn \<le> unat ml" "ml < g" "g \<le> 16" "unat ml < 16"
    by (auto simp: word_less_nat_alt word_le_nat_alt unat_gt_0)
  let ?ok = "list_all (\<lambda>v. 0 \<le> sint v \<and> sint v < 2 ^ unat g) vs"
  have input: "palette_input vs mn ml g = ?ok"
    using False by (auto simp: palette_input_def word_neq_0_conv)
  have start: "palette_of [] [] []" by (simp add: palette_of_def)
  from build_palette [OF this, of "unat g" vs] show ?thesis
  proof (cases "foldR (add_to_palette (unat g)) vs ([], [])")
    case (Inl e)
    with build_palette [OF start, of "unat g" vs] False input show ?thesis
      by (simp add: encode_paletted_container_def)
  next
    case (Inr s)
    obtain palette indices where s: "s = (palette, indices)" by (cases s)
    have p: "palette_of vs palette indices" and ok: ?ok
      using build_palette [OF start, of "unat g" vs] by (simp_all add: Inr s)
    let ?bits = "needed_bits (length palette) (unat mn)"
    note bits = needed_bits_bounds(1,2) [where n = "length palette" and b = "unat mn"]
    consider "length palette = 1" | "length palette \<noteq> 1" "?bits > unat ml"
      | "length palette \<noteq> 1" "?bits \<le> unat ml" by linarith
    then show ?thesis
    proof cases
      case 1
      with False input ok reads_single [OF p 1] show ?thesis
        by (simp add: encode_paletted_container_def Inr s)
    next
      case 2
      from ok have "\<forall>v \<in> set vs. 0 \<le> sint v \<and> sint v < 2 ^ unat g" by (simp add: list_all_iff)
      from reads_direct [OF this widths(4,5)] 2 False input ok show ?thesis
        by (simp add: encode_paletted_container_def Inr s)
    next
      case 3
      have "0 < ?bits" using bits(2) widths(2) by simp
      from reads_indexed [OF p this 3(2) widths(6) bits(1)] 3 False input ok show ?thesis
        by (simp add: encode_paletted_container_def Inr s Let_def)
    qed
  qed
qed

section \<open>Light and heights as the client reads them\<close>

text \<open>Whether the code lights block \<open>index\<close> of a light section.\<close>

definition lit :: "chunk \<Rightarrow> nat \<Rightarrow> nat \<Rightarrow> bool" where
  "lit c light_section index =
     (heightmap c ! (index div 16 mod 16 * 16 + index mod 16)
       < min_build_y - 16 + int (light_section * 16) + int (index div 256))"

definition light_level :: "bytes \<Rightarrow> nat \<Rightarrow> u8" where
  "light_level section index =
     (if even index then section ! (index div 2) AND 15 else drop_bit 4 (section ! (index div 2)))"

definition lit_byte :: "(nat \<Rightarrow> bool) \<Rightarrow> nat \<Rightarrow> u8" where
  "lit_byte on j = (if on (2 * j) then 0x0F else 0) OR (if on (2 * j + 1) then 0xF0 else 0)"

lemma lit_byte_level:
  "even i \<Longrightarrow> lit_byte on (i div 2) AND 15 = (if on i then 15 else 0)"
  "odd i \<Longrightarrow> drop_bit 4 (lit_byte on (i div 2)) = (if on i then 15 else 0)"
  by (auto simp: lit_byte_def elim!: evenE oddE)

lemma light_block_eq:
  assumes "chunk_ok c" and "index < 4096"
  shows "light_block c light_section index section = Inr
    (if lit c light_section index
     then section[index div 2 := section ! (index div 2) OR (if even index then 0x0F else 0xF0)]
     else section)"
proof -
  have "chunk_height c (index mod 16) (index div 16 mod 16) =
      Inr (heightmap c ! (index div 16 mod 16 * 16 + index mod 16))"
    by (simp add: chunk_height_def column_index_eq)
  then show ?thesis
    by (auto simp: light_block_def Let_def lit_def even_iff_mod_2_eq_zero)
qed

lemma even_not_odd: "2 * j \<noteq> Suc (2 * b)"
  by presburger

lemma light_fold:
  assumes "chunk_ok c" and "k \<le> 4096"
  shows "foldR (light_block c s) [0..<k] (replicate 2048 0) =
    Inr (map (lit_byte (\<lambda>i. i < k \<and> lit c s i)) [0..<2048])"
  using assms(2)
proof (induction k)
  case 0
  show ?case by (simp add: lit_byte_def map_replicate_const flip: map_replicate_const [where lst = "[0..<2048]"])
next
  case (Suc k)
  let ?m = "map (lit_byte (\<lambda>i. i < k \<and> lit c s i)) [0..<2048]"
  have "lit_byte (\<lambda>i. i < Suc k \<and> lit c s i) j =
      (if lit c s k then ?m[k div 2 := ?m ! (k div 2) OR (if even k then 0x0F else 0xF0)] else ?m) ! j"
    if "j < 2048" for j
    using that Suc.prems
    by (cases "even k") (auto simp: lit_byte_def nth_list_update less_Suc_eq even_not_odd elim!: evenE oddE)
  then have "map (lit_byte (\<lambda>i. i < Suc k \<and> lit c s i)) [0..<2048] =
      (if lit c s k then ?m[k div 2 := ?m ! (k div 2) OR (if even k then 0x0F else 0xF0)] else ?m)"
    by (intro nth_equalityI) simp_all
  then show ?case
    using Suc by (simp add: foldR_append light_block_eq [OF assms(1)])
qed

lemma sky_light_section_eq:
  assumes "chunk_ok c"
  shows "sky_light_section c s = Inr (map (lit_byte (\<lambda>i. i < 4096 \<and> lit c s i)) [0..<2048])"
  unfolding sky_light_section_def by (rule light_fold [OF assms order_refl])

lemma collect_sections:
  assumes "\<And>i. i \<in> set is \<Longrightarrow> f i = Inr (g i)"
  shows "foldR (\<lambda>i out. bindR (f i) (\<lambda>v. Inr (out @ [v]))) is out = Inr (out @ map g is)"
  using assms by (induction "is" arbitrary: out) simp_all

lemma sky_light_eq:
  assumes "chunk_ok c"
  shows "sky_light_sections c =
    Inr (map (\<lambda>s. map (lit_byte (\<lambda>i. i < 4096 \<and> lit c s i)) [0..<2048]) [0..<light_section_count])"
  unfolding sky_light_sections_def
  using collect_sections [where f = "sky_light_section c" and out = "[]",
      OF sky_light_section_eq [OF assms]] by simp

definition heightmap_field :: "chunk \<Rightarrow> nat \<Rightarrow> u64" where
  "heightmap_field c i = word_of_int (heightmap c ! i + 65)"

primrec heightmap_word :: "(nat \<Rightarrow> u64) \<Rightarrow> nat \<Rightarrow> nat \<Rightarrow> u64" where
  "heightmap_word field 0 j = 0"
| "heightmap_word field (Suc k) j =
     (if k div 7 = j then heightmap_word field k j OR push_bit ((k mod 7) * 9) (field k)
      else heightmap_word field k j)"

lemma heightmap_step_eq:
  assumes "chunk_ok c" and "i < 256"
  shows "heightmap_step c i ws =
    Inr (ws[i div 7 := ws ! (i div 7) OR push_bit ((i mod 7) * 9) (heightmap_field c i)])"
proof -
  have "i div 16 < 16" "i mod 16 < 16" "i div 16 * 16 + i mod 16 = i" using assms(2) by auto
  then have h: "chunk_height c (i mod 16) (i div 16) = Inr (heightmap c ! i)"
    by (simp add: chunk_height_def column_index_eq)
  have "heightmap c ! i \<in> set (heightmap c)" using assms by (simp add: chunk_ok_def)
  with assms(1) have "min_build_y \<le> heightmap c ! i" "heightmap c ! i < max_build_y"
    by (auto simp: chunk_ok_def list_all_iff)
  then show ?thesis by (simp add: heightmap_step_def h Let_def heightmap_field_def)
qed

lemma heightmap_fold:
  assumes "chunk_ok c" and "k \<le> 256"
  shows "foldR (heightmap_step c) [0..<k] (replicate 37 0) =
    Inr (map (heightmap_word (heightmap_field c) k) [0..<37])"
  using assms(2)
proof (induction k)
  case 0
  show ?case by (simp add: map_replicate_const)
next
  case (Suc k)
  let ?w = "map (heightmap_word (heightmap_field c) k) [0..<37]"
  have k: "k div 7 < 37" using Suc.prems by auto
  have "heightmap_word (heightmap_field c) (Suc k) j =
      ?w[k div 7 := ?w ! (k div 7) OR push_bit ((k mod 7) * 9) (heightmap_field c k)] ! j" if "j < 37" for j
    using that k by (simp add: nth_list_update)
  then have "map (heightmap_word (heightmap_field c) (Suc k)) [0..<37] =
      ?w[k div 7 := ?w ! (k div 7) OR push_bit ((k mod 7) * 9) (heightmap_field c k)]"
    by (intro nth_equalityI) simp_all
  then show ?case
    using Suc by (simp add: foldR_append heightmap_step_eq [OF assms(1)] del: heightmap_word.simps)
qed

lemma heightmap_word_bit:
  "n < 64 \<Longrightarrow> bit (heightmap_word f k j) n \<longleftrightarrow>
     (\<exists>i<k. i div 7 = j \<and> (i mod 7) * 9 \<le> n \<and> bit (f i) (n - (i mod 7) * 9))"
  by (induction k) (auto simp: bit_simps less_Suc_eq)

lemma heightmap_field_small:
  assumes "chunk_ok c" and "i < 256"
  shows "unat (heightmap_field c i) < 2 ^ 9"
    and "uint (heightmap_field c i) = heightmap c ! i + 65"
proof -
  have "heightmap c ! i \<in> set (heightmap c)" using assms by (simp add: chunk_ok_def)
  with assms(1) have "- 64 \<le> heightmap c ! i" "heightmap c ! i < 320"
    by (auto simp: chunk_ok_def list_all_iff build_y)
  then show u: "uint (heightmap_field c i) = heightmap c ! i + 65"
    unfolding heightmap_field_def by (subst unsigned_of_int) (simp add: take_bit_int_eq_self)
  with \<open>heightmap c ! i < 320\<close> have "int (unat (heightmap_field c i)) < int 512" by simp
  then show "unat (heightmap_field c i) < 2 ^ 9" unfolding of_nat_less_iff by simp
qed

lemma heightmap_field_read:
  assumes "chunk_ok c" and "i < 256"
  shows "packed_field 9 (map (heightmap_word (heightmap_field c) 256) [0..<37]) i = heightmap_field c i"
proof -
  have j: "i div 7 < 37" using assms(2) by auto
  have w: "64 div 9 = (7 :: nat)" by simp
  have "bit (take_bit 9 (drop_bit (i mod 7 * 9) (heightmap_word (heightmap_field c) 256 (i div 7)))) m =
      bit (heightmap_field c i) m" for m
  proof (cases "m < 9")
    case True
    have small: "i mod 7 \<le> 6" using mod_less_divisor [of 7 i] by linarith
    with True have lt: "i mod 7 * 9 + m < 64" by linarith
    have same: "i' = i" if "i' < 256" "i' div 7 = i div 7" "i' mod 7 * 9 \<le> i mod 7 * 9 + m"
      "bit (heightmap_field c i') (i mod 7 * 9 + m - i' mod 7 * 9)" for i'
    proof -
      have "i mod 7 * 9 + m - i' mod 7 * 9 < 9"
        using field_bits [OF heightmap_field_small(1) [OF assms(1) that(1)]] that(4) by (meson not_le)
      then have "i' mod 7 = i mod 7" using that(3) True by linarith
      with that(2) show ?thesis by (metis div_mult_mod_eq)
    qed
    then show ?thesis
      using True lt assms(2) by (auto simp: bit_simps heightmap_word_bit [OF lt] dest: same)
  next
    case False
    then show ?thesis
      using field_bits [OF heightmap_field_small(1) [OF assms], of m] by (simp add: bit_simps)
  qed
  then have "take_bit 9 (drop_bit (i mod 7 * 9) (heightmap_word (heightmap_field c) 256 (i div 7))) =
      heightmap_field c i" by (intro bit_eqI) simp
  then show ?thesis using j by (simp add: packed_field_def w)
qed

section \<open>Properties\<close>

text \<open>C10. A paletted container is refused exactly when its bit widths are not in order or a value does
  not fit the global width; otherwise the client reads from the bytes the same sequence of values,
  whether they were written as one value, through a palette or directly, and nothing more.\<close>

theorem paletted_container_roundtrip:
  "case encode_paletted_container vs minimum_bits maximum_local_bits global_bits of
      Inl e \<Rightarrow> \<not> palette_input vs minimum_bits maximum_local_bits global_bits
    | Inr out \<Rightarrow> palette_input vs minimum_bits maximum_local_bits global_bits \<and>
        read_paletted (length vs) maximum_local_bits global_bits (mk_reader out) =
          Inr (vs, \<lparr>data = out, offset = length out\<rparr>)"
  using paletted_container_reads [of vs minimum_bits maximum_local_bits global_bits]
  by (auto split: sum.splits dest!: readsD [where pre = "[]" and rest = "[]"]
      simp: mk_reader_at reader_at_def)

text \<open>C22. What the client sees of a well-formed chunk besides its blocks: a block has sky light 15 when
  it lies above the height of its column and 0 otherwise, in all 26 light sections, and the field of
  each column in the height map is its height plus 65.\<close>

theorem light_and_heights:
  assumes "chunk_ok c"
  shows "\<exists>light ws. sky_light_sections c = Inr light \<and> heightmap_words c = Inr ws \<and>
    length light = 26 \<and> length ws = 37 \<and>
    (\<forall>s<26. \<forall>i<4096. light_level (light ! s) i = (if lit c s i then 15 else 0)) \<and>
    (\<forall>i<256. uint (packed_field 9 ws i) = heightmap c ! i + 65)"
proof (intro exI conjI)
  show "sky_light_sections c =
    Inr (map (\<lambda>s. map (lit_byte (\<lambda>i. i < 4096 \<and> lit c s i)) [0..<2048]) [0..<light_section_count])"
    by (rule sky_light_eq [OF assms])
  show "heightmap_words c = Inr (map (heightmap_word (heightmap_field c) 256) [0..<37])"
    unfolding heightmap_words_def by (rule heightmap_fold [OF assms order_refl])
  show "\<forall>i<256. uint (packed_field 9 (map (heightmap_word (heightmap_field c) 256) [0..<37]) i) =
      heightmap c ! i + 65"
    using heightmap_field_read [OF assms] heightmap_field_small(2) [OF assms] by metis
  show "\<forall>s<26. \<forall>i<4096. light_level
      (map (\<lambda>s. map (lit_byte (\<lambda>i. i < 4096 \<and> lit c s i)) [0..<2048]) [0..<light_section_count] ! s) i =
      (if lit c s i then 15 else 0)"
    by (auto simp: light_level_def light_section_count_def build_y lit_byte_level)
qed (simp_all add: light_section_count_def build_y)

theorem light_and_heights_witness:
  "\<exists>light ws. sky_light_sections (new_chunk origin) = Inr light \<and>
    heightmap_words (new_chunk origin) = Inr ws \<and> length light = 26 \<and> length ws = 37 \<and>
    light_level (light ! 1) 300 = 15 \<and> light_level (light ! 1) 0 = 0 \<and>
    uint (packed_field 9 ws 17) = 1"
proof -
  have h: "heightmap (new_chunk origin) ! i = - 64" if "i < 256" for i
    using that by (simp add: new_chunk_def build_y)
  have "lit (new_chunk origin) 1 300" "\<not> lit (new_chunk origin) 1 0"
    by (simp_all add: lit_def h build_y)
  moreover have "heightmap (new_chunk origin) ! 17 = - 64" by (rule h) simp
  ultimately show ?thesis
    using light_and_heights [of "new_chunk origin"] by (fastforce simp del: One_nat_def)
qed

end
