(* ===== verification/Registry_Data.thy ===== *)
theory Registry_Data
  imports Packets
begin

text \<open>
  The text files of registry data the server reads at start (the loaders of
  namespaces \<open>configuration\<close> and \<open>play\<close> of packets.cpp) and the packets made
  from them. An input stream is its text; \<open>std::getline\<close> reads its lines in
  order. SHA-256 is OpenSSL's and a parameter: \<open>sha256 bs\<close> is the digest, or
  \<open>None\<close> when one of the \<open>EVP\<close> calls fails.
\<close>

section \<open>Tags\<close>

definition parse_count :: "string \<Rightarrow> string \<Rightarrow> nat result" where
  "parse_count message str = (case from_chars_all 64 str of
     None \<Rightarrow> Inl (Runtime_Error message)
   | Some n \<Rightarrow> Inr n)"

abbreviation tab :: char where
  "tab \<equiv> CHR 0x09"

definition tag_integer :: string where
  "tag_integer = ''normalized tag stream contains an invalid integer''"

fun parse_entries :: "string list \<Rightarrow> i32 list \<Rightarrow> i32 list result" where
  "parse_entries [] entries = Inr entries"
| "parse_entries (entry # rest) entries =
     bindR (parse_count tag_integer entry) (\<lambda>raw_id.
       if raw_id > 2147483647 \<or> length entries \<ge> 65536
       then Inl (Runtime_Error ''normalized tag entry exceeds resource limits'')
       else parse_entries rest (entries @ [word_of_nat raw_id]))"

definition parse_tag :: "string \<Rightarrow> tag_data result" where
  "parse_tag line =
     (let fields = split_on tab line in
      if length fields \<noteq> 3 \<or> fields ! 0 \<noteq> ''T''
      then Inl (Runtime_Error ''normalized tag record is invalid'')
      else bindR (if fields ! 2 = [] then Inr [] else parse_entries (split_on CHR '','' (fields ! 2)) [])
        (\<lambda>entries. Inr \<lparr>tag_name = fields ! 1, tag_entries = entries\<rparr>))"

text \<open>The inner loop: the tags of one registry and the lines behind them.\<close>

fun read_tags :: "nat \<Rightarrow> string list \<Rightarrow> (tag_data list \<times> string list) result" where
  "read_tags 0 lines = Inr ([], lines)"
| "read_tags (Suc n) [] = Inl (Runtime_Error ''normalized tag stream is truncated'')"
| "read_tags (Suc n) (line # lines) =
     bindR (parse_tag line) (\<lambda>t. bindR (read_tags n lines) (\<lambda>(tags, rest). Inr (t # tags, rest)))"

lemma read_tags_rest: "read_tags n lines = Inr (tags, rest) \<Longrightarrow> length rest \<le> length lines"
  by (induction n lines arbitrary: tags rest rule: read_tags.induct) (auto simp: bindR_Inr_iff dest!: le_SucI)

definition max_tags :: nat where
  "max_tags = 16384"

text \<open>The outer loop, with the number of tags read so far.\<close>

function read_tag_registries :: "string list \<Rightarrow> nat \<Rightarrow> (registry_tags list \<times> nat) result" where
  "read_tag_registries [] loaded = Inr ([], loaded)"
| "read_tag_registries (line # lines) loaded =
     (let fields = split_on tab line in
      if length fields \<noteq> 3 \<or> fields ! 0 \<noteq> ''R''
      then Inl (Runtime_Error ''normalized tag registry record is invalid'')
      else bindR (parse_count tag_integer (fields ! 2)) (\<lambda>tag_count.
        if tag_count > max_tags - loaded
        then Inl (Runtime_Error ''normalized tag count exceeds resource limits'')
        else bindR (read_tags tag_count lines) (\<lambda>(tags, rest).
          bindR (read_tag_registries rest (loaded + tag_count)) (\<lambda>(registries, total_tags).
            Inr (\<lparr>tags_registry = fields ! 1, registry_tag_list = tags\<rparr> # registries, total_tags)))))"
  by pat_completeness auto
termination
  by (relation "measure (\<lambda>(lines, _). length lines)") (auto dest!: read_tags_rest)

definition load_normalized_tags :: "string \<Rightarrow> registry_tags list result" where
  "load_normalized_tags input = (case stream_lines input of
     [] \<Rightarrow> Inl (Runtime_Error ''normalized tag stream is empty'')
   | line # lines \<Rightarrow>
       (let header = split_on tab line in
        if length header \<noteq> 3 \<or> header ! 0 \<noteq> ''MCTAGS1'' \<or>
           \<not> starts_with (header ! 1) ''registries='' \<or> \<not> starts_with (header ! 2) ''tags=''
        then Inl (Runtime_Error ''normalized tag stream has an invalid header'')
        else bindR (parse_count tag_integer (drop 11 (header ! 1))) (\<lambda>expected_registries.
          bindR (parse_count tag_integer (drop 5 (header ! 2))) (\<lambda>expected_tags.
          if expected_registries > 1024 \<or> expected_tags > max_tags
          then Inl (Runtime_Error ''normalized tag stream exceeds resource limits'')
          else bindR (read_tag_registries lines 0) (\<lambda>(registries, loaded).
            if length registries \<noteq> expected_registries \<or> loaded \<noteq> expected_tags
            then Inl (Runtime_Error ''normalized tag stream count does not match header'')
            else Inr registries)))))"

definition encode_tags :: "registry_tags list \<Rightarrow> bytes result" where
  "encode_tags registries = make_packet (configuration_clientbound_id ConfigurationC_update_tags)
     [check (length registries > 2147483647) (Length_Error ''registry tag map exceeds protocol limits''),
      emit write_varint (count_of registries),
      each (\<lambda>registry.
        [put write_identifier (tags_registry registry),
         emit write_varint (count_of (registry_tag_list registry)),
         each (\<lambda>t.
           [put write_identifier (tag_name t),
            emit write_varint (count_of (tag_entries t)),
            each (\<lambda>raw_id. [emit write_varint raw_id]) (tag_entries t)])
           (registry_tag_list registry)]) registries]"

section \<open>Registry entries\<close>

definition registry_integer :: string where
  "registry_integer = ''normalized registry stream contains an invalid integer''"

fun read_registry_entries :: "nat \<Rightarrow> string list \<Rightarrow> (string list \<times> string list) result" where
  "read_registry_entries 0 lines = Inr ([], lines)"
| "read_registry_entries (Suc n) [] =
     Inl (Runtime_Error ''normalized registry stream is truncated'')"
| "read_registry_entries (Suc n) (line # lines) =
     (let fields = split_on tab line in
      if length fields \<noteq> 2 \<or> fields ! 0 \<noteq> ''E''
      then Inl (Runtime_Error ''normalized registry entry is invalid'')
      else bindR (read_registry_entries n lines) (\<lambda>(entries, rest).
        Inr (fields ! 1 # entries, rest)))"

lemma read_registry_entries_rest:
  "read_registry_entries n lines = Inr (es, rest) \<Longrightarrow> length rest \<le> length lines"
  by (induction n lines arbitrary: es rest rule: read_registry_entries.induct)
    (auto simp: bindR_Inr_iff Let_def split: if_splits dest!: le_SucI)

function read_registries :: "string list \<Rightarrow> nat \<Rightarrow> (registry_data list \<times> nat) result" where
  "read_registries [] loaded = Inr ([], loaded)"
| "read_registries (line # lines) loaded =
     (let fields = split_on tab line in
      if length fields \<noteq> 3 \<or> fields ! 0 \<noteq> ''R''
      then Inl (Runtime_Error ''normalized registry record is invalid'')
      else bindR (parse_count registry_integer (fields ! 2)) (\<lambda>entry_count.
        if entry_count > 65536 - loaded
        then Inl (Runtime_Error ''normalized registry entry count exceeds limits'')
        else bindR (read_registry_entries entry_count lines) (\<lambda>(entries, rest).
          bindR (read_registries rest (loaded + entry_count)) (\<lambda>(registries, total_entries).
            Inr (\<lparr>data_registry = fields ! 1, registry_entries = entries\<rparr> # registries,
              total_entries)))))"
  by pat_completeness auto
termination
  by (relation "measure (\<lambda>(lines, _). length lines)") (auto dest!: read_registry_entries_rest)

definition load_normalized_registry_data :: "string \<Rightarrow> registry_data list result" where
  "load_normalized_registry_data input = (case stream_lines input of
     [] \<Rightarrow> Inl (Runtime_Error ''normalized registry stream is empty'')
   | line # lines \<Rightarrow>
       (let header = split_on tab line in
        if length header \<noteq> 3 \<or> header ! 0 \<noteq> ''MCREGISTRYDATA1'' \<or>
           \<not> starts_with (header ! 1) ''registries='' \<or> \<not> starts_with (header ! 2) ''entries=''
        then Inl (Runtime_Error ''normalized registry stream has an invalid header'')
        else bindR (parse_count registry_integer (drop 11 (header ! 1))) (\<lambda>expected_registries.
          bindR (parse_count registry_integer (drop 8 (header ! 2))) (\<lambda>expected_entries.
          if expected_registries > 1024 \<or> expected_entries > 65536
          then Inl (Runtime_Error ''normalized registry stream exceeds resource limits'')
          else bindR (read_registries lines 0) (\<lambda>(registries, loaded).
            if length registries \<noteq> expected_registries \<or> loaded \<noteq> expected_entries
            then Inl (Runtime_Error ''normalized registry stream count does not match header'')
            else Inr registries)))))"

definition encode_registry_data :: "registry_data \<Rightarrow> bytes result" where
  "encode_registry_data registry =
     make_packet (configuration_clientbound_id ConfigurationC_registry_data)
     [check (length (registry_entries registry) > 2147483647)
        (Length_Error ''registry entry list exceeds protocol limits''),
      put write_identifier (data_registry registry),
      emit write_varint (count_of (registry_entries registry)),
      each (\<lambda>entry. [put write_identifier entry, emit write_bool False]) (registry_entries registry)]"

section \<open>Recorded packets\<close>

text \<open>\<open>std::from_chars\<close> in base 16 admits both cases; the digest is printed in lower case.\<close>

definition hex_digit :: "char \<Rightarrow> u8 option" where
  "hex_digit c =
     (if is_digit c then Some (byte_of_char c - 48)
      else if char_between CHR ''a'' CHR ''f'' c then Some (byte_of_char c - 87)
      else if char_between CHR ''A'' CHR ''F'' c then Some (byte_of_char c - 55)
      else None)"

fun parse_hex :: "string \<Rightarrow> string \<Rightarrow> bytes result" where
  "parse_hex message (a # b # rest) =
     (case (hex_digit a, hex_digit b) of
        (Some hi, Some lo) \<Rightarrow> bindR (parse_hex message rest) (\<lambda>bs. Inr ((hi * 16 + lo) # bs))
      | _ \<Rightarrow> Inl (Runtime_Error message))"
| "parse_hex message _ = Inr []"

definition hex_char :: "u8 \<Rightarrow> char" where
  "hex_char d = ''0123456789abcdef'' ! unat d"

definition show_hex :: "bytes \<Rightarrow> string" where
  "show_hex bs = concat (map (\<lambda>b. [hex_char (drop_bit 4 b), hex_char (b AND 0x0F)]) bs)"

text \<open>
  The three tabs of a record and the fields between them. With fewer tabs, or
  with the first not behind one character, the record is refused, whatever the
  searches that start behind \<open>npos\<close> give.
\<close>

definition record_fields :: "char \<Rightarrow> string \<Rightarrow> (string \<times> string \<times> string) option" where
  "record_fields kind line =
     (if find_char tab line \<noteq> Some 1 \<or> hd line \<noteq> kind then None
      else case find_from tab 2 line of None \<Rightarrow> None
      | Some second \<Rightarrow> (case find_from tab (second + 1) line of None \<Rightarrow> None
        | Some third \<Rightarrow> Some (take (second - 2) (drop 2 line),
            take (third - second - 1) (drop (second + 1) line), drop (third + 1) line)))"

definition load_fallback_record :: "(bytes \<Rightarrow> bytes option) \<Rightarrow> string \<Rightarrow> bytes result" where
  "load_fallback_record sha256 line = (case record_fields CHR ''R'' line of
     None \<Rightarrow> Inl (Runtime_Error ''registry fallback record is invalid'')
   | Some (registry, digest, encoded) \<Rightarrow>
       if length encoded > 2 * 1024 * 1024 * 2
       then Inl (Runtime_Error ''registry fallback record is invalid'')
       else if length digest \<noteq> 64 \<or> encoded = [] \<or> odd (length encoded)
       then Inl (Runtime_Error ''registry fallback digest or hex payload is invalid'')
       else bindR (parse_hex ''registry fallback contains invalid hex'' encoded) (\<lambda>packet.
         case sha256 packet of
           None \<Rightarrow> Inl (Runtime_Error ''failed to hash registry fallback packet'')
         | Some hash \<Rightarrow>
             if show_hex hash \<noteq> digest
             then Inl (Runtime_Error ''registry fallback packet digest does not match'')
             else bindR (read_varint (mk_reader packet)) (\<lambda>(packet_id, reader).
               if packet_id \<noteq> configuration_clientbound_id ConfigurationC_registry_data
               then Inl (Runtime_Error ''registry fallback packet has wrong packet ID'')
               else bindR (read_identifier reader) (\<lambda>(name, _).
                 if name \<noteq> registry
                 then Inl (Runtime_Error ''registry fallback packet identity does not match record'')
                 else frame_packet packet_id (drop (length packet - remaining reader) packet)))))"

fun load_records :: "(string \<Rightarrow> bytes result) \<Rightarrow> string list \<Rightarrow> bytes list result" where
  "load_records load [] = Inr []"
| "load_records load (line # lines) =
     bindR (load line) (\<lambda>packet. bindR (load_records load lines) (\<lambda>packets. Inr (packet # packets)))"

definition tab_separated :: "string list \<Rightarrow> string" where
  "tab_separated parts = join_with tab parts"

definition load_registry_fallback_packets :: "(bytes \<Rightarrow> bytes option) \<Rightarrow> string \<Rightarrow> bytes list result" where
  "load_registry_fallback_packets sha256 input = (case stream_lines input of
     [] \<Rightarrow> Inl (Runtime_Error ''registry fallback stream has an invalid header'')
   | line # lines \<Rightarrow>
       if line \<noteq> tab_separated [''MCREGISTRYFALLBACK1'', ''protocol=776'', ''registries=29'']
       then Inl (Runtime_Error ''registry fallback stream has an invalid header'')
       else bindR (load_records (load_fallback_record sha256) lines) (\<lambda>packets.
         if length packets \<noteq> 29
         then Inl (Runtime_Error ''registry fallback stream must contain 29 packets'')
         else Inr packets))"

definition expected_recipe_ids :: "(string \<times> i32) list" where
  "expected_recipe_ids = [(''recipe_book_add'', 0x4A), (''update_recipes'', 0x85)]"

definition load_recipe_record :: "(bytes \<Rightarrow> bytes option) \<Rightarrow> string \<Rightarrow> bytes result" where
  "load_recipe_record sha256 line = (case record_fields CHR ''P'' line of
     None \<Rightarrow> Inl (Runtime_Error ''recipe sync record is invalid'')
   | Some (name, digest, encoded) \<Rightarrow>
       (case map_of expected_recipe_ids name of
          None \<Rightarrow> Inl (Runtime_Error ''recipe sync metadata is invalid'')
        | Some expected \<Rightarrow>
            if length digest \<noteq> 64 \<or> encoded = [] \<or> odd (length encoded) \<or>
               length encoded > 2 * 1024 * 1024
            then Inl (Runtime_Error ''recipe sync metadata is invalid'')
            else bindR (parse_hex ''recipe sync contains invalid hex'' encoded) (\<lambda>packet.
              case sha256 packet of
                None \<Rightarrow> Inl (Runtime_Error ''failed to hash recipe sync packet'')
              | Some hash \<Rightarrow>
                  if show_hex hash \<noteq> digest
                  then Inl (Runtime_Error ''recipe sync digest or packet ID does not match'')
                  else bindR (read_varint (mk_reader packet)) (\<lambda>(packet_id, reader).
                    if packet_id \<noteq> expected
                    then Inl (Runtime_Error ''recipe sync digest or packet ID does not match'')
                    else frame_packet expected (drop (length packet - remaining reader) packet)))))"

definition load_recipe_sync_packets :: "(bytes \<Rightarrow> bytes option) \<Rightarrow> string \<Rightarrow> bytes list result" where
  "load_recipe_sync_packets sha256 input = (case stream_lines input of
     [] \<Rightarrow> Inl (Runtime_Error ''recipe sync stream has an invalid header'')
   | line # lines \<Rightarrow>
       if line \<noteq> tab_separated [''MCRECIPESYNC1'', ''protocol=776'', ''packets=2'']
       then Inl (Runtime_Error ''recipe sync stream has an invalid header'')
       else bindR (load_records (load_recipe_record sha256) lines) (\<lambda>packets.
         if length packets \<noteq> length expected_recipe_ids
         then Inl (Runtime_Error ''recipe sync stream must contain two packets'')
         else Inr packets))"

section \<open>Tags read back\<close>

text \<open>The text form of a tag map, as the loader expects it.\<close>

definition tag_line :: "tag_data \<Rightarrow> string" where
  "tag_line t = tab_separated [''T'', tag_name t,
     join_with CHR '','' (map (\<lambda>raw_id. show_nat (unat raw_id)) (tag_entries t))]"

definition tag_registry_lines :: "registry_tags \<Rightarrow> string list" where
  "tag_registry_lines r =
     tab_separated [''R'', tags_registry r, show_nat (length (registry_tag_list r))] #
     map tag_line (registry_tag_list r)"

definition tag_count :: "registry_tags list \<Rightarrow> nat" where
  "tag_count rs = (\<Sum>r \<leftarrow> rs. length (registry_tag_list r))"

definition print_tags :: "registry_tags list \<Rightarrow> string" where
  "print_tags rs = concat (map (\<lambda>l. l @ [CHR 0x0A])
     (tab_separated [''MCTAGS1'', ''registries='' @ show_nat (length rs), ''tags='' @ show_nat (tag_count rs)] #
      concat (map tag_registry_lines rs)))"

definition plain_field :: "string \<Rightarrow> bool" where
  "plain_field s = (tab \<notin> set s \<and> CHR 0x0A \<notin> set s)"

definition tag_printable :: "tag_data \<Rightarrow> bool" where
  "tag_printable t = (plain_field (tag_name t) \<and> length (tag_entries t) \<le> 65536 \<and>
     list_all (\<lambda>raw_id. unat raw_id \<le> 2147483647) (tag_entries t))"

definition registry_printable :: "registry_tags \<Rightarrow> bool" where
  "registry_printable r = (plain_field (tags_registry r) \<and> list_all tag_printable (registry_tag_list r))"

definition tags_printable :: "registry_tags list \<Rightarrow> bool" where
  "tags_printable rs = (list_all registry_printable rs \<and> length rs \<le> 1024 \<and> tag_count rs \<le> max_tags)"

lemma show_nat_plain: "is_digit c = False \<Longrightarrow> c \<notin> set (show_nat n)"
  using show_nat_char by auto

lemma digits_delimit: "tab \<notin> set (show_nat n)" "CHR 0x0A \<notin> set (show_nat n)"
  "CHR '','' \<notin> set (show_nat n)"
  by (rule show_nat_plain, simp add: is_digit_def byte_of_char_def)+

lemma split_fields:
  assumes "tab \<notin> set a" and "tab \<notin> set b" and "tab \<notin> set c"
  shows "split_on tab (tab_separated [a, b, c]) = [a, b, c]"
  unfolding tab_separated_def by (rule split_join) (use assms in simp_all)

lemma parse_count_show: "n < 2 ^ 64 \<Longrightarrow> parse_count m (show_nat n) = Inr n"
proof -
  assume "n < 2 ^ 64"
  then have "int n < 2 ^ 64" by simp
  then show ?thesis by (simp add: parse_count_def from_chars_show)
qed

lemma parse_entries_show:
  assumes "list_all (\<lambda>raw_id. unat raw_id \<le> 2147483647) es" and "length acc + length es \<le> 65536"
  shows "parse_entries (map (\<lambda>raw_id. show_nat (unat raw_id)) es) acc = Inr (acc @ es)"
  using assms
proof (induction es arbitrary: acc)
  case (Cons e es)
  have e: "unat e \<le> 2147483647" using Cons.prems by simp
  then have p: "parse_count tag_integer (show_nat (unat e)) = Inr (unat e)" by (simp add: parse_count_show)
  show ?case using Cons.prems e by (simp add: p Cons.IH)
qed simp


lemma parse_tag_line: "tag_printable t \<Longrightarrow> parse_tag (tag_line t) = Inr t"
proof -
  assume t: "tag_printable t"
  let ?entries = "map (\<lambda>raw_id. show_nat (unat raw_id)) (tag_entries t)"
  let ?list = "join_with CHR '','' ?entries"
  have "tab \<notin> set ?list"
    using join_set [of tab "CHR '',''" ?entries] digits_delimit(1) by auto
  then have s: "split_on tab (tag_line t) = [''T'', tag_name t, ?list]"
    using t by (simp add: tag_line_def tag_printable_def plain_field_def split_fields)
  have "tag_entries t = [] \<or> split_on CHR '','' ?list = ?entries"
    by (cases "tag_entries t = []") (use digits_delimit(3) in \<open>auto intro!: split_join\<close>)
  moreover have "tag_entries t = [] \<longleftrightarrow> ?list = []"
    using show_nat_digits by (cases "tag_entries t" rule: list.exhaust; cases "tl (tag_entries t)") auto
  ultimately show ?thesis using t
    by (cases "tag_entries t = []")
      (simp_all add: parse_tag_def s tag_printable_def parse_entries_show)
qed

lemma read_tags_lines:
  "list_all tag_printable ts \<Longrightarrow> read_tags (length ts) (map tag_line ts @ rest) = Inr (ts, rest)"
  by (induction ts) (simp_all add: parse_tag_line)

lemma read_tag_registries_lines:
  "list_all registry_printable rs \<Longrightarrow> loaded + tag_count rs \<le> max_tags \<Longrightarrow>
   read_tag_registries (concat (map tag_registry_lines rs)) loaded = Inr (rs, loaded + tag_count rs)"
proof (induction rs arbitrary: loaded)
  case (Cons r rs)
  let ?n = "length (registry_tag_list r)"
  have n: "?n \<le> max_tags - loaded" and small: "?n < 2 ^ 64"
    using Cons.prems by (simp_all add: tag_count_def max_tags_def)
  have s: "split_on tab (tab_separated [''R'', tags_registry r, show_nat ?n]) =
      [''R'', tags_registry r, show_nat ?n]"
    using Cons.prems by (intro split_fields) (simp_all add: registry_printable_def plain_field_def digits_delimit)
  have t: "read_tags ?n (map tag_line (registry_tag_list r) @ concat (map tag_registry_lines rs)) =
      Inr (registry_tag_list r, concat (map tag_registry_lines rs))"
    using Cons.prems by (intro read_tags_lines) (simp add: registry_printable_def)
  have "read_tag_registries (concat (map tag_registry_lines rs)) (loaded + ?n) =
      Inr (rs, loaded + ?n + tag_count rs)"
    using Cons.prems by (intro Cons.IH) (simp_all add: tag_count_def)
  moreover have "concat (map tag_registry_lines (r # rs)) =
      tab_separated [''R'', tags_registry r, show_nat ?n] #
        (map tag_line (registry_tag_list r) @ concat (map tag_registry_lines rs))"
    by (simp add: tag_registry_lines_def)
  moreover have "tag_count (r # rs) = ?n + tag_count rs" by (simp add: tag_count_def)
  ultimately show ?case using n small
    by (simp only: read_tag_registries.simps) (simp add: s parse_count_show t not_less add.assoc)
qed (simp add: tag_count_def)

lemma tag_lines_plain:
  "list_all registry_printable rs \<Longrightarrow> l \<in> set (concat (map tag_registry_lines rs)) \<Longrightarrow> CHR 0x0A \<notin> set l"
  using digits_delimit(2)
  by (fastforce simp: tag_registry_lines_def tag_line_def tab_separated_def registry_printable_def
      tag_printable_def plain_field_def list_all_iff dest!: join_set)

text \<open>C23. The loader of the tag map reads back what the text form of any tag map within the
  server's limits says: the same registries, in the same order, with the same tags and
  numeric identifiers; the limits the header announces are the ones that are found.\<close>

theorem tags_roundtrip:
  assumes "tags_printable rs"
  shows "load_normalized_tags (print_tags rs) = Inr rs"
proof -
  have small: "length rs < 2 ^ 64" "tag_count rs < 2 ^ 64" and rs: "list_all registry_printable rs"
    using assms by (simp_all add: tags_printable_def max_tags_def)
  let ?header = "[''MCTAGS1'', ''registries='' @ show_nat (length rs), ''tags='' @ show_nat (tag_count rs)]"
  have "stream_lines (print_tags rs) = tab_separated ?header # concat (map tag_registry_lines rs)"
    unfolding print_tags_def
    by (rule stream_lines_of)
      (use tag_lines_plain [OF rs] digits_delimit(2) in \<open>auto simp: tab_separated_def dest!: join_set\<close>)
  moreover have "split_on tab (tab_separated ?header) = ?header"
    by (rule split_fields) (simp_all add: digits_delimit)
  moreover have "read_tag_registries (concat (map tag_registry_lines rs)) 0 = Inr (rs, tag_count rs)"
    using assms read_tag_registries_lines [OF rs, of 0] by (simp add: tags_printable_def)
  ultimately show ?thesis using assms small
    by (simp add: load_normalized_tags_def starts_with_def parse_count_show tags_printable_def not_less)
qed

definition sample_tags :: "registry_tags list" where
  "sample_tags =
     [\<lparr>tags_registry = ''minecraft:block'', registry_tag_list =
        [\<lparr>tag_name = ''minecraft:logs'', tag_entries = [49, 50]\<rparr>, \<lparr>tag_name = ''minecraft:air'', tag_entries = []\<rparr>]\<rparr>]"

theorem tags_roundtrip_witness: "load_normalized_tags (print_tags sample_tags) = Inr sample_tags"
  by (rule tags_roundtrip)
    (simp add: sample_tags_def tags_printable_def registry_printable_def tag_printable_def plain_field_def
      tag_count_def max_tags_def)

end
