(* ===== verification/Float_Ops.thy ===== *)
theory Float_Ops
  imports Floats
begin

text \<open>
  More of the floating point operations the sources use, and the facts the
  components' proofs need: how a rounded sum, product or quotient compares with
  other numbers of the format. \<open>std::min\<close>, \<open>std::max\<close> and \<open>std::clamp\<close> are written
  as the standard defines them, with their answers for NaN. Evaluation is that of
  IEEE 754 at the declared type, without extended precision or fused operations.
\<close>

section \<open>Rounding against a number of the format\<close>

lemma round_magnitude_le:
  assumes "0 < den" and "num \<le> scaled m n * den"
  shows "round_magnitude m num den \<le> n"
proof (rule ccontr)
  let ?r = "scaled m (round_magnitude m num den)"
  assume "\<not> round_magnitude m num den \<le> n"
  then have "scaled m n * den < ?r * den" using assms(1) by (simp add: scaled_less not_le)
  with assms(2) have "distance num den (scaled m n) < distance num den ?r"
    unfolding distance_def by linarith
  with round_magnitude_nearest [OF assms(1), of num m n] show False by simp
qed

lemma round_magnitude_ge:
  assumes "0 < den" and "scaled m n * den \<le> num"
  shows "n \<le> round_magnitude m num den"
proof (rule ccontr)
  let ?r = "scaled m (round_magnitude m num den)"
  assume "\<not> n \<le> round_magnitude m num den"
  then have "?r * den < scaled m n * den" using assms(1) by (simp add: scaled_less not_le)
  with assms(2) have "distance num den (scaled m n) < distance num den ?r"
    unfolding distance_def by linarith
  with round_magnitude_nearest [OF assms(1), of num m n] show False by simp
qed

text \<open>The position of a number in the order of its format, infinities included.\<close>

definition rank :: "float_number \<Rightarrow> int" where
  "rank x = signed (fst x) (snd x)"

definition finite_number :: "float_format \<Rightarrow> float_number \<Rightarrow> bool" where
  "finite_number f x = (snd x < infinity f)"

lemma signed_le_iff:
  "signed s a \<le> signed t b \<longleftrightarrow> (if s then (if t then b \<le> a else True) else (if t then a = 0 \<and> b = 0 else a \<le> b))"
  by (auto simp: signed_def)

lemma round_float_le:
  assumes "0 < den" and "snd z < infinity f"
    and "signed s num \<le> float_units f z * int den"
  shows "rank (round_float f s num den) \<le> rank z"
proof -
  let ?S = "scaled (fraction_bits f) (snd z)"
  have 1: "num \<le> ?S * den" if "\<not> s" "\<not> fst z"
    using assms(3) that by (simp add: signed_def float_units_def flip: of_nat_mult)
  have 2: "?S * den \<le> num" if "s" "fst z"
    using assms(3) that by (simp add: signed_def float_units_def flip: of_nat_mult)
  have 3: "num = 0 \<and> snd z = 0" if "\<not> s" "fst z"
  proof -
    have "int num + int (?S * den) \<le> 0"
      using assms(3) that by (simp add: signed_def float_units_def)
    then have "num = 0" "?S * den = 0" by linarith+
    then show ?thesis using assms(1) scaled_less [of "fraction_bits f" 0 "snd z"] by simp
  qed
  have zero: "round_magnitude (fraction_bits f) 0 den = 0"
    using round_magnitude_exact [OF assms(1), of "fraction_bits f" 0 0] by simp
  show ?thesis
    using round_magnitude_le [OF assms(1) 1] round_magnitude_ge [OF assms(1) 2] 3 assms(2)
    by (cases s; cases "fst z") (simp_all add: rank_def round_float_def signed_le_iff zero)
qed

lemma round_float_ge:
  assumes "0 < den" and "snd z < infinity f"
    and "float_units f z * int den \<le> signed s num"
  shows "rank z \<le> rank (round_float f s num den)"
proof -
  have neg: "signed (\<not> s) n = - signed s n" for s n by (simp add: signed_def)
  have "rank (round_float f (\<not> s) num den) \<le> rank (\<not> fst z, snd z)"
    by (rule round_float_le [OF assms(1)]) (use assms in \<open>simp_all add: float_units_def neg\<close>)
  then show ?thesis by (simp add: rank_def round_float_def neg)
qed

lemma round_float_0: "0 < den \<Longrightarrow> round_float f s 0 den = (s, 0)"
  using round_magnitude_exact [of den "fraction_bits f" 0 0] by (simp add: round_float_def)

lemma float_add_round:
  assumes "finite_number f x" and "finite_number f y"
  shows "\<exists>s num. rank (float_add f x y) = rank (round_float f s num 1) \<and>
    signed s num = float_units f x + float_units f y"
proof (cases "float_units f x + float_units f y = 0")
  case True
  then show ?thesis using assms
    by (intro exI [of _ "fst x \<and> fst y"] exI [of _ 0])
      (simp add: float_add_def finite_number_def round_float_0 signed_def Let_def)
next
  case False
  then show ?thesis using assms
    by (intro exI [of _ "float_units f x + float_units f y < 0"]
        exI [of _ "nat \<bar>float_units f x + float_units f y\<bar>"])
      (simp add: float_add_def finite_number_def signed_def Let_def)
qed

lemma float_add_le:
  assumes "finite_number f x" "finite_number f y" "finite_number f z"
    and "float_units f x + float_units f y \<le> float_units f z"
  shows "rank (float_add f x y) \<le> rank z"
  using float_add_round [OF assms(1,2)] round_float_le [of 1 z f] assms(3,4)
  by (auto simp: finite_number_def)

lemma float_add_ge:
  assumes "finite_number f x" "finite_number f y" "finite_number f z"
    and "float_units f z \<le> float_units f x + float_units f y"
  shows "rank z \<le> rank (float_add f x y)"
  using float_add_round [OF assms(1,2)] round_float_ge [of 1 z f] assms(3,4)
  by (auto simp: finite_number_def)

lemma finite_zero: "finite_number f z \<Longrightarrow> 0 < infinity f"
  by (simp add: finite_number_def)

lemma signed_mult: "signed s a * signed t b = signed (s \<noteq> t) (a * b)"
  by (auto simp: signed_def)

lemma float_mul_round:
  assumes "finite_number f x" and "finite_number f y"
  shows "\<exists>s num. rank (float_mul f x y) = rank (round_float f s num (2 ^ unit_exponent f)) \<and>
    signed s num = float_units f x * float_units f y"
  using assms
  by (intro exI [of _ "fst x \<noteq> fst y"]
      exI [of _ "scaled (fraction_bits f) (snd x) * scaled (fraction_bits f) (snd y)"])
    (simp add: float_mul_def finite_number_def signed_mult float_units_def)

lemma float_mul_le:
  assumes "finite_number f x" "finite_number f y" "finite_number f z"
    and "float_units f x * float_units f y \<le> float_units f z * 2 ^ unit_exponent f"
  shows "rank (float_mul f x y) \<le> rank z"
  using float_mul_round [OF assms(1,2)] round_float_le [of "2 ^ unit_exponent f" z f] assms(3,4)
  by (auto simp: finite_number_def)

lemma float_mul_ge:
  assumes "finite_number f x" "finite_number f y" "finite_number f z"
    and "float_units f z * 2 ^ unit_exponent f \<le> float_units f x * float_units f y"
  shows "rank z \<le> rank (float_mul f x y)"
  using float_mul_round [OF assms(1,2)] round_float_ge [of "2 ^ unit_exponent f" z f] assms(3,4)
  by (auto simp: finite_number_def)

text \<open>A quotient by a positive number.\<close>

lemma units_positive: "0 < float_units f y \<Longrightarrow> \<not> fst y \<and> snd y \<noteq> 0 \<and>
    float_units f y = int (scaled (fraction_bits f) (snd y)) \<and> 0 < scaled (fraction_bits f) (snd y)"
  by (cases "snd y = 0") (auto simp: float_units_def signed_def split: if_splits)

lemma float_div_round:
  assumes "finite_number f x" and "finite_number f y" and "0 < float_units f y"
  shows "\<exists>s num. rank (float_div f x y) = rank (round_float f s num (nat (float_units f y))) \<and>
    signed s num = float_units f x * 2 ^ unit_exponent f"
  using assms units_positive [OF assms(3)]
  by (intro exI [of _ "fst x"] exI [of _ "scaled (fraction_bits f) (snd x) * 2 ^ unit_exponent f"])
    (simp add: float_div_def finite_number_def signed_def float_units_def)

lemma float_div_le:
  assumes "finite_number f x" "finite_number f y" "0 < float_units f y" "finite_number f z"
    and "float_units f x * 2 ^ unit_exponent f \<le> float_units f z * float_units f y"
  shows "rank (float_div f x y) \<le> rank z"
  using float_div_round [OF assms(1-3)] round_float_le [of "nat (float_units f y)" z f] assms(3-5)
  by (auto simp: finite_number_def)

lemma float_div_ge:
  assumes "finite_number f x" "finite_number f y" "0 < float_units f y" "finite_number f z"
    and "float_units f z * float_units f y \<le> float_units f x * 2 ^ unit_exponent f"
  shows "rank z \<le> rank (float_div f x y)"
  using float_div_round [OF assms(1-3)] round_float_ge [of "nat (float_units f y)" z f] assms(3-5)
  by (auto simp: finite_number_def)

text \<open>No operation on finite numbers (a quotient by a number other than zero) is NaN.\<close>

lemma round_float_bounded: "snd (round_float f s num den) \<le> infinity f"
  by (simp add: round_float_def)

lemma float_add_bounded:
  "finite_number f x \<Longrightarrow> finite_number f y \<Longrightarrow> snd (float_add f x y) \<le> infinity f"
  using round_float_bounded by (simp add: float_add_def finite_number_def Let_def)

lemma float_mul_bounded:
  "finite_number f x \<Longrightarrow> finite_number f y \<Longrightarrow> snd (float_mul f x y) \<le> infinity f"
  using round_float_bounded by (simp add: float_mul_def finite_number_def)

lemma float_div_bounded:
  "finite_number f x \<Longrightarrow> finite_number f y \<Longrightarrow> snd y \<noteq> 0 \<Longrightarrow> snd (float_div f x y) \<le> infinity f"
  using round_float_bounded by (simp add: float_div_def finite_number_def)

section \<open>Single precision\<close>

lemma f32_number_of:
  assumes "snd x < 2 ^ 31"
  shows "f32_number (f32_of_number x) = x"
proof (cases x)
  case (Pair s n)
  have m: "(0x7FFFFFFF :: 32 word) = mask 31" by (simp add: mask_eq_exp_minus_1)
  have n: "n < 2147483648" using assms Pair by simp
  have b: "\<not> bit n 31" using n by (simp add: bit_iff_odd)
  have t: "take_bit 31 n = n" using n by (simp add: take_bit_nat_eq_self_iff)
  have w: "unat (of_nat n :: 32 word) = n" using n by (simp add: unat_of_nat)
  have "unat ((of_nat n OR (if s then 0x80000000 else 0)) AND 0x7FFFFFFF :: 32 word) = n"
    unfolding m by (simp add: t w unsigned_or_eq unsigned_take_bit_eq flip: take_bit_eq_mask)
  moreover have "bit (of_nat n OR (if s then 0x80000000 else 0) :: 32 word) 31 = s"
    using b by (simp add: bit_simps)
  ultimately show ?thesis
    by (simp add: Pair f32_number_def f32_of_number_def f32_magnitude_def)
qed

lemma f32_facts:
  "f32_rank b = rank (f32_number b)"
  "f32_finite b = finite_number single_format (f32_number b)"
  "f32_value b = float_units single_format (f32_number b)"
  "f32_nan b = (infinity single_format < snd (f32_number b))"
  by (simp_all add: f32_rank_def rank_def f32_number_def f32_finite_def finite_number_def f32_value_def
      float_units_def f32_nan_def single_format_def)

lemma single_infinity: "infinity single_format < 2 ^ 31"
  by (simp add: single_format_def)

lemma f32_of_bounded:
  assumes "snd x \<le> infinity single_format"
  shows "\<not> f32_nan (f32_of_number x)" and "f32_rank (f32_of_number x) = rank x"
  using f32_number_of [of x] assms single_infinity by (simp_all add: f32_facts)

definition f32_neg :: "f32 \<Rightarrow> f32" where
  "f32_neg b = b XOR 0x80000000"

definition f32_sub :: "f32 \<Rightarrow> f32 \<Rightarrow> f32" where
  "f32_sub a b = f32_add a (f32_neg b)"

lemma f32_neg_bits: "f32_magnitude (f32_neg b) = f32_magnitude b" "bit (f32_neg b) 31 = (\<not> bit b 31)"
proof -
  have "f32_neg b AND 0x7FFFFFFF = b AND 0x7FFFFFFF"
    by (simp add: f32_neg_def bit.conj_xor_distrib2)
  then show "f32_magnitude (f32_neg b) = f32_magnitude b" by (simp add: f32_magnitude_def)
qed (simp add: f32_neg_def bit_simps)

lemma f32_neg_value [simp]: "f32_value (f32_neg b) = - f32_value b"
  by (simp add: f32_value_def f32_neg_bits signed_def)

lemma f32_neg_finite [simp]: "f32_finite (f32_neg b) = f32_finite b"
  by (simp add: f32_finite_def f32_neg_bits)

text \<open>Sums, products and quotients against a third number.\<close>

lemma f32_add_rank:
  assumes "f32_finite a" and "f32_finite b"
  shows "\<not> f32_nan (f32_add a b)"
    and "f32_rank (f32_add a b) = rank (float_add single_format (f32_number a) (f32_number b))"
  using f32_of_bounded [OF float_add_bounded] assms by (simp_all add: f32_add_def f32_facts(2))

lemma f32_mul_rank:
  assumes "f32_finite a" and "f32_finite b"
  shows "\<not> f32_nan (f32_mul a b)"
    and "f32_rank (f32_mul a b) = rank (float_mul single_format (f32_number a) (f32_number b))"
  using f32_of_bounded [OF float_mul_bounded] assms by (simp_all add: f32_mul_def f32_facts(2))

lemma f32_div_rank:
  assumes "f32_finite a" and "f32_finite b" and "0 < f32_value b"
  shows "\<not> f32_nan (f32_div a b)"
    and "f32_rank (f32_div a b) = rank (float_div single_format (f32_number a) (f32_number b))"
  using f32_of_bounded [OF float_div_bounded] assms units_positive [of single_format "f32_number b"]
  by (simp_all add: f32_div_def f32_facts(2,3))

lemma f32_le_rank:
  "\<not> f32_nan a \<Longrightarrow> f32_finite c \<Longrightarrow> f32_le a c \<longleftrightarrow> f32_rank a \<le> f32_rank c"
  "\<not> f32_nan a \<Longrightarrow> f32_finite c \<Longrightarrow> f32_le c a \<longleftrightarrow> f32_rank c \<le> f32_rank a"
  by (simp_all add: f32_le_def f32_finite_not_nan)

lemma f32_add_le:
  assumes "f32_finite a" "f32_finite b" "f32_finite c" and "f32_value a + f32_value b \<le> f32_value c"
  shows "f32_le (f32_add a b) c"
  using float_add_le [of single_format] assms
  by (simp add: f32_le_rank f32_add_rank) (simp add: f32_facts)

lemma f32_add_ge:
  assumes "f32_finite a" "f32_finite b" "f32_finite c" and "f32_value c \<le> f32_value a + f32_value b"
  shows "f32_le c (f32_add a b)"
  using float_add_ge [of single_format] assms
  by (simp add: f32_le_rank f32_add_rank) (simp add: f32_facts)

lemma f32_mul_le:
  assumes "f32_finite a" "f32_finite b" "f32_finite c"
    and "f32_value a * f32_value b \<le> f32_value c * 2 ^ 149"
  shows "f32_le (f32_mul a b) c"
  using float_mul_le [of single_format] assms
  by (simp add: f32_le_rank f32_mul_rank) (simp add: f32_facts single_format_def)

lemma f32_mul_ge:
  assumes "f32_finite a" "f32_finite b" "f32_finite c"
    and "f32_value c * 2 ^ 149 \<le> f32_value a * f32_value b"
  shows "f32_le c (f32_mul a b)"
  using float_mul_ge [of single_format] assms
  by (simp add: f32_le_rank f32_mul_rank) (simp add: f32_facts single_format_def)

lemma f32_div_le:
  assumes "f32_finite a" "f32_finite b" "f32_finite c" "0 < f32_value b"
    and "f32_value a * 2 ^ 149 \<le> f32_value c * f32_value b"
  shows "f32_le (f32_div a b) c"
  using float_div_le [of single_format] assms
  by (simp add: f32_le_rank f32_div_rank) (simp add: f32_facts single_format_def)

lemma f32_div_ge:
  assumes "f32_finite a" "f32_finite b" "f32_finite c" "0 < f32_value b"
    and "f32_value c * f32_value b \<le> f32_value a * 2 ^ 149"
  shows "f32_le c (f32_div a b)"
  using float_div_ge [of single_format] assms
  by (simp add: f32_le_rank f32_div_rank) (simp add: f32_facts single_format_def)

text \<open>The order is total on what is not NaN, and bounded numbers are finite.\<close>

lemma f32_less_not_le: "\<not> f32_nan a \<Longrightarrow> \<not> f32_nan b \<Longrightarrow> f32_less a b \<longleftrightarrow> \<not> f32_le b a"
  by (auto simp: f32_less_def f32_le_def)

lemma f32_le_trans: "f32_le a b \<Longrightarrow> f32_le b c \<Longrightarrow> f32_le a c"
  by (auto simp: f32_le_def)

lemma f32_between_finite: "f32_le lo b \<Longrightarrow> f32_le b hi \<Longrightarrow> f32_finite lo \<Longrightarrow> f32_finite hi \<Longrightarrow> f32_finite b"
  by (auto simp: f32_le_def f32_finite_def f32_rank_def signed_def split: if_splits)

definition f32_min :: "f32 \<Rightarrow> f32 \<Rightarrow> f32" where
  "f32_min a b = (if f32_less b a then b else a)"

definition f32_max :: "f32 \<Rightarrow> f32 \<Rightarrow> f32" where
  "f32_max a b = (if f32_less a b then b else a)"

definition f32_clamp :: "f32 \<Rightarrow> f32 \<Rightarrow> f32 \<Rightarrow> f32" where
  "f32_clamp v lo hi = (if f32_less v lo then lo else if f32_less hi v then hi else v)"

section \<open>Literals and conversions\<close>

text \<open>The number nearest to a quotient of integers: a literal of the source, such as 0.2F.\<close>

definition f32_ratio :: "nat \<Rightarrow> nat \<Rightarrow> f32" where
  "f32_ratio num den = f32_of_number (round_float single_format False (num * 2 ^ 149) den)"

definition f64_ratio :: "nat \<Rightarrow> nat \<Rightarrow> f64" where
  "f64_ratio num den = f64_of_number (round_float double_format False (num * 2 ^ 1074) den)"

definition f32_of_int :: "int \<Rightarrow> f32" where
  "f32_of_int i = f32_of_number (float_of_int single_format i)"

text \<open>\<open>static_cast\<close> between the two formats: exact one way, rounded the other.\<close>

definition convert_float :: "float_format \<Rightarrow> float_format \<Rightarrow> float_number \<Rightarrow> float_number" where
  "convert_float f g x =
     (if infinity f < snd x then nan_number g
      else if snd x = infinity f then (fst x, infinity g)
      else round_float g (fst x) (scaled (fraction_bits f) (snd x) * 2 ^ unit_exponent g) (2 ^ unit_exponent f))"

definition f64_of_f32 :: "f32 \<Rightarrow> f64" where
  "f64_of_f32 b = f64_of_number (convert_float single_format double_format (f32_number b))"

definition f32_of_f64 :: "f64 \<Rightarrow> f32" where
  "f32_of_f64 b = f32_of_number (convert_float double_format single_format (f64_number b))"

text \<open>\<open>std::ceil\<close> of a \<open>float\<close>: integral, with the sign of its argument.\<close>

definition f32_ceil :: "f32 \<Rightarrow> f32" where
  "f32_ceil b =
     (if \<not> f32_finite b then b
      else let i = - (- f32_value b div 2 ^ 149) in
        if i = 0 then (if bit b 31 then 0x80000000 else 0) else f32_of_int i)"

section \<open>Square root\<close>

text \<open>The integer square root, two bits at a time.\<close>

function floor_sqrt :: "nat \<Rightarrow> nat" where
  "floor_sqrt n =
     (if n = 0 then 0
      else let r = 2 * floor_sqrt (n div 4) in if (r + 1) * (r + 1) \<le> n then r + 1 else r)"
  by pat_completeness auto
termination
  by (relation "measure id") auto

declare floor_sqrt.simps [simp del]

lemma floor_sqrt_bounds: "floor_sqrt n * floor_sqrt n \<le> n \<and> n < (floor_sqrt n + 1) * (floor_sqrt n + 1)"
proof (induction n rule: floor_sqrt.induct)
  case (1 n)
  show ?case
  proof (cases "n = 0")
    case False
    define r where "r = floor_sqrt (n div 4)"
    have ih: "r * r \<le> n div 4" "n div 4 < (r + 1) * (r + 1)"
      using 1 False by (simp_all add: r_def)
    then have "4 * (r * r) \<le> n" "n < 4 * ((r + 1) * (r + 1))" by presburger+
    then have "2 * r * (2 * r) \<le> n" "n < (2 * r + 1 + 1) * (2 * r + 1 + 1)" by (simp_all add: algebra_simps)
    then show ?thesis
      using False by (subst (1 2 3 4) floor_sqrt.simps) (simp add: Let_def r_def)
  qed (simp add: floor_sqrt.simps)
qed

text \<open>
  \<open>std::sqrt\<close> of a \<open>double\<close>, correctly rounded: with \<open>x\<close> units the root has
  \<open>sqrt (x * 2 ^ 1074)\<close> units, which is beyond \<open>2 ^ 536\<close>, so half a unit more or
  less stands for any fraction.
\<close>

definition float_sqrt :: "float_format \<Rightarrow> float_number \<Rightarrow> float_number" where
  "float_sqrt f x =
     (if infinity f < snd x \<or> (fst x \<and> snd x \<noteq> 0) then nan_number f
      else if snd x = 0 \<or> snd x = infinity f then x
      else let y = scaled (fraction_bits f) (snd x) * 2 ^ unit_exponent f; r = floor_sqrt y in
        round_float f False (2 * r + (if r * r = y then 0 else 1)) 2)"

definition f64_sqrt :: "f64 \<Rightarrow> f64" where
  "f64_sqrt b = f64_of_number (float_sqrt double_format (f64_number b))"

section \<open>Ranges\<close>

text \<open>The finite numbers between two numbers of units.\<close>

definition f32_in :: "int \<Rightarrow> int \<Rightarrow> f32 \<Rightarrow> bool" where
  "f32_in lo hi b = (f32_finite b \<and> lo \<le> f32_value b \<and> f32_value b \<le> hi)"

lemma f32_in_weaken: "f32_in lo hi b \<Longrightarrow> lo' \<le> lo \<Longrightarrow> hi \<le> hi' \<Longrightarrow> f32_in lo' hi' b"
  by (simp add: f32_in_def)

lemma f32_in_le:
  assumes "f32_finite c" "f32_finite d" "f32_le c b" "f32_le b d"
  shows "f32_in (f32_value c) (f32_value d) b"
proof -
  have "f32_finite b" by (rule f32_between_finite [OF assms(3,4,1,2)])
  then show ?thesis using assms by (simp add: f32_in_def f32_le_value)
qed

text \<open>A result between two numbers of the format stays between them after rounding.\<close>

lemma f32_add_in:
  assumes "f32_finite a" "f32_finite b" "f32_finite c" "f32_finite d"
    and "f32_value c \<le> f32_value a + f32_value b" "f32_value a + f32_value b \<le> f32_value d"
  shows "f32_in (f32_value c) (f32_value d) (f32_add a b)"
  using assms by (intro f32_in_le f32_add_le f32_add_ge)

lemma f32_sub_in:
  assumes "f32_finite a" "f32_finite b" "f32_finite c" "f32_finite d"
    and "f32_value c \<le> f32_value a - f32_value b" "f32_value a - f32_value b \<le> f32_value d"
  shows "f32_in (f32_value c) (f32_value d) (f32_sub a b)"
  unfolding f32_sub_def using assms by (intro f32_add_in) simp_all

lemma f32_mul_in:
  assumes "f32_finite a" "f32_finite b" "f32_finite c" "f32_finite d"
    and "f32_value c * 2 ^ 149 \<le> f32_value a * f32_value b"
    and "f32_value a * f32_value b \<le> f32_value d * 2 ^ 149"
  shows "f32_in (f32_value c) (f32_value d) (f32_mul a b)"
  using assms by (intro f32_in_le f32_mul_le f32_mul_ge)

lemma f32_div_in:
  assumes "f32_finite a" "f32_finite b" "f32_finite c" "f32_finite d" "0 < f32_value b"
    and "f32_value c * f32_value b \<le> f32_value a * 2 ^ 149"
    and "f32_value a * 2 ^ 149 \<le> f32_value d * f32_value b"
  shows "f32_in (f32_value c) (f32_value d) (f32_div a b)"
  using assms by (intro f32_in_le f32_div_le f32_div_ge)

lemma f32_zero [simp]: "f32_finite 0" "f32_value 0 = 0" "\<not> f32_nan 0"
  by (simp_all add: f32_finite_def f32_magnitude_def f32_value_def signed_def f32_nan_def)

text \<open>Integers below \<open>2 ^ 24\<close> are exact.\<close>

lemma round_magnitude_dvd:
  assumes "num < 2 * 2 ^ m * 2 ^ e" and "2 ^ e dvd num"
  shows "scaled m (round_magnitude m num 1) = num"
proof -
  define k where "k = bit_length (num div 1) - (m + 1)"
  note val = round_magnitude_value [where den = 1 and num = num and m = m, folded k_def]
  have "k \<le> e"
  proof (rule ccontr)
    assume "\<not> k \<le> e"
    then have "e + 1 \<le> k" by simp
    then have "(2 :: nat) ^ (e + 1) \<le> 2 ^ k" by (intro power_increasing) simp_all
    then have "2 ^ m * 2 ^ (e + 1) \<le> 2 ^ m * (2 :: nat) ^ k" by simp
    also have "\<dots> \<le> num" using val(2) \<open>\<not> k \<le> e\<close> by simp
    finally show False using assms(1) by simp
  qed
  then have "2 ^ k dvd num" using assms(2) by (meson dvd_trans le_imp_power_dvd)
  then have "nearest_even num (1 * 2 ^ k) * 2 ^ k = num"
    by (auto simp: nearest_even_def Let_def elim!: dvdE)
  with val(1) show ?thesis by simp
qed

lemma f32_value_of:
  assumes "n < 2 ^ 31"
  shows "f32_value (f32_of_number (s, n)) = signed s (scaled 23 n)"
    and "f32_finite (f32_of_number (s, n)) \<longleftrightarrow> n < 0x7F800000"
  using f32_number_of [of "(s, n)"] assms
  by (simp_all add: f32_value_def f32_number_def f32_finite_def)

lemma f32_ratio_integer:
  assumes "n < 2 ^ 24"
  shows "f32_finite (f32_ratio n 1)" and "f32_value (f32_ratio n 1) = int n * 2 ^ 149"
proof -
  let ?r = "round_magnitude 23 (n * 2 ^ 149) 1"
  have s: "scaled 23 ?r = n * 2 ^ 149"
    by (rule round_magnitude_dvd [of _ _ 149]) (use assms in simp_all)
  have "?r \<le> 0x4B800000"
    by (rule round_magnitude_le) (use assms in \<open>simp_all add: scaled_def\<close>)
  then have "f32_ratio n 1 = f32_of_number (False, ?r)" "?r < 0x7F800000"
    by (simp_all add: f32_ratio_def round_float_def single_format_def)
  then show "f32_finite (f32_ratio n 1)" "f32_value (f32_ratio n 1) = int n * 2 ^ 149"
    using f32_value_of [of ?r False] s by (simp_all add: signed_def)
qed

lemma f32_of_nat_ratio: "f32_of_int (int n) = f32_ratio n 1"
proof (cases "n = 0")
  case True
  then show ?thesis
    by (simp add: f32_of_int_def f32_ratio_def float_of_int_def round_float_0)
next
  case False
  then show ?thesis by (simp add: f32_of_int_def f32_ratio_def float_of_int_def single_format_def)
qed

lemma f32_of_int_exact:
  assumes "0 \<le> i" "i < 2 ^ 24"
  shows "f32_finite (f32_of_int i)" and "f32_value (f32_of_int i) = i * 2 ^ 149"
proof -
  obtain n where "i = int n" using assms(1) nonneg_int_cases by blast
  then show "f32_finite (f32_of_int i)" "f32_value (f32_of_int i) = i * 2 ^ 149"
    using assms(2) f32_ratio_integer [of n] by (simp_all add: f32_of_nat_ratio)
qed

lemma f32_ratio_half: "f32_ratio 1 2 = 0x3F000000"
proof -
  have "round_magnitude 23 (1 * 2 ^ 149) 2 = 0x3F000000"
    by (rule round_magnitude_exact) (simp_all add: scaled_def)
  then show ?thesis
    by (simp add: f32_ratio_def round_float_def single_format_def f32_of_number_def)
qed

lemma f32_half_value: "f32_finite (f32_ratio 1 2)" "f32_value (f32_ratio 1 2) = 2 ^ 148"
  unfolding f32_ratio_half
  by (simp_all add: f32_finite_def f32_value_def f32_magnitude_def scaled_def signed_def)

section \<open>Minimum and maximum\<close>

lemma f32_max_zero_sub:
  assumes "f32_finite a" "f32_finite b" "0 \<le> f32_value b" "0 \<le> f32_value a"
  shows "f32_in 0 (f32_value a) (f32_max 0 (f32_sub a b))"
proof (cases "f32_less 0 (f32_sub a b)")
  case True
  have "f32_le (f32_sub a b) a"
    unfolding f32_sub_def by (rule f32_add_le) (use assms in simp_all)
  moreover have "f32_le 0 (f32_sub a b)" using True by (auto simp: f32_less_def f32_le_def)
  ultimately show ?thesis
    using f32_in_le [of 0 a "f32_sub a b"] assms True by (simp add: f32_max_def)
next
  case False
  then show ?thesis using assms by (simp add: f32_max_def f32_in_def)
qed

lemma f32_min_in:
  assumes "f32_finite a" "\<not> f32_nan b" "f32_finite c" "f32_le c b" "f32_value c \<le> f32_value a"
  shows "f32_in (f32_value c) (f32_value a) (f32_min a b)"
proof (cases "f32_less b a")
  case True
  then have "f32_le b a" by (auto simp: f32_less_def f32_le_def)
  then show ?thesis
    using f32_in_le [of c a b] assms True by (simp add: f32_min_def)
next
  case False
  then show ?thesis using assms by (simp add: f32_min_def f32_in_def)
qed

lemma f32_min_nan: "f32_nan b \<Longrightarrow> f32_min a b = a"
  by (simp add: f32_min_def f32_less_def)

lemma f32_max_nan: "f32_nan a \<Longrightarrow> f32_max a b = a"
  by (simp add: f32_max_def f32_less_def)

end
