(* ===== verification/Entity_Types.thy ===== *)
theory Entity_Types
  imports Float_Ops Item
begin

text \<open>
  The vocabulary of the entity component (include/mc/entity/entity.hpp): vectors
  and boxes of doubles, categories, sources of damage, and the types of entities
  with their registry (class \<open>EntityTypeRegistry\<close> of src/entity/entity.cpp).
\<close>

section \<open>Vectors and boxes\<close>

record vec3 =
  vec_x :: f64
  vec_y :: f64
  vec_z :: f64

definition vec3 :: "f64 \<Rightarrow> f64 \<Rightarrow> f64 \<Rightarrow> vec3" where
  "vec3 x y z = \<lparr>vec_x = x, vec_y = y, vec_z = z\<rparr>"

definition vec_add :: "vec3 \<Rightarrow> vec3 \<Rightarrow> vec3" where
  "vec_add a b = vec3 (f64_add (vec_x a) (vec_x b)) (f64_add (vec_y a) (vec_y b)) (f64_add (vec_z a) (vec_z b))"

definition vec_sub :: "vec3 \<Rightarrow> vec3 \<Rightarrow> vec3" where
  "vec_sub a b = vec3 (f64_sub (vec_x a) (vec_x b)) (f64_sub (vec_y a) (vec_y b)) (f64_sub (vec_z a) (vec_z b))"

definition vec_scale :: "vec3 \<Rightarrow> f64 \<Rightarrow> vec3" where
  "vec_scale a k = vec3 (f64_mul (vec_x a) k) (f64_mul (vec_y a) k) (f64_mul (vec_z a) k)"

definition length_squared :: "vec3 \<Rightarrow> f64" where
  "length_squared a = f64_add
     (f64_add (f64_mul (vec_x a) (vec_x a)) (f64_mul (vec_y a) (vec_y a))) (f64_mul (vec_z a) (vec_z a))"

record aabb =
  aabb_minimum :: vec3
  aabb_maximum :: vec3

definition aabb_intersects :: "aabb \<Rightarrow> aabb \<Rightarrow> bool" where
  "aabb_intersects a b =
     (f64_le (vec_x (aabb_minimum b)) (vec_x (aabb_maximum a)) \<and>
      f64_le (vec_x (aabb_minimum a)) (vec_x (aabb_maximum b)) \<and>
      f64_le (vec_y (aabb_minimum b)) (vec_y (aabb_maximum a)) \<and>
      f64_le (vec_y (aabb_minimum a)) (vec_y (aabb_maximum b)) \<and>
      f64_le (vec_z (aabb_minimum b)) (vec_z (aabb_maximum a)) \<and>
      f64_le (vec_z (aabb_minimum a)) (vec_z (aabb_maximum b)))"

definition aabb_contains :: "aabb \<Rightarrow> vec3 \<Rightarrow> bool" where
  "aabb_contains a p =
     (f64_le (vec_x (aabb_minimum a)) (vec_x p) \<and> f64_le (vec_x p) (vec_x (aabb_maximum a)) \<and>
      f64_le (vec_y (aabb_minimum a)) (vec_y p) \<and> f64_le (vec_y p) (vec_y (aabb_maximum a)) \<and>
      f64_le (vec_z (aabb_minimum a)) (vec_z p) \<and> f64_le (vec_z p) (vec_z (aabb_maximum a)))"

section \<open>Categories and damage\<close>

datatype entity_category =
    Monster | Creature | Ambient | Axolotls | Underground_Water_Creature | Water_Creature
  | Water_Ambient | Misc

record category_properties =
  category_maximum :: i32
  category_friendly :: bool
  category_persistent :: bool
  no_despawn_distance :: i32
  despawn_distance :: i32

primrec properties_of_category :: "entity_category \<Rightarrow> category_properties" where
  "properties_of_category Monster = \<lparr>category_maximum = 70, category_friendly = False,
     category_persistent = False, no_despawn_distance = 32, despawn_distance = 128\<rparr>"
| "properties_of_category Creature = \<lparr>category_maximum = 10, category_friendly = True,
     category_persistent = True, no_despawn_distance = 32, despawn_distance = 128\<rparr>"
| "properties_of_category Ambient = \<lparr>category_maximum = 15, category_friendly = True,
     category_persistent = False, no_despawn_distance = 32, despawn_distance = 128\<rparr>"
| "properties_of_category Axolotls = \<lparr>category_maximum = 5, category_friendly = True,
     category_persistent = False, no_despawn_distance = 32, despawn_distance = 128\<rparr>"
| "properties_of_category Underground_Water_Creature = \<lparr>category_maximum = 5, category_friendly = True,
     category_persistent = False, no_despawn_distance = 32, despawn_distance = 128\<rparr>"
| "properties_of_category Water_Creature = \<lparr>category_maximum = 5, category_friendly = True,
     category_persistent = False, no_despawn_distance = 32, despawn_distance = 128\<rparr>"
| "properties_of_category Water_Ambient = \<lparr>category_maximum = 20, category_friendly = True,
     category_persistent = False, no_despawn_distance = 32, despawn_distance = 64\<rparr>"
| "properties_of_category Misc = \<lparr>category_maximum = -1, category_friendly = True,
     category_persistent = True, no_despawn_distance = 32, despawn_distance = 128\<rparr>"

datatype damage_type =
  Generic | Melee | Projectile | Fire | Fall | Drowning | Poison | Wither | Void_Damage

type_synonym entity_id = u32

record damage_source =
  damage_kind :: damage_type
  attacker :: "entity_id option"
  bypasses_invulnerability :: bool
  bypasses_armor :: bool

definition generic_damage :: damage_source where
  "generic_damage = \<lparr>damage_kind = Generic, attacker = None,
     bypasses_invulnerability = False, bypasses_armor = False\<rparr>"

definition internal_damage :: "damage_type \<Rightarrow> damage_source" where
  "internal_damage t = \<lparr>damage_kind = t, attacker = None,
     bypasses_invulnerability = True, bypasses_armor = True\<rparr>"

section \<open>Entity types\<close>

record entity_type_properties =
  type_category :: entity_category
  type_width :: f32
  type_height :: f32
  type_max_health :: f32
  type_movement_speed :: f32
  type_follow_range :: f32
  affected_by_gravity :: bool
  type_persistent :: bool
  aquatic :: bool
  experience_reward :: u16

definition plain_properties :: entity_type_properties where
  "plain_properties = \<lparr>type_category = Misc, type_width = f32_ratio 3 5, type_height = f32_ratio 9 5,
     type_max_health = 0, type_movement_speed = f32_ratio 1 10, type_follow_range = f32_ratio 16 1,
     affected_by_gravity = True, type_persistent = False, aquatic = False, experience_reward = 0\<rparr>"

record entity_type =
  entity_type_id :: u32
  entity_type_name :: resource_location
  type_implementation :: string
  type_properties :: entity_type_properties
  entity_protocol_id :: "u32 option"

definition contains_text :: "string \<Rightarrow> string \<Rightarrow> bool" where
  "contains_text str part = list_ex (\<lambda>i. starts_with (drop i str) part) [0..<length str + 1]"

definition infer_category :: "string \<Rightarrow> string \<Rightarrow> entity_category" where
  "infer_category impl name =
     (if contains_text impl ''.monster.'' \<or> contains_text impl ''.boss.'' \<or>
         name \<in> {''minecraft:creeper'', ''minecraft:slime'', ''minecraft:ghast'', ''minecraft:phantom''}
      then Monster
      else if contains_text impl ''.ambient.'' then Ambient
      else if name = ''minecraft:axolotl'' then Axolotls
      else if contains_text impl ''.fish.'' \<or> name \<in> {''minecraft:squid'', ''minecraft:glow_squid''}
      then Water_Ambient
      else if name \<in> {''minecraft:dolphin'', ''minecraft:turtle''} then Water_Creature
      else if contains_text impl ''.animal.'' \<or> contains_text impl ''.npc.'' \<or>
              contains_text impl ''.player.''
      then Creature
      else Misc)"

definition default_type_properties :: "entity_category \<Rightarrow> string \<Rightarrow> entity_type_properties" where
  "default_type_properties category name =
     (let p = plain_properties\<lparr>type_category := category\<rparr>;
          p = (if category = Monster
               then p\<lparr>type_max_health := f32_ratio 20 1, type_movement_speed := f32_ratio 23 100,
                 type_follow_range := f32_ratio 35 1\<rparr>
               else if category \<noteq> Misc
               then p\<lparr>type_max_health := f32_ratio 10 1, type_movement_speed := f32_ratio 1 5,
                 type_persistent := category = Creature\<rparr>
               else p);
          p = p\<lparr>aquatic := category \<in> {Water_Creature, Water_Ambient, Underground_Water_Creature, Axolotls} \<or>
                 name \<in> {''minecraft:drowned'', ''minecraft:guardian'', ''minecraft:elder_guardian''}\<rparr>;
          p = (if aquatic p \<or> category = Ambient then p\<lparr>affected_by_gravity := False\<rparr> else p)
      in if category = Monster then p\<lparr>experience_reward := 5\<rparr>
         else if category = Creature then p\<lparr>experience_reward := 3\<rparr>
         else if aquatic p \<or> category = Ambient then p\<lparr>experience_reward := 1\<rparr> else p)"

definition new_entity_type ::
  "u32 \<Rightarrow> resource_location \<Rightarrow> string \<Rightarrow> entity_type_properties \<Rightarrow> entity_type result" where
  "new_entity_type i name impl p =
     guardR (f32_le (type_width p) 0 \<or> f32_le (type_height p) 0 \<or> f32_less (type_max_health p) 0 \<or>
         f32_less (type_movement_speed p) 0)
       (Invalid_Argument ''entity type properties are invalid'')
     (Inr \<lparr>entity_type_id = i, entity_type_name = name, type_implementation = impl, type_properties = p,
       entity_protocol_id = None\<rparr>)"

text \<open>The registry is the vector of its types.\<close>

type_synonym entity_registry = "entity_type list"

definition type_by_id :: "entity_registry \<Rightarrow> u32 \<Rightarrow> entity_type result" where
  "type_by_id types i =
     (if unat i \<ge> length types then Inl (Out_Of_Range ''entity type ID is not registered'')
      else Inr (types ! unat i))"

definition type_by_name :: "entity_registry \<Rightarrow> string \<Rightarrow> entity_type result" where
  "type_by_name types name = bindR (parse_location name) (\<lambda>identifier.
     case find (\<lambda>t. entity_type_name t = identifier) types of
       None \<Rightarrow> Inl (Out_Of_Range ''entity type name is not registered'')
     | Some t \<Rightarrow> Inr t)"

definition type_by_protocol_id :: "entity_registry \<Rightarrow> u32 \<Rightarrow> entity_type result" where
  "type_by_protocol_id types i = (case find (\<lambda>t. entity_protocol_id t = Some i) types of
       None \<Rightarrow> Inl (Out_Of_Range ''entity protocol ID is not registered'')
     | Some t \<Rightarrow> Inr t)"

definition register_type ::
  "resource_location \<Rightarrow> string \<Rightarrow> entity_type_properties \<Rightarrow> entity_registry \<Rightarrow> entity_registry result" where
  "register_type name impl p types =
     guardR (list_ex (\<lambda>t. entity_type_name t = name) types)
       (Invalid_Argument ''entity type name is already registered'')
     (bindR (new_entity_type (word_of_nat (length types)) name impl p) (\<lambda>t. Inr (types @ [t])))"

definition builtin_type :: "string \<Rightarrow> string \<Rightarrow> entity_category \<Rightarrow> entity_registry \<Rightarrow> entity_registry result" where
  "builtin_type name impl category types = bindR (parse_location name) (\<lambda>name.
     register_type name impl (default_type_properties category []) types)"

definition new_entity_registry :: "entity_registry result" where
  "new_entity_registry =
     bindR (builtin_type ''minecraft:cow'' ''net.minecraft.world.entity.animal.cow.Cow'' Creature []) (\<lambda>r.
     bindR (builtin_type ''minecraft:zombie'' ''net.minecraft.world.entity.monster.zombie.Zombie'' Monster r) (\<lambda>r.
     bindR (builtin_type ''minecraft:bat'' ''net.minecraft.world.entity.ambient.Bat'' Ambient r)
       (builtin_type ''minecraft:cod'' ''net.minecraft.world.entity.animal.fish.Cod'' Water_Ambient)))"

record entity_load_report =
  types_encountered :: nat
  types_loaded :: nat
  types_existing :: nat

text \<open>A change of the element that \<open>std::find_if\<close> returns.\<close>

fun update_first :: "('a \<Rightarrow> bool) \<Rightarrow> ('a \<Rightarrow> 'a) \<Rightarrow> 'a list \<Rightarrow> 'a list" where
  "update_first p f [] = []"
| "update_first p f (x # xs) = (if p x then f x # xs else x # update_first p f xs)"

text \<open>One record of the normalised registries: an entity type, known already or new.\<close>

definition load_entity_record ::
  "string \<Rightarrow> entity_load_report \<times> entity_registry \<Rightarrow> (entity_load_report \<times> entity_registry) result" where
  "load_entity_record line = (\<lambda>(report, types).
     if \<not> starts_with line [CHR ''E'', CHR 0x09] then Inr (report, types)
     else case find_from CHR 0x09 2 line of
       None \<Rightarrow> Inl (Runtime_Error ''normalized entity registry record is invalid'')
     | Some first \<Rightarrow> (case find_from CHR 0x09 (first + 1) line of
         None \<Rightarrow> Inl (Runtime_Error ''normalized entity registry record is invalid'')
       | Some second \<Rightarrow>
           (case from_chars_all 32 (take (first - 2) (drop 2 line)) of
              None \<Rightarrow> Inl (Runtime_Error ''normalized entity protocol ID is invalid'')
            | Some i \<Rightarrow>
                if i \<noteq> types_encountered report
                then Inl (Runtime_Error ''normalized entity protocol ID is invalid'')
                else
                  let report = report\<lparr>types_encountered := types_encountered report + 1\<rparr>;
                      name_text = take (second - first - 1) (drop (first + 1) line);
                      impl = drop (second + 1) line
                  in bindR (parse_location name_text) (\<lambda>name.
                    if list_ex (\<lambda>t. entity_type_name t = name) types
                    then Inr (report\<lparr>types_existing := types_existing report + 1\<rparr>,
                      update_first (\<lambda>t. entity_type_name t = name)
                        (\<lambda>t. t\<lparr>entity_protocol_id := Some (word_of_nat i)\<rparr>) types)
                    else bindR (register_type name impl
                        (default_type_properties (infer_category impl name_text) name_text) types) (\<lambda>types.
                      Inr (report\<lparr>types_loaded := types_loaded report + 1\<rparr>,
                        butlast types @ [last types\<lparr>entity_protocol_id := Some (word_of_nat i)\<rparr>]))))))"

definition load_entity_types :: "string \<Rightarrow> entity_registry \<Rightarrow> (entity_load_report \<times> entity_registry) result" where
  "load_entity_types input types = (case stream_lines input of
     [] \<Rightarrow> Inl (Runtime_Error ''normalized registry stream has an invalid header'')
   | line # lines \<Rightarrow>
       if \<not> starts_with line (''MCREGISTRIES1'' @ [CHR 0x09])
       then Inl (Runtime_Error ''normalized registry stream has an invalid header'')
       else foldR load_entity_record lines
         (\<lparr>types_encountered = 0, types_loaded = 0, types_existing = 0\<rparr>, types))"

section \<open>The invariant of the registry\<close>

text \<open>
  Names are unique, the identifier of a type is its place, and the identifiers of the
  protocol that were assigned are unique and below the number of records seen.
\<close>

definition assigned_ids :: "entity_registry \<Rightarrow> u32 list" where
  "assigned_ids types = concat (map (\<lambda>t. case entity_protocol_id t of None \<Rightarrow> [] | Some i \<Rightarrow> [i]) types)"

definition entity_registry_ok :: "nat \<Rightarrow> entity_registry \<Rightarrow> bool" where
  "entity_registry_ok n types =
     (distinct (map entity_type_name types) \<and>
      map entity_type_id types = map word_of_nat [0..<length types] \<and>
      distinct (assigned_ids types) \<and> list_all (\<lambda>i. unat i < n) (assigned_ids types))"

lemma update_first_map:
  "(\<And>x. g (f x) = g x) \<Longrightarrow> map g (update_first p f xs) = map g xs"
  by (induction xs) auto

lemma length_update_first [simp]: "length (update_first p f xs) = length xs"
  by (induction xs) auto

lemma assigned_ids_update:
  fixes p :: "entity_type \<Rightarrow> bool" and i :: u32
  defines "g \<equiv> (\<lambda>t. t\<lparr>entity_protocol_id := Some i\<rparr>)"
  shows "set (assigned_ids (update_first p g types)) \<subseteq> insert i (set (assigned_ids types))"
    and "distinct (assigned_ids types) \<Longrightarrow> i \<notin> set (assigned_ids types) \<Longrightarrow>
      distinct (assigned_ids (update_first p g types))"
proof -
  show sub: "set (assigned_ids (update_first p g types)) \<subseteq> insert i (set (assigned_ids types))" for types
    by (induction types) (auto simp: assigned_ids_def g_def)
  show "distinct (assigned_ids types) \<Longrightarrow> i \<notin> set (assigned_ids types) \<Longrightarrow>
      distinct (assigned_ids (update_first p g types))"
  proof (induction types)
    case (Cons t types)
    then show ?case
      using sub [of types] by (auto simp: assigned_ids_def g_def split: option.splits)
  qed simp
qed

lemma register_type_cases:
  "register_type name impl p types = Inr types' \<Longrightarrow>
   \<exists>t. types' = types @ [t] \<and> entity_type_name t = name \<and> name \<notin> entity_type_name ` set types \<and>
     entity_type_id t = word_of_nat (length types) \<and> entity_protocol_id t = None"
  by (auto simp: register_type_def new_entity_type_def guardR_Inr_iff bindR_Inr_iff list_ex_iff)

lemma entity_registry_ok_register:
  "register_type name impl p types = Inr types' \<Longrightarrow> entity_registry_ok n types \<Longrightarrow> entity_registry_ok n types'"
  by (drule register_type_cases) (auto simp: entity_registry_ok_def assigned_ids_def)

lemma load_entity_record_ok:
  assumes "load_entity_record line (report, types) = Inr (report', types')"
    and ok: "entity_registry_ok (types_encountered report) types"
  shows "entity_registry_ok (types_encountered report') types'"
proof (cases "starts_with line [CHR ''E'', CHR 0x09]")
  case True
  let ?n = "types_encountered report"
  let ?g = "\<lambda>t. t\<lparr>entity_protocol_id := Some (word_of_nat ?n)\<rparr>"
  obtain first second where "find_from CHR 0x09 2 line = Some first"
      "find_from CHR 0x09 (first + 1) line = Some second"
    and i: "from_chars_all 32 (take (first - 2) (drop 2 line)) = Some ?n"
    using assms(1) True by (auto simp: load_entity_record_def Let_def split: option.splits if_splits)
  from i have n: "?n < 2 ^ 32" by (auto simp: from_chars_all_def split: if_splits)
  then have u: "unat (word_of_nat ?n :: u32) = ?n" by (simp add: unat_of_nat)
  then have new: "(word_of_nat ?n :: u32) \<notin> set (assigned_ids types)"
    using ok by (auto simp: entity_registry_ok_def list_all_iff)
  have r: "types_encountered report' = Suc ?n"
    using assms(1) True i \<open>find_from _ _ _ = Some first\<close> \<open>find_from _ _ _ = Some second\<close>
    by (auto simp: load_entity_record_def Let_def bindR_Inr_iff split: if_splits)
  have mono: "entity_registry_ok (Suc ?n) types"
    using ok by (auto simp: entity_registry_ok_def list_all_iff less_Suc_eq)
  consider name where "types' = update_first (\<lambda>t. entity_type_name t = name) ?g types"
    | name impl p ts where "register_type name impl p types = Inr ts" "types' = butlast ts @ [?g (last ts)]"
    using assms(1) True i \<open>find_from _ _ _ = Some first\<close> \<open>find_from _ _ _ = Some second\<close>
    by (auto simp: load_entity_record_def Let_def bindR_Inr_iff split: if_splits)
  then show ?thesis
  proof cases
    case 1
    have "map entity_type_name types' = map entity_type_name types"
      "map entity_type_id types' = map entity_type_id types"
      unfolding 1 by (rule update_first_map; simp)+
    then show ?thesis
      using ok mono u new assigned_ids_update [where p = "\<lambda>t. entity_type_name t = name" and i = "word_of_nat ?n" and types = types]
      by (auto simp: entity_registry_ok_def r 1 list_all_iff)
  next
    case 2
    then show ?thesis
      using register_type_cases [OF 2(1)] mono u new
      by (auto simp: entity_registry_ok_def r assigned_ids_def)
  qed
next
  case False
  then show ?thesis using assms by (simp add: load_entity_record_def)
qed

lemma load_entity_types_ok:
  assumes "load_entity_types input types = Inr (report, types')"
    and "entity_registry_ok 0 types"
  shows "entity_registry_ok (types_encountered report) types'"
proof -
  let ?start = "\<lparr>types_encountered = 0, types_loaded = 0, types_existing = 0\<rparr>"
  let ?inv = "\<lambda>(report, types). entity_registry_ok (types_encountered report) types"
  obtain line lines where "foldR load_entity_record lines (?start, types) = Inr (report, types')"
    using assms(1) by (auto simp: load_entity_types_def split: list.splits if_splits)
  moreover have "?inv (?start, types)" using assms(2) by simp
  ultimately have "?inv (report, types')"
    by (rule foldR_invariant) (auto dest: load_entity_record_ok)
  then show ?thesis by simp
qed

end
