(* ===== verification/Survival.thy ===== *)
theory Survival
  imports Entity_Types "HOL-Library.AList"
begin

text \<open>
  The player component (include/mc/player/player.hpp, src/player/player.cpp):
  experience, statistics and the survival state with its operations. Numbers are
  the IEEE patterns of theory Float_Ops; \<open>std::sin\<close> and \<open>std::cos\<close>, whose results the
  standard leaves to the implementation, are parameters of \<open>blocks_attack\<close>.
\<close>

section \<open>Experience\<close>

datatype difficulty = Peaceful | Easy | Normal | Hard

abbreviation f32_half :: f32 where "f32_half \<equiv> f32_ratio 1 2"
abbreviation f32_1 :: f32 where "f32_1 \<equiv> f32_ratio 1 1"
abbreviation f32_20 :: f32 where "f32_20 \<equiv> f32_ratio 20 1"

definition scale_hostile_damage :: "f32 \<Rightarrow> difficulty \<Rightarrow> f32" where
  "scale_hostile_damage normal difficulty =
     (if \<not> f32_finite normal \<or> f32_le normal 0 then 0
      else case difficulty of
        Peaceful \<Rightarrow> 0
      | Easy \<Rightarrow> f32_min normal (f32_add (f32_mul normal f32_half) f32_1)
      | Normal \<Rightarrow> normal
      | Hard \<Rightarrow> f32_mul normal (f32_ratio 3 2))"

record experience_state =
  experience_total :: i32
  experience_level :: int
  experience_progress :: f32

definition next_level_cost :: "int \<Rightarrow> int" where
  "next_level_cost level =
     (if level < 15 then 2 * level + 7 else if level < 30 then 5 * level - 38 else 9 * level - 158)"

text \<open>The loop over levels: what is left, the level and the cost of the next one.\<close>

function climb_levels :: "int \<Rightarrow> int \<Rightarrow> int \<Rightarrow> int \<times> int \<times> int" where
  "climb_levels left level needed =
     (if left \<ge> needed \<and> level < 21863
      then climb_levels (left - needed) (level + 1) (next_level_cost (level + 1))
      else (left, level, needed))"
  by pat_completeness auto
termination
  by (relation "measure (\<lambda>(left, level, needed). nat (21863 - level))") auto

declare climb_levels.simps [simp del]

definition experience_from_total :: "i32 \<Rightarrow> experience_state" where
  "experience_from_total points =
     (let total = (if points <s 0 then 0 else points);
          (left, level, needed) = climb_levels (sint total) 0 7
      in \<lparr>experience_total = total, experience_level = level,
          experience_progress =
            (if level = 21863 then 0 else f32_div (f32_of_int left) (f32_of_int needed))\<rparr>)"

definition experience_drop_on_death :: "i32 \<Rightarrow> int" where
  "experience_drop_on_death points = min 100 (experience_level (experience_from_total points) * 7)"

section \<open>Statistics\<close>

text \<open>A \<open>std::map\<close> is the list of its pairs in the order of the keys, here \<open>std::pair\<close>'s.\<close>

type_synonym statistic_key = "i32 \<times> i32"

definition key_less :: "statistic_key \<Rightarrow> statistic_key \<Rightarrow> bool" where
  "key_less a b = (fst a <s fst b \<or> fst a = fst b \<and> snd a <s snd b)"

text \<open>Assignment through \<open>operator[]\<close>.\<close>

fun put_key :: "('k \<Rightarrow> 'k \<Rightarrow> bool) \<Rightarrow> 'k \<Rightarrow> 'v \<Rightarrow> ('k \<times> 'v) list \<Rightarrow> ('k \<times> 'v) list" where
  "put_key lt k v [] = [(k, v)]"
| "put_key lt k v ((k', v') # es) =
     (if k = k' then (k, v) # es else if lt k k' then (k, v) # (k', v') # es
      else (k', v') # put_key lt k v es)"

record statistics =
  statistic_values :: "(statistic_key \<times> i32) list"
  statistic_dirty :: "(statistic_key \<times> bool) list"

definition no_statistics :: statistics where
  "no_statistics = \<lparr>statistic_values = [], statistic_dirty = []\<rparr>"

definition statistic_value :: "statistics \<Rightarrow> i32 \<Rightarrow> i32 \<Rightarrow> i32" where
  "statistic_value s kind what =
     (case map_of (statistic_values s) (kind, what) of None \<Rightarrow> 0 | Some v \<Rightarrow> v)"

definition increment_statistic :: "i32 \<Rightarrow> i32 \<Rightarrow> i32 \<Rightarrow> statistics \<Rightarrow> statistics" where
  "increment_statistic kind what quantity s =
     (if kind <s 0 \<or> what <s 0 \<or> quantity \<le>s 0 then s
      else let old = statistic_value s kind what;
               new = (if 0x7FFFFFFF - old <s quantity then 0x7FFFFFFF else old + quantity)
        in s\<lparr>statistic_values := put_key key_less (kind, what) new (statistic_values s),
             statistic_dirty := put_key key_less (kind, what) True (statistic_dirty s)\<rparr>)"

definition statistics_snapshot :: "statistics \<Rightarrow> (statistic_key \<times> i32) list" where
  "statistics_snapshot s = statistic_values s"

text \<open>\<open>values_.at\<close> throws for a key without a value; \<open>drain_statistics\<close> would then be an error.\<close>

definition drain_statistics :: "statistics \<Rightarrow> ((statistic_key \<times> i32) list \<times> statistics) result" where
  "drain_statistics s =
     bindR (foldR (\<lambda>(k, changed) out.
         if changed then (case map_of (statistic_values s) k of
             None \<Rightarrow> Inl (Out_Of_Range ''map::at'') | Some v \<Rightarrow> Inr (out @ [(k, v)]))
         else Inr out) (statistic_dirty s) [])
       (\<lambda>out. Inr (out, s\<lparr>statistic_dirty := []\<rparr>))"

section \<open>The survival state\<close>

datatype movement_mode = Standing | Sneaking | Swimming | Gliding | Flying

record effect =
  amplifier :: u8
  effect_ticks :: u32
  effect_ambient :: bool
  effect_visible :: bool

record survival =
  health :: f32
  absorption :: f32
  food_level :: int
  saturation :: f32
  exhaustion :: f32
  air_ticks :: int
  fall_distance :: f32
  regeneration_ticks :: u32
  starvation_ticks :: u32
  attack_recharge_ticks :: u32
  combat_ticks :: u32
  hurt_ticks :: u32
  combat_target :: "entity_id option"
  last_damage_source :: "damage_source option"
  effects :: "(i32 \<times> effect) list"
  expired_effects :: "i32 list"
  armor :: f32
  armor_toughness :: f32
  was_on_ground :: bool
  sprinting :: bool
  sneaking :: bool
  jumping :: bool
  blocking :: bool
  is_underwater :: bool
  gliding :: bool
  flying :: bool
  survival_dirty :: bool

definition fresh_survival :: survival where
  "fresh_survival =
     \<lparr>health = f32_20, absorption = 0, food_level = 20, saturation = f32_ratio 5 1, exhaustion = 0,
      air_ticks = 300, fall_distance = 0, regeneration_ticks = 0, starvation_ticks = 0,
      attack_recharge_ticks = 5, combat_ticks = 0, hurt_ticks = 0, combat_target = None,
      last_damage_source = None, effects = [], expired_effects = [], armor = 0, armor_toughness = 0,
      was_on_ground = True, sprinting = False, sneaking = False, jumping = False, blocking = False,
      is_underwater = False, gliding = False, flying = False, survival_dirty = True\<rparr>"

definition effect_at :: "survival \<Rightarrow> i32 \<Rightarrow> effect option" where
  "effect_at s i = map_of (effects s) i"

definition movement_mode :: "survival \<Rightarrow> movement_mode" where
  "movement_mode s =
     (if flying s then Flying else if gliding s then Gliding
      else if is_underwater s \<and> (sprinting s \<or> jumping s) then Swimming
      else if sneaking s then Sneaking else Standing)"

definition eye_height :: "survival \<Rightarrow> f32" where
  "eye_height s = (case movement_mode s of
     Sneaking \<Rightarrow> f32_ratio 127 100 | Swimming \<Rightarrow> f32_ratio 2 5 | Gliding \<Rightarrow> f32_ratio 2 5
   | Flying \<Rightarrow> f32_ratio 162 100 | Standing \<Rightarrow> f32_ratio 162 100)"

definition body_height :: "survival \<Rightarrow> f32" where
  "body_height s = (case movement_mode s of
     Sneaking \<Rightarrow> f32_ratio 3 2 | Swimming \<Rightarrow> f32_ratio 3 5 | Gliding \<Rightarrow> f32_ratio 3 5
   | Flying \<Rightarrow> f32_ratio 9 5 | Standing \<Rightarrow> f32_ratio 9 5)"

text \<open>The level of an effect, \<open>amplifier + 1U\<close>, as a \<open>float\<close>.\<close>

definition effect_strength :: "effect \<Rightarrow> f32" where
  "effect_strength e = f32_of_int (uint (amplifier e) + 1)"

definition movement_speed_multiplier :: "survival \<Rightarrow> f32" where
  "movement_speed_multiplier s =
     (let m = f32_1;
          m = (case effect_at s 0 of None \<Rightarrow> m
               | Some e \<Rightarrow> f32_mul m (f32_add f32_1 (f32_mul (f32_ratio 1 5) (effect_strength e))));
          m = (case effect_at s 1 of None \<Rightarrow> m
               | Some e \<Rightarrow> f32_mul m (f32_max 0 (f32_sub f32_1 (f32_mul (f32_ratio 3 20) (effect_strength e)))))
      in case movement_mode s of
        Sneaking \<Rightarrow> f32_mul (f32_ratio 3 10) m
      | Swimming \<Rightarrow> f32_mul (f32_ratio 4 5) m
      | Gliding \<Rightarrow> m
      | Flying \<Rightarrow> m
      | Standing \<Rightarrow> f32_mul (if sprinting s then f32_ratio 13 10 else f32_1) m)"

definition attack_charge :: "survival \<Rightarrow> f32" where
  "attack_charge s = f32_min f32_1 (f32_div (f32_of_int (uint (attack_recharge_ticks s))) (f32_ratio 5 1))"

section \<open>Damage, healing and hunger\<close>

definition armored_amount :: "survival \<Rightarrow> f32 \<Rightarrow> f32" where
  "armored_amount s quantity =
     (let effective = f32_min f32_20 (f32_max (f32_div (armor s) (f32_ratio 5 1))
            (f32_sub (armor s) (f32_div quantity
              (f32_add (f32_ratio 2 1) (f32_div (armor_toughness s) (f32_ratio 4 1))))))
      in f32_mul quantity (f32_sub f32_1 (f32_div effective (f32_ratio 25 1))))"

definition damage :: "f32 \<Rightarrow> damage_source \<Rightarrow> bool \<Rightarrow> survival \<Rightarrow> (bool \<times> f32) \<times> survival" where
  "damage quantity source blockable s =
     (if \<not> f32_finite quantity \<or> f32_le quantity 0 \<or> f32_le (health s) 0 then ((False, 0), s)
      else if damage_kind source = Fire \<and> effect_at s 11 \<noteq> None then ((False, 0), s)
      else if hurt_ticks s > 0 \<and> \<not> bypasses_invulnerability source then ((False, 0), s)
      else let
          applied = (if bypasses_armor source then quantity else armored_amount s quantity);
          blocked = (if blockable \<and> blocking s then f32_mul applied f32_half else 0);
          left = f32_sub applied blocked;
          absorbed = f32_min (absorption s) left;
          s = s\<lparr>absorption := f32_sub (absorption s) absorbed\<rparr>;
          left = f32_sub left absorbed;
          s = s\<lparr>health := f32_max 0 (f32_sub (health s) left)\<rparr>;
          s = (if health s = 0 \<or> health s = 0x80000000 then s\<lparr>blocking := False\<rparr> else s);
          s = s\<lparr>last_damage_source := Some source\<rparr>;
          s = (if \<not> bypasses_invulnerability source then s\<lparr>hurt_ticks := 10\<rparr> else s)
        in ((True, blocked), s\<lparr>survival_dirty := True\<rparr>))"

definition heal :: "f32 \<Rightarrow> survival \<Rightarrow> survival" where
  "heal quantity s =
     (if \<not> f32_finite quantity \<or> f32_le quantity 0 \<or> f32_le (health s) 0 then s
      else let healed = f32_min f32_20 (f32_add (health s) quantity) in
        if f32_nan healed \<or> f32_rank healed \<noteq> f32_rank (health s)
        then s\<lparr>health := healed, survival_dirty := True\<rparr> else s)"

text \<open>
  The loop of \<open>apply_exhaustion\<close> ends only when subtracting four makes progress, which
  is a property of the numbers it meets; it is a partial function.
\<close>

definition exhaust :: "survival \<Rightarrow> survival" where
  "exhaust s =
     (let s = s\<lparr>exhaustion := f32_sub (exhaustion s) (f32_ratio 4 1)\<rparr>;
          s = (if f32_less 0 (saturation s)
               then s\<lparr>saturation := f32_max 0 (f32_sub (saturation s) f32_1)\<rparr>
               else if food_level s > 0 then s\<lparr>food_level := food_level s - 1\<rparr> else s)
      in s\<lparr>survival_dirty := True\<rparr>)"

partial_function (option) apply_exhaustion :: "survival \<Rightarrow> survival option" where
  "apply_exhaustion s =
     (if f32_le (f32_ratio 4 1) (exhaustion s) then apply_exhaustion (exhaust s) else Some s)"

definition add_exhaustion :: "f32 \<Rightarrow> survival \<Rightarrow> survival option" where
  "add_exhaustion quantity s =
     (if \<not> f32_finite quantity \<or> f32_le quantity 0 then Some s
      else apply_exhaustion (s\<lparr>exhaustion := f32_min (f32_ratio 40 1) (f32_add (exhaustion s) quantity)\<rparr>))"

section \<open>A tick\<close>

definition effect_due :: "effect \<Rightarrow> u32 \<Rightarrow> bool" where
  "effect_due e base = (effect_ticks e mod max 1 (drop_bit (min (unat (amplifier e)) 6) base) = 0)"

definition act_effect :: "i32 \<Rightarrow> effect \<Rightarrow> survival \<Rightarrow> survival" where
  "act_effect i e s =
     (if i = 9 \<and> effect_due e 50 then heal f32_1 s
      else if i = 18 \<and> effect_due e 25 \<and> (f32_less f32_1 (health s) \<or> f32_less 0 (absorption s))
      then snd (damage (f32_min f32_1 (f32_add (f32_max 0 (f32_sub (health s) f32_1)) (absorption s)))
             (internal_damage Poison) False s)
      else if i = 19 \<and> effect_due e 40 then snd (damage f32_1 (internal_damage Wither) False s)
      else s)"

definition tick_effect :: "i32 \<Rightarrow> survival \<Rightarrow> survival" where
  "tick_effect i s = (case effect_at s i of None \<Rightarrow> s
   | Some e \<Rightarrow>
       let s = act_effect i e s in
       if effect_ticks e \<le> 1
       then let s = (if i = 21 then s\<lparr>absorption := 0, survival_dirty := True\<rparr> else s)
         in s\<lparr>expired_effects := expired_effects s @ [i], effects := AList.delete i (effects s)\<rparr>
       else s\<lparr>effects := AList.update i (e\<lparr>effect_ticks := effect_ticks e - 1\<rparr>) (effects s)\<rparr>)"

definition tick_peaceful :: "difficulty \<Rightarrow> survival \<Rightarrow> survival" where
  "tick_peaceful difficulty s =
     (if difficulty = Peaceful \<and> food_level s < 20
      then s\<lparr>food_level := 20, saturation := f32_max (saturation s) (f32_ratio 5 1), exhaustion := 0,
             survival_dirty := True\<rparr>
      else s)"

definition tick_counters :: "survival \<Rightarrow> survival" where
  "tick_counters s =
     (let s = s\<lparr>attack_recharge_ticks := min 5 (attack_recharge_ticks s + 1)\<rparr>;
          s = (if combat_ticks s > 0
               then let s = s\<lparr>combat_ticks := combat_ticks s - 1\<rparr>
                 in if combat_ticks s = 0 then s\<lparr>combat_target := None\<rparr> else s
               else s)
      in if hurt_ticks s > 0 then s\<lparr>hurt_ticks := hurt_ticks s - 1\<rparr> else s)"

definition tick_air :: "bool \<Rightarrow> survival \<Rightarrow> survival" where
  "tick_air water s =
     (if water
      then let s = s\<lparr>air_ticks := air_ticks s - 1\<rparr>
        in if air_ticks s \<le> - 20
           then (snd (damage (f32_ratio 2 1) (internal_damage Drowning) False s))\<lparr>air_ticks := 0\<rparr>
           else s
      else s\<lparr>air_ticks := min 300 (air_ticks s + 4)\<rparr>)"

definition tick_regeneration :: "difficulty \<Rightarrow> survival \<Rightarrow> survival option" where
  "tick_regeneration difficulty s =
     (if food_level s \<ge> 18 \<and> f32_less (health s) f32_20
      then let s = s\<lparr>regeneration_ticks := regeneration_ticks s + 1\<rparr>
        in if regeneration_ticks s \<ge> (if difficulty = Peaceful then 20 else 80)
           then map_option (\<lambda>s. s\<lparr>regeneration_ticks := 0\<rparr>)
             (let s = heal f32_1 s in
              if difficulty \<noteq> Peaceful then add_exhaustion (f32_ratio 6 1) s else Some s)
           else Some s
      else Some (s\<lparr>regeneration_ticks := 0\<rparr>))"

definition starvation_minimum :: "difficulty \<Rightarrow> f32" where
  "starvation_minimum difficulty =
     (if difficulty = Easy then f32_ratio 10 1 else if difficulty = Normal then f32_1 else 0)"

definition tick_starvation :: "difficulty \<Rightarrow> survival \<Rightarrow> survival" where
  "tick_starvation difficulty s =
     (if food_level s = 0 \<and> difficulty \<noteq> Peaceful
      then let s = s\<lparr>starvation_ticks := starvation_ticks s + 1\<rparr>
        in if starvation_ticks s \<ge> 80
           then let least = starvation_minimum difficulty;
                    s = (if f32_less least (health s)
                         then s\<lparr>health := f32_max least (f32_sub (health s) f32_1), survival_dirty := True\<rparr>
                         else s)
             in s\<lparr>starvation_ticks := 0\<rparr>
           else s
      else s\<lparr>starvation_ticks := 0\<rparr>)"

definition survival_tick :: "bool \<Rightarrow> difficulty \<Rightarrow> survival \<Rightarrow> survival option" where
  "survival_tick water difficulty s =
     (let s = s\<lparr>is_underwater := water\<rparr>;
          s = (if water then s\<lparr>gliding := False\<rparr> else s);
          s = tick_peaceful difficulty s;
          s = tick_counters s;
          s = fold tick_effect (map fst (effects s)) s;
          s = tick_air water s
      in map_option (tick_starvation difficulty) (tick_regeneration difficulty s))"

section \<open>Movement, combat and effects\<close>

definition exhaustion_rate :: "bool \<Rightarrow> survival \<Rightarrow> f32" where
  "exhaustion_rate sprints s =
     (if movement_mode s = Gliding \<or> movement_mode s = Flying then 0
      else if movement_mode s = Sneaking then f32_ratio 5 1000
      else if movement_mode s = Swimming then f32_ratio 1 100
      else if sprints then f32_ratio 1 10
      else f32_ratio 1 100)"

definition fall_further :: "bool \<Rightarrow> f64 \<Rightarrow> survival \<Rightarrow> survival" where
  "fall_further on_ground dy s =
     (if movement_mode s = Flying then s\<lparr>fall_distance := 0\<rparr>
      else if movement_mode s = Gliding
      then s\<lparr>fall_distance := f32_max 0 (f32_sub (fall_distance s) f32_half)\<rparr>
      else if (\<not> on_ground \<or> \<not> was_on_ground s) \<and> f64_less dy 0 \<and> f64_finite dy
      then s\<lparr>fall_distance := f32_add (fall_distance s) (f32_of_f64 (f64_neg dy))\<rparr>
      else s)"

definition land :: "survival \<Rightarrow> survival" where
  "land s =
     (let fall = f32_ceil (f32_sub (fall_distance s) (f32_ratio 3 1));
          s = (if f32_less 0 fall then snd (damage fall (internal_damage Fall) False s) else s)
      in s\<lparr>fall_distance := 0\<rparr>)"

definition record_movement :: "vec3 \<Rightarrow> vec3 \<Rightarrow> bool \<Rightarrow> bool \<Rightarrow> survival \<Rightarrow> survival option" where
  "record_movement start target on_ground sprints s =
     (let delta = vec_sub target start;
          horizontal = f64_sqrt (f64_add (f64_mul (vec_x delta) (vec_x delta))
            (f64_mul (vec_z delta) (vec_z delta)))
      in map_option (\<lambda>s.
           let s = fall_further on_ground (vec_y delta) s;
               s = (if on_ground \<and> \<not> was_on_ground s then land s else s);
               s = (if on_ground then s\<lparr>gliding := False\<rparr> else s)
           in s\<lparr>was_on_ground := on_ground\<rparr>)
         (if f64_finite horizontal \<and> f64_le horizontal (f64_ratio 10 1)
          then add_exhaustion (f32_mul (f32_of_f64 horizontal) (exhaustion_rate sprints s)) s
          else Some s))"

definition set_input :: "bool \<Rightarrow> bool \<Rightarrow> bool \<Rightarrow> survival \<Rightarrow> survival" where
  "set_input sprints sneaks jumps s =
     s\<lparr>sprinting := sprints \<and> food_level s > 6, sneaking := sneaks, jumping := jumps\<rparr>"

definition start_gliding :: "survival \<Rightarrow> bool \<times> survival" where
  "start_gliding s =
     (if was_on_ground s \<or> is_underwater s \<or> flying s then (False, s)
      else (True, s\<lparr>gliding := True, sneaking := False\<rparr>))"

definition set_flying :: "bool \<Rightarrow> survival \<Rightarrow> survival" where
  "set_flying flies s =
     (let s = s\<lparr>flying := flies\<rparr> in if flies then s\<lparr>gliding := False, fall_distance := 0\<rparr> else s)"

record attack_result =
  attack_multiplier :: f32
  critical_attack :: bool
  sweeping_attack :: bool

definition survival_attack :: "entity_id \<Rightarrow> survival \<Rightarrow> (attack_result \<times> survival) option" where
  "survival_attack target s =
     (let charge = attack_charge s; mode = movement_mode s;
          critical = f32_le (f32_ratio 9 10) charge \<and> \<not> was_on_ground s \<and> f32_less 0 (fall_distance s) \<and>
            \<not> sprinting s \<and> mode \<noteq> Swimming \<and> mode \<noteq> Gliding;
          sweeping = f32_le (f32_ratio 9 10) charge \<and> was_on_ground s \<and> \<not> sprinting s;
          multiplier = f32_add (f32_ratio 1 5) (f32_mul (f32_mul charge charge) (f32_ratio 4 5));
          multiplier = (if critical then f32_mul multiplier (f32_ratio 3 2) else multiplier);
          s = s\<lparr>attack_recharge_ticks := 0, combat_target := Some target, combat_ticks := 100\<rparr>
      in map_option (\<lambda>s. (\<lparr>attack_multiplier = multiplier, critical_attack = critical,
           sweeping_attack = sweeping\<rparr>, s)) (add_exhaustion (f32_ratio 1 10) s))"

definition apply_effect :: "i32 \<Rightarrow> effect \<Rightarrow> survival \<Rightarrow> bool \<times> survival" where
  "apply_effect i e s =
     (if i <s 0 \<or> 40 \<le>s i \<or> effect_ticks e = 0 then (False, s)
      else if (case effect_at s i of None \<Rightarrow> False | Some old \<Rightarrow> amplifier old > amplifier e) then (False, s)
      else let s = s\<lparr>effects := put_key (\<lambda>a b. a <s b) i e (effects s)\<rparr>
        in (True, if i = 21
          then s\<lparr>absorption := f32_mul (effect_strength e) (f32_ratio 4 1), survival_dirty := True\<rparr> else s))"

definition remove_effect :: "i32 \<Rightarrow> survival \<Rightarrow> bool \<times> survival" where
  "remove_effect i s =
     (if effect_at s i = None then (False, s)
      else let s = s\<lparr>effects := AList.delete i (effects s)\<rparr>
        in (True, if i = 21 then s\<lparr>absorption := 0, survival_dirty := True\<rparr> else s))"

definition drain_expired_effects :: "survival \<Rightarrow> i32 list \<times> survival" where
  "drain_expired_effects s = (expired_effects s, s\<lparr>expired_effects := []\<rparr>)"

definition set_blocking :: "bool \<Rightarrow> survival \<Rightarrow> survival" where
  "set_blocking blocks s =
     (let s = s\<lparr>blocking := blocks \<and> f32_less 0 (health s)\<rparr>
      in if blocking s then s\<lparr>sprinting := False\<rparr> else s)"

definition blocks_attack ::
  "(f64 \<Rightarrow> f64) \<Rightarrow> (f64 \<Rightarrow> f64) \<Rightarrow> vec3 \<Rightarrow> vec3 \<Rightarrow> f32 \<Rightarrow> survival \<Rightarrow> bool" where
  "blocks_attack sine cosine source position yaw s =
     (if \<not> blocking s \<or> \<not> f64_finite (vec_x source) \<or> \<not> f64_finite (vec_z source) \<or>
         \<not> f64_finite (vec_x position) \<or> \<not> f64_finite (vec_z position) \<or> \<not> f32_finite yaw
      then False
      else let delta_x = f64_sub (vec_x source) (vec_x position);
               delta_z = f64_sub (vec_z source) (vec_z position) in
        if f64_le (f64_add (f64_mul delta_x delta_x) (f64_mul delta_z delta_z)) (f64_ratio 1 1000000000000)
        then True
        else let radians = f64_div (f64_mul (f64_of_f32 yaw) (f64_ratio 3141592653589793 1000000000000000))
                   (f64_ratio 180 1);
                 facing_x = f64_neg (sine radians); facing_z = cosine radians
          in f64_le 0 (f64_add (f64_mul facing_x delta_x) (f64_mul facing_z delta_z)))"

text \<open>
  \<open>food_level_ + nutrition\<close> is computed in 32 bits: past the largest integer it comes out
  negative (the language gives it no value at all).
\<close>

definition consume_food :: "i32 \<Rightarrow> f32 \<Rightarrow> survival \<Rightarrow> bool \<times> survival" where
  "consume_food points factor s =
     (if points \<le>s 0 \<or> \<not> f32_finite factor \<or> f32_less factor 0 \<or> food_level s \<ge> 20
      then (False, s)
      else let s = s\<lparr>food_level := min 20 (sint (word_of_int (food_level s) + points))\<rparr>
        in (True, s\<lparr>saturation := f32_min (f32_of_int (food_level s))
             (f32_add (saturation s)
               (f32_mul (f32_mul (f32_of_int (sint points)) factor) (f32_ratio 2 1))),
           survival_dirty := True\<rparr>))"

definition set_armor :: "f32 \<Rightarrow> f32 \<Rightarrow> survival \<Rightarrow> survival" where
  "set_armor points toughness s =
     s\<lparr>armor := f32_clamp points 0 (f32_ratio 30 1), armor_toughness := f32_clamp toughness 0 f32_20\<rparr>"

definition damage_generic :: "f32 \<Rightarrow> survival \<Rightarrow> bool \<times> survival" where
  "damage_generic quantity s = (let ((applied, _), s) = damage quantity generic_damage False s in (applied, s))"

definition damage_blockable :: "f32 \<Rightarrow> bool \<Rightarrow> survival \<Rightarrow> (bool \<times> f32) \<times> survival" where
  "damage_blockable quantity blockable s = damage quantity generic_damage blockable s"

definition survival_reset :: "survival \<Rightarrow> survival" where
  "survival_reset s = fresh_survival"

definition take_survival_dirty :: "survival \<Rightarrow> bool \<times> survival" where
  "take_survival_dirty s = (survival_dirty s, s\<lparr>survival_dirty := False\<rparr>)"

end
