(* ===== verification/Entities.thy ===== *)
theory Entities
  imports Survival Words
begin

text \<open>
  Entities and their manager (include/mc/entity/entity.hpp, src/entity/entity.cpp):
  motion, attributes, damage, effects and equipment of one entity; spawning,
  riding, leashes, ticking, snapshots and their restoration for all of them.

  A \<open>LivingEntity\<close> is an entity with a living part. The pointer to its type is the
  type itself, which never changes once it is registered, apart from the identifier of
  the protocol, which nothing here reads. \<open>std::pow\<close> is a parameter.
\<close>

section \<open>One entity\<close>

datatype metadata_value = Metadata_Bool bool | Metadata_Int i32 | Metadata_Float f32 | Metadata_String string

datatype equipment_slot = Main_Hand | Off_Hand | Feet | Legs | Chest | Head | Body

record living =
  living_health :: f32
  attributes :: "(resource_location \<times> f64) list"
  equipment :: "(equipment_slot \<times> item_stack) list"
  living_effects :: "(resource_location \<times> effect) list"
  last_source :: "damage_source option"
  invulnerable_ticks :: u32

record entity =
  entity_key :: entity_id
  entity_uuid :: bytes
  type_of :: entity_type
  position :: vec3
  velocity :: vec3
  yaw :: f32
  pitch :: f32
  on_ground :: bool
  removed :: bool
  tick_count :: u64
  metadata :: "(u8 \<times> metadata_value) list"
  vehicle :: "entity_id option"
  passengers :: "entity_id list"
  leash_holder :: "entity_id option"
  team :: string
  living_part :: "living option"

abbreviation entity_properties :: "entity \<Rightarrow> entity_type_properties" where
  "entity_properties e \<equiv> type_properties (type_of e)"

definition minecraft :: "string \<Rightarrow> resource_location" where
  "minecraft p = \<lparr>name_space = ''minecraft'', loc_path = p\<rparr>"

text \<open>The defaulted \<open>operator<=>\<close> of \<open>ResourceLocation\<close>.\<close>

definition location_less :: "resource_location \<Rightarrow> resource_location \<Rightarrow> bool" where
  "location_less a b =
     (string_less (name_space a) (name_space b) \<or>
      name_space a = name_space b \<and> string_less (loc_path a) (loc_path b))"

definition new_entity :: "entity_id \<Rightarrow> bytes \<Rightarrow> entity_type \<Rightarrow> vec3 \<Rightarrow> entity" where
  "new_entity i uuid t p =
     \<lparr>entity_key = i, entity_uuid = uuid, type_of = t, position = p, velocity = vec3 0 0 0, yaw = 0, pitch = 0,
      on_ground = False, removed = False, tick_count = 0, metadata = [], vehicle = None, passengers = [],
      leash_holder = None, team = [], living_part = None\<rparr>"

definition new_living :: "entity_type \<Rightarrow> living" where
  "new_living t =
     (let p = type_properties t;
          put = (\<lambda>name v. put_key location_less (minecraft name) v)
      in \<lparr>living_health = type_max_health p,
          attributes = put ''knockback_resistance'' 0 (put ''armor_toughness'' 0 (put ''armor'' 0
            (put ''follow_range'' (f64_of_f32 (type_follow_range p))
            (put ''movement_speed'' (f64_of_f32 (type_movement_speed p))
            (put ''max_health'' (f64_of_f32 (type_max_health p)) []))))),
          equipment = [], living_effects = [], last_source = None, invulnerable_ticks = 0\<rparr>)"

definition new_living_entity :: "entity_id \<Rightarrow> bytes \<Rightarrow> entity_type \<Rightarrow> vec3 \<Rightarrow> entity" where
  "new_living_entity i uuid t p = (new_entity i uuid t p)\<lparr>living_part := Some (new_living t)\<rparr>"

text \<open>The constants 0.08, 20.0 and 0.98 of \<open>Entity::tick\<close>.\<close>

definition entity_tick :: "(f64 \<Rightarrow> f64 \<Rightarrow> f64) \<Rightarrow> f64 \<Rightarrow> entity \<Rightarrow> entity" where
  "entity_tick pow delta e =
     (if removed e \<or> f64_le delta 0 then e
      else
        let steps = f64_mul delta (f64_ratio 20 1);
            e = (if affected_by_gravity (entity_properties e) \<and> \<not> on_ground e
                 then e\<lparr>velocity := (velocity e)\<lparr>vec_y := f64_sub (vec_y (velocity e))
                        (f64_mul (f64_mul (f64_ratio 8 100) delta) (f64_ratio 20 1))\<rparr>\<rparr>
                 else e);
            e = e\<lparr>position := vec_add (position e) (vec_scale (velocity e) steps)\<rparr>;
            e = e\<lparr>velocity := vec_scale (velocity e) (pow (f64_ratio 98 100) steps)\<rparr>;
            e = (if f64_le (vec_y (position e)) 0
                 then e\<lparr>position := (position e)\<lparr>vec_y := 0\<rparr>, velocity := (velocity e)\<lparr>vec_y := 0\<rparr>,
                        on_ground := True\<rparr>
                 else e\<lparr>on_ground := False\<rparr>)
        in e\<lparr>tick_count := tick_count e + 1\<rparr>)"

definition bounding_box :: "entity \<Rightarrow> aabb" where
  "bounding_box e =
     (let half = f64_div (f64_of_f32 (type_width (entity_properties e))) (f64_ratio 2 1); p = position e in
      \<lparr>aabb_minimum = vec3 (f64_sub (vec_x p) half) (vec_y p) (f64_sub (vec_z p) half),
       aabb_maximum = vec3 (f64_add (vec_x p) half)
         (f64_add (vec_y p) (f64_of_f32 (type_height (entity_properties e)))) (f64_add (vec_z p) half)\<rparr>)"

definition set_rotation :: "f32 \<Rightarrow> f32 \<Rightarrow> entity \<Rightarrow> entity" where
  "set_rotation y p e =
     e\<lparr>yaw := y, pitch := f32_clamp p (f32_neg (f32_ratio 90 1)) (f32_ratio 90 1)\<rparr>"

definition apply_water_physics :: "f64 \<Rightarrow> f64 \<Rightarrow> entity \<Rightarrow> entity" where
  "apply_water_physics drag buoyancy e =
     (if \<not> f64_finite drag \<or> \<not> f64_finite buoyancy \<or> f64_less drag 0 \<or> f64_less (f64_ratio 1 1) drag then e
      else let v = velocity e in
        e\<lparr>velocity := vec3 (f64_mul (vec_x v) drag)
          (f64_add (f64_mul (vec_y v) drag) buoyancy) (f64_mul (vec_z v) drag)\<rparr>)"

definition set_metadata :: "u8 \<Rightarrow> metadata_value \<Rightarrow> entity \<Rightarrow> entity" where
  "set_metadata index v e = e\<lparr>metadata := put_key (\<lambda>a b. a < b) index v (metadata e)\<rparr>"

section \<open>Living entities\<close>

definition alive :: "entity \<Rightarrow> living \<Rightarrow> bool" where
  "alive e l = (f32_less 0 (living_health l) \<and> \<not> removed e)"

definition attribute :: "living \<Rightarrow> string \<Rightarrow> f64 result" where
  "attribute l name = bindR (parse_location name) (\<lambda>name. case map_of (attributes l) name of
     None \<Rightarrow> Inl (Out_Of_Range ''entity attribute is not present'') | Some v \<Rightarrow> Inr v)"

definition equipment_at :: "living \<Rightarrow> equipment_slot \<Rightarrow> item_stack" where
  "equipment_at l s = (case map_of (equipment l) s of None \<Rightarrow> empty_stack | Some i \<Rightarrow> i)"

definition f64_min2 :: "f64 \<Rightarrow> f64 \<Rightarrow> f64" where
  "f64_min2 a b = (if f64_less b a then b else a)"

definition f64_max2 :: "f64 \<Rightarrow> f64 \<Rightarrow> f64" where
  "f64_max2 a b = (if f64_less a b then b else a)"

definition f64_clamp :: "f64 \<Rightarrow> f64 \<Rightarrow> f64 \<Rightarrow> f64" where
  "f64_clamp v lo hi = (if f64_less v lo then lo else if f64_less hi v then hi else v)"

text \<open>\<open>amplifier + 1U\<close> as a \<open>double\<close>.\<close>

definition amplified :: "effect \<Rightarrow> f64" where
  "amplified e = f64_of_int (uint (amplifier e) + 1)"

definition movement_speed :: "living \<Rightarrow> f64 result" where
  "movement_speed l = bindR (attribute l ''minecraft:movement_speed'') (\<lambda>speed.
     let speed = (case map_of (living_effects l) (minecraft ''speed'') of None \<Rightarrow> speed
           | Some e \<Rightarrow> f64_mul speed (f64_add (f64_ratio 1 1) (f64_mul (f64_ratio 1 5) (amplified e))))
     in Inr (case map_of (living_effects l) (minecraft ''slowness'') of None \<Rightarrow> speed
           | Some e \<Rightarrow> f64_mul speed (f64_max2 0
               (f64_sub (f64_ratio 1 1) (f64_mul (f64_ratio 15 100) (amplified e))))))"

definition armored :: "f32 \<Rightarrow> living \<Rightarrow> f32 result" where
  "armored quantity l =
     bindR (attribute l ''minecraft:armor'') (\<lambda>armor.
     bindR (attribute l ''minecraft:armor_toughness'') (\<lambda>toughness.
     let effective = f64_min2 (f64_ratio 20 1) (f64_max2 (f64_div armor (f64_ratio 5 1))
           (f64_sub armor (f64_div (f64_of_f32 quantity)
             (f64_add (f64_ratio 2 1) (f64_div toughness (f64_ratio 4 1))))))
     in Inr (f32_of_f64 (f64_mul (f64_of_f32 quantity)
          (f64_sub (f64_ratio 1 1) (f64_div effective (f64_ratio 25 1)))))))"

text \<open>\<open>LivingEntity::damage\<close> on an entity with the living part \<open>l\<close>.\<close>

definition damage_living :: "f32 \<Rightarrow> damage_source \<Rightarrow> entity \<Rightarrow> living \<Rightarrow> (bool \<times> entity) result" where
  "damage_living quantity source e l =
     (if \<not> f32_finite quantity \<or> f32_le quantity 0 \<or> \<not> alive e l then Inr (False, e)
      else if damage_kind source = Fire \<and> map_of (living_effects l) (minecraft ''fire_resistance'') \<noteq> None
      then Inr (False, e)
      else if invulnerable_ticks l > 0 \<and> \<not> bypasses_invulnerability source then Inr (False, e)
      else bindR (if bypasses_armor source then Inr quantity else armored quantity l) (\<lambda>applied.
        let life = f32_max 0 (f32_sub (living_health l) applied);
            l = l\<lparr>living_health := life, last_source := Some source\<rparr>;
            l = (if \<not> bypasses_invulnerability source then l\<lparr>invulnerable_ticks := 10\<rparr> else l);
            e = e\<lparr>living_part := Some l\<rparr>
        in Inr (True, if life = 0 \<or> life = 0x80000000 then e\<lparr>removed := True\<rparr> else e)))"

definition heal_living :: "f32 \<Rightarrow> entity \<Rightarrow> living \<Rightarrow> entity" where
  "heal_living quantity e l =
     (if f32_less 0 quantity \<and> alive e l
      then e\<lparr>living_part := Some (l\<lparr>living_health :=
        f32_min (type_max_health (entity_properties e)) (f32_add (living_health l) quantity)\<rparr>)\<rparr>
      else e)"

definition on_living :: "(living \<Rightarrow> entity \<Rightarrow> 'a) \<Rightarrow> 'a \<Rightarrow> entity \<Rightarrow> 'a" where
  "on_living f otherwise e = (case living_part e of None \<Rightarrow> otherwise | Some l \<Rightarrow> f l e)"

definition interval_due :: "effect \<Rightarrow> u64 \<Rightarrow> u32 \<Rightarrow> bool" where
  "interval_due i count base = (count mod ucast (max 1 (drop_bit (min (unat (amplifier i)) 6) base)) = 0)"

definition act_living_effect :: "resource_location \<times> effect \<Rightarrow> entity \<Rightarrow> entity result" where
  "act_living_effect x e = on_living (\<lambda>l e.
     let (name, i) = x; count = tick_count e in
     if name = minecraft ''regeneration'' \<and> interval_due i count 50 then Inr (heal_living f32_1 e l)
     else if name = minecraft ''poison'' \<and> interval_due i count 25 \<and> f32_less f32_1 (living_health l)
     then bindR (damage_living (f32_min f32_1 (f32_sub (living_health l) f32_1)) (internal_damage Generic) e l)
       (\<lambda>(_, e). Inr e)
     else if name = minecraft ''wither'' \<and> interval_due i count 40
     then bindR (damage_living f32_1 (internal_damage Generic) e l) (\<lambda>(_, e). Inr e)
     else Inr e) (Inr e) e"

definition elapsed_ticks :: "f64 \<Rightarrow> u32" where
  "elapsed_ticks delta = (let steps = f64_mul delta (f64_ratio 20 1) in
     if f64_less 0 steps then word_of_int (f64_ceil steps) else 0)"

definition expire_living :: "u32 \<Rightarrow> living \<Rightarrow> living" where
  "expire_living elapsed l =
     l\<lparr>living_effects := filter (\<lambda>(_, i). effect_ticks i \<noteq> 0)
       (map (\<lambda>(n, i). (n, i\<lparr>effect_ticks := (if elapsed \<ge> effect_ticks i then 0 else effect_ticks i - elapsed)\<rparr>))
         (living_effects l))\<rparr>"

definition living_tick :: "(f64 \<Rightarrow> f64 \<Rightarrow> f64) \<Rightarrow> f64 \<Rightarrow> entity \<Rightarrow> entity result" where
  "living_tick pow delta e = on_living (\<lambda>l _.
     let e = entity_tick pow delta e;
         elapsed = elapsed_ticks delta;
         l = l\<lparr>invulnerable_ticks :=
           (if elapsed \<ge> invulnerable_ticks l then 0 else invulnerable_ticks l - elapsed)\<rparr>
     in bindR (foldR act_living_effect (living_effects l) (e\<lparr>living_part := Some l\<rparr>)) (\<lambda>e.
       Inr (e\<lparr>living_part := map_option (expire_living elapsed) (living_part e)\<rparr>)))
     (Inr (entity_tick pow delta e)) e"

definition knockback :: "vec3 \<Rightarrow> f64 \<Rightarrow> entity \<Rightarrow> living \<Rightarrow> (bool \<times> entity) result" where
  "knockback source strength e l =
     (if \<not> alive e l \<or> \<not> f64_finite (vec_x source) \<or> \<not> f64_finite (vec_y source) \<or>
         \<not> f64_finite (vec_z source) \<or> \<not> f64_finite strength \<or> f64_le strength 0
      then Inr (False, e)
      else bindR (attribute l ''minecraft:knockback_resistance'') (\<lambda>resistance.
        let applied = f64_mul strength (f64_sub (f64_ratio 1 1) (f64_clamp resistance 0 (f64_ratio 1 1)));
            offset_x = f64_sub (vec_x (position e)) (vec_x source);
            offset_z = f64_sub (vec_z (position e)) (vec_z source);
            squared = f64_add (f64_mul offset_x offset_x) (f64_mul offset_z offset_z);
            horizontal = f64_sqrt squared; half = f64_ratio 1 2; v = velocity e
        in if f64_le applied 0 \<or> f64_le squared (f64_ratio 1 1000000000000) then Inr (False, e)
           else Inr (True, e\<lparr>velocity := vec3
             (f64_add (f64_mul (vec_x v) half) (f64_mul (f64_div offset_x horizontal) applied))
             (f64_min2 (f64_ratio 4 10) (f64_add (f64_mul (vec_y v) half) applied))
             (f64_add (f64_mul (vec_z v) half) (f64_mul (f64_div offset_z horizontal) applied))\<rparr>)))"

definition set_attribute :: "resource_location \<Rightarrow> f64 \<Rightarrow> living \<Rightarrow> living result" where
  "set_attribute name v l =
     guardR (\<not> f64_finite v \<or> f64_less v 0) (Invalid_Argument ''invalid attribute'')
     (Inr (l\<lparr>attributes := put_key location_less name v (attributes l)\<rparr>))"

text \<open>The slots are ordered as the enumeration has them.\<close>

primrec slot_number :: "equipment_slot \<Rightarrow> nat" where
  "slot_number Main_Hand = 0" | "slot_number Off_Hand = 1" | "slot_number Feet = 2" | "slot_number Legs = 3"
| "slot_number Chest = 4" | "slot_number Head = 5" | "slot_number Body = 6"

definition equip :: "item_registry \<Rightarrow> equipment_slot \<Rightarrow> item_stack \<Rightarrow> living \<Rightarrow> living result" where
  "equip reg s stack l = bindR (validate_stack reg stack) (\<lambda>_.
     Inr (l\<lparr>equipment := put_key (\<lambda>a b. slot_number a < slot_number b) s stack (equipment l)\<rparr>))"

definition apply_living_effect :: "resource_location \<Rightarrow> effect \<Rightarrow> living \<Rightarrow> living" where
  "apply_living_effect name i l =
     (if effect_ticks i = 0 then l\<lparr>living_effects := AList.delete name (living_effects l)\<rparr>
      else if (case map_of (living_effects l) name of None \<Rightarrow> True
               | Some old \<Rightarrow> amplifier i > amplifier old \<or>
                   amplifier i = amplifier old \<and> effect_ticks i \<ge> effect_ticks old)
      then l\<lparr>living_effects := put_key location_less name i (living_effects l)\<rparr>
      else l)"

definition remove_living_effect :: "resource_location \<Rightarrow> living \<Rightarrow> bool \<times> living" where
  "remove_living_effect name l =
     (map_of (living_effects l) name \<noteq> None, l\<lparr>living_effects := AList.delete name (living_effects l)\<rparr>)"

section \<open>The manager\<close>

text \<open>The map of entities is the list of its entries in the order of the keys.\<close>

record death_event =
  dead_entity :: entity_id
  dead_position :: vec3
  dead_type :: string
  dead_experience :: u16

record entity_manager =
  entity_types :: entity_registry
  next_entity_id :: entity_id
  uuid_seed :: u64
  uuid_counter :: u64
  entities :: "(entity_id \<times> entity) list"
  deaths :: "death_event list"

definition new_manager :: "entity_registry \<Rightarrow> u64 \<Rightarrow> entity_id \<Rightarrow> entity_manager result" where
  "new_manager types seed first =
     guardR (first = 0) (Invalid_Argument ''first entity ID must be positive'')
     (Inr \<lparr>entity_types = types, next_entity_id = first, uuid_seed = seed, uuid_counter = 0, entities = [],
       deaths = []\<rparr>)"

definition find_entity :: "entity_manager \<Rightarrow> entity_id \<Rightarrow> entity option" where
  "find_entity m i = map_of (entities m) i"

text \<open>A change through the pointer that \<open>find\<close> returns, and one of every entity.\<close>

definition on_entity :: "entity_id \<Rightarrow> (entity \<Rightarrow> entity) \<Rightarrow> entity_manager \<Rightarrow> entity_manager" where
  "on_entity i f m = m\<lparr>entities := map (\<lambda>(k, e). (k, if k = i then f e else e)) (entities m)\<rparr>"

definition on_entities :: "(entity \<Rightarrow> entity) \<Rightarrow> entity_manager \<Rightarrow> entity_manager" where
  "on_entities f m = m\<lparr>entities := map (\<lambda>(k, e). (k, f e)) (entities m)\<rparr>"

definition uuid_mix :: "u64 \<Rightarrow> u64" where
  "uuid_mix v =
     (let v = v + 0x9E3779B97F4A7C15;
          v = (v XOR drop_bit 30 v) * 0xBF58476D1CE4E5B9;
          v = (v XOR drop_bit 27 v) * 0x94D049BB133111EB
      in v XOR drop_bit 31 v)"

definition next_uuid :: "entity_manager \<Rightarrow> bytes \<times> entity_manager" where
  "next_uuid m =
     (let first = uuid_mix (uuid_seed m XOR uuid_counter m);
          bs = be_bytes 8 first @ be_bytes 8 (uuid_mix first);
          bs = bs[6 := (bs ! 6 AND 0x0F) OR 0x40];
          bs = bs[8 := (bs ! 8 AND 0x3F) OR 0x80]
      in (bs, m\<lparr>uuid_counter := uuid_counter m + 1\<rparr>))"

text \<open>\<open>std::map::emplace\<close> keeps an entity that is already there.\<close>

definition emplace_entity :: "entity_id \<Rightarrow> entity \<Rightarrow> entity_manager \<Rightarrow> entity_manager" where
  "emplace_entity i e m =
     (if find_entity m i \<noteq> None then m
      else m\<lparr>entities := put_key (\<lambda>a b. a < b) i e (entities m)\<rparr>)"

definition spawn :: "string \<Rightarrow> vec3 \<Rightarrow> entity_manager \<Rightarrow> (entity_id \<times> entity_manager) result" where
  "spawn name p m = bindR (type_by_name (entity_types m) name) (\<lambda>t.
     let i = next_entity_id m;
         (uuid, m) = next_uuid m;
         e = (if f32_less 0 (type_max_health (type_properties t)) then new_living_entity i uuid t p
              else new_entity i uuid t p)
     in Inr (i, (emplace_entity i e m)\<lparr>next_entity_id := i + 1\<rparr>))"

definition dismount :: "entity_id \<Rightarrow> entity_manager \<Rightarrow> bool \<times> entity_manager" where
  "dismount p m = (case find_entity m p of None \<Rightarrow> (False, m)
   | Some e \<Rightarrow> (case vehicle e of None \<Rightarrow> (False, m)
     | Some v \<Rightarrow> (True, on_entity p (\<lambda>e. e\<lparr>vehicle := None\<rparr>)
         (on_entity v (\<lambda>e. e\<lparr>passengers := filter (\<lambda>i. i \<noteq> p) (passengers e)\<rparr>) m))))"

text \<open>
  The walk up the chain of vehicles of \<open>mount\<close>, which would not end on a circle.
\<close>

partial_function (option) rides_on :: "entity_manager \<Rightarrow> entity_id \<Rightarrow> entity_id \<Rightarrow> bool option" where
  "rides_on m passenger cursor = (case find_entity m cursor of None \<Rightarrow> Some False
   | Some e \<Rightarrow> (case vehicle e of None \<Rightarrow> Some False
     | Some v \<Rightarrow> if v = passenger then Some True else rides_on m passenger v))"

definition mount :: "entity_id \<Rightarrow> entity_id \<Rightarrow> entity_manager \<Rightarrow> (bool \<times> entity_manager) option" where
  "mount p v m =
     (if find_entity m p = None \<or> find_entity m v = None \<or> p = v then Some (False, m)
      else Option.bind (rides_on m p v) (\<lambda>circle.
        if circle then Some (False, m)
        else let m = snd (dismount p m) in
          Some (True, on_entity v (\<lambda>e. e\<lparr>passengers := passengers e @ [p]\<rparr>)
            (on_entity p (\<lambda>e. e\<lparr>vehicle := Some v\<rparr>) m))))"

definition remove_entity :: "entity_id \<Rightarrow> entity_manager \<Rightarrow> bool \<times> entity_manager" where
  "remove_entity i m = (case find_entity m i of None \<Rightarrow> (False, m)
   | Some _ \<Rightarrow>
       let m = snd (dismount i m);
           ps = (case find_entity m i of None \<Rightarrow> [] | Some e \<Rightarrow> passengers e);
           m = fold (\<lambda>p m. snd (dismount p m)) ps m;
           m = on_entities (\<lambda>e. if leash_holder e = Some i then e\<lparr>leash_holder := None\<rparr> else e) m
       in (True, m\<lparr>entities := AList.delete i (entities m)\<rparr>))"

definition add_external_passenger :: "entity_id \<Rightarrow> entity_id \<Rightarrow> entity_manager \<Rightarrow> bool \<times> entity_manager" where
  "add_external_passenger v p m =
     (if find_entity m v = None \<or> p = 0 \<or> find_entity m p \<noteq> None \<or> v = p then (False, m)
      else (True, on_entity v (\<lambda>e. e\<lparr>passengers := passengers e @ [p]\<rparr>)
        (on_entities (\<lambda>e. e\<lparr>passengers := filter (\<lambda>i. i \<noteq> p) (passengers e)\<rparr>) m)))"

definition remove_external_passenger :: "entity_id \<Rightarrow> entity_id \<Rightarrow> entity_manager \<Rightarrow> bool \<times> entity_manager" where
  "remove_external_passenger v p m = (case find_entity m v of None \<Rightarrow> (False, m)
   | Some e \<Rightarrow> if find_entity m p \<noteq> None then (False, m)
       else (p \<in> set (passengers e),
         on_entity v (\<lambda>e. e\<lparr>passengers := filter (\<lambda>i. i \<noteq> p) (passengers e)\<rparr>) m))"

definition set_leash :: "entity_id \<Rightarrow> entity_id option \<Rightarrow> entity_manager \<Rightarrow> bool \<times> entity_manager" where
  "set_leash i holder m =
     (if find_entity m i = None \<or> (case holder of None \<Rightarrow> False
         | Some h \<Rightarrow> h = i \<or> find_entity m h = None)
      then (False, m) else (True, on_entity i (\<lambda>e. e\<lparr>leash_holder := holder\<rparr>) m))"

text \<open>A tick: every entity ticks, then those that were removed leave the manager.\<close>

definition death_of :: "entity_id \<times> entity \<Rightarrow> death_event list" where
  "death_of x = (let (i, e) = x in on_living (\<lambda>l e.
     if \<not> alive e l \<and> experience_reward (entity_properties e) > 0
     then [\<lparr>dead_entity = i, dead_position = position e, dead_type = loc_path (entity_type_name (type_of e)),
            dead_experience = experience_reward (entity_properties e)\<rparr>]
     else []) [] e)"

fun tick_entities ::
  "(f64 \<Rightarrow> f64 \<Rightarrow> f64) \<Rightarrow> f64 \<Rightarrow> (entity_id \<times> entity) list \<Rightarrow> (entity_id \<times> entity) list result" where
  "tick_entities pow delta [] = Inr []"
| "tick_entities pow delta ((i, e) # es) = bindR (living_tick pow delta e) (\<lambda>e.
     bindR (tick_entities pow delta es) (\<lambda>es. Inr ((i, e) # es)))"

definition manager_tick :: "(f64 \<Rightarrow> f64 \<Rightarrow> f64) \<Rightarrow> f64 \<Rightarrow> entity_manager \<Rightarrow> entity_manager result" where
  "manager_tick pow delta m = bindR (tick_entities pow delta (entities m)) (\<lambda>es.
     let gone = filter (\<lambda>(i, e). removed e) es;
         m = m\<lparr>entities := es, deaths := deaths m @ concat (map death_of gone)\<rparr>
     in Inr (fold (\<lambda>(i, _) m. snd (remove_entity i m)) gone m))"

definition query :: "aabb \<Rightarrow> entity_manager \<Rightarrow> entity_id list" where
  "query bounds m = map fst (filter (\<lambda>(i, e). aabb_intersects (bounding_box e) bounds) (entities m))"

definition count_category :: "entity_category \<Rightarrow> entity_manager \<Rightarrow> nat" where
  "count_category c m = length (filter (\<lambda>(i, e). type_category (entity_properties e) = c) (entities m))"

definition entity_ids :: "entity_manager \<Rightarrow> entity_id list" where
  "entity_ids m = map fst (entities m)"

definition drain_deaths :: "entity_manager \<Rightarrow> death_event list \<times> entity_manager" where
  "drain_deaths m = (deaths m, m\<lparr>deaths := []\<rparr>)"

section \<open>Snapshots\<close>

record entity_snapshot =
  snap_id :: entity_id
  snap_uuid :: bytes
  snap_type :: string
  snap_position :: vec3
  snap_velocity :: vec3
  snap_yaw :: f32
  snap_pitch :: f32
  snap_health :: "f32 option"
  snap_metadata :: "(u8 \<times> metadata_value) list"
  snap_team :: string
  snap_vehicle :: "entity_id option"
  snap_leash :: "entity_id option"

definition snapshot_of :: "entity_id \<times> entity \<Rightarrow> entity_snapshot" where
  "snapshot_of x = (let (i, e) = x in
     \<lparr>snap_id = i, snap_uuid = entity_uuid e, snap_type = location_string (entity_type_name (type_of e)),
      snap_position = position e, snap_velocity = velocity e, snap_yaw = yaw e, snap_pitch = pitch e,
      snap_health = map_option living_health (living_part e), snap_metadata = metadata e, snap_team = team e,
      snap_vehicle = vehicle e, snap_leash = leash_holder e\<rparr>)"

definition snapshots :: "entity_manager \<Rightarrow> entity_snapshot list" where
  "snapshots m = map snapshot_of (entities m)"

definition restore_entity :: "entity_snapshot \<Rightarrow> entity_manager \<Rightarrow> entity_manager result" where
  "restore_entity s m =
     guardR (snap_id s = 0 \<or> find_entity m (snap_id s) \<noteq> None)
       (Invalid_Argument ''entity snapshot ID is invalid or duplicated'')
     (bindR (type_by_name (entity_types m) (snap_type s)) (\<lambda>t.
      bindR (if f32_less 0 (type_max_health (type_properties t))
         then (case snap_health s of
             None \<Rightarrow> Inl (Invalid_Argument ''living entity snapshot health is invalid'')
           | Some h \<Rightarrow>
               if f32_less h 0 \<or> f32_less (type_max_health (type_properties t)) h
               then Inl (Invalid_Argument ''living entity snapshot health is invalid'')
               else Inr ((new_entity (snap_id s) (snap_uuid s) t (snap_position s))
                 \<lparr>living_part := Some ((new_living t)\<lparr>living_health := h\<rparr>)\<rparr>))
         else if snap_health s \<noteq> None
         then Inl (Invalid_Argument ''non-living entity snapshot contains health'')
         else Inr (new_entity (snap_id s) (snap_uuid s) t (snap_position s))) (\<lambda>e.
        let e = (set_rotation (snap_yaw s) (snap_pitch s) (e\<lparr>velocity := snap_velocity s\<rparr>))
              \<lparr>metadata := snap_metadata s, team := snap_team s\<rparr>;
            m = emplace_entity (snap_id s) e m
        in Inr (m\<lparr>next_entity_id := max (next_entity_id m) (snap_id s + 1)\<rparr>))))"

text \<open>The links between entities; the outer option is \<open>mount\<close>'s, which may not return.\<close>

definition restore_links :: "entity_snapshot \<Rightarrow> entity_manager \<Rightarrow> entity_manager result option" where
  "restore_links s m =
     Option.bind (case snap_vehicle s of None \<Rightarrow> Some (True, m) | Some v \<Rightarrow> mount (snap_id s) v m) (\<lambda>(ok, m).
       Some (if \<not> ok then Inl (Invalid_Argument ''entity snapshot vehicle relationship is invalid'')
         else case snap_leash s of None \<Rightarrow> Inr m
           | Some h \<Rightarrow> let (ok, m) = set_leash (snap_id s) (Some h) m in
               if \<not> ok then Inl (Invalid_Argument ''entity snapshot leash relationship is invalid'')
               else Inr m))"

fun restore_all_links :: "entity_snapshot list \<Rightarrow> entity_manager \<Rightarrow> entity_manager result option" where
  "restore_all_links [] m = Some (Inr m)"
| "restore_all_links (s # ss) m = Option.bind (restore_links s m) (\<lambda>r. case r of
     Inl e \<Rightarrow> Some (Inl e) | Inr m \<Rightarrow> restore_all_links ss m)"

definition restore :: "entity_snapshot list \<Rightarrow> entity_manager \<Rightarrow> entity_manager result option" where
  "restore ss m =
     (if entities m \<noteq> [] then Some (Inl (Logic_Error ''entity snapshots require an empty manager''))
      else case foldR restore_entity ss m of Inl e \<Rightarrow> Some (Inl e) | Inr m \<Rightarrow> restore_all_links ss m)"

end
