(* ===== verification/Survival_Facts.thy ===== *)
theory Survival_Facts
  imports Survival
begin

text \<open>
  The invariant of the survival state and what the operations of theory Survival
  do to it: every history of operations returns, in a state within its bounds.
  The loop over levels computes the closed formula of experience, and a reader of
  the drained statistics knows every value.
\<close>

section \<open>The invariant\<close>

text \<open>Whole numbers in the units of a \<open>float\<close>.\<close>

abbreviation whole_units :: "int \<Rightarrow> int" where
  "whole_units i \<equiv> i * 2 ^ 149"

definition armor_ok :: "nat \<Rightarrow> f32 \<Rightarrow> bool" where
  "armor_ok most b = (f32_nan b \<or> f32_in 0 (whole_units (int most)) b)"

definition vitals_ok :: "f32 \<Rightarrow> f32 \<Rightarrow> bool" where
  "vitals_ok life shield =
     (f32_in 0 (whole_units 20) life \<and> f32_finite shield \<and> 0 \<le> f32_value shield)"

text \<open>Hunger: the saturation never exceeds the food level, and less than four points of exhaustion are left.\<close>

definition hunger_ok :: "int \<Rightarrow> survival \<Rightarrow> bool" where
  "hunger_ok most s =
     (0 \<le> food_level s \<and> food_level s \<le> 20 \<and>
      f32_in 0 (whole_units (food_level s)) (saturation s) \<and>
      f32_in 0 (whole_units most) (exhaustion s))"

definition effects_ok :: "(i32 \<times> effect) list \<Rightarrow> bool" where
  "effects_ok es = (sorted_wrt (\<lambda>a b. fst a <s fst b) es \<and>
     list_all (\<lambda>(i, e). 0 \<le>s i \<and> i <s 40 \<and> effect_ticks e \<noteq> 0) es)"

definition survival_ok :: "survival \<Rightarrow> bool" where
  "survival_ok s =
     (vitals_ok (health s) (absorption s) \<and> hunger_ok 4 s \<and> f32_less (exhaustion s) (f32_ratio 4 1) \<and>
      - 20 < air_ticks s \<and> air_ticks s \<le> 300 \<and> armor_ok 30 (armor s) \<and> armor_ok 20 (armor_toughness s) \<and>
      attack_recharge_ticks s \<le> 5 \<and> (combat_ticks s = 0 \<longleftrightarrow> combat_target s = None) \<and>
      effects_ok (effects s))"

lemma literal [simp]:
  assumes "n < 2 ^ 24"
  shows "f32_finite (f32_ratio n (Suc 0))" and "f32_value (f32_ratio n (Suc 0)) = whole_units (int n)"
  using f32_ratio_integer [OF assms] by simp_all

lemma f32_le_zero: "f32_finite a \<Longrightarrow> \<not> f32_le a 0 \<longleftrightarrow> 0 < f32_value a"
  by (simp add: f32_le_value not_le)

lemma armored_amount_in:
  assumes "f32_finite q" "0 < f32_value q" "armor_ok 30 (armor s)"
  shows "f32_in 0 (f32_value q) (armored_amount s q)"
proof -
  define a where "a = f32_div (armor s) (f32_ratio 5 1)"
  define x where "x = f32_sub (armor s) (f32_div q (f32_add (f32_ratio 2 1) (f32_div (armor_toughness s) (f32_ratio 4 1))))"
  define e where "e = f32_min f32_20 (f32_max a x)"
  have e: "f32_in 0 (whole_units 20) e"
  proof (cases "f32_nan (f32_max a x)")
    case True
    then show ?thesis by (simp add: e_def f32_min_nan f32_in_def)
  next
    case False
    have "f32_in 0 (whole_units 30) (armor s)"
    proof (rule ccontr)
      assume "\<not> f32_in 0 (whole_units 30) (armor s)"
      then have "f32_nan (armor s)" using assms(3) by (simp add: armor_ok_def)
      then have "f32_nan a"
        using f32_number_of [of "nan_number single_format"]
        by (simp add: a_def f32_div_def float_div_def f32_facts(4) nan_number_def single_format_def)
      with False show False by (simp add: f32_max_nan)
    qed
    then have "f32_in (f32_value 0) (f32_value (f32_ratio 30 1)) a"
      unfolding a_def by (intro f32_div_in) (simp_all add: f32_in_def)
    then have a: "f32_le 0 a" "\<not> f32_nan a" by (simp_all add: f32_in_def f32_le_value f32_finite_not_nan)
    have "f32_le 0 (f32_max a x)"
    proof (cases "f32_less a x")
      case True
      then have "f32_le a x" by (auto simp: f32_less_def f32_le_def)
      with a True show ?thesis by (auto simp: f32_max_def intro: f32_le_trans)
    qed (simp add: f32_max_def a)
    then have "f32_in (f32_value 0) (f32_value f32_20) e"
      unfolding e_def using False by (intro f32_min_in) (simp_all)
    then show ?thesis by simp
  qed
  have "f32_in (f32_value 0) (f32_value f32_1) (f32_div e (f32_ratio 25 1))"
    by (rule f32_div_in) (use e in \<open>simp_all add: f32_in_def \<close>)
  then have "f32_in (f32_value 0) (f32_value f32_1) (f32_sub f32_1 (f32_div e (f32_ratio 25 1)))"
    by (intro f32_sub_in) (simp_all add: f32_in_def)
  then have "f32_in (f32_value 0) (f32_value q) (f32_mul q (f32_sub f32_1 (f32_div e (f32_ratio 25 1))))"
    by (intro f32_mul_in) (use assms in \<open>simp_all add: f32_in_def \<close>)
  then show ?thesis by (simp add: armored_amount_def e_def a_def x_def Let_def)
qed

lemma f32_in_finite: "f32_in lo hi b \<Longrightarrow> f32_finite b"
  by (simp add: f32_in_def)

lemma f32_min_cases: "f32_finite a \<Longrightarrow> f32_finite b \<Longrightarrow>
    f32_min a b = (if f32_value b < f32_value a then b else a)"
  by (simp add: f32_min_def f32_less_value)

text \<open>What a damage takes from the absorption and the health.\<close>

definition vitals_after :: "f32 \<Rightarrow> f32 \<Rightarrow> f32 \<Rightarrow> f32 \<times> f32" where
  "vitals_after life shield taken = (let absorbed = f32_min shield taken in
     (f32_max 0 (f32_sub life (f32_sub taken absorbed)), f32_sub shield absorbed))"

lemma vitals_after_ok:
  assumes "vitals_ok life shield" and taken: "f32_finite taken" "0 \<le> f32_value taken"
    and "vitals_after life shield taken = (life', shield')"
  shows "vitals_ok life' shield'" and "f32_in 0 (f32_value life) life'"
proof -
  let ?absorbed = "f32_min shield taken"
  have s: "f32_finite shield" "0 \<le> f32_value shield" and l: "f32_finite life" "0 \<le> f32_value life"
    "f32_value life \<le> whole_units 20"
    using assms(1) by (simp_all add: vitals_ok_def f32_in_def)
  have a: "f32_finite ?absorbed" "0 \<le> f32_value ?absorbed" "f32_value ?absorbed \<le> f32_value shield"
    "f32_value ?absorbed \<le> f32_value taken"
    using s taken by (simp_all add: f32_min_cases)
  have "f32_in (f32_value 0) (f32_value shield) (f32_sub shield ?absorbed)"
    by (rule f32_sub_in) (use s a in simp_all)
  moreover have "f32_in (f32_value 0) (f32_value taken) (f32_sub taken ?absorbed)"
    by (rule f32_sub_in) (use taken a in simp_all)
  then have rest: "f32_finite (f32_sub taken ?absorbed)" "0 \<le> f32_value (f32_sub taken ?absorbed)"
    by (simp_all add: f32_in_def)
  have "f32_in 0 (f32_value life) (f32_max 0 (f32_sub life (f32_sub taken ?absorbed)))"
    by (rule f32_max_zero_sub) (use l rest in simp_all)
  ultimately show "vitals_ok life' shield'" "f32_in 0 (f32_value life) life'"
    using assms(4) l by (auto simp: vitals_after_def Let_def vitals_ok_def f32_in_def)
qed

text \<open>Apart from the vitals and what marks the hit, a damage changes nothing.\<close>

lemma damage_cases:
  assumes "damage q source blockable s = ((applied, blocked), s')"
    and ok: "vitals_ok (health s) (absorption s)" "armor_ok 30 (armor s)"
  shows "s' = s \<and> \<not> applied \<or>
    (applied \<and> vitals_ok (health s') (absorption s') \<and> f32_value (health s') \<le> f32_value (health s) \<and>
     s' = s\<lparr>health := health s', absorption := absorption s', blocking := blocking s',
       last_damage_source := Some source, survival_dirty := True,
       hurt_ticks := (if bypasses_invulnerability source then hurt_ticks s else 10)\<rparr>)"
proof (cases "applied")
  case False
  then show ?thesis using assms(1) by (auto simp: damage_def Let_def split: if_splits)
next
  case True
  define hit where "hit = (if bypasses_armor source then q else armored_amount s q)"
  define part where "part = (if blockable \<and> blocking s then f32_mul hit f32_half else 0)"
  have q: "f32_finite q" "0 < f32_value q"
    using assms(1) True by (auto simp: damage_def f32_le_zero [symmetric] split: if_splits)
  have h: "f32_finite hit" "0 \<le> f32_value hit"
    using q armored_amount_in [OF q ok(2)] by (auto simp: hit_def f32_in_def)
  have "f32_in (f32_value 0) (f32_value hit) (f32_mul hit f32_half)"
    by (rule f32_mul_in) (use h f32_half_value in simp_all)
  then have p: "f32_finite part" "0 \<le> f32_value part" "f32_value part \<le> f32_value hit"
    using h by (auto simp: part_def f32_in_def)
  have "f32_in (f32_value 0) (f32_value hit) (f32_sub hit part)"
    by (rule f32_sub_in) (use h p in simp_all)
  then have taken: "f32_finite (f32_sub hit part)" "0 \<le> f32_value (f32_sub hit part)"
    by (simp_all add: f32_in_def)
  have v: "vitals_after (health s) (absorption s) (f32_sub hit part) = (health s', absorption s')"
    and s': "s' = s\<lparr>health := health s', absorption := absorption s', blocking := blocking s',
       last_damage_source := Some source, survival_dirty := True,
       hurt_ticks := (if bypasses_invulnerability source then hurt_ticks s else 10)\<rparr>"
    using assms(1) True
    by (auto simp: damage_def Let_def vitals_after_def hit_def [symmetric] part_def [symmetric] split: if_splits)
  show ?thesis
    using vitals_after_ok [OF ok(1) taken v] True s' by (simp add: f32_in_def)
qed

lemma damage_shape:
  assumes "vitals_ok (health s) (absorption s)" and "armor_ok 30 (armor s)"
  shows "\<exists>life shield blocks hit dirty last. vitals_ok life shield \<and>
    snd (damage q source blockable s) = s\<lparr>health := life, absorption := shield, blocking := blocks,
      last_damage_source := last, survival_dirty := dirty, hurt_ticks := hit\<rparr>"
proof -
  obtain applied blocked s' where d: "damage q source blockable s = ((applied, blocked), s')"
    by (metis prod.exhaust)
  from damage_cases [OF d assms] show ?thesis
  proof
    assume "s' = s \<and> \<not> applied"
    with assms(1) d show ?thesis
      by (intro exI [of _ "health s"] exI [of _ "absorption s"] exI [of _ "blocking s"]
          exI [of _ "hurt_ticks s"] exI [of _ "survival_dirty s"] exI [of _ "last_damage_source s"]) simp
  next
    assume "applied \<and> vitals_ok (health s') (absorption s') \<and> f32_value (health s') \<le> f32_value (health s) \<and>
     s' = s\<lparr>health := health s', absorption := absorption s', blocking := blocking s',
       last_damage_source := Some source, survival_dirty := True,
       hurt_ticks := (if bypasses_invulnerability source then hurt_ticks s else 10)\<rparr>"
    with d show ?thesis by (metis snd_conv)
  qed
qed

text \<open>The invariant without the bound on exhaustion that the loop restores.\<close>

definition body_ok :: "int \<Rightarrow> survival \<Rightarrow> bool" where
  "body_ok most s =
     (vitals_ok (health s) (absorption s) \<and> hunger_ok most s \<and>
      - 20 < air_ticks s \<and> air_ticks s \<le> 300 \<and> armor_ok 30 (armor s) \<and> armor_ok 20 (armor_toughness s) \<and>
      attack_recharge_ticks s \<le> 5 \<and> (combat_ticks s = 0 \<longleftrightarrow> combat_target s = None) \<and>
      effects_ok (effects s))"

lemma survival_ok_body: "survival_ok s \<longleftrightarrow> body_ok 4 s \<and> f32_less (exhaustion s) (f32_ratio 4 1)"
  by (auto simp: survival_ok_def body_ok_def)

lemma body_ok_damage: "body_ok m s \<Longrightarrow> body_ok m (snd (damage q source blockable s))"
  using damage_shape [of s q source blockable] by (auto simp: body_ok_def hunger_ok_def)

lemma damage_same:
  assumes "vitals_ok (health s) (absorption s)" and "armor_ok 30 (armor s)"
  shows "exhaustion (snd (damage q source blockable s)) = exhaustion s"
    and "effects (snd (damage q source blockable s)) = effects s"
    and "air_ticks (snd (damage q source blockable s)) = air_ticks s"
  using damage_shape [OF assms, of q source blockable] by auto

lemma survival_ok_damage: "survival_ok s \<Longrightarrow> survival_ok (snd (damage q source blockable s))"
  using body_ok_damage [of 4 s q source blockable] damage_same(1) [of s q source blockable]
  by (simp add: survival_ok_body) (simp add: body_ok_def)

lemma f32_of_food: "0 \<le> i \<Longrightarrow> i \<le> 20 \<Longrightarrow> f32_finite (f32_of_int i) \<and> f32_value (f32_of_int i) = whole_units i"
  using f32_of_int_exact [of i] by simp

lemma heal_shape:
  assumes "vitals_ok (health s) (absorption s)"
  shows "\<exists>life dirty. vitals_ok life (absorption s) \<and> heal q s = s\<lparr>health := life, survival_dirty := dirty\<rparr>"
proof (cases "\<not> f32_finite q \<or> f32_le q 0 \<or> f32_le (health s) 0")
  case True
  then show ?thesis
    using assms by (intro exI [of _ "health s"] exI [of _ "survival_dirty s"]) (simp add: heal_def)
next
  case False
  let ?healed = "f32_min f32_20 (f32_add (health s) q)"
  have h: "f32_finite (health s)" "0 \<le> f32_value (health s)" "f32_value (health s) \<le> whole_units 20"
    using assms by (simp_all add: vitals_ok_def f32_in_def)
  have q: "f32_finite q" "0 < f32_value q" using False by (simp_all flip: f32_le_zero)
  have "f32_le (health s) (f32_add (health s) q)"
    by (rule f32_add_ge) (use h q in simp_all)
  then have "f32_in (f32_value (health s)) (f32_value f32_20) ?healed"
    using h q f32_add_rank(1) by (intro f32_min_in) simp_all
  then have v: "vitals_ok ?healed (absorption s)"
    using assms h by (simp add: vitals_ok_def f32_in_def)
  show ?thesis
  proof (cases "f32_nan ?healed \<or> f32_rank ?healed \<noteq> f32_rank (health s)")
    case True
    with v False show ?thesis
      by (intro exI [of _ ?healed] exI [of _ True]) (simp add: heal_def Let_def)
  next
    case False
    with assms show ?thesis
      by (intro exI [of _ "health s"] exI [of _ "survival_dirty s"]) (auto simp: heal_def Let_def)
  qed
qed

lemma body_ok_heal: "body_ok m s \<Longrightarrow> body_ok m (heal q s)" "body_ok m s \<Longrightarrow> exhaustion (heal q s) = exhaustion s"
  "body_ok m s \<Longrightarrow> effects (heal q s) = effects s"
  using heal_shape [of s q] by (auto simp: body_ok_def hunger_ok_def)

text \<open>One round of the loop takes the exhaustion down by four points.\<close>

lemma body_ok_exhaust:
  assumes "body_ok (4 * n + 4) s" and "f32_le (f32_ratio 4 1) (exhaustion s)" and "0 \<le> n" "n \<le> 20"
  shows "body_ok (4 * n) (exhaust s)"
proof -
  have e: "f32_finite (exhaustion s)" "whole_units 4 \<le> f32_value (exhaustion s)"
    "f32_value (exhaustion s) \<le> whole_units (4 * n + 4)"
    using assms(1,2) by (auto simp: body_ok_def hunger_ok_def f32_in_def f32_le_value)
  define k where "k = nat (4 * n)"
  have k: "f32_finite (f32_ratio k 1)" "f32_value (f32_ratio k 1) = whole_units (4 * n)"
    using f32_ratio_integer [of k] assms(3,4) by (simp_all add: k_def)
  have four: "f32_finite (f32_ratio 4 1)" "f32_value (f32_ratio 4 1) = whole_units 4" by simp_all
  have ex: "f32_in 0 (whole_units (4 * n)) (f32_sub (exhaustion s) (f32_ratio 4 1))"
    by (rule f32_sub_in [where c = 0 and d = "f32_ratio k 1", unfolded f32_zero k(2)])
      (use e k(1) four in \<open>simp_all only: f32_zero distrib_right diff_ge_0_iff_ge diff_le_eq\<close>)
  have sat: "f32_in 0 (whole_units (food_level s)) (saturation s)" and food: "0 \<le> food_level s" "food_level s \<le> 20"
    using assms(1) by (simp_all add: body_ok_def hunger_ok_def)
  have "f32_in 0 (f32_value (saturation s)) (f32_max 0 (f32_sub (saturation s) f32_1))"
    by (rule f32_max_zero_sub) (use sat in \<open>simp_all add: f32_in_def\<close>)
  then have sat': "f32_in 0 (whole_units (food_level s)) (f32_max 0 (f32_sub (saturation s) f32_1))"
    using sat by (auto simp: f32_in_def)
  have drained: "f32_in 0 (whole_units (food_level s - 1)) (saturation s)"
    if "\<not> f32_less 0 (saturation s)" "0 < food_level s"
    using sat that by (auto simp: f32_in_def f32_less_value)
  show ?thesis
    using assms(1) ex sat sat' drained food
    by (auto simp: exhaust_def body_ok_def hunger_ok_def Let_def)
qed

lemma apply_exhaustion_returns:
  assumes "body_ok (4 * int n) s" and "n \<le> 20"
  shows "\<exists>s'. apply_exhaustion s = Some s' \<and> survival_ok s'"
  using assms
proof (induction n arbitrary: s)
  case 0
  then have "f32_in 0 0 (exhaustion s)" by (simp add: body_ok_def hunger_ok_def)
  then have "f32_finite (exhaustion s)" "f32_value (exhaustion s) = 0" by (auto simp: f32_in_def)
  then have less: "f32_less (exhaustion s) (f32_ratio 4 1)" "\<not> f32_le (f32_ratio 4 1) (exhaustion s)"
    by (simp_all add: f32_less_value f32_le_value)
  have "body_ok 4 s" using 0 by (auto simp: body_ok_def hunger_ok_def intro: f32_in_weaken)
  with less show ?case by (subst apply_exhaustion.simps) (simp add: survival_ok_body)
next
  case (Suc n)
  show ?case
  proof (cases "f32_le (f32_ratio 4 1) (exhaustion s)")
    case True
    then have "body_ok (4 * int n) (exhaust s)"
      using Suc.prems body_ok_exhaust [of "int n" s] by (simp add: algebra_simps)
    with Suc True show ?thesis by (subst apply_exhaustion.simps) simp
  next
    case False
    have e: "f32_finite (exhaustion s)" "0 \<le> f32_value (exhaustion s)"
      using Suc.prems by (simp_all add: body_ok_def hunger_ok_def f32_in_def)
    with False have less: "f32_less (exhaustion s) (f32_ratio 4 1)" by (simp add: f32_less_value f32_le_value)
    with e have "f32_in 0 (whole_units 4) (exhaustion s)" by (simp add: f32_less_value f32_in_def)
    then have "body_ok 4 s" using Suc.prems by (simp add: body_ok_def hunger_ok_def)
    with less False show ?thesis by (subst apply_exhaustion.simps) (simp add: survival_ok_body)
  qed
qed

lemma add_exhaustion_returns:
  assumes "survival_ok s"
  shows "\<exists>s'. add_exhaustion q s = Some s' \<and> survival_ok s'"
proof (cases "\<not> f32_finite q \<or> f32_le q 0")
  case False
  have e: "f32_finite (exhaustion s)" "0 \<le> f32_value (exhaustion s)" and q: "f32_finite q" "0 < f32_value q"
    using assms False by (simp_all add: survival_ok_def hunger_ok_def f32_in_def flip: f32_le_zero)
  have "f32_le 0 (f32_add (exhaustion s) q)" by (rule f32_add_ge) (use e q in simp_all)
  then have "f32_in (f32_value 0) (f32_value (f32_ratio 40 1)) (f32_min (f32_ratio 40 1) (f32_add (exhaustion s) q))"
    using f32_add_rank(1) [OF e(1) q(1)] by (intro f32_min_in) simp_all
  then have "f32_in 0 (whole_units 40) (f32_min (f32_ratio 40 1) (f32_add (exhaustion s) q))" by simp
  then have "body_ok (4 * int 10) (s\<lparr>exhaustion := f32_min (f32_ratio 40 1) (f32_add (exhaustion s) q)\<rparr>)"
    using assms by (simp add: survival_ok_body body_ok_def hunger_ok_def)
  from apply_exhaustion_returns [OF this] False show ?thesis by (simp add: add_exhaustion_def)
qed (use assms in \<open>simp add: add_exhaustion_def\<close>)

lemma survival_ok_heal: "survival_ok s \<Longrightarrow> survival_ok (heal q s)"
  using body_ok_heal(1,2) [of 4 s q] by (simp add: survival_ok_body)

lemma survival_ok_act_effect: "survival_ok s \<Longrightarrow> survival_ok (act_effect i e s)"
  by (simp add: act_effect_def survival_ok_damage survival_ok_heal)

lemma act_effect_effects: "survival_ok s \<Longrightarrow> effects (act_effect i e s) = effects s"
  using damage_same(2) [of s] body_ok_heal(3) [of 4 s]
  by (simp add: act_effect_def survival_ok_body) (simp add: body_ok_def)

lemma slt_sint: "(a :: i32) <s b \<longleftrightarrow> sint a < sint b"
  by (simp add: word_sless_alt)

lemma effects_ok_delete: "effects_ok es \<Longrightarrow> effects_ok (AList.delete i es)"
  by (auto simp: effects_ok_def AList.delete_eq list_all_iff intro: sorted_wrt_filter)

lemma effects_ok_Cons: "effects_ok (x # es) \<longleftrightarrow>
    (\<forall>k \<in> fst ` set es. fst x <s k) \<and> 0 \<le>s fst x \<and> fst x <s 40 \<and> effect_ticks (snd x) \<noteq> 0 \<and> effects_ok es"
  by (auto simp: effects_ok_def split: prod.split)

lemma keys_update: "i \<in> fst ` set es \<Longrightarrow> fst ` set (AList.update i e es) = fst ` set es"
  by (induction es) auto

lemma effects_ok_update:
  assumes "effects_ok es" and "i \<in> fst ` set es" and "effect_ticks e \<noteq> 0"
  shows "effects_ok (AList.update i e es)"
  using assms
proof (induction es)
  case (Cons x es)
  show ?case
  proof (cases "i = fst x")
    case True
    with Cons.prems show ?thesis by (cases x) (simp add: effects_ok_Cons)
  next
    case False
    with Cons.prems have "i \<in> fst ` set es" by auto
    with False Cons show ?thesis
      by (cases x) (auto simp: effects_ok_Cons keys_update simp del: image_iff)
  qed
qed simp

lemma effects_ok_put:
  "effects_ok es \<Longrightarrow> 0 \<le>s i \<Longrightarrow> i <s 40 \<Longrightarrow> effect_ticks e \<noteq> 0 \<Longrightarrow>
   effects_ok (put_key (\<lambda>a b. a <s b) i e es) \<and>
   fst ` set (put_key (\<lambda>a b. a <s b) i e es) = insert i (fst ` set es)"
proof (induction es)
  case (Cons x es)
  show ?case
  proof (cases "i = fst x")
    case True
    with Cons.prems show ?thesis by (cases x) (auto simp: effects_ok_Cons)
  next
    case False
    then have "sint i \<noteq> sint (fst x)" by (metis signed_word_eqI)
    with False Cons show ?thesis
      by (cases x) (auto simp: effects_ok_Cons slt_sint intro: less_trans)
  qed
qed (simp add: effects_ok_def)

lemma survival_ok_tick_effect:
  assumes "survival_ok s"
  shows "survival_ok (tick_effect i s)"
proof (cases "effect_at s i")
  case (Some e)
  let ?s = "act_effect i e s"
  have s: "survival_ok ?s" "effects ?s = effects s"
    using assms by (simp_all add: survival_ok_act_effect act_effect_effects)
  have ok: "effects_ok (effects s)" and i: "i \<in> fst ` set (effects s)"
    using assms map_of_SomeD [OF Some [unfolded effect_at_def]] by (simp_all add: survival_ok_def rev_image_eqI)
  show ?thesis
  proof (cases "effect_ticks e \<le> 1")
    case True
    then show ?thesis
      using s Some effects_ok_delete [OF ok, of i]
      by (auto simp: tick_effect_def Let_def survival_ok_def vitals_ok_def hunger_ok_def)
  next
    case False
    then have "effect_ticks e - 1 \<noteq> 0" by auto
    then show ?thesis
      using s Some False effects_ok_update [OF ok i, of "e\<lparr>effect_ticks := effect_ticks e - 1\<rparr>"]
      by (auto simp: tick_effect_def Let_def survival_ok_def hunger_ok_def)
  qed
qed (use assms in \<open>simp add: tick_effect_def\<close>)

lemma survival_ok_tick_effects: "survival_ok s \<Longrightarrow> survival_ok (fold tick_effect is s)"
  by (induction "is" arbitrary: s) (simp_all add: survival_ok_tick_effect)

lemma survival_ok_peaceful:
  assumes "survival_ok s"
  shows "survival_ok (tick_peaceful difficulty s)"
proof -
  have sat: "f32_finite (saturation s)" "0 \<le> f32_value (saturation s)" "f32_value (saturation s) \<le> whole_units (food_level s)"
    and "food_level s \<le> 20"
    using assms by (simp_all add: survival_ok_def hunger_ok_def f32_in_def)
  then have "f32_in 0 (whole_units 20) (f32_max (saturation s) (f32_ratio 5 1))"
    by (simp add: f32_max_def f32_in_def f32_less_value)
  moreover have "f32_less 0 (f32_ratio 4 1)" by (simp add: f32_less_value)
  ultimately show ?thesis
    using assms by (simp add: tick_peaceful_def survival_ok_def hunger_ok_def f32_in_def)
qed

lemma survival_ok_counters: "survival_ok s \<Longrightarrow> survival_ok (tick_counters s)"
  by (auto simp: tick_counters_def Let_def survival_ok_def hunger_ok_def)

lemma survival_ok_air:
  assumes "survival_ok s"
  shows "survival_ok (tick_air water s)"
proof -
  have step: "survival_ok (s\<lparr>air_ticks := a\<rparr>)" if "- 20 < a" "a \<le> 300" "survival_ok s" for a s
    using that by (simp add: survival_ok_def hunger_ok_def)
  let ?s = "s\<lparr>air_ticks := air_ticks s - 1\<rparr>"
  have air: "- 20 < air_ticks s" "air_ticks s \<le> 300" using assms by (simp_all add: survival_ok_def)
  show ?thesis
  proof (cases "water \<and> air_ticks s - 1 \<le> - 20")
    case True
    let ?d = "snd (damage (f32_ratio 2 1) (internal_damage Drowning) False ?s)"
    have "vitals_ok (health ?s) (absorption ?s)" "armor_ok 30 (armor ?s)"
      using assms by (simp_all add: survival_ok_def)
    from damage_shape [OF this] obtain life shield blocks hit dirty last where
      d: "vitals_ok life shield" "?d = ?s\<lparr>health := life, absorption := shield, blocking := blocks,
        last_damage_source := last, survival_dirty := dirty, hurt_ticks := hit\<rparr>" by blast
    then have "survival_ok (?d\<lparr>air_ticks := 0\<rparr>)"
      using assms by (simp add: survival_ok_def hunger_ok_def)
    with True show ?thesis by (simp add: tick_air_def Let_def)
  next
    case False
    with air assms step show ?thesis by (auto simp: tick_air_def Let_def)
  qed
qed

text \<open>Operations that return, and in a good state.\<close>

definition good :: "survival option \<Rightarrow> bool" where
  "good r = (case r of None \<Rightarrow> False | Some s \<Rightarrow> survival_ok s)"

lemma good_simps [simp]: "good (Some s) = survival_ok s" "\<not> good None"
  by (simp_all add: good_def)

lemma good_map: "good r \<Longrightarrow> (\<And>s. survival_ok s \<Longrightarrow> survival_ok (f s)) \<Longrightarrow> good (map_option f r)"
  by (cases r) simp_all

lemma good_add_exhaustion: "survival_ok s \<Longrightarrow> good (add_exhaustion q s)"
  using add_exhaustion_returns [of s q] by auto

lemma survival_ok_fields:
  assumes "survival_ok s"
  shows "survival_ok (s\<lparr>regeneration_ticks := x\<rparr>)" "survival_ok (s\<lparr>starvation_ticks := x\<rparr>)"
    "survival_ok (s\<lparr>fall_distance := q\<rparr>)" "survival_ok (s\<lparr>gliding := b\<rparr>)" "survival_ok (s\<lparr>was_on_ground := b\<rparr>)"
    "survival_ok (s\<lparr>is_underwater := b\<rparr>)" "survival_ok (s\<lparr>flying := b\<rparr>)" "survival_ok (s\<lparr>sprinting := b\<rparr>)"
    "survival_ok (s\<lparr>sneaking := b\<rparr>)" "survival_ok (s\<lparr>jumping := b\<rparr>)" "survival_ok (s\<lparr>blocking := b\<rparr>)"
    "survival_ok (s\<lparr>expired_effects := is\<rparr>)" "survival_ok (s\<lparr>survival_dirty := b\<rparr>)"
  using assms by (simp_all add: survival_ok_def hunger_ok_def)

lemma good_regeneration: "survival_ok s \<Longrightarrow> good (tick_regeneration difficulty s)"
  by (auto simp: tick_regeneration_def Let_def survival_ok_fields survival_ok_heal good_add_exhaustion
      intro!: good_map)

lemma survival_ok_starvation:
  assumes "survival_ok s"
  shows "survival_ok (tick_starvation difficulty s)"
proof -
  define least where "least = starvation_minimum difficulty"
  have least: "f32_finite least" "0 \<le> f32_value least" "f32_value least \<le> whole_units 10"
    by (simp_all add: least_def starvation_minimum_def)
  have starve: "survival_ok (s\<lparr>health := f32_max least (f32_sub (health s) f32_1), survival_dirty := True\<rparr>)"
    if "survival_ok s" "f32_less least (health s)" for s
  proof -
    have h: "f32_finite (health s)" "f32_value (health s) \<le> whole_units 20" "0 \<le> f32_value (health s)"
      using that by (simp_all add: survival_ok_def vitals_ok_def f32_in_def)
    have "f32_le (f32_sub (health s) f32_1) (health s)"
      unfolding f32_sub_def by (rule f32_add_le) (use h in simp_all)
    then have le: "f32_le (f32_sub (health s) f32_1) (f32_ratio 20 1)"
      using h by (auto intro: f32_le_trans simp: f32_le_value)
    have "f32_in 0 (whole_units 20) (f32_max least (f32_sub (health s) f32_1))"
    proof (cases "f32_less least (f32_sub (health s) f32_1)")
      case True
      then have "f32_le least (f32_sub (health s) f32_1)" by (auto simp: f32_less_def f32_le_def)
      from f32_in_le [OF least(1) _ this le] least True show ?thesis
        by (auto simp: f32_max_def intro: f32_in_weaken)
    qed (use least in \<open>simp add: f32_max_def f32_in_def\<close>)
    with that show ?thesis by (simp add: survival_ok_def vitals_ok_def hunger_ok_def)
  qed
  show ?thesis
    using assms by (simp add: tick_starvation_def Let_def survival_ok_fields starve [simplified] flip: least_def)
qed

lemma good_tick: "survival_ok s \<Longrightarrow> good (survival_tick water difficulty s)"
  unfolding survival_tick_def Let_def
  by (intro good_map good_regeneration survival_ok_starvation survival_ok_air survival_ok_tick_effects
      survival_ok_counters survival_ok_peaceful) (simp_all add: survival_ok_fields)

lemma survival_ok_fall: "survival_ok s \<Longrightarrow> survival_ok (fall_further on_ground dy s)"
  by (simp add: fall_further_def survival_ok_fields)

lemma survival_ok_land: "survival_ok s \<Longrightarrow> survival_ok (land s)"
  by (simp add: land_def Let_def survival_ok_fields survival_ok_damage)

lemma good_movement: "survival_ok s \<Longrightarrow> good (record_movement start target on_ground sprints s)"
  unfolding record_movement_def Let_def
  by (intro good_map) (simp_all add: good_add_exhaustion survival_ok_fields survival_ok_fall survival_ok_land)

lemma survival_ok_input: "survival_ok s \<Longrightarrow> survival_ok (set_input a b c s)"
  by (simp add: set_input_def survival_ok_fields)

lemma survival_ok_gliding: "survival_ok s \<Longrightarrow> survival_ok (snd (start_gliding s))"
  by (simp add: start_gliding_def survival_ok_fields)

lemma survival_ok_flying: "survival_ok s \<Longrightarrow> survival_ok (set_flying b s)"
  by (simp add: set_flying_def Let_def survival_ok_fields)

lemma good_attack: "survival_ok s \<Longrightarrow> good (map_option snd (survival_attack target s))"
proof -
  assume "survival_ok s"
  then have "survival_ok (s\<lparr>attack_recharge_ticks := 0, combat_target := Some target, combat_ticks := 100\<rparr>)"
    by (simp add: survival_ok_def hunger_ok_def)
  from good_add_exhaustion [OF this] show ?thesis
    by (simp add: survival_attack_def Let_def option.map_comp comp_def option.map_ident)
qed

lemma survival_ok_apply_effect:
  assumes "survival_ok s"
  shows "survival_ok (snd (apply_effect i e s))"
proof -
  have "f32_in (f32_value 0) (f32_value (f32_ratio 1024 1)) (f32_mul (effect_strength e) (f32_ratio 4 1))"
  proof (rule f32_mul_in)
    have "uint (amplifier e) < 256" using uint_lt2p [of "amplifier e"] by simp
    then show "f32_finite (effect_strength e)"
      "f32_value 0 * 2 ^ 149 \<le> f32_value (effect_strength e) * f32_value (f32_ratio 4 1)"
      "f32_value (effect_strength e) * f32_value (f32_ratio 4 1) \<le> f32_value (f32_ratio 1024 1) * 2 ^ 149"
      using f32_of_int_exact [of "uint (amplifier e) + 1"] by (simp_all add: effect_strength_def)
  qed simp_all
  then have shield: "f32_finite (f32_mul (effect_strength e) (f32_ratio 4 1))"
    "0 \<le> f32_value (f32_mul (effect_strength e) (f32_ratio 4 1))"
    by (simp_all add: f32_in_def)
  show ?thesis
  proof (cases "i <s 0 \<or> 40 \<le>s i \<or> effect_ticks e = 0")
    case False
    then have "effects_ok (put_key (\<lambda>a b. a <s b) i e (effects s))"
      using assms effects_ok_put [of "effects s" i e]
      by (simp add: survival_ok_def slt_sint word_sle_eq not_less not_le)
    then show ?thesis
      using assms shield
      by (auto simp: apply_effect_def Let_def survival_ok_def vitals_ok_def hunger_ok_def)
  qed (use assms in \<open>simp add: apply_effect_def\<close>)
qed

lemma survival_ok_remove_effect: "survival_ok s \<Longrightarrow> survival_ok (snd (remove_effect i s))"
  by (auto simp: remove_effect_def Let_def survival_ok_def vitals_ok_def hunger_ok_def effects_ok_delete)

lemma survival_ok_blocking: "survival_ok s \<Longrightarrow> survival_ok (set_blocking b s)"
  by (simp add: set_blocking_def Let_def survival_ok_fields)

lemma armor_ok_clamp:
  assumes "n < 2 ^ 24"
  shows "armor_ok n (f32_clamp q 0 (f32_ratio n 1))"
proof (cases "f32_nan q")
  case True
  then show ?thesis by (simp add: armor_ok_def f32_clamp_def f32_less_def)
next
  case False
  note n = f32_ratio_integer [OF assms]
  have "f32_in 0 (f32_value (f32_ratio n 1)) q" if "\<not> f32_less q 0" "\<not> f32_less (f32_ratio n 1) q"
    using that False n f32_in_le [of 0 "f32_ratio n 1" q] f32_less_not_le [of q 0]
      f32_less_not_le [of "f32_ratio n 1" q] by (simp add: f32_finite_not_nan)
  then show ?thesis using n by (auto simp: armor_ok_def f32_clamp_def f32_in_def)
qed

lemma survival_ok_armor: "survival_ok s \<Longrightarrow> survival_ok (set_armor a b s)"
  using armor_ok_clamp [of 30 a] armor_ok_clamp [of 20 b]
  by (simp add: set_armor_def survival_ok_def hunger_ok_def)

text \<open>Sums and products of numbers that are not negative, infinity included.\<close>

lemma f32_nonneg_infinite:
  assumes "f32_le 0 b" and "\<not> f32_finite b"
  shows "f32_number b = (False, infinity single_format)"
proof -
  have "f32_rank 0 = 0" by (simp add: f32_rank_def f32_magnitude_def signed_def)
  with assms show ?thesis
    by (auto simp: f32_le_def f32_nan_def f32_finite_def f32_rank_def [of b] f32_number_def
        signed_def single_format_def split: if_splits)
qed

lemma f32_infinity: "f32_le 0 (f32_of_number (False, infinity single_format))"
  using f32_number_of [of "(False, infinity single_format)"]
  by (simp add: f32_le_def f32_facts(1,4) rank_def single_format_def)
    (simp add: f32_number_def f32_magnitude_def signed_def)

lemma f32_add_nonneg:
  assumes "f32_finite a" "0 \<le> f32_value a" "f32_le 0 b"
  shows "f32_le 0 (f32_add a b)"
proof (cases "f32_finite b")
  case True
  then show ?thesis using assms by (intro f32_add_ge) (simp_all add: f32_le_value)
next
  case False
  then show ?thesis
    using assms(1) f32_nonneg_infinite [OF assms(3) False] f32_infinity
    by (simp add: f32_add_def float_add_def f32_facts(2) finite_number_def)
qed

lemma f32_mul_nonneg:
  assumes "f32_le 0 a" "f32_finite b" "0 < f32_value b"
  shows "f32_le 0 (f32_mul a b)"
proof (cases "f32_finite a")
  case True
  then show ?thesis using assms by (intro f32_mul_ge) (simp_all add: f32_le_value)
next
  case False
  then show ?thesis
    using assms f32_nonneg_infinite [OF assms(1) False] f32_infinity
      units_positive [of single_format "f32_number b"]
    by (simp add: f32_mul_def float_mul_def f32_facts(2,3) finite_number_def)
qed

lemma f32_of_int_nonneg:
  assumes "0 \<le> i" "i \<le> 2147483648"
  shows "f32_finite (f32_of_int i)" and "0 \<le> f32_value (f32_of_int i)"
proof -
  obtain n where n: "i = int n" using assms(1) nonneg_int_cases by blast
  let ?r = "round_magnitude 23 (n * 2 ^ 149) 1"
  have "?r \<le> 0x4F000000"
    by (rule round_magnitude_le) (use assms n in \<open>simp_all add: scaled_def\<close>)
  then have "f32_of_int i = f32_of_number (False, ?r)" "?r < 0x7F800000"
    by (simp_all add: n f32_of_nat_ratio f32_ratio_def round_float_def single_format_def)
  then show "f32_finite (f32_of_int i)" "0 \<le> f32_value (f32_of_int i)"
    using f32_value_of [of ?r False] by (simp_all add: signed_def)
qed

text \<open>The nutrition that cannot overflow the sum with a food level below 20.\<close>

definition fitting_food :: "i32 \<Rightarrow> bool" where
  "fitting_food points = (points \<le>s 0x7FFFFFEC)"

lemma food_sum:
  assumes "fitting_food points" and "0 \<le> food" and "food < 20"
  shows "sint (word_of_int food + points) = food + sint points"
proof -
  have "sint points \<le> 2147483628" using assms(1) by (simp add: fitting_food_def word_sle_eq)
  moreover have "- 2147483648 \<le> sint points" using sint_ge [of points] by simp
  moreover have "sint (word_of_int food :: i32) = food"
    using assms(2,3) by (simp add: signed_of_int signed_take_bit_int_eq_self)
  ultimately show ?thesis
    using assms(2,3) sint_add_small [of "word_of_int food" points] by simp
qed

lemma survival_ok_consume:
  assumes "survival_ok s" and "fitting_food points"
  shows "survival_ok (snd (consume_food points factor s))"
proof (cases "points \<le>s 0 \<or> \<not> f32_finite factor \<or> f32_less factor 0 \<or> food_level s \<ge> 20")
  case False
  define food where "food = min 20 (sint (word_of_int (food_level s) + points))"
  define more where "more = f32_mul (f32_mul (f32_of_int (sint points)) factor) (f32_ratio 2 1)"
  have old: "0 \<le> food_level s" "f32_finite (saturation s)" "0 \<le> f32_value (saturation s)"
    using assms by (simp_all add: survival_ok_def hunger_ok_def f32_in_def)
  have p: "0 < sint points" using False by (simp add: word_sle_eq)
  have "sint points < 2147483648" using sint_lt [of points] by simp
  then have i: "f32_finite (f32_of_int (sint points))" "0 \<le> f32_value (f32_of_int (sint points))"
    using p by (simp_all add: f32_of_int_nonneg)
  have "f32_finite factor" "0 \<le> f32_value factor" using False by (auto simp: f32_less_value)
  then have "f32_le 0 (f32_mul (f32_of_int (sint points)) factor)"
    using i by (intro f32_mul_ge) simp_all
  then have "f32_le 0 more" unfolding more_def by (rule f32_mul_nonneg) simp_all
  then have sum: "f32_le 0 (f32_add (saturation s) more)" by (rule f32_add_nonneg [OF old(2,3)])
  have "sint (word_of_int (food_level s) + points) = food_level s + sint points"
    using food_sum [OF assms(2) old(1)] False by simp
  then have food: "0 \<le> food" "food \<le> 20" using old(1) p by (simp_all add: food_def)
  have "f32_in (f32_value 0) (f32_value (f32_of_int food)) (f32_min (f32_of_int food) (f32_add (saturation s) more))"
    by (rule f32_min_in) (use sum food f32_of_food [of food] in \<open>auto simp: f32_le_def\<close>)
  then have "f32_in 0 (whole_units food) (f32_min (f32_of_int food) (f32_add (saturation s) more))"
    using f32_of_food [OF food] by simp
  then show ?thesis
    using assms food False
    by (simp add: consume_food_def Let_def survival_ok_def hunger_ok_def food_def more_def)
qed (use assms in \<open>simp add: consume_food_def\<close>)

section \<open>Every history of operations\<close>

datatype survival_op =
    Do_Tick bool difficulty
  | Do_Move vec3 vec3 bool bool
  | Do_Exhaust f32
  | Do_Input bool bool bool
  | Do_Glide
  | Do_Fly bool
  | Do_Attack entity_id
  | Do_Effect i32 effect
  | Do_Remove_Effect i32
  | Do_Drain_Effects
  | Do_Block bool
  | Do_Eat i32 f32
  | Do_Armor f32 f32
  | Do_Damage f32 damage_source bool
  | Do_Heal f32
  | Do_Reset
  | Do_Take_Dirty

primrec perform :: "survival_op \<Rightarrow> survival \<Rightarrow> survival option" where
  "perform (Do_Tick water difficulty) s = survival_tick water difficulty s"
| "perform (Do_Move start target ground sprints) s = record_movement start target ground sprints s"
| "perform (Do_Exhaust q) s = add_exhaustion q s"
| "perform (Do_Input a b c) s = Some (set_input a b c s)"
| "perform Do_Glide s = Some (snd (start_gliding s))"
| "perform (Do_Fly b) s = Some (set_flying b s)"
| "perform (Do_Attack target) s = map_option snd (survival_attack target s)"
| "perform (Do_Effect i e) s = Some (snd (apply_effect i e s))"
| "perform (Do_Remove_Effect i) s = Some (snd (remove_effect i s))"
| "perform Do_Drain_Effects s = Some (snd (drain_expired_effects s))"
| "perform (Do_Block b) s = Some (set_blocking b s)"
| "perform (Do_Eat points factor) s = Some (snd (consume_food points factor s))"
| "perform (Do_Armor a b) s = Some (set_armor a b s)"
| "perform (Do_Damage q source blockable) s = Some (snd (damage q source blockable s))"
| "perform (Do_Heal q) s = Some (heal q s)"
| "perform Do_Reset s = Some (survival_reset s)"
| "perform Do_Take_Dirty s = Some (snd (take_survival_dirty s))"

fun perform_all :: "survival_op list \<Rightarrow> survival \<Rightarrow> survival option" where
  "perform_all [] s = Some s"
| "perform_all (a # as) s = Option.bind (perform a s) (perform_all as)"

lemma survival_ok_fresh: "survival_ok fresh_survival"
proof -
  have "f32_less 0 (f32_ratio 4 1)" by (simp add: f32_less_value)
  then show ?thesis
    by (simp add: fresh_survival_def survival_ok_def vitals_ok_def hunger_ok_def armor_ok_def f32_in_def
        effects_ok_def)
qed

fun food_fits :: "survival_op \<Rightarrow> bool" where
  "food_fits (Do_Eat points factor) = fitting_food points"
| "food_fits _ = True"

lemma good_perform: "survival_ok s \<Longrightarrow> food_fits a \<Longrightarrow> good (perform a s)"
  by (cases a) (simp_all add: good_tick good_movement good_add_exhaustion survival_ok_input
      survival_ok_gliding survival_ok_flying good_attack survival_ok_apply_effect survival_ok_remove_effect
      drain_expired_effects_def survival_ok_fields survival_ok_blocking survival_ok_consume survival_ok_armor
      survival_ok_damage survival_ok_heal survival_reset_def survival_ok_fresh take_survival_dirty_def)

lemma good_perform_all: "survival_ok s \<Longrightarrow> list_all food_fits as \<Longrightarrow> good (perform_all as s)"
proof (induction "as" arbitrary: s)
  case (Cons a "as")
  then have "good (perform a s)" by (intro good_perform) simp_all
  with Cons show ?case by (cases "perform a s") simp_all
qed simp

text \<open>C4. Every sequence of operations on a new survival state returns: the loop of \<open>apply_exhaustion\<close> ends. The
  arguments may be anything (NaN and infinities included), except that the nutrition of a meal is at most
  2147483628, so that the 32-bit sum with the food level does not overflow; the server only passes the
  nutrition of an item, at most 20. The state it ends in has a health between 0 and 20, an absorption that
  is not negative, a food level between 0 and 20, a saturation between 0 and the food level, less than four
  points of exhaustion, air between -20 and 300 ticks, a target of combat just while the combat lasts, and
  effects in the order of their keys that have not run out.\<close>

theorem survival_returns:
  assumes "list_all food_fits ops"
  shows "case perform_all ops fresh_survival of None \<Rightarrow> False | Some s \<Rightarrow> survival_ok s"
  using good_perform_all [OF survival_ok_fresh assms] by (simp add: good_def)

text \<open>The largest sum allowed, after exhaustion by 40 points has emptied the saturation and taken some food.\<close>

theorem survival_returns_witness:
  "\<exists>s. perform_all [Do_Exhaust 0x42200000, Do_Eat 0x7FFFFFEC 0x3F19999A, Do_Move (vec3 0 0 0) (vec3 0 0 0) True False]
       fresh_survival = Some s \<and> survival_ok s"
proof -
  have "list_all food_fits [Do_Exhaust 0x42200000, Do_Eat 0x7FFFFFEC 0x3F19999A, Do_Move (vec3 0 0 0) (vec3 0 0 0) True False]"
    by (simp add: fitting_food_def)
  from survival_returns [OF this] show ?thesis by (auto split: option.splits)
qed

text \<open>Beyond that bound the sum overflows, and eating leaves a negative food level.\<close>

lemma overfed:
  assumes "0 < food_level s" and "food_level s < 20" and "f32_finite factor" and "\<not> f32_less factor 0"
  shows "food_level (snd (consume_food 0x7FFFFFFF factor s)) < 0"
proof -
  define n where "n = food_level s - 1"
  have n: "0 \<le> n" "n < 19" "food_level s = n + 1" using assms(1,2) by (simp_all add: n_def)
  have small: "sint (word_of_int n :: i32) = n"
    using n by (simp add: signed_of_int signed_take_bit_int_eq_self)
  have "(word_of_int (food_level s) + 0x7FFFFFFF :: i32) = word_of_int n + 0x80000000"
    by (simp add: n(3))
  also have "sint \<dots> = n - 2 ^ 31"
    using n small by (subst sint_add_small) simp_all
  finally have "sint (word_of_int (food_level s) + 0x7FFFFFFF :: i32) < 0" using n by simp
  then show ?thesis using assms by (simp add: consume_food_def Let_def word_sle_eq)
qed

section \<open>Experience and statistics\<close>

text \<open>The points that lead to a level, in closed form.\<close>

definition points_for :: "int \<Rightarrow> int" where
  "points_for level =
     (if level \<le> 15 then level * level + 6 * level
      else if level \<le> 30 then (5 * level * level - 81 * level) div 2 + 360
      else (9 * level * level - 325 * level) div 2 + 2220)"

lemma points_for_next:
  assumes "0 \<le> level"
  shows "points_for (level + 1) = points_for level + next_level_cost level"
proof -
  have split: "(x + 2 * y) div 2 = x div 2 + y" for x y :: int by simp
  have five: "5 * (level + 1) * (level + 1) - 81 * (level + 1) =
      5 * level * level - 81 * level + 2 * (5 * level - 38)"
    and nine: "9 * (level + 1) * (level + 1) - 325 * (level + 1) =
      9 * level * level - 325 * level + 2 * (9 * level - 158)"
    by (simp_all add: algebra_simps)
  consider "level < 15" | "level = 15" | "15 < level" "level < 30" | "level = 30" | "30 < level"
    by linarith
  then show ?thesis
  proof cases
    case 1
    then show ?thesis by (simp add: points_for_def next_level_cost_def algebra_simps)
  next
    case 3
    then show ?thesis unfolding points_for_def five split by (simp add: next_level_cost_def)
  next
    case 5
    then show ?thesis unfolding points_for_def nine split by (simp add: next_level_cost_def)
  qed (simp_all add: points_for_def next_level_cost_def)
qed

lemma climb_levels_points:
  assumes "climb_levels left level needed = (left', level', needed')"
    and "0 \<le> left" "0 \<le> level" "level \<le> 21863" "needed = next_level_cost level"
  shows "left' + points_for level' = left + points_for level \<and> 0 \<le> left' \<and> level \<le> level' \<and> level' \<le> 21863 \<and>
    needed' = next_level_cost level' \<and> (left' < needed' \<or> level' = 21863)"
  using assms
proof (induction left level needed rule: climb_levels.induct)
  case (1 left level needed)
  show ?case
  proof (cases "left \<ge> needed \<and> level < 21863")
    case True
    with "1.prems" have "climb_levels (left - needed) (level + 1) (next_level_cost (level + 1)) =
        (left', level', needed')" by (subst (asm) climb_levels.simps) simp
    from "1.IH" [OF True this] True "1.prems" points_for_next [of level] show ?thesis by auto
  next
    case False
    with "1.prems" show ?thesis by (subst (asm) climb_levels.simps) auto
  qed
qed

text \<open>C39. The level of a total of experience is the one whose closed formula fits: at least the points of the
  level and less than those of the next; the progress is the fraction of the way between them. No step of
  the loop exceeds 32 bits, and the limit of 21863 levels is never what stops it.\<close>

theorem experience_levels:
  "(let e = experience_from_total points; t = max 0 (sint points); level = experience_level e in
     0 \<le> level \<and> level \<le> 21863 \<and> points_for level \<le> t \<and> t < points_for (level + 1) \<and>
     sint (experience_total e) = t \<and> next_level_cost level < 2 ^ 31 \<and>
     experience_progress e = (if level = 21863 then 0
       else f32_div (f32_of_int (t - points_for level)) (f32_of_int (next_level_cost level))))"
proof -
  define total where "total = (if points <s 0 then 0 else points)"
  have t: "sint total = max 0 (sint points)" by (simp add: total_def slt_sint)
  obtain left level needed where c: "climb_levels (sint total) 0 7 = (left, level, needed)"
    by (metis prod.exhaust)
  have f: "left + points_for level = sint total \<and> 0 \<le> left \<and> 0 \<le> level \<and> level \<le> 21863 \<and>
      needed = next_level_cost level \<and> (left < needed \<or> level = 21863)"
  proof -
    have "points_for 0 = 0" "next_level_cost 0 = 7" by (simp_all add: points_for_def next_level_cost_def)
    with climb_levels_points [OF c] t show ?thesis by auto
  qed
  have "sint total < 2147483648" using sint_lt [of total] by simp
  moreover have "points_for (21863 + 1) = 2147604552" by (simp add: points_for_def)
  ultimately have "sint total < points_for (level + 1)"
    using f points_for_next [of level] by (cases "level = 21863") simp_all
  moreover have "next_level_cost level < 2 ^ 31" using f by (simp add: next_level_cost_def)
  moreover have "sint total - points_for level = left" "points_for level \<le> sint total" using f by simp_all
  ultimately show ?thesis
    using f c by (simp add: experience_from_total_def Let_def t flip: total_def)
qed

text \<open>A reader of the updates, with its own table of values.\<close>

definition apply_updates :: "(statistic_key \<times> i32) list \<Rightarrow> (statistic_key \<Rightarrow> i32) \<Rightarrow> statistic_key \<Rightarrow> i32" where
  "apply_updates us view = fold (\<lambda>(k, v) view. view(k := v)) us view"

datatype statistic_event = Incremented i32 i32 i32 | Drained

fun run_statistics ::
  "statistic_event list \<Rightarrow> statistics \<Rightarrow> (statistic_key \<Rightarrow> i32) \<Rightarrow> (statistics \<times> (statistic_key \<Rightarrow> i32)) result" where
  "run_statistics [] s view = Inr (s, view)"
| "run_statistics (Incremented kind what n # es) s view =
     run_statistics es (increment_statistic kind what n s) view"
| "run_statistics (Drained # es) s view = bindR (drain_statistics s) (\<lambda>(us, s).
     run_statistics es s (apply_updates us view))"

lemma map_of_put_key: "map_of (put_key lt k v es) = (map_of es)(k \<mapsto> v)"
  by (induction lt k v es rule: put_key.induct) auto

lemma set_put_key: "set (put_key lt k v es) \<subseteq> insert (k, v) (set es)"
  by (induction lt k v es rule: put_key.induct) auto

definition dirty_ok :: "(statistic_key \<times> i32) list \<Rightarrow> (statistic_key \<times> bool) list \<Rightarrow> bool" where
  "dirty_ok vs ds = (\<forall>d \<in> set ds. snd d \<and> map_of vs (fst d) \<noteq> None)"

definition view_ok :: "statistics \<Rightarrow> (statistic_key \<Rightarrow> i32) \<Rightarrow> bool" where
  "view_ok s view =
     (dirty_ok (statistic_values s) (statistic_dirty s) \<and>
      (\<forall>k. map_of (statistic_dirty s) k = None \<longrightarrow> statistic_value s (fst k) (snd k) = view k))"

lemma dirty_ok_put:
  assumes "dirty_ok vs ds"
  shows "dirty_ok (put_key lt k v vs) (put_key lt k True ds)"
  unfolding dirty_ok_def
proof
  fix d
  assume "d \<in> set (put_key lt k True ds)"
  then have "d = (k, True) \<or> d \<in> set ds" using set_put_key [of lt k True ds] by blast
  with assms show "snd d \<and> map_of (put_key lt k v vs) (fst d) \<noteq> None"
    by (auto simp: dirty_ok_def map_of_put_key)
qed

lemma view_ok_increment:
  assumes "view_ok s view"
  shows "view_ok (increment_statistic kind what n s) view"
proof (cases "kind <s 0 \<or> what <s 0 \<or> n \<le>s 0")
  case False
  define v where "v = (if 0x7FFFFFFF - statistic_value s kind what <s n then 0x7FFFFFFF
    else statistic_value s kind what + n)"
  have "increment_statistic kind what n s =
      s\<lparr>statistic_values := put_key key_less (kind, what) v (statistic_values s),
        statistic_dirty := put_key key_less (kind, what) True (statistic_dirty s)\<rparr>"
    using False by (simp add: increment_statistic_def Let_def v_def)
  then show ?thesis
    using assms by (simp add: view_ok_def dirty_ok_put map_of_put_key statistic_value_def)
qed (use assms in \<open>simp add: increment_statistic_def\<close>)

lemma drain_updates_out:
  assumes "dirty_ok vs ds"
  shows "foldR (\<lambda>(k, changed) out.
         if changed then (case map_of vs k of
             None \<Rightarrow> Inl (Out_Of_Range ''map::at'') | Some v \<Rightarrow> Inr (out @ [(k, v)]))
         else Inr out) ds out = Inr (out @ map (\<lambda>(k, _). (k, the (map_of vs k))) ds)"
  using assms by (induction ds arbitrary: out) (auto simp: dirty_ok_def)

lemma apply_updates_map:
  "apply_updates (map (\<lambda>(k, _). (k, f k)) ds) view =
   (\<lambda>k. if k \<in> fst ` set ds then f k else view k)"
proof (induction ds arbitrary: view)
  case (Cons d ds)
  have "apply_updates (map (\<lambda>(k, _). (k, f k)) (d # ds)) view =
      apply_updates (map (\<lambda>(k, _). (k, f k)) ds) (view(fst d := f (fst d)))"
    by (simp add: apply_updates_def split_def)
  then show ?case unfolding Cons.IH by (auto simp: fun_eq_iff)
qed (simp add: apply_updates_def)

lemma drain_statistics_view:
  assumes "view_ok s view"
  shows "\<exists>us. drain_statistics s = Inr (us, s\<lparr>statistic_dirty := []\<rparr>) \<and>
    apply_updates us view = (\<lambda>k. statistic_value s (fst k) (snd k))"
proof -
  let ?us = "map (\<lambda>(k, _). (k, the (map_of (statistic_values s) k))) (statistic_dirty s)"
  have d: "dirty_ok (statistic_values s) (statistic_dirty s)"
    using assms by (simp add: view_ok_def)
  have "drain_statistics s = Inr (?us, s\<lparr>statistic_dirty := []\<rparr>)"
    by (simp add: drain_statistics_def drain_updates_out [OF d])
  moreover have "apply_updates ?us view = (\<lambda>k. statistic_value s (fst k) (snd k))"
  proof
    fix k
    show "apply_updates ?us view k = statistic_value s (fst k) (snd k)"
    proof (cases "k \<in> fst ` set (statistic_dirty s)")
      case True
      with d have "map_of (statistic_values s) k \<noteq> None" by (auto simp: dirty_ok_def)
      with True show ?thesis by (auto simp: apply_updates_map statistic_value_def)
    next
      case False
      then have "map_of (statistic_dirty s) k = None" by (simp add: map_of_eq_None_iff)
      with assms False show ?thesis by (simp add: apply_updates_map view_ok_def)
    qed
  qed
  ultimately show ?thesis by blast
qed

lemma view_ok_drained:
  assumes "view_ok s view" and "drain_statistics s = Inr (us, s')"
  shows "view_ok s' (apply_updates us view)"
  using drain_statistics_view [OF assms(1)] assms(2) by (auto simp: view_ok_def dirty_ok_def statistic_value_def)

lemma run_statistics_view:
  "view_ok s view \<Longrightarrow> \<exists>s' view'. run_statistics es s view = Inr (s', view') \<and> view_ok s' view'"
proof (induction es s view rule: run_statistics.induct)
  case (3 es s view)
  from drain_statistics_view [OF "3.prems"] obtain us where
    us: "drain_statistics s = Inr (us, s\<lparr>statistic_dirty := []\<rparr>)" by blast
  with 3 view_ok_drained [OF "3.prems" us] show ?case by simp
qed (simp_all add: view_ok_increment)

text \<open>C40. Draining the statistics is a faithful log: whatever increments and drains have happened, a reader
  that has applied every list of updates it was given, and now applies the next one, knows the value of
  every statistic; no drain fails, and each leaves nothing to send.\<close>

theorem statistics_refine_view:
  "case run_statistics es no_statistics (\<lambda>k. 0) of Inl e \<Rightarrow> False
   | Inr (s, view) \<Rightarrow> (case drain_statistics s of Inl e \<Rightarrow> False
     | Inr (us, s') \<Rightarrow> apply_updates us view = (\<lambda>(kind, what). statistic_value s kind what) \<and>
         drain_statistics s' = Inr ([], s'))"
proof -
  have "view_ok no_statistics (\<lambda>k. 0)" by (simp add: view_ok_def dirty_ok_def no_statistics_def statistic_value_def)
  from run_statistics_view [OF this] obtain s view where
    s: "run_statistics es no_statistics (\<lambda>k. 0) = Inr (s, view)" "view_ok s view" by blast
  from drain_statistics_view [OF s(2)] obtain us where
    "drain_statistics s = Inr (us, s\<lparr>statistic_dirty := []\<rparr>)"
    "apply_updates us view = (\<lambda>k. statistic_value s (fst k) (snd k))" by blast
  with s(1) show ?thesis by (simp add: split_def) (simp add: drain_statistics_def)
qed

end
