(* ===== verification/Entity_Links.thy ===== *)
theory Entity_Links
  imports Entities Survival_Facts
begin

text \<open>
  Riding and leashes as the manager of entities (src/entity/entity.cpp) keeps them:
  the views of the links, their invariant, and that every operation keeps it.
\<close>

section \<open>Links between entities\<close>

text \<open>What riding and leashes look like from outside: who is there, who rides whom, who holds whom.\<close>

definition present :: "entity_manager \<Rightarrow> entity_id set" where
  "present m = {i. find_entity m i \<noteq> None}"

definition ride_of :: "entity_manager \<Rightarrow> entity_id \<Rightarrow> entity_id option" where
  "ride_of m i = Option.bind (find_entity m i) vehicle"

definition riders :: "entity_manager \<Rightarrow> entity_id \<Rightarrow> entity_id list" where
  "riders m i = (case find_entity m i of None \<Rightarrow> [] | Some e \<Rightarrow> passengers e)"

definition leash_of :: "entity_manager \<Rightarrow> entity_id \<Rightarrow> entity_id option" where
  "leash_of m i = Option.bind (find_entity m i) leash_holder"

definition ride_relation :: "(entity_id \<Rightarrow> entity_id option) \<Rightarrow> entity_id rel" where
  "ride_relation veh = {(i, v). veh i = Some v}"

text \<open>
  A rider knows its vehicle and the vehicle lists it; nobody rides in a circle; the holder
  of a leash is there. Apart from the identifiers in \<open>X\<close>, a vehicle lists nobody twice,
  everybody it lists who is an entity of this manager names it, and a passenger that is
  not an entity of this manager sits in one vehicle.
\<close>

definition links_ok :: "entity_id set \<Rightarrow>
   entity_id set \<Rightarrow> (entity_id \<Rightarrow> entity_id option) \<Rightarrow> (entity_id \<Rightarrow> entity_id list) \<Rightarrow>
   (entity_id \<Rightarrow> entity_id option) \<Rightarrow> bool" where
  "links_ok X D veh pas leash =
     ((\<forall>i v. veh i = Some v \<longrightarrow> i \<in> D \<and> v \<in> D \<and> i \<in> set (pas v)) \<and>
      (\<forall>p v. p \<in> set (pas v) \<longrightarrow> v \<in> D \<and> (p \<in> D - X \<longrightarrow> veh p = Some v)) \<and>
      (\<forall>v. distinct (filter (\<lambda>p. p \<notin> X) (pas v))) \<and>
      (\<forall>p v w. p \<notin> D \<union> X \<longrightarrow> p \<in> set (pas v) \<longrightarrow> p \<in> set (pas w) \<longrightarrow> v = w) \<and>
      (\<forall>i h. leash i = Some h \<longrightarrow> i \<in> D \<and> h \<in> D \<and> h \<noteq> i) \<and>
      acyclic (ride_relation veh))"

lemma links_okI:
  assumes "\<And>i v. veh i = Some v \<Longrightarrow> i \<in> D \<and> v \<in> D \<and> i \<in> set (pas v)"
    and "\<And>p v. p \<in> set (pas v) \<Longrightarrow> v \<in> D" and "\<And>p v. p \<in> set (pas v) \<Longrightarrow> p \<in> D \<Longrightarrow> p \<notin> X \<Longrightarrow> veh p = Some v"
    and "\<And>v. distinct (filter (\<lambda>p. p \<notin> X) (pas v))"
    and "\<And>p v w. p \<notin> D \<Longrightarrow> p \<notin> X \<Longrightarrow> p \<in> set (pas v) \<Longrightarrow> p \<in> set (pas w) \<Longrightarrow> v = w"
    and "\<And>i h. leash i = Some h \<Longrightarrow> i \<in> D \<and> h \<in> D \<and> h \<noteq> i"
    and "acyclic (ride_relation veh)"
  shows "links_ok X D veh pas leash"
  using assms unfolding links_ok_def by blast

lemma links_okD:
  assumes "links_ok X D veh pas leash"
  shows "veh i = Some v \<Longrightarrow> i \<in> D \<and> v \<in> D \<and> i \<in> set (pas v)"
    and "p \<in> set (pas v) \<Longrightarrow> v \<in> D" and "p \<in> set (pas v) \<Longrightarrow> p \<in> D \<Longrightarrow> p \<notin> X \<Longrightarrow> veh p = Some v"
    and "distinct (filter (\<lambda>p. p \<notin> X) (pas v))"
    and "p \<notin> D \<Longrightarrow> p \<notin> X \<Longrightarrow> p \<in> set (pas v) \<Longrightarrow> p \<in> set (pas w) \<Longrightarrow> v = w"
    and "leash i = Some h \<Longrightarrow> i \<in> D \<and> h \<in> D \<and> h \<noteq> i"
    and "acyclic (ride_relation veh)"
  using assms unfolding links_ok_def by blast+

lemma distinct_filter_conj:
  assumes "distinct (filter P xs)"
  shows "distinct (filter (\<lambda>x. P x \<and> Q x) xs)" and "distinct (filter (\<lambda>x. Q x \<and> P x) xs)"
  using distinct_filter [OF assms, of Q] by (simp_all add: conj_commute)

lemma links_ok_mono:
  assumes ok: "links_ok X D veh pas leash" and "X \<subseteq> Y"
  shows "links_ok Y D veh pas leash"
proof (rule links_okI, goal_cases)
  case (4 v)
  have "filter (\<lambda>p. p \<notin> Y) (pas v) = filter (\<lambda>p. p \<notin> Y) (filter (\<lambda>p. p \<notin> X) (pas v))"
    using assms(2) by (auto intro: filter_cong)
  then show ?case using distinct_filter_conj(1) [OF links_okD(4) [OF ok, of v]] by simp
qed (use links_okD(1-3,5-7) [OF ok] assms(2) in blast)+

lemma links_ok_dismount:
  assumes ok: "links_ok X D veh pas leash" and "veh p = Some v"
  shows "links_ok X D (veh(p := None)) (pas(v := filter (\<lambda>i. i \<noteq> p) (pas v))) leash"
proof (rule links_okI, goal_cases)
  case (1 i w)
  then show ?case using links_okD(1) [OF ok, of i w] by (auto split: if_splits)
next
  case (2 q w)
  then show ?case using links_okD(2) [OF ok, of q w] by (auto split: if_splits)
next
  case (3 q w)
  then show ?case using links_okD(3) [OF ok, of q w] assms(2) by (auto split: if_splits)
next
  case (4 w)
  then show ?case using links_okD(4) [OF ok] distinct_filter_conj(2) [OF links_okD(4) [OF ok]] by auto
next
  case (5 q w u)
  then show ?case using links_okD(5) [OF ok, of q w u] by (auto split: if_splits)
next
  case (6 i h)
  then show ?case by (rule links_okD(6) [OF ok])
next
  case 7
  have "ride_relation (veh(p := None)) \<subseteq> ride_relation veh"
    by (auto simp: ride_relation_def split: if_splits)
  then show ?case using links_okD(7) [OF ok] by (rule acyclic_subset [rotated])
qed

lemma links_ok_mount:
  assumes ok: "links_ok X D veh pas leash" and p: "veh p = None" "p \<in> D" and "v \<in> D"
    and "(v, p) \<notin> (ride_relation veh)\<^sup>*"
  shows "links_ok X D (veh(p := Some v)) (pas(v := pas v @ [p])) leash"
proof -
  have new: "p \<notin> set (pas w)" if "p \<notin> X" for w using links_okD(3) [OF ok, of p w] p that by auto
  show ?thesis
  proof (rule links_okI, goal_cases)
    case (1 i w)
    then show ?case using links_okD(1) [OF ok, of i w] assms by (auto split: if_splits)
  next
    case (2 q w)
    then show ?case using links_okD(2) [OF ok, of q w] assms by (auto split: if_splits)
  next
    case (3 q w)
    then show ?case using links_okD(3) [OF ok, of q w] new by (auto split: if_splits)
  next
    case (4 w)
    then show ?case using links_okD(4) [OF ok] new by auto
  next
    case (5 q w u)
    then show ?case using links_okD(5) [OF ok, of q w u] p by (auto split: if_splits)
  next
    case (6 i h)
    then show ?case by (rule links_okD(6) [OF ok])
  next
    case 7
    have "ride_relation (veh(p := Some v)) = insert (p, v) (ride_relation veh)"
      using p by (auto simp: ride_relation_def split: if_splits)
    then show ?case using links_okD(7) [OF ok] assms(5) by (simp add: acyclic_insert)
  qed
qed

lemma links_ok_spawn:
  assumes ok: "links_ok X D veh pas leash" and new: "\<And>v. i \<notin> X \<Longrightarrow> i \<notin> set (pas v)"
  shows "links_ok X (insert i D) veh pas leash"
proof (rule links_okI, goal_cases)
  case (3 q w)
  then show ?case using links_okD(3) [OF ok, of q w] new by auto
next
  case (5 q w u)
  then show ?case using links_okD(5) [OF ok, of q w u] by auto
qed (use links_okD(1,2,4,6,7) [OF ok] in blast)+

lemma links_ok_leash:
  assumes ok: "links_ok X D veh pas leash" and "i \<in> D" and "\<And>h. holder = Some h \<Longrightarrow> h \<in> D \<and> h \<noteq> i"
  shows "links_ok X D veh pas (leash(i := holder))"
proof (rule links_okI, goal_cases)
  case (6 j h)
  then show ?case using links_okD(6) [OF ok, of j h] assms by (auto split: if_splits)
qed (use links_okD(1-5,7) [OF ok] in blast)+

lemma links_ok_external:
  assumes ok: "links_ok X D veh pas leash" and v: "v \<in> D" and p: "p \<notin> D"
  shows "links_ok X D veh (\<lambda>w. filter (\<lambda>i. i \<noteq> p) (pas w) @ (if w = v then [p] else [])) leash"
proof (rule links_okI, goal_cases)
  case (1 i w)
  then show ?case using links_okD(1) [OF ok, of i w] p by auto
next
  case (2 q w)
  then show ?case using links_okD(2) [OF ok, of q w] v by (auto split: if_splits)
next
  case (3 q w)
  then show ?case using links_okD(3) [OF ok, of q w] p by (auto split: if_splits)
next
  case (4 w)
  then show ?case using links_okD(4) [OF ok] distinct_filter_conj(2) [OF links_okD(4) [OF ok]] by auto
next
  case (5 q w u)
  then show ?case using links_okD(5) [OF ok, of q w u] by (auto split: if_splits)
qed (use links_okD(6,7) [OF ok] in blast)+

lemma links_ok_unload:
  assumes ok: "links_ok X D veh pas leash" and p: "p \<notin> D"
  shows "links_ok X D veh (pas(v := filter (\<lambda>i. i \<noteq> p) (pas v))) leash"
proof (rule links_okI, goal_cases)
  case (1 i w)
  then show ?case using links_okD(1) [OF ok, of i w] p by (auto split: if_splits)
next
  case (2 q w)
  then show ?case using links_okD(2) [OF ok, of q w] by (auto split: if_splits)
next
  case (3 q w)
  then show ?case using links_okD(3) [OF ok, of q w] by (auto split: if_splits)
next
  case (4 w)
  then show ?case using links_okD(4) [OF ok] distinct_filter_conj(2) [OF links_okD(4) [OF ok]] by auto
next
  case (5 q w u)
  then show ?case using links_okD(5) [OF ok, of q w u] by (auto split: if_splits)
qed (use links_okD(6,7) [OF ok] in blast)+

lemma links_ok_remove:
  assumes ok: "links_ok X D veh pas leash" and i: "veh i = None" "\<And>j. veh j \<noteq> Some i"
  shows "links_ok X (D - {i}) veh (pas(i := []))
    ((\<lambda>j. if leash j = Some i then None else leash j)(i := None))"
proof -
  have gone: "i \<notin> set (pas v)" if "i \<in> D" "i \<notin> X" for v using links_okD(3) [OF ok, of i v] i that by auto
  show ?thesis
  proof (rule links_okI, goal_cases)
    case (1 j w)
    then show ?case using links_okD(1) [OF ok, of j w] i by auto
  next
    case (2 q w)
    then show ?case using links_okD(2) [OF ok, of q w] by (auto split: if_splits)
  next
    case (3 q w)
    then show ?case using links_okD(3) [OF ok, of q w] by (auto split: if_splits)
  next
    case (4 w)
    then show ?case using links_okD(4) [OF ok] by simp
  next
    case (5 q w u)
    then show ?case
      using links_okD(5) [OF ok, of q w u] gone [of w] gone [of u] links_okD(3) [OF ok, of q w]
        links_okD(3) [OF ok, of q u] by (auto split: if_splits)
  next
    case (6 j h)
    then show ?case using links_okD(6) [OF ok, of j h] by (auto split: if_splits)
  qed (rule links_okD(7) [OF ok])
qed

section \<open>The operations on links\<close>

lemma find_on_entity:
  "find_entity (on_entity i f m) k = (if k = i then map_option f (find_entity m k) else find_entity m k)"
proof -
  have "map_of (map (\<lambda>(k, e). (k, if k = i then f e else e)) es) k =
      (if k = i then map_option f (map_of es k) else map_of es k)" for es
    by (induction es) auto
  then show ?thesis by (simp add: find_entity_def on_entity_def)
qed

lemma find_on_entities: "find_entity (on_entities f m) k = map_option f (find_entity m k)"
proof -
  have "map_of (map (\<lambda>(k, e). (k, f e)) es) k = map_option f (map_of es k)" for es
    by (induction es) auto
  then show ?thesis by (simp add: find_entity_def on_entities_def)
qed

lemma find_deleted: "find_entity (m\<lparr>entities := AList.delete i (entities m)\<rparr>) k = (if k = i then None else find_entity m k)"
  by (simp add: find_entity_def delete_conv')

lemma find_emplaced:
  "find_entity (emplace_entity i e m) k =
     (if k = i \<and> find_entity m i = None then Some e else find_entity m k)"
  by (simp add: emplace_entity_def find_entity_def map_of_put_key)

lemma fields_on [simp]:
  "map fst (entities (on_entity i f m)) = map fst (entities m)"
  "map fst (entities (on_entities g m)) = map fst (entities m)"
  "next_entity_id (on_entity i f m) = next_entity_id m" "next_entity_id (on_entities g m) = next_entity_id m"
  "entity_types (on_entity i f m) = entity_types m" "entity_types (on_entities g m) = entity_types m"
  by (simp_all add: on_entity_def on_entities_def comp_def split_def)

lemma bind_map_option [simp]: "Option.bind (map_option f x) g = Option.bind x (\<lambda>a. g (f a))"
  by (cases x) simp_all

lemma bind_case: "Option.bind x g = (case x of None \<Rightarrow> None | Some a \<Rightarrow> g a)"
  by (cases x) simp_all

text \<open>The four views after each operation.\<close>

definition views :: "entity_manager \<Rightarrow> entity_id set \<times> (entity_id \<Rightarrow> entity_id option) \<times>
    (entity_id \<Rightarrow> entity_id list) \<times> (entity_id \<Rightarrow> entity_id option)" where
  "views m = (present m, ride_of m, riders m, leash_of m)"

lemma views_eqI:
  assumes "\<And>i. (find_entity m i \<noteq> None) = (i \<in> D)" and "\<And>i. ride_of m i = veh i"
    and "\<And>i. riders m i = pas i" and "\<And>i. leash_of m i = leash i"
  shows "views m = (D, veh, pas, leash)"
  using assms by (auto simp: views_def present_def)

lemmas view_defs = ride_of_def riders_def leash_of_def present_def

lemma views_dismount:
  assumes "ride_of m p = Some v"
  shows "views (snd (dismount p m)) =
    (present m, (ride_of m)(p := None), (riders m)(v := filter (\<lambda>i. i \<noteq> p) (riders m v)), leash_of m)"
proof -
  obtain e where e: "find_entity m p = Some e" "vehicle e = Some v"
    using assms by (auto simp: ride_of_def bind_eq_Some_conv)
  show ?thesis
    by (rule views_eqI)
      (use e in \<open>auto simp: dismount_def find_on_entity view_defs split: option.splits\<close>)
qed

lemma dismount_none: "ride_of m p = None \<Longrightarrow> dismount p m = (False, m)"
  by (auto simp: dismount_def ride_of_def split: option.splits)

lemma views_mounted:
  assumes "find_entity m p \<noteq> None" "find_entity m v \<noteq> None"
  shows "views (on_entity v (\<lambda>e. e\<lparr>passengers := passengers e @ [p]\<rparr>) (on_entity p (\<lambda>e. e\<lparr>vehicle := Some v\<rparr>) m)) =
    (present m, (ride_of m)(p := Some v), (riders m)(v := riders m v @ [p]), leash_of m)"
  by (rule views_eqI) (use assms in \<open>auto simp: find_on_entity view_defs split: option.splits\<close>)

lemma views_external:
  assumes "find_entity m v \<noteq> None"
  shows "views (on_entity v (\<lambda>e. e\<lparr>passengers := passengers e @ [p]\<rparr>)
        (on_entities (\<lambda>e. e\<lparr>passengers := filter (\<lambda>i. i \<noteq> p) (passengers e)\<rparr>) m)) =
    (present m, ride_of m, (\<lambda>w. filter (\<lambda>i. i \<noteq> p) (riders m w) @ (if w = v then [p] else [])), leash_of m)"
  by (rule views_eqI)
    (use assms in \<open>auto simp: find_on_entity find_on_entities view_defs split: option.splits\<close>)

lemma views_unload:
  "views (on_entity v (\<lambda>e. e\<lparr>passengers := filter (\<lambda>i. i \<noteq> p) (passengers e)\<rparr>) m) =
    (present m, ride_of m, (riders m)(v := filter (\<lambda>i. i \<noteq> p) (riders m v)), leash_of m)"
  by (rule views_eqI) (auto simp: find_on_entity view_defs split: option.splits)

lemma views_leash:
  assumes "find_entity m i \<noteq> None"
  shows "views (on_entity i (\<lambda>e. e\<lparr>leash_holder := holder\<rparr>) m) =
    (present m, ride_of m, riders m, (leash_of m)(i := holder))"
  by (rule views_eqI) (use assms in \<open>auto simp: find_on_entity view_defs split: option.splits\<close>)

lemma views_emplaced:
  assumes "find_entity m i = None" and "vehicle e = None" "passengers e = []" "leash_holder e = None"
  shows "views (emplace_entity i e m) = (insert i (present m), ride_of m, riders m, leash_of m)"
  by (rule views_eqI) (use assms in \<open>auto simp: find_emplaced view_defs split: option.splits\<close>)

lemma views_removed:
  "views ((on_entities (\<lambda>e. if leash_holder e = Some i then e\<lparr>leash_holder := None\<rparr> else e) m)
      \<lparr>entities := AList.delete i (entities
        (on_entities (\<lambda>e. if leash_holder e = Some i then e\<lparr>leash_holder := None\<rparr> else e) m))\<rparr>) =
    (present m - {i}, (ride_of m)(i := None), (riders m)(i := []),
     (\<lambda>j. if leash_of m j = Some i then None else leash_of m j)(i := None))"
  by (rule views_eqI) (auto simp: find_deleted find_on_entities view_defs bind_case split: option.splits)

section \<open>The invariant of the manager\<close>

definition manager_ok :: "entity_id set \<Rightarrow> entity_manager \<Rightarrow> bool" where
  "manager_ok X m =
     (sorted_wrt (<) (map fst (entities m)) \<and> links_ok X (present m) (ride_of m) (riders m) (leash_of m))"

lemma finite_rides: "links_ok X (present m) (ride_of m) pas leash \<Longrightarrow> finite (ride_relation (ride_of m))"
proof -
  assume ok: "links_ok X (present m) (ride_of m) pas leash"
  have "present m \<subseteq> fst ` set (entities m)"
    unfolding present_def find_entity_def by (simp add: map_of_eq_None_iff subset_iff)
  then have "finite (present m)" by (rule finite_subset) simp
  moreover have "ride_relation (ride_of m) \<subseteq> present m \<times> present m"
    using links_okD(1) [OF ok] by (auto simp: ride_relation_def)
  ultimately show ?thesis by (meson finite_SigmaI finite_subset)
qed

text \<open>The walk up the vehicles ends, and finds what the relation says.\<close>

lemma rides_on_decides:
  assumes "links_ok X (present m) (ride_of m) pas leash"
  shows "rides_on m p v = Some ((v, p) \<in> (ride_relation (ride_of m))\<^sup>+)"
proof -
  let ?r = "ride_relation (ride_of m)"
  have "wf (?r\<inverse>)"
    using finite_rides [OF assms] links_okD(7) [OF assms] by (rule finite_acyclic_wf_converse)
  then show ?thesis
  proof (induction v)
    case (less v)
    show ?case
    proof (cases "ride_of m v")
      case None
      then have "(v, p) \<notin> ?r\<^sup>+" by (auto simp: ride_relation_def dest!: tranclD)
      then show ?thesis
        using None by (subst rides_on.simps) (cases "find_entity m v", simp_all add: ride_of_def)
    next
      case (Some w)
      then have vw: "(v, w) \<in> ?r" by (simp add: ride_relation_def)
      have only: "w' = w" if "(v, w') \<in> ?r" for w' using Some that by (simp add: ride_relation_def)
      have up: "(v, p) \<in> ?r\<^sup>+ \<longleftrightarrow> w = p \<or> (w, p) \<in> ?r\<^sup>+"
      proof
        assume "(v, p) \<in> ?r\<^sup>+"
        then obtain u where "(v, u) \<in> ?r" "(u, p) \<in> ?r\<^sup>*" by (auto dest: tranclD)
        then show "w = p \<or> (w, p) \<in> ?r\<^sup>+" using only by (auto dest: rtranclD)
      next
        assume "w = p \<or> (w, p) \<in> ?r\<^sup>+"
        then show "(v, p) \<in> ?r\<^sup>+" using vw by (auto intro: trancl_into_trancl2)
      qed
      have "rides_on m p w = Some ((w, p) \<in> ?r\<^sup>+)" by (rule less) (simp add: vw)
      then show ?thesis
        using Some up
        by (subst rides_on.simps) (cases "find_entity m v", simp_all add: ride_of_def)
    qed
  qed
qed

section \<open>Every operation keeps the invariant\<close>

lemma manager_okI:
  assumes "views m = (D, veh, pas, leash)" and "sorted_wrt (<) (map fst (entities m))" and "links_ok X D veh pas leash"
  shows "manager_ok X m"
  using assms by (simp add: manager_ok_def views_def)

lemma manager_okD:
  assumes "manager_ok X m"
  shows "sorted_wrt (<) (map fst (entities m))" and "links_ok X (present m) (ride_of m) (riders m) (leash_of m)"
  using assms by (auto simp: manager_ok_def)

lemma manager_ok_mono: "manager_ok X m \<Longrightarrow> X \<subseteq> Y \<Longrightarrow> manager_ok Y m"
  by (auto simp: manager_ok_def intro: links_ok_mono)

lemma manager_ok_cong:
  assumes "entities m = entities m'"
  shows "manager_ok X m = manager_ok X m'"
proof -
  have "find_entity m = find_entity m'" using assms by (simp add: find_entity_def fun_eq_iff)
  then show ?thesis
    using assms by (simp add: manager_ok_def present_def ride_of_def[abs_def] riders_def[abs_def] leash_of_def[abs_def])
qed

lemma dismount_fields [simp]:
  "map fst (entities (snd (dismount p m))) = map fst (entities m)"
  "next_entity_id (snd (dismount p m)) = next_entity_id m"
  "entity_types (snd (dismount p m)) = entity_types m"
  by (simp_all add: dismount_def split: option.splits)

lemma viewsD:
  assumes "views m = (D, veh, pas, leash)"
  shows "present m = D" "ride_of m = veh" "riders m = pas" "leash_of m = leash"
  using assms by (simp_all add: views_def)

lemma ride_of_dismount [simp]: "ride_of (snd (dismount p m)) = (ride_of m)(p := None)"
  by (cases "ride_of m p") (simp_all add: dismount_none viewsD(2) [OF views_dismount] fun_upd_idem)

lemma present_dismount [simp]: "present (snd (dismount p m)) = present m"
  by (cases "ride_of m p") (simp_all add: dismount_none viewsD(1) [OF views_dismount])

lemma dismount_ok: "manager_ok X m \<Longrightarrow> manager_ok X (snd (dismount p m))"
proof (cases "ride_of m p")
  case (Some v)
  assume ok: "manager_ok X m"
  show ?thesis
    by (rule manager_okI [OF views_dismount [OF Some]])
      (use manager_okD [OF ok] links_ok_dismount [OF manager_okD(2) [OF ok] Some]
        in \<open>auto split: if_splits\<close>)
qed (simp add: dismount_none)

lemma mount_ok:
  assumes ok: "manager_ok X m" and "mount p v m = Some (b, m')"
  shows "manager_ok X m'"
proof (cases b)
  case False
  with assms show ?thesis by (auto simp: mount_def bind_eq_Some_conv Let_def split: if_splits)
next
  case True
  let ?r = "ride_relation (ride_of m)" and ?d = "snd (dismount p m)"
  have here: "find_entity m p \<noteq> None" "find_entity m v \<noteq> None" "p \<noteq> v" "rides_on m p v = Some False"
    and m': "m' = on_entity v (\<lambda>e. e\<lparr>passengers := passengers e @ [p]\<rparr>) (on_entity p (\<lambda>e. e\<lparr>vehicle := Some v\<rparr>) ?d)"
    using assms(2) True by (auto simp: mount_def bind_eq_Some_conv Let_def split: if_splits)
  have "(v, p) \<notin> ?r\<^sup>+" using rides_on_decides [OF manager_okD(2) [OF ok], of p v] here(4) by simp
  moreover have "ride_relation (ride_of ?d) \<subseteq> ?r" by (auto simp: ride_relation_def split: if_splits)
  ultimately have away: "(v, p) \<notin> (ride_relation (ride_of ?d))\<^sup>*"
    using here(3) by (metis rtranclD trancl_mono)
  have d: "manager_ok X ?d" by (rule dismount_ok [OF ok])
  have ins: "p \<in> present ?d" "v \<in> present ?d"
    unfolding present_dismount using here by (simp_all add: present_def)
  have links: "links_ok X (present ?d) ((ride_of ?d)(p := Some v)) ((riders ?d)(v := riders ?d v @ [p])) (leash_of ?d)"
    by (rule links_ok_mount [OF manager_okD(2) [OF d]]) (use ins away in simp_all)
  show ?thesis unfolding m'
    by (rule manager_okI [OF views_mounted])
      (use links ins manager_okD [OF d] in \<open>auto simp: present_def split: if_splits\<close>)
qed

lemma mount_returns: "manager_ok X m \<Longrightarrow> \<exists>b m'. mount p v m = Some (b, m')"
  using rides_on_decides [OF manager_okD(2), of X m p v] by (auto simp: mount_def Let_def)

lemma map_fst_delete_key: "map fst (AList.delete i es) = filter (\<lambda>k. k \<noteq> i) (map fst es)"
  by (induction es) auto

lemma fold_dismount:
  "ride_of (fold (\<lambda>p m. snd (dismount p m)) ps m) = (\<lambda>j. if j \<in> set ps then None else ride_of m j)"
  "present (fold (\<lambda>p m. snd (dismount p m)) ps m) = present m"
  "manager_ok X m \<Longrightarrow> manager_ok X (fold (\<lambda>p m. snd (dismount p m)) ps m)"
  "next_entity_id (fold (\<lambda>p m. snd (dismount p m)) ps m) = next_entity_id m"
  by (induction ps arbitrary: m) (auto simp: fun_eq_iff dismount_ok)

lemma remove_entity_ok:
  assumes "manager_ok X m"
  shows "manager_ok X (snd (remove_entity i m))" (is ?ok)
    and "present (snd (remove_entity i m)) = present m - {i}" (is ?gone)
    and "next_entity_id (snd (remove_entity i m)) = next_entity_id m" (is ?next)
proof -
  define d where "d = snd (dismount i m)"
  define n where "n = fold (\<lambda>p m. snd (dismount p m)) (riders d i) d"
  let ?c = "on_entities (\<lambda>e. if leash_holder e = Some i then e\<lparr>leash_holder := None\<rparr> else e) n"
  let ?n = "?c\<lparr>entities := AList.delete i (entities ?c)\<rparr>"
  have d: "manager_ok X d" unfolding d_def by (rule dismount_ok [OF assms])
  then have n: "manager_ok X n" unfolding n_def by (rule fold_dismount(3))
  have alone: "ride_of n i = None" by (simp add: n_def fold_dismount(1) d_def)
  have empty: "ride_of n j \<noteq> Some i" for j
    using links_okD(1) [OF manager_okD(2) [OF d], of j i] by (auto simp: n_def fold_dismount(1))
  have same: "present n = present m" "next_entity_id n = next_entity_id m"
    by (simp_all add: n_def d_def fold_dismount)
  have ok: "manager_ok X ?n"
    by (rule manager_okI [OF views_removed])
      (use links_ok_remove [OF manager_okD(2) [OF n] alone empty] manager_okD [OF n]
        in \<open>auto simp: map_fst_delete_key sorted_wrt_filter fun_upd_idem [of "ride_of n", OF alone] split: if_splits\<close>)
  have removed: "snd (remove_entity i m) = ?n" if "find_entity m i \<noteq> None"
    using that by (auto simp: remove_entity_def Let_def d_def n_def riders_def)
  have kept: "snd (remove_entity i m) = m" if "find_entity m i = None"
    using that by (simp add: remove_entity_def)
  show ?ok using ok removed kept assms by (cases "find_entity m i") auto
  show ?gone
  proof (cases "find_entity m i = None")
    case True
    then show ?thesis using kept by (auto simp: present_def)
  next
    case False
    then show ?thesis using removed viewsD(1) [OF views_removed, of i n] same by simp
  qed
  show ?next using removed kept same by (cases "find_entity m i") auto
qed

text \<open>A new entity keeps the order of the keys.\<close>

lemma keys_put_key: "fst ` set (put_key lt k v es) = insert k (fst ` set es)"
  by (induction lt k v es rule: put_key.induct) auto

lemma sorted_put_key:
  "sorted_wrt (<) (map fst es) \<Longrightarrow> sorted_wrt (<) (map fst (put_key (\<lambda>a b. a < b) (k :: 'k :: linorder) v es))"
  by (induction "\<lambda>a b :: 'k. a < b" k v es rule: put_key.induct)
    (auto simp: keys_put_key simp flip: image_iff intro: less_trans)

lemma present_keys: "i \<in> present m \<longleftrightarrow> i \<in> fst ` set (entities m)"
  by (simp add: present_def find_entity_def map_of_eq_None_iff image_iff)

lemma next_uuid_fields [simp]:
  "entities (snd (next_uuid m)) = entities m" "next_entity_id (snd (next_uuid m)) = next_entity_id m"
  "entity_types (snd (next_uuid m)) = entity_types m"
  by (simp_all add: next_uuid_def Let_def)

text \<open>The identifiers that a step gives to a new entity although a vehicle lists them as passengers from outside.\<close>

definition reused :: "entity_manager \<Rightarrow> entity_manager \<Rightarrow> entity_id set" where
  "reused m n = {i \<in> present n - present m. \<exists>v. i \<in> set (riders m v)}"

lemma reused_same [simp]: "present n \<subseteq> present m \<Longrightarrow> reused m n = {}"
  by (auto simp: reused_def)

lemma spawn_ok:
  assumes ok: "manager_ok X m" and "spawn name p m = Inr (i, m')"
  shows "manager_ok (X \<union> reused m m') m'" and "present m' = insert i (present m)" and "ride_of m' = ride_of m"
    and "riders m' = riders m" and "i = next_entity_id m" and "next_entity_id m' = i + 1"
    and "entity_types m' = entity_types m"
proof -
  obtain uuid u where u: "next_uuid m = (uuid, u)" by fastforce
  obtain e where m': "m' = (emplace_entity i e u)\<lparr>next_entity_id := i + 1\<rparr>" "i = next_entity_id m"
    and e: "vehicle e = None" "passengers e = []" "leash_holder e = None"
    using assms(2) u by (auto simp: spawn_def Let_def bindR_Inr_iff new_living_entity_def new_entity_def
      split: if_splits)
  have same: "entities u = entities m" "entity_types u = entity_types m"
    using next_uuid_fields(1,3) [of m] u by simp_all
  then have find: "find_entity u = find_entity m" by (simp add: find_entity_def fun_eq_iff)
  have views_u: "present u = present m" "ride_of u = ride_of m" "riders u = riders m" "leash_of u = leash_of m"
    by (simp_all add: present_def ride_of_def [abs_def] riders_def [abs_def] leash_of_def [abs_def] find)
  have v: "views m' = views (emplace_entity i e u)"
    by (simp add: m' views_def present_def ride_of_def [abs_def] riders_def [abs_def] leash_of_def [abs_def]
      find_entity_def [abs_def])
  have vs: "views m' = (insert i (present m), ride_of m, riders m, leash_of m)"
  proof (cases "find_entity u i = None")
    case True
    then show ?thesis by (simp add: v views_emplaced [OF True e] views_u)
  next
    case False
    then have "emplace_entity i e u = u" "i \<in> present m"
      by (auto simp: emplace_entity_def present_def find)
    then show ?thesis unfolding v by (simp add: views_def views_u insert_absorb)
  qed
  note new = viewsD [OF vs]
  have "links_ok (X \<union> reused m m') (insert i (present m)) (ride_of m) (riders m) (leash_of m)"
  proof (cases "i \<in> present m")
    case True
    then show ?thesis using links_ok_mono [OF manager_okD(2) [OF ok]] by (simp add: insert_absorb)
  next
    case False
    then have "i \<in> reused m m'" if "i \<in> set (riders m v)" for v using that by (auto simp: reused_def new)
    then show ?thesis
      by (intro links_ok_spawn links_ok_mono [OF manager_okD(2) [OF ok]]) auto
  qed
  moreover have "sorted_wrt (<) (map fst (entities m'))"
    using manager_okD(1) [OF ok] by (simp add: m' emplace_entity_def sorted_put_key same)
  ultimately show "manager_ok (X \<union> reused m m') m'" by (intro manager_okI [OF vs])
  show "present m' = insert i (present m)" "ride_of m' = ride_of m" "riders m' = riders m" by (rule new)+
  show "i = next_entity_id m" "next_entity_id m' = i + 1" "entity_types m' = entity_types m"
    by (simp_all add: m' emplace_entity_def same)
qed

lemma external_ok:
  assumes ok: "manager_ok X m"
  shows "manager_ok X (snd (add_external_passenger v p m))"
proof (cases "find_entity m v = None \<or> p = 0 \<or> find_entity m p \<noteq> None \<or> v = p")
  case True
  then show ?thesis using ok by (simp add: add_external_passenger_def)
next
  case False
  then have v: "find_entity m v \<noteq> None" and ins: "v \<in> present m" "p \<notin> present m"
    by (simp_all add: present_def)
  let ?m = "on_entity v (\<lambda>e. e\<lparr>passengers := passengers e @ [p]\<rparr>)
    (on_entities (\<lambda>e. e\<lparr>passengers := filter (\<lambda>i. i \<noteq> p) (passengers e)\<rparr>) m)"
  have "manager_ok X ?m"
    by (rule manager_okI [OF views_external [OF v]])
      (use links_ok_external [OF manager_okD(2) [OF ok] ins] manager_okD [OF ok]
        in \<open>auto split: if_splits\<close>)
  then show ?thesis unfolding add_external_passenger_def if_not_P [OF False] by simp
qed

lemma unload_ok:
  assumes ok: "manager_ok X m"
  shows "manager_ok X (snd (remove_external_passenger v p m))"
proof -
  have "manager_ok X (on_entity v (\<lambda>e. e\<lparr>passengers := filter (\<lambda>i. i \<noteq> p) (passengers e)\<rparr>) m)"
    if p: "find_entity m p = None"
  proof (rule manager_okI [OF views_unload])
    show "links_ok X (present m) (ride_of m) ((riders m)(v := filter (\<lambda>i. i \<noteq> p) (riders m v))) (leash_of m)"
      by (rule links_ok_unload [OF manager_okD(2) [OF ok]]) (use p in \<open>simp add: present_def\<close>)
  qed (use manager_okD [OF ok] in \<open>auto split: if_splits\<close>)
  then show ?thesis using ok by (simp add: remove_external_passenger_def split: option.splits)
qed

lemma leash_ok:
  assumes ok: "manager_ok X m"
  shows "manager_ok X (snd (set_leash i holder m))"
proof -
  have "manager_ok X (on_entity i (\<lambda>e. e\<lparr>leash_holder := holder\<rparr>) m)"
    if i: "find_entity m i \<noteq> None" and h: "\<And>h. holder = Some h \<Longrightarrow> h \<noteq> i \<and> find_entity m h \<noteq> None"
  proof (rule manager_okI [OF views_leash [OF i]])
    show "links_ok X (present m) (ride_of m) (riders m) ((leash_of m)(i := holder))"
      by (rule links_ok_leash [OF manager_okD(2) [OF ok]]) (use i h in \<open>auto simp: present_def\<close>)
  qed (use manager_okD [OF ok] in \<open>auto split: if_splits\<close>)
  then show ?thesis using ok by (auto simp: set_leash_def split: option.splits)
qed

text \<open>What an entity does to itself leaves its links alone.\<close>

definition same_links :: "entity \<Rightarrow> entity \<Rightarrow> bool" where
  "same_links e f = (vehicle f = vehicle e \<and> passengers f = passengers e \<and> leash_holder f = leash_holder e)"

lemma same_links_refl [simp, intro]: "same_links e e"
  by (simp add: same_links_def)

lemma same_links_let: "same_links e a \<Longrightarrow> (\<And>x. same_links e x \<Longrightarrow> same_links e (f x)) \<Longrightarrow> same_links e (Let a f)"
  by simp

lemma damage_links:
  assumes "damage_living q source e l = Inr (b, f)"
  shows "same_links e f"
proof -
  define P where "P r = (\<forall>b f. r = Inr (b, f) \<longrightarrow> same_links e f)" for r :: "(bool \<times> entity) result"
  have fin: "same_links e (if c then e\<lparr>living_part := k\<rparr>\<lparr>removed := True\<rparr> else e\<lparr>living_part := k\<rparr>)" for c k
    by (simp add: same_links_def)
  have ok: "same_links e g \<Longrightarrow> P (Inr (x, g))" for x g by (simp add: P_def)
  have bind: "(\<And>x. P (g x)) \<Longrightarrow> P (bindR m g)" for m :: "f32 result" and g
    by (cases m) (simp_all add: P_def)
  have split: "P x \<Longrightarrow> P y \<Longrightarrow> P (if c then x else y)" for x y c by simp
  have "P (damage_living q source e l)"
    unfolding damage_living_def Let_def by (intro split bind ok fin same_links_refl)
  then show ?thesis using assms by (simp add: P_def)
qed

lemma entity_tick_links: "same_links e (entity_tick pow delta e)"
proof (cases "removed e \<or> f64_le delta 0")
  case False
  show ?thesis
    unfolding entity_tick_def Let_def [of "f64_mul delta (f64_ratio 20 1)"] if_not_P [OF False]
    by (intro same_links_let) (simp_all add: same_links_def)
qed (simp add: entity_tick_def)

lemma act_living_effect_links:
  assumes "act_living_effect x e = Inr f"
  shows "same_links e f"
proof -
  have heal: "same_links e (heal_living q e l)" for q l by (simp add: heal_living_def same_links_def)
  have hurt: "same_links e g" if "bindR (damage_living q s e l) (\<lambda>(_, e). Inr e) = Inr g" for q s l g
    using that by (auto simp: bindR_Inr_iff dest: damage_links)
  show ?thesis
    using assms unfolding act_living_effect_def on_living_def Let_def
    by (auto simp: heal intro: hurt split: option.splits prod.splits if_splits)
qed

lemma living_tick_links:
  assumes "living_tick pow delta e = Inr f"
  shows "same_links e f"
proof (cases "living_part e")
  case None
  with assms show ?thesis using entity_tick_links by (auto simp: living_tick_def on_living_def)
next
  case (Some l)
  have step: "same_links e b" if "act_living_effect x a = Inr b" "same_links e a" for x a b
    using act_living_effect_links [OF that(1)] that(2) by (simp add: same_links_def)
  have start: "same_links e (entity_tick pow delta e\<lparr>living_part := Some k\<rparr>)" for k
    using entity_tick_links [of e pow delta] by (simp add: same_links_def)
  obtain g where g: "foldR act_living_effect (living_effects l) (entity_tick pow delta e\<lparr>living_part := Some
      (l\<lparr>invulnerable_ticks := (if elapsed_ticks delta \<ge> invulnerable_ticks l then 0
        else invulnerable_ticks l - elapsed_ticks delta)\<rparr>)\<rparr>) = Inr g"
    and f: "f = g\<lparr>living_part := map_option (expire_living (elapsed_ticks delta)) (living_part g)\<rparr>"
    using assms Some by (auto simp: living_tick_def on_living_def Let_def bindR_Inr_iff)
  have "same_links e g" by (rule foldR_invariant [OF g, where P = "same_links e"]) (use start step in blast)+
  then show ?thesis by (simp add: f same_links_def)
qed

end
