(* ===== verification/Ai.thy ===== *)
theory Ai
  imports Entity_Links Codec
begin

text \<open>
  The behaviour of mobs (include/mc/entity/ai.hpp, src/entity/ai.cpp): memories,
  goals and the selector that runs them, the search for paths, and the system that
  keeps a mind for each mob.

  The classes derived from \<open>Goal\<close> are the constructors of \<open>goal_kind\<close>, whose arguments
  are their fields; a virtual function is a case distinction. An \<open>Entity&\<close> is the
  number of an entity of the manager. \<open>std::atan2\<close> and \<open>std::hypot\<close> are parameters.
\<close>

section \<open>Memories\<close>

datatype memory_key = Target_Entity | Home | Panicked | Tempted | Owner_Position | Flock_Leader | Last_Seen_Position

datatype memory_value =
  Memory_Entity entity_id | Memory_Block block_position | Memory_Vec vec3 | Memory_Bool bool | Memory_Double f64

type_synonym brain = "memory_key \<rightharpoonup> memory_value"

text \<open>\<open>std::get_if\<close> on the value of a key, which may be absent.\<close>

definition memory_vec :: "brain \<Rightarrow> memory_key \<Rightarrow> vec3 option" where
  "memory_vec b k = (case b k of Some (Memory_Vec v) \<Rightarrow> Some v | _ \<Rightarrow> None)"

definition memory_entity :: "brain \<Rightarrow> memory_key \<Rightarrow> entity_id option" where
  "memory_entity b k = (case b k of Some (Memory_Entity i) \<Rightarrow> Some i | _ \<Rightarrow> None)"

section \<open>Goals\<close>

text \<open>The bits of \<open>GoalControl\<close>.\<close>

abbreviation control_move :: u8 where "control_move \<equiv> 1"
abbreviation control_look :: u8 where "control_look \<equiv> 2"
abbreviation control_target :: u8 where "control_target \<equiv> 8"

definition controls_overlap :: "u8 \<Rightarrow> u8 \<Rightarrow> bool" where
  "controls_overlap a b = (a AND b \<noteq> 0)"

datatype goal_kind =
  Wander u64 u32 u32 vec3 \<comment> \<open>seed, interval, ticks left, direction\<close>
| Melee_Attack f32 f64 u32 \<comment> \<open>damage, speed, cooldown\<close>
| Panic f64 u32 u32 \<comment> \<open>speed, duration, ticks left\<close>
| Flock f64 f64 f64 \<comment> \<open>speed, square of the reach, square of the preferred distance\<close>
| Tempt f64 f64 \<comment> \<open>speed, square of the distance where it stops\<close>
| Owner_Follow f64 f64 f64 \<comment> \<open>speed, squares of the distances where it starts and stops\<close>

record goal =
  goal_priority :: u32
  goal_controls :: u8
  goal_running :: bool
  goal_kind :: goal_kind

definition new_goal :: "u32 \<Rightarrow> u8 \<Rightarrow> goal_kind \<Rightarrow> goal" where
  "new_goal p c k = \<lparr>goal_priority = p, goal_controls = c, goal_running = False, goal_kind = k\<rparr>"

definition new_wander :: "u32 \<Rightarrow> u64 \<Rightarrow> u32 \<Rightarrow> goal result" where
  "new_wander p seed interval =
     guardR (interval = 0) (Invalid_Argument ''wander interval must be positive'')
     (Inr (new_goal p control_move (Wander seed interval 0 (vec3 0 0 0))))"

definition new_melee_attack :: "u32 \<Rightarrow> f32 \<Rightarrow> f64 \<Rightarrow> goal result" where
  "new_melee_attack p dmg speed =
     guardR (f32_le dmg 0 \<or> f64_le speed 0) (Invalid_Argument ''invalid melee goal'')
     (Inr (new_goal p (control_move OR control_look OR control_target) (Melee_Attack dmg speed 0)))"

definition new_panic :: "u32 \<Rightarrow> f64 \<Rightarrow> u32 \<Rightarrow> goal result" where
  "new_panic p speed duration =
     guardR (f64_le speed 0 \<or> duration = 0) (Invalid_Argument ''invalid panic goal'')
     (Inr (new_goal p (control_move OR control_look) (Panic speed duration 0)))"

definition new_flock :: "u32 \<Rightarrow> f64 \<Rightarrow> f64 \<Rightarrow> f64 \<Rightarrow> goal result" where
  "new_flock p speed reach preferred =
     guardR (f64_le speed 0 \<or> f64_le reach preferred \<or> f64_le preferred 0) (Invalid_Argument ''invalid flock goal'')
     (Inr (new_goal p control_move (Flock speed (f64_mul reach reach) (f64_mul preferred preferred))))"

definition new_tempt :: "u32 \<Rightarrow> f64 \<Rightarrow> f64 \<Rightarrow> goal result" where
  "new_tempt p speed stop =
     guardR (f64_le speed 0 \<or> f64_le stop 0) (Invalid_Argument ''invalid temptation goal'')
     (Inr (new_goal p (control_move OR control_look) (Tempt speed (f64_mul stop stop))))"

definition new_owner_follow :: "u32 \<Rightarrow> f64 \<Rightarrow> f64 \<Rightarrow> f64 \<Rightarrow> goal result" where
  "new_owner_follow p speed start stop =
     guardR (f64_le speed 0 \<or> f64_le stop 0 \<or> f64_le start stop) (Invalid_Argument ''invalid owner follow goal'')
     (Inr (new_goal p (control_move OR control_look) (Owner_Follow speed (f64_mul start start) (f64_mul stop stop))))"

section \<open>What a goal does\<close>

text \<open>The distance of two entities is squared, and \<open>horizontal\<close> ignores the height.\<close>

definition distance_squared :: "vec3 \<Rightarrow> vec3 \<Rightarrow> f64" where
  "distance_squared a b = length_squared (vec_sub a b)"

definition horizontal :: "vec3 \<Rightarrow> f64" where
  "horizontal v = f64_sqrt (f64_add (f64_mul (vec_x v) (vec_x v)) (f64_mul (vec_z v) (vec_z v)))"

abbreviation tiny :: f64 where "tiny \<equiv> f64_ratio 1 1000"

definition adjusted_speed :: "entity \<Rightarrow> f64 \<Rightarrow> f64 result" where
  "adjusted_speed e configured =
     (let base = f64_of_f32 (type_movement_speed (entity_properties e)) in
      case living_part e of
        Some l \<Rightarrow> if f64_less 0 base
          then bindR (movement_speed l) (\<lambda>s. Inr (f64_div (f64_mul configured s) base)) else Inr configured
      | None \<Rightarrow> Inr configured)"

text \<open>A velocity of the given length along the horizontal part of a vector, and none.\<close>

definition head_along :: "vec3 \<Rightarrow> f64 \<Rightarrow> f64 \<Rightarrow> vec3 \<Rightarrow> vec3" where
  "head_along delta len speed v =
     v\<lparr>vec_x := f64_mul (f64_div (vec_x delta) len) speed, vec_z := f64_mul (f64_div (vec_z delta) len) speed\<rparr>"

definition halted :: "entity \<Rightarrow> entity" where
  "halted e = e\<lparr>velocity := (velocity e)\<lparr>vec_x := 0, vec_z := 0\<rparr>\<rparr>"

text \<open>\<open>static_cast<float>(std::atan2(-x, z) * 180.0 / 3.141592653589793)\<close>.\<close>

definition facing :: "(f64 \<Rightarrow> f64 \<Rightarrow> f64) \<Rightarrow> vec3 \<Rightarrow> f32" where
  "facing atan2 v =
     f32_of_f64 (f64_div (f64_mul (atan2 (f64_neg (vec_x v)) (vec_z v)) (f64_ratio 180 1)) 0x400921FB54442D18)"

definition melee_target :: "entity_manager \<Rightarrow> brain \<Rightarrow> (entity_id \<times> entity \<times> living) option" where
  "melee_target m b = (case memory_entity b Target_Entity of None \<Rightarrow> None
   | Some i \<Rightarrow> (case find_entity m i of None \<Rightarrow> None
     | Some e \<Rightarrow> map_option (\<lambda>l. (i, e, l)) (living_part e)))"

definition target_alive :: "entity_manager \<Rightarrow> brain \<Rightarrow> bool" where
  "target_alive m b = (case melee_target m b of None \<Rightarrow> False | Some (_, e, l) \<Rightarrow> alive e l)"

definition same_type :: "entity \<Rightarrow> entity \<Rightarrow> bool" where
  "same_type a b = (entity_type_id (type_of a) = entity_type_id (type_of b))"

definition flock_leader :: "entity_manager \<Rightarrow> brain \<Rightarrow> entity \<Rightarrow> entity option" where
  "flock_leader m b e = (case memory_entity b Flock_Leader of None \<Rightarrow> None
   | Some i \<Rightarrow> (case find_entity m i of None \<Rightarrow> None
     | Some c \<Rightarrow> if same_type c e then Some c else None))"

text \<open>The loop of \<open>FlockGoal::can_start\<close>: the nearest candidate so far and its distance.\<close>

definition flock_candidate ::
  "entity \<Rightarrow> f64 \<Rightarrow> entity_id \<times> entity \<Rightarrow> entity_id option \<times> f64 \<Rightarrow> entity_id option \<times> f64" where
  "flock_candidate e preferred x best =
     (let (i, c) = x; d = distance_squared (position c) (position e) in
      if entity_key c = entity_key e \<or> \<not> same_type c e then best
      else if f64_less preferred d \<and> f64_less d (snd best) then (Some (entity_key c), d)
      else best)"

text \<open>\<open>can_start\<close> of each class; only a flock remembers whom it would follow.\<close>

definition wander_can_start :: "u32 \<Rightarrow> entity \<Rightarrow> bool" where
  "wander_can_start interval e = (tick_count e mod ucast interval = 0)"

definition panic_can_start :: "brain \<Rightarrow> bool" where
  "panic_can_start b = (b Panicked \<noteq> None \<and> b Last_Seen_Position \<noteq> None)"

definition flock_can_start :: "f64 \<Rightarrow> f64 \<Rightarrow> entity \<Rightarrow> entity_manager \<Rightarrow> brain \<Rightarrow> bool \<times> brain" where
  "flock_can_start reach preferred e m b =
     (case fst (fold (flock_candidate e preferred) (entities m) (None, reach)) of
        None \<Rightarrow> (False, b) | Some i \<Rightarrow> (True, b(Flock_Leader \<mapsto> Memory_Entity i)))"

definition tempt_can_start :: "f64 \<Rightarrow> entity \<Rightarrow> brain \<Rightarrow> bool" where
  "tempt_can_start stop e b = (case memory_vec b Tempted of None \<Rightarrow> False
     | Some p \<Rightarrow> f64_less stop (distance_squared p (position e)))"

definition owner_can_start :: "f64 \<Rightarrow> entity \<Rightarrow> brain \<Rightarrow> bool" where
  "owner_can_start start e b = (case memory_vec b Owner_Position of None \<Rightarrow> False
     | Some p \<Rightarrow> f64_less start (distance_squared p (position e)))"

definition can_start :: "goal_kind \<Rightarrow> entity \<Rightarrow> entity_manager \<Rightarrow> brain \<Rightarrow> bool \<times> brain" where
  "can_start k e m b = (case k of
     Wander _ interval _ _ \<Rightarrow> (wander_can_start interval e, b)
   | Melee_Attack _ _ _ \<Rightarrow> (target_alive m b, b)
   | Panic _ _ _ \<Rightarrow> (panic_can_start b, b)
   | Flock _ reach preferred \<Rightarrow> flock_can_start reach preferred e m b
   | Tempt _ stop \<Rightarrow> (tempt_can_start stop e b, b)
   | Owner_Follow _ start _ \<Rightarrow> (owner_can_start start e b, b))"

definition melee_can_continue :: "entity \<Rightarrow> entity_manager \<Rightarrow> brain \<Rightarrow> bool" where
  "melee_can_continue e m b = (case melee_target m b of None \<Rightarrow> False
     | Some (_, t, l) \<Rightarrow> alive t l \<and>
         (let reach = type_follow_range (entity_properties e) in
          f64_le (distance_squared (position t) (position e)) (f64_of_f32 (f32_mul reach reach))))"

definition panic_can_continue :: "u32 \<Rightarrow> brain \<Rightarrow> bool" where
  "panic_can_continue left b = (left > 0 \<and> b Last_Seen_Position \<noteq> None)"

definition flock_can_continue :: "f64 \<Rightarrow> f64 \<Rightarrow> entity \<Rightarrow> entity_manager \<Rightarrow> brain \<Rightarrow> bool" where
  "flock_can_continue reach preferred e m b = (case flock_leader m b e of None \<Rightarrow> False
     | Some c \<Rightarrow> (let d = distance_squared (position c) (position e) in f64_less preferred d \<and> f64_le d reach))"

definition owner_can_continue :: "f64 \<Rightarrow> entity \<Rightarrow> brain \<Rightarrow> bool" where
  "owner_can_continue stop e b = (case memory_vec b Owner_Position of None \<Rightarrow> False
     | Some p \<Rightarrow> f64_less stop (distance_squared p (position e)))"

definition can_continue :: "goal_kind \<Rightarrow> entity \<Rightarrow> entity_manager \<Rightarrow> brain \<Rightarrow> bool" where
  "can_continue k e m b = (case k of
     Wander _ _ left _ \<Rightarrow> left > 0
   | Melee_Attack _ _ _ \<Rightarrow> melee_can_continue e m b
   | Panic _ _ left \<Rightarrow> panic_can_continue left b
   | Flock _ reach preferred \<Rightarrow> flock_can_continue reach preferred e m b
   | Tempt _ stop \<Rightarrow> tempt_can_start stop e b
   | Owner_Follow _ _ stop \<Rightarrow> owner_can_continue stop e b)"

definition wander_start :: "u64 \<Rightarrow> u32 \<Rightarrow> entity \<Rightarrow> goal_kind" where
  "wander_start seed interval e =
     (let v = uuid_mix (seed XOR tick_count e);
          part = (\<lambda>w :: u64. f64_of_int (uint (w AND 0xFFFF) - 32768));
          dx = part v; dz = part (drop_bit 16 v);
          len = f64_max2 (f64_ratio 1 1) (f64_sqrt (f64_add (f64_mul dx dx) (f64_mul dz dz)))
      in Wander seed interval 20 (vec3 (f64_div dx len) 0 (f64_div dz len)))"

definition goal_start :: "goal_kind \<Rightarrow> entity \<Rightarrow> goal_kind" where
  "goal_start k e = (case k of
     Wander seed interval _ _ \<Rightarrow> wander_start seed interval e
   | Panic speed duration _ \<Rightarrow> Panic speed duration duration
   | _ \<Rightarrow> k)"

definition panic_stop :: "brain \<Rightarrow> brain" where
  "panic_stop b = b(Panicked := None, Last_Seen_Position := None)"

definition goal_stop :: "goal_kind \<Rightarrow> entity_id \<Rightarrow> entity_manager \<Rightarrow> brain \<Rightarrow> goal_kind \<times> entity_manager \<times> brain" where
  "goal_stop k i m b = (let m = on_entity i halted m in case k of
     Wander seed interval _ d \<Rightarrow> (Wander seed interval 0 d, m, b)
   | Panic speed duration _ \<Rightarrow> (Panic speed duration 0, m, panic_stop b)
   | Flock _ _ _ \<Rightarrow> (k, m, b(Flock_Leader := None))
   | Tempt _ _ \<Rightarrow> (k, m, b(Tempted := None))
   | _ \<Rightarrow> (k, m, b))"

definition count_down :: "u32 \<Rightarrow> u32" where
  "count_down n = (if n > 0 then n - 1 else n)"

text \<open>Moving along a vector, with the head turned that way or not.\<close>

definition chase ::
  "(vec3 \<Rightarrow> entity \<Rightarrow> entity) \<Rightarrow> vec3 \<Rightarrow> f64 \<Rightarrow> f64 \<Rightarrow> entity_id \<Rightarrow> entity \<Rightarrow> entity_manager \<Rightarrow> entity_manager result" where
  "chase turn delta len speed i e m = bindR (adjusted_speed e speed) (\<lambda>s.
     let v = head_along delta len s (velocity e) in
     Inr (on_entity i (\<lambda>e. turn v (e\<lparr>velocity := v\<rparr>)) m))"

definition turned_to :: "(f64 \<Rightarrow> f64 \<Rightarrow> f64) \<Rightarrow> vec3 \<Rightarrow> entity \<Rightarrow> entity" where
  "turned_to atan2 v e = set_rotation (facing atan2 v) (pitch e) e"

definition melee_strike ::
  "f32 \<Rightarrow> entity_id \<Rightarrow> entity_id \<Rightarrow> entity_manager \<Rightarrow> entity_manager result" where
  "melee_strike dmg i t m = (case (find_entity m i, find_entity m t) of
     (Some e, Some victim) \<Rightarrow> on_living (\<lambda>l victim.
       bindR (damage_living dmg \<lparr>damage_kind = Melee, attacker = Some (entity_key e),
           bypasses_invulnerability = False, bypasses_armor = False\<rparr> victim l) (\<lambda>(hit, victim).
         if hit then on_living (\<lambda>l victim.
             bindR (knockback (position e) (f64_ratio 4 10) victim l) (\<lambda>(_, victim).
               Inr (on_entity t (\<lambda>_. victim) m))) (Inr (on_entity t (\<lambda>_. victim) m)) victim
         else Inr (on_entity t (\<lambda>_. victim) m))) (Inr m) victim
   | _ \<Rightarrow> Inr m)"

text \<open>\<open>tick\<close> of each class, whose owner is the entity \<open>i\<close> with the value \<open>e\<close>.\<close>

definition wander_tick :: "vec3 \<Rightarrow> entity_id \<Rightarrow> entity \<Rightarrow> entity_manager \<Rightarrow> entity_manager result" where
  "wander_tick d i e m =
     bindR (adjusted_speed e (f64_of_f32 (type_movement_speed (entity_properties e)))) (\<lambda>s.
       Inr (on_entity i (\<lambda>e. e\<lparr>velocity := (velocity e)
         \<lparr>vec_x := f64_mul (vec_x d) s, vec_z := f64_mul (vec_z d) s\<rparr>\<rparr>) m))"

definition melee_tick ::
  "(f64 \<Rightarrow> f64 \<Rightarrow> f64) \<Rightarrow> f32 \<Rightarrow> f64 \<Rightarrow> u32 \<Rightarrow> entity_id \<Rightarrow> entity \<Rightarrow> entity_manager \<Rightarrow> brain \<Rightarrow>
   (u32 \<times> entity_manager) result" where
  "melee_tick atan2 dmg speed cooldown i e m b = (case melee_target m b of None \<Rightarrow> Inr (cooldown, m)
   | Some (t, victim, _) \<Rightarrow>
       let delta = vec_sub (position victim) (position e) in
       bindR (if f64_less tiny (horizontal delta)
         then chase (\<lambda>_. turned_to atan2 delta) delta (horizontal delta) speed i e m else Inr m) (\<lambda>m.
       let cooldown = count_down cooldown in
       if f64_le (length_squared delta) (f64_ratio 9 4) \<and> cooldown = 0
       then bindR (melee_strike dmg i t m) (\<lambda>m. Inr (20, m))
       else Inr (cooldown, m)))"

definition panic_tick ::
  "(f64 \<Rightarrow> f64 \<Rightarrow> f64) \<Rightarrow> f64 \<Rightarrow> u32 \<Rightarrow> entity_id \<Rightarrow> entity \<Rightarrow> entity_manager \<Rightarrow> brain \<Rightarrow>
   (u32 \<times> entity_manager) result" where
  "panic_tick atan2 speed left i e m b = (case memory_vec b Last_Seen_Position of None \<Rightarrow> Inr (left, m)
   | Some threat \<Rightarrow>
       let delta = vec_sub (position e) threat in
       bindR (if f64_less tiny (horizontal delta)
         then chase (turned_to atan2) delta (horizontal delta) speed i e m else Inr m) (\<lambda>m.
       Inr (count_down left, m)))"

definition flock_tick :: "f64 \<Rightarrow> entity_id \<Rightarrow> entity \<Rightarrow> entity_manager \<Rightarrow> brain \<Rightarrow> entity_manager result" where
  "flock_tick speed i e m b = (case flock_leader m b e of None \<Rightarrow> Inr m
   | Some c \<Rightarrow>
       let delta = vec_sub (position c) (position e) in
       if f64_le (horizontal delta) tiny then Inr m
       else chase (\<lambda>_ e. e) delta (horizontal delta) speed i e m)"

definition tempt_tick :: "f64 \<Rightarrow> entity_id \<Rightarrow> entity \<Rightarrow> entity_manager \<Rightarrow> brain \<Rightarrow> entity_manager result" where
  "tempt_tick speed i e m b = (case memory_vec b Tempted of None \<Rightarrow> Inr m
   | Some p \<Rightarrow>
       let delta = vec_sub p (position e) in
       if f64_le (horizontal delta) tiny then Inr m
       else chase (\<lambda>_ e. e) delta (horizontal delta) speed i e m)"

definition owner_tick ::
  "(f64 \<Rightarrow> f64 \<Rightarrow> f64) \<Rightarrow> (f64 \<Rightarrow> f64 \<Rightarrow> f64) \<Rightarrow> f64 \<Rightarrow> entity_id \<Rightarrow> entity \<Rightarrow> entity_manager \<Rightarrow> brain \<Rightarrow>
   entity_manager result" where
  "owner_tick atan2 hypot speed i e m b = (case memory_vec b Owner_Position of None \<Rightarrow> Inr m
   | Some p \<Rightarrow>
       let delta = vec_sub p (position e); len = hypot (vec_x delta) (vec_z delta) in
       if f64_le len tiny then Inr m else chase (turned_to atan2) delta len speed i e m)"

definition goal_tick ::
  "(f64 \<Rightarrow> f64 \<Rightarrow> f64) \<Rightarrow> (f64 \<Rightarrow> f64 \<Rightarrow> f64) \<Rightarrow> goal_kind \<Rightarrow> entity_id \<Rightarrow> entity \<Rightarrow> entity_manager \<Rightarrow> brain \<Rightarrow>
   (goal_kind \<times> entity_manager) result" where
  "goal_tick atan2 hypot k i e m b = (case k of
     Wander seed interval left d \<Rightarrow>
       bindR (wander_tick d i e m) (\<lambda>m. Inr (Wander seed interval (count_down left) d, m))
   | Melee_Attack dmg speed cooldown \<Rightarrow>
       bindR (melee_tick atan2 dmg speed cooldown i e m b) (\<lambda>(c, m). Inr (Melee_Attack dmg speed c, m))
   | Panic speed duration left \<Rightarrow>
       bindR (panic_tick atan2 speed left i e m b) (\<lambda>(n, m). Inr (Panic speed duration n, m))
   | Flock speed _ _ \<Rightarrow> bindR (flock_tick speed i e m b) (\<lambda>m. Inr (k, m))
   | Tempt speed _ \<Rightarrow> bindR (tempt_tick speed i e m b) (\<lambda>m. Inr (k, m))
   | Owner_Follow speed _ _ \<Rightarrow> bindR (owner_tick atan2 hypot speed i e m b) (\<lambda>m. Inr (k, m)))"

section \<open>The selector\<close>

text \<open>What a tick of a selector changes: its goals, the manager and the memories.\<close>

type_synonym mind = "goal list \<times> entity_manager \<times> brain"

definition add_goal :: "goal \<Rightarrow> goal list \<Rightarrow> goal list" where
  "add_goal g gs = sort_key goal_priority (gs @ [g])"

definition stop_goal :: "entity_id \<Rightarrow> goal \<Rightarrow> entity_manager \<Rightarrow> brain \<Rightarrow> goal \<times> entity_manager \<times> brain" where
  "stop_goal i g m b = (let (k, m, b) = goal_stop (goal_kind g) i m b in
     (g\<lparr>goal_kind := k, goal_running := False\<rparr>, m, b))"

text \<open>The loops that stop goals: each goal for which \<open>p\<close> holds when its turn comes.\<close>

fun stop_goals ::
  "(goal \<Rightarrow> entity_manager \<Rightarrow> brain \<Rightarrow> bool) \<Rightarrow> entity_id \<Rightarrow> goal list \<Rightarrow> entity_manager \<Rightarrow> brain \<Rightarrow> mind" where
  "stop_goals p i [] m b = ([], m, b)"
| "stop_goals p i (g # gs) m b =
     (let (g, m, b) = (if p g m b then stop_goal i g m b else (g, m, b));
          (gs, m, b) = stop_goals p i gs m b
      in (g # gs, m, b))"

definition finished :: "entity_id \<Rightarrow> goal \<Rightarrow> entity_manager \<Rightarrow> brain \<Rightarrow> bool" where
  "finished i g m b = (goal_running g \<and>
     (case find_entity m i of None \<Rightarrow> False | Some e \<Rightarrow> \<not> can_continue (goal_kind g) e m b))"

definition in_conflict :: "goal \<Rightarrow> goal \<Rightarrow> bool" where
  "in_conflict candidate active =
     (goal_running active \<and> controls_overlap (goal_controls active) (goal_controls candidate))"

definition is_blocked :: "goal \<Rightarrow> goal list \<Rightarrow> bool" where
  "is_blocked candidate gs =
     list_ex (\<lambda>active. in_conflict candidate active \<and> goal_priority active \<le> goal_priority candidate) gs"

text \<open>One candidate of the second loop, by its index.\<close>

definition consider_goal :: "entity_id \<Rightarrow> nat \<Rightarrow> mind \<Rightarrow> mind" where
  "consider_goal i n x = (let (gs, m, b) = x; g = gs ! n in
     if goal_running g then x
     else case find_entity m i of None \<Rightarrow> x
     | Some e \<Rightarrow>
         let (starts, b) = can_start (goal_kind g) e m b in
         if \<not> starts \<or> is_blocked g gs then (gs, m, b)
         else
           let (gs, m, b) = stop_goals (\<lambda>active _ _. in_conflict g active) i gs m b in
           (case find_entity m i of None \<Rightarrow> (gs, m, b)
            | Some e \<Rightarrow> (gs[n := g\<lparr>goal_kind := goal_start (goal_kind g) e, goal_running := True\<rparr>], m, b)))"

fun tick_goals ::
  "(f64 \<Rightarrow> f64 \<Rightarrow> f64) \<Rightarrow> (f64 \<Rightarrow> f64 \<Rightarrow> f64) \<Rightarrow> entity_id \<Rightarrow> brain \<Rightarrow> goal list \<Rightarrow> entity_manager \<Rightarrow>
   (goal list \<times> entity_manager) result" where
  "tick_goals atan2 hypot i b [] m = Inr ([], m)"
| "tick_goals atan2 hypot i b (g # gs) m =
     bindR (case find_entity m i of
         Some e \<Rightarrow> if goal_running g
           then bindR (goal_tick atan2 hypot (goal_kind g) i e m b) (\<lambda>(k, m). Inr (g\<lparr>goal_kind := k\<rparr>, m))
           else Inr (g, m)
       | None \<Rightarrow> Inr (g, m)) (\<lambda>(g, m).
     bindR (tick_goals atan2 hypot i b gs m) (\<lambda>(gs, m). Inr (g # gs, m)))"

definition selector_tick ::
  "(f64 \<Rightarrow> f64 \<Rightarrow> f64) \<Rightarrow> (f64 \<Rightarrow> f64 \<Rightarrow> f64) \<Rightarrow> entity_id \<Rightarrow> goal list \<Rightarrow> entity_manager \<Rightarrow> brain \<Rightarrow> mind result" where
  "selector_tick atan2 hypot i gs m b =
     (let (gs, m, b) = stop_goals (finished i) i gs m b;
          (gs, m, b) = fold (consider_goal i) [0..<length gs] (gs, m, b)
      in bindR (tick_goals atan2 hypot i b gs m) (\<lambda>(gs, m). Inr (gs, m, b)))"

definition stop_all :: "entity_id \<Rightarrow> goal list \<Rightarrow> entity_manager \<Rightarrow> brain \<Rightarrow> mind" where
  "stop_all i gs m b = stop_goals (\<lambda>g _ _. goal_running g) i gs m b"

definition running_count :: "goal list \<Rightarrow> nat" where
  "running_count gs = length (filter goal_running gs)"

section \<open>The system of minds\<close>

record mob_mind =
  mind_brain :: brain
  mind_goals :: "goal list"
  suspended :: bool

text \<open>The map of states in the order of its keys.\<close>

record mob_ai =
  ai_seed :: u64
  ai_states :: "(entity_id \<times> mob_mind) list"

definition new_mob_ai :: "u64 \<Rightarrow> mob_ai" where
  "new_mob_ai seed = \<lparr>ai_seed = seed, ai_states = []\<rparr>"

definition mind_of :: "mob_ai \<Rightarrow> entity_id \<Rightarrow> mob_mind option" where
  "mind_of ai i = map_of (ai_states ai) i"

definition on_mind :: "entity_id \<Rightarrow> (mob_mind \<Rightarrow> mob_mind) \<Rightarrow> mob_ai \<Rightarrow> mob_ai" where
  "on_mind i f ai = ai\<lparr>ai_states := map (\<lambda>(k, s). (k, if k = i then f s else s)) (ai_states ai)\<rparr>"

text \<open>The goals that were added before a constructor threw stay.\<close>

fun add_goals :: "goal result list \<Rightarrow> goal list \<Rightarrow> unit result \<times> goal list" where
  "add_goals [] gs = (Inr (), gs)"
| "add_goals (r # rs) gs = (case r of Inl e \<Rightarrow> (Inl e, gs) | Inr g \<Rightarrow> add_goals rs (add_goal g gs))"

text \<open>The goals of a type of entity, as \<open>MobAiSystem::attach\<close> constructs them.\<close>

definition goals_of_type :: "entity_type_properties \<Rightarrow> u64 \<Rightarrow> goal result list" where
  "goals_of_type p seed =
     (let speed = f64_of_f32 (type_movement_speed p); c = type_category p in
      (if c = Monster then [new_melee_attack 1 (f32_ratio 2 1) speed] else []) @
      (if c \<in> {Creature, Water_Creature, Water_Ambient, Axolotls}
       then [new_panic 0 (f64_mul speed (f64_ratio 3 2)) 40,
             new_owner_follow 1 speed (f64_ratio 3 1) (f64_ratio 2 1),
             new_tempt 2 speed (f64_ratio 3 2),
             new_flock 3 speed (f64_ratio (if aquatic p then 12 else 10) 1) (f64_ratio (if aquatic p then 2 else 3) 1)]
       else []) @
      [new_wander 5 seed (if c = Monster then 60 else 40)])"

text \<open>An exception leaves the state that \<open>try_emplace\<close> made.\<close>

definition attach :: "entity_id \<Rightarrow> entity_manager \<Rightarrow> mob_ai \<Rightarrow> bool result \<times> mob_ai" where
  "attach i m ai = (case find_entity m i of None \<Rightarrow> (Inr False, ai)
   | Some e \<Rightarrow>
       if living_part e = None \<or> mind_of ai i \<noteq> None then (Inr False, ai)
       else let (r, gs) = add_goals (goals_of_type (entity_properties e) (ai_seed ai XOR ucast i)) [];
                s = \<lparr>mind_brain = Map.empty, mind_goals = gs, suspended = False\<rparr>
         in (bindR r (\<lambda>_. Inr True), ai\<lparr>ai_states := put_key (\<lambda>a b. a < b) i s (ai_states ai)\<rparr>))"

definition remember :: "(memory_key \<times> memory_value) list \<Rightarrow> mob_mind \<Rightarrow> mob_mind" where
  "remember ms s = s\<lparr>mind_brain := mind_brain s ++ map_of ms\<rparr>"

definition set_target :: "entity_id \<Rightarrow> entity_id \<Rightarrow> entity_manager \<Rightarrow> mob_ai \<Rightarrow> bool \<times> mob_ai" where
  "set_target i t m ai =
     (if mind_of ai i = None \<or> find_entity m t = None then (False, ai)
      else (True, on_mind i (remember [(Target_Entity, Memory_Entity t)]) ai))"

text \<open>The guard of the calls that concern mobs other than monsters.\<close>

definition mob_here :: "(entity_category \<Rightarrow> bool) \<Rightarrow> entity_id \<Rightarrow> entity_manager \<Rightarrow> mob_ai \<Rightarrow> bool" where
  "mob_here c i m ai = (mind_of ai i \<noteq> None \<and>
     (case find_entity m i of None \<Rightarrow> False | Some e \<Rightarrow> c (type_category (entity_properties e))))"

definition notify_damage :: "entity_id \<Rightarrow> vec3 \<Rightarrow> entity_manager \<Rightarrow> mob_ai \<Rightarrow> bool \<times> mob_ai" where
  "notify_damage i threat m ai =
     (if mob_here (\<lambda>c. c \<noteq> Monster) i m ai
      then (True, on_mind i (remember [(Panicked, Memory_Bool True), (Last_Seen_Position, Memory_Vec threat)]) ai)
      else (False, ai))"

definition tempt :: "entity_id \<Rightarrow> vec3 \<Rightarrow> entity_manager \<Rightarrow> mob_ai \<Rightarrow> bool \<times> mob_ai" where
  "tempt i p m ai =
     (if mob_here (\<lambda>c. c \<noteq> Monster) i m ai
      then (True, on_mind i (remember [(Tempted, Memory_Vec p)]) ai) else (False, ai))"

definition follow_owner :: "entity_id \<Rightarrow> vec3 \<Rightarrow> entity_manager \<Rightarrow> mob_ai \<Rightarrow> bool \<times> mob_ai" where
  "follow_owner i p m ai =
     (if mob_here (\<lambda>c. c = Creature) i m ai
      then (True, on_mind i (remember [(Owner_Position, Memory_Vec p)]) ai) else (False, ai))"

definition set_suspended :: "entity_id \<Rightarrow> bool \<Rightarrow> entity_manager \<Rightarrow> mob_ai \<Rightarrow> bool \<times> entity_manager \<times> mob_ai" where
  "set_suspended i on m ai = (case mind_of ai i of None \<Rightarrow> (False, m, ai)
   | Some s \<Rightarrow>
       if find_entity m i = None then (False, m, ai)
       else if on then
         let (gs, m, b) = stop_all i (mind_goals s) m (mind_brain s) in
         (True, on_entity i (\<lambda>e. e\<lparr>velocity := vec3 0 0 0\<rparr>) m,
          on_mind i (\<lambda>s. s\<lparr>suspended := True, mind_goals := gs, mind_brain := b\<rparr>) ai)
       else (True, m, on_mind i (\<lambda>s. s\<lparr>suspended := False\<rparr>) ai))"

text \<open>The predicate of \<open>std::erase_if\<close>, which ticks the minds that stay.\<close>

fun tick_minds ::
  "(f64 \<Rightarrow> f64 \<Rightarrow> f64) \<Rightarrow> (f64 \<Rightarrow> f64 \<Rightarrow> f64) \<Rightarrow> (entity_id \<times> mob_mind) list \<Rightarrow> entity_manager \<Rightarrow>
   ((entity_id \<times> mob_mind) list \<times> entity_manager) result" where
  "tick_minds atan2 hypot [] m = Inr ([], m)"
| "tick_minds atan2 hypot ((i, s) # ss) m =
     (if (case find_entity m i of None \<Rightarrow> True | Some e \<Rightarrow> removed e) then tick_minds atan2 hypot ss m
      else bindR (if suspended s then Inr (s, m)
          else bindR (selector_tick atan2 hypot i (mind_goals s) m (mind_brain s)) (\<lambda>(gs, m, b).
            Inr (s\<lparr>mind_goals := gs, mind_brain := b\<rparr>, m))) (\<lambda>(s, m).
        bindR (tick_minds atan2 hypot ss m) (\<lambda>(ss, m). Inr ((i, s) # ss, m))))"

definition alarm :: "entity_manager \<Rightarrow> entity_id \<Rightarrow> mob_mind \<Rightarrow> mob_mind" where
  "alarm m i s =
     (if suspended s then s
      else case find_entity m i of None \<Rightarrow> s
      | Some e \<Rightarrow> on_living (\<lambda>l e.
          if invulnerable_ticks l \<noteq> 10 then s
          else case Option.bind (last_source l) attacker of None \<Rightarrow> s
          | Some a \<Rightarrow> (case find_entity m a of None \<Rightarrow> s
            | Some f \<Rightarrow>
                if type_category (entity_properties e) = Monster then s
                else remember [(Panicked, Memory_Bool True), (Last_Seen_Position, Memory_Vec (position f))] s)) s e)"

definition ai_tick ::
  "(f64 \<Rightarrow> f64 \<Rightarrow> f64) \<Rightarrow> (f64 \<Rightarrow> f64 \<Rightarrow> f64) \<Rightarrow> entity_manager \<Rightarrow> mob_ai \<Rightarrow> (entity_manager \<times> mob_ai) result" where
  "ai_tick atan2 hypot m ai = bindR (tick_minds atan2 hypot (ai_states ai) m) (\<lambda>(ss, m).
     Inr (m, ai\<lparr>ai_states := map (\<lambda>(i, s). (i, alarm m i s)) ss\<rparr>))"

section \<open>Paths\<close>

text \<open>\<open>std::abs\<close> of a difference of coordinates, and the estimate of the search.\<close>

definition abs_i32 :: "i32 \<Rightarrow> i32" where
  "abs_i32 a = (if a <s 0 then - a else a)"

definition block_distance :: "block_position \<Rightarrow> block_position \<Rightarrow> i32" where
  "block_distance a b = abs_i32 (pos_x a - pos_x b) + abs_i32 (pos_y a - pos_y b) + abs_i32 (pos_z a - pos_z b)"

definition neighbours :: "block_position \<Rightarrow> block_position list" where
  "neighbours p = map (\<lambda>(dx, dz). p\<lparr>pos_x := pos_x p + dx, pos_z := pos_z p + dz\<rparr>)
     [(1, 0), (- 1, 0), (0, 1), (0, - 1)]"

type_synonym open_node = "block_position \<times> i32"

record search =
  open_nodes :: "open_node list"
  path_cost :: "block_position \<rightharpoonup> i32"
  came_from :: "block_position \<rightharpoonup> block_position"

definition relax ::
  "(block_position \<Rightarrow> bool) \<Rightarrow> block_position \<Rightarrow> block_position \<Rightarrow> block_position \<Rightarrow> search \<Rightarrow> search" where
  "relax passable goal current next s =
     (if \<not> passable next then s
      else
        let c = (case path_cost s current of None \<Rightarrow> 0 | Some c \<Rightarrow> c) + 1 in
        if (case path_cost s next of None \<Rightarrow> True | Some old \<Rightarrow> c <s old)
        then s\<lparr>path_cost := (path_cost s)(next \<mapsto> c), came_from := (came_from s)(next \<mapsto> current),
               open_nodes := open_nodes s @ [(next, c + block_distance next goal)]\<rparr>
        else s)"

text \<open>The walk back from the destination; \<open>std::map::at\<close> throws where there is no entry.\<close>

partial_function (option) walk_back ::
  "(block_position \<rightharpoonup> block_position) \<Rightarrow> block_position \<Rightarrow> block_position \<Rightarrow> block_position list \<Rightarrow>
   block_position list result option" where
  "walk_back came start cursor path =
     (if cursor = start then Some (Inr path)
      else case came cursor of None \<Rightarrow> Some (Inl (Out_Of_Range ''map::at''))
      | Some p \<Rightarrow> walk_back came start p (p # path))"

text \<open>
  The standard leaves open which of the best nodes a priority queue has on top:
  \<open>pick n\<close> is the top of the queue at the pop with \<open>n\<close> pops to go.
\<close>

fun search_path ::
  "(nat \<Rightarrow> open_node list \<Rightarrow> open_node) \<Rightarrow> (block_position \<Rightarrow> bool) \<Rightarrow> block_position \<Rightarrow> block_position \<Rightarrow>
   nat \<Rightarrow> search \<Rightarrow> block_position list result option" where
  "search_path pick passable start goal 0 s = Some (Inr [])"
| "search_path pick passable start goal (Suc n) s =
     (if open_nodes s = [] then Some (Inr [])
      else
        let top = pick n (open_nodes s); current = fst top;
            s = s\<lparr>open_nodes := remove1 top (open_nodes s)\<rparr>
        in if current = goal then walk_back (came_from s) start current [current]
           else search_path pick passable start goal n
             (fold (relax passable goal current) (neighbours current) s))"

definition find_path ::
  "(nat \<Rightarrow> open_node list \<Rightarrow> open_node) \<Rightarrow> block_position \<Rightarrow> block_position \<Rightarrow> (block_position \<Rightarrow> bool) \<Rightarrow> nat \<Rightarrow>
   block_position list result option" where
  "find_path pick start goal passable max_visited =
     (if max_visited = 0 \<or> \<not> passable start \<or> \<not> passable goal then Some (Inr [])
      else search_path pick passable start goal max_visited
        \<lparr>open_nodes = [(start, block_distance start goal)], path_cost = [start \<mapsto> 0], came_from = Map.empty\<rparr>)"

text \<open>\<open>numeric_limits<double>::epsilon()\<close> is \<open>2 ^ -52\<close>.\<close>

definition steer :: "block_position list \<Rightarrow> f64 \<Rightarrow> entity \<Rightarrow> bool \<times> entity" where
  "steer path speed e =
     (if length path < 2 \<or> f64_le speed 0 then (False, e)
      else
        let target = path ! 1; middle = (\<lambda>c :: i32. f64_add (f64_of_int (sint c)) (f64_ratio 1 2));
            delta = vec3 (f64_sub (middle (pos_x target)) (vec_x (position e))) 0
              (f64_sub (middle (pos_z target)) (vec_z (position e)));
            len = horizontal delta
        in if f64_le len (f64_ratio 1 4503599627370496) then (False, e)
           else (True, e\<lparr>velocity := head_along delta len speed (velocity e)\<rparr>))"

end
