(* ===== verification/Entity_Facts.thy ===== *)
theory Entity_Facts
  imports Entity_Links
begin

text \<open>
  Histories of a manager of entities (src/entity/entity.cpp), with the ticks and the
  restoration of snapshots, and what holds after every one of them.
\<close>

section \<open>Ticks\<close>

lemma tick_entities_links:
  "tick_entities pow delta es = Inr fs \<Longrightarrow>
   map fst fs = map fst es \<and> rel_option same_links (map_of es i) (map_of fs i)"
proof (induction es arbitrary: fs)
  case (Cons x es)
  then show ?case by (cases x) (auto simp: bindR_Inr_iff dest: living_tick_links)
qed simp

lemma ticked_ok:
  assumes ok: "manager_ok X m" and "tick_entities pow delta (entities m) = Inr fs"
  shows "manager_ok X (m\<lparr>entities := fs, deaths := ds\<rparr>)"
proof -
  let ?m = "m\<lparr>entities := fs, deaths := ds\<rparr>"
  have rel: "rel_option same_links (find_entity m i) (find_entity ?m i)" for i
    using tick_entities_links [OF assms(2)] by (simp add: find_entity_def)
  have "views ?m = (present m, ride_of m, riders m, leash_of m)"
  proof (rule views_eqI)
    fix i
    show "(find_entity ?m i \<noteq> None) = (i \<in> present m)" using rel [of i]
      by (auto simp: present_def elim: option.rel_cases)
    show "ride_of ?m i = ride_of m i" "riders ?m i = riders m i" "leash_of ?m i = leash_of m i"
      using rel [of i] by (auto simp: view_defs same_links_def elim: option.rel_cases)
  qed
  then show ?thesis
    by (rule manager_okI) (use manager_okD [OF ok] tick_entities_links [OF assms(2)] in simp_all)
qed

lemma fold_remove_ok:
  "manager_ok X m \<Longrightarrow> manager_ok X (fold (\<lambda>(i, _) m. snd (remove_entity i m)) gone m)"
  by (induction gone arbitrary: m) (auto simp: remove_entity_ok)

lemma manager_tick_ok: "manager_ok X m \<Longrightarrow> manager_tick pow delta m = Inr m' \<Longrightarrow> manager_ok X m'"
  by (auto simp: manager_tick_def bindR_Inr_iff Let_def intro: fold_remove_ok ticked_ok)

lemma on_entity_ok:
  assumes ok: "manager_ok X m" and keep: "\<And>e. find_entity m i = Some e \<Longrightarrow> same_links e (f e)"
  shows "manager_ok X (on_entity i f m)"
proof -
  have "views (on_entity i f m) = (present m, ride_of m, riders m, leash_of m)"
    by (rule views_eqI)
      (use keep in \<open>auto simp: find_on_entity view_defs same_links_def bind_case split: option.splits\<close>)
  then show ?thesis by (rule manager_okI) (use manager_okD [OF ok] in simp_all)
qed

section \<open>Restoring\<close>

definition unlinked :: "entity_id set \<Rightarrow> entity_manager \<Rightarrow> bool" where
  "unlinked X m = (manager_ok X m \<and> riders m = (\<lambda>_. []) \<and> leash_of m = (\<lambda>_. None))"

lemma restore_entity_ok:
  assumes m: "unlinked X m" and "restore_entity s m = Inr m'"
  shows "unlinked X m'"
proof -
  let ?i = "snap_id s"
  obtain e where m': "m' = (emplace_entity ?i e m)\<lparr>next_entity_id := max (next_entity_id m) (?i + 1)\<rparr>"
    and e: "vehicle e = None" "passengers e = []" "leash_holder e = None" and none: "find_entity m ?i = None"
    using assms(2)
    by (auto simp: restore_entity_def guardR_Inr_iff bindR_Inr_iff Let_def new_entity_def set_rotation_def
      emplace_entity_def split: if_splits option.splits)
  have ok: "manager_ok X m" and no: "riders m = (\<lambda>_. [])" "leash_of m = (\<lambda>_. None)" using m by (simp_all add: unlinked_def)
  let ?m = "emplace_entity ?i e m"
  have v: "views m' = views ?m"
    by (simp add: m' views_def present_def ride_of_def [abs_def] riders_def [abs_def] leash_of_def [abs_def]
      find_entity_def [abs_def])
  note vs = v [unfolded views_emplaced [OF none e]]
  have "links_ok X (insert ?i (present m)) (ride_of m) (riders m) (leash_of m)"
    by (rule links_ok_spawn [OF manager_okD(2) [OF ok]]) (simp add: no)
  moreover have "sorted_wrt (<) (map fst (entities m'))"
    using manager_okD(1) [OF ok] none by (simp add: m' emplace_entity_def sorted_put_key)
  ultimately have "manager_ok X m'"
    by (intro manager_okI [OF vs])
  then show ?thesis using viewsD(3,4) [OF vs] no by (simp add: unlinked_def)
qed

lemma restore_links_ok:
  assumes "manager_ok X m"
  obtains e where "restore_links s m = Some (Inl e)" | m' where "restore_links s m = Some (Inr m')" "manager_ok X m'"
proof -
  obtain ok n where n: "(case snap_vehicle s of None \<Rightarrow> Some (True, m) | Some v \<Rightarrow> mount (snap_id s) v m) = Some (ok, n)"
    "manager_ok X n"
    using mount_returns [OF assms] mount_ok [OF assms] assms by (cases "snap_vehicle s") fastforce+
  obtain ok' l where l: "set_leash (snap_id s) (snap_leash s) n = (ok', l)" by fastforce
  have "manager_ok X l" using leash_ok [OF n(2), of "snap_id s" "snap_leash s"] l by simp
  then show thesis
    using that n l by (cases "snap_leash s"; cases ok; cases ok') (auto simp: restore_links_def)
qed

lemma restore_all_links_ok:
  "manager_ok X m \<Longrightarrow> (\<exists>e. restore_all_links ss m = Some (Inl e)) \<or>
     (\<exists>m'. restore_all_links ss m = Some (Inr m') \<and> manager_ok X m')"
proof (induction ss arbitrary: m)
  case (Cons s ss)
  from Cons.prems show ?case
    by (rule restore_links_ok [of X m s]) (use Cons.IH in auto)
qed simp

lemma restore_ok:
  assumes "manager_ok X m"
  shows "(\<exists>e. restore ss m = Some (Inl e)) \<or> (\<exists>m'. restore ss m = Some (Inr m') \<and> manager_ok X m')"
proof (cases "entities m = []")
  case True
  then have "unlinked X m" using assms(1) by (simp add: unlinked_def fun_eq_iff riders_def leash_of_def find_entity_def)
  then have "unlinked X n" if "foldR restore_entity ss m = Inr n" for n
    by (rule foldR_invariant [OF that]) (use restore_entity_ok in blast)
  then show ?thesis
    using True restore_all_links_ok
    by (cases "foldR restore_entity ss m") (auto simp: restore_def unlinked_def)
qed (simp add: restore_def)

section \<open>What can happen to a manager\<close>

text \<open>The calls on one entity that its owner makes through the pointer it was given.\<close>

inductive entity_action :: "entity \<Rightarrow> entity \<Rightarrow> bool" where
  moved: "entity_action e (e\<lparr>position := p\<rparr>)"
| accelerated: "entity_action e (e\<lparr>velocity := v\<rparr>)"
| turned: "entity_action e (set_rotation y p e)"
| floated: "entity_action e (apply_water_physics drag buoyancy e)"
| described: "entity_action e (set_metadata index x e)"
| joined: "entity_action e (e\<lparr>team := t\<rparr>)"
| discarded: "entity_action e (e\<lparr>removed := True\<rparr>)"
| hurt: "living_part e = Some l \<Longrightarrow> damage_living q source e l = Inr (b, f) \<Longrightarrow> entity_action e f"
| pushed: "living_part e = Some l \<Longrightarrow> knockback source strength e l = Inr (b, f) \<Longrightarrow> entity_action e f"
| healed: "living_part e = Some l \<Longrightarrow> entity_action e (heal_living q e l)"
| tuned: "living_part e = Some l \<Longrightarrow> set_attribute name x l = Inr k \<Longrightarrow> entity_action e (e\<lparr>living_part := Some k\<rparr>)"
| equipped: "living_part e = Some l \<Longrightarrow> equip reg slot stack l = Inr k \<Longrightarrow> entity_action e (e\<lparr>living_part := Some k\<rparr>)"
| affected: "living_part e = Some l \<Longrightarrow> entity_action e (e\<lparr>living_part := Some (apply_living_effect name i l)\<rparr>)"
| cured: "living_part e = Some l \<Longrightarrow> entity_action e (e\<lparr>living_part := Some (snd (remove_living_effect name l))\<rparr>)"

lemma knockback_links: "knockback source strength e l = Inr (b, f) \<Longrightarrow> same_links e f"
  by (auto simp: knockback_def bindR_Inr_iff Let_def same_links_def split: if_splits)

lemma entity_action_links: "entity_action e f \<Longrightarrow> same_links e f"
  by (induction rule: entity_action.induct)
    (auto simp: same_links_def set_rotation_def apply_water_physics_def Let_def set_metadata_def heal_living_def
      dest!: damage_links knockback_links)

inductive entity_step :: "(f64 \<Rightarrow> f64 \<Rightarrow> f64) \<Rightarrow> entity_manager \<Rightarrow> entity_manager \<Rightarrow> bool" for pow where
  spawned: "spawn name p m = Inr (i, n) \<Longrightarrow> entity_step pow m n"
| deleted: "entity_step pow m (snd (remove_entity i m))"
| mounted: "mount p v m = Some (b, n) \<Longrightarrow> entity_step pow m n"
| dismounted: "entity_step pow m (snd (dismount p m))"
| boarded: "entity_step pow m (snd (add_external_passenger v p m))"
| left_vehicle: "entity_step pow m (snd (remove_external_passenger v p m))"
| leashed: "entity_step pow m (snd (set_leash i holder m))"
| acted: "find_entity m i = Some e \<Longrightarrow> entity_action e f \<Longrightarrow> entity_step pow m (on_entity i (\<lambda>_. f) m)"
| ticked: "manager_tick pow delta m = Inr n \<Longrightarrow> entity_step pow m n"
| drained: "entity_step pow m (snd (drain_deaths m))"
| restored: "restore ss m = Some (Inr n) \<Longrightarrow> entity_step pow m n"

inductive_cases entity_stepE: "entity_step pow m n"

inductive entity_reachable :: "(f64 \<Rightarrow> f64 \<Rightarrow> f64) \<Rightarrow> entity_manager \<Rightarrow> bool" for pow where
  created: "new_manager types seed first = Inr m \<Longrightarrow> entity_reachable pow m"
| stepped: "entity_reachable pow m \<Longrightarrow> entity_step pow m n \<Longrightarrow> entity_reachable pow n"

text \<open>
  The same histories with the identifiers that were given to a new entity while a vehicle
  listed them as passengers from outside: \<open>add_external_passenger\<close> takes any identifier that
  is free at the moment, and nothing keeps it from being the next new one.
\<close>

inductive entity_history :: "(f64 \<Rightarrow> f64 \<Rightarrow> f64) \<Rightarrow> entity_id set \<Rightarrow> entity_manager \<Rightarrow> bool" for pow where
  founded: "new_manager types seed first = Inr m \<Longrightarrow> entity_history pow {} m"
| continued: "entity_history pow X m \<Longrightarrow> entity_step pow m n \<Longrightarrow> entity_history pow (X \<union> reused m n) n"

lemma entity_reachable_history: "entity_reachable pow m \<Longrightarrow> \<exists>X. entity_history pow X m"
  by (induction rule: entity_reachable.induct) (auto intro: entity_history.intros)

lemma entity_history_reachable: "entity_history pow X m \<Longrightarrow> entity_reachable pow m"
  by (induction rule: entity_history.induct) (auto intro: entity_reachable.intros)

lemma first_manager_ok: "new_manager types seed first = Inr m \<Longrightarrow> manager_ok X m"
  by (auto simp: new_manager_def guardR_Inr_iff manager_ok_def links_ok_def present_def ride_of_def riders_def
      leash_of_def find_entity_def ride_relation_def acyclic_def)

lemma entity_step_ok: "entity_step pow m n \<Longrightarrow> manager_ok X m \<Longrightarrow> manager_ok (X \<union> reused m n) n"
proof -
  assume step: "entity_step pow m n" and ok: "manager_ok X m"
  have keep: "manager_ok (X \<union> reused m n) n" if "manager_ok X n"
    using that by (rule manager_ok_mono) simp
  from step show ?thesis
  proof (cases rule: entity_step.cases)
    case (spawned name p i)
    then show ?thesis using spawn_ok(1) [OF ok] by simp
  next
    case drained
    have "manager_ok X (snd (drain_deaths m)) = manager_ok X m"
      by (rule manager_ok_cong) (simp add: drain_deaths_def)
    then show ?thesis using drained ok keep by simp
  next
    case (acted i e f)
    then show ?thesis using ok entity_action_links [of e f] by (intro keep) (auto intro: on_entity_ok)
  next
    case (restored ss)
    then show ?thesis using restore_ok [OF ok, of ss] by (intro keep) auto
  next
    case (mounted p v b)
    then show ?thesis using ok by (intro keep) (auto intro: mount_ok)
  next
    case (ticked delta)
    then show ?thesis using ok by (intro keep) (auto intro: manager_tick_ok)
  next
    case (deleted i)
    then show ?thesis using keep remove_entity_ok(1) [OF ok] by blast
  next
    case (dismounted p)
    then show ?thesis using keep dismount_ok [OF ok] by blast
  next
    case (boarded v p)
    then show ?thesis using keep external_ok [OF ok] by blast
  next
    case (left_vehicle v p)
    then show ?thesis using keep unload_ok [OF ok] by blast
  next
    case (leashed i holder)
    then show ?thesis using keep leash_ok [OF ok] by blast
  qed
qed

lemma entity_history_ok: "entity_history pow X m \<Longrightarrow> manager_ok X m"
  by (induction rule: entity_history.induct) (auto intro: first_manager_ok entity_step_ok)

lemma entity_reachable_ok: "entity_reachable pow m \<Longrightarrow> \<exists>X. manager_ok X m"
  using entity_reachable_history entity_history_ok by blast

text \<open>C5. After any history of a manager of entities, whoever rides is an entity of the manager and listed by
  its vehicle, which is one too; no entity rides itself through others; a leash is held by another entity of
  the manager; and asking for a ride always returns. A vehicle lists an entity that rides it only once, and
  no vehicle lists an entity that does not ride it, unless the identifier was given to this entity while a
  vehicle listed it as a passenger from outside, which nothing in the manager prevents.\<close>

theorem riding_invariant:
  assumes "entity_history pow X m"
  shows "(if ride_of m i = Some v then i \<in> present m \<and> v \<in> present m \<and> i \<in> set (riders m v) else True) \<and>
    (if i \<in> present m \<and> i \<in> set (riders m v) then i \<in> X \<or> ride_of m i = Some v else True) \<and>
    distinct (filter (\<lambda>p. p \<notin> X) (riders m v)) \<and> (i, i) \<notin> (ride_relation (ride_of m))\<^sup>+ \<and>
    leash_of m i \<in> insert None (Some ` (present m - {i})) \<and> mount i v m \<noteq> None"
proof -
  have ok: "manager_ok X m" using assms by (rule entity_history_ok)
  note links = links_okD [OF manager_okD(2) [OF ok]]
  have "leash_of m i \<in> insert None (Some ` (present m - {i}))"
    using links(6) [of i] by (cases "leash_of m i") auto
  moreover have "(i, i) \<notin> (ride_relation (ride_of m))\<^sup>+" using links(7) unfolding acyclic_def by blast
  moreover have "mount i v m \<noteq> None" using mount_returns [OF ok, of i v] by fastforce
  ultimately show ?thesis using links(1) [of i v] links(3) [of i v] links(4) [of v] by presburger
qed

section \<open>Snapshots come back\<close>

text \<open>An entity without its links, and the snapshots in terms of the views.\<close>

definition strip :: "entity \<Rightarrow> entity" where
  "strip e = e\<lparr>vehicle := None, passengers := [], leash_holder := None\<rparr>"

definition stripped :: "entity_manager \<Rightarrow> (entity_id \<times> entity) list" where
  "stripped m = map (\<lambda>(i, e). (i, strip e)) (entities m)"

definition link_snapshot :: "entity_manager \<Rightarrow> entity_snapshot \<Rightarrow> entity_snapshot" where
  "link_snapshot m s = s\<lparr>snap_vehicle := ride_of m (snap_id s), snap_leash := leash_of m (snap_id s)\<rparr>"

lemma manager_entries:
  assumes "manager_ok X m" "(i, e) \<in> set (entities m)"
  shows "find_entity m i = Some e"
proof -
  have "distinct (map fst (entities m))" using manager_okD(1) [OF assms(1)] strict_sorted_iff by blast
  then show ?thesis using assms(2) by (simp add: find_entity_def)
qed

lemma snapshots_views:
  assumes "manager_ok X m"
  shows "snapshots m = map (link_snapshot m) (map snapshot_of (stripped m))"
  unfolding snapshots_def stripped_def
  using manager_entries [OF assms]
  by (auto simp: snapshot_of_def strip_def link_snapshot_def ride_of_def leash_of_def)

lemma stripped_on: "(\<And>e. strip (f e) = strip e) \<Longrightarrow> stripped (on_entity i f m) = stripped m"
  by (auto simp: stripped_def on_entity_def)

lemma stripped_dismount [simp]: "stripped (snd (dismount p m)) = stripped m"
  by (auto simp: dismount_def stripped_on strip_def split: option.splits)

lemma mount_views:
  assumes ok: "manager_ok X m" and m: "mount p v m = Some (True, n)"
  shows "stripped n = stripped m \<and> present n = present m \<and> ride_of n = (ride_of m)(p := Some v) \<and> leash_of n = leash_of m"
proof -
  let ?d = "snd (dismount p m)"
  have here: "find_entity m p \<noteq> None" "find_entity m v \<noteq> None"
    and n: "n = on_entity v (\<lambda>e. e\<lparr>passengers := passengers e @ [p]\<rparr>) (on_entity p (\<lambda>e. e\<lparr>vehicle := Some v\<rparr>) ?d)"
    using m by (auto simp: mount_def bind_eq_Some_conv Let_def split: if_splits)
  have d: "find_entity ?d p \<noteq> None" "find_entity ?d v \<noteq> None"
    using here present_dismount [of p m] by (auto simp: present_def set_eq_iff)
  have leash: "leash_of ?d = leash_of m"
    by (cases "ride_of m p") (simp_all add: dismount_none viewsD(4) [OF views_dismount])
  have "stripped n = stripped m" unfolding n by (simp add: stripped_on strip_def)
  then show ?thesis
    using viewsD [OF views_mounted [OF d]] leash unfolding n by simp
qed

lemma leash_views:
  assumes "set_leash i (Some h) m = (True, n)"
  shows "stripped n = stripped m \<and> present n = present m \<and> ride_of n = ride_of m \<and> leash_of n = (leash_of m)(i := Some h)"
proof -
  have "find_entity m i \<noteq> None" and n: "n = on_entity i (\<lambda>e. e\<lparr>leash_holder := Some h\<rparr>) m"
    using assms by (auto simp: set_leash_def split: if_splits)
  then show ?thesis using viewsD [OF views_leash] by (simp add: stripped_on strip_def)
qed

text \<open>Rebuilding a link of an intact manager succeeds.\<close>

lemma mount_again:
  assumes m: "manager_ok X m" and n: "manager_ok X n" and same: "present n = present m"
    and sub: "\<And>j w. ride_of n j = Some w \<Longrightarrow> ride_of m j = Some w" and ride: "ride_of m p = Some v"
  shows "\<exists>k. mount p v n = Some (True, k)"
proof -
  let ?r = "ride_relation (ride_of m)"
  have pv: "(p, v) \<in> ?r" using ride by (simp add: ride_relation_def)
  have acyc: "acyclic ?r" by (rule links_okD(7) [OF manager_okD(2) [OF m]])
  have "ride_relation (ride_of n) \<subseteq> ?r" using sub by (auto simp: ride_relation_def)
  then have "(v, p) \<notin> (ride_relation (ride_of n))\<^sup>+"
    using acyc pv by (meson acyclic_def trancl_into_trancl trancl_mono)
  then have "rides_on n p v = Some False" using rides_on_decides [OF manager_okD(2) [OF n], of p v] by simp
  moreover have "p \<noteq> v" using acyc pv by (auto simp: acyclic_def)
  moreover have "find_entity n p \<noteq> None \<and> find_entity n v \<noteq> None"
    using links_okD(1) [OF manager_okD(2) [OF m] ride] same by (auto simp: present_def set_eq_iff)
  ultimately show ?thesis by (simp add: mount_def Let_def)
qed

lemma leash_again:
  assumes m: "manager_ok X m" and same: "present n = present m" and h: "leash_of m i = Some h"
  shows "\<exists>k. set_leash i (Some h) n = (True, k)"
  using links_okD(6) [OF manager_okD(2) [OF m] h] same by (auto simp: set_leash_def present_def set_eq_iff)

lemma restore_links_again:
  assumes m: "manager_ok X m" and n: "manager_ok X n" and same: "present n = present m"
    and sub: "\<And>j w. ride_of n j = Some w \<Longrightarrow> ride_of m j = Some w"
    and s: "snap_vehicle s = ride_of m (snap_id s)" "snap_leash s = leash_of m (snap_id s)"
    and new: "ride_of n (snap_id s) = None" "leash_of n (snap_id s) = None"
  shows "\<exists>k. restore_links s n = Some (Inr k) \<and> manager_ok X k \<and> stripped k = stripped n \<and> present k = present m \<and>
    ride_of k = (ride_of n)(snap_id s := ride_of m (snap_id s)) \<and>
    leash_of k = (leash_of n)(snap_id s := leash_of m (snap_id s))"
proof -
  let ?i = "snap_id s"
  obtain k where k: "(case snap_vehicle s of None \<Rightarrow> Some (True, n) | Some v \<Rightarrow> mount ?i v n) = Some (True, k)"
    "manager_ok X k" "stripped k = stripped n" "present k = present m"
    "ride_of k = (ride_of n)(?i := ride_of m ?i)" "leash_of k = leash_of n"
  proof (cases "ride_of m ?i")
    case None
    then show thesis using that [of n] n same new s by (simp add: fun_upd_idem)
  next
    case (Some v)
    obtain k where "mount ?i v n = Some (True, k)" using mount_again [OF m n same sub Some] by blast
    then show thesis using that [of k] mount_views [OF n] mount_ok [OF n] same s Some by simp
  qed
  show ?thesis
  proof (cases "leash_of m ?i")
    case None
    then show ?thesis using k new s by (auto simp: restore_links_def fun_upd_idem)
  next
    case (Some h)
    obtain l where l: "set_leash ?i (Some h) k = (True, l)" using leash_again [OF m k(4) Some] by blast
    have "manager_ok X l" using leash_ok [OF k(2), of ?i "Some h"] l by simp
    then show ?thesis using k leash_views [OF l] l s Some by (auto simp: restore_links_def)
  qed
qed

lemma restore_all_links_again:
  assumes m: "manager_ok X m"
  shows "manager_ok X n \<Longrightarrow> present n = present m \<Longrightarrow> distinct (map snap_id ss) \<Longrightarrow>
    \<forall>s \<in> set ss. snap_vehicle s = ride_of m (snap_id s) \<and> snap_leash s = leash_of m (snap_id s) \<Longrightarrow>
    \<forall>j. ride_of n j = (if j \<in> snap_id ` set ss then None else ride_of m j) \<and>
      leash_of n j = (if j \<in> snap_id ` set ss then None else leash_of m j) \<Longrightarrow>
    \<exists>k. restore_all_links ss n = Some (Inr k) \<and> manager_ok X k \<and> stripped k = stripped n \<and>
      ride_of k = ride_of m \<and> leash_of k = leash_of m"
proof (induction ss arbitrary: n)
  case (Cons s ss)
  have sub: "\<And>j w. ride_of n j = Some w \<Longrightarrow> ride_of m j = Some w"
    and new: "ride_of n (snap_id s) = None" "leash_of n (snap_id s) = None"
    using Cons.prems(5) by (force split: if_splits)+
  obtain k where k: "restore_links s n = Some (Inr k)" "manager_ok X k" "stripped k = stripped n"
    "present k = present m" "ride_of k = (ride_of n)(snap_id s := ride_of m (snap_id s))"
    "leash_of k = (leash_of n)(snap_id s := leash_of m (snap_id s))"
    using restore_links_again [OF m Cons.prems(1,2) sub _ _ new] Cons.prems(4) by auto
  have "\<exists>l. restore_all_links ss k = Some (Inr l) \<and> manager_ok X l \<and> stripped l = stripped k \<and>
      ride_of l = ride_of m \<and> leash_of l = leash_of m"
    by (rule Cons.IH) (use k Cons.prems in auto)
  then show ?case using k by auto
qed (auto simp: fun_eq_iff)

text \<open>What a snapshot needs in order to be accepted, and the entity that comes of it.\<close>

definition snapshot_fits :: "entity_registry \<Rightarrow> entity \<Rightarrow> bool" where
  "snapshot_fits types e =
     (let t = type_of e; most = type_max_health (type_properties t) in
      type_by_name types (location_string (entity_type_name t)) = Inr t \<and>
      f32_clamp (pitch e) (f32_neg (f32_ratio 90 1)) (f32_ratio 90 1) = pitch e \<and>
      (case living_part e of None \<Rightarrow> \<not> f32_less 0 most
       | Some l \<Rightarrow> f32_less 0 most \<and> \<not> f32_less (living_health l) 0 \<and> \<not> f32_less most (living_health l)))"

definition plain_snapshot :: "entity_id \<times> entity \<Rightarrow> entity_snapshot" where
  "plain_snapshot x = snapshot_of (fst x, strip (snd x))"

lemma put_key_last:
  "\<forall>x \<in> set es. fst x < (k :: u32) \<Longrightarrow> put_key (\<lambda>a b. a < b) k v es = es @ [(k, v)]"
  by (induction "\<lambda>a b :: u32. a < b" k v es rule: put_key.induct) auto

lemma restore_entity_again:
  assumes "snapshot_fits (entity_types m) e" and "i \<noteq> 0" and "\<forall>x \<in> set (entities m). fst x < i"
  shows "\<exists>f. restore_entity (snapshot_of (i, e)) m =
      Inr (m\<lparr>entities := entities m @ [(i, f)], next_entity_id := max (next_entity_id m) (i + 1)\<rparr>) \<and>
    plain_snapshot (i, f) = plain_snapshot (i, e)"
proof -
  have none: "find_entity m i = None"
    using assms(3) by (auto simp: find_entity_def map_of_eq_None_iff)
  define t where "t = type_of e"
  define b where "b = (new_entity i (entity_uuid e) t (position e))
    \<lparr>living_part := map_option (\<lambda>l. (new_living t)\<lparr>living_health := living_health l\<rparr>) (living_part e)\<rparr>"
  define f where "f = (set_rotation (yaw e) (pitch e) (b\<lparr>velocity := velocity e\<rparr>))
    \<lparr>metadata := metadata e, team := team e\<rparr>"
  have t: "type_by_name (entity_types m) (location_string (entity_type_name t)) = Inr t"
    using assms(1) by (simp add: snapshot_fits_def Let_def t_def)
  have base: "b = new_entity i (entity_uuid e) t (position e)" if "living_part e = None"
    by (simp add: b_def that) (simp add: new_entity_def)
  have "restore_entity (snapshot_of (i, e)) m = Inr ((emplace_entity i f m)
      \<lparr>next_entity_id := max (next_entity_id (emplace_entity i f m)) (i + 1)\<rparr>)"
    using assms(1,2) none t base unfolding restore_entity_def snapshot_of_def snapshot_fits_def Let_def
    by (cases "living_part e") (simp_all add: guardR_def f_def t_def [symmetric], simp add: b_def)
  moreover have "emplace_entity i f m = m\<lparr>entities := entities m @ [(i, f)]\<rparr>"
    using none assms(3) by (simp add: emplace_entity_def put_key_last)
  moreover have "plain_snapshot (i, f) = plain_snapshot (i, e)"
  proof -
    have "map_option living_health (living_part b) = map_option living_health (living_part e)"
      by (simp add: b_def option.map_comp comp_def)
    moreover have "f32_clamp (pitch e) (f32_neg (f32_ratio 90 1)) (f32_ratio 90 1) = pitch e"
      using assms(1) by (simp add: snapshot_fits_def Let_def)
    ultimately show ?thesis
      by (simp add: plain_snapshot_def snapshot_of_def strip_def f_def set_rotation_def)
        (simp add: b_def new_entity_def t_def)
  qed
  ultimately show ?thesis by auto
qed

lemma restore_entities_again:
  "\<forall>x \<in> set es. snapshot_fits (entity_types m) (snd x) \<and> fst x \<noteq> 0 \<Longrightarrow>
   sorted_wrt (<) (map fst es) \<Longrightarrow> \<forall>x \<in> set (entities m). \<forall>y \<in> set es. fst x < fst y \<Longrightarrow>
   \<exists>n. foldR restore_entity (map snapshot_of es) m = Inr n \<and>
     map plain_snapshot (entities n) = map plain_snapshot (entities m @ es)"
proof (induction es arbitrary: m)
  case (Cons x es)
  obtain i e where x: "x = (i, e)" by (cases x)
  obtain f where f: "restore_entity (snapshot_of (i, e)) m =
      Inr (m\<lparr>entities := entities m @ [(i, f)], next_entity_id := max (next_entity_id m) (i + 1)\<rparr>)"
    and same: "plain_snapshot (i, f) = plain_snapshot (i, e)"
    using restore_entity_again [of m e i] Cons.prems x by auto
  let ?n = "m\<lparr>entities := entities m @ [(i, f)], next_entity_id := max (next_entity_id m) (i + 1)\<rparr>"
  obtain n where "foldR restore_entity (map snapshot_of es) ?n = Inr n"
    "map plain_snapshot (entities n) = map plain_snapshot (entities ?n @ es)"
    using Cons.IH [of ?n] Cons.prems x by fastforce
  then show ?case using f same by (simp add: x)
qed simp

lemma snapshots_plain:
  assumes "manager_ok X m"
  shows "snapshots m = map (link_snapshot m) (map plain_snapshot (entities m))"
  unfolding snapshots_views [OF assms] by (simp add: stripped_def plain_snapshot_def split_def)

text \<open>C12. What a manager saves it can restore. The snapshots of a manager that anything may have happened
  to, given to a new manager with the same types of entity, are accepted, riding and leashes included, and
  the new manager has the same snapshots, provided that each entity has a type by its name, a pitch within
  the limits and a health that its type allows.\<close>

theorem snapshots_restore:
  assumes "entity_reachable pow m" and "\<forall>x \<in> set (entities m). snapshot_fits (entity_types m) (snd x) \<and> fst x \<noteq> 0"
    and "new_manager (entity_types m) seed first = Inr e"
  shows "\<exists>n. restore (snapshots m) e = Some (Inr n) \<and> snapshots n = snapshots m"
proof -
  obtain X where m: "manager_ok X m" using entity_reachable_ok [OF assms(1)] by blast
  have e: "manager_ok X e" "entities e = []" "entity_types e = entity_types m"
    using assms(3) first_manager_ok [OF assms(3)] by (auto simp: new_manager_def guardR_Inr_iff)
  obtain u where u: "foldR restore_entity (snapshots m) e = Inr u"
    and plain: "map plain_snapshot (entities u) = map plain_snapshot (entities m)"
    using restore_entities_again [of "entities m" e] assms(2) manager_okD(1) [OF m] e
    by (auto simp: snapshots_def)
  have ids: "snap_vehicle s = ride_of m (snap_id s)" "snap_leash s = leash_of m (snap_id s)"
    if s: "s \<in> set (snapshots m)" for s
  proof -
    obtain i f where f: "(i, f) \<in> set (entities m)" "s = snapshot_of (i, f)" using s by (auto simp: snapshots_def)
    then show "snap_vehicle s = ride_of m (snap_id s)" "snap_leash s = leash_of m (snap_id s)"
      using manager_entries [OF m f(1)] by (simp_all add: snapshot_of_def ride_of_def leash_of_def)
  qed
  have "unlinked X e" using e by (simp add: unlinked_def fun_eq_iff riders_def leash_of_def find_entity_def)
  then have "unlinked X u" by (rule foldR_invariant [OF u]) (use restore_entity_ok in blast)
  then have ok: "manager_ok X u" and no: "riders u = (\<lambda>_. [])" "leash_of u = (\<lambda>_. None)"
    by (simp_all add: unlinked_def)
  have bare: "ride_of u = (\<lambda>_. None)"
  proof
    fix i
    show "ride_of u i = None" using links_okD(1) [OF manager_okD(2) [OF ok], of i] no(1) by (cases "ride_of u i") auto
  qed
  have "map fst (entities u) = map fst (entities m)"
    using arg_cong [OF plain, of "map snap_id"] by (simp add: plain_snapshot_def snapshot_of_def comp_def split_def)
  then have same: "present u = present m" by (auto simp: present_keys dest: arg_cong [of _ _ set])
  have keys: "map snap_id (snapshots m) = map fst (entities m)"
    by (simp add: snapshots_def snapshot_of_def comp_def split_def)
  have away: "ride_of m j = None \<and> leash_of m j = None" if "j \<notin> snap_id ` set (snapshots m)" for j
  proof -
    have "j \<notin> fst ` set (entities m)" using that arg_cong [OF keys, of set] by auto
    then have "find_entity m j = None" by (simp add: find_entity_def map_of_eq_None_iff)
    then show ?thesis by (simp add: ride_of_def leash_of_def)
  qed
  have "\<exists>k. restore_all_links (snapshots m) u = Some (Inr k) \<and> manager_ok X k \<and> stripped k = stripped u \<and>
      ride_of k = ride_of m \<and> leash_of k = leash_of m"
  proof (rule restore_all_links_again [OF m ok same])
    show "distinct (map snap_id (snapshots m))"
      using manager_okD(1) [OF m] unfolding keys by (simp add: strict_sorted_iff)
  qed (use ids away bare no(2) in auto)
  then obtain k where k: "restore_all_links (snapshots m) u = Some (Inr k)" "manager_ok X k" "stripped k = stripped u"
    "ride_of k = ride_of m" "leash_of k = leash_of m" by blast
  have "map plain_snapshot (entities k) = map plain_snapshot (entities m)"
    using arg_cong [OF k(3), of "map snapshot_of"] plain by (simp add: stripped_def plain_snapshot_def [abs_def] split_def comp_def)
  moreover have "link_snapshot k = link_snapshot m" using k by (simp add: link_snapshot_def fun_eq_iff)
  ultimately have "snapshots k = snapshots m" by (simp add: snapshots_plain [OF k(2)] snapshots_plain [OF m])
  then show ?thesis using e(2) u k(1) by (simp add: restore_def)
qed

section \<open>Two boats, the first of which boards the second\<close>

definition boats :: "entity_registry" where
  "boats = [\<lparr>entity_type_id = 0, entity_type_name = minecraft ''boat'', type_implementation = ''Boat'',
     type_properties = plain_properties, entity_protocol_id = None\<rparr>]"

definition all_boats :: "entity_manager \<Rightarrow> bool" where
  "all_boats m = (entity_types m = boats \<and> (\<forall>x \<in> set (stripped m).
     fst x \<noteq> 0 \<and> type_of (snd x) = hd boats \<and> pitch (snd x) = 0 \<and> living_part (snd x) = None))"

lemma boat_location: "parse_location ''minecraft:boat'' = Inr \<lparr>name_space = ''minecraft'', loc_path = ''boat''\<rparr>"
  by code_simp

lemma boat_known: "type_by_name boats ''minecraft:boat'' = Inr (hd boats)"
  by (simp add: type_by_name_def boat_location boats_def minecraft_def)

lemma boat_inanimate: "\<not> f32_less 0 (type_max_health (type_properties (hd boats)))"
  by (simp add: boats_def plain_properties_def f32_less_def)

lemma no_pitch: "f32_clamp 0 (f32_neg (f32_ratio 90 1)) (f32_ratio 90 1) = 0"
  using f32_ratio_integer [of 90] by (simp add: f32_clamp_def f32_less_value)

lemma boats_fit: "all_boats m \<Longrightarrow> x \<in> set (entities m) \<Longrightarrow> snapshot_fits (entity_types m) (snd x) \<and> fst x \<noteq> 0"
proof -
  assume "all_boats m" "x \<in> set (entities m)"
  then have x: "fst x \<noteq> 0" "type_of (snd x) = hd boats" "pitch (snd x) = 0" "living_part (snd x) = None"
    "entity_types m = boats"
    unfolding all_boats_def stripped_def strip_def by (cases x, auto)+
  have "f32_clamp 0 (f32_neg (f32_ratio 90 1)) (f32_ratio 90 1) = 0" by (rule no_pitch)
  moreover have "location_string (entity_type_name (hd boats)) = ''minecraft:boat''"
    by (simp add: boats_def minecraft_def) code_simp
  ultimately show ?thesis using x boat_known boat_inanimate by (simp add: snapshot_fits_def Let_def)
qed

lemma spawn_boat:
  assumes "entity_history pow X m" and "all_boats m" and "next_entity_id m \<noteq> 0"
  shows "\<exists>n. entity_history pow (X \<union> reused m n) n \<and> all_boats n \<and> next_entity_id n = next_entity_id m + 1 \<and>
    present n = insert (next_entity_id m) (present m) \<and> ride_of n = ride_of m \<and> riders n = riders m"
proof -
  obtain uuid u where u: "next_uuid m = (uuid, u)" by fastforce
  let ?i = "next_entity_id m" and ?e = "new_entity (next_entity_id m) uuid (hd boats) (vec3 0 0 0)"
  let ?n = "(emplace_entity ?i ?e u)\<lparr>next_entity_id := ?i + 1\<rparr>"
  have n: "spawn ''minecraft:boat'' (vec3 0 0 0) m = Inr (?i, ?n)"
    using assms(2) by (simp add: spawn_def Let_def all_boats_def boat_known u boat_inanimate)
  note facts = spawn_ok(2-7) [OF entity_history_ok [OF assms(1)] n]
  have "entities u = entities m" using next_uuid_fields(1) [of m] u by simp
  then have "set (entities ?n) \<subseteq> insert (?i, ?e) (set (entities m))"
    using set_put_key [of _ ?i ?e "entities m"] by (auto simp: emplace_entity_def)
  then have "set (stripped ?n) \<subseteq> insert (?i, ?e) (set (stripped m))"
    by (auto simp: stripped_def strip_def new_entity_def)
  then have "all_boats ?n" using assms(2,3) facts by (auto simp: all_boats_def new_entity_def)
  then show ?thesis using facts continued [OF assms(1) spawned [OF n]] by blast
qed

lemma first_boat:
  "\<exists>m. entity_history (\<lambda>_ _. 0) {} m \<and> all_boats m \<and> next_entity_id m = 3 \<and> present m = {2} \<and>
     ride_of m = (\<lambda>_. None) \<and> riders m = (\<lambda>_. [])"
proof -
  obtain a where a: "new_manager boats 0x2602 2 = Inr a" "all_boats a" "next_entity_id a = 2" "present a = {}"
    "ride_of a = (\<lambda>_. None)" "riders a = (\<lambda>_. [])"
    by (simp add: new_manager_def guardR_def ride_of_def [abs_def] riders_def [abs_def] present_def find_entity_def
        all_boats_def stripped_def)
  then have "reused a n = {}" for n by (simp add: reused_def)
  then show ?thesis using spawn_boat [OF founded [OF a(1)] a(2)] a by auto
qed

lemma boats_afloat:
  "\<exists>m. entity_history (\<lambda>_ _. 0) {} m \<and> all_boats m \<and> ride_of m 2 = Some 3"
proof -
  obtain b where b: "entity_history (\<lambda>_ _. 0) {} b" "all_boats b" "next_entity_id b = 3" "present b = {2}"
    "ride_of b = (\<lambda>_. None)" "riders b = (\<lambda>_. [])" using first_boat by blast
  then have "reused b n = {}" for n by (simp add: reused_def)
  then obtain c where c: "entity_history (\<lambda>_ _. 0) {} c" "all_boats c" "present c = {2, 3}" "ride_of c = (\<lambda>_. None)"
    using spawn_boat [OF b(1,2)] b by (auto simp: insert_commute)
  have here: "find_entity c 2 \<noteq> None" "find_entity c 3 \<noteq> None" using c(3) by (auto simp: present_def)
  have "rides_on c 2 3 = Some False"
    using fun_cong [OF c(4), of 3] here by (subst rides_on.simps) (auto simp: ride_of_def split: option.splits)
  then obtain n where n: "mount 2 3 c = Some (True, n)" using here by (auto simp: mount_def Let_def)
  have "entity_types n = entity_types c" using n by (auto simp: mount_def Let_def bind_eq_Some_conv split: if_splits)
  moreover note views = mount_views [OF entity_history_ok [OF c(1)] n]
  ultimately have "all_boats n" "ride_of n 2 = Some 3" "reused c n = {}"
    using c(2) by (simp_all add: all_boats_def)
  then show ?thesis using continued [OF c(1) mounted [OF n]] by auto
qed

theorem riding_invariant_witness:
  "\<exists>m. entity_history (\<lambda>_ _. 0) {} m \<and> ride_of m 2 = Some 3 \<and> 2 \<in> set (riders m 3) \<and> distinct (riders m 3) \<and>
     mount 3 2 m \<noteq> None"
proof -
  obtain m where m: "entity_history (\<lambda>_ _. 0) {} m" "ride_of m 2 = Some 3" using boats_afloat by blast
  then show ?thesis using riding_invariant [OF m(1), of 2 3] riding_invariant [OF m(1), of 3 2] by auto
qed

text \<open>
  A player boards the only boat as passenger 3; then a second boat is launched and gets
  the identifier 3. The first boat lists it, and it does not ride.
\<close>

lemma boarded_id_reused:
  "\<exists>m. entity_history (\<lambda>_ _. 0) {3} m \<and> 3 \<in> present m \<and> riders m 2 = [3] \<and> ride_of m 3 = None"
proof -
  obtain b where b: "entity_history (\<lambda>_ _. 0) {} b" "all_boats b" "next_entity_id b = 3" "present b = {2}"
    "ride_of b = (\<lambda>_. None)" "riders b = (\<lambda>_. [])" using first_boat by blast
  let ?c = "snd (add_external_passenger 2 3 b)"
  have "2 \<in> present b" "3 \<notin> present b" using b(4) by simp_all
  then have here: "find_entity b 2 \<noteq> None" "find_entity b 3 = None" by (simp_all add: present_def)
  then have c: "?c = on_entity 2 (\<lambda>e. e\<lparr>passengers := passengers e @ [3]\<rparr>)
      (on_entities (\<lambda>e. e\<lparr>passengers := filter (\<lambda>i. i \<noteq> 3) (passengers e)\<rparr>) b)"
    by (auto simp: add_external_passenger_def)
  note views = viewsD [OF views_external [OF here(1), of 3], folded c]
  have "all_boats ?c \<and> next_entity_id ?c = 3"
    using b(2,3) unfolding c by (auto simp: all_boats_def stripped_def strip_def on_entity_def on_entities_def)
  moreover have "entity_history (\<lambda>_ _. 0) {} ?c"
    using continued [OF b(1) boarded [of _ b 2 3]] views(1) by simp
  ultimately have "\<exists>n. entity_history (\<lambda>_ _. 0) (reused ?c n) n \<and> present n = {2, 3} \<and> ride_of n = (\<lambda>_. None) \<and>
      riders n = riders ?c"
    using spawn_boat [where pow = "\<lambda>_ _. 0" and X = "{}" and m = ?c] views b by (auto simp: insert_commute)
  then obtain n where n: "entity_history (\<lambda>_ _. 0) (reused ?c n) n" "present n = {2, 3}" "ride_of n = (\<lambda>_. None)"
    "riders n = riders ?c" by blast
  moreover have "reused ?c n = {3}" using n views b by (auto simp: reused_def)
  ultimately show ?thesis using views(3) b(6) by auto
qed

theorem snapshots_restore_witness:
  "\<exists>m e n. ride_of m 2 = Some 3 \<and> new_manager boats 0x2602 2 = Inr e \<and>
     restore (snapshots m) e = Some (Inr n) \<and> snapshots n = snapshots m"
proof -
  obtain m where m: "entity_reachable (\<lambda>_ _. 0) m" "all_boats m" "ride_of m 2 = Some 3"
    using boats_afloat entity_history_reachable by blast
  obtain e where e: "new_manager boats 0x2602 2 = Inr e" by (simp add: new_manager_def guardR_def)
  then have "new_manager (entity_types m) 0x2602 2 = Inr e" using m(2) by (simp add: all_boats_def)
  then show ?thesis using snapshots_restore [OF m(1)] boats_fit [OF m(2)] m(3) e by blast
qed

end
