(* ===== verification/Ai_Goals.thy ===== *)
theory Ai_Goals
  imports Ai Entity_Facts
begin

text \<open>
  The goals of mobs (src/entity/ai.cpp): those that run together use different
  controls, and what they do to entities are calls on single entities.
\<close>

section \<open>Goals that run together\<close>

definition shape :: "goal \<Rightarrow> u32 \<times> u8" where
  "shape g = (goal_priority g, goal_controls g)"

text \<open>Goals of one mob never use the same control at a time.\<close>

definition exclusive :: "goal list \<Rightarrow> bool" where
  "exclusive gs = (\<forall>i j. i < j \<longrightarrow> j < length gs \<longrightarrow> goal_running (gs ! i) \<longrightarrow> goal_running (gs ! j) \<longrightarrow>
     \<not> controls_overlap (goal_controls (gs ! i)) (goal_controls (gs ! j)))"

definition goals_ok :: "goal list \<Rightarrow> bool" where
  "goals_ok gs = (exclusive gs \<and> sorted (map goal_priority gs))"

lemma controls_overlap_sym: "controls_overlap a b = controls_overlap b a"
  by (simp add: controls_overlap_def and.commute)

lemma exclusiveD:
  assumes "exclusive gs" "i < length gs" "j < length gs" "i \<noteq> j" "goal_running (gs ! i)" "goal_running (gs ! j)"
  shows "\<not> controls_overlap (goal_controls (gs ! i)) (goal_controls (gs ! j))"
proof (cases "i < j")
  case True
  then show ?thesis using assms unfolding exclusive_def by blast
next
  case False
  then have "j < i" using assms by simp
  then show ?thesis using assms controls_overlap_sym unfolding exclusive_def by blast
qed

text \<open>Goals that only stopped: the shapes stay, and what still runs did not change.\<close>

definition calmer :: "goal \<Rightarrow> goal \<Rightarrow> bool" where
  "calmer g h = (shape h = shape g \<and> (goal_running h \<longrightarrow> goal_running g))"

lemma calmer_refl [simp]: "calmer g g"
  by (simp add: calmer_def)

lemma calmer_ok:
  assumes "list_all2 calmer gs hs" and "goals_ok gs"
  shows "goals_ok hs"
proof -
  have nth: "calmer (gs ! n) (hs ! n)" if "n < length hs" for n
    using assms(1) that by (simp add: list_all2_conv_all_nth)
  have "map goal_priority hs = map goal_priority gs"
    using nth assms(1) by (auto simp: list_eq_iff_nth_eq calmer_def shape_def list_all2_lengthD)
  moreover have "exclusive hs"
    unfolding exclusive_def
  proof (intro allI impI)
    fix i j assume "i < j" "j < length hs" "goal_running (hs ! i)" "goal_running (hs ! j)"
    then show "\<not> controls_overlap (goal_controls (hs ! i)) (goal_controls (hs ! j))"
      using nth [of i] nth [of j] assms list_all2_lengthD [OF assms(1)]
      by (simp add: goals_ok_def exclusive_def calmer_def shape_def)
  qed
  ultimately show ?thesis using assms(2) by (simp add: goals_ok_def)
qed

lemma stop_goal_calmer: "stop_goal i g m b = (h, m', b') \<Longrightarrow> calmer g h \<and> \<not> goal_running h"
  by (auto simp: stop_goal_def calmer_def shape_def split: prod.splits)

lemma stop_goals_calmer: "stop_goals p i gs m b = (hs, m', b') \<Longrightarrow> list_all2 calmer gs hs"
  by (induction p i gs m b arbitrary: hs m' b' rule: stop_goals.induct)
    (auto simp: Let_def dest!: stop_goal_calmer split: prod.splits if_splits)

definition settled :: "(goal \<Rightarrow> bool) \<Rightarrow> goal \<Rightarrow> goal \<Rightarrow> bool" where
  "settled q g h = (if q g then calmer g h \<and> \<not> goal_running h else h = g)"

lemma stop_goals_settled:
  "stop_goals (\<lambda>g _ _. q g) i gs m b = (hs, m', b') \<Longrightarrow> list_all2 (settled q) gs hs"
proof (induction gs arbitrary: m b hs m' b')
  case (Cons g gs)
  obtain h n c where h: "(if q g then stop_goal i g m b else (g, m, b)) = (h, n, c)"
    by (cases "if q g then stop_goal i g m b else (g, m, b)") auto
  obtain ks n' c' where ks: "stop_goals (\<lambda>g _ _. q g) i gs n c = (ks, n', c')"
    by (cases "stop_goals (\<lambda>g _ _. q g) i gs n c") auto
  have "hs = h # ks" using Cons.prems h ks by (simp add: Let_def)
  moreover have "settled q g h" using h by (auto simp: settled_def dest: stop_goal_calmer split: if_splits)
  ultimately show ?case using Cons.IH [OF ks] by simp
qed simp

lemma consider_ok:
  assumes ok: "goals_ok gs" and "n < length gs" and "consider_goal i n (gs, m, b) = (hs, m', b')"
  shows "goals_ok hs \<and> length hs = length gs"
proof -
  let ?g = "gs ! n"
  consider (same) "hs = gs"
    | (stop) "list_all2 (settled (in_conflict ?g)) gs hs"
    | (start) ks e where "\<not> goal_running ?g" "list_all2 (settled (in_conflict ?g)) gs ks"
        "hs = ks[n := ?g\<lparr>goal_kind := goal_start (goal_kind ?g) e, goal_running := True\<rparr>]"
  proof (cases "goal_running ?g")
    case True
    then show thesis using assms(3) that(1) by (simp add: consider_goal_def)
  next
    case False
    show thesis
    proof (cases "find_entity m i")
      case None
      then show thesis using assms(3) False that(1) by (simp add: consider_goal_def Let_def)
    next
      case (Some e)
      obtain st c where st: "can_start (goal_kind ?g) e m b = (st, c)" by fastforce
      obtain ks m1 c1 where ks: "stop_goals (\<lambda>active _ _. in_conflict ?g active) i gs m c = (ks, m1, c1)"
        by (cases "stop_goals (\<lambda>active _ _. in_conflict ?g active) i gs m c") auto
      note set = stop_goals_settled [OF ks]
      show thesis
      proof (cases "\<not> st \<or> is_blocked ?g gs")
        case True
        then have "hs = gs" using assms(3) False Some st by (simp add: consider_goal_def Let_def)
        then show thesis by (rule that(1))
      next
        case go: False
        show thesis
        proof (cases "find_entity m1 i")
          case None
          then have "hs = ks" using assms(3) False Some st ks go by (simp add: consider_goal_def Let_def)
          then show thesis using set that(2) by simp
        next
          case (Some f)
          then have "hs = ks[n := ?g\<lparr>goal_kind := goal_start (goal_kind ?g) f, goal_running := True\<rparr>]"
            using assms(3) False \<open>find_entity m i = Some e\<close> st ks go by (simp add: consider_goal_def Let_def)
          then show thesis using set False that(3) by blast
        qed
      qed
    qed
  qed
  then show ?thesis
  proof cases
    case same
    then show ?thesis using ok by simp
  next
    case stop
    then have "list_all2 calmer gs hs"
      by (rule list_all2_mono) (simp add: settled_def split: if_splits)
    then show ?thesis using calmer_ok [OF _ ok] by (auto dest: list_all2_lengthD)
  next
    case start
    have len: "length ks = length gs" using start(2) by (simp add: list_all2_lengthD)
    have nth: "settled (in_conflict ?g) (gs ! j) (ks ! j)"
      if "j < length gs" for j using start(2) that by (simp add: list_all2_conv_all_nth)
    have calm: "calmer (gs ! j) (ks ! j)" if "j < length gs" for j using nth [OF that] by (auto simp: settled_def split: if_splits)
    have "goals_ok ks" using calmer_ok [OF _ ok] calm len by (simp add: list_all2_conv_all_nth)
    moreover have free: "\<not> controls_overlap (goal_controls (ks ! j)) (goal_controls ?g)"
      if "j < length gs" "goal_running (ks ! j)" for j
      using nth [OF that(1)] that(2) by (auto simp: settled_def in_conflict_def split: if_splits)
    moreover have "map goal_priority hs = map goal_priority ks"
      using start(3) calm len assms(2)
      by (auto simp: list_eq_iff_nth_eq nth_list_update calmer_def shape_def)
    moreover have "exclusive hs" unfolding exclusive_def
    proof (intro allI impI)
      fix j k assume jk: "j < k" "k < length hs" "goal_running (hs ! j)" "goal_running (hs ! k)"
      then show "\<not> controls_overlap (goal_controls (hs ! j)) (goal_controls (hs ! k))"
        using free [of j] free [of k] exclusiveD [of ks j k] \<open>goals_ok ks\<close> start(3) len
        by (cases "j = n"; cases "k = n")
          (simp_all add: goals_ok_def controls_overlap_sym [of "goal_controls ?g"])
    qed
    ultimately show ?thesis using len start(3) by (simp add: goals_ok_def)
  qed
qed

lemma consider_all_ok:
  "\<forall>n \<in> set ns. n < length gs \<Longrightarrow> goals_ok gs \<Longrightarrow> fold (consider_goal i) ns (gs, m, b) = (hs, m', b') \<Longrightarrow>
   goals_ok hs"
proof (induction ns arbitrary: gs m b)
  case (Cons n ns)
  obtain ks k c where k: "consider_goal i n (gs, m, b) = (ks, k, c)" by (cases "consider_goal i n (gs, m, b)") auto
  have "goals_ok ks \<and> length ks = length gs" by (rule consider_ok [OF _ _ k]) (use Cons.prems in auto)
  then show ?case using Cons.IH [of ks k c] Cons.prems k by simp
qed simp

definition tick_goal ::
  "(f64 \<Rightarrow> f64 \<Rightarrow> f64) \<Rightarrow> (f64 \<Rightarrow> f64 \<Rightarrow> f64) \<Rightarrow> entity_id \<Rightarrow> brain \<Rightarrow> goal \<Rightarrow> entity_manager \<Rightarrow>
   (goal \<times> entity_manager) result" where
  "tick_goal atan2 hypot i b g m = (case find_entity m i of
     Some e \<Rightarrow> if goal_running g
       then bindR (goal_tick atan2 hypot (goal_kind g) i e m b) (\<lambda>(k, m). Inr (g\<lparr>goal_kind := k\<rparr>, m))
       else Inr (g, m)
   | None \<Rightarrow> Inr (g, m))"

lemma tick_goals_step:
  "tick_goals atan2 hypot i b (g # gs) m = bindR (tick_goal atan2 hypot i b g m) (\<lambda>(g, m).
     bindR (tick_goals atan2 hypot i b gs m) (\<lambda>(gs, m). Inr (g # gs, m)))"
  by (simp add: tick_goal_def)

lemma tick_goal_calmer: "tick_goal atan2 hypot i b g m = Inr (h, m') \<Longrightarrow> calmer g h"
  unfolding tick_goal_def
  by (cases "find_entity m i"; cases "goal_running g") (auto simp: bindR_Inr_iff calmer_def shape_def)

lemma tick_goals_calmer: "tick_goals atan2 hypot i b gs m = Inr (hs, m') \<Longrightarrow> list_all2 calmer gs hs"
proof (induction gs arbitrary: m hs m')
  case (Cons g gs)
  then obtain h n ks where "tick_goal atan2 hypot i b g m = Inr (h, n)" "hs = h # ks"
    "tick_goals atan2 hypot i b gs n = Inr (ks, m')"
    by (auto simp: tick_goals_step bindR_Inr_iff simp del: tick_goals.simps)
  then show ?case using Cons.IH by (simp add: tick_goal_calmer)
qed simp

lemma selector_tick_ok:
  assumes "goals_ok gs" and "selector_tick atan2 hypot i gs m b = Inr (hs, m', b')"
  shows "goals_ok hs"
proof -
  obtain gs1 m1 b1 where 1: "stop_goals (finished i) i gs m b = (gs1, m1, b1)"
    by (cases "stop_goals (finished i) i gs m b") auto
  obtain gs2 m2 b2 where 2: "fold (consider_goal i) [0..<length gs1] (gs1, m1, b1) = (gs2, m2, b2)"
    by (cases "fold (consider_goal i) [0..<length gs1] (gs1, m1, b1)") auto
  have "goals_ok gs1" by (rule calmer_ok [OF stop_goals_calmer [OF 1] assms(1)])
  then have ok2: "goals_ok gs2" by (rule consider_all_ok [OF _ _ 2, rotated]) simp
  have "selector_tick atan2 hypot i gs m b =
      bindR (tick_goals atan2 hypot i b2 gs2 m2) (\<lambda>(gs, m). Inr (gs, m, b2))"
    by (simp only: selector_tick_def 1 2 Let_def prod.case)
  then have "bindR (tick_goals atan2 hypot i b2 gs2 m2) (\<lambda>(gs, m). Inr (gs, m, b2)) = Inr (hs, m', b')"
    using assms(2) by simp
  then obtain m3 where m3: "tick_goals atan2 hypot i b2 gs2 m2 = Inr (hs, m3)"
    by (auto simp: bindR_Inr_iff)
  show ?thesis by (rule calmer_ok [OF tick_goals_calmer [OF m3] ok2])
qed

lemma idle_ok: "\<forall>g \<in> set gs. \<not> goal_running g \<Longrightarrow> sorted (map goal_priority gs) \<Longrightarrow> goals_ok gs"
  by (simp add: goals_ok_def exclusive_def)

lemma add_goals_idle:
  "add_goals rs gs = (r, hs) \<Longrightarrow> \<forall>g \<in> set gs. \<not> goal_running g \<Longrightarrow> \<forall>g. Inr g \<in> set rs \<longrightarrow> \<not> goal_running g \<Longrightarrow>
   sorted (map goal_priority gs) \<Longrightarrow> (\<forall>g \<in> set hs. \<not> goal_running g) \<and> sorted (map goal_priority hs)"
proof (induction rs gs rule: add_goals.induct)
  case (2 q rs gs)
  then show ?case by (cases q) (auto simp: add_goal_def)
qed simp

lemma new_goal_idle: "\<not> goal_running (new_goal p c k)"
  by (simp add: new_goal_def)

lemma goals_of_type_idle:
  assumes "Inr g \<in> set (goals_of_type p seed)"
  shows "\<not> goal_running g"
proof -
  have "\<exists>p c k. g = new_goal p c k"
    using assms unfolding goals_of_type_def Let_def
    by (auto simp del: One_nat_def simp: new_wander_def new_melee_attack_def new_panic_def new_owner_follow_def
        new_tempt_def new_flock_def guardR_Inr_iff eq_commute [of "Inr g"] split: if_splits)
  then show ?thesis using new_goal_idle by blast
qed

section \<open>What the minds do to the entities\<close>

text \<open>Several calls on one entity are as many steps of the manager.\<close>

lemma on_entity_twice: "on_entity i f (on_entity i g m) = on_entity i (\<lambda>e. f (g e)) m"
  by (simp add: on_entity_def comp_def split_def)

lemma on_entity_const:
  assumes "manager_ok X m" "find_entity m i = Some e"
  shows "on_entity i f m = on_entity i (\<lambda>_. f e) m"
proof -
  have "(\<lambda>(k, x). (k, if k = i then f x else x)) y = (\<lambda>(k, x). (k, if k = i then f e else x)) y"
    if y: "y \<in> set (entities m)" for y
  proof -
    obtain k x where kx: "y = (k, x)" by (cases y)
    have "find_entity m k = Some x" using manager_entries [OF assms(1)] y kx by blast
    then show ?thesis using assms(2) kx by auto
  qed
  then have "map (\<lambda>(k, x). (k, if k = i then f x else x)) (entities m) =
      map (\<lambda>(k, x). (k, if k = i then f e else x)) (entities m)" by (rule map_cong [OF refl])
  then show ?thesis by (simp add: on_entity_def)
qed

lemma on_entity_absent: "find_entity m i = None \<Longrightarrow> on_entity i f m = m"
proof -
  assume "find_entity m i = None"
  then have "i \<notin> fst ` set (entities m)" by (simp add: find_entity_def map_of_eq_None_iff)
  then have "map (\<lambda>(k, e). (k, if k = i then f e else e)) (entities m) = entities m"
    by (intro map_idI) (force split: prod.splits)
  then show ?thesis by (simp add: on_entity_def)
qed

lemma present_on_entity: "present (on_entity i f m) = present m"
  by (auto simp: present_def find_on_entity)

lemma acted_many:
  assumes "entity_history pow X m" "find_entity m i = Some e" and "entity_action\<^sup>*\<^sup>* e (f e)"
  shows "entity_history pow X (on_entity i f m)"
proof -
  have ok: "manager_ok X m" by (rule entity_history_ok [OF assms(1)])
  have "entity_history pow X (on_entity i (\<lambda>_. g) m)" if "entity_action\<^sup>*\<^sup>* e g" for g
    using that
  proof (induction rule: rtranclp_induct)
    case base
    have "on_entity i (\<lambda>_. e) m = on_entity i (\<lambda>x. x) m"
      using on_entity_const [OF ok assms(2), of "\<lambda>x. x"] by simp
    also have "\<dots> = m" by (simp add: on_entity_def)
    finally show ?case using assms(1) by simp
  next
    case (step g h)
    let ?m = "on_entity i (\<lambda>_. g) m"
    have "find_entity ?m i = Some g" using assms(2) by (simp add: find_on_entity)
    then have "entity_history pow X (on_entity i (\<lambda>_. h) ?m)"
      using continued [OF step(3) acted [OF _ step(2)]] by (simp add: present_on_entity)
    then show ?case by (simp add: on_entity_twice)
  qed
  then show ?thesis using on_entity_const [OF ok assms(2), of f] assms(3) by simp
qed

lemma acted_once:
  assumes "entity_history pow X m" and "\<And>e. entity_action e (f e)"
  shows "entity_history pow X (on_entity i f m)"
  using assms by (cases "find_entity m i") (auto simp: on_entity_absent intro: acted_many)

lemma accelerated_by: "entity_action e (e\<lparr>velocity := f (velocity e)\<rparr>)"
  by (rule accelerated)

lemma halted_action: "entity_action e (halted e)"
  unfolding halted_def by (rule accelerated)

lemma chase_reachable:
  assumes "entity_history pow X m" and "chase turn delta len speed i e m = Inr n"
    and "\<And>v e. turn v e = e \<or> (\<exists>y p. turn v e = set_rotation y p e)"
  shows "entity_history pow X n"
proof -
  obtain v where n: "n = on_entity i (\<lambda>e. turn v (e\<lparr>velocity := v\<rparr>)) m"
    using assms(2) by (auto simp: chase_def bindR_Inr_iff Let_def)
  have moving: "entity_history pow X (on_entity i (\<lambda>e. e\<lparr>velocity := v\<rparr>) m)"
    using assms(1) by (rule acted_once) (rule accelerated)
  have "n = on_entity i (turn v) (on_entity i (\<lambda>e. e\<lparr>velocity := v\<rparr>) m)" by (simp add: n on_entity_twice)
  moreover have "entity_action\<^sup>*\<^sup>* e (turn v e)" for e
    using assms(3) [of v e] turned by (metis r_into_rtranclp rtranclp.rtrancl_refl)
  ultimately show ?thesis
    using moving by (cases "find_entity (on_entity i (\<lambda>e. e\<lparr>velocity := v\<rparr>) m) i")
      (auto simp: on_entity_absent intro: acted_many)
qed

lemma melee_strike_reachable:
  assumes "entity_history pow X m" and "melee_strike dmg i t m = Inr n"
  shows "entity_history pow X n"
proof (cases "find_entity m i = None \<or> find_entity m t = None \<or> Option.bind (find_entity m t) living_part = None")
  case True
  then have "n = m" using assms(2)
    by (cases "find_entity m i"; cases "find_entity m t") (auto simp: melee_strike_def on_living_def)
  then show ?thesis using assms(1) by simp
next
  case False
  then obtain e v l where here: "find_entity m i = Some e" "find_entity m t = Some v" "living_part v = Some l" by auto
  obtain hit w where w: "damage_living dmg \<lparr>damage_kind = Melee, attacker = Some (entity_key e),
      bypasses_invulnerability = False, bypasses_armor = False\<rparr> v l = Inr (hit, w)"
    and rest: "(if hit then on_living (\<lambda>l victim.
         bindR (knockback (position e) (f64_ratio 4 10) victim l) (\<lambda>(_, victim).
           Inr (on_entity t (\<lambda>_. victim) m))) (Inr (on_entity t (\<lambda>_. w) m)) w
       else Inr (on_entity t (\<lambda>_. w) m)) = Inr n"
    using assms(2) here unfolding melee_strike_def by (auto simp: on_living_def bindR_Inr_iff)
  have hurt: "entity_action v w" by (rule entity_action.hurt [OF here(3) w])
  have "\<exists>x. n = on_entity t (\<lambda>_. x) m \<and> entity_action\<^sup>*\<^sup>* v x"
  proof (cases "hit \<and> living_part w \<noteq> None")
    case True
    then obtain k b x where "living_part w = Some k" "knockback (position e) (f64_ratio 4 10) w k = Inr (b, x)"
      "n = on_entity t (\<lambda>_. x) m"
      using rest by (auto simp: on_living_def bindR_Inr_iff)
    then have "entity_action w x" by (intro pushed)
    then have "entity_action\<^sup>*\<^sup>* v x"
      using hurt by (blast intro: converse_rtranclp_into_rtranclp r_into_rtranclp)
    then show ?thesis using \<open>n = on_entity t (\<lambda>_. x) m\<close> by blast
  next
    case False
    then have "n = on_entity t (\<lambda>_. w) m" using rest by (auto simp: on_living_def split: if_splits option.splits)
    then show ?thesis using hurt by blast
  qed
  then obtain x where n: "n = on_entity t (\<lambda>_. x) m" and x: "entity_action\<^sup>*\<^sup>* v x" by blast
  show ?thesis unfolding n by (rule acted_many [OF assms(1) here(2) x])
qed

lemma turned_to_rotation: "\<exists>y p. turned_to atan2 v e = set_rotation y p e"
  by (auto simp: turned_to_def)

lemma chase_if_reachable:
  assumes "entity_history pow X m"
    and "(if c then chase turn d len speed i e m else Inr m) = Inr n \<or>
      (if c then Inr m else chase turn d len speed i e m) = Inr n"
    and "\<And>v e. turn v e = e \<or> (\<exists>y p. turn v e = set_rotation y p e)"
  shows "entity_history pow X n"
  using assms chase_reachable [OF assms(1) _ assms(3)] by (auto split: if_splits)

lemma melee_tick_reachable:
  assumes "entity_history pow X m" and "melee_tick atan2 dmg speed cooldown i e m b = Inr (c, n)"
  shows "entity_history pow X n"
proof (cases "melee_target m b")
  case None
  then show ?thesis using assms by (simp add: melee_tick_def)
next
  case (Some x)
  obtain t v l where x: "x = (t, v, l)" by (cases x)
  let ?d = "vec_sub (position v) (position e)"
  obtain u where u: "(if f64_less tiny (horizontal ?d)
      then chase (\<lambda>_. turned_to atan2 ?d) ?d (horizontal ?d) speed i e m else Inr m) = Inr u"
    and n: "n = u \<or> melee_strike dmg i t u = Inr n"
    using assms(2) Some x
    by (simp only: melee_tick_def option.case prod.case Let_def bindR_Inr_iff)
      (auto simp: bindR_Inr_iff split: if_split_asm)
  have "entity_history pow X u"
    by (rule chase_if_reachable [OF assms(1) disjI1 [OF u]]) (use turned_to_rotation in blast)
  then show ?thesis using n melee_strike_reachable by blast
qed

lemma panic_tick_reachable:
  assumes "entity_history pow X m" and "panic_tick atan2 speed left i e m b = Inr (c, n)"
  shows "entity_history pow X n"
proof (cases "memory_vec b Last_Seen_Position")
  case None
  then show ?thesis using assms by (simp add: panic_tick_def)
next
  case (Some p)
  let ?d = "vec_sub (position e) p"
  have "(if f64_less tiny (horizontal ?d)
      then chase (turned_to atan2) ?d (horizontal ?d) speed i e m else Inr m) = Inr n"
    using assms(2) Some
    by (simp only: panic_tick_def option.case Let_def bindR_Inr_iff) (auto split: if_split_asm)
  then show ?thesis
    by (rule chase_if_reachable [OF assms(1) disjI1]) (auto simp: turned_to_def)
qed

lemma pull_ticks_reachable:
  assumes m: "entity_history pow X m"
  shows "flock_tick speed i e m b = Inr n \<Longrightarrow> entity_history pow X n"
    and "tempt_tick speed i e m b = Inr n \<Longrightarrow> entity_history pow X n"
    and "owner_tick atan2 hypot speed i e m b = Inr n \<Longrightarrow> entity_history pow X n"
proof -
  show "flock_tick speed i e m b = Inr n \<Longrightarrow> entity_history pow X n"
    using m by (cases "flock_leader m b e") (auto simp: flock_tick_def Let_def
      intro: chase_if_reachable [OF m disjI2])
  show "tempt_tick speed i e m b = Inr n \<Longrightarrow> entity_history pow X n"
    using m by (cases "memory_vec b Tempted") (auto simp: tempt_tick_def Let_def
      intro: chase_if_reachable [OF m disjI2])
  show "owner_tick atan2 hypot speed i e m b = Inr n \<Longrightarrow> entity_history pow X n"
    using m turned_to_rotation by (cases "memory_vec b Owner_Position") (auto simp: owner_tick_def Let_def
      intro: chase_if_reachable [OF m disjI2])
qed

lemma wander_tick_reachable:
  "entity_history pow X m \<Longrightarrow> wander_tick d i e m = Inr n \<Longrightarrow> entity_history pow X n"
  by (auto simp: wander_tick_def bindR_Inr_iff intro: acted_once accelerated_by)

lemma goal_tick_reachable:
  assumes "entity_history pow X m" and "goal_tick atan2 hypot k i e m b = Inr (k', n)"
  shows "entity_history pow X n"
  using assms melee_tick_reachable [OF assms(1)] panic_tick_reachable [OF assms(1)]
    pull_ticks_reachable [OF assms(1)] wander_tick_reachable [OF assms(1)]
  by (cases k) (auto simp: goal_tick_def bindR_Inr_iff)

lemma stop_goal_reachable: "entity_history pow X m \<Longrightarrow> stop_goal i g m b = (h, n, c) \<Longrightarrow> entity_history pow X n"
proof -
  assume m: "entity_history pow X m" and "stop_goal i g m b = (h, n, c)"
  then have "n = on_entity i halted m"
    by (cases "goal_kind g") (auto simp: stop_goal_def goal_stop_def Let_def)
  then show ?thesis using acted_once [OF m halted_action] by simp
qed

lemma stop_goals_reachable:
  "entity_history pow X m \<Longrightarrow> stop_goals p i gs m b = (hs, n, c) \<Longrightarrow> entity_history pow X n"
proof (induction gs arbitrary: m b hs)
  case (Cons g gs)
  obtain h u d where h: "(if p g m b then stop_goal i g m b else (g, m, b)) = (h, u, d)"
    by (cases "if p g m b then stop_goal i g m b else (g, m, b)") auto
  obtain ks n' c' where ks: "stop_goals p i gs u d = (ks, n', c')" by (cases "stop_goals p i gs u d") auto
  have "entity_history pow X u" using h Cons.prems(1) stop_goal_reachable by (auto split: if_splits)
  moreover have "stop_goals p i gs u d = (ks, n, c)" using Cons.prems(2) h ks by (simp add: Let_def)
  ultimately show ?case by (rule Cons.IH)
qed simp

lemma consider_reachable:
  assumes "entity_history pow X m" and "consider_goal i k (gs, m, b) = (hs, n, c)"
  shows "entity_history pow X n"
proof (cases "find_entity m i")
  case None
  then show ?thesis using assms by (auto simp: consider_goal_def Let_def split: if_splits)
next
  case (Some e)
  obtain st d where st: "can_start (goal_kind (gs ! k)) e m b = (st, d)" by fastforce
  obtain ks u f where ks: "stop_goals (\<lambda>active _ _. in_conflict (gs ! k) active) i gs m d = (ks, u, f)"
    by (cases "stop_goals (\<lambda>active _ _. in_conflict (gs ! k) active) i gs m d") auto
  have "n = m \<or> n = u"
    using assms(2) Some st ks by (auto simp: consider_goal_def Let_def split: if_splits option.splits)
  then show ?thesis using assms(1) stop_goals_reachable [OF assms(1) ks] by blast
qed

lemma consider_all_reachable:
  "entity_history pow X m \<Longrightarrow> fold (consider_goal i) ns (gs, m, b) = (hs, n, c) \<Longrightarrow> entity_history pow X n"
proof (induction ns arbitrary: gs m b)
  case (Cons k ns)
  obtain ks u d where k: "consider_goal i k (gs, m, b) = (ks, u, d)" by (cases "consider_goal i k (gs, m, b)") auto
  show ?case by (rule Cons.IH [OF consider_reachable [OF Cons.prems(1) k]]) (use Cons.prems k in simp)
qed simp

lemma tick_goals_reachable:
  "entity_history pow X m \<Longrightarrow> tick_goals atan2 hypot i b gs m = Inr (hs, n) \<Longrightarrow> entity_history pow X n"
proof (induction gs arbitrary: m hs)
  case (Cons g gs)
  obtain h u ks where u: "tick_goal atan2 hypot i b g m = Inr (h, u)" "tick_goals atan2 hypot i b gs u = Inr (ks, n)"
    using Cons.prems(2) by (auto simp: tick_goals_step bindR_Inr_iff simp del: tick_goals.simps)
  have "entity_history pow X u"
    using u(1) Cons.prems(1) goal_tick_reachable unfolding tick_goal_def
    by (cases "find_entity m i"; cases "goal_running g") (auto simp: bindR_Inr_iff)
  then show ?case using Cons.IH u(2) by blast
qed simp

lemma selector_tick_reachable:
  assumes "entity_history pow X m" and "selector_tick atan2 hypot i gs m b = Inr (hs, n, c)"
  shows "entity_history pow X n"
proof -
  obtain gs1 m1 b1 where 1: "stop_goals (finished i) i gs m b = (gs1, m1, b1)"
    by (cases "stop_goals (finished i) i gs m b") auto
  obtain gs2 m2 b2 where 2: "fold (consider_goal i) [0..<length gs1] (gs1, m1, b1) = (gs2, m2, b2)"
    by (cases "fold (consider_goal i) [0..<length gs1] (gs1, m1, b1)") auto
  have "selector_tick atan2 hypot i gs m b =
      bindR (tick_goals atan2 hypot i b2 gs2 m2) (\<lambda>(gs, m). Inr (gs, m, b2))"
    by (simp only: selector_tick_def 1 2 Let_def prod.case)
  then have "bindR (tick_goals atan2 hypot i b2 gs2 m2) (\<lambda>(gs, m). Inr (gs, m, b2)) = Inr (hs, n, c)"
    using assms(2) by simp
  then have "tick_goals atan2 hypot i b2 gs2 m2 = Inr (hs, n)" by (auto simp: bindR_Inr_iff)
  then show ?thesis
    by (rule tick_goals_reachable [OF consider_all_reachable [OF stop_goals_reachable [OF assms(1) 1] 2]])
qed

section \<open>Histories of the system\<close>

definition minds_ok :: "mob_ai \<Rightarrow> bool" where
  "minds_ok ai = (\<forall>x \<in> set (ai_states ai). goals_ok (mind_goals (snd x)))"

inductive ai_step ::
  "(f64 \<Rightarrow> f64 \<Rightarrow> f64) \<Rightarrow> (f64 \<Rightarrow> f64 \<Rightarrow> f64) \<Rightarrow> (f64 \<Rightarrow> f64 \<Rightarrow> f64) \<Rightarrow>
   entity_manager \<times> mob_ai \<Rightarrow> entity_manager \<times> mob_ai \<Rightarrow> bool" for pow atan2 hypot where
  attached: "ai_step pow atan2 hypot (m, ai) (m, snd (attach i m ai))"
| targeted: "ai_step pow atan2 hypot (m, ai) (m, snd (set_target i t m ai))"
| notified: "ai_step pow atan2 hypot (m, ai) (m, snd (notify_damage i threat m ai))"
| tempted_by: "ai_step pow atan2 hypot (m, ai) (m, snd (tempt i p m ai))"
| owned: "ai_step pow atan2 hypot (m, ai) (m, snd (follow_owner i p m ai))"
| suspended_as: "set_suspended i on m ai = (b, n, ai') \<Longrightarrow> ai_step pow atan2 hypot (m, ai) (n, ai')"
| thought: "ai_tick atan2 hypot m ai = Inr (n, ai') \<Longrightarrow> ai_step pow atan2 hypot (m, ai) (n, ai')"
| steered: "find_entity m i = Some e \<Longrightarrow> steer path speed e = (b, f) \<Longrightarrow>
    ai_step pow atan2 hypot (m, ai) (on_entity i (\<lambda>_. f) m, ai)"

text \<open>A history of mobs: what the minds do, and in between whatever else happens to the entities.\<close>

inductive ai_reachable ::
  "(f64 \<Rightarrow> f64 \<Rightarrow> f64) \<Rightarrow> (f64 \<Rightarrow> f64 \<Rightarrow> f64) \<Rightarrow> (f64 \<Rightarrow> f64 \<Rightarrow> f64) \<Rightarrow> entity_id set \<Rightarrow> entity_manager \<times> mob_ai \<Rightarrow> bool"
  for pow atan2 hypot where
  ai_created: "new_manager types seed first = Inr m \<Longrightarrow> ai_reachable pow atan2 hypot {} (m, new_mob_ai key)"
| world_step: "ai_reachable pow atan2 hypot X (m, ai) \<Longrightarrow> entity_step pow m n \<Longrightarrow>
    ai_reachable pow atan2 hypot (X \<union> reused m n) (n, ai)"
| ai_stepped: "ai_reachable pow atan2 hypot X x \<Longrightarrow> ai_step pow atan2 hypot x y \<Longrightarrow> ai_reachable pow atan2 hypot X y"

lemma on_mind_ok: "minds_ok ai \<Longrightarrow> (\<And>s. goals_ok (mind_goals s) \<Longrightarrow> goals_ok (mind_goals (f s))) \<Longrightarrow> minds_ok (on_mind i f ai)"
  by (auto simp: minds_ok_def on_mind_def)

lemma remember_goals [simp]: "mind_goals (remember ms s) = mind_goals s"
  by (simp add: remember_def)

lemma mind_of_ok: "minds_ok ai \<Longrightarrow> mind_of ai i = Some s \<Longrightarrow> goals_ok (mind_goals s)"
  unfolding minds_ok_def mind_of_def by (metis map_of_SomeD snd_conv)

lemma alarm_goals: "mind_goals (alarm m i s) = mind_goals s"
  by (auto simp: alarm_def on_living_def split: option.splits)

lemma attach_ok: "minds_ok ai \<Longrightarrow> minds_ok (snd (attach i m ai))"
proof (cases "\<exists>e. find_entity m i = Some e \<and> living_part e \<noteq> None \<and> mind_of ai i = None")
  case True
  assume ok: "minds_ok ai"
  obtain e where e: "find_entity m i = Some e" "living_part e \<noteq> None" "mind_of ai i = None" using True by blast
  obtain r gs where gs: "add_goals (goals_of_type (entity_properties e) (ai_seed ai XOR ucast i)) [] = (r, gs)"
    by fastforce
  have idle: "(\<forall>g \<in> set gs. \<not> goal_running g) \<and> sorted (map goal_priority gs)"
    by (rule add_goals_idle [OF gs]) (use goals_of_type_idle in auto)
  let ?s = "\<lparr>mind_brain = Map.empty, mind_goals = gs, suspended = False\<rparr>"
  have "ai_states (snd (attach i m ai)) = put_key (\<lambda>a b. a < b) i ?s (ai_states ai)"
    using e gs by (auto simp: attach_def)
  moreover have "goals_ok gs" using idle idle_ok by blast
  ultimately show ?thesis
    using ok set_put_key [of "\<lambda>a b. a < b" i ?s "ai_states ai"] by (fastforce simp: minds_ok_def)
qed (auto simp: attach_def split: option.splits)

lemma suspend_ok:
  assumes "entity_history pow X m" "minds_ok ai" and "set_suspended i on m ai = (b, n, ai')"
  shows "entity_history pow X n \<and> minds_ok ai'"
proof (cases "\<exists>s. mind_of ai i = Some s \<and> find_entity m i \<noteq> None \<and> on")
  case True
  then obtain s where s: "mind_of ai i = Some s" "find_entity m i \<noteq> None" on by blast
  obtain gs u c where stop: "stop_all i (mind_goals s) m (mind_brain s) = (gs, u, c)"
    by (cases "stop_all i (mind_goals s) m (mind_brain s)") auto
  have n: "n = on_entity i (\<lambda>e. e\<lparr>velocity := vec3 0 0 0\<rparr>) u"
    "ai' = on_mind i (\<lambda>s. s\<lparr>suspended := True, mind_goals := gs, mind_brain := c\<rparr>) ai"
    using assms(3) s stop by (auto simp: set_suspended_def)
  have "goals_ok gs"
    using calmer_ok [OF stop_goals_calmer mind_of_ok [OF assms(2) s(1)]] stop by (simp add: stop_all_def)
  then have "minds_ok ai'" unfolding n(2) by (intro on_mind_ok [OF assms(2)]) simp
  moreover have "entity_history pow X u"
    using stop stop_goals_reachable [OF assms(1)] by (simp add: stop_all_def)
  then have "entity_history pow X n" unfolding n(1) by (rule acted_once) (rule accelerated)
  ultimately show ?thesis by simp
next
  case False
  then have "n = m" "ai' = ai \<or> ai' = on_mind i (\<lambda>s. s\<lparr>suspended := False\<rparr>) ai"
    using assms(3) by (auto simp: set_suspended_def split: option.splits if_splits)
  moreover have "minds_ok (on_mind i (\<lambda>s. s\<lparr>suspended := False\<rparr>) ai)" by (rule on_mind_ok [OF assms(2)]) simp
  ultimately show ?thesis using assms by auto
qed

lemma tick_minds_ok:
  "entity_history pow X m \<Longrightarrow> \<forall>x \<in> set ss. goals_ok (mind_goals (snd x)) \<Longrightarrow>
   tick_minds atan2 hypot ss m = Inr (ts, n) \<Longrightarrow>
   entity_history pow X n \<and> (\<forall>x \<in> set ts. goals_ok (mind_goals (snd x)))"
proof (induction ss arbitrary: m ts)
  case (Cons x ss)
  obtain i s where x: "x = (i, s)" by (cases x)
  show ?case
  proof (cases "case find_entity m i of None \<Rightarrow> True | Some e \<Rightarrow> removed e")
    case True
    then show ?thesis using Cons.IH [of m ts] Cons.prems x by simp
  next
    case False
    obtain t u us where t: "(if suspended s then Inr (s, m)
        else bindR (selector_tick atan2 hypot i (mind_goals s) m (mind_brain s)) (\<lambda>(gs, m, b).
          Inr (s\<lparr>mind_goals := gs, mind_brain := b\<rparr>, m))) = Inr (t, u)"
      and us: "tick_minds atan2 hypot ss u = Inr (us, n)" "ts = (i, t) # us"
      using Cons.prems(3) False unfolding x tick_minds.simps if_not_P [OF False]
      by (auto simp only: bindR_Inr_iff prod.case split: prod.splits) auto
    have "entity_history pow X u \<and> goals_ok (mind_goals t)"
    proof (cases "suspended s")
      case True
      then show ?thesis using t Cons.prems x by simp
    next
      case False
      then obtain gs b where g: "selector_tick atan2 hypot i (mind_goals s) m (mind_brain s) = Inr (gs, u, b)"
        "t = s\<lparr>mind_goals := gs, mind_brain := b\<rparr>"
        using t by (auto simp: bindR_Inr_iff)
      show ?thesis
        using selector_tick_reachable [OF Cons.prems(1) g(1)] selector_tick_ok [OF _ g(1)] Cons.prems(2) g(2) x
        by simp
    qed
    then show ?thesis using Cons.IH [OF _ _ us(1)] Cons.prems(2) us(2) by auto
  qed
qed simp

lemma ai_tick_ok:
  assumes "entity_history pow X m" "minds_ok ai" and "ai_tick atan2 hypot m ai = Inr (n, ai')"
  shows "entity_history pow X n \<and> minds_ok ai'"
proof -
  obtain ts where ts: "tick_minds atan2 hypot (ai_states ai) m = Inr (ts, n)"
    and ai': "ai' = ai\<lparr>ai_states := map (\<lambda>(i, s). (i, alarm n i s)) ts\<rparr>"
    using assms(3) by (auto simp: ai_tick_def bindR_Inr_iff)
  have "entity_history pow X n \<and> (\<forall>x \<in> set ts. goals_ok (mind_goals (snd x)))"
    using tick_minds_ok [OF assms(1) _ ts] assms(2) by (simp add: minds_ok_def)
  then show ?thesis by (simp add: minds_ok_def ai' alarm_goals split_def)
qed

lemma steer_action: "steer path speed e = (b, f) \<Longrightarrow> entity_action\<^sup>*\<^sup>* e f"
  by (auto simp: steer_def Let_def intro: accelerated split: if_splits)

lemma memory_calls_ok:
  assumes "minds_ok ai"
  shows "minds_ok (snd (set_target i t m ai))" "minds_ok (snd (notify_damage i p m ai))"
    "minds_ok (snd (tempt i p m ai))" "minds_ok (snd (follow_owner i p m ai))"
  using assms by (simp_all add: set_target_def notify_damage_def tempt_def follow_owner_def on_mind_ok)

lemma ai_step_ok:
  assumes "ai_step pow atan2 hypot x y" "entity_history pow X (fst x)" "minds_ok (snd x)"
  shows "entity_history pow X (fst y) \<and> minds_ok (snd y)"
  using assms
proof (induction rule: ai_step.induct)
  case (suspended_as i on m ai b n ai')
  have "entity_history pow X n \<and> minds_ok ai'"
    by (rule suspend_ok [OF _ _ suspended_as(1)]) (use suspended_as in simp_all)
  then show ?case by simp
next
  case (thought m ai n ai')
  have "entity_history pow X n \<and> minds_ok ai'"
    by (rule ai_tick_ok [OF _ _ thought(1)]) (use thought in simp_all)
  then show ?case by simp
next
  case (steered m i e path speed b f ai)
  have "entity_history pow X (on_entity i (\<lambda>_. f) m)"
    by (rule acted_many [OF _ steered(1) steer_action [OF steered(2)]]) (use steered in simp)
  then show ?case using steered by simp
qed (simp_all only: fst_conv snd_conv attach_ok memory_calls_ok simp_thms)

lemma ai_reachable_ok:
  "ai_reachable pow atan2 hypot X x \<Longrightarrow> entity_history pow X (fst x) \<and> minds_ok (snd x)"
proof (induction rule: ai_reachable.induct)
  case (ai_created types seed first m key)
  then show ?case using founded [of types seed first m pow] by (simp add: minds_ok_def new_mob_ai_def)
next
  case (world_step X m ai n)
  then show ?case using continued [of pow X m n] by simp
next
  case (ai_stepped X x y)
  then show ?case using ai_step_ok by blast
qed

text \<open>C8. Whatever happens to a world of mobs, the goals that run together in one mob use different
  controls: no two of them steer the same movement or gaze. Goals stay in the order of their priority. And
  all that the minds do to the entities are calls on single entities, so the links between entities remain
  as their own invariant says, with the same exceptions \<open>X\<close> that the rest of the history makes.\<close>

theorem mobs_goals_exclusive:
  assumes "ai_reachable pow atan2 hypot X (m, ai)" and "mind_of ai i = Some s"
  shows "entity_history pow X m \<and> sorted (map goal_priority (mind_goals s)) \<and>
    sorted_wrt (\<lambda>g h. \<not> (goal_running g \<and> goal_running h \<and> controls_overlap (goal_controls g) (goal_controls h)))
      (mind_goals s)"
proof -
  have ok: "entity_history pow X m" "goals_ok (mind_goals s)"
    using ai_reachable_ok [OF assms(1)] mind_of_ok [of ai i s] assms(2) by auto
  then show ?thesis by (auto simp: goals_ok_def exclusive_def sorted_wrt_iff_nth_less)
qed

text \<open>A golem with a mind.\<close>

definition golem :: entity_type where
  "golem = \<lparr>entity_type_id = 0, entity_type_name = minecraft ''golem'', type_implementation = ''Golem'',
     type_properties = plain_properties\<lparr>type_max_health := 0x41A00000\<rparr>, entity_protocol_id = None\<rparr>"

lemma golem_known: "type_by_name [golem] ''minecraft:golem'' = Inr golem"
proof -
  have "parse_location ''minecraft:golem'' = Inr \<lparr>name_space = ''minecraft'', loc_path = ''golem''\<rparr>" by code_simp
  then show ?thesis by (simp add: type_by_name_def golem_def minecraft_def)
qed

lemma golem_goals:
  "goals_of_type (type_properties golem) seed = [Inr (new_goal 5 control_move (Wander seed 40 0 (vec3 0 0 0)))]"
  by (simp add: goals_of_type_def golem_def plain_properties_def Let_def new_wander_def guardR_def)

theorem mobs_goals_exclusive_witness:
  "\<exists>m ai s. ai_reachable (\<lambda>_ _. 0) (\<lambda>_ _. 0) (\<lambda>_ _. 0) {} (m, ai) \<and> mind_of ai 2 = Some s \<and> mind_goals s \<noteq> [] \<and>
     entity_history (\<lambda>_ _. 0) {} m \<and> sorted (map goal_priority (mind_goals s))"
proof -
  obtain a where a: "new_manager [golem] 0x2602 2 = Inr a" "entity_types a = [golem]" "next_entity_id a = 2"
    "find_entity a 2 = None"
    by (simp add: new_manager_def guardR_def find_entity_def)
  obtain uuid u where u: "next_uuid a = (uuid, u)" by fastforce
  have alive: "f32_less 0 (type_max_health (type_properties golem))"
    by (simp add: golem_def f32_less_def f32_nan_def f32_rank_def f32_magnitude_def Floats.signed_def)
  let ?e = "new_living_entity 2 uuid golem (vec3 0 0 0)"
  let ?m = "(emplace_entity 2 ?e u)\<lparr>next_entity_id := 3\<rparr>"
  have spawn: "spawn ''minecraft:golem'' (vec3 0 0 0) a = Inr (2, ?m)"
    using a(2,3) by (simp add: spawn_def Let_def golem_known u alive)
  have "find_entity u 2 = None" using a(4) next_uuid_fields(1) [of a] u by (simp add: find_entity_def)
  then have e: "find_entity ?m 2 = Some ?e" using find_emplaced [of 2 ?e u 2] by (simp add: find_entity_def)
  let ?ai = "new_mob_ai 0" and ?pow = "\<lambda>_ _ :: f64. 0 :: f64"
  have "reused a ?m = {}" using a(1) by (auto simp: new_manager_def guardR_def reused_def riders_def find_entity_def split: if_splits)
  then have m: "ai_reachable ?pow ?pow ?pow {} (?m, ?ai)"
    using world_step [OF ai_created [OF a(1)] spawned [OF spawn]] by simp
  then have reach: "ai_reachable ?pow ?pow ?pow {} (?m, snd (attach 2 ?m ?ai))"
    by (rule ai_stepped) (rule attached)
  have e_facts: "living_part ?e \<noteq> None" "entity_properties ?e = type_properties golem"
    by (simp_all add: new_living_entity_def new_entity_def)
  obtain s where s: "mind_of (snd (attach 2 ?m ?ai)) 2 = Some s" "mind_goals s \<noteq> []"
    using e e_facts golem_goals by (auto simp: attach_def mind_of_def new_mob_ai_def add_goal_def)
  show ?thesis using mobs_goals_exclusive [OF reach s(1)] reach s by blast
qed

end
