(* ===== verification/Ai_Paths.thy ===== *)
theory Ai_Paths
  imports Ai
begin

text \<open>
  The search for paths (src/entity/ai.cpp): it returns, and what it finds is a
  shortest walk.
\<close>

section \<open>Walks over the ground\<close>

definition walk :: "(block_position \<Rightarrow> bool) \<Rightarrow> block_position \<Rightarrow> block_position \<Rightarrow> block_position list \<Rightarrow> bool" where
  "walk passable start goal ps =
     (ps \<noteq> [] \<and> hd ps = start \<and> last ps = goal \<and> successively (\<lambda>p q. q \<in> set (neighbours p)) ps \<and>
      list_all passable ps)"

definition manhattan :: "block_position \<Rightarrow> block_position \<Rightarrow> int" where
  "manhattan a b = \<bar>sint (pos_x a) - sint (pos_x b)\<bar> + \<bar>sint (pos_y a) - sint (pos_y b)\<bar> +
     \<bar>sint (pos_z a) - sint (pos_z b)\<bar>"

text \<open>All coordinates at most \<open>r\<close> from those of another position, or from the origin.\<close>

definition within :: "int \<Rightarrow> block_position \<Rightarrow> block_position \<Rightarrow> bool" where
  "within r a b = (\<bar>sint (pos_x a) - sint (pos_x b)\<bar> \<le> r \<and> pos_y a = pos_y b \<and>
     \<bar>sint (pos_z a) - sint (pos_z b)\<bar> \<le> r)"

definition inland :: "int \<Rightarrow> block_position \<Rightarrow> bool" where
  "inland r a = (\<bar>sint (pos_x a)\<bar> \<le> r \<and> \<bar>sint (pos_y a)\<bar> \<le> r \<and> \<bar>sint (pos_z a)\<bar> \<le> r)"

lemma sint_abs: "- (2 ^ 31) < sint a \<Longrightarrow> sint (abs_i32 a) = \<bar>sint a\<bar>"
  using sint_lt [of a] by (simp add: abs_i32_def word_sless_alt sint_word_ariths signed_take_bit_int_eq_self)

lemma distance_exact:
  assumes "inland (2 ^ 28) a" "inland (2 ^ 28) b"
  shows "sint (block_distance a b) = manhattan a b" and "manhattan a b < 2 ^ 31 - 2 ^ 28"
proof -
  have "sint (abs_i32 (u - v)) = \<bar>sint u - sint v\<bar> \<and> \<bar>sint u - sint v\<bar> \<le> 2 ^ 29"
    if "\<bar>sint u\<bar> \<le> 2 ^ 28" "\<bar>sint v\<bar> \<le> 2 ^ 28" for u v :: i32
  proof -
    have "sint (u - v) = sint u - sint v" using that by (intro sint_sub_small) simp_all
    then show ?thesis using that sint_abs [of "u - v"] by simp
  qed
  note d = this [of "pos_x a" "pos_x b"] this [of "pos_y a" "pos_y b"] this [of "pos_z a" "pos_z b"]
  have xy: "sint (abs_i32 (pos_x a - pos_x b) + abs_i32 (pos_y a - pos_y b)) =
      \<bar>sint (pos_x a) - sint (pos_x b)\<bar> + \<bar>sint (pos_y a) - sint (pos_y b)\<bar>"
    using assms d by (subst sint_add_small) (simp_all add: inland_def)
  show "sint (block_distance a b) = manhattan a b"
    unfolding block_distance_def manhattan_def
    using assms d xy by (subst sint_add_small) (simp_all add: inland_def)
  show "manhattan a b < 2 ^ 31 - 2 ^ 28" using assms d by (simp add: manhattan_def inland_def)
qed

lemma neighbour_moves:
  assumes "q \<in> set (neighbours p)" and "inland (2 ^ 30) p"
  shows "within 1 q p" "manhattan p g \<le> manhattan q g + 1" "q \<noteq> p"
proof -
  have step: "sint (x + 1) = sint x + 1" "sint (x - 1) = sint x - 1"
    if "\<bar>sint x\<bar> \<le> 2 ^ 30" for x :: i32
    using that sint_add_small [of x 1] sint_sub_small [of x 1] by simp_all
  have y: "pos_y q = pos_y p"
    and moved: "sint (pos_x q) = sint (pos_x p) + 1 \<and> pos_z q = pos_z p \<or>
      sint (pos_x q) = sint (pos_x p) - 1 \<and> pos_z q = pos_z p \<or>
      pos_x q = pos_x p \<and> sint (pos_z q) = sint (pos_z p) + 1 \<or>
      pos_x q = pos_x p \<and> sint (pos_z q) = sint (pos_z p) - 1"
    using assms step [of "pos_x p"] step [of "pos_z p"] by (auto simp: neighbours_def inland_def)
  show "within 1 q p" using moved y unfolding within_def by (elim disjE) simp_all
  have near: "\<bar>u - w\<bar> \<le> \<bar>v - w\<bar> + 1" if "v = u + 1 \<or> v = u - 1" for u v w :: int using that by arith
  show "manhattan p g \<le> manhattan q g + 1"
    using moved y near [of "sint (pos_x q)" "sint (pos_x p)" "sint (pos_x g)"]
      near [of "sint (pos_z q)" "sint (pos_z p)" "sint (pos_z g)"]
    unfolding manhattan_def by (elim disjE) simp_all
  show "q \<noteq> p" using moved by auto
qed

lemma within_trans: "within r a b \<Longrightarrow> within s b c \<Longrightarrow> within (r + s) a c"
  by (auto simp: within_def)

lemma within_inland: "within r a b \<Longrightarrow> inland s b \<Longrightarrow> 0 \<le> r \<Longrightarrow> inland (r + s) a"
  by (auto simp: within_def inland_def)

lemma inland_mono: "inland r a \<Longrightarrow> r \<le> s \<Longrightarrow> inland s a"
  by (auto simp: inland_def)

lemma manhattan_refl [simp]: "manhattan a a = 0" and manhattan_nonneg: "0 \<le> manhattan a b"
  by (simp_all add: manhattan_def)

lemma walk_Cons: "walk passable start goal (p # q # ps) \<longleftrightarrow>
    p = start \<and> passable p \<and> q \<in> set (neighbours p) \<and> walk passable q goal (q # ps)"
  by (auto simp: walk_def)

text \<open>A walk is at least as long as the estimate says.\<close>

lemma walk_estimate:
  "walk passable p goal ps \<Longrightarrow> inland r p \<Longrightarrow> r + int (length ps) \<le> 2 ^ 30 \<Longrightarrow> manhattan p goal \<le> int (length ps) - 1"
proof (induction ps arbitrary: p r)
  case Nil
  then show ?case by (simp add: walk_def)
next
  case (Cons a ps)
  show ?case
  proof (cases ps)
    case Nil
    then have "p = goal" using Cons.prems(1) by (auto simp: walk_def)
    then show ?thesis by simp
  next
    case (Cons q qs)
    have w: "a = p" "q \<in> set (neighbours p)" "walk passable q goal ps"
      using Cons.prems(1) by (auto simp: \<open>ps = q # qs\<close> walk_Cons)
    have "inland (2 ^ 30) p" using Cons.prems(2,3) by (auto intro: inland_mono)
    note move = neighbour_moves [OF w(2) this]
    have "inland (1 + r) q" by (rule within_inland [OF move(1) Cons.prems(2)]) simp
    then have "manhattan q goal \<le> int (length ps) - 1"
      by (rule Cons.IH [OF w(3)]) (use Cons.prems(3) in simp)
    then show ?thesis using move(2) [of goal] by simp
  qed
qed

section \<open>The invariant of the search\<close>

text \<open>
  Costs are lengths of walks from the start, at most \<open>k\<close>. Each entry of the queue was
  pushed with a cost that is still at least the node's. A node outside \<open>X\<close> waits in the
  queue with its cost or has offered its cost to its neighbours. \<open>P\<close> are the entries
  that were popped.
\<close>

definition costs_ok :: "(block_position \<Rightarrow> bool) \<Rightarrow> block_position \<Rightarrow> int \<Rightarrow> search \<Rightarrow> bool" where
  "costs_ok passable start k s = (path_cost s start = Some 0 \<and>
     (\<forall>p c. path_cost s p = Some c \<longrightarrow> 0 \<le> sint c \<and> sint c \<le> k \<and> within (sint c) p start \<and> passable p))"

definition steps_ok :: "block_position \<Rightarrow> search \<Rightarrow> bool" where
  "steps_ok start s =
     ((\<forall>p q. came_from s p = Some q \<longrightarrow> p \<noteq> start \<and> p \<in> set (neighbours q) \<and>
        (\<exists>c d. path_cost s p = Some c \<and> path_cost s q = Some d \<and> sint d < sint c)) \<and>
      (\<forall>p. path_cost s p \<noteq> None \<longrightarrow> p \<noteq> start \<longrightarrow> came_from s p \<noteq> None))"

lemma steps_okD:
  assumes "steps_ok start s" "came_from s p = Some q"
  obtains c d where "p \<noteq> start" "p \<in> set (neighbours q)" "path_cost s p = Some c" "path_cost s q = Some d" "sint d < sint c"
  using assms unfolding steps_ok_def by blast

definition entry_ok :: "block_position \<Rightarrow> block_position \<Rightarrow> search \<Rightarrow> open_node \<Rightarrow> bool" where
  "entry_ok start goal s x = (\<exists>c. path_cost s (fst x) = Some c \<and>
     sint c + manhattan (fst x) goal \<le> sint (snd x) \<and>
     within (sint (snd x) - manhattan (fst x) goal) (fst x) start)"

definition offered :: "(block_position \<Rightarrow> bool) \<Rightarrow> search \<Rightarrow> block_position \<Rightarrow> i32 \<Rightarrow> block_position \<Rightarrow> bool" where
  "offered passable s p c q = (passable q \<longrightarrow> (\<exists>d. path_cost s q = Some d \<and> sint d \<le> sint c + 1))"

definition waiting :: "block_position \<Rightarrow> search \<Rightarrow> block_position \<Rightarrow> i32 \<Rightarrow> bool" where
  "waiting goal s p c = (\<exists>f. (p, f) \<in> set (open_nodes s) \<and> sint f = sint c + manhattan p goal)"

definition search_ok ::
  "(block_position \<Rightarrow> bool) \<Rightarrow> block_position \<Rightarrow> block_position \<Rightarrow> int \<Rightarrow> block_position set \<Rightarrow> open_node set \<Rightarrow>
   search \<Rightarrow> bool" where
  "search_ok passable start goal k X P s =
     (costs_ok passable start k s \<and> steps_ok start s \<and>
      (\<forall>x \<in> set (open_nodes s) \<union> P. entry_ok start goal s x) \<and>
      distinct (open_nodes s) \<and> set (open_nodes s) \<inter> P = {} \<and>
      (\<forall>p c. path_cost s p = Some c \<longrightarrow>
         (\<exists>f. (p, f) \<in> set (open_nodes s) \<union> P \<and> sint f = sint c + manhattan p goal)) \<and>
      (\<forall>p c. path_cost s p = Some c \<longrightarrow> p \<notin> X \<longrightarrow>
         waiting goal s p c \<or> (\<forall>q \<in> set (neighbours p). offered passable s p c q)))"

lemma search_okD:
  assumes "search_ok passable start goal k X P s"
  shows "costs_ok passable start k s" and "steps_ok start s"
    and "x \<in> set (open_nodes s) \<union> P \<Longrightarrow> entry_ok start goal s x"
    and "distinct (open_nodes s)" and "set (open_nodes s) \<inter> P = {}"
    and "path_cost s p = Some c \<Longrightarrow> \<exists>f. (p, f) \<in> set (open_nodes s) \<union> P \<and> sint f = sint c + manhattan p goal"
    and "path_cost s p = Some c \<Longrightarrow> p \<notin> X \<Longrightarrow>
      waiting goal s p c \<or> (\<forall>q \<in> set (neighbours p). offered passable s p c q)"
  using assms unfolding search_ok_def by blast+

lemma search_okI:
  assumes "costs_ok passable start k s" and "steps_ok start s"
    and "\<And>x. x \<in> set (open_nodes s) \<union> P \<Longrightarrow> entry_ok start goal s x"
    and "distinct (open_nodes s)" and "set (open_nodes s) \<inter> P = {}"
    and "\<And>p c. path_cost s p = Some c \<Longrightarrow>
      \<exists>f. (p, f) \<in> set (open_nodes s) \<union> P \<and> sint f = sint c + manhattan p goal"
    and "\<And>p c. path_cost s p = Some c \<Longrightarrow> p \<notin> X \<Longrightarrow>
      waiting goal s p c \<or> (\<forall>q \<in> set (neighbours p). offered passable s p c q)"
  shows "search_ok passable start goal k X P s"
  using assms unfolding search_ok_def by blast

lemma costs_okD:
  assumes "costs_ok passable start k s"
  shows "path_cost s start = Some 0"
    and "path_cost s p = Some c \<Longrightarrow> 0 \<le> sint c \<and> sint c \<le> k \<and> within (sint c) p start \<and> passable p"
  using assms unfolding costs_ok_def by blast+

text \<open>A cheaper way to one position.\<close>

definition improved :: "block_position \<Rightarrow> block_position \<Rightarrow> i32 \<Rightarrow> block_position \<Rightarrow> search \<Rightarrow> search" where
  "improved goal current c nxt s =
     s\<lparr>path_cost := (path_cost s)(nxt \<mapsto> c), came_from := (came_from s)(nxt \<mapsto> current),
       open_nodes := open_nodes s @ [(nxt, c + block_distance nxt goal)]\<rparr>"

lemma improve_ok:
  assumes ok: "search_ok passable start goal (k + 1) {current} P s" and cur: "path_cost s current = Some c"
    and c: "sint c \<le> k" and k: "k < 2 ^ 20" and ins: "inland (2 ^ 27) start" "inland (2 ^ 27) goal"
    and next': "nxt \<in> set (neighbours current)" "passable nxt"
    and better: "\<And>d. path_cost s nxt = Some d \<Longrightarrow> sint c + 1 < sint d"
  shows "search_ok passable start goal (k + 1) {current} P (improved goal current (c + 1) nxt s)"
    and "sint (c + 1) = sint c + 1"
proof -
  let ?s = "improved goal current (c + 1) nxt s" and ?f = "c + 1 + block_distance nxt goal"
  note costs = search_okD(1) [OF ok] and steps = search_okD(2) [OF ok] and entries = search_okD(3) [OF ok]
    and dis = search_okD(4,5) [OF ok] and wait = search_okD(7) [OF ok]
  have c0: "0 \<le> sint c" "within (sint c) current start" "passable current" "path_cost s start = Some 0"
    using costs_okD [OF costs] cur by blast+
  show succ: "sint (c + 1) = sint c + 1" using c c0(1) k by (subst sint_add_small) simp_all
  have "inland (2 ^ 20 + 2 ^ 27) current"
    using within_inland [OF c0(2) ins(1) c0(1)] by (rule inland_mono) (use c k in simp)
  then have land: "inland (2 ^ 28 - 1) current" by (rule inland_mono) simp
  note move = neighbour_moves [OF next'(1) inland_mono [OF land]]
  have near: "within (sint c + 1) nxt start"
    using within_trans [OF move(1) c0(2)] by (simp add: add.commute)
  have "inland (1 + (2 ^ 28 - 1)) nxt" by (rule within_inland [OF move(1) land]) simp_all
  then have "inland (2 ^ 28) nxt" by simp
  note dist = distance_exact [OF this inland_mono [OF ins(2)]]
  have f: "sint ?f = sint c + 1 + manhattan nxt goal"
    using dist succ c c0(1) k manhattan_nonneg [of nxt goal] by (subst sint_add_small) simp_all
  have neq: "nxt \<noteq> current" using move(3) by simp
  have fresh: "nxt \<noteq> start" using better [of 0] c0 by auto
  have cost: "path_cost ?s p = (if p = nxt then Some (c + 1) else path_cost s p)" for p
    by (simp add: improved_def)
  have new: "(nxt, ?f) \<notin> set (open_nodes s) \<union> P"
  proof
    assume "(nxt, ?f) \<in> set (open_nodes s) \<union> P"
    then obtain d where "path_cost s nxt = Some d" "sint d + manhattan nxt goal \<le> sint ?f"
      using entries by (fastforce simp: entry_ok_def)
    then show False using better f by fastforce
  qed
  have "costs_ok passable start (k + 1) ?s"
    using costs near next'(2) succ c c0(1) fresh by (auto simp: costs_ok_def cost)
  moreover have "steps_ok start ?s"
    unfolding steps_ok_def
  proof (intro conjI allI impI)
    fix p q assume "came_from ?s p = Some q"
    then consider "p = nxt" "q = current" | "p \<noteq> nxt" "came_from s p = Some q"
      by (auto simp: improved_def split: if_splits)
    note cases = this
    show "p \<noteq> start" using cases fresh steps by (auto simp: steps_ok_def)
    show "p \<in> set (neighbours q)" using cases next' steps by (auto simp: steps_ok_def)
    show "\<exists>c d. path_cost ?s p = Some c \<and> path_cost ?s q = Some d \<and> sint d < sint c"
      using cases
    proof cases
      case 1
      then show ?thesis using cur succ neq by (auto simp: cost)
    next
      case 2
      then obtain d e where "path_cost s p = Some d" "path_cost s q = Some e" "sint e < sint d"
        using steps by (elim steps_okD)
      then show ?thesis using 2 better succ by (fastforce simp: cost)
    qed
  next
    fix p assume "path_cost ?s p \<noteq> None" "p \<noteq> start"
    then show "came_from ?s p \<noteq> None" using steps by (auto simp: improved_def steps_ok_def split: if_splits)
  qed
  moreover have "entry_ok start goal ?s x" if "x \<in> set (open_nodes ?s) \<union> P" for x
  proof (cases "x = (nxt, ?f)")
    case True
    then show ?thesis using f succ near by (simp add: entry_ok_def cost)
  next
    case False
    then have "entry_ok start goal s x" using that entries by (auto simp: improved_def)
    then show ?thesis using better succ by (fastforce simp: entry_ok_def cost)
  qed
  moreover have "distinct (open_nodes ?s)" "set (open_nodes ?s) \<inter> P = {}"
    using dis new by (auto simp: improved_def)
  moreover have "\<exists>f. (p, f) \<in> set (open_nodes ?s) \<union> P \<and> sint f = sint d + manhattan p goal"
    if "path_cost ?s p = Some d" for p d
  proof (cases "p = nxt")
    case True
    then show ?thesis using that f succ by (auto simp: cost improved_def)
  next
    case False
    then have "\<exists>f. (p, f) \<in> set (open_nodes s) \<union> P \<and> sint f = sint d + manhattan p goal"
      using search_okD(6) [OF ok] that by (simp add: cost)
    then show ?thesis by (auto simp: improved_def)
  qed
  moreover have "waiting goal ?s p d \<or> (\<forall>q \<in> set (neighbours p). offered passable ?s p d q)"
    if "path_cost ?s p = Some d" "p \<noteq> current" for p d
  proof (cases "p = nxt")
    case True
    then show ?thesis using that f succ by (auto simp: waiting_def cost improved_def)
  next
    case False
    then have "waiting goal s p d \<or> (\<forall>q \<in> set (neighbours p). offered passable s p d q)"
      using that wait by (simp add: cost)
    moreover have "offered passable s p d q \<Longrightarrow> offered passable ?s p d q" for q
      using better succ by (fastforce simp: offered_def cost)
    moreover have "waiting goal s p d \<Longrightarrow> waiting goal ?s p d" by (auto simp: waiting_def improved_def)
    ultimately show ?thesis by blast
  qed
  ultimately show "search_ok passable start goal (k + 1) {current} P ?s" by (intro search_okI) auto
qed

text \<open>One neighbour of the expanded node.\<close>

definition cheaper :: "search \<Rightarrow> search \<Rightarrow> bool" where
  "cheaper s t = (\<forall>p c. path_cost s p = Some c \<longrightarrow> (\<exists>d. path_cost t p = Some d \<and> sint d \<le> sint c))"

lemma cheaper_trans: "cheaper s t \<Longrightarrow> cheaper t u \<Longrightarrow> cheaper s u"
  unfolding cheaper_def by (meson order_trans)

lemma offered_cheaper: "offered passable s p c q \<Longrightarrow> cheaper s t \<Longrightarrow> offered passable t p c q"
  unfolding offered_def cheaper_def by (meson order_trans)

lemma relax_ok:
  assumes ok: "search_ok passable start goal (k + 1) {current} P s" and cur: "path_cost s current = Some c"
    and c: "sint c \<le> k" and k: "k < 2 ^ 20" and ins: "inland (2 ^ 27) start" "inland (2 ^ 27) goal"
    and q: "q \<in> set (neighbours current)"
  defines "t \<equiv> relax passable goal current q s"
  shows "search_ok passable start goal (k + 1) {current} P t \<and> path_cost t current = Some c \<and>
    cheaper s t \<and> offered passable t current c q"
proof (cases "passable q")
  case False
  then show ?thesis using ok cur by (simp add: t_def relax_def cheaper_def offered_def)
next
  case True
  have costs: "costs_ok passable start (k + 1) s" using ok by (simp add: search_ok_def)
  then have c0: "0 \<le> sint c" "within (sint c) current start" using cur by (auto simp: costs_ok_def)
  have succ: "sint (c + 1) = sint c + 1" using c c0(1) k by (subst sint_add_small) simp_all
  have "inland (2 ^ 20 + 2 ^ 27) current"
    using within_inland [OF c0(2) ins(1) c0(1)] by (rule inland_mono) (use c k in simp)
  then have neq: "q \<noteq> current" using neighbour_moves(3) [OF q] inland_mono [of _ current "2 ^ 30"] by simp
  show ?thesis
  proof (cases "\<exists>d. path_cost s q = Some d \<and> sint d \<le> sint c + 1")
    case keep: True
    then have "t = s" using True cur succ by (auto simp: t_def relax_def word_sless_alt)
    then show ?thesis using ok cur keep by (auto simp: cheaper_def offered_def)
  next
    case False
    then have better: "sint c + 1 < sint d" if "path_cost s q = Some d" for d using that by force
    have t: "t = improved goal current (c + 1) q s"
      using True cur succ better
      by (auto simp: t_def relax_def improved_def word_sless_alt Let_def split: option.splits)
    have "cheaper s t" using better succ by (force simp: cheaper_def t improved_def)
    then show ?thesis
      using improve_ok(1) [OF ok cur c k ins q True better] cur neq succ by (simp add: t offered_def improved_def)
  qed
qed

lemma relax_all_ok:
  assumes "search_ok passable start goal (k + 1) {current} P s" "path_cost s current = Some c"
    and "sint c \<le> k" "k < 2 ^ 20" "inland (2 ^ 27) start" "inland (2 ^ 27) goal" "set qs \<subseteq> set (neighbours current)"
  shows "search_ok passable start goal (k + 1) {current} P (fold (relax passable goal current) qs s) \<and>
    path_cost (fold (relax passable goal current) qs s) current = Some c \<and>
    cheaper s (fold (relax passable goal current) qs s) \<and>
    (\<forall>q \<in> set qs. offered passable (fold (relax passable goal current) qs s) current c q)"
  using assms(1,2,7)
proof (induction qs arbitrary: s)
  case (Cons q qs)
  let ?t = "relax passable goal current q s"
  have t: "search_ok passable start goal (k + 1) {current} P ?t \<and> path_cost ?t current = Some c \<and>
      cheaper s ?t \<and> offered passable ?t current c q"
    by (rule relax_ok [OF Cons.prems(1,2) assms(3-6)]) (use Cons.prems(3) in simp)
  then show ?case using Cons.IH [of ?t] Cons.prems(3) cheaper_trans offered_cheaper by auto
qed (auto simp: cheaper_def)

lemma expand_ok:
  assumes ok: "search_ok passable start goal k {} P s" and top: "(current, f) \<in> set (open_nodes s)"
    and k: "k < 2 ^ 20" "0 \<le> k" and ins: "inland (2 ^ 27) start" "inland (2 ^ 27) goal"
  shows "search_ok passable start goal (k + 1) {} (insert (current, f) P)
    (fold (relax passable goal current) (neighbours current)
      (s\<lparr>open_nodes := remove1 (current, f) (open_nodes s)\<rparr>))"
proof -
  let ?s = "s\<lparr>open_nodes := remove1 (current, f) (open_nodes s)\<rparr>" and ?P = "insert (current, f) P"
  have "entry_ok start goal s (current, f)" using search_okD(3) [OF ok] top by blast
  then obtain c where cur: "path_cost s current = Some c" by (auto simp: entry_ok_def)
  have c: "sint c \<le> k" using costs_okD(2) [OF search_okD(1) [OF ok] cur] by simp
  have rest: "set (remove1 (current, f) (open_nodes s)) = set (open_nodes s) - {(current, f)}"
    by (rule set_remove1_eq [OF search_okD(4) [OF ok]])
  then have all: "set (open_nodes ?s) \<union> ?P = set (open_nodes s) \<union> P" using top by auto
  have same: "costs_ok passable start k ?s = costs_ok passable start k s" "steps_ok start ?s = steps_ok start s"
    "entry_ok start goal ?s = entry_ok start goal s" "offered passable ?s = offered passable s"
    "path_cost ?s = path_cost s" for k
    by (simp_all add: costs_ok_def steps_ok_def entry_ok_def [abs_def] offered_def [abs_def] fun_eq_iff)
  have s: "search_ok passable start goal (k + 1) {current} ?P ?s"
  proof (rule search_okI, unfold same all, goal_cases)
    case 1
    show ?case using search_okD(1) [OF ok] by (fastforce simp: costs_ok_def)
  next
    case 4
    show ?case using search_okD(4) [OF ok] by simp
  next
    case 5
    show ?case using search_okD(5) [OF ok] rest by auto
  next
    case (7 p d)
    then show ?case using search_okD(7) [OF ok 7(1)] rest by (auto simp: waiting_def)
  qed (use search_okD(2,3,6) [OF ok] in blast)+
  let ?t = "fold (relax passable goal current) (neighbours current) ?s"
  have t: "search_ok passable start goal (k + 1) {current} ?P ?t \<and> path_cost ?t current = Some c \<and>
      cheaper ?s ?t \<and> (\<forall>q \<in> set (neighbours current). offered passable ?t current c q)"
    by (rule relax_all_ok [OF s _ c k(1) ins]) (use cur in simp_all)
  have t1: "search_ok passable start goal (k + 1) {current} ?P ?t" using t by blast
  show ?thesis
  proof (rule search_okI, goal_cases)
    case (7 p d)
    then show ?case using search_okD(7) [OF t1, of p d] t by (cases "p = current") auto
  qed (use search_okD(1-6) [OF t1] in blast)+
qed

section \<open>The path that is found\<close>

lemma walk_snoc:
  "walk passable start p xs \<Longrightarrow> q \<in> set (neighbours p) \<Longrightarrow> passable q \<Longrightarrow> walk passable start q (xs @ [q])"
  by (auto simp: walk_def successively_append_iff)

text \<open>The walk back ends at the start, and is no longer than the cost says.\<close>

lemma walk_back_ok:
  assumes costs: "costs_ok passable start k s" and steps: "steps_ok start s"
  shows "path_cost s p = Some c \<Longrightarrow>
    \<exists>xs. walk_back (came_from s) start p (p # rest) = Some (Inr (xs @ rest)) \<and>
      walk passable start p xs \<and> int (length xs) \<le> sint c + 1"
proof (induction "nat (sint c)" arbitrary: p c rest rule: less_induct)
  case less
  have c: "0 \<le> sint c" "passable p" using costs less.prems by (auto simp: costs_ok_def)
  show ?case
  proof (cases "p = start")
    case True
    then have "walk_back (came_from s) start p (p # rest) = Some (Inr ([p] @ rest))"
      by (subst walk_back.simps) simp
    then show ?thesis using True c by (intro exI [of _ "[p]"]) (simp add: walk_def)
  next
    case False
    then obtain q where q: "came_from s p = Some q" using steps less.prems by (fastforce simp: steps_ok_def)
    obtain e d where d: "path_cost s p = Some e" "path_cost s q = Some d" "sint d < sint e" "p \<in> set (neighbours q)"
      using steps_okD [OF steps q] by metis
    have "0 \<le> sint d" using costs d(2) by (auto simp: costs_ok_def)
    then have "nat (sint d) < nat (sint c)" using d less.prems by simp
    then obtain xs where xs: "walk_back (came_from s) start q (q # p # rest) = Some (Inr (xs @ p # rest))"
      "walk passable start q xs" "int (length xs) \<le> sint d + 1"
      using less.hyps [OF _ d(2), of "p # rest"] by auto
    have "walk_back (came_from s) start p (p # rest) = Some (Inr ((xs @ [p]) @ rest))"
      using False q xs(1) by (subst walk_back.simps) simp
    moreover have "walk passable start p (xs @ [p])" by (rule walk_snoc [OF xs(2) d(4) c(2)])
    moreover have "int (length (xs @ [p])) \<le> sint c + 1" using xs(3) d less.prems by simp
    ultimately show ?thesis by blast
  qed
qed

text \<open>While the goal costs more than a walk, some entry promises at most the walk's length.\<close>

lemma promising_entry:
  assumes ok: "search_ok passable start goal k {} P s" and k: "k \<le> 2 ^ 20" and ins: "inland (2 ^ 27) start"
  shows "walk passable p goal ys \<Longrightarrow> path_cost s p = Some c \<Longrightarrow> sint c + int (length ys) - 1 < 2 ^ 20 \<Longrightarrow>
    (\<And>d. path_cost s goal = Some d \<Longrightarrow> sint c + int (length ys) - 1 < sint d) \<Longrightarrow>
    \<exists>x \<in> set (open_nodes s). sint (snd x) \<le> sint c + int (length ys) - 1"
proof (induction ys arbitrary: p c)
  case Nil
  then show ?case by (simp add: walk_def)
next
  case (Cons a ys)
  have costs: "0 \<le> sint c" "sint c \<le> k" "within (sint c) p start"
    using costs_okD(2) [OF search_okD(1) [OF ok] Cons.prems(2)] by blast+
  have "inland (2 ^ 20 + 2 ^ 27) p"
    using within_inland [OF costs(3) ins costs(1)] by (rule inland_mono) (use costs k in simp)
  note est = walk_estimate [OF Cons.prems(1) this]
  show ?case
  proof (cases "waiting goal s p c")
    case True
    then obtain f where "(p, f) \<in> set (open_nodes s)" "sint f = sint c + manhattan p goal"
      by (auto simp: waiting_def)
    then show ?thesis using est Cons.prems(3) costs(1) by force
  next
    case False
    show ?thesis
    proof (cases ys)
      case Nil
      then have "p = goal" using Cons.prems(1) by (auto simp: walk_def)
      then show ?thesis using Cons.prems(2) Cons.prems(4) [of c] Nil by simp
    next
      case (Cons q qs)
      have w: "q \<in> set (neighbours p)" "walk passable q goal ys" "passable q"
        using Cons.prems(1) by (auto simp: \<open>ys = q # qs\<close> walk_Cons walk_def)
      have "offered passable s p c q" using search_okD(7) [OF ok Cons.prems(2)] False w(1) by blast
      then obtain d where d: "path_cost s q = Some d" "sint d \<le> sint c + 1" using w(3) by (auto simp: offered_def)
      have "\<exists>x \<in> set (open_nodes s). sint (snd x) \<le> sint d + int (length ys) - 1"
        by (rule Cons.IH [OF w(2) d(1)]) (use d(2) Cons.prems(3,4) in force)+
      then show ?thesis using d(2) by force
    qed
  qed
qed

text \<open>The queue: its top is one of its best entries, whichever it is.\<close>

definition queue_law :: "(nat \<Rightarrow> open_node list \<Rightarrow> open_node) \<Rightarrow> bool" where
  "queue_law pick = (\<forall>n q. q \<noteq> [] \<longrightarrow> pick n q \<in> set q \<and> (\<forall>x \<in> set q. snd (pick n q) \<le>s snd x))"

text \<open>The entries that promise at most \<open>l\<close> are few.\<close>

lemma sint_inj: "sint a = sint b \<Longrightarrow> a = (b :: i32)"
  by (rule signed_word_eqI)

lemma few_entries:
  assumes entries: "\<And>x. x \<in> A \<Longrightarrow> entry_ok start goal s x \<and> sint (snd x) \<le> int l"
  shows "finite A \<and> card A \<le> (2 * l + 1) ^ 2 * (l + 1)"
proof -
  let ?g = "\<lambda>x :: open_node. (sint (pos_x (fst x)) - sint (pos_x start), sint (pos_z (fst x)) - sint (pos_z start),
    sint (snd x) - manhattan (fst x) goal)"
  let ?B = "{- int l..int l} \<times> {- int l..int l} \<times> {0..int l}"
  have fact: "within (sint (snd x) - manhattan (fst x) goal) (fst x) start" "sint (snd x) \<le> int l" if "x \<in> A" for x
    using entries [OF that] by (auto simp: entry_ok_def)
  have inj: "inj_on ?g A"
  proof (rule inj_onI)
    fix x y assume xy: "x \<in> A" "y \<in> A" "?g x = ?g y"
    have "pos_y (fst x) = pos_y (fst y)" using fact(1) [OF xy(1)] fact(1) [OF xy(2)] by (simp add: within_def)
    moreover have "pos_x (fst x) = pos_x (fst y)" "pos_z (fst x) = pos_z (fst y)" using xy(3) by (simp_all add: sint_inj)
    ultimately have "fst x = fst y" by (simp add: block_position.equality)
    then show "x = y" using xy(3) sint_inj [of "snd x" "snd y"] by (simp add: prod_eq_iff)
  qed
  have sub: "?g ` A \<subseteq> ?B"
  proof
    fix z assume "z \<in> ?g ` A"
    then obtain x where x: "x \<in> A" "z = ?g x" by blast
    show "z \<in> ?B" using fact [OF x(1)] x(2) manhattan_nonneg [of "fst x" goal] by (auto simp: within_def)
  qed
  have "card {- int l..int l} = 2 * l + 1" "card {0..int l} = l + 1" by simp_all
  then have "card ?B = (2 * l + 1) ^ 2 * (l + 1)"
    by (simp only: card_cartesian_product power2_eq_square mult.assoc)
  moreover have "finite ?B" by simp
  ultimately show ?thesis using card_inj_on_le [OF inj sub] inj_on_finite [OF inj sub] by simp
qed

text \<open>The loop, with any walk of \<open>l\<close> steps for the budget.\<close>

lemma search_path_ok:
  assumes law: "queue_law pick" and ins: "inland (2 ^ 27) start" "inland (2 ^ 27) goal"
  shows "search_ok passable start goal k {} P s \<Longrightarrow> 0 \<le> k \<Longrightarrow> k + int n \<le> 2 ^ 20 \<Longrightarrow>
    \<forall>x \<in> P. fst x \<noteq> goal \<Longrightarrow>
    \<exists>path. search_path pick passable start goal n s = Some (Inr path) \<and>
      (path \<noteq> [] \<longrightarrow> walk passable start goal path \<and> (\<forall>ys. walk passable start goal ys \<longrightarrow> length path \<le> length ys)) \<and>
      (\<forall>ys l. walk passable start goal ys \<longrightarrow> length ys = l + 1 \<longrightarrow> l < 2 ^ 20 \<longrightarrow> (\<forall>x \<in> P. sint (snd x) \<le> int l) \<longrightarrow>
         (2 * l + 1) ^ 2 * (l + 1) < card P + n \<longrightarrow> path \<noteq> [])"
proof (induction n arbitrary: k P s)
  case 0
  have few: "card P \<le> (2 * l + 1) ^ 2 * (l + 1)" if "\<forall>x \<in> P. sint (snd x) \<le> int l" for l
    using few_entries [of P start goal s l] search_okD(3) [OF 0(1)] that by blast
  then show ?case by (auto simp: not_less dest: leD)
next
  case (Suc n)
  note ok = Suc.prems(1)
  have start: "path_cost s start = Some 0" by (rule costs_okD(1) [OF search_okD(1) [OF ok]])
  have promise: "\<exists>x \<in> set (open_nodes s). sint (snd x) \<le> int l"
    if ys: "walk passable start goal ys" "length ys = l + 1" "l < 2 ^ 20" for ys l
  proof (cases "\<exists>d. path_cost s goal = Some d \<and> sint d \<le> int l")
    case True
    then obtain d where d: "path_cost s goal = Some d" "sint d \<le> int l" by blast
    then obtain f where "(goal, f) \<in> set (open_nodes s) \<union> P" "sint f = sint d"
      using search_okD(6) [OF ok d(1)] by auto
    then show ?thesis using Suc.prems(4) d(2) by force
  next
    case False
    then show ?thesis
      using promising_entry [OF ok _ ins(1) ys(1) start] Suc.prems(3) ys(2,3) by force
  qed
  show ?case
  proof (cases "open_nodes s = []")
    case True
    then show ?thesis using promise by auto
  next
    case False
    define top where "top = pick n (open_nodes s)"
    obtain current f where t: "top = (current, f)" by (cases top)
    have top: "(current, f) \<in> set (open_nodes s)" and best: "\<And>x. x \<in> set (open_nodes s) \<Longrightarrow> sint f \<le> sint (snd x)"
    proof -
      have "pick n (open_nodes s) \<in> set (open_nodes s) \<and>
          (\<forall>x \<in> set (open_nodes s). snd (pick n (open_nodes s)) \<le>s snd x)"
        using law False unfolding queue_law_def by blast
      then show "(current, f) \<in> set (open_nodes s)" "\<And>x. x \<in> set (open_nodes s) \<Longrightarrow> sint f \<le> sint (snd x)"
        using t by (simp_all add: top_def word_sle_eq)
    qed
    let ?s = "s\<lparr>open_nodes := remove1 (current, f) (open_nodes s)\<rparr>"
    show ?thesis
    proof (cases "current = goal")
      case True
      have "entry_ok start goal s (current, f)" using search_okD(3) [OF ok] top by blast
      then obtain c where c: "path_cost s goal = Some c" "sint c \<le> sint f" using True by (auto simp: entry_ok_def)
      obtain xs where xs: "walk_back (came_from s) start goal [goal] = Some (Inr xs)" "walk passable start goal xs"
        "int (length xs) \<le> sint c + 1"
        using walk_back_ok [OF search_okD(1,2) [OF ok] c(1), of "[]"] by auto
      have short: "length xs \<le> length ys" if ys: "walk passable start goal ys" for ys
      proof (rule ccontr)
        assume "\<not> length xs \<le> length ys"
        moreover have "sint c \<le> k" using costs_okD(2) [OF search_okD(1) [OF ok] c(1)] by simp
        moreover have "length ys = length ys - 1 + 1" using ys by (cases ys) (simp_all add: walk_def)
        ultimately have less: "sint c > int (length ys - 1)" "int (length ys - 1) < 1048576"
          using xs(3) Suc.prems(3) by simp_all
        then have "length ys - 1 < 2 ^ 20" by simp
        then show False
          using promise [OF ys \<open>length ys = length ys - 1 + 1\<close>] best c(2) less by fastforce
      qed
      have "search_path pick passable start goal (Suc n) s = Some (Inr xs)"
        using False t True xs(1) by (simp add: top_def)
      moreover have "xs \<noteq> []" using xs(2) by (simp add: walk_def)
      ultimately show ?thesis using xs(2) short by auto
    next
      case away: False
      let ?t = "fold (relax passable goal current) (neighbours current) ?s"
      have "search_ok passable start goal (k + 1) {} (insert (current, f) P) ?t"
        by (rule expand_ok [OF ok top _ Suc.prems(2) ins]) (use Suc.prems(3) in simp)
      note IH = Suc.IH [OF this]
      have step: "search_path pick passable start goal (Suc n) s = search_path pick passable start goal n ?t"
        using False t away by (simp add: top_def)
      have fin: "finite P" if "\<forall>x \<in> P. sint (snd x) \<le> int l" for l
        using few_entries [of P start goal s l] search_okD(3) [OF ok] that by blast
      have new: "(current, f) \<notin> P" using search_okD(5) [OF ok] top by blast
      have low: "sint f \<le> int l" if "walk passable start goal ys" "length ys = l + 1" "l < 2 ^ 20" for ys l
        using promise [OF that] best by fastforce
      show ?thesis
        unfolding step using IH Suc.prems away fin new low by (fastforce simp: card_insert_if)
    qed
  qed
qed

lemma search_starts:
  assumes "inland (2 ^ 27) start" "inland (2 ^ 27) goal" "passable start"
  shows "search_ok passable start goal 0 {} {}
    \<lparr>open_nodes = [(start, block_distance start goal)], path_cost = [start \<mapsto> 0], came_from = Map.empty\<rparr>"
proof -
  have "sint (block_distance start goal) = manhattan start goal"
    using assms by (intro distance_exact(1)) (auto intro: inland_mono)
  then show ?thesis
    using assms(3)
    by (auto simp: search_ok_def costs_ok_def steps_ok_def entry_ok_def within_def waiting_def split: if_splits)
qed

text \<open>C3. The search for a path always returns, whichever of the best nodes the queue has on top: either
  no path, or a walk over passable positions from the start to the destination that no other such walk is
  shorter than. If there is a walk that is short for the number of nodes that may be visited, a path is
  found. Positions lie within 2^27 of the origin, and at most 2^20 nodes are visited.\<close>

theorem find_path_shortest:
  assumes "queue_law pick" and "inland (2 ^ 27) start" "inland (2 ^ 27) goal" and "max_visited \<le> 2 ^ 20"
  shows "\<exists>path. find_path pick start goal passable max_visited = Some (Inr path) \<and>
    (path \<noteq> [] \<longrightarrow> walk passable start goal path \<and> (\<forall>ys. walk passable start goal ys \<longrightarrow> length path \<le> length ys)) \<and>
    (\<forall>ys. walk passable start goal ys \<longrightarrow> (2 * length ys - 1) ^ 2 * length ys < max_visited \<longrightarrow> path \<noteq> [])"
proof (cases "max_visited = 0 \<or> \<not> passable start \<or> \<not> passable goal")
  case True
  then have "\<not> walk passable start goal ys \<or> max_visited = 0" for ys
    by (auto simp: walk_def list_all_iff)
  then show ?thesis using True by (auto simp: find_path_def)
next
  case False
  then obtain path where path: "find_path pick start goal passable max_visited = Some (Inr path)"
    and short: "path \<noteq> [] \<longrightarrow> walk passable start goal path \<and> (\<forall>ys. walk passable start goal ys \<longrightarrow> length path \<le> length ys)"
    and found: "\<And>ys l. walk passable start goal ys \<Longrightarrow> length ys = l + 1 \<Longrightarrow> l < 2 ^ 20 \<Longrightarrow>
      (2 * l + 1) ^ 2 * (l + 1) < max_visited \<Longrightarrow> path \<noteq> []"
    using search_path_ok [OF assms(1-3) search_starts [OF assms(2,3)], of passable max_visited] assms(4)
    by (auto simp: find_path_def)
  have "path \<noteq> []" if ys: "walk passable start goal ys" "(2 * length ys - 1) ^ 2 * length ys < max_visited" for ys
  proof (rule found [OF ys(1)])
    show l: "length ys = length ys - 1 + 1" using ys(1) by (cases ys) (simp_all add: walk_def)
    then have "2 * (length ys - 1) + 1 = 2 * length ys - 1" by simp
    then show "(2 * (length ys - 1) + 1) ^ 2 * (length ys - 1 + 1) < max_visited" using ys(2) l by simp
    have "length ys \<le> (2 * length ys - 1) ^ 2 * length ys" using l by simp
    then show "length ys - 1 < 2 ^ 20" using ys(2) assms(4) by linarith
  qed
  then show ?thesis using path short by blast
qed

text \<open>A queue that has its first best entry on top, over open ground.\<close>

definition first_best :: "nat \<Rightarrow> open_node list \<Rightarrow> open_node" where
  "first_best n q = foldr (\<lambda>x b. if snd x \<le>s snd b then x else b) q (last q)"

lemma first_best_law: "queue_law first_best"
proof -
  have best: "foldr (\<lambda>x b. if snd x \<le>s snd b then x else b) q d \<in> insert d (set q) \<and>
      (\<forall>x \<in> insert d (set q). snd (foldr (\<lambda>x b. if snd x \<le>s snd b then x else b) q d) \<le>s snd x)"
    for q :: "open_node list" and d
  proof (induction q)
    case (Cons x q)
    let ?b = "foldr (\<lambda>x b. if snd x \<le>s snd b then x else b) q d"
    show ?case
    proof (cases "snd x \<le>s snd ?b")
      case True
      then have "snd x \<le>s snd y" if "y \<in> insert d (set q)" for y
        using Cons.IH that by (meson signed.order_trans)
      then show ?thesis using True by auto
    next
      case False
      then have "snd ?b \<le>s snd x" by (simp add: word_sle_eq)
      then show ?thesis using False Cons.IH by auto
    qed
  qed simp
  show ?thesis
    unfolding queue_law_def first_best_def
  proof (intro allI impI)
    fix n and q :: "open_node list" assume "q \<noteq> []"
    then have "insert (last q) (set q) = set q" by auto
    then show "foldr (\<lambda>x b. if snd x \<le>s snd b then x else b) q (last q) \<in> set q \<and>
      (\<forall>x \<in> set q. snd (foldr (\<lambda>x b. if snd x \<le>s snd b then x else b) q (last q)) \<le>s snd x)"
      using best [of q "last q"] by simp
  qed
qed

theorem find_path_shortest_witness:
  "\<exists>path. find_path first_best \<lparr>pos_x = 0, pos_y = 64, pos_z = 0\<rparr> \<lparr>pos_x = 2, pos_y = 64, pos_z = 0\<rparr> (\<lambda>_. True) 4096 =
      Some (Inr path) \<and> path \<noteq> [] \<and> length path \<le> 3"
proof -
  let ?p = "\<lambda>x. \<lparr>pos_x = x, pos_y = 64, pos_z = 0\<rparr> :: block_position"
  have "walk (\<lambda>_. True) (?p 0) (?p 2) [?p 0, ?p 1, ?p 2]" by (simp add: walk_def neighbours_def)
  moreover have "inland (2 ^ 27) (?p 0)" "inland (2 ^ 27) (?p 2)" by (simp_all add: inland_def)
  ultimately show ?thesis
    using find_path_shortest [OF first_best_law, of "?p 0" "?p 2" 4096 "\<lambda>_. True"] by fastforce
qed

end
