(* ===== verification/Blocks.thy ===== *)
theory Blocks
  imports Item Chunk Float_Ops
begin

text \<open>
  Block types (src/block/block.cpp and include/mc/block/block.hpp): the registry with
  its built-in blocks and the loader of normalized text, placing a block from a stack
  and breaking one with a tool. Placing and breaking never fail in a chunk of known
  blocks and change one position at most; breaking takes a bounded number of ticks.
\<close>

section \<open>Blocks and their registry\<close>

record block_properties =
  hardness :: f32
  blast_resistance :: f32
  block_solid :: bool
  replaceable :: bool
  requires_tool :: bool
  block_drops :: "resource_location option"

definition default_block_properties :: block_properties where
  "default_block_properties = \<lparr>hardness = 0, blast_resistance = 0, block_solid = True, replaceable = False,
     requires_tool = False, block_drops = None\<rparr>"

record block =
  block_number :: u32
  block_name :: resource_location
  block_traits :: block_properties
  default_state :: u32
  block_protocol_id :: "u32 option"

type_synonym block_registry = "block list"

definition new_block :: "u32 \<Rightarrow> resource_location \<Rightarrow> block_properties \<Rightarrow> u32 \<Rightarrow> block" where
  "new_block i name p st = \<lparr>block_number = i, block_name = name, block_traits = p, default_state = st,
     block_protocol_id = None\<rparr>"

definition block_by_id :: "block_registry \<Rightarrow> u32 \<Rightarrow> block result" where
  "block_by_id reg i =
     (if unat i \<ge> length reg then Inl (Out_Of_Range ''block ID is not registered'') else Inr (reg ! unat i))"

definition block_by_location :: "block_registry \<Rightarrow> resource_location \<Rightarrow> block result" where
  "block_by_location reg name =
     (case find (\<lambda>candidate. block_name candidate = name) reg of
        None \<Rightarrow> Inl (Out_Of_Range ''block name is not registered'')
      | Some b \<Rightarrow> Inr b)"

definition block_by_name :: "block_registry \<Rightarrow> string \<Rightarrow> block result" where
  "block_by_name reg name = bindR (parse_location name) (block_by_location reg)"

definition block_by_protocol_id :: "block_registry \<Rightarrow> u32 \<Rightarrow> block result" where
  "block_by_protocol_id reg i =
     (case find (\<lambda>candidate. block_protocol_id candidate = Some i) reg of
        None \<Rightarrow> Inl (Out_Of_Range ''block protocol ID is not registered'')
      | Some b \<Rightarrow> Inr b)"

definition register_block :: "block_registry \<Rightarrow> resource_location \<Rightarrow> block_properties \<Rightarrow> block_registry result" where
  "register_block reg name p =
     (if \<exists>b \<in> set reg. block_name b = name
      then Inl (Invalid_Argument ''block name is already registered'')
      else let i = word_of_nat (length reg) in Inr (reg @ [new_block i name p i]))"

text \<open>The blocks the constructor registers, in its order. The names are those of the enumerators of \<open>BlockId\<close>.\<close>

definition parse_drops :: "string option \<Rightarrow> resource_location option result" where
  "parse_drops d = (case d of None \<Rightarrow> Inr None | Some s \<Rightarrow> bindR (parse_location s) (\<lambda>l. Inr (Some l)))"

definition builtin_blocks :: "(string \<times> f32 \<times> f32 \<times> bool \<times> bool \<times> bool \<times> string option) list" where
  "builtin_blocks =
     [(''minecraft:air'', 0, 0, False, True, False, None),
      (''minecraft:bedrock'', f32_neg (f32_ratio 1 1), f32_ratio 3600000 1, True, False, True, None),
      (''minecraft:stone'', f32_ratio 3 2, f32_ratio 6 1, True, False, True, Some ''minecraft:cobblestone''),
      (''minecraft:dirt'', f32_ratio 1 2, f32_ratio 1 2, True, False, False, Some ''minecraft:dirt''),
      (''minecraft:grass_block'', f32_ratio 6 10, f32_ratio 6 10, True, False, False, Some ''minecraft:dirt''),
      (''minecraft:water'', f32_ratio 100 1, f32_ratio 100 1, False, True, False, None),
      (''minecraft:sand'', f32_ratio 1 2, f32_ratio 1 2, True, False, False, Some ''minecraft:sand''),
      (''minecraft:gravel'', f32_ratio 6 10, f32_ratio 6 10, True, False, False, Some ''minecraft:gravel''),
      (''minecraft:coal_ore'', f32_ratio 3 1, f32_ratio 3 1, True, False, True, Some ''minecraft:coal''),
      (''minecraft:iron_ore'', f32_ratio 3 1, f32_ratio 3 1, True, False, True, Some ''minecraft:raw_iron''),
      (''minecraft:oak_log'', f32_ratio 2 1, f32_ratio 2 1, True, False, False, Some ''minecraft:oak_log''),
      (''minecraft:oak_leaves'', f32_ratio 2 10, f32_ratio 2 10, True, False, False, None),
      (''minecraft:short_grass'', 0, 0, False, True, False, None),
      (''minecraft:dandelion'', 0, 0, False, True, False, Some ''minecraft:dandelion''),
      (''minecraft:poppy'', 0, 0, False, True, False, Some ''minecraft:poppy'')]"

definition default_blocks :: "block_registry result" where
  "default_blocks = foldR (\<lambda>(name, hard, blast, sol, repl, tool, drops) reg.
     bindR (parse_location name) (\<lambda>l. bindR (parse_drops drops) (\<lambda>d.
       register_block reg l \<lparr>hardness = hard, blast_resistance = blast, block_solid = sol, replaceable = repl,
         requires_tool = tool, block_drops = d\<rparr>))) builtin_blocks []"

record block_load_report =
  encountered_blocks :: nat
  loaded_blocks :: nat
  existing_blocks :: nat

definition set_block_protocol_id :: "block_registry \<Rightarrow> nat \<Rightarrow> u32 \<Rightarrow> block_registry" where
  "set_block_protocol_id reg i p = reg[i := (reg ! i)\<lparr>block_protocol_id := Some p\<rparr>]"

text \<open>One line of \<open>load_normalized\<close>, and the loop over the lines behind the header.\<close>

definition load_block_line ::
    "string \<Rightarrow> block_registry \<times> block_load_report \<Rightarrow> (block_registry \<times> block_load_report) result" where
  "load_block_line line = (\<lambda>(reg, report).
     if \<not> starts_with line (CHR ''B'' # [CHR 0x09]) then Inr (reg, report)
     else (case find_char CHR 0x09 (drop 2 line) of
        None \<Rightarrow> Inl (Runtime_Error ''normalized block registry record is invalid'')
      | Some n \<Rightarrow>
          (case from_chars_all 32 (take n (drop 2 line)) of
             None \<Rightarrow> Inl (Runtime_Error ''normalized block protocol ID is invalid'')
           | Some p \<Rightarrow>
               if p \<noteq> encountered_blocks report
               then Inl (Runtime_Error ''normalized block protocol ID is invalid'')
               else
                 let report = report\<lparr>encountered_blocks := encountered_blocks report + 1\<rparr>
                 in bindR (parse_location (drop (n + 3) line)) (\<lambda>name.
                   case find_index (\<lambda>b. block_name b = name) reg of
                     Some i \<Rightarrow> Inr (set_block_protocol_id reg i (word_of_nat p),
                       report\<lparr>existing_blocks := existing_blocks report + 1\<rparr>)
                   | None \<Rightarrow>
                       bindR (register_block reg name (default_block_properties\<lparr>block_drops := Some name\<rparr>)) (\<lambda>reg.
                         Inr (set_block_protocol_id reg (length reg - 1) (word_of_nat p),
                           report\<lparr>loaded_blocks := loaded_blocks report + 1\<rparr>))))))"

definition load_normalized_blocks :: "block_registry \<Rightarrow> string \<Rightarrow> (block_registry \<times> block_load_report) result" where
  "load_normalized_blocks reg input =
     (case stream_lines input of
        [] \<Rightarrow> Inl (Runtime_Error ''normalized registry stream has an invalid header'')
      | header # ls \<Rightarrow>
          if \<not> starts_with header (''MCREGISTRIES1'' @ [CHR 0x09])
          then Inl (Runtime_Error ''normalized registry stream has an invalid header'')
          else foldR load_block_line ls (reg, \<lparr>encountered_blocks = 0, loaded_blocks = 0, existing_blocks = 0\<rparr>))"

section \<open>Placing and breaking\<close>

text \<open>
  \<open>BlockInteraction\<close> holds the two registries, here the arguments \<open>bs\<close> and \<open>reg\<close>.
  \<open>place\<close> returns whether a block was placed, the chunk and the held stack.
\<close>

definition place :: "block_registry \<Rightarrow> item_registry \<Rightarrow> chunk \<Rightarrow> nat \<Rightarrow> int \<Rightarrow> nat \<Rightarrow> item_stack \<Rightarrow>
    (bool \<times> chunk \<times> item_stack) result" where
  "place bs reg c x y z held =
     bindR (validate_stack reg held) (\<lambda>_.
       if is_empty held then Inr (False, c, held)
       else bindR (by_id reg (stack_item held)) (\<lambda>it.
         case block_id (properties it) of
           None \<Rightarrow> Inr (False, c, held)
         | Some b \<Rightarrow>
             bindR (chunk_block c x y z) (\<lambda>target.
             bindR (block_by_id bs (ucast target)) (\<lambda>t.
               if \<not> replaceable (block_traits t) then Inr (False, c, held)
               else bindR (block_by_id bs b) (\<lambda>_.
                 bindR (chunk_set_block c x y z (ucast b)) (\<lambda>c'.
                   Inr (True, c', snd (take_stack held 1))))))))"

record tool_context =
  mining_speed :: f32
  correct_for_drops :: bool

definition bare_hand :: tool_context where
  "bare_hand = \<lparr>mining_speed = f32_ratio 1 1, correct_for_drops = False\<rparr>"

record break_result =
  broken :: bool
  break_time :: u32
  drops :: "item_stack list"

definition nothing_broken :: break_result where
  "nothing_broken = \<lparr>broken = False, break_time = 0, drops = []\<rparr>"

text \<open>
  The ticks of a block that can be broken. The cast of the last line is defined
  for numbers below \<open>2 ^ 32\<close>, which the bounds on the hardness give.
\<close>

definition ticks_needed :: "block_properties \<Rightarrow> tool_context \<Rightarrow> f32" where
  "ticks_needed p tool =
     (let speed = f32_max (mining_speed tool) (f32_ratio 1 1000);
          divisor = (if requires_tool p \<and> \<not> correct_for_drops tool then speed else f32_mul speed (f32_ratio 30 1))
      in f32_max (f32_ratio 1 1) (f32_ceil (f32_div (f32_mul (hardness p) (f32_ratio 30 1)) divisor)))"

definition break_ticks :: "block_registry \<Rightarrow> chunk \<Rightarrow> nat \<Rightarrow> int \<Rightarrow> nat \<Rightarrow> tool_context \<Rightarrow> u32 result" where
  "break_ticks bs c x y z tool =
     bindR (chunk_block c x y z) (\<lambda>b.
     bindR (block_by_id bs (ucast b)) (\<lambda>t.
       if b = 0 \<or> f32_less (hardness (block_traits t)) 0 then Inr 0
       else Inr (word_of_int (f32_floor (ticks_needed (block_traits t) tool)))))"

text \<open>What a broken block leaves: \<open>by_name\<close> throws \<open>std::out_of_range\<close> for an unknown item, which is caught.\<close>

definition drops_of :: "item_registry \<Rightarrow> block_properties \<Rightarrow> tool_context \<Rightarrow> item_stack list" where
  "drops_of reg p tool =
     (case block_drops p of
        Some name \<Rightarrow>
          if \<not> requires_tool p \<or> correct_for_drops tool
          then (case by_location reg name of Inl _ \<Rightarrow> [] | Inr it \<Rightarrow> [new_stack (item_index it) 1 0 []])
          else []
      | None \<Rightarrow> [])"

definition break_block :: "block_registry \<Rightarrow> item_registry \<Rightarrow> chunk \<Rightarrow> nat \<Rightarrow> int \<Rightarrow> nat \<Rightarrow> tool_context \<Rightarrow>
    (break_result \<times> chunk) result" where
  "break_block bs reg c x y z tool =
     bindR (chunk_block c x y z) (\<lambda>b.
     bindR (block_by_id bs (ucast b)) (\<lambda>t.
       if b = 0 \<or> f32_less (hardness (block_traits t)) 0 then Inr (nothing_broken, c)
       else bindR (break_ticks bs c x y z tool) (\<lambda>ticks.
         let result = \<lparr>broken = True, break_time = ticks, drops = drops_of reg (block_traits t) tool\<rparr>
         in bindR (chunk_set_block c x y z air) (\<lambda>c'. Inr (result, c')))))"

section \<open>Reachable registries\<close>

text \<open>A literal between two integers.\<close>

lemma f32_ratio_in:
  assumes "0 < den" and "lo * den \<le> num" "num \<le> hi * den" and "lo < 2 ^ 24" "hi < 2 ^ 24"
  shows "f32_in (int lo * 2 ^ 149) (int hi * 2 ^ 149) (f32_ratio num den)"
proof -
  let ?r = "round_float single_format False (num * 2 ^ 149) den"
  have b: "snd ?r \<le> infinity single_format" by (rule round_float_bounded)
  have i: "f32_finite (f32_ratio n 1)" "float_units single_format (f32_number (f32_ratio n 1)) = int (n * 2 ^ 149)"
    "snd (f32_number (f32_ratio n 1)) < infinity single_format" if "n < 2 ^ 24" for n
    using f32_ratio_integer [OF that] f32_facts(2) [of "f32_ratio n 1"]
    by (simp_all add: finite_number_def flip: f32_facts(3))
  have le: "n * 2 ^ 149 * den \<le> m * 2 ^ 149" if "n * den \<le> m" for n m :: nat
    using mult_right_mono [OF that, of "2 ^ 149"] by (simp add: mult_ac)
  have ge: "m * 2 ^ 149 \<le> n * 2 ^ 149 * den" if "m \<le> n * den" for n m :: nat
    using mult_right_mono [OF that, of "2 ^ 149"] by (simp add: mult_ac)
  have "rank (f32_number (f32_ratio lo 1)) \<le> rank ?r"
    by (rule round_float_ge) (use i [OF assms(4)] assms(1) le [OF assms(2)] in \<open>simp_all add: signed_def flip: of_nat_mult\<close>)
  moreover have "rank ?r \<le> rank (f32_number (f32_ratio hi 1))"
    by (rule round_float_le) (use i [OF assms(5)] assms(1) ge [OF assms(3)] in \<open>simp_all add: signed_def flip: of_nat_mult\<close>)
  moreover note n = f32_of_bounded [OF b]
  ultimately have "f32_le (f32_ratio lo 1) (f32_of_number ?r)" "f32_le (f32_of_number ?r) (f32_ratio hi 1)"
    using i(1) [OF assms(4)] i(1) [OF assms(5)] by (simp_all add: f32_le_rank n flip: f32_facts(1))
  then show ?thesis
    using f32_in_le [of "f32_ratio lo 1" "f32_ratio hi 1" "f32_of_number ?r"] f32_ratio_integer [OF assms(4)]
      f32_ratio_integer [OF assms(5)]
    by (simp add: f32_ratio_def)
qed

definition block_names :: "string list" where
  "block_names = [''minecraft:air'', ''minecraft:bedrock'', ''minecraft:stone'', ''minecraft:dirt'',
     ''minecraft:grass_block'', ''minecraft:water'', ''minecraft:sand'', ''minecraft:gravel'', ''minecraft:coal_ore'',
     ''minecraft:iron_ore'', ''minecraft:oak_log'', ''minecraft:oak_leaves'', ''minecraft:short_grass'',
     ''minecraft:dandelion'', ''minecraft:poppy'']"

definition drop_names :: "string list" where
  "drop_names = [''minecraft:cobblestone'', ''minecraft:dirt'', ''minecraft:sand'', ''minecraft:gravel'',
     ''minecraft:coal'', ''minecraft:raw_iron'', ''minecraft:oak_log'', ''minecraft:dandelion'', ''minecraft:poppy'']"

definition minecraft_location :: "string \<Rightarrow> resource_location" where
  "minecraft_location s = \<lparr>name_space = ''minecraft'', loc_path = drop 10 s\<rparr>"

lemma names_parse:
  "list_all (\<lambda>s. parse_location s = Inr (minecraft_location s)) block_names"
  "list_all (\<lambda>s. parse_location s = Inr (minecraft_location s)) drop_names"
  by code_simp+

lemma builtin_names: "map fst builtin_blocks = block_names"
  by (simp add: builtin_blocks_def block_names_def)

lemma names_distinct: "distinct (map minecraft_location block_names)"
  by code_simp

text \<open>The location of the block air, which is also that of the item.\<close>

definition air_location :: resource_location where
  "air_location = \<lparr>name_space = ''minecraft'', loc_path = ''air''\<rparr>"

text \<open>
  What holds of every registry: the number of a block is its index, names are
  unique, the first blocks are the enumerators of \<open>BlockId\<close>, no block drops air and
  hardness is at most that of water.
\<close>

definition block_ok :: "block \<Rightarrow> bool" where
  "block_ok b = (f32_in (- (2 ^ 149)) (100 * 2 ^ 149) (hardness (block_traits b)) \<and>
     block_drops (block_traits b) \<noteq> Some air_location)"

definition blocks_ok :: "block_registry \<Rightarrow> bool" where
  "blocks_ok bs = ((\<forall>i < length bs. block_number (bs ! i) = word_of_nat i \<and> default_state (bs ! i) = word_of_nat i) \<and>
     distinct (map block_name bs) \<and> list_all block_ok bs)"

lemma register_block_ok:
  assumes "register_block bs name p = Inr bs'" and "blocks_ok bs"
    and "f32_in (- (2 ^ 149)) (100 * 2 ^ 149) (hardness p)" "block_drops p \<noteq> Some air_location"
  shows "blocks_ok bs'" and "bs' = bs @ [new_block (word_of_nat (length bs)) name p (word_of_nat (length bs))]"
  using assms
  by (auto simp: register_block_def blocks_ok_def block_ok_def new_block_def nth_append less_Suc_eq Let_def split: if_splits)

definition builtin_ok :: "string \<times> f32 \<times> f32 \<times> bool \<times> bool \<times> bool \<times> string option \<Rightarrow> bool" where
  "builtin_ok = (\<lambda>(name, hard, blast, sol, repl, tool, drops).
     parse_location name = Inr (minecraft_location name) \<and> f32_in (- (2 ^ 149)) (100 * 2 ^ 149) hard \<and>
     (case drops of None \<Rightarrow> True | Some s \<Rightarrow> s \<in> set drop_names))"

lemma register_builtin:
  assumes "list_all builtin_ok es" and "blocks_ok bs"
    and "distinct (map block_name bs @ map (minecraft_location \<circ> fst) es)"
  shows "\<exists>bs'. foldR (\<lambda>(name, hard, blast, sol, repl, tool, drops) reg.
     bindR (parse_location name) (\<lambda>l. bindR (parse_drops drops) (\<lambda>d.
       register_block reg l \<lparr>hardness = hard, blast_resistance = blast, block_solid = sol, replaceable = repl,
         requires_tool = tool, block_drops = d\<rparr>))) es bs = Inr (bs @ bs') \<and> blocks_ok (bs @ bs') \<and>
     map block_name bs' = map (minecraft_location \<circ> fst) es \<and>
     list_all2 (\<lambda>(name, hard, blast, sol, repl, tool, drops) b. block_traits b =
        \<lparr>hardness = hard, blast_resistance = blast, block_solid = sol, replaceable = repl, requires_tool = tool,
         block_drops = map_option minecraft_location drops\<rparr>) es bs'"
  using assms
proof (induction es arbitrary: bs)
  case (Cons e es)
  obtain name hard blast sol repl tool drops where e: "e = (name, hard, blast, sol, repl, tool, drops)"
    by (cases e) auto
  have ok: "parse_location name = Inr (minecraft_location name)" "f32_in (- (2 ^ 149)) (100 * 2 ^ 149) hard"
    "\<And>s. drops = Some s \<Longrightarrow> s \<in> set drop_names"
    using Cons.prems(1) by (auto simp: e builtin_ok_def)
  have d: "parse_drops drops = Inr (map_option minecraft_location drops)"
    using ok(3) names_parse(2) by (auto simp: parse_drops_def list_all_iff split: option.splits)
  have na: "map_option minecraft_location drops \<noteq> Some air_location"
    using ok(3) by (auto simp: drop_names_def air_location_def minecraft_location_def)
  define p where "p = \<lparr>hardness = hard, blast_resistance = blast, block_solid = sol, replaceable = repl,
    requires_tool = tool, block_drops = map_option minecraft_location drops\<rparr>"
  define b where "b = new_block (word_of_nat (length bs)) (minecraft_location name) p (word_of_nat (length bs))"
  have r: "register_block bs (minecraft_location name) p = Inr (bs @ [b])"
    using Cons.prems(3) by (auto simp: register_block_def b_def Let_def e image_iff)
  have "blocks_ok (bs @ [b])"
    using register_block_ok(1) [OF r Cons.prems(2)] ok(2) na by (simp add: p_def)
  then show ?case
    using Cons.IH [of "bs @ [b]"] Cons.prems(1,3) ok(1) d r
    by (auto simp: e p_def b_def new_block_def)
qed simp

lemma builtin_entries_ok: "list_all builtin_ok builtin_blocks"
proof -
  have 1: "list_all (\<lambda>e. parse_location (fst e) = Inr (minecraft_location (fst e))) builtin_blocks"
    using names_parse(1) by (simp add: list.pred_map comp_def flip: builtin_names)
  have small: "f32_in (- (2 ^ 149)) (100 * 2 ^ 149) (f32_ratio n d)" if "0 < d" "n \<le> 100 * d" for n d
    using f32_ratio_in [of d 0 n 100] that by (auto intro: f32_in_weaken)
  have "f32_in (- (2 ^ 149)) (100 * 2 ^ 149) 0"
    "f32_in (- (2 ^ 149)) (100 * 2 ^ 149) (f32_neg (f32_ratio 1 1))"
    using f32_ratio_integer [of 1] by (simp_all add: f32_in_def)
  then have "list_all (\<lambda>(name, hard, blast, sol, repl, tool, drops). f32_in (- (2 ^ 149)) (100 * 2 ^ 149) hard \<and>
     (case drops of None \<Rightarrow> True | Some s \<Rightarrow> s \<in> set drop_names)) builtin_blocks"
    using small by (simp add: builtin_blocks_def drop_names_def)
  with 1 show ?thesis by (auto simp: builtin_ok_def list_all_iff split: prod.splits)
qed

definition builtin_registry_blocks :: block_registry where
  "builtin_registry_blocks = (case default_blocks of Inl _ \<Rightarrow> [] | Inr bs \<Rightarrow> bs)"

lemma builtin_blocks_built:
  "default_blocks = Inr builtin_registry_blocks" "blocks_ok builtin_registry_blocks"
  "map block_name builtin_registry_blocks = map minecraft_location block_names"
  "list_all2 (\<lambda>(name, hard, blast, sol, repl, tool, drops) b. block_traits b =
        \<lparr>hardness = hard, blast_resistance = blast, block_solid = sol, replaceable = repl, requires_tool = tool,
         block_drops = map_option minecraft_location drops\<rparr>) builtin_blocks builtin_registry_blocks"
proof -
  have "map (minecraft_location \<circ> fst) builtin_blocks = map minecraft_location block_names"
    by (simp add: comp_def flip: builtin_names)
  then show "default_blocks = Inr builtin_registry_blocks" "blocks_ok builtin_registry_blocks"
  "map block_name builtin_registry_blocks = map minecraft_location block_names"
  "list_all2 (\<lambda>(name, hard, blast, sol, repl, tool, drops) b. block_traits b =
        \<lparr>hardness = hard, blast_resistance = blast, block_solid = sol, replaceable = repl, requires_tool = tool,
         block_drops = map_option minecraft_location drops\<rparr>) builtin_blocks builtin_registry_blocks"
    using register_builtin [OF builtin_entries_ok, of "[]"] names_distinct
    by (auto simp: builtin_registry_blocks_def default_blocks_def blocks_ok_def)
qed

text \<open>
  The registries of a server: the built-in one, and what a line of the loader makes
  of one, so also where a load ends by an exception.
\<close>

inductive reachable_blocks :: "block_registry \<Rightarrow> bool" where
  built: "default_blocks = Inr bs \<Longrightarrow> reachable_blocks bs"
| line: "reachable_blocks bs \<Longrightarrow> load_block_line line (bs, report) = Inr (bs', report') \<Longrightarrow> reachable_blocks bs'"

definition enumerated :: "block_registry \<Rightarrow> bool" where
  "enumerated bs = (take 15 (map block_name bs) = map minecraft_location block_names)"

lemma set_block_protocol_id_ok:
  assumes "blocks_ok bs" and "i < length bs"
  shows "blocks_ok (set_block_protocol_id bs i p)" and "map block_name (set_block_protocol_id bs i p) = map block_name bs"
proof -
  show "map block_name (set_block_protocol_id bs i p) = map block_name bs"
    using assms(2) by (simp add: set_block_protocol_id_def map_update list_update_same_conv)
  then show "blocks_ok (set_block_protocol_id bs i p)"
    using assms by (auto simp: blocks_ok_def set_block_protocol_id_def nth_list_update list_all_length block_ok_def)
qed

lemma load_block_line_ok:
  assumes "load_block_line line (bs, report) = Inr (bs', report')" and "blocks_ok bs" "enumerated bs"
  shows "blocks_ok bs' \<and> enumerated bs'"
proof -
  have air: "air_location \<in> set (map block_name bs)"
  proof -
    have "air_location = minecraft_location (hd block_names)"
      by (simp add: air_location_def minecraft_location_def block_names_def)
    also have "\<dots> \<in> set (map minecraft_location block_names)" by (simp add: block_names_def)
    also have "\<dots> \<subseteq> set (map block_name bs)"
      using assms(3) set_take_subset by (metis enumerated_def)
    finally show ?thesis .
  qed
  have p0: "f32_in (- (2 ^ 149)) (100 * 2 ^ 149) 0" by (simp add: f32_in_def)
  consider "bs' = bs"
    | name i p where "find_index (\<lambda>b. block_name b = name) bs = Some i" "bs' = set_block_protocol_id bs i p"
    | name bs1 p where "register_block bs name (default_block_properties\<lparr>block_drops := Some name\<rparr>) = Inr bs1"
      "bs' = set_block_protocol_id bs1 (length bs1 - 1) p"
  proof (cases "starts_with line (CHR ''B'' # [CHR 0x09])")
    case False
    then show ?thesis using that(1) assms(1) by (simp add: load_block_line_def)
  next
    case True
    obtain n where n: "find_char CHR 0x09 (drop 2 line) = Some n"
      using assms(1) True by (cases "find_char CHR 0x09 (drop 2 line)") (simp_all add: load_block_line_def)
    obtain p where p: "from_chars_all 32 (take n (drop 2 line)) = Some p"
      using assms(1) True n by (cases "from_chars_all 32 (take n (drop 2 line))") (simp_all add: load_block_line_def)
    obtain name where name: "parse_location (drop (n + 3) line) = Inr name"
      using assms(1) True n p
      by (cases "parse_location (drop (n + 3) line)") (simp_all add: load_block_line_def split: if_splits)
    show ?thesis
    proof (cases "find_index (\<lambda>b. block_name b = name) bs")
      case None
      then show ?thesis
        using assms(1) True n p name that(3)
        by (cases "register_block bs name (default_block_properties\<lparr>block_drops := Some name\<rparr>)")
          (auto simp add: load_block_line_def Let_def split: if_splits)
    next
      case (Some i)
      then show ?thesis
        using assms(1) True n p name that(2) by (auto simp add: load_block_line_def Let_def split: if_splits)
    qed
  qed
  then show ?thesis
  proof cases
    case (2 name i p)
    then show ?thesis
      using set_block_protocol_id_ok [OF assms(2), of i] find_index_Some [OF 2(1)] assms(3)
      by (auto simp: enumerated_def)
  next
    case (3 name bs1 p)
    have "name \<noteq> air_location"
      using 3(1) air by (auto simp: register_block_def split: if_splits)
    then have r: "blocks_ok bs1" "map block_name bs1 = map block_name bs @ [name]"
      using register_block_ok [OF 3(1) assms(2)] p0 by (simp_all add: default_block_properties_def new_block_def)
    have "length (map minecraft_location block_names) = 15" by (simp add: block_names_def)
    then have "15 \<le> length bs" using arg_cong [OF assms(3) [unfolded enumerated_def], of length] by simp
    then have "enumerated bs1" using r(2) assms(3) by (simp add: enumerated_def)
    moreover have "length bs1 - 1 < length bs1" using r(2) by (cases bs1) auto
    ultimately show ?thesis
      using set_block_protocol_id_ok [OF r(1)] by (simp add: 3(2) enumerated_def)
  qed (use assms in simp)
qed

lemma reachable_blocks_ok: "reachable_blocks bs \<Longrightarrow> blocks_ok bs \<and> enumerated bs"
proof (induction rule: reachable_blocks.induct)
  case (built bs)
  then have "bs = builtin_registry_blocks" using builtin_blocks_built(1) by (metis Inr_inject)
  moreover have "length block_names = 15" by (simp add: block_names_def)
  ultimately show ?case using builtin_blocks_built(2,3) by (simp add: enumerated_def flip: take_map)
next
  case (line bs line report bs' report')
  then show ?case using load_block_line_ok by blast
qed

lemma reachable_builtin: "reachable_blocks builtin_registry_blocks"
  by (rule built) (rule builtin_blocks_built)

lemma load_normalized_reachable:
  assumes "reachable_blocks bs" and "load_normalized_blocks bs input = Inr (bs', report)"
  shows "reachable_blocks bs'"
proof -
  from assms(2) obtain ls r0 where "foldR load_block_line ls (bs, r0) = Inr (bs', report)"
    by (auto simp: load_normalized_blocks_def split: list.splits if_splits)
  then have "reachable_blocks (fst (bs', report))"
    by (rule foldR_invariant) (use assms(1) in \<open>auto intro: line\<close>)
  then show ?thesis by simp
qed

section \<open>How long breaking takes\<close>

text \<open>The divisor is NaN or at least \<open>2 ^ -10\<close>, possibly infinite.\<close>

abbreviation thousandth :: f32 where "thousandth \<equiv> 0x3A800000"

definition fair :: "f32 \<Rightarrow> bool" where
  "fair d = (f32_nan d \<or> f32_le thousandth d)"

lemma thousandth_value: "f32_finite thousandth" "f32_value thousandth = 2 ^ 139"
  by (simp_all add: f32_finite_def f32_value_def f32_magnitude_def scaled_def signed_def)

lemma f32_infinite:
  assumes "\<not> f32_nan b" and "\<not> f32_finite b"
  shows "f32_magnitude b = 0x7F800000"
  using assms by (simp add: f32_nan_def f32_finite_def)

lemma f32_infinite_sign:
  assumes "f32_le thousandth b" and "\<not> f32_finite b"
  shows "f32_number b = (False, 0x7F800000)"
proof -
  have m: "f32_magnitude b = 0x7F800000" using assms f32_infinite by (auto simp: f32_le_def)
  then have "\<not> bit b 31"
    using assms(1) by (auto simp: f32_le_def f32_rank_def signed_def f32_magnitude_def)
  with m show ?thesis by (simp add: f32_number_def)
qed

lemma f32_nan_result: "f32_nan (f32_of_number (nan_number single_format))"
  using f32_number_of [of "nan_number single_format"] by (simp add: f32_facts nan_number_def single_format_def)

lemma f32_mul_nan: "f32_nan a \<Longrightarrow> f32_nan (f32_mul a b)"
  using f32_nan_result by (simp add: f32_mul_def float_mul_def f32_facts(4))

lemma f32_div_nan: "f32_nan b \<Longrightarrow> f32_nan (f32_div a b)"
  using f32_nan_result by (simp add: f32_div_def float_div_def f32_facts(4))

lemma speed_fair: "fair (f32_max s (f32_ratio 1 1000))"
proof -
  let ?r = "round_float single_format False (1 * 2 ^ 149) 1000"
  have "rank (f32_number thousandth) \<le> rank ?r"
    by (rule round_float_ge)
      (use thousandth_value f32_facts(2,3) [of thousandth] in \<open>simp_all add: finite_number_def signed_def\<close>)
  moreover have "snd ?r \<le> infinity single_format" by (rule round_float_bounded)
  ultimately have "f32_le thousandth (f32_ratio 1 1000)" "\<not> f32_nan (f32_ratio 1 1000)"
    using f32_of_bounded [of ?r] thousandth_value(1) by (simp_all add: f32_ratio_def f32_le_rank f32_facts(1))
  then show ?thesis
    by (auto simp: fair_def f32_max_def f32_less_not_le intro: f32_le_trans)
qed

lemma product_fair:
  assumes "fair s"
  shows "fair (f32_mul s (f32_ratio 30 1))"
proof -
  have t: "f32_finite (f32_ratio 30 1)" "f32_value (f32_ratio 30 1) = 30 * 2 ^ 149"
    using f32_ratio_integer [of 30] by simp_all
  consider "f32_nan s" | "f32_le thousandth s" "f32_finite s" | "f32_le thousandth s" "\<not> f32_finite s"
    using assms by (auto simp: fair_def)
  then show ?thesis
  proof cases
    case 1
    then show ?thesis by (simp add: fair_def f32_mul_nan)
  next
    case 2
    then have "2 ^ 139 \<le> f32_value s" using thousandth_value by (simp add: f32_le_value)
    then have "f32_le thousandth (f32_mul s (f32_ratio 30 1))"
      by (intro f32_mul_ge) (use 2 t thousandth_value in simp_all)
    then show ?thesis by (simp add: fair_def)
  next
    case 3
    note s = f32_infinite_sign [OF 3]
    have "snd (f32_number (f32_ratio 30 1)) \<noteq> 0"
    proof
      assume "snd (f32_number (f32_ratio 30 1)) = 0"
      then have "f32_value (f32_ratio 30 1) = 0" by (simp add: f32_facts float_units_def signed_def)
      with t show False by simp
    qed
    moreover have "snd (f32_number (f32_ratio 30 1)) < infinity single_format" "\<not> fst (f32_number (f32_ratio 30 1))"
    proof -
      show "snd (f32_number (f32_ratio 30 1)) < infinity single_format"
        using t(1) by (simp add: f32_facts finite_number_def)
      have "0 < f32_value (f32_ratio 30 1)" unfolding t(2) by simp
      then show "\<not> fst (f32_number (f32_ratio 30 1))"
        using units_positive by (simp add: f32_facts)
    qed
    ultimately have "float_mul single_format (f32_number s) (f32_number (f32_ratio 30 1)) = (False, 0x7F800000)"
      by (simp add: float_mul_def s single_format_def)
    then have m: "f32_number (f32_mul s (f32_ratio 30 1)) = (False, 0x7F800000)"
      by (simp add: f32_mul_def f32_number_of)
    then have "f32_le thousandth (f32_mul s (f32_ratio 30 1))"
      using thousandth_value(1)
      by (subst f32_le_rank) (simp_all add: f32_facts rank_def signed_def single_format_def,
        simp add: f32_number_def f32_magnitude_def)
    then show ?thesis by (simp add: fair_def)
  qed
qed

lemma quotient_in:
  assumes "f32_in 0 (3000 * 2 ^ 149) a" and "fair d" and "\<not> f32_nan d"
  shows "f32_in 0 (3072000 * 2 ^ 149) (f32_div a d)"
proof (cases "f32_finite d")
  case True
  have i: "f32_finite (f32_ratio 3072000 1)" "f32_value (f32_ratio 3072000 1) = 3072000 * 2 ^ 149"
    using f32_ratio_integer [of 3072000] by simp_all
  have d: "2 ^ 139 \<le> f32_value d" using assms(2,3) True thousandth_value by (simp add: fair_def f32_le_value)
  have "3000 * 2 ^ 149 * 2 ^ 149 = 3072000 * 2 ^ 149 * (2 :: int) ^ 139" by simp
  also have "\<dots> \<le> 3072000 * 2 ^ 149 * f32_value d" using d by (intro mult_left_mono) simp_all
  finally have "f32_value a * 2 ^ 149 \<le> 3072000 * 2 ^ 149 * f32_value d"
    using assms(1) by (simp add: f32_in_def)
  then have "f32_in (f32_value 0) (f32_value (f32_ratio 3072000 1)) (f32_div a d)"
    by (intro f32_div_in) (use assms(1) True i d in \<open>auto simp: f32_in_def\<close>)
  then show ?thesis using i by simp
next
  case False
  note d = f32_infinite_sign [OF _ False]
  have "f32_number d = (False, 0x7F800000)" using assms(2,3) d by (simp add: fair_def)
  moreover have "snd (f32_number a) < infinity single_format"
    using assms(1) by (simp add: f32_in_def f32_facts finite_number_def)
  ultimately have "float_div single_format (f32_number a) (f32_number d) = (fst (f32_number a), 0)"
    by (simp add: float_div_def single_format_def)
  then have "f32_number (f32_div a d) = (fst (f32_number a), 0)" by (simp add: f32_div_def f32_number_of)
  then show ?thesis
    by (simp add: f32_in_def f32_facts finite_number_def single_format_def float_units_def signed_def)
qed

lemma ceil_in:
  assumes "f32_in 0 (int n * 2 ^ 149) q" and "n < 2 ^ 24"
  shows "f32_in 0 (int n * 2 ^ 149) (f32_ceil q)"
proof -
  define i where "i = - (- f32_value q div 2 ^ 149)"
  have q: "f32_finite q" "0 \<le> f32_value q" "f32_value q \<le> int n * 2 ^ 149"
    using assms(1) by (simp_all add: f32_in_def)
  have "- f32_value q div 2 ^ 149 \<le> 0 div 2 ^ 149" by (rule zdiv_mono1) (use q in simp_all)
  then have i0: "0 \<le> i" by (simp add: i_def)
  have "- int n * 2 ^ 149 div 2 ^ 149 \<le> - f32_value q div 2 ^ 149" by (rule zdiv_mono1) (use q in simp_all)
  moreover have "- int n * 2 ^ 149 div 2 ^ 149 = - int n" by (rule nonzero_mult_div_cancel_right) simp
  ultimately have ni: "i \<le> int n" by (simp add: i_def)
  note e = f32_of_int_exact [OF i0]
  have "f32_finite (f32_of_int i)" "f32_value (f32_of_int i) = i * 2 ^ 149" using e ni assms(2) by simp_all
  moreover have "i * 2 ^ 149 \<le> int n * 2 ^ 149" using ni by (intro mult_right_mono) simp_all
  moreover have "f32_finite 0x80000000" "f32_value 0x80000000 = 0"
    by (simp_all add: f32_finite_def f32_value_def f32_magnitude_def signed_def)
  ultimately have "f32_in 0 (int n * 2 ^ 149) (if i = 0 then (if bit q 31 then 0x80000000 else 0) else f32_of_int i)"
    using i0 by (simp add: f32_in_def)
  then show ?thesis unfolding f32_ceil_def Let_def i_def using q(1) by simp
qed

lemma ticks_needed_in:
  assumes "f32_in 0 (100 * 2 ^ 149) (hardness p)"
  shows "f32_in (2 ^ 149) (3072000 * 2 ^ 149) (ticks_needed p tool)"
proof -
  have i: "f32_finite (f32_ratio 1 1)" "f32_value (f32_ratio 1 1) = 2 ^ 149" "f32_finite (f32_ratio 30 1)"
    "f32_value (f32_ratio 30 1) = 30 * 2 ^ 149" "f32_finite (f32_ratio 3000 1)"
    "f32_value (f32_ratio 3000 1) = 3000 * 2 ^ 149"
    using f32_ratio_integer [of 1] f32_ratio_integer [of 30] f32_ratio_integer [of 3000] by simp_all
  define speed where "speed = f32_max (mining_speed tool) (f32_ratio 1 1000)"
  define d where "d = (if requires_tool p \<and> \<not> correct_for_drops tool then speed else f32_mul speed (f32_ratio 30 1))"
  define q where "q = f32_div (f32_mul (hardness p) (f32_ratio 30 1)) d"
  have t: "ticks_needed p tool = f32_max (f32_ratio 1 1) (f32_ceil q)"
    unfolding q_def d_def speed_def ticks_needed_def Let_def by (rule refl)
  have "fair speed" using speed_fair by (simp add: speed_def)
  then have d: "fair d" using product_fair by (simp add: d_def)
  have "f32_in (f32_value 0) (f32_value (f32_ratio 3000 1)) (f32_mul (hardness p) (f32_ratio 30 1))"
    by (rule f32_mul_in) (use assms i in \<open>auto simp: f32_in_def\<close>)
  then have m: "f32_in 0 (3000 * 2 ^ 149) (f32_mul (hardness p) (f32_ratio 30 1))" using i by simp
  show ?thesis
  proof (cases "f32_nan d")
    case True
    then have "f32_nan q" by (simp add: q_def f32_div_nan)
    then have "f32_nan (f32_ceil q)" by (auto simp: f32_ceil_def f32_finite_not_nan)
    then show ?thesis using i by (simp add: t f32_max_def f32_less_def f32_in_def)
  next
    case False
    have "f32_in 0 (int 3072000 * 2 ^ 149) (f32_ceil q)"
      by (rule ceil_in) (use quotient_in [OF m d False] in \<open>simp_all add: q_def\<close>)
    then show ?thesis
      using i by (auto simp: t f32_max_def f32_in_def f32_less_value)
  qed
qed

lemma ticks_cast:
  assumes "f32_in (2 ^ 149) (3072000 * 2 ^ 149) t"
  shows "1 \<le> f32_floor t \<and> f32_floor t \<le> 3072000"
proof -
  have v: "2 ^ 149 \<le> f32_value t" "f32_value t \<le> 3072000 * 2 ^ 149" using assms by (simp_all add: f32_in_def)
  have "(2 ^ 149 :: int) div 2 ^ 149 \<le> f32_value t div 2 ^ 149" by (rule zdiv_mono1) (use v in simp_all)
  moreover have "f32_value t div 2 ^ 149 \<le> 3072000 * 2 ^ 149 div (2 :: int) ^ 149" by (rule zdiv_mono1) (use v in simp_all)
  ultimately show ?thesis by (simp add: f32_floor_def)
qed

section \<open>Properties\<close>

text \<open>Every block of a chunk has a type, and every block an item places.\<close>

definition known_blocks :: "block_registry \<Rightarrow> chunk \<Rightarrow> bool" where
  "known_blocks bs c = (\<forall>p b. chunk_map c p = Some b \<longrightarrow> unat b < length bs)"

definition items_match :: "block_registry \<Rightarrow> item_registry \<Rightarrow> bool" where
  "items_match bs reg = (\<forall>it \<in> set reg. \<forall>b. block_id (properties it) = Some b \<longrightarrow> unat b < length bs)"

lemma known_blocks_update:
  assumes "known_blocks bs c" and "chunk_ok c" "chunk_set_block c x y z b = Inr c'" "unat b < length bs"
  shows "known_blocks bs c'"
  using assms chunk_set_block_map [OF assms(2,3)] by (auto simp: known_blocks_def)

lemma chunk_block_map: "in_chunk (x, y, z) \<Longrightarrow> \<exists>b. chunk_block c x y z = Inr b \<and> chunk_map c (x, y, z) = Some b"
  by (simp add: chunk_block_eq chunk_map_def in_chunk_def)

lemma chunk_set_block_total: "chunk_ok c \<Longrightarrow> in_chunk (x, y, z) \<Longrightarrow> \<exists>c'. chunk_set_block c x y z b = Inr c'"
  using chunk_set_block_spec by blast

lemma block_by_id_known:
  assumes "known_blocks bs c" and "chunk_map c p = Some b"
  shows "block_by_id bs (ucast b) = Inr (bs ! unat b)"
proof -
  have "unat (ucast b :: u32) = unat b" by (rule unat_ucast_u32)
  then show ?thesis using assms by (cases p) (auto simp: block_by_id_def known_blocks_def not_le)
qed

text \<open>What one item taken from a stack leaves.\<close>

lemma take_one:
  assumes "stack_ok reg s" and "\<not> is_empty s"
  shows "stack_ok reg (snd (take_stack s 1)) \<and> amount k (snd (take_stack s 1)) + (if k = kind_of s then 1 else 0) = amount k s"
proof -
  obtain r s' where t: "take_stack s 1 = (r, s')" by (cases "take_stack s 1")
  note T = take_stack_spec [OF assms(1) t]
  have "1 \<le> unat (stack_count s)" using assms(2) by (simp add: is_empty_def unat_gt_0 Suc_le_eq)
  then have r: "unat (stack_count r) = 1" using T(3) by simp
  then have "\<not> is_empty r" by (auto simp: is_empty_def)
  with T(5) r have "amount k r = (if k = kind_of s then 1 else 0)" by (auto simp: amount_def)
  with T(2) T(4) [of k] show ?thesis by (auto simp: t)
qed

text \<open>Placing a block in a chunk of known blocks never fails. It happens exactly when the held stack is not
  empty, its item stands for a block and the block at the position is replaceable; then the chunk changes to
  that block at that position and nowhere else and the stack has one item less. Otherwise nothing changes.\<close>

theorem placing_block:
  assumes "chunk_ok c" "known_blocks bs c" and "stack_ok reg held" "items_match bs reg" "length bs \<le> 2 ^ 16"
    and "in_chunk (x, y, z)"
  shows "\<exists>placed c' held'. place bs reg c x y z held = Inr (placed, c', held') \<and>
    chunk_ok c' \<and> known_blocks bs c' \<and> stack_ok reg held' \<and>
    (placed \<longleftrightarrow> \<not> is_empty held \<and> block_id (properties (reg ! unat (stack_item held))) \<noteq> None \<and>
       (\<exists>target. chunk_map c (x, y, z) = Some target \<and> replaceable (block_traits (bs ! unat target)))) \<and>
    (if placed
     then \<exists>b. block_id (properties (reg ! unat (stack_item held))) = Some b \<and>
       (\<exists>b'. unat b' = unat b \<and> chunk_map c' = (chunk_map c)((x, y, z) \<mapsto> b')) \<and>
       (\<forall>k. amount k held' + (if k = kind_of held then 1 else 0) = amount k held)
     else c' = c \<and> held' = held)"
proof (cases "is_empty held \<or> block_id (properties (reg ! unat (stack_item held))) = None")
  case True
  have v: "validate_stack reg held = Inr ()" using assms(3) by (simp add: stack_ok_def)
  have "by_id reg (stack_item held) = Inr (reg ! unat (stack_item held))" if "\<not> is_empty held"
    using assms(3) that by (auto simp: stack_ok_iff by_id_def)
  with True v have "place bs reg c x y z held = Inr (False, c, held)" by (auto simp: place_def)
  with True assms(1-3) show ?thesis by auto
next
  case False
  have v: "validate_stack reg held = Inr ()" using assms(3) by (simp add: stack_ok_def)
  have i: "unat (stack_item held) < length reg" using assms(3) False by (auto simp: stack_ok_iff)
  then have it: "by_id reg (stack_item held) = Inr (reg ! unat (stack_item held))" by (simp add: by_id_def)
  from False obtain b where b: "block_id (properties (reg ! unat (stack_item held))) = Some b" by auto
  have bl: "unat b < length bs" using assms(4) b i by (auto simp: items_match_def)
  then have "unat b < 2 ^ 16" using assms(5) by simp
  then have ub: "unat (ucast b :: u16) = unat b" by (simp add: unsigned_ucast_eq take_bit_nat_eq_self_iff)
  obtain target where t: "chunk_block c x y z = Inr target" "chunk_map c (x, y, z) = Some target"
    using chunk_block_map [OF assms(6)] by blast
  note bt = block_by_id_known [OF assms(2) t(2)]
  obtain c' where c': "chunk_set_block c x y z (ucast b) = Inr c'"
    using chunk_set_block_total [OF assms(1,6)] by blast
  have p: "place bs reg c x y z held =
      (if replaceable (block_traits (bs ! unat target)) then Inr (True, c', snd (take_stack held 1)) else Inr (False, c, held))"
    using v it b t bt c' bl False by (simp add: place_def block_by_id_def)
  show ?thesis
  proof (cases "replaceable (block_traits (bs ! unat target))")
    case True
    have "known_blocks bs c'" using known_blocks_update [OF assms(2,1) c'] ub bl by simp
    with True p b t False chunk_set_block_ok [OF assms(1) c'] chunk_set_block_map [OF assms(1) c'] ub
      take_one [OF assms(3)]
    show ?thesis by auto
  next
    case False
    with p t assms(1-3) show ?thesis by auto
  qed
qed

text \<open>The drops of a block are one item that the registry knows.\<close>

lemma drops_of_ok:
  assumes "registry_ok reg" "length reg \<le> 2 ^ 32" and "item_name (hd reg) = air_location" and "block_ok b"
  shows "drops_of reg (block_traits b) tool \<noteq> [] \<longleftrightarrow> (requires_tool (block_traits b) \<longrightarrow> correct_for_drops tool) \<and>
      (\<exists>it \<in> set reg. block_drops (block_traits b) = Some (item_name it))"
    and "drops_of reg (block_traits b) tool \<noteq> [] \<Longrightarrow> \<exists>s. drops_of reg (block_traits b) tool = [s] \<and> stack_ok reg s \<and>
      stack_count s = 1 \<and> block_drops (block_traits b) = Some (item_name (reg ! unat (stack_item s)))"
proof -
  let ?p = "block_traits b"
  have find: "(\<exists>it \<in> set reg. n = item_name it) \<longleftrightarrow> is_ok (by_location reg n)" for n
    by (auto simp: by_location_def is_ok_def find_None_iff find_Some_iff split: option.splits)
  show "drops_of reg ?p tool \<noteq> [] \<longleftrightarrow> (requires_tool ?p \<longrightarrow> correct_for_drops tool) \<and>
      (\<exists>it \<in> set reg. block_drops ?p = Some (item_name it))"
    using find by (auto simp: drops_of_def is_ok_def split: option.splits sum.splits)
  assume "drops_of reg ?p tool \<noteq> []"
  then obtain name it where n: "block_drops ?p = Some name" "by_location reg name = Inr it"
    "drops_of reg ?p tool = [new_stack (item_index it) 1 0 []]"
    by (auto simp: drops_of_def split: option.splits if_splits sum.splits)
  then obtain i where i: "i < length reg" "it = reg ! i" "item_name it = name"
    by (auto simp: by_location_def find_Some_iff split: option.splits)
  have idx: "item_index it = word_of_nat i" using assms(1) i(1,2) by (simp add: registry_ok_def)
  have u: "unat (item_index it) = i" using i(1) assms(2) by (simp add: idx unat_of_nat)
  have "i \<noteq> 0"
  proof
    assume "i = 0"
    then have "name = air_location" using i assms(3) by (cases reg) auto
    with n(1) assms(4) show False by (simp add: block_ok_def)
  qed
  then have nz: "item_index it \<noteq> 0" using u by (metis unat_0)
  have s: "new_stack (item_index it) 1 0 [] = \<lparr>stack_item = item_index it, stack_count = 1, stack_damage = 0, components = []\<rparr>"
    by (simp add: new_stack_def normalize_stack_def)
  then have sc: "stack_count (new_stack (item_index it) 1 0 []) = 1" "stack_item (new_stack (item_index it) 1 0 []) = item_index it"
    by simp_all
  have "item_ok it" using assms(1) i by (auto simp: registry_ok_def list_all_length)
  then have "stack_ok reg (new_stack (item_index it) 1 0 [])"
    using nz u i unfolding s by (auto simp: stack_ok_iff is_empty_def stack_limit_def item_ok_def Let_def)
  then show "\<exists>s. drops_of reg ?p tool = [s] \<and> stack_ok reg s \<and> stack_count s = 1 \<and>
      block_drops ?p = Some (item_name (reg ! unat (stack_item s)))"
    using n i u sc by auto
qed

lemma break_ticks_eq:
  assumes "known_blocks bs c" and "chunk_block c x y z = Inr b" "chunk_map c (x, y, z) = Some b"
    and "b \<noteq> air" "\<not> f32_less (hardness (block_traits (bs ! unat b))) 0"
  shows "break_ticks bs c x y z tool = Inr (word_of_int (f32_floor (ticks_needed (block_traits (bs ! unat b)) tool)))"
  using assms block_by_id_known [OF assms(1,3)] by (simp add: break_ticks_def air_def)

lemma block_ok_nth: "reachable_blocks bs \<Longrightarrow> i < length bs \<Longrightarrow> block_ok (bs ! i)"
  using reachable_blocks_ok [of bs] by (simp add: blocks_ok_def list_all_length)

lemma breakable_ticks:
  fixes tool :: tool_context
  assumes "block_ok b" and "\<not> f32_less (hardness (block_traits b)) 0"
  defines "t \<equiv> f32_floor (ticks_needed (block_traits b) tool)"
  shows "1 \<le> t \<and> t \<le> 3072000 \<and> uint (word_of_int t :: u32) = t"
proof -
  have "f32_in 0 (100 * 2 ^ 149) (hardness (block_traits b))"
    using assms(1,2) by (auto simp: block_ok_def f32_in_def f32_less_value)
  then have "1 \<le> t \<and> t \<le> 3072000" unfolding t_def by (rule ticks_cast [OF ticks_needed_in])
  then show ?thesis by (simp add: unsigned_of_int take_bit_int_eq_self_iff)
qed

text \<open>Breaking a block with any tool, even one whose speed is not a number, never fails in a chunk of known
  blocks. It happens exactly when the block is not air and its hardness is not negative; then the chunk changes
  to air at that position and nowhere else, the ticks are those of \<open>break_ticks\<close>, at least one and at most
  3072000, so the cast of the float is defined, and the drops are at most one valid stack: a single item of
  the name the block drops, when the registry has it and the tool suffices. Otherwise nothing changes.\<close>

theorem breaking_block:
  assumes "reachable_blocks bs" and "chunk_ok c" "known_blocks bs c" "in_chunk (x, y, z)"
    and "registry_ok reg" "length reg \<le> 2 ^ 32" "item_name (hd reg) = air_location"
  shows "\<exists>r c' b. break_block bs reg c x y z tool = Inr (r, c') \<and> chunk_map c (x, y, z) = Some b \<and>
    chunk_ok c' \<and> known_blocks bs c' \<and>
    (broken r \<longleftrightarrow> b \<noteq> air \<and> \<not> f32_less (hardness (block_traits (bs ! unat b))) 0) \<and>
    (if broken r
     then chunk_map c' = (chunk_map c)((x, y, z) \<mapsto> air) \<and>
       break_ticks bs c x y z tool = Inr (break_time r) \<and> 1 \<le> unat (break_time r) \<and> unat (break_time r) \<le> 3072000 \<and>
       uint (break_time r) = f32_floor (ticks_needed (block_traits (bs ! unat b)) tool) \<and>
       (drops r \<noteq> [] \<longleftrightarrow> (requires_tool (block_traits (bs ! unat b)) \<longrightarrow> correct_for_drops tool) \<and>
          (\<exists>it \<in> set reg. block_drops (block_traits (bs ! unat b)) = Some (item_name it))) \<and>
       (drops r \<noteq> [] \<longrightarrow> (\<exists>s. drops r = [s] \<and> stack_ok reg s \<and> stack_count s = 1 \<and>
          block_drops (block_traits (bs ! unat b)) = Some (item_name (reg ! unat (stack_item s)))))
     else r = nothing_broken \<and> c' = c)"
proof -
  obtain b where b: "chunk_block c x y z = Inr b" "chunk_map c (x, y, z) = Some b"
    using chunk_block_map [OF assms(4)] by blast
  note id = block_by_id_known [OF assms(3) b(2)]
  have "unat b < length bs" using assms(3) b(2) by (auto simp: known_blocks_def)
  then have ok: "block_ok (bs ! unat b)" by (rule block_ok_nth [OF assms(1)])
  show ?thesis
  proof (cases "b = air \<or> f32_less (hardness (block_traits (bs ! unat b))) 0")
    case True
    then have "break_block bs reg c x y z tool = Inr (nothing_broken, c)"
      using b id by (simp add: break_block_def air_def)
    with True b assms(2,3) show ?thesis by (auto simp: nothing_broken_def)
  next
    case False
    define t where "t = f32_floor (ticks_needed (block_traits (bs ! unat b)) tool)"
    have bt: "break_ticks bs c x y z tool = Inr (word_of_int t)"
      using break_ticks_eq [OF assms(3) b] False by (simp add: t_def)
    have t: "1 \<le> t" "t \<le> 3072000" "uint (word_of_int t :: u32) = t"
      using breakable_ticks [OF ok] False by (simp_all add: t_def)
    then have "unat (word_of_int t :: u32) = nat t" by (simp flip: nat_uint_eq)
    then have ut: "1 \<le> unat (word_of_int t :: u32)" "unat (word_of_int t :: u32) \<le> 3072000"
      using t(1,2) by linarith+
    obtain c' where c': "chunk_set_block c x y z air = Inr c'"
      using chunk_set_block_total [OF assms(2,4)] by blast
    have br: "break_block bs reg c x y z tool = Inr (\<lparr>broken = True, break_time = word_of_int t,
        drops = drops_of reg (block_traits (bs ! unat b)) tool\<rparr>, c')"
      using b id False bt c' by (simp add: break_block_def air_def)
    have "0 < length bs" using \<open>unat b < length bs\<close> by linarith
    then have "known_blocks bs c'" using known_blocks_update [OF assms(3,2) c'] by (simp add: air_def)
    then show ?thesis
      using br b False bt t ut chunk_set_block_ok [OF assms(2) c'] chunk_set_block_map [OF assms(2) c']
        drops_of_ok [OF assms(5-7) ok, of tool]
      by (intro exI [of _ "\<lparr>broken = True, break_time = word_of_int t,
          drops = drops_of reg (block_traits (bs ! unat b)) tool\<rparr>"] exI [of _ c'] exI [of _ b]) (simp add: t_def)
  qed
qed

text \<open>Dirt placed in a new chunk, and broken again.\<close>

definition dirt_stack :: item_stack where
  "dirt_stack = \<lparr>stack_item = 3, stack_count = 2, stack_damage = 0, components = []\<rparr>"

definition dirt_registry :: "item_registry \<Rightarrow> bool" where
  "dirt_registry reg = (item_name (hd reg) = air_location \<and> block_id (properties (reg ! 3)) = Some 3 \<and>
     list_all (\<lambda>it. case block_id (properties it) of None \<Rightarrow> True | Some b \<Rightarrow> b < 15) reg \<and>
     validate_stack reg dirt_stack = Inr ())"

lemma dirt_in_registry: "dirt_registry builtin_registry"
  by code_simp

lemma list_all2_nth0: "list_all2 P (x # xs) ys \<Longrightarrow> P x (ys ! 0)"
  by (auto simp: list_all2_Cons1)

lemma builtin_facts:
  "length builtin_registry_blocks = 15" "replaceable (block_traits (builtin_registry_blocks ! 0))"
  "item_name (hd builtin_registry) = air_location" "items_match builtin_registry_blocks builtin_registry"
  "block_id (properties (builtin_registry ! 3)) = Some 3" "stack_ok builtin_registry dirt_stack"
proof -
  show l: "length builtin_registry_blocks = 15"
    using arg_cong [OF builtin_blocks_built(3), of length] by (simp add: block_names_def)
  show "replaceable (block_traits (builtin_registry_blocks ! 0))"
    using list_all2_nth0 [OF builtin_blocks_built(4) [unfolded builtin_blocks_def]] by simp
  show "item_name (hd builtin_registry) = air_location" "block_id (properties (builtin_registry ! 3)) = Some 3"
    "stack_ok builtin_registry dirt_stack"
    using dirt_in_registry by (simp_all add: dirt_registry_def stack_ok_def)
  have "list_all (\<lambda>it. case block_id (properties it) of None \<Rightarrow> True | Some b \<Rightarrow> b < 15) builtin_registry"
    using dirt_in_registry by (simp add: dirt_registry_def)
  then show "items_match builtin_registry_blocks builtin_registry"
    unfolding items_match_def l list_all_iff by (auto simp: word_less_nat_alt split: option.splits)
qed

lemma new_chunk_known: "0 < length bs \<Longrightarrow> known_blocks bs (new_chunk pos)"
  by (auto simp: known_blocks_def chunk_map_def new_chunk_def block_at_def Let_def empty_section_def air_def in_chunk_def
      cell_less build_y split: if_splits prod.splits)


theorem placing_block_witness:
  "\<exists>c' held'. place builtin_registry_blocks builtin_registry (new_chunk origin) 3 70 5 dirt_stack = Inr (True, c', held') \<and>
     chunk_map c' (3, 70, 5) \<noteq> None \<and> amount (kind_of dirt_stack) held' = 1"
proof -
  have r: "in_chunk (3, 70, 5)" by (simp add: in_chunk_def build_y)
  have known: "known_blocks builtin_registry_blocks (new_chunk origin)"
    by (rule new_chunk_known) (simp add: builtin_facts)
  have at: "chunk_map (new_chunk origin) (3, 70, 5) = Some 0"
    by (simp add: chunk_map_def in_chunk_def build_y block_at_def new_chunk_def empty_section_def cell_def air_def)
  have "length builtin_registry_blocks \<le> 2 ^ 16" by (simp add: builtin_facts)
  note placing_block [OF new_chunk_ok known builtin_facts(6,4) this r]
  moreover have "\<not> is_empty dirt_stack" "unat (stack_item dirt_stack) = 3" by (simp_all add: dirt_stack_def is_empty_def)
  ultimately obtain c' held' b' where p:
    "place builtin_registry_blocks builtin_registry (new_chunk origin) 3 70 5 dirt_stack = Inr (True, c', held')"
    "chunk_map c' = (chunk_map (new_chunk origin))((3, 70, 5) \<mapsto> b')"
    "\<And>k. amount k held' + (if k = kind_of dirt_stack then 1 else 0) = amount k dirt_stack"
    using at builtin_facts(2,5) by auto
  have "amount (kind_of dirt_stack) dirt_stack = 2" by (simp add: amount_def dirt_stack_def)
  then have "amount (kind_of dirt_stack) held' = 1" using p(3) [of "kind_of dirt_stack"] by simp
  with p(1,2) show ?thesis by auto
qed

theorem breaking_block_witness:
  "\<exists>c r c'. chunk_set_block (new_chunk origin) 3 70 5 stone = Inr c \<and>
     break_block builtin_registry_blocks builtin_registry c 3 70 5 bare_hand = Inr (r, c')"
proof -
  have r: "in_chunk (3, 70, 5)" by (simp add: in_chunk_def build_y)
  have known: "known_blocks builtin_registry_blocks (new_chunk origin)"
    by (rule new_chunk_known) (simp add: builtin_facts)
  obtain c where c: "chunk_set_block (new_chunk origin) 3 70 5 stone = Inr c"
    using chunk_set_block_total [OF new_chunk_ok r] by blast
  have "known_blocks builtin_registry_blocks c"
    by (rule known_blocks_update [OF known new_chunk_ok c]) (simp add: stone_def builtin_facts)
  moreover have "length builtin_registry \<le> 2 ^ 32" by (simp add: builtin_registry_ok(3))
  ultimately show ?thesis
    using breaking_block [OF reachable_builtin chunk_set_block_ok [OF new_chunk_ok c] _ r builtin_registry_ok(2) _
        builtin_facts(3), of bare_hand] c by blast
qed

end
