(* ===== verification/Dropped_Items.thy ===== *)
theory Dropped_Items
  imports Entity_Facts
begin

text \<open>
  Items that lie in the world (src/entity/dropped_item.cpp): dropping a stack, merging
  stacks that lie close to each other, ageing and picking up. A tick neither makes items
  nor loses them, but by age.
\<close>

section \<open>The system\<close>

record dropped =
  dropped_stack :: item_stack
  pickup_delay :: u32
  lifetime :: u32

type_synonym dropped_items = "(entity_id \<times> dropped) list"

definition dropped_spawn :: "item_stack \<Rightarrow> vec3 \<Rightarrow> u32 \<Rightarrow> u32 \<Rightarrow> entity_manager \<Rightarrow> dropped_items \<Rightarrow>
    (entity_id \<times> entity_manager \<times> dropped_items) result" where
  "dropped_spawn stack p delay life m ds =
     guardR (is_empty stack \<or> life = 0) (Invalid_Argument ''dropped item fields are invalid'')
     (bindR (spawn ''item'' p m) (\<lambda>(i, m).
       let m = on_entity i (\<lambda>e. e\<lparr>velocity := vec3 0 (f64_ratio 1 10) 0\<rparr>) m
       in Inr (i, m, if map_of ds i \<noteq> None then ds
            else put_key (\<lambda>a b. a < b) i \<lparr>dropped_stack = stack, pickup_delay = delay, lifetime = life\<rparr> ds)))"

section \<open>Merging\<close>

record merging =
  merged_entities :: entity_manager
  merged_items :: dropped_items
  merged_away :: "entity_id list"
  changed_items :: "entity_id list"

text \<open>
  The body of the inner loop, for two items; \<open>l\<close> and \<open>e\<close> are what the iterator and the
  pointer of the left one refer to. The comparison of the distance is the one that
  leaves the loop, so items at positions that are not numbers do merge.
\<close>

definition set_stack :: "entity_id \<Rightarrow> item_stack \<Rightarrow> dropped_items \<Rightarrow> dropped_items" where
  "set_stack i s ds = map (\<lambda>(k, d). (k, if k = i then d\<lparr>dropped_stack := s\<rparr> else d)) ds"

definition merge_pair :: "item_registry \<Rightarrow> entity_id \<Rightarrow> entity_id \<Rightarrow> merging \<Rightarrow> merging result" where
  "merge_pair reg i j st = (case (map_of (merged_items st) i, find_entity (merged_entities st) i) of
     (Some l, Some e) \<Rightarrow> (case (map_of (merged_items st) j, find_entity (merged_entities st) j) of
       (Some r, Some f) \<Rightarrow>
         if j \<in> set (merged_away st) \<or> \<not> can_merge (dropped_stack l) (dropped_stack r) \<or>
           f64_less (f64_ratio 1 1) (length_squared (vec_sub (position e) (position f)))
         then Inr st
         else bindR (insert_from reg (dropped_stack l) (dropped_stack r)) (\<lambda>(_, s, t).
           let st = st\<lparr>merged_items := set_stack j t (set_stack i s (merged_items st))\<rparr>;
               st = (if stack_count s \<noteq> stack_count (dropped_stack l)
                     then st\<lparr>changed_items := changed_items st @ [i]\<rparr> else st)
           in if is_empty t
              then Inr (st\<lparr>merged_away := merged_away st @ [j],
                merged_entities := snd (remove_entity j (merged_entities st))\<rparr>)
              else Inr st)
     | _ \<Rightarrow> Inr st)
   | _ \<Rightarrow> Inr st)"

text \<open>The outer loop, over the keys the system had when the tick began.\<close>

fun merge_items :: "item_registry \<Rightarrow> entity_id list \<Rightarrow> merging \<Rightarrow> merging result" where
  "merge_items reg [] st = Inr st"
| "merge_items reg (i # ids) st =
     bindR (if map_of (merged_items st) i = None \<or> find_entity (merged_entities st) i = None \<or>
              i \<in> set (merged_away st)
            then Inr st else foldR (merge_pair reg i) ids st) (merge_items reg ids)"

section \<open>Ageing and pickup\<close>

record dropped_tick_result =
  pickups :: "(entity_id \<times> item_stack) list"
  changed_drops :: "entity_id list"

definition in_reach :: "vec3 option \<Rightarrow> entity \<Rightarrow> bool" where
  "in_reach collector e = (case collector of None \<Rightarrow> False
     | Some c \<Rightarrow> f64_le (length_squared (vec_sub (position e) c)) (f64_ratio 9 4))"

fun age_items :: "entity_id list \<Rightarrow> vec3 option \<Rightarrow> dropped_items \<Rightarrow> entity_manager \<Rightarrow>
    (entity_id \<times> item_stack) list \<times> entity_manager \<times> dropped_items" where
  "age_items away collector [] m = ([], m, [])"
| "age_items away collector ((i, d) # ds) m = (case find_entity m i of
     None \<Rightarrow> age_items away collector ds m
   | Some e \<Rightarrow>
       if i \<in> set away then age_items away collector ds m
       else if lifetime d \<le> 1 then age_items away collector ds (snd (remove_entity i m))
       else
         let delay = (if pickup_delay d > 0 then pickup_delay d - 1 else pickup_delay d);
             d = d\<lparr>lifetime := lifetime d - 1, pickup_delay := delay\<rparr>
         in if delay = 0 \<and> in_reach collector e
            then let (ps, m, ds) = age_items away collector ds (snd (remove_entity i m))
              in ((i, dropped_stack d) # ps, m, ds)
            else let (ps, m, ds) = age_items away collector ds m in (ps, m, (i, d) # ds))"

definition dropped_tick :: "item_registry \<Rightarrow> vec3 option \<Rightarrow> entity_manager \<Rightarrow> dropped_items \<Rightarrow>
    (dropped_tick_result \<times> entity_manager \<times> dropped_items) result" where
  "dropped_tick reg collector m ds =
     bindR (merge_items reg (map fst ds)
       \<lparr>merged_entities = m, merged_items = ds, merged_away = [], changed_items = []\<rparr>) (\<lambda>st.
       let (ps, m, ds) = age_items (merged_away st) collector (merged_items st) (merged_entities st)
       in Inr (\<lparr>pickups = ps, changed_drops = changed_items st\<rparr>, m, ds))"

definition dropped_stack_of :: "dropped_items \<Rightarrow> entity_id \<Rightarrow> item_stack option" where
  "dropped_stack_of ds i = map_option dropped_stack (map_of ds i)"

section \<open>What a tick keeps\<close>

text \<open>How many items of a kind lie around.\<close>

definition dropped_total :: "item_kind \<Rightarrow> dropped_items \<Rightarrow> nat" where
  "dropped_total k ds = (\<Sum>(i, d) \<leftarrow> ds. amount k (dropped_stack d))"

definition stacks_total :: "item_kind \<Rightarrow> (entity_id \<times> item_stack) list \<Rightarrow> nat" where
  "stacks_total k ps = (\<Sum>(i, s) \<leftarrow> ps. amount k s)"

definition dropped_ok :: "item_registry \<Rightarrow> dropped_items \<Rightarrow> bool" where
  "dropped_ok reg ds = (sorted_wrt (<) (map fst ds) \<and> (\<forall>(i, d) \<in> set ds.
     stack_ok reg (dropped_stack d) \<and> \<not> is_empty (dropped_stack d) \<and> lifetime d \<noteq> 0))"

definition linked :: "entity_manager \<Rightarrow> bool" where
  "linked m = (\<exists>X. manager_ok X m)"

lemma linked_remove:
  assumes "linked m"
  shows "linked (snd (remove_entity i m))" and "present (snd (remove_entity i m)) = present m - {i}"
  using assms remove_entity_ok(1,2) unfolding linked_def by blast+

lemma linked_step: "linked m \<Longrightarrow> entity_step pow m n \<Longrightarrow> linked n"
  unfolding linked_def using entity_step_ok by blast

lemma set_stack_keys [simp]: "map fst (set_stack i s ds) = map fst ds"
  by (simp add: set_stack_def case_prod_unfold comp_def)

lemma set_stack_other: "i \<notin> fst ` set ds \<Longrightarrow> set_stack i s ds = ds"
  by (force simp: set_stack_def intro: map_idI)

lemma set_stack_total:
  assumes "distinct (map fst ds)" and "map_of ds i = Some d"
  shows "dropped_total k (set_stack i s ds) + amount k (dropped_stack d) = dropped_total k ds + amount k s"
  using assms
proof (induction ds)
  case (Cons x ds)
  obtain j e where x: "x = (j, e)" by (cases x)
  show ?case
  proof (cases "j = i")
    case True
    then have "set_stack i s ds = ds" using Cons.prems(1) x by (intro set_stack_other) simp
    with True x Cons.prems(2) show ?thesis by (simp add: dropped_total_def) (simp add: set_stack_def)
  next
    case False
    with Cons x show ?thesis by (simp add: dropped_total_def) (simp add: set_stack_def)
  qed
qed simp

lemma map_of_set_stack:
  "map_of (set_stack i s ds) j = (if j = i then map_option (\<lambda>d. d\<lparr>dropped_stack := s\<rparr>) (map_of ds j) else map_of ds j)"
  by (induction ds) (auto simp: set_stack_def)

lemma set_set_stack:
  "(j, d) \<in> set (set_stack i s ds) \<Longrightarrow> \<exists>e. (j, e) \<in> set ds \<and> d = (if j = i then e\<lparr>dropped_stack := s\<rparr> else e)"
  by (auto simp: set_stack_def)

text \<open>
  While items merge: those that are empty are the ones merged away, whose entities
  are gone; nothing else of an item changes, and no entity besides these.
\<close>

definition merging_ok :: "item_registry \<Rightarrow> entity_manager \<Rightarrow> dropped_items \<Rightarrow> merging \<Rightarrow> bool" where
  "merging_ok reg m ds st = (linked (merged_entities st) \<and>
     list_all2 (\<lambda>(i, d) (j, e). j = i \<and> e\<lparr>dropped_stack := dropped_stack d\<rparr> = d \<and> stack_ok reg (dropped_stack e) \<and>
       (is_empty (dropped_stack e) \<longleftrightarrow> i \<in> set (merged_away st))) ds (merged_items st) \<and>
     present (merged_entities st) = present m - set (merged_away st) \<and>
     (\<forall>k. dropped_total k (merged_items st) = dropped_total k ds) \<and>
     set (changed_items st) \<union> set (merged_away st) \<subseteq> fst ` set ds)"

lemma merging_keys: "merging_ok reg m ds st \<Longrightarrow> map fst (merged_items st) = map fst ds"
proof -
  assume "merging_ok reg m ds st"
  then have "list_all2 (\<lambda>x y. fst y = fst x) ds (merged_items st)"
    unfolding merging_ok_def by (auto elim!: list_all2_mono)
  then show ?thesis by (induction rule: list_all2_induct) auto
qed

lemma merging_item:
  assumes "merging_ok reg m ds st" and "map_of (merged_items st) i = Some e"
  shows "stack_ok reg (dropped_stack e) \<and> (is_empty (dropped_stack e) \<longleftrightarrow> i \<in> set (merged_away st)) \<and> i \<in> fst ` set ds"
proof -
  have "(i, e) \<in> set (merged_items st)" using assms(2) by (rule map_of_SomeD)
  then obtain n where n: "n < length (merged_items st)" "merged_items st ! n = (i, e)" by (auto simp: in_set_conv_nth)
  have l: "list_all2 (\<lambda>(i, d) (j, e). j = i \<and> e\<lparr>dropped_stack := dropped_stack d\<rparr> = d \<and> stack_ok reg (dropped_stack e) \<and>
       (is_empty (dropped_stack e) \<longleftrightarrow> i \<in> set (merged_away st))) ds (merged_items st)"
    using assms(1) by (simp add: merging_ok_def)
  then have nl: "n < length ds" using n(1) by (simp add: list_all2_lengthD)
  show ?thesis
    using list_all2_nthD [OF l nl] n(2) nth_mem [OF nl] by (auto split: prod.splits simp: rev_image_eqI)
qed

lemma merging_lifetime:
  assumes "merging_ok reg m ds st" and "(i, e) \<in> set (merged_items st)"
  shows "\<exists>d. (i, d) \<in> set ds \<and> lifetime d = lifetime e"
proof -
  have "list_all2 (\<lambda>(i, d) (j, e). j = i \<and> lifetime d = lifetime e) ds (merged_items st)"
    using assms(1) unfolding merging_ok_def
    by (auto elim!: list_all2_mono dest: arg_cong [where f = lifetime])
  then show ?thesis using assms(2) by (auto simp: list_all2_conv_all_nth in_set_conv_nth) force
qed

lemma merge_pair_ok:
  assumes ok: "merging_ok reg m ds st" and "distinct (map fst ds)" and "i \<noteq> j"
  shows "\<exists>st'. merge_pair reg i j st = Inr st' \<and> merging_ok reg m ds st'"
proof -
  consider "merge_pair reg i j st = Inr st"
    | l e r f where "map_of (merged_items st) i = Some l" "map_of (merged_items st) j = Some r"
      "can_merge (dropped_stack l) (dropped_stack r)"
      "find_entity (merged_entities st) i = Some e" "find_entity (merged_entities st) j = Some f"
      "j \<notin> set (merged_away st)" "\<not> f64_less (f64_ratio 1 1) (length_squared (vec_sub (position e) (position f)))"
  proof (cases "merge_pair reg i j st = Inr st")
    case False
    then show ?thesis
      using that(2) unfolding merge_pair_def
      by (cases "map_of (merged_items st) i"; cases "find_entity (merged_entities st) i";
          cases "map_of (merged_items st) j"; cases "find_entity (merged_entities st) j"; fastforce split: if_splits)
  qed
  then show ?thesis
  proof cases
    case 1
    with ok show ?thesis by blast
  next
    case (2 l e r f)
    note li = merging_item [OF ok 2(1)] and ri = merging_item [OF ok 2(2)]
    have ne: "\<not> is_empty (dropped_stack l)" "\<not> is_empty (dropped_stack r)"
      using 2(3) by (auto simp: can_merge_def)
    obtain q s t where ins: "insert_from reg (dropped_stack l) (dropped_stack r) = Inr (q, s, t)"
      "stack_ok reg s" "stack_ok reg t" "\<And>k. amount k s + amount k t = amount k (dropped_stack l) + amount k (dropped_stack r)"
      using insert_from_spec [of reg "dropped_stack l" "dropped_stack r"] li ri by metis
    have nes: "\<not> is_empty s"
    proof
      assume "is_empty s"
      moreover have "is_empty s \<longrightarrow> is_empty t"
        using insert_from_spec [of reg "dropped_stack l" "dropped_stack r"] li ri ins(1) by auto
      ultimately have "amount (kind_of (dropped_stack l)) (dropped_stack l) = 0"
        using ins(4) [of "kind_of (dropped_stack l)"] by (simp add: amount_is_empty)
      with ne show False by (simp add: amount_def is_empty_def unat_eq_0)
    qed
    define items where "items = set_stack j t (set_stack i s (merged_items st))"
    have keys: "distinct (map fst (merged_items st))" using merging_keys [OF ok] assms(2) by simp
    have tot: "dropped_total k items = dropped_total k (merged_items st)" for k
    proof -
      have "dropped_total k items + amount k (dropped_stack r) = dropped_total k (set_stack i s (merged_items st)) + amount k t"
        unfolding items_def by (rule set_stack_total) (use keys 2(2) assms(3) in \<open>simp_all add: map_of_set_stack\<close>)
      moreover have "dropped_total k (set_stack i s (merged_items st)) + amount k (dropped_stack l) =
          dropped_total k (merged_items st) + amount k s"
        by (rule set_stack_total [OF keys 2(1)])
      ultimately show ?thesis using ins(4) [of k] by linarith
    qed
    have away: "i \<notin> set (merged_away st)" "j \<notin> set (merged_away st)" using li ri ne by simp_all
    have l: "list_all2 (\<lambda>(i, d) (j, e). j = i \<and> e\<lparr>dropped_stack := dropped_stack d\<rparr> = d \<and> stack_ok reg (dropped_stack e) \<and>
       (is_empty (dropped_stack e) \<longleftrightarrow> i \<in> set (merged_away st))) ds (merged_items st)"
      using ok by (simp add: merging_ok_def)
    have l2: "list_all2 (\<lambda>(a, d) (b, e). b = a \<and> e\<lparr>dropped_stack := dropped_stack d\<rparr> = d \<and> stack_ok reg (dropped_stack e) \<and>
       (is_empty (dropped_stack e) \<longleftrightarrow> a \<in> set (if is_empty t then merged_away st @ [j] else merged_away st))) ds items"
      unfolding items_def set_stack_def list.rel_map comp_def
      by (rule list_all2_mono [OF l]) (use assms(3) nes ins(2,3) away in \<open>auto split: if_splits\<close>)
    define st1 where "st1 = st\<lparr>merged_items := items,
      changed_items := (if stack_count s \<noteq> stack_count (dropped_stack l) then changed_items st @ [i] else changed_items st)\<rparr>"
    define st2 where "st2 = (if is_empty t then st1\<lparr>merged_away := merged_away st @ [j],
        merged_entities := snd (remove_entity j (merged_entities st))\<rparr> else st1)"
    have "merge_pair reg i j st = Inr st2"
      using 2 by (simp add: merge_pair_def ins(1) Let_def st2_def st1_def items_def)
    moreover have "merging_ok reg m ds st2"
      using ok l2 tot linked_remove [of "merged_entities st" j] li ri
      by (auto simp: merging_ok_def st2_def st1_def)
    ultimately show ?thesis by blast
  qed
qed

lemma merge_items_ok:
  assumes "merging_ok reg m ds st" and "distinct (map fst ds)" and "distinct ids"
  shows "\<exists>st'. merge_items reg ids st = Inr st' \<and> merging_ok reg m ds st'"
  using assms(1,3)
proof (induction ids arbitrary: st)
  case (Cons i ids)
  have inner: "\<exists>st'. foldR (merge_pair reg i) js st = Inr st' \<and> merging_ok reg m ds st'"
    if "i \<notin> set js" "merging_ok reg m ds st" for js st
    using that
  proof (induction js arbitrary: st)
    case (Cons j js)
    then obtain st' where "merge_pair reg i j st = Inr st'" "merging_ok reg m ds st'"
      using merge_pair_ok [OF Cons.prems(2) assms(2), of i j] by auto
    with Cons.IH [of st'] Cons.prems(1) show ?case by simp
  qed simp
  obtain st' where st': "foldR (merge_pair reg i) ids st = Inr st'" "merging_ok reg m ds st'"
    using inner [of ids st] Cons.prems by auto
  show ?case using Cons.IH [OF Cons.prems(1)] Cons.IH [OF st'(2)] Cons.prems(2) st'(1) by simp
qed simp

lemma dropped_total_Cons [simp]: "dropped_total k ((i, d) # ds) = amount k (dropped_stack d) + dropped_total k ds"
  "dropped_total k [] = 0"
  by (simp_all add: dropped_total_def)

lemma stacks_total_Cons [simp]: "stacks_total k ((i, s) # ps) = amount k s + stacks_total k ps" "stacks_total k [] = 0"
  by (simp_all add: stacks_total_def)

text \<open>What stays has its entity; what is picked up has none; nothing is made, and nothing lost but by age.\<close>

definition aged :: "item_registry \<Rightarrow> item_kind \<Rightarrow> entity_id list \<Rightarrow> dropped_items \<Rightarrow> entity_manager \<Rightarrow>
    (entity_id \<times> item_stack) list \<Rightarrow> entity_manager \<Rightarrow> dropped_items \<Rightarrow> bool" where
  "aged reg k away ds m ps m' ds' =
     (linked m' \<and> present m' \<subseteq> present m \<and> present m - fst ` set ds \<subseteq> present m' \<and>
      sorted_wrt (<) (map fst ds') \<and> fst ` set ds' \<subseteq> fst ` set ds \<inter> present m' - set away \<and>
      fst ` set ps \<subseteq> fst ` set ds - present m' \<and>
      (\<forall>(i, s) \<in> set ps. stack_ok reg s \<and> \<not> is_empty s) \<and>
      (\<forall>(i, d) \<in> set ds'. stack_ok reg (dropped_stack d) \<and> \<not> is_empty (dropped_stack d) \<and> lifetime d \<noteq> 0) \<and>
      dropped_total k ds' + stacks_total k ps \<le> dropped_total k ds \<and>
      ((\<forall>(i, d) \<in> set ds. is_empty (dropped_stack d) \<or> i \<in> present m - set away \<and> lifetime d > 1) \<longrightarrow>
         dropped_total k ds' + stacks_total k ps = dropped_total k ds))"

lemma agedD:
  assumes "aged reg k away ds m ps m' ds'"
  shows "linked m'" "present m' \<subseteq> present m" "present m - fst ` set ds \<subseteq> present m'"
    "sorted_wrt (<) (map fst ds')" "fst ` set ds' \<subseteq> fst ` set ds \<inter> present m' - set away"
    "fst ` set ps \<subseteq> fst ` set ds - present m'" "\<forall>(i, s) \<in> set ps. stack_ok reg s \<and> \<not> is_empty s"
    "\<forall>(i, d) \<in> set ds'. stack_ok reg (dropped_stack d) \<and> \<not> is_empty (dropped_stack d) \<and> lifetime d \<noteq> 0"
    "dropped_total k ds' + stacks_total k ps \<le> dropped_total k ds"
    "\<forall>(i, d) \<in> set ds. is_empty (dropped_stack d) \<or> i \<in> present m - set away \<and> lifetime d > 1 \<Longrightarrow>
       dropped_total k ds' + stacks_total k ps = dropped_total k ds"
  using assms unfolding aged_def by blast+

lemma still_young:
  assumes "\<forall>(j, e) \<in> set ((i, d) # ds). is_empty (dropped_stack e) \<or> j \<in> present m - set away \<and> lifetime e > 1"
    and "present m - {i} \<subseteq> present n" "i \<notin> fst ` set ds"
  shows "\<forall>(j, e) \<in> set ds. is_empty (dropped_stack e) \<or> j \<in> present n - set away \<and> lifetime e > 1"
proof (intro ballI, clarify)
  fix j e assume j: "(j, e) \<in> set ds" and "\<not> (j \<in> present n - set away \<and> 1 < lifetime e)"
  moreover have "j \<noteq> i" using j assms(3) by force
  ultimately show "is_empty (dropped_stack e)" using assms(1,2) by auto
qed

lemma aged_skip:
  assumes "aged reg k away ds n ps m' ds'" and "present n \<subseteq> present m" "present m - {i} \<subseteq> present n"
    and "i \<notin> fst ` set ds" and "is_empty (dropped_stack d) \<or> \<not> (i \<in> present m - set away \<and> lifetime d > 1)"
  shows "aged reg k away ((i, d) # ds) m ps m' ds'"
proof -
  note a = agedD [OF assms(1)]
  moreover have "present m - fst ` set ((i, d) # ds) \<subseteq> present m'" using a(3) assms(3) by auto
  moreover have "fst ` set ds' \<subseteq> fst ` set ((i, d) # ds) \<inter> present m' - set away" using a(5) by auto
  moreover have "fst ` set ps \<subseteq> fst ` set ((i, d) # ds) - present m'" using a(6) by auto
  moreover have "dropped_total k ds' + stacks_total k ps = dropped_total k ((i, d) # ds)"
    if y: "\<forall>(j, e) \<in> set ((i, d) # ds). is_empty (dropped_stack e) \<or> j \<in> present m - set away \<and> lifetime e > 1"
  proof -
    have "is_empty (dropped_stack d)" using y assms(5) by auto
    then show ?thesis using a(10) [OF still_young [OF y assms(3,4)]] by (simp add: amount_is_empty)
  qed
  moreover have "present m' \<subseteq> present m" using a(2) assms(2) by blast
  moreover have "dropped_total k ds' + stacks_total k ps \<le> dropped_total k ((i, d) # ds)" using a(9) by simp
  ultimately show ?thesis unfolding aged_def by (intro conjI impI)
qed

lemma aged_pick:
  assumes "aged reg k away ds n ps m' ds'" and "present n = present m - {i}" and "i \<notin> fst ` set ds"
    and "i \<in> present m" "stack_ok reg (dropped_stack d)" "\<not> is_empty (dropped_stack d)"
  shows "aged reg k away ((i, d) # ds) m ((i, dropped_stack d) # ps) m' ds'"
proof -
  note a = agedD [OF assms(1)]
  moreover have "present m - fst ` set ((i, d) # ds) \<subseteq> present m'" using a(3) assms(2) by auto
  moreover have "fst ` set ds' \<subseteq> fst ` set ((i, d) # ds) \<inter> present m' - set away" using a(5) by auto
  moreover have "fst ` set ((i, dropped_stack d) # ps) \<subseteq> fst ` set ((i, d) # ds) - present m'"
    using a(2,6) assms(2) by auto
  moreover have "dropped_total k ds' + stacks_total k ((i, dropped_stack d) # ps) = dropped_total k ((i, d) # ds)"
    if y: "\<forall>(j, e) \<in> set ((i, d) # ds). is_empty (dropped_stack e) \<or> j \<in> present m - set away \<and> lifetime e > 1"
    using a(10) [OF still_young [OF y _ assms(3)]] assms(2) by simp
  moreover have "\<forall>(j, s) \<in> set ((i, dropped_stack d) # ps). stack_ok reg s \<and> \<not> is_empty s"
    using a(7) assms(5,6) by simp
  moreover have "present m' \<subseteq> present m" using a(2) assms(2) by blast
  moreover have "dropped_total k ds' + stacks_total k ((i, dropped_stack d) # ps) \<le> dropped_total k ((i, d) # ds)"
    using a(9) by simp
  ultimately show ?thesis unfolding aged_def by (intro conjI impI)
qed

lemma aged_keep:
  assumes "aged reg k away ds m ps m' ds'" and "i \<notin> fst ` set ds" and "\<forall>j \<in> fst ` set ds. i < j"
    and "i \<in> present m" "i \<notin> set away" "stack_ok reg (dropped_stack d)" "\<not> is_empty (dropped_stack d)"
    and "dropped_stack d' = dropped_stack d" "lifetime d' \<noteq> 0"
  shows "aged reg k away ((i, d) # ds) m ps m' ((i, d') # ds')"
proof -
  note a = agedD [OF assms(1)]
  moreover have "present m - fst ` set ((i, d) # ds) \<subseteq> present m'" using a(3) by auto
  moreover have "fst ` set ((i, d') # ds') \<subseteq> fst ` set ((i, d) # ds) \<inter> present m' - set away"
    using a(3,5) assms(2,4,5) by auto
  moreover have "fst ` set ps \<subseteq> fst ` set ((i, d) # ds) - present m'" using a(6) by auto
  moreover have "dropped_total k ((i, d') # ds') + stacks_total k ps = dropped_total k ((i, d) # ds)"
    if y: "\<forall>(j, e) \<in> set ((i, d) # ds). is_empty (dropped_stack e) \<or> j \<in> present m - set away \<and> lifetime e > 1"
    using a(10) [OF still_young [OF y _ assms(2)]] assms(8) by simp
  moreover have "\<forall>(j, e) \<in> set ((i, d') # ds'). stack_ok reg (dropped_stack e) \<and> \<not> is_empty (dropped_stack e) \<and> lifetime e \<noteq> 0"
    using a(8) assms(6-9) by simp
  moreover have "sorted_wrt (<) (map fst ((i, d') # ds'))" using a(4,5) assms(3) by fastforce
  moreover have "dropped_total k ((i, d') # ds') + stacks_total k ps \<le> dropped_total k ((i, d) # ds)"
    using a(9) assms(8) by simp
  ultimately show ?thesis unfolding aged_def by (intro conjI impI)
qed

lemma age_items_ok:
  assumes "age_items away collector ds m = (ps, m', ds')" and "linked m" and "sorted_wrt (<) (map fst ds)"
    and "\<forall>(i, d) \<in> set ds. stack_ok reg (dropped_stack d) \<and> (is_empty (dropped_stack d) \<longleftrightarrow> i \<in> set away)"
  shows "aged reg k away ds m ps m' ds'"
  using assms
proof (induction away collector ds m arbitrary: ps m' ds' rule: age_items.induct)
  case (1 away collector m)
  then show ?case by (simp add: aged_def)
next
  case (2 away collector i d ds m)
  have i: "i \<notin> fst ` set ds" "sorted_wrt (<) (map fst ds)" "\<forall>j \<in> fst ` set ds. i < j" using "2.prems"(3) by auto
  have ok: "stack_ok reg (dropped_stack d)" "is_empty (dropped_stack d) \<longleftrightarrow> i \<in> set away"
    and rest: "\<forall>(i, d) \<in> set ds. stack_ok reg (dropped_stack d) \<and> (is_empty (dropped_stack d) \<longleftrightarrow> i \<in> set away)"
    using "2.prems"(4) by auto
  have gone: "linked (snd (remove_entity i m))" "present (snd (remove_entity i m)) = present m - {i}"
    using linked_remove [OF "2.prems"(2), of i] by simp_all
  define e' where "e' = d\<lparr>lifetime := lifetime d - 1,
    pickup_delay := (if pickup_delay d > 0 then pickup_delay d - 1 else pickup_delay d)\<rparr>"
  have e': "dropped_stack e' = dropped_stack d" by (simp add: e'_def)
  consider (none) "find_entity m i = None" | (away) e where "find_entity m i = Some e" "i \<in> set away"
    | (old) e where "find_entity m i = Some e" "i \<notin> set away" "lifetime d \<le> 1"
    | (pick) e where "find_entity m i = Some e" "i \<notin> set away" "\<not> lifetime d \<le> 1"
        "pickup_delay e' = 0 \<and> in_reach collector e"
    | (keep) e where "find_entity m i = Some e" "i \<notin> set away" "\<not> lifetime d \<le> 1"
        "\<not> (pickup_delay e' = 0 \<and> in_reach collector e)"
    by blast
  then show ?case
  proof cases
    case none
    then show ?thesis
      using "2.IH"(1) [of ps m' ds'] "2.prems"(1,2) i rest
      by (intro aged_skip) (auto simp: present_def)
  next
    case away
    then show ?thesis
      using "2.IH"(2) [of e ps m' ds'] "2.prems"(1,2) i rest ok by (intro aged_skip) auto
  next
    case old
    then have "aged reg k away ds (snd (remove_entity i m)) ps m' ds'"
      using "2.IH"(3) [of e ps m' ds'] "2.prems"(1) i rest gone by simp
    then show ?thesis using old gone i by (intro aged_skip [where n = "snd (remove_entity i m)"]) auto
  next
    case pick
    obtain qs where q: "age_items away collector ds (snd (remove_entity i m)) = (qs, m', ds')"
      "ps = (i, dropped_stack d) # qs"
      using "2.prems"(1) pick by (auto simp: Let_def e'_def split: prod.splits if_splits)
    have "aged reg k away ds (snd (remove_entity i m)) qs m' ds'"
      by (rule "2.IH"(4)) (use pick q i rest gone in \<open>auto simp: e'_def split: if_splits\<close>)
    then show ?thesis unfolding q(2) using pick gone i ok
      by (intro aged_pick [where n = "snd (remove_entity i m)"]) (auto simp: present_def)
  next
    case keep
    obtain es where q: "age_items away collector ds m = (ps, m', es)" "ds' = (i, e') # es"
      using "2.prems"(1) keep by (auto simp: Let_def e'_def split: prod.splits if_splits)
    have "aged reg k away ds m ps m' es"
      by (rule "2.IH"(5)) (use keep q i rest "2.prems"(2) in \<open>auto simp: e'_def split: if_splits\<close>)
    moreover have "lifetime e' \<noteq> 0"
      using keep(3) by (auto simp: e'_def)
    ultimately show ?thesis unfolding q(2) using keep i ok e' by (intro aged_keep) (auto simp: present_def)
  qed
qed

section \<open>Every history\<close>

text \<open>What can happen to the items of a server: drops of valid stacks, ticks, and whatever happens to entities.\<close>

inductive dropped_reachable :: "(f64 \<Rightarrow> f64 \<Rightarrow> f64) \<Rightarrow> item_registry \<Rightarrow> entity_manager \<Rightarrow> dropped_items \<Rightarrow> bool" for pow reg where
  nothing_dropped: "entity_reachable pow m \<Longrightarrow> dropped_reachable pow reg m []"
| item_dropped: "dropped_reachable pow reg m ds \<Longrightarrow> stack_ok reg stack \<Longrightarrow>
    dropped_spawn stack p delay life m ds = Inr (i, n, es) \<Longrightarrow> dropped_reachable pow reg n es"
| items_ticked: "dropped_reachable pow reg m ds \<Longrightarrow> dropped_tick reg collector m ds = Inr (r, n, es) \<Longrightarrow>
    dropped_reachable pow reg n es"
| entities_acted: "dropped_reachable pow reg m ds \<Longrightarrow> entity_step pow m n \<Longrightarrow> dropped_reachable pow reg n ds"

lemma dropped_spawn_ok:
  assumes "dropped_spawn stack p delay life m ds = Inr (i, n, es)" and "linked m" "dropped_ok reg ds"
    and "stack_ok reg stack"
  shows "linked n \<and> dropped_ok reg es"
proof -
  obtain u where u: "spawn ''item'' p m = Inr (i, u)" "\<not> is_empty stack" "life \<noteq> 0"
    and n: "n = on_entity i (\<lambda>e. e\<lparr>velocity := vec3 0 (f64_ratio 1 10) 0\<rparr>) u"
    and es: "es = (if map_of ds i \<noteq> None then ds
      else put_key (\<lambda>a b. a < b) i \<lparr>dropped_stack = stack, pickup_delay = delay, lifetime = life\<rparr> ds)"
    using assms(1) by (auto simp: dropped_spawn_def guardR_Inr_iff bindR_Inr_iff Let_def)
  have "linked u" by (rule linked_step [OF assms(2) spawned [OF u(1)]])
  then have "linked n" unfolding n linked_def by (auto intro!: on_entity_ok simp: same_links_def)
  moreover have "set es \<subseteq> insert (i, \<lparr>dropped_stack = stack, pickup_delay = delay, lifetime = life\<rparr>) (set ds)"
    by (auto simp: es dest!: subsetD [OF set_put_key])
  moreover have "sorted_wrt (<) (map fst es)"
    using assms(3) by (simp add: es dropped_ok_def sorted_put_key)
  ultimately show ?thesis
    using assms(3,4) u(2,3) unfolding dropped_ok_def by auto
qed

lemma dropped_tick_ok:
  assumes "linked m" and "dropped_ok reg ds"
  shows "\<exists>r n es. dropped_tick reg collector m ds = Inr (r, n, es) \<and> linked n \<and> dropped_ok reg es \<and>
    fst ` set es \<subseteq> fst ` set ds \<inter> present n \<and> present n \<subseteq> present m \<and> present m - fst ` set ds \<subseteq> present n \<and>
    set (changed_drops r) \<subseteq> fst ` set ds \<and>
    (\<forall>(i, s) \<in> set (pickups r). i \<in> fst ` set ds - present n \<and> stack_ok reg s \<and> \<not> is_empty s) \<and>
    (\<forall>k. dropped_total k es + stacks_total k (pickups r) \<le> dropped_total k ds) \<and>
    ((\<forall>(i, d) \<in> set ds. i \<in> present m \<and> lifetime d > 1) \<longrightarrow>
       (\<forall>k. dropped_total k es + stacks_total k (pickups r) = dropped_total k ds))"
proof -
  let ?st = "\<lparr>merged_entities = m, merged_items = ds, merged_away = [], changed_items = []\<rparr>"
  have sorted: "sorted_wrt (<) (map fst ds)" using assms(2) by (simp add: dropped_ok_def)
  then have d: "distinct (map fst ds)" by (simp add: strict_sorted_iff)
  have "merging_ok reg m ds ?st"
    using assms by (auto simp: merging_ok_def dropped_ok_def list_all2_same)
  then obtain st where st: "merge_items reg (map fst ds) ?st = Inr st" "merging_ok reg m ds st"
    using merge_items_ok [OF _ d d] by blast
  obtain ps n es where a: "age_items (merged_away st) collector (merged_items st) (merged_entities st) = (ps, n, es)"
    by (metis surj_pair)
  let ?r = "\<lparr>pickups = ps, changed_drops = changed_items st\<rparr>"
  have t: "dropped_tick reg collector m ds = Inr (?r, n, es)" by (simp add: dropped_tick_def st(1) a)
  note keys = merging_keys [OF st(2)]
  then have fst_keys: "fst ` set (merged_items st) = fst ` set ds" by (metis list.set_map)
  have dm: "distinct (map fst (merged_items st))" using keys d by simp
  have items: "\<forall>(i, e) \<in> set (merged_items st). stack_ok reg (dropped_stack e) \<and> (is_empty (dropped_stack e) \<longleftrightarrow> i \<in> set (merged_away st))"
    using merging_item [OF st(2)] dm by (auto dest: map_of_is_SomeI)
  have mo: "linked (merged_entities st)" "present (merged_entities st) = present m - set (merged_away st)"
    "\<And>k. dropped_total k (merged_items st) = dropped_total k ds"
    "set (changed_items st) \<union> set (merged_away st) \<subseteq> fst ` set ds"
    using st(2) unfolding merging_ok_def by blast+
  have age: "aged reg k (merged_away st) (merged_items st) (merged_entities st) ps n es" for k
    by (rule age_items_ok [OF a mo(1) _ items]) (simp add: keys sorted)
  note g = agedD [OF age, unfolded fst_keys mo(2,3)]
  have same: "dropped_total k es + stacks_total k ps = dropped_total k ds"
    if young: "\<forall>(i, d) \<in> set ds. i \<in> present m \<and> lifetime d > 1" for k
  proof (rule g(10), intro ballI, clarify)
    fix i e assume e: "(i, e) \<in> set (merged_items st)"
      and "\<not> (i \<in> present m - set (merged_away st) - set (merged_away st) \<and> 1 < lifetime e)"
    moreover have "i \<in> present m \<and> 1 < lifetime e" using merging_lifetime [OF st(2) e] young by auto
    ultimately have "i \<in> set (merged_away st)" by blast
    then show "is_empty (dropped_stack e)" using items e by blast
  qed
  show ?thesis
  proof (intro exI conjI)
    show "dropped_tick reg collector m ds = Inr (?r, n, es)" by (rule t)
    show "linked n" by (rule g(1))
    show "dropped_ok reg es" using g(4,8) by (simp add: dropped_ok_def)
    show "fst ` set es \<subseteq> fst ` set ds \<inter> present n" using g(5) by blast
    show "present n \<subseteq> present m" using g(2) by blast
    show "present m - fst ` set ds \<subseteq> present n" using g(3) mo(4) by blast
    show "set (changed_drops ?r) \<subseteq> fst ` set ds" using mo(4) by simp
    show "\<forall>(i, s) \<in> set (pickups ?r). i \<in> fst ` set ds - present n \<and> stack_ok reg s \<and> \<not> is_empty s"
    proof (intro ballI, clarify)
      fix i s assume "(i, s) \<in> set (pickups ?r)"
      then have "(i, s) \<in> set ps" by simp
      then have "i \<in> fst ` set ps" "stack_ok reg s \<and> \<not> is_empty s" using g(7) by (auto simp: rev_image_eqI)
      with g(6) show "i \<in> fst ` set ds - present n \<and> stack_ok reg s \<and> \<not> is_empty s" by blast
    qed
    show "\<forall>k. dropped_total k es + stacks_total k (pickups ?r) \<le> dropped_total k ds" using g(9) by simp
    show "(\<forall>(i, d) \<in> set ds. i \<in> present m \<and> lifetime d > 1) \<longrightarrow>
       (\<forall>k. dropped_total k es + stacks_total k (pickups ?r) = dropped_total k ds)"
      using same by simp
  qed
qed

lemma dropped_reachable_ok: "dropped_reachable pow reg m ds \<Longrightarrow> linked m \<and> dropped_ok reg ds"
proof (induction rule: dropped_reachable.induct)
  case (nothing_dropped m)
  then show ?case by (simp add: linked_def entity_reachable_ok dropped_ok_def)
next
  case (item_dropped m ds stack p delay life i n es)
  then show ?case using dropped_spawn_ok by blast
next
  case (items_ticked m ds collector r n es)
  then show ?case using dropped_tick_ok [of m reg ds collector] by auto
next
  case (entities_acted m ds n)
  then show ?case using linked_step by blast
qed

text \<open>In every history of drops, ticks and changes to the entities, a tick of the dropped items returns. The
  items of each kind that lie around afterwards and those picked up are together at most those before, and
  exactly as many when no item was at the end of its life or had lost its entity: merging and pickup
  neither make items nor lose them. Each item that stays has its entity and a valid stack, each one picked up
  has lost its entity and is a valid stack, and no other entity is touched.\<close>

theorem dropped_items_conserved:
  assumes "dropped_reachable pow reg m ds"
  shows "\<exists>r n es. dropped_tick reg collector m ds = Inr (r, n, es) \<and>
    (\<forall>k. dropped_total k es + stacks_total k (pickups r) \<le> dropped_total k ds) \<and>
    ((\<forall>(i, d) \<in> set ds. i \<in> present m \<and> lifetime d > 1) \<longrightarrow>
       (\<forall>k. dropped_total k es + stacks_total k (pickups r) = dropped_total k ds)) \<and>
    fst ` set es \<subseteq> fst ` set ds \<inter> present n \<and> present m - fst ` set ds \<subseteq> present n \<and> present n \<subseteq> present m \<and>
    (\<forall>(i, d) \<in> set es. stack_ok reg (dropped_stack d) \<and> \<not> is_empty (dropped_stack d)) \<and>
    (\<forall>(i, s) \<in> set (pickups r). i \<in> fst ` set ds - present n \<and> stack_ok reg s \<and> \<not> is_empty s)"
proof -
  obtain r n es where t: "dropped_tick reg collector m ds = Inr (r, n, es)" "dropped_ok reg es"
    "fst ` set es \<subseteq> fst ` set ds \<inter> present n" "present n \<subseteq> present m" "present m - fst ` set ds \<subseteq> present n"
    "\<forall>(i, s) \<in> set (pickups r). i \<in> fst ` set ds - present n \<and> stack_ok reg s \<and> \<not> is_empty s"
    "\<forall>k. dropped_total k es + stacks_total k (pickups r) \<le> dropped_total k ds"
    "(\<forall>(i, d) \<in> set ds. i \<in> present m \<and> lifetime d > 1) \<longrightarrow>
       (\<forall>k. dropped_total k es + stacks_total k (pickups r) = dropped_total k ds)"
    using dropped_tick_ok [of m reg ds collector] dropped_reachable_ok [OF assms] by blast
  moreover have "\<forall>(i, d) \<in> set es. stack_ok reg (dropped_stack d) \<and> \<not> is_empty (dropped_stack d)"
    using t(2) by (auto simp: dropped_ok_def)
  ultimately show ?thesis by blast
qed

text \<open>A stack of stones that was dropped a moment ago.\<close>

definition item_types :: "entity_registry" where
  "item_types = [\<lparr>entity_type_id = 0, entity_type_name = minecraft ''item'', type_implementation = ''ItemEntity'',
     type_properties = plain_properties, entity_protocol_id = None\<rparr>]"

definition some_stones :: "u16 \<Rightarrow> item_stack" where
  "some_stones n = \<lparr>stack_item = 1, stack_count = n, stack_damage = 0, components = []\<rparr>"

lemma item_known: "type_by_name item_types ''item'' = Inr (hd item_types)"
proof -
  have "parse_location ''item'' = Inr \<lparr>name_space = ''minecraft'', loc_path = ''item''\<rparr>" by code_simp
  then show ?thesis by (simp add: type_by_name_def item_types_def minecraft_def)
qed

lemma stones_dropped:
  "\<exists>m d. dropped_reachable (\<lambda>_ _. 0) builtin_registry m [(1, d)] \<and> 1 \<in> present m \<and> lifetime d = 6000 \<and>
     dropped_stack d = some_stones 5"
proof -
  obtain a where a: "new_manager item_types 0x2602 1 = Inr a" "entity_types a = item_types" "next_entity_id a = 1"
    by (simp add: new_manager_def guardR_def)
  obtain i u where u: "spawn ''item'' (vec3 0 0 0) a = Inr (i, u)"
    by (cases "next_uuid a") (auto simp: spawn_def a item_known Let_def)
  note new = spawn_ok [OF first_manager_ok [OF a(1)] u]
  have ok: "stack_ok builtin_registry (some_stones 5)" by (simp add: some_stones_def stone_stack_ok)
  let ?d = "\<lparr>dropped_stack = some_stones 5, pickup_delay = 20, lifetime = 6000\<rparr>"
  let ?n = "on_entity i (\<lambda>e. e\<lparr>velocity := vec3 0 (f64_ratio 1 10) 0\<rparr>) u"
  have "dropped_spawn (some_stones 5) (vec3 0 0 0) 20 6000 a [] = Inr (i, ?n, [(i, ?d)])"
    by (simp add: dropped_spawn_def u Let_def some_stones_def is_empty_def)
  then have "dropped_reachable (\<lambda>_ _. 0) builtin_registry ?n [(i, ?d)]"
    using item_dropped [OF nothing_dropped [OF created [OF a(1)]] ok] by simp
  moreover have "i = 1" "i \<in> present u" using new a(3) by simp_all
  moreover have "present ?n = present u" by (auto simp: present_def find_on_entity split: option.splits)
  ultimately show ?thesis by (intro exI [of _ ?n] exI [of _ ?d]) simp
qed

theorem dropped_items_conserved_witness:
  "\<exists>m d r n es. dropped_reachable (\<lambda>_ _. 0) builtin_registry m [(1, d)] \<and>
     dropped_tick builtin_registry None m [(1, d)] = Inr (r, n, es) \<and>
     dropped_total (kind_of (some_stones 5)) es + stacks_total (kind_of (some_stones 5)) (pickups r) = 5"
proof -
  obtain m d where d: "dropped_reachable (\<lambda>_ _. 0) builtin_registry m [(1, d)]" "1 \<in> present m"
    "lifetime d = 6000" "dropped_stack d = some_stones 5"
    using stones_dropped by blast
  have "\<forall>(i, d) \<in> set [(1, d)]. i \<in> present m \<and> lifetime d > 1" using d(2,3) by simp
  moreover have "dropped_total (kind_of (some_stones 5)) [(1, d)] = 5" by (simp add: d(4) amount_def some_stones_def)
  moreover obtain r n es where "dropped_tick builtin_registry None m [(1, d)] = Inr (r, n, es)"
    "(\<forall>(i, d) \<in> set [(1, d)]. i \<in> present m \<and> lifetime d > 1) \<longrightarrow>
       (\<forall>k. dropped_total k es + stacks_total k (pickups r) = dropped_total k [(1, d)])"
    using dropped_items_conserved [OF d(1), of None] by (elim exE conjE) (rule that)
  ultimately have "dropped_tick builtin_registry None m [(1, d)] = Inr (r, n, es)"
    "dropped_total (kind_of (some_stones 5)) es + stacks_total (kind_of (some_stones 5)) (pickups r) = 5" by simp_all
  with d(1) show ?thesis by blast
qed

text \<open>
  A stack that gives away only a part changes too, but a tick reports the stack that
  received it and not this one.
\<close>

lemma partial_merge_unreported:
  assumes "map_of (merged_items st) i = Some l" "dropped_stack l = some_stones 60"
    and "map_of (merged_items st) j = Some r" "dropped_stack r = some_stones 10"
    and "find_entity (merged_entities st) i = Some e" "find_entity (merged_entities st) j = Some f"
    and "\<not> f64_less (f64_ratio 1 1) (length_squared (vec_sub (position e) (position f)))"
    and "i \<noteq> j" "j \<notin> set (merged_away st)"
  shows "\<exists>st'. merge_pair builtin_registry i j st = Inr st' \<and>
    map_option dropped_stack (map_of (merged_items st') j) = Some (some_stones 6) \<and>
    changed_items st' = changed_items st @ [i]"
proof -
  have ok: "stack_ok builtin_registry (some_stones 60)" "stack_ok builtin_registry (some_stones 10)"
    by (simp_all add: some_stones_def stone_stack_ok)
  have merge: "can_merge (some_stones 60) (some_stones 10)" "\<not> is_empty (some_stones 10)"
    by (simp_all add: can_merge_def some_stones_def is_empty_def)
  have limit: "stack_limit builtin_registry (some_stones 10) = 64"
    using builtin_stone by (simp add: stack_limit_def some_stones_def block_item_def default_properties_def)
  have "insert_from builtin_registry (some_stones 60) (some_stones 10) = Inr (6, some_stones 64, some_stones 6)"
    using insert_from_merge(1) [OF ok merge(2) disjI2 [OF merge(1)]] unfolding limit
    by (simp add: some_stones_def normalize_stack_def)
  moreover have "\<not> is_empty (some_stones 6)" "stack_count (some_stones 64) \<noteq> stack_count (some_stones 60)"
    by (simp_all add: some_stones_def is_empty_def)
  ultimately show ?thesis
    using assms merge by (simp add: merge_pair_def Let_def map_of_set_stack)
qed

end
