(* ===== verification/Tracking.thy ===== *)
theory Tracking
  imports Entity_Facts
begin

text \<open>
  What a viewer is told about the entities around it (src/entity/tracking.cpp): a client
  that follows the updates knows the entities the tracker believes it sees.
\<close>

section \<open>What a viewer is told\<close>

record tracking_update =
  entered :: bool
  left_range :: bool
  absolute_position :: bool
  position_changed :: bool
  rotation_changed :: bool
  velocity_changed :: bool
  head_changed :: bool
  move_delta :: vec3

definition no_update :: tracking_update where
  "no_update = \<lparr>entered = False, left_range = False, absolute_position = False, position_changed = False,
     rotation_changed = False, velocity_changed = False, head_changed = False, move_delta = vec3 0 0 0\<rparr>"

record tracked =
  tracked_position :: vec3
  tracked_velocity :: vec3
  tracked_yaw :: f32
  tracked_pitch :: f32
  tracked_head :: f32

type_synonym tracker = "entity_id \<rightharpoonup> tracked"

definition changed_by :: "f64 \<Rightarrow> f64 \<Rightarrow> f64 \<Rightarrow> bool" where
  "changed_by a b epsilon = f64_less epsilon (f64_abs (f64_sub a b))"

definition vec_changed :: "vec3 \<Rightarrow> vec3 \<Rightarrow> bool" where
  "vec_changed a b = (let epsilon = f64_ratio 1 100000 in
     changed_by (vec_x a) (vec_x b) epsilon \<or> changed_by (vec_y a) (vec_y b) epsilon \<or>
     changed_by (vec_z a) (vec_z b) epsilon)"

text \<open>The angles are \<open>float\<close>s, compared as \<open>double\<close>s.\<close>

definition angle_changed :: "f32 \<Rightarrow> f32 \<Rightarrow> bool" where
  "angle_changed a b = changed_by (f64_of_f32 a) (f64_of_f32 b) (f64_ratio 1 2)"

definition tracking_range :: "entity \<Rightarrow> f64" where
  "tracking_range e = (case type_category (entity_properties e) of
     Monster \<Rightarrow> f64_ratio 64 1
   | Misc \<Rightarrow> f64_ratio 32 1
   | _ \<Rightarrow> f64_ratio 48 1)"

definition far_step :: "f64 \<Rightarrow> bool" where
  "far_step d = (f64_less d (f64_neg (f64_ratio 8 1)) \<or> f64_le (f64_ratio 8 1) d)"

definition tracked_now :: "entity \<Rightarrow> tracked" where
  "tracked_now e = \<lparr>tracked_position = position e, tracked_velocity = velocity e, tracked_yaw = yaw e,
     tracked_pitch = pitch e, tracked_head = yaw e\<rparr>"

definition compare_states :: "tracked \<Rightarrow> tracked \<Rightarrow> tracking_update" where
  "compare_states current previous =
     (let delta = vec_sub (tracked_position current) (tracked_position previous);
          moved = vec_changed (tracked_position current) (tracked_position previous)
      in no_update\<lparr>move_delta := delta, position_changed := moved,
           absolute_position := moved \<and> (far_step (vec_x delta) \<or> far_step (vec_y delta) \<or> far_step (vec_z delta)),
           rotation_changed := angle_changed (tracked_yaw current) (tracked_yaw previous) \<or>
             angle_changed (tracked_pitch current) (tracked_pitch previous),
           velocity_changed := vec_changed (tracked_velocity current) (tracked_velocity previous),
           head_changed := angle_changed (tracked_head current) (tracked_head previous)\<rparr>)"

definition in_range :: "entity \<Rightarrow> vec3 \<Rightarrow> bool" where
  "in_range e viewer = (let range = tracking_range e in
     f64_le (length_squared (vec_sub (position e) viewer)) (f64_mul range range))"

definition track :: "entity \<Rightarrow> vec3 \<Rightarrow> tracker \<Rightarrow> tracking_update \<times> tracker" where
  "track e viewer t =
     (if \<not> in_range e viewer
      then (case t (entity_key e) of None \<Rightarrow> (no_update, t)
        | Some _ \<Rightarrow> (no_update\<lparr>left_range := True\<rparr>, t(entity_key e := None)))
      else (case t (entity_key e) of
          None \<Rightarrow> (no_update\<lparr>entered := True\<rparr>, t(entity_key e \<mapsto> tracked_now e))
        | Some previous \<Rightarrow> (compare_states (tracked_now e) previous, t(entity_key e \<mapsto> tracked_now e))))"

definition forget :: "entity_id \<Rightarrow> tracker \<Rightarrow> bool \<times> tracker" where
  "forget i t = (t i \<noteq> None, t(i := None))"

definition tracker_visible :: "entity_id \<Rightarrow> tracker \<Rightarrow> bool" where
  "tracker_visible i t = (t i \<noteq> None)"

section \<open>Every history of one viewer\<close>

datatype tracking_call = Track entity vec3 | Forget entity_id

fun call_key :: "tracking_call \<Rightarrow> entity_id" where
  "call_key (Track e v) = entity_key e"
| "call_key (Forget i) = i"

text \<open>The calls with what they told, the last call first, and the tracker after them.\<close>

inductive tracking_history :: "(tracking_call \<times> tracking_update) list \<Rightarrow> tracker \<Rightarrow> bool" where
  start: "tracking_history [] Map.empty"
| tracked: "tracking_history h t \<Longrightarrow> track e v t = (u, t') \<Longrightarrow> tracking_history ((Track e v, u) # h) t'"
| forgotten: "tracking_history h t \<Longrightarrow> forget i t = (b, t') \<Longrightarrow> tracking_history ((Forget i, no_update) # h) t'"

text \<open>
  What a client that only hears the updates believes: an entity is there from \<open>entered\<close>
  until \<open>left_range\<close>, or until the server forgets it, which tells the client by a packet.
\<close>

fun client_sees :: "entity_id \<Rightarrow> (tracking_call \<times> tracking_update) list \<Rightarrow> bool" where
  "client_sees i [] = False"
| "client_sees i ((c, u) # h) =
     (if call_key c \<noteq> i then client_sees i h
      else (case c of Forget _ \<Rightarrow> False
        | Track _ _ \<Rightarrow> if entered u then True else if left_range u then False else client_sees i h))"

text \<open>The last state of an entity that the tracker looked at while it was in range.\<close>

fun last_state :: "entity_id \<Rightarrow> (tracking_call \<times> tracking_update) list \<Rightarrow> tracked option" where
  "last_state i [] = None"
| "last_state i ((c, u) # h) =
     (case c of Track e v \<Rightarrow> if entity_key e = i then (if in_range e v then Some (tracked_now e) else None) else last_state i h
      | Forget j \<Rightarrow> if j = i then None else last_state i h)"

lemma compare_states_flags [simp]: "\<not> entered (compare_states a b)" "\<not> left_range (compare_states a b)"
  by (simp_all add: compare_states_def no_update_def Let_def)

lemma history_states: "tracking_history h t \<Longrightarrow> t i = last_state i h"
  by (induction rule: tracking_history.induct) (auto simp: track_def forget_def split: option.splits if_splits)

lemma history_seen: "tracking_history h t \<Longrightarrow> client_sees i h \<longleftrightarrow> t i \<noteq> None"
  by (induction rule: tracking_history.induct)
    (auto simp: track_def forget_def no_update_def split: option.splits if_splits)

text \<open>A client that hears the updates of a tracker knows at every moment which entities the tracker holds:
  those that entered and did not leave and were not forgotten. It is told that an entity enters only when it
  does not see it, that it leaves only when it sees it, and of changes only of entities that it sees and goes on
  seeing; and the changes are those from the state at the last call in which the entity was in range.\<close>

theorem client_mirrors_tracker:
  assumes "tracking_history h t" and "track e viewer t = (u, t')"
  shows "(\<forall>i. client_sees i h = tracker_visible i t) \<and>
    (\<forall>i. client_sees i ((Track e viewer, u) # h) = tracker_visible i t') \<and>
    (entered u \<longleftrightarrow> in_range e viewer \<and> \<not> client_sees (entity_key e) h) \<and>
    (left_range u \<longleftrightarrow> \<not> in_range e viewer \<and> client_sees (entity_key e) h) \<and>
    (u = (if \<not> in_range e viewer then no_update\<lparr>left_range := client_sees (entity_key e) h\<rparr>
      else case last_state (entity_key e) h of None \<Rightarrow> no_update\<lparr>entered := True\<rparr>
        | Some previous \<Rightarrow> compare_states (tracked_now e) previous))"
proof -
  have h': "tracking_history ((Track e viewer, u) # h) t'" using assms by (rule tracked)
  note seen = history_seen [OF assms(1)] and state = history_states [OF assms(1)]
  have "entered u \<longleftrightarrow> in_range e viewer \<and> t (entity_key e) = None"
    "left_range u \<longleftrightarrow> \<not> in_range e viewer \<and> t (entity_key e) \<noteq> None"
    "u = (if \<not> in_range e viewer then no_update\<lparr>left_range := t (entity_key e) \<noteq> None\<rparr>
      else case t (entity_key e) of None \<Rightarrow> no_update\<lparr>entered := True\<rparr>
        | Some previous \<Rightarrow> compare_states (tracked_now e) previous)"
    using assms(2) by (auto simp: track_def no_update_def split: if_splits option.splits)
  then show ?thesis
    using seen history_seen [OF h'] state by (simp only: tracker_visible_def) simp
qed

text \<open>
  The state is overwritten at each call, whether the viewer was told or not: an entity
  that never turns by more than half a degree between two calls turns unseen, however far.
\<close>

lemma slow_turn_unseen:
  assumes "t (entity_key e) = Some previous" and "in_range e viewer"
    and "\<not> angle_changed (yaw e) (tracked_yaw previous)" "\<not> angle_changed (pitch e) (tracked_pitch previous)"
  shows "\<exists>u. track e viewer t = (u, t(entity_key e \<mapsto> tracked_now e)) \<and> \<not> rotation_changed u"
  using assms by (simp add: track_def compare_states_def tracked_now_def Let_def no_update_def)

text \<open>An entity at the place of its viewer.\<close>

definition boat_seen :: entity where
  "boat_seen = new_entity 7 [] (hd boats) (vec3 0 0 0)"

theorem client_mirrors_tracker_witness:
  "\<exists>u t'. track boat_seen (vec3 0 0 0) Map.empty = (u, t') \<and> client_sees 7 [(Track boat_seen (vec3 0 0 0), u)] = tracker_visible 7 t'"
proof -
  obtain u t' where u: "track boat_seen (vec3 0 0 0) Map.empty = (u, t')" by (metis surj_pair)
  then show ?thesis using client_mirrors_tracker [OF start u] by blast
qed

end
