(* ===== verification/Spec2Isabelle.thy ===== *)
theory Spec2Isabelle
  imports Nbt Crafting Ticks Chunk_Packets Registry_Data Ai_Goals Ai_Paths Blocks Dropped_Items Tracking
begin

text \<open>
  A verification development for mcsquared, a Minecraft server in C++ (src/).

  \<^bold>\<open>The program.\<close> The server reads frames from its clients, decodes packets,
  applies them to the world, the players' inventories and survival states and
  the entities, ticks the world, and encodes packets in answer; the world is
  generated, cached and stored in region files. The theories follow these parts;
  each imports the ones its component calls.

  \<^bold>\<open>Foundations.\<close> Prelude: machine integers as words of their width, exceptions as
  the left of a sum (\<open>'a result\<close>), a fold that may throw. Words and Strings: bits of
  words; \<open>std::string\<close>, \<open>std::getline\<close>, \<open>std::from_chars\<close>, \<open>std::to_string\<close>. Floats and
  Float_Ops: \<open>float\<close> and \<open>double\<close> as bit patterns with IEEE arithmetic, rounded to
  nearest even; the lemmas compare a rounded result with any number of the
  format, which is how the bounds of the survival state are proved.

  \<^bold>\<open>Protocol\<close> (src/protocol/, include/mc/protocol/). Reader and Codec: class \<open>Reader\<close>,
  the \<open>write_...\<close> functions, frames with and without compression. The locales \<open>codec\<close>
  and \<open>fixed_codec\<close> are the contract of a writer and its reader; they are
  interpreted on every pair of the code, and the round trips of composed formats
  rest on them. Nbt: tags, modified UTF-8, the bounded reader and writer. Packets,
  Play_Serverbound, Play_Clientbound, Chunk_Packets and Registry_Data: every decoder
  and encoder of packets.cpp and its loaders of registry files. \<open>whole\<close> and \<open>polite\<close>
  are the predicates by which each decoder is shown to reject its packet or to
  consume it to the last byte.

  \<^bold>\<open>Game data\<close> (src/core, src/item, src/inventory). Core_Types: resource locations.
  Item: the registry of items and stacks. Inventory: containers, the player's
  inventory and transactions. Crafting: recipes, their matching and one craft, on
  the interface \<open>item_holder\<close>.

  \<^bold>\<open>World\<close> (src/world). Chunk: sections, heights, biomes; the interface \<open>block_store\<close> is
  interpreted on sections and on chunks. Storage, Region, Metadata: the bytes of a
  chunk, region files and the level's metadata; \<open>chunk_storage\<close> is the interface the
  cache relies on. Generation: noise and terrain. Chunk_Cache and World: the
  chunk manager and the operations on global positions, with eviction and saving.
  Ticks: scheduled and random block ticks. Blocks (src/block): the types of blocks,
  placing one from a stack and breaking one with a tool.

  \<^bold>\<open>Players and entities\<close> (src/player, src/entity). Survival and Survival_Facts:
  experience, statistics, hunger, damage, effects and movement of a player.
  Entity_Types: vectors, boxes, damage sources and the registry of entity types.
  Entities: one entity, its living part and the manager of them all; a pointer to
  an entity is its number, \<open>on_entity\<close> is a call through it, and \<open>std::map\<close> is the list
  of its entries in the order of the keys. Entity_Links: who rides and holds whom,
  the invariant of these links, and that each operation keeps it. Entity_Facts:
  ticks, snapshots, and every history of a manager (\<open>entity_reachable\<close>; \<open>entity_history\<close> also
  says which identifiers of passengers from outside were given to new entities).
  Ai: memories, goals, the selector and the system that keeps a mind for each mob;
  Ai_Goals: no two running goals of a mob share a control, in every history of a
  system; Ai_Paths: the search for paths returns, a path it finds is a shortest walk,
  and it finds one whose length is small for the number of nodes it may visit.
  Dropped_Items: items that lie in the world, merge, age and are picked up, none made
  and none lost but by age. Tracking: what a viewer is told about the entities
  around it, and that it knows from this which ones the tracker holds.

  \<^bold>\<open>What the lemmas show.\<close> Each component has an invariant that every operation
  keeps (\<open>container_ok\<close>, \<open>chunk_ok\<close>, \<open>survival_ok\<close> and others), stated for every
  reachable state; formats have round trips; the world, the level storage and the
  chunk are refined to maps from positions to blocks; matching of recipes, the
  experience loop and the paletted container agree with reference definitions;
  decoders are shown to reject or to consume. A loop that may run forever is a
  partial function with a theorem that it returns.

  \<^bold>\<open>Bounds and fuel.\<close> No definition has fuel. Recursion is structural or has a
  measure: the rest of the input for the loaders and readers (the nesting of tags
  is bounded by the limit the code passes), the height for falling blocks, the
  number of cached chunks for eviction, the level for experience.

  \<^bold>\<open>Parameters.\<close> Code outside src/ is an argument of the definitions that use it:
  zlib's \<open>deflate\<close> and \<open>uncompress\<close>, OpenSSL's SHA-256, and of the standard library
  \<open>std::sin\<close>, \<open>std::cos\<close>, \<open>std::pow\<close>, \<open>std::atan2\<close> and \<open>std::hypot\<close>, whose values the
  standard leaves open, and which of its least elements a priority queue has on top.
  The laws assumed of them are that \<open>uncompress\<close> undoes \<open>deflate\<close> and that the top of
  a queue is one of its least elements.

  \<^bold>\<open>Not modelled.\<close> Sockets, threads, the session's TLS client and the dispatch
  loop of server.cpp, the calls to OpenSSL in crypto.cpp and main.cpp are input and
  output. Three systems built on the entities (animals, projectiles,
  spawning) and the parts of world.cpp that compute with
  doubles (rain and thunder levels, collisions, lines of sight, the border) are not
  modelled either, nor is the text of the persisted world state (\<open>new_world\<close> starts
  from the settings it yields).

  \<^bold>\<open>What modelling showed.\<close> Findings are lemmas next to the definitions they are
  about: \<open>surrogate_continuation_unchecked\<close>, \<open>limit_counts_whole_output\<close> and
  \<open>overlong_shortened\<close> (Nbt), \<open>level_metadata_roundtrip\<close> (Metadata),
  \<open>identifier_normalised\<close> (Codec), \<open>client_information_enums_cut\<close> (Packets),
  \<open>pack_entity_delta_wraps\<close> (Play_Clientbound), \<open>overfed\<close> (Survival_Facts),
  \<open>boarded_id_reused\<close> (Entity_Facts), \<open>dry_thunder_kept\<close> (World). Without a storage behind it, the chunk
  cache loses edits when it evicts a chunk; the theorems on the world are about
  worlds with a storage.
\<close>

end
